(* ===== verification/Prelude.thy ===== *)
theory Prelude
  imports Main "HOL-Library.Word" "HOL-Library.Finite_Map" "HOL-Library.Sublist"
begin

text \<open>
  Shared vocabulary of the development: the collections of facts the component proofs
  draw on, the machine integers of the Rust source, and the generic list, option and map
  lemmas used by more than one component.

  Rust's \<open>i64\<close> is an \<^typ>\<open>int\<close> with the clamping (\<open>saturating_*\<close>), checked and wrapping
  operations written out; the atomic \<open>u64\<close> counters are \<^typ>\<open>64 word\<close>, whose addition wraps
  as \<open>fetch_add\<close> does. A \<open>HashMap\<close> or \<open>BTreeMap\<close> is a finite map, so that two maps with the
  same entries are equal.
\<close>

named_theorems i64_simps \<open>definitions of the i64 operations\<close>
named_theorems cache_simps \<open>field-level behaviour of the sink cache operations\<close>
named_theorems wm_simps \<open>watermark bookkeeping of the event-time windows\<close>
named_theorems kv_simps \<open>key/value store operations\<close>

subsection \<open>Machine integers\<close>

type_synonym u64 = "64 word"

definition i64_min :: int where
  [i64_simps]: "i64_min = - (2 ^ 63)"

definition i64_max :: int where
  [i64_simps]: "i64_max = 2 ^ 63 - 1"

definition u64_max :: int where
  [i64_simps]: "u64_max = 2 ^ 64 - 1"

definition in_i64 :: "int \<Rightarrow> bool" where
  [i64_simps]: "in_i64 x \<longleftrightarrow> i64_min \<le> x \<and> x \<le> i64_max"

definition sat64 :: "int \<Rightarrow> int" where
  [i64_simps]: "sat64 x = max i64_min (min i64_max x)"

definition sat_add :: "int \<Rightarrow> int \<Rightarrow> int" where
  "sat_add a b = sat64 (a + b)"

definition sat_sub :: "int \<Rightarrow> int \<Rightarrow> int" where
  "sat_sub a b = sat64 (a - b)"

definition sat_mul :: "int \<Rightarrow> int \<Rightarrow> int" where
  "sat_mul a b = sat64 (a * b)"

definition checked_i64 :: "int \<Rightarrow> int option" where
  "checked_i64 x = (if in_i64 x then Some x else None)"

definition wrap64 :: "int \<Rightarrow> int" where
  "wrap64 x = (x + 2 ^ 63) mod 2 ^ 64 - 2 ^ 63"

lemma sat64_in_i64 [simp, intro]: "in_i64 (sat64 x)"
  by (simp add: i64_simps)

lemma sat64_id: "in_i64 x \<Longrightarrow> sat64 x = x"
  by (simp add: i64_simps)

lemma sat64_mono: "x \<le> y \<Longrightarrow> sat64 x \<le> sat64 y"
  by (simp add: i64_simps)

lemma sat_add_in_i64 [simp]: "in_i64 (sat_add a b)"
  by (simp add: sat_add_def)

lemma sat_sub_in_i64 [simp]: "in_i64 (sat_sub a b)"
  by (simp add: sat_sub_def)

lemma wrap64_in_i64 [simp]: "in_i64 (wrap64 x)"
proof -
  have "(0::int) \<le> (x + 2 ^ 63) mod 2 ^ 64" "(x + 2 ^ 63) mod 2 ^ 64 < 2 ^ 64"
    by (rule pos_mod_sign, simp) (rule pos_mod_bound, simp)
  then show ?thesis by (simp add: wrap64_def i64_simps)
qed

lemma wrap64_id: "in_i64 x \<Longrightarrow> wrap64 x = x"
  by (simp add: wrap64_def i64_simps)

lemma sat_add_gt: "in_i64 a \<Longrightarrow> 0 < b \<Longrightarrow> a < i64_max \<Longrightarrow> a < sat_add a b"
  by (auto simp: sat_add_def i64_simps)

lemma sat_add_ge: "in_i64 a \<Longrightarrow> 0 \<le> b \<Longrightarrow> a \<le> sat_add a b"
  by (auto simp: sat_add_def i64_simps)

lemma sat_sub_le: "in_i64 a \<Longrightarrow> 0 \<le> b \<Longrightarrow> sat_sub a b \<le> a"
  by (auto simp: sat_sub_def i64_simps)

subsection \<open>Lists\<close>

text \<open>\<open>slice::chunks(n)\<close>: consecutive pieces of length \<open>n\<close>, the last one possibly shorter.
  Rust panics for \<open>n = 0\<close>; the model returns no chunk there.\<close>

function chunks :: "nat \<Rightarrow> 'a list \<Rightarrow> 'a list list" where
  "chunks n xs = (if n = 0 \<or> xs = [] then [] else take n xs # chunks n (drop n xs))"
  by pat_completeness auto
termination
  by (relation "measure (\<lambda>(n, xs). length xs)") auto

declare chunks.simps [simp del]

lemma chunks_Nil [simp]: "chunks n [] = []"
  by (simp add: chunks.simps)

lemma concat_chunks: "0 < n \<Longrightarrow> concat (chunks n xs) = xs"
proof (induction n xs rule: chunks.induct)
  case (1 n xs)
  then show ?case by (subst chunks.simps) auto
qed

lemma chunks_nonempty: "c \<in> set (chunks n xs) \<Longrightarrow> c \<noteq> []"
proof (induction n xs rule: chunks.induct)
  case (1 n xs)
  then show ?case by (subst (asm) chunks.simps) (auto split: if_splits)
qed

lemma chunks_length_le: "c \<in> set (chunks n xs) \<Longrightarrow> length c \<le> n"
proof (induction n xs rule: chunks.induct)
  case (1 n xs)
  then show ?case by (subst (asm) chunks.simps) (auto split: if_splits)
qed

lemma drop_append_short: "k \<le> length xs \<Longrightarrow> drop k (xs @ ys) = drop k xs @ ys"
  by simp

lemma drop_drop_add: "drop j (drop k xs) = drop (k + j) xs"
  by (simp add: add.commute)

lemma subseq_drop: "subseq (drop k xs) xs"
  by (metis list_emb_append2 append_take_drop_id subseq_order.order_refl)

lemma map_filter_map_Some:
  "(\<And>x. x \<in> set xs \<Longrightarrow> f (g x) = Some x) \<Longrightarrow> List.map_filter f (map g xs) = xs"
  by (induction xs) (auto simp: List.map_filter_simps)

end
