(* ===== verification/SinkCache.thy ===== *)
theory SinkCache
  imports Prelude
begin

text \<open>
  The sink offline cache (\<open>crates/rekuiper-server/src/sink_cache.rs\<close>): records whose send
  failed are kept in three tiers, an in-memory head (oldest), disk pages, and an in-memory
  write page (newest).

  The page directory is a finite map from page sequence numbers to file contents. The
  outcome of a file system call that the code checks or ignores is read from an explicit
  \<open>disk\<close> oracle, so every I/O failure branch of the source is a branch of the model. The
  \<open>serde_json\<close> encoding of one record as a line of text is the parameter \<open>codec\<close>.
\<close>

subsection \<open>Configuration and state\<close>

datatype resend_priority = LiveFirst | Equal | CacheFirst

record cache_config =
  memory_threshold :: nat
  max_disk :: nat
  page_size :: nat
  resend_interval :: nat
  clean_at_stop :: bool
  priority :: resend_priority
  indicator_field :: "string option"
  destination :: "string option"

definition default_config :: cache_config where
  "default_config = \<lparr>memory_threshold = 1024, max_disk = 1024000, page_size = 256,
     resend_interval = 0, clean_at_stop = False, priority = Equal,
     indicator_field = None, destination = None\<rparr>"

record page =
  pg_seq :: nat
  pg_count :: nat

type_synonym page_dir = "(nat, string) fmap"

record 'r codec =
  to_line :: "'r \<Rightarrow> string option"
  from_line :: "string \<Rightarrow> 'r option"

record disk =
  list_ok :: bool
  rmdir_ok :: bool
  read_ok :: "nat \<Rightarrow> bool"
  write_ok :: "nat \<Rightarrow> bool"
  remove_ok :: "nat \<Rightarrow> bool"

record 'r sink_cache =
  sc_cfg :: cache_config
  sc_dir :: page_dir
  sc_head :: "'r list"
  sc_pages :: "page list"
  sc_tail :: "'r list"
  sc_disk_records :: nat
  sc_next_seq :: nat
  sc_dropped :: nat

definition SEQ_BASE :: nat where
  "SEQ_BASE = 2 ^ 40"

subsection \<open>Page files\<close>

definition LF :: char where "LF = CHR 0x0A"

definition CR :: char where "CR = CHR 0x0D"

text \<open>\<open>BufRead::lines\<close>: split after each line feed, drop a final carriage return of a line.\<close>

fun lf_split :: "string \<Rightarrow> string list" where
  "lf_split [] = []"
| "lf_split (c # cs) =
     (if c = LF then [] # lf_split cs
      else (case lf_split cs of [] \<Rightarrow> [[c]] | l # ls \<Rightarrow> (c # l) # ls))"

definition strip_cr :: "string \<Rightarrow> string" where
  "strip_cr l = (if l \<noteq> [] \<and> last l = CR then butlast l else l)"

definition buf_lines :: "string \<Rightarrow> string list" where
  "buf_lines s = map strip_cr (lf_split s)"

fun encode_page :: "'r codec \<Rightarrow> 'r list \<Rightarrow> string option" where
  "encode_page cdc [] = Some []"
| "encode_page cdc (r # rs) =
     (case to_line cdc r of
        None \<Rightarrow> None
      | Some l \<Rightarrow>
          (case encode_page cdc rs of None \<Rightarrow> None | Some b \<Rightarrow> Some (l @ LF # b)))"

definition decode_page :: "'r codec \<Rightarrow> string \<Rightarrow> 'r list" where
  "decode_page cdc txt = List.map_filter (from_line cdc) (buf_lines txt)"

text \<open>A page is written to a temporary file and renamed, so a failure leaves the page files
  as they were.\<close>

definition write_page :: "disk \<Rightarrow> 'r codec \<Rightarrow> nat \<Rightarrow> 'r list \<Rightarrow> page_dir \<Rightarrow> page_dir option" where
  "write_page d cdc seq records dir =
     (case encode_page cdc records of
        None \<Rightarrow> None
      | Some buf \<Rightarrow> if write_ok d seq then Some (fmupd seq buf dir) else None)"

definition remove_page :: "disk \<Rightarrow> nat \<Rightarrow> page_dir \<Rightarrow> page_dir" where
  "remove_page d seq dir = (if remove_ok d seq then fmdrop seq dir else dir)"

definition open_page :: "disk \<Rightarrow> nat \<Rightarrow> page_dir \<Rightarrow> string option" where
  "open_page d seq dir = (if read_ok d seq then fmlookup dir seq else None)"

subsection \<open>Operations\<close>

definition cache_len :: "'r sink_cache \<Rightarrow> nat" where
  "cache_len c = length (sc_head c) + sc_disk_records c + length (sc_tail c)"

definition cache_is_empty :: "'r sink_cache \<Rightarrow> bool" where
  "cache_is_empty c \<longleftrightarrow> cache_len c = 0"

definition disk_enabled :: "'r sink_cache \<Rightarrow> bool" where
  "disk_enabled c \<longleftrightarrow> page_size (sc_cfg c) \<le> max_disk (sc_cfg c)"

definition drop_oldest_page :: "disk \<Rightarrow> 'r sink_cache \<Rightarrow> bool \<times> 'r sink_cache" where
  "drop_oldest_page d c =
     (case sc_pages c of
        [] \<Rightarrow> (False, c)
      | p # ps \<Rightarrow>
          (True, c\<lparr>sc_pages := ps,
                    sc_dir := remove_page d (pg_seq p) (sc_dir c),
                    sc_disk_records := sc_disk_records c - pg_count p,
                    sc_dropped := sc_dropped c + pg_count p\<rparr>))"

definition load_oldest_page :: "disk \<Rightarrow> 'r codec \<Rightarrow> 'r sink_cache \<Rightarrow> bool \<times> 'r sink_cache" where
  "load_oldest_page d cdc c =
     (case sc_pages c of
        [] \<Rightarrow> (False, c)
      | p # ps \<Rightarrow>
          (let recs = (case open_page d (pg_seq p) (sc_dir c) of
                         None \<Rightarrow> [] | Some txt \<Rightarrow> decode_page cdc txt)
           in (True, c\<lparr>sc_pages := ps,
                        sc_disk_records := sc_disk_records c - pg_count p,
                        sc_head := sc_head c @ recs,
                        sc_dropped := sc_dropped c + (pg_count p - length recs),
                        sc_dir := remove_page d (pg_seq p) (sc_dir c)\<rparr>)))"

text \<open>The rotation loop of \<open>spill_tail\<close>: while the disk budget would be exceeded, the oldest
  in-memory records are discarded and the oldest page moves into memory.\<close>

function spill_rotate :: "disk \<Rightarrow> 'r codec \<Rightarrow> 'r sink_cache \<Rightarrow> 'r sink_cache" where
  "spill_rotate d cdc c =
     (if sc_disk_records c + length (sc_tail c) > max_disk (sc_cfg c) then
        (let n = min (page_size (sc_cfg c)) (length (sc_head c));
             c1 = c\<lparr>sc_head := drop n (sc_head c), sc_dropped := sc_dropped c + n\<rparr>
         in case load_oldest_page d cdc c1 of
              (True, c2) \<Rightarrow> spill_rotate d cdc c2
            | (False, c2) \<Rightarrow>
                if n = 0 then
                  (let excess = min (sc_disk_records c2 + length (sc_tail c2)
                                       - max_disk (sc_cfg c2)) (length (sc_tail c2))
                   in c2\<lparr>sc_tail := drop excess (sc_tail c2),
                         sc_dropped := sc_dropped c2 + excess\<rparr>)
                else c2)
      else c)"
  by pat_completeness auto
termination
  by (relation "measure (\<lambda>(d, cdc, c). length (sc_pages c))")
    (auto simp: load_oldest_page_def Let_def split: list.splits)

declare spill_rotate.simps [simp del]

definition spill_tail :: "disk \<Rightarrow> 'r codec \<Rightarrow> 'r sink_cache \<Rightarrow> 'r sink_cache" where
  "spill_tail d cdc c =
     (if sc_tail c = [] then c
      else (let c = spill_rotate d cdc c
            in if sc_tail c = [] then c
               else (let seq = sc_next_seq c; records = sc_tail c; c = c\<lparr>sc_tail := []\<rparr>
                     in case write_page d cdc seq records (sc_dir c) of
                          Some dir' \<Rightarrow>
                            c\<lparr>sc_dir := dir',
                              sc_next_seq := sc_next_seq c + 1,
                              sc_disk_records := sc_disk_records c + length records,
                              sc_pages := sc_pages c @ [\<lparr>pg_seq = seq, pg_count = length records\<rparr>]\<rparr>
                        | None \<Rightarrow> c\<lparr>sc_head := sc_head c @ records\<rparr>)))"

definition push :: "disk \<Rightarrow> 'r codec \<Rightarrow> 'r \<Rightarrow> 'r sink_cache \<Rightarrow> 'r sink_cache" where
  "push d cdc record c =
     (if \<not> disk_enabled c then
        (let c1 = (if memory_threshold (sc_cfg c) \<le> length (sc_head c)
                   then c\<lparr>sc_head := tl (sc_head c), sc_dropped := sc_dropped c + 1\<rparr>
                   else c)
         in c1\<lparr>sc_head := sc_head c1 @ [record]\<rparr>)
      else if sc_pages c = [] \<and> sc_tail c = [] \<and> length (sc_head c) < memory_threshold (sc_cfg c)
      then c\<lparr>sc_head := sc_head c @ [record]\<rparr>
      else (let c1 = c\<lparr>sc_tail := sc_tail c @ [record]\<rparr>
            in if page_size (sc_cfg c1) \<le> length (sc_tail c1) then spill_tail d cdc c1 else c1))"

text \<open>\<open>front\<close> refills the memory head when it is empty and returns its first record.\<close>

definition refill :: "disk \<Rightarrow> 'r codec \<Rightarrow> 'r sink_cache \<Rightarrow> 'r sink_cache" where
  "refill d cdc c =
     (if sc_head c = [] then
        (case load_oldest_page d cdc c of
           (True, c1) \<Rightarrow> c1
         | (False, c1) \<Rightarrow>
             if sc_tail c1 \<noteq> [] then c1\<lparr>sc_head := sc_head c1 @ sc_tail c1, sc_tail := []\<rparr>
             else c1)
      else c)"

definition front :: "disk \<Rightarrow> 'r codec \<Rightarrow> 'r sink_cache \<Rightarrow> 'r option \<times> 'r sink_cache" where
  "front d cdc c =
     (let c1 = refill d cdc c
      in (case sc_head c1 of [] \<Rightarrow> None | r # _ \<Rightarrow> Some r, c1))"

definition pop_front :: "disk \<Rightarrow> 'r codec \<Rightarrow> 'r sink_cache \<Rightarrow> 'r option \<times> 'r sink_cache" where
  "pop_front d cdc c =
     (case front d cdc c of
        (None, c1) \<Rightarrow> (None, c1)
      | (Some _, c1) \<Rightarrow>
          (case sc_head c1 of
             [] \<Rightarrow> (None, c1)
           | r # rs \<Rightarrow> (Some r, c1\<lparr>sc_head := rs\<rparr>)))"

subsection \<open>Open and close\<close>

definition adopt_one :: "disk \<Rightarrow> nat \<Rightarrow> 'r sink_cache \<Rightarrow> 'r sink_cache" where
  "adopt_one d seq c =
     (let count = (case open_page d seq (sc_dir c) of
                     None \<Rightarrow> 0 | Some txt \<Rightarrow> length (buf_lines txt))
      in if count = 0 then c\<lparr>sc_dir := remove_page d seq (sc_dir c)\<rparr>
         else c\<lparr>sc_next_seq := max (sc_next_seq c) (seq + 1),
                sc_disk_records := sc_disk_records c + count,
                sc_pages := sc_pages c @ [\<lparr>pg_seq = seq, pg_count = count\<rparr>]\<rparr>)"

function trim_disk :: "disk \<Rightarrow> 'r sink_cache \<Rightarrow> 'r sink_cache" where
  "trim_disk d c =
     (if sc_disk_records c > max_disk (sc_cfg c) then
        (case drop_oldest_page d c of
           (True, c1) \<Rightarrow> trim_disk d c1
         | (False, c1) \<Rightarrow> c1)
      else c)"
  by pat_completeness auto
termination
  by (relation "measure (\<lambda>(d, c). length (sc_pages c))")
    (auto simp: drop_oldest_page_def split: list.splits)

declare trim_disk.simps [simp del]

definition adopt_pages :: "disk \<Rightarrow> 'r sink_cache \<Rightarrow> 'r sink_cache" where
  "adopt_pages d c =
     (if list_ok d
      then trim_disk d (fold (adopt_one d) (sorted_list_of_fset (fmdom (sc_dir c))) c)
      else c)"

definition open_cache :: "disk \<Rightarrow> cache_config \<Rightarrow> page_dir \<Rightarrow> 'r sink_cache" where
  "open_cache d cfg dir =
     adopt_pages d \<lparr>sc_cfg = cfg, sc_dir = dir, sc_head = [], sc_pages = [], sc_tail = [],
       sc_disk_records = 0, sc_next_seq = SEQ_BASE, sc_dropped = 0\<rparr>"

text \<open>The pages of the memory head at stop: a chunk whose write fails is lost (and logged).\<close>

fun write_head_pages :: "disk \<Rightarrow> 'r codec \<Rightarrow> nat \<Rightarrow> 'r list list \<Rightarrow> page_dir \<Rightarrow> page_dir" where
  "write_head_pages d cdc base [] dir = dir"
| "write_head_pages d cdc base (chunk # cs) dir =
     write_head_pages d cdc (base + 1) cs
       (case write_page d cdc base chunk dir of None \<Rightarrow> dir | Some dir' \<Rightarrow> dir')"

definition close_cache :: "disk \<Rightarrow> 'r codec \<Rightarrow> 'r sink_cache \<Rightarrow> page_dir" where
  "close_cache d cdc c =
     (if clean_at_stop (sc_cfg c) then (if rmdir_ok d then fmempty else sc_dir c)
      else (let c = spill_tail d cdc c
            in if sc_head c = [] then sc_dir c
               else (let first = (case sc_pages c of [] \<Rightarrow> sc_next_seq c | p # _ \<Rightarrow> pg_seq p);
                         cs = chunks (page_size (sc_cfg c)) (sc_head c);
                         base = first - length cs
                     in write_head_pages d cdc base cs (sc_dir c))))"

end
