(* ===== verification/SinkCache_Fifo.thy ===== *)
theory SinkCache_Fifo
  imports SinkCache
begin

text \<open>
  Correctness of the sink cache: on a disk whose operations succeed, the three tiers behave
  as one FIFO queue that may only lose its oldest records, and every loss is counted.
\<close>

subsection \<open>Abstraction and invariant\<close>

definition codec_ok :: "'r codec \<Rightarrow> bool" where
  "codec_ok cdc \<longleftrightarrow>
     (\<forall>r. \<exists>l. to_line cdc r = Some l \<and> LF \<notin> set l \<and> CR \<notin> set l \<and> from_line cdc l = Some r)"

definition disk_reliable :: "disk \<Rightarrow> bool" where
  "disk_reliable d \<longleftrightarrow>
     list_ok d \<and> rmdir_ok d \<and> (\<forall>s. read_ok d s \<and> write_ok d s \<and> remove_ok d s)"

definition page_records :: "'r codec \<Rightarrow> page_dir \<Rightarrow> page \<Rightarrow> 'r list" where
  "page_records cdc dir p =
     (case fmlookup dir (pg_seq p) of None \<Rightarrow> [] | Some txt \<Rightarrow> decode_page cdc txt)"

definition contents :: "'r codec \<Rightarrow> 'r sink_cache \<Rightarrow> 'r list" where
  "contents cdc c =
     sc_head c @ concat (map (page_records cdc (sc_dir c)) (sc_pages c)) @ sc_tail c"

definition page_wf :: "'r codec \<Rightarrow> page_dir \<Rightarrow> page \<Rightarrow> bool" where
  "page_wf cdc dir p \<longleftrightarrow>
     (case fmlookup dir (pg_seq p) of
        None \<Rightarrow> False
      | Some txt \<Rightarrow> length (decode_page cdc txt) = pg_count p \<and>
                    length (buf_lines txt) = pg_count p \<and> 0 < pg_count p)"

definition cache_wf :: "'r codec \<Rightarrow> 'r sink_cache \<Rightarrow> bool" where
  "cache_wf cdc c \<longleftrightarrow>
     0 < page_size (sc_cfg c) \<and> 0 < memory_threshold (sc_cfg c) \<and>
     list_all (page_wf cdc (sc_dir c)) (sc_pages c) \<and>
     sorted_wrt (<) (map pg_seq (sc_pages c)) \<and>
     list_all (\<lambda>p. pg_seq p < sc_next_seq c) (sc_pages c) \<and>
     fmdom (sc_dir c) = fset_of_list (map pg_seq (sc_pages c)) \<and>
     sc_disk_records c = sum_list (map pg_count (sc_pages c)) \<and>
     sc_disk_records c \<le> max_disk (sc_cfg c) \<and>
     length (sc_tail c) \<le> page_size (sc_cfg c) \<and>
     (disk_enabled c \<or> sc_pages c = [] \<and> sc_tail c = [])"

definition cache_inv :: "'r codec \<Rightarrow> 'r sink_cache \<Rightarrow> bool" where
  "cache_inv cdc c \<longleftrightarrow> cache_wf cdc c \<and> length (sc_tail c) < page_size (sc_cfg c)"

subsection \<open>Page encoding\<close>

lemma lf_split_line: "LF \<notin> set l \<Longrightarrow> lf_split (l @ LF # b) = l # lf_split b"
  by (induction l) auto

lemma strip_cr_id: "CR \<notin> set l \<Longrightarrow> strip_cr l = l"
  by (auto simp: strip_cr_def dest: last_in_set)

lemma encode_total:
  assumes "codec_ok cdc"
  shows "\<exists>b. encode_page cdc rs = Some b"
proof (induction rs)
  case Nil
  show ?case by simp
next
  case (Cons r rs)
  from assms obtain l where "to_line cdc r = Some l" unfolding codec_ok_def by blast
  with Cons.IH show ?case by auto
qed

lemma decode_encode:
  assumes "codec_ok cdc" and "encode_page cdc rs = Some b"
  shows "decode_page cdc b = rs \<and> length (buf_lines b) = length rs"
  using assms(2)
proof (induction rs arbitrary: b)
  case Nil
  then show ?case by (simp add: decode_page_def buf_lines_def)
next
  case (Cons r rs)
  from assms(1) obtain l
    where l: "to_line cdc r = Some l" "LF \<notin> set l" "CR \<notin> set l" "from_line cdc l = Some r"
    unfolding codec_ok_def by blast
  with Cons.prems obtain b' where b': "encode_page cdc rs = Some b'" "b = l @ LF # b'"
    by (auto split: option.splits)
  with Cons.IH have "decode_page cdc b' = rs" "length (buf_lines b') = length rs" by auto
  with l b' show ?case
    by (simp add: decode_page_def buf_lines_def lf_split_line strip_cr_id)
qed

subsection \<open>Moving pages\<close>

lemma reliable_simps [simp]:
  "disk_reliable d \<Longrightarrow> open_page d s dir = fmlookup dir s"
  "disk_reliable d \<Longrightarrow> remove_page d s dir = fmdrop s dir"
  by (simp_all add: disk_reliable_def open_page_def remove_page_def)

lemma page_records_drop: "pg_seq p \<noteq> s \<Longrightarrow> page_records cdc (fmdrop s dir) p = page_records cdc dir p"
  by (simp add: page_records_def)

lemma page_wf_drop: "pg_seq p \<noteq> s \<Longrightarrow> page_wf cdc (fmdrop s dir) p = page_wf cdc dir p"
  by (simp add: page_wf_def)

lemma page_records_upd: "pg_seq p \<noteq> s \<Longrightarrow> page_records cdc (fmupd s t dir) p = page_records cdc dir p"
  by (simp add: page_records_def)

lemma page_wf_upd: "pg_seq p \<noteq> s \<Longrightarrow> page_wf cdc (fmupd s t dir) p = page_wf cdc dir p"
  by (simp add: page_wf_def)

lemma page_wf_length: "page_wf cdc dir p \<Longrightarrow> length (page_records cdc dir p) = pg_count p"
  by (simp add: page_wf_def page_records_def split: option.splits)

lemma pages_records_drop:
  assumes "\<forall>p \<in> set ps. pg_seq p \<noteq> s"
  shows "map (page_records cdc (fmdrop s dir)) ps = map (page_records cdc dir) ps"
    and "list_all (page_wf cdc (fmdrop s dir)) ps = list_all (page_wf cdc dir) ps"
  using assms by (auto simp: page_records_drop page_wf_drop list_all_iff)

lemma pages_records_upd:
  assumes "\<forall>p \<in> set ps. pg_seq p \<noteq> s"
  shows "map (page_records cdc (fmupd s t dir)) ps = map (page_records cdc dir) ps"
    and "list_all (page_wf cdc (fmupd s t dir)) ps = list_all (page_wf cdc dir) ps"
  using assms by (auto simp: page_records_upd page_wf_upd list_all_iff)

lemma fmdom_drop_first:
  assumes "fmdom dir = fset_of_list (map pg_seq (p # ps))" "\<forall>q \<in> set ps. pg_seq q \<noteq> pg_seq p"
  shows "fmdom (fmdrop (pg_seq p) dir) = fset_of_list (map pg_seq ps)"
proof -
  have "pg_seq p |\<notin>| fset_of_list (map pg_seq ps)"
    using assms(2) by (auto simp: fset_of_list_elem)
  then show ?thesis using assms(1) by auto
qed

lemma load_oldest_page_Nil [cache_simps]:
  "sc_pages c = [] \<Longrightarrow> load_oldest_page d cdc c = (False, c)"
  by (simp add: load_oldest_page_def)

lemma load_oldest_page_Cons:
  assumes d: "disk_reliable d" and wf: "cache_wf cdc c" and ps: "sc_pages c = p # ps"
  obtains c' where "load_oldest_page d cdc c = (True, c')" "cache_wf cdc c'"
    "contents cdc c' = contents cdc c" "sc_dropped c' = sc_dropped c"
    "sc_tail c' = sc_tail c" "sc_cfg c' = sc_cfg c" "sc_pages c' = ps"
    "sc_next_seq c' = sc_next_seq c"
    "sc_head c' = sc_head c @ page_records cdc (sc_dir c) p"
    "sc_disk_records c' = sc_disk_records c - pg_count p"
proof -
  let ?rs = "page_records cdc (sc_dir c) p"
  let ?c = "c\<lparr>sc_pages := ps, sc_disk_records := sc_disk_records c - pg_count p,
      sc_head := sc_head c @ ?rs, sc_dir := fmdrop (pg_seq p) (sc_dir c)\<rparr>"
  have pwf: "page_wf cdc (sc_dir c) p" using wf ps by (simp add: cache_wf_def)
  have fresh: "\<forall>q \<in> set ps. pg_seq q \<noteq> pg_seq p"
    using wf ps by (force simp: cache_wf_def)
  have eq: "load_oldest_page d cdc c = (True, ?c)"
    using d ps page_wf_length [OF pwf]
    by (simp add: load_oldest_page_def page_records_def Let_def split: option.splits)
  have "cache_wf cdc ?c"
    using wf ps fmdom_drop_first [of "sc_dir c" p ps] fresh
    by (auto simp: cache_wf_def disk_enabled_def pages_records_drop [OF fresh])
  moreover have "contents cdc ?c = contents cdc c"
    using ps by (simp add: contents_def pages_records_drop [OF fresh])
  ultimately show ?thesis using eq by (intro that [of ?c]) simp_all
qed


subsection \<open>Shedding the oldest records\<close>

text \<open>\<open>sheds cdc xs c c' k\<close>: state \<open>c'\<close> holds \<open>xs\<close> less its \<open>k\<close> oldest records, and exactly
  \<open>k\<close> records were added to the drop counter of \<open>c\<close>.\<close>

definition sheds :: "'r codec \<Rightarrow> 'r list \<Rightarrow> 'r sink_cache \<Rightarrow> 'r sink_cache \<Rightarrow> nat \<Rightarrow> bool" where
  "sheds cdc xs c c' k \<longleftrightarrow>
     contents cdc c' = drop k xs \<and> sc_dropped c' = sc_dropped c + k \<and> k \<le> length xs"

lemma sheds_trans:
  "sheds cdc xs c c1 j \<Longrightarrow> sheds cdc (contents cdc c1) c1 c2 k \<Longrightarrow> sheds cdc xs c c2 (j + k)"
  by (auto simp: sheds_def add.commute)

lemma sheds_refl: "sheds cdc (contents cdc c) c c 0"
  by (simp add: sheds_def)

lemma drain_head_sheds:
  assumes "n \<le> length (sc_head c)"
  shows "sheds cdc (contents cdc c) c
           (c\<lparr>sc_head := drop n (sc_head c), sc_dropped := sc_dropped c + n\<rparr>) n"
  using assms by (auto simp: sheds_def contents_def)

lemma drain_head_wf:
  "cache_wf cdc c \<Longrightarrow> cache_wf cdc (c\<lparr>sc_head := h, sc_dropped := n\<rparr>)"
  by (simp add: cache_wf_def disk_enabled_def)

lemma wf_no_pages_fits:
  assumes "cache_wf cdc c" "disk_enabled c" "sc_pages c = []"
  shows "sc_disk_records c + length (sc_tail c) \<le> max_disk (sc_cfg c)"
  using assms by (simp add: cache_wf_def disk_enabled_def)

lemma spill_rotate_spec:
  assumes "disk_reliable d" "cache_wf cdc c" "disk_enabled c"
  shows "\<exists>k. sheds cdc (contents cdc c) c (spill_rotate d cdc c) k \<and>
     cache_wf cdc (spill_rotate d cdc c) \<and>
     sc_tail (spill_rotate d cdc c) = sc_tail c \<and>
     sc_cfg (spill_rotate d cdc c) = sc_cfg c \<and>
     sc_next_seq (spill_rotate d cdc c) = sc_next_seq c \<and>
     set (sc_pages (spill_rotate d cdc c)) \<subseteq> set (sc_pages c) \<and>
     (sc_disk_records c + length (sc_tail c) \<le> max_disk (sc_cfg c) \<longrightarrow> k = 0) \<and>
     sc_disk_records (spill_rotate d cdc c) + length (sc_tail c) \<le> max_disk (sc_cfg c)"
  using assms
proof (induction d cdc c rule: spill_rotate.induct)
  case (1 d cdc c)
  show ?case
  proof (cases "sc_disk_records c + length (sc_tail c) > max_disk (sc_cfg c)")
    case False
    then have "spill_rotate d cdc c = c" by (subst spill_rotate.simps) simp
    with False "1.prems" show ?thesis using sheds_refl [of cdc c] by (intro exI [of _ 0]) simp
  next
    case True
    define n where "n = min (page_size (sc_cfg c)) (length (sc_head c))"
    define c1 where "c1 = c\<lparr>sc_head := drop n (sc_head c), sc_dropped := sc_dropped c + n\<rparr>"
    have wf1: "cache_wf cdc c1" and en1: "disk_enabled c1"
      using "1.prems"(2,3) by (simp_all add: c1_def drain_head_wf disk_enabled_def)
    have shed1: "sheds cdc (contents cdc c) c c1 n"
      unfolding c1_def by (rule drain_head_sheds) (simp add: n_def)
    from True wf_no_pages_fits [OF "1.prems"(2,3)] obtain p ps where ps: "sc_pages c1 = p # ps"
      by (cases "sc_pages c") (auto simp: c1_def)
    obtain c2 where c2: "load_oldest_page d cdc c1 = (True, c2)" "cache_wf cdc c2"
        "contents cdc c2 = contents cdc c1" "sc_dropped c2 = sc_dropped c1"
        "sc_tail c2 = sc_tail c1" "sc_cfg c2 = sc_cfg c1" "sc_next_seq c2 = sc_next_seq c1"
        "sc_pages c2 = ps"
      using load_oldest_page_Cons [OF "1.prems"(1) wf1 ps] by metis
    have en2: "disk_enabled c2" using en1 c2 by (simp add: disk_enabled_def)
    have eq: "spill_rotate d cdc c = spill_rotate d cdc c2"
      using True c2(1) by (subst spill_rotate.simps) (simp add: Let_def n_def c1_def)
    from "1.IH" [OF True n_def c1_def c2(1) [symmetric], simplified, OF "1.prems"(1) c2(2) en2]
    obtain k where k: "sheds cdc (contents cdc c2) c2 (spill_rotate d cdc c2) k"
      "cache_wf cdc (spill_rotate d cdc c2)" "sc_tail (spill_rotate d cdc c2) = sc_tail c2"
      "sc_cfg (spill_rotate d cdc c2) = sc_cfg c2"
      "sc_next_seq (spill_rotate d cdc c2) = sc_next_seq c2"
      "set (sc_pages (spill_rotate d cdc c2)) \<subseteq> set (sc_pages c2)"
      "sc_disk_records (spill_rotate d cdc c2) + length (sc_tail c2) \<le> max_disk (sc_cfg c2)"
      by auto
    have "sheds cdc (contents cdc c1) c1 (spill_rotate d cdc c2) k"
      using k(1) c2(3,4) by (simp add: sheds_def)
    then have "sheds cdc (contents cdc c) c (spill_rotate d cdc c2) (n + k)"
      by (rule sheds_trans [OF shed1])
    then show ?thesis
      using k c2 ps True unfolding eq by (intro exI [of _ "n + k"]) (auto simp: c1_def)
  qed
qed

lemma write_page_ok:
  assumes "codec_ok cdc" "disk_reliable d"
  obtains buf where "write_page d cdc seq rs dir = Some (fmupd seq buf dir)"
    "decode_page cdc buf = rs" "length (buf_lines buf) = length rs"
proof -
  from encode_total [OF assms(1)] obtain b where b: "encode_page cdc rs = Some b" by blast
  with decode_encode [OF assms(1) b] assms(2) show ?thesis
    by (intro that [of b]) (auto simp: write_page_def disk_reliable_def)
qed

lemma append_page_wf:
  assumes wf: "cache_wf cdc c" and en: "disk_enabled c" and ne: "sc_tail c \<noteq> []"
    and fits: "sc_disk_records c + length (sc_tail c) \<le> max_disk (sc_cfg c)"
    and buf: "decode_page cdc buf = sc_tail c" "length (buf_lines buf) = length (sc_tail c)"
  defines "c' \<equiv> c\<lparr>sc_tail := [], sc_dir := fmupd (sc_next_seq c) buf (sc_dir c),
     sc_next_seq := sc_next_seq c + 1,
     sc_disk_records := sc_disk_records c + length (sc_tail c),
     sc_pages := sc_pages c @ [\<lparr>pg_seq = sc_next_seq c, pg_count = length (sc_tail c)\<rparr>]\<rparr>"
  shows "cache_wf cdc c'" "contents cdc c' = contents cdc c" "sc_dropped c' = sc_dropped c"
proof -
  have fresh: "\<forall>q \<in> set (sc_pages c). pg_seq q \<noteq> sc_next_seq c"
    using wf by (auto simp: cache_wf_def list_all_iff)
  have new: "page_wf cdc (fmupd (sc_next_seq c) buf (sc_dir c))
      \<lparr>pg_seq = sc_next_seq c, pg_count = length (sc_tail c)\<rparr>"
    using ne buf by (simp add: page_wf_def)
  show "cache_wf cdc c'"
    using wf en fits new fresh unfolding c'_def
    by (auto simp: cache_wf_def disk_enabled_def page_wf_upd sorted_wrt_append list_all_iff)
  show "contents cdc c' = contents cdc c" "sc_dropped c' = sc_dropped c"
    unfolding c'_def using buf
    by (simp_all add: contents_def pages_records_upd [OF fresh] page_records_def)
qed

lemma disk_records_le:
  assumes "cache_wf cdc c"
  shows "sc_disk_records c + length (sc_tail c) \<le> length (contents cdc c)"
proof -
  have "sum_list (map (length \<circ> page_records cdc (sc_dir c)) (sc_pages c)) =
      sum_list (map pg_count (sc_pages c))"
    using assms
    by (intro arg_cong [of _ _ sum_list]) (auto simp: cache_wf_def list_all_iff page_wf_length)
  then show ?thesis using assms
    by (simp add: contents_def length_concat cache_wf_def)
qed

lemma spill_tail_spec:
  assumes cd: "codec_ok cdc" and d: "disk_reliable d" and wf: "cache_wf cdc c"
    and en: "disk_enabled c"
  shows "\<exists>k. sheds cdc (contents cdc c) c (spill_tail d cdc c) k \<and>
     cache_inv cdc (spill_tail d cdc c) \<and> sc_tail (spill_tail d cdc c) = [] \<and>
     sc_cfg (spill_tail d cdc c) = sc_cfg c \<and>
     (\<forall>p \<in> set (sc_pages (spill_tail d cdc c)). p \<in> set (sc_pages c) \<or> pg_seq p = sc_next_seq c) \<and>
     sc_next_seq c \<le> sc_next_seq (spill_tail d cdc c) \<and>
     (length (contents cdc c) \<le> max_disk (sc_cfg c) \<longrightarrow> k = 0)"
proof (cases "sc_tail c = []")
  case True
  then show ?thesis using wf sheds_refl [of cdc c]
    by (intro exI [of _ 0]) (simp add: spill_tail_def cache_inv_def cache_wf_def)
next
  case False
  define c1 where "c1 = spill_rotate d cdc c"
  obtain k where k: "sheds cdc (contents cdc c) c c1 k" "cache_wf cdc c1"
      "sc_tail c1 = sc_tail c" "sc_cfg c1 = sc_cfg c"
      "sc_disk_records c1 + length (sc_tail c1) \<le> max_disk (sc_cfg c1)"
      "sc_next_seq c1 = sc_next_seq c" "set (sc_pages c1) \<subseteq> set (sc_pages c)"
      "sc_disk_records c + length (sc_tail c) \<le> max_disk (sc_cfg c) \<longrightarrow> k = 0"
    using spill_rotate_spec [OF d wf en] unfolding c1_def by auto
  have en1: "disk_enabled c1" using en k(4) by (simp add: disk_enabled_def)
  obtain buf where buf: "write_page d cdc (sc_next_seq c1) (sc_tail c1) (sc_dir c1) =
        Some (fmupd (sc_next_seq c1) buf (sc_dir c1))"
      "decode_page cdc buf = sc_tail c1" "length (buf_lines buf) = length (sc_tail c1)"
    using write_page_ok [OF cd d] by blast
  have ne: "sc_tail c1 \<noteq> []" using False k(3) by simp
  note new = append_page_wf [OF k(2) en1 ne k(5) buf(2,3)]
  have eq: "spill_tail d cdc c = c1\<lparr>sc_tail := [], sc_dir := fmupd (sc_next_seq c1) buf (sc_dir c1),
     sc_next_seq := sc_next_seq c1 + 1,
     sc_disk_records := sc_disk_records c1 + length (sc_tail c1),
     sc_pages := sc_pages c1 @ [\<lparr>pg_seq = sc_next_seq c1, pg_count = length (sc_tail c1)\<rparr>]\<rparr>"
    using False ne buf(1) by (simp add: spill_tail_def Let_def c1_def [symmetric])
  show ?thesis
    using k(1,4,6-8) new disk_records_le [OF wf] unfolding eq
    by (intro exI [of _ k]) (auto simp: sheds_def cache_inv_def cache_wf_def)
qed


subsection \<open>Push and pop\<close>

lemma push_memory_only:
  assumes "cache_inv cdc c" "\<not> disk_enabled c"
  shows "\<exists>k. sheds cdc (contents cdc c @ [r]) c (push d cdc r c) k \<and>
     cache_inv cdc (push d cdc r c) \<and> sc_cfg (push d cdc r c) = sc_cfg c"
proof (cases "memory_threshold (sc_cfg c) \<le> length (sc_head c)")
  case True
  have "sc_head c \<noteq> []" using True assms by (auto simp: cache_inv_def cache_wf_def)
  then show ?thesis using True assms
    by (intro exI [of _ 1])
      (cases "sc_head c"; auto simp: push_def sheds_def contents_def cache_inv_def cache_wf_def
        disk_enabled_def)
next
  case False
  then show ?thesis using assms
    by (intro exI [of _ 0])
      (auto simp: push_def sheds_def contents_def cache_inv_def cache_wf_def disk_enabled_def)
qed

lemma push_tail:
  fixes c :: "'r sink_cache" and r :: 'r
  assumes cd: "codec_ok cdc" and d: "disk_reliable d" and inv: "cache_inv cdc c"
    and en: "disk_enabled c"
  defines "c1 \<equiv> c\<lparr>sc_tail := sc_tail c @ [r]\<rparr>"
  defines "c2 \<equiv> if page_size (sc_cfg c1) \<le> length (sc_tail c1) then spill_tail d cdc c1 else c1"
  shows "\<exists>k. sheds cdc (contents cdc c @ [r]) c c2 k \<and> cache_inv cdc c2 \<and> sc_cfg c2 = sc_cfg c"
proof -
  have wf1: "cache_wf cdc c1" and en1: "disk_enabled c1"
    using inv en by (auto simp: c1_def cache_inv_def cache_wf_def disk_enabled_def)
  have con: "contents cdc c1 = contents cdc c @ [r]" "sc_dropped c1 = sc_dropped c"
    "sc_cfg c1 = sc_cfg c"
    by (simp_all add: c1_def contents_def)
  show ?thesis
  proof (cases "page_size (sc_cfg c1) \<le> length (sc_tail c1)")
    case True
    with spill_tail_spec [OF cd d wf1 en1] con show ?thesis
      by (auto simp: c2_def sheds_def)
  next
    case False
    with wf1 con show ?thesis
      by (intro exI [of _ 0]) (simp add: c2_def sheds_def cache_inv_def)
  qed
qed

lemma push_spec:
  assumes cd: "codec_ok cdc" and d: "disk_reliable d" and inv: "cache_inv cdc c"
  shows "\<exists>k. sheds cdc (contents cdc c @ [r]) c (push d cdc r c) k \<and>
     cache_inv cdc (push d cdc r c) \<and> sc_cfg (push d cdc r c) = sc_cfg c"
proof (cases "disk_enabled c")
  case False
  then show ?thesis using push_memory_only [OF inv] by blast
next
  case en: True
  show ?thesis
  proof (cases "sc_pages c = [] \<and> sc_tail c = [] \<and> length (sc_head c) < memory_threshold (sc_cfg c)")
    case True
    with en inv show ?thesis
      by (intro exI [of _ 0])
        (auto simp: push_def sheds_def contents_def cache_inv_def cache_wf_def disk_enabled_def)
  next
    case False
    with en have "push d cdc r c = (let c1 = c\<lparr>sc_tail := sc_tail c @ [r]\<rparr>
        in if page_size (sc_cfg c1) \<le> length (sc_tail c1) then spill_tail d cdc c1 else c1)"
      by (auto simp: push_def)
    with push_tail [OF cd d inv en, of r] show ?thesis by (simp add: Let_def)
  qed
qed

lemma refill_spec:
  assumes d: "disk_reliable d" and inv: "cache_inv cdc c"
  shows "cache_inv cdc (refill d cdc c)" "contents cdc (refill d cdc c) = contents cdc c"
    "sc_dropped (refill d cdc c) = sc_dropped c" "sc_cfg (refill d cdc c) = sc_cfg c"
    "sc_head (refill d cdc c) = [] \<longleftrightarrow> contents cdc c = []"
proof -
  have "cache_inv cdc (refill d cdc c) \<and> contents cdc (refill d cdc c) = contents cdc c \<and>
    sc_dropped (refill d cdc c) = sc_dropped c \<and> sc_cfg (refill d cdc c) = sc_cfg c \<and>
    (sc_head (refill d cdc c) = [] \<longleftrightarrow> contents cdc c = [])"
  proof (cases "sc_head c = []")
    case False
    then show ?thesis using inv by (simp add: refill_def contents_def)
  next
    case empty: True
    show ?thesis
    proof (cases "sc_pages c")
      case Nil
      then show ?thesis using empty inv
        by (auto simp: refill_def cache_simps contents_def cache_inv_def cache_wf_def
            disk_enabled_def)
    next
      case (Cons p ps)
      have wf: "cache_wf cdc c" using inv by (simp add: cache_inv_def)
      obtain c' where c': "load_oldest_page d cdc c = (True, c')" "cache_wf cdc c'"
          "contents cdc c' = contents cdc c" "sc_dropped c' = sc_dropped c"
          "sc_tail c' = sc_tail c" "sc_cfg c' = sc_cfg c"
          "sc_head c' = sc_head c @ page_records cdc (sc_dir c) p"
        using load_oldest_page_Cons [OF d wf Cons] by metis
      have pw: "page_wf cdc (sc_dir c) p" using wf Cons by (simp add: cache_wf_def)
      have "page_records cdc (sc_dir c) p \<noteq> []"
        using page_wf_length [OF pw] pw by (auto simp: page_wf_def split: option.splits)
      then show ?thesis using c' inv empty Cons
        by (auto simp: refill_def cache_inv_def contents_def)
    qed
  qed
  then show "cache_inv cdc (refill d cdc c)" "contents cdc (refill d cdc c) = contents cdc c"
    "sc_dropped (refill d cdc c) = sc_dropped c" "sc_cfg (refill d cdc c) = sc_cfg c"
    "sc_head (refill d cdc c) = [] \<longleftrightarrow> contents cdc c = []"
    by simp_all
qed

lemma front_spec:
  assumes "disk_reliable d" "cache_inv cdc c"
  shows "fst (front d cdc c) = (case contents cdc c of [] \<Rightarrow> None | r # _ \<Rightarrow> Some r)"
    and "snd (front d cdc c) = refill d cdc c"
proof -
  note R = refill_spec [OF assms]
  obtain X where X: "contents cdc c = sc_head (refill d cdc c) @ X"
    using R(2) unfolding contents_def by metis
  show "fst (front d cdc c) = (case contents cdc c of [] \<Rightarrow> None | r # _ \<Rightarrow> Some r)"
    using R(5) X by (cases "sc_head (refill d cdc c)") (simp_all add: front_def Let_def)
  show "snd (front d cdc c) = refill d cdc c" by (simp add: front_def Let_def)
qed

lemma pop_front_Nil:
  assumes "disk_reliable d" "cache_inv cdc c" "contents cdc c = []"
  shows "pop_front d cdc c = (None, refill d cdc c)"
  using front_spec [OF assms(1,2)] assms(3)
  by (cases "front d cdc c") (simp add: pop_front_def)

lemma pop_front_Cons:
  assumes d: "disk_reliable d" and inv: "cache_inv cdc c" and con: "contents cdc c = r # rs"
  obtains c' where "pop_front d cdc c = (Some r, c')" "cache_inv cdc c'" "contents cdc c' = rs"
    "sc_dropped c' = sc_dropped c" "sc_cfg c' = sc_cfg c"
proof -
  note R = refill_spec [OF d inv]
  obtain h hs where h: "sc_head (refill d cdc c) = h # hs"
    using R(5) con by (cases "sc_head (refill d cdc c)") auto
  have hr: "h = r" using R(2) con h by (simp add: contents_def)
  let ?c = "(refill d cdc c)\<lparr>sc_head := hs\<rparr>"
  have pop: "pop_front d cdc c = (Some r, ?c)"
    using front_spec [OF d inv] con h hr
    by (cases "front d cdc c") (simp add: pop_front_def)
  have inv': "cache_inv cdc ?c"
    using R(1) by (simp add: cache_inv_def cache_wf_def disk_enabled_def)
  have con': "contents cdc ?c = rs"
    using R(2) con h by (simp add: contents_def)
  show ?thesis by (rule that [OF pop inv' con']) (use R(3,4) in simp_all)
qed


subsection \<open>The queue contract and its clients\<close>

text \<open>
  What a client of the cache (the sink worker's \<open>deliver_record\<close> and \<open>resend_cached\<close>) relies
  on: a push appends the record and may only shed the oldest ones, counting them; a pop
  returns the oldest record. Any run of pushes and pops then delivers, in push order, a
  subsequence of what was pushed, and every record is delivered, still queued or counted.
\<close>

datatype 'r queue_op = Push 'r | Pop

fun queue_run ::
  "('r \<Rightarrow> 'c \<Rightarrow> 'c) \<Rightarrow> ('c \<Rightarrow> 'r option \<times> 'c) \<Rightarrow> 'r queue_op list \<Rightarrow> 'c \<Rightarrow> 'r list \<times> 'c" where
  "queue_run psh pp [] c = ([], c)"
| "queue_run psh pp (Push r # ops) c = queue_run psh pp ops (psh r c)"
| "queue_run psh pp (Pop # ops) c =
     (case pp c of
        (None, c1) \<Rightarrow> queue_run psh pp ops c1
      | (Some r, c1) \<Rightarrow> (case queue_run psh pp ops c1 of (out, c2) \<Rightarrow> (r # out, c2)))"

fun pushed :: "'r queue_op list \<Rightarrow> 'r list" where
  "pushed [] = []"
| "pushed (Push r # ops) = r # pushed ops"
| "pushed (Pop # ops) = pushed ops"

locale lossy_fifo =
  fixes psh :: "'r \<Rightarrow> 'c \<Rightarrow> 'c"
    and pp :: "'c \<Rightarrow> 'r option \<times> 'c"
    and items :: "'c \<Rightarrow> 'r list"
    and drops :: "'c \<Rightarrow> nat"
    and ok :: "'c \<Rightarrow> bool"
  assumes psh_ok: "ok c \<Longrightarrow> ok (psh r c)"
    and psh_items: "ok c \<Longrightarrow> \<exists>k \<le> length (items c @ [r]).
          items (psh r c) = drop k (items c @ [r]) \<and> drops (psh r c) = drops c + k"
    and pp_ok: "ok c \<Longrightarrow> ok (snd (pp c))"
    and pp_drops: "ok c \<Longrightarrow> drops (snd (pp c)) = drops c"
    and pp_Nil: "ok c \<Longrightarrow> items c = [] \<Longrightarrow> fst (pp c) = None \<and> items (snd (pp c)) = []"
    and pp_Cons: "ok c \<Longrightarrow> items c = r # rs \<Longrightarrow> fst (pp c) = Some r \<and> items (snd (pp c)) = rs"
begin

lemma run_spec:
  assumes "ok c" "queue_run psh pp ops c = (out, c')"
  shows "ok c' \<and> subseq (out @ items c') (items c @ pushed ops) \<and>
     length out + length (items c') + drops c' = length (items c) + length (pushed ops) + drops c"
  using assms
proof (induction ops arbitrary: c out)
  case Nil
  then show ?case by simp
next
  case (Cons op ops)
  show ?case
  proof (cases op)
    case (Push r)
    obtain k where k: "k \<le> length (items c @ [r])" "items (psh r c) = drop k (items c @ [r])"
        "drops (psh r c) = drops c + k"
      using psh_items [OF Cons.prems(1)] by blast
    have "queue_run psh pp ops (psh r c) = (out, c')" using Cons.prems(2) Push by simp
    note IH = Cons.IH [OF psh_ok [OF Cons.prems(1)] this]
    have "subseq (items (psh r c) @ pushed ops) ((items c @ [r]) @ pushed ops)"
      unfolding k(2) by (intro list_emb_append_mono subseq_drop) simp
    then show ?thesis using IH k Push by (auto intro: subseq_order.order_trans)
  next
    case Pop
    show ?thesis
    proof (cases "items c")
      case Nil
      with pp_Nil [OF Cons.prems(1)] have "pp c = (None, snd (pp c))" "items (snd (pp c)) = []"
        by (cases "pp c"; simp)+
      with Cons.prems(2) Pop have "queue_run psh pp ops (snd (pp c)) = (out, c')"
        by (metis (no_types, lifting) option.case(1) queue_run.simps(3) case_prod_conv)
      from Cons.IH [OF pp_ok [OF Cons.prems(1)] this] show ?thesis
        using Nil Pop \<open>items (snd (pp c)) = []\<close> pp_drops [OF Cons.prems(1)] by simp
    next
      case items: (Cons r rs)
      with pp_Cons [OF Cons.prems(1)] have pp: "pp c = (Some r, snd (pp c))" "items (snd (pp c)) = rs"
        by (cases "pp c"; simp)+
      obtain out' c2 where run: "queue_run psh pp ops (snd (pp c)) = (out', c2)"
        by (cases "queue_run psh pp ops (snd (pp c))")
      with Cons.prems(2) Pop pp(1) have out: "out = r # out'" "c2 = c'"
        by (subst (asm) pp(1), simp add: Pop, simp split: prod.splits option.splits)+
      from Cons.IH [OF pp_ok [OF Cons.prems(1)]] run out show ?thesis
        using items Pop pp(2) pp_drops [OF Cons.prems(1)] by auto
    qed
  qed
qed

lemma run_lossless:
  assumes "ok c" "queue_run psh pp ops c = (out, c')" "drops c' = drops c"
  shows "out @ items c' = items c @ pushed ops"
proof -
  from run_spec [OF assms(1,2)] assms(3)
  have "subseq (out @ items c') (items c @ pushed ops)"
    "length (out @ items c') = length (items c @ pushed ops)" by auto
  then show ?thesis by (rule subseq_same_length)
qed

end

locale bounded_fifo = lossy_fifo psh pp items drops ok
  for psh :: "'r \<Rightarrow> 'c \<Rightarrow> 'c" and pp :: "'c \<Rightarrow> 'r option \<times> 'c"
    and items :: "'c \<Rightarrow> 'r list" and drops :: "'c \<Rightarrow> nat" and ok :: "'c \<Rightarrow> bool" +
  fixes cap :: "'c \<Rightarrow> nat"
  assumes psh_cap: "ok c \<Longrightarrow> cap (psh r c) = cap c"
    and pp_cap: "ok c \<Longrightarrow> cap (snd (pp c)) = cap c"
    and psh_fits: "ok c \<Longrightarrow> length (items c) < cap c \<Longrightarrow> drops (psh r c) = drops c"
begin

lemma run_fits:
  assumes "ok c" "length (items c) + length (pushed ops) \<le> cap c"
  shows "drops (snd (queue_run psh pp ops c)) = drops c"
  using assms
proof (induction ops arbitrary: c)
  case Nil
  then show ?case by simp
next
  case (Cons op ops)
  show ?case
  proof (cases op)
    case (Push r)
    obtain k where k: "items (psh r c) = drop k (items c @ [r])" using psh_items [OF Cons.prems(1)] by blast
    have "drops (psh r c) = drops c" using Cons.prems(2) Push by (intro psh_fits [OF Cons.prems(1)]) simp
    moreover have "length (items (psh r c)) + length (pushed ops) \<le> cap (psh r c)"
      using Cons.prems(2) Push k psh_cap [OF Cons.prems(1)] by simp
    ultimately show ?thesis using Cons.IH [OF psh_ok [OF Cons.prems(1)]] Push by simp
  next
    case Pop
    have "length (items (snd (pp c))) \<le> length (items c)"
      using pp_Nil [OF Cons.prems(1)] pp_Cons [OF Cons.prems(1)] by (cases "items c") auto
    with Cons.IH [OF pp_ok [OF Cons.prems(1)]] Cons.prems(2) Pop pp_cap [OF Cons.prems(1)]
      pp_drops [OF Cons.prems(1)]
    show ?thesis by (auto split: prod.splits option.splits)
  qed
qed

lemma run_within_cap:
  assumes "ok c" "length (items c) + length (pushed ops) \<le> cap c"
    "queue_run psh pp ops c = (out, c')"
  shows "out @ items c' = items c @ pushed ops \<and> drops c' = drops c"
  using run_lossless [OF assms(1,3)] run_fits [OF assms(1,2)] assms(3) by simp

end

text \<open>The cache never drops a record while the whole queue fits its configured budget.\<close>

definition capacity :: "'r sink_cache \<Rightarrow> nat" where
  "capacity c = (if disk_enabled c then max_disk (sc_cfg c) else memory_threshold (sc_cfg c))"

lemma push_fits:
  assumes cd: "codec_ok cdc" and d: "disk_reliable d" and inv: "cache_inv cdc c"
    and fits: "length (contents cdc c) < capacity c"
  shows "sc_dropped (push d cdc r c) = sc_dropped c"
proof (cases "disk_enabled c")
  case False
  with fits inv show ?thesis
    by (auto simp: push_def capacity_def contents_def disk_enabled_def)
next
  case en: True
  let ?c1 = "c\<lparr>sc_tail := sc_tail c @ [r]\<rparr>"
  have wf1: "cache_wf cdc ?c1" and en1: "disk_enabled ?c1"
    using inv en by (auto simp: cache_inv_def cache_wf_def disk_enabled_def)
  have "length (contents cdc ?c1) \<le> max_disk (sc_cfg ?c1)"
    using fits en by (simp add: capacity_def contents_def)
  with spill_tail_spec [OF cd d wf1 en1] have "sc_dropped (spill_tail d cdc ?c1) = sc_dropped c"
    by (auto simp: sheds_def)
  with en show ?thesis by (simp add: push_def Let_def)
qed

interpretation cache: bounded_fifo "push d cdc" "pop_front d cdc" "contents cdc" sc_dropped
    "\<lambda>c. codec_ok cdc \<and> disk_reliable d \<and> cache_inv cdc c" capacity for d cdc
proof (unfold_locales, goal_cases)
  case (1 c r)
  then show ?case using push_spec [of cdc d c r] by blast
next
  case (2 c r)
  then show ?case using push_spec [of cdc d c r] by (auto simp: sheds_def)
next
  case (3 c)
  then show ?case
    by (cases "contents cdc c")
      (auto simp: pop_front_Nil refill_spec elim!: pop_front_Cons [of d cdc c])
next
  case (4 c)
  then show ?case
    by (cases "contents cdc c")
      (auto simp: pop_front_Nil refill_spec elim!: pop_front_Cons [of d cdc c])
next
  case (5 c)
  then show ?case by (simp add: pop_front_Nil refill_spec)
next
  case (6 c r rs)
  then show ?case by (auto elim!: pop_front_Cons [of d cdc c])
next
  case (7 c r)
  then show ?case using push_spec [of cdc d c r] by (auto simp: capacity_def disk_enabled_def)
next
  case (8 c)
  then show ?case
    by (cases "contents cdc c")
      (auto simp: pop_front_Nil refill_spec capacity_def disk_enabled_def
        elim!: pop_front_Cons [of d cdc c])
next
  case (9 c r)
  then show ?case by (simp add: push_fits)
qed


subsection \<open>Bounded memory\<close>

definition mem_bounded :: "'r sink_cache \<Rightarrow> bool" where
  "mem_bounded c \<longleftrightarrow>
     length (sc_head c) \<le> max (memory_threshold (sc_cfg c)) (page_size (sc_cfg c)) \<and>
     list_all (\<lambda>p. pg_count p \<le> page_size (sc_cfg c)) (sc_pages c)"

lemma spill_rotate_bounded:
  assumes "disk_reliable d" "cache_wf cdc c" "disk_enabled c" "mem_bounded c"
  shows "mem_bounded (spill_rotate d cdc c)"
  using assms
proof (induction d cdc c rule: spill_rotate.induct)
  case (1 d cdc c)
  show ?case
  proof (cases "sc_disk_records c + length (sc_tail c) > max_disk (sc_cfg c)")
    case False
    then have "spill_rotate d cdc c = c" by (subst spill_rotate.simps) simp
    with "1.prems" show ?thesis by simp
  next
    case True
    define n where "n = min (page_size (sc_cfg c)) (length (sc_head c))"
    define c1 where "c1 = c\<lparr>sc_head := drop n (sc_head c), sc_dropped := sc_dropped c + n\<rparr>"
    have wf1: "cache_wf cdc c1"
      using "1.prems"(2) by (simp add: c1_def drain_head_wf)
    from True wf_no_pages_fits [OF "1.prems"(2,3)] obtain p ps where ps: "sc_pages c1 = p # ps"
      by (cases "sc_pages c") (auto simp: c1_def)
    obtain c2 where c2: "load_oldest_page d cdc c1 = (True, c2)" "cache_wf cdc c2"
        "sc_cfg c2 = sc_cfg c1" "sc_pages c2 = ps"
        "sc_head c2 = sc_head c1 @ page_records cdc (sc_dir c1) p"
      using load_oldest_page_Cons [OF "1.prems"(1) wf1 ps] by metis
    have len: "length (page_records cdc (sc_dir c1) p) = pg_count p"
      using wf1 ps by (intro page_wf_length) (simp add: cache_wf_def)
    have "mem_bounded c2"
      using "1.prems"(4) c2 ps len by (auto simp: mem_bounded_def c1_def n_def)
    moreover have "disk_enabled c2" using "1.prems"(3) c2(3) by (simp add: disk_enabled_def c1_def)
    moreover have "spill_rotate d cdc c = spill_rotate d cdc c2"
      using True c2(1) by (subst spill_rotate.simps) (simp add: Let_def n_def c1_def)
    ultimately show ?thesis
      using "1.IH" [OF True n_def c1_def c2(1) [symmetric]] "1.prems"(1) c2(2) by simp
  qed
qed

lemma push_bounded:
  assumes cd: "codec_ok cdc" and d: "disk_reliable d" and inv: "cache_inv cdc c"
    and mb: "mem_bounded c"
  shows "mem_bounded (push d cdc r c)"
proof (cases "disk_enabled c")
  case False
  with mb inv show ?thesis
    by (auto simp: push_def mem_bounded_def cache_inv_def cache_wf_def Let_def disk_enabled_def)
next
  case en: True
  let ?c1 = "c\<lparr>sc_tail := sc_tail c @ [r]\<rparr>"
  have wf1: "cache_wf cdc ?c1" and en1: "disk_enabled ?c1" and mb1: "mem_bounded ?c1"
    using inv en mb by (auto simp: cache_inv_def cache_wf_def disk_enabled_def mem_bounded_def)
  have rot: "mem_bounded (spill_rotate d cdc ?c1)"
    by (rule spill_rotate_bounded [OF d wf1 en1 mb1])
  have tl: "sc_tail (spill_rotate d cdc ?c1) = sc_tail ?c1"
      "sc_cfg (spill_rotate d cdc ?c1) = sc_cfg ?c1"
    using spill_rotate_spec [OF d wf1 en1] by auto
  define c2 where "c2 = spill_rotate d cdc ?c1"
  obtain buf where w: "write_page d cdc (sc_next_seq c2) (sc_tail c2) (sc_dir c2) =
      Some (fmupd (sc_next_seq c2) buf (sc_dir c2))"
    using write_page_ok [OF cd d] by blast
  have "length (sc_tail c2) \<le> page_size (sc_cfg c2)" "sc_tail c2 \<noteq> []"
    using tl inv by (simp_all add: c2_def cache_inv_def)
  with rot w have "mem_bounded (spill_tail d cdc ?c1)"
    unfolding spill_tail_def c2_def [symmetric] by (simp add: Let_def mem_bounded_def)
  with en mb mb1 show ?thesis
    by (auto simp: push_def Let_def mem_bounded_def)
qed

lemma refill_bounded:
  assumes d: "disk_reliable d" and inv: "cache_inv cdc c" and mb: "mem_bounded c"
  shows "mem_bounded (refill d cdc c)"
proof (cases "sc_head c = [] \<and> sc_pages c \<noteq> []")
  case False
  then show ?thesis using inv mb
    by (auto simp: refill_def cache_simps mem_bounded_def cache_inv_def)
next
  case True
  then obtain p ps where ps: "sc_pages c = p # ps" by (cases "sc_pages c") auto
  have wf: "cache_wf cdc c" using inv by (simp add: cache_inv_def)
  obtain c' where c': "load_oldest_page d cdc c = (True, c')" "sc_cfg c' = sc_cfg c"
      "sc_pages c' = ps" "sc_head c' = sc_head c @ page_records cdc (sc_dir c) p"
    using load_oldest_page_Cons [OF d wf ps] by metis
  have "length (page_records cdc (sc_dir c) p) = pg_count p"
    using wf ps by (intro page_wf_length) (simp add: cache_wf_def)
  with True c' mb ps show ?thesis by (auto simp: refill_def mem_bounded_def)
qed

lemma pop_front_bounded:
  assumes "disk_reliable d" "cache_inv cdc c" "mem_bounded c"
  shows "mem_bounded (snd (pop_front d cdc c))"
  using refill_bounded [OF assms] front_spec [OF assms(1,2)]
  by (cases "front d cdc c")
    (auto simp: pop_front_def mem_bounded_def split: option.split list.split)

lemma run_bounded:
  assumes "codec_ok cdc" "disk_reliable d" "cache_inv cdc c" "mem_bounded c"
    and "queue_run (push d cdc) (pop_front d cdc) ops c = (out, c')"
  shows "cache_inv cdc c' \<and> mem_bounded c' \<and> sc_cfg c' = sc_cfg c"
  using assms(3-)
proof (induction ops arbitrary: c out)
  case Nil
  then show ?case by simp
next
  case (Cons op ops)
  show ?case
  proof (cases op)
    case (Push r)
    have "cache_inv cdc (push d cdc r c)" "sc_cfg (push d cdc r c) = sc_cfg c"
      using push_spec [OF assms(1,2) Cons.prems(1)] by blast+
    with Cons.IH [OF _ push_bounded [OF assms(1,2) Cons.prems(1,2)]] Cons.prems(3) Push
    show ?thesis by auto
  next
    case Pop
    obtain q c1 where pp: "pop_front d cdc c = (q, c1)" by (cases "pop_front d cdc c")
    have inv: "cache_inv cdc c1 \<and> sc_cfg c1 = sc_cfg c"
    proof (cases "contents cdc c")
      case Nil
      with pp pop_front_Nil [OF assms(2) Cons.prems(1)] refill_spec [OF assms(2) Cons.prems(1)]
      show ?thesis by auto
    next
      case (Cons r rs)
      with pp show ?thesis by (metis pop_front_Cons [OF assms(2) \<open>cache_inv cdc c\<close>] prod.inject)
    qed
    have "mem_bounded c1" using pop_front_bounded [OF assms(2) Cons.prems(1,2)] pp by simp
    moreover obtain out1 where "queue_run (push d cdc) (pop_front d cdc) ops c1 = (out1, c')"
      using Cons.prems(3) Pop pp by (auto split: prod.splits option.splits)
    ultimately show ?thesis using Cons.IH [of c1 out1] inv by auto
  qed
qed

end
