(* ===== verification/SinkCache_Restart.thy ===== *)
theory SinkCache_Restart
  imports SinkCache_Fifo
begin

text \<open>
  Closing the sink cache and opening it again: the page files written at stop replay the
  queue in order after a restart.
\<close>

subsection \<open>What a page directory holds\<close>

definition file_wf :: "'r codec \<Rightarrow> string \<Rightarrow> bool" where
  "file_wf cdc txt \<longleftrightarrow> length (decode_page cdc txt) = length (buf_lines txt) \<and> buf_lines txt \<noteq> []"

definition dir_seqs :: "page_dir \<Rightarrow> nat list" where
  "dir_seqs dir = sorted_list_of_fset (fmdom dir)"

definition dir_records :: "'r codec \<Rightarrow> page_dir \<Rightarrow> 'r list" where
  "dir_records cdc dir =
     concat (map (\<lambda>s. case fmlookup dir s of None \<Rightarrow> [] | Some t \<Rightarrow> decode_page cdc t) (dir_seqs dir))"

definition dir_wf :: "'r codec \<Rightarrow> page_dir \<Rightarrow> bool" where
  "dir_wf cdc dir \<longleftrightarrow> (\<forall>s \<in> set (dir_seqs dir). \<exists>t. fmlookup dir s = Some t \<and> file_wf cdc t)"

definition seq_page :: "page_dir \<Rightarrow> nat \<Rightarrow> page" where
  "seq_page dir s =
     \<lparr>pg_seq = s, pg_count = (case fmlookup dir s of None \<Rightarrow> 0 | Some t \<Rightarrow> length (buf_lines t))\<rparr>"

lemma dir_seqs_set [simp]: "set (dir_seqs dir) = fset (fmdom dir)"
  by (simp add: dir_seqs_def)

lemma dir_seqs_sorted: "sorted_wrt (<) (dir_seqs dir)"
  by (simp add: dir_seqs_def sorted_list_of_fset.rep_eq)

lemma dir_seqs_unique:
  "sorted_wrt (<) ss \<Longrightarrow> fset (fmdom dir) = set ss \<Longrightarrow> dir_seqs dir = ss"
  unfolding dir_seqs_def
  by (metis sorted_list_of_fset.rep_eq strict_sorted_equal strict_sorted_list_of_set
      set_sorted_list_of_set finite_fset)

subsection \<open>Adopting pages\<close>

lemma adopt_fold:
  assumes d: "disk_reliable d" and dir: "sc_dir c = dir"
    and wf: "\<forall>s \<in> set ss. \<exists>t. fmlookup dir s = Some t \<and> file_wf cdc t"
  shows "fold (adopt_one d) ss c =
     c\<lparr>sc_next_seq := fold (\<lambda>s n. max n (s + 1)) ss (sc_next_seq c),
       sc_disk_records := sc_disk_records c + sum_list (map (pg_count \<circ> seq_page dir) ss),
       sc_pages := sc_pages c @ map (seq_page dir) ss\<rparr>"
  using dir wf
proof (induction ss arbitrary: c)
  case Nil
  then show ?case by simp
next
  case (Cons s ss)
  then obtain t where t: "fmlookup dir s = Some t" "file_wf cdc t" by auto
  then have "adopt_one d s c =
      c\<lparr>sc_next_seq := max (sc_next_seq c) (s + 1),
        sc_disk_records := sc_disk_records c + pg_count (seq_page dir s),
        sc_pages := sc_pages c @ [seq_page dir s]\<rparr>"
    using d Cons.prems(1) by (simp add: adopt_one_def file_wf_def seq_page_def Let_def)
  with Cons show ?case by (simp add: add.assoc)
qed

lemma fold_max_bound:
  fixes ss :: "nat list"
  shows "n \<le> fold (\<lambda>s n. max n (s + 1)) ss n \<and> (\<forall>s \<in> set ss. s < fold (\<lambda>s n. max n (s + 1)) ss n)"
proof (induction ss arbitrary: n)
  case (Cons s ss)
  from Cons.IH [of "max n (s + 1)"] show ?case by auto
qed simp


text \<open>The invariant without the disk budget, which \<open>trim_disk\<close> establishes.\<close>

definition open_wf :: "'r codec \<Rightarrow> 'r sink_cache \<Rightarrow> bool" where
  "open_wf cdc c \<longleftrightarrow>
     0 < page_size (sc_cfg c) \<and> 0 < memory_threshold (sc_cfg c) \<and>
     list_all (page_wf cdc (sc_dir c)) (sc_pages c) \<and>
     sorted_wrt (<) (map pg_seq (sc_pages c)) \<and>
     list_all (\<lambda>p. pg_seq p < sc_next_seq c) (sc_pages c) \<and>
     fmdom (sc_dir c) = fset_of_list (map pg_seq (sc_pages c)) \<and>
     sc_disk_records c = sum_list (map pg_count (sc_pages c)) \<and>
     sc_head c = [] \<and> sc_tail c = [] \<and> disk_enabled c"

lemma open_wf_inv: "open_wf cdc c \<Longrightarrow> sc_disk_records c \<le> max_disk (sc_cfg c) \<Longrightarrow> cache_inv cdc c"
  by (auto simp: open_wf_def cache_inv_def cache_wf_def)

lemma drop_oldest_page_spec:
  assumes d: "disk_reliable d" and wf: "open_wf cdc c" and ps: "sc_pages c = p # ps"
  obtains c' where "drop_oldest_page d c = (True, c')" "open_wf cdc c'"
    "sheds cdc (contents cdc c) c c' (pg_count p)" "sc_cfg c' = sc_cfg c"
proof -
  let ?c = "c\<lparr>sc_pages := ps, sc_dir := fmdrop (pg_seq p) (sc_dir c),
      sc_disk_records := sc_disk_records c - pg_count p,
      sc_dropped := sc_dropped c + pg_count p\<rparr>"
  have fresh: "\<forall>q \<in> set ps. pg_seq q \<noteq> pg_seq p" using wf ps by (force simp: open_wf_def)
  have pwf: "page_wf cdc (sc_dir c) p" using wf ps by (simp add: open_wf_def)
  have "drop_oldest_page d c = (True, ?c)" using d ps by (simp add: drop_oldest_page_def)
  moreover have "open_wf cdc ?c"
    using wf ps fmdom_drop_first [of "sc_dir c" p ps] fresh
    by (auto simp: open_wf_def disk_enabled_def pages_records_drop [OF fresh])
  moreover have "sheds cdc (contents cdc c) c ?c (pg_count p)"
    using ps wf page_wf_length [OF pwf]
    by (simp add: sheds_def contents_def open_wf_def pages_records_drop [OF fresh])
  ultimately show ?thesis by (intro that [of ?c]) simp_all
qed

lemma trim_disk_spec:
  assumes "disk_reliable d" "open_wf cdc c"
  shows "cache_inv cdc (trim_disk d c) \<and>
     (\<exists>k. sheds cdc (contents cdc c) c (trim_disk d c) k \<and>
          (sc_disk_records c \<le> max_disk (sc_cfg c) \<longrightarrow> k = 0))"
  using assms
proof (induction d c rule: trim_disk.induct)
  case (1 d c)
  show ?case
  proof (cases "sc_disk_records c > max_disk (sc_cfg c)")
    case False
    then have "trim_disk d c = c" by (subst trim_disk.simps) simp
    with False open_wf_inv [OF "1.prems"(2)] sheds_refl [of cdc c] show ?thesis by auto
  next
    case True
    then obtain p ps where ps: "sc_pages c = p # ps"
      using "1.prems"(2) by (cases "sc_pages c") (auto simp: open_wf_def)
    obtain c' where c': "drop_oldest_page d c = (True, c')" "open_wf cdc c'"
        "sheds cdc (contents cdc c) c c' (pg_count p)"
      using drop_oldest_page_spec [OF "1.prems" ps] by metis
    have eq: "trim_disk d c = trim_disk d c'" using True c'(1) by (subst trim_disk.simps) simp
    from "1.IH" [OF True c'(1) [symmetric], simplified, OF "1.prems"(1) c'(2)] show ?thesis
      using True c'(3) unfolding eq by (auto intro: sheds_trans)
  qed
qed

lemma open_cache_spec:
  assumes d: "disk_reliable d" and wf: "dir_wf cdc dir"
    and cfg: "0 < page_size cfg" "0 < memory_threshold cfg" "page_size cfg \<le> max_disk cfg"
  shows "cache_inv cdc (open_cache d cfg dir :: 'r sink_cache) \<and>
     (\<exists>k. contents cdc (open_cache d cfg dir) = drop k (dir_records cdc dir) \<and>
          sc_dropped (open_cache d cfg dir :: 'r sink_cache) = k \<and>
          (length (dir_records cdc dir) \<le> max_disk cfg \<longrightarrow> k = 0))"
proof -
  define c0 :: "'r sink_cache" where "c0 = \<lparr>sc_cfg = cfg, sc_dir = dir, sc_head = [], sc_pages = [],
     sc_tail = [], sc_disk_records = 0, sc_next_seq = SEQ_BASE, sc_dropped = 0\<rparr>"
  define c1 where "c1 = fold (adopt_one d) (dir_seqs dir) c0"
  have dir0: "sc_dir c0 = dir" by (simp add: c0_def)
  have c1: "c1 = c0\<lparr>sc_next_seq := fold (\<lambda>s n. max n (s + 1)) (dir_seqs dir) SEQ_BASE,
       sc_disk_records := sum_list (map (pg_count \<circ> seq_page dir) (dir_seqs dir)),
       sc_pages := map (seq_page dir) (dir_seqs dir)\<rparr>"
    unfolding c1_def using wf by (subst adopt_fold [OF d dir0]) (auto simp: dir_wf_def c0_def)
  have pages: "\<forall>s \<in> set (dir_seqs dir). page_wf cdc dir (seq_page dir s) \<and>
      length (page_records cdc dir (seq_page dir s)) = pg_count (seq_page dir s)"
    using wf by (fastforce simp: dir_wf_def page_wf_def seq_page_def file_wf_def page_records_def)
  have seqs: "map (pg_seq \<circ> seq_page dir) ss = ss" for ss
    by (induction ss) (simp_all add: seq_page_def)
  have "open_wf cdc c1"
    using cfg pages fold_max_bound [of SEQ_BASE "dir_seqs dir"]
    unfolding c1 c0_def
    by (auto simp: open_wf_def list_all_iff disk_enabled_def seqs dir_seqs_sorted
        fset_of_list_elem fset_eq_iff seq_page_def image_comp)
  from trim_disk_spec [OF d this]
  have t: "cache_inv cdc (trim_disk d c1) \<and> (\<exists>k. sheds cdc (contents cdc c1) c1 (trim_disk d c1) k \<and>
     (sc_disk_records c1 \<le> max_disk (sc_cfg c1) \<longrightarrow> k = 0))" .
  have con: "contents cdc c1 = dir_records cdc dir"
    by (simp add: c1 c0_def contents_def dir_records_def page_records_def seq_page_def comp_def)
  have "length (dir_records cdc dir) = sc_disk_records c1"
    unfolding con [symmetric] contents_def length_append length_concat map_map
    using pages by (auto simp: c1 c0_def comp_def intro!: arg_cong [of _ _ sum_list])
  moreover have "open_cache d cfg dir = trim_disk d c1"
    using d by (simp add: open_cache_def adopt_pages_def disk_reliable_def c1_def c0_def dir_seqs_def)
  moreover have "sc_dropped c1 = 0" "sc_cfg c1 = cfg" by (simp_all add: c1 c0_def)
  ultimately show ?thesis using t con by (auto simp: sheds_def)
qed


subsection \<open>Closing\<close>

lemma write_head_pages_spec:
  assumes "codec_ok cdc" "disk_reliable d"
  shows "(\<forall>s. s < base \<or> base + length cs \<le> s \<longrightarrow>
            fmlookup (write_head_pages d cdc base cs dir) s = fmlookup dir s) \<and>
         (\<forall>i < length cs. \<exists>t. fmlookup (write_head_pages d cdc base cs dir) (base + i) = Some t \<and>
            decode_page cdc t = cs ! i \<and> length (buf_lines t) = length (cs ! i))"
proof (induction cs arbitrary: base dir)
  case Nil
  show ?case by simp
next
  case (Cons ch cs)
  obtain buf where buf: "write_page d cdc base ch dir = Some (fmupd base buf dir)"
      "decode_page cdc buf = ch" "length (buf_lines buf) = length ch"
    using write_page_ok [OF assms] by blast
  let ?dir = "write_head_pages d cdc (Suc base) cs (fmupd base buf dir)"
  have eq: "write_head_pages d cdc base (ch # cs) dir = ?dir" using buf(1) by simp
  note IH = Cons.IH [of "Suc base" "fmupd base buf dir"]
  have "\<exists>t. fmlookup ?dir (base + i) = Some t \<and> decode_page cdc t = (ch # cs) ! i \<and>
      length (buf_lines t) = length ((ch # cs) ! i)" if "i < length (ch # cs)" for i
  proof (cases i)
    case 0
    with IH buf show ?thesis by simp
  next
    case (Suc j)
    with IH that show ?thesis by auto
  qed
  then show ?case unfolding eq using IH by simp
qed

lemma close_dir:
  assumes cd: "codec_ok cdc" and d: "disk_reliable d" and wf: "cache_wf cdc c"
    and tail: "sc_tail c = []" and cs: "\<forall>ch \<in> set cs. ch \<noteq> []" "concat cs = sc_head c"
    and room: "\<forall>p \<in> set (sc_pages c). base + length cs \<le> pg_seq p"
  defines "dir' \<equiv> write_head_pages d cdc base cs (sc_dir c)"
  shows "dir_wf cdc dir' \<and> dir_records cdc dir' = contents cdc c"
proof -
  let ?old = "map pg_seq (sc_pages c)"
  let ?new = "[base..<base + length cs]"
  note W = write_head_pages_spec [OF cd d, of base cs "sc_dir c", folded dir'_def]
  have old: "fmlookup dir' s = fmlookup (sc_dir c) s" if "s \<in> set ?old" for s
    using W room that by auto
  have dom0: "fset (fmdom (sc_dir c)) = set ?old"
    using wf by (simp add: cache_wf_def fset_of_list.rep_eq)
  have "(s |\<in>| fmdom dir') = (s \<in> set (?new @ ?old))" for s
  proof (cases "s \<in> set ?new")
    case True
    then obtain i where "i < length cs" "s = base + i"
      by (auto dest!: le_Suc_ex simp: less_iff_Suc_add)
    with W True show ?thesis by (auto intro: fmdomI)
  next
    case False
    then have "fmlookup dir' s = fmlookup (sc_dir c) s" using W by auto
    then have "(s |\<in>| fmdom dir') = (s |\<in>| fmdom (sc_dir c))" by (metis fmdom_notI fmdomI fmlookup_dom_iff)
    with False dom0 show ?thesis by auto
  qed
  then have "fset (fmdom dir') = set (?new @ ?old)" by blast
  moreover have "sorted_wrt (<) (?new @ ?old)"
    using wf room by (fastforce simp: cache_wf_def sorted_wrt_append)
  ultimately have seqs: "dir_seqs dir' = ?new @ ?old" by (intro dir_seqs_unique) simp_all
  have new_map: "map (\<lambda>s. case fmlookup dir' s of None \<Rightarrow> [] | Some t \<Rightarrow> decode_page cdc t) ?new = cs"
  proof (rule nth_equalityI)
    fix i assume "i < length (map (\<lambda>s. case fmlookup dir' s of None \<Rightarrow> [] | Some t \<Rightarrow> decode_page cdc t) ?new)"
    then have "i < length cs" by simp
    then show "map (\<lambda>s. case fmlookup dir' s of None \<Rightarrow> [] | Some t \<Rightarrow> decode_page cdc t) ?new ! i = cs ! i"
      using W by auto
  qed simp
  have old_map: "map (\<lambda>s. case fmlookup dir' s of None \<Rightarrow> [] | Some t \<Rightarrow> decode_page cdc t) ?old =
      map (page_records cdc (sc_dir c)) (sc_pages c)"
    using old by (simp add: page_records_def)
  have "dir_records cdc dir' = contents cdc c"
    using cs(2) tail unfolding dir_records_def seqs map_append new_map old_map
    by (simp add: contents_def)
  moreover have "\<exists>t. fmlookup dir' s = Some t \<and> file_wf cdc t" if s: "s \<in> set (dir_seqs dir')" for s
  proof (cases "s \<in> set ?new")
    case True
    then obtain i where i: "i < length cs" "s = base + i"
      by (auto dest!: le_Suc_ex simp: less_iff_Suc_add)
    have "cs ! i \<noteq> []" using i cs(1) by simp
    with W i show ?thesis by (fastforce simp: file_wf_def)
  next
    case False
    with s have so: "s \<in> set ?old" by (auto simp: seqs)
    then obtain p where "p \<in> set (sc_pages c)" "pg_seq p = s" by auto
    with wf have "page_wf cdc (sc_dir c) p" by (simp add: cache_wf_def list_all_iff)
    with old [OF so] \<open>pg_seq p = s\<close> show ?thesis
      by (auto simp: page_wf_def file_wf_def split: option.splits)
  qed
  ultimately show ?thesis unfolding dir_wf_def by blast
qed

lemma length_chunks_le: "length (chunks n xs) \<le> length xs"
proof (induction n xs rule: chunks.induct)
  case (1 n xs)
  show ?case
  proof (cases "n = 0 \<or> xs = []")
    case False
    with 1 have "length (chunks n (drop n xs)) \<le> length xs - n" by simp
    with False show ?thesis by (subst chunks.simps) (cases xs; auto)
  qed (subst chunks.simps, simp)
qed

text \<open>The head pages fit below the first page: no page number is reused.\<close>

definition seq_room :: "'r codec \<Rightarrow> 'r sink_cache \<Rightarrow> bool" where
  "seq_room cdc c \<longleftrightarrow> length (contents cdc c) \<le> sc_next_seq c \<and>
     (\<forall>p \<in> set (sc_pages c). length (contents cdc c) \<le> pg_seq p)"


lemma spill_tail_room:
  assumes "codec_ok cdc" "disk_reliable d" "cache_wf cdc c" "disk_enabled c" "seq_room cdc c"
  shows "seq_room cdc (spill_tail d cdc c)"
proof -
  obtain k where "sheds cdc (contents cdc c) c (spill_tail d cdc c) k"
      "\<forall>p \<in> set (sc_pages (spill_tail d cdc c)). p \<in> set (sc_pages c) \<or> pg_seq p = sc_next_seq c"
      "sc_next_seq c \<le> sc_next_seq (spill_tail d cdc c)"
    using spill_tail_spec [OF assms(1-4)] by blast
  with assms(5) show ?thesis by (fastforce simp: seq_room_def sheds_def)
qed

lemma close_cache_spec:
  assumes cd: "codec_ok cdc" and d: "disk_reliable d" and inv: "cache_inv cdc c"
    and en: "disk_enabled c" and room: "seq_room cdc c" and keep: "\<not> clean_at_stop (sc_cfg c)"
  shows "dir_wf cdc (close_cache d cdc c) \<and>
     (\<exists>k. dir_records cdc (close_cache d cdc c) = drop k (contents cdc c) \<and>
          (length (contents cdc c) \<le> max_disk (sc_cfg c) \<longrightarrow> k = 0))"
proof -
  define c1 where "c1 = spill_tail d cdc c"
  have wf: "cache_wf cdc c" using inv by (simp add: cache_inv_def)
  obtain k where k: "sheds cdc (contents cdc c) c c1 k" "cache_inv cdc c1" "sc_tail c1 = []"
      "sc_cfg c1 = sc_cfg c" "length (contents cdc c) \<le> max_disk (sc_cfg c) \<longrightarrow> k = 0"
    using spill_tail_spec [OF cd d wf en] unfolding c1_def by blast
  have wf1: "cache_wf cdc c1" using k(2) by (simp add: cache_inv_def)
  have room1: "seq_room cdc c1" unfolding c1_def by (rule spill_tail_room [OF cd d wf en room])
  define cs where "cs = chunks (page_size (sc_cfg c1)) (sc_head c1)"
  define base where "base = (case sc_pages c1 of [] \<Rightarrow> sc_next_seq c1 | p # _ \<Rightarrow> pg_seq p) - length cs"
  have cs: "\<forall>ch \<in> set cs. ch \<noteq> []" "concat cs = sc_head c1" "length cs \<le> length (contents cdc c1)"
    using wf1 length_chunks_le [of "page_size (sc_cfg c1)" "sc_head c1"]
    by (auto simp: cs_def chunks_nonempty concat_chunks cache_wf_def contents_def)
  have bases: "\<forall>p \<in> set (sc_pages c1). base + length cs \<le> pg_seq p"
    using wf1 room1 cs(3)
    by (cases "sc_pages c1") (force simp: base_def seq_room_def cache_wf_def)+
  have eq: "close_cache d cdc c = write_head_pages d cdc base cs (sc_dir c1)"
    using keep by (simp add: close_cache_def Let_def c1_def [symmetric] base_def cs_def)
  from close_dir [OF cd d wf1 k(3) cs(1,2) bases] k(1,5) show ?thesis
    unfolding eq by (auto simp: sheds_def)
qed

end
