(* ===== verification/SinkCache_Props.thy ===== *)
theory SinkCache_Props
  imports SinkCache_Restart
begin

text \<open>
  The promises of the sink cache, stated over its operations, each with a run of the model
  on a concrete cache.
\<close>

subsection \<open>A concrete codec and disk\<close>

definition unary_codec :: "nat codec" where
  "unary_codec = \<lparr>to_line = (\<lambda>n. Some (replicate n (CHR ''x''))), from_line = (\<lambda>l. Some (length l))\<rparr>"

definition good_disk :: disk where
  "good_disk = \<lparr>list_ok = True, rmdir_ok = True, read_ok = (\<lambda>_. True), write_ok = (\<lambda>_. True),
     remove_ok = (\<lambda>_. True)\<rparr>"

definition small_config :: cache_config where
  "small_config = default_config\<lparr>memory_threshold := 1, max_disk := 4, page_size := 2\<rparr>"

definition small_cache :: "nat sink_cache" where
  "small_cache = open_cache good_disk small_config fmempty"

lemma unary_codec_ok: "codec_ok unary_codec"
  by (auto simp: codec_ok_def unary_codec_def LF_def CR_def)

lemma good_disk_reliable: "disk_reliable good_disk"
  by (simp add: disk_reliable_def good_disk_def)

lemma small_cache_eq: "small_cache = \<lparr>sc_cfg = small_config, sc_dir = fmempty, sc_head = [],
    sc_pages = [], sc_tail = [], sc_disk_records = 0, sc_next_seq = SEQ_BASE, sc_dropped = 0\<rparr>"
  by (simp add: small_cache_def open_cache_def adopt_pages_def good_disk_def trim_disk.simps
      sorted_list_of_fset.rep_eq)

lemma small_cache_inv: "cache_inv unary_codec small_cache"
  by (simp add: small_cache_eq cache_inv_def cache_wf_def small_config_def default_config_def
      disk_enabled_def)

lemma small_cache_contents: "contents unary_codec small_cache = []"
  by (simp add: small_cache_eq contents_def)

subsection \<open>FIFO delivery\<close>

text \<open>C8: whatever pushes and pops the sink worker performs on a disk that works, the records
  it takes out and those still cached are, in push order, a subsequence of the records that
  went in, and every missing record is accounted for in the drop counter.\<close>

theorem cache_run_fifo:
  assumes "codec_ok cdc" "disk_reliable d" "cache_inv cdc c"
    and "queue_run (push d cdc) (pop_front d cdc) ops c = (out, c')"
  shows "cache_inv cdc c' \<and> subseq (out @ contents cdc c') (contents cdc c @ pushed ops) \<and>
     length out + length (contents cdc c') + sc_dropped c' =
       length (contents cdc c) + length (pushed ops) + sc_dropped c"
  using cache.run_spec [of cdc d c ops out c'] assms by simp

theorem cache_run_fifo_witness:
  "subseq (fst (queue_run (push good_disk unary_codec) (pop_front good_disk unary_codec)
       [Push 1, Push 2, Pop, Push 3] small_cache) @
     contents unary_codec (snd (queue_run (push good_disk unary_codec)
       (pop_front good_disk unary_codec) [Push 1, Push 2, Pop, Push 3] small_cache)))
     [1, 2, 3]"
  using cache_run_fifo [OF unary_codec_ok good_disk_reliable small_cache_inv,
      of "[Push 1, Push 2, Pop, Push 3]"]
  by (simp add: small_cache_contents prod_eq_iff)


lemma small_capacity: "capacity small_cache = 4"
  by (simp add: small_cache_eq capacity_def disk_enabled_def small_config_def default_config_def)


subsection \<open>Bounded memory and disk\<close>


lemma small_cache_bounded: "mem_bounded small_cache"
  by (simp add: small_cache_eq mem_bounded_def)


text \<open>With a threshold of one record and pages of two, two records are held in memory.\<close>

lemma memory_above_threshold:
  "let c = snd (queue_run (push good_disk unary_codec) (pop_front good_disk unary_codec) [Push 1, Push 2] small_cache)
   in memory_threshold (sc_cfg c) < length (sc_head c) + length (sc_tail c)"
  by (simp add: small_cache_eq push_def small_config_def default_config_def disk_enabled_def Let_def)

subsection \<open>Restart\<close>

text \<open>C10: a rule that is stopped and started again with the same cache configuration finds
  the records of the stopped run, in order and without a loss, as long as they fit the disk
  budget (\<open>cleanCacheAtStop\<close> off, disk tier on).\<close>

theorem close_reopen:
  assumes "codec_ok (cdc :: 'r codec)" "disk_reliable d" "cache_inv cdc c" "disk_enabled c" "seq_room cdc c"
    and "\<not> clean_at_stop (sc_cfg c)" "length (contents cdc c) \<le> max_disk (sc_cfg c)"
  shows "cache_inv cdc (open_cache d (sc_cfg c) (close_cache d cdc c)) \<and>
     contents cdc (open_cache d (sc_cfg c) (close_cache d cdc c)) = contents cdc c \<and>
     sc_dropped (open_cache d (sc_cfg c) (close_cache d cdc c) :: 'r sink_cache) = 0"
proof -
  from close_cache_spec [OF assms(1-6)] assms(7)
  have close: "dir_wf cdc (close_cache d cdc c)" "dir_records cdc (close_cache d cdc c) = contents cdc c"
    by auto
  have cfg: "0 < page_size (sc_cfg c)" "0 < memory_threshold (sc_cfg c)"
      "page_size (sc_cfg c) \<le> max_disk (sc_cfg c)"
    using assms(3,4) by (auto simp: cache_inv_def cache_wf_def disk_enabled_def)
  from open_cache_spec [OF assms(2) close(1) cfg] show ?thesis
    using close(2) assms(7) by auto
qed

definition filled_cache :: "nat sink_cache" where
  "filled_cache = push good_disk unary_codec 3 (push good_disk unary_codec 2
     (push good_disk unary_codec 1 small_cache))"

lemma filled_cache_eq: "filled_cache = \<lparr>sc_cfg = small_config,
    sc_dir = fmupd SEQ_BASE (''xx'' @ LF # ''xxx'' @ [LF]) fmempty, sc_head = [1],
    sc_pages = [\<lparr>pg_seq = SEQ_BASE, pg_count = 2\<rparr>], sc_tail = [], sc_disk_records = 2,
    sc_next_seq = SEQ_BASE + 1, sc_dropped = 0\<rparr>"
  by (simp add: filled_cache_def small_cache_eq push_def disk_enabled_def small_config_def
      default_config_def Let_def spill_tail_def spill_rotate.simps write_page_def unary_codec_def
      good_disk_def numeral_2_eq_2 numeral_3_eq_3)

lemma filled_cache_contents: "contents unary_codec filled_cache = [1, 2, 3]"
  by (simp add: filled_cache_eq contents_def page_records_def decode_page_def unary_codec_def
      buf_lines_def strip_cr_def List.map_filter_simps LF_def CR_def)

lemma filled_cache_inv: "cache_inv unary_codec filled_cache"
  using push_spec [OF unary_codec_ok good_disk_reliable] small_cache_inv
  unfolding filled_cache_def by blast

lemma filled_cache_room:
  "disk_enabled filled_cache" "seq_room unary_codec filled_cache"
  "sc_cfg filled_cache = small_config" "\<not> clean_at_stop small_config" "max_disk small_config = 4"
  unfolding seq_room_def filled_cache_contents
  by (simp_all add: filled_cache_eq disk_enabled_def small_config_def default_config_def SEQ_BASE_def)

theorem close_reopen_witness:
  "contents unary_codec (open_cache good_disk small_config
     (close_cache good_disk unary_codec filled_cache)) = [1, 2, 3]"
  using close_reopen [OF unary_codec_ok good_disk_reliable filled_cache_inv filled_cache_room(1,2)]
    filled_cache_contents filled_cache_room(3-)
  by simp

subsection \<open>A failed page write reorders the queue\<close>

definition flaky_disk :: disk where
  "flaky_disk = good_disk\<lparr>write_ok := (\<lambda>s. s \<noteq> SEQ_BASE + 1)\<rparr>"

definition unit_cache :: "nat sink_cache" where
  "unit_cache = open_cache flaky_disk
     (default_config\<lparr>memory_threshold := 1, max_disk := 10, page_size := 1\<rparr>) fmempty"

text \<open>FIFO order needs the disk to work. When one page write fails, the write page falls
  back into the memory head although older pages are still on disk, so a later record is
  delivered before an earlier one, with no record counted as dropped.\<close>
lemma failed_spill_breaks_fifo:
  "let run = queue_run (push flaky_disk unary_codec) (pop_front flaky_disk unary_codec)
               [Push 1, Push 2, Push 3, Pop, Pop, Pop] unit_cache
   in fst run = [1, 3, 2] \<and> sc_dropped (snd run) = 0"
  by (simp add: Let_def unit_cache_def open_cache_def adopt_pages_def flaky_disk_def good_disk_def
      trim_disk.simps sorted_list_of_fset.rep_eq push_def disk_enabled_def default_config_def
      spill_tail_def spill_rotate.simps write_page_def unary_codec_def pop_front_def front_def
      refill_def load_oldest_page_def open_page_def decode_page_def buf_lines_def strip_cr_def
      List.map_filter_simps LF_def CR_def remove_page_def numeral_2_eq_2 numeral_3_eq_3)

end
