(* ===== verification/F64.thy ===== *)
theory F64
  imports Prelude Complex_Main
begin

text \<open>
  Rust's \<open>f64\<close>: IEEE 754 binary64 values as an executable datatype. A finite value
  \<open>Fin s m e\<close>, with \<open>m\<close> not negative, stands for \<open>(-1)^s * m * 2^e\<close>; arithmetic computes the exact rational result
  and rounds it once, to nearest with ties to even, with gradual underflow (\<open>e >= -1074\<close>)
  and overflow to infinity. The payload of a NaN is not modelled.
\<close>

subsection \<open>Values\<close>

datatype f64 = NaN | Infty bool | Fin bool int int

datatype ordering = OLess | OEqual | OGreater

fun reverse_ord :: "ordering \<Rightarrow> ordering" where
  "reverse_ord OLess = OGreater"
| "reverse_ord OEqual = OEqual"
| "reverse_ord OGreater = OLess"

definition int_cmp :: "int \<Rightarrow> int \<Rightarrow> ordering" where
  "int_cmp a b = (if a < b then OLess else if a = b then OEqual else OGreater)"

fun is_finite :: "f64 \<Rightarrow> bool" where
  "is_finite (Fin s m e) = True"
| "is_finite x = False"

fun is_nan :: "f64 \<Rightarrow> bool" where
  "is_nan NaN = True"
| "is_nan x = False"

definition fzero :: f64 where
  "fzero = Fin False 0 (- 1074)"

definition fsign :: "bool \<Rightarrow> int \<Rightarrow> int" where
  "fsign s m = (if s then - m else m)"

subsection \<open>Rounding\<close>

function bitlen :: "int \<Rightarrow> int" where
  "bitlen n = (if n \<le> 0 then 0 else 1 + bitlen (n div 2))"
  by pat_completeness auto
termination
  by (relation "measure nat") auto

declare bitlen.simps [simp del]

text \<open>\<open>n / d\<close> in units of \<open>2 ^ e\<close>, rounded to nearest even.\<close>

definition round_units :: "int \<Rightarrow> int \<Rightarrow> int \<Rightarrow> int" where
  "round_units n d e =
     (let n' = (if e < 0 then n * 2 ^ nat (- e) else n);
          d' = (if e < 0 then d else d * 2 ^ nat e);
          q = n' div d'; r = n' mod d'
      in if 2 * r > d' \<or> (2 * r = d' \<and> odd q) then q + 1 else q)"

definition units_floor :: "int \<Rightarrow> int \<Rightarrow> int \<Rightarrow> int" where
  "units_floor n d e =
     (if e < 0 then (n * 2 ^ nat (- e)) div d else n div (d * 2 ^ nat e))"

definition f64_of_ratio :: "bool \<Rightarrow> int \<Rightarrow> int \<Rightarrow> f64" where
  "f64_of_ratio s n d =
     (if n = 0 then Fin s 0 (- 1074)
      else (let e1 = max (- 1074) (bitlen n - bitlen d - 53);
                e = (if units_floor n d e1 < 2 ^ 53 then e1 else e1 + 1);
                m = round_units n d e;
                (m', e') = (if m = 2 ^ 53 then (2 ^ 52, e + 1) else (m, e))
            in if e' > 971 then Infty s else Fin s m' e'))"

definition f64_of_dyadic :: "bool \<Rightarrow> int \<Rightarrow> int \<Rightarrow> f64" where
  "f64_of_dyadic s m e =
     (if e < 0 then f64_of_ratio s m (2 ^ nat (- e)) else f64_of_ratio s (m * 2 ^ nat e) 1)"

definition f64_of_int :: "int \<Rightarrow> f64" where
  "f64_of_int i = f64_of_ratio (i < 0) \<bar>i\<bar> 1"

subsection \<open>Arithmetic\<close>

fun f64_neg :: "f64 \<Rightarrow> f64" where
  "f64_neg NaN = NaN"
| "f64_neg (Infty s) = Infty (\<not> s)"
| "f64_neg (Fin s m e) = Fin (\<not> s) m e"

fun f64_abs :: "f64 \<Rightarrow> f64" where
  "f64_abs NaN = NaN"
| "f64_abs (Infty s) = Infty False"
| "f64_abs (Fin s m e) = Fin False m e"

fun f64_add :: "f64 \<Rightarrow> f64 \<Rightarrow> f64" where
  "f64_add NaN y = NaN"
| "f64_add x NaN = NaN"
| "f64_add (Infty s) (Infty t) = (if s = t then Infty s else NaN)"
| "f64_add (Infty s) (Fin t m e) = Infty s"
| "f64_add (Fin t m e) (Infty s) = Infty s"
| "f64_add (Fin s m e) (Fin t n f) =
     (let g = min e f;
          v = fsign s m * 2 ^ nat (e - g) + fsign t n * 2 ^ nat (f - g)
      in if v = 0 then Fin (s \<and> t) 0 (- 1074) else f64_of_dyadic (v < 0) \<bar>v\<bar> g)"

definition f64_sub :: "f64 \<Rightarrow> f64 \<Rightarrow> f64" where
  "f64_sub x y = f64_add x (f64_neg y)"

fun f64_mul :: "f64 \<Rightarrow> f64 \<Rightarrow> f64" where
  "f64_mul NaN y = NaN"
| "f64_mul x NaN = NaN"
| "f64_mul (Infty s) (Infty t) = Infty (s \<noteq> t)"
| "f64_mul (Infty s) (Fin t m e) = (if m = 0 then NaN else Infty (s \<noteq> t))"
| "f64_mul (Fin t m e) (Infty s) = (if m = 0 then NaN else Infty (s \<noteq> t))"
| "f64_mul (Fin s m e) (Fin t n f) = f64_of_dyadic (s \<noteq> t) (m * n) (e + f)"

fun f64_div :: "f64 \<Rightarrow> f64 \<Rightarrow> f64" where
  "f64_div NaN y = NaN"
| "f64_div x NaN = NaN"
| "f64_div (Infty s) (Infty t) = NaN"
| "f64_div (Infty s) (Fin t m e) = Infty (s \<noteq> t)"
| "f64_div (Fin t m e) (Infty s) = Fin (s \<noteq> t) 0 (- 1074)"
| "f64_div (Fin s m e) (Fin t n f) =
     (if n = 0 then (if m = 0 then NaN else Infty (s \<noteq> t))
      else if e \<ge> f then f64_of_ratio (s \<noteq> t) (m * 2 ^ nat (e - f)) n
      else f64_of_ratio (s \<noteq> t) m (n * 2 ^ nat (f - e)))"

text \<open>Rust's \<open>%\<close> on floats is the C \<open>fmod\<close>: exact, with the sign of the dividend.\<close>

fun f64_rem :: "f64 \<Rightarrow> f64 \<Rightarrow> f64" where
  "f64_rem NaN y = NaN"
| "f64_rem x NaN = NaN"
| "f64_rem (Infty s) y = NaN"
| "f64_rem (Fin s m e) (Infty t) = Fin s m e"
| "f64_rem (Fin s m e) (Fin t n f) =
     (if n = 0 then NaN
      else (let g = min e f
            in f64_of_dyadic s ((m * 2 ^ nat (e - g)) mod (n * 2 ^ nat (f - g))) g))"

subsection \<open>Comparison and conversion\<close>

fun f64_partial_cmp :: "f64 \<Rightarrow> f64 \<Rightarrow> ordering option" where
  "f64_partial_cmp NaN y = None"
| "f64_partial_cmp x NaN = None"
| "f64_partial_cmp (Infty s) (Infty t) =
     Some (if s = t then OEqual else if s then OLess else OGreater)"
| "f64_partial_cmp (Infty s) (Fin t n f) = Some (if s then OLess else OGreater)"
| "f64_partial_cmp (Fin t n f) (Infty s) = Some (if s then OGreater else OLess)"
| "f64_partial_cmp (Fin s m e) (Fin t n f) =
     (let g = min e f
      in Some (int_cmp (fsign s m * 2 ^ nat (e - g)) (fsign t n * 2 ^ nat (f - g))))"

definition f64_eq :: "f64 \<Rightarrow> f64 \<Rightarrow> bool" where
  "f64_eq x y \<longleftrightarrow> f64_partial_cmp x y = Some OEqual"

definition f64_lt :: "f64 \<Rightarrow> f64 \<Rightarrow> bool" where
  "f64_lt x y \<longleftrightarrow> f64_partial_cmp x y = Some OLess"

definition f64_le :: "f64 \<Rightarrow> f64 \<Rightarrow> bool" where
  "f64_le x y \<longleftrightarrow> f64_partial_cmp x y = Some OLess \<or> f64_partial_cmp x y = Some OEqual"

text \<open>\<open>f64::trunc\<close> as an integer, for finite values.\<close>

fun trunc_int :: "f64 \<Rightarrow> int" where
  "trunc_int (Fin s m e) = fsign s (if e < 0 then m div 2 ^ nat (- e) else m * 2 ^ nat e)"
| "trunc_int x = 0"

text \<open>The saturating casts \<open>as i64\<close> and \<open>as u64\<close>: NaN goes to zero.\<close>

fun f64_as_i64 :: "f64 \<Rightarrow> int" where
  "f64_as_i64 NaN = 0"
| "f64_as_i64 (Infty s) = (if s then i64_min else i64_max)"
| "f64_as_i64 x = sat64 (trunc_int x)"

fun f64_as_u64 :: "f64 \<Rightarrow> int" where
  "f64_as_u64 NaN = 0"
| "f64_as_u64 (Infty s) = (if s then 0 else u64_max)"
| "f64_as_u64 x = max 0 (min u64_max (trunc_int x))"

fun f64_trunc :: "f64 \<Rightarrow> f64" where
  "f64_trunc (Fin s m e) =
     (if e < 0 then f64_of_ratio s (m div 2 ^ nat (- e)) 1 else Fin s m e)"
| "f64_trunc x = x"

text \<open>\<open>f64::sqrt\<close> is correctly rounded: the integer square root of the scaled mantissa has at
  least 55 bits, and a sticky half unit records that it is not exact.\<close>

function isqrt :: "int \<Rightarrow> int" where
  "isqrt n =
     (if n \<le> 0 then 0
      else (let r = 2 * isqrt (n div 4) in if (r + 1) * (r + 1) \<le> n then r + 1 else r))"
  by pat_completeness auto
termination
  by (relation "measure nat") auto

declare isqrt.simps [simp del]

fun f64_sqrt :: "f64 \<Rightarrow> f64" where
  "f64_sqrt (Fin s m e) =
     (if m = 0 then Fin s 0 (- 1074)
      else if s then NaN
      else (let k = (if even e then 110 else 111);
                r = isqrt (m * 2 ^ nat k);
                sticky = (if r * r = m * 2 ^ nat k then 0 else 1)
            in f64_of_dyadic False (2 * r + sticky) ((e - k) div 2 - 1)))"
| "f64_sqrt (Infty s) = (if s then NaN else Infty False)"
| "f64_sqrt NaN = NaN"

text \<open>\<open>f64::floor\<close> and \<open>f64::ceil\<close>.\<close>

fun f64_floor :: "f64 \<Rightarrow> f64" where
  "f64_floor (Fin s m e) =
     (if 0 \<le> e then Fin s m e
      else (let q = fsign s m div 2 ^ nat (- e) in f64_of_ratio s \<bar>q\<bar> 1))"
| "f64_floor x = x"

definition f64_ceil :: "f64 \<Rightarrow> f64" where
  "f64_ceil x = f64_neg (f64_floor (f64_neg x))"

text \<open>\<open>Iterator::sum\<close> of floats starts at negative zero.\<close>

definition f64_sum :: "f64 list \<Rightarrow> f64" where
  "f64_sum xs = foldl f64_add (Fin True 0 (- 1074)) xs"

text \<open>\<open>f64::EPSILON\<close> is \<open>2 ^ -52\<close>.\<close>

definition f64_EPSILON :: f64 where
  "f64_EPSILON = Fin False (2 ^ 52) (- 104)"


subsection \<open>The order of the values\<close>

text \<open>The real number a finite value denotes, and a key that orders all values but NaN.\<close>

definition fin_val :: "bool \<Rightarrow> int \<Rightarrow> int \<Rightarrow> real" where
  "fin_val s m e = of_int (fsign s m) * 2 powi e"

fun f64_key :: "f64 \<Rightarrow> int \<times> real" where
  "f64_key NaN = (0, 0)"
| "f64_key (Infty s) = (if s then - 1 else 1, 0)"
| "f64_key (Fin s m e) = (0, fin_val s m e)"

definition key_cmp :: "int \<times> real \<Rightarrow> int \<times> real \<Rightarrow> ordering" where
  "key_cmp p q =
     (if fst p < fst q \<or> fst p = fst q \<and> snd p < snd q then OLess
      else if p = q then OEqual else OGreater)"

lemma scaled_val:
  assumes "g \<le> e"
  shows "real_of_int (a * 2 ^ nat (e - g)) * 2 powi g = of_int a * 2 powi e"
proof -
  have "2 ^ nat (e - g) = (2 powi (e - g) :: real)" using assms by (simp add: power_int_def)
  moreover have "2 powi (e - g) * 2 powi g = (2 powi e :: real)"
    using power_int_add [of "2::real" "e - g" g] by simp
  ultimately have "2 ^ nat (e - g) * 2 powi g = (2 powi e :: real)" by simp
  then show ?thesis by simp
qed

lemma int_cmp_scale:
  assumes "g \<le> e" "g \<le> f"
  shows "int_cmp (a * 2 ^ nat (e - g)) (b * 2 ^ nat (f - g)) =
     (if of_int a * 2 powi e < of_int b * (2 powi f :: real) then OLess
      else if of_int a * 2 powi e = of_int b * (2 powi f :: real) then OEqual else OGreater)"
proof -
  let ?x = "a * 2 ^ nat (e - g)" and ?y = "b * 2 ^ nat (f - g)"
  have pos: "(0::real) < 2 powi g" by simp
  have "(?x < ?y) = (real_of_int ?x * 2 powi g < real_of_int ?y * 2 powi g)"
    "(?x = ?y) = (real_of_int ?x * 2 powi g = real_of_int ?y * 2 powi g)"
    using pos by (simp_all only: mult_less_cancel_right_pos of_int_less_iff mult_cancel_right of_int_eq_iff)
      auto
  then show ?thesis unfolding int_cmp_def scaled_val [OF assms(1)] scaled_val [OF assms(2)] by simp
qed

lemma f64_partial_cmp_key:
  assumes "\<not> is_nan x" "\<not> is_nan y"
  shows "f64_partial_cmp x y = Some (key_cmp (f64_key x) (f64_key y))"
  using assms
proof (induction x y rule: f64_partial_cmp.induct)
  case (6 s m e t n f)
  show ?case
    unfolding f64_partial_cmp.simps Let_def
    by (subst int_cmp_scale) (auto simp: key_cmp_def fin_val_def)
qed (auto simp: key_cmp_def)

lemma f64_partial_cmp_NaN: "is_nan x \<or> is_nan y \<Longrightarrow> f64_partial_cmp x y = None"
  by (cases x; cases y; simp)

lemma key_cmp_flip: "key_cmp q p = reverse_ord (key_cmp p q)"
  by (auto simp: key_cmp_def prod_eq_iff)

lemma reverse_ord_idem [simp]: "reverse_ord (reverse_ord r) = r"
  by (cases r) simp_all

lemma f64_cmp_flip: "f64_partial_cmp y x = map_option reverse_ord (f64_partial_cmp x y)"
proof (cases "is_nan x \<or> is_nan y")
  case False
  then show ?thesis by (simp add: f64_partial_cmp_key key_cmp_flip [of "f64_key y" "f64_key x"])
qed (auto simp: f64_partial_cmp_NaN)

lemma f64_lt_flip: "f64_lt x y \<longleftrightarrow> f64_partial_cmp y x = Some OGreater"
  unfolding f64_lt_def f64_cmp_flip [of y x] by (cases "f64_partial_cmp x y"; auto elim: reverse_ord.elims)

lemma f64_le_iff: "f64_le x y \<longleftrightarrow> \<not> is_nan x \<and> \<not> is_nan y \<and>
    (fst (f64_key x) < fst (f64_key y) \<or>
     fst (f64_key x) = fst (f64_key y) \<and> snd (f64_key x) \<le> snd (f64_key y))"
proof (cases "is_nan x \<or> is_nan y")
  case False
  then show ?thesis by (auto simp: f64_le_def f64_partial_cmp_key key_cmp_def prod_eq_iff split: if_splits)
qed (auto simp: f64_le_def f64_partial_cmp_NaN)

lemma f64_le_trans: "f64_le x y \<Longrightarrow> f64_le y z \<Longrightarrow> f64_le x z"
  by (auto simp: f64_le_iff)

lemma f64_le_refl: "\<not> is_nan x \<Longrightarrow> f64_le x x"
  by (simp add: f64_le_iff)

lemma f64_le_total: "\<not> is_nan x \<Longrightarrow> \<not> is_nan y \<Longrightarrow> f64_le x y \<or> f64_le y x"
  by (auto simp: f64_le_iff)

lemma f64_not_le: "\<not> is_nan x \<Longrightarrow> \<not> is_nan y \<Longrightarrow> \<not> f64_le x y \<longleftrightarrow> f64_lt y x"
  by (auto simp: f64_le_iff f64_lt_def f64_partial_cmp_key key_cmp_def prod_eq_iff)

lemma f64_lt_le: "f64_lt x y \<Longrightarrow> f64_le x y"
  by (simp add: f64_lt_def f64_le_def)


subsection \<open>Exact integers\<close>

lemma bitlen_bounds: "0 < n \<Longrightarrow> 1 \<le> bitlen n \<and> 2 ^ nat (bitlen n - 1) \<le> n \<and> n < 2 ^ nat (bitlen n)"
proof (induction n rule: bitlen.induct)
  case (1 n)
  show ?case
  proof (cases "n = 1")
    case True
    then show ?thesis by (simp add: bitlen.simps)
  next
    case False
    with 1 have b: "1 \<le> bitlen (n div 2)" "2 ^ nat (bitlen (n div 2) - 1) \<le> n div 2"
        "n div 2 < 2 ^ nat (bitlen (n div 2))" by simp_all
    have eq: "bitlen n = 1 + bitlen (n div 2)" using 1(2) by (subst bitlen.simps) simp
    have "nat (bitlen (n div 2)) = Suc (nat (bitlen (n div 2) - 1))" using b(1) by simp
    then have lo: "(2::int) ^ nat (bitlen (n div 2)) \<le> n" using b(2) by (simp only: power_Suc)
    have "nat (bitlen n) = Suc (nat (bitlen (n div 2)))" using b(1) eq by simp
    then have hi: "n < 2 ^ nat (bitlen n)" using b(3) by (simp only: power_Suc)
    show ?thesis using lo hi b(1) eq by simp
  qed
qed

lemma bitlen_le: "0 < n \<Longrightarrow> n < 2 ^ k \<Longrightarrow> bitlen n \<le> int k"
proof (rule ccontr)
  assume n: "0 < n" "n < 2 ^ k" and "\<not> bitlen n \<le> int k"
  then have "k \<le> nat (bitlen n - 1)" by linarith
  then have "(2::int) ^ k \<le> 2 ^ nat (bitlen n - 1)" by (intro power_increasing) simp_all
  with bitlen_bounds [OF n(1)] n(2) show False by linarith
qed

lemma bitlen_shift: "0 < n \<Longrightarrow> bitlen (n * 2 ^ a) = bitlen n + int a"
proof (induction a)
  case (Suc a)
  have "n * 2 ^ Suc a div 2 = n * 2 ^ a" by simp
  moreover have "0 < n * 2 ^ Suc a" using Suc.prems by simp
  ultimately have "bitlen (n * 2 ^ Suc a) = 1 + bitlen (n * 2 ^ a)" by (subst bitlen.simps) simp
  then show ?case using Suc by simp
qed simp

lemma f64_of_ratio_exact:
  assumes "0 < n" "n < 2 ^ 53"
  shows "f64_of_ratio s (n * 2 ^ a) (2 ^ a) = Fin s (n * 2 ^ nat (53 - bitlen n)) (bitlen n - 53)"
proof -
  define b where "b = bitlen n"
  have b: "1 \<le> b" "2 ^ nat (b - 1) \<le> n" "n < 2 ^ nat b" "b \<le> 53"
    using bitlen_bounds [OF assms(1)] bitlen_le [of n 53] assms by (simp_all add: b_def)
  have bl: "bitlen (n * 2 ^ a) = b + int a" "bitlen (2 ^ a) = 1 + int a"
    using bitlen_shift [OF assms(1)] bitlen_shift [of 1 a] by (simp_all add: b_def bitlen.simps)
  have split: "nat (54 - b) = Suc (nat (53 - b))" "nat 53 = nat (b - 1) + nat (54 - b)"
      "nat 53 = nat b + nat (53 - b)"
    using b by simp_all
  have "(2::int) ^ 53 = 2 ^ nat (b - 1) * 2 ^ nat (54 - b)"
    using split(2) by (metis nat_numeral power_add)
  also have "\<dots> \<le> n * 2 ^ nat (54 - b)" using b(2) by simp
  finally have big: "\<not> n * 2 ^ nat (54 - b) < 2 ^ 53" by simp
  have "n * 2 ^ nat (53 - b) < 2 ^ nat b * 2 ^ nat (53 - b)" using b(3) by simp
  also have "\<dots> = 2 ^ 53" using split(3) by (metis nat_numeral power_add)
  finally have small: "n * 2 ^ nat (53 - b) < 2 ^ 53" .
  have comm: "n * 2 ^ a * 2 ^ k = (n * 2 ^ k) * 2 ^ a" for k by simp
  have uf: "units_floor (n * 2 ^ a) (2 ^ a) (b - 54) = n * 2 ^ nat (54 - b)"
    using b unfolding units_floor_def comm by simp
  have ru: "round_units (n * 2 ^ a) (2 ^ a) (b - 53) = n * 2 ^ nat (53 - b)"
    using b unfolding round_units_def comm by (simp add: Let_def)
  show ?thesis
    using assms(1) big small b unfolding f64_of_ratio_def b_def [symmetric] bl
    by (simp add: uf ru Let_def)
qed

lemma exact_val: "b \<le> 53 \<Longrightarrow> real_of_int (n * 2 ^ nat (53 - b)) * 2 powi (b - 53) = of_int n"
  using power_int_add [of "2::real" "53 - b" "b - 53"] by (simp add: power_int_def)

lemma f64_of_ratio_val:
  assumes "0 < n" "n < 2 ^ 53"
  obtains m e where "f64_of_ratio s (n * 2 ^ a) (2 ^ a) = Fin s m e" "0 \<le> m" "e \<le> 0"
    "fin_val s m e = of_int (fsign s n)"
proof -
  have b: "bitlen n \<le> 53" using bitlen_le [of n 53] assms by simp
  show ?thesis
  proof (rule that)
    show "f64_of_ratio s (n * 2 ^ a) (2 ^ a) = Fin s (n * 2 ^ nat (53 - bitlen n)) (bitlen n - 53)"
      by (rule f64_of_ratio_exact [OF assms])
    show "0 \<le> n * 2 ^ nat (53 - bitlen n)" using assms(1) by simp
    show "bitlen n - 53 \<le> 0" using b by simp
    show "fin_val s (n * 2 ^ nat (53 - bitlen n)) (bitlen n - 53) = of_int (fsign s n)"
      using exact_val [OF b, of n] by (simp add: fin_val_def fsign_def)
  qed
qed

lemma f64_of_int_val:
  assumes "\<bar>i\<bar> < 2 ^ 53"
  obtains s m e where "f64_of_int i = Fin s m e" "e \<le> 0" "fin_val s m e = of_int i"
proof (cases "i = 0")
  case True
  then show ?thesis using that [of False 0 "- 1074"]
    by (simp add: f64_of_int_def f64_of_ratio_def fin_val_def fsign_def)
next
  case False
  then obtain m e where "f64_of_int i = Fin (i < 0) m e" "0 \<le> m" "e \<le> 0"
      "fin_val (i < 0) m e = of_int (fsign (i < 0) \<bar>i\<bar>)"
    using f64_of_ratio_val [of "\<bar>i\<bar>" "i < 0" 0] assms
    by (auto simp: f64_of_int_def)
  then show ?thesis using that by (auto simp: fsign_def)
qed

lemma f64_key_of_int:
  assumes "\<bar>i\<bar> < 2 ^ 53"
  shows "f64_key (f64_of_int i) = (0, of_int i) \<and> is_finite (f64_of_int i)"
  using f64_of_int_val [OF assms] by (metis f64_key.simps(3) is_finite.simps(1))

lemma f64_cmp_of_int:
  assumes "\<bar>i\<bar> < 2 ^ 53" "\<bar>j\<bar> < 2 ^ 53"
  shows "f64_partial_cmp (f64_of_int i) (f64_of_int j) = Some (int_cmp i j)"
proof -
  have "\<not> is_nan (f64_of_int i)" "\<not> is_nan (f64_of_int j)"
    using f64_key_of_int assms by (metis is_finite.simps(2) is_nan.elims(2))+
  then show ?thesis using f64_key_of_int [OF assms(1)] f64_key_of_int [OF assms(2)]
    by (auto simp: f64_partial_cmp_key key_cmp_def int_cmp_def)
qed

text \<open>Sums of integers below \<open>2^53\<close> are exact.\<close>

lemma f64_add_ints:
  assumes "e \<le> 0" "f \<le> 0" "fin_val s m e = of_int i" "fin_val t n f = of_int j" "\<bar>i + j\<bar> < 2 ^ 53"
  obtains s' m' e' where "f64_add (Fin s m e) (Fin t n f) = Fin s' m' e'" "0 \<le> m'" "e' \<le> 0"
    "fin_val s' m' e' = of_int (i + j)"
proof -
  define g where "g = min e f"
  define v where "v = fsign s m * 2 ^ nat (e - g) + fsign t n * 2 ^ nat (f - g)"
  have g: "g \<le> e" "g \<le> f" "g \<le> 0" using assms(1,2) by (auto simp: g_def)
  have gk: "(2::real) ^ nat (- g) * 2 powi g = 1"
    using g(3) power_int_add [of "2::real" "- g" g] by (simp add: power_int_def)
  have "real_of_int v * 2 powi g = of_int (i + j)"
    unfolding v_def of_int_add distrib_right scaled_val [OF g(1)] scaled_val [OF g(2)]
    using assms(3,4) by (simp add: fin_val_def)
  then have "real_of_int v = of_int ((i + j) * 2 ^ nat (- g))"
    using gk by (simp, metis (no_types, lifting) mult.assoc mult.commute mult.right_neutral of_int_add)
  then have v: "v = (i + j) * 2 ^ nat (- g)" by (simp only: of_int_eq_iff)
  show ?thesis
  proof (cases "i + j = 0")
    case True
    then have "f64_add (Fin s m e) (Fin t n f) = Fin (s \<and> t) 0 (- 1074)"
      using v by (simp add: v_def [symmetric] g_def [symmetric] Let_def)
    then show ?thesis by (rule that) (simp_all add: True fin_val_def fsign_def)
  next
    case False
    have neg: "(v < 0) = (i + j < 0)" "v \<noteq> 0" using v False by (simp_all add: mult_less_0_iff)
    have "f64_add (Fin s m e) (Fin t n f) = f64_of_dyadic (v < 0) \<bar>v\<bar> g"
      using neg(2) by (simp add: v_def [symmetric] g_def [symmetric] Let_def)
    also have "\<dots> = f64_of_ratio (i + j < 0) (\<bar>i + j\<bar> * 2 ^ nat (- g)) (2 ^ nat (- g))"
      using g(3) unfolding neg(1) by (cases "g < 0") (auto simp: f64_of_dyadic_def v abs_mult)
    finally have eq: "f64_add (Fin s m e) (Fin t n f) =
        f64_of_ratio (i + j < 0) (\<bar>i + j\<bar> * 2 ^ nat (- g)) (2 ^ nat (- g))" .
    obtain m' e' where "f64_of_ratio (i + j < 0) (\<bar>i + j\<bar> * 2 ^ nat (- g)) (2 ^ nat (- g)) =
        Fin (i + j < 0) m' e'" "0 \<le> m'" "e' \<le> 0" "fin_val (i + j < 0) m' e' = of_int (fsign (i + j < 0) \<bar>i + j\<bar>)"
      using f64_of_ratio_val [of "\<bar>i + j\<bar>" "i + j < 0" "nat (- g)"] False assms(5) by auto
    moreover have "fsign (i + j < 0) \<bar>i + j\<bar> = i + j" by (simp add: fsign_def)
    ultimately show ?thesis using that eq by metis
  qed
qed

end
