(* ===== verification/Json.thy ===== *)
theory Json
  imports F64
begin

text \<open>
  The values that flow through the engine: \<open>serde_json::Value\<close> and its accessors. A number is
  a non-negative integer below \<open>2^64\<close>, a negative \<open>i64\<close>, or a finite \<open>f64\<close>; an object is a
  finite map. A Rust string is its sequence of UTF-8 bytes.
\<close>

subsection \<open>Values\<close>

datatype number = PosInt int | NegInt int | Float f64

datatype json =
    Null
  | Bool bool
  | Number number
  | Str string
  | Arr "json list"
  | Obj "(string, json) fmap"

type_synonym row = "(string, json) fmap"

fun number_wf :: "number \<Rightarrow> bool" where
  "number_wf (PosInt n) = (0 \<le> n \<and> n \<le> u64_max)"
| "number_wf (NegInt n) = (i64_min \<le> n \<and> n < 0)"
| "number_wf (Float x) = is_finite x"

fun is_null :: "json \<Rightarrow> bool" where
  "is_null Null = True"
| "is_null v = False"

fun is_number :: "json \<Rightarrow> bool" where
  "is_number (Number n) = True"
| "is_number v = False"

fun is_string :: "json \<Rightarrow> bool" where
  "is_string (Str s) = True"
| "is_string v = False"

fun is_boolean :: "json \<Rightarrow> bool" where
  "is_boolean (Bool b) = True"
| "is_boolean v = False"

fun as_bool :: "json \<Rightarrow> bool option" where
  "as_bool (Bool b) = Some b"
| "as_bool v = None"

fun as_str :: "json \<Rightarrow> string option" where
  "as_str (Str s) = Some s"
| "as_str v = None"

fun num_as_i64 :: "number \<Rightarrow> int option" where
  "num_as_i64 (PosInt n) = (if n \<le> i64_max then Some n else None)"
| "num_as_i64 (NegInt n) = Some n"
| "num_as_i64 (Float x) = None"

fun num_as_u64 :: "number \<Rightarrow> int option" where
  "num_as_u64 (PosInt n) = Some n"
| "num_as_u64 n = None"

fun num_as_f64 :: "number \<Rightarrow> f64" where
  "num_as_f64 (PosInt n) = f64_of_int n"
| "num_as_f64 (NegInt n) = f64_of_int n"
| "num_as_f64 (Float x) = x"

fun as_i64 :: "json \<Rightarrow> int option" where
  "as_i64 (Number n) = num_as_i64 n"
| "as_i64 v = None"

fun as_u64 :: "json \<Rightarrow> int option" where
  "as_u64 (Number n) = num_as_u64 n"
| "as_u64 v = None"

fun as_f64 :: "json \<Rightarrow> f64 option" where
  "as_f64 (Number n) = Some (num_as_f64 n)"
| "as_f64 v = None"

definition is_i64 :: "json \<Rightarrow> bool" where
  "is_i64 v \<longleftrightarrow> as_i64 v \<noteq> None"

text \<open>\<open>Value::from\<close> an integer, and \<open>json!\<close> of a float: a float that is not finite has no
  JSON number and becomes \<open>null\<close>.\<close>

definition of_i64 :: "int \<Rightarrow> json" where
  "of_i64 i = Number (if 0 \<le> i then PosInt i else NegInt i)"

definition of_u64 :: "int \<Rightarrow> json" where
  "of_u64 n = Number (PosInt n)"

definition of_f64 :: "f64 \<Rightarrow> json" where
  "of_f64 x = (if is_finite x then Number (Float x) else Null)"

text \<open>\<open>PartialEq\<close> of values is structural, with floats compared by value, so that the two
  zeros are equal.\<close>

fun norm_f64 :: "f64 \<Rightarrow> f64" where
  "norm_f64 (Fin s m e) = (if m = 0 then fzero else f64_of_dyadic s m e)"
| "norm_f64 x = x"

fun norm_num :: "number \<Rightarrow> number" where
  "norm_num (Float x) = Float (norm_f64 x)"
| "norm_num n = n"

primrec norm_json :: "json \<Rightarrow> json" where
  "norm_json Null = Null"
| "norm_json (Bool b) = Bool b"
| "norm_json (Number n) = Number (norm_num n)"
| "norm_json (Str s) = Str s"
| "norm_json (Arr vs) = Arr (map norm_json vs)"
| "norm_json (Obj m) = Obj (fmmap norm_json m)"

definition json_eq :: "json \<Rightarrow> json \<Rightarrow> bool" where
  "json_eq a b \<longleftrightarrow> norm_json a = norm_json b"

primrec json_wf :: "json \<Rightarrow> bool" where
  "json_wf Null = True"
| "json_wf (Bool b) = True"
| "json_wf (Number n) = number_wf n"
| "json_wf (Str s) = True"
| "json_wf (Arr vs) = list_all (\<lambda>b. b) (map json_wf vs)"
| "json_wf (Obj m) = fmpred (\<lambda>_ b. b) (fmmap json_wf m)"

lemma json_eq_refl [simp]: "json_eq a a"
  by (simp add: json_eq_def)

lemma json_eq_sym: "json_eq a b \<longleftrightarrow> json_eq b a"
  by (auto simp: json_eq_def)

lemma json_eq_simps [simp]:
  "json_eq (Str s) (Str t) = (s = t)"
  "json_eq (Bool a) (Bool b) = (a = b)"
  "json_eq Null Null"
  by (simp_all add: json_eq_def)

lemma of_i64_wf: "in_i64 i \<Longrightarrow> json_wf (of_i64 i)"
  by (simp add: of_i64_def i64_simps)

lemma as_i64_of_i64 [simp]: "in_i64 i \<Longrightarrow> as_i64 (of_i64 i) = Some i"
  by (simp add: of_i64_def i64_simps)

lemma is_number_of_i64 [simp]: "is_number (of_i64 i)"
  by (simp add: of_i64_def)

lemma as_i64_in_i64: "json_wf v \<Longrightarrow> as_i64 v = Some i \<Longrightarrow> in_i64 i"
proof (cases v)
  case (Number n)
  then show "json_wf v \<Longrightarrow> as_i64 v = Some i \<Longrightarrow> in_i64 i"
    by (cases n) (auto simp: i64_simps split: if_splits)
qed simp_all

lemma is_number_as_f64: "is_number v \<longleftrightarrow> (\<exists>x. as_f64 v = Some x)"
  by (cases v rule: as_f64.cases) simp_all

lemma as_i64_is_number: "as_i64 v = Some i \<Longrightarrow> is_number v"
  by (cases v) simp_all

subsection \<open>Strings\<close>

definition ascii_lower_char :: "char \<Rightarrow> char" where
  "ascii_lower_char c =
     (if 65 \<le> (of_char c :: nat) \<and> (of_char c :: nat) \<le> 90 then char_of (of_char c + 32 :: nat) else c)"

definition to_ascii_lowercase :: "string \<Rightarrow> string" where
  "to_ascii_lowercase s = map ascii_lower_char s"

definition is_ascii :: "string \<Rightarrow> bool" where
  "is_ascii s \<longleftrightarrow> list_all (\<lambda>c. (of_char c :: nat) < 128) s"

text \<open>\<open>str::cmp\<close> compares the bytes.\<close>

fun str_cmp :: "string \<Rightarrow> string \<Rightarrow> ordering" where
  "str_cmp [] [] = OEqual"
| "str_cmp [] (_ # _) = OLess"
| "str_cmp (_ # _) [] = OGreater"
| "str_cmp (a # as) (b # bs) =
     (if (of_char a :: nat) < of_char b then OLess
      else if (of_char b :: nat) < of_char a then OGreater else str_cmp as bs)"

definition bool_cmp :: "bool \<Rightarrow> bool \<Rightarrow> ordering" where
  "bool_cmp a b = (if a = b then OEqual else if b then OLess else OGreater)"

text \<open>Decimal \<open>Display\<close> of an integer.\<close>

fun digits :: "nat \<Rightarrow> string" where
  "digits n = (if n < 10 then [char_of (48 + n)] else digits (n div 10) @ [char_of (48 + n mod 10)])"

declare digits.simps [simp del]

definition show_int :: "int \<Rightarrow> string" where
  "show_int i = (if i < 0 then CHR ''-'' # digits (nat (- i)) else digits (nat i))"

text \<open>A run of decimal digits as a number, for \<open>parse::<i64>\<close>: an optional sign, at least one
  digit, nothing else, and a value in range.\<close>

definition is_digit :: "char \<Rightarrow> bool" where
  "is_digit c \<longleftrightarrow> 48 \<le> (of_char c :: nat) \<and> (of_char c :: nat) \<le> 57"

fun digits_val :: "string \<Rightarrow> int \<Rightarrow> int" where
  "digits_val [] acc = acc"
| "digits_val (c # cs) acc = digits_val cs (10 * acc + (int (of_char c) - 48))"

definition parse_digits :: "string \<Rightarrow> int option" where
  "parse_digits s = (if s \<noteq> [] \<and> list_all is_digit s then Some (digits_val s 0) else None)"

definition parse_i64 :: "string \<Rightarrow> int option" where
  "parse_i64 s =
     (let r = (case s of
                 [] \<Rightarrow> None
               | c # cs \<Rightarrow> if c = CHR ''-'' then map_option uminus (parse_digits cs)
                           else if c = CHR ''+'' then parse_digits cs else parse_digits s)
      in case r of None \<Rightarrow> None | Some i \<Rightarrow> checked_i64 i)"

definition parse_u64 :: "string \<Rightarrow> int option" where
  "parse_u64 s =
     (let r = (case s of
                 [] \<Rightarrow> None
               | c # cs \<Rightarrow> if c = CHR ''+'' then parse_digits cs else parse_digits s)
      in case r of None \<Rightarrow> None | Some i \<Rightarrow> if i \<le> u64_max then Some i else None)"

end
