(* ===== verification/Ast.thy ===== *)
theory Ast
  imports Json
begin

text \<open>
  The SQL syntax tree (\<open>crates/rekuiper-sql/src/ast.rs\<close>), with the source's constructors, and
  its rendering used as the identity of a call site in the analytic state.
\<close>

datatype binary_operator =
    Eq | Neq | Lt | Lte | Gt | Gte | And | Or | Add | Sub | Mul | Div | Mod | Like
  | BitAnd | BitOr | BitXor

datatype unary_operator = Not | Neg

datatype expr =
    Wildcard
  | WildcardModified "string list" "(expr \<times> string) list"
  | Identifier string
  | Literal json
  | BinaryOp expr binary_operator expr
  | UnaryOp unary_operator expr
  | Between expr expr expr bool
  | InList expr "expr list" bool
  | IsNull expr bool
  | FieldAccess expr string
  | Index expr expr
  | Slice expr "expr option" "expr option"
  | Call string "expr list"
  | Case "expr option" "(expr \<times> expr) list" "expr option"
  | Over expr "expr option" "expr option"

datatype time_unit = Dd | Hh | Mi | Ss | Ms

datatype window_def =
    TumblingTime time_unit nat
  | HoppingTime time_unit nat nat
  | SlidingTime time_unit nat "nat option"
  | Count nat "nat option"
  | Session time_unit nat nat
  | State expr "expr option"

datatype sort_order = Asc | Desc

record order_by_item =
  ob_expr :: expr
  ob_order :: sort_order

datatype join_type = Inner | Left | Right | Full | Cross | Asof | LeftAsof

record join_clause =
  jc_type :: join_type
  jc_target :: string
  jc_alias :: "string option"
  jc_on :: "expr option"

datatype set_op = Union | UnionAll

datatype select_stmt = SelectStmt
  (sel_fields: "expr list")
  (field_aliases: "string option list")
  (from_src: string)
  (from_alias: "string option")
  (joins: "join_clause list")
  (where_clause: "expr option")
  (group_by: "expr list")
  (window: "window_def option")
  (window_filter: "expr option")
  (window_trigger_condition: "expr option")
  (window_partition_by: "expr option")
  (having: "expr option")
  (order_by: "order_by_item list")
  (limit: "nat option")
  (set_operation: "(set_op \<times> select_stmt) option")

subsection \<open>Rendering\<close>

fun op_token :: "binary_operator \<Rightarrow> string" where
  "op_token Add = ''+''"
| "op_token Sub = ''-''"
| "op_token Mul = ''*''"
| "op_token Div = ''/''"
| "op_token Mod = ''%''"
| "op_token Eq = ''=''"
| "op_token Neq = ''!=''"
| "op_token Lt = ''<''"
| "op_token Lte = ''<=''"
| "op_token Gt = ''>''"
| "op_token Gte = ''>=''"
| "op_token And = ''AND''"
| "op_token Or = ''OR''"
| "op_token BitAnd = ''&''"
| "op_token BitOr = ''|''"
| "op_token BitXor = ''^''"
| "op_token Like = ''LIKE''"

fun join_with :: "string \<Rightarrow> string list \<Rightarrow> string" where
  "join_with sep [] = []"
| "join_with sep [x] = x"
| "join_with sep (x # y # ys) = x @ sep @ join_with sep (y # ys)"

text \<open>\<open>Display\<close> of a JSON value is \<open>serde_json\<close>'s, passed as \<open>render\<close>.\<close>

fun literal_string :: "(json \<Rightarrow> string) \<Rightarrow> json \<Rightarrow> string" where
  "literal_string render (Str s) = s"
| "literal_string render (Number n) = render (Number n)"
| "literal_string render (Bool b) = (if b then ''true'' else ''false'')"
| "literal_string render Null = ''nil''"
| "literal_string render v = render v"

primrec to_ekuiper_string :: "(json \<Rightarrow> string) \<Rightarrow> expr \<Rightarrow> string \<Rightarrow> string" where
  "to_ekuiper_string rd Wildcard = (\<lambda>stream. ''*'')"
| "to_ekuiper_string rd (WildcardModified excl repl) = (\<lambda>stream.
     ''*'' @ (if excl = [] then [] else '' EXCEPT ('' @ join_with '', '' excl @ '')'')
       @ (if repl = [] then []
          else '' REPLACE ('' @ join_with '', ''
                 (map (\<lambda>(e, c). e stream @ '' AS '' @ c)
                   (map (map_prod (to_ekuiper_string rd) id) repl)) @ '')''))"
| "to_ekuiper_string rd (Identifier name) = (\<lambda>stream.
     if stream \<noteq> [] \<and> CHR ''.'' \<notin> set name then stream @ ''.'' @ name else name)"
| "to_ekuiper_string rd (Literal v) = (\<lambda>stream. literal_string rd v)"
| "to_ekuiper_string rd (BinaryOp l bop r) = (\<lambda>stream.
     ''binaryExpr:{ '' @ to_ekuiper_string rd l stream @ '' '' @ op_token bop @ '' ''
       @ to_ekuiper_string rd r stream @ '' }'')"
| "to_ekuiper_string rd (UnaryOp uop e) = (\<lambda>stream.
     ''unaryExpr:{ '' @ (case uop of Not \<Rightarrow> ''NOT'' | Neg \<Rightarrow> ''-'') @ '' ''
       @ to_ekuiper_string rd e stream @ '' }'')"
| "to_ekuiper_string rd (FieldAccess parent fld) = (\<lambda>stream.
     to_ekuiper_string rd parent [] @ ''.'' @ fld)"
| "to_ekuiper_string rd (Index b i) = (\<lambda>stream.
     ''binaryExpr:{ '' @ to_ekuiper_string rd b stream @ ''['' @ to_ekuiper_string rd i stream
       @ ''] }'')"
| "to_ekuiper_string rd (Slice b lo hi) = (\<lambda>stream.
     to_ekuiper_string rd b stream @ ''[''
       @ (case map_option (to_ekuiper_string rd) lo of None \<Rightarrow> [] | Some f \<Rightarrow> f stream) @ '':''
       @ (case map_option (to_ekuiper_string rd) hi of None \<Rightarrow> [] | Some f \<Rightarrow> f stream) @ '']'')"
| "to_ekuiper_string rd (Call name args) = (\<lambda>stream.
     ''Call:{ name:'' @ name @ '', args:[''
       @ join_with '', '' (map (\<lambda>f. f stream) (map (to_ekuiper_string rd) args)) @ ''] }'')"
| "to_ekuiper_string rd (Between e lo hi negated) = (\<lambda>stream.
     to_ekuiper_string rd e stream @ '' '' @ (if negated then ''NOT BETWEEN'' else ''BETWEEN'')
       @ '' '' @ to_ekuiper_string rd lo stream @ '' AND '' @ to_ekuiper_string rd hi stream)"
| "to_ekuiper_string rd (InList e items negated) = (\<lambda>stream.
     to_ekuiper_string rd e stream @ '' '' @ (if negated then ''NOT IN'' else ''IN'') @ '' (''
       @ join_with '', '' (map (\<lambda>f. f stream) (map (to_ekuiper_string rd) items)) @ '')'')"
| "to_ekuiper_string rd (IsNull e negated) = (\<lambda>stream.
     to_ekuiper_string rd e stream @ '' '' @ (if negated then ''IS NOT NULL'' else ''IS NULL''))"
| "to_ekuiper_string rd (Over call p w) = (\<lambda>stream. to_ekuiper_string rd call stream)"
| "to_ekuiper_string rd (Case opnd whens els) = (\<lambda>stream. ''caseExpr'')"

end
