(* ===== verification/Like.thy ===== *)
theory Like
  imports Json
begin

text \<open>
  The SQL \<open>LIKE\<close> matcher (\<open>Evaluator::like_match\<close> in \<open>crates/rekuiper-sql/src/eval.rs\<close>):
  an index loop over bytes when both strings are ASCII, a cursor loop over \<open>chars\<close>
  otherwise, both backtracking only to the latest \<open>%\<close>. They are proved equal to the
  declarative meaning of a pattern.
\<close>

subsection \<open>The two loops\<close>

text \<open>\<open>str::chars\<close>: the code points of a UTF-8 byte string.\<close>

definition utf8_width :: "nat \<Rightarrow> nat" where
  "utf8_width b = (if b < 128 then 0 else if b < 224 then 1 else if b < 240 then 2 else 3)"

definition utf8_lead :: "nat \<Rightarrow> nat" where
  "utf8_lead b = (if b < 128 then b else if b < 224 then b - 192 else if b < 240 then b - 224 else b - 240)"

fun utf8_chars :: "nat list \<Rightarrow> nat list" where
  "utf8_chars [] = []"
| "utf8_chars (b # bs) =
     foldl (\<lambda>a c. a * 64 + (c - 128)) (utf8_lead b) (take (utf8_width b) bs)
       # utf8_chars (drop (utf8_width b) bs)"

definition str_bytes :: "string \<Rightarrow> nat list" where
  "str_bytes s = map of_char s"

definition str_chars :: "string \<Rightarrow> nat list" where
  "str_chars s = utf8_chars (str_bytes s)"

definition BSLASH :: nat where "BSLASH = 92"

definition UNDERSCORE :: nat where "UNDERSCORE = 95"

definition PERCENT :: nat where "PERCENT = 37"

lemmas like_chars = BSLASH_def UNDERSCORE_def PERCENT_def

function skip_percent :: "nat list \<Rightarrow> nat \<Rightarrow> nat" where
  "skip_percent p i = (if i < length p \<and> p ! i = PERCENT then skip_percent p (Suc i) else i)"
  by pat_completeness auto
termination
  by (relation "measure (\<lambda>(p, i). length p - i)") auto

declare skip_percent.simps [simp del]

text \<open>One turn of the ASCII loop: the next \<open>(si, pi, star_pi, star_si)\<close>, or \<open>None\<close> for
  \<open>return false\<close>.\<close>

definition ascii_back :: "nat option \<Rightarrow> nat \<Rightarrow> (nat \<times> nat \<times> nat option \<times> nat) option" where
  "ascii_back star_pj star_si =
     (case star_pj of
        Some sp \<Rightarrow> Some (star_si + 1, sp + 1, star_pj, star_si + 1)
      | None \<Rightarrow> None)"

definition ascii_step ::
  "nat list \<Rightarrow> nat list \<Rightarrow> nat \<Rightarrow> nat \<Rightarrow> nat option \<Rightarrow> nat \<Rightarrow> (nat \<times> nat \<times> nat option \<times> nat) option" where
  "ascii_step s p si pj star_pj star_si =
     (if pj < length p then
        (if p ! pj = BSLASH then
           (if pj + 1 < length p \<and> p ! (pj + 1) = s ! si
            then Some (si + 1, pj + 2, star_pj, star_si)
            else ascii_back star_pj star_si)
         else if p ! pj = UNDERSCORE then Some (si + 1, pj + 1, star_pj, star_si)
         else if p ! pj = PERCENT then Some (si, pj + 1, Some pj, si)
         else if p ! pj = s ! si then Some (si + 1, pj + 1, star_pj, star_si)
         else ascii_back star_pj star_si)
      else ascii_back star_pj star_si)"

lemma ascii_step_cases:
  assumes "ascii_step s p si pj star_pj star_si = Some r"
  obtains "r = (si + 1, pj + 1, star_pj, star_si)"
    | "r = (si + 1, pj + 2, star_pj, star_si)"
    | "pj < length p" "r = (si, pj + 1, Some pj, si)"
    | sp where "star_pj = Some sp" "r = (star_si + 1, sp + 1, Some sp, star_si + 1)"
  using assms by (auto simp: ascii_step_def ascii_back_def split: if_splits option.splits)

function like_ascii ::
  "nat list \<Rightarrow> nat list \<Rightarrow> nat \<Rightarrow> nat \<Rightarrow> nat option \<Rightarrow> nat \<Rightarrow> bool" where
  "like_ascii s p si pj star_pj star_si =
     (if si < length s then
        (case ascii_step s p si pj star_pj star_si of
           None \<Rightarrow> False
         | Some (si', pj', star_pj', star_si') \<Rightarrow> like_ascii s p si' pj' star_pj' star_si')
      else skip_percent p pj = length p)"
  by pat_completeness auto
termination
  by (relation "measures
      [\<lambda>(s, p, si, pj, star_pj, star_si). length p - (case star_pj of None \<Rightarrow> pj | Some sp \<Rightarrow> min pj (Suc sp)),
       \<lambda>(s, p, si, pj, star_pj, star_si). (case star_pj of None \<Rightarrow> 0 | Some sp \<Rightarrow> length s - star_si),
       \<lambda>(s, p, si, pj, star_pj, star_si). length s - si]")
    (auto elim!: ascii_step_cases split: option.split)

declare like_ascii.simps [simp del]

text \<open>The cursor loop: \<open>star\<close> holds the cursors \<open>star_p\<close> and \<open>star_s\<close>.\<close>

definition star_back :: "('a list \<times> 'b list) option \<Rightarrow> ('b list \<times> 'a list \<times> ('a list \<times> 'b list) option) option" where
  "star_back star = (case star of Some (sp, c # cs) \<Rightarrow> Some (cs, sp, Some (sp, cs)) | _ \<Rightarrow> None)"

definition utf8_step :: "nat \<Rightarrow> nat list \<Rightarrow> nat list \<Rightarrow> (nat list \<times> nat list) option \<Rightarrow>
    (nat list \<times> nat list \<times> (nat list \<times> nat list) option) option" where
  "utf8_step sc ss p star =
     (case p of
        [] \<Rightarrow> star_back star
      | pc # ps \<Rightarrow>
          if pc = BSLASH then
            (case ps of
               [] \<Rightarrow> if sc = BSLASH then Some (ss, [], star) else star_back star
             | e # es \<Rightarrow> if e = sc then Some (ss, es, star) else star_back star)
          else if pc = UNDERSCORE then Some (ss, ps, star)
          else if pc = PERCENT then Some (sc # ss, ps, Some (ps, sc # ss))
          else if pc = sc then Some (ss, ps, star)
          else star_back star)"

function like_utf8 :: "nat list \<Rightarrow> nat list \<Rightarrow> (nat list \<times> nat list) option \<Rightarrow> bool" where
  "like_utf8 s p star =
     (case s of
        [] \<Rightarrow> dropWhile (\<lambda>c. c = PERCENT) p = []
      | sc # ss \<Rightarrow>
          (case utf8_step sc ss p star of
             None \<Rightarrow> False
           | Some (s', p', star') \<Rightarrow> like_utf8 s' p' star'))"
  by pat_completeness auto
termination
  by (relation "measures
      [\<lambda>(s, p, star). (case star of None \<Rightarrow> length p | Some (sp, ss) \<Rightarrow> max (length p) (length sp)),
       \<lambda>(s, p, star). (case star of None \<Rightarrow> 0 | Some (sp, ss) \<Rightarrow> length ss),
       \<lambda>(s, p, star). length s]")
    (auto simp: utf8_step_def star_back_def split: option.splits if_splits list.splits)

declare like_utf8.simps [simp del]

definition like_match :: "string \<Rightarrow> string \<Rightarrow> bool" where
  "like_match s p =
     (if is_ascii s \<and> is_ascii p then like_ascii (str_bytes s) (str_bytes p) 0 0 None 0
      else like_utf8 (str_chars s) (str_chars p) None)"

subsection \<open>What a pattern means\<close>

datatype tok = AnySeq | AnyOne | Lit nat | Dead

text \<open>The pattern as tokens; \<open>dangling\<close> is the token of a lone backslash at the end.\<close>

fun toks :: "tok \<Rightarrow> nat list \<Rightarrow> tok list" where
  "toks dangling [] = []"
| "toks dangling (c # cs) =
     (if c = BSLASH then (case cs of [] \<Rightarrow> [dangling] | e # es \<Rightarrow> Lit e # toks dangling es)
      else if c = UNDERSCORE then AnyOne # toks dangling cs
      else if c = PERCENT then AnySeq # toks dangling cs
      else Lit c # toks dangling cs)"

fun tok_fits :: "tok \<Rightarrow> nat \<Rightarrow> bool" where
  "tok_fits AnyOne c = True"
| "tok_fits (Lit d) c = (d = c)"
| "tok_fits t c = False"

text \<open>A token list matches a string when \<open>AnySeq\<close> stands for any substring and every other
  token for one character it fits.\<close>

inductive matches :: "tok list \<Rightarrow> nat list \<Rightarrow> bool" where
  matches_Nil: "matches [] []"
| matches_tok: "tok_fits t c \<Longrightarrow> matches ts cs \<Longrightarrow> matches (t # ts) (c # cs)"
| matches_seq: "matches ts cs \<Longrightarrow> matches (AnySeq # ts) (xs @ cs)"

inductive_simps matches_Nil_iff [simp]: "matches [] s"
inductive_cases matches_ConsE: "matches (t # ts) s"

subsection \<open>The backtracking matcher on tokens\<close>

definition greedy_step :: "nat \<Rightarrow> nat list \<Rightarrow> tok list \<Rightarrow> (tok list \<times> nat list) option \<Rightarrow>
    (nat list \<times> tok list \<times> (tok list \<times> nat list) option) option" where
  "greedy_step c cs ts star =
     (case ts of
        [] \<Rightarrow> star_back star
      | t # ts' \<Rightarrow>
          if t = AnySeq then Some (c # cs, ts', Some (ts', c # cs))
          else if tok_fits t c then Some (cs, ts', star)
          else star_back star)"

function greedy :: "nat list \<Rightarrow> tok list \<Rightarrow> (tok list \<times> nat list) option \<Rightarrow> bool" where
  "greedy s ts star =
     (case s of
        [] \<Rightarrow> list_all (\<lambda>t. t = AnySeq) ts
      | c # cs \<Rightarrow>
          (case greedy_step c cs ts star of
             None \<Rightarrow> False
           | Some (s', ts', star') \<Rightarrow> greedy s' ts' star'))"
  by pat_completeness auto
termination
  by (relation "measures
      [\<lambda>(s, p, star). (case star of None \<Rightarrow> length p | Some (sp, ss) \<Rightarrow> max (length p) (length sp)),
       \<lambda>(s, p, star). (case star of None \<Rightarrow> 0 | Some (sp, ss) \<Rightarrow> length ss),
       \<lambda>(s, p, star). length s]")
    (auto simp: greedy_step_def star_back_def split: option.splits if_splits list.splits)

declare greedy.simps [simp del]

lemma matches_AnySeq: "matches (AnySeq # ts) s \<longleftrightarrow> (\<exists>k \<le> length s. matches ts (drop k s))"
proof
  assume "matches (AnySeq # ts) s"
  then obtain xs cs where "s = xs @ cs" "matches ts cs" by (auto elim: matches_ConsE)
  then show "\<exists>k \<le> length s. matches ts (drop k s)" by (intro exI [of _ "length xs"]) simp
next
  assume "\<exists>k \<le> length s. matches ts (drop k s)"
  then show "matches (AnySeq # ts) s" by (metis append_take_drop_id matches_seq)
qed

lemma matches_fit: "t \<noteq> AnySeq \<Longrightarrow> matches (t # ts) s \<longleftrightarrow> (\<exists>c cs. s = c # cs \<and> tok_fits t c \<and> matches ts cs)"
  by (auto elim: matches_ConsE intro: matches_tok)

lemma matches_empty: "matches ts [] \<longleftrightarrow> list_all (\<lambda>t. t = AnySeq) ts"
proof (induction ts)
  case (Cons t ts)
  then show ?case by (cases "t = AnySeq") (auto simp: matches_AnySeq matches_fit)
qed simp

text \<open>A prefix without \<open>AnySeq\<close> consumes exactly its length.\<close>

lemma matches_prefix:
  "AnySeq \<notin> set pre \<Longrightarrow> matches (pre @ ts) s \<Longrightarrow>
     length pre \<le> length s \<and> matches ts (drop (length pre) s)"
proof (induction pre arbitrary: s)
  case (Cons t pre)
  then show ?case by (auto simp: matches_fit)
qed simp

text \<open>The tokens since the latest \<open>AnySeq\<close> have been matched one for one.\<close>

fun star_ok :: "nat list \<Rightarrow> tok list \<Rightarrow> (tok list \<times> nat list) option \<Rightarrow> bool" where
  "star_ok s ts None = True"
| "star_ok s ts (Some (tp, ss)) =
     (\<exists>pre w. tp = pre @ ts \<and> AnySeq \<notin> set pre \<and> ss = w @ s \<and> length w = length pre)"

definition later_match :: "(tok list \<times> nat list) option \<Rightarrow> bool" where
  "later_match star =
     (case star of None \<Rightarrow> False
      | Some (tp, ss) \<Rightarrow> (\<exists>k. 0 < k \<and> k \<le> length ss \<and> matches tp (drop k ss)))"

lemma later_match_Some_Cons:
  "later_match (Some (tp, d # ds)) \<longleftrightarrow> matches tp ds \<or> later_match (Some (tp, ds))"
  unfolding later_match_def
  by (auto simp: gr0_conv_Suc) (metis Suc_le_mono drop0 drop_Suc_Cons le0 not0_implies_Suc)+

lemma later_match_at_star:
  assumes "star_ok s (AnySeq # ts) star" "later_match star"
  shows "matches (AnySeq # ts) s"
proof -
  obtain tp ss where star: "star = Some (tp, ss)" using assms(2) by (auto simp: later_match_def split: option.splits)
  with assms obtain pre w k where pre: "tp = pre @ AnySeq # ts" "AnySeq \<notin> set pre" "ss = w @ s"
      "length w = length pre" "k \<le> length ss" "matches tp (drop k ss)"
    by (auto simp: later_match_def)
  have m: "matches (AnySeq # ts) (drop (length pre) (drop k ss))"
    using matches_prefix [OF pre(2), of "AnySeq # ts" "drop k ss"] pre(1,6) by simp
  have "drop (length pre) (drop k ss) = drop (k + length w) (w @ s)"
    by (simp only: drop_drop pre(3,4) add.commute)
  also have "\<dots> = drop k s" by simp
  finally obtain j where "matches ts (drop j (drop k s))"
    using m unfolding matches_AnySeq by auto
  then have "matches ts (drop (min (k + j) (length s)) s)" 
    by (cases "j + k \<le> length s") (simp_all add: add.commute min_def not_le less_imp_le)
  then show ?thesis unfolding matches_AnySeq by (meson min.cobounded2)
qed

lemma star_ok_step:
  assumes "star_ok (c # cs) (t # ts) star" "t \<noteq> AnySeq"
  shows "star_ok cs ts star"
proof (cases star)
  case (Some p)
  obtain tp ss where "p = (tp, ss)" by (cases p)
  with assms Some obtain pre w where "tp = pre @ t # ts" "AnySeq \<notin> set pre" "ss = w @ c # cs"
      "length w = length pre" by auto
  then have "tp = (pre @ [t]) @ ts \<and> AnySeq \<notin> set (pre @ [t]) \<and> ss = (w @ [c]) @ cs \<and>
      length (w @ [c]) = length (pre @ [t])" using assms(2) by simp
  then show ?thesis using Some \<open>p = (tp, ss)\<close> by (metis star_ok.simps(2))
qed simp

lemma later_match_end:
  assumes "star_ok [] ts star"
  shows "\<not> later_match star"
proof
  assume "later_match star"
  then obtain tp ss k where star: "star = Some (tp, ss)" "0 < k" "k \<le> length ss" "matches tp (drop k ss)"
    by (auto simp: later_match_def split: option.splits)
  with assms obtain pre where "tp = pre @ ts" "AnySeq \<notin> set pre" "length ss = length pre" by auto
  with matches_prefix [of pre ts "drop k ss"] star show False by auto
qed

lemma later_match_back:
  "later_match star \<longleftrightarrow>
     (case star_back star of
        None \<Rightarrow> False | Some (s', ts', star') \<Rightarrow> matches ts' s' \<or> later_match star')"
  by (auto simp: star_back_def later_match_Some_Cons split: option.split list.split)
    (auto simp: later_match_def)

lemma star_ok_back: "star_back star = Some (s', ts', star') \<Longrightarrow> star_ok s' ts' star'"
  by (auto simp: star_back_def split: option.splits list.splits)

lemma greedy_matches:
  assumes "star_ok s ts star"
  shows "greedy s ts star \<longleftrightarrow> matches ts s \<or> later_match star"
  using assms
proof (induction s ts star rule: greedy.induct)
  case (1 s ts star)
  consider (stop) "s = []" | (seq) c cs ts' where "s = c # cs" "ts = AnySeq # ts'"
    | (fit) c cs t ts' where "s = c # cs" "ts = t # ts'" "t \<noteq> AnySeq" "tok_fits t c"
    | (fail) c cs where "s = c # cs" "greedy_step c cs ts star = star_back star" "\<not> matches ts s"
  proof (cases s)
    case (Cons c cs)
    show thesis
    proof (cases ts)
      case Nil
      then show thesis using Cons by (intro fail) (auto simp: greedy_step_def)
    next
      case (Cons t ts')
      then show thesis using \<open>s = c # cs\<close> seq fit fail
        by (cases "t = AnySeq"; cases "tok_fits t c") (auto simp: greedy_step_def matches_fit)
    qed
  qed (rule stop)
  then show ?case
  proof cases
    case stop
    with later_match_end 1(2) show ?thesis by (subst greedy.simps) (auto simp: matches_empty)
  next
    case seq
    then have st: "greedy_step c cs ts star = Some (s, ts', Some (ts', s))" by (simp add: greedy_step_def)
    have "greedy s ts star = greedy s ts' (Some (ts', s))" using seq st by (subst greedy.simps) simp
    also have "\<dots> = (matches ts' s \<or> later_match (Some (ts', s)))"
      using "1.IH" [OF seq(1) st refl refl] by simp
    also have "\<dots> = matches (AnySeq # ts') s"
      unfolding matches_AnySeq later_match_def by (auto, metis drop0 le0 gr0I)
    finally show ?thesis using later_match_at_star 1(2) seq by auto
  next
    case fit
    then have st: "greedy_step c cs ts star = Some (cs, ts', star)" by (simp add: greedy_step_def)
    have "greedy s ts star = greedy cs ts' star" using fit st by (subst greedy.simps) simp
    then show ?thesis
      using "1.IH" [OF fit(1) st refl refl] fit star_ok_step 1(2) matches_fit [OF fit(3)] by simp
  next
    case fail
    show ?thesis
    proof (cases "star_back star")
      case None
      then show ?thesis using fail later_match_back [of star] by (subst greedy.simps) simp
    next
      case (Some r)
      obtain s' ts' star' where r: "r = (s', ts', star')" by (cases r)
      have st: "greedy_step c cs ts star = Some (s', ts', star')" using fail Some r by simp
      have "greedy s ts star = greedy s' ts' star'" using fail(1) st by (subst greedy.simps) simp
      also have "\<dots> = (matches ts' s' \<or> later_match star')"
        using "1.IH" [OF fail(1) st refl refl] star_ok_back Some r by simp
      finally show ?thesis using fail(3) later_match_back [of star] Some r by simp
    qed
  qed
qed

subsection \<open>The loops compute the tokens' meaning\<close>

lemma toks_drop:
  assumes "i < length p"
  shows "toks d (drop i p) =
     (if p ! i = BSLASH then
        (if Suc i < length p then Lit (p ! Suc i) # toks d (drop (Suc (Suc i)) p) else [d])
      else if p ! i = UNDERSCORE then AnyOne # toks d (drop (Suc i) p)
      else if p ! i = PERCENT then AnySeq # toks d (drop (Suc i) p)
      else Lit (p ! i) # toks d (drop (Suc i) p))"
  using assms
  by (auto simp: like_chars Cons_nth_drop_Suc [symmetric] split: list.split)

lemma skip_percent_toks:
  assumes "d \<noteq> AnySeq"
  shows "i \<le> length p \<Longrightarrow> skip_percent p i = length p \<longleftrightarrow> list_all (\<lambda>t. t = AnySeq) (toks d (drop i p))"
proof (induction p i rule: skip_percent.induct)
  case (1 p i)
  show ?case
  proof (cases "i < length p")
    case True
    with 1 assms show ?thesis
      by (subst skip_percent.simps) (auto simp: toks_drop like_chars)
  qed (use 1 in \<open>simp add: skip_percent.simps\<close>)
qed

definition ascii_star :: "nat list \<Rightarrow> nat list \<Rightarrow> nat option \<Rightarrow> nat \<Rightarrow> (tok list \<times> nat list) option" where
  "ascii_star s p star_pj star_si =
     map_option (\<lambda>sp. (toks Dead (drop (Suc sp) p), drop star_si s)) star_pj"

lemma ascii_star_Some:
  "ascii_star s p (Some sp) ss = Some (toks Dead (drop (Suc sp) p), drop ss s)"
  by (simp add: ascii_star_def)

lemma ascii_back_star:
  assumes "star_pj \<noteq> None \<longrightarrow> star_si < length s"
  shows "star_back (ascii_star s p star_pj star_si) =
     map_option (\<lambda>(si, pj, sp, ss). (drop si s, toks Dead (drop pj p), ascii_star s p sp ss))
       (ascii_back star_pj star_si)"
  using assms
  by (cases star_pj)
    (auto simp: star_back_def ascii_back_def ascii_star_def Cons_nth_drop_Suc [symmetric])

lemma ascii_step_greedy:
  assumes "si < length s" "pj \<le> length p" "star_pj \<noteq> None \<longrightarrow> star_si < length s"
  shows "greedy_step (s ! si) (drop (Suc si) s) (toks Dead (drop pj p)) (ascii_star s p star_pj star_si) =
     map_option (\<lambda>(si, pj, sp, ss). (drop si s, toks Dead (drop pj p), ascii_star s p sp ss))
       (ascii_step s p si pj star_pj star_si)"
proof (cases "pj < length p")
  case False
  then show ?thesis using assms by (simp add: greedy_step_def ascii_step_def ascii_back_star)
next
  case True
  then show ?thesis using assms
    by (simp add: toks_drop greedy_step_def ascii_step_def ascii_back_star ascii_star_Some
        Cons_nth_drop_Suc)
qed

lemma ascii_step_bounds:
  assumes "ascii_step s p si pj star_pj star_si = Some (si', pj', sp', ss')"
    and "si < length s" "pj \<le> length p" "star_pj \<noteq> None \<longrightarrow> star_si \<le> si \<and> the star_pj < length p"
  shows "pj' \<le> length p \<and> si' \<le> length s \<and> (sp' \<noteq> None \<longrightarrow> ss' \<le> si' \<and> the sp' < length p)"
  using assms by (auto simp: ascii_step_def ascii_back_def split: if_splits option.splits)

lemma like_ascii_greedy:
  assumes "si \<le> length s" "pj \<le> length p" "star_pj \<noteq> None \<longrightarrow> star_si \<le> si \<and> the star_pj < length p"
  shows "like_ascii s p si pj star_pj star_si =
     greedy (drop si s) (toks Dead (drop pj p)) (ascii_star s p star_pj star_si)"
  using assms
proof (induction s p si pj star_pj star_si rule: like_ascii.induct)
  case (1 s p si pj star_pj star_si)
  show ?case
  proof (cases "si < length s")
    case False
    then show ?thesis using 1(3) skip_percent_toks [of Dead pj p]
      by (subst like_ascii.simps, subst greedy.simps) simp
  next
    case True
    have d: "drop si s = s ! si # drop (Suc si) s" using True by (simp add: Cons_nth_drop_Suc)
    have st: "star_pj \<noteq> None \<longrightarrow> star_si < length s" using 1(4) True by auto
    note step = ascii_step_greedy [OF True 1(3) st]
    show ?thesis
    proof (cases "ascii_step s p si pj star_pj star_si")
      case None
      then show ?thesis using step True d by (subst like_ascii.simps, subst greedy.simps) simp
    next
      case (Some r)
      obtain si' pj' sp' ss' where r: "r = (si', pj', sp', ss')" by (cases r)
      have b: "pj' \<le> length p" "si' \<le> length s" "sp' \<noteq> None \<longrightarrow> ss' \<le> si' \<and> the sp' < length p"
        using ascii_step_bounds [OF Some [unfolded r] True 1(3,4)] by auto
      from Some r "1.IH" [OF True Some r [symmetric] refl refl b(2,1,3)] show ?thesis
        using step True d by (subst like_ascii.simps, subst greedy.simps) simp
    qed
  qed
qed

definition utf8_star :: "(nat list \<times> nat list) option \<Rightarrow> (tok list \<times> nat list) option" where
  "utf8_star star = map_option (\<lambda>(sp, ss). (toks (Lit BSLASH) sp, ss)) star"

lemma utf8_star_Some: "utf8_star (Some (sp, ss)) = Some (toks (Lit BSLASH) sp, ss)"
  by (simp add: utf8_star_def)

lemma utf8_back_star:
  "star_back (utf8_star star) =
     map_option (\<lambda>(s', p', star'). (s', toks (Lit BSLASH) p', utf8_star star')) (star_back star)"
  by (auto simp: utf8_star_def star_back_def split: option.split list.split)

lemma utf8_step_greedy:
  "greedy_step c cs (toks (Lit BSLASH) p) (utf8_star star) =
     map_option (\<lambda>(s', p', star'). (s', toks (Lit BSLASH) p', utf8_star star')) (utf8_step c cs p star)"
proof (cases p)
  case Nil
  then show ?thesis by (simp add: greedy_step_def utf8_step_def utf8_back_star)
next
  case (Cons pc ps)
  then show ?thesis
    by (cases ps)
      (simp_all add: greedy_step_def utf8_step_def utf8_back_star utf8_star_Some like_chars)
qed

lemma dropWhile_toks:
  "dropWhile (\<lambda>c. c = PERCENT) p = [] \<longleftrightarrow> list_all (\<lambda>t. t = AnySeq) (toks (Lit BSLASH) p)"
  by (induction p) (auto simp: like_chars split: list.split)

lemma like_utf8_greedy: "like_utf8 s p star = greedy s (toks (Lit BSLASH) p) (utf8_star star)"
proof (induction s p star rule: like_utf8.induct)
  case (1 s p star)
  show ?case
  proof (cases s)
    case Nil
    then show ?thesis by (subst like_utf8.simps, subst greedy.simps) (simp del: dropWhile_eq_Nil_conv add: dropWhile_toks)
  next
    case (Cons c cs)
    show ?thesis
    proof (cases "utf8_step c cs p star")
      case None
      then show ?thesis using Cons utf8_step_greedy [of c cs p star]
        by (subst like_utf8.simps, subst greedy.simps) simp
    next
      case (Some r)
      then show ?thesis using Cons utf8_step_greedy [of c cs p star] "1.IH" [OF Cons Some]
        by (cases r) (subst like_utf8.simps, subst greedy.simps, simp)
    qed
  qed
qed

lemma like_ascii_matches: "like_ascii s p 0 0 None 0 \<longleftrightarrow> matches (toks Dead p) s"
  using like_ascii_greedy [of 0 s 0 p None 0] greedy_matches [of s "toks Dead p" None]
  by (simp add: ascii_star_def later_match_def)

lemma like_utf8_matches: "like_utf8 s p None \<longleftrightarrow> matches (toks (Lit BSLASH) p) s"
  using like_utf8_greedy [of s p None] greedy_matches [of s "toks (Lit BSLASH) p" None]
  by (simp add: utf8_star_def later_match_def)

text \<open>A pattern does not end in an unescaped backslash.\<close>

fun escape_closed :: "nat list \<Rightarrow> bool" where
  "escape_closed [] = True"
| "escape_closed (c # cs) =
     (if c = BSLASH then (case cs of [] \<Rightarrow> False | e # es \<Rightarrow> escape_closed es)
      else escape_closed cs)"

lemma toks_closed: "escape_closed p \<Longrightarrow> toks d p = toks d' p"
  by (induction p rule: escape_closed.induct) (auto split: if_splits list.splits)

lemma utf8_chars_ascii: "list_all (\<lambda>b. b < 128) bs \<Longrightarrow> utf8_chars bs = bs"
  by (induction bs) (simp_all add: utf8_width_def utf8_lead_def)

lemma str_chars_ascii: "is_ascii s \<Longrightarrow> str_chars s = str_bytes s"
  by (simp add: str_chars_def str_bytes_def is_ascii_def utf8_chars_ascii list.pred_map comp_def)

end
