(* ===== verification/EvalOps.thy ===== *)
theory EvalOps
  imports Ast Like
begin

text \<open>
  The value-level operators of the expression evaluator
  (\<open>Evaluator\<close> in \<open>crates/rekuiper-sql/src/eval.rs\<close>): unary and binary operators, numeric
  equality and ordering, \<open>BETWEEN\<close>, integer/float arithmetic, bitwise operators, and array
  indexing and slicing.

  A Rust \<open>Result\<close> is \<open>Ok\<close> or \<open>Err\<close>; the third outcome \<open>Panic\<close> is a panic of the language
  itself (an overflowing integer division), which no \<open>Result\<close> handler intercepts.
\<close>

subsection \<open>Results\<close>

datatype eval_error =
    InvalidOp json string json
  | DividedByZero
  | BetweenCompare json json
  | NonBool json
  | WhereError eval_error
  | SelectError "string option" string eval_error
  | CallError string

datatype 'a res = Ok 'a | Err eval_error | Panic

fun res_bind :: "'a res \<Rightarrow> ('a \<Rightarrow> 'b res) \<Rightarrow> 'b res" where
  "res_bind (Ok x) f = f x"
| "res_bind (Err e) f = Err e"
| "res_bind Panic f = Panic"

fun res_map :: "('a \<Rightarrow> 'b) \<Rightarrow> 'a res \<Rightarrow> 'b res" where
  "res_map f (Ok x) = Ok (f x)"
| "res_map f (Err e) = Err e"
| "res_map f Panic = Panic"

fun map_err :: "(eval_error \<Rightarrow> eval_error) \<Rightarrow> 'a res \<Rightarrow> 'a res" where
  "map_err f (Err e) = Err (f e)"
| "map_err f r = r"

fun unwrap_or :: "'a \<Rightarrow> 'a res \<Rightarrow> 'a res" where
  "unwrap_or d (Err e) = Ok d"
| "unwrap_or d r = r"

subsection \<open>Equality and order\<close>

definition values_equal :: "json \<Rightarrow> json \<Rightarrow> bool" where
  "values_equal a b =
     (if is_null a \<or> is_null b then False
      else if is_number a \<and> is_number b then
        (case (as_i64 a, as_i64 b) of
           (Some ai, Some bi) \<Rightarrow> ai = bi
         | _ \<Rightarrow>
             (case (as_u64 a, as_u64 b) of
                (Some au, Some bu) \<Rightarrow> au = bu
              | _ \<Rightarrow>
                  (case (as_f64 a, as_f64 b) of
                     (Some af, Some bf) \<Rightarrow> f64_eq af bf
                   | _ \<Rightarrow> False)))
      else json_eq a b)"

definition compare_values :: "json \<Rightarrow> json \<Rightarrow> ordering option" where
  "compare_values a b =
     (if is_number a \<and> is_number b then
        (case (as_f64 a, as_f64 b) of
           (Some af, Some bf) \<Rightarrow> f64_partial_cmp af bf
         | _ \<Rightarrow> None)
      else
        (case (as_str a, as_str b) of
           (Some s, Some t) \<Rightarrow> Some (str_cmp s t)
         | _ \<Rightarrow>
             (case (as_bool a, as_bool b) of
                (Some x, Some y) \<Rightarrow> Some (bool_cmp x y)
              | _ \<Rightarrow> None)))"

definition ge_or_eq :: "ordering \<Rightarrow> bool" where
  "ge_or_eq r \<longleftrightarrow> r = OGreater \<or> r = OEqual"

definition le_or_eq :: "ordering \<Rightarrow> bool" where
  "le_or_eq r \<longleftrightarrow> r = OLess \<or> r = OEqual"

definition eval_between_fallible :: "json \<Rightarrow> json \<Rightarrow> json \<Rightarrow> bool \<Rightarrow> json res" where
  "eval_between_fallible v low high negated =
     (if is_null v \<or> is_null low \<or> is_null high then Ok (Bool False)
      else (case compare_values v low of
              None \<Rightarrow> Err (BetweenCompare v low)
            | Some ord1 \<Rightarrow>
                (case compare_values v high of
                   None \<Rightarrow> Err (BetweenCompare v high)
                 | Some ord2 \<Rightarrow>
                     (let in_range = ge_or_eq ord1 \<and> le_or_eq ord2
                      in Ok (Bool (if negated then \<not> in_range else in_range))))))"

definition eval_between :: "json \<Rightarrow> json \<Rightarrow> json \<Rightarrow> bool \<Rightarrow> json res" where
  "eval_between v low high negated = unwrap_or (Bool False) (eval_between_fallible v low high negated)"

definition eval_like :: "json \<Rightarrow> json \<Rightarrow> json" where
  "eval_like l r =
     (case (as_str l, as_str r) of
        (Some s, Some p) \<Rightarrow> Bool (like_match s p)
      | _ \<Rightarrow> Bool False)"

subsection \<open>Bitwise operators\<close>

text \<open>\<open>&\<close>, \<open>|\<close> and \<open>^\<close> on \<open>i64\<close> are two's complement; on \<open>u64\<close> they are the same
  operations on the non-negative value.\<close>

definition eval_bitwise :: "json \<Rightarrow> json \<Rightarrow> binary_operator \<Rightarrow> json" where
  "eval_bitwise l r bop =
     (if is_null l \<or> is_null r then Null
      else (case (as_bool l, as_bool r) of
              (Some a, Some b) \<Rightarrow>
                (case bop of
                   BitAnd \<Rightarrow> Bool (a \<and> b)
                 | BitOr \<Rightarrow> Bool (a \<or> b)
                 | BitXor \<Rightarrow> Bool (a \<noteq> b)
                 | _ \<Rightarrow> Null)
            | _ \<Rightarrow>
                (case (as_i64 l, as_i64 r) of
                   (Some a, Some b) \<Rightarrow>
                     (case bop of
                        BitAnd \<Rightarrow> of_i64 (and a b)
                      | BitOr \<Rightarrow> of_i64 (or a b)
                      | BitXor \<Rightarrow> of_i64 (xor a b)
                      | _ \<Rightarrow> Null)
                 | _ \<Rightarrow>
                     (case (as_u64 l, as_u64 r) of
                        (Some a, Some b) \<Rightarrow>
                          (case bop of
                             BitAnd \<Rightarrow> of_u64 (and a b)
                           | BitOr \<Rightarrow> of_u64 (or a b)
                           | BitXor \<Rightarrow> of_u64 (xor a b)
                           | _ \<Rightarrow> Null)
                      | _ \<Rightarrow> Null))))"

subsection \<open>Unary operators\<close>

definition eval_unary_op :: "unary_operator \<Rightarrow> json \<Rightarrow> json" where
  "eval_unary_op uop v =
     (case uop of
        Not \<Rightarrow> (case v of Bool b \<Rightarrow> Bool (\<not> b) | _ \<Rightarrow> Null)
      | Neg \<Rightarrow>
          (if is_null v then Null
           else (case as_i64 v of
                   Some i \<Rightarrow>
                     (case checked_i64 (- i) of
                        Some n \<Rightarrow> of_i64 n
                      | None \<Rightarrow> of_f64 (f64_neg (f64_of_int i)))
                 | None \<Rightarrow>
                     (case as_u64 v of
                        Some u \<Rightarrow>
                          if u \<le> i64_max then of_i64 (- u) else of_f64 (f64_neg (f64_of_int u))
                      | None \<Rightarrow>
                          (case as_f64 v of
                             Some f \<Rightarrow> of_f64 (f64_neg f)
                           | None \<Rightarrow> Null)))))"

subsection \<open>Binary operators\<close>

text \<open>Rust's \<open>/\<close> and \<open>%\<close> on \<open>i64\<close> truncate towards zero and panic when the divisor is zero
  or the quotient is not an \<open>i64\<close>, whatever the build profile.\<close>

definition trunc_div :: "int \<Rightarrow> int \<Rightarrow> int" where
  "trunc_div a b = (if (a < 0) = (b < 0) then \<bar>a\<bar> div \<bar>b\<bar> else - (\<bar>a\<bar> div \<bar>b\<bar>))"

definition trunc_rem :: "int \<Rightarrow> int \<Rightarrow> int" where
  "trunc_rem a b = (if a < 0 then - (\<bar>a\<bar> mod \<bar>b\<bar>) else \<bar>a\<bar> mod \<bar>b\<bar>)"

definition i64_div :: "int \<Rightarrow> int \<Rightarrow> json res" where
  "i64_div a b = (if b = 0 \<or> a = i64_min \<and> b = - 1 then Panic else Ok (of_i64 (trunc_div a b)))"

definition i64_rem :: "int \<Rightarrow> int \<Rightarrow> json res" where
  "i64_rem a b = (if b = 0 \<or> a = i64_min \<and> b = - 1 then Panic else Ok (of_i64 (trunc_rem a b)))"

fun null_result :: "binary_operator \<Rightarrow> json" where
  "null_result And = Bool False"
| "null_result Or = Bool False"
| "null_result BitAnd = Bool False"
| "null_result BitOr = Bool False"
| "null_result BitXor = Bool False"
| "null_result Eq = Bool False"
| "null_result Neq = Bool False"
| "null_result Gt = Bool False"
| "null_result Gte = Bool False"
| "null_result Lt = Bool False"
| "null_result Lte = Bool False"
| "null_result _ = Null"

fun ord_matches :: "binary_operator \<Rightarrow> ordering option \<Rightarrow> bool" where
  "ord_matches Lt r = (r = Some OLess)"
| "ord_matches Lte r = (r = Some OLess \<or> r = Some OEqual)"
| "ord_matches Gt r = (r = Some OGreater)"
| "ord_matches Gte r = (r = Some OGreater \<or> r = Some OEqual)"
| "ord_matches _ r = False"

definition eq_operands :: "json \<Rightarrow> json \<Rightarrow> bool" where
  "eq_operands l r \<longleftrightarrow> is_string l \<and> is_string r \<or> is_boolean l \<and> is_boolean r"

definition num_of :: "json \<Rightarrow> f64" where
  "num_of v = (case as_f64 v of Some x \<Rightarrow> x | None \<Rightarrow> NaN)"

text \<open>\<open>+\<close>, \<open>-\<close> and \<open>*\<close>: saturating on two \<open>i64\<close>, in floating point otherwise.\<close>

definition arith_op :: "(int \<Rightarrow> int \<Rightarrow> int) \<Rightarrow> (f64 \<Rightarrow> f64 \<Rightarrow> f64) \<Rightarrow> binary_operator \<Rightarrow> json \<Rightarrow> json \<Rightarrow> json res" where
  "arith_op iop fop bop l r =
     (if is_number l \<and> is_number r then
        (case (as_i64 l, as_i64 r) of
           (Some a, Some b) \<Rightarrow> Ok (of_i64 (iop a b))
         | _ \<Rightarrow> Ok (of_f64 (fop (num_of l) (num_of r))))
      else Err (InvalidOp l (op_token bop) r))"

definition div_op :: "(int \<Rightarrow> int \<Rightarrow> json res) \<Rightarrow> (f64 \<Rightarrow> f64 \<Rightarrow> f64) \<Rightarrow> binary_operator \<Rightarrow> json \<Rightarrow> json \<Rightarrow> json res" where
  "div_op iop fop bop l r =
     (if is_number l \<and> is_number r then
        (if f64_eq (num_of r) fzero then Err DividedByZero
         else (case (as_i64 l, as_i64 r) of
                 (Some a, Some b) \<Rightarrow> if b = 0 then Err DividedByZero else iop a b
               | _ \<Rightarrow> Ok (of_f64 (fop (num_of l) (num_of r)))))
      else Err (InvalidOp l (op_token bop) r))"

definition cmp_op :: "binary_operator \<Rightarrow> json \<Rightarrow> json \<Rightarrow> json res" where
  "cmp_op bop l r =
     (if is_number l \<and> is_number r then
        Ok (Bool (ord_matches bop
          (case (as_f64 l, as_f64 r) of (Some x, Some y) \<Rightarrow> f64_partial_cmp x y | _ \<Rightarrow> None)))
      else (case (as_str l, as_str r) of
              (Some s, Some t) \<Rightarrow> Ok (Bool (ord_matches bop (Some (str_cmp s t))))
            | _ \<Rightarrow>
                (case (as_bool l, as_bool r) of
                   (Some a, Some b) \<Rightarrow> Ok (Bool (ord_matches bop (Some (bool_cmp a b))))
                 | _ \<Rightarrow> Err (InvalidOp l (op_token bop) r))))"

definition bool_op :: "(bool \<Rightarrow> bool \<Rightarrow> bool) \<Rightarrow> binary_operator \<Rightarrow> json \<Rightarrow> json \<Rightarrow> json res" where
  "bool_op f bop l r =
     (case (as_bool l, as_bool r) of
        (Some a, Some b) \<Rightarrow> Ok (Bool (f a b))
      | _ \<Rightarrow> Err (InvalidOp l (op_token bop) r))"

definition eq_op :: "bool \<Rightarrow> binary_operator \<Rightarrow> json \<Rightarrow> json \<Rightarrow> json res" where
  "eq_op wanted bop l r =
     (if is_number l \<and> is_number r then Ok (Bool (values_equal l r = wanted))
      else if eq_operands l r then Ok (Bool (json_eq l r = wanted))
      else Err (InvalidOp l (op_token bop) r))"

definition eval_binary_op_fallible :: "json \<Rightarrow> binary_operator \<Rightarrow> json \<Rightarrow> json res" where
  "eval_binary_op_fallible l bop r =
     (if is_null l \<or> is_null r then Ok (null_result bop)
      else (case bop of
              And \<Rightarrow> bool_op (\<and>) And l r
            | Or \<Rightarrow> bool_op (\<or>) Or l r
            | Eq \<Rightarrow> eq_op True Eq l r
            | Neq \<Rightarrow> eq_op False Neq l r
            | Lt \<Rightarrow> cmp_op Lt l r
            | Lte \<Rightarrow> cmp_op Lte l r
            | Gt \<Rightarrow> cmp_op Gt l r
            | Gte \<Rightarrow> cmp_op Gte l r
            | Add \<Rightarrow> arith_op sat_add f64_add Add l r
            | Sub \<Rightarrow> arith_op sat_sub f64_sub Sub l r
            | Mul \<Rightarrow> arith_op sat_mul f64_mul Mul l r
            | Div \<Rightarrow> div_op i64_div f64_div Div l r
            | Mod \<Rightarrow> div_op i64_rem f64_rem Mod l r
            | Like \<Rightarrow> Ok (eval_like l r)
            | BitAnd \<Rightarrow> Ok (eval_bitwise l r BitAnd)
            | BitOr \<Rightarrow> Ok (eval_bitwise l r BitOr)
            | BitXor \<Rightarrow> Ok (eval_bitwise l r BitXor)))"

definition eval_binary_op :: "json \<Rightarrow> binary_operator \<Rightarrow> json \<Rightarrow> json res" where
  "eval_binary_op l bop r = unwrap_or Null (eval_binary_op_fallible l bop r)"

subsection \<open>Function arithmetic\<close>

datatype arith_kind = ArithAdd | ArithSub | ArithMul | ArithDiv | ArithMod

definition checked_json :: "int \<Rightarrow> json" where
  "checked_json i = (case checked_i64 i of Some v \<Rightarrow> of_i64 v | None \<Rightarrow> Null)"

definition eval_arith :: "json \<Rightarrow> json \<Rightarrow> arith_kind \<Rightarrow> json res" where
  "eval_arith l r k =
     (if is_null l \<or> is_null r then Ok Null
      else (case (as_i64 l, as_i64 r) of
              (Some a, Some b) \<Rightarrow>
                (case k of
                   ArithAdd \<Rightarrow> Ok (checked_json (a + b))
                 | ArithSub \<Rightarrow> Ok (checked_json (a - b))
                 | ArithMul \<Rightarrow> Ok (checked_json (a * b))
                 | ArithMod \<Rightarrow> if b = 0 then Ok Null else i64_rem a b
                 | ArithDiv \<Rightarrow>
                     if b = 0 then Ok Null else Ok (of_f64 (f64_div (f64_of_int a) (f64_of_int b))))
            | _ \<Rightarrow>
                (case (as_f64 l, as_f64 r) of
                   (Some x, Some y) \<Rightarrow>
                     (case k of
                        ArithAdd \<Rightarrow> Ok (of_f64 (f64_add x y))
                      | ArithSub \<Rightarrow> Ok (of_f64 (f64_sub x y))
                      | ArithMul \<Rightarrow> Ok (of_f64 (f64_mul x y))
                      | ArithDiv \<Rightarrow> if f64_eq y fzero then Ok Null else Ok (of_f64 (f64_div x y))
                      | ArithMod \<Rightarrow> if f64_eq y fzero then Ok Null else Ok (of_f64 (f64_rem x y)))
                 | _ \<Rightarrow> Ok Null)))"

subsection \<open>Indexing and slicing\<close>

text \<open>\<open>str::trim\<close> removes Unicode white space at both ends.\<close>

definition is_white :: "nat \<Rightarrow> bool" where
  "is_white c \<longleftrightarrow> 9 \<le> c \<and> c \<le> 13 \<or> c = 32 \<or> c = 133 \<or> c = 160 \<or> c = 5760 \<or>
     8192 \<le> c \<and> c \<le> 8202 \<or> c = 8232 \<or> c = 8233 \<or> c = 8239 \<or> c = 8287 \<or> c = 12288"

text \<open>On text whose code points are not all ASCII, only the digits and sign of \<open>parse\<close> matter:
  the trimmed code points are read as characters, and any other one fails to parse.\<close>

definition trim_chars :: "nat list \<Rightarrow> nat list" where
  "trim_chars cs = rev (dropWhile is_white (rev (dropWhile is_white cs)))"

definition parse_i64_chars :: "nat list \<Rightarrow> int option" where
  "parse_i64_chars cs = (if list_all (\<lambda>c. c < 128) cs then parse_i64 (map char_of cs) else None)"

definition as_index_i64 :: "json \<Rightarrow> int option" where
  "as_index_i64 v =
     (case v of
        Number n \<Rightarrow>
          (case num_as_i64 n of
             Some i \<Rightarrow> Some i
           | None \<Rightarrow>
               (case num_as_u64 n of
                  Some u \<Rightarrow> checked_i64 u
                | None \<Rightarrow>
                    if is_finite (num_as_f64 n) then Some (f64_as_i64 (f64_trunc (num_as_f64 n)))
                    else None))
      | Str s \<Rightarrow> parse_i64_chars (trim_chars (str_chars s))
      | _ \<Rightarrow> None)"

definition norm_index :: "int \<Rightarrow> int \<Rightarrow> int" where
  "norm_index len i = (if 0 \<le> i then i else len + i)"

definition index_value :: "json \<Rightarrow> json \<Rightarrow> json" where
  "index_value base idx =
     (case base of
        Arr arr \<Rightarrow>
          (case as_index_i64 idx of
             None \<Rightarrow> Null
           | Some i \<Rightarrow>
               (let len = int (length arr); pos = norm_index len i
                in if pos < 0 \<or> len \<le> pos then Null else arr ! nat pos))
      | Obj m \<Rightarrow>
          (case idx of
             Str k \<Rightarrow> (case fmlookup m k of None \<Rightarrow> Null | Some v \<Rightarrow> v)
           | _ \<Rightarrow> Null)
      | _ \<Rightarrow> Null)"

definition norm_bound :: "int \<Rightarrow> json option \<Rightarrow> int \<Rightarrow> int option" where
  "norm_bound len v dflt =
     (case v of
        None \<Rightarrow> Some dflt
      | Some x \<Rightarrow> map_option (norm_index len) (as_index_i64 x))"

definition clamp :: "int \<Rightarrow> int \<Rightarrow> int \<Rightarrow> int" where
  "clamp x lo hi = max lo (min hi x)"

definition slice_value :: "json \<Rightarrow> json option \<Rightarrow> json option \<Rightarrow> json" where
  "slice_value base lo hi =
     (case base of
        Arr arr \<Rightarrow>
          (let len = int (length arr)
           in case (norm_bound len lo 0, norm_bound len hi len) of
                (Some l, Some h) \<Rightarrow>
                  (let l = clamp l 0 len; h = clamp h 0 len
                   in if h \<le> l then Arr []
                      else Arr (take (nat h - nat l) (drop (nat l) arr)))
              | _ \<Rightarrow> Null)
      | _ \<Rightarrow> Null)"

end
