(* ===== verification/Analytic.thy ===== *)
theory Analytic
  imports EvalOps
begin

text \<open>
  The analytic functions (\<open>eval/analytic.rs\<close>, the \<open>acc_*\<close> part of \<open>eval/aggregate.rs\<close> and
  \<open>RuleState\<close> in \<open>eval.rs\<close>): running aggregates, \<open>lag\<close>, change detection and the sequence
  automaton, each keeping its state under one key of the rule's state map.

  The map is a \<open>HashMap\<close>; which key its iterator meets first is not determined, so the
  victim of an eviction is chosen by the parameter \<open>pick\<close>, a function of the map and of the
  predicate the code filters the keys with.
\<close>

type_synonym rule_map = "(string, json) fmap"

type_synonym key_picker = "(string \<Rightarrow> bool) \<Rightarrow> rule_map \<Rightarrow> string option"

text \<open>What \<open>keys().find(p)\<close> guarantees.\<close>

definition picks :: "key_picker \<Rightarrow> bool" where
  "picks pick \<longleftrightarrow>
     (\<forall>p m. case pick p m of
        None \<Rightarrow> (\<forall>k. k |\<in>| fmdom m \<longrightarrow> \<not> p k)
      | Some k \<Rightarrow> k |\<in>| fmdom m \<and> p k)"

definition MAX_STATE_KEYS :: nat where "MAX_STATE_KEYS = 10000"

definition MAX_ACC_ITEMS :: nat where "MAX_ACC_ITEMS = 10000"

definition MAX_CEP_PARTITIONS :: nat where "MAX_CEP_PARTITIONS = 10000"

definition starts_with :: "string \<Rightarrow> string \<Rightarrow> bool" where
  "starts_with pre s \<longleftrightarrow> take (length pre) s = pre"

definition evictable :: "string \<Rightarrow> bool" where
  "evictable k \<longleftrightarrow> \<not> starts_with ''__'' k \<and> \<not> starts_with ''$$'' k"

definition map_len :: "rule_map \<Rightarrow> nat" where
  "map_len m = fcard (fmdom m)"

definition insert_bounded :: "key_picker \<Rightarrow> string \<Rightarrow> json \<Rightarrow> rule_map \<Rightarrow> rule_map" where
  "insert_bounded pick key v m =
     (let m1 = (if fmlookup m key = None \<and> MAX_STATE_KEYS \<le> map_len m then
                  (case pick evictable m of Some k \<Rightarrow> fmdrop k m | None \<Rightarrow> m)
                else m)
      in fmupd key v m1)"

definition lookup_or :: "json \<Rightarrow> string \<Rightarrow> rule_map \<Rightarrow> json" where
  "lookup_or d k m = (case fmlookup m k of Some v \<Rightarrow> v | None \<Rightarrow> d)"

definition i64_or :: "int \<Rightarrow> json option \<Rightarrow> int" where
  "i64_or d v = (case v of None \<Rightarrow> d | Some x \<Rightarrow> (case as_i64 x of None \<Rightarrow> d | Some i \<Rightarrow> i))"

subsection \<open>Argument conversions\<close>

text \<open>\<open>parse::<f64>\<close> of trimmed text is left to the parameter \<open>pf\<close>.\<close>

definition to_i64_arg :: "(string \<Rightarrow> f64 option) \<Rightarrow> json \<Rightarrow> int option" where
  "to_i64_arg pf v =
     (case as_i64 v of
        Some i \<Rightarrow> Some i
      | None \<Rightarrow>
          (case as_u64 v of
             Some u \<Rightarrow> if u \<le> i64_max then Some u else None
           | None \<Rightarrow>
               (case as_f64 v of
                  Some f \<Rightarrow> if is_finite f then Some (f64_as_i64 (f64_trunc f)) else None
                | None \<Rightarrow>
                    (case as_str v of
                       Some s \<Rightarrow>
                         (case parse_i64_chars (trim_chars (str_chars s)) of
                            Some i \<Rightarrow> Some i
                          | None \<Rightarrow>
                              (case pf s of
                                 Some f \<Rightarrow> if is_finite f then Some (f64_as_i64 (f64_trunc f)) else None
                               | None \<Rightarrow> None))
                     | None \<Rightarrow>
                         (case as_bool v of
                            Some b \<Rightarrow> Some (if b then 1 else 0)
                          | None \<Rightarrow> None)))))"

fun to_string_always :: "(json \<Rightarrow> string) \<Rightarrow> json \<Rightarrow> string" where
  "to_string_always rd Null = []"
| "to_string_always rd (Str s) = s"
| "to_string_always rd (Number n) = rd (Number n)"
| "to_string_always rd (Bool b) = (if b then ''true'' else ''false'')"
| "to_string_always rd v = rd v"

fun value_to_key :: "(json \<Rightarrow> string) \<Rightarrow> json \<Rightarrow> string" where
  "value_to_key rd Null = ''null:''"
| "value_to_key rd (Bool b) = ''bool:'' @ (if b then ''true'' else ''false'')"
| "value_to_key rd (Number n) = ''num:'' @ rd (Number n)"
| "value_to_key rd (Str s) = ''str:'' @ s"
| "value_to_key rd v = ''json:'' @ rd v"

subsection \<open>Running aggregates\<close>

text \<open>Every function takes its state key and arguments and returns the value and the state.\<close>

fun map_entry :: "json \<Rightarrow> (string \<times> json) option" where
  "map_entry (Obj m) =
     (case (fmlookup m ''key'', fmlookup m ''value'') of
        (Some (Str k), Some v) \<Rightarrow> Some (k, v)
      | _ \<Rightarrow> None)"
| "map_entry v = None"

definition entry_obj :: "string \<times> json \<Rightarrow> json" where
  "entry_obj e = Obj (fmupd ''value'' (snd e) (fmupd ''key'' (Str (fst e)) fmempty))"

fun set_entry :: "string \<Rightarrow> json \<Rightarrow> (string \<times> json) list \<Rightarrow> (string \<times> json) list option" where
  "set_entry k v [] = None"
| "set_entry k v ((k', v') # es) =
     (if k' = k then Some ((k', v) # es) else map_option ((#) (k', v')) (set_entry k v es))"

text \<open>A bounded list drops its first element before it grows past the limit.\<close>

definition push_bounded :: "nat \<Rightarrow> 'a \<Rightarrow> 'a list \<Rightarrow> 'a list" where
  "push_bounded cap x xs = (if cap \<le> length xs then tl xs else xs) @ [x]"

definition stored_list :: "string \<Rightarrow> rule_map \<Rightarrow> json list" where
  "stored_list key m = (case fmlookup m key of Some (Arr vs) \<Rightarrow> vs | _ \<Rightarrow> [])"

definition acc_map_agg ::
  "(json \<Rightarrow> string) \<Rightarrow> key_picker \<Rightarrow> string \<Rightarrow> json list \<Rightarrow> rule_map \<Rightarrow> json \<times> rule_map" where
  "acc_map_agg rd pick key args m =
     (case args of
        [a, v] \<Rightarrow>
          (let k = to_string_always rd a;
               entries = List.map_filter map_entry (stored_list key m);
               entries' = (case set_entry k v entries of
                             Some es \<Rightarrow> es
                           | None \<Rightarrow> push_bounded MAX_ACC_ITEMS (k, v) entries);
               out = Arr (map entry_obj entries')
           in (out, insert_bounded pick key out m))
      | _ \<Rightarrow> (Null, m))"

definition acc_extreme :: "key_picker \<Rightarrow> string \<Rightarrow> json list \<Rightarrow> bool \<Rightarrow> rule_map \<Rightarrow> json \<times> rule_map" where
  "acc_extreme pick key args take_greater m =
     (case args of
        [v] \<Rightarrow>
          (if is_null v then (lookup_or Null key m, m)
           else (case fmlookup m key of
                   Some current \<Rightarrow>
                     if compare_values v current = Some (if take_greater then OGreater else OLess)
                     then (v, insert_bounded pick key v m) else (current, m)
                 | None \<Rightarrow> (v, insert_bounded pick key v m)))
      | _ \<Rightarrow> (Null, m))"

definition stored_by :: "string \<Rightarrow> rule_map \<Rightarrow> (json \<times> json) option" where
  "stored_by key m =
     (case fmlookup m key of
        Some (Obj o1) \<Rightarrow>
          (case (fmlookup o1 ''compare'', fmlookup o1 ''value'') of
             (Some c, Some v) \<Rightarrow> Some (c, v)
           | _ \<Rightarrow> None)
      | _ \<Rightarrow> None)"

definition acc_extreme_by :: "key_picker \<Rightarrow> string \<Rightarrow> json list \<Rightarrow> bool \<Rightarrow> rule_map \<Rightarrow> json \<times> rule_map" where
  "acc_extreme_by pick key args take_greater m =
     (case args of
        [v, cmp] \<Rightarrow>
          (let stored = stored_by key m;
               current = (case stored of Some (_, w) \<Rightarrow> w | None \<Rightarrow> Null)
           in if is_null v \<or> is_null cmp then (current, m)
              else (let should_store =
                          (case stored of
                             None \<Rightarrow> True
                           | Some (sc, _) \<Rightarrow>
                               (case compare_values cmp sc of
                                  Some r \<Rightarrow> r = OEqual \<or> r = (if take_greater then OGreater else OLess)
                                | None \<Rightarrow> False))
                    in if should_store
                       then (v, insert_bounded pick key
                                  (Obj (fmupd ''value'' v (fmupd ''compare'' cmp fmempty))) m)
                       else (current, m)))
      | _ \<Rightarrow> (Null, m))"

definition acc_count :: "key_picker \<Rightarrow> string \<Rightarrow> json list \<Rightarrow> rule_map \<Rightarrow> json \<times> rule_map" where
  "acc_count pick key args m =
     (case args of
        [v] \<Rightarrow>
          (if is_null v then (lookup_or (of_i64 0) key m, m)
           else (let nxt = of_i64 (sat_add (i64_or 0 (fmlookup m key)) 1)
                 in (nxt, insert_bounded pick key nxt m)))
      | _ \<Rightarrow> (Null, m))"

text \<open>\<open>eval_arith\<close> with \<open>Add\<close> cannot panic, so its value is used directly.\<close>

definition arith_add :: "json \<Rightarrow> json \<Rightarrow> json" where
  "arith_add a b = (case eval_arith a b ArithAdd of Ok v \<Rightarrow> v | _ \<Rightarrow> Null)"

definition acc_sum :: "key_picker \<Rightarrow> string \<Rightarrow> json list \<Rightarrow> rule_map \<Rightarrow> json \<times> rule_map" where
  "acc_sum pick key args m =
     (case args of
        [v] \<Rightarrow>
          (if is_null v \<or> \<not> is_number v then (lookup_or Null key m, m)
           else (let nxt = (case fmlookup m key of
                              Some cur \<Rightarrow> arith_add cur v
                            | None \<Rightarrow> v)
                 in (nxt, insert_bounded pick key nxt m)))
      | _ \<Rightarrow> (Null, m))"

definition avg_json :: "json option \<Rightarrow> int option \<Rightarrow> json" where
  "avg_json s c =
     (case (s, c) of
        (Some v, Some n) \<Rightarrow>
          (case as_f64 v of
             Some x \<Rightarrow> if 0 < n then of_f64 (f64_div x (f64_of_int n)) else Null
           | None \<Rightarrow> Null)
      | _ \<Rightarrow> Null)"

definition acc_avg_current :: "string \<Rightarrow> rule_map \<Rightarrow> json" where
  "acc_avg_current key m =
     (case fmlookup m key of
        Some (Obj o1) \<Rightarrow>
          avg_json (fmlookup o1 ''sum'')
            (case fmlookup o1 ''count'' of Some c \<Rightarrow> as_i64 c | None \<Rightarrow> None)
      | _ \<Rightarrow> Null)"

definition acc_avg :: "key_picker \<Rightarrow> string \<Rightarrow> json list \<Rightarrow> rule_map \<Rightarrow> json \<times> rule_map" where
  "acc_avg pick key args m =
     (case args of
        [v] \<Rightarrow>
          (if is_null v \<or> \<not> is_number v then (acc_avg_current key m, m)
           else (let (s, c) = (case fmlookup m key of
                                 Some (Obj o1) \<Rightarrow>
                                   (lookup_or (of_i64 0) ''sum'' o1, i64_or 0 (fmlookup o1 ''count''))
                               | _ \<Rightarrow> (of_i64 0, 0));
                     s' = arith_add s v;
                     c' = sat_add c 1
                 in (avg_json (Some s') (Some c'),
                     insert_bounded pick key
                       (Obj (fmupd ''count'' (of_i64 c') (fmupd ''sum'' s' fmempty))) m)))
      | _ \<Rightarrow> (Null, m))"

definition acc_collect :: "key_picker \<Rightarrow> string \<Rightarrow> json list \<Rightarrow> rule_map \<Rightarrow> json \<times> rule_map" where
  "acc_collect pick key args m =
     (case args of
        [] \<Rightarrow> (Null, m)
      | v # _ \<Rightarrow>
          (let vs = stored_list key m
           in if is_null v then (Arr vs, m)
              else (let vs' = push_bounded MAX_ACC_ITEMS v vs
                    in (Arr vs', insert_bounded pick key (Arr vs') m))))"

definition acc_distinct_collect :: "key_picker \<Rightarrow> string \<Rightarrow> json list \<Rightarrow> rule_map \<Rightarrow> json \<times> rule_map" where
  "acc_distinct_collect pick key args m =
     (case args of
        [] \<Rightarrow> (Null, m)
      | v # _ \<Rightarrow>
          (let vs = stored_list key m
           in if is_null v \<or> list_ex (\<lambda>e. values_equal e v) vs then (Arr vs, m)
              else (let vs' = push_bounded MAX_ACC_ITEMS v vs
                    in (Arr vs', insert_bounded pick key (Arr vs') m))))"

definition is_acc_call :: "string \<Rightarrow> bool" where
  "is_acc_call name \<longleftrightarrow> name \<in> {''acc_map_agg'', ''acc_max'', ''acc_max_by'', ''acc_min'',
     ''acc_min_by'', ''acc_count'', ''acc_sum'', ''acc_avg'', ''acc_collect'',
     ''acc_distinct_collect'', ''distinct_acc''}"

definition eval_acc_call ::
  "(json \<Rightarrow> string) \<Rightarrow> key_picker \<Rightarrow> string \<Rightarrow> json list \<Rightarrow> string \<Rightarrow> string \<Rightarrow> bool \<Rightarrow> rule_map \<Rightarrow> json \<times> rule_map" where
  "eval_acc_call rd pick name args call_id partition_key skip_update m =
     (let key = name @ '':'' @ call_id @ '':'' @ partition_key
      in if skip_update then
           (if name = ''acc_count'' then (lookup_or (of_i64 0) key m, m)
            else if name = ''acc_avg'' then (acc_avg_current key m, m)
            else (lookup_or Null key m, m))
         else if name = ''acc_map_agg'' then acc_map_agg rd pick key args m
         else if name = ''acc_max'' then acc_extreme pick key args True m
         else if name = ''acc_max_by'' then acc_extreme_by pick key args True m
         else if name = ''acc_min'' then acc_extreme pick key args False m
         else if name = ''acc_min_by'' then acc_extreme_by pick key args False m
         else if name = ''acc_count'' then acc_count pick key args m
         else if name = ''acc_sum'' then acc_sum pick key args m
         else if name = ''acc_avg'' then acc_avg pick key args m
         else if name = ''acc_collect'' then acc_collect pick key args m
         else if name = ''acc_distinct_collect'' \<or> name = ''distinct_acc''
         then acc_distinct_collect pick key args m
         else (Null, m))"

subsection \<open>Window navigation\<close>

definition nth_opt :: "'a list \<Rightarrow> nat \<Rightarrow> 'a option" where
  "nth_opt xs i = (if i < length xs then Some (xs ! i) else None)"

definition eval_lag ::
  "(string \<Rightarrow> f64 option) \<Rightarrow> key_picker \<Rightarrow> json list \<Rightarrow> string \<Rightarrow> string \<Rightarrow> bool \<Rightarrow> rule_map \<Rightarrow> json \<times> rule_map" where
  "eval_lag pf pick args call_id partition_key skip_update m =
     (if args = [] \<or> 4 < length args then (Null, m)
      else (let offset = (case Option.bind (nth_opt args 1) (to_i64_arg pf) of Some i \<Rightarrow> i | None \<Rightarrow> 1)
            in if offset \<le> 0 then (args ! 0, m)
               else (let max_keep = min (nat offset) 10000;
                         dflt = (case nth_opt args 2 of Some v \<Rightarrow> v | None \<Rightarrow> Null);
                         ignore_null = (case Option.bind (nth_opt args 3) as_bool of Some b \<Rightarrow> b | None \<Rightarrow> False);
                         key = ''lag:'' @ call_id @ '':'' @ partition_key;
                         history = stored_list key m;
                         out = (if max_keep \<le> length history
                                then history ! (length history - max_keep) else dflt)
                     in if \<not> skip_update \<and> (\<not> ignore_null \<or> \<not> is_null (args ! 0)) then
                          (let h = (if max_keep \<le> length history
                                    then drop (length history - max_keep + 1) history else history)
                           in (out, insert_bounded pick key (Arr (h @ [args ! 0])) m))
                        else (out, m))))"

text \<open>One column of \<open>had_changed\<close>/\<open>changed_col\<close>: the state after it and whether it changed.\<close>

definition changed_key :: "string \<Rightarrow> string \<Rightarrow> nat \<Rightarrow> string \<Rightarrow> string" where
  "changed_key name call_id idx partition_key =
     name @ '':'' @ call_id @ '':'' @ show_int (int idx) @ '':'' @ partition_key"

fun changed_cols_loop ::
  "key_picker \<Rightarrow> (nat \<Rightarrow> string) \<Rightarrow> nat \<Rightarrow> json list \<Rightarrow> bool \<Rightarrow> json \<Rightarrow> rule_map \<Rightarrow> bool \<times> json \<times> rule_map" where
  "changed_cols_loop pick key idx [] any first m = (any, first, m)"
| "changed_cols_loop pick key idx (v # vs) any first m =
     (if is_null v then changed_cols_loop pick key (idx + 1) vs any first m
      else (let changed = (case fmlookup m (key idx) of
                             None \<Rightarrow> True
                           | Some p \<Rightarrow> \<not> values_equal p v)
            in if changed
               then changed_cols_loop pick key (idx + 1) vs True (if is_null first then v else first)
                      (insert_bounded pick (key idx) v m)
               else changed_cols_loop pick key (idx + 1) vs any first m))"

definition eval_changed ::
  "key_picker \<Rightarrow> string \<Rightarrow> json list \<Rightarrow> string \<Rightarrow> string \<Rightarrow> rule_map \<Rightarrow> json \<times> rule_map" where
  "eval_changed pick name args call_id partition_key m =
     (if args = [] then (Null, m)
      else (let cols = (if 2 \<le> length args \<and> is_boolean (args ! 0) then tl args else args)
            in case changed_cols_loop pick (\<lambda>i. changed_key name call_id i partition_key) 0 cols
                      False Null m of
                 (any, first, m') \<Rightarrow>
                   ((if name = ''had_changed'' then Bool any else if any then first else Null), m')))"

subsection \<open>Sequence matching\<close>

record cep =
  cep_stage :: nat
  cep_start :: int
  cep_completed :: int

definition step_bool :: "json list \<Rightarrow> nat \<Rightarrow> bool" where
  "step_bool steps i = (case Option.bind (nth_opt steps i) as_bool of Some b \<Rightarrow> b | None \<Rightarrow> False)"

definition cep_expire :: "int \<Rightarrow> int \<Rightarrow> cep \<Rightarrow> cep" where
  "cep_expire max_span ts c =
     (if 0 < cep_stage c \<and> 0 < max_span \<and> max_span < sat_sub ts (cep_start c)
      then c\<lparr>cep_stage := 0\<rparr> else c)"

definition cep_advance :: "json list \<Rightarrow> int \<Rightarrow> cep \<Rightarrow> cep" where
  "cep_advance steps ts c =
     (if cep_stage c = 0 then
        (if step_bool steps 0 then c\<lparr>cep_stage := 1, cep_start := ts\<rparr> else c)
      else if cep_stage c < length steps then
        (if step_bool steps (cep_stage c) then c\<lparr>cep_stage := cep_stage c + 1\<rparr>
         else if step_bool steps 0 then c\<lparr>cep_stage := 1, cep_start := ts\<rparr>
         else c)
      else c)"

definition cep_accept :: "json list \<Rightarrow> cep \<Rightarrow> bool \<times> cep" where
  "cep_accept steps c =
     (if length steps \<le> cep_stage c
      then (True, c\<lparr>cep_completed := sat_add (cep_completed c) 1, cep_stage := 0\<rparr>)
      else (False, c))"

definition cep_step :: "int \<Rightarrow> json list \<Rightarrow> int \<Rightarrow> cep \<Rightarrow> bool \<times> cep" where
  "cep_step max_span steps ts c = cep_accept steps (cep_advance steps ts (cep_expire max_span ts c))"

definition cep_load :: "int \<Rightarrow> json option \<Rightarrow> cep" where
  "cep_load ts v =
     (case v of
        Some (Arr [a, b, c]) \<Rightarrow>
          \<lparr>cep_stage = (case as_u64 a of Some n \<Rightarrow> nat n | None \<Rightarrow> 0),
           cep_start = i64_or ts (Some b), cep_completed = i64_or 0 (Some c)\<rparr>
      | _ \<Rightarrow> \<lparr>cep_stage = 0, cep_start = ts, cep_completed = 0\<rparr>)"

definition cep_store :: "cep \<Rightarrow> json" where
  "cep_store c = Arr [of_i64 (int (cep_stage c)), of_i64 (cep_start c), of_i64 (cep_completed c)]"

definition eval_sequence_cep ::
  "(string \<Rightarrow> f64 option) \<Rightarrow> key_picker \<Rightarrow> string \<Rightarrow> json list \<Rightarrow> int \<Rightarrow> string \<Rightarrow> string \<Rightarrow> bool \<Rightarrow> rule_map
     \<Rightarrow> json \<times> rule_map" where
  "eval_sequence_cep pf pick name args ts call_id partition_key skip_update m =
     (let is_count = (name = ''sequence_count'')
      in if length args < 3 then ((if is_count then of_i64 0 else Bool False), m)
         else (let max_span = (case to_i64_arg pf (args ! 0) of Some i \<Rightarrow> i | None \<Rightarrow> 0);
                   steps = tl args;
                   key = ''cep:'' @ name @ '':'' @ call_id @ '':'' @ partition_key;
                   c = cep_load ts (fmlookup m key)
               in if skip_update
                  then ((if is_count then of_i64 (cep_completed c) else Bool False), m)
                  else (case cep_step max_span steps ts c of
                          (matched_now, c') \<Rightarrow>
                            (let m1 = (if fmlookup m key = None \<and> MAX_CEP_PARTITIONS \<le> map_len m then
                                         (case pick (starts_with ''cep:'') m of
                                            Some k \<Rightarrow> fmdrop k m | None \<Rightarrow> m)
                                       else m)
                             in ((if is_count then of_i64 (cep_completed c') else Bool matched_now),
                                 fmupd key (cep_store c') m1)))))"

end
