(* ===== verification/Aggregate.thy ===== *)
theory Aggregate
  imports Analytic
begin

text \<open>
  The batch aggregates of a window (\<open>eval/aggregate.rs\<close>): each takes the argument expressions
  of the call and the rows of the group. \<open>ev\<close> stands for \<open>Evaluator::eval_val\<close>, the value of
  an expression on one row.
\<close>

type_synonym row_eval = "expr \<Rightarrow> row \<Rightarrow> json"

definition META_KEY :: string where "META_KEY = ''__meta__''"

definition visible_key :: "string \<Rightarrow> bool" where
  "visible_key k \<longleftrightarrow> k \<noteq> META_KEY \<and> \<not> starts_with ''__'' k"

definition non_null :: "json list \<Rightarrow> json list" where
  "non_null vs = filter (\<lambda>v. \<not> is_null v) vs"

definition agg_count :: "row_eval \<Rightarrow> expr list \<Rightarrow> row list \<Rightarrow> json" where
  "agg_count ev args rows =
     (case args of
        [] \<Rightarrow> Null
      | a # as \<Rightarrow>
          if as = [] \<and> a = Wildcard then of_i64 (int (length rows))
          else of_i64 (int (length (non_null (map (ev a) rows)))))"

definition agg_numeric_values :: "row_eval \<Rightarrow> expr \<Rightarrow> row list \<Rightarrow> json list" where
  "agg_numeric_values ev a rows = filter is_number (non_null (map (ev a) rows))"

text \<open>The checked integer sum; \<open>None\<close> on overflow.\<close>

fun sum_i64 :: "int list \<Rightarrow> int \<Rightarrow> int option" where
  "sum_i64 [] acc = Some acc"
| "sum_i64 (i # is) acc = (case checked_i64 (acc + i) of Some n \<Rightarrow> sum_i64 is n | None \<Rightarrow> None)"

definition float_sum :: "json list \<Rightarrow> f64" where
  "float_sum vs = f64_sum (List.map_filter as_f64 vs)"

definition single_column :: "expr list \<Rightarrow> expr option" where
  "single_column args =
     (case args of [a] \<Rightarrow> if a = Wildcard then None else Some a | _ \<Rightarrow> None)"

definition agg_sum :: "row_eval \<Rightarrow> expr list \<Rightarrow> row list \<Rightarrow> json" where
  "agg_sum ev args rows =
     (case single_column args of
        None \<Rightarrow> Null
      | Some a \<Rightarrow>
          (let vals = agg_numeric_values ev a rows
           in if vals = [] then Null
              else if list_all (\<lambda>v. as_i64 v \<noteq> None) vals then
                (case sum_i64 (List.map_filter as_i64 vals) 0 of
                   Some n \<Rightarrow> of_i64 n
                 | None \<Rightarrow> of_f64 (float_sum vals))
              else of_f64 (float_sum vals)))"

definition agg_avg :: "row_eval \<Rightarrow> expr list \<Rightarrow> row list \<Rightarrow> json" where
  "agg_avg ev args rows =
     (case single_column args of
        None \<Rightarrow> Null
      | Some a \<Rightarrow>
          (let vals = agg_numeric_values ev a rows
           in if vals = [] then Null
              else of_f64 (f64_div (float_sum vals) (f64_of_int (int (length vals))))))"

text \<open>The shared scan of \<open>agg_min\<close> and \<open>agg_max\<close>: the first value that no later one beats.\<close>

definition best_of :: "ordering \<Rightarrow> json \<Rightarrow> json list \<Rightarrow> json" where
  "best_of wanted v0 vs = foldl (\<lambda>best v. if compare_values v best = Some wanted then v else best) v0 vs"

definition agg_extreme :: "ordering \<Rightarrow> row_eval \<Rightarrow> expr list \<Rightarrow> row list \<Rightarrow> json" where
  "agg_extreme wanted ev args rows =
     (case single_column args of
        None \<Rightarrow> Null
      | Some a \<Rightarrow>
          (let vals = non_null (map (ev a) rows);
               filtered = (if list_ex is_number vals then filter is_number vals else vals)
           in case filtered of [] \<Rightarrow> Null | v # vs \<Rightarrow> best_of wanted v vs))"

definition agg_min :: "row_eval \<Rightarrow> expr list \<Rightarrow> row list \<Rightarrow> json" where
  "agg_min = agg_extreme OLess"

definition agg_max :: "row_eval \<Rightarrow> expr list \<Rightarrow> row list \<Rightarrow> json" where
  "agg_max = agg_extreme OGreater"

definition agg_collect :: "row_eval \<Rightarrow> expr list \<Rightarrow> row list \<Rightarrow> json" where
  "agg_collect ev args rows =
     (case args of
        [a] \<Rightarrow>
          if a = Wildcard then Arr (map (\<lambda>r. Obj (fmfilter visible_key r)) rows)
          else Arr (non_null (map (ev a) rows))
      | _ \<Rightarrow> Null)"

definition first_or :: "json \<Rightarrow> json list \<Rightarrow> json" where
  "first_or d vs = (case vs of [] \<Rightarrow> d | v # _ \<Rightarrow> v)"

definition on_first :: "row_eval \<Rightarrow> expr list \<Rightarrow> nat \<Rightarrow> row list \<Rightarrow> json option" where
  "on_first ev args i rows =
     (case (nth_opt args i, rows) of (Some e, r # _) \<Rightarrow> Some (ev e r) | _ \<Rightarrow> None)"

definition agg_latest :: "row_eval \<Rightarrow> expr list \<Rightarrow> row list \<Rightarrow> json" where
  "agg_latest ev args rows =
     (if args = [] \<or> 2 < length args \<or> hd args = Wildcard then Null
      else (let dflt = (case on_first ev args 1 rows of Some v \<Rightarrow> v | None \<Rightarrow> Null)
            in first_or dflt (non_null (map (ev (hd args)) (rev rows)))))"

definition agg_lead :: "(string \<Rightarrow> f64 option) \<Rightarrow> row_eval \<Rightarrow> expr list \<Rightarrow> row list \<Rightarrow> json" where
  "agg_lead pf ev args rows =
     (if args = [] \<or> 4 < length args \<or> hd args = Wildcard then Null
      else (let offset = (case Option.bind (on_first ev args 1 rows) (to_i64_arg pf) of
                            Some i \<Rightarrow> i | None \<Rightarrow> 1);
                dflt = (case on_first ev args 2 rows of Some v \<Rightarrow> v | None \<Rightarrow> Null);
                ignore_null = (case Option.bind (on_first ev args 3 rows) as_bool of
                                 Some b \<Rightarrow> b | None \<Rightarrow> True);
                vals = map (ev (hd args)) rows;
                seen = (if ignore_null then non_null vals else vals)
            in if offset < 0 then dflt
               else (case nth_opt seen (nat offset) of Some v \<Rightarrow> v | None \<Rightarrow> dflt)))"

subsection \<open>Statistics\<close>

record welford =
  wf_count :: int
  wf_mean :: f64
  wf_m2 :: f64

definition welford_init :: welford where
  "welford_init = \<lparr>wf_count = 0, wf_mean = fzero, wf_m2 = fzero\<rparr>"

definition welford_add :: "f64 \<Rightarrow> welford \<Rightarrow> welford" where
  "welford_add x w =
     (let n = wf_count w + 1;
          delta = f64_sub x (wf_mean w);
          mean = f64_add (wf_mean w) (f64_div delta (f64_of_int n));
          delta2 = f64_sub x mean
      in \<lparr>wf_count = n, wf_mean = mean, wf_m2 = f64_add (wf_m2 w) (f64_mul delta delta2)\<rparr>)"

definition agg_ssd :: "row_eval \<Rightarrow> expr list \<Rightarrow> row list \<Rightarrow> (f64 \<times> int) option" where
  "agg_ssd ev args rows =
     (case single_column args of
        None \<Rightarrow> None
      | Some a \<Rightarrow>
          (let w = fold welford_add (List.map_filter as_f64 (map (ev a) rows)) welford_init
           in if wf_count w = 0 then None else Some (wf_m2 w, wf_count w)))"

definition population :: "(f64 \<times> int) option \<Rightarrow> f64 option" where
  "population r =
     (case r of
        None \<Rightarrow> None
      | Some (ssd, n) \<Rightarrow> if n = 0 then None else Some (f64_div ssd (f64_of_int n)))"

definition sample :: "(f64 \<times> int) option \<Rightarrow> f64 option" where
  "sample r =
     (case r of
        None \<Rightarrow> None
      | Some (ssd, n) \<Rightarrow> if n < 2 then None else Some (f64_div ssd (f64_of_int (n - 1))))"

definition opt_json :: "f64 option \<Rightarrow> json" where
  "opt_json x = (case x of None \<Rightarrow> Null | Some f \<Rightarrow> of_f64 f)"

definition agg_stddev :: "row_eval \<Rightarrow> expr list \<Rightarrow> row list \<Rightarrow> json" where
  "agg_stddev ev args rows = opt_json (map_option f64_sqrt (population (agg_ssd ev args rows)))"

definition agg_stddevs :: "row_eval \<Rightarrow> expr list \<Rightarrow> row list \<Rightarrow> json" where
  "agg_stddevs ev args rows = opt_json (map_option f64_sqrt (sample (agg_ssd ev args rows)))"

definition agg_var :: "row_eval \<Rightarrow> expr list \<Rightarrow> row list \<Rightarrow> json" where
  "agg_var ev args rows = opt_json (population (agg_ssd ev args rows))"

definition agg_vars :: "row_eval \<Rightarrow> expr list \<Rightarrow> row list \<Rightarrow> json" where
  "agg_vars ev args rows = opt_json (sample (agg_ssd ev args rows))"

text \<open>\<open>slice::sort_by\<close> is a stable merge sort; an incomparable pair counts as equal. The
  model inserts each element after the ones that do not come later.\<close>

fun insert_by :: "('a \<Rightarrow> 'a \<Rightarrow> ordering) \<Rightarrow> 'a \<Rightarrow> 'a list \<Rightarrow> 'a list" where
  "insert_by cmp x [] = [x]"
| "insert_by cmp x (y # ys) = (if cmp x y = OLess then x # y # ys else y # insert_by cmp x ys)"

definition sort_by :: "('a \<Rightarrow> 'a \<Rightarrow> ordering) \<Rightarrow> 'a list \<Rightarrow> 'a list" where
  "sort_by cmp xs = fold (insert_by cmp) xs []"

definition value_ord :: "json \<Rightarrow> json \<Rightarrow> ordering" where
  "value_ord a b = (case compare_values a b of Some r \<Rightarrow> r | None \<Rightarrow> OEqual)"

definition f64_ord :: "f64 \<Rightarrow> f64 \<Rightarrow> ordering" where
  "f64_ord a b = (case f64_partial_cmp a b of Some r \<Rightarrow> r | None \<Rightarrow> OEqual)"

definition agg_median :: "row_eval \<Rightarrow> expr list \<Rightarrow> row list \<Rightarrow> json" where
  "agg_median ev args rows =
     (case single_column args of
        None \<Rightarrow> Null
      | Some a \<Rightarrow>
          (let raw = sort_by value_ord (agg_numeric_values ev a rows);
               mid = length raw div 2
           in if raw = [] then Null
              else if odd (length raw) then raw ! mid
              else (case (as_f64 (raw ! (mid - 1)), as_f64 (raw ! mid)) of
                      (Some lo, Some hi) \<Rightarrow> of_f64 (f64_div (f64_add lo hi) (f64_of_int 2))
                    | _ \<Rightarrow> Null)))"

definition agg_last_value :: "row_eval \<Rightarrow> expr list \<Rightarrow> row list \<Rightarrow> json" where
  "agg_last_value ev args rows =
     (if args = [] \<or> 2 < length args then Null
      else if length args = 2 \<and> rows = [] then Null
      else (let ignore_nulls = (case Option.bind (on_first ev args 1 rows) as_bool of
                                  Some b \<Rightarrow> b | None \<Rightarrow> False)
            in if hd args = Wildcard then
                 (case filter (\<lambda>r. ignore_nulls \<longrightarrow> \<not> fmpred (\<lambda>_ v. is_null v) r) (rev rows) of
                    [] \<Rightarrow> Null | r # _ \<Rightarrow> Obj r)
               else (let vals = map (ev (hd args)) (rev rows)
                     in first_or Null (if ignore_nulls then non_null vals else vals))))"

definition agg_merge_agg :: "row_eval \<Rightarrow> expr list \<Rightarrow> row list \<Rightarrow> json" where
  "agg_merge_agg ev args rows =
     (case args of
        [a] \<Rightarrow>
          if a = Wildcard then Obj (foldl (++\<^sub>f) fmempty rows)
          else Obj (foldl (\<lambda>m v. case v of Obj o1 \<Rightarrow> m ++\<^sub>f o1 | _ \<Rightarrow> m) fmempty (map (ev a) rows))
      | _ \<Rightarrow> Null)"

definition agg_row_number :: "expr list \<Rightarrow> json" where
  "agg_row_number args = (if args = [] then of_i64 1 else Null)"

definition is_aggregate_call :: "string \<Rightarrow> bool" where
  "is_aggregate_call name \<longleftrightarrow>
     to_ascii_lowercase name \<in> {''count'', ''sum'', ''avg'', ''min'', ''max'', ''collect'', ''lead'',
       ''latest'', ''median'', ''stddev'', ''stddevs'', ''var'', ''vars'', ''percentile'',
       ''percentile_cont'', ''percentile_disc'', ''last_value'', ''merge_agg'', ''row_number'',
       ''last_agg_hit_count'', ''last_agg_hit_time''}"

end
