(* ===== verification/Eval.thy ===== *)
theory Eval
  imports Aggregate "HOL-Library.List_Lexorder" "HOL-Library.Char_ord"
begin

text \<open>
  The expression evaluator (\<open>eval_stateful_expr_fallible\<close>, \<open>eval_stateful_call_fallible\<close> and
  \<open>eval_bool_stateful_fallible\<close> in \<open>crates/rekuiper-sql/src/eval.rs\<close>).

  Evaluation reads a record and the per-row cache of analytic values and threads the rule's
  state map. The library of built-in scalar functions (\<open>eval_call_fallible\<close>), the rendering of
  values and expressions, the clock and the iteration order of hash maps are the fields of
  \<open>env\<close>: every statement holds for any of them.
\<close>

record env =
  render :: "json \<Rightarrow> string"
  debug_expr :: "expr \<Rightarrow> string"
  parse_f64 :: "string \<Rightarrow> f64 option"
  now_ms :: int
  pick_key :: key_picker
  builtin :: "string \<Rightarrow> json list \<Rightarrow> json res"

subsection \<open>Evaluation steps\<close>

type_synonym 'a ev = "rule_map \<Rightarrow> 'a res \<times> rule_map"

definition ev_ret :: "'a \<Rightarrow> 'a ev" where
  "ev_ret x m = (Ok x, m)"

definition ev_res :: "'a res \<Rightarrow> 'a ev" where
  "ev_res r m = (r, m)"

definition ev_state :: "(rule_map \<Rightarrow> 'a \<times> rule_map) \<Rightarrow> 'a ev" where
  "ev_state f m = (case f m of (v, m') \<Rightarrow> (Ok v, m'))"

definition ev_bind :: "'a ev \<Rightarrow> ('a \<Rightarrow> 'b ev) \<Rightarrow> 'b ev" where
  "ev_bind a f m =
     (case a m of
        (Ok x, m1) \<Rightarrow> f x m1
      | (Err e, m1) \<Rightarrow> (Err e, m1)
      | (Panic, m1) \<Rightarrow> (Panic, m1))"

fun ev_all :: "'a ev list \<Rightarrow> 'a list ev" where
  "ev_all [] = ev_ret []"
| "ev_all (k # ks) = ev_bind k (\<lambda>v. ev_bind (ev_all ks) (\<lambda>vs. ev_ret (v # vs)))"

definition ev_opt :: "'a ev option \<Rightarrow> 'a option ev" where
  "ev_opt k = (case k of None \<Rightarrow> ev_ret None | Some a \<Rightarrow> ev_bind a (\<lambda>v. ev_ret (Some v)))"

text \<open>\<open>eval_val\<close> runs on a state of its own, which is dropped.\<close>

definition detached :: "json ev \<Rightarrow> json res" where
  "detached k = unwrap_or Null (fst (k fmempty))"

subsection \<open>Analytic expressions and their per-row cache\<close>

fun is_analytic_expr :: "expr \<Rightarrow> bool" where
  "is_analytic_expr (Call name args) =
     (let n = to_ascii_lowercase name
      in is_acc_call n \<or> n \<in> {''lag'', ''had_changed'', ''changed_col'', ''row_number'',
           ''last_hit_count'', ''last_hit_time'', ''sequence_match'', ''sequence_count''})"
| "is_analytic_expr (Over call p w) = is_analytic_expr call"
| "is_analytic_expr e = False"

type_synonym row_values = "(string, json) fmap"

definition cached :: "env \<Rightarrow> row_values \<Rightarrow> expr \<Rightarrow> json ev \<Rightarrow> json ev" where
  "cached E rv e k =
     (if rv \<noteq> fmempty \<and> is_analytic_expr e then
        (case fmlookup rv (debug_expr E e) of Some v \<Rightarrow> ev_ret v | None \<Rightarrow> k)
      else k)"

subsection \<open>Column references\<close>

definition eval_identifier :: "string \<Rightarrow> row \<Rightarrow> json" where
  "eval_identifier name row =
     (case fmlookup row name of
        Some v \<Rightarrow> v
      | None \<Rightarrow>
          if name = ''window_start'' \<or> name = ''window_end''
          then lookup_or Null (''__'' @ name @ ''__'') row else Null)"

definition has_field :: "string \<Rightarrow> json \<Rightarrow> bool" where
  "has_field fld v \<longleftrightarrow> (case v of Obj m \<Rightarrow> fmlookup m fld \<noteq> None | _ \<Rightarrow> False)"

definition owned_by_other :: "string \<Rightarrow> string \<Rightarrow> row \<Rightarrow> bool" where
  "owned_by_other p fld row \<longleftrightarrow> \<not> fmpred (\<lambda>k v. k = p \<or> \<not> has_field fld v) row"

definition eval_field :: "expr \<Rightarrow> string \<Rightarrow> json \<Rightarrow> row \<Rightarrow> json" where
  "eval_field parent fld pv row =
     (case (case pv of Obj m \<Rightarrow> fmlookup m fld | _ \<Rightarrow> None) of
        Some v \<Rightarrow> v
      | None \<Rightarrow>
          (case parent of
             Identifier p \<Rightarrow>
               (case fmlookup row (p @ ''.'' @ fld) of
                  Some v \<Rightarrow> v
                | None \<Rightarrow>
                    if owned_by_other p fld row then Null else lookup_or Null fld row)
           | _ \<Rightarrow> Null))"

subsection \<open>Contextual functions\<close>

definition first_present :: "string list \<Rightarrow> row \<Rightarrow> json option" where
  "first_present ks row = (case List.map_filter (fmlookup row) ks of [] \<Rightarrow> None | v # _ \<Rightarrow> Some v)"

definition resolve_event_time :: "env \<Rightarrow> row \<Rightarrow> json" where
  "resolve_event_time E row =
     (case filter (\<lambda>v. \<not> is_null v)
             (List.map_filter (fmlookup row) [''timestamp'', ''event_time'', ''__timestamp__'']) of
        v # _ \<Rightarrow> v
      | [] \<Rightarrow> of_i64 (now_ms E))"

definition resolve_rule_id :: "row \<Rightarrow> json" where
  "resolve_rule_id row = (case fmlookup row ''__rule_id__'' of Some (Str s) \<Rightarrow> Str s | _ \<Rightarrow> Str [])"

definition resolve_rule_start :: "env \<Rightarrow> row \<Rightarrow> json" where
  "resolve_rule_start E row =
     (case fmlookup row ''__rule_start__'' of Some (Number n) \<Rightarrow> Number n | _ \<Rightarrow> of_i64 (now_ms E))"

definition resolve_window_bound :: "string list \<Rightarrow> row \<Rightarrow> json" where
  "resolve_window_bound ks row = (case first_present ks row of Some v \<Rightarrow> v | None \<Rightarrow> Null)"

text \<open>A metadata object is a sorted map: the first key equal up to ASCII case.\<close>

definition lookup_ignore_case :: "string \<Rightarrow> (string, json) fmap \<Rightarrow> json option" where
  "lookup_ignore_case key m =
     (case fmlookup m key of
        Some v \<Rightarrow> Some v
      | None \<Rightarrow>
          (case filter (\<lambda>k. to_ascii_lowercase k = to_ascii_lowercase key)
                  (sorted_list_of_fset (fmdom m)) of
             [] \<Rightarrow> None
           | k # _ \<Rightarrow> fmlookup m k))"

definition meta_lookup :: "(string, json) fmap option \<Rightarrow> string \<Rightarrow> row \<Rightarrow> json" where
  "meta_lookup meta key row =
     (case (case meta of None \<Rightarrow> None | Some m \<Rightarrow> lookup_ignore_case key m) of
        Some v \<Rightarrow> v
      | None \<Rightarrow> lookup_or Null key row)"

definition resolve_meta :: "(expr \<times> json res) option \<Rightarrow> string list \<Rightarrow> row \<Rightarrow> json res" where
  "resolve_meta arg object_keys row =
     (let meta = (case first_present object_keys row of Some (Obj m) \<Rightarrow> Some m | _ \<Rightarrow> None);
          whole = (case meta of Some m \<Rightarrow> Obj m | None \<Rightarrow> Null)
      in case arg of
           None \<Rightarrow> Ok whole
         | Some (Wildcard, _) \<Rightarrow> Ok whole
         | Some (Identifier name, _) \<Rightarrow> Ok (meta_lookup meta name row)
         | Some (_, v) \<Rightarrow>
             res_map (\<lambda>w. case w of Str s \<Rightarrow> meta_lookup meta s row | _ \<Rightarrow> Null) v)"

text \<open>\<open>eval_context_call\<close>; the first argument comes with its detached value.\<close>

definition eval_context_call :: "env \<Rightarrow> string \<Rightarrow> (expr \<times> json res) option \<Rightarrow> row \<Rightarrow> json res option" where
  "eval_context_call E n arg row =
     (if n = ''meta'' then Some (resolve_meta arg [''__meta__'', ''meta''] row)
      else if n = ''mqtt'' then Some (resolve_meta arg [''__mqtt__'', ''mqtt'', ''__meta__''] row)
      else if n = ''event_time'' then Some (Ok (resolve_event_time E row))
      else if n = ''rule_id'' then Some (Ok (resolve_rule_id row))
      else if n = ''rule_start'' then Some (Ok (resolve_rule_start E row))
      else if n = ''window_start''
      then Some (Ok (resolve_window_bound [''window_start'', ''__window_start__''] row))
      else if n = ''window_end''
      then Some (Ok (resolve_window_bound [''window_end'', ''__window_end__''] row))
      else None)"

subsection \<open>Calls\<close>

text \<open>An argument of a call: its syntax, its evaluation in the current row, and its detached
  evaluation (\<open>eval_val\<close>).\<close>

record call_arg =
  ca_expr :: expr
  ca_run :: "json ev"
  ca_detached :: "json res"

fun column_name :: "expr \<Rightarrow> nat \<Rightarrow> string" where
  "column_name Wildcard i = ''*''"
| "column_name (WildcardModified excl repl) i = ''*''"
| "column_name (Identifier name) i = name"
| "column_name (FieldAccess parent leaf) i = leaf"
| "column_name (Call name args) i = name"
| "column_name e i = ''kuiper_field_'' @ show_int (int i)"

text \<open>\<open>changed_cols(prefix, ignoreNull, col...)\<close>.\<close>

fun changed_map ::
  "(string \<Rightarrow> string) \<Rightarrow> string \<Rightarrow> bool \<Rightarrow> (string \<times> json) list \<Rightarrow> (string, json) fmap \<Rightarrow> rule_map
     \<Rightarrow> (string, json) fmap \<times> rule_map" where
  "changed_map key pre ignore_null [] out m = (out, m)"
| "changed_map key pre ignore_null ((col, v) # cs) out m =
     (if ignore_null \<and> is_null v then changed_map key pre ignore_null cs out m
      else (let changed = (case fmlookup m (key col) of
                             None \<Rightarrow> True
                           | Some p \<Rightarrow> if is_null p \<and> is_null v then False else \<not> values_equal p v)
            in if changed
               then changed_map key pre ignore_null cs (fmupd (pre @ col) v out) (fmupd (key col) v m)
               else changed_map key pre ignore_null cs out m))"

definition str_or_empty :: "json option \<Rightarrow> string" where
  "str_or_empty v = (case v of Some (Str s) \<Rightarrow> s | _ \<Rightarrow> [])"

definition bool_or_false :: "json option \<Rightarrow> bool" where
  "bool_or_false v = (case v of Some (Bool b) \<Rightarrow> b | _ \<Rightarrow> False)"

definition changed_cols_call :: "string \<Rightarrow> string \<Rightarrow> expr list \<Rightarrow> json list \<Rightarrow> rule_map \<Rightarrow> json \<times> rule_map" where
  "changed_cols_call call_id pk args vals m =
     (let cols = zip (map (\<lambda>(i, e). column_name e i) (enumerate 0 (drop 2 args))) (drop 2 vals)
      in case changed_map (\<lambda>c. ''changed_cols:'' @ call_id @ '':'' @ c @ '':'' @ pk)
                (str_or_empty (nth_opt vals 0)) (bool_or_false (nth_opt vals 1)) cols fmempty m of
           (out, m') \<Rightarrow> ((if out = fmempty then Null else Obj out), m'))"

definition row_number_call :: "string \<Rightarrow> string \<Rightarrow> bool \<Rightarrow> rule_map \<Rightarrow> json \<times> rule_map" where
  "row_number_call call_id pk skip_update m =
     (let key = ''row_number:'' @ call_id @ '':'' @ pk;
          current = i64_or 0 (fmlookup m key)
      in if skip_update then (of_i64 current, m)
         else (let nxt = of_i64 (sat_add current 1) in (nxt, fmupd key nxt m)))"

definition last_hit_count_call :: "string \<Rightarrow> string \<Rightarrow> rule_map \<Rightarrow> json \<times> rule_map" where
  "last_hit_count_call call_id pk m =
     (let key = ''$$last_hit_count:'' @ call_id @ '':'' @ pk;
          current = i64_or 0 (fmlookup m key)
      in (of_i64 current, fmupd key (of_i64 (sat_add current 1)) m))"

definition last_hit_time_call :: "string \<Rightarrow> string \<Rightarrow> int \<Rightarrow> rule_map \<Rightarrow> json \<times> rule_map" where
  "last_hit_time_call call_id pk event_time m =
     (let key = ''$$last_hit_time:'' @ call_id @ '':'' @ pk
      in (of_i64 (i64_or 0 (fmlookup m key)), fmupd key (of_i64 event_time) m))"

definition rule_id_call :: "row \<Rightarrow> rule_map \<Rightarrow> json" where
  "rule_id_call row m =
     (case fmlookup row ''__rule_id__'' of
        Some (Str s) \<Rightarrow> Str s
      | _ \<Rightarrow> (case fmlookup m ''__rule_id__'' of Some (Str s) \<Rightarrow> Str s | _ \<Rightarrow> Str []))"

definition rule_start_call :: "env \<Rightarrow> row \<Rightarrow> rule_map \<Rightarrow> json" where
  "rule_start_call E row m =
     (case fmlookup row ''__rule_start__'' of
        Some (Number n) \<Rightarrow> Number n
      | _ \<Rightarrow> (case fmlookup m ''__rule_start__'' of Some (Number n) \<Rightarrow> Number n | _ \<Rightarrow> of_i64 (now_ms E)))"

text \<open>The aggregates a call outside a window applies to the current row alone.\<close>

definition row_aggregate :: "string \<Rightarrow> call_arg list \<Rightarrow> row \<Rightarrow> json res" where
  "row_aggregate n args row =
     (let as = map ca_expr args;
          v0 = (case args of [] \<Rightarrow> Ok Null | a # _ \<Rightarrow> ca_detached a);
          reads = (if n = ''count'' then args \<noteq> [] else length args = 1)
      in if \<not> reads then Ok Null
         else res_map (\<lambda>v. let ev = (\<lambda>_ _. v) in
                if n = ''count'' then agg_count ev as [row]
                else if n = ''sum'' then agg_sum ev as [row]
                else if n = ''avg'' then agg_avg ev as [row]
                else if n = ''min'' then agg_min ev as [row]
                else agg_max ev as [row]) v0)"

definition eval_stateful_call ::
  "env \<Rightarrow> expr \<Rightarrow> string \<Rightarrow> call_arg list \<Rightarrow> row \<Rightarrow> string option \<Rightarrow> bool \<Rightarrow> json ev" where
  "eval_stateful_call E site name args row partition_key skip_update =
     (let n = to_ascii_lowercase name;
          pk = (case partition_key of Some k \<Rightarrow> k | None \<Rightarrow> []);
          call_id = to_ekuiper_string (render E) site [];
          with_vals = (\<lambda>f. ev_bind (ev_all (map ca_run args)) f);
          event_ts = i64_or 0 (Some (resolve_event_time E row))
      in if is_acc_call n then
           with_vals (\<lambda>vs. ev_state (eval_acc_call (render E) (pick_key E) n vs call_id pk skip_update))
         else if n = ''lag'' then
           with_vals (\<lambda>vs. ev_state (eval_lag (parse_f64 E) (pick_key E) vs call_id pk skip_update))
         else if n = ''sequence_match'' \<or> n = ''sequence_count'' then
           with_vals (\<lambda>vs. ev_state
             (eval_sequence_cep (parse_f64 E) (pick_key E) n vs event_ts call_id pk skip_update))
         else if n = ''had_changed'' \<or> n = ''changed_col'' then
           with_vals (\<lambda>vs. ev_state (eval_changed (pick_key E) n vs call_id pk))
         else if n = ''changed_cols'' \<and> 2 \<le> length args then
           with_vals (\<lambda>vs. ev_state (changed_cols_call call_id pk (map ca_expr args) vs))
         else if n = ''row_number'' then
           (if args = [] then ev_state (row_number_call call_id pk skip_update) else ev_ret Null)
         else if n = ''last_hit_count'' then ev_state (last_hit_count_call call_id pk)
         else if n = ''last_hit_time'' then ev_state (last_hit_time_call call_id pk event_ts)
         else if n = ''rule_id'' then ev_state (\<lambda>m. (rule_id_call row m, m))
         else if n = ''rule_start'' then ev_state (\<lambda>m. (rule_start_call E row m, m))
         else (case eval_context_call E n
                      (case args of [] \<Rightarrow> None | a # _ \<Rightarrow> Some (ca_expr a, ca_detached a)) row of
                 Some r \<Rightarrow> ev_res r
               | None \<Rightarrow>
                   if n \<in> {''count'', ''sum'', ''avg'', ''min'', ''max''}
                   then ev_res (row_aggregate n args row)
                   else with_vals (\<lambda>vs. ev_res (builtin E name vs))))"

subsection \<open>Expressions\<close>

fun in_loop :: "json \<Rightarrow> json ev list \<Rightarrow> bool ev" where
  "in_loop v [] = ev_ret False"
| "in_loop v (k # ks) =
     ev_bind k (\<lambda>item. if values_equal v item then ev_ret True else in_loop v ks)"

fun when_loop :: "(json \<Rightarrow> bool) \<Rightarrow> (json ev \<times> json ev) list \<Rightarrow> json ev \<Rightarrow> json ev" where
  "when_loop hit [] els = els"
| "when_loop hit ((w, t) # ws) els =
     ev_bind w (\<lambda>v. if hit v then t else when_loop hit ws els)"

definition eval_case_fallible ::
  "json ev option \<Rightarrow> (json ev \<times> json ev) list \<Rightarrow> json ev option \<Rightarrow> json ev" where
  "eval_case_fallible operand whens els =
     (let e = (case els of Some k \<Rightarrow> k | None \<Rightarrow> ev_ret Null)
      in case operand of
           Some k \<Rightarrow> ev_bind k (\<lambda>v. when_loop (values_equal v) whens e)
         | None \<Rightarrow> when_loop (\<lambda>v. v = Bool True) whens e)"

fun is_call :: "expr \<Rightarrow> bool" where
  "is_call (Call name args) = True"
| "is_call e = False"

text \<open>One node of \<open>eval_stateful_expr_fallible\<close>, after the cache test. The last two arguments
  are the partition key and the skip flag that an enclosing \<open>OVER\<close> passes to its call.\<close>

primrec eval_node :: "env \<Rightarrow> expr \<Rightarrow> row \<Rightarrow> row_values \<Rightarrow> string option \<Rightarrow> bool \<Rightarrow> json ev" where
  "eval_node E Wildcard = (\<lambda>row rv pk skip. ev_ret Null)"
| "eval_node E (WildcardModified excl repl) = (\<lambda>row rv pk skip. ev_ret Null)"
| "eval_node E (Literal v) = (\<lambda>row rv pk skip. ev_ret v)"
| "eval_node E (Identifier name) = (\<lambda>row rv pk skip. ev_ret (eval_identifier name row))"
| "eval_node E (FieldAccess parent fld) = (\<lambda>row rv pk skip.
     ev_bind (cached E rv parent (eval_node E parent row rv None False))
       (\<lambda>pv. ev_ret (eval_field parent fld pv row)))"
| "eval_node E (Index b i) = (\<lambda>row rv pk skip.
     ev_bind (cached E rv b (eval_node E b row rv None False)) (\<lambda>bv.
     ev_bind (cached E rv i (eval_node E i row rv None False)) (\<lambda>iv. ev_ret (index_value bv iv))))"
| "eval_node E (Slice b lo hi) = (\<lambda>row rv pk skip.
     ev_bind (cached E rv b (eval_node E b row rv None False)) (\<lambda>bv.
     ev_bind (ev_opt (map_option (\<lambda>(e, f). cached E rv e (f row rv None False))
        (map_option (\<lambda>e. (e, eval_node E e)) lo))) (\<lambda>l.
     ev_bind (ev_opt (map_option (\<lambda>(e, f). cached E rv e (f row rv None False))
        (map_option (\<lambda>e. (e, eval_node E e)) hi))) (\<lambda>h. ev_ret (slice_value bv l h)))))"
| "eval_node E (BinaryOp l bop r) = (\<lambda>row rv pk skip.
     ev_bind (cached E rv l (eval_node E l row rv None False)) (\<lambda>lv.
     ev_bind (cached E rv r (eval_node E r row rv None False)) (\<lambda>rv'.
       ev_res (eval_binary_op_fallible lv bop rv'))))"
| "eval_node E (UnaryOp uop e) = (\<lambda>row rv pk skip.
     ev_bind (cached E rv e (eval_node E e row rv None False)) (\<lambda>v. ev_ret (eval_unary_op uop v)))"
| "eval_node E (Between e lo hi negated) = (\<lambda>row rv pk skip.
     ev_bind (cached E rv e (eval_node E e row rv None False)) (\<lambda>v.
     ev_bind (cached E rv lo (eval_node E lo row rv None False)) (\<lambda>l.
     ev_bind (cached E rv hi (eval_node E hi row rv None False)) (\<lambda>h.
       ev_res (eval_between_fallible v l h negated)))))"
| "eval_node E (InList e items negated) = (\<lambda>row rv pk skip.
     ev_bind (cached E rv e (eval_node E e row rv None False)) (\<lambda>v.
     ev_bind (in_loop v (map (\<lambda>(i, f). cached E rv i (f row rv None False))
        (map (\<lambda>i. (i, eval_node E i)) items)))
       (\<lambda>matched. ev_ret (Bool (if negated then \<not> matched else matched)))))"
| "eval_node E (IsNull e negated) = (\<lambda>row rv pk skip.
     ev_bind (cached E rv e (eval_node E e row rv None False))
       (\<lambda>v. ev_ret (Bool (if negated then \<not> is_null v else is_null v))))"
| "eval_node E (Call name args) = (\<lambda>row rv pk skip.
     eval_stateful_call E (Call name args) name
       (map (\<lambda>(a, f). \<lparr>ca_expr = a, ca_run = cached E rv a (f row rv None False),
                        ca_detached = detached (f row fmempty None False)\<rparr>)
          (map (\<lambda>a. (a, eval_node E a)) args)) row pk skip)"
| "eval_node E (Over call part cond) = (\<lambda>row rv pk skip.
     ev_bind (case map_option (\<lambda>p. (p, eval_node E p)) part of
                None \<Rightarrow> ev_ret []
              | Some (p, f) \<Rightarrow> ev_bind (cached E rv p (f row rv None False))
                  (\<lambda>v. ev_ret (value_to_key (render E) v))) (\<lambda>key.
     ev_bind (case map_option (\<lambda>c. (c, eval_node E c)) cond of
                None \<Rightarrow> ev_ret False
              | Some (c, f) \<Rightarrow> ev_bind (cached E rv c (f row rv None False))
                  (\<lambda>v. ev_ret (as_bool v \<noteq> Some True))) (\<lambda>sk.
       if is_call call then eval_node E call row rv (Some key) sk
       else cached E rv call (eval_node E call row rv None False))))"
| "eval_node E (Case opnd whens els) = (\<lambda>row rv pk skip.
     eval_case_fallible
       (map_option (\<lambda>(e, f). cached E rv e (f row rv None False))
          (map_option (\<lambda>e. (e, eval_node E e)) opnd))
       (map (\<lambda>((w, f), (t, g)). (cached E rv w (f row rv None False), cached E rv t (g row rv None False)))
          (map (map_prod (\<lambda>w. (w, eval_node E w)) (\<lambda>t. (t, eval_node E t))) whens))
       (map_option (\<lambda>(e, f). cached E rv e (f row rv None False))
          (map_option (\<lambda>e. (e, eval_node E e)) els)))"

definition eval_expr :: "env \<Rightarrow> expr \<Rightarrow> row \<Rightarrow> row_values \<Rightarrow> json ev" where
  "eval_expr E e row rv = cached E rv e (eval_node E e row rv None False)"

definition eval_val :: "env \<Rightarrow> expr \<Rightarrow> row \<Rightarrow> json res" where
  "eval_val E e row = detached (eval_expr E e row fmempty)"

end
