(* ===== verification/Select.thy ===== *)
theory Select
  imports Eval
begin

text \<open>
  Conditions and projections (\<open>eval_bool_stateful_fallible\<close>, \<open>try_eval_numeric_fast\<close>,
  \<open>eval_select_stateful_with_names\<close>, \<open>eval_select_stateless_fast\<close> and the multi-row
  projection in \<open>crates/rekuiper-sql/src/eval.rs\<close>), with their fast paths as the code has them.
\<close>

subsection \<open>Conditions\<close>

fun cond_result :: "json res \<Rightarrow> bool res" where
  "cond_result (Ok v) =
     (case v of Bool b \<Rightarrow> Ok b | Null \<Rightarrow> Ok False | _ \<Rightarrow> Err (WhereError (NonBool v)))"
| "cond_result (Err e) = Err (WhereError e)"
| "cond_result Panic = Panic"

definition near :: "f64 \<Rightarrow> f64 \<Rightarrow> bool" where
  "near x y \<longleftrightarrow> f64_lt (f64_abs (f64_sub x y)) f64_EPSILON"

definition not_near :: "f64 \<Rightarrow> f64 \<Rightarrow> bool" where
  "not_near x y \<longleftrightarrow> f64_le f64_EPSILON (f64_abs (f64_sub x y))"

fun fast_compare :: "binary_operator \<Rightarrow> f64 \<Rightarrow> f64 \<Rightarrow> bool option" where
  "fast_compare Gt x y = Some (f64_lt y x)"
| "fast_compare Gte x y = Some (f64_le y x)"
| "fast_compare Lt x y = Some (f64_lt x y)"
| "fast_compare Lte x y = Some (f64_le x y)"
| "fast_compare Eq x y = Some (near x y)"
| "fast_compare Neq x y = Some (not_near x y)"
| "fast_compare _ x y = None"

definition fast_cond :: "json \<Rightarrow> binary_operator \<Rightarrow> json \<Rightarrow> bool res" where
  "fast_cond l bop r =
     (case (as_f64 l, as_f64 r) of
        (Some x, Some y) \<Rightarrow>
          (case fast_compare bop x y of
             Some b \<Rightarrow> Ok b
           | None \<Rightarrow> cond_result (eval_binary_op_fallible l bop r))
      | _ \<Rightarrow> cond_result (eval_binary_op_fallible l bop r))"

text \<open>The comparison of a column with a literal, either way round, without evaluating the
  operands.\<close>

fun where_fast :: "expr \<Rightarrow> row \<Rightarrow> bool res option" where
  "where_fast (BinaryOp (Identifier name) bop (Literal lit)) row =
     map_option (\<lambda>l. fast_cond l bop lit) (fmlookup row name)"
| "where_fast (BinaryOp (Literal lit) bop (Identifier name)) row =
     map_option (\<lambda>r. fast_cond lit bop r) (fmlookup row name)"
| "where_fast e row = None"

definition where_slow :: "env \<Rightarrow> expr \<Rightarrow> row \<Rightarrow> row_values \<Rightarrow> bool ev" where
  "where_slow E e row rv m = (case eval_expr E e row rv m of (r, m') \<Rightarrow> (cond_result r, m'))"

definition eval_bool_stateful_fallible :: "env \<Rightarrow> expr \<Rightarrow> row \<Rightarrow> row_values \<Rightarrow> bool ev" where
  "eval_bool_stateful_fallible E e row rv =
     (case where_fast e row of Some r \<Rightarrow> ev_res r | None \<Rightarrow> where_slow E e row rv)"

definition eval_bool :: "env \<Rightarrow> expr \<Rightarrow> row \<Rightarrow> bool res" where
  "eval_bool E e row = unwrap_or False (fst (eval_bool_stateful_fallible E e row fmempty fmempty))"

subsection \<open>The numeric fast path of a projection\<close>

text \<open>The running \<open>all_i64\<close> flag is threaded through the evaluation.\<close>

fun eval_f64 :: "expr \<Rightarrow> row \<Rightarrow> bool \<Rightarrow> (f64 \<times> bool) option" where
  "eval_f64 (Literal v) row all_i64 =
     map_option (\<lambda>x. (x, all_i64 \<and> is_i64 v)) (as_f64 v)"
| "eval_f64 (Identifier name) row all_i64 =
     (case fmlookup row name of
        None \<Rightarrow> None
      | Some v \<Rightarrow> map_option (\<lambda>x. (x, all_i64 \<and> is_i64 v)) (as_f64 v))"
| "eval_f64 (BinaryOp l bop r) row all_i64 =
     (case eval_f64 l row all_i64 of
        None \<Rightarrow> None
      | Some (x, f1) \<Rightarrow>
          (case eval_f64 r row f1 of
             None \<Rightarrow> None
           | Some (y, f2) \<Rightarrow>
               (case bop of
                  Add \<Rightarrow> Some (f64_add x y, f2)
                | Sub \<Rightarrow> Some (f64_sub x y, f2)
                | Mul \<Rightarrow> Some (f64_mul x y, f2)
                | Div \<Rightarrow> if f64_eq y fzero then None else Some (f64_div x y, False)
                | _ \<Rightarrow> None)))"
| "eval_f64 e row all_i64 = None"

fun is_arith_node :: "expr \<Rightarrow> bool" where
  "is_arith_node (BinaryOp l bop r) = (bop = Add \<or> bop = Sub \<or> bop = Mul \<or> bop = Div)"
| "is_arith_node e = False"

definition try_eval_numeric_fast :: "expr \<Rightarrow> row \<Rightarrow> json option" where
  "try_eval_numeric_fast e row =
     (if \<not> is_arith_node e then None
      else (case eval_f64 e row True of
              None \<Rightarrow> None
            | Some (x, all_i64) \<Rightarrow>
                if \<not> is_finite x then None
                else if all_i64 \<and> f64_le (f64_of_int i64_min) x \<and> f64_le x (f64_of_int i64_max)
                then None
                else Some (Number (Float x))))"

subsection \<open>Column names\<close>

fun has_own_name :: "expr \<Rightarrow> bool" where
  "has_own_name Wildcard = True"
| "has_own_name (WildcardModified excl repl) = True"
| "has_own_name (Identifier name) = True"
| "has_own_name (FieldAccess parent leaf) = True"
| "has_own_name (Call name args) = True"
| "has_own_name e = False"

definition alias_at :: "select_stmt \<Rightarrow> nat \<Rightarrow> string option" where
  "alias_at stmt idx = Option.bind (nth_opt (field_aliases stmt) idx) id"

definition select_field_name_at :: "select_stmt \<Rightarrow> nat \<Rightarrow> string" where
  "select_field_name_at stmt idx =
     (case alias_at stmt idx of
        Some a \<Rightarrow> a
      | None \<Rightarrow>
          (let f = sel_fields stmt ! idx
           in if has_own_name f then column_name f idx
              else ''kuiper_field_'' @ show_int (int (length
                     (filter (\<lambda>(i, g). alias_at stmt i = None \<and> \<not> has_own_name g)
                        (enumerate 0 (take idx (sel_fields stmt))))))))"

definition select_field_names :: "select_stmt \<Rightarrow> string list" where
  "select_field_names stmt = map (select_field_name_at stmt) [0..<length (sel_fields stmt)]"

subsection \<open>Projection of one record\<close>

definition wildcard_except :: "string list \<Rightarrow> (expr \<times> string) list \<Rightarrow> string \<Rightarrow> bool" where
  "wildcard_except excl repl k \<longleftrightarrow> k \<in> set excl \<and> k \<notin> set (map snd repl)"

definition ev_map_err :: "(eval_error \<Rightarrow> eval_error) \<Rightarrow> 'a ev \<Rightarrow> 'a ev" where
  "ev_map_err f k m = (case k m of (r, m') \<Rightarrow> (map_err f r, m'))"

definition ev_unwrap_or :: "'a \<Rightarrow> 'a ev \<Rightarrow> 'a ev" where
  "ev_unwrap_or d k m = (case k m of (r, m') \<Rightarrow> (unwrap_or d r, m'))"

fun replace_loop :: "env \<Rightarrow> string \<Rightarrow> row \<Rightarrow> row_values \<Rightarrow> (expr \<times> string) list \<Rightarrow> row \<Rightarrow> row ev" where
  "replace_loop E src row rv [] out = ev_ret out"
| "replace_loop E src row rv ((e, col) # rs) out =
     ev_bind (ev_map_err (SelectError (Some col) (to_ekuiper_string (render E) e src))
                (eval_expr E e row rv))
       (\<lambda>v. replace_loop E src row rv rs (fmupd col v out))"

definition has_other_namespace :: "string \<Rightarrow> row \<Rightarrow> bool" where
  "has_other_namespace p row \<longleftrightarrow>
     \<not> fmpred (\<lambda>k v. k = p \<or> starts_with ''__'' k \<or> (case v of Obj _ \<Rightarrow> False | _ \<Rightarrow> True)) row"

definition star_fields :: "expr \<Rightarrow> json \<Rightarrow> row \<Rightarrow> row" where
  "star_fields parent pv row =
     (case pv of
        Obj m \<Rightarrow> fmfilter visible_key m
      | _ \<Rightarrow>
          (case parent of
             Identifier p \<Rightarrow> if has_other_namespace p row then fmempty else fmfilter visible_key row
           | _ \<Rightarrow> fmempty))"

text \<open>\<open>changed_cols\<close> as a top-level field: a wildcard stands for every column of the record.\<close>

fun changed_field_loop ::
  "env \<Rightarrow> row \<Rightarrow> row_values \<Rightarrow> (string \<Rightarrow> string) \<Rightarrow> string \<Rightarrow> bool \<Rightarrow> nat \<Rightarrow> expr list \<Rightarrow> row \<Rightarrow> row ev" where
  "changed_field_loop E row rv key pre ign i [] out = ev_ret out"
| "changed_field_loop E row rv key pre ign i (e # es) out =
     ev_bind
       (if e = Wildcard then
          ev_state (changed_map key pre ign
            (map (\<lambda>k. (k, lookup_or Null k row))
               (filter (\<lambda>k. k \<noteq> META_KEY) (sorted_list_of_fset (fmdom row)))) out)
        else ev_bind (ev_unwrap_or Null (eval_expr E e row rv))
               (\<lambda>v. ev_state (changed_map key pre ign [(column_name e i, v)] out)))
       (\<lambda>out'. changed_field_loop E row rv key pre ign (i + 1) es out')"

definition name_or_own :: "select_stmt \<Rightarrow> string list \<Rightarrow> nat \<Rightarrow> string" where
  "name_or_own stmt names idx =
     (if idx < length names then names ! idx else select_field_name_at stmt idx)"

definition alias_or :: "select_stmt \<Rightarrow> nat \<Rightarrow> string \<Rightarrow> string option" where
  "alias_or stmt idx d = Some (case alias_at stmt idx of Some a \<Rightarrow> a | None \<Rightarrow> d)"

definition project_field ::
  "env \<Rightarrow> select_stmt \<Rightarrow> string list \<Rightarrow> row \<Rightarrow> row_values \<Rightarrow> nat \<Rightarrow> expr \<Rightarrow> row \<Rightarrow> row ev" where
  "project_field E stmt names row rv idx fld out =
     (let src = from_src stmt;
          rendered = to_ekuiper_string (render E) fld src;
          key = name_or_own stmt names idx;
          general = (case try_eval_numeric_fast fld row of
                       Some v \<Rightarrow> ev_ret (fmupd key v out)
                     | None \<Rightarrow>
                         ev_bind (ev_map_err (SelectError (alias_at stmt idx) rendered)
                                    (eval_expr E fld row rv))
                           (\<lambda>v. ev_ret (fmupd key v out)))
      in case fld of
           Wildcard \<Rightarrow> ev_ret (out ++\<^sub>f fmfilter visible_key row)
         | WildcardModified excl repl \<Rightarrow>
             replace_loop E src row rv repl
               (out ++\<^sub>f fmfilter (\<lambda>k. visible_key k \<and> \<not> wildcard_except excl repl k) row)
         | Identifier name \<Rightarrow> ev_ret (fmupd key (eval_identifier name row) out)
         | FieldAccess parent leaf \<Rightarrow>
             if leaf = ''*'' then
               ev_bind (ev_map_err (SelectError (alias_or stmt idx ''*'') rendered)
                          (eval_expr E parent row rv))
                 (\<lambda>pv. ev_ret (out ++\<^sub>f star_fields parent pv row))
             else
               ev_bind (ev_map_err (SelectError (alias_or stmt idx leaf) rendered)
                          (eval_expr E fld row rv))
                 (\<lambda>v. ev_ret (fmupd key v out))
         | Call name args \<Rightarrow>
             if to_ascii_lowercase name = ''extract'' then
               (case args of
                  [] \<Rightarrow> ev_ret out
                | a # _ \<Rightarrow>
                    ev_bind (ev_map_err (SelectError (alias_or stmt idx ''extract'') rendered)
                               (eval_expr E a row rv))
                      (\<lambda>v. ev_ret (case v of Obj m \<Rightarrow> out ++\<^sub>f m | _ \<Rightarrow> out)))
             else if to_ascii_lowercase name = ''changed_cols'' \<and> 2 \<le> length args then
               ev_bind (ev_unwrap_or Null (eval_expr E (args ! 0) row rv)) (\<lambda>p.
               ev_bind (ev_unwrap_or Null (eval_expr E (args ! 1) row rv)) (\<lambda>ign.
                 changed_field_loop E row rv
                   (\<lambda>c. ''changed_cols:'' @ show_int (int idx) @ '':'' @ c @ '':'')
                   (str_or_empty (Some p)) (bool_or_false (Some ign)) 0 (drop 2 args) out))
             else general
         | _ \<Rightarrow> general)"

fun project_loop ::
  "env \<Rightarrow> select_stmt \<Rightarrow> string list \<Rightarrow> row \<Rightarrow> row_values \<Rightarrow> nat \<Rightarrow> expr list \<Rightarrow> row \<Rightarrow> row ev" where
  "project_loop E stmt names row rv idx [] out = ev_ret out"
| "project_loop E stmt names row rv idx (f # fs) out =
     ev_bind (project_field E stmt names row rv idx f out)
       (\<lambda>out'. project_loop E stmt names row rv (idx + 1) fs out')"

definition merge_union_rows :: "row option \<Rightarrow> row option \<Rightarrow> row option" where
  "merge_union_rows l r =
     (case (l, r) of
        (Some a, Some b) \<Rightarrow> Some (a ++\<^sub>f b)
      | (Some a, None) \<Rightarrow> Some a
      | (None, r) \<Rightarrow> r)"

definition without_set_op :: "select_stmt \<Rightarrow> select_stmt" where
  "without_set_op stmt =
     SelectStmt (sel_fields stmt) (field_aliases stmt) (from_src stmt) (from_alias stmt) (joins stmt)
       (where_clause stmt) (group_by stmt) (window stmt) (window_filter stmt)
       (window_trigger_condition stmt) (window_partition_by stmt) (having stmt) (order_by stmt)
       (limit stmt) None"

text \<open>\<open>eval_select_stateful_with_names\<close>: a trailing \<open>UNION\<close> projects its own record and merges,
  the right-hand branch winning.\<close>

function eval_select_with_names ::
  "env \<Rightarrow> select_stmt \<Rightarrow> string list \<Rightarrow> row \<Rightarrow> row_values \<Rightarrow> row option ev" where
  "eval_select_with_names E stmt names row rv =
     (case set_operation stmt of
        Some (_, rhs) \<Rightarrow>
          ev_bind (ev_bind (project_loop E (without_set_op stmt) (select_field_names stmt) row rv 0
                              (sel_fields stmt) fmempty) (\<lambda>o1. ev_ret (Some o1))) (\<lambda>l.
          ev_bind (eval_select_with_names E rhs (select_field_names rhs) row rv) (\<lambda>r.
            ev_ret (merge_union_rows l r)))
      | None \<Rightarrow>
          ev_bind (project_loop E stmt names row rv 0 (sel_fields stmt) fmempty)
            (\<lambda>o1. ev_ret (Some o1)))"
  by pat_completeness auto
termination
proof (relation "measure (\<lambda>(E, stmt, names, row, rv). size stmt)")
  fix E stmt names row rv x2 x rhs xa
  assume "set_operation stmt = Some x2" "(x, rhs) = x2"
  then show "((E, rhs, select_field_names rhs, row, rv), E, stmt, names, row, rv)
      \<in> measure (\<lambda>(E, stmt, names, row, rv). size stmt)"
    by (cases stmt) auto
qed simp

declare eval_select_with_names.simps [simp del]

subsection \<open>Analytic calls of a statement\<close>

definition opt_list :: "'a option \<Rightarrow> 'a list" where
  "opt_list x = (case x of None \<Rightarrow> [] | Some y \<Rightarrow> [y])"

definition own_call :: "expr \<Rightarrow> expr list" where
  "own_call e = (if is_analytic_expr e then [e] else [])"

text \<open>The calls in evaluation order. The call of an \<open>OVER\<close> contributes only its arguments: the
  second component of the recursion lists the calls inside the arguments of a call.\<close>

primrec collect_calls :: "expr \<Rightarrow> expr list \<times> expr list" where
  "collect_calls Wildcard = ([], [])"
| "collect_calls (Literal v) = ([], [])"
| "collect_calls (Identifier name) = ([], [])"
| "collect_calls (WildcardModified excl repl) =
     (concat (map (fst \<circ> fst) (map (map_prod collect_calls id) repl)), [])"
| "collect_calls (Call name args) =
     (let inner = concat (map fst (map collect_calls args))
      in (inner @ own_call (Call name args), inner))"
| "collect_calls (Over call part cond) =
     ((if is_call call then snd (collect_calls call) else [])
        @ concat (map fst (opt_list (map_option collect_calls part)))
        @ concat (map fst (opt_list (map_option collect_calls cond)))
        @ own_call (Over call part cond), [])"
| "collect_calls (BinaryOp l bop r) = (fst (collect_calls l) @ fst (collect_calls r), [])"
| "collect_calls (UnaryOp uop e) = (fst (collect_calls e), [])"
| "collect_calls (IsNull e negated) = (fst (collect_calls e), [])"
| "collect_calls (FieldAccess parent fld) = (fst (collect_calls parent), [])"
| "collect_calls (Index b i) = (fst (collect_calls b) @ fst (collect_calls i), [])"
| "collect_calls (Slice b lo hi) =
     (fst (collect_calls b) @ concat (map fst (opt_list (map_option collect_calls lo)))
        @ concat (map fst (opt_list (map_option collect_calls hi))), [])"
| "collect_calls (Between e lo hi negated) =
     (fst (collect_calls e) @ fst (collect_calls lo) @ fst (collect_calls hi), [])"
| "collect_calls (InList e items negated) =
     (fst (collect_calls e) @ concat (map fst (map collect_calls items)), [])"
| "collect_calls (Case opnd whens els) =
     (concat (map fst (opt_list (map_option collect_calls opnd)))
        @ concat (map fst (opt_list (map_option collect_calls els)))
        @ concat (map (\<lambda>(w, t). fst w @ fst t) (map (map_prod collect_calls collect_calls) whens)), [])"

definition collect_analytic_exprs :: "expr \<Rightarrow> expr list" where
  "collect_analytic_exprs e = fst (collect_calls e)"

text \<open>\<open>expr_has_analytic\<close> descends in the same way.\<close>

primrec has_analytic_parts :: "expr \<Rightarrow> bool \<times> bool" where
  "has_analytic_parts Wildcard = (False, False)"
| "has_analytic_parts (Literal v) = (False, False)"
| "has_analytic_parts (Identifier name) = (False, False)"
| "has_analytic_parts (WildcardModified excl repl) =
     (list_ex (fst \<circ> fst) (map (map_prod has_analytic_parts id) repl), False)"
| "has_analytic_parts (Call name args) =
     (let inner = list_ex fst (map has_analytic_parts args)
      in (is_analytic_expr (Call name args) \<or> inner, inner))"
| "has_analytic_parts (Over call part cond) =
     (is_analytic_expr (Over call part cond) \<or>
        (is_call call \<and> snd (has_analytic_parts call)) \<or>
        list_ex fst (opt_list (map_option has_analytic_parts part)) \<or>
        list_ex fst (opt_list (map_option has_analytic_parts cond)), False)"
| "has_analytic_parts (BinaryOp l bop r) =
     (fst (has_analytic_parts l) \<or> fst (has_analytic_parts r), False)"
| "has_analytic_parts (UnaryOp uop e) = (fst (has_analytic_parts e), False)"
| "has_analytic_parts (IsNull e negated) = (fst (has_analytic_parts e), False)"
| "has_analytic_parts (FieldAccess parent fld) = (fst (has_analytic_parts parent), False)"
| "has_analytic_parts (Index b i) = (fst (has_analytic_parts b) \<or> fst (has_analytic_parts i), False)"
| "has_analytic_parts (Slice b lo hi) =
     (fst (has_analytic_parts b) \<or> list_ex fst (opt_list (map_option has_analytic_parts lo))
        \<or> list_ex fst (opt_list (map_option has_analytic_parts hi)), False)"
| "has_analytic_parts (Between e lo hi negated) =
     (fst (has_analytic_parts e) \<or> fst (has_analytic_parts lo) \<or> fst (has_analytic_parts hi), False)"
| "has_analytic_parts (InList e items negated) =
     (fst (has_analytic_parts e) \<or> list_ex fst (map has_analytic_parts items), False)"
| "has_analytic_parts (Case opnd whens els) =
     (list_ex fst (opt_list (map_option has_analytic_parts opnd))
        \<or> list_ex (\<lambda>(w, t). fst w \<or> fst t) (map (map_prod has_analytic_parts has_analytic_parts) whens)
        \<or> list_ex fst (opt_list (map_option has_analytic_parts els)), False)"

definition expr_has_analytic :: "expr \<Rightarrow> bool" where
  "expr_has_analytic e = fst (has_analytic_parts e)"

definition stmt_has_analytic :: "select_stmt \<Rightarrow> bool" where
  "stmt_has_analytic stmt \<longleftrightarrow>
     list_ex expr_has_analytic (sel_fields stmt) \<or> list_ex expr_has_analytic (opt_list (where_clause stmt))"

subsection \<open>Filtered projection\<close>

text \<open>Each analytic call is evaluated once per row, in order, and kept in the row's cache.\<close>

fun precompute ::
  "env \<Rightarrow> (eval_error \<Rightarrow> eval_error) \<Rightarrow> row \<Rightarrow> expr list \<Rightarrow> row_values \<Rightarrow> row_values ev" where
  "precompute E wrap row [] rv = ev_ret rv"
| "precompute E wrap row (c # cs) rv =
     (if fmlookup rv (debug_expr E c) \<noteq> None then precompute E wrap row cs rv
      else ev_bind (ev_map_err wrap (eval_expr E c row rv))
             (\<lambda>v. precompute E wrap row cs (fmupd (debug_expr E c) v rv)))"

fun precompute_fields :: "env \<Rightarrow> select_stmt \<Rightarrow> row \<Rightarrow> nat \<Rightarrow> expr list \<Rightarrow> row_values \<Rightarrow> row_values ev" where
  "precompute_fields E stmt row idx [] rv = ev_ret rv"
| "precompute_fields E stmt row idx (f # fs) rv =
     ev_bind (precompute E
        (SelectError (alias_at stmt idx) (to_ekuiper_string (render E) f (from_src stmt))) row
        (collect_analytic_exprs f) rv)
       (\<lambda>rv'. precompute_fields E stmt row (idx + 1) fs rv')"

definition eval_select_stateless_fast ::
  "env \<Rightarrow> select_stmt \<Rightarrow> string list \<Rightarrow> bool \<Rightarrow> row \<Rightarrow> row_values \<Rightarrow> row option ev" where
  "eval_select_stateless_fast E stmt names has_analytic row rv =
     (case where_clause stmt of
        None \<Rightarrow> eval_select_with_names E stmt names row rv
      | Some condition \<Rightarrow>
          if \<not> has_analytic then
            ev_bind (eval_bool_stateful_fallible E condition row rv)
              (\<lambda>pass. if \<not> pass then ev_ret None else eval_select_with_names E stmt names row rv)
          else
            ev_bind (precompute_fields E stmt row 0 (sel_fields stmt) fmempty) (\<lambda>rv1.
            ev_bind (precompute E WhereError row (collect_analytic_exprs condition) rv1) (\<lambda>rv2.
            ev_bind (eval_bool_stateful_fallible E condition row rv2)
              (\<lambda>pass. if \<not> pass then ev_ret None else eval_select_with_names E stmt names row rv2))))"

end
