(* ===== verification/Eval_Props.thy ===== *)
theory Eval_Props
  imports Select
begin

text \<open>
  Properties of the expression evaluator: which operator applications can abort, that results
  are valid JSON values, agreement of the fast paths with the general evaluation, and the
  behaviour of \<open>LIKE\<close>, \<open>BETWEEN\<close>, indexing and slicing.
\<close>

subsection \<open>The LIKE operator\<close>

text \<open>C17: on every pattern whose last backslash escapes a character, the matcher decides
  exactly the declarative meaning of the pattern, for ASCII and non-ASCII text alike.\<close>

theorem like_match_correct:
  assumes "escape_closed (str_chars p)"
  shows "like_match s p \<longleftrightarrow> matches (toks Dead (str_chars p)) (str_chars s)"
proof (cases "is_ascii s \<and> is_ascii p")
  case True
  then show ?thesis by (simp add: like_match_def str_chars_ascii like_ascii_matches)
next
  case False
  then show ?thesis
    using toks_closed [OF assms, of "Lit BSLASH" Dead]
    by (auto simp: like_match_def like_utf8_matches)
qed

theorem like_match_correct_witness:
  "like_match ''pressure'' ''p%s_r%'' \<longleftrightarrow>
     matches (toks Dead (str_chars ''p%s_r%'')) (str_chars ''pressure'')"
  by (rule like_match_correct) code_simp

text \<open>The two loops disagree on a lone backslash at the end of a pattern. In ASCII text
  it matches nothing; as soon as one side has a non-ASCII character it matches a backslash
  (the code point 92; the bytes 195 and 169 are one accented letter).\<close>

lemma like_dangling_backslash:
  "\<not> like_match (map char_of [101 :: nat, 92]) (map char_of [101 :: nat, 92]) \<and>
   like_match (map char_of [195 :: nat, 169, 92]) (map char_of [195 :: nat, 169, 92])"
  by code_simp

subsection \<open>Aborts\<close>

lemma as_i64_not_null: "as_i64 v = Some i \<Longrightarrow> \<not> is_null v"
  by (cases v) simp_all

lemma num_of_i64: "as_i64 v = Some i \<Longrightarrow> num_of v = f64_of_int i"
proof (cases v)
  case (Number n)
  then show "as_i64 v = Some i \<Longrightarrow> num_of v = f64_of_int i"
    by (cases n) (auto simp: num_of_def split: if_splits)
qed simp_all

lemma f64_minus_one: "\<not> f64_eq (f64_of_int (- 1)) fzero"
  by code_simp

lemma div_op_panic:
  "div_op iop fop bop l r = Panic \<longleftrightarrow>
     (\<exists>a b. as_i64 l = Some a \<and> as_i64 r = Some b \<and> \<not> f64_eq (f64_of_int b) fzero \<and> b \<noteq> 0 \<and> iop a b = Panic)"
  by (auto simp: div_op_def num_of_i64 as_i64_is_number split: option.splits)

lemma minus_one_nonzero: "- 1 \<noteq> (0 :: int)"
  by simp

lemma i64_div_panic:
  "i64_div a b = Panic \<longleftrightarrow> b = 0 \<or> a = i64_min \<and> b = - 1"
  "i64_rem a b = Panic \<longleftrightarrow> b = 0 \<or> a = i64_min \<and> b = - 1"
  by (simp_all add: i64_div_def i64_rem_def)

text \<open>C37: the only operator applications that abort the process are the two overflowing
  divisions, \<open>i64::MIN / -1\<close> and \<open>i64::MIN % -1\<close>; every other pair of values and operator
  gives a value or an error.\<close>

theorem binary_op_aborts_iff:
  "eval_binary_op_fallible l bop r = Panic \<longleftrightarrow>
     (bop = Div \<or> bop = Mod) \<and> as_i64 l = Some i64_min \<and> as_i64 r = Some (- 1)"
proof -
  have "arith_op f g b l r \<noteq> Panic" "cmp_op b l r \<noteq> Panic" "bool_op h b l r \<noteq> Panic"
    "eq_op w b l r \<noteq> Panic" for f g h b w
    by (auto simp: arith_op_def cmp_op_def bool_op_def eq_op_def split: option.splits)
  moreover have "div_op i64_div f64_div Div l r = Panic \<longleftrightarrow> as_i64 l = Some i64_min \<and> as_i64 r = Some (- 1)"
    "div_op i64_rem f64_rem Mod l r = Panic \<longleftrightarrow> as_i64 l = Some i64_min \<and> as_i64 r = Some (- 1)"
    unfolding div_op_panic i64_div_panic using f64_minus_one minus_one_nonzero by blast+
  ultimately show ?thesis
    by (cases bop) (auto simp: eval_binary_op_fallible_def as_i64_not_null)
qed

subsection \<open>Results are valid values\<close>

lemma of_f64_wf: "json_wf (of_f64 x)"
  by (simp add: of_f64_def)

lemma div_le_self: "0 \<le> x \<Longrightarrow> 0 < k \<Longrightarrow> k \<le> y \<Longrightarrow> x div y \<le> x div k" for x y k :: int
  by (rule zdiv_mono2)

lemma trunc_div_in_i64:
  assumes "in_i64 a" "in_i64 b" "b \<noteq> 0" "\<not> (a = i64_min \<and> b = - 1)"
  shows "in_i64 (trunc_div a b)"
proof (cases "\<bar>b\<bar> = 1")
  case True
  then show ?thesis using assms by (auto simp: trunc_div_def i64_simps)
next
  case False
  then have "\<bar>a\<bar> div \<bar>b\<bar> \<le> \<bar>a\<bar> div 2" using assms(3) by (intro div_le_self) auto
  moreover have "\<bar>a\<bar> \<le> 2 ^ 63" using assms(1) by (auto simp: i64_simps)
  ultimately have "\<bar>a\<bar> div \<bar>b\<bar> \<le> 2 ^ 62" by simp
  moreover have "0 \<le> \<bar>a\<bar> div \<bar>b\<bar>" by (simp add: pos_imp_zdiv_nonneg_iff assms(3))
  ultimately show ?thesis by (auto simp: trunc_div_def i64_simps)
qed

lemma trunc_rem_in_i64:
  assumes "in_i64 a" "in_i64 b" "b \<noteq> 0"
  shows "in_i64 (trunc_rem a b)"
proof -
  have "0 \<le> \<bar>a\<bar> mod \<bar>b\<bar>" "\<bar>a\<bar> mod \<bar>b\<bar> < \<bar>b\<bar>" using assms(3) by simp_all
  moreover have "\<bar>b\<bar> \<le> 2 ^ 63" using assms(2) by (auto simp: i64_simps)
  ultimately show ?thesis by (auto simp: trunc_rem_def i64_simps)
qed

lemma in_i64_signed: "in_i64 x \<longleftrightarrow> signed_take_bit 63 x = x"
  by (auto simp: in_i64_def i64_min_def i64_max_def signed_take_bit_int_eq_self_iff)

lemma signed_take_bit_bitwise:
  "signed_take_bit n (and a b) = and (signed_take_bit n a) (signed_take_bit n b)"
  "signed_take_bit n (or a b) = or (signed_take_bit n a) (signed_take_bit n b)"
  "signed_take_bit n (xor a b) = xor (signed_take_bit n a) (signed_take_bit n b)" for a b :: int
  by (rule bit_eqI, simp add: bit_simps)+

lemma bitwise_in_i64:
  assumes "in_i64 a" "in_i64 b"
  shows "in_i64 (and a b)" "in_i64 (or a b)" "in_i64 (xor a b)"
  using assms unfolding in_i64_signed by (simp_all only: signed_take_bit_bitwise)

lemma bitwise_u64:
  assumes "0 \<le> a" "a \<le> u64_max" "0 \<le> b" "b \<le> u64_max"
  shows "0 \<le> and a b \<and> and a b \<le> u64_max" "0 \<le> or a b \<and> or a b \<le> u64_max"
    "0 \<le> xor a b \<and> xor a b \<le> u64_max"
proof -
  have e: "take_bit 64 a = a" "take_bit 64 b = b"
    using assms by (auto simp: take_bit_int_eq_self_iff u64_max_def)
  have r: "take_bit 64 x = x \<Longrightarrow> 0 \<le> x \<and> x \<le> u64_max" for x :: int
    by (auto simp: take_bit_int_eq_self_iff u64_max_def)
  show "0 \<le> and a b \<and> and a b \<le> u64_max" "0 \<le> or a b \<and> or a b \<le> u64_max"
    "0 \<le> xor a b \<and> xor a b \<le> u64_max"
    using e by (intro r; simp)+
qed

lemma as_u64_wf: "json_wf v \<Longrightarrow> as_u64 v = Some u \<Longrightarrow> 0 \<le> u \<and> u \<le> u64_max"
proof (cases v)
  case (Number n)
  then show "json_wf v \<Longrightarrow> as_u64 v = Some u \<Longrightarrow> 0 \<le> u \<and> u \<le> u64_max" by (cases n) auto
qed simp_all

lemma eval_bitwise_wf:
  assumes "json_wf l" "json_wf r"
  shows "json_wf (eval_bitwise l r bop)"
proof -
  have i: "in_i64 a \<and> in_i64 b" if "as_i64 l = Some a" "as_i64 r = Some b" for a b
    using that assms as_i64_in_i64 by blast
  have u: "0 \<le> a \<and> a \<le> u64_max \<and> 0 \<le> b \<and> b \<le> u64_max" if "as_u64 l = Some a" "as_u64 r = Some b" for a b
    using that assms as_u64_wf by blast
  show ?thesis
    unfolding eval_bitwise_def
    by (cases bop)
      (auto split: option.split dest!: i u intro!: of_i64_wf bitwise_in_i64 simp: of_u64_def bitwise_u64)
qed

text \<open>The value an operator produces from valid JSON values is valid: an integer result
  stays within 64 bits and a float result is finite (a non-finite one becomes null).\<close>

lemma binary_op_valid:
  assumes "json_wf l" "json_wf r" "eval_binary_op_fallible l bop r = Ok v"
  shows "json_wf v"
proof -
  have i: "in_i64 a \<and> in_i64 b" if "as_i64 l = Some a" "as_i64 r = Some b" for a b
    using that assms(1,2) as_i64_in_i64 by blast
  have ar: "json_wf v" if "arith_op f g b l r = Ok v" "\<And>x y. in_i64 (f x y)" for f g b
    using that by (auto simp: arith_op_def of_f64_wf of_i64_wf split: option.splits if_splits)
  have dv: "json_wf v" if "div_op f g b l r = Ok v"
      "\<And>x y w. in_i64 x \<Longrightarrow> in_i64 y \<Longrightarrow> y \<noteq> 0 \<Longrightarrow> f x y = Ok w \<Longrightarrow> json_wf w" for f g b
    using that i by (auto simp: div_op_def of_f64_wf split: option.splits if_splits) blast
  have ot: "json_wf v" if "cmp_op b l r = Ok v \<or> bool_op h b l r = Ok v \<or> eq_op w b l r = Ok v" for b h w
    using that by (auto simp: cmp_op_def bool_op_def eq_op_def split: option.splits if_splits)
  have nl: "json_wf (null_result bop)" by (cases bop) simp_all
  have lk: "json_wf (eval_like l r)" by (simp add: eval_like_def split: option.split)
  have sm: "in_i64 (sat_mul x y)" for x y by (simp add: sat_mul_def)
  have idv: "json_wf w" if "i64_div x y = Ok w" "in_i64 x" "in_i64 y" "y \<noteq> 0" for x y w
    using that by (auto simp: i64_div_def intro!: of_i64_wf trunc_div_in_i64 split: if_splits)
  have irm: "json_wf w" if "i64_rem x y = Ok w" "in_i64 x" "in_i64 y" "y \<noteq> 0" for x y w
    using that by (auto simp: i64_rem_def intro!: of_i64_wf trunc_rem_in_i64 split: if_splits)
  show ?thesis
  proof (cases "is_null l \<or> is_null r")
    case True
    then show ?thesis using assms(3) nl by (auto simp: eval_binary_op_fallible_def)
  next
    case False
    then show ?thesis using assms(3) ot lk eval_bitwise_wf [OF assms(1,2)]
        ar [OF _ sat_add_in_i64] ar [OF _ sat_sub_in_i64] ar [OF _ sm] dv idv irm
      by (cases bop) (auto simp: eval_binary_op_fallible_def)
  qed
qed

lemma binary_op_valid_witness:
  "json_wf (of_i64 i64_max) \<and> eval_binary_op_fallible (of_i64 i64_max) Add (of_i64 1) = Ok (of_i64 i64_max)"
proof -
  have "eval_binary_op_fallible (of_i64 i64_max) Add (of_i64 1) = Ok (of_i64 i64_max)" by code_simp
  moreover have "json_wf (of_i64 i64_max)" "json_wf (of_i64 1)" by (simp_all add: of_i64_wf i64_simps)
  ultimately show ?thesis using binary_op_valid by blast
qed

subsection \<open>The WHERE fast path\<close>

lemma cached_plain: "\<not> is_analytic_expr e \<Longrightarrow> cached E rv e k = k"
  by (simp add: cached_def)

lemma eval_leaf [simp]:
  "eval_expr E (Identifier name) row rv m = (Ok (eval_identifier name row), m)"
  "eval_expr E (Literal v) row rv m = (Ok v, m)"
  by (simp_all add: eval_expr_def cached_plain ev_ret_def)

lemma eval_binary:
  "eval_expr E (BinaryOp l bop r) row rv =
     ev_bind (eval_expr E l row rv) (\<lambda>a. ev_bind (eval_expr E r row rv) (\<lambda>b.
       ev_res (eval_binary_op_fallible a bop b)))"
  by (simp add: eval_expr_def cached_plain)

lemma eval_binary_leaves:
  "fmlookup row name = Some v \<Longrightarrow>
     eval_expr E (BinaryOp (Identifier name) bop (Literal lit)) row rv m = (eval_binary_op_fallible v bop lit, m)"
  "fmlookup row name = Some v \<Longrightarrow>
     eval_expr E (BinaryOp (Literal lit) bop (Identifier name)) row rv m = (eval_binary_op_fallible lit bop v, m)"
  by (simp_all add: eval_binary ev_bind_def ev_res_def eval_identifier_def)

lemma f64_le_flip: "f64_le y x \<longleftrightarrow> f64_partial_cmp x y = Some OGreater \<or> f64_partial_cmp x y = Some OEqual"
proof -
  have "f64_partial_cmp y x = map_option reverse_ord (f64_partial_cmp x y)" by (rule f64_cmp_flip)
  then show ?thesis unfolding f64_le_def
    by (cases "f64_partial_cmp x y") (auto elim: reverse_ord.elims)
qed

lemma as_f64_number: "as_f64 v = Some x \<Longrightarrow> is_number v \<and> \<not> is_null v"
  by (cases v) simp_all

lemma fast_cond_order:
  assumes "bop \<noteq> Eq" "bop \<noteq> Neq"
  shows "fast_cond l bop r = cond_result (eval_binary_op_fallible l bop r)"
proof (cases "\<exists>x y. as_f64 l = Some x \<and> as_f64 r = Some y")
  case True
  then obtain x y where xy: "as_f64 l = Some x" "as_f64 r = Some y" by blast
  then have n: "is_number l" "is_number r" "\<not> is_null l" "\<not> is_null r" using as_f64_number by auto
  show ?thesis
    using assms xy n f64_lt_flip [of y x] f64_le_flip [of y x] f64_lt_def [of x y] f64_le_def [of x y]
    by (cases bop) (auto simp: fast_cond_def eval_binary_op_fallible_def cmp_op_def)
next
  case False
  then show ?thesis by (auto simp: fast_cond_def split: option.split)
qed

text \<open>C38: comparing a column with a literal through the fast path gives the same answer, and
  the same error, as evaluating the condition, for every operator but \<open>=\<close> and \<open>!=\<close>.\<close>

theorem where_fast_agrees:
  assumes "where_fast (BinaryOp a bop b) row = Some r" "bop \<noteq> Eq" "bop \<noteq> Neq"
  shows "where_slow E (BinaryOp a bop b) row rv m = (r, m)"
proof -
  consider (col) name lit v where "a = Identifier name" "b = Literal lit" "fmlookup row name = Some v"
      "r = fast_cond v bop lit"
    | (lit) name lit v where "a = Literal lit" "b = Identifier name" "fmlookup row name = Some v"
      "r = fast_cond lit bop v"
    using assms(1) by (cases a; cases b) auto
  then show ?thesis
    by cases (simp_all add: where_slow_def eval_binary_leaves fast_cond_order assms(2,3))
qed

text \<open>A concrete environment for the witnesses: a rendering, no built-in function, a clock at
  zero, and the smallest matching key as the victim of an eviction.\<close>

definition demo_render :: "json \<Rightarrow> string" where
  "demo_render v = (case v of Number (PosInt n) \<Rightarrow> show_int n | _ \<Rightarrow> ''?'')"

definition demo_pick :: key_picker where
  "demo_pick p m = (case filter p (sorted_list_of_fset (fmdom m)) of [] \<Rightarrow> None | k # _ \<Rightarrow> Some k)"

definition demo_env :: env where
  "demo_env = \<lparr>render = demo_render, debug_expr = (\<lambda>e. to_ekuiper_string demo_render e []),
     parse_f64 = (\<lambda>_. None), now_ms = 0, pick_key = demo_pick, builtin = (\<lambda>n _. Err (CallError n))\<rparr>"

theorem where_fast_agrees_witness:
  "where_slow demo_env (BinaryOp (Identifier ''t'') Gt (Literal (of_i64 20)))
     (fmupd ''t'' (of_i64 21) fmempty) fmempty fmempty = (Ok True, fmempty)"
  by (rule where_fast_agrees) code_simp+

lemma near_ints:
  assumes "\<bar>i\<bar> < 2 ^ 52" "\<bar>j\<bar> < 2 ^ 52"
  shows "near (f64_of_int i) (f64_of_int j) \<longleftrightarrow> i = j"
    and "not_near (f64_of_int i) (f64_of_int j) \<longleftrightarrow> i \<noteq> j"
proof -
  obtain s m e where x: "f64_of_int i = Fin s m e" "e \<le> 0" "fin_val s m e = of_int i"
    using f64_of_int_val [of i] assms(1) by auto
  obtain t n f where y: "f64_of_int j = Fin t n f" "f \<le> 0" "fin_val t n f = of_int j"
    using f64_of_int_val [of j] assms(2) by auto
  have yn: "fin_val (\<not> t) n f = of_int (- j)" using y(3) by (auto simp: fin_val_def fsign_def)
  have "\<bar>i + - j\<bar> < 2 ^ 53" using assms by simp
  from f64_add_ints [OF x(2) y(2) x(3) yn this]
  obtain u v g where d: "f64_add (Fin s m e) (Fin (\<not> t) n f) = Fin u v g" "0 \<le> v"
      "fin_val u v g = of_int (i + - j)" by metis
  have sub: "f64_sub (f64_of_int i) (f64_of_int j) = Fin u v g"
    unfolding f64_sub_def x(1) y(1) f64_neg.simps by (rule d(1))
  have eps: "0 < fin_val False (2 ^ 52) (- 104)" "fin_val False (2 ^ 52) (- 104) \<le> 1"
    by (simp_all add: fin_val_def fsign_def power_int_def power_divide)
  have "fin_val False v g = \<bar>fin_val u v g\<bar>"
    using d(2) by (simp add: fin_val_def fsign_def abs_mult)
  then have abs: "fin_val False v g = \<bar>of_int (i - j)\<bar>" using d(3) by simp
  have cmp: "f64_partial_cmp (Fin False v g) f64_EPSILON =
      Some (if i = j then OLess else if fin_val False v g = fin_val False (2 ^ 52) (- 104) then OEqual else OGreater)"
  proof (cases "i = j")
    case True
    then show ?thesis using abs eps
      by (subst f64_partial_cmp_key) (simp_all add: f64_EPSILON_def key_cmp_def)
  next
    case False
    then have "1 \<le> \<bar>i - j\<bar>" by simp
    then have "1 \<le> fin_val False v g" unfolding abs by linarith
    with False eps show ?thesis
      by (subst f64_partial_cmp_key) (auto simp: f64_EPSILON_def key_cmp_def)
  qed
  show "near (f64_of_int i) (f64_of_int j) \<longleftrightarrow> i = j"
    unfolding near_def sub f64_abs.simps f64_lt_def cmp by simp
  show "not_near (f64_of_int i) (f64_of_int j) \<longleftrightarrow> i \<noteq> j"
    unfolding not_near_def sub f64_abs.simps f64_le_flip [of f64_EPSILON] cmp by simp
qed

lemma values_equal_i64: "in_i64 i \<Longrightarrow> in_i64 j \<Longrightarrow> values_equal (of_i64 i) (of_i64 j) \<longleftrightarrow> i = j"
  by (simp add: values_equal_def as_i64_not_null)

text \<open>Equality and inequality of two integers below \<open>2^52\<close> in magnitude are exact in the
  fast path too.\<close>

lemma where_fast_int_equality:
  assumes "\<bar>i\<bar> < 2 ^ 52" "\<bar>j\<bar> < 2 ^ 52" "bop = Eq \<or> bop = Neq"
  shows "fast_cond (of_i64 i) bop (of_i64 j) = cond_result (eval_binary_op_fallible (of_i64 i) bop (of_i64 j))"
proof -
  have "in_i64 i" "in_i64 j" using assms by (auto simp: i64_simps)
  moreover have "as_f64 (of_i64 k) = Some (f64_of_int k)" for k by (simp add: of_i64_def)
  ultimately show ?thesis using assms(3) near_ints [OF assms(1,2)] values_equal_i64
    by (auto simp: fast_cond_def eval_binary_op_fallible_def eq_op_def as_i64_not_null)
qed

lemma where_fast_int_equality_witness:
  "fast_cond (of_i64 41) Neq (of_i64 (- 42)) = Ok True"
  using where_fast_int_equality [of 41 "- 42" Neq]
  by (simp add: eval_binary_op_fallible_def eq_op_def values_equal_def of_i64_def i64_simps)

text \<open>Beyond that range it is not. For a column holding \<open>2^53\<close>, the condition
  \<open>a = 2^53 + 1\<close> is true in the fast path, false when the same condition is evaluated.\<close>

lemma where_fast_big_equality:
  "let e = BinaryOp (Identifier ''a'') Eq (Literal (of_i64 (2 ^ 53 + 1)));
       row = fmupd ''a'' (of_i64 (2 ^ 53)) fmempty
   in where_fast e row = Some (Ok True) \<and> where_slow E e row rv m = (Ok False, m)"
proof -
  have "where_fast (BinaryOp (Identifier ''a'') Eq (Literal (of_i64 (2 ^ 53 + 1))))
      (fmupd ''a'' (of_i64 (2 ^ 53)) fmempty) = Some (Ok True)" by code_simp
  moreover have "eval_binary_op_fallible (of_i64 (2 ^ 53)) Eq (of_i64 (2 ^ 53 + 1)) = Ok (Bool False)"
    by code_simp
  ultimately show ?thesis by (simp add: where_slow_def eval_binary_leaves)
qed

subsection \<open>The numeric fast path of a projection\<close>

text \<open>A projected integer division is computed in floating point. The fast path gives
  \<open>7 / 2 = 3.5\<close> where the evaluation of the same expression truncates to 3, although the
  code means integer expressions to keep their integer semantics.\<close>

lemma projected_division_differs:
  "let e = BinaryOp (Identifier ''a'') Div (Literal (of_i64 2)); row = fmupd ''a'' (of_i64 7) fmempty
   in try_eval_numeric_fast e row = Some (of_f64 (f64_of_ratio False 7 2)) \<and>
      eval_expr E e row rv m = (Ok (of_i64 3), m)"
proof -
  have "try_eval_numeric_fast (BinaryOp (Identifier ''a'') Div (Literal (of_i64 2)))
      (fmupd ''a'' (of_i64 7) fmempty) = Some (of_f64 (f64_of_ratio False 7 2))" by code_simp
  moreover have "eval_binary_op_fallible (of_i64 7) Div (of_i64 2) = Ok (of_i64 3)" by code_simp
  ultimately show ?thesis by (simp add: eval_binary_leaves)
qed

subsection \<open>Ranges, indexing and slicing\<close>

text \<open>\<open>BETWEEN\<close> is the conjunction of the two comparisons: whenever both bounds compare
  with the value, its result is that of \<open>v >= low AND v <= high\<close>.\<close>

lemma between_is_conjunction:
  assumes "eval_binary_op_fallible v Gte low = Ok (Bool a)" "eval_binary_op_fallible v Lte high = Ok (Bool b)"
    and "\<not> is_null v" "\<not> is_null low" "\<not> is_null high"
    and "compare_values v low \<noteq> None" "compare_values v high \<noteq> None"
  shows "eval_between_fallible v low high negated = Ok (Bool ((a \<and> b) \<noteq> negated))"
proof -
  obtain r1 r2 where r: "compare_values v low = Some r1" "compare_values v high = Some r2"
    using assms(6,7) by blast
  have "a = ge_or_eq r1" using assms(1,3,4) r(1)
    by (auto simp: eval_binary_op_fallible_def cmp_op_def compare_values_def ge_or_eq_def
        split: option.splits if_splits)
  moreover have "b = le_or_eq r2" using assms(2,3,5) r(2)
    by (auto simp: eval_binary_op_fallible_def cmp_op_def compare_values_def le_or_eq_def
        split: option.splits if_splits)
  ultimately show ?thesis using assms(3-5) r by (auto simp: eval_between_fallible_def Let_def)
qed

lemma between_is_conjunction_witness:
  "eval_between_fallible (of_i64 5) (of_i64 1) (of_i64 4) False = Ok (Bool False)"
proof -
  have "eval_binary_op_fallible (of_i64 5) Gte (of_i64 1) = Ok (Bool True)"
    "eval_binary_op_fallible (of_i64 5) Lte (of_i64 4) = Ok (Bool False)"
    "\<not> is_null (of_i64 5)" "\<not> is_null (of_i64 1)" "\<not> is_null (of_i64 4)"
    "compare_values (of_i64 5) (of_i64 1) \<noteq> None" "compare_values (of_i64 5) (of_i64 4) \<noteq> None"
    by code_simp+
  from between_is_conjunction [OF this] show ?thesis by simp
qed

lemma as_index_of_i64: "in_i64 i \<Longrightarrow> as_index_i64 (of_i64 i) = Some i"
  by (simp add: as_index_i64_def of_i64_def i64_simps)

text \<open>cutting an array at any integer position \<open>k\<close>, negative or out of range, gives two
  slices \<open>a[:k]\<close> and \<open>a[k:]\<close> that make up the array, and an index reads the element that
  many places from the start or, when negative, from the end, and null outside.\<close>

lemma slice_and_index:
  assumes "in_i64 k"
  shows "(\<exists>xs ys. slice_value (Arr vs) None (Some (of_i64 k)) = Arr xs \<and>
            slice_value (Arr vs) (Some (of_i64 k)) None = Arr ys \<and> xs @ ys = vs) \<and>
         index_value (Arr vs) (of_i64 k) =
           (if 0 \<le> k \<and> k < int (length vs) then vs ! nat k
            else if k < 0 \<and> - int (length vs) \<le> k then vs ! (length vs - nat (- k)) else Null)"
proof -
  define p where "p = nat (clamp (norm_index (int (length vs)) k) 0 (int (length vs)))"
  have p: "p \<le> length vs" by (auto simp: p_def clamp_def)
  have "slice_value (Arr vs) None (Some (of_i64 k)) = Arr (take p vs)"
    by (auto simp: slice_value_def norm_bound_def as_index_of_i64 [OF assms] p_def clamp_def Let_def)
  moreover have "slice_value (Arr vs) (Some (of_i64 k)) None = Arr (drop p vs)"
    by (auto simp: slice_value_def norm_bound_def as_index_of_i64 [OF assms] p_def clamp_def Let_def)
  moreover have "nat (int (length vs) + k) = length vs - nat (- k)" if "k < 0" using that by arith
  ultimately show ?thesis
    by (auto simp: index_value_def as_index_of_i64 [OF assms] norm_index_def Let_def)
qed

lemma slice_and_index_witness:
  "index_value (Arr [Str ''a'', Str ''b'', Str ''c'']) (of_i64 (- 1)) = Str ''c''"
  using slice_and_index [of "- 1" "[Str ''a'', Str ''b'', Str ''c'']"] by (simp add: i64_simps)

end
