(* ===== verification/Eval_Cache.thy ===== *)
theory Eval_Cache
  imports Eval_Props
begin

text \<open>
  The per-row cache of analytic calls: once the analytic calls of an expression are in the
  cache, evaluating it leaves the rule's state alone, so that the projection and the
  condition of a row advance each call once.
\<close>

subsection \<open>Steps that keep the state\<close>

definition keeps :: "'a ev \<Rightarrow> bool" where
  "keeps k \<longleftrightarrow> (\<forall>m. snd (k m) = m)"

named_theorems keeps_intros \<open>evaluation steps that leave the state unchanged\<close>

lemma keeps_ret [keeps_intros]: "keeps (ev_ret x)"
  by (simp add: keeps_def ev_ret_def)

lemma keeps_res [keeps_intros]: "keeps (ev_res r)"
  by (simp add: keeps_def ev_res_def)

lemma keeps_read [keeps_intros]: "keeps (ev_state (\<lambda>m. (f m, m)))"
  by (simp add: keeps_def ev_state_def)

lemma keeps_bind [keeps_intros]:
  assumes "keeps k" "\<And>x. keeps (f x)"
  shows "keeps (ev_bind k f)"
  unfolding keeps_def
proof
  fix m
  have "snd (k m) = m" "\<And>x m. snd (f x m) = m" using assms by (auto simp: keeps_def)
  then show "snd (ev_bind k f m) = m" unfolding ev_bind_def by (cases "k m"; cases "fst (k m)"; simp)
qed

lemma keeps_all [keeps_intros]: "list_all keeps ks \<Longrightarrow> keeps (ev_all ks)"
  by (induction ks) (auto intro!: keeps_intros)

lemma keeps_opt [keeps_intros]: "pred_option keeps k \<Longrightarrow> keeps (ev_opt k)"
  by (auto simp: ev_opt_def intro!: keeps_intros split: option.split)

lemma keeps_in_loop [keeps_intros]: "list_all keeps ks \<Longrightarrow> keeps (in_loop v ks)"
  by (induction ks) (auto intro!: keeps_intros)

lemma keeps_when_loop [keeps_intros]:
  "list_all (\<lambda>(w, t). keeps w \<and> keeps t) ws \<Longrightarrow> keeps els \<Longrightarrow> keeps (when_loop hit ws els)"
  by (induction ws) (auto intro!: keeps_intros)

lemma keeps_case [keeps_intros]:
  assumes "pred_option keeps opnd" "list_all (\<lambda>(w, t). keeps w \<and> keeps t) ws" "pred_option keeps els"
  shows "keeps (eval_case_fallible opnd ws els)"
  using assms
  by (cases opnd; cases els) (auto simp: eval_case_fallible_def Let_def intro!: keeps_intros)

subsection \<open>Expressions whose analytic calls are cached\<close>

definition hit :: "env \<Rightarrow> row_values \<Rightarrow> expr \<Rightarrow> bool" where
  "hit E rv e \<longleftrightarrow> is_analytic_expr e \<and> fmlookup rv (debug_expr E e) \<noteq> None"

definition stateless_name :: "string \<Rightarrow> bool" where
  "stateless_name name \<longleftrightarrow> to_ascii_lowercase name \<noteq> ''changed_cols''"

primrec covered :: "env \<Rightarrow> row_values \<Rightarrow> expr \<Rightarrow> bool" where
  "covered E rv Wildcard = True"
| "covered E rv (WildcardModified excl repl) = True"
| "covered E rv (Literal v) = True"
| "covered E rv (Identifier name) = True"
| "covered E rv (FieldAccess parent fld) = covered E rv parent"
| "covered E rv (Index b i) = (covered E rv b \<and> covered E rv i)"
| "covered E rv (Slice b lo hi) =
     (covered E rv b \<and> pred_option id (map_option (covered E rv) lo)
        \<and> pred_option id (map_option (covered E rv) hi))"
| "covered E rv (BinaryOp l bop r) = (covered E rv l \<and> covered E rv r)"
| "covered E rv (UnaryOp uop e) = covered E rv e"
| "covered E rv (Between e lo hi negated) = (covered E rv e \<and> covered E rv lo \<and> covered E rv hi)"
| "covered E rv (InList e items negated) = (covered E rv e \<and> list_all id (map (covered E rv) items))"
| "covered E rv (IsNull e negated) = covered E rv e"
| "covered E rv (Call name args) =
     (hit E rv (Call name args) \<or>
      \<not> is_analytic_expr (Call name args) \<and> stateless_name name \<and> list_all id (map (covered E rv) args))"
| "covered E rv (Over call part cond) =
     (hit E rv (Over call part cond) \<or>
      \<not> is_analytic_expr (Over call part cond) \<and> covered E rv call
        \<and> pred_option id (map_option (covered E rv) part) \<and> pred_option id (map_option (covered E rv) cond))"
| "covered E rv (Case opnd whens els) =
     (pred_option id (map_option (covered E rv) opnd)
        \<and> list_all (\<lambda>(w, t). w \<and> t) (map (map_prod (covered E rv) (covered E rv)) whens)
        \<and> pred_option id (map_option (covered E rv) els))"

lemma keeps_cached:
  assumes "covered E rv e" "\<not> is_analytic_expr e \<Longrightarrow> keeps k"
  shows "keeps (cached E rv e k)"
proof (cases "is_analytic_expr e")
  case True
  with assms(1) have "hit E rv e" by (cases e) auto
  then obtain v where "fmlookup rv (debug_expr E e) = Some v" by (auto simp: hit_def)
  moreover from this have "rv \<noteq> fmempty" by auto
  ultimately show ?thesis using True by (simp add: cached_def keeps_ret)
next
  case False
  then show ?thesis using assms(2) by (simp add: cached_plain)
qed

lemma keeps_call:
  assumes "\<not> is_analytic_expr (Call name args)" "stateless_name name" "list_all (keeps \<circ> ca_run) cas"
  shows "keeps (eval_stateful_call E site name cas row pk skip)"
proof -
  have "keeps (ev_all (map ca_run cas))" using assms(3) by (intro keeps_all) (simp add: list.pred_map comp_def)
  then have v: "keeps (ev_bind (ev_all (map ca_run cas)) (\<lambda>vs. ev_res (f vs)))" for f
    by (rule keeps_bind [OF _ keeps_res])
  show ?thesis using assms(1,2)
    unfolding eval_stateful_call_def stateless_name_def Let_def is_analytic_expr.simps
    by (auto intro!: v keeps_res keeps_read split: option.split)
qed

lemma eval_node_keeps:
  "covered E rv e \<Longrightarrow> \<not> is_analytic_expr e \<Longrightarrow> keeps (eval_node E e row rv pk skip)"
proof (induction e arbitrary: pk skip)
  case (Call name args)
  have "list_all (keeps \<circ> ca_run)
      (map (\<lambda>(a, f). \<lparr>ca_expr = a, ca_run = cached E rv a (f row rv None False),
             ca_detached = detached (f row fmempty None False)\<rparr>) (map (\<lambda>a. (a, eval_node E a)) args))"
    using Call by (auto simp: list_all_iff hit_def intro!: keeps_cached)
  then show ?case using Call.prems keeps_call by (auto simp: hit_def)
next
  case (Over call part cond)
  then show ?case
    by (auto simp: hit_def intro!: keeps_intros keeps_cached split: option.split)
next
  case (Case opnd whens els)
  have "keeps (cached E rv w (eval_node E w row rv None False)) \<and>
      keeps (cached E rv t (eval_node E t row rv None False))" if wt: "(w, t) \<in> set whens" for w t
  proof -
    have "covered E rv w" "covered E rv t" using Case.prems(1) wt by (auto simp: list_all_iff)
    then show ?thesis
      using Case.IH(2) [OF wt, of w] Case.IH(3) [OF wt, of t] by (simp add: keeps_cached)
  qed
  then have "list_all (\<lambda>(w, t). keeps w \<and> keeps t)
     (map (\<lambda>((w, f), (t, g)). (cached E rv w (f row rv None False), cached E rv t (g row rv None False)))
          (map (map_prod (\<lambda>w. (w, eval_node E w)) (\<lambda>t. (t, eval_node E t))) whens))"
    by (auto simp: list_all_iff)
  moreover have "pred_option keeps (map_option (\<lambda>(e, f). cached E rv e (f row rv None False))
          (map_option (\<lambda>e. (e, eval_node E e)) opnd))"
      "pred_option keeps (map_option (\<lambda>(e, f). cached E rv e (f row rv None False))
          (map_option (\<lambda>e. (e, eval_node E e)) els))"
    using Case.prems(1) Case.IH(1,4) by (cases opnd; cases els; auto intro!: keeps_cached)+
  ultimately show ?case by (simp add: keeps_case)
next
  case (Slice b lo hi)
  then show ?case
    by (cases lo; cases hi; auto intro!: keeps_intros keeps_cached)
next
  case (InList e items negated)
  then show ?case
    by (auto simp: list_all_iff intro!: keeps_intros keeps_cached)
qed (auto intro!: keeps_intros keeps_cached)

lemma eval_expr_keeps: "covered E rv e \<Longrightarrow> keeps (eval_expr E e row rv)"
  unfolding eval_expr_def by (rule keeps_cached) (simp_all add: eval_node_keeps)

subsection \<open>The calls a statement collects cover its expressions\<close>

text \<open>\<open>changed_cols\<close> keeps its own state and is not cached; an \<open>OVER\<close> qualifies a call.\<close>

primrec plain :: "expr \<Rightarrow> bool" where
  "plain Wildcard = True"
| "plain (WildcardModified excl repl) = list_all fst (map (map_prod plain id) repl)"
| "plain (Literal v) = True"
| "plain (Identifier name) = True"
| "plain (FieldAccess parent fld) = plain parent"
| "plain (Index b i) = (plain b \<and> plain i)"
| "plain (Slice b lo hi) =
     (plain b \<and> pred_option id (map_option plain lo) \<and> pred_option id (map_option plain hi))"
| "plain (BinaryOp l bop r) = (plain l \<and> plain r)"
| "plain (UnaryOp uop e) = plain e"
| "plain (Between e lo hi negated) = (plain e \<and> plain lo \<and> plain hi)"
| "plain (InList e items negated) = (plain e \<and> list_all id (map plain items))"
| "plain (IsNull e negated) = plain e"
| "plain (Call name args) = (stateless_name name \<and> list_all id (map plain args))"
| "plain (Over call part cond) =
     (is_call call \<and> plain call \<and> pred_option id (map_option plain part)
        \<and> pred_option id (map_option plain cond))"
| "plain (Case opnd whens els) =
     (pred_option id (map_option plain opnd)
        \<and> list_all (\<lambda>(w, t). w \<and> t) (map (map_prod plain plain) whens)
        \<and> pred_option id (map_option plain els))"

definition stocked :: "env \<Rightarrow> row_values \<Rightarrow> expr list \<Rightarrow> bool" where
  "stocked E rv cs \<longleftrightarrow> (\<forall>c \<in> set cs. fmlookup rv (debug_expr E c) \<noteq> None)"

lemma stocked_append [simp]: "stocked E rv (xs @ ys) \<longleftrightarrow> stocked E rv xs \<and> stocked E rv ys"
  by (auto simp: stocked_def)

lemma stocked_concat [simp]: "stocked E rv (concat xss) \<longleftrightarrow> (\<forall>xs \<in> set xss. stocked E rv xs)"
  by (auto simp: stocked_def)

lemma stocked_own: "stocked E rv (own_call e) \<Longrightarrow> is_analytic_expr e \<Longrightarrow> hit E rv e"
  by (auto simp: stocked_def own_call_def hit_def)

lemma set_opt_list [simp]: "set (opt_list x) = set_option x"
  by (cases x) (simp_all add: opt_list_def)

lemma collected_covers:
  "plain e \<Longrightarrow>
     (stocked E rv (fst (collect_calls e)) \<longrightarrow> covered E rv e) \<and>
     (is_call e \<longrightarrow> \<not> is_analytic_expr e \<longrightarrow> stocked E rv (snd (collect_calls e)) \<longrightarrow> covered E rv e)"
proof (induction e)
  case (Call name args)
  have "list_all (covered E rv) args" if "stocked E rv (concat (map (fst \<circ> collect_calls) args))"
    using Call that by (auto simp: list_all_iff)
  then show ?case using Call.prems stocked_own [of E rv "Call name args"]
    by (auto simp: Let_def list.pred_map comp_def)
next
  case (Over call part cond)
  have p: "pred_option (covered E rv) part"
    if "\<forall>x \<in> set_option part. stocked E rv (fst (collect_calls x))"
    using Over that by (cases part) auto
  have c: "pred_option (covered E rv) cond"
    if "\<forall>x \<in> set_option cond. stocked E rv (fst (collect_calls x))"
    using Over that by (cases cond) auto
  show ?case
    using Over.prems Over.IH(1) p c stocked_own [of E rv "Over call part cond"]
    by (auto simp: option.pred_map)
next
  case (Case opnd whens els)
  have p: "pred_option (covered E rv) opnd"
    if "\<forall>x \<in> set_option opnd. stocked E rv (fst (collect_calls x))"
    using Case that by (cases opnd) auto
  have c: "pred_option (covered E rv) els"
    if "\<forall>x \<in> set_option els. stocked E rv (fst (collect_calls x))"
    using Case that by (cases els) auto
  have w: "covered E rv w \<and> covered E rv t" if wt: "(w, t) \<in> set whens"
    and "stocked E rv (fst (collect_calls w))" "stocked E rv (fst (collect_calls t))" for w t
    using Case.IH(2) [OF wt, of w] Case.IH(3) [OF wt, of t] Case.prems that
    by (auto simp: list_all_iff)
  show ?case using p c
    by (auto simp: list_all_iff option.pred_map dest!: bspec intro: w [THEN conjunct1] w [THEN conjunct2])
next
  case (Slice b lo hi)
  then show ?case by (cases lo; cases hi) auto
next
  case (InList e items negated)
  then show ?case by (auto simp: list_all_iff)
qed auto

lemma collect_covered:
  "plain e \<Longrightarrow> stocked E rv (collect_analytic_exprs e) \<Longrightarrow> covered E rv e"
  using collected_covers by (simp add: collect_analytic_exprs_def)

subsection \<open>Precomputation stocks the cache\<close>

lemma stocked_upd: "stocked E rv cs \<Longrightarrow> stocked E (fmupd k v rv) cs"
  by (auto simp: stocked_def)

lemma ev_bind_Ok:
  assumes "ev_bind k f m = (Ok y, m')"
  obtains x m1 where "k m = (Ok x, m1)" "f x m1 = (Ok y, m')"
  using assms by (auto simp: ev_bind_def split: prod.splits res.splits)

lemma ev_map_err_Ok: "ev_map_err w k m = (Ok x, m') \<longleftrightarrow> k m = (Ok x, m')"
  by (cases "k m"; cases "fst (k m)") (auto simp: ev_map_err_def)

lemma precompute_stocks:
  "precompute E wrap row cs rv m = (Ok rv', m') \<Longrightarrow> stocked E rv' cs \<and>
     (\<forall>ds. stocked E rv ds \<longrightarrow> stocked E rv' ds)"
proof (induction cs arbitrary: rv m)
  case Nil
  then show ?case by (simp add: stocked_def ev_ret_def)
next
  case (Cons c cs)
  show ?case
  proof (cases "fmlookup rv (debug_expr E c) = None")
    case False
    then have "precompute E wrap row cs rv m = (Ok rv', m')" using Cons.prems by simp
    note IH = Cons.IH [OF this]
    moreover have "stocked E rv [c]" using False by (simp add: stocked_def)
    ultimately show ?thesis by (metis append_Cons append_Nil stocked_append)
  next
    case True
    then obtain v m1 where "precompute E wrap row cs (fmupd (debug_expr E c) v rv) m1 = (Ok rv', m')"
      using Cons.prems by (auto elim: ev_bind_Ok)
    note IH = Cons.IH [OF this]
    moreover have "stocked E (fmupd (debug_expr E c) v rv) [c]" by (simp add: stocked_def)
    ultimately show ?thesis by (metis append_Cons append_Nil stocked_append stocked_upd)
  qed
qed

lemma precompute_fields_stocks:
  "precompute_fields E stmt row idx fs rv m = (Ok rv', m') \<Longrightarrow>
     (\<forall>f \<in> set fs. stocked E rv' (collect_analytic_exprs f)) \<and>
     (\<forall>ds. stocked E rv ds \<longrightarrow> stocked E rv' ds)"
proof (induction fs arbitrary: idx rv m)
  case Nil
  then show ?case by (simp add: ev_ret_def)
next
  case (Cons f fs)
  from Cons.prems obtain rv1 m1 where
    p: "precompute E (SelectError (alias_at stmt idx) (to_ekuiper_string (render E) f (from_src stmt)))
      row (collect_analytic_exprs f) rv m = (Ok rv1, m1)"
    "precompute_fields E stmt row (idx + 1) fs rv1 m1 = (Ok rv', m')"
    by (auto elim: ev_bind_Ok)
  from precompute_stocks [OF p(1)] Cons.IH [OF p(2)] show ?case by auto
qed

subsection \<open>A row advances each analytic call once\<close>

lemma keeps_map_err [keeps_intros]: "keeps k \<Longrightarrow> keeps (ev_map_err f k)"
  by (auto simp: keeps_def ev_map_err_def split: prod.split) (metis snd_conv)

lemma keeps_replace:
  "\<forall>(e, c) \<in> set repl. covered E rv e \<Longrightarrow> keeps (replace_loop E src row rv repl out)"
proof (induction repl arbitrary: out)
  case (Cons p repl)
  then show ?case by (cases p) (auto intro!: keeps_intros eval_expr_keeps)
qed (simp add: keeps_ret)

definition field_covered :: "env \<Rightarrow> row_values \<Rightarrow> expr \<Rightarrow> bool" where
  "field_covered E rv f \<longleftrightarrow> covered E rv f \<and>
     (case f of
        WildcardModified excl repl \<Rightarrow> (\<forall>(e, c) \<in> set repl. covered E rv e)
      | Call name args \<Rightarrow> stateless_name name \<and> (to_ascii_lowercase name = ''extract'' \<longrightarrow> list_all (covered E rv) args)
      | _ \<Rightarrow> True)"

lemma extract_not_analytic: "to_ascii_lowercase name = ''extract'' \<Longrightarrow> \<not> is_analytic_expr (Call name args)"
  by (simp add: is_acc_call_def)

lemma field_covered_collected:
  assumes "plain f" "stocked E rv (collect_analytic_exprs f)"
  shows "field_covered E rv f"
proof -
  have c: "covered E rv f" by (rule collect_covered [OF assms])
  show ?thesis
  proof (cases f)
    case (WildcardModified excl repl)
    have "covered E rv e" if "(e, col) \<in> set repl" for e col
    proof (rule collect_covered)
      show "plain e" using assms(1) that WildcardModified by (force simp: list_all_iff)
      show "stocked E rv (collect_analytic_exprs e)"
        using assms(2) that WildcardModified by (force simp: collect_analytic_exprs_def)
    qed
    then show ?thesis using c WildcardModified by (auto simp: field_covered_def)
  next
    case (Call name args)
    then show ?thesis using c assms(1) extract_not_analytic [of name args]
      by (auto simp: field_covered_def hit_def list.pred_map comp_def)
  qed (use c in \<open>simp_all add: field_covered_def\<close>)
qed

lemma keeps_project_field:
  assumes "field_covered E rv f"
  shows "keeps (project_field E stmt names row rv idx f out)"
proof -
  have c: "covered E rv f" using assms by (simp add: field_covered_def)
  note [intro!] = keeps_intros eval_expr_keeps
  have general: "keeps (case try_eval_numeric_fast f row of
       Some v \<Rightarrow> ev_ret (fmupd key v out)
     | None \<Rightarrow> ev_bind (ev_map_err g (eval_expr E f row rv)) (\<lambda>v. ev_ret (fmupd key v out)))" for key g
    using c by (auto split: option.split)
  show ?thesis
  proof (cases f)
    case (WildcardModified excl repl)
    then show ?thesis using assms by (auto simp: project_field_def field_covered_def intro: keeps_replace)
  next
    case (Call name args)
    then show ?thesis using assms general [unfolded Call]
      by (auto simp: project_field_def field_covered_def stateless_name_def Let_def split: list.split)
  qed (use c general in \<open>auto simp: project_field_def Let_def\<close>)
qed

lemma keeps_project_loop:
  "\<forall>f \<in> set fs. field_covered E rv f \<Longrightarrow> keeps (project_loop E stmt names row rv idx fs out)"
  by (induction fs arbitrary: idx out) (auto intro!: keeps_intros keeps_project_field)

lemma keeps_where: "covered E rv e \<Longrightarrow> keeps (eval_bool_stateful_fallible E e row rv)"
  using eval_expr_keeps [of E rv e row]
  by (auto simp: eval_bool_stateful_fallible_def where_slow_def keeps_def ev_res_def split: option.split prod.split)
    (metis snd_conv)


definition demo_stmt :: select_stmt where
  "demo_stmt = SelectStmt [Call ''row_number'' []] [None] ''s'' None []
     (Some (BinaryOp (Call ''row_number'' []) Gt (Literal (of_i64 5)))) [] None None None None None [] None None"

lemma demo_collect: "collect_analytic_exprs (Call ''row_number'' []) = [Call ''row_number'' []]"
  by (simp add: collect_analytic_exprs_def own_call_def Let_def to_ascii_lowercase_def
      ascii_lower_char_def)

lemma demo_call:
  "eval_expr demo_env (Call ''row_number'' []) row fmempty fmempty =
     (Ok (of_i64 1), fmupd ''row_number:Call:{ name:row_number, args:[] }:'' (of_i64 1) fmempty)"
  by (simp add: eval_expr_def cached_def eval_stateful_call_def Let_def to_ascii_lowercase_def
      ascii_lower_char_def is_acc_call_def ev_state_def row_number_call_def i64_or_def sat_add_def
      i64_simps)


end
