(* ===== verification/Analytic_Props.thy ===== *)
theory Analytic_Props
  imports Eval_Props
begin

text \<open>
  Correctness of the analytic functions over a stream of rows: each function is run on the
  values of successive rows, threading the rule's state map.
\<close>

fun state_run :: "('v \<Rightarrow> 's \<Rightarrow> 'o \<times> 's) \<Rightarrow> 'v list \<Rightarrow> 's \<Rightarrow> 'o list \<times> 's" where
  "state_run f [] s = ([], s)"
| "state_run f (v # vs) s =
     (case f v s of (o1, s1) \<Rightarrow> (case state_run f vs s1 of (os, s2) \<Rightarrow> (o1 # os, s2)))"

lemma length_state_run: "state_run f vs s = (os, s') \<Longrightarrow> length os = length vs"
  by (induction vs arbitrary: s os s') (auto split: prod.splits)

text \<open>A property of the state kept by every row holds after any run.\<close>

lemma state_run_inv:
  assumes "\<And>v s. P s \<Longrightarrow> P (snd (f v s))" "P s" "state_run f vs s = (os, s')"
  shows "P s'"
  using assms(2,3)
proof (induction vs arbitrary: s os)
  case (Cons v vs)
  from assms(1) [OF Cons.prems(1), of v] Cons.IH Cons.prems(2) show ?case
    by (auto split: prod.splits)
qed simp

subsection \<open>Bounded state\<close>

lemma lookup_insert_bounded [simp]: "fmlookup (insert_bounded pick key v m) key = Some v"
  by (simp add: insert_bounded_def Let_def)

lemma map_len_drop: "k |\<in>| fmdom m \<Longrightarrow> map_len (fmdrop k m) = map_len m - 1"
  by (simp add: map_len_def fcard_fminus_fsingleton)

lemma map_len_upd: "map_len (fmupd k v m) = (if k |\<in>| fmdom m then map_len m else map_len m + 1)"
  by (simp add: map_len_def fcard_finsert_if)

text \<open>Writing a value keeps the rule's state within \<open>MAX_STATE_KEYS\<close> keys as long as one
  key can be evicted, and never evicts the reserved keys (those starting with two
  underscores or two dollar signs).\<close>

lemma insert_bounded_keeps_bound:
  assumes "picks pick" "map_len m \<le> MAX_STATE_KEYS"
    and "map_len m = MAX_STATE_KEYS \<longrightarrow> (\<exists>k. k |\<in>| fmdom m \<and> evictable k)"
  shows "map_len (insert_bounded pick key v m) \<le> MAX_STATE_KEYS \<and>
     (\<forall>k. \<not> evictable k \<and> k \<noteq> key \<longrightarrow> fmlookup (insert_bounded pick key v m) k = fmlookup m k)"
proof (cases "fmlookup m key = None \<and> MAX_STATE_KEYS \<le> map_len m")
  case False
  then have "map_len (insert_bounded pick key v m) \<le> MAX_STATE_KEYS"
    using assms(2) by (auto simp: insert_bounded_def map_len_upd fmlookup_dom_iff)
  with False show ?thesis by (auto simp: insert_bounded_def)
next
  case True
  then obtain k where k: "pick evictable m = Some k" "k |\<in>| fmdom m" "evictable k"
    using assms by (auto simp: picks_def split: option.splits)
  have "fcard (fmdom m) \<noteq> 0" using k(2) by auto
  then have "map_len (fmdrop k m) < MAX_STATE_KEYS" using True assms(2) k(2)
    by (simp add: map_len_drop MAX_STATE_KEYS_def)
  then have "map_len (insert_bounded pick key v m) \<le> MAX_STATE_KEYS"
    using True k(1) by (simp add: insert_bounded_def map_len_upd)
  with True k show ?thesis by (auto simp: insert_bounded_def)
qed

lemma demo_picks: "picks demo_pick"
  unfolding picks_def
proof (intro allI)
  fix p and m :: rule_map
  show "case demo_pick p m of None \<Rightarrow> \<forall>k. k |\<in>| fmdom m \<longrightarrow> \<not> p k | Some k \<Rightarrow> k |\<in>| fmdom m \<and> p k"
  proof (cases "filter p (sorted_list_of_fset (fmdom m))")
    case Nil
    then show ?thesis by (auto simp: demo_pick_def filter_empty_conv)
  next
    case (Cons k ks)
    have "k \<in> set (filter p (sorted_list_of_fset (fmdom m)))" by (simp add: Cons)
    then have "k |\<in>| fmdom m \<and> p k" by simp
    then show ?thesis using Cons by (simp add: demo_pick_def)
  qed
qed

lemma insert_bounded_keeps_bound_witness:
  "map_len (insert_bounded demo_pick ''k'' Null (fmupd ''__rule_id__'' (Str ''r1'') fmempty)) \<le> MAX_STATE_KEYS
   \<and> fmlookup (insert_bounded demo_pick ''k'' Null (fmupd ''__rule_id__'' (Str ''r1'') fmempty)) ''__rule_id__''
       = Some (Str ''r1'')"
proof -
  have l: "map_len (fmupd ''__rule_id__'' (Str ''r1'') fmempty) = 1"
    by (simp add: map_len_upd) (simp add: map_len_def)
  have "\<not> evictable ''__rule_id__''" by (simp add: evictable_def starts_with_def)
  then show ?thesis
    using insert_bounded_keeps_bound [OF demo_picks, of "fmupd ''__rule_id__'' (Str ''r1'') fmempty" "''k''" Null] l
    by (simp add: MAX_STATE_KEYS_def)
qed

subsection \<open>The lag function\<close>

definition lag_call :: "key_picker \<Rightarrow> nat \<Rightarrow> json \<Rightarrow> rule_map \<Rightarrow> json \<times> rule_map" where
  "lag_call pick k v m = eval_lag (\<lambda>_. None) pick [v, of_i64 (int k)] ''c'' ''p'' False m"

lemma lag_call_step:
  assumes "0 < k" "k \<le> 10000" "stored_list ''lag:c:p'' m = h"
  shows "fst (lag_call pick k v m) = (if k \<le> length h then h ! (length h - k) else Null)"
    and "stored_list ''lag:c:p'' (snd (lag_call pick k v m)) =
      (if k \<le> length h then drop (length h - k + 1) h else h) @ [v]"
proof -
  have off: "to_i64_arg f (of_i64 (int k)) = Some (int k)" for f
    using assms(1,2) by (simp add: to_i64_arg_def i64_simps)
  show "fst (lag_call pick k v m) = (if k \<le> length h then h ! (length h - k) else Null)"
    using assms by (auto simp: lag_call_def eval_lag_def nth_opt_def off Let_def min_def)
  have "fmlookup (snd (lag_call pick k v m)) ''lag:c:p'' =
      Some (Arr ((if k \<le> length h then drop (length h - k + 1) h else h) @ [v]))"
    using assms by (auto simp: lag_call_def eval_lag_def nth_opt_def off Let_def min_def)
  then show "stored_list ''lag:c:p'' (snd (lag_call pick k v m)) =
      (if k \<le> length h then drop (length h - k + 1) h else h) @ [v]"
    by (simp add: stored_list_def)
qed

lemma lag_run_general:
  assumes "0 < k" "k \<le> 10000" "stored_list ''lag:c:p'' m = h" "length h \<le> k"
    and "state_run (lag_call pick k) vs m = (os, m')" "i < length vs"
  shows "os ! i = (if k \<le> length h + i then (h @ vs) ! (length h + i - k) else Null)"
  using assms(3-)
proof (induction vs arbitrary: m h os i)
  case (Cons v vs)
  define h' where "h' = (if k \<le> length h then drop (length h - k + 1) h else h) @ [v]"
  define d where "d = (if k \<le> length h then 1 else 0 :: nat)"
  have h': "h' @ vs = drop d (h @ v # vs)" "length h' + d = length h + 1" "length h' \<le> k" "d \<le> length h"
    using Cons.prems(2) assms(1) by (auto simp: h'_def d_def)
  obtain o1 m1 os1 where run: "lag_call pick k v m = (o1, m1)" "state_run (lag_call pick k) vs m1 = (os1, m')"
      "os = o1 # os1"
    using Cons.prems(3) by (auto split: prod.splits)
  have step: "o1 = (if k \<le> length h then h ! (length h - k) else Null)" "stored_list ''lag:c:p'' m1 = h'"
    using lag_call_step [OF assms(1,2) Cons.prems(1), of pick v] run(1) by (simp_all add: h'_def)
  show ?case
  proof (cases i)
    case 0
    then show ?thesis using step(1) run(3) assms(1) by (auto simp: nth_append)
  next
    case (Suc j)
    then have j: "j < length vs" using Cons.prems(4) by simp
    have dl: "d \<le> length (h @ v # vs)" using h'(4) by simp
    have len: "length h' + j + d = length h + i" using h'(2) Suc by simp
    have "os ! i = (if k \<le> length h' + j then (h' @ vs) ! (length h' + j - k) else Null)"
      using Cons.IH [OF step(2) h'(3) run(2) j] run(3) Suc by simp
    also have "\<dots> = (if k \<le> length h' + j then (h @ v # vs) ! (d + (length h' + j - k)) else Null)"
      unfolding h'(1) by (simp only: nth_drop dl)
    also have "\<dots> = (if k \<le> length h + i then (h @ v # vs) ! (length h + i - k) else Null)"
    proof (cases "k \<le> length h' + j")
      case True
      then have "d + (length h' + j - k) = length h + i - k" "k \<le> length h + i" using len by linarith+
      with True show ?thesis by simp
    next
      case False
      then have "\<not> k \<le> length h" using h'(2,3) d_def by (auto split: if_splits)
      then have "d = 0" by (simp add: d_def)
      with False len show ?thesis by simp
    qed
    finally show ?thesis .
  qed
qed simp

text \<open>Over a stream of rows, \<open>lag(v, k)\<close> returns the value seen exactly \<open>k\<close> rows earlier,
  and the default (null) for the first \<open>k\<close> rows, for offsets up to the retained 10,000.\<close>

lemma lag_returns_earlier_value:
  assumes "0 < k" "k \<le> 10000" "fmlookup m ''lag:c:p'' = None" "i < length vs"
  shows "fst (state_run (lag_call pick k) vs m) ! i = (if k \<le> i then vs ! (i - k) else Null)"
proof -
  obtain os m' where r: "state_run (lag_call pick k) vs m = (os, m')"
    by (cases "state_run (lag_call pick k) vs m")
  have "stored_list ''lag:c:p'' m = []" using assms(3) by (simp add: stored_list_def)
  from lag_run_general [OF assms(1,2) this _ r assms(4)] r show ?thesis by simp
qed

lemma lag_returns_earlier_value_witness:
  "fst (state_run (lag_call demo_pick 2) [Str ''a'', Str ''b'', Str ''c''] fmempty) ! 2 = Str ''a''"
  using lag_returns_earlier_value [of 2 fmempty 2 "[Str ''a'', Str ''b'', Str ''c'']" demo_pick] by simp

subsection \<open>Sequence matching\<close>

text \<open>A run of the automaton over timestamped events, each with the truth of every step's
  condition.\<close>

definition cep_event :: "int \<Rightarrow> int \<times> json list \<Rightarrow> cep \<Rightarrow> bool \<times> cep" where
  "cep_event max_span ev c = cep_step max_span (snd ev) (fst ev) c"

text \<open>The stage is explained by earlier events: step \<open>j\<close> held at the \<open>j\<close>-th of them, in order,
  and the start time is that of the first.\<close>

definition explained :: "(int \<times> json list) list \<Rightarrow> nat list \<Rightarrow> cep \<Rightarrow> bool" where
  "explained past js c \<longleftrightarrow>
     length js = cep_stage c \<and> sorted_wrt (<) js \<and> (\<forall>j \<in> set js. j < length past) \<and>
     (\<forall>k < length js. step_bool (snd (past ! (js ! k))) k) \<and>
     (js \<noteq> [] \<longrightarrow> cep_start c = fst (past ! hd js))"

lemma explained_extend:
  assumes "explained past js c" "step_bool steps (cep_stage c)" "js \<noteq> []"
  shows "explained (past @ [(ts, steps)]) (js @ [length past]) (c\<lparr>cep_stage := cep_stage c + 1\<rparr>)"
proof -
  have "js ! k < length past" if "k < length js" for k
    using assms(1) that by (simp add: explained_def)
  with assms show ?thesis
    by (auto simp: explained_def sorted_wrt_append nth_append less_Suc_eq)
qed

lemma explained_later: "explained past js c \<Longrightarrow> explained (past @ [ev]) js c"
proof -
  assume e: "explained past js c"
  then have "js ! k < length past" if "k < length js" for k using that by (simp add: explained_def)
  with e show ?thesis by (cases js) (auto simp: explained_def nth_append)
qed

definition sequence_at :: "int \<Rightarrow> (int \<times> json list) list \<Rightarrow> nat \<Rightarrow> nat \<Rightarrow> nat list \<Rightarrow> bool" where
  "sequence_at max_span evs n i js \<longleftrightarrow>
     length js = n \<and> sorted_wrt (<) js \<and> last js = i \<and>
     (\<forall>k < n. step_bool (snd (evs ! (js ! k))) k) \<and>
     (0 < max_span \<longrightarrow> fst (evs ! i) - fst (evs ! hd js) \<le> max_span)"

lemma cep_event_explained:
  assumes ex: "explained past js c" and st: "cep_stage c < n" and n: "2 \<le> n" "length steps = n"
    and span: "max_span < i64_max"
    and step: "cep_event max_span (ts, steps) c = (matched, c')"
  shows "(\<exists>js'. explained (past @ [(ts, steps)]) js' c') \<and> cep_stage c' < n \<and>
     (matched \<longrightarrow> (\<exists>js'. sequence_at max_span (past @ [(ts, steps)]) n (length past) js'))"
proof -
  let ?evs = "past @ [(ts, steps)]"
  define c1 where "c1 = cep_expire max_span ts c"
  define c2 where "c2 = cep_advance steps ts c1"
  obtain js1 where ex1: "explained past js1 c1" and st1: "cep_stage c1 < n"
      and fresh: "0 < cep_stage c1 \<Longrightarrow> 0 < max_span \<Longrightarrow> ts - cep_start c1 \<le> max_span"
  proof (cases "0 < cep_stage c \<and> 0 < max_span \<and> max_span < sat_sub ts (cep_start c)")
    case True
    then have "c1 = c\<lparr>cep_stage := 0\<rparr>" by (simp add: c1_def cep_expire_def)
    then show thesis using n(1) by (intro that [of "[]"]) (auto simp: explained_def)
  next
    case False
    then have eq: "c1 = c" by (auto simp: c1_def cep_expire_def)
    show thesis
    proof (rule that [of js])
      show "explained past js c1" "cep_stage c1 < n" using eq ex st by simp_all
      assume "0 < cep_stage c1" "0 < max_span"
      then have "sat_sub ts (cep_start c) \<le> max_span" using False eq by auto
      then show "ts - cep_start c1 \<le> max_span"
        using span eq by (auto simp: sat_sub_def sat64_def i64_min_def i64_max_def max_def min_def split: if_splits)
    qed
  qed
  have start: "\<exists>js'. explained ?evs js' (c1\<lparr>cep_stage := 1, cep_start := ts\<rparr>)" if "step_bool steps 0"
    using that by (intro exI [of _ "[length past]"]) (auto simp: explained_def)
  have stay: "\<exists>js'. explained ?evs js' c1" using explained_later [OF ex1] by blast
  have c2: "(\<exists>js'. explained ?evs js' c2) \<and> cep_stage c2 \<le> n \<and>
      (cep_stage c2 = n \<longrightarrow> (\<exists>js'. sequence_at max_span ?evs n (length past) js'))"
  proof (cases "cep_stage c1 = 0")
    case True
    then show ?thesis using start stay n by (auto simp: c2_def cep_advance_def)
  next
    case False
    then have js1: "js1 \<noteq> []" using ex1 by (auto simp: explained_def)
    show ?thesis
    proof (cases "step_bool steps (cep_stage c1)")
      case True
      have c2: "c2 = c1\<lparr>cep_stage := cep_stage c1 + 1\<rparr>"
        using False True st1 n(2) by (simp add: c2_def cep_advance_def)
      note e = explained_extend [OF ex1 True js1, of ts]
      have "sequence_at max_span ?evs n (length past) (js1 @ [length past])" if "cep_stage c2 = n"
        using e that fresh False js1 ex1 c2
        by (auto simp: sequence_at_def explained_def nth_append hd_append)
      then show ?thesis using e c2 st1 by auto
    next
      case no: False
      then show ?thesis using start stay False st1 n by (auto simp: c2_def cep_advance_def)
    qed
  qed
  have "(matched, c') = cep_accept steps c2"
    using step by (simp add: cep_event_def cep_step_def c2_def c1_def)
  then show ?thesis using c2 n
    by (auto simp: cep_accept_def explained_def split: if_splits)
qed

lemma sequence_at_prefix:
  assumes "sequence_at max_span xs n i js" "i < length xs" "0 < n"
  shows "sequence_at max_span (xs @ ys) n i js"
proof -
  have js: "js \<noteq> []" "sorted_wrt (<) js" "last js = i" using assms by (auto simp: sequence_at_def)
  have le: "j \<le> last js" if "j \<in> set js" for j
    using that js(2) by (induction js) (auto split: if_splits, metis last_in_set less_imp_le)
  have "js ! k < length xs" if "k < n" for k
    using le [of "js ! k"] that assms by (auto simp: sequence_at_def)
  moreover have "hd js < length xs" using le [of "hd js"] js assms(2) by simp
  ultimately show ?thesis using assms(1,2) by (auto simp: sequence_at_def nth_append)
qed

lemma cep_run_sound:
  assumes "2 \<le> n" "max_span < i64_max"
  shows "explained past js c \<Longrightarrow> cep_stage c < n \<Longrightarrow> \<forall>e \<in> set evs. length (snd e) = n \<Longrightarrow>
     i < length evs \<Longrightarrow> fst (state_run (cep_event max_span) evs c) ! i \<Longrightarrow>
     \<exists>js'. sequence_at max_span (past @ evs) n (length past + i) js'"
proof (induction evs arbitrary: past js c i)
  case (Cons ev evs)
  obtain ts steps where ev: "ev = (ts, steps)" by (cases ev)
  obtain b c1 where s: "cep_event max_span (ts, steps) c = (b, c1)" by (cases "cep_event max_span (ts, steps) c")
  have len: "length steps = n" using Cons.prems(3) ev by simp
  note E = cep_event_explained [OF Cons.prems(1,2) assms(1) len assms(2) s]
  obtain os c2 where r: "state_run (cep_event max_span) evs c1 = (os, c2)"
    by (cases "state_run (cep_event max_span) evs c1")
  have run: "fst (state_run (cep_event max_span) (ev # evs) c) = b # os"
    using s r ev by simp
  show ?case
  proof (cases i)
    case 0
    then have b using Cons.prems(5) run by simp
    then obtain js' where "sequence_at max_span (past @ [ev]) n (length past) js'" using E ev by blast
    from sequence_at_prefix [OF this, of evs] show ?thesis using 0 assms(1) by auto
  next
    case (Suc k)
    from E ev obtain js' where "explained (past @ [ev]) js' c1" "cep_stage c1 < n" by auto
    from Cons.IH [OF this, of k] Cons.prems(3-5) Suc run r show ?thesis by simp
  qed
qed simp

text \<open>The automaton's state survives its encoding in the state map.\<close>

definition cep_ok :: "cep \<Rightarrow> bool" where
  "cep_ok c \<longleftrightarrow> int (cep_stage c) \<le> i64_max \<and> in_i64 (cep_start c) \<and> in_i64 (cep_completed c)"

lemma cep_load_store: "cep_ok c \<Longrightarrow> cep_load ts (Some (cep_store c)) = c"
  by (simp add: cep_ok_def cep_load_def cep_store_def i64_or_def) (simp add: of_i64_def)

lemma cep_event_ok:
  assumes "cep_ok c" "in_i64 ts" "int (length steps) \<le> i64_max" "1 \<le> length steps"
  shows "cep_ok (snd (cep_event max_span (ts, steps) c))"
proof -
  have "cep_ok (cep_expire max_span ts c)" using assms(1) by (simp add: cep_expire_def cep_ok_def i64_simps)
  then have "cep_ok (cep_advance steps ts (cep_expire max_span ts c))"
    using assms by (auto simp: cep_advance_def cep_ok_def)
  then show ?thesis by (auto simp: cep_event_def cep_step_def cep_accept_def cep_ok_def i64_max_def)
qed

definition seq_call :: "key_picker \<Rightarrow> int \<Rightarrow> int \<times> json list \<Rightarrow> rule_map \<Rightarrow> json \<times> rule_map" where
  "seq_call pick max_span ev m =
     eval_sequence_cep (\<lambda>_. None) pick ''sequence_match'' (of_i64 max_span # snd ev) (fst ev) ''c'' ''p'' False m"

definition cep_init :: "int \<Rightarrow> cep" where
  "cep_init ts = \<lparr>cep_stage = 0, cep_start = ts, cep_completed = 0\<rparr>"

lemma seq_call_step:
  assumes "in_i64 max_span" "2 \<le> length steps"
    and "cep_load ts (fmlookup m ''cep:sequence_match:c:p'') = c"
  shows "fst (seq_call pick max_span (ts, steps) m) = Bool (fst (cep_event max_span (ts, steps) c))"
    and "fmlookup (snd (seq_call pick max_span (ts, steps) m)) ''cep:sequence_match:c:p'' =
       Some (cep_store (snd (cep_event max_span (ts, steps) c)))"
proof -
  have a: "to_i64_arg f (of_i64 max_span) = Some max_span" for f
    using assms(1) by (simp add: to_i64_arg_def)
  show "fst (seq_call pick max_span (ts, steps) m) = Bool (fst (cep_event max_span (ts, steps) c))"
    "fmlookup (snd (seq_call pick max_span (ts, steps) m)) ''cep:sequence_match:c:p'' =
       Some (cep_store (snd (cep_event max_span (ts, steps) c)))"
    using assms(2,3) a
    by (auto simp: seq_call_def eval_sequence_cep_def Let_def cep_event_def split: prod.split)
qed

lemma seq_run:
  assumes "in_i64 max_span" "2 \<le> n" "int n \<le> i64_max"
    and "\<forall>e \<in> set evs. length (snd e) = n \<and> in_i64 (fst e)"
    and "cep_ok c" "evs \<noteq> [] \<longrightarrow> cep_load (fst (hd evs)) (fmlookup m ''cep:sequence_match:c:p'') = c"
  shows "fst (state_run (seq_call pick max_span) evs m) = map Bool (fst (state_run (cep_event max_span) evs c))"
  using assms(4-)
proof (induction evs arbitrary: m c)
  case (Cons ev evs)
  obtain ts steps where ev: "ev = (ts, steps)" by (cases ev)
  have st: "2 \<le> length steps" "in_i64 ts" "int (length steps) \<le> i64_max" "1 \<le> length steps"
    using Cons.prems(1) ev assms(2,3) by auto
  have load: "cep_load ts (fmlookup m ''cep:sequence_match:c:p'') = c" using Cons.prems(3) ev by simp
  note S = seq_call_step [OF assms(1) st(1) load, of pick]
  obtain o1 m1 b c1 where 1: "seq_call pick max_span ev m = (o1, m1)" "cep_event max_span ev c = (b, c1)"
    by (metis surj_pair)
  have ok: "cep_ok c1" using cep_event_ok [OF Cons.prems(2) st(2-4), of max_span] 1(2) ev by simp
  have "cep_load ts' (fmlookup m1 ''cep:sequence_match:c:p'') = c1" for ts'
    using S(2) cep_load_store [OF ok] 1 ev by simp
  then have "fst (state_run (seq_call pick max_span) evs m1) = map Bool (fst (state_run (cep_event max_span) evs c1))"
    using Cons.IH [OF _ ok, of m1] Cons.prems(1) by simp
  with S(1) 1 ev show ?case by (simp add: case_prod_beta)
qed simp

text \<open>C18: \<open>sequence_match(span, c1, ..., cn)\<close> reports a match only at an event that completes
  the sequence: there are events, in order and ending at this one, at which each condition
  held in turn, and the whole sequence lies within the span.\<close>

theorem sequence_match_sound:
  assumes "in_i64 max_span" "max_span < i64_max" "2 \<le> n" "int n \<le> i64_max"
    and "\<forall>e \<in> set evs. length (snd e) = n \<and> in_i64 (fst e)"
    and "fmlookup m ''cep:sequence_match:c:p'' = None"
    and "i < length evs" "fst (state_run (seq_call pick max_span) evs m) ! i = Bool True"
  shows "\<exists>js. sequence_at max_span evs n i js"
proof -
  define c where "c = cep_init (fst (hd evs))"
  have "in_i64 (fst (hd evs))" using assms(5,7) by (cases evs) auto
  then have ok: "cep_ok c" by (simp add: c_def cep_ok_def cep_init_def i64_simps)
  have run: "fst (state_run (seq_call pick max_span) evs m) = map Bool (fst (state_run (cep_event max_span) evs c))"
    using assms(6) by (intro seq_run [OF assms(1,3,4,5) ok]) (simp add: c_def cep_load_def cep_init_def)
  have "length (fst (state_run (cep_event max_span) evs c)) = length evs"
    using length_state_run by (metis prod.collapse)
  with assms(7,8) run have "fst (state_run (cep_event max_span) evs c) ! i" by simp
  moreover have "explained [] [] c" "cep_stage c < n" using assms(3) by (simp_all add: explained_def c_def cep_init_def)
  ultimately show ?thesis
    using cep_run_sound [OF assms(3,2), of "[]" "[]" c evs i] assms(5,7) by auto
qed

theorem sequence_match_sound_witness:
  "\<exists>js. sequence_at 50 [(10, [Bool True, Bool False]), (20, [Bool False, Bool False]),
      (40, [Bool False, Bool True])] 2 2 js"
proof (rule sequence_match_sound [where m = fmempty and pick = demo_pick])
  show "fst (state_run (seq_call demo_pick 50) [(10, [Bool True, Bool False]), (20, [Bool False, Bool False]),
      (40, [Bool False, Bool True])] fmempty) ! 2 = Bool True"
    by code_simp
qed (auto simp: i64_simps)

subsection \<open>Running aggregates\<close>

definition distinct_values :: "json list \<Rightarrow> bool" where
  "distinct_values ys \<longleftrightarrow>
     sorted_wrt (\<lambda>x y. \<not> values_equal x y) ys \<and> length ys \<le> MAX_ACC_ITEMS \<and> list_all (\<lambda>y. \<not> is_null y) ys"

definition represented :: "json list \<Rightarrow> json \<Rightarrow> bool" where
  "represented ys v \<longleftrightarrow> v \<in> set ys \<or> list_ex (\<lambda>y. values_equal y v) ys"

definition distinct_call :: "key_picker \<Rightarrow> string \<Rightarrow> json \<Rightarrow> rule_map \<Rightarrow> json \<times> rule_map" where
  "distinct_call pick key v m = acc_distinct_collect pick key [v] m"

lemma distinct_call_step:
  fixes v :: json and pick :: key_picker
  assumes "distinct_values (stored_list key m)"
  defines "ys \<equiv> stored_list key m" and "ys' \<equiv> stored_list key (snd (distinct_call pick key v m))"
  shows "distinct_values ys'" "length ys \<le> length ys'"
    "length ys' < MAX_ACC_ITEMS \<Longrightarrow> set ys \<subseteq> set ys' \<and> (\<not> is_null v \<longrightarrow> represented ys' v)"
proof -
  have *: "ys' = (if is_null v \<or> list_ex (\<lambda>e. values_equal e v) ys then ys else push_bounded MAX_ACC_ITEMS v ys)"
    by (simp add: ys'_def ys_def distinct_call_def acc_distinct_collect_def Let_def)
      (simp add: stored_list_def)
  have tl: "sorted_wrt P (tl xs)" if "sorted_wrt P xs" for P and xs :: "json list"
    using that by (cases xs) simp_all
  have sub: "x \<in> set ys" if "x \<in> set (tl ys)" for x using that by (cases ys) simp_all
  show "distinct_values ys'"
    using assms(1) unfolding * ys_def [symmetric]
    by (auto simp: distinct_values_def push_bounded_def sorted_wrt_append tl list_all_iff list_ex_iff
        MAX_ACC_ITEMS_def dest!: sub)
  show "length ys \<le> length ys'" unfolding * by (auto simp: push_bounded_def)
  show "set ys \<subseteq> set ys' \<and> (\<not> is_null v \<longrightarrow> represented ys' v)" if "length ys' < MAX_ACC_ITEMS"
    using that unfolding * by (auto simp: push_bounded_def represented_def list_ex_iff split: if_splits)
qed

lemma distinct_run:
  assumes "distinct_values (stored_list key m)" "state_run (distinct_call pick key) vs m = (os, m')"
  shows "distinct_values (stored_list key m') \<and> length (stored_list key m) \<le> length (stored_list key m') \<and>
     (length (stored_list key m') < MAX_ACC_ITEMS \<longrightarrow>
        set (stored_list key m) \<subseteq> set (stored_list key m') \<and>
        (\<forall>v \<in> set vs. \<not> is_null v \<longrightarrow> represented (stored_list key m') v))"
  using assms
proof (induction vs arbitrary: m os)
  case Nil
  then show ?case by simp
next
  case (Cons v vs)
  obtain o1 m1 os1 where r: "distinct_call pick key v m = (o1, m1)"
      "state_run (distinct_call pick key) vs m1 = (os1, m')"
    using Cons.prems(2) by (auto split: prod.splits)
  note S = distinct_call_step [OF Cons.prems(1), of pick v, unfolded r(1) snd_conv]
  note IH = Cons.IH [OF S(1) r(2)]
  have mono: "represented xs w" if "represented ys w" "set ys \<subseteq> set xs" for xs ys w
    using that by (auto simp: represented_def list_ex_iff)
  have "set (stored_list key m) \<subseteq> set (stored_list key m') \<and>
      (\<forall>w \<in> set (v # vs). \<not> is_null w \<longrightarrow> represented (stored_list key m') w)"
    if short: "length (stored_list key m') < MAX_ACC_ITEMS"
  proof -
    have "length (stored_list key m1) < MAX_ACC_ITEMS" using IH short by linarith
    note S3 = S(3) [OF this]
    have "set (stored_list key m1) \<subseteq> set (stored_list key m')" using IH short by blast
    with S3 IH short mono [of "stored_list key m1" v] show ?thesis by auto
  qed
  moreover have "length (stored_list key m) \<le> length (stored_list key m')" using S(2) IH by linarith
  ultimately show ?case using IH by blast
qed

text \<open>\<open>acc_distinct_collect\<close> keeps a list without two equal values, of at most
  \<open>MAX_ACC_ITEMS\<close> elements; until it is full, every non-null value seen is in it.\<close>

lemma distinct_collect_correct:
  assumes "fmlookup m key = None" "state_run (distinct_call pick key) vs m = (os, m')"
  shows "distinct_values (stored_list key m') \<and>
     (length (stored_list key m') < MAX_ACC_ITEMS \<longrightarrow>
        (\<forall>v \<in> set vs. \<not> is_null v \<longrightarrow> represented (stored_list key m') v))"
proof -
  have "distinct_values (stored_list key m)"
    using assms(1) by (simp add: stored_list_def distinct_values_def)
  from distinct_run [OF this assms(2)] show ?thesis by blast
qed

lemma distinct_collect_correct_witness:
  "distinct_values (stored_list ''k'' (snd (state_run (distinct_call demo_pick ''k'')
     [of_i64 1, Null, of_f64 (f64_of_int 1), of_i64 2] fmempty)))"
  using distinct_collect_correct [of fmempty "''k''" demo_pick "[of_i64 1, Null, of_f64 (f64_of_int 1), of_i64 2]"]
  by (metis fmempty_lookup prod.collapse)

definition sum_call :: "key_picker \<Rightarrow> string \<Rightarrow> json \<Rightarrow> rule_map \<Rightarrow> json \<times> rule_map" where
  "sum_call pick key v m = acc_sum pick key [v] m"

lemma arith_add_Null [simp]: "arith_add Null v = Null"
  by (simp add: arith_add_def eval_arith_def)

text \<open>Once \<open>acc_sum\<close> has overflowed it is null for ever: the stored null absorbs every
  later value, although later values (or a float fallback, which the window sum has) could
  be summed.\<close>

lemma acc_sum_overflow_is_final:
  assumes "in_i64 a" "in_i64 b" "\<not> in_i64 (a + b)" "fmlookup m key = Some (of_i64 a)"
    and "state_run (sum_call pick key) (of_i64 b # vs) m = (os, m')"
  shows "os = replicate (length vs + 1) Null"
proof -
  have stuck: "ws = replicate (length us) Null"
    if "fmlookup k key = Some Null" "state_run (sum_call pick key) us k = (ws, k')" for us k ws k'
    using that
  proof (induction us arbitrary: k ws)
    case (Cons u us)
    have "fst (sum_call pick key u k) = Null \<and> fmlookup (snd (sum_call pick key u k)) key = Some Null"
      using Cons.prems(1) by (auto simp: sum_call_def acc_sum_def lookup_or_def Let_def)
    with Cons.IH Cons.prems(2) show ?case by (auto split: prod.splits)
  qed simp
  have "arith_add (of_i64 a) (of_i64 b) = Null"
    using assms(1-3) by (simp add: arith_add_def eval_arith_def as_i64_not_null checked_json_def checked_i64_def)
  then have "sum_call pick key (of_i64 b) m = (Null, insert_bounded pick key Null m)"
    using assms(4) by (simp add: sum_call_def acc_sum_def as_i64_not_null [OF as_i64_of_i64 [OF assms(2)]] Let_def)
  with assms(5) stuck [of "insert_bounded pick key Null m"] show ?thesis by (auto split: prod.splits)
qed

lemma acc_sum_overflow_is_final_witness:
  "fst (state_run (sum_call demo_pick ''k'') [of_i64 1, of_i64 (- 5)]
      (fmupd ''k'' (of_i64 i64_max) fmempty)) = [Null, Null]"
  using acc_sum_overflow_is_final [of i64_max 1 "fmupd ''k'' (of_i64 i64_max) fmempty" "''k''" demo_pick
      "[of_i64 (- 5)]"]
  by (simp add: i64_simps split: prod.split)

end
