(* ===== verification/WindowEval.thy ===== *)
theory WindowEval
  imports Select
begin

text \<open>
  Evaluation of a window trigger (\<open>crates/rekuiper-sql/src/eval/window.rs\<close> and the aggregate
  part of \<open>eval.rs\<close>): the rows of the window are filtered by \<open>WHERE\<close>, partitioned by the
  grouping expressions, and every group yields one row.

  \<open>eval_call\<close> (the library of scalar functions), and the two process-wide counters that the
  \<open>last_agg_hit\<close> functions use when a window has no rule state, are fields of \<open>wenv\<close>. Where a
  row is evaluated inside an aggregate, in the grouping key or in the sort key, an aborted
  evaluation is not followed up (\<open>row_ev\<close> reads it as null).
\<close>

record wenv =
  w_env :: env
  w_call :: "string \<Rightarrow> json list \<Rightarrow> json res"
  w_hits :: "string \<Rightarrow> row list \<Rightarrow> json"

fun ok_or_null :: "json res \<Rightarrow> json" where
  "ok_or_null (Ok v) = v"
| "ok_or_null r = Null"

definition row_ev :: "env \<Rightarrow> row_eval" where
  "row_ev E e row = ok_or_null (eval_val E e row)"

subsection \<open>Percentiles\<close>

definition to_f64 :: "(string \<Rightarrow> f64 option) \<Rightarrow> json \<Rightarrow> f64 option" where
  "to_f64 pf v =
     (case as_f64 v of
        Some x \<Rightarrow> Some x
      | None \<Rightarrow> (case v of Str s \<Rightarrow> pf s | _ \<Rightarrow> None))"

definition in_unit :: "f64 \<Rightarrow> bool" where
  "in_unit p \<longleftrightarrow> f64_le fzero p \<and> f64_le p (f64_of_int 1)"

definition agg_percentile_p :: "(string \<Rightarrow> f64 option) \<Rightarrow> row_eval \<Rightarrow> expr list \<Rightarrow> row list \<Rightarrow> f64 option" where
  "agg_percentile_p pf ev args rows =
     (if length args \<noteq> 2 \<or> hd args = Wildcard \<or> rows = [] then None
      else (case to_f64 pf (ev (args ! 1) (hd rows)) of
              None \<Rightarrow> None
            | Some p \<Rightarrow> if in_unit p then Some p else None))"

definition agg_sorted_numbers :: "row_eval \<Rightarrow> expr \<Rightarrow> row list \<Rightarrow> f64 list" where
  "agg_sorted_numbers ev a rows = sort_by f64_ord (List.map_filter as_f64 (agg_numeric_values ev a rows))"

definition agg_percentile :: "(string \<Rightarrow> f64 option) \<Rightarrow> row_eval \<Rightarrow> expr list \<Rightarrow> row list \<Rightarrow> json" where
  "agg_percentile pf ev args rows =
     (case agg_percentile_p pf ev args rows of
        None \<Rightarrow> Null
      | Some p \<Rightarrow>
          (let vals = agg_sorted_numbers ev (hd args) rows;
               n = length vals
           in if n = 0 then Null
              else if n = 1 then of_f64 (vals ! 0)
              else (let rank = f64_mul p (f64_of_int (int (n - 1)));
                        i = nat (f64_as_u64 (f64_floor rank))
                    in if n \<le> i + 1 then of_f64 (vals ! (n - 1))
                       else (let frac = f64_sub rank (f64_of_int (int i))
                             in of_f64 (f64_add (vals ! i)
                                  (f64_mul frac (f64_sub (vals ! (i + 1)) (vals ! i))))))))"

definition agg_percentile_disc :: "(string \<Rightarrow> f64 option) \<Rightarrow> row_eval \<Rightarrow> expr list \<Rightarrow> row list \<Rightarrow> json" where
  "agg_percentile_disc pf ev args rows =
     (case agg_percentile_p pf ev args rows of
        None \<Rightarrow> Null
      | Some p \<Rightarrow>
          (let raw = sort_by value_ord (agg_numeric_values ev (hd args) rows);
               n = length raw
           in if raw = [] then Null
              else if f64_eq p fzero then raw ! 0
              else raw ! min (nat (f64_as_u64 (f64_ceil (f64_mul p (f64_of_int (int n))))) - 1) (n - 1)))"

subsection \<open>Aggregate calls\<close>

definition window_end_of :: "env \<Rightarrow> row list \<Rightarrow> int" where
  "window_end_of E rows =
     (case Option.bind (case rows of [] \<Rightarrow> None | r # _ \<Rightarrow> first_present [''__window_end__'', ''window_end''] r)
             as_i64 of
        Some t \<Rightarrow> t
      | None \<Rightarrow> now_ms E)"

text \<open>\<open>cur + 1\<close> on an \<open>i64\<close> wraps in a release build.\<close>

definition agg_last_agg_hit_count :: "wenv \<Rightarrow> bool \<Rightarrow> row list \<Rightarrow> rule_map \<Rightarrow> json \<times> rule_map" where
  "agg_last_agg_hit_count W stateful rows m =
     (if stateful
      then (let cur = i64_or 0 (fmlookup m ''$$last_agg_hit_count'')
            in (of_i64 cur, insert_bounded (pick_key (w_env W)) ''$$last_agg_hit_count''
                              (of_i64 (wrap64 (cur + 1))) m))
      else (w_hits W ''last_agg_hit_count'' rows, m))"

definition agg_last_agg_hit_time :: "wenv \<Rightarrow> bool \<Rightarrow> row list \<Rightarrow> rule_map \<Rightarrow> json \<times> rule_map" where
  "agg_last_agg_hit_time W stateful rows m =
     (if stateful
      then (of_i64 (i64_or 0 (fmlookup m ''$$last_agg_hit_time'')),
            insert_bounded (pick_key (w_env W)) ''$$last_agg_hit_time''
              (of_i64 (window_end_of (w_env W) rows)) m)
      else (w_hits W ''last_agg_hit_time'' rows, m))"

text \<open>The aggregates that keep no state, by name.\<close>

definition pure_aggregate :: "env \<Rightarrow> string \<Rightarrow> expr list \<Rightarrow> row list \<Rightarrow> json" where
  "pure_aggregate E n args rows =
     (let ev = row_ev E; pf = parse_f64 E
      in if n = ''count'' then agg_count ev args rows
         else if n = ''sum'' then agg_sum ev args rows
         else if n = ''avg'' then agg_avg ev args rows
         else if n = ''min'' then agg_min ev args rows
         else if n = ''max'' then agg_max ev args rows
         else if n = ''collect'' then agg_collect ev args rows
         else if n = ''lead'' then agg_lead pf ev args rows
         else if n = ''latest'' then agg_latest ev args rows
         else if n = ''median'' then agg_median ev args rows
         else if n = ''stddev'' then agg_stddev ev args rows
         else if n = ''stddevs'' then agg_stddevs ev args rows
         else if n = ''var'' then agg_var ev args rows
         else if n = ''vars'' then agg_vars ev args rows
         else if n = ''percentile'' \<or> n = ''percentile_cont'' then agg_percentile pf ev args rows
         else if n = ''percentile_disc'' then agg_percentile_disc pf ev args rows
         else if n = ''last_value'' then agg_last_value ev args rows
         else if n = ''merge_agg'' then agg_merge_agg ev args rows
         else if n = ''row_number'' then agg_row_number args
         else Null)"

definition eval_aggregate_call_stateful ::
  "wenv \<Rightarrow> bool \<Rightarrow> string \<Rightarrow> expr list \<Rightarrow> row list \<Rightarrow> rule_map \<Rightarrow> json \<times> rule_map" where
  "eval_aggregate_call_stateful W stateful name args rows m =
     (let n = to_ascii_lowercase name
      in if n = ''last_agg_hit_count'' then agg_last_agg_hit_count W stateful rows m
         else if n = ''last_agg_hit_time'' then agg_last_agg_hit_time W stateful rows m
         else (pure_aggregate (w_env W) n args rows, m))"

subsection \<open>Expressions over a group\<close>

definition first_row_val :: "env \<Rightarrow> expr \<Rightarrow> row list \<Rightarrow> json ev" where
  "first_row_val E e rows = (case rows of [] \<Rightarrow> ev_ret Null | r # _ \<Rightarrow> ev_res (eval_val E e r))"

definition group_call ::
  "wenv \<Rightarrow> bool \<Rightarrow> row list \<Rightarrow> string \<Rightarrow> string \<Rightarrow> expr list \<Rightarrow> json ev list \<Rightarrow> json ev" where
  "group_call W stateful rows pk name args runs =
     (let E = w_env W;
          n = to_ascii_lowercase name;
          call_id = to_ekuiper_string (render E) (Call name args) []
      in if is_aggregate_call name then ev_state (eval_aggregate_call_stateful W stateful name args rows)
         else (case (case rows of
                       [] \<Rightarrow> None
                     | r # _ \<Rightarrow> eval_context_call E n
                                  (case args of [] \<Rightarrow> None | a # _ \<Rightarrow> Some (a, eval_val E a r)) r) of
                 Some res \<Rightarrow> ev_res res
               | None \<Rightarrow>
                   ev_bind (ev_all runs) (\<lambda>vals.
                     if stateful \<and> (n = ''had_changed'' \<or> n = ''changed_col'') then
                       ev_state (eval_changed (pick_key E) n vals call_id pk)
                     else if stateful \<and> n = ''changed_cols'' \<and> 2 \<le> length args then
                       ev_state (changed_cols_call call_id pk args vals)
                     else ev_res (w_call W name vals))))"

primrec eval_agg_expr :: "wenv \<Rightarrow> bool \<Rightarrow> row list \<Rightarrow> row \<Rightarrow> string \<Rightarrow> expr \<Rightarrow> json ev" where
  "eval_agg_expr W st rows out pk Wildcard = ev_ret Null"
| "eval_agg_expr W st rows out pk (WildcardModified excl repl) = ev_ret Null"
| "eval_agg_expr W st rows out pk (Literal v) = ev_ret v"
| "eval_agg_expr W st rows out pk (Identifier name) =
     ev_ret (case fmlookup out name of
               Some v \<Rightarrow> v
             | None \<Rightarrow> (case rows of [] \<Rightarrow> Null | r # _ \<Rightarrow> lookup_or Null name r))"
| "eval_agg_expr W st rows out pk (FieldAccess parent leaf) =
     (case fmlookup out leaf of
        Some v \<Rightarrow> ev_ret v
      | None \<Rightarrow>
          (case fmlookup out (to_ekuiper_string (render (w_env W)) (FieldAccess parent leaf) []) of
             Some v \<Rightarrow> ev_ret v
           | None \<Rightarrow> first_row_val (w_env W) (FieldAccess parent leaf) rows))"
| "eval_agg_expr W st rows out pk (Index b i) = first_row_val (w_env W) (Index b i) rows"
| "eval_agg_expr W st rows out pk (Slice b lo hi) = first_row_val (w_env W) (Slice b lo hi) rows"
| "eval_agg_expr W st rows out pk (Call name args) =
     group_call W st rows pk name args (map (eval_agg_expr W st rows out pk) args)"
| "eval_agg_expr W st rows out pk (Over call part cond) = eval_agg_expr W st rows out pk call"
| "eval_agg_expr W st rows out pk (BinaryOp l bop r) =
     ev_bind (eval_agg_expr W st rows out pk l) (\<lambda>lv.
     ev_bind (eval_agg_expr W st rows out pk r) (\<lambda>rv. ev_res (eval_binary_op lv bop rv)))"
| "eval_agg_expr W st rows out pk (UnaryOp uop e) =
     ev_bind (eval_agg_expr W st rows out pk e) (\<lambda>v. ev_ret (eval_unary_op uop v))"
| "eval_agg_expr W st rows out pk (Between e lo hi negated) =
     ev_bind (eval_agg_expr W st rows out pk e) (\<lambda>v.
     ev_bind (eval_agg_expr W st rows out pk lo) (\<lambda>l.
     ev_bind (eval_agg_expr W st rows out pk hi) (\<lambda>h. ev_res (eval_between v l h negated))))"
| "eval_agg_expr W st rows out pk (InList e items negated) =
     ev_bind (eval_agg_expr W st rows out pk e) (\<lambda>v.
     ev_bind (in_loop v (map (eval_agg_expr W st rows out pk) items)) (\<lambda>matched.
       ev_ret (Bool (if negated then \<not> matched else matched))))"
| "eval_agg_expr W st rows out pk (IsNull e negated) =
     ev_bind (eval_agg_expr W st rows out pk e) (\<lambda>v.
       ev_ret (Bool (if negated then \<not> is_null v else is_null v)))"
| "eval_agg_expr W st rows out pk (Case opnd whens els) =
     eval_case_fallible
       (map_option (eval_agg_expr W st rows out pk) opnd)
       (map (map_prod (eval_agg_expr W st rows out pk) (eval_agg_expr W st rows out pk)) whens)
       (map_option (eval_agg_expr W st rows out pk) els)"

subsection \<open>One output row per group\<close>

text \<open>\<open>entry(k).or_insert(v)\<close>: a column that is already there stays.\<close>

definition or_insert :: "string \<Rightarrow> json \<Rightarrow> row \<Rightarrow> row" where
  "or_insert k v out = (case fmlookup out k of Some _ \<Rightarrow> out | None \<Rightarrow> fmupd k v out)"

definition first_or_empty :: "row list \<Rightarrow> row" where
  "first_or_empty rows = (case rows of [] \<Rightarrow> fmempty | r # _ \<Rightarrow> r)"

fun agg_replace_loop ::
  "wenv \<Rightarrow> bool \<Rightarrow> row list \<Rightarrow> string \<Rightarrow> (expr \<times> string) list \<Rightarrow> row \<Rightarrow> row ev" where
  "agg_replace_loop W st rows pk [] out = ev_ret out"
| "agg_replace_loop W st rows pk ((e, col) # rs) out =
     ev_bind (eval_agg_expr W st rows out pk e) (\<lambda>v. agg_replace_loop W st rows pk rs (fmupd col v out))"

definition agg_field ::
  "wenv \<Rightarrow> bool \<Rightarrow> row list \<Rightarrow> string \<Rightarrow> string list \<Rightarrow> nat \<Rightarrow> expr \<Rightarrow> row \<Rightarrow> row ev" where
  "agg_field W st rows pk names idx f out =
     (let E = w_env W; r0 = first_or_empty rows; key = names ! idx
      in case f of
           Wildcard \<Rightarrow> ev_ret (fmfilter visible_key r0 ++\<^sub>f out)
         | WildcardModified excl repl \<Rightarrow>
             agg_replace_loop W st rows pk repl
               (fmfilter (\<lambda>k. visible_key k \<and> \<not> wildcard_except excl repl k) r0 ++\<^sub>f out)
         | Identifier name \<Rightarrow> ev_ret (or_insert key (lookup_or Null name r0) out)
         | FieldAccess parent leaf \<Rightarrow>
             (if leaf = ''*'' then
                (if rows = [] then ev_ret out
                 else ev_bind (ev_res (eval_val E parent r0))
                        (\<lambda>pv. ev_ret (star_fields parent pv r0 ++\<^sub>f out)))
              else if fmlookup out key \<noteq> None then ev_ret out
              else ev_bind (first_row_val E (FieldAccess parent leaf) rows) (\<lambda>v. ev_ret (fmupd key v out)))
         | Call name args \<Rightarrow>
             (if is_aggregate_call name then
                ev_bind (ev_state (eval_aggregate_call_stateful W st name args rows))
                  (\<lambda>v. ev_ret (fmupd key v out))
              else ev_bind (eval_agg_expr W st rows out pk f) (\<lambda>v. ev_ret (or_insert key v out)))
         | _ \<Rightarrow> ev_bind (eval_agg_expr W st rows out pk f) (\<lambda>v. ev_ret (or_insert key v out)))"

fun agg_fields ::
  "wenv \<Rightarrow> bool \<Rightarrow> row list \<Rightarrow> string \<Rightarrow> string list \<Rightarrow> nat \<Rightarrow> expr list \<Rightarrow> row \<Rightarrow> row ev" where
  "agg_fields W st rows pk names idx [] out = ev_ret out"
| "agg_fields W st rows pk names idx (f # fs) out =
     ev_bind (agg_field W st rows pk names idx f out)
       (\<lambda>out'. agg_fields W st rows pk names (idx + 1) fs out')"

definition agg_having :: "wenv \<Rightarrow> bool \<Rightarrow> select_stmt \<Rightarrow> row list \<Rightarrow> string \<Rightarrow> row \<Rightarrow> row option ev" where
  "agg_having W st stmt rows pk out =
     (case having stmt of
        None \<Rightarrow> ev_ret (Some out)
      | Some h \<Rightarrow> ev_bind (eval_agg_expr W st rows out pk h)
                   (\<lambda>v. ev_ret (if v = Bool True then Some out else None)))"

definition eval_branch :: "wenv \<Rightarrow> bool \<Rightarrow> select_stmt \<Rightarrow> row list \<Rightarrow> string \<Rightarrow> row option ev" where
  "eval_branch W st stmt rows pk =
     ev_bind (agg_fields W st rows pk (select_field_names stmt) 0 (sel_fields stmt) fmempty)
       (agg_having W st stmt rows pk)"

function eval_aggregate_stateful ::
  "wenv \<Rightarrow> bool \<Rightarrow> select_stmt \<Rightarrow> row list \<Rightarrow> string \<Rightarrow> row option ev" where
  "eval_aggregate_stateful W st stmt rows pk =
     (case set_operation stmt of
        Some (_, rhs) \<Rightarrow>
          ev_bind (eval_branch W st (without_set_op stmt) rows pk) (\<lambda>l.
          ev_bind (eval_aggregate_stateful W st rhs rows pk) (\<lambda>r. ev_ret (merge_union_rows l r)))
      | None \<Rightarrow> eval_branch W st stmt rows pk)"
  by pat_completeness auto
termination
proof (relation "measure (\<lambda>(W, st, stmt, rows, pk). size stmt)")
  fix W st stmt rows pk x2 x rhs xa
  assume "set_operation stmt = Some x2" "(x, rhs) = x2"
  then show "((W, st, rhs, rows, pk), W, st, stmt, rows, pk)
      \<in> measure (\<lambda>(W, st, stmt, rows, pk). size stmt)"
    by (cases stmt) auto
qed simp

declare eval_aggregate_stateful.simps [simp del]

subsection \<open>Grouping\<close>

primrec contains_aggregate :: "expr \<Rightarrow> bool" where
  "contains_aggregate Wildcard = False"
| "contains_aggregate (WildcardModified excl repl) = False"
| "contains_aggregate (Identifier name) = False"
| "contains_aggregate (Literal v) = False"
| "contains_aggregate (Call name args) =
     (is_aggregate_call name \<or> list_ex id (map contains_aggregate args))"
| "contains_aggregate (BinaryOp l bop r) = (contains_aggregate l \<or> contains_aggregate r)"
| "contains_aggregate (UnaryOp uop e) = contains_aggregate e"
| "contains_aggregate (Between e lo hi negated) =
     (contains_aggregate e \<or> contains_aggregate lo \<or> contains_aggregate hi)"
| "contains_aggregate (InList e items negated) =
     (contains_aggregate e \<or> list_ex id (map contains_aggregate items))"
| "contains_aggregate (IsNull e negated) = contains_aggregate e"
| "contains_aggregate (FieldAccess parent fld) = contains_aggregate parent"
| "contains_aggregate (Index b i) = (contains_aggregate b \<or> contains_aggregate i)"
| "contains_aggregate (Slice b lo hi) =
     (contains_aggregate b \<or> map_option contains_aggregate lo = Some True
        \<or> map_option contains_aggregate hi = Some True)"
| "contains_aggregate (Case opnd whens els) =
     (map_option contains_aggregate opnd = Some True
        \<or> list_ex (\<lambda>(w, t). w \<or> t) (map (map_prod contains_aggregate contains_aggregate) whens)
        \<or> map_option contains_aggregate els = Some True)"
| "contains_aggregate (Over call part cond) =
     (contains_aggregate call \<or> map_option contains_aggregate part = Some True
        \<or> map_option contains_aggregate cond = Some True)"

definition is_grouped_window :: "select_stmt \<Rightarrow> bool" where
  "is_grouped_window stmt \<longleftrightarrow>
     group_by stmt \<noteq> [] \<or> list_ex contains_aggregate (sel_fields stmt) \<or> having stmt \<noteq> None"

definition passes_where :: "env \<Rightarrow> select_stmt \<Rightarrow> row \<Rightarrow> bool" where
  "passes_where E stmt row \<longleftrightarrow>
     (case where_clause stmt of None \<Rightarrow> True | Some c \<Rightarrow> eval_bool E c row = Ok True)"

text \<open>The separator \<open>0x1f\<close> that ends a component of the grouping key.\<close>

definition UNIT_SEP :: char where "UNIT_SEP = char_of (31 :: nat)"

definition write_group_key :: "(json \<Rightarrow> string) \<Rightarrow> json \<Rightarrow> string" where
  "write_group_key rnd v =
     (case v of
        Str s \<Rightarrow> ''s'' @ digits (length s) @ '':'' @ s
      | _ \<Rightarrow> ''v'' @ rnd v) @ [UNIT_SEP]"

definition group_value :: "env \<Rightarrow> expr \<Rightarrow> row \<Rightarrow> json" where
  "group_value E e row =
     (case e of Identifier name \<Rightarrow> lookup_or Null name row | _ \<Rightarrow> row_ev E e row)"

definition group_key :: "env \<Rightarrow> expr list \<Rightarrow> row \<Rightarrow> string" where
  "group_key E gs row = concat (map (\<lambda>g. write_group_key (render E) (group_value E g row)) gs)"

text \<open>The index map and the vector of groups: a row joins the group of its key or opens one.\<close>

fun add_to_group :: "string \<Rightarrow> 'a \<Rightarrow> (string \<times> 'a list) list \<Rightarrow> (string \<times> 'a list) list" where
  "add_to_group k r [] = [(k, [r])]"
| "add_to_group k r ((k', rs) # gs) =
     (if k' = k then (k', rs @ [r]) # gs else (k', rs) # add_to_group k r gs)"

definition partition_keyed_groups :: "env \<Rightarrow> expr list \<Rightarrow> row list \<Rightarrow> (string \<times> row list) list" where
  "partition_keyed_groups E gs rows = foldl (\<lambda>acc r. add_to_group (group_key E gs r) r acc) [] rows"

subsection \<open>Order and limit\<close>

definition order_value :: "env \<Rightarrow> expr \<Rightarrow> row \<Rightarrow> nat \<Rightarrow> json" where
  "order_value E e row idx =
     (let v = row_ev E e row
      in if is_null v \<and> is_call e
         then (case fmlookup row (column_name e idx) of Some f \<Rightarrow> f | None \<Rightarrow> v) else v)"

fun order_cmp :: "env \<Rightarrow> nat \<Rightarrow> order_by_item list \<Rightarrow> row \<Rightarrow> row \<Rightarrow> ordering" where
  "order_cmp E idx [] a b = OEqual"
| "order_cmp E idx (it # its) a b =
     (let c = value_ord (order_value E (ob_expr it) a idx) (order_value E (ob_expr it) b idx);
          d = (case ob_order it of Asc \<Rightarrow> c | Desc \<Rightarrow> reverse_ord c)
      in if d \<noteq> OEqual then d else order_cmp E (idx + 1) its a b)"

definition apply_order_limit :: "env \<Rightarrow> select_stmt \<Rightarrow> row list \<Rightarrow> row list" where
  "apply_order_limit E stmt rows =
     (let sorted = (if order_by stmt \<noteq> [] \<and> 1 < length rows
                    then sort_by (order_cmp E 0 (order_by stmt)) rows else rows)
      in case limit stmt of None \<Rightarrow> sorted | Some l \<Rightarrow> take l sorted)"

subsection \<open>The trigger\<close>

text \<open>\<open>eval_select\<close>: filter and project one record on a state of its own.\<close>

function eval_select :: "env \<Rightarrow> select_stmt \<Rightarrow> row \<Rightarrow> row option res" where
  "eval_select E stmt row =
     (let branch = (\<lambda>s. res_bind (case where_clause s of None \<Rightarrow> Ok True | Some c \<Rightarrow> eval_bool E c row)
            (\<lambda>pass. if pass
               then unwrap_or None (fst (eval_select_with_names E s (select_field_names s) row fmempty fmempty))
               else Ok None))
      in case set_operation stmt of
           Some (_, rhs) \<Rightarrow> res_bind (branch (without_set_op stmt)) (\<lambda>l.
                             res_map (merge_union_rows l) (eval_select E rhs row))
         | None \<Rightarrow> branch stmt)"
  by pat_completeness auto
termination
proof (relation "measure (\<lambda>(E, stmt, row). size stmt)")
  fix E stmt row x x2 xa rhs
  assume "set_operation stmt = Some x2" "(xa, rhs) = x2"
  then show "((E, rhs, row), E, stmt, row) \<in> measure (\<lambda>(E, stmt, row). size stmt)"
    by (cases stmt) auto
qed simp

declare eval_select.simps [simp del]

definition without_where :: "select_stmt \<Rightarrow> select_stmt" where
  "without_where stmt =
     SelectStmt (sel_fields stmt) (field_aliases stmt) (from_src stmt) (from_alias stmt) (joins stmt)
       None (group_by stmt) (window stmt) (window_filter stmt)
       (window_trigger_condition stmt) (window_partition_by stmt) (having stmt) (order_by stmt)
       (limit stmt) (set_operation stmt)"

definition project_row :: "env \<Rightarrow> bool \<Rightarrow> select_stmt \<Rightarrow> row \<Rightarrow> row option ev" where
  "project_row E st stmt row =
     (if st then ev_unwrap_or None (eval_select_with_names E stmt (select_field_names stmt) row fmempty)
      else ev_res (eval_select E stmt row))"

definition somes :: "'a option list \<Rightarrow> 'a list" where
  "somes xs = List.map_filter id xs"

definition eval_window_filtered :: "wenv \<Rightarrow> bool \<Rightarrow> select_stmt \<Rightarrow> row list \<Rightarrow> row list ev" where
  "eval_window_filtered W st stmt rows =
     (if rows = [] then ev_ret []
      else ev_bind
        (if \<not> is_grouped_window stmt then
           ev_all (map (project_row (w_env W) st (without_where stmt)) rows)
         else if group_by stmt = [] then
           ev_all [eval_aggregate_stateful W st stmt rows []]
         else ev_all (map (\<lambda>(k, g). eval_aggregate_stateful W st stmt g k)
                (partition_keyed_groups (w_env W) (group_by stmt) rows)))
        (\<lambda>outs. ev_ret (apply_order_limit (w_env W) stmt (somes outs))))"

definition eval_window :: "wenv \<Rightarrow> bool \<Rightarrow> select_stmt \<Rightarrow> row list \<Rightarrow> row list ev" where
  "eval_window W st stmt rows =
     eval_window_filtered W st stmt (filter (passes_where (w_env W) stmt) rows)"

end
