(* ===== verification/WindowAcc.thy ===== *)
theory WindowAcc
  imports WindowEval
begin

text \<open>
  Row-free window state (\<open>crates/rekuiper-sql/src/eval/window.rs\<close>): one-row-at-a-time
  accumulators, the quantile sketch, the incremental window of tumbling triggers and the
  invertible accumulators of sliding and hopping windows.

  The index map from keys to positions and the vector of groups are one association list in
  first-seen order. Row counts stay below \<open>2^63\<close> and are unbounded integers here. The natural
  logarithm and the exponential of the platform are parameters.
\<close>

subsection \<open>The quantile sketch\<close>

record libm =
  f64_ln :: "f64 \<Rightarrow> f64"
  f64_exp :: "f64 \<Rightarrow> f64"

record sketch =
  sk_counts :: "nat list"
  sk_offset :: int
  sk_zero :: nat
  sk_total :: nat
  sk_min :: f64
  sk_max :: f64

definition LN_GAMMA :: f64 where "LN_GAMMA = f64_of_ratio False 1980262729617973 (10 ^ 17)"

definition MIN_TRACKABLE :: f64 where "MIN_TRACKABLE = f64_of_ratio False 1 (10 ^ 9)"

definition sketch_new :: sketch where
  "sketch_new = \<lparr>sk_counts = replicate 512 0, sk_offset = - 128, sk_zero = 0, sk_total = 0,
     sk_min = Infty False, sk_max = Infty True\<rparr>"

definition wrap32 :: "int \<Rightarrow> int" where
  "wrap32 i = (i + 2 ^ 31) mod 2 ^ 32 - 2 ^ 31"

text \<open>The saturating cast \<open>as i32\<close>.\<close>

definition f64_as_i32 :: "f64 \<Rightarrow> int" where
  "f64_as_i32 x = max (- (2 ^ 31)) (min (2 ^ 31 - 1) (f64_as_i64 x))"

definition sketch_slot :: "libm \<Rightarrow> f64 \<Rightarrow> sketch \<Rightarrow> nat" where
  "sketch_slot L v s =
     (let idx = f64_as_i32 (f64_ceil (f64_div (f64_ln L v) LN_GAMMA))
      in nat (clamp (wrap32 (idx - sk_offset s)) 0 (int (length (sk_counts s)) - 1)))"

definition sketch_insert :: "libm \<Rightarrow> f64 \<Rightarrow> sketch \<Rightarrow> sketch" where
  "sketch_insert L v s =
     (if \<not> is_finite v then s
      else (let s1 = s\<lparr>sk_total := sk_total s + 1,
                      sk_min := (if f64_lt v (sk_min s) then v else sk_min s),
                      sk_max := (if f64_lt (sk_max s) v then v else sk_max s)\<rparr>
            in if f64_le v MIN_TRACKABLE then s1\<lparr>sk_zero := sk_zero s1 + 1\<rparr>
               else (let i = sketch_slot L v s1
                     in s1\<lparr>sk_counts := (sk_counts s1)[i := sk_counts s1 ! i + 1]\<rparr>)))"

text \<open>\<open>f64::max\<close> and \<open>f64::clamp\<close> on values that are not NaN.\<close>

definition f64_max :: "f64 \<Rightarrow> f64 \<Rightarrow> f64" where
  "f64_max x y = (if is_nan x then y else if is_nan y then x else if f64_lt x y then y else x)"

definition f64_clamp :: "f64 \<Rightarrow> f64 \<Rightarrow> f64 \<Rightarrow> f64" where
  "f64_clamp x lo hi = (let y = (if f64_lt x lo then lo else x) in if f64_lt hi y then hi else y)"

fun bucket_scan :: "nat \<Rightarrow> nat \<Rightarrow> nat \<Rightarrow> nat list \<Rightarrow> nat option" where
  "bucket_scan target cum i [] = None"
| "bucket_scan target cum i (c # cs) =
     (if target \<le> cum + c \<and> 0 < c then Some i else bucket_scan target (cum + c) (i + 1) cs)"

definition f64_half :: f64 where "f64_half = f64_of_ratio False 1 2"

definition sketch_quantile :: "libm \<Rightarrow> f64 \<Rightarrow> sketch \<Rightarrow> f64 option" where
  "sketch_quantile L q0 s =
     (if sk_total s = 0 then None
      else if sk_total s = 1 \<or> f64_le (f64_abs (f64_sub (sk_max s) (sk_min s))) f64_EPSILON
      then Some (sk_min s)
      else (let q = f64_clamp q0 fzero (f64_of_int 1)
            in if f64_eq q fzero then Some (sk_min s)
               else if f64_eq q (f64_of_int 1) then Some (sk_max s)
               else (let target = nat (f64_as_u64 (f64_ceil (f64_mul q (f64_of_int (int (sk_total s))))))
                     in if target \<le> sk_zero s then Some (f64_max (sk_min s) fzero)
                        else (case bucket_scan target (sk_zero s) 0 (sk_counts s) of
                                Some i \<Rightarrow>
                                  Some (f64_clamp (f64_exp L (f64_mul
                                     (f64_sub (f64_of_int (int i + sk_offset s)) f64_half) LN_GAMMA))
                                     (sk_min s) (sk_max s))
                              | None \<Rightarrow> Some (sk_max s)))))"

subsection \<open>Accumulators\<close>

datatype agg_kind =
    KCountAll | KCount | KSum | KAvg | KMin | KMax | KStddev | KStddevs | KVar | KVars
  | KMedian | KPercentile f64

datatype acc =
    ACount int
  | ASum int f64 bool bool
  | AAvg f64 int
  | AExtreme "json option"
  | AWelford agg_kind welford
  | ASketch f64 sketch

fun acc_new :: "agg_kind \<Rightarrow> acc" where
  "acc_new KCountAll = ACount 0"
| "acc_new KCount = ACount 0"
| "acc_new KSum = ASum 0 fzero True False"
| "acc_new KAvg = AAvg fzero 0"
| "acc_new KMin = AExtreme None"
| "acc_new KMax = AExtreme None"
| "acc_new KMedian = ASketch f64_half sketch_new"
| "acc_new (KPercentile p) = ASketch p sketch_new"
| "acc_new k = AWelford k welford_init"

text \<open>\<open>value.filter(|v| v.is_number())\<close>.\<close>

definition number_of :: "json option \<Rightarrow> json option" where
  "number_of v = (case v of Some x \<Rightarrow> if is_number x then Some x else None | None \<Rightarrow> None)"

definition num_or_zero :: "json \<Rightarrow> f64" where
  "num_or_zero v = (case as_f64 v of Some x \<Rightarrow> x | None \<Rightarrow> fzero)"

fun acc_update :: "libm \<Rightarrow> agg_kind \<Rightarrow> json option \<Rightarrow> acc \<Rightarrow> acc" where
  "acc_update L k v (ACount n) =
     (if k = KCountAll \<or> (case v of Some x \<Rightarrow> \<not> is_null x | None \<Rightarrow> False)
      then ACount (n + 1) else ACount n)"
| "acc_update L k v (ASum i f int_ok any) =
     (case number_of v of
        None \<Rightarrow> ASum i f int_ok any
      | Some x \<Rightarrow>
          (let f' = f64_add f (num_or_zero x)
           in if int_ok
              then (case Option.bind (as_i64 x) (\<lambda>j. checked_i64 (i + j)) of
                      Some n \<Rightarrow> ASum n f' True True
                    | None \<Rightarrow> ASum i f' False True)
              else ASum i f' False True))"
| "acc_update L k v (AAvg s n) =
     (case number_of v of None \<Rightarrow> AAvg s n | Some x \<Rightarrow> AAvg (f64_add s (num_or_zero x)) (n + 1))"
| "acc_update L k v (AExtreme best) =
     (case number_of v of
        None \<Rightarrow> AExtreme best
      | Some x \<Rightarrow>
          (case best of
             None \<Rightarrow> AExtreme (Some x)
           | Some b \<Rightarrow>
               if compare_values x b = Some (if k = KMin then OLess else OGreater)
               then AExtreme (Some x) else AExtreme best))"
| "acc_update L k v (AWelford k' w) =
     (case Option.bind v as_f64 of None \<Rightarrow> AWelford k' w | Some x \<Rightarrow> AWelford k' (welford_add x w))"
| "acc_update L k v (ASketch q s) =
     (case Option.bind v as_f64 of None \<Rightarrow> ASketch q s | Some x \<Rightarrow> ASketch q (sketch_insert L x s))"

definition welford_finish :: "agg_kind \<Rightarrow> welford \<Rightarrow> json" where
  "welford_finish k w =
     (let n = wf_count w;
          pop = f64_div (wf_m2 w) (f64_of_int n);
          smp = f64_div (wf_m2 w) (f64_of_int (n - 1))
      in if k = KStddev then (if n = 0 then Null else of_f64 (f64_sqrt pop))
         else if k = KStddevs then (if n < 2 then Null else of_f64 (f64_sqrt smp))
         else if k = KVar then (if n = 0 then Null else of_f64 pop)
         else if k = KVars then (if n < 2 then Null else of_f64 smp)
         else Null)"

fun acc_finish :: "libm \<Rightarrow> acc \<Rightarrow> json" where
  "acc_finish L (ACount n) = of_i64 n"
| "acc_finish L (ASum i f int_ok any) =
     (if \<not> any then Null else if int_ok then of_i64 i else of_f64 f)"
| "acc_finish L (AAvg s n) = (if n = 0 then Null else of_f64 (f64_div s (f64_of_int n)))"
| "acc_finish L (AExtreme best) = (case best of Some v \<Rightarrow> v | None \<Rightarrow> Null)"
| "acc_finish L (AWelford k w) = welford_finish k w"
| "acc_finish L (ASketch q s) = (case sketch_quantile L q s of Some x \<Rightarrow> of_f64 x | None \<Rightarrow> Null)"

subsection \<open>The incremental window\<close>

datatype plan = PFirst string expr | PAgg string agg_kind "expr option"

record group =
  g_values :: "json list"
  g_firsts :: "json list"
  g_accs :: "acc list"

record inc_window =
  iw_where :: "expr option"
  iw_group_by :: "expr list"
  iw_names :: "string list"
  iw_plans :: "plan list"
  iw_stmt :: select_stmt
  iw_groups :: "(string \<times> group) list"

definition call_kind :: "string \<Rightarrow> expr list \<Rightarrow> agg_kind option" where
  "call_kind n args =
     (let wild = (hd args = Wildcard)
      in if length args = 1 then
           (if n = ''count'' then Some (if wild then KCountAll else KCount)
            else if wild then None
            else map_of [(''sum'', KSum), (''avg'', KAvg), (''min'', KMin), (''max'', KMax),
                   (''stddev'', KStddev), (''stddevs'', KStddevs), (''var'', KVar), (''vars'', KVars),
                   (''median'', KMedian)] n)
         else if length args = 2 \<and> \<not> wild \<and> n \<in> {''percentile'', ''percentile_cont'', ''percentile_disc''} then
           (case args ! 1 of
              Literal (Number num) \<Rightarrow>
                if in_unit (num_as_f64 num) then Some (KPercentile (num_as_f64 num)) else None
            | _ \<Rightarrow> None)
         else None)"

definition plan_of :: "string \<Rightarrow> expr \<Rightarrow> plan option" where
  "plan_of name f =
     (case f of
        Identifier _ \<Rightarrow> Some (PFirst name f)
      | FieldAccess parent _ \<Rightarrow> if contains_aggregate parent then None else Some (PFirst name f)
      | Call cname args \<Rightarrow>
          (if args = [] \<or> contains_aggregate (hd args) then None
           else map_option (\<lambda>k. PAgg name k (if hd args = Wildcard then None else Some (hd args)))
                  (call_kind (to_ascii_lowercase cname) args))
      | _ \<Rightarrow> None)"

definition group_name :: "nat \<Rightarrow> expr \<Rightarrow> string" where
  "group_name idx g = (case g of Identifier n \<Rightarrow> n | FieldAccess _ leaf \<Rightarrow> leaf | _ \<Rightarrow> column_name g idx)"

fun all_some :: "'a option list \<Rightarrow> 'a list option" where
  "all_some [] = Some []"
| "all_some (x # xs) =
     (case x of None \<Rightarrow> None | Some y \<Rightarrow> map_option (\<lambda>ys. y # ys) (all_some xs))"

definition inc_try_new :: "select_stmt \<Rightarrow> inc_window option" where
  "inc_try_new stmt =
     (if set_operation stmt \<noteq> None \<or> joins stmt \<noteq> [] \<or> having stmt \<noteq> None
         \<or> \<not> is_grouped_window stmt \<or> list_ex contains_aggregate (group_by stmt) then None
      else map_option (\<lambda>plans. \<lparr>iw_where = where_clause stmt, iw_group_by = group_by stmt,
             iw_names = map (\<lambda>(i, g). group_name i g) (enumerate 0 (group_by stmt)),
             iw_plans = plans, iw_stmt = stmt, iw_groups = []\<rparr>)
           (all_some (map2 plan_of (select_field_names stmt) (sel_fields stmt))))"

fun plan_first :: "env \<Rightarrow> row \<Rightarrow> plan \<Rightarrow> json" where
  "plan_first E row (PFirst n e) = group_value E e row"
| "plan_first E row (PAgg n k a) = Null"

fun plan_acc :: "plan \<Rightarrow> acc" where
  "plan_acc (PAgg n k a) = acc_new k"
| "plan_acc (PFirst n e) = ACount 0"

fun plan_update :: "libm \<Rightarrow> env \<Rightarrow> row \<Rightarrow> plan \<Rightarrow> acc \<Rightarrow> acc" where
  "plan_update L E row (PFirst n e) a = a"
| "plan_update L E row (PAgg n k arg) a =
     acc_update L k (map_option (\<lambda>e. group_value E e row) arg) a"

definition open_group :: "env \<Rightarrow> expr list \<Rightarrow> plan list \<Rightarrow> row \<Rightarrow> group" where
  "open_group E gs plans row =
     \<lparr>g_values = map (\<lambda>g. group_value E g row) gs, g_firsts = map (plan_first E row) plans,
      g_accs = map plan_acc plans\<rparr>"

definition group_add :: "libm \<Rightarrow> env \<Rightarrow> plan list \<Rightarrow> row \<Rightarrow> group \<Rightarrow> group" where
  "group_add L E plans row g = g\<lparr>g_accs := map2 (plan_update L E row) plans (g_accs g)\<rparr>"

text \<open>Find the group of a key, opening it if need be, and update it.\<close>

fun upsert :: "'k \<Rightarrow> 'g \<Rightarrow> ('g \<Rightarrow> 'g) \<Rightarrow> ('k \<times> 'g) list \<Rightarrow> ('k \<times> 'g) list" where
  "upsert k g0 f [] = [(k, f g0)]"
| "upsert k g0 f ((k', g) # gs) = (if k' = k then (k', f g) # gs else (k', g) # upsert k g0 f gs)"

definition row_accepted :: "env \<Rightarrow> expr option \<Rightarrow> row \<Rightarrow> bool" where
  "row_accepted E cond row = (case cond of None \<Rightarrow> True | Some c \<Rightarrow> eval_bool E c row = Ok True)"

definition inc_push :: "libm \<Rightarrow> env \<Rightarrow> row \<Rightarrow> inc_window \<Rightarrow> bool \<times> inc_window" where
  "inc_push L E row w =
     (if \<not> row_accepted E (iw_where w) row then (False, w)
      else (True, w\<lparr>iw_groups := upsert (group_key E (iw_group_by w) row)
                      (open_group E (iw_group_by w) (iw_plans w) row)
                      (group_add L E (iw_plans w) row) (iw_groups w)\<rparr>))"

fun emit_plans :: "(acc \<Rightarrow> json) \<Rightarrow> plan list \<Rightarrow> json list \<Rightarrow> acc list \<Rightarrow> row \<Rightarrow> row" where
  "emit_plans fin (PFirst n e # ps) (v # vs) (a # as) out = emit_plans fin ps vs as (or_insert n v out)"
| "emit_plans fin (PAgg n k e # ps) (v # vs) (a # as) out = emit_plans fin ps vs as (fmupd n (fin a) out)"
| "emit_plans fin _ _ _ out = out"

definition named_values :: "string list \<Rightarrow> json list \<Rightarrow> row" where
  "named_values ns vs = foldl (\<lambda>m (n, v). fmupd n v m) fmempty (zip ns vs)"

definition emit_group :: "libm \<Rightarrow> string list \<Rightarrow> plan list \<Rightarrow> group \<Rightarrow> row" where
  "emit_group L names plans g =
     emit_plans (acc_finish L) plans (g_firsts g) (g_accs g) (named_values names (g_values g))"

definition inc_take :: "libm \<Rightarrow> env \<Rightarrow> inc_window \<Rightarrow> row list \<times> inc_window" where
  "inc_take L E w =
     (apply_order_limit E (iw_stmt w) (map (emit_group L (iw_names w) (iw_plans w) \<circ> snd) (iw_groups w)),
      w\<lparr>iw_groups := []\<rparr>)"

end
