(* ===== verification/Text.thy ===== *)
theory Text
  imports Analytic
begin

text \<open>
  White space, as \<open>str::trim\<close> and \<open>char::is_whitespace\<close> know it, on UTF-8 text, and decimal digits.
\<close>

text \<open>\<open>str::trim\<close>: the white-space characters as byte sequences.\<close>

definition WHITE :: "string list" where
  "WHITE = map (map char_of)
     ([[9 :: nat], [10], [11], [12], [13], [32], [194, 133], [194, 160], [225, 154, 128]]
      @ map (\<lambda>b. [226, 128, b]) ([128..<139] @ [168, 169, 175]) @ [[226, 129, 159], [227, 128, 128]])"

function strip_left :: "string list \<Rightarrow> string \<Rightarrow> string" where
  "strip_left ps s =
     (case find (\<lambda>p. p \<noteq> [] \<and> starts_with p s) ps of
        Some p \<Rightarrow> strip_left ps (drop (length p) s)
      | None \<Rightarrow> s)"
  by pat_completeness auto

termination
proof (relation "measure (\<lambda>(ps, s). length s)")
  fix ps s p
  assume "find (\<lambda>p. p \<noteq> [] \<and> starts_with p s) ps = Some p"
  then have "p \<noteq> []" "starts_with p s" by (auto simp: find_Some_iff)
  then show "((ps, drop (length p) s), (ps, s)) \<in> measure (\<lambda>(ps, s). length s)"
    by (cases s; cases p) (auto simp: starts_with_def)
qed simp

declare strip_left.simps [simp del]

definition str_trim :: "string \<Rightarrow> string" where
  "str_trim s = rev (strip_left (map rev WHITE) (rev (strip_left WHITE s)))"

abbreviation skip_ws :: "string \<Rightarrow> string" where
  "skip_ws \<equiv> strip_left WHITE"

text \<open>The decimal digits of a number.\<close>

lemma digit_code: "m < 10 \<Longrightarrow> of_char (char_of (48 + m :: nat) :: char) = 48 + m"
  by simp

lemma digits_are_digits: "list_all is_digit (digits n)"
proof (induction n rule: digits.induct)
  case (1 n)
  have "n mod 10 \<le> 9" by simp
  with 1 show ?case by (subst digits.simps) (simp add: is_digit_def [of "char_of _"])
qed

lemma digits_no_colon: "CHR '':'' \<notin> set (digits n)"
  using digits_are_digits [of n] by (auto simp: list_all_iff is_digit_def)

lemma digits_val_append: "digits_val (xs @ [c]) a = 10 * digits_val xs a + (int (of_char c) - 48)"
  by (induction xs arbitrary: a) simp_all

lemma digits_val_digits: "digits_val (digits n) 0 = int n"
proof (induction n rule: digits.induct)
  case (1 n)
  show ?case
  proof (cases "n < 10")
    case True
    then show ?thesis by (subst digits.simps) simp
  next
    case False
    with 1 have "digits_val (digits n) 0 = 10 * int (n div 10) + int (n mod 10)"
      by (subst digits.simps) (simp add: digits_val_append)
    then show ?thesis by presburger
  qed
qed

lemma digits_inj: "digits m = digits n \<Longrightarrow> m = n"
  by (metis digits_val_digits of_nat_eq_iff)

text \<open>A dark character is ASCII and not white space; a text between two of them is not trimmed.\<close>

definition dark :: "char \<Rightarrow> bool" where
  "dark c \<longleftrightarrow> (of_char c :: nat) < 128 \<and> (of_char c :: nat) \<notin> {9, 10, 11, 12, 13, 32}"

lemma WHITE_heads: "p \<in> set WHITE \<Longrightarrow> \<exists>q qs. p = q # qs \<and> \<not> dark q"
  by (auto simp: WHITE_def dark_def)

lemma skip_dark: "dark c \<Longrightarrow> skip_ws (c # s) = c # s"
proof -
  assume "dark c"
  then have "find (\<lambda>p. p \<noteq> [] \<and> starts_with p (c # s)) WHITE = None"
    using WHITE_heads by (fastforce simp: find_None_iff starts_with_def)
  then show ?thesis by (subst strip_left.simps) simp
qed

lemma WHITE_tails: "p \<in> set WHITE \<Longrightarrow> p \<noteq> [] \<and> \<not> dark (List.last p)"
  by (auto simp: WHITE_def dark_def)

lemma strip_dark: "dark c \<Longrightarrow> strip_left (map rev WHITE) (c # s) = c # s"
proof -
  assume c: "dark c"
  have "\<not> starts_with (rev p) (c # s)" if p: "p \<in> set WHITE" for p
  proof -
    obtain q qs where q: "rev p = q # qs" using WHITE_tails[OF p] by (cases "rev p") auto
    then have "q = List.last p" by (metis hd_rev list.sel(1))
    then show ?thesis unfolding q using WHITE_tails[OF p] c by (auto simp: starts_with_def)
  qed
  then have "find (\<lambda>p. p \<noteq> [] \<and> starts_with p (c # s)) (map rev WHITE) = None" by (auto simp: find_None_iff)
  then show ?thesis by (subst strip_left.simps) simp
qed

lemma trim_dark: "dark c \<Longrightarrow> dark (List.last (c # s)) \<Longrightarrow> str_trim (c # s) = c # s"
proof -
  assume s: "dark c" "dark (List.last (c # s))"
  obtain d t where d: "rev (c # s) = d # t" by (cases "rev (c # s)") auto
  then have "d = List.last (c # s)" by (metis hd_rev list.sel(1))
  then have "strip_left (map rev WHITE) (rev (c # s)) = rev (c # s)" unfolding d using strip_dark s(2) by simp
  then show ?thesis using s(1) by (simp add: str_trim_def skip_dark del: rev.simps)
qed

end
