(* ===== verification/Grouping.thy ===== *)
theory Grouping
  imports WindowAcc Text "HOL-Library.Multiset"
begin

text \<open>
  What grouping computes: the vector of groups that a window builds row by row, in the batch
  evaluation and in the incremental one, is the list of the keys in the order of their first
  row, each with what its own rows produce; and the grouping key of a row determines the
  values it was written from.
\<close>

subsection \<open>Groups in first-seen order\<close>

fun first_seen :: "'a list \<Rightarrow> 'a list" where
  "first_seen [] = []"
| "first_seen (x # xs) = x # filter (\<lambda>y. y \<noteq> x) (first_seen xs)"

lemma set_first_seen [simp]: "set (first_seen xs) = set xs"
  by (induction xs) auto

lemma distinct_first_seen [simp]: "distinct (first_seen xs)"
  by (induction xs) auto

lemma first_seen_snoc:
  "first_seen (xs @ [x]) = (if x \<in> set xs then first_seen xs else first_seen xs @ [x])"
  by (induction xs) (auto simp: filter_id_conv)

definition own_rows :: "('a \<Rightarrow> 'k) \<Rightarrow> 'a list \<Rightarrow> 'k \<Rightarrow> 'a list" where
  "own_rows key rows k = filter (\<lambda>r. key r = k) rows"

definition run_group :: "('a \<Rightarrow> 'g) \<Rightarrow> ('a \<Rightarrow> 'g \<Rightarrow> 'g) \<Rightarrow> 'a list \<Rightarrow> 'g" where
  "run_group g0 f rs = foldl (\<lambda>g r. f r g) (g0 (hd rs)) rs"

lemma upsert_absent: "k \<notin> set (map fst gs) \<Longrightarrow> upsert k g0 f gs = gs @ [(k, f g0)]"
  by (induction gs) auto

lemma upsert_present:
  "distinct ks \<Longrightarrow> k \<in> set ks \<Longrightarrow>
     upsert k g0 f (map (\<lambda>c. (c, h c)) ks) = map (\<lambda>c. (c, if c = k then f (h c) else h c)) ks"
  by (induction ks) auto

lemma run_group_snoc: "rs \<noteq> [] \<Longrightarrow> run_group g0 f (rs @ [r]) = f r (run_group g0 f rs)"
  by (simp add: run_group_def)

lemma own_rows_nonempty: "k \<in> key ` set rows \<Longrightarrow> own_rows key rows k \<noteq> []"
  by (auto simp: own_rows_def filter_empty_conv)

lemma own_rows_snoc:
  "own_rows key (rows @ [r]) k = (if key r = k then own_rows key rows k @ [r] else own_rows key rows k)"
  by (simp add: own_rows_def)

theorem fold_upsert:
  "foldl (\<lambda>acc r. upsert (key r) (g0 r) (f r) acc) [] rows
     = map (\<lambda>k. (k, run_group g0 f (own_rows key rows k))) (first_seen (map key rows))"
proof (induction rows rule: rev_induct)
  case (snoc r rows)
  show ?case
  proof (cases "key r \<in> key ` set rows")
    case True
    then have "map (\<lambda>k. (k, run_group g0 f (own_rows key (rows @ [r]) k))) (first_seen (map key rows))
        = map (\<lambda>c. (c, if c = key r then f r (run_group g0 f (own_rows key rows c))
                        else run_group g0 f (own_rows key rows c))) (first_seen (map key rows))"
      by (auto simp: own_rows_snoc run_group_snoc own_rows_nonempty)
    with True snoc.IH show ?thesis
      by (simp add: first_seen_snoc upsert_present)
  next
    case False
    then have "map (\<lambda>k. (k, run_group g0 f (own_rows key (rows @ [r]) k))) (first_seen (map key rows))
        = map (\<lambda>k. (k, run_group g0 f (own_rows key rows k))) (first_seen (map key rows))"
      by (auto simp: own_rows_snoc)
    moreover from False have "own_rows key rows (key r) = []"
      by (metis (mono_tags, lifting) filter_False image_eqI own_rows_def)
    ultimately show ?thesis
      using False snoc.IH
      by (simp add: first_seen_snoc upsert_absent comp_def own_rows_snoc run_group_def)
  qed
qed simp

lemma add_to_group_upsert: "add_to_group k r gs = upsert k [] (\<lambda>rs. rs @ [r]) gs"
  by (induction gs rule: add_to_group.induct) auto

lemma run_group_collect: "run_group (\<lambda>_. []) (\<lambda>r rs. rs @ [r]) rs = rs"
proof -
  have "foldl (\<lambda>g r. g @ [r]) acc rs = acc @ rs" for acc :: "'a list"
    by (induction rs arbitrary: acc) auto
  then show ?thesis by (simp add: run_group_def)
qed

lemma partition_keyed_groups_eq:
  "partition_keyed_groups E gs rows =
     map (\<lambda>k. (k, own_rows (group_key E gs) rows k)) (first_seen (map (group_key E gs) rows))"
  using fold_upsert [of "group_key E gs" "\<lambda>_. []" "\<lambda>r rs. rs @ [r]" rows]
  by (simp add: partition_keyed_groups_def add_to_group_upsert run_group_collect)

lemma mset_own_rows:
  "mset (concat (map (own_rows key rows) (first_seen (map key rows)))) = mset rows"
proof -
  have split: "mset (concat (map (own_rows key rows) ks)) = mset (filter (\<lambda>r. key r \<in> set ks) rows)"
    if "distinct ks" for ks
    using that
  proof (induction ks)
    case (Cons k ks)
    have "mset (filter (\<lambda>r. key r = k) rows) + mset (filter (\<lambda>r. key r \<in> set ks) rows)
        = mset (filter (\<lambda>r. key r = k \<or> key r \<in> set ks) rows)"
      using Cons.prems by (induction rows) auto
    with Cons show ?case by (simp add: own_rows_def)
  qed simp
  have "filter (\<lambda>r. key r \<in> key ` set rows) rows = rows" by (simp add: filter_id_conv)
  with split [of "first_seen (map key rows)"] show ?thesis by simp
qed

subsection \<open>Keys determine values\<close>

lemma append_at_sep:
  assumes "c \<notin> set xs" "c \<notin> set ys" "xs @ c # us = ys @ c # vs"
  shows "xs = ys \<and> us = vs"
  using assms
proof (induction xs arbitrary: ys)
  case Nil
  then show ?case by (cases ys) auto
next
  case (Cons x xs)
  then show ?case by (cases ys) auto
qed

lemma string_key_inj:
  assumes "digits (length s) @ CHR '':'' # s @ us = digits (length t) @ CHR '':'' # t @ vs"
  shows "s = t \<and> us = vs"
proof -
  from append_at_sep [OF digits_no_colon digits_no_colon assms] digits_inj
  have "length s = length t" "s @ us = t @ vs" by blast+
  then show ?thesis by simp
qed

text \<open>What the key relies on of the rendering of values: no two of the values at hand that are
  not strings are rendered alike, and a control character is escaped.\<close>

definition renders_apart :: "(json \<Rightarrow> string) \<Rightarrow> json set \<Rightarrow> bool" where
  "renders_apart rnd V \<longleftrightarrow>
     inj_on rnd (Set.filter (\<lambda>v. \<not> is_string v) V) \<and> (\<forall>v \<in> V. is_string v \<or> UNIT_SEP \<notin> set (rnd v))"

lemma write_group_key_inj:
  assumes "renders_apart rnd V" "v \<in> V" "w \<in> V"
    and "write_group_key rnd v @ us = write_group_key rnd w @ vs"
  shows "v = w \<and> us = vs"
proof (cases "is_string v \<or> is_string w")
  case True
  with assms(4) obtain s t where "v = Str s" "w = Str t"
    by (auto simp: write_group_key_def elim!: is_string.elims split: json.splits)
  with assms(4) show ?thesis
    by (auto simp: write_group_key_def dest!: string_key_inj)
next
  case False
  have "rnd v @ UNIT_SEP # us = rnd w @ UNIT_SEP # vs"
    using assms(4) False by (auto simp: write_group_key_def split: json.splits)
  from append_at_sep [OF _ _ this] assms(1-3) False show ?thesis
    by (auto simp: renders_apart_def inj_on_def)
qed

lemma group_key_iff:
  assumes "renders_apart (render E) V"
    and "\<forall>g \<in> set gs. group_value E g r \<in> V \<and> group_value E g r' \<in> V"
  shows "group_key E gs r = group_key E gs r' \<longleftrightarrow>
     map (\<lambda>g. group_value E g r) gs = map (\<lambda>g. group_value E g r') gs"
  using assms(2)
proof (induction gs)
  case (Cons g gs)
  have "group_key E (g # gs) r = group_key E (g # gs) r' \<longleftrightarrow>
      group_value E g r = group_value E g r' \<and> group_key E gs r = group_key E gs r'"
  proof
    assume "group_key E (g # gs) r = group_key E (g # gs) r'"
    then have "write_group_key (render E) (group_value E g r) @ group_key E gs r
        = write_group_key (render E) (group_value E g r') @ group_key E gs r'"
      by (simp add: group_key_def)
    from write_group_key_inj [OF assms(1) _ _ this] Cons.prems
    show "group_value E g r = group_value E g r' \<and> group_key E gs r = group_key E gs r'" by simp
  qed (simp add: group_key_def)
  with Cons show ?case by simp
qed (simp add: group_key_def)

end
