(* ===== verification/Accumulators.thy ===== *)
theory Accumulators
  imports Grouping
begin

text \<open>
  The accumulators compute the batch aggregates: folding the values of a group into a fresh
  accumulator and finishing it gives what the aggregate of the same name gives for the rows of
  the group.
\<close>

definition acc_run :: "libm \<Rightarrow> agg_kind \<Rightarrow> json option list \<Rightarrow> acc \<Rightarrow> acc" where
  "acc_run L k vs a = foldl (\<lambda>a v. acc_update L k v a) a vs"

lemma acc_run_simps [simp]:
  "acc_run L k [] a = a"
  "acc_run L k (v # vs) a = acc_run L k vs (acc_update L k v a)"
  by (simp_all add: acc_run_def)

text \<open>A negative zero is the one value whose sum depends on the sign of the start value.\<close>

fun neg_zero :: "f64 \<Rightarrow> bool" where
  "neg_zero (Fin s m e) = (s \<and> m = 0)"
| "neg_zero x = False"

definition start_nzero :: f64 where "start_nzero = Fin True 0 (- 1074)"

lemma f64_add_start: "\<not> neg_zero x \<Longrightarrow> f64_add fzero x = f64_add start_nzero x"
  by (cases x) (auto simp: fzero_def start_nzero_def fsign_def Let_def)

lemma f64_sum_start:
  "xs \<noteq> [] \<Longrightarrow> \<not> neg_zero (hd xs) \<Longrightarrow> f64_sum xs = foldl f64_add fzero xs"
  by (cases xs) (simp_all add: f64_sum_def f64_add_start start_nzero_def)

lemma nums_of_numbers:
  "list_all is_number xs \<Longrightarrow> List.map_filter as_f64 xs = map num_or_zero xs"
  by (induction xs) (auto simp: List.map_filter_simps num_or_zero_def is_number_as_f64)

lemma float_sum_start:
  assumes "list_all is_number xs" "xs \<noteq> []" "list_all (\<lambda>v. \<not> neg_zero (num_or_zero v)) xs"
  shows "float_sum xs = foldl f64_add fzero (map num_or_zero xs)"
  using assms unfolding float_sum_def nums_of_numbers [OF assms(1)]
  by (cases xs) (auto simp: f64_sum_start)

subsection \<open>Counts, sums and averages\<close>

lemma count_all_run: "acc_run L KCountAll vs (ACount n) = ACount (n + int (length vs))"
  by (induction vs arbitrary: n) auto

lemma count_run:
  "acc_run L KCount (map Some vs) (ACount n) = ACount (n + int (length (non_null vs)))"
  by (induction vs arbitrary: n) (auto simp: non_null_def)

text \<open>The checked integer sum of the values, as long as all of them are integers.\<close>

definition int_sum :: "json list \<Rightarrow> int \<Rightarrow> int option" where
  "int_sum xs i = (if list_all (\<lambda>v. as_i64 v \<noteq> None) xs then sum_i64 (List.map_filter as_i64 xs) i else None)"

lemma int_sum_Nil [simp]: "int_sum [] i = Some i"
  by (simp add: int_sum_def List.map_filter_simps)

lemma int_sum_Cons:
  "int_sum (x # xs) i = (case Option.bind (as_i64 x) (\<lambda>j. checked_i64 (i + j)) of
      Some n \<Rightarrow> int_sum xs n | None \<Rightarrow> None)"
  by (auto simp: int_sum_def List.map_filter_simps split: option.split)

fun sum_state :: "acc \<Rightarrow> (int option \<times> f64 \<times> bool) option" where
  "sum_state (ASum i f ok any) = Some (if ok then Some i else None, f, any)"
| "sum_state a = None"

lemma sum_update_state:
  assumes "sum_state a = Some (io, f, any)" "is_number x"
  shows "sum_state (acc_update L KSum (Some x) a) =
     Some (Option.bind io (\<lambda>i. Option.bind (as_i64 x) (\<lambda>j. checked_i64 (i + j))), f64_add f (num_or_zero x), True)"
  using assms by (cases a) (auto simp: number_of_def Let_def split: option.split)

lemma acc_skip:
  assumes "\<not> is_number x"
  shows "acc_update L k (Some x) (ASum i f ok any) = ASum i f ok any"
    "acc_update L k (Some x) (AAvg s n) = AAvg s n"
    "acc_update L k (Some x) (AExtreme b) = AExtreme b"
  using assms by (simp_all add: number_of_def)

lemma sum_run:
  "sum_state a = Some (io, f, any) \<Longrightarrow>
   sum_state (acc_run L KSum (map Some vs) a) =
     Some (Option.bind io (int_sum (filter is_number vs)),
           foldl f64_add f (map num_or_zero (filter is_number vs)), any \<or> filter is_number vs \<noteq> [])"
proof (induction vs arbitrary: a io f any)
  case Nil
  then show ?case by (cases io) simp_all
next
  case (Cons x vs)
  show ?case
  proof (cases "is_number x")
    case True
    from Cons.IH [OF sum_update_state [OF Cons.prems True]] True show ?thesis
      by (cases io) (auto simp: int_sum_Cons split: option.split bind_splits)
  next
    case False
    then have "acc_update L KSum (Some x) a = a" using Cons.prems by (cases a) (auto simp: number_of_def)
    with Cons False show ?thesis by simp
  qed
qed

lemma sum_finish:
  "sum_state a = Some (io, f, any) \<Longrightarrow>
   acc_finish L a = (if \<not> any then Null else case io of Some i \<Rightarrow> of_i64 i | None \<Rightarrow> of_f64 f)"
  by (cases a) auto

lemma avg_run:
  "acc_run L KAvg (map Some vs) (AAvg s n) =
     AAvg (foldl f64_add s (map num_or_zero (filter is_number vs))) (n + int (length (filter is_number vs)))"
  by (induction vs arbitrary: s n) (auto simp: number_of_def)

subsection \<open>Extremes and statistics\<close>

definition wanted :: "agg_kind \<Rightarrow> ordering" where
  "wanted k = (if k = KMin then OLess else OGreater)"

lemma extreme_run_Some:
  "acc_run L k (map Some vs) (AExtreme (Some b)) = AExtreme (Some (best_of (wanted k) b (filter is_number vs)))"
  by (induction vs arbitrary: b) (auto simp: best_of_def number_of_def wanted_def)

lemma extreme_run:
  "acc_run L k (map Some vs) (AExtreme None) =
     AExtreme (case filter is_number vs of [] \<Rightarrow> None | x # xs \<Rightarrow> Some (best_of (wanted k) x xs))"
  by (induction vs) (auto simp: number_of_def extreme_run_Some)

lemma welford_run:
  "acc_run L k (map Some vs) (AWelford k' w) = AWelford k' (fold welford_add (List.map_filter as_f64 vs) w)"
  by (induction vs arbitrary: w) (auto simp: List.map_filter_simps split: option.split)

lemma welford_count:
  "wf_count (fold welford_add xs w) = wf_count w + int (length xs)"
  by (induction xs arbitrary: w) (simp_all add: welford_add_def Let_def)

subsection \<open>Agreement with the batch aggregates\<close>

lemma non_null_numbers: "filter is_number (non_null vs) = filter is_number vs"
  by (induction vs) (auto simp: non_null_def elim: is_number.elims)

definition numeric_or_null :: "json \<Rightarrow> bool" where
  "numeric_or_null v \<longleftrightarrow> is_null v \<or> is_number v"

lemma non_null_numeric: "list_all numeric_or_null vs \<Longrightarrow> non_null vs = filter is_number vs"
  by (induction vs) (auto simp: non_null_def numeric_or_null_def elim: is_number.elims)

lemma list_ex_filter: "list_ex P xs \<longleftrightarrow> filter P xs \<noteq> []"
  by (induction xs) auto

text \<open>When a kind of aggregate is computed exactly one row at a time: not by the sketch, on
  numbers for the extremes, and away from negative zeros for the float sums.\<close>

fun exact_on :: "agg_kind \<Rightarrow> json list \<Rightarrow> bool" where
  "exact_on KSum vs = list_all (\<lambda>v. \<not> neg_zero (num_or_zero v)) vs"
| "exact_on KAvg vs = list_all (\<lambda>v. \<not> neg_zero (num_or_zero v)) vs"
| "exact_on KMin vs = list_all numeric_or_null vs"
| "exact_on KMax vs = list_all numeric_or_null vs"
| "exact_on KMedian vs = False"
| "exact_on (KPercentile p) vs = False"
| "exact_on k vs = True"

fun batch :: "agg_kind \<Rightarrow> row_eval \<Rightarrow> expr list \<Rightarrow> row list \<Rightarrow> json" where
  "batch KSum = agg_sum"
| "batch KAvg = agg_avg"
| "batch KMin = agg_min"
| "batch KMax = agg_max"
| "batch KStddev = agg_stddev"
| "batch KStddevs = agg_stddevs"
| "batch KVar = agg_var"
| "batch KVars = agg_vars"
| "batch KMedian = agg_median"
| "batch k = agg_count"

lemma acc_sum_agrees:
  assumes "exact_on KSum (map (ev a) rows)" "a \<noteq> Wildcard"
  shows "acc_finish L (acc_run L KSum (map (Some \<circ> ev a) rows) (acc_new KSum)) = agg_sum ev [a] rows"
proof -
  let ?xs = "filter is_number (map (ev a) rows)"
  have st: "sum_state (acc_new KSum) = Some (Some 0, fzero, False)" by simp
  have "acc_finish L (acc_run L KSum (map Some (map (ev a) rows)) (acc_new KSum)) =
      (if ?xs = [] then Null else case int_sum ?xs 0 of
         Some i \<Rightarrow> of_i64 i | None \<Rightarrow> of_f64 (foldl f64_add fzero (map num_or_zero ?xs)))"
    using sum_finish [OF sum_run [OF st, where vs = "map (ev a) rows" and L = L], of L] by simp
  moreover have "float_sum ?xs = foldl f64_add fzero (map num_or_zero ?xs)" if "?xs \<noteq> []"
    using that assms(1) by (intro float_sum_start) (auto simp: list_all_iff)
  ultimately show ?thesis
    using assms(2)
    by (auto simp: agg_sum_def single_column_def agg_numeric_values_def non_null_numbers Let_def
        int_sum_def comp_def split: option.split)
qed

lemma acc_avg_agrees:
  assumes "exact_on KAvg (map (ev a) rows)" "a \<noteq> Wildcard"
  shows "acc_finish L (acc_run L KAvg (map (Some \<circ> ev a) rows) (acc_new KAvg)) = agg_avg ev [a] rows"
proof -
  define xs where "xs = filter is_number (map (ev a) rows)"
  have "float_sum xs = foldl f64_add fzero (map num_or_zero xs)" if "xs \<noteq> []"
    using that assms(1) unfolding xs_def by (intro float_sum_start) (auto simp: list_all_iff)
  moreover have "acc_run L KAvg (map (Some \<circ> ev a) rows) (acc_new KAvg) =
      AAvg (foldl f64_add fzero (map num_or_zero xs)) (int (length xs))"
    unfolding xs_def using avg_run [of L "map (ev a) rows" fzero 0] by simp
  moreover have "agg_numeric_values ev a rows = xs"
    by (simp add: agg_numeric_values_def non_null_numbers xs_def)
  ultimately show ?thesis
    using assms(2) by (cases xs) (auto simp: agg_avg_def single_column_def Let_def)
qed

lemma acc_extreme_agrees:
  assumes "exact_on k (map (ev a) rows)" "a \<noteq> Wildcard" "k = KMin \<or> k = KMax"
  shows "acc_finish L (acc_run L k (map (Some \<circ> ev a) rows) (acc_new k)) = batch k ev [a] rows"
proof -
  have num: "list_all numeric_or_null (map (ev a) rows)" using assms by auto
  have "acc_finish L (acc_run L k (map Some (map (ev a) rows)) (acc_new k)) =
      agg_extreme (wanted k) ev [a] rows"
    using assms(2,3)
    by (auto simp: extreme_run agg_extreme_def single_column_def Let_def non_null_numeric [OF num]
        list_ex_filter simp del: map_map split: list.split)
  with assms(3) show ?thesis by (auto simp: agg_min_def agg_max_def wanted_def)
qed

lemma acc_welford_agrees:
  assumes "k \<in> {KStddev, KStddevs, KVar, KVars}" "a \<noteq> Wildcard"
  shows "acc_finish L (acc_run L k (map (Some \<circ> ev a) rows) (acc_new k)) = batch k ev [a] rows"
proof -
  let ?w = "fold welford_add (List.map_filter as_f64 (map (ev a) rows)) welford_init"
  have "0 \<le> wf_count ?w" by (simp add: welford_count welford_init_def)
  moreover have "acc_finish L (acc_run L k (map Some (map (ev a) rows)) (acc_new k)) = welford_finish k ?w"
    using assms(1) by (auto simp: welford_run simp del: map_map)
  ultimately show ?thesis
    using assms
    by (auto simp: welford_finish_def agg_stddev_def agg_stddevs_def agg_var_def agg_vars_def agg_ssd_def
        single_column_def population_def sample_def opt_json_def Let_def)
qed

lemma acc_agrees:
  assumes "exact_on k (map (ev a) rows)" "a \<noteq> Wildcard" "k \<noteq> KCountAll"
  shows "acc_finish L (acc_run L k (map (Some \<circ> ev a) rows) (acc_new k)) = batch k ev [a] rows"
proof (cases k)
  case KCount
  then show ?thesis
    using assms(2) count_run [of L "map (ev a) rows" 0] by (simp add: agg_count_def)
qed (use assms acc_sum_agrees acc_avg_agrees acc_extreme_agrees [of k] acc_welford_agrees [of k]
     in simp_all)

lemma acc_count_all_agrees:
  "acc_finish L (acc_run L KCountAll (map (\<lambda>_. None) rows) (acc_new KCountAll)) = agg_count ev [Wildcard] rows"
  by (simp add: count_all_run agg_count_def)

end
