(* ===== verification/Sliding.thy ===== *)
theory Sliding
  imports WindowAcc
begin

text \<open>
  The invertible accumulators of sliding and hopping windows (\<open>SlidingAcc\<close> and
  \<open>SlidingIncrementalWindow\<close> in \<open>crates/rekuiper-sql/src/eval/window.rs\<close>). A deque is a list
  with its front first.
\<close>

subsection \<open>Accumulators\<close>

datatype sliding_acc =
    SCount int "(int \<times> bool) list"
  | SSum int f64 nat nat "(int \<times> int option \<times> f64 option) list"
  | SAvg f64 nat "(int \<times> f64 option) list"
  | SExtreme bool "(int \<times> f64 \<times> json) list"

fun sliding_new :: "agg_kind \<Rightarrow> sliding_acc" where
  "sliding_new KSum = SSum 0 fzero 0 0 []"
| "sliding_new KAvg = SAvg fzero 0 []"
| "sliding_new KMin = SExtreme False []"
| "sliding_new KMax = SExtreme True []"
| "sliding_new k = SCount 0 []"

definition dominated :: "bool \<Rightarrow> f64 \<Rightarrow> int \<times> f64 \<times> json \<Rightarrow> bool" where
  "dominated is_max f e = (case e of (ts, back, v) \<Rightarrow> if is_max then f64_le back f else f64_le f back)"

text \<open>\<open>pop_back\<close> while the last element satisfies the predicate.\<close>

definition pop_back_while :: "('a \<Rightarrow> bool) \<Rightarrow> 'a list \<Rightarrow> 'a list" where
  "pop_back_while P xs = rev (dropWhile P (rev xs))"

fun sliding_push :: "agg_kind \<Rightarrow> int \<Rightarrow> json option \<Rightarrow> sliding_acc \<Rightarrow> sliding_acc" where
  "sliding_push k ts v (SCount n es) =
     (if k = KCountAll then SCount (n + 1) (es @ [(ts, True)])
      else (let valid = (case v of Some x \<Rightarrow> \<not> is_null x | None \<Rightarrow> False)
            in SCount (if valid then n + 1 else n) (es @ [(ts, valid)])))"
| "sliding_push k ts v (SSum i f fc vc es) =
     (case number_of v of
        None \<Rightarrow> SSum i f fc vc (es @ [(ts, None, None)])
      | Some x \<Rightarrow>
          (let y = num_or_zero x
           in case as_i64 x of
                Some j \<Rightarrow> SSum (sat_add i j) (f64_add f y) fc (vc + 1) (es @ [(ts, Some j, Some y)])
              | None \<Rightarrow> SSum i (f64_add f y) (fc + 1) (vc + 1) (es @ [(ts, None, Some y)])))"
| "sliding_push k ts v (SAvg s n es) =
     (case number_of v of
        None \<Rightarrow> SAvg s n (es @ [(ts, None)])
      | Some x \<Rightarrow> SAvg (f64_add s (num_or_zero x)) (n + 1) (es @ [(ts, Some (num_or_zero x))]))"
| "sliding_push k ts v (SExtreme is_max dq) =
     (case number_of v of
        None \<Rightarrow> SExtreme is_max dq
      | Some x \<Rightarrow>
          (case as_f64 x of
             None \<Rightarrow> SExtreme is_max dq
           | Some f \<Rightarrow> SExtreme is_max (pop_back_while (dominated is_max f) dq @ [(ts, f, x)])))"

fun evict_counts :: "int \<Rightarrow> int \<Rightarrow> (int \<times> bool) list \<Rightarrow> int \<times> (int \<times> bool) list" where
  "evict_counts cutoff n [] = (n, [])"
| "evict_counts cutoff n ((ts, valid) # es) =
     (if ts < cutoff then evict_counts cutoff (if valid then n - 1 else n) es else (n, (ts, valid) # es))"

type_synonym sum_fields = "int \<times> f64 \<times> nat \<times> nat"

fun unsum :: "int option \<Rightarrow> f64 option \<Rightarrow> sum_fields \<Rightarrow> sum_fields" where
  "unsum oi None s = s"
| "unsum (Some j) (Some y) (i, f, fc, vc) = (sat_sub i j, f64_sub f y, fc, vc - 1)"
| "unsum None (Some y) (i, f, fc, vc) = (i, f64_sub f y, fc - 1, vc - 1)"

fun evict_sums :: "int \<Rightarrow> sum_fields \<Rightarrow> (int \<times> int option \<times> f64 option) list
    \<Rightarrow> sum_fields \<times> (int \<times> int option \<times> f64 option) list" where
  "evict_sums cutoff s [] = (s, [])"
| "evict_sums cutoff s ((ts, oi, ofl) # es) =
     (if ts < cutoff then evict_sums cutoff (unsum oi ofl s) es else (s, (ts, oi, ofl) # es))"

fun evict_avgs :: "int \<Rightarrow> f64 \<Rightarrow> nat \<Rightarrow> (int \<times> f64 option) list \<Rightarrow> f64 \<times> nat \<times> (int \<times> f64 option) list" where
  "evict_avgs cutoff s n [] = (s, n, [])"
| "evict_avgs cutoff s n ((ts, ofl) # es) =
     (if ts < cutoff
      then (case ofl of
              None \<Rightarrow> evict_avgs cutoff s n es
            | Some y \<Rightarrow> evict_avgs cutoff (f64_sub s y) (n - 1) es)
      else (s, n, (ts, ofl) # es))"

fun sliding_evict :: "int \<Rightarrow> sliding_acc \<Rightarrow> sliding_acc" where
  "sliding_evict cutoff (SCount n es) = (case evict_counts cutoff n es of (n', es') \<Rightarrow> SCount n' es')"
| "sliding_evict cutoff (SSum i f fc vc es) =
     (case evict_sums cutoff (i, f, fc, vc) es of
        ((i', f', fc', vc'), es') \<Rightarrow>
          if vc' = 0 then SSum 0 fzero 0 0 es' else SSum i' f' fc' vc' es')"
| "sliding_evict cutoff (SAvg s n es) =
     (case evict_avgs cutoff s n es of (s', n', es') \<Rightarrow> SAvg (if n' = 0 then fzero else s') n' es')"
| "sliding_evict cutoff (SExtreme is_max dq) = SExtreme is_max (dropWhile (\<lambda>(ts, _). ts < cutoff) dq)"

fun sliding_value :: "sliding_acc \<Rightarrow> json" where
  "sliding_value (SCount n es) = of_i64 n"
| "sliding_value (SSum i f fc vc es) = (if vc = 0 then Null else if fc = 0 then of_i64 i else of_f64 f)"
| "sliding_value (SAvg s n es) = (if n = 0 then Null else of_f64 (f64_div s (f64_of_int (int n))))"
| "sliding_value (SExtreme is_max dq) = (case dq of [] \<Rightarrow> Null | (_, _, v) # _ \<Rightarrow> v)"

subsection \<open>The sliding window\<close>

record sliding_group =
  sg_values :: "json list"
  sg_firsts :: "json list"
  sg_accs :: "sliding_acc list"

record sliding_window =
  sw_where :: "expr option"
  sw_group_by :: "expr list"
  sw_names :: "string list"
  sw_plans :: "plan list"
  sw_stmt :: select_stmt
  sw_groups :: "(string \<times> sliding_group) list"

fun invertible :: "plan \<Rightarrow> bool" where
  "invertible (PAgg n k a) \<longleftrightarrow> k \<in> {KCountAll, KCount, KSum, KAvg, KMin, KMax}"
| "invertible (PFirst n e) \<longleftrightarrow> True"

definition sliding_try_new :: "select_stmt \<Rightarrow> sliding_window option" where
  "sliding_try_new stmt =
     (case inc_try_new stmt of
        None \<Rightarrow> None
      | Some b \<Rightarrow>
          if list_all invertible (iw_plans b)
          then Some \<lparr>sw_where = iw_where b, sw_group_by = iw_group_by b, sw_names = iw_names b,
                     sw_plans = iw_plans b, sw_stmt = iw_stmt b, sw_groups = []\<rparr>
          else None)"

fun acc_idle :: "sliding_acc \<Rightarrow> bool" where
  "acc_idle (SCount n es) = (n = 0)"
| "acc_idle (SSum i f fc vc es) = (vc = 0)"
| "acc_idle (SAvg s n es) = (n = 0)"
| "acc_idle (SExtreme m dq) = (dq = [])"

definition sliding_is_empty :: "sliding_window \<Rightarrow> bool" where
  "sliding_is_empty w \<longleftrightarrow> list_all (\<lambda>(k, g). list_all acc_idle (sg_accs g)) (sw_groups w)"

fun plan_sliding :: "plan \<Rightarrow> sliding_acc" where
  "plan_sliding (PAgg n k a) = sliding_new k"
| "plan_sliding (PFirst n e) = sliding_new KCount"

fun plan_push :: "env \<Rightarrow> int \<Rightarrow> row \<Rightarrow> plan \<Rightarrow> sliding_acc \<Rightarrow> sliding_acc" where
  "plan_push E ts row (PFirst n e) a = a"
| "plan_push E ts row (PAgg n k arg) a = sliding_push k ts (map_option (\<lambda>e. group_value E e row) arg) a"

definition open_sliding :: "env \<Rightarrow> expr list \<Rightarrow> plan list \<Rightarrow> row \<Rightarrow> sliding_group" where
  "open_sliding E gs plans row =
     \<lparr>sg_values = map (\<lambda>g. group_value E g row) gs, sg_firsts = map (plan_first E row) plans,
      sg_accs = map plan_sliding plans\<rparr>"

definition sw_push :: "env \<Rightarrow> int \<Rightarrow> row \<Rightarrow> sliding_window \<Rightarrow> bool \<times> sliding_window" where
  "sw_push E ts row w =
     (if \<not> row_accepted E (sw_where w) row then (False, w)
      else (True, w\<lparr>sw_groups := upsert (group_key E (sw_group_by w) row)
              (open_sliding E (sw_group_by w) (sw_plans w) row)
              (\<lambda>g. g\<lparr>sg_accs := map2 (plan_push E ts row) (sw_plans w) (sg_accs g)\<rparr>) (sw_groups w)\<rparr>))"

definition sw_evict_before :: "int \<Rightarrow> sliding_window \<Rightarrow> sliding_window" where
  "sw_evict_before cutoff w =
     w\<lparr>sw_groups := map (\<lambda>(k, g). (k, g\<lparr>sg_accs := map (sliding_evict cutoff) (sg_accs g)\<rparr>)) (sw_groups w)\<rparr>"

fun acc_active :: "sliding_acc \<Rightarrow> bool" where
  "acc_active (SCount n es) = (0 < n)"
| "acc_active (SSum i f fc vc es) = (0 < vc)"
| "acc_active (SAvg s n es) = (0 < n)"
| "acc_active (SExtreme m dq) = (dq \<noteq> [])"

fun emit_sliding :: "plan list \<Rightarrow> json list \<Rightarrow> sliding_acc list \<Rightarrow> row \<Rightarrow> row" where
  "emit_sliding (PFirst n e # ps) (v # vs) (a # as) out = emit_sliding ps vs as (or_insert n v out)"
| "emit_sliding (PAgg n k e # ps) (v # vs) (a # as) out = emit_sliding ps vs as (fmupd n (sliding_value a) out)"
| "emit_sliding _ _ _ out = out"

definition sw_snapshot :: "env \<Rightarrow> sliding_window \<Rightarrow> row list" where
  "sw_snapshot E w =
     apply_order_limit E (sw_stmt w)
       (map (\<lambda>(k, g). emit_sliding (sw_plans w) (sg_firsts g) (sg_accs g)
               (named_values (sw_names w) (sg_values g)))
          (filter (\<lambda>(k, g). list_ex acc_active (sg_accs g) \<or> sg_accs g = []) (sw_groups w)))"

end
