(* ===== verification/DeadLetter.thy ===== *)
theory DeadLetter
  imports Eval
begin

text \<open>
  Error accounting of a rule: the atomic counters and latency trackers
  (\<open>crates/rekuiper-core/src/manager.rs\<close>), the dead-letter envelope and its stages
  (\<open>crates/rekuiper-core/src/model.rs\<close>), the router with its ring buffer
  (\<open>crates/rekuiper-server/src/engine/dlq.rs\<close>) and the error handlers of the rule loops
  (\<open>crates/rekuiper-server/src/engine/runtime.rs\<close>).

  The spawned tasks (dispatch to the external sink, halting the rule) are the effects a call
  returns. The order in which a hash map lists its keys is a parameter.
\<close>

subsection \<open>Latency trackers\<close>

record latency =
  lt_last :: u64
  lt_sum :: u64
  lt_count :: u64
  lt_buckets :: "u64 list"

definition latency_init :: latency where
  "latency_init = \<lparr>lt_last = 0, lt_sum = 0, lt_count = 0, lt_buckets = replicate 5 0\<rparr>"

definition bucket_index :: "u64 \<Rightarrow> nat" where
  "bucket_index us = (if us \<le> 100 then 0 else if us \<le> 500 then 1 else if us \<le> 1000 then 2
     else if us \<le> 5000 then 3 else 4)"

definition observe_batch :: "u64 \<Rightarrow> u64 \<Rightarrow> latency \<Rightarrow> latency" where
  "observe_batch tot records l =
     (if records = 0 then l
      else (let per = tot div records; i = bucket_index per
            in \<lparr>lt_last = per, lt_sum = lt_sum l + tot, lt_count = lt_count l + records,
                lt_buckets = (lt_buckets l)[i := lt_buckets l ! i + records]\<rparr>))"

definition observe :: "u64 \<Rightarrow> latency \<Rightarrow> latency" where
  "observe us = observe_batch us 1"

text \<open>The cumulative histogram; records that were not timed count as fast ones.\<close>

definition latency_snapshot :: "u64 \<Rightarrow> latency \<Rightarrow> u64 \<times> u64 list \<times> u64 \<times> u64" where
  "latency_snapshot tot l =
     (let untimed = (if lt_count l \<le> tot then tot - lt_count l else 0);
          b0 = lt_buckets l ! 0 + untimed;
          b1 = b0 + lt_buckets l ! 1;
          b2 = b1 + lt_buckets l ! 2;
          b3 = b2 + lt_buckets l ! 3;
          b4 = b3 + lt_buckets l ! 4;
          final = max b4 tot
      in (lt_last l, [b0, b1, b2, b3, final], lt_sum l, final))"

subsection \<open>Stages and envelopes\<close>

datatype dlq_stage = CodecDecode | SchemaValidation | SqlEval | DataTemplate | SinkDelivery

fun stage_index :: "dlq_stage \<Rightarrow> nat" where
  "stage_index CodecDecode = 0"
| "stage_index SchemaValidation = 1"
| "stage_index SqlEval = 2"
| "stage_index DataTemplate = 3"
| "stage_index SinkDelivery = 4"

definition stage_from_index :: "nat \<Rightarrow> dlq_stage option" where
  "stage_from_index i =
     (if i = 0 then Some CodecDecode else if i = 1 then Some SchemaValidation
      else if i = 2 then Some SqlEval else if i = 3 then Some DataTemplate
      else if i = 4 then Some SinkDelivery else None)"

definition MAX_DLQ_RAW_PAYLOAD_BYTES :: nat where "MAX_DLQ_RAW_PAYLOAD_BYTES = 4096"

text \<open>\<open>str::is_char_boundary\<close>: the byte at the index is not a continuation byte.\<close>

definition is_continuation :: "char \<Rightarrow> bool" where
  "is_continuation c \<longleftrightarrow> (128 :: nat) \<le> of_char c \<and> (of_char c :: nat) < 192"

definition is_char_boundary :: "string \<Rightarrow> nat \<Rightarrow> bool" where
  "is_char_boundary s i \<longleftrightarrow> i = 0 \<or> i = length s \<or> i < length s \<and> \<not> is_continuation (s ! i)"

fun floor_boundary :: "string \<Rightarrow> nat \<Rightarrow> nat" where
  "floor_boundary s 0 = 0"
| "floor_boundary s (Suc i) = (if is_char_boundary s (Suc i) then Suc i else floor_boundary s i)"

text \<open>The suffix starts with the three bytes of the horizontal ellipsis.\<close>

definition TRUNCATED :: string where
  "TRUNCATED = map char_of [226 :: nat, 128, 166] @ ''[truncated]''"

definition truncate_raw_payload :: "string \<Rightarrow> nat \<Rightarrow> string" where
  "truncate_raw_payload payload max_bytes =
     (if length payload \<le> max_bytes then payload
      else take (floor_boundary payload (max_bytes - length TRUNCATED)) payload @ TRUNCATED)"

record dlq_envelope =
  ev_rule_id :: string
  ev_timestamp :: int
  ev_stage :: dlq_stage
  ev_error :: string
  ev_raw_payload :: "string option"
  ev_tuple :: "json option"
  ev_sink_type :: "string option"

definition envelope_new :: "string \<Rightarrow> int \<Rightarrow> dlq_stage \<Rightarrow> string \<Rightarrow> dlq_envelope" where
  "envelope_new rid now stage err =
     \<lparr>ev_rule_id = rid, ev_timestamp = now, ev_stage = stage, ev_error = err,
      ev_raw_payload = None, ev_tuple = None, ev_sink_type = None\<rparr>"

definition with_raw_payload :: "string \<Rightarrow> dlq_envelope \<Rightarrow> dlq_envelope" where
  "with_raw_payload raw e =
     e\<lparr>ev_raw_payload := Some (truncate_raw_payload raw MAX_DLQ_RAW_PAYLOAD_BYTES)\<rparr>"

subsection \<open>Counters\<close>

record counters =
  ct_source_in :: u64
  ct_sink_out :: u64
  ct_exceptions :: u64
  ct_filtered :: u64
  ct_enqueued :: u64
  ct_sink_failed :: u64
  ct_dropped :: u64
  ct_high_water :: u64
  ct_blocked_micros :: u64
  ct_last_exception :: string
  ct_dlq_records :: u64
  ct_dlq_stages :: "u64 list"
  ct_dlq_sink_failures :: u64
  ct_source_latency :: latency
  ct_op_latency :: latency
  ct_sink_latency :: latency

definition counters_init :: counters where
  "counters_init =
     \<lparr>ct_source_in = 0, ct_sink_out = 0, ct_exceptions = 0, ct_filtered = 0, ct_enqueued = 0,
      ct_sink_failed = 0, ct_dropped = 0, ct_high_water = 0, ct_blocked_micros = 0,
      ct_last_exception = [], ct_dlq_records = 0, ct_dlq_stages = replicate 5 0,
      ct_dlq_sink_failures = 0, ct_source_latency = latency_init, ct_op_latency = latency_init,
      ct_sink_latency = latency_init\<rparr>"

definition inc_source :: "u64 \<Rightarrow> counters \<Rightarrow> counters" where
  "inc_source n c = c\<lparr>ct_source_in := ct_source_in c + n\<rparr>"

definition inc_filtered :: "u64 \<Rightarrow> counters \<Rightarrow> counters" where
  "inc_filtered n c = c\<lparr>ct_filtered := ct_filtered c + n\<rparr>"

definition inc_enqueued :: "u64 \<Rightarrow> counters \<Rightarrow> counters" where
  "inc_enqueued n c = c\<lparr>ct_enqueued := ct_enqueued c + n\<rparr>"

definition record_exception :: "string \<Rightarrow> counters \<Rightarrow> counters" where
  "record_exception err c = c\<lparr>ct_exceptions := ct_exceptions c + 1, ct_last_exception := err\<rparr>"

definition observe_high_water :: "nat \<Rightarrow> counters \<Rightarrow> counters" where
  "observe_high_water depth c =
     (if ct_high_water c < of_nat depth then c\<lparr>ct_high_water := of_nat depth\<rparr> else c)"

definition inc_dlq :: "dlq_stage \<Rightarrow> counters \<Rightarrow> counters" where
  "inc_dlq stage c =
     (let i = stage_index stage; xs = ct_dlq_stages c
      in c\<lparr>ct_dlq_records := ct_dlq_records c + 1,
           ct_dlq_stages := (if i < 5 then xs[i := xs ! i + 1] else xs)\<rparr>)"

definition inc_dlq_sink_failures :: "counters \<Rightarrow> counters" where
  "inc_dlq_sink_failures c = c\<lparr>ct_dlq_sink_failures := ct_dlq_sink_failures c + 1\<rparr>"

text \<open>\<open>enqueue_sink_record\<close> of \<open>crates/rekuiper-server/src/engine/sinks.rs\<close>: the outcomes of the
  bounded channel, with its capacity and the time spent waiting.\<close>

datatype channel_outcome = Sent | Closed | FullSent nat u64 | FullClosed nat

fun enqueue_sink_record :: "channel_outcome \<Rightarrow> counters \<Rightarrow> bool \<times> counters" where
  "enqueue_sink_record Sent c = (True, inc_enqueued 1 c)"
| "enqueue_sink_record Closed c = (False, c)"
| "enqueue_sink_record (FullSent cap us) c =
     (let c1 = observe_high_water cap c
      in (True, inc_enqueued 1 (c1\<lparr>ct_blocked_micros := ct_blocked_micros c1 + us\<rparr>)))"
| "enqueue_sink_record (FullClosed cap) c = (False, observe_high_water cap c)"

text \<open>\<open>reset_rule_metrics\<close>: every counter but the text of the last exception.\<close>

definition reset_counters :: "counters \<Rightarrow> counters" where
  "reset_counters c = counters_init\<lparr>ct_last_exception := ct_last_exception c\<rparr>"

subsection \<open>The router\<close>

datatype on_error_policy = Drop | Dlq | Halt

definition on_error_from_options :: "row option \<Rightarrow> on_error_policy" where
  "on_error_from_options options =
     (case options of
        None \<Rightarrow> Drop
      | Some opts \<Rightarrow>
          (let by_dlq = (if fmlookup opts ''dlq'' \<noteq> None then Dlq else Drop)
           in case Option.bind (fmlookup opts ''onError'') as_str of
                None \<Rightarrow> by_dlq
              | Some v \<Rightarrow>
                  (let w = to_ascii_lowercase v
                   in if w = ''dlq'' then Dlq else if w = ''halt'' then Halt
                      else if w = ''drop'' then Drop else by_dlq)))"

record dlq_router =
  dr_rule_id :: string
  dr_on_error :: on_error_policy
  dr_include_raw :: bool
  dr_capacity :: nat
  dr_external :: bool
  dr_manager :: bool

definition or_else :: "'a option \<Rightarrow> 'a option \<Rightarrow> 'a option" where
  "or_else a b = (case a of Some x \<Rightarrow> Some x | None \<Rightarrow> b)"

text \<open>The configuration part of \<open>DlqRouter::build\<close>; \<open>external\<close> says whether \<open>prepare_actions\<close>
  made a sink of the \<open>action\<close> option.\<close>

definition dlq_build :: "string \<Rightarrow> row option \<Rightarrow> (json \<Rightarrow> bool) \<Rightarrow> dlq_router" where
  "dlq_build rid options external =
     (let d = Option.bind options (\<lambda>o'. fmlookup o' ''dlq'');
          (cap, raw, act) =
            (case d of
               Some (Obj m) \<Rightarrow>
                 (case Option.bind (or_else (fmlookup m ''bufferCapacity'') (fmlookup m ''buffer_capacity'')) as_u64 of
                    Some n \<Rightarrow> nat n | None \<Rightarrow> 100,
                  case Option.bind (or_else (fmlookup m ''includeRawPayload'') (fmlookup m ''include_raw_payload'')) as_bool of
                    Some b \<Rightarrow> b | None \<Rightarrow> True,
                  fmlookup m ''action'')
             | _ \<Rightarrow> (100, True, None))
      in \<lparr>dr_rule_id = rid, dr_on_error = on_error_from_options options, dr_include_raw = raw,
          dr_capacity = cap, dr_external = (case act of Some a \<Rightarrow> external a | None \<Rightarrow> False),
          dr_manager = True\<rparr>)"

datatype dlq_effect = Dispatch dlq_envelope | HaltRule string string

definition ring_push :: "nat \<Rightarrow> 'a \<Rightarrow> 'a list \<Rightarrow> 'a list" where
  "ring_push capacity e buf = (if capacity \<le> length buf then tl buf else buf) @ [e]"

definition make_envelope ::
  "dlq_router \<Rightarrow> int \<Rightarrow> dlq_stage \<Rightarrow> string \<Rightarrow> string option \<Rightarrow> json option \<Rightarrow> string option \<Rightarrow> dlq_envelope" where
  "make_envelope D now stage err raw tup sink =
     (let e0 = envelope_new (dr_rule_id D) now stage err;
          e1 = (case raw of Some r \<Rightarrow> if dr_include_raw D then with_raw_payload r e0 else e0 | None \<Rightarrow> e0);
          e2 = (case tup of Some t \<Rightarrow> e1\<lparr>ev_tuple := Some t\<rparr> | None \<Rightarrow> e1)
      in case sink of Some s \<Rightarrow> e2\<lparr>ev_sink_type := Some s\<rparr> | None \<Rightarrow> e2)"

definition route_error ::
  "dlq_router \<Rightarrow> int \<Rightarrow> dlq_stage \<Rightarrow> string \<Rightarrow> string option \<Rightarrow> json option \<Rightarrow> string option
     \<Rightarrow> counters \<times> dlq_envelope list \<Rightarrow> (counters \<times> dlq_envelope list) \<times> dlq_effect list" where
  "route_error D now stage err raw tup sink st =
     (case st of
        (c, buf) \<Rightarrow>
          (let c1 = record_exception err c
           in if dr_on_error D = Drop then ((c1, buf), [])
              else (let e = make_envelope D now stage err raw tup sink
                    in ((inc_dlq stage c1, ring_push (dr_capacity D) e buf),
                        (if dr_external D then [Dispatch e] else []) @
                        (if dr_on_error D = Halt \<and> dr_manager D then [HaltRule (dr_rule_id D) err] else [])))))"

text \<open>The end of a dispatch: a failure is counted and does not enter the queue again.\<close>

definition dispatch_done :: "bool \<Rightarrow> counters \<Rightarrow> counters" where
  "dispatch_done ok c = (if ok then c else inc_dlq_sink_failures c)"

subsection \<open>Error records of the rule loops\<close>

text \<open>The first of the three error fields in the order the hash map lists its keys.\<close>

definition check_record_error :: "(row \<Rightarrow> string list) \<Rightarrow> (json \<Rightarrow> string) \<Rightarrow> row \<Rightarrow> string option" where
  "check_record_error key_order rd data =
     (case filter (\<lambda>k. k = ''error'' \<or> k = ''__error'' \<or> k = ''__raw_error__'') (key_order data) of
        [] \<Rightarrow> None
      | k # _ \<Rightarrow>
          map_option (\<lambda>v. case as_str v of Some s \<Rightarrow> s | None \<Rightarrow> rd v) (fmlookup data k))"

definition error_row :: "string \<Rightarrow> string \<Rightarrow> row" where
  "error_row rid err =
     fmupd ''__raw_error__'' (Str err) (fmupd ''rule_id'' (Str rid) (fmupd ''error'' (Str err) fmempty))"

text \<open>\<open>handle_runtime_error\<close> of a rule with a router: the record that \<open>sendError\<close> forwards to the
  sink is the last component.\<close>

definition handle_runtime_error ::
  "(json \<Rightarrow> string) \<Rightarrow> dlq_router \<Rightarrow> int \<Rightarrow> bool \<Rightarrow> string \<Rightarrow> dlq_stage option \<Rightarrow> row option
     \<Rightarrow> counters \<times> dlq_envelope list
     \<Rightarrow> (counters \<times> dlq_envelope list) \<times> dlq_effect list \<times> row list" where
  "handle_runtime_error rd D now send_error err stage data st =
     (let raw = or_else (Option.bind data (\<lambda>d. Option.bind (fmlookup d ''__raw_payload__'') as_str))
                  (map_option (\<lambda>d. rd (Obj d)) data)
      in case route_error D now (case stage of Some s \<Rightarrow> s | None \<Rightarrow> SqlEval) err raw
                (map_option Obj data) None st of
           (st1, effs) \<Rightarrow> (st1, effs, if send_error then [error_row (dr_rule_id D) err] else []))"

definition handle_error_record ::
  "(row \<Rightarrow> string list) \<Rightarrow> (json \<Rightarrow> string) \<Rightarrow> dlq_router \<Rightarrow> int \<Rightarrow> bool \<Rightarrow> row
     \<Rightarrow> counters \<times> dlq_envelope list
     \<Rightarrow> ((counters \<times> dlq_envelope list) \<times> dlq_effect list \<times> row list) option" where
  "handle_error_record key_order rd D now send_error data st =
     map_option (\<lambda>err. handle_runtime_error rd D now send_error err (Some CodecDecode) (Some data) st)
       (check_record_error key_order rd data)"

end
