(* ===== verification/Runners.thy ===== *)
theory Runners
  imports Sliding DeadLetter
begin

text \<open>
  The window runners of the rule engine (\<open>crates/rekuiper-server/src/engine/windows.rs\<close>): count,
  tumbling, session, hopping, sliding and state windows, in processing time and in event time.

  A runner is a loop over events: a record of the \<open>FROM\<close> stream, a record of a joined stream,
  the end of the joined streams, and the tick of its timer. Every arm of the loop is a step
  that returns the new state and the triggers it fires. \<open>now\<close> is the wall clock in milliseconds
  and \<open>inst\<close> the monotonic clock of the same moment. A trigger hands its rows to
  \<open>emit_window_batch\<close>, whose evaluation of joins is a parameter.
\<close>

subsection \<open>Records, timestamps and configuration\<close>

record tagged =
  tr_source :: string
  tr_data :: row

record event_time =
  et_enabled :: bool
  et_late_ms :: int
  et_field :: "string option"
  et_source_fields :: "(string, string) fmap"

record rcfg =
  rc_env :: wenv
  rc_stmt :: select_stmt
  rc_time :: event_time
  rc_inputs :: "string list"
  rc_joined :: "string list"
  rc_rfc3339 :: "string \<Rightarrow> int option"

definition parse_timestamp_val :: "(string \<Rightarrow> int option) \<Rightarrow> json \<Rightarrow> int option" where
  "parse_timestamp_val rfc v =
     (case as_i64 v of
        Some n \<Rightarrow> Some n
      | None \<Rightarrow>
          (case as_u64 v of
             Some n \<Rightarrow> Some (wrap64 n)
           | None \<Rightarrow>
               (case as_f64 v of
                  Some f \<Rightarrow> Some (f64_as_i64 f)
                | None \<Rightarrow>
                    (case v of
                       Str s \<Rightarrow> (case parse_i64 s of Some n \<Rightarrow> Some n | None \<Rightarrow> rfc s)
                     | _ \<Rightarrow> None))))"

definition extract_event_timestamp :: "(string \<Rightarrow> int option) \<Rightarrow> int \<Rightarrow> row \<Rightarrow> string option \<Rightarrow> int" where
  "extract_event_timestamp rfc now data fld =
     (case List.map_filter (\<lambda>k. Option.bind (fmlookup data k) (parse_timestamp_val rfc))
             ((case fld of Some f \<Rightarrow> [f] | None \<Rightarrow> []) @ [''timestamp'', ''ts'', ''event_time'', ''time'']) of
        t # _ \<Rightarrow> t
      | [] \<Rightarrow> now)"

definition event_ts :: "rcfg \<Rightarrow> int \<Rightarrow> tagged \<Rightarrow> int" where
  "event_ts C now r =
     extract_event_timestamp (rc_rfc3339 C) now (tr_data r)
       (case fmlookup (et_source_fields (rc_time C)) (tr_source r) of
          Some f \<Rightarrow> Some f | None \<Rightarrow> et_field (rc_time C))"

definition window_ingest_passes :: "env \<Rightarrow> select_stmt \<Rightarrow> row \<Rightarrow> bool" where
  "window_ingest_passes E stmt data \<longleftrightarrow>
     (joins stmt \<noteq> [] \<or> passes_where E stmt data) \<and>
     (case window_filter stmt of Some f \<Rightarrow> eval_bool E f data = Ok True | None \<Rightarrow> True)"

definition passes :: "rcfg \<Rightarrow> tagged \<Rightarrow> bool" where
  "passes C r = window_ingest_passes (w_env (rc_env C)) (rc_stmt C) (tr_data r)"

definition tumbling_window_duration :: "time_unit \<Rightarrow> nat \<Rightarrow> int" where
  "tumbling_window_duration u n =
     (let f = (case u of Ms \<Rightarrow> 1 | Ss \<Rightarrow> 1000 | Mi \<Rightarrow> 60000 | Hh \<Rightarrow> 3600000 | Dd \<Rightarrow> 86400000)
      in max 1 (min u64_max (int n * f)))"

text \<open>\<open>as_millis() as i64\<close>, and the streams a runner reads: the \<open>FROM\<close> stream unless it is a
  table, then the joined streams, without repetitions.\<close>

definition window_millis :: "int \<Rightarrow> int" where
  "window_millis duration_ms = wrap64 duration_ms"

definition push_new :: "string list \<Rightarrow> string \<Rightarrow> string list" where
  "push_new acc n = (if n \<in> set acc then acc else acc @ [n])"

definition input_streams :: "(string \<Rightarrow> bool) \<Rightarrow> string \<Rightarrow> string list \<Rightarrow> string list" where
  "input_streams is_table src joined = foldl push_new (if is_table src then [] else [src]) joined"

definition join_stream_names :: "string list \<Rightarrow> string list" where
  "join_stream_names joined = foldl push_new [] joined"

subsection \<open>Emission\<close>

datatype trigger = Batch "tagged list" bool "(int \<times> int) option" | Outputs "row list"

definition BATCH_ROWS_KEY :: string where "BATCH_ROWS_KEY = ''__batch_rows__''"

definition emit_window_outputs :: "row list \<Rightarrow> row list" where
  "emit_window_outputs outs =
     (case outs of
        [] \<Rightarrow> []
      | [o1] \<Rightarrow> [o1]
      | _ \<Rightarrow> [fmupd BATCH_ROWS_KEY (Arr (map Obj outs)) fmempty])"

definition with_bounds :: "(int \<times> int) option \<Rightarrow> tagged \<Rightarrow> tagged" where
  "with_bounds b r =
     (case b of
        None \<Rightarrow> r
      | Some (s, e) \<Rightarrow> r\<lparr>tr_data := fmupd ''__window_end__'' (of_i64 e)
                            (fmupd ''__window_start__'' (of_i64 s) (tr_data r))\<rparr>)"

definition emit_window_batch ::
  "rcfg \<Rightarrow> (tagged list \<Rightarrow> row list ev) \<Rightarrow> tagged list \<Rightarrow> bool \<Rightarrow> (int \<times> int) option \<Rightarrow> row list ev" where
  "emit_window_batch C join_eval batch prefiltered bounds =
     (if batch = [] then ev_ret []
      else (let rows = map (with_bounds bounds) batch; W = rc_env C; stmt = rc_stmt C
            in ev_bind
                 (if joins stmt = [] then
                    (if prefiltered then eval_window_filtered W True stmt (map tr_data rows)
                     else eval_window W True stmt (map tr_data rows))
                  else join_eval rows)
                 (\<lambda>outs. ev_ret (emit_window_outputs outs))))"

fun emit_trigger :: "rcfg \<Rightarrow> (tagged list \<Rightarrow> row list ev) \<Rightarrow> trigger \<Rightarrow> row list ev" where
  "emit_trigger C join_eval (Batch rows prefiltered bounds) = emit_window_batch C join_eval rows prefiltered bounds"
| "emit_trigger C join_eval (Outputs outs) = ev_ret (emit_window_outputs outs)"

subsection \<open>The contents of a processing-time window\<close>

datatype window_rows = Incremental inc_window | Buffered "tagged list"

definition rows_new :: "select_stmt \<Rightarrow> window_rows" where
  "rows_new stmt = (case inc_try_new stmt of Some w \<Rightarrow> Incremental w | None \<Rightarrow> Buffered [])"

fun rows_is_empty :: "window_rows \<Rightarrow> bool" where
  "rows_is_empty (Incremental w) = (iw_groups w = [])"
| "rows_is_empty (Buffered rs) = (rs = [])"

fun rows_push :: "libm \<Rightarrow> rcfg \<Rightarrow> tagged \<Rightarrow> window_rows \<Rightarrow> bool \<times> window_rows" where
  "rows_push L C r (Incremental w) =
     (case inc_push L (w_env (rc_env C)) (tr_data r) w of (ok, w') \<Rightarrow> (ok, Incremental w'))"
| "rows_push L C r (Buffered rs) = (if passes C r then (True, Buffered (rs @ [r])) else (False, Buffered rs))"

fun rows_emit :: "libm \<Rightarrow> rcfg \<Rightarrow> (int \<times> int) option \<Rightarrow> window_rows \<Rightarrow> trigger list \<times> window_rows" where
  "rows_emit L C bounds (Incremental w) =
     (if iw_groups w = [] then ([], Incremental w)
      else (case inc_take L (w_env (rc_env C)) w of (outs, w') \<Rightarrow> ([Outputs outs], Incremental w')))"
| "rows_emit L C bounds (Buffered rs) = ([Batch rs True bounds], Buffered [])"

subsection \<open>Watermarks\<close>

record marks =
  mk_mark :: int
  mk_max :: "(string, int) fmap"
  mk_closed :: "string list"

definition mk_init :: marks where
  "mk_init = \<lparr>mk_mark = i64_min, mk_max = fmempty, mk_closed = []\<rparr>"

definition active_streams :: "string list \<Rightarrow> marks \<Rightarrow> string list" where
  "active_streams inputs k = filter (\<lambda>s. s \<notin> set (mk_closed k)) inputs"

definition least_or :: "int \<Rightarrow> int list \<Rightarrow> int" where
  "least_or d xs = (case xs of [] \<Rightarrow> d | y # ys \<Rightarrow> foldl min y ys)"

definition advance_mark :: "string list \<Rightarrow> int \<Rightarrow> string \<Rightarrow> int \<Rightarrow> marks \<Rightarrow> marks" where
  "advance_mark inputs late src ts k =
     (let seen = (case fmlookup (mk_max k) src of Some t \<Rightarrow> max t ts | None \<Rightarrow> ts);
          maxs = fmupd src seen (mk_max k);
          act = active_streams inputs k;
          k1 = k\<lparr>mk_max := maxs\<rparr>
      in if list_all (\<lambda>s. fmlookup maxs s \<noteq> None) act
         then k1\<lparr>mk_mark := max (mk_mark k) (sat_sub (least_or ts (List.map_filter (fmlookup maxs) act)) late)\<rparr>
         else k1)"

definition close_joins :: "rcfg \<Rightarrow> marks \<Rightarrow> marks" where
  "close_joins C k = k\<lparr>mk_closed := mk_closed k @ rc_joined C\<rparr>"

subsection \<open>Count windows\<close>

record count_state =
  cw_buffer :: "tagged list"
  cw_since :: nat

definition cw_init :: count_state where
  "cw_init = \<lparr>cw_buffer = [], cw_since = 0\<rparr>"

definition cw_slots :: "nat \<Rightarrow> nat option \<Rightarrow> nat \<times> nat" where
  "cw_slots sz interval =
     (let count = max sz 1 in (count, max (case interval of Some i \<Rightarrow> i | None \<Rightarrow> count) 1))"

text \<open>The window that \<open>hop \<le> count\<close> records have completed; the oldest \<open>hop\<close> are discarded.\<close>

definition cw_full :: "nat \<Rightarrow> nat \<Rightarrow> int \<Rightarrow> count_state \<Rightarrow> count_state \<times> trigger list" where
  "cw_full count hop now s =
     (if count \<le> length (cw_buffer s)
      then (s\<lparr>cw_buffer := drop hop (cw_buffer s)\<rparr>,
            [Batch (take count (cw_buffer s)) False (Some (now, now))])
      else (s, []))"

definition cw_sampled :: "nat \<Rightarrow> int \<Rightarrow> count_state \<Rightarrow> count_state \<times> trigger list" where
  "cw_sampled hop now s =
     (if hop \<le> cw_since s
      then (\<lparr>cw_buffer = [], cw_since = 0\<rparr>,
            if cw_buffer s = [] then [] else [Batch (cw_buffer s) False (Some (now, now))])
      else (s, []))"

definition cw_trim :: "nat \<Rightarrow> count_state \<Rightarrow> count_state" where
  "cw_trim count s =
     (if count < length (cw_buffer s) then s\<lparr>cw_buffer := tl (cw_buffer s)\<rparr> else s)"

definition count_ingest :: "rcfg \<Rightarrow> nat \<Rightarrow> nat \<Rightarrow> int \<Rightarrow> tagged \<Rightarrow> count_state \<Rightarrow> count_state \<times> trigger list" where
  "count_ingest C count hop now r s =
     (if \<not> passes C r then (s, [])
      else (let s1 = \<lparr>cw_buffer = cw_buffer s @ [r], cw_since = cw_since s + 1\<rparr>
            in if hop \<le> count then cw_full count hop now s1
               else cw_sampled hop now (cw_trim count s1)))"

text \<open>The arm of the joined streams trims only when it triggers.\<close>

definition count_ingest_join :: "rcfg \<Rightarrow> nat \<Rightarrow> nat \<Rightarrow> int \<Rightarrow> tagged \<Rightarrow> count_state \<Rightarrow> count_state \<times> trigger list" where
  "count_ingest_join C count hop now r s =
     (if \<not> passes C r then (s, [])
      else (let s1 = \<lparr>cw_buffer = cw_buffer s @ [r], cw_since = cw_since s + 1\<rparr>
            in if hop \<le> count then cw_full count hop now s1
               else if hop \<le> cw_since s1 then cw_sampled hop now (cw_trim count s1) else (s1, [])))"

subsection \<open>Tumbling windows\<close>

record tumbling_state =
  tb_marks :: marks
  tb_start :: "int option"
  tb_buffer :: "(int \<times> tagged) list"
  tb_window :: window_rows

definition tb_init :: "select_stmt \<Rightarrow> tumbling_state" where
  "tb_init stmt = \<lparr>tb_marks = mk_init, tb_start = None, tb_buffer = [], tb_window = rows_new stmt\<rparr>"

text \<open>The loop that closes every window the watermark has passed: the window start, the
  buffer, and the closed windows with their bounds. It may run for ever.\<close>

partial_function (option) close_tumbling ::
  "int \<Rightarrow> int \<Rightarrow> int \<Rightarrow> (int \<times> 'a) list \<Rightarrow> (int \<times> (int \<times> 'a) list \<times> (int \<times> int \<times> 'a list) list) option" where
  "close_tumbling width mark t0 buf =
     (let t_end = sat_add t0 width
      in if mark < t_end then Some (t0, buf, [])
         else Option.bind (close_tumbling width mark t_end (filter (\<lambda>(ts, _). \<not> ts < t_end) buf))
           (\<lambda>(s, b, ws). Some (s, b,
              (t0, t_end, map snd (filter (\<lambda>(ts, _). t0 \<le> ts) (filter (\<lambda>(ts, _). ts < t_end) buf))) # ws)))"

definition as_triggers :: "(int \<times> int \<times> tagged list) list \<Rightarrow> trigger list" where
  "as_triggers ws = map (\<lambda>(s, e, rows). Batch rows True (Some (s, e))) ws"

definition lower_start :: "int \<Rightarrow> int option \<Rightarrow> int" where
  "lower_start aligned start =
     (case start of None \<Rightarrow> aligned | Some ws \<Rightarrow> if aligned < ws then aligned else ws)"

definition tumbling_ingest ::
  "libm \<Rightarrow> rcfg \<Rightarrow> int \<Rightarrow> int \<Rightarrow> tagged \<Rightarrow> tumbling_state \<Rightarrow> (tumbling_state \<times> trigger list) option" where
  "tumbling_ingest L C width now r s =
     (if \<not> et_enabled (rc_time C) then Some (s\<lparr>tb_window := snd (rows_push L C r (tb_window s))\<rparr>, [])
      else (let ts = event_ts C now r
            in if ts < mk_mark (tb_marks s) then Some (s, [])
               else (let k = advance_mark (rc_inputs C) (et_late_ms (rc_time C)) (tr_source r) ts (tb_marks s);
                         start = lower_start (wrap64 (ts - ts mod max 1 width)) (tb_start s);
                         buf = (if passes C r then tb_buffer s @ [(ts, r)] else tb_buffer s)
                     in Option.bind (close_tumbling width (mk_mark k) start buf)
                          (\<lambda>(st, b, ws). Some (s\<lparr>tb_marks := k, tb_start := Some st, tb_buffer := b\<rparr>,
                                              as_triggers ws)))))"

definition tumbling_tick :: "libm \<Rightarrow> rcfg \<Rightarrow> int \<Rightarrow> int \<Rightarrow> tumbling_state \<Rightarrow> tumbling_state \<times> trigger list" where
  "tumbling_tick L C width now s =
     (if et_enabled (rc_time C) \<or> rows_is_empty (tb_window s) then (s, [])
      else (let end_ms = now - now mod max 1 width
            in case rows_emit L C (Some (end_ms - width, end_ms)) (tb_window s) of
                 (trs, w) \<Rightarrow> (s\<lparr>tb_window := w\<rparr>, trs)))"

subsection \<open>Session windows\<close>

record session_state =
  ss_marks :: marks
  ss_buffer :: "(int \<times> tagged) list"
  ss_start :: "int option"
  ss_last :: "int option"
  ss_window :: window_rows
  ss_opened :: "(int \<times> int) option"

definition ss_init :: "select_stmt \<Rightarrow> session_state" where
  "ss_init stmt = \<lparr>ss_marks = mk_init, ss_buffer = [], ss_start = None, ss_last = None,
     ss_window = rows_new stmt, ss_opened = None\<rparr>"

definition or_val :: "int \<Rightarrow> int option \<Rightarrow> int" where
  "or_val d v = (case v of Some x \<Rightarrow> x | None \<Rightarrow> d)"

definition session_close :: "int \<Rightarrow> int \<Rightarrow> session_state \<Rightarrow> trigger" where
  "session_close timeout prev s =
     Batch (map snd (ss_buffer s)) True (Some (or_val prev (ss_start s), sat_add prev timeout))"

text \<open>A record that passes the filter extends the open session, or closes it and opens the next.\<close>

definition session_add :: "int \<Rightarrow> int \<Rightarrow> int \<Rightarrow> tagged \<Rightarrow> session_state \<Rightarrow> session_state \<times> trigger list" where
  "session_add timeout max_dur ts r s =
     (case ss_last s of
        None \<Rightarrow> (s\<lparr>ss_start := Some ts, ss_last := Some ts, ss_buffer := ss_buffer s @ [(ts, r)]\<rparr>, [])
      | Some prev \<Rightarrow>
          if timeout < sat_sub ts prev \<or> max_dur \<le> sat_sub ts (or_val ts (ss_start s))
          then (s\<lparr>ss_start := Some ts, ss_last := Some ts, ss_buffer := [(ts, r)]\<rparr>,
                [session_close timeout prev s])
          else (s\<lparr>ss_last := Some ts, ss_buffer := ss_buffer s @ [(ts, r)]\<rparr>, []))"

text \<open>The watermark closes a session whose gap has run out.\<close>

definition session_expire :: "int \<Rightarrow> int \<Rightarrow> session_state \<Rightarrow> session_state \<times> trigger list" where
  "session_expire timeout mark s =
     (case ss_last s of
        None \<Rightarrow> (s, [])
      | Some prev \<Rightarrow>
          if sat_add prev timeout \<le> mark
          then (s\<lparr>ss_start := None, ss_last := None, ss_buffer := []\<rparr>, [session_close timeout prev s])
          else (s, []))"

definition session_ingest ::
  "libm \<Rightarrow> rcfg \<Rightarrow> int \<Rightarrow> int \<Rightarrow> int \<Rightarrow> int \<Rightarrow> tagged \<Rightarrow> session_state \<Rightarrow> session_state \<times> trigger list" where
  "session_ingest L C timeout max_dur now inst r s =
     (if \<not> et_enabled (rc_time C) then
        (case rows_push L C r (ss_window s) of
           (ok, w) \<Rightarrow>
             (s\<lparr>ss_window := w,
                ss_opened := (if ok \<and> ss_opened s = None then Some (inst, now) else ss_opened s)\<rparr>, []))
      else (let ts = event_ts C now r
            in if ts < mk_mark (ss_marks s) then (s, [])
               else (let k = advance_mark (rc_inputs C) (et_late_ms (rc_time C)) (tr_source r) ts (ss_marks s);
                         (s1, t1) = (if passes C r then session_add timeout max_dur ts r (s\<lparr>ss_marks := k\<rparr>)
                                     else (s\<lparr>ss_marks := k\<rparr>, []));
                         (s2, t2) = session_expire timeout (mk_mark k) s1
                     in (s2, t1 @ t2))))"

text \<open>The idle timer, the maximum duration and the end of the input.\<close>

definition session_emit_pt :: "libm \<Rightarrow> rcfg \<Rightarrow> int \<Rightarrow> session_state \<Rightarrow> session_state \<times> trigger list" where
  "session_emit_pt L C now s =
     (case rows_emit L C (Some (case ss_opened s of Some (_, ms) \<Rightarrow> ms | None \<Rightarrow> now, now)) (ss_window s) of
        (trs, w) \<Rightarrow> (s\<lparr>ss_window := w, ss_opened := None\<rparr>, trs))"

definition session_idle :: "libm \<Rightarrow> rcfg \<Rightarrow> int \<Rightarrow> session_state \<Rightarrow> session_state \<times> trigger list" where
  "session_idle L C now s =
     (if ss_opened s \<noteq> None \<and> \<not> et_enabled (rc_time C) then session_emit_pt L C now s else (s, []))"

definition session_max_check :: "libm \<Rightarrow> rcfg \<Rightarrow> int \<Rightarrow> int \<Rightarrow> int \<Rightarrow> session_state \<Rightarrow> session_state \<times> trigger list" where
  "session_max_check L C max_dur_inst now inst s =
     (case ss_opened s of
        Some (opened, _) \<Rightarrow>
          if \<not> et_enabled (rc_time C) \<and> max_dur_inst \<le> inst - opened then session_emit_pt L C now s else (s, [])
      | None \<Rightarrow> (s, []))"

definition session_finish :: "rcfg \<Rightarrow> int \<Rightarrow> session_state \<Rightarrow> trigger list" where
  "session_finish C timeout s =
     (if et_enabled (rc_time C) \<and> ss_buffer s \<noteq> []
      then [Batch (map snd (ss_buffer s)) True
              (Some (or_val 0 (ss_start s), sat_add (or_val 0 (ss_last s)) timeout))]
      else [])"

end
