(* ===== verification/HoppingRunners.thy ===== *)
theory HoppingRunners
  imports Runners
begin

text \<open>
  The hopping, sliding and state windows of
  \<open>crates/rekuiper-server/src/engine/windows.rs\<close>, and the loop that all runners share.
\<close>

subsection \<open>Hopping windows\<close>

record hopping_state =
  hp_marks :: marks
  hp_buffer :: "(int \<times> tagged) list"
  hp_next :: "int option"
  hp_pt :: "(int \<times> tagged) list"

definition hp_init :: hopping_state where
  "hp_init = \<lparr>hp_marks = mk_init, hp_buffer = [], hp_next = None, hp_pt = []\<rparr>"

partial_function (option) close_hops ::
  "int \<Rightarrow> int \<Rightarrow> int \<Rightarrow> int \<Rightarrow> (int \<times> 'a) list \<Rightarrow> (int \<times> (int \<times> 'a) list \<times> (int \<times> int \<times> 'a list) list) option" where
  "close_hops len hop mark cur_end buf =
     (if mark < cur_end then Some (cur_end, buf, [])
      else (let cur_start = sat_sub cur_end len;
                batch = map snd (filter (\<lambda>(ts, _). cur_start \<le> ts \<and> ts < cur_end) buf);
                next_end = sat_add cur_end hop;
                retain_after = sat_sub next_end len
            in Option.bind (close_hops len hop mark next_end (filter (\<lambda>(ts, _). retain_after \<le> ts) buf))
                 (\<lambda>(e, b, ws). Some (e, b, (if batch = [] then ws else (cur_start, cur_end, batch) # ws)))))"

definition hopping_ingest ::
  "rcfg \<Rightarrow> int \<Rightarrow> int \<Rightarrow> int \<Rightarrow> int \<Rightarrow> tagged \<Rightarrow> hopping_state \<Rightarrow> (hopping_state \<times> trigger list) option" where
  "hopping_ingest C len hop now inst r s =
     (if \<not> et_enabled (rc_time C) then
        Some (if passes C r then s\<lparr>hp_pt := hp_pt s @ [(inst, r)]\<rparr> else s, [])
      else (let ts = event_ts C now r
            in if ts < mk_mark (hp_marks s) then Some (s, [])
               else (let k = advance_mark (rc_inputs C) (et_late_ms (rc_time C)) (tr_source r) ts (hp_marks s);
                         nxt = (case hp_next s of Some e \<Rightarrow> e | None \<Rightarrow> wrap64 (ts - ts mod hop + hop));
                         buf = (if passes C r then hp_buffer s @ [(ts, r)] else hp_buffer s)
                     in Option.bind (close_hops len hop (mk_mark k) nxt buf)
                          (\<lambda>(e, b, ws). Some (s\<lparr>hp_marks := k, hp_next := Some e, hp_buffer := b\<rparr>,
                                             as_triggers ws)))))"

definition hopping_tick :: "rcfg \<Rightarrow> int \<Rightarrow> int \<Rightarrow> int \<Rightarrow> int \<Rightarrow> int \<Rightarrow> hopping_state \<Rightarrow> hopping_state \<times> trigger list" where
  "hopping_tick C len hop len_inst now inst s =
     (if et_enabled (rc_time C) then (s, [])
      else (let live = filter (\<lambda>(t, _). inst - t \<le> len_inst) (hp_pt s);
                end_ms = now - now mod hop
            in (s\<lparr>hp_pt := live\<rparr>,
                if live = [] then []
                else [Batch (map snd live) True (Some (sat_sub end_ms len, end_ms))])))"

subsection \<open>Sliding windows\<close>

record sliding_state =
  sl_marks :: marks
  sl_buffer :: "(int \<times> tagged) list"
  sl_pending :: "(int \<times> int) list"
  sl_pt :: "(int \<times> tagged) list"
  sl_pt_pending :: "(int \<times> int \<times> int) list"
  sl_inc :: "sliding_window option"

definition sl_init :: "rcfg \<Rightarrow> int option \<Rightarrow> sliding_state" where
  "sl_init C delay =
     \<lparr>sl_marks = mk_init, sl_buffer = [], sl_pending = [], sl_pt = [], sl_pt_pending = [],
      sl_inc = (if \<not> et_enabled (rc_time C) \<and> window_trigger_condition (rc_stmt C) = None \<and> delay = None
                then sliding_try_new (rc_stmt C) else None)\<rparr>"

definition slide_triggers :: "rcfg \<Rightarrow> tagged \<Rightarrow> bool" where
  "slide_triggers C r =
     (case window_trigger_condition (rc_stmt C) of
        Some c \<Rightarrow> eval_bool (w_env (rc_env C)) c (tr_data r) = Ok True
      | None \<Rightarrow> True)"

definition rows_between :: "int \<Rightarrow> int \<Rightarrow> (int \<times> 'a) list \<Rightarrow> 'a list" where
  "rows_between lo hi buf = map snd (filter (\<lambda>(ts, _). lo \<le> ts \<and> ts \<le> hi) buf)"

text \<open>Delayed triggers whose deadline the watermark has passed, in the order of their deadlines.\<close>

fun fire_pending ::
  "int \<Rightarrow> int \<Rightarrow> (int \<times> tagged) list \<Rightarrow> (int \<times> int) list \<Rightarrow> (int \<times> int) list \<times> trigger list" where
  "fire_pending len mark buf [] = ([], [])"
| "fire_pending len mark buf ((t, deadline) # ps) =
     (if deadline \<le> mark
      then (let lo = sat_sub t len
            in case fire_pending len mark buf ps of
                 (rest, trs) \<Rightarrow> (rest, Batch (rows_between lo mark buf) True (Some (lo, mark)) # trs))
      else ((t, deadline) # ps, []))"

definition sliding_et ::
  "rcfg \<Rightarrow> int \<Rightarrow> int \<Rightarrow> int \<Rightarrow> tagged \<Rightarrow> sliding_state \<Rightarrow> sliding_state \<times> trigger list" where
  "sliding_et C len delay_ms ts r s =
     (let k = advance_mark (rc_inputs C) (et_late_ms (rc_time C)) (tr_source r) ts (sl_marks s);
          buf = sort_key fst (sl_buffer s @ [(ts, r)]);
          fires = slide_triggers C r;
          pending = (if fires \<and> 0 < delay_ms
                     then sort_key snd (sl_pending s @ [(ts, sat_add ts delay_ms)]) else sl_pending s);
          at_once = (if fires \<and> \<not> 0 < delay_ms
                     then (let lo = sat_sub ts len in [Batch (rows_between lo ts buf) True (Some (lo, ts))])
                     else []);
          (rest, late) = fire_pending len (mk_mark k) buf pending;
          keep = sat_sub (min (case rest of [] \<Rightarrow> ts | (t, _) # _ \<Rightarrow> t) ts) len
      in (s\<lparr>sl_marks := k, sl_pending := rest, sl_buffer := filter (\<lambda>(t, _). keep \<le> t) buf\<rparr>, at_once @ late))"

text \<open>Processing time: the distance of two instants saturates at zero.\<close>

definition in_reach :: "int \<Rightarrow> int \<Rightarrow> int \<Rightarrow> bool" where
  "in_reach len_inst anchor t \<longleftrightarrow> max 0 (anchor - t) \<le> len_inst"

definition pt_anchor :: "int \<Rightarrow> (int \<times> int \<times> int) list \<Rightarrow> int" where
  "pt_anchor inst ps = (case ps of [] \<Rightarrow> inst | (t, _, _) # _ \<Rightarrow> t)"

definition sliding_pt ::
  "rcfg \<Rightarrow> int \<Rightarrow> int \<Rightarrow> int option \<Rightarrow> int \<Rightarrow> int \<Rightarrow> tagged \<Rightarrow> sliding_state \<Rightarrow> sliding_state \<times> trigger list" where
  "sliding_pt C len len_inst delay_inst now inst r s =
     (let buf = filter (\<lambda>(t, _). in_reach len_inst (pt_anchor inst (sl_pt_pending s)) t) (sl_pt s @ [(inst, r)]);
          s1 = s\<lparr>sl_pt := buf\<rparr>
      in if slide_triggers C r \<and> buf \<noteq> [] then
           (case delay_inst of
              Some d \<Rightarrow>
                if d \<noteq> 0 then (s1\<lparr>sl_pt_pending := sl_pt_pending s @ [(inst, inst + d, now)]\<rparr>, [])
                else (s1, [Batch (map snd buf) True (Some (sat_sub now len, now))])
            | None \<Rightarrow> (s1, [Batch (map snd buf) True (Some (sat_sub now len, now))]))
         else (s1, []))"

definition sliding_inc_step :: "rcfg \<Rightarrow> int \<Rightarrow> int \<Rightarrow> tagged \<Rightarrow> sliding_window \<Rightarrow> sliding_window \<times> trigger list" where
  "sliding_inc_step C len now r w =
     (let E = w_env (rc_env C);
          w1 = snd (sw_push E now (tr_data r) (sw_evict_before (sat_sub now len) w));
          outs = sw_snapshot E w1
      in (w1, if outs = [] then [] else [Outputs outs]))"

definition sliding_ingest ::
  "rcfg \<Rightarrow> int \<Rightarrow> int \<Rightarrow> int \<Rightarrow> int option \<Rightarrow> int \<Rightarrow> int \<Rightarrow> tagged \<Rightarrow> sliding_state \<Rightarrow> sliding_state \<times> trigger list" where
  "sliding_ingest C len len_inst delay_ms delay_inst now inst r s =
     (if \<not> passes C r then (s, [])
      else if et_enabled (rc_time C) then
        (let ts = event_ts C now r
         in if ts < mk_mark (sl_marks s) then (s, []) else sliding_et C len delay_ms ts r s)
      else (case sl_inc s of
              Some w \<Rightarrow> (case sliding_inc_step C len now r w of (w1, trs) \<Rightarrow> (s\<lparr>sl_inc := Some w1\<rparr>, trs))
            | None \<Rightarrow> sliding_pt C len len_inst delay_inst now inst r s))"

fun fire_deadlines ::
  "bool \<Rightarrow> int \<Rightarrow> int \<Rightarrow> int \<Rightarrow> int \<Rightarrow> (int \<times> tagged) list \<Rightarrow> (int \<times> int \<times> int) list
     \<Rightarrow> (int \<times> int \<times> int) list \<times> trigger list" where
  "fire_deadlines running len len_inst now inst buf [] = ([], [])"
| "fire_deadlines running len len_inst now inst buf ((t, deadline, ms) # ps) =
     (if inst < deadline then ((t, deadline, ms) # ps, [])
      else (let batch = map snd (filter (\<lambda>(u, _). if u \<le> t then in_reach len_inst t u else u \<le> deadline) buf)
            in case fire_deadlines running len len_inst now inst buf ps of
                 (rest, trs) \<Rightarrow>
                   (rest, if running \<and> batch \<noteq> []
                          then Batch batch True (Some (sat_sub ms len, now)) # trs else trs)))"

definition sliding_deadline ::
  "bool \<Rightarrow> int \<Rightarrow> int \<Rightarrow> int \<Rightarrow> int \<Rightarrow> sliding_state \<Rightarrow> sliding_state \<times> trigger list" where
  "sliding_deadline running len len_inst now inst s =
     (case fire_deadlines running len len_inst now inst (sl_pt s) (sl_pt_pending s) of
        (rest, trs) \<Rightarrow>
          (s\<lparr>sl_pt_pending := rest,
             sl_pt := filter (\<lambda>(t, _). in_reach len_inst (pt_anchor inst rest) t) (sl_pt s)\<rparr>, trs))"

subsection \<open>State windows\<close>

record state_window =
  st_on_begin :: bool
  st_start_time :: int
  st_buffer :: "tagged list"

definition st_new :: state_window where
  "st_new = \<lparr>st_on_begin = False, st_start_time = 0, st_buffer = []\<rparr>"

definition eval_bool_stateful :: "env \<Rightarrow> expr \<Rightarrow> row \<Rightarrow> rule_map \<Rightarrow> bool \<times> rule_map" where
  "eval_bool_stateful E c data m =
     (case eval_bool_stateful_fallible E c data fmempty m of (r, m') \<Rightarrow> (unwrap_or False r = Ok True, m'))"

text \<open>One partition; \<open>start_holds\<close> and \<open>end_holds\<close> evaluate the conditions on the record.\<close>

definition state_step ::
  "(rule_map \<Rightarrow> bool \<times> rule_map) \<Rightarrow> (rule_map \<Rightarrow> bool \<times> rule_map) option \<Rightarrow> int \<Rightarrow> tagged \<Rightarrow> state_window
     \<Rightarrow> rule_map \<Rightarrow> state_window \<times> trigger list \<times> rule_map" where
  "state_step start_holds end_holds ts r p m =
     (if \<not> st_on_begin p then
        (case start_holds m of
           (b, m1) \<Rightarrow>
             (if b then p\<lparr>st_start_time := ts, st_on_begin := True, st_buffer := st_buffer p @ [r]\<rparr> else p, [], m1))
      else (case end_holds of
              Some f \<Rightarrow>
                (let buf = st_buffer p @ [r]
                 in case f m of
                      (b, m1) \<Rightarrow>
                        if b then (p\<lparr>st_on_begin := False, st_buffer := []\<rparr>,
                                   [Batch buf True (Some (st_start_time p, ts))], m1)
                        else (p\<lparr>st_buffer := buf\<rparr>, [], m1))
            | None \<Rightarrow>
                (case start_holds m of
                   (b, m1) \<Rightarrow>
                     if b then (p\<lparr>st_start_time := ts, st_buffer := [r]\<rparr>,
                                [Batch (st_buffer p) True (Some (st_start_time p, ts))], m1)
                     else (p\<lparr>st_buffer := st_buffer p @ [r]\<rparr>, [], m1))))"

record state_parts =
  sp_parts :: "(string, state_window) fmap"
  sp_rule :: rule_map

text \<open>The conditions and the projection of a closed window share the state of the rule, so a
  trigger is evaluated before the next record.\<close>

definition state_ingest ::
  "rcfg \<Rightarrow> (tagged list \<Rightarrow> row list ev) \<Rightarrow> expr \<Rightarrow> expr option \<Rightarrow> int \<Rightarrow> tagged \<Rightarrow> state_parts
     \<Rightarrow> state_parts \<times> trigger list" where
  "state_ingest C join_eval start_cond end_cond now r s =
     (if \<not> passes C r then (s, [])
      else (let E = w_env (rc_env C);
                ts = (if et_enabled (rc_time C) then event_ts C now r else now);
                key = (case window_partition_by (rc_stmt C) of
                         Some e \<Rightarrow> render E (row_ev E e (tr_data r)) | None \<Rightarrow> []);
                p = (case fmlookup (sp_parts s) key of Some p \<Rightarrow> p | None \<Rightarrow> st_new);
                holds = (\<lambda>c. eval_bool_stateful E c (tr_data r))
            in case state_step (holds start_cond) (map_option holds end_cond) ts r p (sp_rule s) of
                 (p', trs, m) \<Rightarrow>
                   (\<lparr>sp_parts = fmupd key p' (sp_parts s),
                     sp_rule = snd (ev_all (map (emit_trigger C join_eval) trs) m)\<rparr>, trs)))"

subsection \<open>The loop\<close>

datatype runner_event =
    FromRecord row
  | JoinRecord tagged
  | JoinsClosed
  | Timer
  | Idle
  | FromClosed

text \<open>What a runner does in each arm of \<open>select!\<close> and after the loop; a step that does not return
  makes the run \<open>None\<close>.\<close>

record 's arms =
  arm_from :: "int \<Rightarrow> int \<Rightarrow> tagged \<Rightarrow> 's \<Rightarrow> ('s \<times> trigger list) option"
  arm_join :: "int \<Rightarrow> int \<Rightarrow> tagged \<Rightarrow> 's \<Rightarrow> ('s \<times> trigger list) option"
  arm_joins_closed :: "'s \<Rightarrow> 's"
  arm_timer :: "bool \<Rightarrow> int \<Rightarrow> int \<Rightarrow> 's \<Rightarrow> 's \<times> trigger list"
  arm_idle :: "int \<Rightarrow> 's \<Rightarrow> 's \<times> trigger list"
  arm_finish :: "'s \<Rightarrow> trigger list"

datatype loop_out = Fire trigger | ErrorRow row | Effect dlq_effect

record 's loop_state =
  lp_state :: 's
  lp_joins_open :: bool
  lp_counters :: counters
  lp_dlq :: "dlq_envelope list"
  lp_ended :: bool

record loop_cfg =
  lc_from :: string
  lc_router :: dlq_router
  lc_send_error :: bool
  lc_key_order :: "row \<Rightarrow> string list"
  lc_render :: "json \<Rightarrow> string"

text \<open>What happens, whether the status of the rule is \<open>running\<close> at that moment, and the clocks.\<close>

record moment =
  mo_event :: runner_event
  mo_running :: bool
  mo_now :: int
  mo_inst :: int

definition end_loop :: "'s arms \<Rightarrow> 's loop_state \<Rightarrow> 's loop_state \<times> loop_out list" where
  "end_loop A s = (s\<lparr>lp_ended := True\<rparr>, map Fire (arm_finish A (lp_state s)))"

text \<open>A record of a rule that is not running is skipped; an error record goes to the error handler
  and never reaches the window, and the policy \<open>halt\<close> ends the loop.\<close>

definition take_record ::
  "loop_cfg \<Rightarrow> 's arms \<Rightarrow> moment \<Rightarrow> ('s \<Rightarrow> ('s \<times> trigger list) option) \<Rightarrow> row \<Rightarrow> 's loop_state
     \<Rightarrow> ('s loop_state \<times> loop_out list) option" where
  "take_record L A mo ingest data s =
     (if \<not> mo_running mo then Some (s, [])
      else (let c = inc_source 1 (lp_counters s)
            in case handle_error_record (lc_key_order L) (lc_render L) (lc_router L) (mo_now mo)
                      (lc_send_error L) data (c, lp_dlq s) of
                 Some ((c1, q), effs, rows) \<Rightarrow>
                   (let s1 = s\<lparr>lp_counters := c1, lp_dlq := q\<rparr>;
                        outs = map Effect effs @ map ErrorRow rows
                    in if dr_on_error (lc_router L) = Halt
                       then (case end_loop A s1 of (s2, o2) \<Rightarrow> Some (s2, outs @ o2))
                       else Some (s1, outs))
               | None \<Rightarrow>
                   map_option (\<lambda>(t, trs). (s\<lparr>lp_counters := c, lp_state := t\<rparr>, map Fire trs))
                     (ingest (lp_state s))))"

definition loop_step ::
  "loop_cfg \<Rightarrow> 's arms \<Rightarrow> moment \<Rightarrow> 's loop_state \<Rightarrow> ('s loop_state \<times> loop_out list) option" where
  "loop_step L A mo s =
     (if lp_ended s then Some (s, [])
      else case mo_event mo of
             FromRecord data \<Rightarrow>
               take_record L A mo
                 (arm_from A (mo_now mo) (mo_inst mo) \<lparr>tr_source = lc_from L, tr_data = data\<rparr>) data s
           | JoinRecord r \<Rightarrow>
               (if lp_joins_open s
                then take_record L A mo (arm_join A (mo_now mo) (mo_inst mo) r) (tr_data r) s
                else Some (s, []))
           | JoinsClosed \<Rightarrow>
               Some (if lp_joins_open s
                     then s\<lparr>lp_joins_open := False, lp_state := arm_joins_closed A (lp_state s)\<rparr> else s, [])
           | Timer \<Rightarrow>
               (case arm_timer A (mo_running mo) (mo_now mo) (mo_inst mo) (lp_state s) of
                  (t, trs) \<Rightarrow> Some (s\<lparr>lp_state := t\<rparr>, map Fire trs))
           | Idle \<Rightarrow>
               (case arm_idle A (mo_now mo) (lp_state s) of
                  (t, trs) \<Rightarrow> Some (s\<lparr>lp_state := t\<rparr>, map Fire trs))
           | FromClosed \<Rightarrow> Some (end_loop A s))"

fun run_loop ::
  "loop_cfg \<Rightarrow> 's arms \<Rightarrow> moment list \<Rightarrow> 's loop_state \<Rightarrow> ('s loop_state \<times> loop_out list) option" where
  "run_loop L A [] s = Some (s, [])"
| "run_loop L A (mo # mos) s =
     Option.bind (loop_step L A mo s) (\<lambda>(s1, o1).
     Option.bind (run_loop L A mos s1) (\<lambda>(s2, o2). Some (s2, o1 @ o2)))"

definition loop_init :: "'s \<Rightarrow> 's loop_state" where
  "loop_init st = \<lparr>lp_state = st, lp_joins_open = True, lp_counters = counters_init, lp_dlq = [], lp_ended = False\<rparr>"

subsection \<open>The runners\<close>

definition run_count_window_rule :: "rcfg \<Rightarrow> nat \<Rightarrow> nat option \<Rightarrow> count_state arms" where
  "run_count_window_rule C sz interval =
     (case cw_slots sz interval of
        (count, hop) \<Rightarrow>
          \<lparr>arm_from = (\<lambda>now inst r s. Some (count_ingest C count hop now r s)),
           arm_join = (\<lambda>now inst r s. Some (count_ingest_join C count hop now r s)),
           arm_joins_closed = id, arm_timer = (\<lambda>_ now inst s. (s, [])), arm_idle = (\<lambda>now s. (s, [])),
           arm_finish = (\<lambda>_. [])\<rparr>)"

definition run_tumbling_window_rule :: "libm \<Rightarrow> rcfg \<Rightarrow> int \<Rightarrow> tumbling_state arms" where
  "run_tumbling_window_rule L C width =
     \<lparr>arm_from = (\<lambda>now inst r s. tumbling_ingest L C width now r s),
      arm_join = (\<lambda>now inst r s. tumbling_ingest L C width now r s),
      arm_joins_closed = (\<lambda>s. s\<lparr>tb_marks := close_joins C (tb_marks s)\<rparr>),
      arm_timer = (\<lambda>_ now inst s. tumbling_tick L C width now s), arm_idle = (\<lambda>now s. (s, [])),
      arm_finish = (\<lambda>_. [])\<rparr>"

definition run_session_window_rule :: "libm \<Rightarrow> rcfg \<Rightarrow> int \<Rightarrow> int \<Rightarrow> int \<Rightarrow> session_state arms" where
  "run_session_window_rule L C max_dur_ms timeout_ms max_dur_inst =
     (let timeout = max 1 timeout_ms; max_dur = max 1 max_dur_ms;
          ingest = (\<lambda>now inst r s. Some (session_ingest L C timeout max_dur now inst r s))
      in \<lparr>arm_from = ingest, arm_join = ingest,
          arm_joins_closed = (\<lambda>s. s\<lparr>ss_marks := close_joins C (ss_marks s)\<rparr>),
          arm_timer = (\<lambda>_ now inst s. session_max_check L C max_dur_inst now inst s),
          arm_idle = (\<lambda>now s. session_idle L C now s),
          arm_finish = session_finish C timeout\<rparr>)"

definition run_hopping_window_rule :: "rcfg \<Rightarrow> int \<Rightarrow> int \<Rightarrow> int \<Rightarrow> hopping_state arms" where
  "run_hopping_window_rule C len hop_ms len_inst =
     (let hop = max 1 hop_ms; ingest = (\<lambda>now inst r s. hopping_ingest C len hop now inst r s)
      in \<lparr>arm_from = ingest, arm_join = ingest,
          arm_joins_closed = (\<lambda>s. s\<lparr>hp_marks := close_joins C (hp_marks s)\<rparr>),
          arm_timer = (\<lambda>_ now inst s. hopping_tick C len hop len_inst now inst s),
          arm_idle = (\<lambda>now s. (s, [])), arm_finish = (\<lambda>_. [])\<rparr>)"

definition run_sliding_window_rule ::
  "rcfg \<Rightarrow> int \<Rightarrow> int \<Rightarrow> int option \<Rightarrow> int option \<Rightarrow> sliding_state arms" where
  "run_sliding_window_rule C len len_inst delay_ms delay_inst =
     (let ingest = (\<lambda>now inst r s. Some (sliding_ingest C len len_inst (or_val 0 delay_ms) delay_inst now inst r s))
      in \<lparr>arm_from = ingest, arm_join = ingest,
          arm_joins_closed = (\<lambda>s. s\<lparr>sl_marks := close_joins C (sl_marks s)\<rparr>),
          arm_timer = (\<lambda>running now inst s. sliding_deadline running len len_inst now inst s),
          arm_idle = (\<lambda>now s. (s, [])), arm_finish = (\<lambda>_. [])\<rparr>)"

definition run_state_window_rule ::
  "rcfg \<Rightarrow> (tagged list \<Rightarrow> row list ev) \<Rightarrow> expr \<Rightarrow> expr option \<Rightarrow> state_parts arms" where
  "run_state_window_rule C join_eval start_cond end_cond =
     (let ingest = (\<lambda>now inst r s. Some (state_ingest C join_eval start_cond end_cond now r s))
      in \<lparr>arm_from = ingest, arm_join = ingest, arm_joins_closed = id,
          arm_timer = (\<lambda>_ now inst s. (s, [])), arm_idle = (\<lambda>now s. (s, [])), arm_finish = (\<lambda>_. [])\<rparr>)"

end
