(* ===== verification/Demo.thy ===== *)
theory Demo
  imports Accumulators Eval_Props HoppingRunners
begin

text \<open>
  Concrete instances of the parameters and concrete configurations, on which the witnesses
  evaluate the definitions.
\<close>

definition demo_libm :: libm where
  "demo_libm = \<lparr>f64_ln = id, f64_exp = id\<rparr>"

definition demo_wenv :: wenv where
  "demo_wenv = \<lparr>w_env = demo_env, w_call = (\<lambda>n _. Err (CallError n)), w_hits = (\<lambda>_ _. Null)\<rparr>"

definition group_stmt :: "expr list \<Rightarrow> expr list \<Rightarrow> select_stmt" where
  "group_stmt fs gs =
     SelectStmt fs [] ''s'' None [] None gs None None None None None [] None None"

definition reading :: "string \<Rightarrow> json \<Rightarrow> row" where
  "reading d t = fmupd ''d'' (Str d) (fmupd ''t'' t fmempty)"

subsection \<open>Runners\<close>

text \<open>\<open>SELECT * FROM s\<close> in event time with a tolerance, reading the field \<open>ts\<close>.\<close>

definition demo_time :: "int \<Rightarrow> event_time" where
  "demo_time late = \<lparr>et_enabled = True, et_late_ms = late, et_field = None, et_source_fields = fmempty\<rparr>"

definition demo_rcfg :: "int \<Rightarrow> rcfg" where
  "demo_rcfg late =
     \<lparr>rc_env = demo_wenv, rc_stmt = group_stmt [Wildcard] [], rc_time = demo_time late,
      rc_inputs = input_streams (\<lambda>_. False) ''s'' [], rc_joined = [], rc_rfc3339 = (\<lambda>_. None)\<rparr>"

definition at_ts :: "int \<Rightarrow> row" where
  "at_ts t = fmupd ''ts'' (of_i64 t) fmempty"

definition demo_loop :: loop_cfg where
  "demo_loop =
     \<lparr>lc_from = ''s'', lc_router = dlq_build ''r1'' None (\<lambda>_. False), lc_send_error = True,
      lc_key_order = (\<lambda>d. sorted_list_of_fset (fmdom d)), lc_render = demo_render\<rparr>"

definition arrival :: "row \<Rightarrow> moment" where
  "arrival data = \<lparr>mo_event = FromRecord data, mo_running = True, mo_now = 0, mo_inst = 0\<rparr>"

end
