(* ===== verification/Window_Props.thy ===== *)
theory Window_Props
  imports Demo
begin

text \<open>
  Properties of window triggers: grouping by value, and the agreement of the incremental
  window with the batch evaluation of the same rows.
\<close>

subsection \<open>Grouping\<close>

text \<open>C14: the groups of a window trigger are the classes of rows with equal grouping values, in
  the order in which the values first occur, and together they hold every row once. The key
  relies on the JSON rendering only in that it tells the grouping values apart and escapes
  control characters.\<close>

theorem groups_by_value:
  assumes "renders_apart (render E) (\<Union>r \<in> set rows. \<Union>g \<in> set gs. {group_value E g r})"
    and "groups = map snd (partition_keyed_groups E gs rows)"
  shows "groups = map (\<lambda>vs. filter (\<lambda>r. map (\<lambda>g. group_value E g r) gs = vs) rows)
           (first_seen (map (\<lambda>r. map (\<lambda>g. group_value E g r) gs) rows))
     \<and> mset (concat groups) = mset rows"
proof -
  let ?key = "group_key E gs" and ?vals = "\<lambda>r. map (\<lambda>g. group_value E g r) gs"
  have same: "?key r = ?key r' \<longleftrightarrow> ?vals r = ?vals r'" if "r \<in> set rows" "r' \<in> set rows" for r r'
    using that by (intro group_key_iff [OF assms(1)]) auto
  have transport: "map (\<lambda>k. filter (\<lambda>r. ?key r = k) rows) (first_seen (map ?key rs))
      = map (\<lambda>v. filter (\<lambda>r. ?vals r = v) rows) (first_seen (map ?vals rs))
     \<and> (\<forall>r \<in> set rows. ?key r \<in> set (map ?key rs) \<longleftrightarrow> ?vals r \<in> set (map ?vals rs))"
    if "set rs \<subseteq> set rows" for rs
    using that
  proof (induction rs rule: rev_induct)
    case (snoc r rs)
    have "filter (\<lambda>s. ?key s = ?key r) rows = filter (\<lambda>s. ?vals s = ?vals r) rows"
      using snoc.prems same by (intro filter_cong) auto
    with snoc same show ?case by (auto simp: first_seen_snoc)
  qed simp
  have groups: "groups = map (own_rows ?key rows) (first_seen (map ?key rows))"
    by (simp add: assms(2) partition_keyed_groups_eq comp_def)
  have "groups = map (\<lambda>vs. filter (\<lambda>r. ?vals r = vs) rows) (first_seen (map ?vals rows))"
    using transport [of rows] by (simp add: groups own_rows_def [abs_def])
  moreover have "mset (concat groups) = mset rows" unfolding groups by (rule mset_own_rows)
  ultimately show ?thesis by blast
qed

subsection \<open>Columns\<close>

definition put :: "row \<Rightarrow> string \<times> bool \<times> json \<Rightarrow> row" where
  "put out it = (case it of (n, keep, v) \<Rightarrow> if keep then or_insert n v out else fmupd n v out)"

lemma fmlookup_or_insert:
  "fmlookup (or_insert k v out) n =
     (if n = k then (case fmlookup out n of Some x \<Rightarrow> Some x | None \<Rightarrow> Some v) else fmlookup out n)"
  by (simp add: or_insert_def split: option.split)

lemma fmlookup_puts:
  "distinct (map fst items) \<Longrightarrow>
   fmlookup (foldl put out items) n =
     (case map_of items n of
        None \<Rightarrow> fmlookup out n
      | Some (keep, v) \<Rightarrow> if keep \<and> fmlookup out n \<noteq> None then fmlookup out n else Some v)"
proof (induction items arbitrary: out)
  case (Cons it items)
  obtain k keep v where it: "it = (k, keep, v)" by (cases it)
  show ?case
  proof (cases "n = k")
    case True
    with Cons.prems it have "map_of items n = None" by (auto simp: map_of_eq_None_iff)
    with Cons True it show ?thesis by (auto simp: put_def fmlookup_or_insert split: option.split)
  next
    case False
    then have "fmlookup (put out it) n = fmlookup out n" by (simp add: put_def it fmlookup_or_insert)
    moreover have "map_of (it # items) n = map_of items n" using False it by simp
    moreover have "distinct (map fst items)" using Cons.prems by simp
    ultimately show ?thesis using Cons.IH [of "put out it"] by (auto split: option.split)
  qed
qed simp

lemma fmlookup_named_values:
  assumes "fmlookup (named_values ns vs) n = Some x"
  shows "(n, x) \<in> set (zip ns vs)"
proof -
  have "(n, x) \<in> set ps \<or> fmlookup out n = Some x"
    if "fmlookup (foldl (\<lambda>m (n, v). fmupd n v m) out ps) n = Some x" for ps out
    using that
  proof (induction ps arbitrary: out)
    case (Cons p ps)
    obtain k v where p: "p = (k, v)" by (cases p)
    from Cons.IH [of "fmupd k v out"] Cons.prems p show ?case by (auto split: if_splits)
  qed simp
  from this [of fmempty "zip ns vs"] assms show ?thesis by (simp add: named_values_def)
qed

subsection \<open>One group of the incremental window\<close>

definition plan_acc_run :: "libm \<Rightarrow> env \<Rightarrow> row list \<Rightarrow> plan \<Rightarrow> acc" where
  "plan_acc_run L E rs p = foldl (\<lambda>a r. plan_update L E r p a) (plan_acc p) rs"

fun plan_item :: "libm \<Rightarrow> env \<Rightarrow> row list \<Rightarrow> plan \<Rightarrow> string \<times> bool \<times> json" where
  "plan_item L E rs (PFirst n e) = (n, True, group_value E e (hd rs))"
| "plan_item L E rs (PAgg n k a) = (n, False, acc_finish L (plan_acc_run L E rs (PAgg n k a)))"

lemma emit_plans_items:
  "emit_plans (acc_finish L) plans (map (plan_first E (hd rs)) plans) (map (plan_acc_run L E rs) plans) out
     = foldl put out (map (plan_item L E rs) plans)"
proof (induction plans arbitrary: out)
  case (Cons p plans)
  then show ?case by (cases p) (simp_all add: put_def)
qed simp

lemma run_group_fields:
  "run_group (open_group E gs plans) (group_add L E plans) rs =
     \<lparr>g_values = map (\<lambda>g. group_value E g (hd rs)) gs, g_firsts = map (plan_first E (hd rs)) plans,
      g_accs = map (plan_acc_run L E rs) plans\<rparr>"
proof -
  have step: "foldl (\<lambda>g r. group_add L E plans r g) \<lparr>g_values = vs, g_firsts = fs, g_accs = map h plans\<rparr> qs
      = \<lparr>g_values = vs, g_firsts = fs,
         g_accs = map (\<lambda>p. foldl (\<lambda>a r. plan_update L E r p a) (h p) qs) plans\<rparr>" for qs vs fs h
  proof (induction qs arbitrary: h)
    case (Cons q qs)
    have "map2 (plan_update L E q) plans (map h plans) = map (\<lambda>p. plan_update L E q p (h p)) plans"
      by (simp add: zip_map2 zip_same_conv_map comp_def)
    with Cons show ?case by (simp add: group_add_def)
  qed simp
  show ?thesis by (simp add: run_group_def open_group_def step plan_acc_run_def)
qed

lemma inc_push_all:
  "foldl (\<lambda>w r. snd (inc_push L E r w)) w rows =
     w\<lparr>iw_groups := foldl (\<lambda>acc r. upsert (group_key E (iw_group_by w) r)
          (open_group E (iw_group_by w) (iw_plans w) r) (group_add L E (iw_plans w) r) acc)
        (iw_groups w) (filter (row_accepted E (iw_where w)) rows)\<rparr>"
  by (induction rows arbitrary: w) (auto simp: inc_push_def)

subsection \<open>The same group in the batch evaluation\<close>

fun plain_arg :: "expr \<Rightarrow> bool" where
  "plain_arg (Identifier n) = (n \<noteq> ''window_start'' \<and> n \<noteq> ''window_end'')"
| "plain_arg e = True"

lemma row_ev_identifier: "row_ev E (Identifier n) r = eval_identifier n r"
  by (simp add: row_ev_def eval_val_def detached_def eval_expr_def cached_def ev_ret_def)

lemma group_value_plain: "plain_arg e \<Longrightarrow> group_value E e r = row_ev E e r"
  by (cases e) (simp_all add: group_value_def row_ev_identifier eval_identifier_def lookup_or_def
      split: option.split)

definition exact_field :: "env \<Rightarrow> row list \<Rightarrow> expr \<Rightarrow> bool" where
  "exact_field E rows f =
     (case f of
        Identifier n \<Rightarrow> True
      | FieldAccess parent leaf \<Rightarrow> leaf \<noteq> ''*'' \<and> list_all (\<lambda>r. eval_val E f r \<noteq> Panic) rows
      | Call n [a] \<Rightarrow> plain_arg a \<and>
          (case call_kind (to_ascii_lowercase n) [a] of
             Some k \<Rightarrow> exact_on k (map (row_ev E a) rows)
           | None \<Rightarrow> False)
      | _ \<Rightarrow> False)"

lemma exact_on_subset: "set vs \<subseteq> set ws \<Longrightarrow> exact_on k ws \<Longrightarrow> exact_on k vs"
  by (cases k) (auto simp: list_all_iff)

lemma exact_field_subset: "set rs \<subseteq> set rows \<Longrightarrow> exact_field E rows f \<Longrightarrow> exact_field E rs f"
  using exact_on_subset [of "map (row_ev E a) rs" "map (row_ev E a) rows" for a]
  by (auto simp: exact_field_def list_all_iff image_mono split: expr.splits list.splits option.splits)

text \<open>The calls that an incremental window computes, by kind.\<close>

lemma call_kind_cases:
  assumes "call_kind n [a] = Some k"
  shows "(k = KCountAll \<and> n = ''count'' \<and> a = Wildcard) \<or>
     (a \<noteq> Wildcard \<and> (k, n) \<in> {(KCount, ''count''), (KSum, ''sum''), (KAvg, ''avg''), (KMin, ''min''),
        (KMax, ''max''), (KStddev, ''stddev''), (KStddevs, ''stddevs''), (KVar, ''var''), (KVars, ''vars''),
        (KMedian, ''median'')})"
  using assms by (auto simp: call_kind_def Let_def split: if_splits)

lemma call_kind_aggregate:
  assumes "call_kind (to_ascii_lowercase c) [a] = Some k" "exact_on k vs"
  shows "is_aggregate_call c"
    and "eval_aggregate_call_stateful W st c [a] rows m = (batch k (row_ev (w_env W)) [a] rows, m)"
  using call_kind_cases [OF assms(1)] assms(2)
  by (auto simp: is_aggregate_call_def eval_aggregate_call_stateful_def pure_aggregate_def Let_def)

lemma plan_item_agg:
  assumes "call_kind n [a] = Some k" "plain_arg a" "exact_on k (map (row_ev E a) rs)"
  shows "plan_item L E rs (PAgg c k (if a = Wildcard then None else Some a))
     = (c, False, batch k (row_ev E) [a] rs)"
proof (cases "a = Wildcard")
  case True
  with assms(1) have k: "k = KCountAll" using call_kind_cases by blast
  have "foldl (\<lambda>b r. plan_update L E r (PAgg c KCountAll None) b) b0 rs
      = acc_run L KCountAll (map (\<lambda>_. None) rs) b0" for b0
    by (induction rs arbitrary: b0) simp_all
  with True k acc_count_all_agrees [of L rs "row_ev E"] show ?thesis by (simp add: plan_acc_run_def)
next
  case False
  with assms(1) have "k \<noteq> KCountAll" using call_kind_cases by blast
  have "foldl (\<lambda>b r. plan_update L E r (PAgg c k (Some a)) b) b0 rs
      = acc_run L k (map (Some \<circ> row_ev E a) rs) b0" for b0
    using assms(2) by (induction rs arbitrary: b0) (simp_all add: group_value_plain)
  with False acc_agrees [of k "row_ev E" a rs L] assms(3) \<open>k \<noteq> KCountAll\<close> show ?thesis
    by (simp add: plan_acc_run_def)
qed

lemma eval_val_cases: "\<exists>v. eval_val E e r = Ok v \<or> eval_val E e r = Panic"
  by (cases "fst (eval_expr E e r fmempty fmempty)") (auto simp: eval_val_def detached_def)

lemma field_agrees:
  assumes "plan_of (names ! idx) f = Some p" "exact_field (w_env W) rs f" "rs \<noteq> []"
  shows "agg_field W st rs pk names idx f out m = (Ok (put out (plan_item L (w_env W) rs p)), m)"
proof (cases f)
  case (Identifier n)
  with assms show ?thesis
    by (cases rs) (auto simp: plan_of_def agg_field_def first_or_empty_def put_def group_value_def ev_ret_def
        Let_def)
next
  case (FieldAccess parent leaf)
  from assms(2) FieldAccess have leaf: "leaf \<noteq> ''*''" and ok: "eval_val (w_env W) f (hd rs) \<noteq> Panic"
    using assms(3) by (auto simp: exact_field_def list_all_iff)
  from ok eval_val_cases obtain v where v: "eval_val (w_env W) f (hd rs) = Ok v" by metis
  have p: "p = PFirst (names ! idx) f" using assms(1) FieldAccess by (auto simp: plan_of_def split: if_splits)
  have "plan_item L (w_env W) rs p = (names ! idx, True, v)"
    using v FieldAccess by (simp add: p group_value_def row_ev_def)
  then show ?thesis
    using FieldAccess leaf v assms(3)
    by (cases rs) (auto simp: agg_field_def put_def or_insert_def first_row_val_def ev_ret_def ev_res_def
        ev_bind_def Let_def split: option.split)
next
  case (Call c args)
  with assms(2) obtain a k where a: "args = [a]" "plain_arg a"
    and k: "call_kind (to_ascii_lowercase c) [a] = Some k"
    and ex: "exact_on k (map (row_ev (w_env W) a) rs)"
    by (auto simp: exact_field_def split: list.splits option.splits)
  have p: "p = PAgg (names ! idx) k (if a = Wildcard then None else Some a)"
    using assms(1) Call a k by (auto simp: plan_of_def split: if_splits)
  show ?thesis
    using Call a call_kind_aggregate [OF k ex] plan_item_agg [OF k a(2) ex]
    by (simp add: agg_field_def p put_def ev_bind_def ev_state_def ev_ret_def Let_def)
qed (use assms in \<open>auto simp: exact_field_def\<close>)

definition plans_of :: "string list \<Rightarrow> expr list \<Rightarrow> plan list option" where
  "plans_of names fs = all_some (map2 plan_of names fs)"

lemma agg_fields_agree:
  assumes "plans_of (drop idx names) fs = Some ps" "length names = idx + length fs"
    and "list_all (exact_field (w_env W) rs) fs" "rs \<noteq> []"
  shows "agg_fields W st rs pk names idx fs out m
     = (Ok (foldl put out (map (plan_item L (w_env W) rs) ps)), m)"
  using assms(1-3)
proof (induction fs arbitrary: idx out ps m)
  case Nil
  then show ?case by (simp add: plans_of_def ev_ret_def)
next
  case (Cons f fs)
  have names: "drop idx names = names ! idx # drop (Suc idx) names"
    using Cons.prems(2) by (simp add: Cons_nth_drop_Suc)
  then obtain p qs where p: "plan_of (names ! idx) f = Some p" "ps = p # qs"
    and qs: "plans_of (drop (Suc idx) names) fs = Some qs"
    using Cons.prems(1) by (auto simp: plans_of_def split: option.splits)
  have "agg_field W st rs pk names idx f out m = (Ok (put out (plan_item L (w_env W) rs p)), m)"
    using Cons.prems(3) assms(4) p(1) by (intro field_agrees) simp_all
  moreover from Cons.IH [OF qs] Cons.prems(2,3)
  have "agg_fields W st rs pk names (Suc idx) fs o1 m
      = (Ok (foldl put o1 (map (plan_item L (w_env W) rs) qs)), m)" for o1 by simp
  ultimately show ?case by (simp add: p(2) ev_bind_def)
qed

subsection \<open>Equal rows\<close>

definition group_cols_selected :: "select_stmt \<Rightarrow> bool" where
  "group_cols_selected stmt \<longleftrightarrow>
     list_all (\<lambda>(i, g). (group_name i g, g) \<in> set (zip (select_field_names stmt) (sel_fields stmt)))
       (enumerate 0 (group_by stmt))"

lemma plan_of_name: "plan_of n f = Some p \<Longrightarrow> fst (plan_item L E rs p) = n"
  by (auto simp: plan_of_def split: expr.splits if_splits)

lemma plans_of_names:
  "plans_of names fs = Some ps \<Longrightarrow> length names = length fs \<Longrightarrow>
   map (fst \<circ> plan_item L E rs) ps = names"
proof (induction names fs arbitrary: ps rule: list_induct2')
  case (4 n ns f fs)
  then show ?case by (auto simp: plans_of_def plan_of_name split: option.splits)
qed (auto simp: plans_of_def)

lemma plans_of_mem:
  "plans_of names fs = Some ps \<Longrightarrow> (n, f) \<in> set (zip names fs) \<Longrightarrow> \<exists>p \<in> set ps. plan_of n f = Some p"
proof (induction names fs arbitrary: ps rule: list_induct2')
  case (4 n ns f fs)
  then show ?case by (fastforce simp: plans_of_def split: option.splits)
qed (auto simp: plans_of_def)

lemma plan_of_group_col:
  "plan_of (group_name i g) g = Some p \<Longrightarrow> \<not> contains_aggregate g \<Longrightarrow> p = PFirst (group_name i g) g"
proof (cases g)
  case (Call c args)
  assume "plan_of (group_name i g) g = Some p" "\<not> contains_aggregate g"
  then obtain k where "call_kind (to_ascii_lowercase c) args = Some k"
    "to_ascii_lowercase c \<notin> {''count'', ''sum'', ''avg'', ''min'', ''max'', ''stddev'', ''stddevs'', ''var'',
       ''vars'', ''median'', ''percentile'', ''percentile_cont'', ''percentile_disc''}"
    using Call by (auto simp: plan_of_def is_aggregate_call_def split: if_splits)
  then show ?thesis by (auto simp: call_kind_def Let_def split: if_splits)
qed (auto simp: plan_of_def split: if_splits)

lemma emitted_row_agrees:
  assumes "plans_of names fs = Some ps" "length names = length fs" "distinct names"
    and cols: "\<And>i g. (i, g) \<in> set (enumerate 0 gs) \<Longrightarrow> (group_name i g, g) \<in> set (zip names fs)"
    and pure: "\<And>g. g \<in> set gs \<Longrightarrow> \<not> contains_aggregate g"
  shows "foldl put (named_values (map (\<lambda>(i, g). group_name i g) (enumerate 0 gs))
            (map (\<lambda>g. group_value E g (hd rs)) gs)) (map (plan_item L E rs) ps)
       = foldl put fmempty (map (plan_item L E rs) ps)"
proof (rule fmap_ext)
  fix n
  let ?items = "map (plan_item L E rs) ps"
  let ?base = "named_values (map (\<lambda>(i, g). group_name i g) (enumerate 0 gs)) (map (\<lambda>g. group_value E g (hd rs)) gs)"
  have dist: "distinct (map fst ?items)"
    using plans_of_names [OF assms(1,2), of L E rs] assms(3) by (simp add: comp_def)
  show "fmlookup (foldl put ?base ?items) n = fmlookup (foldl put fmempty ?items) n"
  proof (cases "fmlookup ?base n")
    case None
    then show ?thesis unfolding fmlookup_puts [OF dist] by (auto split: option.split)
  next
    case (Some x)
    then have "(n, x) \<in> set (zip (map (\<lambda>(i, g). group_name i g) (enumerate 0 gs)) (map (\<lambda>g. group_value E g (hd rs)) gs))"
      by (rule fmlookup_named_values)
    then obtain i where i: "i < length gs" "n = group_name i (gs ! i)" "x = group_value E (gs ! i) (hd rs)"
      by (auto simp: set_zip nth_enumerate_eq)
    then have g: "(i, gs ! i) \<in> set (enumerate 0 gs)"
      by (auto simp: in_set_enumerate_eq)
    from plans_of_mem [OF assms(1) cols [OF g]] plan_of_group_col [of i "gs ! i"] pure i(1)
    have "PFirst n (gs ! i) \<in> set ps" using i(2) by fastforce
    then have "(n, True, x) \<in> set ?items" using i(3) by force
    then have "map_of ?items n = Some (True, x)" using dist by simp
    with Some show ?thesis by (simp add: fmlookup_puts [OF dist])
  qed
qed

subsection \<open>The incremental window computes the trigger\<close>

definition push_rows :: "libm \<Rightarrow> env \<Rightarrow> row list \<Rightarrow> inc_window \<Rightarrow> inc_window" where
  "push_rows L E rows w = foldl (\<lambda>w r. snd (inc_push L E r w)) w rows"

definition group_row :: "libm \<Rightarrow> env \<Rightarrow> plan list \<Rightarrow> row list \<Rightarrow> row" where
  "group_row L E ps rs = foldl put fmempty (map (plan_item L E rs) ps)"

lemma branch_agrees:
  assumes "plans_of (select_field_names stmt) (sel_fields stmt) = Some ps" "having stmt = None"
    and "list_all (exact_field (w_env W) rs) (sel_fields stmt)" "rs \<noteq> []" "set_operation stmt = None"
  shows "eval_aggregate_stateful W st stmt rs pk m = (Ok (Some (group_row L (w_env W) ps rs)), m)"
  using assms agg_fields_agree [of 0 "select_field_names stmt" "sel_fields stmt" ps W rs st pk fmempty m L]
  by (simp add: eval_aggregate_stateful.simps eval_branch_def ev_bind_def agg_having_def ev_ret_def
      group_row_def select_field_names_def)

lemma ev_all_pure:
  "(\<And>x. x \<in> set xs \<Longrightarrow> f x m = (Ok (h x), m)) \<Longrightarrow> ev_all (map f xs) m = (Ok (map h xs), m)"
  by (induction xs) (simp_all add: ev_ret_def ev_bind_def)

lemma somes_map_Some [simp]: "somes (map (\<lambda>x. Some (f x)) xs) = map f xs"
  by (induction xs) (simp_all add: somes_def List.map_filter_simps)

lemma one_group:
  "rows \<noteq> [] \<Longrightarrow> first_seen (map (\<lambda>_. k) rows) = [k]"
proof (induction rows)
  case (Cons r rows)
  have "filter (\<lambda>y. y \<noteq> k) (first_seen (map (\<lambda>_. k) rows)) = []"
    by (auto simp: filter_empty_conv)
  then show ?case by simp
qed simp

lemma window_rows:
  assumes "inc_try_new stmt = Some w"
    and "plans_of (select_field_names stmt) (sel_fields stmt) = Some ps"
    and exact: "list_all (exact_field (w_env W) rows) (sel_fields stmt)"
  shows "eval_window_filtered W st stmt rows m =
     (Ok (apply_order_limit (w_env W) stmt (map (\<lambda>k. group_row L (w_env W) ps
        (own_rows (group_key (w_env W) (group_by stmt)) rows k))
        (first_seen (map (group_key (w_env W) (group_by stmt)) rows)))), m)"
proof (cases "rows = []")
  case True
  then show ?thesis by (simp add: eval_window_filtered_def ev_ret_def apply_order_limit_def split: option.split)
next
  case False
  let ?key = "group_key (w_env W) (group_by stmt)"
  have w: "is_grouped_window stmt" "having stmt = None" "set_operation stmt = None"
    using assms(1) by (auto simp: inc_try_new_def simp del: not_None_eq split: if_splits)
  have group: "eval_aggregate_stateful W st stmt rs pk m = (Ok (Some (group_row L (w_env W) ps rs)), m)"
    if "rs \<noteq> []" "set rs \<subseteq> set rows" for rs pk
    using that exact w by (intro branch_agrees [OF assms(2)]) (auto simp: list_all_iff intro: exact_field_subset)
  have own: "own_rows ?key rows k \<noteq> [] \<and> set (own_rows ?key rows k) \<subseteq> set rows"
    if "k \<in> set (first_seen (map ?key rows))" for k
    using that own_rows_nonempty [of k ?key rows] by (auto simp: own_rows_def)
  show ?thesis
  proof (cases "group_by stmt = []")
    case True
    then have "?key = (\<lambda>_. [])" by (simp add: group_key_def [abs_def])
    then have "own_rows ?key rows [] = rows" "first_seen (map ?key rows) = [[]]"
      using False one_group [OF False, of "[]"] by (simp_all add: own_rows_def)
    with True False w group [OF False] show ?thesis
      by (simp add: eval_window_filtered_def ev_bind_def ev_ret_def somes_def List.map_filter_simps)
  next
    case nonempty: False
    have "ev_all (map (\<lambda>k. eval_aggregate_stateful W st stmt (own_rows ?key rows k) k)
          (first_seen (map ?key rows))) m
        = (Ok (map (\<lambda>k. Some (group_row L (w_env W) ps (own_rows ?key rows k))) (first_seen (map ?key rows))), m)"
      using own group by (intro ev_all_pure) blast
    with nonempty False w show ?thesis
      by (simp add: eval_window_filtered_def partition_keyed_groups_eq comp_def ev_bind_def ev_ret_def)
  qed
qed

lemma taken_rows:
  assumes "inc_try_new stmt = Some w" "distinct (select_field_names stmt)" "group_cols_selected stmt"
    and "plans_of (select_field_names stmt) (sel_fields stmt) = Some ps"
  shows "fst (inc_take L E (push_rows L E rows w)) =
     apply_order_limit E stmt (map (\<lambda>k. group_row L E ps (own_rows (group_key E (group_by stmt))
        (filter (row_accepted E (where_clause stmt)) rows) k))
        (first_seen (map (group_key E (group_by stmt)) (filter (row_accepted E (where_clause stmt)) rows))))"
proof -
  let ?frows = "filter (row_accepted E (where_clause stmt)) rows"
  have w: "iw_where w = where_clause stmt" "iw_group_by w = group_by stmt" "iw_plans w = ps"
    "iw_stmt w = stmt" "iw_groups w = []"
    "iw_names w = map (\<lambda>(i, g). group_name i g) (enumerate 0 (group_by stmt))"
    "\<not> list_ex contains_aggregate (group_by stmt)"
    using assms(1,4) by (auto simp: inc_try_new_def plans_of_def split: if_splits)
  have row: "emit_group L (iw_names w) ps (run_group (open_group E (group_by stmt) ps) (group_add L E ps) rs)
      = group_row L E ps rs" for rs
  proof -
    have "foldl put (named_values (iw_names w) (map (\<lambda>g. group_value E g (hd rs)) (group_by stmt)))
        (map (plan_item L E rs) ps) = foldl put fmempty (map (plan_item L E rs) ps)"
      unfolding w(6)
      using w(7) assms(3)
      by (intro emitted_row_agrees [OF assms(4) _ assms(2)])
        (auto simp: select_field_names_def group_cols_selected_def list_all_iff list_ex_iff)
    then show ?thesis by (simp add: emit_group_def run_group_fields emit_plans_items group_row_def)
  qed
  show ?thesis
    using row by (simp add: inc_take_def push_rows_def inc_push_all w fold_upsert comp_def)
qed

text \<open>C11: the incremental window, which keeps no rows, emits exactly the rows that the batch evaluation
  of the same records emits, and the batch evaluation leaves the rule's state alone, under these
  conditions: the names of the selected fields are distinct; the grouping columns are selected
  under their own names; and every field is exact on the records that pass the filter: a column, a
  member, a count, or an aggregate of plain arguments in which sums and averages meet no negative
  zero and extremes are taken of numbers or nulls, and which is not a quantile. Without them the
  two differ, as \<open>incremental_window_differs\<close> shows.\<close>

theorem incremental_window_exact:
  assumes "inc_try_new stmt = Some w" "distinct (select_field_names stmt)" "group_cols_selected stmt"
    and "list_all (exact_field (w_env W) (filter (passes_where (w_env W) stmt) rows)) (sel_fields stmt)"
  shows "eval_window W st stmt rows m = (Ok (fst (inc_take L (w_env W) (push_rows L (w_env W) rows w))), m)"
proof -
  obtain ps where ps: "plans_of (select_field_names stmt) (sel_fields stmt) = Some ps"
    using assms(1) by (auto simp: inc_try_new_def plans_of_def split: if_splits)
  have "passes_where (w_env W) stmt = row_accepted (w_env W) (where_clause stmt)"
    by (auto simp: passes_where_def row_accepted_def)
  with assms(4) show ?thesis
    by (simp add: eval_window_def window_rows [OF assms(1) ps, of W _ st m L]
        taken_rows [OF assms(1-3) ps])
qed

lemmas stmt_simps = group_stmt_def inc_try_new_def is_grouped_window_def is_aggregate_call_def
  to_ascii_lowercase_def ascii_lower_char_def select_field_names_def select_field_name_at_def
  alias_at_def nth_opt_def plan_of_def call_kind_def group_name_def

definition demo_sum :: select_stmt where
  "demo_sum = group_stmt [Identifier ''d'', Call ''sum'' [Identifier ''t'']] [Identifier ''d'']"

definition demo_rows :: "row list" where
  "demo_rows = [reading ''a'' (of_i64 1), reading ''b'' (of_i64 2), reading ''a'' (of_i64 3)]"

definition started :: "select_stmt \<Rightarrow> inc_window" where
  "started stmt = the (inc_try_new stmt)"

lemma demo_sum_started: "inc_try_new demo_sum = Some (started demo_sum)"
  by (simp add: started_def demo_sum_def stmt_simps Let_def)

theorem incremental_window_exact_witness:
  "eval_window demo_wenv False demo_sum demo_rows fmempty
     = (Ok [fmap_of_list [(''d'', Str ''a''), (''sum'', of_i64 4)],
            fmap_of_list [(''d'', Str ''b''), (''sum'', of_i64 2)]], fmempty)"
proof -
  have "distinct (select_field_names demo_sum)" by code_simp
  moreover have "group_cols_selected demo_sum" by code_simp
  moreover have "list_all (exact_field (w_env demo_wenv)
      (filter (passes_where (w_env demo_wenv) demo_sum) demo_rows)) (sel_fields demo_sum)" by code_simp
  moreover have "fst (inc_take demo_libm (w_env demo_wenv)
      (push_rows demo_libm (w_env demo_wenv) demo_rows (started demo_sum)))
      = [fmap_of_list [(''d'', Str ''a''), (''sum'', of_i64 4)],
         fmap_of_list [(''d'', Str ''b''), (''sum'', of_i64 2)]]" by code_simp
  ultimately show ?thesis
    using incremental_window_exact [OF demo_sum_started, of demo_wenv demo_rows False fmempty demo_libm]
    by simp
qed

theorem groups_by_value_witness:
  "map snd (partition_keyed_groups demo_env [Identifier ''d''] demo_rows)
     = [[reading ''a'' (of_i64 1), reading ''a'' (of_i64 3)], [reading ''b'' (of_i64 2)]]"
proof -
  have "renders_apart (render demo_env)
      (\<Union>r \<in> set demo_rows. \<Union>g \<in> set [Identifier ''d'']. {group_value demo_env g r})"
    by code_simp
  from groups_by_value [OF this refl]
  show ?thesis by code_simp
qed

text \<open>the documentation of the incremental window promises exactly the rows of the batch
  evaluation. It adds the grouping columns even when they are not selected, and it takes the
  minimum of strings to be null where the batch evaluation finds the least string.\<close>

lemma incremental_window_differs:
  "let stmt = group_stmt [Call ''min'' [Identifier ''t'']] [Identifier ''d''];
       rows = [reading ''a'' (Str ''y''), reading ''a'' (Str ''x'')]
   in fst (eval_window demo_wenv False stmt rows fmempty) = Ok [fmap_of_list [(''min'', Str ''x'')]]
    \<and> fst (inc_take demo_libm demo_env (push_rows demo_libm demo_env rows (started stmt)))
        = [fmap_of_list [(''d'', Str ''a''), (''min'', Null)]]"
  by code_simp

text \<open>The quantile sketch counts a negative value as zero, so that the median of negative
  readings is reported as \<open>0\<close>, which lies outside the range of the values.\<close>

lemma sketch_median_of_negatives:
  "acc_finish L (acc_run L KMedian (map (Some \<circ> of_i64) [- 5, - 4, - 3]) (acc_new KMedian)) = of_f64 fzero
   \<and> agg_median (\<lambda>_ r. lookup_or Null ''t'' r) [Identifier ''t'']
        (map (\<lambda>i. reading ''a'' (of_i64 i)) [- 5, - 4, - 3]) = of_i64 (- 4)"
  by (rule conjI; code_simp)

text \<open>The comparison that sorts the output rows is not an order: a value that compares with
  no other counts as equal to all of them, so equality is not transitive. \<open>slice::sort_by\<close>
  requires a total order.\<close>

lemma order_cmp_not_transitive:
  "let c = order_cmp demo_env 0 [\<lparr>ob_expr = Identifier ''t'', ob_order = Asc\<rparr>];
       r1 = reading ''a'' (of_i64 1); r2 = reading ''a'' Null; r3 = reading ''a'' (of_i64 2)
   in c r1 r2 = OEqual \<and> c r2 r3 = OEqual \<and> c r1 r3 = OLess"
  by code_simp

end
