(* ===== verification/Sliding_Props.thy ===== *)
theory Sliding_Props
  imports Sliding Accumulators
begin

text \<open>
  Sliding accumulators against the records they stand for. \<open>live\<close> is the specification: every
  record pushed and not yet older than a cutoff. The monotonic deque of the extremes is treated
  once, in the locale \<open>dominance\<close>, and interpreted for the maximum and for the minimum.
\<close>

subsection \<open>Monotonic deques\<close>

lemma pop_back_while_all: "list_all P xs \<Longrightarrow> pop_back_while P xs = []"
  by (simp add: pop_back_while_def list_all_iff)

lemma pop_back_while_keep: "\<not> P x \<Longrightarrow> pop_back_while P (x # xs) = x # pop_back_while P xs"
  by (simp add: pop_back_while_def dropWhile_append)

locale dominance =
  fixes beats :: "'a \<Rightarrow> 'a \<Rightarrow> bool" and ok :: "'a \<Rightarrow> bool"
  assumes beats_trans: "beats z y \<Longrightarrow> beats y x \<Longrightarrow> beats z x"
    and beats_total: "ok x \<Longrightarrow> ok y \<Longrightarrow> beats x y \<or> beats y x"
begin

text \<open>The elements that no later element beats.\<close>

fun survivors :: "'a list \<Rightarrow> 'a list" where
  "survivors [] = []"
| "survivors (x # xs) = (if list_ex (\<lambda>y. beats y x) xs then survivors xs else x # survivors xs)"

lemma survivors_subset: "set (survivors xs) \<subseteq> set xs"
  by (induction xs) auto

lemma survivors_snoc:
  "list_all ok (xs @ [x]) \<Longrightarrow> survivors (xs @ [x]) = pop_back_while (beats x) (survivors xs) @ [x]"
proof (induction xs)
  case Nil
  then show ?case by (simp add: pop_back_while_def)
next
  case (Cons a xs)
  then have IH: "survivors (xs @ [x]) = pop_back_while (beats x) (survivors xs) @ [x]" by simp
  consider "list_ex (\<lambda>y. beats y a) xs"
    | "\<not> list_ex (\<lambda>y. beats y a) xs" "beats x a"
    | "\<not> list_ex (\<lambda>y. beats y a) xs" "\<not> beats x a" by blast
  then show ?case
  proof cases
    case 2
    have "beats x y" if y: "y \<in> set xs" for y
    proof -
      have "\<not> beats y a" using 2(1) y by (auto simp: list_ex_iff)
      moreover have "ok a" "ok y" using Cons.prems y by (auto simp: list_all_iff)
      ultimately have "beats a y" using beats_total by blast
      with 2(2) show ?thesis by (rule beats_trans)
    qed
    with 2(2) survivors_subset [of xs] have "list_all (beats x) (a # survivors xs)"
      by (auto simp: list_all_iff)
    then have "pop_back_while (beats x) (survivors xs) = []"
      "pop_back_while (beats x) (a # survivors xs) = []"
      by (simp_all add: pop_back_while_all)
    with 2 IH show ?thesis by simp
  qed (use IH in \<open>simp_all add: pop_back_while_keep\<close>)
qed

lemma survivors_front:
  "list_all ok xs \<Longrightarrow> xs \<noteq> [] \<Longrightarrow>
     \<exists>y ys. survivors xs = y # ys \<and> y \<in> set xs \<and> (\<forall>x \<in> set xs. beats y x)"
proof (induction xs)
  case (Cons a xs)
  show ?case
  proof (cases "list_ex (\<lambda>y. beats y a) xs")
    case True
    then obtain z where z: "z \<in> set xs" "beats z a" by (auto simp: list_ex_iff)
    from z(1) have "xs \<noteq> []" by auto
    with Cons.IH Cons.prems(1) obtain y ys
      where y: "survivors xs = y # ys" "y \<in> set xs" "\<forall>x \<in> set xs. beats y x" by auto
    have "beats y a" using y(3) z by (simp add: beats_trans [of y z a])
    with y True show ?thesis by auto
  next
    case False
    with Cons.prems(1) beats_total [of a] have "\<forall>x \<in> set (a # xs). beats a x"
      by (auto simp: list_all_iff list_ex_iff)
    with False show ?thesis by auto
  qed
qed simp

lemma survivors_append: "\<exists>cs. set cs \<subseteq> set as \<and> survivors (as @ bs) = cs @ survivors bs"
proof (induction as)
  case (Cons a as)
  then obtain cs where "set cs \<subseteq> set as" "survivors (as @ bs) = cs @ survivors bs" by blast
  then show ?case
    by (cases "list_ex (\<lambda>y. beats y a) (as @ bs)")
      (auto intro: exI [of _ cs] exI [of _ "a # cs"])
qed simp

text \<open>Dropping an expired prefix commutes with keeping the survivors.\<close>

lemma survivors_evict:
  assumes "list_all P as" "list_all (\<lambda>x. \<not> P x) bs"
  shows "survivors bs = dropWhile P (survivors (as @ bs))"
proof -
  obtain cs where cs: "set cs \<subseteq> set as" "survivors (as @ bs) = cs @ survivors bs"
    using survivors_append by blast
  have "dropWhile P (cs @ survivors bs) = dropWhile P (survivors bs)"
    using cs(1) assms(1) by (intro dropWhile_append2) (auto simp: list_all_iff)
  moreover have "dropWhile P (survivors bs) = survivors bs"
    using assms(2) survivors_subset [of bs] by (cases "survivors bs") (auto simp: list_all_iff)
  ultimately show ?thesis using cs(2) by simp
qed

end

type_synonym deque_entry = "int \<times> f64 \<times> json"

definition entry_val :: "deque_entry \<Rightarrow> f64" where
  "entry_val e = fst (snd e)"

definition outranks :: "bool \<Rightarrow> deque_entry \<Rightarrow> deque_entry \<Rightarrow> bool" where
  "outranks is_max y x = (if is_max then f64_le (entry_val x) (entry_val y) else f64_le (entry_val y) (entry_val x))"

interpretation dq: dominance "outranks is_max" "\<lambda>e. \<not> is_nan (entry_val e)" for is_max
  by unfold_locales (auto simp: outranks_def intro: f64_le_trans dest: f64_le_total split: if_splits)

lemma dominated_outranks: "dominated is_max (entry_val y) = outranks is_max y"
  by (auto simp: dominated_def outranks_def entry_val_def fun_eq_iff)

subsection \<open>Histories of a window\<close>

datatype slide_op = SPush int json | SEvict int

fun slide_acc :: "agg_kind \<Rightarrow> slide_op \<Rightarrow> sliding_acc \<Rightarrow> sliding_acc" where
  "slide_acc k (SPush ts v) a = sliding_push k ts (Some v) a"
| "slide_acc k (SEvict c) a = sliding_evict c a"

fun slide_live :: "slide_op \<Rightarrow> (int \<times> json) list \<Rightarrow> (int \<times> json) list" where
  "slide_live (SPush ts v) live = live @ [(ts, v)]"
| "slide_live (SEvict c) live = filter (\<lambda>(ts, v). c \<le> ts) live"

fun pushed :: "slide_op list \<Rightarrow> (int \<times> json) list" where
  "pushed [] = []"
| "pushed (SPush ts v # ops) = (ts, v) # pushed ops"
| "pushed (SEvict c # ops) = pushed ops"

definition in_time_order :: "slide_op list \<Rightarrow> bool" where
  "in_time_order ops \<longleftrightarrow> sorted (map fst (pushed ops))"

definition live_after :: "slide_op list \<Rightarrow> (int \<times> json) list" where
  "live_after ops = fold slide_live ops []"

definition acc_after :: "agg_kind \<Rightarrow> slide_op list \<Rightarrow> sliding_acc" where
  "acc_after k ops = fold (slide_acc k) ops (sliding_new k)"

lemma pushed_append: "pushed (xs @ ys) = pushed xs @ pushed ys"
  by (induction xs rule: pushed.induct) auto

lemma live_snoc: "live_after (ops @ [op]) = slide_live op (live_after ops)"
  by (simp add: live_after_def)

lemma live_subset: "set (live_after ops) \<subseteq> set (pushed ops)"
proof (induction ops rule: rev_induct)
  case (snoc op ops)
  then show ?case by (cases op) (auto simp: live_snoc pushed_append)
qed (simp add: live_after_def)

lemma in_time_order_prefix: "in_time_order (ops @ [op]) \<Longrightarrow> in_time_order ops"
  by (simp add: in_time_order_def pushed_append sorted_append)

lemma live_sorted: "in_time_order ops \<Longrightarrow> sorted (map fst (live_after ops))"
proof (induction ops rule: rev_induct)
  case (snoc op ops)
  then have IH: "sorted (map fst (live_after ops))" by (simp add: in_time_order_prefix)
  show ?case
  proof (cases op)
    case (SPush ts v)
    with snoc.prems live_subset [of ops] have "\<forall>e \<in> set (live_after ops). fst e \<le> ts"
      by (auto simp: in_time_order_def pushed_append sorted_append)
    with IH SPush show ?thesis by (simp add: live_snoc sorted_append)
  next
    case (SEvict c)
    with IH show ?thesis by (simp add: live_snoc sorted_filter)
  qed
qed (simp add: live_after_def)

text \<open>In time order the expired records are a prefix.\<close>

lemma sorted_split:
  assumes "sorted (map fst live)"
  shows "live = takeWhile (\<lambda>(ts, v). ts < c) live @ filter (\<lambda>(ts, v). c \<le> ts) live"
  using assms
proof (induction live)
  case (Cons e live)
  show ?case
  proof (cases "fst e < c")
    case True
    with Cons show ?thesis by (auto simp: case_prod_beta)
  next
    case False
    with Cons.prems have "filter (\<lambda>e. c \<le> fst e) live = live" by (auto simp: filter_id_conv)
    with False show ?thesis by (simp add: case_prod_beta)
  qed
qed simp

subsection \<open>Extremes\<close>

definition deque_entries :: "(int \<times> json) list \<Rightarrow> deque_entry list" where
  "deque_entries live = map (\<lambda>(ts, v). (ts, num_or_zero v, v)) (filter (is_number \<circ> snd) live)"

lemma deque_entries_append: "deque_entries (xs @ ys) = deque_entries xs @ deque_entries ys"
  by (simp add: deque_entries_def)

lemma not_nan_of_int: "\<not> is_nan (f64_of_int n)"
  by (simp add: f64_of_int_def f64_of_ratio_def Let_def)

lemma num_not_nan: "json_wf v \<Longrightarrow> \<not> is_nan (num_or_zero v)"
proof (cases v)
  case (Number n)
  assume "json_wf v"
  with Number show ?thesis
    by (cases n) (auto simp: num_or_zero_def not_nan_of_int elim!: is_finite.elims)
qed (simp_all add: num_or_zero_def fzero_def)

lemma deque_entries_ok:
  "list_all (json_wf \<circ> snd) live \<Longrightarrow> list_all (\<lambda>e. \<not> is_nan (entry_val e)) (deque_entries live)"
  by (auto simp: list_all_iff deque_entries_def entry_val_def num_not_nan)

definition valid_pushes :: "slide_op list \<Rightarrow> bool" where
  "valid_pushes ops \<longleftrightarrow> list_all (json_wf \<circ> snd) (pushed ops)"

lemma live_valid: "valid_pushes ops \<Longrightarrow> list_all (json_wf \<circ> snd) (live_after ops)"
  using live_subset [of ops] by (auto simp: valid_pushes_def list_all_iff)

lemma extreme_push:
  assumes "list_all (json_wf \<circ> snd) (live @ [(ts, v)])" "k = KMin \<or> k = KMax"
  shows "sliding_push k ts (Some v) (SExtreme m (dq.survivors m (deque_entries live)))
     = SExtreme m (dq.survivors m (deque_entries (live @ [(ts, v)])))"
proof (cases "is_number v")
  case True
  then have f: "as_f64 v = Some (num_or_zero v)" by (auto simp: is_number_as_f64 num_or_zero_def)
  have snoc: "deque_entries (live @ [(ts, v)]) = deque_entries live @ [(ts, num_or_zero v, v)]"
    using True by (simp add: deque_entries_def)
  have "dq.survivors m (deque_entries live @ [(ts, num_or_zero v, v)])
      = pop_back_while (outranks m (ts, num_or_zero v, v)) (dq.survivors m (deque_entries live))
          @ [(ts, num_or_zero v, v)]"
    using deque_entries_ok [OF assms(1)] by (intro dq.survivors_snoc) (simp add: snoc)
  moreover have "outranks m (ts, num_or_zero v, v) = dominated m (num_or_zero v)"
    using dominated_outranks [of m "(ts, num_or_zero v, v)"] by (simp add: entry_val_def)
  ultimately show ?thesis using True f by (simp add: number_of_def snoc)
next
  case False
  then show ?thesis by (simp add: number_of_def deque_entries_def)
qed

lemma extreme_evict:
  assumes "sorted (map fst live)"
  shows "sliding_evict c (SExtreme m (dq.survivors m (deque_entries live)))
     = SExtreme m (dq.survivors m (deque_entries (filter (\<lambda>(ts, v). c \<le> ts) live)))"
proof -
  let ?old = "takeWhile (\<lambda>(ts, v). ts < c) live" and ?new = "filter (\<lambda>(ts, v). c \<le> ts) live"
  have "list_all (\<lambda>(ts, _). ts < c) (deque_entries ?old)"
    by (auto simp: list_all_iff deque_entries_def dest!: set_takeWhileD)
  moreover have "list_all (\<lambda>e. \<not> (case e of (ts, _) \<Rightarrow> ts < c)) (deque_entries ?new)"
    by (auto simp: list_all_iff deque_entries_def)
  ultimately have "dq.survivors m (deque_entries ?new)
      = dropWhile (\<lambda>(ts, _). ts < c) (dq.survivors m (deque_entries ?old @ deque_entries ?new))"
    by (rule dq.survivors_evict)
  also have "deque_entries ?old @ deque_entries ?new = deque_entries live"
    by (metis deque_entries_append sorted_split [OF assms])
  finally show ?thesis by simp
qed

lemma acc_snoc: "acc_after k (ops @ [op]) = slide_acc k op (acc_after k ops)"
  by (simp add: acc_after_def)

lemma valid_prefix: "valid_pushes (ops @ [op]) \<Longrightarrow> valid_pushes ops"
  by (simp add: valid_pushes_def pushed_append)

lemma extreme_state:
  assumes "k = KMin \<or> k = KMax"
  shows "in_time_order ops \<Longrightarrow> valid_pushes ops \<Longrightarrow>
     acc_after k ops = SExtreme (k = KMax) (dq.survivors (k = KMax) (deque_entries (live_after ops)))"
proof (induction ops rule: rev_induct)
  case Nil
  then show ?case using assms by (auto simp: acc_after_def live_after_def deque_entries_def)
next
  case (snoc op ops)
  then have IH: "acc_after k ops = SExtreme (k = KMax) (dq.survivors (k = KMax) (deque_entries (live_after ops)))"
    by (simp add: in_time_order_prefix valid_prefix)
  show ?case
  proof (cases op)
    case (SPush ts v)
    then have "list_all (json_wf \<circ> snd) (live_after ops @ [(ts, v)])"
      using live_valid [OF snoc.prems(2)] by (simp add: live_snoc)
    from extreme_push [OF this assms, of "k = KMax"] SPush show ?thesis
      by (simp add: acc_snoc live_snoc IH del: sliding_push.simps)
  next
    case (SEvict c)
    from extreme_evict [OF live_sorted [OF in_time_order_prefix [OF snoc.prems(1)]], of c "k = KMax"] SEvict
    show ?thesis by (simp add: acc_snoc live_snoc IH del: sliding_evict.simps)
  qed
qed

text \<open>The order in which an extreme is sought.\<close>

definition at_least :: "agg_kind \<Rightarrow> json \<Rightarrow> json \<Rightarrow> bool" where
  "at_least k w v = (if k = KMax then f64_le (num_or_zero w) (num_or_zero v)
                     else f64_le (num_or_zero v) (num_or_zero w))"

text \<open>C15: whatever records a sliding window takes in time order and whatever it expires, the
  monotonic deque answers the maximum (or the minimum) of exactly the numeric records that are
  still live, and null when there is none, without ever scanning the window.\<close>

theorem sliding_extreme_correct:
  assumes "in_time_order ops" "valid_pushes ops" "k = KMin \<or> k = KMax"
    and "nums = filter is_number (map snd (live_after ops))"
  shows "if nums = [] then sliding_value (acc_after k ops) = Null
         else sliding_value (acc_after k ops) \<in> set nums
              \<and> list_all (\<lambda>w. at_least k w (sliding_value (acc_after k ops))) nums"
proof (cases "nums = []")
  case True
  then have "deque_entries (live_after ops) = []"
    by (auto simp: assms(4) deque_entries_def filter_empty_conv)
  with True extreme_state [OF assms(3,1,2)] show ?thesis by simp
next
  case False
  let ?es = "deque_entries (live_after ops)"
  have nums: "nums = map (snd \<circ> snd) ?es"
    by (auto simp: assms(4) deque_entries_def comp_def case_prod_beta filter_map)
  with False have "?es \<noteq> []" by auto
  with dq.survivors_front [OF deque_entries_ok [OF live_valid [OF assms(2)]], of "k = KMax"]
  obtain y ys where y: "dq.survivors (k = KMax) ?es = y # ys" "y \<in> set ?es"
    "\<forall>x \<in> set ?es. outranks (k = KMax) y x" by blast
  have val: "entry_val e = num_or_zero (snd (snd e))" if "e \<in> set ?es" for e
    using that by (auto simp: deque_entries_def entry_val_def)
  have v: "sliding_value (acc_after k ops) = snd (snd y)"
    by (cases y) (simp add: extreme_state [OF assms(3,1,2)] y(1))
  have "at_least k (snd (snd e)) (snd (snd y))" if "e \<in> set ?es" for e
    using bspec [OF y(3) that] val [OF that] val [OF y(2)] by (simp add: outranks_def at_least_def split: if_splits)
  with False y(2) show ?thesis by (auto simp: v nums list_all_iff)
qed

theorem sliding_extreme_correct_witness:
  "sliding_value (acc_after KMax [SPush 1 (of_i64 7), SPush 2 (of_i64 3), SPush 3 (of_i64 5), SEvict 2])
     \<in> {of_i64 3, of_i64 5}"
proof -
  let ?ops = "[SPush 1 (of_i64 7), SPush 2 (of_i64 3), SPush 3 (of_i64 5), SEvict 2]"
  have "in_time_order ?ops" "valid_pushes ?ops"
    by (simp_all add: in_time_order_def valid_pushes_def of_i64_def i64_simps)
  moreover have "filter is_number (map snd (live_after ?ops)) = [of_i64 3, of_i64 5]"
    by (simp add: live_after_def)
  ultimately show ?thesis
    using sliding_extreme_correct [of ?ops KMax "[of_i64 3, of_i64 5]"] by auto
qed

subsection \<open>Counts and integer sums\<close>

definition count_entries :: "(int \<times> json) list \<Rightarrow> (int \<times> bool) list" where
  "count_entries live = map (\<lambda>(ts, v). (ts, \<not> is_null v)) live"

lemma evict_counts_split:
  assumes "list_all (\<lambda>(ts, b). ts < c) as" "list_all (\<lambda>(ts, b). c \<le> ts) bs"
  shows "evict_counts c n (as @ bs) = (n - int (length (filter snd as)), bs)"
  using assms
proof (induction as arbitrary: n)
  case Nil
  then show ?case by (cases bs) auto
qed auto

lemma sorted_parts:
  "list_all (\<lambda>(ts, b). ts < c) (takeWhile (\<lambda>(ts, v). ts < c) live)"
  "list_all (\<lambda>(ts, b). c \<le> ts) (filter (\<lambda>(ts, v). c \<le> ts) live)"
  by (auto simp: list_all_iff dest!: set_takeWhileD)

lemma count_state:
  "in_time_order ops \<Longrightarrow>
   acc_after KCount ops = SCount (int (length (non_null (map snd (live_after ops))))) (count_entries (live_after ops))"
proof (induction ops rule: rev_induct)
  case Nil
  then show ?case by (simp add: acc_after_def live_after_def count_entries_def non_null_def)
next
  case (snoc op ops)
  let ?live = "live_after ops"
  have IH: "acc_after KCount ops = SCount (int (length (non_null (map snd ?live)))) (count_entries ?live)"
    using snoc by (simp add: in_time_order_prefix)
  show ?case
  proof (cases op)
    case (SPush ts v)
    then show ?thesis by (simp add: acc_snoc live_snoc IH count_entries_def non_null_def)
  next
    case (SEvict c)
    define old new where "old = takeWhile (\<lambda>(ts, v). ts < c) ?live" and "new = filter (\<lambda>(ts, v). c \<le> ts) ?live"
    have split: "?live = old @ new"
      unfolding old_def new_def by (rule sorted_split [OF live_sorted [OF in_time_order_prefix [OF snoc.prems]]])
    have "evict_counts c (int (length (non_null (map snd ?live)))) (count_entries old @ count_entries new)
        = (int (length (non_null (map snd ?live))) - int (length (filter snd (count_entries old))), count_entries new)"
      using sorted_parts [of c ?live] unfolding old_def [symmetric] new_def [symmetric]
      by (intro evict_counts_split) (auto simp: count_entries_def list_all_iff)
    moreover have "length (filter snd (count_entries old)) = length (non_null (map snd old))"
      by (induction old) (auto simp: count_entries_def non_null_def)
    moreover have "non_null (map snd ?live) = non_null (map snd old) @ non_null (map snd new)"
      by (simp add: split non_null_def)
    moreover have "count_entries ?live = count_entries old @ count_entries new"
      by (simp add: split count_entries_def)
    ultimately show ?thesis by (simp add: acc_snoc live_snoc IH SEvict flip: new_def)
  qed
qed

definition int_of_json :: "json \<Rightarrow> int" where
  "int_of_json v = (case as_i64 v of Some i \<Rightarrow> i | None \<Rightarrow> 0)"

definition int_or_other :: "json \<Rightarrow> bool" where
  "int_or_other v \<longleftrightarrow> is_number v \<longrightarrow> as_i64 v \<noteq> None"

definition live_sum :: "(int \<times> json) list \<Rightarrow> int" where
  "live_sum live = sum_list (map (int_of_json \<circ> snd) live)"

definition total_magnitude :: "(int \<times> json) list \<Rightarrow> int" where
  "total_magnitude ps = sum_list (map (\<lambda>p. \<bar>int_of_json (snd p)\<bar>) ps)"

definition live_numbers :: "(int \<times> json) list \<Rightarrow> nat" where
  "live_numbers live = length (filter (is_number \<circ> snd) live)"

definition sum_entries :: "(int \<times> json) list \<Rightarrow> (int \<times> int option \<times> f64 option) list" where
  "sum_entries live = map (\<lambda>(ts, v). (ts, as_i64 v, as_f64 v)) live"

text \<open>What the integer sum keeps: the float fields do not matter as long as every number is an
  integer.\<close>

fun sums_live :: "(int \<times> json) list \<Rightarrow> sliding_acc \<Rightarrow> bool" where
  "sums_live live (SSum i f fc vc es) \<longleftrightarrow>
     i = live_sum live \<and> fc = 0 \<and> vc = live_numbers live \<and> es = sum_entries live"
| "sums_live live a \<longleftrightarrow> False"

lemma abs_sum_list: "\<bar>sum_list (xs :: int list)\<bar> \<le> sum_list (map abs xs)"
  by (induction xs) auto

lemma live_sum_bound: "\<bar>live_sum live\<bar> \<le> total_magnitude live"
  using abs_sum_list [of "map (int_of_json \<circ> snd) live"]
  by (simp add: live_sum_def total_magnitude_def comp_def)

lemma total_magnitude_append: "total_magnitude (xs @ ys) = total_magnitude xs + total_magnitude ys"
  by (simp add: total_magnitude_def)

lemma total_magnitude_nonneg: "0 \<le> total_magnitude ps"
  unfolding total_magnitude_def by (rule sum_list_nonneg) auto

lemma total_magnitude_filter: "total_magnitude (filter P ps) \<le> total_magnitude ps"
  by (induction ps) (auto simp: total_magnitude_def)

lemma live_magnitude: "total_magnitude (live_after ops) \<le> total_magnitude (pushed ops)"
proof (induction ops rule: rev_induct)
  case (snoc op ops)
  then show ?case
    using total_magnitude_filter [of "\<lambda>(ts, v). c \<le> ts" "live_after ops" for c]
    by (cases op) (auto simp: live_snoc pushed_append total_magnitude_append intro: order_trans)
qed (simp add: live_after_def)

lemma sat_sum: "\<bar>x\<bar> \<le> i64_max \<Longrightarrow> sat64 x = x"
  by (simp add: i64_simps)

lemma sums_push:
  assumes "sums_live live a" "int_or_other v" "total_magnitude (live @ [(ts, v)]) \<le> i64_max"
  shows "sums_live (live @ [(ts, v)]) (sliding_push KSum ts (Some v) a)"
proof -
  obtain i f vc es where a: "a = SSum i f 0 vc es" and st: "i = live_sum live" "vc = live_numbers live"
    "es = sum_entries live" using assms(1) by (cases a) auto
  show ?thesis
  proof (cases "is_number v")
    case True
    then obtain j where j: "as_i64 v = Some j" using assms(2) by (auto simp: int_or_other_def)
    have y: "as_f64 v = Some (num_or_zero v)" using True by (auto simp: is_number_as_f64 num_or_zero_def)
    have "live_sum (live @ [(ts, v)]) = i + j" by (simp add: live_sum_def int_of_json_def j st)
    moreover have "sat_add i j = i + j"
      unfolding sat_add_def
      using live_sum_bound [of "live @ [(ts, v)]"] assms(3) calculation by (intro sat_sum) simp
    ultimately show ?thesis
      using True j y by (simp add: a st number_of_def live_numbers_def sum_entries_def Let_def)
  next
    case False
    then have "as_i64 v = None" "as_f64 v = None" by (cases v; simp)+
    with False show ?thesis
      by (simp add: a st number_of_def live_numbers_def sum_entries_def live_sum_def int_of_json_def)
  qed
qed

lemma evict_sums_split:
  assumes "list_all (\<lambda>(ts, b). ts < c) old" "list_all (\<lambda>(ts, b). c \<le> ts) new"
    and "list_all (int_or_other \<circ> snd) old" "total_magnitude (old @ new) \<le> i64_max"
  shows "\<exists>f'. evict_sums c (live_sum (old @ new), f, 0, live_numbers (old @ new)) (sum_entries (old @ new))
     = ((live_sum new, f', 0, live_numbers new), sum_entries new)"
  using assms
proof (induction old arbitrary: f)
  case Nil
  then show ?case by (cases new) (auto simp: sum_entries_def)
next
  case (Cons p old)
  obtain ts v where p: "p = (ts, v)" by (cases p)
  have mag: "total_magnitude (old @ new) \<le> i64_max"
    using Cons.prems(4) by (simp add: total_magnitude_def)
  have "sat_sub (live_sum (p # old @ new)) j = live_sum (old @ new)" if "as_i64 v = Some j" for j
    using live_sum_bound [of "old @ new"] mag that
    by (simp add: sat_sub_def p live_sum_def int_of_json_def sat_sum)
  moreover have "live_sum (p # old @ new) = live_sum (old @ new)" if "as_i64 v = None"
    using that by (simp add: p live_sum_def int_of_json_def)
  moreover have "as_f64 v = None \<longleftrightarrow> \<not> is_number v" "\<not> is_number v \<Longrightarrow> as_i64 v = None"
    by (cases v; simp)+
  ultimately show ?case
    using Cons.IH [of "f64_sub f y" for y] Cons.IH [of f] Cons.prems mag
    by (cases "as_i64 v"; cases "as_f64 v")
      (auto simp: p sum_entries_def live_numbers_def int_or_other_def)
qed

lemma sums_evict:
  assumes "sums_live live a" "sorted (map fst live)" "list_all (int_or_other \<circ> snd) live"
    and "total_magnitude live \<le> i64_max"
  shows "sums_live (filter (\<lambda>(ts, v). c \<le> ts) live) (sliding_evict c a)"
proof -
  define old new where "old = takeWhile (\<lambda>(ts, v). ts < c) live" and "new = filter (\<lambda>(ts, v). c \<le> ts) live"
  have split: "live = old @ new" unfolding old_def new_def by (rule sorted_split [OF assms(2)])
  obtain f where a: "a = SSum (live_sum live) f 0 (live_numbers live) (sum_entries live)"
    using assms(1) by (cases a) auto
  have "list_all (\<lambda>(ts, b). ts < c) old" "list_all (\<lambda>(ts, b). c \<le> ts) new"
    using sorted_parts [of c live] by (simp_all add: old_def new_def)
  then obtain f' where "evict_sums c (live_sum live, f, 0, live_numbers live) (sum_entries live)
      = ((live_sum new, f', 0, live_numbers new), sum_entries new)"
    using evict_sums_split [of c old new f] assms(3,4) unfolding split by auto
  moreover have "live_sum new = 0" if "live_numbers new = 0"
  proof -
    have "int_of_json (snd e) = 0" if "e \<in> set new" for e
    proof -
      have "\<not> is_number (snd e)"
        using \<open>live_numbers new = 0\<close> that by (auto simp: live_numbers_def filter_empty_conv)
      then show ?thesis by (cases "snd e") (auto simp: int_of_json_def)
    qed
    then have "map (int_of_json \<circ> snd) new = map (\<lambda>_. 0) new" by simp
    then show ?thesis by (simp only: live_sum_def sum_list_0)
  qed
  ultimately show ?thesis by (simp add: a flip: new_def)
qed

definition integral_pushes :: "slide_op list \<Rightarrow> bool" where
  "integral_pushes ops \<longleftrightarrow>
     list_all (int_or_other \<circ> snd) (pushed ops) \<and> total_magnitude (pushed ops) \<le> i64_max"

lemma sum_state:
  "in_time_order ops \<Longrightarrow> integral_pushes ops \<Longrightarrow> sums_live (live_after ops) (acc_after KSum ops)"
proof (induction ops rule: rev_induct)
  case Nil
  then show ?case by (simp add: acc_after_def live_after_def live_sum_def live_numbers_def sum_entries_def)
next
  case (snoc op ops)
  have pre: "in_time_order ops" "integral_pushes ops"
    using snoc.prems total_magnitude_nonneg [of "pushed [op]"]
    by (auto simp: in_time_order_prefix integral_pushes_def pushed_append total_magnitude_append)
  then have IH: "sums_live (live_after ops) (acc_after KSum ops)" using snoc.IH by blast
  have mag: "total_magnitude (live_after qs) \<le> i64_max" if "integral_pushes qs" for qs
    using that live_magnitude [of qs] by (simp add: integral_pushes_def)
  show ?case
  proof (cases op)
    case (SPush ts v)
    with snoc.prems(2) have "int_or_other v" by (simp add: integral_pushes_def pushed_append)
    with sums_push [OF IH, of v ts] mag [OF snoc.prems(2)] SPush show ?thesis
      by (simp add: acc_snoc live_snoc)
  next
    case (SEvict c)
    have "list_all (int_or_other \<circ> snd) (live_after ops)"
      using pre(2) live_subset [of ops] by (auto simp: integral_pushes_def list_all_iff)
    with sums_evict [OF IH live_sorted [OF pre(1)] _ mag [OF pre(2)], of c] SEvict show ?thesis
      by (simp add: acc_snoc live_snoc)
  qed
qed

text \<open>The running count of a sliding window is the number of live records that are not null,
  and its running sum of integers is the sum of the live ones, as long as the magnitudes of
  all records pushed add up to at most \<open>i64::MAX\<close>.\<close>

lemma sliding_count_and_sum:
  assumes "in_time_order ops" "integral_pushes ops"
    and "vals = map snd (live_after ops)"
  shows "sliding_value (acc_after KCount ops) = of_i64 (int (length (non_null vals))) \<and>
     sliding_value (acc_after KSum ops) =
       (if filter is_number vals = [] then Null else of_i64 (sum_list (map int_of_json vals)))"
proof -
  have "live_numbers (live_after ops) = 0 \<longleftrightarrow> filter is_number vals = []"
    by (auto simp: live_numbers_def assms(3) filter_empty_conv)
  moreover have "live_sum (live_after ops) = sum_list (map int_of_json vals)"
    by (simp add: live_sum_def assms(3))
  ultimately have "sliding_value (acc_after KSum ops) =
      (if filter is_number vals = [] then Null else of_i64 (sum_list (map int_of_json vals)))"
    using sum_state [OF assms(1,2)] by (cases "acc_after KSum ops") auto
  then show ?thesis by (simp add: count_state [OF assms(1)] assms(3))
qed

lemma sliding_count_and_sum_witness:
  "sliding_value (acc_after KSum [SPush 1 (of_i64 7), SPush 2 Null, SPush 3 (of_i64 5), SEvict 2]) = of_i64 5"
proof -
  let ?ops = "[SPush 1 (of_i64 7), SPush 2 Null, SPush 3 (of_i64 5), SEvict 2]"
  have "in_time_order ?ops" "integral_pushes ?ops"
    by (simp_all add: in_time_order_def integral_pushes_def int_or_other_def total_magnitude_def
        int_of_json_def i64_simps)
  from sliding_count_and_sum [OF this refl] show ?thesis
    by (simp add: live_after_def int_of_json_def i64_simps)
qed

text \<open>The running sum is kept by saturating additions and subtractions, so a record that has
  left the window still shows: once the sum has saturated it is wrong until the window is
  empty. Here the window holds the single record 5 and reports the sum 0.\<close>

lemma sliding_sum_remembers:
  "let ops = [SPush 1 (of_i64 i64_max), SPush 2 (of_i64 5), SEvict 2]
   in live_after ops = [(2, of_i64 5)] \<and> sliding_value (acc_after KSum ops) = of_i64 0"
  by (simp add: live_after_def acc_after_def number_of_def num_or_zero_def Let_def sat_add_def sat_sub_def
      i64_simps)

end
