(* ===== verification/DeadLetter_Props.thy ===== *)
theory DeadLetter_Props
  imports DeadLetter
begin

text \<open>
  The dead-letter queue keeps the newest errors and its counters agree with it; a truncated
  payload is bounded and still a well-formed UTF-8 string.
\<close>

subsection \<open>The ring buffer\<close>

definition keep_last :: "nat \<Rightarrow> 'a list \<Rightarrow> 'a list" where
  "keep_last n xs = drop (length xs - n) xs"

lemma length_keep_last [simp]: "length (keep_last n xs) = min n (length xs)"
  by (simp add: keep_last_def min_def)

lemma keep_last_all: "length xs \<le> n \<Longrightarrow> keep_last n xs = xs"
  by (simp add: keep_last_def)

lemma keep_last_snoc: "keep_last n (keep_last n xs @ [x]) = keep_last n (xs @ [x])"
  by (cases "n \<le> length xs") (auto simp: keep_last_def Suc_diff_le)

lemma ring_push_keep_last:
  assumes "1 \<le> n" "cap \<le> n" "length xs < n \<Longrightarrow> length xs < cap" "length xs \<le> n"
  shows "ring_push cap x xs = keep_last n (xs @ [x])"
proof (cases "length xs < n")
  case True
  then show ?thesis using assms by (simp add: ring_push_def keep_last_def)
next
  case False
  then have "length xs = n" using assms by simp
  then show ?thesis using assms(1,2)
    by (cases xs) (auto simp: ring_push_def keep_last_def)
qed

text \<open>The buffer holds as many errors as the capacity says, or as many as it already held:
  the capacity of a router is not imposed on the buffer that it inherits.\<close>

definition ring_size :: "nat \<Rightarrow> 'a list \<Rightarrow> nat" where
  "ring_size cap buf = max 1 (max cap (length buf))"

lemma ring_size_push [simp]: "ring_size cap (ring_push cap x buf) = ring_size cap buf"
  by (cases buf) (auto simp: ring_size_def ring_push_def)

lemma ring_push_size: "ring_push cap x buf = keep_last (ring_size cap buf) (buf @ [x])"
proof (cases buf)
  case Nil
  then show ?thesis by (simp add: ring_push_def keep_last_def ring_size_def)
next
  case (Cons y ys)
  then show ?thesis
    by (intro ring_push_keep_last) (auto simp: ring_size_def max_def split: if_splits)
qed

lemma foldl_ring_push:
  "foldl (\<lambda>b x. ring_push cap x b) buf xs = keep_last (ring_size cap buf) (buf @ xs)"
proof (induction xs rule: rev_induct)
  case Nil
  then show ?case by (simp add: keep_last_all ring_size_def)
next
  case (snoc x xs)
  have "ring_size cap (foldl (\<lambda>b x. ring_push cap x b) buf xs) = ring_size cap buf"
    by (induction xs rule: rev_induct) auto
  then show ?case using snoc by (simp add: ring_push_size keep_last_snoc)
qed

subsection \<open>Runs of the router\<close>

record failure =
  fl_now :: int
  fl_stage :: dlq_stage
  fl_error :: string
  fl_raw :: "string option"
  fl_tuple :: "json option"
  fl_sink :: "string option"

definition route :: "dlq_router \<Rightarrow> counters \<times> dlq_envelope list \<Rightarrow> failure \<Rightarrow> counters \<times> dlq_envelope list" where
  "route D st f = fst (route_error D (fl_now f) (fl_stage f) (fl_error f) (fl_raw f) (fl_tuple f) (fl_sink f) st)"

definition envelope_of :: "dlq_router \<Rightarrow> failure \<Rightarrow> dlq_envelope" where
  "envelope_of D f = make_envelope D (fl_now f) (fl_stage f) (fl_error f) (fl_raw f) (fl_tuple f) (fl_sink f)"

lemma route_kept:
  "dr_on_error D \<noteq> Drop \<Longrightarrow>
   route D (c, buf) f =
     (inc_dlq (fl_stage f) (record_exception (fl_error f) c), ring_push (dr_capacity D) (envelope_of D f) buf)"
  by (simp add: route_def route_error_def envelope_of_def Let_def)

lemma route_dropped: "dr_on_error D = Drop \<Longrightarrow> route D (c, buf) f = (record_exception (fl_error f) c, buf)"
  by (simp add: route_def route_error_def Let_def)

lemma snd_foldl_route:
  "dr_on_error D \<noteq> Drop \<Longrightarrow>
   snd (foldl (route D) st fs) = foldl (\<lambda>b x. ring_push (dr_capacity D) x b) (snd st) (map (envelope_of D) fs)"
  by (induction fs arbitrary: st) (auto simp: route_kept split: prod.splits)

lemma stage_index_less [simp]: "stage_index s < 5"
  by (cases s) auto

lemma stage_index_inj: "stage_index s = stage_index t \<longleftrightarrow> s = t"
  by (cases s; cases t) auto

lemma inc_dlq_stage:
  "length (ct_dlq_stages c) = 5 \<Longrightarrow>
   ct_dlq_stages (inc_dlq t c) ! stage_index s = ct_dlq_stages c ! stage_index s + (if s = t then 1 else 0)"
  by (simp add: inc_dlq_def Let_def nth_list_update stage_index_inj eq_commute)

definition stage_count :: "dlq_stage \<Rightarrow> failure list \<Rightarrow> u64" where
  "stage_count s fs = of_nat (length (filter (\<lambda>f. fl_stage f = s) fs))"

lemma fst_foldl_route:
  assumes "dr_on_error D \<noteq> Drop" "length (ct_dlq_stages (fst st)) = 5"
  shows "ct_exceptions (fst (foldl (route D) st fs)) = ct_exceptions (fst st) + of_nat (length fs)
       \<and> ct_dlq_records (fst (foldl (route D) st fs)) = ct_dlq_records (fst st) + of_nat (length fs)
       \<and> length (ct_dlq_stages (fst (foldl (route D) st fs))) = 5
       \<and> (\<forall>s. ct_dlq_stages (fst (foldl (route D) st fs)) ! stage_index s
             = ct_dlq_stages (fst st) ! stage_index s + stage_count s fs)"
  using assms
proof (induction fs arbitrary: st)
  case Nil
  then show ?case by (simp add: stage_count_def)
next
  case (Cons f fs)
  obtain c buf where st: "st = (c, buf)" by (cases st)
  let ?c = "record_exception (fl_error f) c"
  have len: "length (ct_dlq_stages ?c) = 5" using Cons.prems st by (simp add: record_exception_def)
  have len2: "length (ct_dlq_stages (inc_dlq (fl_stage f) ?c)) = 5"
    using len by (simp add: inc_dlq_def Let_def)
  have "ct_dlq_stages ?c = ct_dlq_stages c" by (simp add: record_exception_def)
  then show ?case
    using Cons.IH[of "route D st f"] Cons.prems len len2 st inc_dlq_stage[OF len]
    by (auto simp: route_kept stage_count_def algebra_simps)
       (auto simp: inc_dlq_def record_exception_def Let_def)
qed

subsection \<open>Truncation\<close>

lemma floor_boundary_le: "floor_boundary s i \<le> i"
  by (induction i) auto

lemma floor_boundary_boundary: "is_char_boundary s (floor_boundary s i)"
  by (induction i) (auto simp: is_char_boundary_def)

definition utf8_encode :: "nat \<Rightarrow> string" where
  "utf8_encode c =
     map char_of
       (if c < 128 then [c]
        else if c < 2048 then [192 + c div 64, 128 + c mod 64]
        else if c < 65536 then [224 + c div 4096, 128 + c div 64 mod 64, 128 + c mod 64]
        else [240 + c div 262144, 128 + c div 4096 mod 64, 128 + c div 64 mod 64, 128 + c mod 64])"

definition utf8_string :: "nat list \<Rightarrow> string" where
  "utf8_string cs = concat (map utf8_encode cs)"

definition is_scalar :: "nat \<Rightarrow> bool" where
  "is_scalar c \<longleftrightarrow> c < 1114112 \<and> \<not> (55296 \<le> c \<and> c < 57344)"

lemma utf8_string_simps [simp]:
  "utf8_string [] = []" "utf8_string (c # cs) = utf8_encode c @ utf8_string cs"
  by (simp_all add: utf8_string_def)

lemma char_byte: "n < 256 \<Longrightarrow> of_char (char_of n :: char) = (n :: nat)"
  by (simp add: of_char_of)

lemma is_cont_byte: "(n :: nat) < 64 \<Longrightarrow> is_continuation (char_of (128 + n))"
  by (simp add: is_continuation_def)

lemma not_cont_byte: "(n :: nat) < 256 \<Longrightarrow> n < 128 \<or> 192 \<le> n \<Longrightarrow> \<not> is_continuation (char_of n)"
  by (auto simp: is_continuation_def char_byte)

lemma utf8_encode_shape:
  assumes "is_scalar c"
  obtains h t where "utf8_encode c = h # t" "\<not> is_continuation h" "list_all is_continuation t"
proof -
  have d: "c div 262144 < 16" using assms by (auto simp: is_scalar_def)
  consider "c < 128" | "128 \<le> c" "c < 2048" | "2048 \<le> c" "c < 65536" | "65536 \<le> c" by linarith
  then show thesis
  proof cases
    case 1
    then have "\<not> is_continuation (char_of c)" by (intro not_cont_byte) auto
    with 1 show ?thesis by (intro that[of "char_of c" "[]"]) (auto simp: utf8_encode_def)
  next
    case 2
    then have "c div 64 < 32" by auto
    then have "\<not> is_continuation (char_of (192 + c div 64))" by (intro not_cont_byte) auto
    with 2 show ?thesis by (intro that) (auto simp: utf8_encode_def intro!: is_cont_byte)
  next
    case 3
    then have "c div 4096 < 16" by auto
    then have "\<not> is_continuation (char_of (224 + c div 4096))" by (intro not_cont_byte) auto
    with 3 show ?thesis by (intro that) (auto simp: utf8_encode_def intro!: is_cont_byte)
  next
    case 4
    from d have "\<not> is_continuation (char_of (240 + c div 262144))" by (intro not_cont_byte) auto
    with 4 show ?thesis by (intro that) (auto simp: utf8_encode_def intro!: is_cont_byte)
  qed
qed

lemma is_char_boundary_append:
  assumes "is_char_boundary (xs @ ys) i" "length xs \<le> i"
  shows "is_char_boundary ys (i - length xs)"
  using assms by (auto simp: is_char_boundary_def nth_append)

lemma utf8_boundary:
  assumes "is_char_boundary (utf8_string cs) i" "list_all is_scalar cs"
  shows "\<exists>k. take i (utf8_string cs) = utf8_string (take k cs)"
  using assms
proof (induction cs arbitrary: i)
  case Nil
  then show ?case by simp
next
  case (Cons c cs)
  obtain h t where e: "utf8_encode c = h # t" "\<not> is_continuation h" "list_all is_continuation t"
    using Cons.prems utf8_encode_shape by (auto elim: utf8_encode_shape)
  consider "i = 0" | "0 < i" "i < length (h # t)" | "length (h # t) \<le> i" by linarith
  then show ?case
  proof cases
    case 1
    then show ?thesis by (intro exI[of _ 0]) simp
  next
    case 2
    then have "is_continuation (utf8_string (c # cs) ! i)"
      using e by (auto simp: nth_append nth_Cons' list_all_length)
    then show ?thesis using 2 Cons.prems e by (auto simp: is_char_boundary_def)
  next
    case 3
    then obtain k where "take (i - length (h # t)) (utf8_string cs) = utf8_string (take k cs)"
      using Cons.IH[of "i - length (h # t)"] Cons.prems e is_char_boundary_append[of "h # t"] by force
    moreover have "take i (utf8_encode c @ utf8_string cs) = utf8_encode c @ take (i - length (h # t)) (utf8_string cs)"
      using 3 e by (simp only: take_append) simp
    ultimately show ?thesis by (intro exI[of _ "Suc k"]) simp
  qed
qed

lemma length_TRUNCATED [simp]: "length TRUNCATED = 14"
  by (simp add: TRUNCATED_def)

lemma TRUNCATED_utf8: "\<exists>us. list_all is_scalar us \<and> utf8_string us = TRUNCATED"
  by (rule exI[of _ "[8230] @ map of_char ''[truncated]''"])
     (simp add: TRUNCATED_def utf8_encode_def is_scalar_def char_of_def bit_numeral_simps bit_Suc_0_iff)

lemma utf8_string_append: "utf8_string (xs @ ys) = utf8_string xs @ utf8_string ys"
  by (simp add: utf8_string_def)

lemma truncate_length: "14 \<le> n \<Longrightarrow> length (truncate_raw_payload s n) \<le> n"
  using floor_boundary_le[of s "n - 14"] by (auto simp: truncate_raw_payload_def)

subsection \<open>What the queue promises\<close>

text \<open>C34: Errors routed under \<open>onError: dlq\<close> or \<open>halt\<close> leave in the buffer the newest errors, as many
  as the capacity (at least one, and never fewer than the buffer already held: a smaller
  capacity does not shrink a buffer that the rule inherits), in the order of arrival and each
  with its own envelope; the counters of exceptions, of queued records and of every stage
  grow by exactly the errors routed. Under \<open>drop\<close> nothing is queued. The halt of the rule under
  \<open>halt\<close> is a task of its own and is not part of the routing: it counts the exception once more.\<close>

theorem dlq_keeps_newest:
  assumes "length (ct_dlq_stages c) = 5"
  shows "let st = foldl (route D) (c, buf) fs in
         (if dr_on_error D = Drop then snd st = buf
          else snd st = keep_last (ring_size (dr_capacity D) buf) (buf @ map (envelope_of D) fs)
             \<and> ct_dlq_records (fst st) = ct_dlq_records c + of_nat (length fs)
             \<and> (\<forall>s. ct_dlq_stages (fst st) ! stage_index s = ct_dlq_stages c ! stage_index s + stage_count s fs))
       \<and> ct_exceptions (fst st) = ct_exceptions c + of_nat (length fs)"
proof (cases "dr_on_error D = Drop")
  case True
  have "snd (foldl (route D) (c, buf) fs) = buf
      \<and> ct_exceptions (fst (foldl (route D) (c, buf) fs)) = ct_exceptions c + of_nat (length fs)"
    by (induction fs arbitrary: c) (auto simp: route_dropped[OF True] record_exception_def algebra_simps)
  with True show ?thesis by (simp add: Let_def)
next
  case False
  then show ?thesis
    using fst_foldl_route[OF False, of "(c, buf)" fs] assms(1) snd_foldl_route[OF False, of "(c, buf)" fs]
    by (simp add: Let_def foldl_ring_push)
qed

definition demo_router :: dlq_router where
  "demo_router = dlq_build ''r1'' (Some (fmupd ''dlq'' (Obj (fmupd ''bufferCapacity'' (of_i64 2) fmempty)) fmempty)) (\<lambda>_. False)"

definition demo_failures :: "failure list" where
  "demo_failures = map (\<lambda>t. \<lparr>fl_now = t, fl_stage = SqlEval, fl_error = ''e'', fl_raw = None, fl_tuple = None,
     fl_sink = None\<rparr>) [1, 2, 3]"

theorem dlq_keeps_newest_witness:
  "map ev_timestamp (snd (foldl (route demo_router) (counters_init, []) demo_failures)) = [2, 3]
   \<and> ct_dlq_stages (fst (foldl (route demo_router) (counters_init, []) demo_failures)) ! stage_index SqlEval = 3"
proof -
  have len: "length (ct_dlq_stages counters_init) = 5" by (simp add: counters_init_def)
  have pol: "dr_on_error demo_router \<noteq> Drop" by code_simp
  have "map ev_timestamp (keep_last (ring_size (dr_capacity demo_router) ([] :: dlq_envelope list)) ([] @ map (envelope_of demo_router) demo_failures)) = [2, 3]"
    by code_simp
  moreover have "ct_dlq_stages counters_init ! stage_index SqlEval + stage_count SqlEval demo_failures = 3"
    by code_simp
  moreover have "snd (foldl (route demo_router) (counters_init, []) demo_failures)
        = keep_last (ring_size (dr_capacity demo_router) ([] :: dlq_envelope list)) ([] @ map (envelope_of demo_router) demo_failures)
      \<and> (\<forall>s. ct_dlq_stages (fst (foldl (route demo_router) (counters_init, []) demo_failures)) ! stage_index s
            = ct_dlq_stages counters_init ! stage_index s + stage_count s demo_failures)"
    using dlq_keeps_newest[OF len, of demo_router "[]" demo_failures] pol by (simp only: Let_def if_False simp_thms)
  ultimately show ?thesis by metis
qed

text \<open>C40: The raw payload of an envelope is at most 4096 bytes, and cutting a well-formed UTF-8
  payload gives a well-formed UTF-8 string: whole characters of the payload, then the marker.\<close>

theorem dlq_payload_bounded_utf8:
  assumes "list_all is_scalar cs"
  shows "let p = truncate_raw_payload (utf8_string cs) MAX_DLQ_RAW_PAYLOAD_BYTES in
         length p \<le> 4096
       \<and> (p = utf8_string cs \<or> (\<exists>k. p = utf8_string (take k cs) @ TRUNCATED))
       \<and> (\<exists>ds. list_all is_scalar ds \<and> p = utf8_string ds)"
proof -
  define p where "p = truncate_raw_payload (utf8_string cs) MAX_DLQ_RAW_PAYLOAD_BYTES"
  obtain us where us: "list_all is_scalar us" "utf8_string us = TRUNCATED" using TRUNCATED_utf8 by blast
  have len: "length p \<le> 4096"
    using truncate_length[of 4096] by (simp add: p_def MAX_DLQ_RAW_PAYLOAD_BYTES_def)
  have "(p = utf8_string cs \<or> (\<exists>k. p = utf8_string (take k cs) @ TRUNCATED))
      \<and> (\<exists>ds. list_all is_scalar ds \<and> p = utf8_string ds)"
  proof (cases "length (utf8_string cs) \<le> MAX_DLQ_RAW_PAYLOAD_BYTES")
    case True
    then show ?thesis using assms by (auto simp: p_def truncate_raw_payload_def)
  next
    case False
    obtain k where k: "take (floor_boundary (utf8_string cs) 4082) (utf8_string cs) = utf8_string (take k cs)"
      using utf8_boundary[OF floor_boundary_boundary assms(1)] by blast
    have p: "p = utf8_string (take k cs) @ TRUNCATED"
      using False k by (simp add: p_def truncate_raw_payload_def MAX_DLQ_RAW_PAYLOAD_BYTES_def)
    have "p = utf8_string (take k cs @ us)" "list_all is_scalar (take k cs @ us)"
      using p us assms(1) by (auto simp: utf8_string_append list_all_iff dest: in_set_takeD)
    then show ?thesis using p by blast
  qed
  with len show ?thesis by (simp add: Let_def p_def)
qed

text \<open>At a payload of 2048 three-byte characters the cut falls inside a character.\<close>

theorem dlq_payload_bounded_utf8_witness:
  "list_all is_scalar (replicate 2048 8230)
   \<and> length (truncate_raw_payload (utf8_string (replicate 2048 8230)) MAX_DLQ_RAW_PAYLOAD_BYTES) \<le> 4096"
proof -
  have "list_all is_scalar (replicate 2048 8230)" by (simp add: list_all_length is_scalar_def)
  then show ?thesis using dlq_payload_bounded_utf8 by (simp add: Let_def)
qed

end
