(* ===== verification/Runner_Loop.thy ===== *)
theory Runner_Loop
  imports HoppingRunners
begin

text \<open>
  The loop that the window runners share, reduced to the arms it takes: a run is the run of
  the window's own steps on the records that reach it. The locale \<open>runner\<close> is the contract of
  a window: an invariant over the steps taken and the triggers fired, kept by every arm.
  Its lemmas give the meaning of whole runs of the loop.
\<close>

subsection \<open>The arms a run takes\<close>

datatype arm_event =
    AFrom int int tagged
  | AJoin int int tagged
  | AJoinsClosed
  | ATimer bool int int
  | AIdle int

fun arm_step :: "'s arms \<Rightarrow> arm_event \<Rightarrow> 's \<Rightarrow> ('s \<times> trigger list) option" where
  "arm_step A (AFrom now inst r) s = arm_from A now inst r s"
| "arm_step A (AJoin now inst r) s = arm_join A now inst r s"
| "arm_step A AJoinsClosed s = Some (arm_joins_closed A s, [])"
| "arm_step A (ATimer running now inst) s = Some (arm_timer A running now inst s)"
| "arm_step A (AIdle now) s = Some (arm_idle A now s)"

fun arms_run :: "'s arms \<Rightarrow> arm_event list \<Rightarrow> 's \<Rightarrow> ('s \<times> trigger list) option" where
  "arms_run A [] s = Some (s, [])"
| "arms_run A (e # es) s =
     Option.bind (arm_step A e s) (\<lambda>(s1, t1).
     Option.bind (arms_run A es s1) (\<lambda>(s2, t2). Some (s2, t1 @ t2)))"

definition is_error :: "loop_cfg \<Rightarrow> row \<Rightarrow> bool" where
  "is_error L data \<longleftrightarrow> check_record_error (lc_key_order L) (lc_render L) data \<noteq> None"

text \<open>The arms taken, and whether the run ends: nothing of the window is looked at.\<close>

fun arm_events :: "loop_cfg \<Rightarrow> bool \<Rightarrow> moment list \<Rightarrow> arm_event list \<times> bool" where
  "arm_events L joined [] = ([], False)"
| "arm_events L joined (mo # mos) =
     (let on = (\<lambda>data e. if \<not> mo_running mo then arm_events L joined mos
                else if is_error L data
                     then (if dr_on_error (lc_router L) = Halt then ([], True) else arm_events L joined mos)
                     else (case arm_events L joined mos of (es, b) \<Rightarrow> (e # es, b)))
      in case mo_event mo of
           FromRecord data \<Rightarrow> on data (AFrom (mo_now mo) (mo_inst mo) \<lparr>tr_source = lc_from L, tr_data = data\<rparr>)
         | JoinRecord r \<Rightarrow> if joined then on (tr_data r) (AJoin (mo_now mo) (mo_inst mo) r) else arm_events L joined mos
         | JoinsClosed \<Rightarrow>
             if joined then (case arm_events L False mos of (es, b) \<Rightarrow> (AJoinsClosed # es, b))
             else arm_events L joined mos
         | Timer \<Rightarrow> (case arm_events L joined mos of (es, b) \<Rightarrow> (ATimer (mo_running mo) (mo_now mo) (mo_inst mo) # es, b))
         | Idle \<Rightarrow> (case arm_events L joined mos of (es, b) \<Rightarrow> (AIdle (mo_now mo) # es, b))
         | FromClosed \<Rightarrow> ([], True))"

fun fired :: "loop_out list \<Rightarrow> trigger list" where
  "fired [] = []"
| "fired (Fire t # os) = t # fired os"
| "fired (o' # os) = fired os"

lemma fired_append [simp]: "fired (xs @ ys) = fired xs @ fired ys"
  by (induction xs rule: fired.induct) auto

lemma fired_map [simp]:
  "fired (map Fire ts) = ts" "fired (map Effect es) = []" "fired (map ErrorRow rs) = []"
  by (induction ts, auto) (induction es, auto, induction rs, auto)

lemma run_loop_ended: "lp_ended s \<Longrightarrow> run_loop L A mos s = Some (s, [])"
  by (induction mos) (auto simp: loop_step_def)

definition finished :: "'s arms \<Rightarrow> bool \<Rightarrow> 's \<times> trigger list \<Rightarrow> 's \<times> trigger list" where
  "finished A b = (\<lambda>(t, trs). (t, trs @ (if b then arm_finish A t else [])))"

definition visible :: "'s loop_state \<times> loop_out list \<Rightarrow> 's \<times> trigger list" where
  "visible = (\<lambda>(s, os). (lp_state s, fired os))"

lemma visible_bind:
  assumes "lp_state s1 = t1" "fired o1 = trs1"
    and "map_option visible (run_loop L A mos s1) = map_option (finished A b) (arms_run A es t1)"
  shows "map_option visible (Option.bind (run_loop L A mos s1) (\<lambda>(s2, o2). Some (s2, o1 @ o2)))
       = map_option (finished A b) (Option.bind (arms_run A es t1) (\<lambda>(t2, trs2). Some (t2, trs1 @ trs2)))"
  using assms
  by (cases "run_loop L A mos s1"; cases "arms_run A es t1") (auto simp: visible_def finished_def)

lemma take_record_skip: "\<not> mo_running mo \<Longrightarrow> take_record L A mo f data s = Some (s, [])"
  by (simp add: take_record_def)

lemma take_record_ok:
  "mo_running mo \<Longrightarrow> \<not> is_error L data \<Longrightarrow>
   take_record L A mo f data s =
     map_option (\<lambda>(t, trs). (s\<lparr>lp_counters := inc_source 1 (lp_counters s), lp_state := t\<rparr>, map Fire trs)) (f (lp_state s))"
  by (simp add: take_record_def is_error_def handle_error_record_def Let_def)

lemma take_record_error:
  assumes "mo_running mo" "is_error L data"
  obtains s1 os where "take_record L A mo f data s = Some (s1, os)" "lp_state s1 = lp_state s"
    "lp_joins_open s1 = lp_joins_open s"
    "if dr_on_error (lc_router L) = Halt then lp_ended s1 \<and> fired os = arm_finish A (lp_state s)
     else lp_ended s1 = lp_ended s \<and> fired os = []"
proof -
  have "handle_error_record (lc_key_order L) (lc_render L) (lc_router L) (mo_now mo)
      (lc_send_error L) data (inc_source 1 (lp_counters s), lp_dlq s) \<noteq> None"
    using assms(2) by (simp add: is_error_def handle_error_record_def)
  then obtain z where h: "handle_error_record (lc_key_order L) (lc_render L) (lc_router L) (mo_now mo)
      (lc_send_error L) data (inc_source 1 (lp_counters s), lp_dlq s) = Some z"
    by blast
  obtain c q effs rows where "z = ((c, q), effs, rows)" by (metis surj_pair)
  with h assms(1) have t: "take_record L A mo f data s =
      (if dr_on_error (lc_router L) = Halt
       then Some (s\<lparr>lp_counters := c, lp_dlq := q, lp_ended := True\<rparr>,
                  map Effect effs @ map ErrorRow rows @ map Fire (arm_finish A (lp_state s)))
       else Some (s\<lparr>lp_counters := c, lp_dlq := q\<rparr>, map Effect effs @ map ErrorRow rows))"
    by (simp add: take_record_def end_loop_def Let_def)
  show thesis
  proof (cases "dr_on_error (lc_router L) = Halt")
    case True
    then show ?thesis using that[OF t[unfolded if_P[OF True]]] by simp
  next
    case False
    then show ?thesis using that[OF t[unfolded if_not_P[OF False]]] by simp
  qed
qed

lemma record_step:
  assumes IH: "\<And>s1. \<not> lp_ended s1 \<Longrightarrow> lp_joins_open s1 = lp_joins_open s \<Longrightarrow>
      map_option visible (run_loop L A mos s1) =
        (case arm_events L (lp_joins_open s) mos of (es, b) \<Rightarrow> map_option (finished A b) (arms_run A es (lp_state s1)))"
    and "\<not> lp_ended s" and f: "\<And>t. f t = arm_step A e t"
  shows "map_option visible (Option.bind (take_record L A mo f data s)
           (\<lambda>(s1, o1). Option.bind (run_loop L A mos s1) (\<lambda>(s2, o2). Some (s2, o1 @ o2)))) =
         (case (if \<not> mo_running mo then arm_events L (lp_joins_open s) mos
                else if is_error L data
                     then (if dr_on_error (lc_router L) = Halt then ([], True) else arm_events L (lp_joins_open s) mos)
                     else (case arm_events L (lp_joins_open s) mos of (es, b) \<Rightarrow> (e # es, b))) of
            (es, b) \<Rightarrow> map_option (finished A b) (arms_run A es (lp_state s)))"
proof -
  obtain es b where eb: "arm_events L (lp_joins_open s) mos = (es, b)" by (cases "arm_events L (lp_joins_open s) mos")
  have ih: "map_option visible (run_loop L A mos s1) = map_option (finished A b) (arms_run A es (lp_state s1))"
    if "\<not> lp_ended s1" "lp_joins_open s1 = lp_joins_open s" for s1
    using IH[OF that] eb by simp
  consider "\<not> mo_running mo" | "mo_running mo" "is_error L data" | "mo_running mo" "\<not> is_error L data" by blast
  then show ?thesis
  proof cases
    case 1
    then show ?thesis
      using visible_bind[OF refl _ ih[OF assms(2) refl], of "[]" "[]"] eb
      by (simp add: take_record_skip)
  next
    case 2
    obtain s1 os where t: "take_record L A mo f data s = Some (s1, os)" "lp_state s1 = lp_state s"
      "lp_joins_open s1 = lp_joins_open s"
      "if dr_on_error (lc_router L) = Halt then lp_ended s1 \<and> fired os = arm_finish A (lp_state s)
       else lp_ended s1 = lp_ended s \<and> fired os = []"
      using take_record_error[OF 2] .
    show ?thesis
    proof (cases "dr_on_error (lc_router L) = Halt")
      case True
      then show ?thesis using 2 t by (simp add: run_loop_ended visible_def finished_def)
    next
      case False
      then show ?thesis
        using 2 t assms(2) visible_bind[OF t(2), of os "[]" L A mos b es] ih[of s1] eb by auto
    qed
  next
    case 3
    show ?thesis
    proof (cases "arm_step A e (lp_state s)")
      case None
      then show ?thesis using 3 eb by (simp add: take_record_ok f)
    next
      case (Some r)
      then show ?thesis
        using 3 assms(2) eb ih by (auto simp: take_record_ok f intro!: visible_bind split: prod.splits)
    qed
  qed
qed

lemma window_step:
  assumes IH: "\<And>s1. \<not> lp_ended s1 \<Longrightarrow> lp_joins_open s1 = j \<Longrightarrow>
      map_option visible (run_loop L A mos s1) =
        (case arm_events L j mos of (es, b) \<Rightarrow> map_option (finished A b) (arms_run A es (lp_state s1)))"
    and "\<not> lp_ended s" "lp_joins_open s1 = j" "lp_ended s1 = lp_ended s"
      "arm_step A e (lp_state s) = Some (lp_state s1, trs)"
  shows "map_option visible (Option.bind (run_loop L A mos s1) (\<lambda>(s2, o2). Some (s2, map Fire trs @ o2))) =
         (case (case arm_events L j mos of (es, b) \<Rightarrow> (e # es, b)) of
            (es, b) \<Rightarrow> map_option (finished A b) (arms_run A es (lp_state s)))"
  using assms by (auto intro!: visible_bind split: prod.splits)

lemma run_loop_arms:
  assumes "\<not> lp_ended s"
  shows "map_option visible (run_loop L A mos s) =
    (case arm_events L (lp_joins_open s) mos of (es, b) \<Rightarrow> map_option (finished A b) (arms_run A es (lp_state s)))"
  using assms
proof (induction mos arbitrary: s)
  case Nil
  then show ?case by (simp add: visible_def finished_def)
next
  case (Cons mo mos)
  have ih: "map_option visible (run_loop L A mos s1) =
      (case arm_events L j mos of (es, b) \<Rightarrow> map_option (finished A b) (arms_run A es (lp_state s1)))"
    if "\<not> lp_ended s1" "lp_joins_open s1 = j" for s1 j
    using Cons.IH that by blast
  show ?case
  proof (cases "mo_event mo")
    case (FromRecord data)
    then show ?thesis
      using record_step[OF ih Cons.prems, of _ "AFrom (mo_now mo) (mo_inst mo) \<lparr>tr_source = lc_from L, tr_data = data\<rparr>"]
        Cons.prems by (simp add: loop_step_def)
  next
    case (JoinRecord r)
    show ?thesis
    proof (cases "lp_joins_open s")
      case True
      then show ?thesis
        using JoinRecord record_step[OF ih Cons.prems, of _ "AJoin (mo_now mo) (mo_inst mo) r"] Cons.prems
        by (simp add: loop_step_def)
    next
      case False
      then show ?thesis
        using JoinRecord Cons.prems Cons.IH[OF Cons.prems]
        by (cases "arm_events L False mos") (auto simp: loop_step_def intro!: visible_bind)
    qed
  next
    case JoinsClosed
    show ?thesis
    proof (cases "lp_joins_open s")
      case True
      then show ?thesis
        using JoinsClosed Cons.prems window_step[of False L A mos s
            "s\<lparr>lp_joins_open := False, lp_state := arm_joins_closed A (lp_state s)\<rparr>" AJoinsClosed "[]"] ih
        by (simp add: loop_step_def)
    next
      case False
      then show ?thesis
        using JoinsClosed Cons.prems ih[OF Cons.prems]
        by (cases "arm_events L False mos") (auto simp: loop_step_def intro!: visible_bind)
    qed
  next
    case Timer
    obtain t trs where tt: "arm_timer A (mo_running mo) (mo_now mo) (mo_inst mo) (lp_state s) = (t, trs)"
      by (metis surj_pair)
    then show ?thesis
      using Timer Cons.prems window_step[of "lp_joins_open s" L A mos s "s\<lparr>lp_state := t\<rparr>"
          "ATimer (mo_running mo) (mo_now mo) (mo_inst mo)" trs] ih
      by (simp add: loop_step_def)
  next
    case Idle
    obtain t trs where tt: "arm_idle A (mo_now mo) (lp_state s) = (t, trs)" by (metis surj_pair)
    then show ?thesis
      using Idle Cons.prems window_step[of "lp_joins_open s" L A mos s "s\<lparr>lp_state := t\<rparr>" "AIdle (mo_now mo)" trs] ih
      by (simp add: loop_step_def)
  next
    case FromClosed
    then show ?thesis using Cons.prems by (simp add: loop_step_def end_loop_def visible_def finished_def run_loop_ended)
  qed
qed

subsection \<open>The contract of a window\<close>

lemma arms_run_snoc:
  "arms_run A (es @ [e]) s =
     Option.bind (arms_run A es s) (\<lambda>(s1, t1).
     Option.bind (arm_step A e s1) (\<lambda>(s2, t2). Some (s2, t1 @ t2)))"
proof (induction es arbitrary: s)
  case (Cons x es)
  then show ?case by (cases "arm_step A x s") (auto simp: Option.bind_eq_Some_conv split: option.splits bind_splits)
qed (auto split: bind_splits)

locale runner =
  fixes A :: "'s arms"
    and s0 :: 's
    and ok :: "arm_event list \<Rightarrow> bool"
    and inv :: "'s \<Rightarrow> arm_event list \<Rightarrow> trigger list \<Rightarrow> bool"
  assumes inv_init: "inv s0 [] []"
    and ok_prefix: "ok (es @ [e]) \<Longrightarrow> ok es"
    and inv_step: "inv s es trs \<Longrightarrow> ok (es @ [e]) \<Longrightarrow>
      \<exists>s' t. arm_step A e s = Some (s', t) \<and> inv s' (es @ [e]) (trs @ t)"
begin

lemma arms_inv: "ok es \<Longrightarrow> \<exists>s trs. arms_run A es s0 = Some (s, trs) \<and> inv s es trs"
proof (induction es rule: rev_induct)
  case Nil
  then show ?case using inv_init by simp
next
  case (snoc e es)
  obtain s trs where run: "arms_run A es s0 = Some (s, trs)" "inv s es trs"
    using snoc ok_prefix by blast
  obtain s' t where "arm_step A e s = Some (s', t)" "inv s' (es @ [e]) (trs @ t)"
    using inv_step[OF run(2) snoc.prems] by blast
  then show ?case using run by (simp add: arms_run_snoc)
qed

lemma loop_inv:
  assumes "arm_events L True mos = (es, b)" "ok es"
  shows "\<exists>s outs trs. run_loop L A mos (loop_init s0) = Some (s, outs) \<and> inv (lp_state s) es trs
          \<and> fired outs = trs @ (if b then arm_finish A (lp_state s) else [])"
proof -
  obtain s trs where run: "arms_run A es s0 = Some (s, trs)" "inv s es trs"
    using arms_inv[OF assms(2)] by blast
  have "map_option visible (run_loop L A mos (loop_init s0)) = Some (finished A b (s, trs))"
    using run_loop_arms[of "loop_init s0" L A mos] assms(1) run(1) by (simp add: loop_init_def)
  then show ?thesis using run(2) by (auto simp: visible_def finished_def split: if_splits)
qed

end

end
