(* ===== verification/Event_Time.thy ===== *)
theory Event_Time
  imports Runner_Loop Demo
begin

text \<open>
  The event-time reference that the tumbling, hopping and session windows are compared with:
  the watermark after a run of arms, the records that arrived on time, and those of them that
  pass the ingest filter. Nothing of a window's own state enters it.
\<close>

subsection \<open>Watermarks and accepted records\<close>

fun arm_record :: "arm_event \<Rightarrow> (int \<times> tagged) option" where
  "arm_record (AFrom now inst r) = Some (now, r)"
| "arm_record (AJoin now inst r) = Some (now, r)"
| "arm_record e = None"

definition et_step :: "rcfg \<Rightarrow> marks \<times> (int \<times> tagged) list \<Rightarrow> arm_event \<Rightarrow> marks \<times> (int \<times> tagged) list" where
  "et_step C st e =
     (case arm_record e of
        Some (now, r) \<Rightarrow>
          (let ts = event_ts C now r
           in if ts < mk_mark (fst st) then st
              else (advance_mark (rc_inputs C) (et_late_ms (rc_time C)) (tr_source r) ts (fst st),
                    snd st @ [(ts, r)]))
      | None \<Rightarrow> (if e = AJoinsClosed then close_joins C (fst st) else fst st, snd st))"

definition marks_at :: "rcfg \<Rightarrow> arm_event list \<Rightarrow> marks" where
  "marks_at C es = fst (foldl (et_step C) (mk_init, []) es)"

definition on_time :: "rcfg \<Rightarrow> arm_event list \<Rightarrow> (int \<times> tagged) list" where
  "on_time C es = snd (foldl (et_step C) (mk_init, []) es)"

definition accepted :: "rcfg \<Rightarrow> arm_event list \<Rightarrow> (int \<times> tagged) list" where
  "accepted C es = filter (\<lambda>(ts, r). passes C r) (on_time C es)"

definition mark_at :: "rcfg \<Rightarrow> arm_event list \<Rightarrow> int" where
  "mark_at C es = mk_mark (marks_at C es)"

lemma et_Nil [simp]: "marks_at C [] = mk_init" "on_time C [] = []" "accepted C [] = []"
  by (simp_all add: marks_at_def on_time_def accepted_def)

lemma et_late [wm_simps]:
  assumes "arm_record e = Some (now, r)" "event_ts C now r < mark_at C es"
  shows "marks_at C (es @ [e]) = marks_at C es" "on_time C (es @ [e]) = on_time C es"
    "accepted C (es @ [e]) = accepted C es"
  using assms by (auto simp: marks_at_def on_time_def accepted_def mark_at_def et_step_def)

lemma et_taken [wm_simps]:
  assumes "arm_record e = Some (now, r)" "\<not> event_ts C now r < mark_at C es"
  shows "marks_at C (es @ [e]) = advance_mark (rc_inputs C) (et_late_ms (rc_time C)) (tr_source r) (event_ts C now r) (marks_at C es)"
    "on_time C (es @ [e]) = on_time C es @ [(event_ts C now r, r)]"
    "accepted C (es @ [e]) = accepted C es @ (if passes C r then [(event_ts C now r, r)] else [])"
  using assms by (auto simp: marks_at_def on_time_def accepted_def mark_at_def et_step_def Let_def)

lemma et_other [wm_simps]:
  assumes "arm_record e = None"
  shows "marks_at C (es @ [e]) = (if e = AJoinsClosed then close_joins C (marks_at C es) else marks_at C es)"
    "on_time C (es @ [e]) = on_time C es" "accepted C (es @ [e]) = accepted C es"
  using assms by (auto simp: marks_at_def on_time_def accepted_def et_step_def)

lemma mark_close_joins [simp]: "mk_mark (close_joins C k) = mk_mark k"
  by (simp add: close_joins_def)

lemma accepted_on_time: "x \<in> set (accepted C es) \<Longrightarrow> x \<in> set (on_time C es)"
  by (auto simp: accepted_def)

lemma mark_advances: "mk_mark k \<le> mk_mark (advance_mark inputs late src ts k)"
  by (simp add: advance_mark_def Let_def)

subsection \<open>The watermark never passes what was seen\<close>

lemma least_or_in: "least_or d xs \<in> insert d (set xs)"
proof -
  have "foldl min y ys \<in> set (y # ys)" for y and ys :: "int list"
  proof (induction ys arbitrary: y)
    case (Cons a ys)
    then show ?case using Cons[of "min y a"] by (auto simp: min_def split: if_splits)
  qed simp
  then show ?thesis by (cases xs) (auto simp: least_or_def)
qed

definition marks_below :: "int \<Rightarrow> marks \<Rightarrow> bool" where
  "marks_below B k \<longleftrightarrow> mk_mark k \<le> B \<and> (\<forall>s t. fmlookup (mk_max k) s = Some t \<longrightarrow> t \<le> B)"

lemma set_map_filter: "set (List.map_filter f xs) = {y. \<exists>x\<in>set xs. f x = Some y}"
  by (induction xs) (auto simp: List.map_filter_simps split: option.splits)

lemma sat_sub_bound: "x \<le> B \<Longrightarrow> 0 \<le> late \<Longrightarrow> i64_min \<le> B \<Longrightarrow> sat_sub x late \<le> B"
  by (auto simp: sat_sub_def i64_simps)

lemma advance_below:
  assumes "marks_below B k" "ts \<le> B" "0 \<le> late" "i64_min \<le> B"
  shows "marks_below B (advance_mark inputs late src ts k)"
proof -
  let ?maxs = "fmupd src (case fmlookup (mk_max k) src of Some t \<Rightarrow> max t ts | None \<Rightarrow> ts) (mk_max k)"
  have maxs: "\<forall>s t. fmlookup ?maxs s = Some t \<longrightarrow> t \<le> B"
    using assms(1,2) by (auto simp: marks_below_def split: option.splits)
  have "least_or ts (List.map_filter (fmlookup ?maxs) xs) \<le> B" for xs
    using least_or_in[of ts "List.map_filter (fmlookup ?maxs) xs"] maxs assms(2)
    by (auto simp: set_map_filter)
  then show ?thesis
    using assms maxs by (auto simp: marks_below_def advance_mark_def Let_def intro: sat_sub_bound)
qed

lemma marks_below_at:
  assumes "\<forall>e\<in>set es. \<forall>now r. arm_record e = Some (now, r) \<longrightarrow> event_ts C now r \<le> B"
    and "0 \<le> et_late_ms (rc_time C)" "i64_min \<le> B"
  shows "marks_below B (marks_at C es)"
  using assms(1)
proof (induction es rule: rev_induct)
  case Nil
  then show ?case using assms(3) by (simp add: marks_below_def mk_init_def)
next
  case (snoc e es)
  then have IH: "marks_below B (marks_at C es)" by auto
  show ?case
  proof (cases "arm_record e")
    case None
    then show ?thesis using IH by (auto simp: wm_simps marks_below_def close_joins_def)
  next
    case (Some p)
    obtain now r where p: "p = (now, r)" by (cases p)
    then show ?thesis
      using Some IH snoc.prems assms(2,3)
      by (cases "event_ts C now r < mark_at C es") (auto simp: wm_simps intro!: advance_below)
  qed
qed

lemma on_time_in:
  "(ts, r) \<in> set (on_time C es) \<Longrightarrow> \<exists>e\<in>set es. \<exists>now. arm_record e = Some (now, r) \<and> ts = event_ts C now r"
proof (induction es rule: rev_induct)
  case (snoc e es)
  show ?case
  proof (cases "arm_record e")
    case None
    then show ?thesis using snoc by (auto simp: wm_simps)
  next
    case (Some p)
    obtain now r' where p: "p = (now, r')" by (cases p)
    then show ?thesis
      using Some snoc by (cases "event_ts C now r' < mark_at C es") (auto simp: wm_simps)
  qed
qed simp

subsection \<open>Aligned windows\<close>

definition align :: "int \<Rightarrow> int \<Rightarrow> int" where
  "align w ts = ts - ts mod w"

lemma align_le: "1 \<le> w \<Longrightarrow> align w ts \<le> ts"
  by (simp add: align_def)

lemma align_gt: "1 \<le> w \<Longrightarrow> ts < align w ts + w"
  using pos_mod_bound[of w ts] by (simp add: align_def)

lemma align_mult: "align w ts = w * (ts div w)"
  by (simp add: align_def minus_mod_eq_mult_div)

lemma le_div_pos:
  assumes "1 \<le> w"
  shows "q \<le> a div w \<longleftrightarrow> w * q \<le> (a :: int)"
proof
  assume "q \<le> a div w"
  then have "w * q \<le> w * (a div w)" using assms by (simp add: mult_left_mono)
  also have "\<dots> \<le> a" using assms pos_mod_sign[of w a] by (simp add: minus_mod_eq_mult_div [symmetric])
  finally show "w * q \<le> a" .
next
  assume "w * q \<le> a"
  then have "w * q div w \<le> a div w" using assms by (intro zdiv_mono1) auto
  then show "q \<le> a div w" using assms by simp
qed

lemma align_ge_mult: "1 \<le> w \<Longrightarrow> w * q \<le> ts \<Longrightarrow> w * q \<le> align w ts"
  by (simp add: align_mult le_div_pos)

lemma align_mono: "1 \<le> w \<Longrightarrow> a \<le> b \<Longrightarrow> align w a \<le> align w b"
  by (simp add: align_mult mult_left_mono zdiv_mono1)

lemma align_min: "1 \<le> w \<Longrightarrow> align w (min a b) = min (align w a) (align w b)"
  using align_mono[of w a b] align_mono[of w b a] by (auto simp: min_def)

text \<open>The \<open>k\<close>-th window of width \<open>w\<close> from \<open>f\<close>: its bounds and its rows in the order of arrival.\<close>

definition time_window :: "int \<Rightarrow> int \<Rightarrow> (int \<times> 'a) list \<Rightarrow> nat \<Rightarrow> int \<times> int \<times> 'a list" where
  "time_window w f acc k =
     (f + int k * w, f + (int k + 1) * w,
      map snd (filter (\<lambda>(ts, _). f + int k * w \<le> ts \<and> ts < f + (int k + 1) * w) acc))"

definition windows_passed :: "int \<Rightarrow> int \<Rightarrow> int \<Rightarrow> nat" where
  "windows_passed w f mark = nat ((mark - f) div w)"

lemma windows_passed_less: "1 \<le> w \<Longrightarrow> windows_passed w f mark \<le> k \<longleftrightarrow> mark < f + (int k + 1) * w"
  using le_div_pos[of w "int k + 1" "mark - f"] by (auto simp: windows_passed_def algebra_simps)

lemma windows_passed_le:
  "1 \<le> w \<Longrightarrow> 0 < windows_passed w f mark \<Longrightarrow> f + int (windows_passed w f mark) * w \<le> mark"
  using le_div_pos[of w "(mark - f) div w" "mark - f"] by (simp add: windows_passed_def algebra_simps)

lemma windows_passed_mono: "1 \<le> w \<Longrightarrow> mark \<le> mark' \<Longrightarrow> windows_passed w f mark \<le> windows_passed w f mark'"
  by (auto simp: windows_passed_def intro!: nat_mono zdiv_mono1)

lemma windows_passed_shift:
  assumes "1 \<le> w"
  shows "windows_passed w (f + int n * w) mark = windows_passed w f mark - n"
proof -
  have "(mark - (f + int n * w)) div w = (mark - f) div w - int n"
    using assms div_mult_self1[of w "mark - f" "- int n"] by (simp add: algebra_simps)
  then show ?thesis by (simp add: windows_passed_def)
qed

lemma time_window_shift:
  "time_window w (f + int n * w) (filter (\<lambda>(ts, _). f + int n * w \<le> ts) acc) k = time_window w f acc (n + k)"
  if "1 \<le> w"
proof -
  have eq: "f + int n * w + int k * w = f + int (n + k) * w"
    "f + int n * w + (int k + 1) * w = f + (int (n + k) + 1) * w"
    by (simp_all add: algebra_simps)
  have le: "f + int n * w \<le> f + int (n + k) * w" using that by (simp add: algebra_simps)
  show ?thesis unfolding time_window_def eq using le by (auto intro!: arg_cong[of _ _ "map snd"] filter_cong)
qed

subsection \<open>Runs whose bounds do not saturate\<close>

text \<open>Timestamps that leave room for one window on either side, so that no bound saturates.\<close>

definition roomy :: "rcfg \<Rightarrow> int \<Rightarrow> arm_event list \<Rightarrow> bool" where
  "roomy C w es \<longleftrightarrow> et_enabled (rc_time C) \<and> 1 \<le> w \<and> 0 \<le> et_late_ms (rc_time C) \<and>
     (\<forall>e\<in>set es. \<forall>now r. arm_record e = Some (now, r) \<longrightarrow>
        i64_min + w \<le> event_ts C now r \<and> event_ts C now r \<le> i64_max - w)"

lemma roomy_on_time:
  "roomy C w es \<Longrightarrow> (ts, r) \<in> set (on_time C es) \<Longrightarrow> i64_min + w \<le> ts \<and> ts \<le> i64_max - w"
  using on_time_in[of ts r C es] by (auto simp: roomy_def)

lemma roomy_mark:
  assumes "roomy C w es" "e \<in> set es" "arm_record e = Some p"
  shows "mark_at C es \<le> i64_max - w"
proof -
  have "i64_min \<le> i64_max - w" using assms by (cases p) (force simp: roomy_def)
  then show ?thesis
    using marks_below_at[of es C "i64_max - w"] assms(1) by (auto simp: roomy_def marks_below_def mark_at_def)
qed

lemma upt_append: "i \<le> j \<Longrightarrow> [0..<i] @ [i..<j] = [0..<j]"
  using upt_add_eq_append[of 0 i "j - i"] by simp

lemma as_triggers_append: "as_triggers (xs @ ys) = as_triggers xs @ as_triggers ys"
  by (simp add: as_triggers_def)

end
