(* ===== verification/Tumbling_Props.thy ===== *)
theory Tumbling_Props
  imports Event_Time
begin

text \<open>
  Event-time tumbling windows: a run of the loop emits, for every window between the first
  record and the watermark, exactly the accepted records whose timestamp lies in it. The
  closing loop returns as long as the watermark is below the largest \<open>i64\<close>, and never at it.
\<close>

subsection \<open>The closing loop\<close>

lemma close_tumbling_exact:
  assumes "1 \<le> w" "mark \<le> i64_max - w" "i64_min \<le> t0" "t0 \<le> i64_max - w" "\<forall>x\<in>set buf. t0 \<le> fst x"
  shows "close_tumbling w mark t0 buf =
     Some (t0 + int (windows_passed w t0 mark) * w,
           filter (\<lambda>(ts, _). t0 + int (windows_passed w t0 mark) * w \<le> ts) buf,
           map (time_window w t0 buf) [0..<windows_passed w t0 mark])"
  using assms
proof (induction "windows_passed w t0 mark" arbitrary: t0 buf)
  case 0
  have e: "sat_add t0 w = t0 + w" using 0 by (simp add: sat_add_def i64_simps)
  have "mark < t0 + w" using windows_passed_less[of w t0 mark 0] 0 by simp
  moreover have "filter (\<lambda>(ts, _). t0 \<le> ts) buf = buf" using 0 by (intro filter_True) auto
  ultimately show ?case using 0(1) e by (subst close_tumbling.simps) (simp add: Let_def)
next
  case (Suc n)
  let ?buf = "filter (\<lambda>(ts, _). \<not> ts < t0 + w) buf"
  have e: "sat_add t0 w = t0 + w" using Suc.prems by (simp add: sat_add_def i64_simps)
  have le: "t0 + w \<le> mark" using windows_passed_less[of w t0 mark 0] Suc by simp
  have sh: "windows_passed w (t0 + w) mark = n"
    using windows_passed_shift[of w t0 1 mark] Suc by simp
  have IH: "close_tumbling w mark (t0 + w) ?buf =
     Some (t0 + w + int n * w, filter (\<lambda>(ts, _). t0 + w + int n * w \<le> ts) ?buf,
           map (time_window w (t0 + w) ?buf) [0..<n])"
    using Suc.hyps(1)[of "t0 + w" ?buf] sh Suc.prems le by auto
  have win: "time_window w (t0 + w) ?buf k = time_window w t0 buf (Suc k)" for k
    using time_window_shift[of w t0 1 buf k] Suc.prems by (simp add: not_less)
  have first: "time_window w t0 buf 0 =
      (t0, t0 + w, map snd (filter (\<lambda>(ts, _). t0 \<le> ts) (filter (\<lambda>(ts, _). ts < t0 + w) buf)))"
    by (auto simp: time_window_def intro!: arg_cong[of _ _ "map snd"] filter_cong)
  have rest: "filter (\<lambda>(ts, _). t0 + w + int n * w \<le> ts) ?buf = filter (\<lambda>(ts, _). t0 + int (Suc n) * w \<le> ts) buf"
    using Suc.prems(1) by (auto simp: algebra_simps intro!: filter_cong) (smt (verit) mult_nonneg_nonneg of_nat_0_le_iff)
  have "map (time_window w t0 buf) [0..<Suc n] = time_window w t0 buf 0 # map (time_window w (t0 + w) ?buf) [0..<n]"
    by (simp add: win map_upt_Suc del: upt_Suc)
  then show ?case
    using le IH Suc.hyps(2)[symmetric] e rest first
    by (subst close_tumbling.simps) (simp add: Let_def algebra_simps del: upt_Suc)
qed

subsection \<open>The invariant of a run\<close>

definition first_start :: "rcfg \<Rightarrow> int \<Rightarrow> arm_event list \<Rightarrow> int" where
  "first_start C w es = align w (Min (set (map fst (on_time C es))))"

definition closed_count :: "rcfg \<Rightarrow> int \<Rightarrow> arm_event list \<Rightarrow> nat" where
  "closed_count C w es =
     (if on_time C es = [] then 0 else windows_passed w (first_start C w es) (mark_at C es))"

definition tumbling_spec :: "rcfg \<Rightarrow> int \<Rightarrow> arm_event list \<Rightarrow> (int \<times> int \<times> tagged list) list" where
  "tumbling_spec C w es = map (time_window w (first_start C w es) (accepted C es)) [0..<closed_count C w es]"

definition tumbling_open :: "rcfg \<Rightarrow> int \<Rightarrow> arm_event list \<Rightarrow> int" where
  "tumbling_open C w es = first_start C w es + int (closed_count C w es) * w"

definition tumbling_inv :: "rcfg \<Rightarrow> int \<Rightarrow> tumbling_state \<Rightarrow> arm_event list \<Rightarrow> trigger list \<Rightarrow> bool" where
  "tumbling_inv C w s es trs \<longleftrightarrow>
     tb_marks s = marks_at C es \<and> trs = as_triggers (tumbling_spec C w es) \<and>
     tb_start s = (if on_time C es = [] then None else Some (tumbling_open C w es)) \<and>
     tb_buffer s = filter (\<lambda>(ts, _). tumbling_open C w es \<le> ts) (accepted C es)"

lemma first_start_le:
  assumes "1 \<le> w" "(ts, r) \<in> set (on_time C es)"
  shows "first_start C w es \<le> ts"
proof -
  have "Min (set (map fst (on_time C es))) \<le> ts" using assms(2) by (intro Min_le) (force intro!: image_eqI)+
  then show ?thesis using align_le[OF assms(1), of "Min (set (map fst (on_time C es)))"]
    by (simp add: first_start_def)
qed

lemma first_start_snoc:
  assumes "1 \<le> w" "on_time C (es @ [e]) = on_time C es @ [(ts, r)]"
  shows "first_start C w (es @ [e]) =
    (if on_time C es = [] then align w ts else min (first_start C w es) (align w ts))"
  using assms by (auto simp: first_start_def align_min min.commute)

lemma roomy_first_start:
  assumes "roomy C w es" "on_time C es \<noteq> []"
  shows "i64_min \<le> first_start C w es" "first_start C w es \<le> i64_max - w"
proof -
  have "Min (set (map fst (on_time C es))) \<in> set (map fst (on_time C es))" using assms(2) by (intro Min_in) auto
  then obtain r where "(Min (set (map fst (on_time C es))), r) \<in> set (on_time C es)" by force
  from roomy_on_time[OF assms(1) this] show "i64_min \<le> first_start C w es" "first_start C w es \<le> i64_max - w"
    using align_le[of w "Min (set (map fst (on_time C es)))"] align_gt[of w "Min (set (map fst (on_time C es)))"] assms(1)
    unfolding first_start_def roomy_def by linarith+
qed

text \<open>What is already closed does not change when a record on time arrives.\<close>

lemma closed_windows_stable:
  assumes w: "1 \<le> w" and ot: "on_time C (es @ [e]) = on_time C es @ [(ts, r)]" and ts: "mark_at C es \<le> ts"
  shows "closed_count C w es = 0 \<or>
    on_time C es \<noteq> [] \<and> first_start C w (es @ [e]) = first_start C w es \<and> tumbling_open C w es \<le> align w ts"
proof (cases "closed_count C w es = 0")
  case False
  let ?f = "first_start C w es"
  have ne: "on_time C es \<noteq> []" using False by (simp add: closed_count_def split: if_splits)
  have "tumbling_open C w es = w * (Min (set (map fst (on_time C es))) div w + int (closed_count C w es))"
    by (simp add: tumbling_open_def first_start_def align_mult algebra_simps)
  moreover have "tumbling_open C w es \<le> ts"
    using False windows_passed_le[OF w, of ?f "mark_at C es"] ts ne
    by (simp add: closed_count_def tumbling_open_def)
  ultimately have le: "tumbling_open C w es \<le> align w ts" using align_ge_mult[OF w] by metis
  then have "?f \<le> align w ts" using w by (smt (verit) tumbling_open_def mult_nonneg_nonneg of_nat_0_le_iff)
  then show ?thesis using le ne first_start_snoc[OF w ot] by simp
qed simp

lemma lower_start_open:
  assumes w: "1 \<le> w" and ot: "on_time C (es @ [e]) = on_time C es @ [(ts, r)]" and ts: "mark_at C es \<le> ts"
  shows "lower_start (align w ts) (if on_time C es = [] then None else Some (tumbling_open C w es))
    = first_start C w (es @ [e]) + int (closed_count C w es) * w"
  using closed_windows_stable[OF assms] first_start_snoc[OF w ot]
  by (auto simp: lower_start_def tumbling_open_def closed_count_def)

lemma open_buffer_snoc:
  assumes w: "1 \<le> w" and ot: "on_time C (es @ [e]) = on_time C es @ [(ts, r)]" and ts: "mark_at C es \<le> ts"
    and acc: "accepted C (es @ [e]) = accepted C es @ (if passes C r then [(ts, r)] else [])"
  shows "filter (\<lambda>(ts, _). tumbling_open C w es \<le> ts) (accepted C es) @ (if passes C r then [(ts, r)] else [])
    = filter (\<lambda>(ts, _). first_start C w (es @ [e]) + int (closed_count C w es) * w \<le> ts) (accepted C (es @ [e]))"
    (is "_ = filter ?p _")
proof -
  have f: "first_start C w (es @ [e]) \<le> t" if "(t, x) \<in> set (on_time C (es @ [e]))" for t x
    using first_start_le[OF w that] .
  have "filter (\<lambda>(ts, _). tumbling_open C w es \<le> ts) (accepted C es) = filter ?p (accepted C es)"
    using closed_windows_stable[OF w ot ts] f ot first_start_le[OF w, of _ _ C es]
    by (intro filter_cong) (fastforce simp: tumbling_open_def dest: accepted_on_time)+
  moreover have "?p (ts, r)"
    using closed_windows_stable[OF w ot ts] f[of ts r] ot align_le[OF w, of ts] by (auto simp: tumbling_open_def)
  ultimately show ?thesis by (simp add: acc)
qed

lemma closed_spec_snoc:
  assumes w: "1 \<le> w" and ot: "on_time C (es @ [e]) = on_time C es @ [(ts, r)]" and ts: "mark_at C es \<le> ts"
    and acc: "accepted C (es @ [e]) = accepted C es @ (if passes C r then [(ts, r)] else [])"
  shows "tumbling_spec C w es
    = map (time_window w (first_start C w (es @ [e])) (accepted C (es @ [e]))) [0..<closed_count C w es]"
proof -
  have "time_window w (first_start C w es) (accepted C es) k
      = time_window w (first_start C w (es @ [e])) (accepted C (es @ [e])) k" if "k < closed_count C w es" for k
  proof -
    have "(int k + 1) * w \<le> int (closed_count C w es) * w" using that w by (intro mult_right_mono) auto
    then have "\<not> ts < first_start C w es + (int k + 1) * w"
      using closed_windows_stable[OF w ot ts] that align_le[OF w, of ts] by (auto simp: tumbling_open_def)
    then show ?thesis using closed_windows_stable[OF w ot ts] that by (auto simp: time_window_def acc)
  qed
  then show ?thesis by (simp add: tumbling_spec_def)
qed

lemma wrap_align:
  assumes "roomy C w es" "e \<in> set es" "arm_record e = Some (now, r)"
  shows "wrap64 (event_ts C now r - event_ts C now r mod max 1 w) = align w (event_ts C now r)"
proof -
  have w: "1 \<le> w" "i64_min + w \<le> event_ts C now r" "event_ts C now r \<le> i64_max - w"
    using assms by (auto simp: roomy_def)
  then have "in_i64 (align w (event_ts C now r))"
    using align_le[OF w(1), of "event_ts C now r"] align_gt[OF w(1), of "event_ts C now r"]
    unfolding in_i64_def by linarith
  moreover have "max 1 w = w" using w(1) by simp
  ultimately show ?thesis by (simp add: wrap64_id align_def)
qed

text \<open>Closing on from the windows already closed.\<close>

lemma close_from:
  assumes "1 \<le> w" "n \<le> windows_passed w f mark" "mark \<le> i64_max - w" "i64_min \<le> f" "f \<le> i64_max - w"
  shows "close_tumbling w mark (f + int n * w) (filter (\<lambda>(ts, _). f + int n * w \<le> ts) acc) =
     Some (f + int (windows_passed w f mark) * w,
           filter (\<lambda>(ts, _). f + int (windows_passed w f mark) * w \<le> ts) acc,
           map (time_window w f acc) [n..<windows_passed w f mark])"
proof -
  let ?n = "windows_passed w f mark"
  have le: "f + int n * w \<le> f + int ?n * w" using assms by (simp add: mult_right_mono)
  have "0 \<le> int n * w" using assms(1) by simp
  moreover have "f + int ?n * w \<le> i64_max - w"
    using assms(3,5) windows_passed_le[OF assms(1), of f mark] by (cases "?n = 0") auto
  ultimately have sb: "i64_min \<le> f + int n * w" "f + int n * w \<le> i64_max - w"
    using assms(4) le by linarith+
  have idx: "map (\<lambda>k. time_window w f acc (n + k)) [0..<?n - n] = map (time_window w f acc) [n..<?n]"
    using assms(2) by (intro nth_equalityI) auto
  have e: "f + int n * w + int (?n - n) * w = f + int ?n * w"
    using assms(2) by (simp add: of_nat_diff algebra_simps)
  have "filter (\<lambda>(ts, _). f + int ?n * w \<le> ts) (filter (\<lambda>(ts, _). f + int n * w \<le> ts) acc)
      = filter (\<lambda>(ts, _). f + int ?n * w \<le> ts) acc"
    using le by (auto intro!: filter_cong)
  then show ?thesis
    using close_tumbling_exact[OF assms(1,3) sb, of "filter (\<lambda>(ts, _). f + int n * w \<le> ts) acc"]
    unfolding windows_passed_shift[OF assms(1)] time_window_shift[OF assms(1)] e idx by auto
qed

lemma tumbling_take:
  assumes inv: "tumbling_inv C w s es trs" and room: "roomy C w (es @ [e])"
    and rec: "arm_record e = Some (now, r)" and late: "\<not> event_ts C now r < mark_at C es"
  shows "\<exists>s' t. tumbling_ingest L C w now r s = Some (s', t) \<and> tumbling_inv C w s' (es @ [e]) (trs @ t)"
proof -
  let ?f = "first_start C w (es @ [e])" and ?acc = "accepted C (es @ [e])"
  let ?n = "closed_count C w es" and ?n' = "closed_count C w (es @ [e])"
  have w: "1 \<le> w" using room by (simp add: roomy_def)
  note taken = et_taken[OF rec late]
  have ts: "mark_at C es \<le> event_ts C now r" using late by simp
  have ne: "on_time C (es @ [e]) \<noteq> []" using taken(2) by simp
  have n': "?n' = windows_passed w ?f (mark_at C (es @ [e]))" using ne by (simp add: closed_count_def)
  have "mark_at C es \<le> mark_at C (es @ [e])" using taken(1) by (simp add: mark_at_def mark_advances)
  then have nn: "?n \<le> ?n'"
    using closed_windows_stable[OF w taken(2) ts] windows_passed_mono[OF w, of _ _ ?f] n'
    by (auto simp: closed_count_def)
  have "tumbling_spec C w (es @ [e]) = tumbling_spec C w es @ map (time_window w ?f ?acc) [?n..<?n']"
    using nn unfolding closed_spec_snoc[OF w taken(2) ts taken(3)]
    by (simp add: tumbling_spec_def upt_append flip: map_append)
  moreover have "tumbling_ingest L C w now r s =
      Some (s\<lparr>tb_marks := marks_at C (es @ [e]), tb_start := Some (tumbling_open C w (es @ [e])),
              tb_buffer := filter (\<lambda>(ts, _). tumbling_open C w (es @ [e]) \<le> ts) ?acc\<rparr>,
            as_triggers (map (time_window w ?f ?acc) [?n..<?n']))"
    using inv room late taken(1) wrap_align[OF room _ rec] lower_start_open[OF w taken(2) ts]
      open_buffer_snoc[OF w taken(2) ts taken(3)] roomy_first_start[OF room ne] roomy_mark[OF room _ rec]
      close_from[OF w nn[unfolded n'], of ?acc] n'
    by (auto simp: tumbling_ingest_def tumbling_inv_def Let_def roomy_def mark_at_def tumbling_open_def)
  ultimately show ?thesis using inv ne by (auto simp: tumbling_inv_def as_triggers_append)
qed

lemma tumbling_step:
  assumes "tumbling_inv C w s es trs" "roomy C w (es @ [e])"
  shows "\<exists>s' t. arm_step (run_tumbling_window_rule L C w) e s = Some (s', t) \<and> tumbling_inv C w s' (es @ [e]) (trs @ t)"
proof (cases "arm_record e")
  case None
  have "tumbling_spec C w (es @ [e]) = tumbling_spec C w es" "tumbling_open C w (es @ [e]) = tumbling_open C w es"
    using None by (simp_all add: wm_simps tumbling_spec_def tumbling_open_def closed_count_def first_start_def mark_at_def)
  then show ?thesis
    using None assms
    by (cases e) (auto simp: run_tumbling_window_rule_def tumbling_inv_def tumbling_tick_def roomy_def wm_simps)
next
  case (Some p)
  obtain now r where p: "p = (now, r)" by (cases p)
  have ing: "arm_step (run_tumbling_window_rule L C w) e s = tumbling_ingest L C w now r s"
    using Some p by (cases e) (auto simp: run_tumbling_window_rule_def)
  show ?thesis
  proof (cases "event_ts C now r < mark_at C es")
    case True
    then have "tumbling_ingest L C w now r s = Some (s, [])"
      using assms by (simp add: tumbling_ingest_def tumbling_inv_def roomy_def mark_at_def Let_def)
    then show ?thesis
      using ing assms(1) True Some p
      by (simp add: wm_simps tumbling_inv_def tumbling_spec_def tumbling_open_def closed_count_def first_start_def mark_at_def)
  next
    case False
    then show ?thesis using tumbling_take[OF assms] Some p ing by simp
  qed
qed

interpretation tw: runner "run_tumbling_window_rule L C w" "tb_init (rc_stmt C)" "roomy C w" "tumbling_inv C w"
  for L C w
proof
  show "tumbling_inv C w (tb_init (rc_stmt C)) [] []"
    by (simp add: tumbling_inv_def tb_init_def tumbling_spec_def closed_count_def as_triggers_def)
qed (auto simp: roomy_def intro: tumbling_step)

subsection \<open>No record is lost or repeated\<close>

lemma mset_split_filter:
  assumes "\<And>x. x \<in> set xs \<Longrightarrow> P x \<longleftrightarrow> Q x \<or> R x" "\<And>x. \<not> (Q x \<and> R x)"
  shows "mset (map f (filter P xs)) = mset (map f (filter Q xs)) + mset (map f (filter R xs))"
  using assms by (induction xs) auto

definition window_rows_of :: "(int \<times> int \<times> 'a list) list \<Rightarrow> 'a list" where
  "window_rows_of ws = concat (map (\<lambda>(s, e, rows). rows) ws)"

lemma windows_partition:
  assumes "1 \<le> w" "\<forall>x\<in>set acc. f \<le> fst x"
  shows "mset (map snd acc) = mset (window_rows_of (map (time_window w f acc) [0..<n]))
           + mset (map snd (filter (\<lambda>(ts, _). f + int n * w \<le> ts) acc))"
proof (induction n)
  case 0
  have "filter (\<lambda>(ts, _). f \<le> ts) acc = acc" using assms(2) by (intro filter_True) auto
  then show ?case by (simp add: window_rows_of_def)
next
  case (Suc n)
  have "mset (map snd (filter (\<lambda>(ts, _). f + int n * w \<le> ts) acc)) =
      mset (map snd (filter (\<lambda>(ts, _). f + int n * w \<le> ts \<and> ts < f + (int n + 1) * w) acc))
      + mset (map snd (filter (\<lambda>(ts, _). f + int (Suc n) * w \<le> ts) acc))"
    using assms(1) by (intro mset_split_filter) (auto simp: algebra_simps)
  then show ?case using Suc by (simp add: window_rows_of_def time_window_def)
qed

subsection \<open>Returning\<close>

lemma close_tumbling_diverges:
  assumes "close_tumbling w mark t0 buf = Some res"
  shows "mark < i64_max"
proof (rule close_tumbling.raw_induct[OF _ assms, of "\<lambda>w mark t0 buf res. mark < i64_max"])
  fix rec :: "int \<Rightarrow> int \<Rightarrow> int \<Rightarrow> (int \<times> 'a) list \<Rightarrow> (int \<times> (int \<times> 'a) list \<times> (int \<times> int \<times> 'a list) list) option"
    and w mark t0 buf res
  assume IH: "\<And>w mark t0 buf y. rec w mark t0 buf = Some y \<Longrightarrow> mark < i64_max"
    and body: "(let t_end = sat_add t0 w
      in if mark < t_end then Some (t0, buf, [])
         else Option.bind (rec w mark t_end (filter (\<lambda>(ts, _). \<not> ts < t_end) buf))
           (\<lambda>(s, b, ws). Some (s, b,
              (t0, t_end, map snd (filter (\<lambda>(ts, _). t0 \<le> ts) (filter (\<lambda>(ts, _). ts < t_end) buf))) # ws))) = Some res"
  have "sat_add t0 w \<le> i64_max" by (simp add: sat_add_def i64_simps)
  then show "mark < i64_max"
    using body IH by (cases "mark < sat_add t0 w") (auto simp: Let_def Option.bind_eq_Some_conv)
qed

lemma close_tumbling_returns:
  assumes "1 \<le> w" "in_i64 t0" "mark < i64_max"
  shows "\<exists>res. close_tumbling w mark t0 buf = Some res"
  using assms(2)
proof (induction "nat (i64_max - t0)" arbitrary: t0 buf rule: less_induct)
  case less
  show ?case
  proof (cases "mark < sat_add t0 w")
    case True
    then show ?thesis by (subst close_tumbling.simps) (simp add: Let_def)
  next
    case False
    then have "t0 < i64_max" "t0 < sat_add t0 w"
      using sat_add_gt[OF less.prems, of w] sat_add_ge[OF less.prems, of w] assms(1,3) less.prems
      by (auto simp: in_i64_def)
    then obtain res where "close_tumbling w mark (sat_add t0 w) (filter (\<lambda>(ts, _). \<not> ts < sat_add t0 w) buf) = Some res"
      using less.hyps[of "sat_add t0 w"] by force
    then show ?thesis using False
      by (subst close_tumbling.simps) (auto simp: Let_def split: prod.splits)
  qed
qed

subsection \<open>What tumbling windows promise\<close>

text \<open>C1: A run of an event-time tumbling rule, on any interleaving of records, error records,
  timer ticks, joined streams and pauses, returns, and fires exactly the windows that lie
  between the earliest record on time and the watermark, in order; each holds precisely the
  accepted records whose timestamp lies between its bounds, in the order of arrival. The records
  of later windows are still buffered, and the closed windows and the buffer together hold every
  accepted record exactly once. Timestamps keep one window's distance from the ends of the
  \<open>i64\<close> range.\<close>

theorem tumbling_windows_exact:
  assumes "roomy C w (fst (arm_events L True mos))"
  shows "\<exists>s outs. run_loop L (run_tumbling_window_rule M C w) mos (loop_init (tb_init (rc_stmt C))) = Some (s, outs)
    \<and> fired outs = as_triggers (tumbling_spec C w (fst (arm_events L True mos)))
    \<and> tb_buffer (lp_state s) = filter (\<lambda>(ts, _). tumbling_open C w (fst (arm_events L True mos)) \<le> ts)
          (accepted C (fst (arm_events L True mos)))
    \<and> mset (map snd (accepted C (fst (arm_events L True mos))))
      = mset (window_rows_of (tumbling_spec C w (fst (arm_events L True mos)))) + mset (map snd (tb_buffer (lp_state s)))"
proof -
  obtain es b where eb: "arm_events L True mos = (es, b)" by (cases "arm_events L True mos")
  have w: "1 \<le> w" using assms eb by (simp add: roomy_def)
  obtain s outs trs where run: "run_loop L (run_tumbling_window_rule M C w) mos (loop_init (tb_init (rc_stmt C))) = Some (s, outs)"
    "tumbling_inv C w (lp_state s) es trs"
    "fired outs = trs @ (if b then arm_finish (run_tumbling_window_rule M C w) (lp_state s) else [])"
    using tw.loop_inv[OF eb, of C w M] assms eb by auto
  have "\<forall>x\<in>set (accepted C es). first_start C w es \<le> fst x"
    using first_start_le[OF w, of _ _ C es] by (auto dest: accepted_on_time)
  from windows_partition[OF w this] show ?thesis
    using run eb by (auto simp: tumbling_inv_def run_tumbling_window_rule_def tumbling_spec_def tumbling_open_def)
qed

definition demo_moments :: "moment list" where
  "demo_moments = map arrival [at_ts 12, fmupd ''error'' (Str ''bad'') fmempty, at_ts 17, at_ts 13, at_ts 26]"

text \<open>Four records with a tolerance of 5: the third is out of order but on time, and an error record
  in between is reported and skipped.\<close>

theorem tumbling_windows_exact_witness:
  "\<exists>s outs. run_loop demo_loop (run_tumbling_window_rule demo_libm (demo_rcfg 5) 10) demo_moments
       (loop_init (tb_init (rc_stmt (demo_rcfg 5)))) = Some (s, outs)
     \<and> fired outs = as_triggers [(10, 20, [\<lparr>tr_source = ''s'', tr_data = at_ts 12\<rparr>,
          \<lparr>tr_source = ''s'', tr_data = at_ts 17\<rparr>, \<lparr>tr_source = ''s'', tr_data = at_ts 13\<rparr>])]"
proof -
  let ?es = "fst (arm_events demo_loop True demo_moments)"
  have es: "?es = map (\<lambda>t. AFrom 0 0 \<lparr>tr_source = ''s'', tr_data = at_ts t\<rparr>) [12, 17, 13, 26]" by code_simp
  have ts: "map (\<lambda>t. event_ts (demo_rcfg 5) 0 \<lparr>tr_source = ''s'', tr_data = at_ts t\<rparr>) [12, 17, 13, 26] = [12, 17, 13, 26]"
    by code_simp
  have "roomy (demo_rcfg 5) 10 ?es"
    unfolding es using ts by (auto simp: roomy_def demo_rcfg_def demo_time_def i64_simps)
  from tumbling_windows_exact[OF this, of demo_libm]
  have "\<exists>s outs. run_loop demo_loop (run_tumbling_window_rule demo_libm (demo_rcfg 5) 10) demo_moments
       (loop_init (tb_init (rc_stmt (demo_rcfg 5)))) = Some (s, outs)
     \<and> fired outs = as_triggers (tumbling_spec (demo_rcfg 5) 10 ?es)" by blast
  moreover have "as_triggers (tumbling_spec (demo_rcfg 5) 10 ?es) =
      as_triggers [(10, 20, [\<lparr>tr_source = ''s'', tr_data = at_ts 12\<rparr>,
        \<lparr>tr_source = ''s'', tr_data = at_ts 17\<rparr>, \<lparr>tr_source = ''s'', tr_data = at_ts 13\<rparr>])]"
    unfolding es by code_simp
  ultimately show ?thesis by simp
qed

text \<open>C29: Taking a record in event time returns if and only if the record is late or leaves the
  watermark below the largest \<open>i64\<close>. The windows up to the watermark are closed one by one, and a
  watermark of \<open>i64::MAX\<close>, which a single record with a timestamp such as \<open>1e300\<close> brings about,
  is never below the end of a window: the rule then closes empty windows for ever.\<close>

theorem tumbling_ingest_returns_iff:
  assumes "et_enabled (rc_time C)" "1 \<le> w" "\<And>t. tb_start s = Some t \<Longrightarrow> in_i64 t"
  shows "(\<exists>res. tumbling_ingest L C w now r s = Some res) \<longleftrightarrow>
     event_ts C now r < mk_mark (tb_marks s)
     \<or> mk_mark (advance_mark (rc_inputs C) (et_late_ms (rc_time C)) (tr_source r) (event_ts C now r) (tb_marks s)) < i64_max"
proof -
  let ?k = "advance_mark (rc_inputs C) (et_late_ms (rc_time C)) (tr_source r) (event_ts C now r) (tb_marks s)"
  let ?t = "lower_start (wrap64 (event_ts C now r - event_ts C now r mod max 1 w)) (tb_start s)"
  have t: "in_i64 ?t" using assms(3) by (auto simp: lower_start_def split: option.splits)
  have "(\<exists>res. close_tumbling w (mk_mark ?k) ?t buf = Some res) \<longleftrightarrow> mk_mark ?k < i64_max" for buf :: "(int \<times> tagged) list"
    using close_tumbling_returns[OF assms(2) t] close_tumbling_diverges by blast
  then show ?thesis
    using assms(1) by (simp add: tumbling_ingest_def Let_def Option.bind_eq_Some_conv)
qed

theorem tumbling_ingest_returns_iff_witness:
  "(\<exists>res. tumbling_ingest demo_libm (demo_rcfg 0) 10 0 \<lparr>tr_source = ''s'', tr_data = at_ts 12\<rparr>
       (tb_init (rc_stmt (demo_rcfg 0))) = Some res)
   \<and> tumbling_ingest demo_libm (demo_rcfg 0) 10 0 \<lparr>tr_source = ''s'', tr_data = fmupd ''ts'' (of_f64 (f64_of_int (2 ^ 63))) fmempty\<rparr>
       (tb_init (rc_stmt (demo_rcfg 0))) = None"
proof -
  have init: "et_enabled (rc_time (demo_rcfg 0))" "tb_start (tb_init (rc_stmt (demo_rcfg 0))) = None"
    by (simp_all add: demo_rcfg_def demo_time_def tb_init_def)
  have "event_ts (demo_rcfg 0) 0 \<lparr>tr_source = ''s'', tr_data = at_ts 12\<rparr> < mk_mark (tb_marks (tb_init (rc_stmt (demo_rcfg 0)))) \<or>
     mk_mark (advance_mark (rc_inputs (demo_rcfg 0)) (et_late_ms (rc_time (demo_rcfg 0))) ''s''
       (event_ts (demo_rcfg 0) 0 \<lparr>tr_source = ''s'', tr_data = at_ts 12\<rparr>) (tb_marks (tb_init (rc_stmt (demo_rcfg 0))))) < i64_max"
    by code_simp
  moreover have "\<not> (event_ts (demo_rcfg 0) 0 \<lparr>tr_source = ''s'', tr_data = fmupd ''ts'' (of_f64 (f64_of_int (2 ^ 63))) fmempty\<rparr>
       < mk_mark (tb_marks (tb_init (rc_stmt (demo_rcfg 0)))) \<or>
     mk_mark (advance_mark (rc_inputs (demo_rcfg 0)) (et_late_ms (rc_time (demo_rcfg 0))) ''s''
       (event_ts (demo_rcfg 0) 0 \<lparr>tr_source = ''s'', tr_data = fmupd ''ts'' (of_f64 (f64_of_int (2 ^ 63))) fmempty\<rparr>)
         (tb_marks (tb_init (rc_stmt (demo_rcfg 0))))) < i64_max)"
    by code_simp
  ultimately show ?thesis
    using init tumbling_ingest_returns_iff[of "demo_rcfg 0" 10 "tb_init (rc_stmt (demo_rcfg 0))" demo_libm 0]
    by (metis (no_types, lifting) not_None_eq one_le_numeral option.distinct(1) select_convs(1) tagged.select_convs(1))
qed

subsection \<open>The filter of a processing-time window\<close>

text \<open>A window that aggregates as the records arrive does not look at \<open>FILTER\<close>: here the filter is
  constantly false, the ingest filter rejects the record and the window takes it all the same.\<close>

definition filtered_rcfg :: rcfg where
  "filtered_rcfg = (demo_rcfg 0)\<lparr>rc_stmt :=
     SelectStmt [Call ''count'' [Wildcard]] [] ''s'' None [] None [] None (Some (Literal (Bool False))) None None None [] None None\<rparr>"

lemma incremental_window_ignores_filter:
  "\<not> passes filtered_rcfg \<lparr>tr_source = ''s'', tr_data = at_ts 1\<rparr>
   \<and> fst (rows_push demo_libm filtered_rcfg \<lparr>tr_source = ''s'', tr_data = at_ts 1\<rparr> (rows_new (rc_stmt filtered_rcfg)))"
  by code_simp

end
