(* ===== verification/Hopping_Props.thy ===== *)
theory Hopping_Props
  imports Event_Time
begin

text \<open>
  Event-time hopping windows: a run fires every non-empty window whose end lies between the
  first record to arrive and the watermark, with exactly the accepted records in it.
\<close>

subsection \<open>The closing loop\<close>

text \<open>The \<open>k\<close>-th window after \<open>f\<close> ends \<open>k + 1\<close> hops later and reaches back over \<open>len\<close>.\<close>

definition hop_window :: "int \<Rightarrow> int \<Rightarrow> int \<Rightarrow> (int \<times> 'a) list \<Rightarrow> nat \<Rightarrow> int \<times> int \<times> 'a list" where
  "hop_window len hop f acc k =
     (let e = f + (int k + 1) * hop
      in (e - len, e, map snd (filter (\<lambda>(ts, _). e - len \<le> ts \<and> ts < e) acc)))"

definition nonempty_windows :: "(int \<times> int \<times> 'a list) list \<Rightarrow> (int \<times> int \<times> 'a list) list" where
  "nonempty_windows ws = filter (\<lambda>(s, e, rows). rows \<noteq> []) ws"

text \<open>Two buffers that no window from \<open>lo\<close> on can tell apart.\<close>

definition same_from :: "int \<Rightarrow> (int \<times> 'a) list \<Rightarrow> (int \<times> 'a) list \<Rightarrow> bool" where
  "same_from lo xs ys \<longleftrightarrow> filter (\<lambda>(ts, _). lo \<le> ts) xs = filter (\<lambda>(ts, _). lo \<le> ts) ys"

lemma same_from_mono:
  assumes "same_from lo xs ys" "lo \<le> lo'"
  shows "same_from lo' xs ys"
proof -
  have "filter (\<lambda>(ts, _). lo' \<le> ts) zs = filter (\<lambda>(ts, _). lo' \<le> ts) (filter (\<lambda>(ts, _). lo \<le> ts) zs)" for zs :: "(int \<times> 'a) list"
    using assms(2) by (auto intro!: filter_cong)
  then show ?thesis using assms(1) unfolding same_from_def by metis
qed

lemma same_from_append: "same_from lo xs ys \<Longrightarrow> same_from lo (xs @ zs) (ys @ zs)"
  by (simp add: same_from_def)

lemma hop_window_same:
  assumes "same_from lo xs ys" "lo \<le> f + (int k + 1) * hop - len"
  shows "hop_window len hop f xs k = hop_window len hop f ys k"
proof -
  let ?e = "f + (int k + 1) * hop"
  have *: "filter (\<lambda>(ts, _). ?e - len \<le> ts \<and> ts < ?e) zs = filter (\<lambda>(ts, _). ts < ?e) (filter (\<lambda>(ts, _). ?e - len \<le> ts) zs)"
    for zs :: "(int \<times> 'a) list" by (auto intro!: filter_cong)
  show ?thesis
    using same_from_mono[OF assms] unfolding same_from_def hop_window_def Let_def * by (simp only:)
qed

lemma hop_window_shift: "hop_window len hop (f + hop) acc k = hop_window len hop f acc (Suc k)"
  by (simp add: hop_window_def Let_def algebra_simps)

lemma close_hops_exact:
  assumes "1 \<le> hop" "0 \<le> len" "mark \<le> i64_max - (len + hop)" "i64_min + len \<le> f" "f \<le> i64_max - (len + hop)"
  shows "\<exists>b. close_hops len hop mark (f + hop) buf =
       Some (f + (int (windows_passed hop f mark) + 1) * hop, b,
             nonempty_windows (map (hop_window len hop f buf) [0..<windows_passed hop f mark]))
     \<and> same_from (f + (int (windows_passed hop f mark) + 1) * hop - len) b buf"
  using assms
proof (induction "windows_passed hop f mark" arbitrary: f buf)
  case 0
  have "mark < f + hop" using windows_passed_less[of hop f mark 0] 0 by simp
  then show ?case
    using 0(1) by (subst close_hops.simps) (simp add: nonempty_windows_def same_from_def)
next
  case (Suc n)
  have le: "f + hop \<le> mark" using windows_passed_less[of hop f mark 0] Suc by simp
  define g where "g = f + hop + hop"
  define buf' where "buf' = filter (\<lambda>(ts, _). g - len \<le> ts) buf"
  have sat: "sat_sub (f + hop) len = f + hop - len" "sat_add (f + hop) hop = g" "sat_sub g len = g - len"
    using le Suc.prems by (auto simp: sat_sub_def sat_add_def i64_simps g_def)
  have n: "windows_passed hop (f + hop) mark = n"
    using windows_passed_shift[of hop f 1 mark] Suc by simp
  have same: "same_from (g - len) buf' buf" by (simp add: same_from_def buf'_def split_def)
  let ?e = "f + hop + (int n + 1) * hop"
  have e: "?e = f + (int (windows_passed hop f mark) + 1) * hop"
    by (simp add: algebra_simps flip: Suc.hyps(2))
  obtain b where b: "close_hops len hop mark g buf' =
       Some (?e, b, nonempty_windows (map (hop_window len hop (f + hop) buf') [0..<n]))"
     "same_from (?e - len) b buf'"
    using Suc.hyps(1)[of "f + hop" buf'] n Suc.prems le by (auto simp: g_def)
  have "same_from (?e - len) buf' buf"
    using same_from_mono[OF same] Suc.prems(1) by (simp add: algebra_simps g_def)
  then have s: "same_from (?e - len) b buf" using b(2) by (simp add: same_from_def)
  have hw: "hop_window len hop (f + hop) buf' k = hop_window len hop f buf (Suc k)" for k
    using hop_window_same[OF same, of "f + hop" k hop len] hop_window_shift[of len hop f buf k] Suc.prems(1)
    by (simp add: algebra_simps g_def)
  let ?rows = "map snd (filter (\<lambda>(ts, _). f + hop - len \<le> ts \<and> ts < f + hop) buf)"
  have ws: "map (hop_window len hop f buf) [0..<windows_passed hop f mark]
      = (f + hop - len, f + hop, ?rows) # map (hop_window len hop (f + hop) buf') [0..<n]"
    unfolding Suc.hyps(2)[symmetric] hw by (simp add: map_upt_Suc del: upt_Suc) (simp add: hop_window_def Let_def)
  have "close_hops len hop mark (f + hop) buf = Option.bind (close_hops len hop mark g buf')
      (\<lambda>(e, b, ws). Some (e, b, if ?rows = [] then ws else (f + hop - len, f + hop, ?rows) # ws))"
    using le by (subst close_hops.simps) (simp add: Let_def sat buf'_def del: map_is_Nil_conv)
  then show ?case
    using s unfolding ws b(1) e by (auto simp: nonempty_windows_def)
qed

subsection \<open>The invariant of a run\<close>

definition hop_origin :: "rcfg \<Rightarrow> int \<Rightarrow> arm_event list \<Rightarrow> int" where
  "hop_origin C hop es = align hop (fst (hd (on_time C es)))"

definition hop_count :: "rcfg \<Rightarrow> int \<Rightarrow> arm_event list \<Rightarrow> nat" where
  "hop_count C hop es = (if on_time C es = [] then 0 else windows_passed hop (hop_origin C hop es) (mark_at C es))"

definition hopping_spec :: "rcfg \<Rightarrow> int \<Rightarrow> int \<Rightarrow> arm_event list \<Rightarrow> (int \<times> int \<times> tagged list) list" where
  "hopping_spec C len hop es =
     nonempty_windows (map (hop_window len hop (hop_origin C hop es) (accepted C es)) [0..<hop_count C hop es])"

definition hop_next_end :: "rcfg \<Rightarrow> int \<Rightarrow> arm_event list \<Rightarrow> int" where
  "hop_next_end C hop es = hop_origin C hop es + (int (hop_count C hop es) + 1) * hop"

definition hopping_inv :: "rcfg \<Rightarrow> int \<Rightarrow> int \<Rightarrow> hopping_state \<Rightarrow> arm_event list \<Rightarrow> trigger list \<Rightarrow> bool" where
  "hopping_inv C len hop s es trs \<longleftrightarrow>
     hp_marks s = marks_at C es \<and> trs = as_triggers (hopping_spec C len hop es) \<and>
     hp_next s = (if on_time C es = [] then None else Some (hop_next_end C hop es)) \<and>
     (if on_time C es = [] then hp_buffer s = [] else same_from (hop_next_end C hop es - len) (hp_buffer s) (accepted C es))"

definition hop_ok :: "rcfg \<Rightarrow> int \<Rightarrow> int \<Rightarrow> arm_event list \<Rightarrow> bool" where
  "hop_ok C len hop es \<longleftrightarrow> 1 \<le> hop \<and> 0 \<le> len \<and> roomy C (len + hop) es"

lemma hop_window_shifts: "hop_window len hop (f + int n * hop) acc k = hop_window len hop f acc (n + k)"
  by (simp add: hop_window_def Let_def algebra_simps)

lemma hop_origin_bounds:
  assumes "hop_ok C len hop es" "on_time C es \<noteq> []"
  shows "i64_min + len \<le> hop_origin C hop es" "hop_origin C hop es \<le> i64_max - (len + hop)"
proof -
  let ?t = "fst (hd (on_time C es))"
  have h: "1 \<le> hop" "0 \<le> len" "roomy C (len + hop) es" using assms(1) by (simp_all add: hop_ok_def)
  have "(?t, snd (hd (on_time C es))) \<in> set (on_time C es)" using assms(2) by (simp add: hd_in_set)
  from roomy_on_time[OF h(3) this] show "i64_min + len \<le> hop_origin C hop es" "hop_origin C hop es \<le> i64_max - (len + hop)"
    using align_le[OF h(1), of ?t] align_gt[OF h(1), of ?t] unfolding hop_origin_def by linarith+
qed

lemma hop_closed_le:
  assumes "1 \<le> hop" "0 < hop_count C hop es"
  shows "hop_origin C hop es + int (hop_count C hop es) * hop \<le> mark_at C es"
  using assms windows_passed_le[OF assms(1), of "hop_origin C hop es" "mark_at C es"]
  by (auto simp: hop_count_def split: if_splits)

text \<open>A record on time changes neither the origin of the windows nor a closed window.\<close>

lemma hop_origin_snoc:
  "on_time C (es @ [e]) = on_time C es @ [(ts, r)] \<Longrightarrow>
   hop_origin C hop (es @ [e]) = (if on_time C es = [] then align hop ts else hop_origin C hop es)"
  by (simp add: hop_origin_def)

lemma hop_spec_snoc:
  assumes h: "1 \<le> hop" "0 \<le> len" and ot: "on_time C (es @ [e]) = on_time C es @ [(ts, r)]" and ts: "mark_at C es \<le> ts"
    and acc: "accepted C (es @ [e]) = accepted C es @ (if passes C r then [(ts, r)] else [])"
  shows "hopping_spec C len hop es
    = nonempty_windows (map (hop_window len hop (hop_origin C hop (es @ [e])) (accepted C (es @ [e]))) [0..<hop_count C hop es])"
proof -
  have "hop_window len hop (hop_origin C hop es) (accepted C es) k
      = hop_window len hop (hop_origin C hop (es @ [e])) (accepted C (es @ [e])) k" if k: "k < hop_count C hop es" for k
  proof -
    have ne: "on_time C es \<noteq> []" using k by (auto simp: hop_count_def split: if_splits)
    have "(int k + 1) * hop \<le> int (hop_count C hop es) * hop" using k h by (intro mult_right_mono) auto
    then have "\<not> ts < hop_origin C hop es + (int k + 1) * hop"
      using hop_closed_le[OF h(1), of C es] ts k by simp
    then show ?thesis using hop_origin_snoc[OF ot] ne by (simp add: hop_window_def acc)
  qed
  then show ?thesis unfolding hopping_spec_def by (intro arg_cong[of _ _ nonempty_windows] map_cong) auto
qed

text \<open>Closing on from \<open>n\<close> windows already closed, on a buffer that agrees with the accepted rows.\<close>

lemma close_hops_from:
  assumes h: "1 \<le> hop" "0 \<le> len" and n: "n \<le> windows_passed hop f mark" and mark: "mark \<le> i64_max - (len + hop)"
    and f: "i64_min + len \<le> f" "f \<le> i64_max - (len + hop)" and same: "same_from (f + (int n + 1) * hop - len) buf acc"
  shows "\<exists>b. close_hops len hop mark (f + (int n + 1) * hop) buf =
       Some (f + (int (windows_passed hop f mark) + 1) * hop, b,
             nonempty_windows (map (hop_window len hop f acc) [n..<windows_passed hop f mark]))
     \<and> same_from (f + (int (windows_passed hop f mark) + 1) * hop - len) b acc"
proof -
  let ?m = "windows_passed hop f mark" and ?g = "f + int n * hop"
  have "0 \<le> int n * hop" using h by simp
  moreover have "int n * hop \<le> int ?m * hop" using n h by (intro mult_right_mono) auto
  moreover have "f + int ?m * hop \<le> i64_max - (len + hop)"
    using mark f windows_passed_le[OF h(1), of f mark] by (cases "?m = 0") auto
  ultimately have g: "i64_min + len \<le> ?g" "?g \<le> i64_max - (len + hop)" using f by linarith+
  have eq: "?g + hop = f + (int n + 1) * hop" "?g + (int (?m - n) + 1) * hop = f + (int ?m + 1) * hop"
    using n by (simp_all add: of_nat_diff algebra_simps)
  have idx: "map (hop_window len hop ?g buf) [0..<?m - n] = map (hop_window len hop f acc) [n..<?m]"
  proof (intro nth_equalityI)
    fix i assume "i < length (map (hop_window len hop ?g buf) [0..<?m - n])"
    moreover have "f + (int n + 1) * hop - len \<le> f + (int (n + i) + 1) * hop - len"
      using h by (simp add: algebra_simps)
    ultimately show "map (hop_window len hop ?g buf) [0..<?m - n] ! i = map (hop_window len hop f acc) [n..<?m] ! i"
      using hop_window_same[OF same] by (simp add: hop_window_shifts)
  qed (use n in simp)
  have "same_from (f + (int ?m + 1) * hop - len) buf acc"
    using same_from_mono[OF same] n h by (simp add: mult_right_mono)
  then show ?thesis
    using close_hops_exact[OF h mark g, of buf]
    unfolding windows_passed_shift[OF h(1)] eq idx by (auto simp: same_from_def)
qed

lemma accepted_none: "on_time C es = [] \<Longrightarrow> accepted C es = []"
  by (simp add: accepted_def)

lemma hop_unchanged:
  assumes "mark_at C es' = mark_at C es" "on_time C es' = on_time C es"
  shows "hopping_spec C len hop es' = hopping_spec C len hop es" "hop_next_end C hop es' = hop_next_end C hop es"
  using assms by (simp_all add: hopping_spec_def hop_next_end_def hop_count_def hop_origin_def accepted_def)

lemma hopping_take:
  assumes inv: "hopping_inv C len hop s es trs" and ok: "hop_ok C len hop (es @ [e])"
    and rec: "arm_record e = Some (now, r)" and late: "\<not> event_ts C now r < mark_at C es"
  shows "\<exists>s' t. hopping_ingest C len hop now inst r s = Some (s', t) \<and> hopping_inv C len hop s' (es @ [e]) (trs @ t)"
proof -
  let ?ts = "event_ts C now r" and ?f = "hop_origin C hop (es @ [e])" and ?acc = "accepted C (es @ [e])"
  let ?n = "hop_count C hop es" and ?n' = "hop_count C hop (es @ [e])"
  have h: "1 \<le> hop" "0 \<le> len" and room: "roomy C (len + hop) (es @ [e])" using ok by (simp_all add: hop_ok_def)
  note taken = et_taken[OF rec late]
  have ts: "mark_at C es \<le> ?ts" using late by simp
  have ne: "on_time C (es @ [e]) \<noteq> []" using taken(2) by simp
  have n': "?n' = windows_passed hop ?f (mark_at C (es @ [e]))" using ne by (simp add: hop_count_def)
  have "mark_at C es \<le> mark_at C (es @ [e])" using taken(1) by (simp add: mark_at_def mark_advances)
  then have nn: "?n \<le> ?n'"
    using windows_passed_mono[OF h(1), of _ _ ?f] hop_origin_snoc[OF taken(2)] n' by (auto simp: hop_count_def)
  have ts_in: "i64_min + (len + hop) \<le> ?ts" "?ts \<le> i64_max - (len + hop)" using room rec by (auto simp: roomy_def)
  have "in_i64 (align hop ?ts + hop)"
    using align_le[OF h(1), of ?ts] align_gt[OF h(1), of ?ts] ts_in h unfolding in_i64_def by linarith
  then have nxt: "(case hp_next s of Some x \<Rightarrow> x | None \<Rightarrow> wrap64 (?ts - ?ts mod hop + hop)) = ?f + (int ?n + 1) * hop"
    using inv hop_origin_snoc[OF taken(2)]
    by (auto simp: hopping_inv_def hop_next_end_def wrap64_id align_def hop_count_def)
  have buf: "same_from (?f + (int ?n + 1) * hop - len) (hp_buffer s @ (if passes C r then [(?ts, r)] else [])) ?acc"
    using inv hop_origin_snoc[OF taken(2)] unfolding taken(3)
    by (cases "on_time C es = []")
       (auto simp: hopping_inv_def hop_next_end_def accepted_none same_from_append same_from_def)
  obtain b where b: "close_hops len hop (mark_at C (es @ [e])) (?f + (int ?n + 1) * hop)
        (hp_buffer s @ (if passes C r then [(?ts, r)] else [])) =
       Some (hop_next_end C hop (es @ [e]), b, nonempty_windows (map (hop_window len hop ?f ?acc) [?n..<?n']))"
     "same_from (hop_next_end C hop (es @ [e]) - len) b ?acc"
    using close_hops_from[OF h nn[unfolded n'] _ hop_origin_bounds[OF ok ne] buf] roomy_mark[OF room _ rec] n'
    by (auto simp: hop_next_end_def)
  have "nonempty_windows (map (hop_window len hop ?f ?acc) [0..<?n'])
      = nonempty_windows (map (hop_window len hop ?f ?acc) [0..<?n]) @ nonempty_windows (map (hop_window len hop ?f ?acc) [?n..<?n'])"
    unfolding upt_append[OF nn, symmetric] by (simp add: nonempty_windows_def)
  then have spec: "hopping_spec C len hop (es @ [e])
      = hopping_spec C len hop es @ nonempty_windows (map (hop_window len hop ?f ?acc) [?n..<?n'])"
    unfolding hop_spec_snoc[OF h taken(2) ts taken(3)] by (simp add: hopping_spec_def)
  have "hopping_ingest C len hop now inst r s =
      Some (s\<lparr>hp_marks := marks_at C (es @ [e]), hp_next := Some (hop_next_end C hop (es @ [e])), hp_buffer := b\<rparr>,
            as_triggers (nonempty_windows (map (hop_window len hop ?f ?acc) [?n..<?n'])))"
    using inv room late taken(1) nxt b(1)
    by (cases "passes C r") (auto simp: hopping_ingest_def hopping_inv_def Let_def roomy_def mark_at_def)
  then show ?thesis using inv ne spec b(2) by (auto simp: hopping_inv_def as_triggers_append)
qed

lemma hopping_step:
  assumes "hopping_inv C len hop s es trs" "hop_ok C len hop (es @ [e])"
  shows "\<exists>s' t. arm_step (run_hopping_window_rule C len hop len_inst) e s = Some (s', t)
    \<and> hopping_inv C len hop s' (es @ [e]) (trs @ t)"
proof (cases "arm_record e")
  case None
  have "mark_at C (es @ [e]) = mark_at C es" "on_time C (es @ [e]) = on_time C es"
    using None by (simp_all add: wm_simps mark_at_def)
  then show ?thesis
    using None assms hop_unchanged[of C "es @ [e]" es]
    by (cases e) (auto simp: run_hopping_window_rule_def hopping_inv_def hopping_tick_def hop_ok_def roomy_def wm_simps Let_def)
next
  case (Some p)
  obtain now r where p: "p = (now, r)" by (cases p)
  obtain inst where ing: "arm_step (run_hopping_window_rule C len hop len_inst) e s = hopping_ingest C len hop now inst r s"
    using Some p assms(2) by (cases e) (auto simp: run_hopping_window_rule_def hop_ok_def max_def Let_def)
  show ?thesis
  proof (cases "event_ts C now r < mark_at C es")
    case True
    then have "hopping_ingest C len hop now inst r s = Some (s, [])"
      using assms by (simp add: hopping_ingest_def hopping_inv_def hop_ok_def roomy_def mark_at_def Let_def)
    moreover have "mark_at C (es @ [e]) = mark_at C es" "on_time C (es @ [e]) = on_time C es"
      using True Some p by (simp_all add: wm_simps mark_at_def)
    ultimately show ?thesis
      using ing assms(1) True Some p hop_unchanged[of C "es @ [e]" es] by (simp add: wm_simps hopping_inv_def)
  next
    case False
    then show ?thesis using hopping_take[OF assms] Some p ing by simp
  qed
qed

interpretation hw: runner "run_hopping_window_rule C len hop len_inst" hp_init "hop_ok C len hop" "hopping_inv C len hop"
  for C len hop len_inst
proof
  show "hopping_inv C len hop hp_init [] []"
    by (simp add: hopping_inv_def hp_init_def hopping_spec_def hop_count_def as_triggers_def nonempty_windows_def)
qed (auto simp: hop_ok_def roomy_def intro: hopping_step)

subsection \<open>What hopping windows promise\<close>

text \<open>C19: A run of an event-time hopping rule returns and fires, in the order of their ends, every
  non-empty window that ends after the first record to arrive and not after the watermark, with
  exactly the accepted records in it. The windows are counted from the record that arrives
  first, not from the earliest one: a record within the tolerance whose windows all end before
  it is in none of them.\<close>

theorem hopping_windows_exact:
  assumes "1 \<le> hop" "0 \<le> len" "roomy C (len + hop) (fst (arm_events L True mos))"
  shows "\<exists>s outs. run_loop L (run_hopping_window_rule C len hop len_inst) mos (loop_init hp_init) = Some (s, outs)
    \<and> fired outs = as_triggers (hopping_spec C len hop (fst (arm_events L True mos)))"
proof -
  obtain es b where eb: "arm_events L True mos = (es, b)" by (cases "arm_events L True mos")
  show ?thesis
    using hw.loop_inv[OF eb, of C len hop len_inst] assms eb
    by (auto simp: hopping_inv_def hop_ok_def run_hopping_window_rule_def Let_def)
qed

text \<open>With a tolerance of 50 the records at 100, 85 and 200 are all accepted, and the one at 85
  is in no window.\<close>

theorem hopping_windows_exact_witness:
  "\<exists>s outs. run_loop demo_loop (run_hopping_window_rule (demo_rcfg 50) 10 10 10) (map (\<lambda>t. arrival (at_ts t)) [100, 85, 200])
       (loop_init hp_init) = Some (s, outs)
     \<and> fired outs = as_triggers [(100, 110, [\<lparr>tr_source = ''s'', tr_data = at_ts 100\<rparr>])]
     \<and> map fst (accepted (demo_rcfg 50)
          (fst (arm_events demo_loop True (map (\<lambda>t. arrival (at_ts t)) [100, 85, 200])))) = [100, 85, 200]"
proof -
  let ?mos = "map (\<lambda>t. arrival (at_ts t)) [100, 85, 200]"
  let ?es = "fst (arm_events demo_loop True ?mos)"
  have es: "?es = map (\<lambda>t. AFrom 0 0 \<lparr>tr_source = ''s'', tr_data = at_ts t\<rparr>) [100, 85, 200]" by code_simp
  have ts: "map (\<lambda>t. event_ts (demo_rcfg 50) 0 \<lparr>tr_source = ''s'', tr_data = at_ts t\<rparr>) [100, 85, 200] = [100, 85, 200]"
    by code_simp
  have "roomy (demo_rcfg 50) (10 + 10) ?es"
    unfolding es using ts by (auto simp: roomy_def demo_rcfg_def demo_time_def i64_simps)
  from hopping_windows_exact[OF _ _ this, of 10]
  have "\<exists>s outs. run_loop demo_loop (run_hopping_window_rule (demo_rcfg 50) 10 10 10) ?mos (loop_init hp_init) = Some (s, outs)
     \<and> fired outs = as_triggers (hopping_spec (demo_rcfg 50) 10 10 ?es)" by simp
  moreover have "as_triggers (hopping_spec (demo_rcfg 50) 10 10 ?es) = as_triggers [(100, 110, [\<lparr>tr_source = ''s'', tr_data = at_ts 100\<rparr>])]"
    unfolding es by code_simp
  moreover have "map fst (accepted (demo_rcfg 50) ?es) = [100, 85, 200]"
    unfolding es by code_simp
  ultimately show ?thesis by metis
qed

end
