(* ===== verification/Count_Props.thy ===== *)
theory Count_Props
  imports Event_Time
begin

text \<open>
  Count windows: the batches are cut out of the sequence of accepted records at the positions
  that the size and the interval say.
\<close>

subsection \<open>Batches by position\<close>

fun trigger_rows :: "trigger \<Rightarrow> tagged list" where
  "trigger_rows (Batch rows prefiltered bounds) = rows"
| "trigger_rows (Outputs outs) = []"

definition row_of :: "rcfg \<Rightarrow> arm_event \<Rightarrow> tagged list" where
  "row_of C e = (case arm_record e of Some (now, r) \<Rightarrow> if passes C r then [r] else [] | None \<Rightarrow> [])"

definition passing :: "rcfg \<Rightarrow> arm_event list \<Rightarrow> tagged list" where
  "passing C es = concat (map (row_of C) es)"

definition count_batch :: "nat \<Rightarrow> nat \<Rightarrow> 'a list \<Rightarrow> nat \<Rightarrow> 'a list" where
  "count_batch cnt hop xs k = take cnt (drop (k * hop + (hop - cnt)) xs)"

definition count_triggers :: "nat \<Rightarrow> nat \<Rightarrow> nat \<Rightarrow> nat" where
  "count_triggers cnt hop n =
     (if n < max cnt hop then 0 else (n - max cnt hop) div hop + 1)"

definition closed_batches :: "nat \<Rightarrow> nat \<Rightarrow> nat \<Rightarrow> nat \<Rightarrow> bool" where
  "closed_batches cnt hop len n \<longleftrightarrow>
     n * hop \<le> len \<and> len < n * hop + max cnt hop \<and> (0 < n \<longrightarrow> n * hop - hop + max cnt hop \<le> len)"

lemma closed_batches_count:
  assumes "1 \<le> hop" "closed_batches cnt hop len n"
  shows "n = count_triggers cnt hop len"
proof (cases n)
  case 0
  then show ?thesis using assms by (simp add: closed_batches_def count_triggers_def)
next
  case (Suc m)
  then have "(len - max cnt hop) div hop = m"
    using assms by (intro div_nat_eqI) (auto simp: closed_batches_def algebra_simps)
  then show ?thesis using assms Suc by (simp add: closed_batches_def count_triggers_def)
qed

lemma count_batch_append:
  assumes "closed_batches cnt hop (length xs) n" "k < n"
  shows "count_batch cnt hop (xs @ ys) k = count_batch cnt hop xs k"
proof -
  have "k * hop + hop \<le> n * hop" using assms(2) mult_le_mono1[of "Suc k" n hop] by simp
  then have "k * hop + (hop - cnt) + cnt \<le> length xs"
    using assms by (auto simp: closed_batches_def max_def split: if_splits)
  then show ?thesis by (simp add: count_batch_def)
qed

lemma map_count_batch_append:
  "closed_batches cnt hop (length xs) n \<Longrightarrow>
   map (count_batch cnt hop (xs @ ys)) [0..<n] = map (count_batch cnt hop xs) [0..<n]"
  by (simp add: count_batch_append)

subsection \<open>The invariant of a run\<close>

fun is_join :: "arm_event \<Rightarrow> bool" where
  "is_join (AJoin now inst r) = True"
| "is_join e = False"

definition count_ok :: "nat \<Rightarrow> nat option \<Rightarrow> arm_event list \<Rightarrow> bool" where
  "count_ok sz interval es \<longleftrightarrow>
     snd (cw_slots sz interval) \<le> fst (cw_slots sz interval) \<or> list_all (\<lambda>e. \<not> is_join e) es"

text \<open>The buffer of an overlapping or tumbling window reaches back to the first record of the next
  batch; the buffer of a sampling window holds the latest records since the last trigger.\<close>

definition count_buffer :: "nat \<Rightarrow> nat \<Rightarrow> nat \<Rightarrow> tagged list \<Rightarrow> count_state \<Rightarrow> bool" where
  "count_buffer cnt hop n xs s \<longleftrightarrow>
     (if hop \<le> cnt then cw_buffer s = drop (n * hop) xs
      else cw_since s = length xs - n * hop \<and>
           cw_buffer s = drop (length xs - min cnt (length xs - n * hop)) xs)"

definition count_inv :: "rcfg \<Rightarrow> nat \<Rightarrow> nat option \<Rightarrow> count_state \<Rightarrow> arm_event list \<Rightarrow> trigger list \<Rightarrow> bool" where
  "count_inv C sz interval s es trs \<longleftrightarrow>
     (case cw_slots sz interval of (cnt, hop) \<Rightarrow>
        \<exists>n. closed_batches cnt hop (length (passing C es)) n
          \<and> map trigger_rows trs = map (count_batch cnt hop (passing C es)) [0..<n]
          \<and> count_buffer cnt hop n (passing C es) s)"

lemma cw_slots_pos: "cw_slots sz interval = (cnt, hop) \<Longrightarrow> 1 \<le> cnt \<and> 1 \<le> hop"
  by (auto simp: cw_slots_def Let_def split: option.splits)

text \<open>One more record either completes the next batch or is kept.\<close>

lemma count_full_step:
  assumes pos: "1 \<le> hop" "hop \<le> cnt" and cb: "closed_batches cnt hop (length xs) n"
    and buf: "cw_buffer s = drop (n * hop) xs"
  shows "\<exists>s' t m. cw_full cnt hop now \<lparr>cw_buffer = cw_buffer s @ [r], cw_since = cw_since s + 1\<rparr> = (s', t)
     \<and> closed_batches cnt hop (length (xs @ [r])) m
     \<and> map (count_batch cnt hop xs) [0..<n] @ map trigger_rows t = map (count_batch cnt hop (xs @ [r])) [0..<m]
     \<and> count_buffer cnt hop m (xs @ [r]) s'"
proof -
  have b1: "cw_buffer s @ [r] = drop (n * hop) (xs @ [r])" using buf cb by (simp add: closed_batches_def)
  show ?thesis
  proof (cases "cnt \<le> length (cw_buffer s @ [r])")
    case True
    have "closed_batches cnt hop (length (xs @ [r])) (Suc n)"
      using True cb pos b1 by (auto simp: closed_batches_def)
    moreover have "take cnt (cw_buffer s @ [r]) = count_batch cnt hop (xs @ [r]) n"
      using pos b1 by (simp add: count_batch_def)
    moreover have "drop hop (cw_buffer s @ [r]) = drop (Suc n * hop) (xs @ [r])"
      unfolding b1 by (simp only: drop_drop mult_Suc)
    ultimately show ?thesis
      using True pos map_count_batch_append[OF cb, of "[r]"]
      by (intro exI[of _ "Suc n"] exI) (auto simp: cw_full_def count_buffer_def)
  next
    case False
    have "closed_batches cnt hop (length (xs @ [r])) n"
      using False cb pos b1 by (auto simp: closed_batches_def)
    then show ?thesis
      using False pos b1 map_count_batch_append[OF cb, of "[r]"]
      by (intro exI[of _ n] exI) (auto simp: cw_full_def count_buffer_def)
  qed
qed

lemma count_sampled_step:
  assumes pos: "1 \<le> cnt" "cnt < hop" and cb: "closed_batches cnt hop (length xs) n"
    and buf: "count_buffer cnt hop n xs s"
  shows "\<exists>s' t m. cw_sampled hop now (cw_trim cnt \<lparr>cw_buffer = cw_buffer s @ [r], cw_since = cw_since s + 1\<rparr>) = (s', t)
     \<and> closed_batches cnt hop (length (xs @ [r])) m
     \<and> map (count_batch cnt hop xs) [0..<n] @ map trigger_rows t = map (count_batch cnt hop (xs @ [r])) [0..<m]
     \<and> count_buffer cnt hop m (xs @ [r]) s'"
proof -
  let ?d = "length xs - n * hop" and ?xs = "xs @ [r]"
  have le: "n * hop \<le> length xs" "?d < hop" using cb pos by (auto simp: closed_batches_def)
  have s: "cw_since s = ?d" "cw_buffer s = drop (length xs - min cnt ?d) xs"
    using buf pos by (auto simp: count_buffer_def)
  have trim: "cw_trim cnt \<lparr>cw_buffer = cw_buffer s @ [r], cw_since = cw_since s + 1\<rparr>
      = \<lparr>cw_buffer = drop (length ?xs - min cnt (Suc ?d)) ?xs, cw_since = Suc ?d\<rparr>"
  proof (cases "cnt \<le> ?d")
    case True
    have "tl (drop k ys) = drop (Suc k) ys" for k and ys :: "tagged list" by (simp add: drop_Suc tl_drop)
    then have "tl (drop (length xs - cnt) ?xs) = drop (length ?xs - cnt) ?xs"
      using True le by (simp only: Suc_diff_le[symmetric]) simp
    then show ?thesis using True s le by (simp add: cw_trim_def min_def)
  next
    case False
    then have "min cnt (Suc ?d) = Suc ?d" "min cnt ?d = ?d" "length ?xs - Suc ?d = n * hop" using le by auto
    then show ?thesis using s le False by (simp add: cw_trim_def)
  qed
  show ?thesis
  proof (cases "hop \<le> Suc ?d")
    case True
    then have d: "Suc ?d = hop" "length ?xs = Suc n * hop" using le by auto
    have "closed_batches cnt hop (length ?xs) (Suc n)" using d pos by (auto simp: closed_batches_def)
    moreover have "drop (length ?xs - min cnt hop) ?xs = count_batch cnt hop ?xs n"
      using d pos by (simp add: count_batch_def min_def add.commute)
    moreover have "drop (length ?xs - min cnt hop) ?xs \<noteq> []" using pos d by simp
    ultimately show ?thesis
      using d pos map_count_batch_append[OF cb, of "[r]"] unfolding trim
      by (intro exI[of _ "Suc n"] exI) (auto simp: cw_sampled_def count_buffer_def)
  next
    case False
    have "closed_batches cnt hop (length ?xs) n" using False cb pos by (auto simp: closed_batches_def)
    then show ?thesis
      using False pos le map_count_batch_append[OF cb, of "[r]"] unfolding trim
      by (intro exI[of _ n] exI) (auto simp: cw_sampled_def count_buffer_def Suc_diff_le)
  qed
qed

lemma count_step:
  assumes inv: "count_inv C sz interval s es trs" and ok: "count_ok sz interval (es @ [e])"
  shows "\<exists>s' t. arm_step (run_count_window_rule C sz interval) e s = Some (s', t)
    \<and> count_inv C sz interval s' (es @ [e]) (trs @ t)"
proof -
  obtain cnt hop where ch: "cw_slots sz interval = (cnt, hop)" by (cases "cw_slots sz interval")
  have pos: "1 \<le> cnt" "1 \<le> hop" using cw_slots_pos[OF ch] by auto
  obtain n where n: "closed_batches cnt hop (length (passing C es)) n"
    "map trigger_rows trs = map (count_batch cnt hop (passing C es)) [0..<n]" "count_buffer cnt hop n (passing C es) s"
    using inv ch by (auto simp: count_inv_def)
  have idle: "count_inv C sz interval s (es @ [e]) (trs @ [])" if "row_of C e = []"
    using that n ch by (auto simp: count_inv_def passing_def)
  show ?thesis
  proof (cases "row_of C e")
    case Nil
    then show ?thesis
      using ch idle
      by (cases e) (auto simp: run_count_window_rule_def row_of_def count_ingest_def count_ingest_join_def split: if_splits)
  next
    case (Cons r rs)
    then have pass: "passes C r" "rs = []" "passing C (es @ [e]) = passing C es @ [r]"
      by (auto simp: row_of_def passing_def split: option.splits if_splits prod.splits)
    obtain now where now: "arm_record e = Some (now, r)" using Cons by (auto simp: row_of_def split: option.splits if_splits prod.splits)
    have "\<exists>s' t m. arm_step (run_count_window_rule C sz interval) e s = Some (s', t)
        \<and> closed_batches cnt hop (length (passing C es @ [r])) m
        \<and> map (count_batch cnt hop (passing C es)) [0..<n] @ map trigger_rows t = map (count_batch cnt hop (passing C es @ [r])) [0..<m]
        \<and> count_buffer cnt hop m (passing C es @ [r]) s'"
    proof (cases "hop \<le> cnt")
      case True
      then show ?thesis
        using count_full_step[OF pos(2) True n(1), of s now r] n(3) now ch pass(1)
        by (cases e) (auto simp: run_count_window_rule_def count_ingest_def count_ingest_join_def Let_def count_buffer_def)
    next
      case False
      then show ?thesis
        using count_sampled_step[OF pos(1) _ n(1,3), of now r] now ch pass(1) ok
        by (cases e) (auto simp: run_count_window_rule_def count_ingest_def Let_def count_ok_def)
    qed
    then show ?thesis using n(2) ch pass(3) by (fastforce simp: count_inv_def)
  qed
qed

interpretation cw: runner "run_count_window_rule C sz interval" cw_init "count_ok sz interval" "count_inv C sz interval"
  for C sz interval
proof
  obtain cnt hop where ch: "cw_slots sz interval = (cnt, hop)" by (cases "cw_slots sz interval")
  show "count_inv C sz interval cw_init [] []"
    using cw_slots_pos[OF ch]
    by (auto simp: count_inv_def ch passing_def closed_batches_def count_buffer_def cw_init_def intro!: exI[of _ 0])
qed (auto simp: count_ok_def intro: count_step)

subsection \<open>What count windows promise\<close>

text \<open>C20: Suppose the interval \<open>hop\<close> of a count window is at most its size \<open>cnt\<close>, or no record comes from
  a joined stream. Then, in the sequence of records that pass the ingest filter, the window fires
  once for every \<open>hop\<close> records, as soon as a full batch exists, and the \<open>k\<close>-th batch is the \<open>cnt\<close>
  records that end at position \<open>k * hop + max cnt hop\<close>: tumbling for \<open>hop = cnt\<close>, overlapping for a
  smaller and sampling for a larger interval. Error records, pauses and timer ticks do not count.
  For a larger interval and joined streams the batch can be too long: their arm trims its buffer
  only once per trigger (\<open>count_join_batch_too_long\<close>).\<close>

theorem count_window_batches:
  assumes "cw_slots sz interval = (cnt, hop)"
    and "hop \<le> cnt \<or> list_all (\<lambda>e. \<not> is_join e) (fst (arm_events L True mos))"
  shows "\<exists>s outs. run_loop L (run_count_window_rule C sz interval) mos (loop_init cw_init) = Some (s, outs)
    \<and> map trigger_rows (fired outs) =
       map (count_batch cnt hop (passing C (fst (arm_events L True mos))))
         [0..<count_triggers cnt hop (length (passing C (fst (arm_events L True mos))))]"
proof -
  obtain es b where eb: "arm_events L True mos = (es, b)" by (cases "arm_events L True mos")
  have "count_ok sz interval es" using assms eb by (simp add: count_ok_def)
  from cw.loop_inv[OF eb this, of C] show ?thesis
    using assms eb cw_slots_pos[OF assms(1)] closed_batches_count[of hop cnt]
    by (fastforce simp: count_inv_def run_count_window_rule_def)
qed

text \<open>Sampling the last of every two records, with an error record that does not count.\<close>

theorem count_window_batches_witness:
  "\<exists>s outs. run_loop demo_loop (run_count_window_rule (demo_rcfg 0) 1 (Some 2))
       (map arrival [at_ts 1, fmupd ''error'' Null fmempty, at_ts 2, at_ts 3, at_ts 4, at_ts 5]) (loop_init cw_init) = Some (s, outs)
     \<and> map trigger_rows (fired outs) = [[\<lparr>tr_source = ''s'', tr_data = at_ts 2\<rparr>], [\<lparr>tr_source = ''s'', tr_data = at_ts 4\<rparr>]]"
proof -
  let ?mos = "map arrival [at_ts 1, fmupd ''error'' Null fmempty, at_ts 2, at_ts 3, at_ts 4, at_ts 5]"
  let ?es = "fst (arm_events demo_loop True ?mos)"
  have slots: "cw_slots 1 (Some 2) = (1, 2)" by (simp add: cw_slots_def)
  have es: "?es = map (\<lambda>t. AFrom 0 0 \<lparr>tr_source = ''s'', tr_data = at_ts t\<rparr>) [1, 2, 3, 4, 5]" by code_simp
  have nj: "(2 :: nat) \<le> 1 \<or> list_all (\<lambda>e. \<not> is_join e) ?es" unfolding es by simp
  have "map (count_batch 1 2 (passing (demo_rcfg 0) ?es)) [0..<count_triggers 1 2 (length (passing (demo_rcfg 0) ?es))]
      = [[\<lparr>tr_source = ''s'', tr_data = at_ts 2\<rparr>], [\<lparr>tr_source = ''s'', tr_data = at_ts 4\<rparr>]]"
    unfolding es by code_simp
  then show ?thesis using count_window_batches[OF slots nj, of "demo_rcfg 0"] by metis
qed

text \<open>The joined arm of a sampling window: three records arrive for a window of size 1, and the
  batch holds two of them.\<close>

lemma count_join_batch_too_long:
  "let r = (\<lambda>t. \<lparr>tr_source = ''j'', tr_data = at_ts t\<rparr>)
   in map_option (\<lambda>(s, trs). map trigger_rows trs)
        (arms_run (run_count_window_rule (demo_rcfg 0) 1 (Some 3)) [AJoin 0 0 (r 1), AJoin 0 0 (r 2), AJoin 0 0 (r 3)] cw_init)
      = Some [[r 2, r 3]]"
  by code_simp

end
