(* ===== verification/Session_Props.thy ===== *)
theory Session_Props
  imports Event_Time
begin

text \<open>
  Event-time session windows cut the sequence of accepted records into sessions without losing,
  repeating or reordering any; inside a session every gap and the whole span stay within the
  configured limits, and no session is closed before it is due.
\<close>

subsection \<open>Sessions\<close>

definition session_ok :: "int \<Rightarrow> int \<Rightarrow> (int \<times> 'a) list \<Rightarrow> bool" where
  "session_ok timeout max_dur seg \<longleftrightarrow>
     (\<forall>i. Suc i < length seg \<longrightarrow>
        sat_sub (fst (seg ! Suc i)) (fst (seg ! i)) \<le> timeout \<and> sat_sub (fst (seg ! Suc i)) (fst (hd seg)) < max_dur)"

lemma session_ok_small [simp]: "session_ok t m []" "session_ok t m [x]"
  by (simp_all add: session_ok_def)

lemma session_ok_snoc:
  assumes "seg \<noteq> []"
  shows "session_ok t m (seg @ [x]) \<longleftrightarrow>
    session_ok t m seg \<and> sat_sub (fst x) (fst (last seg)) \<le> t \<and> sat_sub (fst x) (fst (hd seg)) < m"
    (is "?l \<longleftrightarrow> ?r")
proof
  assume l: ?l
  have "session_ok t m seg" unfolding session_ok_def
  proof (intro allI impI)
    fix i assume "Suc i < length seg"
    then show "sat_sub (fst (seg ! Suc i)) (fst (seg ! i)) \<le> t \<and> sat_sub (fst (seg ! Suc i)) (fst (hd seg)) < m"
      using l assms spec[OF l[unfolded session_ok_def], of i] by (simp add: nth_append)
  qed
  moreover have "sat_sub (fst x) (fst (last seg)) \<le> t \<and> sat_sub (fst x) (fst (hd seg)) < m"
    using spec[OF l[unfolded session_ok_def], of "length seg - 1"] assms
    by (simp add: nth_append last_conv_nth)
  ultimately show ?r by simp
next
  assume r: ?r
  show ?l unfolding session_ok_def
  proof (intro allI impI)
    fix i assume i: "Suc i < length (seg @ [x])"
    show "sat_sub (fst ((seg @ [x]) ! Suc i)) (fst ((seg @ [x]) ! i)) \<le> t
        \<and> sat_sub (fst ((seg @ [x]) ! Suc i)) (fst (hd (seg @ [x]))) < m"
    proof (cases "Suc i < length seg")
      case True
      then show ?thesis using r assms by (simp add: nth_append session_ok_def)
    next
      case False
      then have "i = length seg - 1" using i by simp
      then show ?thesis using r assms i by (simp add: nth_append last_conv_nth)
    qed
  qed
qed

definition session_trigger :: "int \<Rightarrow> (int \<times> tagged) list \<Rightarrow> trigger" where
  "session_trigger timeout seg =
     Batch (map snd seg) True (Some (fst (hd seg), sat_add (fst (last seg)) timeout))"

text \<open>A session is due to be closed when the accepted record that follows it comes too late for it, or
  when, at some moment before that record, the watermark has passed its end.\<close>

definition cut_due :: "rcfg \<Rightarrow> int \<Rightarrow> int \<Rightarrow> arm_event list \<Rightarrow>
    (int \<times> tagged) list \<Rightarrow> (int \<times> tagged) list \<Rightarrow> (int \<times> tagged) list \<Rightarrow> bool" where
  "cut_due C timeout max_dur es before seg after \<longleftrightarrow>
     after \<noteq> [] \<and> (timeout < sat_sub (fst (hd after)) (fst (last seg)) \<or> max_dur \<le> sat_sub (fst (hd after)) (fst (hd seg)))
     \<or> (\<exists>n\<le>length es. accepted C (take n es) = before @ seg \<and> sat_add (fst (last seg)) timeout \<le> mark_at C (take n es))"

definition cuts_due :: "rcfg \<Rightarrow> int \<Rightarrow> int \<Rightarrow> arm_event list \<Rightarrow> (int \<times> tagged) list list \<Rightarrow> (int \<times> tagged) list \<Rightarrow> bool" where
  "cuts_due C timeout max_dur es segs rest \<longleftrightarrow>
     (\<forall>k<length segs. cut_due C timeout max_dur es (concat (take k segs)) (segs ! k) (concat (drop (Suc k) segs) @ rest))"

lemma cut_due_mono:
  assumes "cut_due C t m es before seg after"
  shows "cut_due C t m (es @ fs) before seg (after @ xs)"
  using assms
  unfolding cut_due_def
proof (elim disjE exE conjE)
  fix n assume "n \<le> length es" "accepted C (take n es) = before @ seg" "sat_add (fst (last seg)) t \<le> mark_at C (take n es)"
  then have "n \<le> length (es @ fs) \<and> accepted C (take n (es @ fs)) = before @ seg
      \<and> sat_add (fst (last seg)) t \<le> mark_at C (take n (es @ fs))" by simp
  then show "after @ xs \<noteq> [] \<and> (t < sat_sub (fst (hd (after @ xs))) (fst (last seg)) \<or> m \<le> sat_sub (fst (hd (after @ xs))) (fst (hd seg)))
      \<or> (\<exists>n\<le>length (es @ fs). accepted C (take n (es @ fs)) = before @ seg \<and> sat_add (fst (last seg)) t \<le> mark_at C (take n (es @ fs)))"
    by blast
qed (simp_all add: hd_append)

lemma cuts_due_Nil [simp]: "cuts_due C t m es [] rest"
  by (simp add: cuts_due_def)

lemma cuts_due_mono: "cuts_due C t m es segs rest \<Longrightarrow> cuts_due C t m (es @ fs) segs (rest @ xs)"
  unfolding cuts_due_def by (metis append_assoc cut_due_mono)

lemma cuts_due_snoc:
  assumes "cuts_due C t m es segs seg" "cut_due C t m es (concat segs) seg rest"
  shows "cuts_due C t m es (segs @ [seg]) rest"
  unfolding cuts_due_def
proof (intro allI impI)
  fix k assume "k < length (segs @ [seg])"
  then consider "k < length segs" | "k = length segs" by force
  then show "cut_due C t m es (concat (take k (segs @ [seg]))) ((segs @ [seg]) ! k)
      (concat (drop (Suc k) (segs @ [seg])) @ rest)"
  proof cases
    case 1
    then have "cut_due C t m es (concat (take k segs)) (segs ! k) (concat (drop (Suc k) segs) @ seg)"
      using assms(1) by (simp add: cuts_due_def)
    from cut_due_mono[OF this, of "[]" rest] show ?thesis using 1 by (simp add: nth_append)
  next
    case 2
    then show ?thesis using assms(2) by (simp add: nth_append)
  qed
qed

subsection \<open>The invariant of a run\<close>

text \<open>The open session is the buffer, and the two timestamps are those of its ends.\<close>

definition open_session :: "session_state \<Rightarrow> bool" where
  "open_session s \<longleftrightarrow>
     (if ss_buffer s = [] then ss_start s = None \<and> ss_last s = None
      else ss_start s = Some (fst (hd (ss_buffer s))) \<and> ss_last s = Some (fst (last (ss_buffer s))))"

definition session_inv :: "rcfg \<Rightarrow> int \<Rightarrow> int \<Rightarrow> session_state \<Rightarrow> arm_event list \<Rightarrow> trigger list \<Rightarrow> bool" where
  "session_inv C timeout max_dur s es trs \<longleftrightarrow>
     ss_marks s = marks_at C es \<and> ss_opened s = None \<and> open_session s \<and> session_ok timeout max_dur (ss_buffer s) \<and>
     (\<exists>segs. trs = map (session_trigger timeout) segs \<and> concat segs @ ss_buffer s = accepted C es
        \<and> (\<forall>seg\<in>set segs. seg \<noteq> [] \<and> session_ok timeout max_dur seg)
        \<and> cuts_due C timeout max_dur es segs (ss_buffer s))"

text \<open>Between two events the open session has not expired either.\<close>

definition unexpired :: "rcfg \<Rightarrow> int \<Rightarrow> arm_event list \<Rightarrow> (int \<times> tagged) list \<Rightarrow> bool" where
  "unexpired C timeout es seg \<longleftrightarrow> seg = [] \<or> mark_at C es < sat_add (fst (last seg)) timeout"

lemma session_close_trigger:
  "open_session s \<Longrightarrow> ss_buffer s \<noteq> [] \<Longrightarrow> ss_last s = Some prev \<Longrightarrow>
   session_close timeout prev s = session_trigger timeout (ss_buffer s)"
  by (simp add: open_session_def session_close_def session_trigger_def or_val_def)

text \<open>A passing record: the open session is extended, or handed over and replaced.\<close>

lemma session_add_cases:
  assumes "open_session s" "session_ok t m (ss_buffer s)"
  obtains (extend) "session_add t m ts r s = (s\<lparr>ss_start := Some (fst (hd (ss_buffer s @ [(ts, r)]))), ss_last := Some ts,
        ss_buffer := ss_buffer s @ [(ts, r)]\<rparr>, [])" "session_ok t m (ss_buffer s @ [(ts, r)])"
    | (cut) "ss_buffer s \<noteq> []" "session_add t m ts r s =
        (s\<lparr>ss_start := Some ts, ss_last := Some ts, ss_buffer := [(ts, r)]\<rparr>, [session_trigger t (ss_buffer s)])"
        "t < sat_sub ts (fst (last (ss_buffer s))) \<or> m \<le> sat_sub ts (fst (hd (ss_buffer s)))"
proof (cases "ss_buffer s = []")
  case True
  then show thesis using assms by (intro extend) (auto simp: session_add_def open_session_def)
next
  case False
  then obtain a b where ab: "ss_start s = Some a" "ss_last s = Some b" "a = fst (hd (ss_buffer s))" "b = fst (last (ss_buffer s))"
    using assms(1) by (auto simp: open_session_def)
  show thesis
  proof (cases "t < sat_sub ts b \<or> m \<le> sat_sub ts a")
    case True
    then show thesis
      using False ab session_close_trigger[OF assms(1) False ab(2)]
      by (intro cut) (auto simp: session_add_def or_val_def)
  next
    case nocut: False
    then have "session_ok t m (ss_buffer s @ [(ts, r)])" using session_ok_snoc[OF False] assms(2) ab by auto
    moreover have "s\<lparr>ss_last := Some ts, ss_buffer := ss_buffer s @ [(ts, r)]\<rparr> =
        s\<lparr>ss_start := Some (fst (hd (ss_buffer s @ [(ts, r)]))), ss_last := Some ts, ss_buffer := ss_buffer s @ [(ts, r)]\<rparr>"
      using ab False by simp
    ultimately show thesis
      using nocut ab False by (intro extend) (auto simp: session_add_def or_val_def)
  qed
qed

lemma session_invE:
  assumes "session_inv C t m s es trs"
  obtains segs where "trs = map (session_trigger t) segs" "concat segs @ ss_buffer s = accepted C es"
    "\<forall>seg\<in>set segs. seg \<noteq> [] \<and> session_ok t m seg" "cuts_due C t m es segs (ss_buffer s)"
  using assms by (auto simp: session_inv_def)

lemma session_invI:
  assumes "ss_marks s = marks_at C es" "ss_opened s = None" "open_session s" "session_ok t m (ss_buffer s)"
    "trs = map (session_trigger t) segs" "concat segs @ ss_buffer s = accepted C es"
    "\<forall>seg\<in>set segs. seg \<noteq> [] \<and> session_ok t m seg" "cuts_due C t m es segs (ss_buffer s)"
  shows "session_inv C t m s es trs"
  using assms by (auto simp: session_inv_def)

lemma session_add_inv:
  assumes "session_inv C t m s es trs" "s1 = s\<lparr>ss_marks := marks_at C (es @ [e])\<rparr>"
    "accepted C (es @ [e]) = accepted C es @ [(ts, r)]"
  shows "session_inv C t m (fst (session_add t m ts r s1)) (es @ [e]) (trs @ snd (session_add t m ts r s1))"
proof -
  obtain segs where segs: "trs = map (session_trigger t) segs" "concat segs @ ss_buffer s = accepted C es"
    "\<forall>seg\<in>set segs. seg \<noteq> [] \<and> session_ok t m seg" "cuts_due C t m es segs (ss_buffer s)"
    using assms(1) by (rule session_invE)
  note due = cuts_due_mono[OF segs(4), of "[e]" "[(ts, r)]"] cuts_due_mono[OF segs(4), of "[e]" "[]"]
  have s1: "open_session s1" "session_ok t m (ss_buffer s1)" "ss_buffer s1 = ss_buffer s" "ss_opened s1 = None"
    "ss_marks s1 = marks_at C (es @ [e])"
    using assms(1,2) by (auto simp: session_inv_def open_session_def)
  from s1(1,2) show ?thesis
  proof (cases rule: session_add_cases[of s1 t m ts r])
    case extend
    then show ?thesis using segs s1 assms(3) due(1)
      by (intro session_invI[of _ _ _ _ _ _ segs]) (auto simp: open_session_def)
  next
    case cut
    have "cut_due C t m (es @ [e]) (concat segs) (ss_buffer s) [(ts, r)]"
      using cut(3) s1(3) by (simp add: cut_due_def)
    then have "cuts_due C t m (es @ [e]) (segs @ [ss_buffer s]) [(ts, r)]" using due(2) by (auto intro: cuts_due_snoc)
    then show ?thesis
      using cut segs s1 assms(3)
      by (intro session_invI[of _ _ _ _ _ _ "segs @ [ss_buffer s]"]) (auto simp: open_session_def)
  qed
qed

lemma session_expire_inv:
  assumes "session_inv C t m s es trs"
  defines "r \<equiv> session_expire t (mark_at C es) s"
  shows "session_inv C t m (fst r) es (trs @ snd r)" "unexpired C t es (ss_buffer (fst r))"
proof -
  obtain segs where segs: "trs = map (session_trigger t) segs" "concat segs @ ss_buffer s = accepted C es"
    "\<forall>seg\<in>set segs. seg \<noteq> [] \<and> session_ok t m seg" "cuts_due C t m es segs (ss_buffer s)"
    using assms(1) by (rule session_invE)
  have s: "open_session s" "session_ok t m (ss_buffer s)" "ss_opened s = None" "ss_marks s = marks_at C es"
    using assms(1) by (auto simp: session_inv_def)
  have "session_inv C t m (fst r) es (trs @ snd r) \<and> unexpired C t es (ss_buffer (fst r))"
  proof (cases "ss_buffer s = []")
    case True
    then show ?thesis using assms s by (auto simp: session_expire_def open_session_def unexpired_def)
  next
    case False
    then obtain b where b: "ss_last s = Some b" "b = fst (last (ss_buffer s))" using s by (auto simp: open_session_def)
    show ?thesis
    proof (cases "sat_add b t \<le> mark_at C es")
      case True
      then have "cut_due C t m es (concat segs) (ss_buffer s) []"
        using segs(2) b(2) by (auto simp: cut_due_def intro!: exI[of _ "length es"])
      then have "cuts_due C t m es (segs @ [ss_buffer s]) []" using segs(4) by (rule cuts_due_snoc[rotated])
      with True show ?thesis
        using segs s False session_close_trigger[OF s(1) False b(1)] b
        by (auto simp: r_def session_expire_def open_session_def unexpired_def
            intro!: session_invI[of _ _ _ _ _ _ "segs @ [ss_buffer s]"])
    next
      case unripe: False
      then show ?thesis using assms b by (auto simp: session_expire_def unexpired_def)
    qed
  qed
  then show "session_inv C t m (fst r) es (trs @ snd r)" "unexpired C t es (ss_buffer (fst r))" by simp_all
qed

lemma session_inv_idle:
  assumes "session_inv C t m s es trs" "accepted C (es @ [e]) = accepted C es"
  shows "session_inv C t m (s\<lparr>ss_marks := marks_at C (es @ [e])\<rparr>) (es @ [e]) trs"
proof -
  obtain segs where segs: "trs = map (session_trigger t) segs" "concat segs @ ss_buffer s = accepted C es"
    "\<forall>seg\<in>set segs. seg \<noteq> [] \<and> session_ok t m seg" "cuts_due C t m es segs (ss_buffer s)"
    using assms(1) by (rule session_invE)
  with assms cuts_due_mono[OF segs(4), of "[e]" "[]"] show ?thesis
    by (intro session_invI[of _ _ _ _ _ _ segs]) (auto simp: session_inv_def open_session_def)
qed

definition session_run_inv :: "rcfg \<Rightarrow> int \<Rightarrow> int \<Rightarrow> session_state \<Rightarrow> arm_event list \<Rightarrow> trigger list \<Rightarrow> bool" where
  "session_run_inv C t m s es trs \<longleftrightarrow> session_inv C t m s es trs \<and> unexpired C t es (ss_buffer s)"

lemma session_quiet:
  assumes "session_run_inv C t m s es trs" "accepted C (es @ [e]) = accepted C es" "mark_at C (es @ [e]) = mark_at C es"
  shows "session_run_inv C t m (s\<lparr>ss_marks := marks_at C (es @ [e])\<rparr>) (es @ [e]) trs"
  using assms session_inv_idle[of C t m s es trs e] by (simp add: session_run_inv_def unexpired_def)

lemma session_ingest_inv:
  assumes inv: "session_run_inv C t m s es trs" and et: "et_enabled (rc_time C)" and e: "arm_record e = Some (now, r)"
  shows "session_run_inv C t m (fst (session_ingest L C t m now inst r s)) (es @ [e])
    (trs @ snd (session_ingest L C t m now inst r s))"
proof -
  have mk: "ss_marks s = marks_at C es" using inv by (simp add: session_run_inv_def session_inv_def)
  have same: "s\<lparr>ss_marks := marks_at C es\<rparr> = s" using mk by simp
  show ?thesis
  proof (cases "event_ts C now r < mark_at C es")
    case True
    note l = et_late[OF e True]
    have "session_ingest L C t m now inst r s = (s, [])" using True et mk by (simp add: session_ingest_def Let_def mark_at_def)
    moreover have "mark_at C (es @ [e]) = mark_at C es" by (simp add: mark_at_def l)
    ultimately show ?thesis using session_quiet[OF inv l(3)] l(1) same by simp
  next
    case False
    note taken = et_taken[OF e False]
    define s1 where "s1 = s\<lparr>ss_marks := marks_at C (es @ [e])\<rparr>"
    define s2 where "s2 = (if passes C r then session_add t m (event_ts C now r) r s1 else (s1, []))"
    have inv0: "session_inv C t m s es trs" using inv by (simp add: session_run_inv_def)
    have "session_inv C t m (fst s2) (es @ [e]) (trs @ snd s2)"
      using session_add_inv[OF inv0 s1_def, of "event_ts C now r" r] session_inv_idle[OF inv0, of e] taken(3)
      by (auto simp: s2_def s1_def)
    note inv2 = session_expire_inv[OF this]
    have "session_ingest L C t m now inst r s =
        (fst (session_expire t (mark_at C (es @ [e])) (fst s2)),
         snd s2 @ snd (session_expire t (mark_at C (es @ [e])) (fst s2)))"
      using et False mk
      by (simp add: session_ingest_def Let_def mark_at_def s1_def s2_def split_def taken(1)[symmetric])
    with inv2 show ?thesis by (simp add: session_run_inv_def)
  qed
qed

lemma session_step:
  assumes "session_run_inv C (max 1 t) (max 1 m) s es trs" "et_enabled (rc_time C)"
  shows "\<exists>s' tr. arm_step (run_session_window_rule L C m t m_inst) e s = Some (s', tr)
    \<and> session_run_inv C (max 1 t) (max 1 m) s' (es @ [e]) (trs @ tr)"
proof (cases "arm_record e")
  case None
  have st: "ss_opened s = None" "ss_marks s = marks_at C es" using assms by (simp_all add: session_run_inv_def session_inv_def)
  then have same: "s\<lparr>ss_marks := marks_at C es\<rparr> = s" by simp
  have "mark_at C (es @ [e]) = mark_at C es" using None by (simp add: mark_at_def wm_simps)
  note quiet = session_quiet[OF assms(1) et_other(3)[OF None] this, unfolded et_other(1)[OF None]]
  show ?thesis
    using None assms st quiet same
    by (cases e) (auto simp: run_session_window_rule_def Let_def session_max_check_def session_idle_def)
next
  case (Some p)
  obtain now r where p: "p = (now, r)" by (cases p)
  obtain inst where ing: "arm_step (run_session_window_rule L C m t m_inst) e s
      = Some (session_ingest L C (max 1 t) (max 1 m) now inst r s)"
    using Some p by (cases e) (auto simp: run_session_window_rule_def Let_def)
  with session_ingest_inv[OF assms Some[unfolded p], of L inst] show ?thesis
    by (cases "session_ingest L C (max 1 t) (max 1 m) now inst r s") simp
qed

interpretation sw: runner "run_session_window_rule L C m t m_inst" "ss_init (rc_stmt C)"
    "\<lambda>_. et_enabled (rc_time C)" "session_run_inv C (max 1 t) (max 1 m)"
  for L C m t m_inst
proof
  show "session_run_inv C (max 1 t) (max 1 m) (ss_init (rc_stmt C)) [] []"
    by (simp add: session_run_inv_def session_inv_def ss_init_def open_session_def unexpired_def)
qed (auto intro: session_step)

subsection \<open>What session windows promise\<close>

text \<open>C21: A run of an event-time session rule cuts the accepted records, in the order of arrival, into
  sessions: each fired batch is a non-empty stretch of the sequence with its bounds, no record is
  lost, repeated or moved, and what follows the last cut is still buffered, or has been emitted
  as a last session when the run has ended. Within a session every record is at most the timeout
  later than the one that arrived before it and less than the maximum duration later than the
  first. No cut comes early: the record after it is more than the timeout later than the last of
  the session, or the maximum duration later than its first, or the watermark had reached the end
  of the session when all its records and none after them had been accepted; and the watermark
  has not reached the end of what is left open. Gaps are measured in the order of arrival, so a
  record that is out of order moves the end of its session back.\<close>

theorem session_windows_partition:
  assumes "et_enabled (rc_time C)"
  shows "\<exists>s outs segs. run_loop L (run_session_window_rule M C max_ms timeout_ms max_inst) mos (loop_init (ss_init (rc_stmt C))) = Some (s, outs)
    \<and> fired outs = map (session_trigger (max 1 timeout_ms))
        (segs @ (if snd (arm_events L True mos) \<and> ss_buffer (lp_state s) \<noteq> [] then [ss_buffer (lp_state s)] else []))
    \<and> concat segs @ ss_buffer (lp_state s) = accepted C (fst (arm_events L True mos))
    \<and> (\<forall>seg\<in>set segs. seg \<noteq> [] \<and> session_ok (max 1 timeout_ms) (max 1 max_ms) seg)
    \<and> session_ok (max 1 timeout_ms) (max 1 max_ms) (ss_buffer (lp_state s))
    \<and> cuts_due C (max 1 timeout_ms) (max 1 max_ms) (fst (arm_events L True mos)) segs (ss_buffer (lp_state s))
    \<and> unexpired C (max 1 timeout_ms) (fst (arm_events L True mos)) (ss_buffer (lp_state s))"
proof -
  obtain es b where eb: "arm_events L True mos = (es, b)" by (cases "arm_events L True mos")
  let ?t = "max 1 timeout_ms" and ?m = "max 1 max_ms"
  obtain s outs trs where run: "run_loop L (run_session_window_rule M C max_ms timeout_ms max_inst) mos (loop_init (ss_init (rc_stmt C))) = Some (s, outs)"
    "session_run_inv C ?t ?m (lp_state s) es trs"
    "fired outs = trs @ (if b then arm_finish (run_session_window_rule M C max_ms timeout_ms max_inst) (lp_state s) else [])"
    using sw.loop_inv[OF eb assms, of M max_ms timeout_ms max_inst] by blast
  then have inv: "session_inv C ?t ?m (lp_state s) es trs" "unexpired C ?t es (ss_buffer (lp_state s))"
    by (simp_all add: session_run_inv_def)
  have o: "open_session (lp_state s)" "session_ok ?t ?m (ss_buffer (lp_state s))" using inv by (auto simp: session_inv_def)
  have fin: "arm_finish (run_session_window_rule M C max_ms timeout_ms max_inst) (lp_state s)
      = (if ss_buffer (lp_state s) = [] then [] else [session_trigger ?t (ss_buffer (lp_state s))])"
    using assms o(1)
    by (auto simp: run_session_window_rule_def Let_def session_finish_def session_trigger_def open_session_def or_val_def)
  from inv(1) show ?thesis
    by (rule session_invE) (use run(1,3) o inv fin eb in \<open>auto intro!: exI[of _ s] exI[of _ outs]\<close>)
qed

text \<open>A timeout of 10 and a tolerance of 50: the record at 70 is out of order but on time, and the next
  gap is measured from it, so that the records at 100 and 105 are in different sessions.\<close>

theorem session_windows_partition_witness:
  "\<exists>s outs segs. run_loop demo_loop (run_session_window_rule demo_libm (demo_rcfg 50) 1000 10 1000)
       (map (\<lambda>t. arrival (at_ts t)) [100, 70, 105]) (loop_init (ss_init (rc_stmt (demo_rcfg 50)))) = Some (s, outs)
    \<and> fired outs = map (session_trigger 10) segs \<and> concat segs @ ss_buffer (lp_state s) =
        map (\<lambda>t. (t, \<lparr>tr_source = ''s'', tr_data = at_ts t\<rparr>)) [100, 70, 105]
    \<and> fired outs = [Batch (map (\<lambda>t. \<lparr>tr_source = ''s'', tr_data = at_ts t\<rparr>) [100, 70]) True (Some (100, 80))]"
proof -
  let ?mos = "map (\<lambda>t. arrival (at_ts t)) [100, 70, 105]"
  have et: "et_enabled (rc_time (demo_rcfg 50))" by (simp add: demo_rcfg_def demo_time_def)
  have ev: "snd (arm_events demo_loop True ?mos) = False"
    "accepted (demo_rcfg 50) (fst (arm_events demo_loop True ?mos))
       = map (\<lambda>t. (t, \<lparr>tr_source = ''s'', tr_data = at_ts t\<rparr>)) [100, 70, 105]"
    by code_simp+
  have "map_option (\<lambda>(s, outs). fired outs) (run_loop demo_loop (run_session_window_rule demo_libm (demo_rcfg 50) 1000 10 1000)
       ?mos (loop_init (ss_init (rc_stmt (demo_rcfg 50)))))
      = Some [Batch (map (\<lambda>t. \<lparr>tr_source = ''s'', tr_data = at_ts t\<rparr>) [100, 70]) True (Some (100, 80))]"
    by code_simp
  moreover obtain s outs segs where run: "run_loop demo_loop (run_session_window_rule demo_libm (demo_rcfg 50) 1000 10 1000)
       ?mos (loop_init (ss_init (rc_stmt (demo_rcfg 50)))) = Some (s, outs)"
    "fired outs = map (session_trigger 10) segs"
    "concat segs @ ss_buffer (lp_state s) = map (\<lambda>t. (t, \<lparr>tr_source = ''s'', tr_data = at_ts t\<rparr>)) [100, 70, 105]"
    using session_windows_partition[OF et, of demo_loop demo_libm 1000 10 1000 ?mos] unfolding ev by auto
  moreover from calculation have
    "fired outs = [Batch (map (\<lambda>t. \<lparr>tr_source = ''s'', tr_data = at_ts t\<rparr>) [100, 70]) True (Some (100, 80))]"
    by (simp only: run option.map prod.case option.inject)
  ultimately show ?thesis by blast
qed

end
