(* ===== verification/Joins.thy ===== *)
theory Joins
  imports Runners
begin

text \<open>
  Joins (\<open>crates/rekuiper-server/src/engine/joins.rs\<close>): lookup joins of a record against tables,
  the state of \<open>ASOF\<close> joins, and the join of the rows buffered by a window.

  The catalogue of tables and the point lookups in external systems are the fields of \<open>lookups\<close>.
  Where the source takes an entry of a hash map with the least timestamp, the choice among ties
  is the parameter \<open>oldest\<close>.
\<close>

subsection \<open>Rows and keys\<close>

definition insert_namespaced :: "string \<Rightarrow> string option \<Rightarrow> row \<Rightarrow> row \<Rightarrow> row" where
  "insert_namespaced name al r m =
     (let m1 = fmupd name (Obj r) m
      in case al of Some a \<Rightarrow> if a \<noteq> name then fmupd a (Obj r) m1 else m1 | None \<Rightarrow> m1)"

text \<open>\<open>entry(k).or_insert(v)\<close> for every column of the joined row: columns of the left row stay.\<close>

definition combine :: "join_clause \<Rightarrow> row \<Rightarrow> row \<Rightarrow> row" where
  "combine j left right = insert_namespaced (jc_target j) (jc_alias j) right (fmadd right left)"

definition on_holds :: "env \<Rightarrow> join_clause \<Rightarrow> row \<Rightarrow> bool" where
  "on_holds E j probe = (case jc_on j of Some c \<Rightarrow> eval_bool E c probe = Ok True | None \<Rightarrow> True)"

fun scalarize :: "env \<Rightarrow> json \<Rightarrow> string option" where
  "scalarize E (Str s) = Some s"
| "scalarize E (Number n) = Some (render E (Number n))"
| "scalarize E (Bool b) = Some (if b then ''true'' else ''false'')"
| "scalarize E v = None"

datatype side = StreamSide | TableSide | UnknownSide

fun expr_side :: "string \<Rightarrow> string option \<Rightarrow> join_clause \<Rightarrow> expr \<Rightarrow> side" where
  "expr_side src al j (FieldAccess (Identifier name) fld) =
     (if name = jc_target j \<or> jc_alias j = Some name then TableSide
      else if name = src \<or> al = Some name then StreamSide else UnknownSide)"
| "expr_side src al j (Identifier name) = StreamSide"
| "expr_side src al j e = UnknownSide"

fun join_column :: "expr \<Rightarrow> string option" where
  "join_column (FieldAccess p fld) = Some fld"
| "join_column (Identifier name) = Some name"
| "join_column e = None"

fun eq_sides :: "expr option \<Rightarrow> (expr \<times> expr) option" where
  "eq_sides (Some (BinaryOp l Eq r)) = Some (l, r)"
| "eq_sides e = None"

definition join_key_parts ::
  "env \<Rightarrow> join_clause \<Rightarrow> string \<Rightarrow> string option \<Rightarrow> row \<Rightarrow> (string \<times> string) option" where
  "join_key_parts E j src al combined =
     Option.bind (eq_sides (jc_on j)) (\<lambda>(l, r).
     Option.bind
       (if expr_side src al j l = TableSide then Some (l, r)
        else if expr_side src al j r = TableSide then Some (r, l) else None) (\<lambda>(table_e, key_e).
     Option.bind (join_column table_e) (\<lambda>col.
     map_option (\<lambda>v. (col, v)) (scalarize E (row_ev E key_e combined)))))"

definition extract_lookup_key :: "env \<Rightarrow> join_clause \<Rightarrow> string \<Rightarrow> string option \<Rightarrow> row \<Rightarrow> string option" where
  "extract_lookup_key E j src al combined = map_option snd (join_key_parts E j src al combined)"

fun lookup_value_to_row :: "json \<Rightarrow> row" where
  "lookup_value_to_row (Obj m) = m"
| "lookup_value_to_row v = fmupd ''value'' v fmempty"

subsection \<open>Lookup joins\<close>

text \<open>A failed lookup is \<open>None\<close>; the addresses come from the source configurations.\<close>

record lookups =
  lk_options :: "string \<Rightarrow> (string, string) fmap option"
  lk_rows :: "string \<Rightarrow> row list"
  lk_redis :: "string \<Rightarrow> string \<Rightarrow> json option option"
  lk_sql_target :: "string \<Rightarrow> (string \<times> string) option"
  lk_sql :: "string \<Rightarrow> string \<Rightarrow> string \<Rightarrow> string \<Rightarrow> json option option"
  lk_modbus :: "string \<Rightarrow> row option"
  lk_opcua :: "string \<Rightarrow> row option"

definition found_rows :: "json option option \<Rightarrow> row list" where
  "found_rows v = (case v of Some (Some x) \<Rightarrow> [lookup_value_to_row x] | _ \<Rightarrow> [])"

definition option_row :: "row option \<Rightarrow> row list" where
  "option_row r = (case r of Some x \<Rightarrow> [x] | None \<Rightarrow> [])"

definition table_option :: "lookups \<Rightarrow> string \<Rightarrow> string \<Rightarrow> string" where
  "table_option K target key =
     (case Option.bind (lk_options K target) (\<lambda>o'. fmlookup o' key) of Some v \<Rightarrow> v | None \<Rightarrow> [])"

definition lookup_candidates ::
  "env \<Rightarrow> lookups \<Rightarrow> string \<Rightarrow> string option \<Rightarrow> join_clause \<Rightarrow> row \<Rightarrow> row list" where
  "lookup_candidates E K src al j combined =
     (let ty = to_ascii_lowercase (table_option K (jc_target j) ''TYPE'')
      in if ty = ''redis'' then
           (case extract_lookup_key E j src al combined of
              Some key \<Rightarrow> found_rows (lk_redis K (table_option K (jc_target j) ''CONF_KEY'') key)
            | None \<Rightarrow> [])
         else if ty = ''sql'' then
           (case (lk_sql_target K (jc_target j), join_key_parts E j src al combined) of
              (Some (url, table), Some (col, v)) \<Rightarrow> found_rows (lk_sql K url table col v)
            | _ \<Rightarrow> [])
         else if ty = ''modbus'' then option_row (lk_modbus K (jc_target j))
         else if ty = ''opcua'' \<or> ty = ''opc_ua'' \<or> ty = ''opc-ua'' then option_row (lk_opcua K (jc_target j))
         else lk_rows K (jc_target j))"

definition is_asof :: "join_clause \<Rightarrow> bool" where
  "is_asof j \<longleftrightarrow> jc_type j = Asof \<or> jc_type j = LeftAsof"

definition first_match :: "env \<Rightarrow> join_clause \<Rightarrow> row \<Rightarrow> row list \<Rightarrow> row option" where
  "first_match E j left rows = find (\<lambda>r. on_holds E j (combine j left r)) rows"

fun lookup_join_loop ::
  "env \<Rightarrow> lookups \<Rightarrow> string \<Rightarrow> string option \<Rightarrow> join_clause list \<Rightarrow> row \<Rightarrow> row option" where
  "lookup_join_loop E K src al [] combined = Some combined"
| "lookup_join_loop E K src al (j # js) combined =
     (if is_asof j then lookup_join_loop E K src al js combined
      else (case first_match E j combined (lookup_candidates E K src al j combined) of
              Some r \<Rightarrow> lookup_join_loop E K src al js (combine j combined r)
            | None \<Rightarrow> if jc_type j = Left then lookup_join_loop E K src al js combined else None))"

definition apply_lookup_joins :: "env \<Rightarrow> lookups \<Rightarrow> select_stmt \<Rightarrow> row \<Rightarrow> row option" where
  "apply_lookup_joins E K stmt r =
     (if joins stmt = [] then Some r
      else lookup_join_loop E K (from_src stmt) (from_alias stmt) (joins stmt)
             (insert_namespaced (from_src stmt) (from_alias stmt) r r))"

subsection \<open>ASOF joins\<close>

definition MAX_ASOF_KEYS :: nat where "MAX_ASOF_KEYS = 10000"

type_synonym asof_state = "(string \<times> string, int \<times> row) fmap"

type_synonym oldest_picker = "asof_state \<Rightarrow> (string \<times> string) option"

definition right_column :: "join_clause \<Rightarrow> expr \<Rightarrow> string option" where
  "right_column j e =
     (case e of
        FieldAccess (Identifier p) fld \<Rightarrow> if p = jc_target j \<or> jc_alias j = Some p then Some fld else None
      | _ \<Rightarrow> None)"

definition extract_right_key :: "env \<Rightarrow> join_clause \<Rightarrow> string \<Rightarrow> string option \<Rightarrow> row \<Rightarrow> string option" where
  "extract_right_key E j src al probe =
     Option.bind
       (or_else (map_option fst (join_key_parts E j src al probe))
          (Option.bind (eq_sides (jc_on j)) (\<lambda>(l, r). or_else (right_column j l) (right_column j r))))
       (\<lambda>col. Option.bind (fmlookup probe col) (scalarize E))"

definition asof_put :: "oldest_picker \<Rightarrow> string \<times> string \<Rightarrow> int \<Rightarrow> row \<Rightarrow> asof_state \<Rightarrow> asof_state" where
  "asof_put oldest k ts r st =
     (let st1 = (if fmlookup st k = None \<and> MAX_ASOF_KEYS \<le> fcard (fmdom st)
                 then (case oldest st of Some o' \<Rightarrow> fmdrop o' st | None \<Rightarrow> st) else st);
          (ts0, r0) = (case fmlookup st1 k of Some e \<Rightarrow> e | None \<Rightarrow> (ts, r))
      in if ts0 \<le> ts then fmupd k (ts, r) st1 else fmupd k (ts0, r0) st1)"

fun ingest_right_loop ::
  "env \<Rightarrow> oldest_picker \<Rightarrow> string \<Rightarrow> string option \<Rightarrow> join_clause list \<Rightarrow> string \<Rightarrow> int \<Rightarrow> row \<Rightarrow> asof_state \<Rightarrow> asof_state" where
  "ingest_right_loop E oldest src al [] target ts r st = st"
| "ingest_right_loop E oldest src al (j # js) target ts r st =
     ingest_right_loop E oldest src al js target ts r
       (if jc_target j \<noteq> target \<or> \<not> is_asof j then st
        else (case extract_right_key E j src al (insert_namespaced (jc_target j) (jc_alias j) r r) of
                Some key \<Rightarrow> asof_put oldest (target, key) ts r st
              | None \<Rightarrow> st))"

definition ingest_right_event ::
  "env \<Rightarrow> oldest_picker \<Rightarrow> select_stmt \<Rightarrow> string \<Rightarrow> int \<Rightarrow> row \<Rightarrow> asof_state \<Rightarrow> asof_state" where
  "ingest_right_event E oldest stmt target ts r st =
     ingest_right_loop E oldest (from_src stmt) (from_alias stmt) (joins stmt) target ts r st"

definition asof_match :: "asof_state \<Rightarrow> string \<Rightarrow> string \<Rightarrow> int \<Rightarrow> row option" where
  "asof_match st target key left_ts =
     (case fmlookup st (target, key) of
        Some (ts, r) \<Rightarrow> if ts \<le> left_ts then Some r else None
      | None \<Rightarrow> None)"

fun probe_left_loop ::
  "env \<Rightarrow> asof_state \<Rightarrow> string \<Rightarrow> string option \<Rightarrow> int \<Rightarrow> join_clause list \<Rightarrow> row \<Rightarrow> row option" where
  "probe_left_loop E st src al left_ts [] combined = Some combined"
| "probe_left_loop E st src al left_ts (j # js) combined =
     (if \<not> is_asof j then probe_left_loop E st src al left_ts js combined
      else (case Option.bind (join_key_parts E j src al combined)
                   (\<lambda>(_, key). asof_match st (jc_target j) key left_ts) of
              Some r \<Rightarrow> probe_left_loop E st src al left_ts js (combine j combined r)
            | None \<Rightarrow> if jc_type j = LeftAsof then probe_left_loop E st src al left_ts js combined else None))"

definition probe_left_event :: "env \<Rightarrow> select_stmt \<Rightarrow> int \<Rightarrow> row \<Rightarrow> asof_state \<Rightarrow> row option" where
  "probe_left_event E stmt left_ts left st =
     probe_left_loop E st (from_src stmt) (from_alias stmt) left_ts (joins stmt)
       (insert_namespaced (from_src stmt) (from_alias stmt) left left)"

subsection \<open>Joining the rows of a window\<close>

definition MAX_JOIN_FANOUT :: nat where "MAX_JOIN_FANOUT = 10000"

definition push_capped :: "row \<Rightarrow> row list \<Rightarrow> row list" where
  "push_capped r acc = (if length acc < MAX_JOIN_FANOUT then acc @ [r] else acc)"

text \<open>A joined table: \<open>CROSS\<close> pairs every candidate, the other types take the first match.\<close>

definition table_left ::
  "env \<Rightarrow> lookups \<Rightarrow> string \<Rightarrow> string option \<Rightarrow> join_clause \<Rightarrow> row list \<Rightarrow> row \<Rightarrow> row list" where
  "table_left E K src al j acc left =
     (let cands = lookup_candidates E K src al j left
      in if jc_type j = Cross then foldl (\<lambda>acc r. push_capped (combine j left r) acc) acc cands
         else (case first_match E j left cands of
                 Some r \<Rightarrow> acc @ [combine j left r]
               | None \<Rightarrow> if jc_type j = Left \<or> jc_type j = Full then acc @ [left] else acc))"

definition row_ts :: "int \<Rightarrow> row \<Rightarrow> int" where
  "row_ts d r =
     (case or_else (fmlookup r ''timestamp'') (fmlookup r ''ts'') of
        Some v \<Rightarrow> (case as_i64 v of Some n \<Rightarrow> n | None \<Rightarrow> (case as_f64 v of Some f \<Rightarrow> f64_as_i64 f | None \<Rightarrow> d))
      | None \<Rightarrow> d)"

text \<open>The latest matching right row that is not after the left row.\<close>

fun asof_best :: "env \<Rightarrow> join_clause \<Rightarrow> row \<Rightarrow> int \<Rightarrow> row list \<Rightarrow> (int \<times> row) option \<Rightarrow> (int \<times> row) option" where
  "asof_best E j left left_ts [] best = best"
| "asof_best E j left left_ts (r # rs) best =
     (let ts = row_ts 0 r; probe = combine j left r
      in asof_best E j left left_ts rs
           (if \<not> left_ts < ts \<and> on_holds E j probe \<and> (case best of None \<Rightarrow> True | Some (b, _) \<Rightarrow> b \<le> ts)
            then Some (ts, probe) else best))"

text \<open>The nested loop over the indexed right rows; it stops as soon as the cap is reached.\<close>

fun match_rights ::
  "env \<Rightarrow> join_clause \<Rightarrow> row \<Rightarrow> (nat \<times> row) list \<Rightarrow> row list \<Rightarrow> bool \<Rightarrow> nat list \<Rightarrow> row list \<times> bool \<times> nat list" where
  "match_rights E j left [] acc hit matched = (acc, hit, matched)"
| "match_rights E j left ((ri, r) # rs) acc hit matched =
     (if \<not> on_holds E j (combine j left r) then match_rights E j left rs acc hit matched
      else (let acc1 = push_capped (combine j left r) acc
            in if MAX_JOIN_FANOUT \<le> length acc1 then (acc1, True, ri # matched)
               else match_rights E j left rs acc1 True (ri # matched)))"

definition stream_left ::
  "env \<Rightarrow> join_clause \<Rightarrow> (nat \<times> row) list \<Rightarrow> row \<Rightarrow> row list \<times> nat list \<Rightarrow> row list \<times> nat list" where
  "stream_left E j rights left st =
     (case st of
        (acc, matched) \<Rightarrow>
          if is_asof j then
            (case asof_best E j left (row_ts i64_max left) (map snd rights) None of
               Some (_, probe) \<Rightarrow> (push_capped probe acc, matched)
             | None \<Rightarrow> (if jc_type j = LeftAsof then push_capped left acc else acc, matched))
          else (case match_rights E j left rights acc False matched of
                  (acc1, hit, matched1) \<Rightarrow>
                    (if \<not> hit \<and> (jc_type j = Left \<or> jc_type j = Full) then acc1 @ [left] else acc1, matched1)))"

fun stream_lefts ::
  "env \<Rightarrow> join_clause \<Rightarrow> (nat \<times> row) list \<Rightarrow> row list \<Rightarrow> row list \<times> nat list \<Rightarrow> row list \<times> nat list" where
  "stream_lefts E j rights [] st = st"
| "stream_lefts E j rights (left # ls) st =
     (let st1 = stream_left E j rights left st
      in if MAX_JOIN_FANOUT \<le> length (fst st1) then st1 else stream_lefts E j rights ls st1)"

definition preserved :: "join_clause \<Rightarrow> row \<Rightarrow> row" where
  "preserved j r = insert_namespaced (jc_target j) (jc_alias j) r r"

definition keep_rights :: "join_clause \<Rightarrow> (nat \<times> row) list \<Rightarrow> nat list \<Rightarrow> row list \<Rightarrow> row list" where
  "keep_rights j rights matched acc =
     foldl (\<lambda>acc (ri, r). if ri \<in> set matched then acc else push_capped (preserved j r) acc) acc rights"

definition join_stage ::
  "env \<Rightarrow> lookups \<Rightarrow> string \<Rightarrow> string option \<Rightarrow> tagged list \<Rightarrow> join_clause \<Rightarrow> row list \<Rightarrow> row list" where
  "join_stage E K src al batch j lefts =
     (if lk_options K (jc_target j) \<noteq> None then foldl (table_left E K src al j) [] lefts
      else (let rights = enumerate 0 (map tr_data (filter (\<lambda>r. tr_source r = jc_target j) batch));
                (acc, matched) = stream_lefts E j rights lefts ([], [])
            in if jc_type j = Right \<or> jc_type j = Full then keep_rights j rights matched acc else acc))"

fun join_stages ::
  "env \<Rightarrow> lookups \<Rightarrow> string \<Rightarrow> string option \<Rightarrow> tagged list \<Rightarrow> join_clause list \<Rightarrow> row list \<Rightarrow> row list option" where
  "join_stages E K src al batch [] rows = Some rows"
| "join_stages E K src al batch (j # js) rows =
     (let next = join_stage E K src al batch j rows
      in if next = [] \<and> \<not> (jc_type j = Right \<or> jc_type j = Full) then None
         else join_stages E K src al batch js next)"

definition from_rows :: "select_stmt \<Rightarrow> tagged list \<Rightarrow> row list" where
  "from_rows stmt batch =
     map (\<lambda>r. insert_namespaced (from_src stmt) (from_alias stmt) (tr_data r) (tr_data r))
       (filter (\<lambda>r. tr_source r = from_src stmt) batch)"

definition eval_window_join_batch :: "wenv \<Rightarrow> lookups \<Rightarrow> bool \<Rightarrow> select_stmt \<Rightarrow> tagged list \<Rightarrow> row list ev" where
  "eval_window_join_batch W K st stmt batch =
     (if batch = [] then ev_ret []
      else (case join_stages (w_env W) K (from_src stmt) (from_alias stmt) batch (joins stmt) (from_rows stmt batch) of
              None \<Rightarrow> ev_ret []
            | Some rows \<Rightarrow> eval_window W st stmt rows))"

end
