(* ===== verification/Join_Props.thy ===== *)
theory Join_Props
  imports Joins Demo "HOL-Library.Product_Lexorder"
begin

text \<open>
  The join of a window's rows against its relational meaning and its bound, and the state of an
  \<open>ASOF\<close> join against the latest event per key.
\<close>

subsection \<open>The relational meaning of a stage\<close>

definition rel_matches :: "env \<Rightarrow> join_clause \<Rightarrow> row list \<Rightarrow> row \<Rightarrow> row list" where
  "rel_matches E j rights left = map (combine j left) (filter (\<lambda>r. on_holds E j (combine j left r)) rights)"

definition rel_left :: "env \<Rightarrow> join_clause \<Rightarrow> row list \<Rightarrow> row \<Rightarrow> row list" where
  "rel_left E j rights left =
     (if rel_matches E j rights left = [] \<and> (jc_type j = Left \<or> jc_type j = Full) then [left]
      else rel_matches E j rights left)"

definition rel_unmatched :: "env \<Rightarrow> join_clause \<Rightarrow> row list \<Rightarrow> row list \<Rightarrow> row list" where
  "rel_unmatched E j rights lefts =
     filter (\<lambda>r. \<not> list_ex (\<lambda>l. on_holds E j (combine j l r)) lefts) rights"

definition rel_join :: "env \<Rightarrow> join_clause \<Rightarrow> row list \<Rightarrow> row list \<Rightarrow> row list" where
  "rel_join E j rights lefts =
     concat (map (rel_left E j rights) lefts)
     @ (if jc_type j = Right \<or> jc_type j = Full then map (preserved j) (rel_unmatched E j rights lefts) else [])"

definition hits :: "env \<Rightarrow> join_clause \<Rightarrow> row \<Rightarrow> (nat \<times> row) list \<Rightarrow> nat list" where
  "hits E j left rights = map fst (filter (\<lambda>(i, r). on_holds E j (combine j left r)) rights)"

lemma match_rights_rel:
  assumes "length acc + length (rel_matches E j (map snd rights) left) < MAX_JOIN_FANOUT"
  shows "match_rights E j left rights acc hit matched =
    (acc @ rel_matches E j (map snd rights) left, hit \<or> rel_matches E j (map snd rights) left \<noteq> [],
     rev (hits E j left rights) @ matched)"
  using assms
proof (induction rights arbitrary: acc hit matched)
  case (Cons ir rights)
  obtain i r where "ir = (i, r)" by (cases ir)
  then show ?case using Cons by (auto simp: rel_matches_def hits_def push_capped_def)
qed (simp add: rel_matches_def hits_def)

lemma stream_lefts_rel:
  assumes "\<not> is_asof j" "length acc + length (concat (map (rel_left E j (map snd rights)) lefts)) < MAX_JOIN_FANOUT"
  shows "\<exists>m. stream_lefts E j rights lefts (acc, matched) = (acc @ concat (map (rel_left E j (map snd rights)) lefts), m)
    \<and> set m = set matched \<union> (\<Union>l\<in>set lefts. set (hits E j l rights))"
  using assms(2)
proof (induction lefts arbitrary: acc matched)
  case (Cons l ls)
  let ?ms = "rel_matches E j (map snd rights) l" and ?rl = "rel_left E j (map snd rights) l"
  have "length ?ms \<le> length ?rl" by (simp add: rel_left_def)
  then have "length acc + length ?ms < MAX_JOIN_FANOUT" using Cons.prems by simp
  from match_rights_rel[OF this, of False matched]
  have st: "stream_left E j rights l (acc, matched) = (acc @ ?rl, rev (hits E j l rights) @ matched)"
    using assms(1) by (simp add: stream_left_def rel_left_def)
  obtain m where m: "stream_lefts E j rights ls (acc @ ?rl, rev (hits E j l rights) @ matched)
      = ((acc @ ?rl) @ concat (map (rel_left E j (map snd rights)) ls), m)"
    "set m = set (rev (hits E j l rights) @ matched) \<union> (\<Union>l\<in>set ls. set (hits E j l rights))"
    using Cons.IH[of "acc @ ?rl" "rev (hits E j l rights) @ matched"] Cons.prems by (auto simp: add.assoc)
  show ?case using st m Cons.prems by (auto simp: Let_def)
qed simp

lemma keep_rights_rel:
  assumes "length acc + length (filter (\<lambda>(i, r). i \<notin> set m) rights) < MAX_JOIN_FANOUT"
  shows "keep_rights j rights m acc = acc @ map (preserved j \<circ> snd) (filter (\<lambda>(i, r). i \<notin> set m) rights)"
  using assms
proof (induction rights arbitrary: acc)
  case (Cons ir rights)
  obtain i r where "ir = (i, r)" by (cases ir)
  then show ?case using Cons by (auto simp: keep_rights_def push_capped_def)
qed (simp add: keep_rights_def)

lemma enumerate_filter_snd:
  assumes "\<And>i r. (i, r) \<in> set (enumerate k xs) \<Longrightarrow> P (i, r) = Q r"
  shows "map snd (filter P (enumerate k xs)) = filter Q xs"
  using assms
proof (induction xs arbitrary: k)
  case (Cons x xs)
  have "map snd (filter P (enumerate (Suc k) xs)) = filter Q xs" using Cons by auto
  moreover have "P (k, x) = Q x" using Cons.prems by auto
  ultimately show ?case by simp
qed simp

lemma unmatched_rel:
  assumes "set m = (\<Union>l\<in>set lefts. set (hits E j l (enumerate 0 rights)))"
  shows "map snd (filter (\<lambda>(i, r). i \<notin> set m) (enumerate 0 rights)) = rel_unmatched E j rights lefts"
  unfolding rel_unmatched_def
proof (rule enumerate_filter_snd)
  fix i r assume ir: "(i, r) \<in> set (enumerate 0 rights)"
  have "i \<in> set (hits E j l (enumerate 0 rights)) \<longleftrightarrow> on_holds E j (combine j l r)" for l
  proof -
    have "r' = r" if "(i, r') \<in> set (enumerate 0 rights)" for r'
      using ir that by (auto simp: in_set_enumerate_eq)
    moreover have "on_holds E j (combine j l r) \<Longrightarrow> i \<in> set (hits E j l (enumerate 0 rights))"
      using ir unfolding hits_def by (auto intro!: image_eqI[of _ _ "(i, r)"])
    ultimately show ?thesis unfolding hits_def by auto
  qed
  then show "(case (i, r) of (i, r) \<Rightarrow> i \<notin> set m) = (\<not> list_ex (\<lambda>l. on_holds E j (combine j l r)) lefts)"
    using assms by (auto simp: list_ex_iff)
qed

subsection \<open>The bound\<close>

lemma push_capped_length: "length acc \<le> MAX_JOIN_FANOUT \<Longrightarrow> length (push_capped r acc) \<le> MAX_JOIN_FANOUT"
  by (simp add: push_capped_def)

lemma match_rights_hit: "match_rights E j left rs acc hit m = (acc', hit', m') \<Longrightarrow> hit \<Longrightarrow> hit'"
  by (induction E j left rs acc hit m rule: match_rights.induct) (auto simp: Let_def split: if_splits)

lemma match_rights_bounded:
  assumes "length acc < MAX_JOIN_FANOUT" "match_rights E j left rights acc hit matched = (acc', hit', m')"
  shows "length acc' \<le> MAX_JOIN_FANOUT \<and> (\<not> hit' \<longrightarrow> acc' = acc)"
  using assms
proof (induction E j left rights acc hit matched rule: match_rights.induct)
  case (2 E j left ri r rs acc hit matched)
  show ?case
  proof (cases "on_holds E j (combine j left r)")
    case True
    let ?acc = "push_capped (combine j left r) acc"
    show ?thesis
    proof (cases "MAX_JOIN_FANOUT \<le> length ?acc")
      case full: True
      then show ?thesis using True 2 push_capped_length[of acc "combine j left r"] by (auto simp: Let_def)
    next
      case room: False
      have rec: "match_rights E j left rs ?acc True (ri # matched) = (acc', hit', m')"
        using True room "2.prems"(2) by (simp add: Let_def)
      then show ?thesis using "2.IH"(2)[OF _ refl room _ rec] True room match_rights_hit[OF rec] by auto
    qed
  next
    case False
    then show ?thesis using 2 by simp
  qed
qed auto

lemma stream_left_bounded:
  assumes "length (fst st) < MAX_JOIN_FANOUT"
  shows "length (fst (stream_left E j rights left st)) \<le> MAX_JOIN_FANOUT"
proof -
  obtain acc m where st: "st = (acc, m)" by (cases st)
  obtain acc' hit' m' where mr: "match_rights E j left rights acc False m = (acc', hit', m')" by (metis surj_pair)
  have "length acc' \<le> MAX_JOIN_FANOUT \<and> (\<not> hit' \<longrightarrow> acc' = acc)" using match_rights_bounded[OF _ mr] assms st by simp
  then show ?thesis
    using assms st mr push_capped_length[of acc] by (auto simp: stream_left_def split: option.splits prod.splits)
qed

lemma stream_lefts_bounded:
  "length (fst st) < MAX_JOIN_FANOUT \<Longrightarrow> length (fst (stream_lefts E j rights lefts st)) \<le> MAX_JOIN_FANOUT"
proof (induction lefts arbitrary: st)
  case (Cons l ls)
  then show ?case using stream_left_bounded[OF Cons.prems, of E j rights l] by (simp add: Let_def not_le)
qed simp

lemma foldl_push_bounded:
  "length acc \<le> MAX_JOIN_FANOUT \<Longrightarrow> length (foldl (\<lambda>acc r. push_capped (f r) acc) acc xs) \<le> MAX_JOIN_FANOUT"
  by (induction xs arbitrary: acc) (auto intro: push_capped_length)

lemma keep_rights_bounded: "length acc \<le> MAX_JOIN_FANOUT \<Longrightarrow> length (keep_rights j rights m acc) \<le> MAX_JOIN_FANOUT"
  unfolding keep_rights_def
  by (induction rights arbitrary: acc) (auto intro: push_capped_length split: prod.splits)

lemma table_left_grows:
  "jc_type j \<noteq> Cross \<Longrightarrow> length (table_left E K src al j acc l) \<le> Suc (length acc)"
  by (auto simp: table_left_def Let_def split: option.splits)

lemma table_stage_bounded:
  "length (foldl (table_left E K src al j) [] lefts) \<le> max MAX_JOIN_FANOUT (length lefts)"
proof (cases "jc_type j = Cross")
  case True
  have "length (foldl (table_left E K src al j) acc lefts) \<le> MAX_JOIN_FANOUT" if "length acc \<le> MAX_JOIN_FANOUT" for acc
    using that by (induction lefts arbitrary: acc) (auto simp: table_left_def True foldl_push_bounded)
  then show ?thesis by (simp add: le_max_iff_disj)
next
  case False
  have "length (foldl (table_left E K src al j) acc lefts) \<le> length acc + length lefts" for acc
  proof (induction lefts arbitrary: acc)
    case (Cons l ls)
    then show ?case using table_left_grows[OF False, of E K src al acc l] by (fastforce intro: order_trans)
  qed simp
  from this[of "[]"] show ?thesis by (simp add: le_max_iff_disj)
qed

subsection \<open>The latest event per key\<close>

definition picks_oldest :: "oldest_picker \<Rightarrow> bool" where
  "picks_oldest oldest \<longleftrightarrow>
     (\<forall>st. st \<noteq> fmempty \<longrightarrow> (\<exists>k ts r. oldest st = Some k \<and> fmlookup st k = Some (ts, r) \<and>
        (\<forall>k' ts' r'. fmlookup st k' = Some (ts', r') \<longrightarrow> ts \<le> ts')))"

definition newest :: "(int \<times> row) list \<Rightarrow> (int \<times> row) option" where
  "newest evs =
     (if evs = [] then None
      else (let m = Max (set (map fst evs)) in Some (m, snd (last (filter (\<lambda>e. fst e = m) evs)))))"

lemma newest_snoc:
  "newest (evs @ [(ts, r)]) =
     (case newest evs of None \<Rightarrow> Some (ts, r) | Some (t, x) \<Rightarrow> if t \<le> ts then Some (ts, r) else Some (t, x))"
proof (cases "evs = []")
  case True
  then show ?thesis by (simp add: newest_def)
next
  case False
  define m where "m = Max (set (map fst evs))"
  have old: "newest evs = Some (m, snd (last (filter (\<lambda>e. fst e = m) evs)))"
    using False by (simp add: newest_def Let_def m_def)
  have "Max (set (map fst (evs @ [(ts, r)]))) = max m ts" using False by (simp add: m_def max.commute)
  then have new: "newest (evs @ [(ts, r)]) =
      Some (max m ts, snd (last (filter (\<lambda>e. fst e = max m ts) (evs @ [(ts, r)]))))"
    unfolding newest_def Let_def by simp
  show ?thesis using old new by (cases "m \<le> ts") (auto simp: max_def)
qed

definition right_key :: "env \<Rightarrow> select_stmt \<Rightarrow> join_clause \<Rightarrow> row \<Rightarrow> string option" where
  "right_key E stmt j r = extract_right_key E j (from_src stmt) (from_alias stmt) (preserved j r)"

definition with_key :: "env \<Rightarrow> select_stmt \<Rightarrow> join_clause \<Rightarrow> string \<Rightarrow> (int \<times> row) list \<Rightarrow> (int \<times> row) list" where
  "with_key E stmt j k evs = filter (\<lambda>(ts, r). right_key E stmt j r = Some k) evs"

definition asof_run :: "env \<Rightarrow> oldest_picker \<Rightarrow> select_stmt \<Rightarrow> string \<Rightarrow> (int \<times> row) list \<Rightarrow> asof_state" where
  "asof_run E oldest stmt target evs =
     foldl (\<lambda>st (ts, r). ingest_right_event E oldest stmt target ts r st) fmempty evs"

lemma ingest_single:
  assumes "joins stmt = [j]" "is_asof j"
  shows "ingest_right_event E oldest stmt (jc_target j) ts r st =
    (case right_key E stmt j r of Some k \<Rightarrow> asof_put oldest (jc_target j, k) ts r st | None \<Rightarrow> st)"
  using assms by (simp add: ingest_right_event_def right_key_def preserved_def)

lemma asof_run_snoc:
  "asof_run E oldest stmt target (evs @ [(ts, r)]) = ingest_right_event E oldest stmt target ts r (asof_run E oldest stmt target evs)"
  by (simp add: asof_run_def)

definition keys_of :: "env \<Rightarrow> select_stmt \<Rightarrow> join_clause \<Rightarrow> (int \<times> row) list \<Rightarrow> string set" where
  "keys_of E stmt j evs = {k. \<exists>(ts, r)\<in>set evs. right_key E stmt j r = Some k}"

lemma keys_of_finite: "finite (keys_of E stmt j evs)"
proof -
  have "keys_of E stmt j evs \<subseteq> (\<lambda>(ts, r). the (right_key E stmt j r)) ` set evs"
    by (force simp: keys_of_def)
  then show ?thesis by (rule finite_subset) simp
qed

lemma newest_none: "newest evs = None \<longleftrightarrow> evs = []"
  by (simp add: newest_def Let_def)

lemma with_key_empty: "with_key E stmt j k evs = [] \<longleftrightarrow> k \<notin> keys_of E stmt j evs"
  by (auto simp: with_key_def keys_of_def filter_empty_conv)

lemma asof_put_lookup:
  assumes "fmlookup st k \<noteq> None \<or> fcard (fmdom st) < MAX_ASOF_KEYS"
  shows "fmlookup (asof_put oldest k ts r st) k' =
    (if k' = k then (case fmlookup st k of None \<Rightarrow> Some (ts, r) | Some (t, x) \<Rightarrow> if t \<le> ts then Some (ts, r) else Some (t, x))
     else fmlookup st k')"
  using assms by (auto simp: asof_put_def Let_def split: option.splits)

lemma asof_run_newest:
  assumes j: "joins stmt = [j]" "is_asof j"
    and few: "card (keys_of E stmt j evs) \<le> MAX_ASOF_KEYS"
  shows "\<forall>t k. fmlookup (asof_run E oldest stmt (jc_target j) evs) (t, k)
    = (if t = jc_target j then newest (with_key E stmt j k evs) else None)"
  using few
proof (induction evs rule: rev_induct)
  case Nil
  then show ?case by (simp add: asof_run_def newest_def with_key_def)
next
  case (snoc e evs)
  obtain ts r where e: "e = (ts, r)" by (cases e)
  let ?st = "asof_run E oldest stmt (jc_target j) evs"
  have sub: "keys_of E stmt j evs \<subseteq> keys_of E stmt j (evs @ [e])" by (auto simp: keys_of_def)
  have IH: "fmlookup ?st (t, k) = (if t = jc_target j then newest (with_key E stmt j k evs) else None)" for t k
    using snoc card_mono[OF keys_of_finite sub] by auto
  show ?case
  proof (cases "right_key E stmt j r")
    case None
    then show ?thesis using IH e j by (simp add: asof_run_snoc ingest_single with_key_def)
  next
    case (Some key)
    have "fmlookup ?st (jc_target j, key) \<noteq> None \<or> fcard (fmdom ?st) < MAX_ASOF_KEYS"
    proof (cases "key \<in> keys_of E stmt j evs")
      case True
      then show ?thesis using IH newest_none with_key_empty by metis
    next
      case False
      have "fset (fmdom ?st) \<subseteq> Pair (jc_target j) ` keys_of E stmt j evs"
      proof
        fix x assume "x \<in> fset (fmdom ?st)"
        then obtain t k where "x = (t, k)" "fmlookup ?st (t, k) \<noteq> None" by (cases x) (auto simp: fmlookup_dom_iff)
        then show "x \<in> Pair (jc_target j) ` keys_of E stmt j evs"
          using IH newest_none with_key_empty by (metis image_eqI)
      qed
      then have "fcard (fmdom ?st) \<le> card (keys_of E stmt j evs)"
        using card_mono[OF finite_imageI[OF keys_of_finite]] card_image_le[OF keys_of_finite] unfolding fcard.rep_eq
        by (metis order_trans)
      also have "\<dots> < card (keys_of E stmt j (evs @ [e]))"
        using False Some e sub by (intro psubset_card_mono[OF keys_of_finite]) (auto simp: keys_of_def)
      finally show ?thesis using snoc.prems by simp
    qed
    from asof_put_lookup[OF this] show ?thesis
      using IH e j Some by (auto simp: asof_run_snoc ingest_single with_key_def newest_snoc)
  qed
qed

lemma asof_put_bounded:
  assumes "picks_oldest oldest" "fcard (fmdom st) \<le> MAX_ASOF_KEYS"
  shows "fcard (fmdom (asof_put oldest k ts r st)) \<le> MAX_ASOF_KEYS"
proof -
  define st1 where "st1 = (if fmlookup st k = None \<and> MAX_ASOF_KEYS \<le> fcard (fmdom st)
                 then (case oldest st of Some o' \<Rightarrow> fmdrop o' st | None \<Rightarrow> st) else st)"
  have "fmdom (asof_put oldest k ts r st) = finsert k (fmdom st1)"
    by (auto simp: asof_put_def Let_def st1_def[symmetric] split: prod.splits)
  moreover have "k |\<in>| fmdom st1 \<and> fcard (fmdom st1) \<le> MAX_ASOF_KEYS \<or> fcard (fmdom st1) < MAX_ASOF_KEYS"
  proof (cases "fmlookup st k = None \<and> MAX_ASOF_KEYS \<le> fcard (fmdom st)")
    case True
    then have "st \<noteq> fmempty" by (auto simp: MAX_ASOF_KEYS_def fcard.rep_eq)
    then obtain o' where "oldest st = Some o'" "o' |\<in>| fmdom st"
      using assms(1) unfolding picks_oldest_def by (metis fmdomI)
    then have "fcard (fmdom st1) = fcard (fmdom st) - 1" "0 < fcard (fmdom st)"
      using True by (auto simp: st1_def fcard.rep_eq card_gt_0_iff)
    then show ?thesis using assms(2) by linarith
  next
    case False
    then show ?thesis using assms(2) by (auto simp: st1_def intro: fmdomI)
  qed
  ultimately show ?thesis by (auto simp: fcard.rep_eq card_insert_if)
qed

lemma asof_run_bounded:
  "picks_oldest oldest \<Longrightarrow> fcard (fmdom (asof_run E oldest stmt target evs)) \<le> MAX_ASOF_KEYS"
proof (induction evs rule: rev_induct)
  case Nil
  then show ?case by (simp add: asof_run_def fcard.rep_eq)
next
  case (snoc e evs)
  obtain ts r where e: "e = (ts, r)" by (cases e)
  have "fcard (fmdom (ingest_right_loop E oldest src al js target ts r st)) \<le> MAX_ASOF_KEYS"
    if "fcard (fmdom st) \<le> MAX_ASOF_KEYS" for src al js st
    using that
  proof (induction js arbitrary: st)
    case (Cons j js)
    then show ?case using asof_put_bounded[OF snoc.prems] by (auto split: option.splits)
  qed simp
  then show ?case using snoc e by (simp add: asof_run_snoc ingest_right_event_def)
qed

subsection \<open>What joins promise\<close>

text \<open>C25: Below the cap a joined stream is joined relationally: for every left row, in order, the combined
  rows with each buffered right row for which \<open>ON\<close> holds, or the left row alone for a \<open>LEFT\<close> or
  \<open>FULL\<close> join without a match, and, for \<open>RIGHT\<close> and \<open>FULL\<close>, the right rows that no left row
  matched.\<close>

theorem join_stage_relational:
  assumes "lk_options K (jc_target j) = None" "\<not> is_asof j"
    and "length (rel_join E j (map tr_data (filter (\<lambda>r. tr_source r = jc_target j) buf)) lefts) < MAX_JOIN_FANOUT"
  shows "join_stage E K src al buf j lefts
    = rel_join E j (map tr_data (filter (\<lambda>r. tr_source r = jc_target j) buf)) lefts"
proof -
  let ?R = "map tr_data (filter (\<lambda>r. tr_source r = jc_target j) buf)"
  let ?e = "enumerate 0 ?R"
  have "length (concat (map (rel_left E j ?R) lefts)) < MAX_JOIN_FANOUT" using assms(3) by (simp add: rel_join_def)
  then obtain m where m: "stream_lefts E j ?e lefts ([], []) = (concat (map (rel_left E j ?R) lefts), m)"
    "set m = (\<Union>l\<in>set lefts. set (hits E j l ?e))"
    using stream_lefts_rel[OF assms(2), of "[]" E ?e lefts "[]"] by auto
  have un: "map snd (filter (\<lambda>(i, r). i \<notin> set m) ?e) = rel_unmatched E j ?R lefts" using unmatched_rel[OF m(2)] .
  have "keep_rights j ?e m (concat (map (rel_left E j ?R) lefts))
      = concat (map (rel_left E j ?R) lefts) @ map (preserved j) (rel_unmatched E j ?R lefts)"
    if "jc_type j = Right \<or> jc_type j = Full"
  proof -
    have "length (filter (\<lambda>(i, r). i \<notin> set m) ?e) = length (rel_unmatched E j ?R lefts)" unfolding un[symmetric] by simp
    then show ?thesis
      using keep_rights_rel[of "concat (map (rel_left E j ?R) lefts)" m ?e j] assms(3) that unfolding un[symmetric]
      by (simp add: rel_join_def un[symmetric])
  qed
  then show ?thesis using assms(1) m by (simp add: join_stage_def rel_join_def Let_def)
qed

definition demo_lookups :: lookups where
  "demo_lookups = \<lparr>lk_options = (\<lambda>_. None), lk_rows = (\<lambda>_. []), lk_redis = (\<lambda>_ _. None), lk_sql_target = (\<lambda>_. None),
     lk_sql = (\<lambda>_ _ _ _. None), lk_modbus = (\<lambda>_. None), lk_opcua = (\<lambda>_. None)\<rparr>"

definition demo_join :: "join_type \<Rightarrow> join_clause" where
  "demo_join ty = \<lparr>jc_type = ty, jc_target = ''b'', jc_alias = None,
     jc_on = Some (BinaryOp (FieldAccess (Identifier ''a'') ''id'') Eq (FieldAccess (Identifier ''b'') ''id''))\<rparr>"

definition id_row :: "int \<Rightarrow> int \<Rightarrow> row" where
  "id_row i ts = fmupd ''id'' (of_i64 i) (fmupd ''ts'' (of_i64 ts) fmempty)"

theorem join_stage_relational_witness:
  "join_stage demo_env demo_lookups ''a'' None [\<lparr>tr_source = ''b'', tr_data = id_row 1 10\<rparr>, \<lparr>tr_source = ''b'', tr_data = id_row 3 30\<rparr>]
     (demo_join Full) [insert_namespaced ''a'' None (id_row 1 5) (id_row 1 5), insert_namespaced ''a'' None (id_row 2 6) (id_row 2 6)]
   = [combine (demo_join Full) (insert_namespaced ''a'' None (id_row 1 5) (id_row 1 5)) (id_row 1 10),
      insert_namespaced ''a'' None (id_row 2 6) (id_row 2 6), preserved (demo_join Full) (id_row 3 30)]"
proof -
  let ?b = "[\<lparr>tr_source = ''b'', tr_data = id_row 1 10\<rparr>, \<lparr>tr_source = ''b'', tr_data = id_row 3 30\<rparr>]"
  let ?l = "[insert_namespaced ''a'' None (id_row 1 5) (id_row 1 5), insert_namespaced ''a'' None (id_row 2 6) (id_row 2 6)]"
  have rel: "rel_join demo_env (demo_join Full) (map tr_data (filter (\<lambda>r. tr_source r = jc_target (demo_join Full)) ?b)) ?l
     = [combine (demo_join Full) (insert_namespaced ''a'' None (id_row 1 5) (id_row 1 5)) (id_row 1 10),
        insert_namespaced ''a'' None (id_row 2 6) (id_row 2 6), preserved (demo_join Full) (id_row 3 30)]"
    by code_simp
  have "lk_options demo_lookups (jc_target (demo_join Full)) = None" "\<not> is_asof (demo_join Full)"
    by (simp_all add: demo_lookups_def demo_join_def is_asof_def)
  moreover have "length (rel_join demo_env (demo_join Full) (map tr_data (filter (\<lambda>r. tr_source r = jc_target (demo_join Full)) ?b)) ?l)
      < MAX_JOIN_FANOUT"
    unfolding rel by (simp add: MAX_JOIN_FANOUT_def)
  ultimately show ?thesis using join_stage_relational[of demo_lookups "demo_join Full" demo_env ?b ?l "''a''" None] unfolding rel by simp
qed

text \<open>The rows that a window with joins hands to the projection never outnumber the larger of
  the fan-out cap and the buffered rows of the \<open>FROM\<close> stream; a joined stream never exceeds the
  cap.\<close>

lemma join_fanout_bounded:
  "(case join_stages E K src al buf js rows of
      None \<Rightarrow> True
    | Some out \<Rightarrow> length out \<le> max MAX_JOIN_FANOUT (length rows))
   \<and> (lk_options K (jc_target j) = None \<longrightarrow> length (join_stage E K src al buf j rows) \<le> MAX_JOIN_FANOUT)"
proof -
  have stream: "length (join_stage E K src al buf j rows) \<le> MAX_JOIN_FANOUT"
    if "lk_options K (jc_target j) = None" for j rows
  proof -
    let ?e = "enumerate 0 (map tr_data (filter (\<lambda>r. tr_source r = jc_target j) buf))"
    have "length (fst (stream_lefts E j ?e rows ([], []))) \<le> MAX_JOIN_FANOUT"
      by (rule stream_lefts_bounded) (simp add: MAX_JOIN_FANOUT_def)
    then show ?thesis
      using that keep_rights_bounded by (auto simp: join_stage_def Let_def split: prod.splits)
  qed
  have table: "length (join_stage E K src al buf j rows) \<le> max MAX_JOIN_FANOUT (length rows)" for j rows
  proof (cases "lk_options K (jc_target j) = None")
    case True
    then show ?thesis using stream[OF True] by (simp add: le_max_iff_disj)
  next
    case False
    then show ?thesis using table_stage_bounded by (auto simp: join_stage_def)
  qed
  have "join_stages E K src al buf js rows = Some out \<Longrightarrow> length out \<le> max MAX_JOIN_FANOUT (length rows)" for out
  proof (induction js arbitrary: rows)
    case (Cons j js)
    then show ?case using table[of j rows] by (force simp: Let_def split: if_splits)
  qed simp
  with stream show ?thesis by (auto split: option.splits)
qed

lemma join_fanout_bounded_witness:
  "length (join_stage demo_env demo_lookups ''a'' None [] (demo_join Inner) []) \<le> MAX_JOIN_FANOUT"
  using join_fanout_bounded[where E = demo_env and K = demo_lookups and src = "''a''" and al = None and buf = "[]"
      and js = "[]" and rows = "[]" and j = "demo_join Inner"]
  by (simp add: demo_lookups_def)

text \<open>The state of an \<open>ASOF\<close> join never holds more than its cap of keys, and as long as the joined
  stream has at most that many, probing a key answers the row with the greatest timestamp among
  all events of that key, the last one of equals, if that timestamp is not after the left row.
  Older events are forgotten: a left row between two events of its key matches neither.\<close>

lemma asof_probe_newest:
  assumes "joins stmt = [j]" "is_asof j" "picks_oldest oldest"
  shows "fcard (fmdom (asof_run E oldest stmt (jc_target j) evs)) \<le> MAX_ASOF_KEYS
    \<and> (card (keys_of E stmt j evs) \<le> MAX_ASOF_KEYS \<longrightarrow>
        asof_match (asof_run E oldest stmt (jc_target j) evs) (jc_target j) k left_ts =
          (case newest (with_key E stmt j k evs) of
             Some (ts, r) \<Rightarrow> if ts \<le> left_ts then Some r else None
           | None \<Rightarrow> None))"
  using asof_run_bounded[OF assms(3)] asof_run_newest[OF assms(1,2)] by (auto simp: asof_match_def)

definition demo_oldest :: oldest_picker where
  "demo_oldest st =
     (case sort_key (\<lambda>k. case fmlookup st k of Some (ts, _) \<Rightarrow> ts | None \<Rightarrow> 0) (sorted_list_of_fset (fmdom st)) of
        [] \<Rightarrow> None | k # _ \<Rightarrow> Some k)"

lemma demo_oldest_picks: "picks_oldest demo_oldest"
  unfolding picks_oldest_def
proof (intro allI impI)
  fix st :: asof_state
  assume ne: "st \<noteq> fmempty"
  let ?f = "\<lambda>k. case fmlookup st k of Some (ts, _) \<Rightarrow> ts | None \<Rightarrow> 0"
  let ?ks = "sort_key ?f (sorted_list_of_fset (fmdom st))"
  have set: "set ?ks = fset (fmdom st)" by simp
  obtain k0 v where "fmlookup st k0 = Some v" using ne by (metis fmap_ext fmempty_lookup not_None_eq)
  then have "?ks \<noteq> []" using set by (metis fmdomI list.set(1) empty_iff)
  then obtain k ks where ks: "?ks = k # ks" by (cases ?ks) auto
  then have min: "\<forall>k'\<in>set ?ks. ?f k \<le> ?f k'" using sorted_sort_key[of ?f "sorted_list_of_fset (fmdom st)"] by auto
  have "k |\<in>| fmdom st" using ks set by (metis list.set_intros(1))
  then obtain ts r where k: "fmlookup st k = Some (ts, r)" by (auto simp: fmlookup_dom_iff)
  have "\<forall>k' ts' r'. fmlookup st k' = Some (ts', r') \<longrightarrow> ts \<le> ts'"
  proof (intro allI impI)
    fix k' ts' r' assume k': "fmlookup st k' = Some (ts', r')"
    then have "k' \<in> set ?ks" using set by (simp add: fmdomI)
    then show "ts \<le> ts'" using bspec[OF min] k k' by fastforce
  qed
  then show "\<exists>k ts r. demo_oldest st = Some k \<and> fmlookup st k = Some (ts, r) \<and>
      (\<forall>k' ts' r'. fmlookup st k' = Some (ts', r') \<longrightarrow> ts \<le> ts')"
    using k ks by (auto simp: demo_oldest_def)
qed

definition asof_stmt :: select_stmt where
  "asof_stmt = SelectStmt [Wildcard] [] ''a'' None [demo_join Asof] None [] None None None None None [] None None"

text \<open>Events at 100 and 200; a left row at 150 finds nothing, one at 250 the second event.\<close>

lemma asof_probe_newest_witness:
  "asof_match (asof_run demo_env demo_oldest asof_stmt ''b'' [(100, id_row 1 100), (200, id_row 1 200)]) ''b'' ''1'' 150 = None
   \<and> asof_match (asof_run demo_env demo_oldest asof_stmt ''b'' [(100, id_row 1 100), (200, id_row 1 200)]) ''b'' ''1'' 250
       = Some (id_row 1 200)"
proof -
  let ?evs = "[(100, id_row 1 100), (200, id_row 1 200)]"
  have j: "joins asof_stmt = [demo_join Asof]" "is_asof (demo_join Asof)" "jc_target (demo_join Asof) = ''b''"
    by (simp_all add: asof_stmt_def demo_join_def is_asof_def)
  define f where "f = (\<lambda>(ts :: int, r). the (right_key demo_env asof_stmt (demo_join Asof) r))"
  have "keys_of demo_env asof_stmt (demo_join Asof) ?evs \<subseteq> f ` set ?evs" by (force simp: keys_of_def f_def)
  then have "card (keys_of demo_env asof_stmt (demo_join Asof) ?evs) \<le> card (f ` set ?evs)"
    by (rule card_mono[rotated]) simp
  moreover have "card (f ` set ?evs) \<le> length ?evs"
    using card_image_le[of "set ?evs" f] card_length[of ?evs] by simp
  ultimately have few: "card (keys_of demo_env asof_stmt (demo_join Asof) ?evs) \<le> MAX_ASOF_KEYS"
    by (simp add: MAX_ASOF_KEYS_def)
  have n: "newest (with_key demo_env asof_stmt (demo_join Asof) ''1'' ?evs) = Some (200, id_row 1 200)" by code_simp
  show ?thesis
    using asof_probe_newest[OF j(1,2) demo_oldest_picks, of demo_env ?evs "''1''" 150]
      asof_probe_newest[OF j(1,2) demo_oldest_picks, of demo_env ?evs "''1''" 250] few n j(3) by simp
qed

end
