(* ===== verification/StatelessRule.thy ===== *)
theory StatelessRule
  imports Joins
begin

text \<open>
  Rules without a window (\<open>run_stateless_rule\<close> in
  \<open>crates/rekuiper-server/src/engine/runtime.rs\<close>): one record in, at most one record out, with
  lookup joins, the state of \<open>ASOF\<close> joins, the analytic state of the rule, its counters and its
  dead-letter queue. The second loop takes further records from the queue without waiting, up to
  64 at a time; for them the status of the rule is not read again.
\<close>

record stateless_cfg =
  sc_env :: env
  sc_lookups :: lookups
  sc_oldest :: oldest_picker
  sc_stmt :: select_stmt
  sc_time :: event_time
  sc_rfc3339 :: "string \<Rightarrow> int option"
  sc_router :: dlq_router
  sc_send_error :: bool
  sc_key_order :: "row \<Rightarrow> string list"
  sc_err_text :: "eval_error \<Rightarrow> string"

record stateless_state =
  sr_rule :: rule_map
  sr_asof :: asof_state
  sr_counters :: counters
  sr_dlq :: "dlq_envelope list"
  sr_ended :: bool

text \<open>What a record leads to: a row put into the queue of the sink, a row that the closed queue did not
  take, the error row of \<open>sendError\<close> put into the queue, a task spawned by the error router.\<close>

datatype rule_out = Emit row | Lost row | Report row | Spawn dlq_effect

definition has_asof :: "select_stmt \<Rightarrow> bool" where
  "has_asof stmt = list_ex is_asof (joins stmt)"

definition has_lookup_joins :: "select_stmt \<Rightarrow> bool" where
  "has_lookup_joins stmt = list_ex (\<lambda>j. \<not> is_asof j) (joins stmt)"

definition stateless_init :: "string \<Rightarrow> int \<Rightarrow> rule_map option \<Rightarrow> stateless_state" where
  "stateless_init rid now checkpoint =
     (let m = fmupd ''__rule_start__'' (of_i64 now) (fmupd ''__rule_id__'' (Str rid) fmempty)
      in \<lparr>sr_rule = (case checkpoint of Some saved \<Rightarrow> fmadd m saved | None \<Rightarrow> m), sr_asof = fmempty,
          sr_counters = counters_init, sr_dlq = [], sr_ended = False\<rparr>)"

text \<open>Errors: counted, queued, reported to the sink if so configured; \<open>halt\<close> ends the loop.\<close>

definition fail_record ::
  "stateless_cfg \<Rightarrow> int \<Rightarrow> channel_outcome \<Rightarrow> string \<Rightarrow> dlq_stage \<Rightarrow> row \<Rightarrow> stateless_state \<Rightarrow> stateless_state \<times> rule_out list" where
  "fail_record S now ch err stage data s =
     (case handle_runtime_error (render (sc_env S)) (sc_router S) now (sc_send_error S) err (Some stage) (Some data)
             (sr_counters s, sr_dlq s) of
        ((c, q), effs, rows) \<Rightarrow>
          (let (sent, c1) = (if rows = [] then (False, c) else enqueue_sink_record ch c)
           in (s\<lparr>sr_counters := c1, sr_dlq := q, sr_ended := (sr_ended s \<or> dr_on_error (sc_router S) = Halt)\<rparr>,
               map Spawn effs @ (if sent then map Report rows else []))))"

text \<open>Evaluation and delivery of one record; \<open>None\<close> is a panic.\<close>

definition eval_record ::
  "stateless_cfg \<Rightarrow> int \<Rightarrow> channel_outcome \<Rightarrow> row \<Rightarrow> row \<Rightarrow> stateless_state \<Rightarrow> (stateless_state \<times> rule_out list) option" where
  "eval_record S now ch data joined s =
     (case eval_select_stateless_fast (sc_env S) (sc_stmt S) (select_field_names (sc_stmt S))
             (stmt_has_analytic (sc_stmt S)) joined fmempty (sr_rule s) of
        (Ok (Some out), m) \<Rightarrow>
          (case enqueue_sink_record ch (sr_counters s) of
             (sent, c) \<Rightarrow>
               Some (s\<lparr>sr_rule := m, sr_counters := c, sr_ended := \<not> sent\<rparr>, [if sent then Emit out else Lost out]))
      | (Ok None, m) \<Rightarrow> Some (s\<lparr>sr_rule := m, sr_counters := inc_filtered 1 (sr_counters s)\<rparr>, [])
      | (Err e, m) \<Rightarrow> Some (fail_record S now ch (sc_err_text S e) SqlEval data (s\<lparr>sr_rule := m\<rparr>))
      | (Panic, m) \<Rightarrow> None)"

definition lookup_and_eval ::
  "stateless_cfg \<Rightarrow> int \<Rightarrow> channel_outcome \<Rightarrow> row \<Rightarrow> stateless_state \<Rightarrow> (stateless_state \<times> rule_out list) option" where
  "lookup_and_eval S now ch data s =
     (if has_lookup_joins (sc_stmt S)
      then (case apply_lookup_joins (sc_env S) (sc_lookups S) (sc_stmt S) data of
              Some joined \<Rightarrow> eval_record S now ch data joined s
            | None \<Rightarrow> Some (s\<lparr>sr_counters := inc_filtered 1 (sr_counters s)\<rparr>, []))
      else eval_record S now ch data data s)"

definition guard_error ::
  "stateless_cfg \<Rightarrow> int \<Rightarrow> channel_outcome \<Rightarrow> row \<Rightarrow> (stateless_state \<Rightarrow> (stateless_state \<times> rule_out list) option)
     \<Rightarrow> stateless_state \<Rightarrow> (stateless_state \<times> rule_out list) option" where
  "guard_error S now ch data k s =
     (let s1 = s\<lparr>sr_counters := inc_source 1 (sr_counters s)\<rparr>
      in case check_record_error (sc_key_order S) (render (sc_env S)) data of
           Some err \<Rightarrow> Some (fail_record S now ch err CodecDecode data s1)
         | None \<Rightarrow> k s1)"

text \<open>The events of the loops: a record waited for, a record drained without waiting, and a record of
  a joined stream.\<close>

datatype stateless_event = Received row | Drained row | RightRecord tagged

record stateless_moment =
  sm_event :: stateless_event
  sm_running :: bool
  sm_now :: int
  sm_channel :: channel_outcome

definition source_field :: "event_time \<Rightarrow> string \<Rightarrow> string option" where
  "source_field t src = fmlookup (et_source_fields t) src"

definition asof_left ::
  "stateless_cfg \<Rightarrow> int \<Rightarrow> channel_outcome \<Rightarrow> row \<Rightarrow> stateless_state \<Rightarrow> (stateless_state \<times> rule_out list) option" where
  "asof_left S now ch data s =
     (let stmt = sc_stmt S;
          ts = extract_event_timestamp (sc_rfc3339 S) now data
                 (or_else (source_field (sc_time S) (from_src stmt)) (et_field (sc_time S)))
      in case probe_left_event (sc_env S) stmt ts data (sr_asof s) of
           None \<Rightarrow> Some (s\<lparr>sr_counters := inc_filtered 1 (sr_counters s)\<rparr>, [])
         | Some probed \<Rightarrow> lookup_and_eval S now ch probed s)"

definition asof_step :: "stateless_cfg \<Rightarrow> stateless_moment \<Rightarrow> stateless_state \<Rightarrow> (stateless_state \<times> rule_out list) option" where
  "asof_step S mo s =
     (case sm_event mo of
        RightRecord r \<Rightarrow>
          (let ts = extract_event_timestamp (sc_rfc3339 S) (sm_now mo) (tr_data r) (source_field (sc_time S) (tr_source r))
           in Some (s\<lparr>sr_asof := ingest_right_event (sc_env S) (sc_oldest S) (sc_stmt S) (tr_source r) ts (tr_data r) (sr_asof s)\<rparr>, []))
      | Received data \<Rightarrow>
          (if \<not> sm_running mo then Some (s, [])
           else guard_error S (sm_now mo) (sm_channel mo) data (asof_left S (sm_now mo) (sm_channel mo) data) s)
      | Drained data \<Rightarrow> Some (s, []))"

definition plain_step :: "stateless_cfg \<Rightarrow> stateless_moment \<Rightarrow> stateless_state \<Rightarrow> (stateless_state \<times> rule_out list) option" where
  "plain_step S mo s =
     (case sm_event mo of
        Received data \<Rightarrow>
          (if \<not> sm_running mo then Some (s\<lparr>sr_ended := True\<rparr>, [])
           else guard_error S (sm_now mo) (sm_channel mo) data (lookup_and_eval S (sm_now mo) (sm_channel mo) data) s)
      | Drained data \<Rightarrow> guard_error S (sm_now mo) (sm_channel mo) data (lookup_and_eval S (sm_now mo) (sm_channel mo) data) s
      | RightRecord r \<Rightarrow> Some (s, []))"

definition stateless_step :: "stateless_cfg \<Rightarrow> stateless_moment \<Rightarrow> stateless_state \<Rightarrow> (stateless_state \<times> rule_out list) option" where
  "stateless_step S mo s =
     (if sr_ended s then Some (s, [])
      else if has_asof (sc_stmt S) then asof_step S mo s else plain_step S mo s)"

fun run_stateless_rule ::
  "stateless_cfg \<Rightarrow> stateless_moment list \<Rightarrow> stateless_state \<Rightarrow> (stateless_state \<times> rule_out list) option" where
  "run_stateless_rule S [] s = Some (s, [])"
| "run_stateless_rule S (mo # mos) s =
     Option.bind (stateless_step S mo s) (\<lambda>(s1, o1).
     Option.bind (run_stateless_rule S mos s1) (\<lambda>(s2, o2). Some (s2, o1 @ o2)))"

text \<open>The end of a task spawned by the router: a dispatch that failed is counted, and a halt whose new
  status was stored records the exception on the same counters once more.\<close>

fun spawned_done :: "dlq_effect \<Rightarrow> bool \<Rightarrow> counters \<Rightarrow> counters" where
  "spawned_done (Dispatch e) ok c = dispatch_done ok c"
| "spawned_done (HaltRule i err) ok c = (if ok then record_exception err c else c)"

fun settle :: "(dlq_effect \<times> bool) list \<Rightarrow> counters \<Rightarrow> counters" where
  "settle [] c = c"
| "settle ((eff, ok) # rest) c = settle rest (spawned_done eff ok c)"

end
