(* ===== verification/Stateless_Props.thy ===== *)
theory Stateless_Props
  imports StatelessRule Demo
begin

text \<open>
  The counters of a rule without a window account for every record it takes: dropped by a filter or
  a join, failed, put into the queue of the sink, or lost because that queue was closed. The tasks
  the error router spawns finish later and in any order; a halt counts its exception again.
\<close>

fun is_emit :: "rule_out \<Rightarrow> bool" where
  "is_emit (Emit r) = True"
| "is_emit o' = False"

fun is_lost :: "rule_out \<Rightarrow> bool" where
  "is_lost (Lost r) = True"
| "is_lost o' = False"

fun is_report :: "rule_out \<Rightarrow> bool" where
  "is_report (Report r) = True"
| "is_report o' = False"

fun is_halt :: "dlq_effect \<Rightarrow> bool" where
  "is_halt (HaltRule i err) = True"
| "is_halt (Dispatch e) = False"

fun spawned_tasks :: "rule_out list \<Rightarrow> dlq_effect list" where
  "spawned_tasks [] = []"
| "spawned_tasks (Spawn eff # os) = eff # spawned_tasks os"
| "spawned_tasks (o' # os) = spawned_tasks os"

definition emitted :: "rule_out list \<Rightarrow> nat" where "emitted os = length (filter is_emit os)"
definition lost :: "rule_out list \<Rightarrow> nat" where "lost os = length (filter is_lost os)"
definition reported :: "rule_out list \<Rightarrow> nat" where "reported os = length (filter is_report os)"
definition halts :: "dlq_effect list \<Rightarrow> nat" where "halts effs = length (filter is_halt effs)"

definition balance :: "stateless_state \<Rightarrow> u64" where
  "balance s = ct_source_in (sr_counters s) - ct_filtered (sr_counters s) - ct_exceptions (sr_counters s)"

text \<open>What a step may do with \<open>n\<close> records taken but not yet accounted for.\<close>

definition accounts :: "u64 \<Rightarrow> stateless_state \<Rightarrow> stateless_state \<Rightarrow> rule_out list \<Rightarrow> bool" where
  "accounts n s s' os \<longleftrightarrow>
     balance s' + n = balance s + of_nat (emitted os) + of_nat (lost os)
     \<and> ct_enqueued (sr_counters s') = ct_enqueued (sr_counters s) + of_nat (emitted os) + of_nat (reported os)
     \<and> lost os + halts (spawned_tasks os) \<le> 1
     \<and> (sr_ended s' \<or> lost os + halts (spawned_tasks os) = 0)"

lemma spawned_append [simp]: "spawned_tasks (xs @ ys) = spawned_tasks xs @ spawned_tasks ys"
  by (induction xs rule: spawned_tasks.induct) simp_all

lemma spawned_maps [simp]: "spawned_tasks (map Spawn es) = es" "spawned_tasks (map Report rs) = []"
  by (induction es) (simp_all, induction rs, simp_all)

lemma count_maps [simp]:
  "emitted (map Spawn es) = 0" "emitted (map Report rs) = 0" "lost (map Spawn es) = 0" "lost (map Report rs) = 0"
  "reported (map Spawn es) = 0" "reported (map Report rs) = length rs"
  by (simp_all add: emitted_def lost_def reported_def comp_def)

lemma count_simps [simp]:
  "emitted [] = 0" "emitted (xs @ ys) = emitted xs + emitted ys"
  "lost [] = 0" "lost (xs @ ys) = lost xs + lost ys"
  "reported [] = 0" "reported (xs @ ys) = reported xs + reported ys"
  "halts [] = 0" "halts (es @ fs) = halts es + halts fs"
  "emitted [Emit r] = 1" "emitted [Lost r] = 0" "lost [Emit r] = 0" "lost [Lost r] = 1"
  "reported [Emit r] = 0" "reported [Lost r] = 0"
  "halts (Dispatch e # es) = halts es" "halts (HaltRule i err # es) = Suc (halts es)"
  by (simp_all add: emitted_def lost_def reported_def halts_def)

lemma enqueue_counters:
  "enqueue_sink_record ch c = (sent, c') \<Longrightarrow>
   ct_source_in c' = ct_source_in c \<and> ct_filtered c' = ct_filtered c \<and> ct_exceptions c' = ct_exceptions c
   \<and> ct_enqueued c' = ct_enqueued c + (if sent then 1 else 0)"
  by (cases ch) (auto simp: inc_enqueued_def observe_high_water_def Let_def)

lemma route_counters:
  "route_error D now stage err raw tup sink (c, q) = ((c', q'), effs) \<Longrightarrow>
   ct_source_in c' = ct_source_in c \<and> ct_filtered c' = ct_filtered c \<and> ct_exceptions c' = ct_exceptions c + 1
   \<and> ct_enqueued c' = ct_enqueued c \<and> halts effs \<le> 1 \<and> (halts effs = 0 \<or> dr_on_error D = Halt)"
  by (auto simp: route_error_def Let_def record_exception_def inc_dlq_def split: if_splits)

lemma fail_record_accounts:
  assumes "fail_record S now ch err stage data s = (s', os)"
  shows "accounts 1 s s' os"
proof -
  obtain c q effs rows where h: "handle_runtime_error (render (sc_env S)) (sc_router S) now (sc_send_error S) err (Some stage)
      (Some data) (sr_counters s, sr_dlq s) = ((c, q), effs, rows)"
    by (metis surj_pair)
  then have c: "ct_source_in c = ct_source_in (sr_counters s) \<and> ct_filtered c = ct_filtered (sr_counters s)
      \<and> ct_exceptions c = ct_exceptions (sr_counters s) + 1 \<and> ct_enqueued c = ct_enqueued (sr_counters s)
      \<and> halts effs \<le> 1 \<and> (halts effs = 0 \<or> dr_on_error (sc_router S) = Halt)" "length rows \<le> 1"
    using route_counters by (auto simp: handle_runtime_error_def Let_def split: prod.splits)
  obtain sent c1 where en: "enqueue_sink_record ch c = (sent, c1)" by (metis surj_pair)
  show ?thesis
  proof (cases "rows = []")
    case True
    then show ?thesis using c h assms by (auto simp: fail_record_def accounts_def balance_def algebra_simps)
  next
    case False
    then have "length rows = 1" using c(2) by (cases rows) auto
    with False enqueue_counters[OF en] en c h assms show ?thesis
      by (auto simp: fail_record_def accounts_def balance_def algebra_simps split: if_splits)
  qed
qed

lemma accounts_rule [simp]: "accounts n (s\<lparr>sr_rule := m\<rparr>) s' os = accounts n s s' os"
  by (simp add: accounts_def balance_def)

lemma accounts_filtered: "accounts 1 s (s\<lparr>sr_rule := m, sr_counters := inc_filtered 1 (sr_counters s)\<rparr>) []"
  "accounts 1 s (s\<lparr>sr_counters := inc_filtered 1 (sr_counters s)\<rparr>) []"
  by (simp_all add: accounts_def balance_def inc_filtered_def algebra_simps)

lemma eval_record_accounts:
  assumes "eval_record S now ch data joined s = Some (s', os)"
  shows "accounts 1 s s' os"
proof -
  obtain r m where ev: "eval_select_stateless_fast (sc_env S) (sc_stmt S) (select_field_names (sc_stmt S))
      (stmt_has_analytic (sc_stmt S)) joined fmempty (sr_rule s) = (r, m)" by (metis surj_pair)
  consider out where "r = Ok (Some out)" | "r = Ok None" | e where "r = Err e" | "r = Panic"
    by (cases r) (metis option.exhaust_sel, auto)
  then show ?thesis
  proof cases
    case 1
    obtain sent c where en: "enqueue_sink_record ch (sr_counters s) = (sent, c)" by (metis surj_pair)
    with enqueue_counters[OF en] show ?thesis
      using assms ev 1 by (cases sent) (auto simp: eval_record_def balance_def accounts_def)
  next
    case 2
    then show ?thesis using assms ev by (auto simp: eval_record_def accounts_filtered)
  next
    case 3
    then have f: "fail_record S now ch (sc_err_text S e) SqlEval data (s\<lparr>sr_rule := m\<rparr>) = (s', os)"
      using assms ev by (simp add: eval_record_def)
    from fail_record_accounts[OF f] show ?thesis by simp
  next
    case 4
    then show ?thesis using assms ev by (simp add: eval_record_def)
  qed
qed

lemma lookup_and_eval_accounts: "lookup_and_eval S now ch data s = Some (s', os) \<Longrightarrow> accounts 1 s s' os"
  by (auto simp: lookup_and_eval_def accounts_filtered dest: eval_record_accounts split: if_splits option.splits)

lemma asof_left_accounts: "asof_left S now ch data s = Some (s', os) \<Longrightarrow> accounts 1 s s' os"
  by (auto simp: asof_left_def Let_def accounts_filtered dest: lookup_and_eval_accounts split: option.splits)

lemma guard_error_accounts:
  assumes "guard_error S now ch data k s = Some (s', os)"
    and "\<And>t t' os. k t = Some (t', os) \<Longrightarrow> accounts 1 t t' os"
  shows "accounts 0 s s' os"
proof -
  let ?s = "s\<lparr>sr_counters := inc_source 1 (sr_counters s)\<rparr>"
  have "accounts 1 ?s s' os"
    using assms fail_record_accounts[of S now ch _ CodecDecode data ?s s' os]
    by (auto simp: guard_error_def Let_def split: option.splits)
  then show ?thesis by (auto simp: accounts_def balance_def inc_source_def algebra_simps)
qed

lemma accounts_same: "accounts 0 s s []" "accounts 0 s (s\<lparr>sr_ended := True\<rparr>) []" "accounts 0 s (s\<lparr>sr_asof := x\<rparr>) []"
  by (simp_all add: accounts_def balance_def)

lemma stateless_step_accounts:
  assumes "stateless_step S mo s = Some (s', os)"
  shows "accounts 0 s s' os"
  using assms guard_error_accounts[OF _ lookup_and_eval_accounts] guard_error_accounts[OF _ asof_left_accounts]
  by (auto simp: stateless_step_def asof_step_def plain_step_def Let_def accounts_same
      split: if_splits stateless_event.splits)

lemma ended_run: "sr_ended s \<Longrightarrow> run_stateless_rule S mos s = Some (s, [])"
  by (induction mos) (simp_all add: stateless_step_def)

lemma run_accounts: "run_stateless_rule S mos s = Some (s', os) \<Longrightarrow> accounts 0 s s' os"
proof (induction mos arbitrary: s os)
  case (Cons mo mos)
  then obtain s1 o1 o2 where st: "stateless_step S mo s = Some (s1, o1)" "run_stateless_rule S mos s1 = Some (s', o2)" "os = o1 @ o2"
    by (auto simp: Option.bind_eq_Some_conv)
  note a = stateless_step_accounts[OF st(1)] Cons.IH[OF st(2)]
  show ?case
  proof (cases "sr_ended s1")
    case True
    then show ?thesis using a(1) st ended_run[of s1 S mos] by simp
  next
    case False
    then show ?thesis using a st(3) by (auto simp: accounts_def algebra_simps)
  qed
qed (simp add: accounts_same)

text \<open>Halts that went through, and dispatches that did not.\<close>

definition completed_halts :: "(dlq_effect \<times> bool) list \<Rightarrow> nat" where
  "completed_halts fin = length (filter (\<lambda>(eff, ok). is_halt eff \<and> ok) fin)"

definition failed_dispatches :: "(dlq_effect \<times> bool) list \<Rightarrow> nat" where
  "failed_dispatches fin = length (filter (\<lambda>(eff, ok). \<not> is_halt eff \<and> \<not> ok) fin)"

lemma settle_counts:
  "ct_exceptions (settle fin c) = ct_exceptions c + of_nat (completed_halts fin)
   \<and> ct_dlq_sink_failures (settle fin c) = ct_dlq_sink_failures c + of_nat (failed_dispatches fin)
   \<and> ct_source_in (settle fin c) = ct_source_in c \<and> ct_filtered (settle fin c) = ct_filtered c
   \<and> ct_enqueued (settle fin c) = ct_enqueued c"
proof (induction fin c rule: settle.induct)
  case (2 eff ok rest c)
  then show ?case
    by (cases eff) (auto simp: completed_halts_def failed_dispatches_def dispatch_done_def record_exception_def
        inc_dlq_sink_failures_def)
qed (simp add: completed_halts_def failed_dispatches_def)

lemma completed_halts_le:
  assumes "mset (map fst fin) \<subseteq># mset effs"
  shows "completed_halts fin \<le> halts effs"
proof -
  have "completed_halts fin \<le> length (filter is_halt (map fst fin))"
    by (induction fin) (auto simp: completed_halts_def)
  also have "\<dots> = size (filter_mset is_halt (mset (map fst fin)))" by (metis mset_filter size_mset)
  also have "\<dots> \<le> size (filter_mset is_halt (mset effs))" using assms by (intro size_mset_mono multiset_filter_mono)
  also have "\<dots> = halts effs" by (metis halts_def mset_filter size_mset)
  finally show ?thesis .
qed

text \<open>C22: Take any run of a rule without a window, and let any of the tasks it spawned_tasks for its
  errors finish in any order. While the loop runs, the records counted as taken are the records
  counted as filtered, those counted as exceptions, the rows put into the queue of the sink and
  the rows lost, which nothing counts; the records counted as enqueued are those rows and the
  error rows of \<open>sendError\<close>. A row is lost only because the queue was closed, at most once, and
  the loop has then ended; so it has after a halt. The tasks that finish leave all of this alone
  but for the halt, at most one, which counts its exception a second time.\<close>

theorem stateless_accounts_for_every_record:
  assumes run: "run_stateless_rule S mos s = Some (s', os)"
    and fin: "mset (map fst fin) \<subseteq># mset (spawned_tasks os)"
  shows "ct_source_in (settle fin (sr_counters s')) - ct_source_in (sr_counters s) + of_nat (completed_halts fin) =
      (ct_filtered (settle fin (sr_counters s')) - ct_filtered (sr_counters s))
      + (ct_exceptions (settle fin (sr_counters s')) - ct_exceptions (sr_counters s))
      + of_nat (emitted os) + of_nat (lost os)
    \<and> ct_enqueued (settle fin (sr_counters s')) - ct_enqueued (sr_counters s) = of_nat (emitted os) + of_nat (reported os)
    \<and> lost os + completed_halts fin \<le> 1
    \<and> (0 < lost os + completed_halts fin \<longrightarrow> sr_ended s')"
  using run_accounts[OF run] settle_counts[of fin "sr_counters s'"] completed_halts_le[OF fin]
  by (auto simp: accounts_def balance_def algebra_simps)

definition demo_stateless :: stateless_cfg where
  "demo_stateless =
     \<lparr>sc_env = demo_env,
      sc_lookups = \<lparr>lk_options = (\<lambda>_. None), lk_rows = (\<lambda>_. []), lk_redis = (\<lambda>_ _. None), lk_sql_target = (\<lambda>_. None),
        lk_sql = (\<lambda>_ _ _ _. None), lk_modbus = (\<lambda>_. None), lk_opcua = (\<lambda>_. None)\<rparr>,
      sc_oldest = (\<lambda>_. None), sc_stmt =
        SelectStmt [Identifier ''t''] [None] ''s'' None [] (Some (BinaryOp (Identifier ''t'') Gt (Literal (of_i64 20)))) [] None
          None None None None [] None None,
      sc_time = demo_time 0, sc_rfc3339 = (\<lambda>_. None), sc_router = dlq_build ''r1'' None (\<lambda>_. False),
      sc_send_error = True, sc_key_order = (\<lambda>d. sorted_list_of_fset (fmdom d)), sc_err_text = (\<lambda>_. ''err'')\<rparr>"

text \<open>Five records of a rule that halts on errors: one passes, one is filtered, one passes, one is an
  error record, which halts the rule, and the last is not taken. The halt goes through. In the
  second run the queue is closed when the first record arrives.\<close>

definition demo_moments :: "channel_outcome \<Rightarrow> stateless_moment list" where
  "demo_moments ch = map (\<lambda>d. \<lparr>sm_event = Received d, sm_running = True, sm_now = 0, sm_channel = ch\<rparr>)
     [fmupd ''t'' (of_i64 30) fmempty, fmupd ''t'' (of_i64 10) fmempty, fmupd ''t'' (of_i64 40) fmempty,
      fmupd ''error'' (Str ''bad'') fmempty, fmupd ''t'' (of_i64 50) fmempty]"

definition demo_halting :: stateless_cfg where
  "demo_halting = demo_stateless\<lparr>sc_router := (sc_router demo_stateless)\<lparr>dr_on_error := Halt\<rparr>\<rparr>"

theorem stateless_accounts_for_every_record_witness:
  "(\<exists>s' os. run_stateless_rule demo_halting (demo_moments Sent) (stateless_init ''r1'' 0 None) = Some (s', os)
      \<and> spawned_tasks os = [HaltRule ''r1'' ''bad''] \<and> emitted os = 2 \<and> reported os = 1 \<and> sr_ended s'
      \<and> ct_source_in (settle [(HaltRule ''r1'' ''bad'', True)] (sr_counters s')) = 4
      \<and> ct_filtered (settle [(HaltRule ''r1'' ''bad'', True)] (sr_counters s'))
          + ct_exceptions (settle [(HaltRule ''r1'' ''bad'', True)] (sr_counters s')) = 3)
   \<and> (\<exists>s' os. run_stateless_rule demo_halting (demo_moments Closed) (stateless_init ''r1'' 0 None) = Some (s', os)
      \<and> lost os = 1 \<and> sr_ended s' \<and> ct_source_in (sr_counters s') = 1
      \<and> ct_filtered (sr_counters s') + ct_exceptions (sr_counters s') = 0)"
proof -
  let ?run = "\<lambda>ch. run_stateless_rule demo_halting (demo_moments ch) (stateless_init ''r1'' 0 None)"
  let ?fin = "[(HaltRule ''r1'' ''bad'', True)]"
  have c0: "sr_counters (stateless_init ''r1'' 0 None) = counters_init" by (simp add: stateless_init_def Let_def)
  have z: "completed_halts ?fin = 1" "completed_halts [] = 0" by (simp_all add: completed_halts_def)
  have "map_option (\<lambda>(s', os). (spawned_tasks os, emitted os, lost os, reported os, ct_source_in (sr_counters s'))) (?run Sent)
      = Some ([HaltRule ''r1'' ''bad''], 2, 0, 1, 4)" by code_simp
  then obtain s1 o1 where r1: "?run Sent = Some (s1, o1)" and e1: "spawned_tasks o1 = [HaltRule ''r1'' ''bad'']" "emitted o1 = 2"
      "lost o1 = 0" "reported o1 = 1" "ct_source_in (sr_counters s1) = 4" by auto
  have "map_option (\<lambda>(s', os). (spawned_tasks os, emitted os, lost os, ct_source_in (sr_counters s'))) (?run Closed)
      = Some ([], 0, 1, 1)" by code_simp
  then obtain s2 o2 where r2: "?run Closed = Some (s2, o2)" and e2: "spawned_tasks o2 = []" "emitted o2 = 0" "lost o2 = 1"
      "ct_source_in (sr_counters s2) = 1" by auto
  have "mset (map fst ?fin) \<subseteq># mset (spawned_tasks o1)" "mset (map fst ([] :: (dlq_effect \<times> bool) list)) \<subseteq># mset (spawned_tasks o2)"
    using e1(1) by simp_all
  note t = stateless_accounts_for_every_record[OF r1 this(1)] stateless_accounts_for_every_record[OF r2 this(2)]
  have n: "ct_source_in (settle ?fin (sr_counters s1)) = 4" using e1(5) settle_counts[of ?fin "sr_counters s1"] by simp
  show ?thesis
    using t r1 r2 e1 e2 c0 z n by (auto simp: counters_init_def)
qed

end
