(* ===== verification/KvStore.thy ===== *)
theory KvStore
  imports Prelude "HOL-Library.Char_ord" "HOL-Library.List_Lexorder" "HOL-Library.Product_Lexorder"
begin

text \<open>
  The namespaced key/value store behind the managers (\<open>crates/rekuiper-core/src/kv.rs\<close>): the trait
  \<open>KvStore\<close> as a record of fallible operations, its default transaction, and the in-memory store.
  The locale \<open>kv_store\<close> is what the managers rely on: a write that succeeds is what a later read
  finds, and a write that fails changes nothing.
\<close>

subsection \<open>The trait\<close>

datatype kv_operation = KvSet string string string | KvDelete string string

text \<open>A read that fails is \<open>None\<close>; a write returns whether it succeeded and the new store.\<close>

record 's kv_ops =
  kv_get :: "string \<Rightarrow> string \<Rightarrow> 's \<Rightarrow> string option option"
  kv_set :: "string \<Rightarrow> string \<Rightarrow> string \<Rightarrow> 's \<Rightarrow> bool \<times> 's"
  kv_delete :: "string \<Rightarrow> string \<Rightarrow> 's \<Rightarrow> bool \<times> 's"
  kv_list :: "string \<Rightarrow> 's \<Rightarrow> (string \<times> string) list option"

fun kv_apply :: "'s kv_ops \<Rightarrow> kv_operation \<Rightarrow> 's \<Rightarrow> bool \<times> 's" where
  "kv_apply K (KvSet ns k v) s = kv_set K ns k v s"
| "kv_apply K (KvDelete ns k) s = kv_delete K ns k s"

text \<open>The default \<open>apply_transaction\<close>: one operation after the other, up to the first that fails.\<close>

fun kv_transaction :: "'s kv_ops \<Rightarrow> kv_operation list \<Rightarrow> 's \<Rightarrow> bool \<times> 's" where
  "kv_transaction K [] s = (True, s)"
| "kv_transaction K (op' # ops) s =
     (case kv_apply K op' s of (ok, s1) \<Rightarrow> if ok then kv_transaction K ops s1 else (False, s1))"

subsection \<open>The in-memory store\<close>

type_synonym mem_store = "(string \<times> string, string) fmap"

definition mem_list :: "string \<Rightarrow> mem_store \<Rightarrow> (string \<times> string) list" where
  "mem_list ns s =
     List.map_filter (\<lambda>k. map_option (Pair k) (fmlookup s (ns, k)))
       (sorted_list_of_fset (snd |`| ffilter (\<lambda>(n, k). n = ns) (fmdom s)))"

definition mem_ops :: "mem_store kv_ops" where
  "mem_ops =
     \<lparr>kv_get = (\<lambda>ns k s. Some (fmlookup s (ns, k))),
      kv_set = (\<lambda>ns k v s. (True, fmupd (ns, k) v s)),
      kv_delete = (\<lambda>ns k s. (True, fmdrop (ns, k) s)),
      kv_list = (\<lambda>ns s. Some (mem_list ns s))\<rparr>"

fun mem_apply :: "kv_operation \<Rightarrow> mem_store \<Rightarrow> mem_store" where
  "mem_apply (KvSet ns k v) s = fmupd (ns, k) v s"
| "mem_apply (KvDelete ns k) s = fmdrop (ns, k) s"

definition mem_transaction :: "kv_operation list \<Rightarrow> mem_store \<Rightarrow> bool \<times> mem_store" where
  "mem_transaction ops s = (True, foldl (\<lambda>s op'. mem_apply op' s) s ops)"

lemma mem_transaction_default: "mem_transaction ops s = kv_transaction mem_ops ops s"
proof (induction ops arbitrary: s)
  case (Cons op' ops)
  then show ?case by (cases op') (simp_all add: mem_transaction_def mem_ops_def)
qed (simp add: mem_transaction_def)

subsection \<open>What the managers rely on\<close>

locale kv_store =
  fixes K :: "'s kv_ops" and view :: "'s \<Rightarrow> string \<Rightarrow> string \<Rightarrow> string option"
  assumes get_view: "kv_get K ns k s = Some r \<Longrightarrow> r = view s ns k"
    and set_view: "kv_set K ns k v s = (ok, s') \<Longrightarrow>
      view s' = (if ok then (view s)(ns := (view s ns)(k \<mapsto> v)) else view s)"
    and delete_view: "kv_delete K ns k s = (ok, s') \<Longrightarrow>
      view s' = (if ok then (view s)(ns := (view s ns)(k := None)) else view s)"
    and list_view: "kv_list K ns s = Some xs \<Longrightarrow> map_of xs = view s ns \<and> distinct (map fst xs)"
begin

text \<open>Reading back what was written, in the same and in another place.\<close>

lemma get_after_set:
  assumes "kv_set K ns k v s = (True, s')" "kv_get K ns' k' s' = Some r"
  shows "r = (if ns' = ns \<and> k' = k then Some v else view s ns' k')"
  using get_view[OF assms(2)] set_view[OF assms(1)] by auto

text \<open>A transaction that fails has done a prefix of its operations and nothing else.\<close>

lemma transaction_prefix:
  "kv_transaction K ops s = (ok, s') \<Longrightarrow>
   \<exists>n. (ok \<longrightarrow> n = length ops) \<and> view s' = foldl (\<lambda>m op'. case op' of
       KvSet ns k v \<Rightarrow> m(ns := (m ns)(k \<mapsto> v))
     | KvDelete ns k \<Rightarrow> m(ns := (m ns)(k := None))) (view s) (take n ops)"
proof (induction ops arbitrary: s)
  case (Cons op' ops)
  obtain b s1 where b: "kv_apply K op' s = (b, s1)" by (metis surj_pair)
  show ?case
  proof (cases b)
    case True
    then obtain n where n: "ok \<longrightarrow> n = length ops" "view s' = foldl (\<lambda>m op'. case op' of
         KvSet ns k v \<Rightarrow> m(ns := (m ns)(k \<mapsto> v))
       | KvDelete ns k \<Rightarrow> m(ns := (m ns)(k := None))) (view s1) (take n ops)"
      using Cons b by auto
    have "view s1 = (case op' of KvSet ns k v \<Rightarrow> (view s)(ns := (view s ns)(k \<mapsto> v))
        | KvDelete ns k \<Rightarrow> (view s)(ns := (view s ns)(k := None)))"
      using b True set_view delete_view by (cases op') auto
    then show ?thesis using n by (intro exI[of _ "Suc n"]) auto
  next
    case False
    then have "view s' = view s" "\<not> ok" using Cons.prems b set_view delete_view by (cases op'; auto)+
    then show ?thesis by (intro exI[of _ 0]) simp
  qed
qed auto

end

definition mem_keys :: "string \<Rightarrow> mem_store \<Rightarrow> string list" where
  "mem_keys ns s = sorted_list_of_fset (snd |`| ffilter (\<lambda>(n, k). n = ns) (fmdom s))"

lemma mem_keys: "set (mem_keys ns s) = {k. fmlookup s (ns, k) \<noteq> None}" "distinct (mem_keys ns s)"
  by (force simp: mem_keys_def sorted_list_of_fset.rep_eq fmlookup_dom_iff)
     (simp add: mem_keys_def sorted_list_of_fset.rep_eq)

lemma mem_list_keys: "map fst (mem_list ns s) = mem_keys ns s"
proof -
  have "map fst (List.map_filter (\<lambda>k. map_option (Pair k) (fmlookup s (ns, k))) ks) = ks"
    if "\<forall>k\<in>set ks. fmlookup s (ns, k) \<noteq> None" for ks
    using that by (induction ks) (auto simp: List.map_filter_simps split: option.splits)
  then show ?thesis using mem_keys(1)[of ns s] by (simp add: mem_list_def mem_keys_def)
qed

lemma mem_list_lookup: "map_of (mem_list ns s) k = fmlookup s (ns, k)"
proof -
  have "map_of (List.map_filter (\<lambda>k. map_option (Pair k) (fmlookup s (ns, k))) ks) k
      = (if k \<in> set ks then fmlookup s (ns, k) else None)" for ks
    by (induction ks) (auto simp: List.map_filter_simps split: option.splits)
  then show ?thesis using mem_keys(1)[of ns s] unfolding mem_list_def mem_keys_def[symmetric] by auto
qed

interpretation mem: kv_store mem_ops "\<lambda>s ns k. fmlookup s (ns, k)"
proof
  show "kv_list mem_ops ns s = Some xs \<Longrightarrow> map_of xs = (\<lambda>k. fmlookup s (ns, k)) \<and> distinct (map fst xs)" for ns s xs
    using mem_list_keys[of ns s] mem_keys(2)[of ns s] by (auto simp: mem_ops_def mem_list_lookup)
qed (auto simp: mem_ops_def fun_eq_iff)

end
