(* ===== verification/Managers.thy ===== *)
theory Managers
  imports KvStore DeadLetter
begin

text \<open>
  The managers (\<open>crates/rekuiper-core/src/manager.rs\<close>): the catalogues of streams, tables and
  schemas, the rows of lookup tables, and the rules with their lifecycle. Every change goes to
  the store first and to memory only when the store has taken it; one lock per manager makes each
  operation a step. Serialisation of a definition is a parameter.
\<close>

datatype manager_error = AlreadyExists string | NotFound string | StoreFailed

subsection \<open>Catalogues\<close>

record ('d, 's) catalog =
  cg_defs :: "(string, 'd) fmap"
  cg_kv :: "'s option"

definition persist :: "'s kv_ops \<Rightarrow> string \<Rightarrow> string \<Rightarrow> string \<Rightarrow> 's option \<Rightarrow> bool \<times> 's option" where
  "persist K ns key val kv =
     (case kv of
        None \<Rightarrow> (True, None)
      | Some s \<Rightarrow> (case kv_set K ns key val s of (ok, s') \<Rightarrow> (ok, Some s')))"

definition unpersist :: "'s kv_ops \<Rightarrow> string \<Rightarrow> string \<Rightarrow> 's option \<Rightarrow> bool \<times> 's option" where
  "unpersist K ns key kv =
     (case kv of
        None \<Rightarrow> (True, None)
      | Some s \<Rightarrow> (case kv_delete K ns key s of (ok, s') \<Rightarrow> (ok, Some s')))"

definition store_def ::
  "'s kv_ops \<Rightarrow> string \<Rightarrow> ('d \<Rightarrow> string) \<Rightarrow> string \<Rightarrow> 'd \<Rightarrow> ('d, 's) catalog \<Rightarrow> manager_error option \<times> ('d, 's) catalog" where
  "store_def K ns enc name d c =
     (case persist K ns name (enc d) (cg_kv c) of
        (ok, kv) \<Rightarrow>
          if ok then (None, \<lparr>cg_defs = fmupd name d (cg_defs c), cg_kv = kv\<rparr>)
          else (Some StoreFailed, c\<lparr>cg_kv := kv\<rparr>))"

definition create_def ::
  "'s kv_ops \<Rightarrow> string \<Rightarrow> ('d \<Rightarrow> string) \<Rightarrow> string \<Rightarrow> 'd \<Rightarrow> ('d, 's) catalog \<Rightarrow> manager_error option \<times> ('d, 's) catalog" where
  "create_def K ns enc name d c =
     (if fmlookup (cg_defs c) name \<noteq> None then (Some (AlreadyExists name), c) else store_def K ns enc name d c)"

definition update_def ::
  "'s kv_ops \<Rightarrow> string \<Rightarrow> ('d \<Rightarrow> string) \<Rightarrow> string \<Rightarrow> 'd \<Rightarrow> ('d, 's) catalog \<Rightarrow> manager_error option \<times> ('d, 's) catalog" where
  "update_def K ns enc name d c =
     (if fmlookup (cg_defs c) name = None then (Some (NotFound name), c) else store_def K ns enc name d c)"

definition delete_def :: "'s kv_ops \<Rightarrow> string \<Rightarrow> string \<Rightarrow> ('d, 's) catalog \<Rightarrow> manager_error option \<times> ('d, 's) catalog" where
  "delete_def K ns name c =
     (if fmlookup (cg_defs c) name = None then (Some (NotFound name), c)
      else (case unpersist K ns name (cg_kv c) of
              (ok, kv) \<Rightarrow>
                if ok then (None, \<lparr>cg_defs = fmdrop name (cg_defs c), cg_kv = kv\<rparr>)
                else (Some StoreFailed, c\<lparr>cg_kv := kv\<rparr>)))"

text \<open>\<open>load_from_kv\<close>: an entry that does not decode is skipped; \<open>key_of\<close> says under which name the
  definition is filed.\<close>

definition load_entries ::
  "(string \<Rightarrow> 'd option) \<Rightarrow> (string \<Rightarrow> 'd \<Rightarrow> string) \<Rightarrow> (string \<times> string) list \<Rightarrow> (string, 'd) fmap \<Rightarrow> (string, 'd) fmap" where
  "load_entries dec key_of xs m =
     foldl (\<lambda>m (k, v). case dec v of Some d \<Rightarrow> fmupd (key_of k d) d m | None \<Rightarrow> m) m xs"

definition load_catalog ::
  "'s kv_ops \<Rightarrow> string \<Rightarrow> (string \<Rightarrow> 'd option) \<Rightarrow> (string \<Rightarrow> 'd \<Rightarrow> string) \<Rightarrow> 's \<Rightarrow> ('d, 's) catalog
     \<Rightarrow> manager_error option \<times> ('d, 's) catalog" where
  "load_catalog K ns dec key_of s c =
     (case kv_list K ns s of
        None \<Rightarrow> (Some StoreFailed, c)
      | Some xs \<Rightarrow> (None, c\<lparr>cg_defs := load_entries dec key_of xs (cg_defs c)\<rparr>))"

subsection \<open>Streams\<close>

record stream_field =
  sf_name :: string
  sf_type :: string
  sf_default :: "string option"

record stream_definition =
  sd_name :: string
  sd_sql :: string
  sd_fields :: "stream_field list"
  sd_options :: "(string, string) fmap"

definition create_stream :: "'s kv_ops \<Rightarrow> (stream_definition \<Rightarrow> string) \<Rightarrow> stream_definition \<Rightarrow> (stream_definition, 's) catalog
     \<Rightarrow> manager_error option \<times> (stream_definition, 's) catalog" where
  "create_stream K enc d c = create_def K ''streams'' enc (sd_name d) d c"

definition update_stream :: "'s kv_ops \<Rightarrow> (stream_definition \<Rightarrow> string) \<Rightarrow> stream_definition \<Rightarrow> (stream_definition, 's) catalog
     \<Rightarrow> manager_error option \<times> (stream_definition, 's) catalog" where
  "update_stream K enc d c = update_def K ''streams'' enc (sd_name d) d c"

definition delete_stream :: "'s kv_ops \<Rightarrow> string \<Rightarrow> (stream_definition, 's) catalog
     \<Rightarrow> manager_error option \<times> (stream_definition, 's) catalog" where
  "delete_stream K name c = delete_def K ''streams'' name c"

definition load_streams :: "'s kv_ops \<Rightarrow> (string \<Rightarrow> stream_definition option) \<Rightarrow> 's \<Rightarrow> (stream_definition, 's) catalog
     \<Rightarrow> manager_error option \<times> (stream_definition, 's) catalog" where
  "load_streams K dec s c = load_catalog K ''streams'' dec (\<lambda>k d. sd_name d) s c"

subsection \<open>Tables and their rows\<close>

record 's table_manager =
  tm_catalog :: "(stream_definition, 's) catalog"
  tm_rows :: "(string, row list) fmap"

definition create_table :: "'s kv_ops \<Rightarrow> (stream_definition \<Rightarrow> string) \<Rightarrow> stream_definition \<Rightarrow> 's table_manager
     \<Rightarrow> manager_error option \<times> 's table_manager" where
  "create_table K enc d m = (case create_def K ''tables'' enc (sd_name d) d (tm_catalog m) of (e, c) \<Rightarrow> (e, m\<lparr>tm_catalog := c\<rparr>))"

definition update_table :: "'s kv_ops \<Rightarrow> (stream_definition \<Rightarrow> string) \<Rightarrow> stream_definition \<Rightarrow> 's table_manager
     \<Rightarrow> manager_error option \<times> 's table_manager" where
  "update_table K enc d m = (case update_def K ''tables'' enc (sd_name d) d (tm_catalog m) of (e, c) \<Rightarrow> (e, m\<lparr>tm_catalog := c\<rparr>))"

definition delete_table :: "'s kv_ops \<Rightarrow> string \<Rightarrow> 's table_manager \<Rightarrow> manager_error option \<times> 's table_manager" where
  "delete_table K name m =
     (case delete_def K ''tables'' name (tm_catalog m) of
        (None, c) \<Rightarrow> (None, \<lparr>tm_catalog = c, tm_rows = fmdrop name (tm_rows m)\<rparr>)
      | (Some e, c) \<Rightarrow> (Some e, m\<lparr>tm_catalog := c\<rparr>))"

definition load_tables :: "'s kv_ops \<Rightarrow> (string \<Rightarrow> stream_definition option) \<Rightarrow> 's \<Rightarrow> 's table_manager
     \<Rightarrow> manager_error option \<times> 's table_manager" where
  "load_tables K dec s m =
     (case load_catalog K ''tables'' dec (\<lambda>k d. sd_name d) s (tm_catalog m) of (e, c) \<Rightarrow> (e, m\<lparr>tm_catalog := c\<rparr>))"

definition option_named :: "((string, string) fmap \<Rightarrow> (string \<times> string) list) \<Rightarrow> string list \<Rightarrow> stream_definition option \<Rightarrow> string option" where
  "option_named order names d =
     Option.bind d (\<lambda>d. map_option snd (find (\<lambda>(k, v). to_ascii_lowercase k \<in> set names) (order (sd_options d))))"

text \<open>A row replaces the first row with the same key; otherwise it is appended and the oldest rows
  beyond the size are pruned. Without a key and a size, 100 rows are kept.\<close>

definition upsert_row :: "string option \<Rightarrow> nat option \<Rightarrow> row \<Rightarrow> row list \<Rightarrow> row list" where
  "upsert_row key retain r rows =
     (let same = (\<lambda>r'. case Option.bind key (\<lambda>k. fmlookup r k) of
                    Some v \<Rightarrow> (case Option.bind key (\<lambda>k. fmlookup r' k) of Some v' \<Rightarrow> json_eq v' v | None \<Rightarrow> False)
                  | None \<Rightarrow> False);
          before = takeWhile (\<lambda>r'. \<not> same r') rows
      in case drop (length before) rows of
           _ # rest \<Rightarrow> before @ r # rest
         | [] \<Rightarrow>
             (let pushed = rows @ [r];
                  keep = (case retain of Some n \<Rightarrow> n | None \<Rightarrow> if key = None then 100 else length pushed)
              in drop (length pushed - keep) pushed))"

definition insert_table_row ::
  "((string, string) fmap \<Rightarrow> (string \<times> string) list) \<Rightarrow> string \<Rightarrow> row \<Rightarrow> 's table_manager \<Rightarrow> 's table_manager" where
  "insert_table_row order table r m =
     (let d = fmlookup (cg_defs (tm_catalog m)) table;
          key = option_named order [''key'', ''primary_key''] d;
          retain = map_option nat (Option.bind (option_named order [''retain_size''] d) parse_u64);
          rows = (case fmlookup (tm_rows m) table of Some rs \<Rightarrow> rs | None \<Rightarrow> [])
      in m\<lparr>tm_rows := fmupd table (upsert_row key retain r rows) (tm_rows m)\<rparr>)"

definition get_table_rows :: "string \<Rightarrow> 's table_manager \<Rightarrow> row list" where
  "get_table_rows table m = (case fmlookup (tm_rows m) table of Some rs \<Rightarrow> rs | None \<Rightarrow> [])"

subsection \<open>Schemas\<close>

record schema_definition =
  sch_name :: string
  sch_kind :: string
  sch_content :: "string option"
  sch_file :: "string option"

definition storage_key :: "string \<Rightarrow> string \<Rightarrow> string" where
  "storage_key kind name = kind @ ''/'' @ name"

definition register_schema :: "'s kv_ops \<Rightarrow> (schema_definition \<Rightarrow> string) \<Rightarrow> schema_definition \<Rightarrow> (schema_definition, 's) catalog
     \<Rightarrow> manager_error option \<times> (schema_definition, 's) catalog" where
  "register_schema K enc d c = store_def K ''schemas'' enc (storage_key (sch_kind d) (sch_name d)) d c"

definition get_schema :: "string \<Rightarrow> string \<Rightarrow> (schema_definition, 's) catalog \<Rightarrow> schema_definition option" where
  "get_schema kind name c = fmlookup (cg_defs c) (storage_key kind name)"

definition delete_schema :: "'s kv_ops \<Rightarrow> string \<Rightarrow> string \<Rightarrow> (schema_definition, 's) catalog
     \<Rightarrow> manager_error option \<times> (schema_definition, 's) catalog" where
  "delete_schema K kind name c = delete_def K ''schemas'' (storage_key kind name) c"

definition load_schemas :: "'s kv_ops \<Rightarrow> (string \<Rightarrow> schema_definition option) \<Rightarrow> 's \<Rightarrow> (schema_definition, 's) catalog
     \<Rightarrow> manager_error option \<times> (schema_definition, 's) catalog" where
  "load_schemas K dec s c = load_catalog K ''schemas'' dec (\<lambda>k d. k) s c"

end
