(* ===== verification/RuleManager.thy ===== *)
theory RuleManager
  imports Managers
begin

text \<open>
  The rule manager (\<open>RuleManager\<close> of \<open>crates/rekuiper-core/src/manager.rs\<close>): the catalogue of rules
  with the status, the task, the counters and the dead-letter buffer of each. A lifecycle
  operation first writes the definition and the new status to the store and then changes memory;
  a write that fails ends it. Tasks are numbers, and the tasks an operation aborts are appended
  to a log. The clock is an argument, serialisation of a definition with its status a parameter.
\<close>

subsection \<open>Definitions and status\<close>

record graph_node =
  gn_category :: string
  gn_type :: string
  gn_props :: row

record graph_topo =
  gt_sources :: "string list"
  gt_edges :: "(string, string list) fmap"

record graph_definition =
  gd_nodes :: "(string, graph_node) fmap"
  gd_topo :: graph_topo

record rule_definition =
  rd_id :: string
  rd_name :: "string option"
  rd_version :: "string option"
  rd_sql :: string
  rd_actions :: "row list"
  rd_options :: "row option"
  rd_graph :: "graph_definition option"
  rd_tags :: "string list"

record rule_status =
  rs_status :: string
  rs_message :: string
  rs_last_exception :: string
  rs_last_start :: int
  rs_last_stop :: int
  rs_next_start :: int
  rs_source_in :: u64
  rs_sink_out :: u64
  rs_exceptions :: u64
  rs_filtered :: u64
  rs_enqueued :: u64
  rs_sink_failed :: u64
  rs_dropped :: u64
  rs_high_water :: nat
  rs_blocked_micros :: u64
  rs_dlq_records :: u64

definition RUNNING :: string where "RUNNING = ''running''"

definition STOPPED :: string where "STOPPED = ''stopped''"

definition status_default :: "int \<Rightarrow> rule_status" where
  "status_default now =
     \<lparr>rs_status = RUNNING, rs_message = [], rs_last_exception = [], rs_last_start = now, rs_last_stop = 0,
      rs_next_start = 0, rs_source_in = 0, rs_sink_out = 0, rs_exceptions = 0, rs_filtered = 0,
      rs_enqueued = 0, rs_sink_failed = 0, rs_dropped = 0, rs_high_water = 0, rs_blocked_micros = 0,
      rs_dlq_records = 0\<rparr>"

definition sync_to :: "counters \<Rightarrow> rule_status \<Rightarrow> rule_status" where
  "sync_to c st =
     (let st1 = st\<lparr>rs_source_in := ct_source_in c, rs_sink_out := ct_sink_out c, rs_exceptions := ct_exceptions c\<rparr>;
          exc = ct_last_exception c;
          st2 = (if exc \<noteq> [] then st1\<lparr>rs_last_exception := exc, rs_message := exc\<rparr> else st1)
      in st2\<lparr>rs_filtered := ct_filtered c, rs_enqueued := ct_enqueued c, rs_sink_failed := ct_sink_failed c,
             rs_dropped := ct_dropped c, rs_high_water := unat (ct_high_water c),
             rs_blocked_micros := ct_blocked_micros c, rs_dlq_records := ct_dlq_records c\<rparr>)"

record active_rule =
  ar_def :: rule_definition
  ar_status :: rule_status
  ar_handle :: "nat option"
  ar_counters :: counters
  ar_dlq :: "dlq_envelope list"
  ar_dlq_capacity :: nat

definition extract_dlq_capacity :: "rule_definition \<Rightarrow> nat" where
  "extract_dlq_capacity d =
     (let v = Option.bind (Option.bind (rd_options d) (\<lambda>o'. fmlookup o' ''dlq''))
                (\<lambda>j. case j of
                       Obj m \<Rightarrow> or_else (fmlookup m ''buffer_capacity'')
                                 (or_else (fmlookup m ''bufferCapacity'')
                                   (or_else (fmlookup m ''buffer_size'') (fmlookup m ''capacity'')))
                     | _ \<Rightarrow> None)
      in case Option.bind v as_u64 of Some n \<Rightarrow> nat n | None \<Rightarrow> 100)"

definition fresh_rule :: "int \<Rightarrow> string \<Rightarrow> rule_definition \<Rightarrow> active_rule" where
  "fresh_rule now status d =
     \<lparr>ar_def = d, ar_status = (status_default now)\<lparr>rs_status := status\<rparr>, ar_handle = None,
      ar_counters = counters_init, ar_dlq = [], ar_dlq_capacity = extract_dlq_capacity d\<rparr>"

subsection \<open>The manager\<close>

record 's rule_manager =
  rm_rules :: "(string, active_rule) fmap"
  rm_kv :: "'s option"
  rm_aborted :: "nat list"

type_synonym rule_enc = "rule_definition \<Rightarrow> string \<Rightarrow> string"

type_synonym rule_dec = "string \<Rightarrow> (rule_definition \<times> string) option"

definition rule_manager_new :: "'s option \<Rightarrow> 's rule_manager" where
  "rule_manager_new kv = \<lparr>rm_rules = fmempty, rm_kv = kv, rm_aborted = []\<rparr>"

definition persist_rule :: "'s kv_ops \<Rightarrow> rule_enc \<Rightarrow> string \<Rightarrow> rule_definition \<Rightarrow> string \<Rightarrow> 's rule_manager \<Rightarrow> bool \<times> 's rule_manager" where
  "persist_rule K enc i d status m =
     (case persist K ''rules'' i (enc d status) (rm_kv m) of (ok, kv) \<Rightarrow> (ok, m\<lparr>rm_kv := kv\<rparr>))"

definition unpersist_rule :: "'s kv_ops \<Rightarrow> string \<Rightarrow> 's rule_manager \<Rightarrow> bool \<times> 's rule_manager" where
  "unpersist_rule K i m =
     (case unpersist K ''rules'' i (rm_kv m) of (ok, kv) \<Rightarrow> (ok, m\<lparr>rm_kv := kv\<rparr>))"

definition save_rule_checkpoint :: "'s kv_ops \<Rightarrow> string \<Rightarrow> string \<Rightarrow> 's rule_manager \<Rightarrow> bool \<times> 's rule_manager" where
  "save_rule_checkpoint K i val m =
     (case persist K ''rule_checkpoints'' i val (rm_kv m) of (ok, kv) \<Rightarrow> (ok, m\<lparr>rm_kv := kv\<rparr>))"

definition load_rule_checkpoint :: "'s kv_ops \<Rightarrow> string \<Rightarrow> 's rule_manager \<Rightarrow> string option" where
  "load_rule_checkpoint K i m =
     Option.bind (rm_kv m) (\<lambda>s. case kv_get K ''rule_checkpoints'' i s of Some r \<Rightarrow> r | None \<Rightarrow> None)"

definition delete_rule_checkpoint :: "'s kv_ops \<Rightarrow> string \<Rightarrow> 's rule_manager \<Rightarrow> bool \<times> 's rule_manager" where
  "delete_rule_checkpoint K i m =
     (case unpersist K ''rule_checkpoints'' i (rm_kv m) of (ok, kv) \<Rightarrow> (ok, m\<lparr>rm_kv := kv\<rparr>))"

definition create_rule :: "'s kv_ops \<Rightarrow> rule_enc \<Rightarrow> int \<Rightarrow> rule_definition \<Rightarrow> 's rule_manager \<Rightarrow> manager_error option \<times> 's rule_manager" where
  "create_rule K enc now d m =
     (if fmlookup (rm_rules m) (rd_id d) \<noteq> None then (Some (AlreadyExists (rd_id d)), m)
      else (case persist_rule K enc (rd_id d) d RUNNING m of
              (ok, m1) \<Rightarrow>
                if \<not> ok then (Some StoreFailed, m1)
                else (None, m1\<lparr>rm_rules := fmupd (rd_id d) (fresh_rule now RUNNING d) (rm_rules m1)\<rparr>)))"

definition get_rule :: "string \<Rightarrow> 's rule_manager \<Rightarrow> rule_definition option" where
  "get_rule i m = map_option ar_def (fmlookup (rm_rules m) i)"

text \<open>\<open>handle.take()\<close> followed by \<open>abort()\<close>.\<close>

definition abort_task :: "active_rule \<Rightarrow> active_rule \<times> nat list" where
  "abort_task r = (case ar_handle r of Some h \<Rightarrow> (r\<lparr>ar_handle := None\<rparr>, [h]) | None \<Rightarrow> (r, []))"

definition put_rule :: "string \<Rightarrow> active_rule \<times> nat list \<Rightarrow> 's rule_manager \<Rightarrow> 's rule_manager" where
  "put_rule i rk m = m\<lparr>rm_rules := fmupd i (fst rk) (rm_rules m), rm_aborted := rm_aborted m @ snd rk\<rparr>"

text \<open>The shape the lifecycle operations share: look the rule up, write the definition and the
  status of its next life, then change the rule in memory.\<close>

definition with_rule ::
  "'s kv_ops \<Rightarrow> rule_enc \<Rightarrow> string \<Rightarrow> (active_rule \<Rightarrow> rule_definition \<times> string)
     \<Rightarrow> (active_rule \<Rightarrow> active_rule \<times> nat list) \<Rightarrow> 's rule_manager \<Rightarrow> manager_error option \<times> 's rule_manager" where
  "with_rule K enc i to_store change m =
     (case fmlookup (rm_rules m) i of
        None \<Rightarrow> (Some (NotFound i), m)
      | Some r \<Rightarrow>
          (case to_store r of
             (d, status) \<Rightarrow>
               (case persist_rule K enc i d status m of
                  (ok, m1) \<Rightarrow> if ok then (None, put_rule i (change r) m1) else (Some StoreFailed, m1))))"

definition was_running :: "active_rule \<Rightarrow> bool" where
  "was_running r \<longleftrightarrow> rs_status (ar_status r) = RUNNING"

definition update_rule :: "'s kv_ops \<Rightarrow> rule_enc \<Rightarrow> rule_definition \<Rightarrow> 's rule_manager \<Rightarrow> manager_error option \<times> 's rule_manager" where
  "update_rule K enc d m =
     with_rule K enc (rd_id d) (\<lambda>r. (d, if was_running r then RUNNING else STOPPED))
       (\<lambda>r. let r1 = r\<lparr>ar_def := d\<rparr> in if was_running r then abort_task r1 else (r1, [])) m"

definition retag :: "(string list \<Rightarrow> string list) \<Rightarrow> rule_definition \<Rightarrow> rule_definition" where
  "retag f d = d\<lparr>rd_tags := remdups_adj (sort (f (rd_tags d)))\<rparr>"

definition update_rule_tags ::
  "'s kv_ops \<Rightarrow> rule_enc \<Rightarrow> string \<Rightarrow> (string list \<Rightarrow> string list) \<Rightarrow> 's rule_manager \<Rightarrow> manager_error option \<times> 's rule_manager" where
  "update_rule_tags K enc i f m =
     with_rule K enc i (\<lambda>r. (retag f (ar_def r), rs_status (ar_status r)))
       (\<lambda>r. (r\<lparr>ar_def := retag f (ar_def r)\<rparr>, [])) m"

definition start_rule :: "'s kv_ops \<Rightarrow> rule_enc \<Rightarrow> int \<Rightarrow> string \<Rightarrow> 's rule_manager \<Rightarrow> manager_error option \<times> 's rule_manager" where
  "start_rule K enc now i m =
     with_rule K enc i (\<lambda>r. (ar_def r, RUNNING))
       (\<lambda>r. (r\<lparr>ar_status := (ar_status r)\<lparr>rs_status := RUNNING, rs_last_start := now, rs_message := []\<rparr>\<rparr>, [])) m"

definition stop_status :: "int \<Rightarrow> string \<Rightarrow> active_rule \<Rightarrow> active_rule" where
  "stop_status now msg r = r\<lparr>ar_status := (ar_status r)\<lparr>rs_status := STOPPED, rs_last_stop := now, rs_message := msg\<rparr>\<rparr>"

definition stop_rule :: "'s kv_ops \<Rightarrow> rule_enc \<Rightarrow> int \<Rightarrow> string \<Rightarrow> 's rule_manager \<Rightarrow> manager_error option \<times> 's rule_manager" where
  "stop_rule K enc now i m =
     with_rule K enc i (\<lambda>r. (ar_def r, STOPPED))
       (\<lambda>r. case abort_task r of (r1, hs) \<Rightarrow> (stop_status now ''canceled manually'' r1, hs)) m"

definition restart_rule :: "'s kv_ops \<Rightarrow> rule_enc \<Rightarrow> int \<Rightarrow> string \<Rightarrow> 's rule_manager \<Rightarrow> manager_error option \<times> 's rule_manager" where
  "restart_rule K enc now i m =
     with_rule K enc i (\<lambda>r. (ar_def r, RUNNING))
       (\<lambda>r. case abort_task r of
              (r1, hs) \<Rightarrow> (r1\<lparr>ar_status := (ar_status r1)\<lparr>rs_status := RUNNING, rs_last_start := now, rs_message := []\<rparr>\<rparr>, hs)) m"

definition halt_rule_with_error :: "'s kv_ops \<Rightarrow> rule_enc \<Rightarrow> int \<Rightarrow> string \<Rightarrow> string \<Rightarrow> 's rule_manager \<Rightarrow> manager_error option \<times> 's rule_manager" where
  "halt_rule_with_error K enc now i err m =
     with_rule K enc i (\<lambda>r. (ar_def r, STOPPED))
       (\<lambda>r. case abort_task r of
              (r1, hs) \<Rightarrow>
                (let r2 = stop_status now (''halted on error: '' @ err) (r1\<lparr>ar_counters := record_exception err (ar_counters r1)\<rparr>)
                 in (r2\<lparr>ar_status := (ar_status r2)\<lparr>rs_last_exception := err\<rparr>\<rparr>, hs))) m"

definition delete_rule :: "'s kv_ops \<Rightarrow> string \<Rightarrow> 's rule_manager \<Rightarrow> manager_error option \<times> 's rule_manager" where
  "delete_rule K i m =
     (case fmlookup (rm_rules m) i of
        None \<Rightarrow> (Some (NotFound i), m)
      | Some r \<Rightarrow>
          (case unpersist_rule K i m of
             (ok, m1) \<Rightarrow>
               if \<not> ok then (Some StoreFailed, m1)
               else (case delete_rule_checkpoint K i m1 of
                       (_, m2) \<Rightarrow>
                         (None, m2\<lparr>rm_rules := fmdrop i (rm_rules m2),
                                    rm_aborted := rm_aborted m2 @ snd (abort_task r)\<rparr>))))"

text \<open>A task is kept only while its rule runs; the task it replaces is aborted.\<close>

definition set_rule_handle :: "string \<Rightarrow> nat \<Rightarrow> 's rule_manager \<Rightarrow> 's rule_manager" where
  "set_rule_handle i h m =
     (case fmlookup (rm_rules m) i of
        None \<Rightarrow> m\<lparr>rm_aborted := rm_aborted m @ [h]\<rparr>
      | Some r \<Rightarrow>
          if rs_status (ar_status r) \<noteq> RUNNING then put_rule i (r\<lparr>ar_handle := None\<rparr>, [h]) m
          else put_rule i (r\<lparr>ar_handle := Some h\<rparr>, case ar_handle r of Some old \<Rightarrow> [old] | None \<Rightarrow> []) m)"

subsection \<open>Status, metrics and dead letters\<close>

definition on_rule :: "string \<Rightarrow> (active_rule \<Rightarrow> active_rule) \<Rightarrow> 's rule_manager \<Rightarrow> 's rule_manager" where
  "on_rule i f m =
     (case fmlookup (rm_rules m) i of None \<Rightarrow> m | Some r \<Rightarrow> m\<lparr>rm_rules := fmupd i (f r) (rm_rules m)\<rparr>)"

definition sync_status :: "active_rule \<Rightarrow> active_rule" where
  "sync_status r = r\<lparr>ar_status := sync_to (ar_counters r) (ar_status r)\<rparr>"

definition get_rule_status :: "string \<Rightarrow> 's rule_manager \<Rightarrow> rule_status option \<times> 's rule_manager" where
  "get_rule_status i m =
     (let m1 = on_rule i sync_status m in (map_option ar_status (fmlookup (rm_rules m1) i), m1))"

definition reset_rule_metrics :: "string \<Rightarrow> 's rule_manager \<Rightarrow> manager_error option \<times> 's rule_manager" where
  "reset_rule_metrics i m =
     (if fmlookup (rm_rules m) i = None then (Some (NotFound i), m)
      else (None, on_rule i (\<lambda>r. sync_status (r\<lparr>ar_counters := reset_counters (ar_counters r)\<rparr>)) m))"

definition clear_rule_dlq :: "string \<Rightarrow> 's rule_manager \<Rightarrow> nat option \<times> 's rule_manager" where
  "clear_rule_dlq i m =
     (map_option (\<lambda>r. length (ar_dlq r)) (fmlookup (rm_rules m) i), on_rule i (\<lambda>r. r\<lparr>ar_dlq := []\<rparr>) m)"

definition get_rule_dlq :: "string \<Rightarrow> 's rule_manager \<Rightarrow> dlq_envelope list option" where
  "get_rule_dlq i m = map_option ar_dlq (fmlookup (rm_rules m) i)"

record dlq_stats =
  ds_rule_id :: string
  ds_total :: u64
  ds_codec_decode :: u64
  ds_schema_validation :: u64
  ds_sql_eval :: u64
  ds_data_template :: u64
  ds_sink_delivery :: u64
  ds_sink_failures :: u64
  ds_recent :: "dlq_envelope list"

definition get_rule_dlq_stats :: "string \<Rightarrow> 's rule_manager \<Rightarrow> dlq_stats option" where
  "get_rule_dlq_stats i m =
     map_option (\<lambda>r. let c = ar_counters r; stg = (\<lambda>s. ct_dlq_stages c ! stage_index s) in
       \<lparr>ds_rule_id = i, ds_total = ct_dlq_records c, ds_codec_decode = stg CodecDecode,
        ds_schema_validation = stg SchemaValidation, ds_sql_eval = stg SqlEval,
        ds_data_template = stg DataTemplate, ds_sink_delivery = stg SinkDelivery,
        ds_sink_failures = ct_dlq_sink_failures c, ds_recent = ar_dlq r\<rparr>) (fmlookup (rm_rules m) i)"

text \<open>The engine's only write to a status behind the manager's back
  (\<open>crates/rekuiper-server/src/engine/mod.rs\<close>): a video source whose configuration is refused.\<close>

definition source_refused :: "string \<Rightarrow> string \<Rightarrow> 's rule_manager \<Rightarrow> 's rule_manager" where
  "source_refused i err m =
     on_rule i (\<lambda>r. r\<lparr>ar_status := (ar_status r)\<lparr>rs_status := ''error'',
       rs_message := ''Video source validation error: '' @ err, rs_last_exception := err\<rparr>\<rparr>) m"

subsection \<open>Restart\<close>

definition load_rule :: "rule_dec \<Rightarrow> int \<Rightarrow> 's rule_manager \<Rightarrow> string \<times> string \<Rightarrow> 's rule_manager" where
  "load_rule dec now m kv =
     (case dec (snd kv) of
        None \<Rightarrow> m
      | Some (d, status) \<Rightarrow>
          m\<lparr>rm_rules := fmupd (rd_id d) (fresh_rule now (if status = RUNNING then RUNNING else STOPPED) d) (rm_rules m)\<rparr>)"

definition load_rules :: "'s kv_ops \<Rightarrow> rule_dec \<Rightarrow> int \<Rightarrow> 's \<Rightarrow> 's rule_manager \<Rightarrow> manager_error option \<times> 's rule_manager" where
  "load_rules K dec now s m =
     (case kv_list K ''rules'' s of
        None \<Rightarrow> (Some StoreFailed, m)
      | Some xs \<Rightarrow> (None, foldl (load_rule dec now) m xs))"

subsection \<open>Sequences of operations\<close>

datatype rule_op =
    CreateRule rule_definition
  | UpdateRule rule_definition
  | UpdateTags string "string list \<Rightarrow> string list"
  | StartRule string
  | StopRule string
  | RestartRule string
  | HaltOnError string string
  | DeleteRule string
  | SetHandle string nat
  | SaveCheckpoint string string
  | DeleteCheckpoint string
  | Counted string "counters \<Rightarrow> counters"
  | DeadLettered string nat dlq_envelope
  | GetStatus string
  | ResetMetrics string
  | ClearDlq string
  | SourceRefused string string

text \<open>One operation at the time \<open>now\<close>. The rule's own tasks bump its counters and push to its
  dead-letter buffer through shared handles.\<close>

fun rule_step :: "'s kv_ops \<Rightarrow> rule_enc \<Rightarrow> int \<Rightarrow> rule_op \<Rightarrow> 's rule_manager \<Rightarrow> 's rule_manager" where
  "rule_step K enc now (CreateRule d) m = snd (create_rule K enc now d m)"
| "rule_step K enc now (UpdateRule d) m = snd (update_rule K enc d m)"
| "rule_step K enc now (UpdateTags i f) m = snd (update_rule_tags K enc i f m)"
| "rule_step K enc now (StartRule i) m = snd (start_rule K enc now i m)"
| "rule_step K enc now (StopRule i) m = snd (stop_rule K enc now i m)"
| "rule_step K enc now (RestartRule i) m = snd (restart_rule K enc now i m)"
| "rule_step K enc now (HaltOnError i err) m = snd (halt_rule_with_error K enc now i err m)"
| "rule_step K enc now (DeleteRule i) m = snd (delete_rule K i m)"
| "rule_step K enc now (SetHandle i h) m = set_rule_handle i h m"
| "rule_step K enc now (SaveCheckpoint i v) m = snd (save_rule_checkpoint K i v m)"
| "rule_step K enc now (DeleteCheckpoint i) m = snd (delete_rule_checkpoint K i m)"
| "rule_step K enc now (Counted i f) m = on_rule i (\<lambda>r. r\<lparr>ar_counters := f (ar_counters r)\<rparr>) m"
| "rule_step K enc now (DeadLettered i cap e) m = on_rule i (\<lambda>r. r\<lparr>ar_dlq := ring_push cap e (ar_dlq r)\<rparr>) m"
| "rule_step K enc now (GetStatus i) m = snd (get_rule_status i m)"
| "rule_step K enc now (ResetMetrics i) m = snd (reset_rule_metrics i m)"
| "rule_step K enc now (ClearDlq i) m = snd (clear_rule_dlq i m)"
| "rule_step K enc now (SourceRefused i err) m = source_refused i err m"

fun rule_steps :: "'s kv_ops \<Rightarrow> rule_enc \<Rightarrow> (int \<times> rule_op) list \<Rightarrow> 's rule_manager \<Rightarrow> 's rule_manager" where
  "rule_steps K enc [] m = m"
| "rule_steps K enc ((now, x) # xs) m = rule_steps K enc xs (rule_step K enc now x m)"

end
