(* ===== verification/Persistence.thy ===== *)
theory Persistence
  imports RuleManager
begin

text \<open>
  What the managers keep in the store. The locale \<open>codec_store\<close> adds to a store a codec that reads
  back what it wrote, for a set of values; in it, a catalogue that mirrors a namespace stays a
  mirror under writes that succeed and under writes that fail, and loading the namespace gives the
  catalogue back. The streams and the rules use it, the rules with the status as part of the value.
\<close>

subsection \<open>A store with a codec\<close>

definition mirrors :: "('s \<Rightarrow> string \<Rightarrow> string \<Rightarrow> string option) \<Rightarrow> ('d \<Rightarrow> string) \<Rightarrow> 'd set \<Rightarrow> (string \<Rightarrow> 'd \<Rightarrow> bool)
     \<Rightarrow> string \<Rightarrow> (string \<rightharpoonup> 'd) \<Rightarrow> 's \<Rightarrow> bool" where
  "mirrors view enc D ok ns m s \<longleftrightarrow>
     view s ns = (\<lambda>k. map_option enc (m k)) \<and> (\<forall>k d. m k = Some d \<longrightarrow> d \<in> D \<and> ok k d)"

lemma fmlookup_upd_drop: "fmlookup (fmupd k d m) = (fmlookup m)(k \<mapsto> d)" "fmlookup (fmdrop k m) = (fmlookup m)(k := None)"
  by (auto simp: fun_eq_iff)

lemma fold_decoded:
  assumes "distinct (map fst xs)" "\<And>k v. (k, v) \<in> set xs \<Longrightarrow> \<exists>d. dec v = Some d \<and> key k d = k"
  shows "fmlookup (foldl (\<lambda>m (k, v). case dec v of Some d \<Rightarrow> fmupd (key k d) (g d) m | None \<Rightarrow> m) m0 xs) k
    = (case map_of xs k of Some v \<Rightarrow> map_option g (dec v) | None \<Rightarrow> fmlookup m0 k)"
  using assms
proof (induction xs arbitrary: m0)
  case (Cons x xs)
  obtain k' v where x: "x = (k', v)" by (cases x)
  then obtain d where d: "dec v = Some d" "key k' d = k'" using Cons.prems(2) by auto
  have "fmlookup (foldl (\<lambda>m (k, v). case dec v of Some d \<Rightarrow> fmupd (key k d) (g d) m | None \<Rightarrow> m) (fmupd k' (g d) m0) xs) k
      = (case map_of xs k of Some v \<Rightarrow> map_option g (dec v) | None \<Rightarrow> fmlookup (fmupd k' (g d) m0) k)"
    using Cons.prems by (intro Cons.IH) auto
  moreover have "map_of xs k' = None" using Cons.prems(1) x by (simp add: map_of_eq_None_iff)
  ultimately show ?case using x d by (auto split: option.splits)
qed simp

locale codec_store = kv_store K view
  for K :: "'s kv_ops" and view :: "'s \<Rightarrow> string \<Rightarrow> string \<Rightarrow> string option" +
  fixes enc :: "'d \<Rightarrow> string" and dec :: "string \<Rightarrow> 'd option" and D :: "'d set"
  assumes codec: "d \<in> D \<Longrightarrow> dec (enc d) = Some d"
begin

lemma mirrors_persist:
  assumes "mirrors view enc D ok ns m s" "persist K ns k (enc d) (Some s) = (b, kv)" "d \<in> D" "ok k d"
  shows "\<exists>s'. kv = Some s' \<and> (mirrors view enc D ok ns (if b then m(k \<mapsto> d) else m) s')"
proof -
  obtain b' s' where w: "kv_set K ns k (enc d) s = (b', s')" by (metis surj_pair)
  then have "b' = b" "kv = Some s'" using assms(2) by (simp_all add: persist_def)
  then show ?thesis using set_view[OF w] assms(1,3,4) by (auto simp: mirrors_def fun_eq_iff)
qed

lemma mirrors_unpersist:
  assumes "mirrors view enc D ok ns m s" "unpersist K ns k (Some s) = (b, kv)"
  shows "\<exists>s'. kv = Some s' \<and> (mirrors view enc D ok ns (if b then m(k := None) else m) s')"
proof -
  obtain b' s' where w: "kv_delete K ns k s = (b', s')" by (metis surj_pair)
  then have "b' = b" "kv = Some s'" using assms(2) by (simp_all add: unpersist_def)
  then show ?thesis using delete_view[OF w] assms(1) by (auto simp: mirrors_def fun_eq_iff)
qed

text \<open>Another namespace does not matter.\<close>

lemma mirrors_elsewhere:
  assumes "mirrors view enc D ok ns m s" "ns' \<noteq> ns"
  shows "persist K ns' k v (Some s) = (b, kv) \<Longrightarrow> \<exists>s'. kv = Some s' \<and> mirrors view enc D ok ns m s'"
    and "unpersist K ns' k (Some s) = (b, kv) \<Longrightarrow> \<exists>s'. kv = Some s' \<and> mirrors view enc D ok ns m s'"
  using assms set_view[of ns' k v s] delete_view[of ns' k s]
  by (force simp: mirrors_def persist_def unpersist_def split: prod.splits if_splits)+

lemma mirrors_load:
  assumes "mirrors view enc D ok ns m s" "kv_list K ns s = Some xs" "\<And>k d. ok k d \<Longrightarrow> key k d = k"
  shows "fmlookup (foldl (\<lambda>m (k, v). case dec v of Some d \<Rightarrow> fmupd (key k d) (g d) m | None \<Rightarrow> m) fmempty xs) k
    = map_option g (m k)"
proof -
  have xs: "map_of xs = (\<lambda>k. map_option enc (m k))" "distinct (map fst xs)"
    using list_view[OF assms(2)] assms(1) by (auto simp: mirrors_def)
  have "\<exists>d. dec v = Some d \<and> key k d = k" if "(k, v) \<in> set xs" for k v
  proof -
    have "map_of xs k = Some v" using that xs(2) by simp
    then obtain d where "m k = Some d" "v = enc d" using xs(1) by auto
    then show ?thesis using assms(1,3) codec by (auto simp: mirrors_def)
  qed
  note fd = fold_decoded[OF xs(2) this]
  show ?thesis using assms(1) codec by (subst fd) (auto simp: xs(1) mirrors_def split: option.splits)
qed

subsection \<open>Catalogues\<close>

definition catalog_inv :: "(string \<Rightarrow> 'd \<Rightarrow> bool) \<Rightarrow> string \<Rightarrow> ('d, 's) catalog \<Rightarrow> bool" where
  "catalog_inv ok ns c \<longleftrightarrow> (\<exists>s. cg_kv c = Some s \<and> mirrors view enc D ok ns (fmlookup (cg_defs c)) s)"

lemma store_def_inv:
  assumes "catalog_inv ok ns c" "d \<in> D" "ok k d"
  shows "catalog_inv ok ns (snd (store_def K ns enc k d c))"
proof -
  obtain s where s: "cg_kv c = Some s" "mirrors view enc D ok ns (fmlookup (cg_defs c)) s"
    using assms(1) by (auto simp: catalog_inv_def)
  obtain b kv where p: "persist K ns k (enc d) (Some s) = (b, kv)" by (metis surj_pair)
  show ?thesis using mirrors_persist[OF s(2) p assms(2,3)] s(1) p
    by (auto simp: catalog_inv_def store_def_def fmlookup_upd_drop split: if_splits)
qed

lemma create_update_inv:
  assumes "catalog_inv ok ns c" "d \<in> D" "ok k d"
  shows "catalog_inv ok ns (snd (create_def K ns enc k d c))" "catalog_inv ok ns (snd (update_def K ns enc k d c))"
  using assms store_def_inv[OF assms] by (simp_all add: create_def_def update_def_def)

lemma delete_inv:
  assumes "catalog_inv ok ns c"
  shows "catalog_inv ok ns (snd (delete_def K ns k c))"
proof -
  obtain s where s: "cg_kv c = Some s" "mirrors view enc D ok ns (fmlookup (cg_defs c)) s"
    using assms by (auto simp: catalog_inv_def)
  obtain b kv where p: "unpersist K ns k (Some s) = (b, kv)" by (metis surj_pair)
  show ?thesis using mirrors_unpersist[OF s(2) p] s p
    by (auto simp: catalog_inv_def delete_def_def fmlookup_upd_drop split: if_splits)
qed

lemma catalog_reload:
  assumes "catalog_inv ok ns c" "cg_kv c = Some s" "load_catalog K ns dec key s \<lparr>cg_defs = fmempty, cg_kv = Some s\<rparr> = (None, c')"
    "\<And>k d. ok k d \<Longrightarrow> key k d = k"
  shows "c' = c"
proof -
  obtain xs where xs: "kv_list K ns s = Some xs" "c' = \<lparr>cg_defs = load_entries dec key xs fmempty, cg_kv = Some s\<rparr>"
    using assms(3) by (auto simp: load_catalog_def split: option.splits)
  have "fmlookup (load_entries dec key xs fmempty) k = fmlookup (cg_defs c) k" for k
    using mirrors_load[OF _ xs(1) assms(4), where m = "fmlookup (cg_defs c)" and ok = ok and g = "\<lambda>d. d" and k = k] assms(1,2)
    by (auto simp: load_entries_def catalog_inv_def option.map_ident)
  then have "load_entries dec key xs fmempty = cg_defs c" by (intro fmap_ext) simp
  then show ?thesis using xs(2) assms(2) by (cases c) simp
qed

end

end
