(* ===== verification/Manager_Props.thy ===== *)
theory Manager_Props
  imports Persistence
begin

text \<open>
  Theorems on the managers: what memory holds is what the store holds after any sequence of
  operations, whichever of the writes fail, so that a restart resumes the rules that were running
  with the definitions they had; and a rule has at most one live task.
\<close>

subsection \<open>The shape of a lifecycle operation\<close>

lemma with_rule_cases:
  obtains (same) kv where "snd (with_rule K enc i st ch m) = m\<lparr>rm_kv := kv\<rparr>"
      "fst (with_rule K enc i st ch m) \<noteq> None" "\<forall>r. fmlookup (rm_rules m) i = Some r \<longrightarrow>
        persist K ''rules'' i (enc (fst (st r)) (snd (st r))) (rm_kv m) = (False, kv)"
      "fmlookup (rm_rules m) i = None \<longrightarrow> kv = rm_kv m"
  | (put) r kv where "fmlookup (rm_rules m) i = Some r" "fst (with_rule K enc i st ch m) = None"
      "snd (with_rule K enc i st ch m) = put_rule i (ch r) (m\<lparr>rm_kv := kv\<rparr>)"
      "persist K ''rules'' i (enc (fst (st r)) (snd (st r))) (rm_kv m) = (True, kv)"
proof (cases "fmlookup (rm_rules m) i")
  case None
  then show thesis by (intro same[of "rm_kv m"]) (simp_all add: with_rule_def)
next
  case (Some r)
  obtain b kv where p: "persist K ''rules'' i (enc (fst (st r)) (snd (st r))) (rm_kv m) = (b, kv)"
    by (metis surj_pair)
  then show thesis using Some same[of kv] put[of r kv]
    by (cases b) (simp_all add: with_rule_def persist_rule_def split_beta)
qed

lemmas lifecycle_defs = update_rule_def update_rule_tags_def start_rule_def stop_rule_def restart_rule_def halt_rule_with_error_def

subsection \<open>Tasks\<close>

definition task_of :: "'s rule_manager \<Rightarrow> string \<Rightarrow> nat option" where
  "task_of m i = Option.bind (fmlookup (rm_rules m) i) ar_handle"

definition stopped_idle :: "active_rule \<Rightarrow> bool" where
  "stopped_idle r \<longleftrightarrow> (rs_status (ar_status r) \<noteq> RUNNING \<longrightarrow> ar_handle r = None)"

definition task_inv :: "nat set \<Rightarrow> 's rule_manager \<Rightarrow> bool" where
  "task_inv T m \<longleftrightarrow>
     set (rm_aborted m) \<union> ran (task_of m) = T \<and> set (rm_aborted m) \<inter> ran (task_of m) = {} \<and>
     (\<forall>i j h. task_of m i = Some h \<longrightarrow> task_of m j = Some h \<longrightarrow> i = j) \<and>
     (\<forall>r\<in>fmran' (rm_rules m). stopped_idle r)"

lemma task_inv_quiet:
  assumes "task_inv T m" "task_of m' = task_of m" "rm_aborted m' = rm_aborted m" "\<forall>r\<in>fmran' (rm_rules m'). stopped_idle r"
  shows "task_inv T m'"
  using assms by (simp add: task_inv_def)

lemma ran_fun_upd_inj:
  assumes "\<forall>i j h. f i = Some h \<longrightarrow> f j = Some h \<longrightarrow> i = j"
  shows "ran (f(i := x)) = (ran f - set_option (f i)) \<union> set_option x"
  using assms by (cases "f i"; cases x) (force simp: ran_def split: if_splits)+

text \<open>A rule gives up its task, which is aborted, or takes a fresh one for it.\<close>

lemma task_inv_change:
  assumes "task_inv T m" "task_of m' = (task_of m)(i := h)" "set_option h \<inter> T = {} \<or> h = task_of m i"
    "rm_aborted m' = rm_aborted m @ (if h = task_of m i then [] else case task_of m i of Some old \<Rightarrow> [old] | None \<Rightarrow> [])"
    "\<forall>r\<in>fmran' (rm_rules m'). stopped_idle r"
  shows "task_inv (T \<union> set_option h) m'"
proof (cases "h = task_of m i")
  case True
  then have "T \<union> set_option h = T" using assms(1) by (auto simp: task_inv_def ran_def)
  then show ?thesis using True assms by (simp add: task_inv_def)
next
  case False
  have inj: "\<forall>i j h. task_of m i = Some h \<longrightarrow> task_of m j = Some h \<longrightarrow> i = j" using assms(1) by (simp add: task_inv_def)
  have a: "set (rm_aborted m') = set (rm_aborted m) \<union> set_option (task_of m i)"
    using False assms(4) by (auto split: option.splits)
  have T: "T = set (rm_aborted m) \<union> ran (task_of m)" "set (rm_aborted m) \<inter> ran (task_of m) = {}"
    using assms(1) by (auto simp: task_inv_def)
  have sub: "set_option (task_of m i) \<subseteq> ran (task_of m)" by (auto simp: ran_def)
  have fresh: "set_option h \<inter> T = {}" using assms(3) False by simp
  have r: "ran (task_of m') = (ran (task_of m) - set_option (task_of m i)) \<union> set_option h"
    unfolding assms(2) by (rule ran_fun_upd_inj[OF inj])
  have "set (rm_aborted m') \<union> ran (task_of m') = T \<union> set_option h" "set (rm_aborted m') \<inter> ran (task_of m') = {}"
    unfolding a r using T sub fresh by auto
  moreover have "\<forall>j k x. task_of m' j = Some x \<longrightarrow> task_of m' k = Some x \<longrightarrow> j = k"
    using inj fresh T(1) by (auto simp: assms(2) ran_def)
  ultimately show ?thesis using assms(5) by (simp add: task_inv_def)
qed

lemma task_of_simps [simp]:
  "task_of (m\<lparr>rm_kv := kv\<rparr>) = task_of m"
  "task_of (m\<lparr>rm_aborted := hs\<rparr>) = task_of m"
  "task_of (put_rule i rk m) = (task_of m)(i := ar_handle (fst rk))"
  by (auto simp: task_of_def put_rule_def fun_eq_iff)

lemma put_rule_sel [simp]:
  "rm_rules (put_rule i rk m) = fmupd i (fst rk) (rm_rules m)"
  "rm_aborted (put_rule i rk m) = rm_aborted m @ snd rk"
  "rm_kv (put_rule i rk m) = rm_kv m"
  by (simp_all add: put_rule_def)

lemma fmran'_fmupd: "r \<in> fmran' (fmupd i x m) \<Longrightarrow> r = x \<or> r \<in> fmran' m"
  by (auto simp: fmran'_def ran_def split: if_splits)

lemma fmran'_fmdrop: "r \<in> fmran' (fmdrop i m) \<Longrightarrow> r \<in> fmran' m"
  by (auto simp: fmran'_def ran_def split: if_splits)

text \<open>A change of one rule that keeps its task or aborts it.\<close>

definition keeps_or_aborts :: "(active_rule \<Rightarrow> active_rule \<times> nat list) \<Rightarrow> bool" where
  "keeps_or_aborts ch \<longleftrightarrow> (\<forall>r. stopped_idle r \<longrightarrow> stopped_idle (fst (ch r)) \<and>
     (ar_handle (fst (ch r)) = ar_handle r \<and> snd (ch r) = [] \<or>
      ar_handle (fst (ch r)) = None \<and> snd (ch r) = (case ar_handle r of Some h \<Rightarrow> [h] | None \<Rightarrow> [])))"

lemma task_inv_put:
  assumes "task_inv T m" "keeps_or_aborts ch" "fmlookup (rm_rules m) i = Some r"
  shows "task_inv T (put_rule i (ch r) (m\<lparr>rm_kv := kv\<rparr>))"
proof -
  have "stopped_idle r" using assms(1,3) by (auto simp: task_inv_def fmran'I)
  note ch = assms(2)[unfolded keeps_or_aborts_def, rule_format, OF this]
  have t: "task_of m i = ar_handle r" using assms(3) by (simp add: task_of_def)
  have idle: "\<forall>r\<in>fmran' (rm_rules (put_rule i (ch r) (m\<lparr>rm_kv := kv\<rparr>))). stopped_idle r"
    using ch assms(1) by (auto simp: task_inv_def dest: fmran'_fmupd)
  have "task_inv (T \<union> set_option (ar_handle (fst (ch r)))) (put_rule i (ch r) (m\<lparr>rm_kv := kv\<rparr>))"
    using ch idle t by (intro task_inv_change[OF assms(1), where i = i]) (auto split: option.splits)
  moreover have "set_option (ar_handle (fst (ch r))) \<subseteq> T"
    using ch t assms(1) by (auto simp: task_inv_def ran_def)
  ultimately show ?thesis by (simp add: Un_absorb2)
qed

lemma task_inv_with_rule:
  assumes "task_inv T m" "keeps_or_aborts ch"
  shows "task_inv T (snd (with_rule K enc i st ch m))"
proof (rule with_rule_cases[where K = K and enc = enc and i = i and st = st and ch = ch and m = m], goal_cases)
  case (1 kv)
  then show ?case using assms(1) by (simp add: task_inv_def)
next
  case (2 r kv)
  then show ?case using task_inv_put[OF assms 2(1)] by simp
qed

lemma task_inv_on_rule:
  assumes "task_inv T m" "\<And>r. ar_handle (f r) = ar_handle r" "\<And>r. stopped_idle r \<Longrightarrow> stopped_idle (f r)"
  shows "task_inv T (on_rule i f m)"
proof (cases "fmlookup (rm_rules m) i")
  case None
  then show ?thesis using assms(1) by (simp add: on_rule_def)
next
  case (Some r)
  then have "on_rule i f m = put_rule i (f r, []) (m\<lparr>rm_kv := rm_kv m\<rparr>)" by (simp add: on_rule_def put_rule_def)
  moreover have "keeps_or_aborts (\<lambda>r. (f r, []))" using assms(2,3) by (simp add: keeps_or_aborts_def)
  ultimately show ?thesis using task_inv_put[OF assms(1) _ Some, of "\<lambda>r. (f r, [])" "rm_kv m"] by simp
qed

lemma lifecycle_keeps_or_aborts:
  "keeps_or_aborts (\<lambda>r. let r1 = r\<lparr>ar_def := d\<rparr> in if was_running r then abort_task r1 else (r1, []))"
  "keeps_or_aborts (\<lambda>r. (r\<lparr>ar_def := retag f (ar_def r)\<rparr>, []))"
  "keeps_or_aborts (\<lambda>r. (r\<lparr>ar_status := (ar_status r)\<lparr>rs_status := RUNNING, rs_last_start := now, rs_message := []\<rparr>\<rparr>, []))"
  "keeps_or_aborts (\<lambda>r. case abort_task r of (r1, hs) \<Rightarrow> (stop_status now msg r1, hs))"
  "keeps_or_aborts (\<lambda>r. case abort_task r of
      (r1, hs) \<Rightarrow> (r1\<lparr>ar_status := (ar_status r1)\<lparr>rs_status := RUNNING, rs_last_start := now, rs_message := []\<rparr>\<rparr>, hs))"
  "keeps_or_aborts (\<lambda>r. case abort_task r of
      (r1, hs) \<Rightarrow>
        (let r2 = stop_status now msg (r1\<lparr>ar_counters := record_exception err (ar_counters r1)\<rparr>)
         in (r2\<lparr>ar_status := (ar_status r2)\<lparr>rs_last_exception := err\<rparr>\<rparr>, hs)))"
  by (auto simp: keeps_or_aborts_def abort_task_def stopped_idle_def stop_status_def RUNNING_def STOPPED_def Let_def
           split: option.splits)

text \<open>Writing a rule back unchanged.\<close>

lemma fmupd_idem: "fmlookup m i = Some r \<Longrightarrow> fmupd i r m = m"
  by (intro fmap_ext) auto

fun op_spawns :: "rule_op \<Rightarrow> nat list" where
  "op_spawns (SetHandle i h) = [h]"
| "op_spawns x = []"

definition spawned :: "(int \<times> rule_op) list \<Rightarrow> nat list" where
  "spawned xs = concat (map (\<lambda>(now, x). op_spawns x) xs)"

lemma task_inv_set_handle:
  assumes "task_inv T m" "h \<notin> T"
  shows "task_inv (T \<union> {h}) (set_rule_handle i h m)"
proof (cases "fmlookup (rm_rules m) i")
  case None
  then show ?thesis using assms by (auto simp: set_rule_handle_def task_inv_def)
next
  case (Some r)
  have t: "task_of m i = ar_handle r" and r: "stopped_idle r"
    using Some assms(1) by (auto simp: task_of_def task_inv_def fmran'I)
  show ?thesis
  proof (cases "rs_status (ar_status r) = RUNNING")
    case True
    have "stopped_idle (r\<lparr>ar_handle := Some h\<rparr>)" using True by (simp add: stopped_idle_def RUNNING_def STOPPED_def)
    then have "\<forall>r\<in>fmran' (rm_rules (set_rule_handle i h m)). stopped_idle r"
      using True Some assms(1) by (auto simp: set_rule_handle_def task_inv_def dest: fmran'_fmupd)
    moreover have "ar_handle r \<noteq> Some h" using assms t by (auto simp: task_inv_def ran_def)
    ultimately have "task_inv (T \<union> set_option (Some h)) (set_rule_handle i h m)"
      using True Some t assms(2) by (intro task_inv_change[OF assms(1), where i = i])
        (auto simp: set_rule_handle_def split: option.splits)
    then show ?thesis by simp
  next
    case False
    then have idle: "ar_handle r = None" "r\<lparr>ar_handle := None\<rparr> = r" using r by (auto simp: stopped_idle_def)
    then have "set_rule_handle i h m = m\<lparr>rm_aborted := rm_aborted m @ [h]\<rparr>"
      using False Some by (simp add: set_rule_handle_def put_rule_def fmupd_idem)
    then show ?thesis using assms by (auto simp: task_inv_def)
  qed
qed

fun refuses_source :: "rule_op \<Rightarrow> bool" where
  "refuses_source (SourceRefused i err) = True"
| "refuses_source x = False"

lemma task_inv_create:
  assumes "task_inv T m"
  shows "task_inv T (snd (create_rule K enc now d m))"
proof (cases "fmlookup (rm_rules m) (rd_id d)")
  case None
  obtain b kv where p: "persist K ''rules'' (rd_id d) (enc d RUNNING) (rm_kv m) = (b, kv)" by (metis surj_pair)
  have "task_of (m\<lparr>rm_kv := kv, rm_rules := fmupd (rd_id d) (fresh_rule now RUNNING d) (rm_rules m)\<rparr>) = task_of m"
    using None by (auto simp: task_of_def fresh_rule_def fun_eq_iff)
  moreover have "stopped_idle (fresh_rule now RUNNING d)" by (simp add: stopped_idle_def fresh_rule_def)
  ultimately show ?thesis using None p assms
    by (auto simp: create_rule_def persist_rule_def task_inv_def dest: fmran'_fmupd)
qed (simp add: create_rule_def assms)

lemma task_inv_delete:
  assumes "task_inv T m"
  shows "task_inv T (snd (delete_rule K i m))"
proof (cases "fmlookup (rm_rules m) i")
  case (Some r)
  obtain b kv where p: "unpersist K ''rules'' i (rm_kv m) = (b, kv)" by (metis surj_pair)
  obtain b2 kv2 where q: "unpersist K ''rule_checkpoints'' i kv = (b2, kv2)" by (metis surj_pair)
  show ?thesis
  proof (cases b)
    case True
    let ?m = "m\<lparr>rm_kv := kv2, rm_rules := fmdrop i (rm_rules m), rm_aborted := rm_aborted m @ snd (abort_task r)\<rparr>"
    have m: "snd (delete_rule K i m) = ?m"
      using True Some p q by (simp add: delete_rule_def unpersist_rule_def delete_rule_checkpoint_def)
    have "task_of ?m = (task_of m)(i := None)" by (auto simp: task_of_def fun_eq_iff)
    moreover have "task_of m i = ar_handle r" using Some by (simp add: task_of_def)
    moreover have "\<forall>r\<in>fmran' (rm_rules ?m). stopped_idle r"
      using assms by (auto simp: task_inv_def dest: fmran'_fmdrop)
    ultimately have "task_inv (T \<union> set_option None) ?m"
      by (intro task_inv_change[OF assms, where i = i]) (auto simp: abort_task_def split: option.splits)
    then show ?thesis unfolding m by simp
  qed (use Some p assms in \<open>simp add: delete_rule_def unpersist_rule_def task_inv_def\<close>)
qed (simp add: delete_rule_def assms)

lemma task_inv_kv: "task_inv T m \<Longrightarrow> task_inv T (m\<lparr>rm_kv := kv\<rparr>)"
  by (simp add: task_inv_def)

lemma sync_status_sel [simp]:
  "ar_handle (sync_status r) = ar_handle r" "rs_status (ar_status (sync_status r)) = rs_status (ar_status r)"
  "ar_def (sync_status r) = ar_def r"
  by (simp_all add: sync_status_def sync_to_def Let_def)

lemma task_inv_step:
  assumes "task_inv T m" "set (op_spawns x) \<inter> T = {}" "\<not> refuses_source x"
  shows "task_inv (T \<union> set (op_spawns x)) (rule_step K enc now x m)"
proof -
  have life: "task_inv T (snd (update_rule K enc d m))" "task_inv T (snd (update_rule_tags K enc i f m))"
    "task_inv T (snd (start_rule K enc now i m))" "task_inv T (snd (stop_rule K enc now i m))"
    "task_inv T (snd (restart_rule K enc now i m))" "task_inv T (snd (halt_rule_with_error K enc now i err m))"
    for d i f err
    unfolding lifecycle_defs by (rule task_inv_with_rule[OF assms(1)] lifecycle_keeps_or_aborts)+
  have quiet: "task_inv T (on_rule i f m)"
    if "\<And>r. ar_handle (f r) = ar_handle r" "\<And>r. rs_status (ar_status (f r)) = rs_status (ar_status r)" for i f
    using that by (intro task_inv_on_rule[OF assms(1)]) (simp_all add: stopped_idle_def)
  show ?thesis
    using assms life quiet task_inv_create[OF assms(1)] task_inv_delete[OF assms(1)] task_inv_set_handle[OF assms(1)]
      task_inv_kv[OF assms(1)]
    by (cases x) (simp_all add: get_rule_status_def reset_rule_metrics_def clear_rule_dlq_def
      save_rule_checkpoint_def delete_rule_checkpoint_def split_beta Let_def)
qed

lemma task_inv_steps:
  assumes "task_inv T m" "distinct (spawned xs)" "set (spawned xs) \<inter> T = {}" "\<forall>(t, x)\<in>set xs. \<not> refuses_source x"
  shows "task_inv (T \<union> set (spawned xs)) (rule_steps K enc xs m)"
  using assms
proof (induction xs arbitrary: T m)
  case (Cons x xs)
  obtain t x' where x: "x = (t, x')" by (cases x)
  then have sp: "spawned (x # xs) = op_spawns x' @ spawned xs" by (simp add: spawned_def)
  have "task_inv (T \<union> set (op_spawns x')) (rule_step K enc t x' m)"
    using Cons.prems x sp by (intro task_inv_step) auto
  then have "task_inv (T \<union> set (op_spawns x') \<union> set (spawned xs)) (rule_steps K enc xs (rule_step K enc t x' m))"
    using Cons.prems sp by (intro Cons.IH) auto
  then show ?case using x sp by (simp add: Un_assoc)
qed (simp add: spawned_def)

text \<open>C5: Take any sequence of operations on rules from an empty manager, over any store and whatever the
  store answers, in which each task is handed over once and no source is refused while a rule
  starts. Then every task that was handed to the manager is either aborted or the task of exactly
  one rule that is running; in particular a rule has at most one live task and a stopped, halted or
  deleted rule has none. A refused source breaks this: the rule is marked as stopped but keeps its
  task, as \<open>refused_source_detaches_task\<close> shows.\<close>

theorem one_task_per_rule:
  assumes "distinct (spawned xs)" "\<forall>(t, x)\<in>set xs. \<not> refuses_source x"
    and "m = rule_steps K enc xs (rule_manager_new kv)" "h \<in> set (spawned xs)"
  shows "(h \<in> set (rm_aborted m)) \<noteq>
    (\<exists>!i. \<exists>r. fmlookup (rm_rules m) i = Some r \<and> ar_handle r = Some h \<and> rs_status (ar_status r) = RUNNING)"
proof -
  have "task_inv {} (rule_manager_new kv)"
    by (auto simp: rule_manager_new_def task_inv_def task_of_def ran_def fmran'_def)
  then have inv: "task_inv (set (spawned xs)) m"
    using task_inv_steps[OF _ assms(1) _ assms(2), where T = "{}"] assms(3) by simp
  have run: "fmlookup (rm_rules m) i = Some r \<Longrightarrow> ar_handle r = Some h \<Longrightarrow> rs_status (ar_status r) = RUNNING" for i r h
    using inv by (auto simp: task_inv_def stopped_idle_def dest: fmran'I)
  have "(\<exists>r. fmlookup (rm_rules m) i = Some r \<and> ar_handle r = Some h \<and> rs_status (ar_status r) = RUNNING) \<longleftrightarrow> task_of m i = Some h" for i
    using run by (auto simp: task_of_def bind_eq_Some_conv)
  moreover have "h \<in> set (rm_aborted m) \<longleftrightarrow> \<not> (\<exists>i. task_of m i = Some h)"
    using inv assms(4) by (force simp: task_inv_def ran_def)
  moreover have "task_of m i = Some h \<Longrightarrow> task_of m j = Some h \<Longrightarrow> i = j" for i j
    using inv by (auto simp: task_inv_def)
  ultimately show ?thesis by auto
qed

definition demo_rule :: "string \<Rightarrow> rule_definition" where
  "demo_rule i = \<lparr>rd_id = i, rd_name = None, rd_version = None, rd_sql = ''SELECT * FROM demo'', rd_actions = [],
     rd_options = None, rd_graph = None, rd_tags = []\<rparr>"

definition demo_enc :: rule_enc where
  "demo_enc d st = rd_id d @ CHR ''/'' # st"

definition demo_dec :: rule_dec where
  "demo_dec s = Some (demo_rule (takeWhile (\<lambda>c. c \<noteq> CHR ''/'') s), drop 1 (dropWhile (\<lambda>c. c \<noteq> CHR ''/'') s))"

definition demo_ops :: "(int \<times> rule_op) list" where
  "demo_ops = [(0, CreateRule (demo_rule ''a'')), (1, SetHandle ''a'' 1), (2, CreateRule (demo_rule ''b'')), (3, SetHandle ''b'' 2),
     (4, RestartRule ''a''), (5, SetHandle ''a'' 3), (6, StopRule ''b''), (7, SetHandle ''b'' 4)]"

lemmas rule_step_defs = create_rule_def update_rule_def update_rule_tags_def start_rule_def stop_rule_def restart_rule_def
  halt_rule_with_error_def delete_rule_def set_rule_handle_def with_rule_def persist_rule_def persist_def
  unpersist_rule_def delete_rule_checkpoint_def unpersist_def mem_ops_def put_rule_def fresh_rule_def abort_task_def
  stop_status_def was_running_def status_default_def RUNNING_def STOPPED_def rule_manager_new_def Let_def

theorem one_task_per_rule_witness:
  "let m = rule_steps mem_ops demo_enc demo_ops (rule_manager_new (Some fmempty))
   in rm_aborted m = [1, 2, 4] \<and> task_of m ''a'' = Some 3 \<and> task_of m ''b'' = None \<and>
      (\<exists>!i. \<exists>r. fmlookup (rm_rules m) i = Some r \<and> ar_handle r = Some 3 \<and> rs_status (ar_status r) = RUNNING)"
proof -
  let ?m = "rule_steps mem_ops demo_enc demo_ops (rule_manager_new (Some fmempty))"
  have a: "rm_aborted ?m = [1, 2, 4]" "task_of ?m ''a'' = Some 3" "task_of ?m ''b'' = None"
    by (simp_all add: demo_ops_def demo_rule_def task_of_def rule_step_defs)
  have "distinct (spawned demo_ops)" "\<forall>(t, x)\<in>set demo_ops. \<not> refuses_source x" "3 \<in> set (spawned demo_ops)"
    by (simp_all add: demo_ops_def spawned_def)
  then have "\<exists>!i. \<exists>r. fmlookup (rm_rules ?m) i = Some r \<and> ar_handle r = Some 3 \<and> rs_status (ar_status r) = RUNNING"
    using one_task_per_rule[of demo_ops ?m mem_ops demo_enc "Some fmempty" 3] a(1) by simp
  then show ?thesis using a by (simp add: Let_def)
qed

text \<open>When the source of a rule is refused while a task of the rule is alive, the next task handed
  over replaces it without aborting it: the old task is detached and runs on once the rule is
  started again.\<close>

lemma refused_source_detaches_task:
  "let m = rule_steps mem_ops demo_enc
             [(0, CreateRule (demo_rule ''a'')), (1, SetHandle ''a'' 1), (2, StartRule ''a''), (3, SourceRefused ''a'' ''x''),
              (4, SetHandle ''a'' 2), (5, StartRule ''a''), (6, SetHandle ''a'' 3)] (rule_manager_new (Some fmempty))
   in task_of m ''a'' = Some 3 \<and> rm_aborted m = [2]"
  by (simp add: demo_rule_def task_of_def rule_step_defs source_refused_def on_rule_def)

subsection \<open>Rules survive a restart\<close>

definition rule_named :: "string \<Rightarrow> rule_definition \<times> string \<Rightarrow> bool" where
  "rule_named k x \<longleftrightarrow> rd_id (fst x) = k"

text \<open>A rule in memory and the value stored for it: the same definition, and a rule that runs is
  stored as running, one that is stopped as something else.\<close>

definition agrees :: "active_rule \<Rightarrow> rule_definition \<times> string \<Rightarrow> bool" where
  "agrees r x \<longleftrightarrow> ar_def r = fst x \<and>
     (rs_status (ar_status r) = RUNNING \<longrightarrow> snd x = RUNNING) \<and> (rs_status (ar_status r) = STOPPED \<longrightarrow> snd x \<noteq> RUNNING)"

fun op_defs_in :: "rule_definition set \<Rightarrow> rule_op \<Rightarrow> bool" where
  "op_defs_in E (CreateRule d) \<longleftrightarrow> d \<in> E"
| "op_defs_in E (UpdateRule d) \<longleftrightarrow> d \<in> E"
| "op_defs_in E (UpdateTags i f) \<longleftrightarrow> (\<forall>d\<in>E. retag f d \<in> E)"
| "op_defs_in E x \<longleftrightarrow> True"

locale rule_store = codec_store K view "\<lambda>(d, st). enc d st" dec "E \<times> UNIV"
  for K :: "'s kv_ops" and view and enc :: rule_enc and dec :: rule_dec and E :: "rule_definition set"
begin

definition stored :: "(string \<rightharpoonup> rule_definition \<times> string) \<Rightarrow> 's \<Rightarrow> bool" where
  "stored = mirrors view (\<lambda>(d, st). enc d st) (E \<times> UNIV) rule_named ''rules''"

definition rule_inv :: "'s rule_manager \<Rightarrow> bool" where
  "rule_inv m \<longleftrightarrow> (\<exists>s M. rm_kv m = Some s \<and> stored M s \<and> (\<forall>k. rel_option agrees (fmlookup (rm_rules m) k) (M k)))"

lemma stored_persist:
  assumes "stored M s" "persist K ''rules'' k (enc d st) (Some s) = (b, kv)" "d \<in> E" "rd_id d = k"
  shows "\<exists>s'. kv = Some s' \<and> stored (if b then M(k \<mapsto> (d, st)) else M) s'"
  using mirrors_persist[of rule_named "''rules''" M s k "(d, st)" b kv] assms
  by (simp add: stored_def rule_named_def)

lemma agrees_def_in: "stored M s \<Longrightarrow> rel_option agrees (Some r) (M k) \<Longrightarrow> ar_def r \<in> E \<and> rd_id (ar_def r) = k"
  by (cases "M k") (fastforce simp: stored_def mirrors_def rule_named_def agrees_def)+

lemma with_rule_inv:
  assumes "rule_inv m"
    and "\<And>r x. agrees r x \<Longrightarrow> ar_def r \<in> E \<Longrightarrow> rd_id (ar_def r) = i \<Longrightarrow>
      fst (st r) \<in> E \<and> rd_id (fst (st r)) = i \<and> agrees (fst (ch r)) (st r)"
  shows "rule_inv (snd (with_rule K enc i st ch m))"
proof -
  obtain s M where s: "rm_kv m = Some s" "stored M s" "\<And>k. rel_option agrees (fmlookup (rm_rules m) k) (M k)"
    using assms(1) by (auto simp: rule_inv_def)
  have st: "fst (st r) \<in> E \<and> rd_id (fst (st r)) = i \<and> agrees (fst (ch r)) (st r)" if "fmlookup (rm_rules m) i = Some r" for r
    using agrees_def_in[OF s(2), of r i] s(3)[of i] that assms(2) by (auto simp: rel_option_iff split: option.splits)
  show ?thesis
  proof (rule with_rule_cases[where K = K and enc = enc and i = i and st = st and ch = ch and m = m], goal_cases)
    case (1 kv)
    have "\<exists>s'. kv = Some s' \<and> stored M s'"
      using 1 s stored_persist[OF s(2), of i "fst (st r)" "snd (st r)" False kv for r] st
      by (cases "fmlookup (rm_rules m) i") auto
    then show ?case using 1(1) s(3) by (auto simp: rule_inv_def)
  next
    case (2 r kv)
    obtain s' where s': "kv = Some s'" "stored (M(i \<mapsto> st r)) s'"
      using stored_persist[OF s(2), of i "fst (st r)" "snd (st r)" True kv] 2 s(1) st[of r] by auto
    then show ?case using 2(1,3) s(3) st[of r] by (auto simp: rule_inv_def intro!: exI[of _ "M(i \<mapsto> st r)"])
  qed
qed

lemma create_inv:
  assumes "rule_inv m" "d \<in> E"
  shows "rule_inv (snd (create_rule K enc now d m))"
proof (cases "fmlookup (rm_rules m) (rd_id d)")
  case None
  obtain s M where s: "rm_kv m = Some s" "stored M s" "\<And>k. rel_option agrees (fmlookup (rm_rules m) k) (M k)"
    using assms(1) by (auto simp: rule_inv_def)
  obtain b kv where p: "persist K ''rules'' (rd_id d) (enc d RUNNING) (Some s) = (b, kv)" by (metis surj_pair)
  obtain s' where s': "kv = Some s'" "stored (if b then M(rd_id d \<mapsto> (d, RUNNING)) else M) s'"
    using stored_persist[OF s(2) p assms(2) refl] by auto
  have "agrees (fresh_rule now RUNNING d) (d, RUNNING)" by (simp add: agrees_def fresh_rule_def RUNNING_def STOPPED_def)
  then show ?thesis using None p s s' unfolding rule_inv_def
    by (intro exI[of _ s'] exI[of _ "if b then M(rd_id d \<mapsto> (d, RUNNING)) else M"])
       (auto simp: create_rule_def persist_rule_def)
qed (simp add: create_rule_def assms)

lemma delete_rule_inv:
  assumes "rule_inv m"
  shows "rule_inv (snd (delete_rule K i m))"
proof (cases "fmlookup (rm_rules m) i")
  case (Some r)
  obtain s M where s: "rm_kv m = Some s" "stored M s" "\<And>k. rel_option agrees (fmlookup (rm_rules m) k) (M k)"
    using assms(1) by (auto simp: rule_inv_def)
  obtain b kv where p: "unpersist K ''rules'' i (Some s) = (b, kv)" by (metis surj_pair)
  obtain s' where s': "kv = Some s'" "stored (if b then M(i := None) else M) s'"
    using mirrors_unpersist[OF s(2)[unfolded stored_def] p] by (auto simp: stored_def)
  obtain b2 kv2 where q: "unpersist K ''rule_checkpoints'' i (Some s') = (b2, kv2)" by (metis surj_pair)
  obtain s2 where s2: "kv2 = Some s2" "stored (if b then M(i := None) else M) s2"
    using mirrors_elsewhere(2)[OF s'(2)[unfolded stored_def] _ q] by (auto simp: stored_def)
  show ?thesis using Some s s' s2 p q unfolding rule_inv_def
    by (intro exI[of _ "if b then s2 else s'"] exI[of _ "if b then M(i := None) else M"])
       (auto simp: delete_rule_def unpersist_rule_def delete_rule_checkpoint_def)
qed (simp add: delete_rule_def assms)

lemma on_rule_inv:
  assumes "rule_inv m" "\<And>r x. agrees r x \<Longrightarrow> agrees (f r) x"
  shows "rule_inv (on_rule i f m)"
proof (cases "fmlookup (rm_rules m) i")
  case (Some r)
  obtain s M where s: "rm_kv m = Some s" "stored M s" "\<And>k. rel_option agrees (fmlookup (rm_rules m) k) (M k)"
    using assms(1) by (auto simp: rule_inv_def)
  have "rel_option agrees (Some (f r)) (M i)" using s(3)[of i] Some assms(2) by (auto simp: rel_option_iff split: option.splits)
  then show ?thesis using s Some unfolding rule_inv_def
    by (intro exI[of _ s] exI[of _ M]) (auto simp: on_rule_def)
qed (simp add: on_rule_def assms)

lemma set_handle_inv:
  assumes "rule_inv m"
  shows "rule_inv (set_rule_handle i h m)"
proof -
  have ab: "rule_inv (n\<lparr>rm_aborted := hs\<rparr>)" if "rule_inv n" for n hs using that by (simp add: rule_inv_def)
  have ha: "rule_inv (on_rule i (\<lambda>r. r\<lparr>ar_handle := x\<rparr>) m)" for x
    by (intro on_rule_inv[OF assms]) (simp add: agrees_def)
  have "\<exists>x hs. set_rule_handle i h m = (on_rule i (\<lambda>r. r\<lparr>ar_handle := x\<rparr>) m)\<lparr>rm_aborted := hs\<rparr>"
    by (cases "fmlookup (rm_rules m) i") (force simp: set_rule_handle_def on_rule_def put_rule_def)+
  then show ?thesis using ab[OF ha] by auto
qed

lemma checkpoint_inv:
  assumes "rule_inv m"
  shows "rule_inv (snd (save_rule_checkpoint K i v m))" "rule_inv (snd (delete_rule_checkpoint K i m))"
proof -
  obtain s M where s: "rm_kv m = Some s" "stored M s" "\<And>k. rel_option agrees (fmlookup (rm_rules m) k) (M k)"
    using assms(1) by (auto simp: rule_inv_def)
  obtain b kv b2 kv2 where p: "persist K ''rule_checkpoints'' i v (Some s) = (b, kv)"
    "unpersist K ''rule_checkpoints'' i (Some s) = (b2, kv2)" by (metis surj_pair)
  note e = mirrors_elsewhere[OF s(2)[unfolded stored_def], of "''rule_checkpoints''"]
  show "rule_inv (snd (save_rule_checkpoint K i v m))" "rule_inv (snd (delete_rule_checkpoint K i m))"
    using e(1)[OF _ p(1)] e(2)[OF _ p(2)] s p
    by (auto simp: rule_inv_def stored_def save_rule_checkpoint_def delete_rule_checkpoint_def)
qed

lemma lifecycle_inv:
  assumes "rule_inv m"
  shows "d \<in> E \<Longrightarrow> rule_inv (snd (update_rule K enc d m))"
    "\<forall>d\<in>E. retag f d \<in> E \<Longrightarrow> rule_inv (snd (update_rule_tags K enc i f m))"
    "rule_inv (snd (start_rule K enc now i m))" "rule_inv (snd (stop_rule K enc now i m))"
    "rule_inv (snd (restart_rule K enc now i m))" "rule_inv (snd (halt_rule_with_error K enc now i err m))"
  unfolding lifecycle_defs
  by (rule with_rule_inv[OF assms];
      auto simp: agrees_def abort_task_def was_running_def stop_status_def RUNNING_def STOPPED_def retag_def Let_def
        split: option.splits)+

lemma step_inv:
  assumes "rule_inv m" "op_defs_in E x"
  shows "rule_inv (rule_step K enc now x m)"
proof -
  have quiet: "rule_inv (on_rule i f m)"
    if "\<And>r. ar_def (f r) = ar_def r" "\<And>r. rs_status (ar_status (f r)) = rs_status (ar_status r)" for i f
    using that by (intro on_rule_inv[OF assms(1)]) (simp add: agrees_def)
  have refused: "rule_inv (source_refused i err m)" for i err
    unfolding source_refused_def by (intro on_rule_inv[OF assms(1)]) (simp add: agrees_def RUNNING_def STOPPED_def)
  show ?thesis
    using assms refused quiet create_inv[OF assms(1)] delete_rule_inv[OF assms(1)] set_handle_inv[OF assms(1)]
      checkpoint_inv[OF assms(1)] lifecycle_inv[OF assms(1)]
    by (cases x) (simp_all add: get_rule_status_def reset_rule_metrics_def clear_rule_dlq_def Let_def)
qed

lemma steps_inv:
  "rule_inv m \<Longrightarrow> \<forall>(now, x)\<in>set xs. op_defs_in E x \<Longrightarrow> rule_inv (rule_steps K enc xs m)"
  by (induction xs arbitrary: m) (auto simp: step_inv)

lemma load_rules_fold:
  "rm_rules (foldl (load_rule dec now) m xs) =
     foldl (\<lambda>m (k, v). case dec v of
              Some x \<Rightarrow> fmupd (rd_id (fst x)) (fresh_rule now (if snd x = RUNNING then RUNNING else STOPPED) (fst x)) m
            | None \<Rightarrow> m) (rm_rules m) xs"
  by (induction xs arbitrary: m) (auto simp: load_rule_def split: option.splits)

lemma reload:
  assumes "rule_inv m" "rm_kv m = Some s" "load_rules K dec now s (rule_manager_new (Some s)) = (None, m')"
  shows "get_rule i m' = get_rule i m"
    and "fmlookup (rm_rules m) i = Some r \<Longrightarrow> rs_status (ar_status r) \<in> {RUNNING, STOPPED} \<Longrightarrow>
      \<exists>r'. fmlookup (rm_rules m') i = Some r' \<and> rs_status (ar_status r') = rs_status (ar_status r)"
proof -
  obtain M where M: "stored M s" "\<And>k. rel_option agrees (fmlookup (rm_rules m) k) (M k)"
    using assms(1,2) by (auto simp: rule_inv_def)
  obtain xs where xs: "kv_list K ''rules'' s = Some xs" "m' = foldl (load_rule dec now) (rule_manager_new (Some s)) xs"
    using assms(3) by (auto simp: load_rules_def split: option.splits)
  have l: "fmlookup (rm_rules m') k =
      map_option (\<lambda>x. fresh_rule now (if snd x = RUNNING then RUNNING else STOPPED) (fst x)) (M k)" for k
    unfolding xs(2) load_rules_fold
    using mirrors_load[OF M(1)[unfolded stored_def] xs(1), where key = "\<lambda>k x. rd_id (fst x)" and k = k and
        g = "\<lambda>x. fresh_rule now (if snd x = RUNNING then RUNNING else STOPPED) (fst x)"]
    by (simp add: rule_named_def rule_manager_new_def)
  show "get_rule i m' = get_rule i m" using l[of i] M(2)[of i]
    by (cases "M i"; cases "fmlookup (rm_rules m) i") (simp_all add: get_rule_def agrees_def fresh_rule_def)
  show "\<exists>r'. fmlookup (rm_rules m') i = Some r' \<and> rs_status (ar_status r') = rs_status (ar_status r)"
    if "fmlookup (rm_rules m) i = Some r" "rs_status (ar_status r) \<in> {RUNNING, STOPPED}"
    using l[of i] M(2)[of i] that
    by (cases "M i") (auto simp: agrees_def fresh_rule_def)
qed

end

text \<open>C4: A restart resumes the rules: from an empty manager over an empty store, after any sequence
  of operations and whichever of the store's writes failed, loading the store into a new manager
  gives every rule its definition, no other rule, and the status running exactly to the rules that
  were running (of those that are running or stopped; a refused source is not persisted). The
  store keeps what it accepted, and the codec reads back the definitions that occur.\<close>

theorem restart_resumes_rules:
  assumes "kv_store K view" "\<forall>d\<in>E. \<forall>st. dec (enc d st) = Some (d, st)" "view s0 ''rules'' = Map.empty"
    and "\<forall>(now, x)\<in>set xs. op_defs_in E x" "m = rule_steps K enc xs (rule_manager_new (Some s0))"
    and "rm_kv m = Some s" "load_rules K dec now s (rule_manager_new (Some s)) = (None, m')"
  shows "get_rule i m' = get_rule i m \<and>
    (\<forall>r. fmlookup (rm_rules m) i = Some r \<and> rs_status (ar_status r) \<in> {RUNNING, STOPPED} \<longrightarrow>
       (\<exists>r'. fmlookup (rm_rules m') i = Some r' \<and> rs_status (ar_status r') = rs_status (ar_status r)))"
proof -
  have "rule_store K view enc dec E"
    using assms(1,2) by (auto simp: rule_store_def codec_store_def codec_store_axioms_def)
  then have st: "rule_store.rule_inv view enc E m \<Longrightarrow> ?thesis" and
    steps: "rule_store.rule_inv view enc E (rule_manager_new (Some s0)) \<Longrightarrow> rule_store.rule_inv view enc E m"
    using rule_store.reload[of K view enc dec E m s now m' i] rule_store.steps_inv[of K view enc dec E _ xs] assms(4-7)
    by auto
  have "rule_store.rule_inv view enc E (rule_manager_new (Some s0))"
    unfolding rule_store.rule_inv_def[OF \<open>rule_store K view enc dec E\<close>] rule_store.stored_def[OF \<open>rule_store K view enc dec E\<close>]
    using assms(3) by (auto simp: rule_manager_new_def mirrors_def intro!: exI[of _ Map.empty])
  then show ?thesis by (intro st steps)
qed

text \<open>The in-memory store with a codec of its own satisfies the interface.\<close>

definition demo_names :: "rule_definition set" where
  "demo_names = demo_rule ` {i. CHR ''/'' \<notin> set i}"

lemma demo_codec:
  assumes "d \<in> demo_names"
  shows "demo_dec (demo_enc d st) = Some (d, st)"
proof -
  obtain i where i: "d = demo_rule i" "\<And>c. c \<in> set i \<Longrightarrow> c \<noteq> CHR ''/''" using assms by (auto simp: demo_names_def)
  have "takeWhile (\<lambda>c. c \<noteq> CHR ''/'') (i @ CHR ''/'' # st) = i" "dropWhile (\<lambda>c. c \<noteq> CHR ''/'') (i @ CHR ''/'' # st) = CHR ''/'' # st"
    using i(2) by (subst takeWhile_append2 dropWhile_append2; simp)+
  moreover have "rd_id d = i" by (simp add: i(1) demo_rule_def)
  ultimately show ?thesis using i(1) by (simp add: demo_dec_def demo_enc_def)
qed

interpretation mem_rules: rule_store mem_ops "\<lambda>s ns k. fmlookup s (ns, k)" demo_enc demo_dec demo_names
  by unfold_locales (auto simp: demo_codec)

theorem restart_resumes_rules_witness:
  "\<exists>s m'. rm_kv (rule_steps mem_ops demo_enc demo_ops (rule_manager_new (Some fmempty))) = Some s \<and>
     load_rules mem_ops demo_dec 9 s (rule_manager_new (Some s)) = (None, m') \<and>
     get_rule ''b'' m' = Some (demo_rule ''b'') \<and> get_rule ''c'' m' = None \<and>
     map_option (rs_status \<circ> ar_status) (fmlookup (rm_rules m') ''a'') = Some RUNNING \<and>
     map_option (rs_status \<circ> ar_status) (fmlookup (rm_rules m') ''b'') = Some STOPPED"
proof -
  let ?m = "rule_steps mem_ops demo_enc demo_ops (rule_manager_new (Some (fmempty :: mem_store)))"
  obtain s where s: "rm_kv ?m = Some s" by (simp add: demo_ops_def demo_rule_def rule_step_defs)
  obtain m' where m': "load_rules mem_ops demo_dec 9 s (rule_manager_new (Some s)) = (None, m')"
    by (simp add: load_rules_def mem_ops_def)
  have ab: "\<exists>r. fmlookup (rm_rules ?m) ''a'' = Some r \<and> rs_status (ar_status r) = RUNNING"
    "\<exists>r. fmlookup (rm_rules ?m) ''b'' = Some r \<and> rs_status (ar_status r) = STOPPED"
    "get_rule ''b'' ?m = Some (demo_rule ''b'')" "get_rule ''c'' ?m = None"
    by (simp_all add: demo_ops_def demo_rule_def rule_step_defs get_rule_def)
  have ops: "\<forall>(now, x)\<in>set demo_ops. op_defs_in demo_names x"
    by (simp add: demo_ops_def demo_names_def)
  note resumes = restart_resumes_rules[OF mem.kv_store_axioms _ _ ops refl s m']
  show ?thesis
    using s m' ab resumes[of "''a''"] resumes[of "''b''"] resumes[of "''c''"] demo_codec by fastforce
qed

end
