(* ===== verification/Catalog_Props.thy ===== *)
theory Catalog_Props
  imports Persistence
begin

text \<open>
  Theorems on the catalogues of streams and on the rows of lookup tables.
\<close>

subsection \<open>Streams survive a restart\<close>

datatype stream_op = CreateStream stream_definition | UpdateStream stream_definition | DeleteStream string

fun stream_step :: "'s kv_ops \<Rightarrow> (stream_definition \<Rightarrow> string) \<Rightarrow> stream_op \<Rightarrow> (stream_definition, 's) catalog
    \<Rightarrow> (stream_definition, 's) catalog" where
  "stream_step K enc (CreateStream d) c = snd (create_stream K enc d c)"
| "stream_step K enc (UpdateStream d) c = snd (update_stream K enc d c)"
| "stream_step K enc (DeleteStream n) c = snd (delete_stream K n c)"

fun stream_defs :: "stream_op \<Rightarrow> stream_definition set" where
  "stream_defs (CreateStream d) = {d}"
| "stream_defs (UpdateStream d) = {d}"
| "stream_defs (DeleteStream n) = {}"

locale stream_store = codec_store K view enc dec D
  for K :: "'s kv_ops" and view and enc :: "stream_definition \<Rightarrow> string" and dec and D
begin

abbreviation streams_ok :: "(stream_definition, 's) catalog \<Rightarrow> bool" where
  "streams_ok \<equiv> catalog_inv (\<lambda>k d. sd_name d = k) ''streams''"

lemma streams_ok_step: "streams_ok c \<Longrightarrow> stream_defs x \<subseteq> D \<Longrightarrow> streams_ok (stream_step K enc x c)"
  by (cases x) (auto simp: create_stream_def update_stream_def delete_stream_def intro: create_update_inv delete_inv)

lemma streams_ok_fold: "streams_ok c \<Longrightarrow> \<forall>x\<in>set xs. stream_defs x \<subseteq> D \<Longrightarrow> streams_ok (fold (stream_step K enc) xs c)"
  by (induction xs arbitrary: c) (auto simp: streams_ok_step)

end

text \<open>C35: From an empty stream manager over an empty store, after any sequence of creations, updates
  and deletions, whichever of the store's writes failed, loading the store into a new manager
  gives the very catalogue that was in memory. The store keeps what it accepted, and the codec
  reads back the definitions that occur.\<close>

theorem streams_survive_restart:
  assumes "kv_store K view" "\<forall>x\<in>set xs. \<forall>d\<in>stream_defs x. dec (enc d) = Some d" "view s0 ''streams'' = Map.empty"
    and "c = fold (stream_step K enc) xs \<lparr>cg_defs = fmempty, cg_kv = Some s0\<rparr>"
    and "cg_kv c = Some s" "load_streams K dec s \<lparr>cg_defs = fmempty, cg_kv = Some s\<rparr> = (None, c')"
  shows "c' = c"
proof -
  define D where "D = {d. dec (enc d) = Some d}"
  have L: "stream_store K view enc dec D"
    using assms(1) by (simp add: stream_store_def codec_store_def codec_store_axioms_def D_def)
  then have C: "codec_store K view enc dec D" by (simp add: stream_store_def)
  have ini: "codec_store.catalog_inv view enc D ok ''streams'' \<lparr>cg_defs = fmempty, cg_kv = Some s0\<rparr>" for ok
    using assms(3) by (simp add: codec_store.catalog_inv_def[OF C] mirrors_def)
  have "codec_store.catalog_inv view enc D (\<lambda>k d. sd_name d = k) ''streams'' c"
    unfolding assms(4) using assms(2) by (intro stream_store.streams_ok_fold[OF L ini]) (auto simp: D_def)
  then show ?thesis
    using codec_store.catalog_reload[OF C _ assms(5), of "\<lambda>k d. sd_name d = k" "''streams''" "\<lambda>k d. sd_name d" c'] assms(6)
    by (simp add: load_streams_def)
qed

definition demo_stream :: "string \<Rightarrow> stream_definition" where
  "demo_stream n = \<lparr>sd_name = n, sd_sql = [], sd_fields = [], sd_options = fmempty\<rparr>"

interpretation mem_streams: stream_store mem_ops "\<lambda>s ns k. fmlookup s (ns, k)" sd_name "\<lambda>s. Some (demo_stream s)" "range demo_stream"
  by unfold_locales (auto simp: demo_stream_def)

theorem streams_survive_restart_witness:
  "\<exists>s c'. cg_kv (fold (stream_step mem_ops sd_name)
       [CreateStream (demo_stream ''a''), CreateStream (demo_stream ''b''), DeleteStream ''a'', CreateStream (demo_stream ''b'')]
       \<lparr>cg_defs = fmempty, cg_kv = Some fmempty\<rparr>) = Some s \<and>
     load_streams mem_ops (\<lambda>s. Some (demo_stream s)) s \<lparr>cg_defs = fmempty, cg_kv = Some s\<rparr> = (None, c') \<and>
     fmlookup (cg_defs c') ''a'' = None \<and> fmlookup (cg_defs c') ''b'' = Some (demo_stream ''b'')"
proof -
  let ?xs = "[CreateStream (demo_stream ''a''), CreateStream (demo_stream ''b''), DeleteStream ''a'', CreateStream (demo_stream ''b'')]"
  let ?c = "fold (stream_step mem_ops sd_name) ?xs \<lparr>cg_defs = fmempty, cg_kv = Some (fmempty :: mem_store)\<rparr>"
  note defs = demo_stream_def create_stream_def delete_stream_def create_def_def store_def_def delete_def_def
    persist_def unpersist_def mem_ops_def
  obtain s where s: "cg_kv ?c = Some s" by (simp add: defs)
  obtain c' where c': "load_streams mem_ops (\<lambda>s. Some (demo_stream s)) s \<lparr>cg_defs = fmempty, cg_kv = Some s\<rparr> = (None, c')"
    by (simp add: load_streams_def load_catalog_def mem_ops_def)
  have "\<forall>x\<in>set ?xs. \<forall>d\<in>stream_defs x. Some (demo_stream (sd_name d)) = Some d" by (simp add: demo_stream_def)
  from streams_survive_restart[OF mem.kv_store_axioms this _ refl s c'] have "c' = ?c" by simp
  moreover have "fmlookup (cg_defs ?c) ''a'' = None" "fmlookup (cg_defs ?c) ''b'' = Some (demo_stream ''b'')"
    by (simp_all add: defs)
  ultimately show ?thesis using s c' by metis
qed

subsection \<open>Lookup rows\<close>

definition key_class :: "string \<Rightarrow> row \<Rightarrow> json option" where
  "key_class k r = map_option norm_json (fmlookup r k)"

lemma upsert_keyed:
  assumes "fmlookup r k \<noteq> None"
  shows "upsert_row (Some k) None r rows =
    (let before = takeWhile (\<lambda>r'. key_class k r' \<noteq> key_class k r) rows
     in before @ r # drop (Suc (length before)) rows)"
proof -
  obtain v where v: "fmlookup r k = Some v" using assms by auto
  have same: "(case fmlookup r' k of Some v' \<Rightarrow> json_eq v' v | None \<Rightarrow> False) \<longleftrightarrow> key_class k r' = key_class k r" for r'
    using v by (auto simp: key_class_def json_eq_def split: option.splits)
  define b where "b = takeWhile (\<lambda>r'. key_class k r' \<noteq> key_class k r) rows"
  have up: "upsert_row (Some k) None r rows = (case drop (length b) rows of x # rest \<Rightarrow> b @ r # rest | [] \<Rightarrow> rows @ [r])"
    using v by (simp add: upsert_row_def same Let_def b_def split: list.split)
  have "upsert_row (Some k) None r rows = b @ r # drop (Suc (length b)) rows"
  proof (cases "drop (length b) rows")
    case Nil
    then have "b = rows" unfolding b_def by (metis append_Nil2 dropWhile_eq_drop takeWhile_dropWhile_id)
    then show ?thesis using up by simp
  next
    case (Cons x xs)
    then have "drop (Suc (length b)) rows = xs" by (metis drop_Suc list.sel(3) tl_drop)
    then show ?thesis using up Cons by simp
  qed
  then show ?thesis by (simp add: b_def Let_def)
qed

text \<open>Rows have pairwise different keys; one with the key of the new row gives way to it.\<close>

lemma upsert_filter:
  assumes "fmlookup r k \<noteq> None" "distinct (map (key_class k) rows)"
  shows "distinct (map (key_class k) (upsert_row (Some k) None r rows))"
    and "filter (\<lambda>r'. key_class k r' = c) (upsert_row (Some k) None r rows)
      = (if key_class k r = c then [r] else filter (\<lambda>r'. key_class k r' = c) rows)"
proof -
  define b where "b = takeWhile (\<lambda>r'. key_class k r' \<noteq> key_class k r) rows"
  have b: "\<forall>x\<in>set b. key_class k x \<noteq> key_class k r" unfolding b_def by (auto dest: set_takeWhileD)
  have up: "upsert_row (Some k) None r rows = b @ r # drop (Suc (length b)) rows"
    by (simp add: upsert_keyed[OF assms(1)] b_def Let_def)
  obtain rest where rows: "rows = b @ rest" "rest = [] \<or> (\<exists>x xs. rest = x # xs \<and> key_class k x = key_class k r)"
  proof
    show "rows = b @ dropWhile (\<lambda>r'. key_class k r' \<noteq> key_class k r) rows" by (simp add: b_def)
    show "dropWhile (\<lambda>r'. key_class k r' \<noteq> key_class k r) rows = [] \<or>
        (\<exists>x xs. dropWhile (\<lambda>r'. key_class k r' \<noteq> key_class k r) rows = x # xs \<and> key_class k x = key_class k r)"
      by (cases "dropWhile (\<lambda>r'. key_class k r' \<noteq> key_class k r) rows") (auto simp: dropWhile_eq_Cons_conv)
  qed
  show "distinct (map (key_class k) (upsert_row (Some k) None r rows))"
    using rows(2) assms(2) b unfolding up by (auto simp: rows(1))
  show "filter (\<lambda>r'. key_class k r' = c) (upsert_row (Some k) None r rows)
      = (if key_class k r = c then [r] else filter (\<lambda>r'. key_class k r' = c) rows)"
    using rows(2) assms(2) b unfolding up by (fastforce simp: rows(1) filter_empty_conv image_iff)
qed

lemma upserts_latest:
  assumes "\<forall>r\<in>set rs. fmlookup r k \<noteq> None"
  shows "distinct (map (key_class k) (foldl (\<lambda>t r. upsert_row (Some k) None r t) [] rs)) \<and>
    filter (\<lambda>r'. key_class k r' = c) (foldl (\<lambda>t r. upsert_row (Some k) None r t) [] rs)
      = (case filter (\<lambda>r'. key_class k r' = c) rs of [] \<Rightarrow> [] | xs \<Rightarrow> [last xs])"
  using assms
proof (induction rs rule: rev_induct)
  case (snoc r rs)
  then show ?case using upsert_filter(1)[of r k "foldl (\<lambda>t r. upsert_row (Some k) None r t) [] rs"]
      upsert_filter(2)[of r k "foldl (\<lambda>t r. upsert_row (Some k) None r t) [] rs" c]
    by (auto split: list.splits)
qed simp

lemma upsert_unkeyed: "upsert_row None n r rows = (let p = rows @ [r]; keep = case_option 100 (\<lambda>n. n) n in drop (length p - keep) p)"
proof -
  have "takeWhile (\<lambda>r'. True) rows = rows" by (induction rows) simp_all
  then have "drop (length (takeWhile (\<lambda>r'. True) rows)) rows = []" by (metis drop_all order_refl)
  then show ?thesis by (simp add: upsert_row_def Let_def split: option.split list.split)
qed

lemma upserts_newest:
  "foldl (\<lambda>t r. upsert_row None n r t) [] rs = drop (length rs - case_option 100 (\<lambda>n. n) n) rs"
proof (induction rs rule: rev_induct)
  case (snoc r rs)
  define keep where "keep = case_option 100 (\<lambda>n. n) n"
  have "drop (length (drop (length rs - keep) rs @ [r]) - keep) (drop (length rs - keep) rs @ [r]) = drop (length (rs @ [r]) - keep) (rs @ [r])"
    by (cases "keep \<le> length rs"; cases keep) (auto simp: Suc_diff_Suc)
  then show ?case using snoc by (simp add: upsert_unkeyed keep_def Let_def)
qed simp

lemma insert_rows:
  assumes "fmlookup (tm_rows m) t = None"
  shows "get_table_rows t (fold (insert_table_row order t) rs m)
    = foldl (\<lambda>rows r. upsert_row (option_named order [''key'', ''primary_key''] (fmlookup (cg_defs (tm_catalog m)) t))
        (map_option nat (Option.bind (option_named order [''retain_size''] (fmlookup (cg_defs (tm_catalog m)) t)) parse_u64)) r rows) [] rs
    \<and> tm_catalog (fold (insert_table_row order t) rs m) = tm_catalog m"
proof (induction rs rule: rev_induct)
  case Nil
  then show ?case using assms by (simp add: get_table_rows_def)
next
  case (snoc r rs)
  then show ?case by (auto simp: insert_table_row_def get_table_rows_def Let_def split: option.splits)
qed

text \<open>Inserting rows into a lookup table. Without a key column, the table holds the newest rows,
  as many as its retain size says and 100 by default. With a key column and no retain size, it
  holds for every key value exactly one row, the one inserted last (of rows that have the
  column), where key values are compared as JSON values.\<close>

lemma table_rows_latest:
  assumes "fmlookup (tm_rows m) t = None" "d = fmlookup (cg_defs (tm_catalog m)) t"
    and "key = option_named order [''key'', ''primary_key''] d"
    and "retain = map_option nat (Option.bind (option_named order [''retain_size''] d) parse_u64)"
    and "rows = get_table_rows t (fold (insert_table_row order t) rs m)"
  shows "(key = None \<longrightarrow> rows = drop (length rs - case_option 100 (\<lambda>n. n) retain) rs) \<and>
    (key = Some k \<and> retain = None \<and> (\<forall>r\<in>set rs. fmlookup r k \<noteq> None) \<longrightarrow>
      filter (\<lambda>r. json_eq (the (fmlookup r k)) v) rows
        = (case filter (\<lambda>r. json_eq (the (fmlookup r k)) v) rs of [] \<Rightarrow> [] | xs \<Rightarrow> [last xs]))"
proof -
  have rows: "rows = foldl (\<lambda>t r. upsert_row key retain r t) [] rs"
    using insert_rows[OF assms(1), of order rs] assms(2-5) by simp
  show ?thesis
  proof (intro conjI impI)
    assume "key = None"
    then show "rows = drop (length rs - case_option 100 (\<lambda>n. n) retain) rs" using rows upserts_newest by simp
  next
    assume k: "key = Some k \<and> retain = None \<and> (\<forall>r\<in>set rs. fmlookup r k \<noteq> None)"
    have "\<forall>r\<in>set (foldl (\<lambda>t r. upsert_row (Some k) None r t) [] rs). fmlookup r k \<noteq> None" using k
    proof (induction rs rule: rev_induct)
      case (snoc r rs)
      then show ?case by (auto simp: upsert_keyed Let_def dest!: set_takeWhileD in_set_dropD)
    qed simp
    then have "\<forall>r\<in>set rows. fmlookup r k \<noteq> None" using rows k by simp
    then have f: "filter (\<lambda>r. json_eq (the (fmlookup r k)) v) xs = filter (\<lambda>r. key_class k r = Some (norm_json v)) xs"
      if "set xs \<subseteq> set rows \<or> set xs \<subseteq> set rs" for xs
      using that k by (intro filter_cong[OF refl]) (fastforce simp: key_class_def json_eq_def)
    show "filter (\<lambda>r. json_eq (the (fmlookup r k)) v) rows
        = (case filter (\<lambda>r. json_eq (the (fmlookup r k)) v) rs of [] \<Rightarrow> [] | xs \<Rightarrow> [last xs])"
      using upserts_latest[of rs k "Some (norm_json v)"] k rows f[of rows] f[of rs] by simp
  qed
qed

lemma table_rows_latest_witness:
  "let def = demo_stream ''t''\<lparr>sd_options := fmupd ''KEY'' ''id'' fmempty\<rparr>;
       row = (\<lambda>i n. fmupd ''id'' (Str i) (fmupd ''n'' (Str n) fmempty));
       m = \<lparr>tm_catalog = \<lparr>cg_defs = fmupd ''t'' def fmempty, cg_kv = None :: mem_store option\<rparr>, tm_rows = fmempty\<rparr>;
       rows = get_table_rows ''t'' (fold (insert_table_row (\<lambda>_. [(''KEY'', ''id'')]) ''t'') [row ''a'' ''1'', row ''b'' ''2'', row ''a'' ''3''] m)
   in filter (\<lambda>r. json_eq (the (fmlookup r ''id'')) (Str ''a'')) rows = [row ''a'' ''3'']"
proof -
  define row where "row = (\<lambda>i n. fmupd ''id'' (Str i) (fmupd ''n'' (Str n) fmempty))"
  define dd where "dd = demo_stream ''t''\<lparr>sd_options := fmupd ''KEY'' ''id'' fmempty\<rparr>"
  define m where "m = \<lparr>tm_catalog = \<lparr>cg_defs = fmupd ''t'' dd fmempty, cg_kv = None :: mem_store option\<rparr>, tm_rows = fmempty\<rparr>"
  have "fmlookup (tm_rows m) ''t'' = None" by (simp add: m_def)
  moreover have "option_named (\<lambda>_. [(''KEY'', ''id'')]) [''key'', ''primary_key''] (fmlookup (cg_defs (tm_catalog m)) ''t'') = Some ''id''"
    "option_named (\<lambda>_. [(''KEY'', ''id'')]) [''retain_size''] (fmlookup (cg_defs (tm_catalog m)) ''t'') = None"
    by (simp_all add: m_def option_named_def) (code_simp)+
  moreover have "\<forall>r\<in>set [row ''a'' ''1'', row ''b'' ''2'', row ''a'' ''3'']. fmlookup r ''id'' \<noteq> None" by (simp add: row_def)
  ultimately have "filter (\<lambda>r. json_eq (the (fmlookup r ''id'')) (Str ''a''))
      (get_table_rows ''t'' (fold (insert_table_row (\<lambda>_. [(''KEY'', ''id'')]) ''t'') [row ''a'' ''1'', row ''b'' ''2'', row ''a'' ''3''] m))
      = (case filter (\<lambda>r. json_eq (the (fmlookup r ''id'')) (Str ''a'')) [row ''a'' ''1'', row ''b'' ''2'', row ''a'' ''3''] of
           [] \<Rightarrow> [] | xs \<Rightarrow> [last xs])"
    using table_rows_latest[of m "''t''" _ _ "\<lambda>_. [(''KEY'', ''id'')]" _ _ "[row ''a'' ''1'', row ''b'' ''2'', row ''a'' ''3'']" "''id''" "Str ''a''"]
    by simp
  then show ?thesis unfolding Let_def m_def dd_def by (simp add: row_def)
qed

end
