(* ===== verification/RuleGraph.thy ===== *)
theory RuleGraph
  imports RuleManager Text
begin

text \<open>
  Compilation of a visual rule graph (\<open>compile_graph_to_sql_and_actions\<close> of
  \<open>crates/rekuiper-core/src/model.rs\<close>): the depth-first search for cycles, and the translation of
  the nodes to a statement and sink actions. The search threads its two sets through the calls
  as the source does; it is a partial function, whose value \<open>None\<close> would be a search that does
  not return.
\<close>

subsection \<open>Cycles\<close>

type_synonym edges = "(string, string list) fmap"

definition targets_of :: "edges \<Rightarrow> string \<Rightarrow> string list" where
  "targets_of es n = (case fmlookup es n of Some ts \<Rightarrow> ts | None \<Rightarrow> [])"

text \<open>\<open>visit\<close> on each node of a list, in order, with the nodes being visited and the nodes done;
  a node met again while it is being visited is the error.\<close>

partial_function (option) visit_all :: "edges \<Rightarrow> string list \<Rightarrow> string fset \<times> string fset
    \<Rightarrow> (string + string fset \<times> string fset) option" where
  "visit_all es ns st =
     (case ns of
        [] \<Rightarrow> Some (Inr st)
      | n # rest \<Rightarrow>
          if n |\<in>| fst st then Some (Inl n)
          else if n |\<in>| snd st then visit_all es rest (finsert n (fst st) |-| {|n|}, snd st)
          else Option.bind (visit_all es (targets_of es n) (finsert n (fst st), snd st))
                 (\<lambda>r. case r of
                        Inl c \<Rightarrow> Some (Inl c)
                      | Inr st' \<Rightarrow> visit_all es rest (fst st' |-| {|n|}, finsert n (snd st'))))"

text \<open>Every node with an edge, from either end, in sorted order.\<close>

definition endpoints :: "edges \<Rightarrow> string list" where
  "endpoints es =
     remdups_adj (sort (sorted_list_of_fset (fmdom es)
       @ concat (map (targets_of es) (sorted_list_of_fset (fmdom es)))))"

definition check_acyclic :: "edges \<Rightarrow> (string + unit) option" where
  "check_acyclic es =
     map_option (\<lambda>r. case r of Inl n \<Rightarrow> Inl n | Inr _ \<Rightarrow> Inr ()) (visit_all es (endpoints es) ({||}, {||}))"

subsection \<open>Nodes\<close>

definition non_empty :: "string option \<Rightarrow> string option" where
  "non_empty s = Option.bind s (\<lambda>t. if t = [] then None else Some t)"

definition prop_str :: "row \<Rightarrow> string \<Rightarrow> string option" where
  "prop_str props key = non_empty (map_option str_trim (Option.bind (fmlookup props key) as_str))"

definition prop_u64 :: "row \<Rightarrow> string \<Rightarrow> int \<Rightarrow> int" where
  "prop_u64 props key d =
     (case fmlookup props key of
        None \<Rightarrow> d
      | Some v \<Rightarrow>
          (case as_u64 v of
             Some n \<Rightarrow> n
           | None \<Rightarrow>
               (case Option.bind (as_i64 v) (\<lambda>n. if 0 \<le> n then Some n else None) of
                  Some n \<Rightarrow> n
                | None \<Rightarrow>
                    (case Option.bind (as_str v) (\<lambda>s. parse_u64 (str_trim s)) of
                       Some n \<Rightarrow> n
                     | None \<Rightarrow> d))))"

definition source_keys :: "graph_definition \<Rightarrow> string list" where
  "source_keys g =
     filter (\<lambda>k. case fmlookup (gd_nodes g) k of Some n \<Rightarrow> gn_category n = ''source'' | None \<Rightarrow> False)
       (sorted_list_of_fset (fmdom (gd_nodes g)))"

definition graph_source :: "graph_definition \<Rightarrow> string option" where
  "graph_source g =
     (case source_keys g of
        key # _ \<Rightarrow>
          (case fmlookup (gd_nodes g) key of
             Some n \<Rightarrow>
               Some (case or_else (prop_str (gn_props n) ''sourceName'') (prop_str (gn_props n) ''datasource'') of
                       Some s \<Rightarrow> s | None \<Rightarrow> key)
           | None \<Rightarrow> None)
      | [] \<Rightarrow> (case gt_sources (gd_topo g) of s # _ \<Rightarrow> Some s | [] \<Rightarrow> None))"

record compiled =
  cp_filters :: "string list"
  cp_projections :: "string list"
  cp_window :: "string option"
  cp_actions :: "row list"

definition or_text :: "string \<Rightarrow> string option \<Rightarrow> string" where
  "or_text d s = (case s of Some t \<Rightarrow> t | None \<Rightarrow> d)"

definition window_text :: "row \<Rightarrow> string" where
  "window_text props =
     (let kind = to_ascii_lowercase (or_text ''tumblingwindow'' (Option.bind (fmlookup props ''type'') as_str));
          unit = to_ascii_lowercase (or_text ''ss'' (Option.bind (fmlookup props ''unit'') as_str));
          sz = prop_u64 props ''size'' 10;
          interval = prop_u64 props ''interval'' sz
      in if kind = ''hoppingwindow'' then
           ''HOPPINGWINDOW('' @ unit @ '', '' @ show_int sz @ '', '' @ show_int interval @ '')''
         else if kind = ''slidingwindow'' then ''SLIDINGWINDOW('' @ unit @ '', '' @ show_int sz @ '')''
         else if kind = ''sessionwindow'' then
           ''SESSIONWINDOW('' @ unit @ '', '' @ show_int sz @ '', '' @ show_int interval @ '')''
         else if kind = ''countwindow'' then
           (if fmlookup props ''interval'' \<noteq> None
            then ''COUNTWINDOW('' @ show_int sz @ '', '' @ show_int interval @ '')''
            else ''COUNTWINDOW('' @ show_int sz @ '')'')
         else ''TUMBLINGWINDOW('' @ unit @ '', '' @ show_int sz @ '')'')"

definition picked :: "row \<Rightarrow> string list" where
  "picked props =
     (case fmlookup props ''fields'' of
        Some (Arr vs) \<Rightarrow> List.map_filter (\<lambda>v. non_empty (map_option str_trim (as_str v))) vs
      | _ \<Rightarrow> [])"

definition opt_to_list :: "'a option \<Rightarrow> 'a list" where
  "opt_to_list x = (case x of Some y \<Rightarrow> [y] | None \<Rightarrow> [])"

definition compile_node :: "compiled \<Rightarrow> string \<times> graph_node \<Rightarrow> compiled" where
  "compile_node c kn =
     (case kn of
        (key, n) \<Rightarrow>
          (let props = gn_props n; ty = gn_type n
           in if gn_category n = ''operator'' then
                (if ty = ''filter'' then
                   c\<lparr>cp_filters := cp_filters c @ map (\<lambda>e. ''('' @ e @ '')'') (opt_to_list (prop_str props ''expr''))\<rparr>
                 else if ty = ''pick'' then c\<lparr>cp_projections := cp_projections c @ picked props\<rparr>
                 else if ty = ''function'' \<or> ty = ''aggfunc'' then
                   c\<lparr>cp_projections := cp_projections c @ opt_to_list (prop_str props ''expr'')\<rparr>
                 else if ty = ''window'' then c\<lparr>cp_window := Some (window_text props)\<rparr>
                 else c)
              else if gn_category n = ''sink'' then
                c\<lparr>cp_actions := cp_actions c @ [fmupd (if ty = [] then key else ty) (Obj props) fmempty]\<rparr>
              else c))"

definition compiled_init :: compiled where
  "compiled_init = \<lparr>cp_filters = [], cp_projections = [], cp_window = None, cp_actions = []\<rparr>"

definition sorted_nodes :: "graph_definition \<Rightarrow> (string \<times> graph_node) list" where
  "sorted_nodes g =
     List.map_filter (\<lambda>k. map_option (Pair k) (fmlookup (gd_nodes g) k)) (sorted_list_of_fset (fmdom (gd_nodes g)))"

definition graph_sql :: "string \<Rightarrow> compiled \<Rightarrow> string" where
  "graph_sql src c =
     ''SELECT '' @ (if cp_projections c = [] then ''*'' else join_with '', '' (cp_projections c)) @ '' FROM '' @ src
     @ (if cp_filters c = [] then [] else '' WHERE '' @ join_with '' AND '' (cp_filters c))
     @ (case cp_window c of Some w \<Rightarrow> '' GROUP BY '' @ w | None \<Rightarrow> [])"

datatype graph_error = GraphCycle string | NoSource

definition compile_graph_to_sql_and_actions :: "graph_definition \<Rightarrow> (graph_error + string \<times> row list) option" where
  "compile_graph_to_sql_and_actions g =
     map_option (\<lambda>r. case r of
         Inl n \<Rightarrow> Inl (GraphCycle n)
       | Inr _ \<Rightarrow>
           (case graph_source g of
              None \<Rightarrow> Inl NoSource
            | Some src \<Rightarrow>
                (let c = foldl compile_node compiled_init (sorted_nodes g) in Inr (graph_sql src c, cp_actions c))))
       (check_acyclic (gt_edges (gd_topo g)))"

end
