(* ===== verification/Graph_Props.thy ===== *)
theory Graph_Props
  imports RuleGraph
begin

text \<open>
  The search for cycles in a rule graph always returns; it accepts exactly the acyclic graphs, and
  the node it reports lies on a cycle. A graph compiles exactly when it is acyclic and has a source.
\<close>

definition edge_rel :: "edges \<Rightarrow> (string \<times> string) set" where
  "edge_rel es = {(a, b). b \<in> set (targets_of es a)}"

text \<open>Nodes that are done: closed under edges, none on a cycle.\<close>

definition settled :: "edges \<Rightarrow> string fset \<Rightarrow> bool" where
  "settled es D \<longleftrightarrow> (\<forall>x\<in>fset D. set (targets_of es x) \<subseteq> fset D \<and> (x, x) \<notin> (edge_rel es)\<^sup>+)"

lemma settled_edge: "settled es D \<Longrightarrow> (x, y) \<in> edge_rel es \<Longrightarrow> x |\<in>| D \<Longrightarrow> y |\<in>| D"
  by (auto simp: settled_def edge_rel_def)

lemma settled_reach: "(x, y) \<in> (edge_rel es)\<^sup>+ \<Longrightarrow> settled es D \<Longrightarrow> x |\<in>| D \<Longrightarrow> y |\<in>| D"
  by (induction rule: trancl_induct) (blast intro: settled_edge)+

lemma settled_insert:
  assumes "settled es D" "set (targets_of es n) \<subseteq> fset D" "n |\<notin>| D"
  shows "settled es (finsert n D)"
proof -
  have "(n, n) \<notin> (edge_rel es)\<^sup>+"
  proof
    assume "(n, n) \<in> (edge_rel es)\<^sup>+"
    then obtain t where t: "(n, t) \<in> edge_rel es" "t = n \<or> (t, n) \<in> (edge_rel es)\<^sup>+"
      by (meson tranclD rtranclD)
    then have "t |\<in>| D" using assms(2) by (auto simp: edge_rel_def)
    then show False using t(2) settled_reach[OF _ assms(1)] assms(3) by blast
  qed
  then show ?thesis using assms(1,2) by (auto simp: settled_def)
qed

definition visit_ok :: "edges \<Rightarrow> string list \<Rightarrow> string fset \<Rightarrow> string fset \<Rightarrow> string + string fset \<times> string fset \<Rightarrow> bool" where
  "visit_ok es ns V D r =
     (case r of
        Inr (V', D') \<Rightarrow> V' = V \<and> D |\<subseteq>| D' \<and> set ns \<subseteq> fset D' \<and> settled es D' \<and> D' |\<inter>| V = D |\<inter>| V
      | Inl c \<Rightarrow> (\<forall>v\<in>fset V. \<forall>t\<in>set ns. (v, t) \<in> (edge_rel es)\<^sup>+) \<longrightarrow> (c, c) \<in> (edge_rel es)\<^sup>+)"

lemma visit_ok_rest:
  assumes "visit_ok es rest V (finsert n D1) r" "n |\<notin>| V" "D |\<subseteq>| D1" "D1 |\<inter>| V = D |\<inter>| V"
  shows "visit_ok es (n # rest) V D r"
proof (cases r)
  case (Inr st)
  then obtain D' where D': "r = Inr (V, D')" "finsert n D1 |\<subseteq>| D'" "set rest \<subseteq> fset D'" "settled es D'"
    "D' |\<inter>| V = finsert n D1 |\<inter>| V"
    using assms(1) by (cases st) (auto simp: visit_ok_def)
  have "D' |\<inter>| V = D |\<inter>| V" using D'(5) assms(2,4) by auto
  moreover have "D |\<subseteq>| D'" using D'(2) assms(3) by auto
  ultimately show ?thesis using D' by (auto simp: visit_ok_def)
qed (use assms(1) in \<open>auto simp: visit_ok_def\<close>)

lemma visit_ok_targets:
  assumes "visit_ok es (targets_of es n) (finsert n V) D (Inl c)"
  shows "visit_ok es (n # rest) V D (Inl c)"
proof -
  have "(v, t) \<in> (edge_rel es)\<^sup>+" if "\<forall>v\<in>fset V. (v, n) \<in> (edge_rel es)\<^sup>+" "v |\<in>| finsert n V" "t \<in> set (targets_of es n)" for v t
  proof -
    have "(n, t) \<in> edge_rel es" using that(3) by (simp add: edge_rel_def)
    then show ?thesis using that(1,2) by (auto intro: trancl.trancl_into_trancl)
  qed
  then show ?thesis using assms by (auto simp: visit_ok_def)
qed

text \<open>One more node is being visited, so the search below it is smaller; a node without edges has
  none below it.\<close>

lemma visit_all_spec:
  "settled es D \<Longrightarrow> \<exists>r. visit_all es ns (V, D) = Some r \<and> visit_ok es ns V D r"
proof (induction "(ns, V)" arbitrary: ns V D
    rule: wf_induct_rule[OF wf_measures[of "[\<lambda>(ns, V). fcard (fmdom es |-| V), \<lambda>(ns, V). length ns]"]])
  case 1
  note IH = "1.hyps" and D = "1.prems"
  show ?case
  proof (cases ns)
    case Nil
    then show ?thesis using D by (auto simp: visit_all.simps visit_ok_def)
  next
    case (Cons n rest)
    have rest: "\<exists>r. visit_all es rest (V, D') = Some r \<and> visit_ok es rest V D' r" if "settled es D'" for D'
      using that Cons by (intro IH) auto
    consider (cycle) "n |\<in>| V" | (old) "n |\<notin>| V" "n |\<in>| D" | (new) "n |\<notin>| V" "n |\<notin>| D" by blast
    then show ?thesis
    proof cases
      case cycle
      then show ?thesis using Cons by (auto simp: visit_all.simps visit_ok_def)
    next
      case old
      obtain r where r: "visit_all es rest (V, D) = Some r" "visit_ok es rest V D r" using rest[OF D] by blast
      have "finsert n V |-| {|n|} = V" "finsert n D = D" using old by auto
      moreover have "visit_ok es (n # rest) V D r" using visit_ok_rest[of es rest V n D r D] r(2) old calculation(2) by simp
      ultimately show ?thesis using Cons old r(1) by (subst visit_all.simps) simp
    next
      case new
      have "\<exists>r. visit_all es (targets_of es n) (finsert n V, D) = Some r \<and> visit_ok es (targets_of es n) (finsert n V) D r"
      proof (cases "n |\<in>| fmdom es")
        case True
        have "fcard (fmdom es |-| finsert n V) < fcard (fmdom es |-| V)"
          using True new(1) by (intro pfsubset_fcard_mono) auto
        then show ?thesis using D Cons by (intro IH) auto
      next
        case False
        then have "targets_of es n = []" by (simp add: targets_of_def fmdom_notD)
        then show ?thesis using D by (auto simp: visit_all.simps visit_ok_def)
      qed
      then obtain r where r: "visit_all es (targets_of es n) (finsert n V, D) = Some r" "visit_ok es (targets_of es n) (finsert n V) D r"
        by blast
      have step: "visit_all es ns (V, D) = (case r of Inl c \<Rightarrow> Some (Inl c)
          | Inr st' \<Rightarrow> visit_all es rest (fst st' |-| {|n|}, finsert n (snd st')))"
        using Cons new r(1) by (subst visit_all.simps) simp
      show ?thesis
      proof (cases r)
        case (Inl c)
        then show ?thesis using step visit_ok_targets[of es n V D c rest] r(2) Cons by simp
      next
        case (Inr st')
        obtain D1 where st': "st' = (finsert n V, D1)" "D |\<subseteq>| D1" "set (targets_of es n) \<subseteq> fset D1" "settled es D1"
          "D1 |\<inter>| finsert n V = D |\<inter>| finsert n V"
          using r(2) Inr by (cases st') (auto simp: visit_ok_def)
        have n: "n |\<notin>| D1" "D1 |\<inter>| V = D |\<inter>| V" "finsert n V |-| {|n|} = V" using st'(5) new by auto
        obtain r' where r': "visit_all es rest (V, finsert n D1) = Some r'" "visit_ok es rest V (finsert n D1) r'"
          using rest[OF settled_insert[OF st'(4,3) n(1)]] by blast
        then show ?thesis
          using step Inr st'(1) n(3) Cons visit_ok_rest[OF r'(2) new(1) st'(2) n(2)] by simp
      qed
    qed
  qed
qed

lemma endpoints_edges: "(a, b) \<in> edge_rel es \<Longrightarrow> a \<in> set (endpoints es)"
  by (auto simp: edge_rel_def endpoints_def targets_of_def fmlookup_dom_iff split: option.splits)

lemma check_acyclic_spec:
  "\<exists>r. check_acyclic es = Some r \<and> (case r of Inr _ \<Rightarrow> acyclic (edge_rel es) | Inl n \<Rightarrow> (n, n) \<in> (edge_rel es)\<^sup>+)"
proof -
  have "settled es {||}" by (simp add: settled_def)
  then obtain r where r: "visit_all es (endpoints es) ({||}, {||}) = Some r" "visit_ok es (endpoints es) {||} {||} r"
    using visit_all_spec by blast
  show ?thesis
  proof (cases r)
    case (Inl n)
    then show ?thesis using r by (auto simp: check_acyclic_def visit_ok_def)
  next
    case (Inr st)
    then obtain D where D: "set (endpoints es) \<subseteq> fset D" "settled es D" using r(2) by (auto simp: visit_ok_def)
    have "acyclic (edge_rel es)"
    proof (rule acyclicI, intro allI notI)
      fix x assume x: "(x, x) \<in> (edge_rel es)\<^sup>+"
      then have "x \<in> set (endpoints es)" by (meson endpoints_edges tranclD)
      then show False using D x by (auto simp: settled_def)
    qed
    then show ?thesis using r Inr by (auto simp: check_acyclic_def)
  qed
qed

text \<open>C36: Compiling a rule graph always returns. It fails with a cycle exactly when the edges have
  one, and then names a node on it; it fails for want of a source exactly when an acyclic graph
  has neither a source node nor an entry point; otherwise it yields one action for each sink
  node, in the order of the node keys.\<close>

theorem graph_compiles_iff_acyclic:
  "\<exists>r. compile_graph_to_sql_and_actions g = Some r \<and>
     (case r of
        Inl (GraphCycle n) \<Rightarrow> (n, n) \<in> (edge_rel (gt_edges (gd_topo g)))\<^sup>+
      | Inl NoSource \<Rightarrow> acyclic (edge_rel (gt_edges (gd_topo g))) \<and> source_keys g = [] \<and> gt_sources (gd_topo g) = []
      | Inr (sql, actions) \<Rightarrow> acyclic (edge_rel (gt_edges (gd_topo g))) \<and>
          \<not> (source_keys g = [] \<and> gt_sources (gd_topo g) = []) \<and>
          actions = map (\<lambda>(k, n). fmupd (if gn_type n = [] then k else gn_type n) (Obj (gn_props n)) fmempty)
            (filter (\<lambda>(k, n). gn_category n = ''sink'') (sorted_nodes g)))"
proof -
  have acts: "cp_actions (foldl compile_node c ns) = cp_actions c @
      map (\<lambda>(k, n). fmupd (if gn_type n = [] then k else gn_type n) (Obj (gn_props n)) fmempty)
        (filter (\<lambda>(k, n). gn_category n = ''sink'') ns)" for c ns
    by (induction ns arbitrary: c) (auto simp: compile_node_def Let_def)
  have src: "graph_source g = None \<longleftrightarrow> source_keys g = [] \<and> gt_sources (gd_topo g) = []"
  proof (cases "source_keys g")
    case (Cons k ks)
    then have "k \<in> set (source_keys g)" by simp
    then have "fmlookup (gd_nodes g) k \<noteq> None" unfolding source_keys_def by (auto split: option.splits)
    then show ?thesis using Cons by (auto simp: graph_source_def)
  qed (auto simp: graph_source_def split: list.splits)
  obtain r where r: "check_acyclic (gt_edges (gd_topo g)) = Some r"
    "case r of Inr _ \<Rightarrow> acyclic (edge_rel (gt_edges (gd_topo g))) | Inl n \<Rightarrow> (n, n) \<in> (edge_rel (gt_edges (gd_topo g)))\<^sup>+"
    using check_acyclic_spec by blast
  show ?thesis
    using r src by (cases r; cases "graph_source g")
      (auto simp: compile_graph_to_sql_and_actions_def acts compiled_init_def Let_def)
qed

end
