(* ===== verification/StreamBus.thy ===== *)
theory StreamBus
  imports DeadLetter Select
begin

text \<open>
  The stream bus (\<open>crates/rekuiper-core/src/runtime.rs\<close>) and the predicates that rules hand to it
  (\<open>extract_bus_predicate\<close> and \<open>is_bus_predicate_exhaustive\<close> of
  \<open>crates/rekuiper-server/src/engine/mod.rs\<close>).

  A topic lists its senders; a channel is a bounded queue with what its receiver has taken so far.
  A publish is one publisher at work on the topic, which is what the admission gate provides. What
  receivers and new subscribers do meanwhile is a schedule: one list of moves for each point at
  which the publisher reserves capacity or waits. A publisher whose reservation never gets room
  before the schedule ends has the value \<open>None\<close>.
\<close>

subsection \<open>Predicates\<close>

datatype bus_predicate =
    FieldEq string json
  | FieldNeq string json
  | FieldGt string f64
  | FieldGte string f64
  | FieldLt string f64
  | FieldLte string f64
  | TopicEq string
  | AndPred "bus_predicate list"

definition holds_some :: "('a \<Rightarrow> bool) \<Rightarrow> 'a option \<Rightarrow> bool" where
  "holds_some P x = (case x of Some y \<Rightarrow> P y | None \<Rightarrow> False)"

definition topic_of :: "row \<Rightarrow> string option" where
  "topic_of data =
     Option.bind (or_else (fmlookup data ''__meta__'') (fmlookup data ''__mqtt__''))
       (\<lambda>m. Option.bind (case m of Obj kvs \<Rightarrow> fmlookup kvs ''topic'' | _ \<Rightarrow> None) as_str)"

fun bus_matches :: "bus_predicate \<Rightarrow> row \<Rightarrow> bool" where
  "bus_matches (FieldEq fld v) data = holds_some (\<lambda>w. json_eq w v) (fmlookup data fld)"
| "bus_matches (FieldNeq fld v) data = holds_some (\<lambda>w. \<not> json_eq w v) (fmlookup data fld)"
| "bus_matches (FieldGt fld x) data = holds_some (\<lambda>n. f64_lt x n) (Option.bind (fmlookup data fld) as_f64)"
| "bus_matches (FieldGte fld x) data = holds_some (\<lambda>n. f64_le x n) (Option.bind (fmlookup data fld) as_f64)"
| "bus_matches (FieldLt fld x) data = holds_some (\<lambda>n. f64_lt n x) (Option.bind (fmlookup data fld) as_f64)"
| "bus_matches (FieldLte fld x) data = holds_some (\<lambda>n. f64_le n x) (Option.bind (fmlookup data fld) as_f64)"
| "bus_matches (TopicEq expected) data = holds_some (\<lambda>t. t = expected) (topic_of data)"
| "bus_matches (AndPred ps) data = list_all (\<lambda>p. bus_matches p data) ps"

definition is_error_record :: "row \<Rightarrow> bool" where
  "is_error_record data \<longleftrightarrow> fmlookup data ''error'' \<noteq> None \<or> fmlookup data ''__error'' \<noteq> None"

text \<open>\<open>meta(topic)\<close> or \<open>mqtt(topic)\<close>.\<close>

definition topic_call :: "expr \<Rightarrow> bool" where
  "topic_call e =
     (case e of
        Call name args \<Rightarrow>
          (to_ascii_lowercase name = ''meta'' \<or> to_ascii_lowercase name = ''mqtt'') \<and> length args = 1 \<and>
          (case hd args of Identifier arg \<Rightarrow> to_ascii_lowercase arg = ''topic'' | _ \<Rightarrow> False)
      | _ \<Rightarrow> False)"

definition column_predicate :: "string \<Rightarrow> binary_operator \<Rightarrow> json \<Rightarrow> bus_predicate option" where
  "column_predicate fld bop lit =
     (case bop of
        Eq \<Rightarrow> Some (FieldEq fld lit)
      | Neq \<Rightarrow> Some (FieldNeq fld lit)
      | Gt \<Rightarrow> map_option (FieldGt fld) (as_f64 lit)
      | Gte \<Rightarrow> map_option (FieldGte fld) (as_f64 lit)
      | Lt \<Rightarrow> map_option (FieldLt fld) (as_f64 lit)
      | Lte \<Rightarrow> map_option (FieldLte fld) (as_f64 lit)
      | _ \<Rightarrow> None)"

definition leaf_predicate :: "expr \<Rightarrow> binary_operator \<Rightarrow> expr \<Rightarrow> bus_predicate option" where
  "leaf_predicate l bop r =
     (case r of
        Literal lit \<Rightarrow>
          if bop = Eq \<and> topic_call l \<and> is_string lit then map_option TopicEq (as_str lit)
          else (case l of Identifier fld \<Rightarrow> column_predicate fld bop lit | _ \<Rightarrow> None)
      | _ \<Rightarrow> None)"

fun extract_bus_predicate :: "expr \<Rightarrow> bus_predicate option" where
  "extract_bus_predicate (BinaryOp l bop r) =
     (if bop = And then
        (case (extract_bus_predicate l, extract_bus_predicate r) of
           (Some p, Some q) \<Rightarrow> Some (AndPred [p, q])
         | (Some p, None) \<Rightarrow> Some p
         | (None, q) \<Rightarrow> q)
      else leaf_predicate l bop r)"
| "extract_bus_predicate e = None"

definition leaf_exhaustive :: "expr \<Rightarrow> binary_operator \<Rightarrow> expr \<Rightarrow> bool" where
  "leaf_exhaustive l bop r =
     (case r of
        Literal lit \<Rightarrow>
          if bop = Eq \<and> topic_call l \<and> is_string lit then True
          else (case l of
                  Identifier fld \<Rightarrow> bop = Eq \<or> bop = Neq \<or> bop \<in> {Gt, Gte, Lt, Lte} \<and> as_f64 lit \<noteq> None
                | _ \<Rightarrow> False)
      | _ \<Rightarrow> False)"

fun is_bus_predicate_exhaustive :: "expr \<Rightarrow> bool" where
  "is_bus_predicate_exhaustive (BinaryOp l bop r) =
     (if bop = And then is_bus_predicate_exhaustive l \<and> is_bus_predicate_exhaustive r
      else leaf_exhaustive l bop r)"
| "is_bus_predicate_exhaustive e = False"

text \<open>The predicate with which a rule subscribes: none for a statement with analytic functions, in
  event time, or when errors are forwarded.\<close>

definition bus_pred :: "bool \<Rightarrow> bool \<Rightarrow> bool \<Rightarrow> expr option \<Rightarrow> bus_predicate option" where
  "bus_pred has_analytic is_event_time send_error cond =
     (if \<not> has_analytic \<and> \<not> is_event_time \<and> \<not> send_error
      then Option.bind cond extract_bus_predicate else None)"

subsection \<open>Channels and topics\<close>

record stream_record =
  sr_timestamp :: int
  sr_data :: row

record channel =
  ch_capacity :: nat
  ch_queue :: "stream_record list"
  ch_taken :: "stream_record list"
  ch_open :: bool
  ch_counters :: counters

type_synonym sender = "nat \<times> bus_predicate option"

record topic =
  tp_senders :: "sender list"
  tp_chans :: "nat \<Rightarrow> channel"
  tp_next :: nat

definition STREAM_QUEUE_CAPACITY :: nat where "STREAM_QUEUE_CAPACITY = 4096"
definition ADMISSION_CHUNK_RECORDS :: nat where "ADMISSION_CHUNK_RECORDS = 512"

definition on_chan :: "nat \<Rightarrow> (channel \<Rightarrow> channel) \<Rightarrow> topic \<Rightarrow> topic" where
  "on_chan i f t = t\<lparr>tp_chans := (tp_chans t)(i := f (tp_chans t i))\<rparr>"

definition topic_default :: topic where
  "topic_default = \<lparr>tp_senders = [], tp_chans = (\<lambda>_. \<lparr>ch_capacity = 1, ch_queue = [], ch_taken = [], ch_open = False,
     ch_counters = counters_init\<rparr>), tp_next = 0\<rparr>"

definition subscribe :: "bus_predicate option \<Rightarrow> counters \<Rightarrow> nat \<Rightarrow> topic \<Rightarrow> topic" where
  "subscribe pred c capacity t =
     t\<lparr>tp_senders := tp_senders t @ [(tp_next t, pred)],
       tp_chans := (tp_chans t)(tp_next t := \<lparr>ch_capacity = max 1 capacity, ch_queue = [], ch_taken = [], ch_open = True, ch_counters = c\<rparr>),
       tp_next := tp_next t + 1\<rparr>"

definition is_open :: "topic \<Rightarrow> nat \<Rightarrow> bool" where
  "is_open t i \<longleftrightarrow> ch_open (tp_chans t i)"

definition snapshot :: "topic \<Rightarrow> nat \<times> sender list" where
  "snapshot t = (length (tp_senders t), filter (\<lambda>(i, _). is_open t i) (tp_senders t))"

definition purge_closed :: "topic \<Rightarrow> topic" where
  "purge_closed t = t\<lparr>tp_senders := filter (\<lambda>(i, _). is_open t i) (tp_senders t)\<rparr>"

text \<open>Whether a record passes a filter, and the counters of the one that does not.\<close>

definition admits :: "bus_predicate option \<Rightarrow> row \<Rightarrow> bool" where
  "admits f data = (case f of None \<Rightarrow> True | Some p \<Rightarrow> bus_matches p data \<or> is_error_record data)"

definition check_and_account :: "sender \<Rightarrow> row \<Rightarrow> topic \<Rightarrow> bool \<times> topic" where
  "check_and_account s data t =
     (case s of
        (i, f) \<Rightarrow>
          if admits f data then (True, t)
          else (False, on_chan i (\<lambda>c. c\<lparr>ch_counters := inc_filtered 1 (inc_source 1 (ch_counters c))\<rparr>) t))"

subsection \<open>What happens meanwhile\<close>

datatype move =
    Take nat
  | Hang_up nat
  | Enter "bus_predicate option" counters nat

fun take_first :: "channel \<Rightarrow> channel" where
  "take_first c = (case ch_queue c of [] \<Rightarrow> c | r # rs \<Rightarrow> c\<lparr>ch_queue := rs, ch_taken := ch_taken c @ [r]\<rparr>)"

fun apply_move :: "topic \<Rightarrow> move \<Rightarrow> topic" where
  "apply_move t (Take i) = on_chan i take_first t"
| "apply_move t (Hang_up i) = on_chan i (\<lambda>c. c\<lparr>ch_open := False\<rparr>) t"
| "apply_move t (Enter f c n) = subscribe f c n t"

type_synonym schedule = "move list list"

definition meanwhile :: "schedule \<Rightarrow> topic \<Rightarrow> schedule \<times> topic" where
  "meanwhile sched t = (case sched of [] \<Rightarrow> ([], t) | ms # rest \<Rightarrow> (rest, foldl apply_move t ms))"

subsection \<open>Reservations\<close>

definition has_room :: "nat \<Rightarrow> nat \<Rightarrow> topic \<Rightarrow> bool" where
  "has_room i n t \<longleftrightarrow> length (ch_queue (tp_chans t i)) + n \<le> ch_capacity (tp_chans t i)"

text \<open>\<open>reserve_many\<close>: refused for a closed channel, and for more slots than the channel can ever
  have.\<close>

fun await_room :: "nat \<Rightarrow> nat \<Rightarrow> schedule \<Rightarrow> topic \<Rightarrow> (bool \<times> schedule \<times> topic) option" where
  "await_room i n sched t =
     (if \<not> is_open t i \<or> ch_capacity (tp_chans t i) < n then Some (False, sched, t)
      else if has_room i n t then Some (True, sched, t)
      else (case sched of [] \<Rightarrow> None | ms # rest \<Rightarrow> await_room i n rest (foldl apply_move t ms)))"

declare await_room.simps [simp del]

definition reserve_many :: "nat \<Rightarrow> nat \<Rightarrow> schedule \<Rightarrow> topic \<Rightarrow> (bool \<times> schedule \<times> topic) option" where
  "reserve_many i n sched t = (case meanwhile sched t of (sched', t') \<Rightarrow> await_room i n sched' t')"

text \<open>\<open>permit.send\<close>: a slot that was reserved is filled even if the receiver has gone since.\<close>

definition commit :: "topic \<Rightarrow> nat \<times> stream_record list \<Rightarrow> topic" where
  "commit t p = (case p of (i, rs) \<Rightarrow> on_chan i (\<lambda>c. c\<lparr>ch_queue := ch_queue c @ rs\<rparr>) t)"

datatype publish_error = NoSubscribers | Full | Closed

type_synonym published = "((publish_error + nat) \<times> schedule \<times> topic) option"

subsection \<open>Publishing a batch\<close>

text \<open>The records of a chunk that pass the filter of a sender, with the rejected ones counted.\<close>

fun matching :: "sender \<Rightarrow> stream_record list \<Rightarrow> topic \<Rightarrow> stream_record list \<times> topic" where
  "matching s [] t = ([], t)"
| "matching s (r # rs) t =
     (case check_and_account s (sr_data r) t of
        (keep, t1) \<Rightarrow> (case matching s rs t1 of (ms, t2) \<Rightarrow> (if keep then r # ms else ms, t2)))"

fun sub_matches :: "sender list \<Rightarrow> stream_record list \<Rightarrow> topic \<Rightarrow> (nat \<times> stream_record list) list \<times> topic" where
  "sub_matches [] chunk t = ([], t)"
| "sub_matches (s # ss) chunk t =
     (case matching s chunk t of
        (ms, t1) \<Rightarrow> (case sub_matches ss chunk t1 of
           (rest, t2) \<Rightarrow> (if ms = [] then rest else (fst s, ms) # rest, t2)))"

text \<open>Reserving capacity for every sender with matching records: the permits and the senders found
  closed.\<close>

fun reserve_all :: "(nat \<times> stream_record list) list \<Rightarrow> schedule \<Rightarrow> topic
    \<Rightarrow> ((nat \<times> stream_record list) list \<times> nat list \<times> schedule \<times> topic) option" where
  "reserve_all [] sched t = Some ([], [], sched, t)"
| "reserve_all ((i, ms) # rest) sched t =
     (case reserve_many i (length ms) sched t of
        None \<Rightarrow> None
      | Some (granted, sched1, t1) \<Rightarrow>
          map_option (\<lambda>(permits, gone, st). (if granted then (i, ms) # permits else permits, if granted then gone else i # gone, st))
            (reserve_all rest sched1 t1))"

function batch_loop :: "bool \<Rightarrow> sender list \<Rightarrow> stream_record list \<Rightarrow> u64 \<Rightarrow> schedule \<Rightarrow> topic
    \<Rightarrow> ((publish_error + nat) \<times> u64 \<times> schedule \<times> topic) option" where
  "batch_loop committed selected records undelivered sched t =
     (if records = [] then Some (Inr (length selected), undelivered, sched, t)
      else
        (case sub_matches selected (take ADMISSION_CHUNK_RECORDS records) t of
           (hits, t1) \<Rightarrow>
             if hits = [] then
               batch_loop True selected (drop ADMISSION_CHUNK_RECORDS records) undelivered sched t1
             else
               (case reserve_all hits sched t1 of
                  None \<Rightarrow> None
                | Some (permits, gone, sched', t2) \<Rightarrow>
                    (let undelivered' = (if committed \<and> gone \<noteq> [] then undelivered + of_nat (length gone * length records) else undelivered)
                     in if permits = [] then
                          Some (if committed then Inr 0 else Inl Closed, undelivered', sched', purge_closed t2)
                        else
                          (let t3 = foldl commit t2 permits
                           in batch_loop True (filter (\<lambda>(i, _). i \<notin> set gone) selected) (drop ADMISSION_CHUNK_RECORDS records)
                                undelivered' sched' (if gone = [] then t3 else purge_closed t3))))))"
  by pat_completeness auto

termination
  by (relation "measure (\<lambda>(committed, selected, records, _). length records)") (auto simp: ADMISSION_CHUNK_RECORDS_def)

declare batch_loop.simps [simp del]

definition publish_batch_topic :: "stream_record list \<Rightarrow> u64 \<Rightarrow> schedule \<Rightarrow> topic
    \<Rightarrow> ((publish_error + nat) \<times> u64 \<times> schedule \<times> topic) option" where
  "publish_batch_topic records undelivered sched t =
     (if records = [] then Some (Inr 0, undelivered, sched, t)
      else
        (case snapshot t of
           (registered, selected) \<Rightarrow>
             if registered = 0 then Some (Inr 0, undelivered, sched, t)
             else
               (let t1 = (if length selected < registered then purge_closed t else t)
                in if selected = [] then Some (Inl Closed, undelivered, sched, t1)
                   else batch_loop False selected records undelivered sched t1)))"

subsection \<open>Publishing one record\<close>

text \<open>The path for a topic with a single sender: \<open>None\<close> where it falls through to the general
  path.\<close>

definition single_path :: "stream_record \<Rightarrow> schedule \<Rightarrow> topic \<Rightarrow> published option" where
  "single_path r sched t =
     (case tp_senders t of
        [] \<Rightarrow> Some (Some (Inr 0, sched, t))
      | [s] \<Rightarrow>
          Some (case check_and_account s (sr_data r) t of
                  (keep, t1) \<Rightarrow>
                    if \<not> keep then Some (Inr 0, sched, t1)
                    else
                      (case reserve_many (fst s) 1 sched t1 of
                         None \<Rightarrow> None
                       | Some (granted, sched', t2) \<Rightarrow>
                           if granted then Some (Inr 1, sched', commit t2 (fst s, [r]))
                           else Some (Inl Closed, sched', purge_closed t2)))
      | _ \<Rightarrow> None)"

text \<open>The general path checks a sender and reserves its slot before it looks at the next one: whether
  some sender passed, the permits, whether one was closed.\<close>

fun reserve_each :: "sender list \<Rightarrow> row \<Rightarrow> schedule \<Rightarrow> topic \<Rightarrow> (bool \<times> nat list \<times> bool \<times> schedule \<times> topic) option" where
  "reserve_each [] data sched t = Some (False, [], False, sched, t)"
| "reserve_each (s # ss) data sched t =
     (case check_and_account s data t of
        (keep, t1) \<Rightarrow>
          if \<not> keep then reserve_each ss data sched t1
          else
            (case reserve_many (fst s) 1 sched t1 of
               None \<Rightarrow> None
             | Some (granted, sched', t2) \<Rightarrow>
                 map_option (\<lambda>(passed, permits, gone, st). (True, if granted then fst s # permits else permits, gone \<or> \<not> granted, st))
                   (reserve_each ss data sched' t2)))"

definition multi_path :: "stream_record \<Rightarrow> schedule \<Rightarrow> topic \<Rightarrow> published" where
  "multi_path r sched t =
     (case snapshot t of
        (registered, selected) \<Rightarrow>
          if registered = 0 then Some (Inr 0, sched, t)
          else
            (let t1 = (if length selected < registered then purge_closed t else t)
             in if selected = [] then Some (Inl Closed, sched, t1)
                else
                  (case reserve_each selected (sr_data r) sched t1 of
                     None \<Rightarrow> None
                   | Some (passed, permits, gone, sched', t2) \<Rightarrow>
                       (let t3 = (if gone then purge_closed t2 else t2)
                        in if permits = [] then Some (if passed then Inl Closed else Inr 0, sched', t3)
                           else Some (Inr (length permits), sched', foldl commit t3 (map (\<lambda>i. (i, [r])) permits))))))"

definition publish_async_topic :: "bool \<Rightarrow> stream_record \<Rightarrow> schedule \<Rightarrow> topic \<Rightarrow> published" where
  "publish_async_topic batch_active r sched t =
     (case if batch_active then None else single_path r sched t of
        Some res \<Rightarrow> res
      | None \<Rightarrow>
          (case meanwhile sched t of
             (sched1, t1) \<Rightarrow>
               (case single_path r sched1 t1 of
                  Some res \<Rightarrow> res
                | None \<Rightarrow> multi_path r sched1 t1)))"

text \<open>\<open>try_reserve\<close> never waits: the answer is a slot, full, or closed.\<close>

datatype slot = Slot | NoSlot | Gone

definition try_reserve :: "nat \<Rightarrow> schedule \<Rightarrow> topic \<Rightarrow> slot \<times> schedule \<times> topic" where
  "try_reserve i sched t =
     (case meanwhile sched t of
        (sched', t') \<Rightarrow>
          (if \<not> is_open t' i then Gone else if has_room i 1 t' then Slot else NoSlot, sched', t'))"

fun active_senders :: "sender list \<Rightarrow> row \<Rightarrow> topic \<Rightarrow> nat list \<times> topic" where
  "active_senders [] data t = ([], t)"
| "active_senders (s # ss) data t =
     (case check_and_account s data t of
        (keep, t1) \<Rightarrow>
          (case active_senders ss data t1 of (is, t2) \<Rightarrow> (if keep then fst s # is else is, t2)))"

text \<open>The permits of a non-blocking publish; \<open>None\<close> for the permits when some queue is full.\<close>

fun try_reserve_all :: "nat list \<Rightarrow> schedule \<Rightarrow> topic \<Rightarrow> nat list option \<times> schedule \<times> topic" where
  "try_reserve_all [] sched t = (Some [], sched, t)"
| "try_reserve_all (i # is) sched t =
     (case try_reserve i sched t of
        (answer, sched1, t1) \<Rightarrow>
          (case answer of
             NoSlot \<Rightarrow> (None, sched1, t1)
           | Gone \<Rightarrow> try_reserve_all is sched1 t1
           | Slot \<Rightarrow>
               (case try_reserve_all is sched1 t1 of
                  (permits, st) \<Rightarrow> (map_option ((#) i) permits, st))))"

definition try_single :: "stream_record \<Rightarrow> schedule \<Rightarrow> topic \<Rightarrow> ((publish_error + nat) \<times> schedule \<times> topic) option" where
  "try_single r sched t =
     (case tp_senders t of
        [] \<Rightarrow> Some (Inl NoSubscribers, sched, t)
      | [s] \<Rightarrow>
          Some (case check_and_account s (sr_data r) t of
                  (keep, t1) \<Rightarrow>
                    if \<not> keep then (Inr 0, sched, t1)
                    else
                      (case try_reserve (fst s) sched t1 of
                         (answer, sched', t2) \<Rightarrow>
                           (case answer of
                              Slot \<Rightarrow> (Inr 1, sched', commit t2 (fst s, [r]))
                            | Gone \<Rightarrow> (Inl Closed, sched', purge_closed t2)
                            | NoSlot \<Rightarrow> (Inl Full, sched', t2))))
      | _ \<Rightarrow> None)"

definition try_general :: "bool \<Rightarrow> stream_record \<Rightarrow> schedule \<Rightarrow> topic \<Rightarrow> (publish_error + nat) \<times> schedule \<times> topic" where
  "try_general gate_free r sched t =
     (case snapshot t of
        (registered, selected) \<Rightarrow>
          if \<not> gate_free then (Inl (if registered = 0 then NoSubscribers else Full), sched, t)
          else if registered = 0 then (Inl NoSubscribers, sched, t)
          else
            (let t1 = (if length selected < registered then purge_closed t else t)
             in if selected = [] then (Inl Closed, sched, t1)
                else
                  (case active_senders selected (sr_data r) t1 of
                     (active, t2) \<Rightarrow>
                       if active = [] then (Inr 0, sched, t2)
                       else
                         (case try_reserve_all active sched t2 of
                            (permits, sched', t3) \<Rightarrow>
                              (case permits of
                                 None \<Rightarrow> (Inl Full, sched', t3)
                               | Some [] \<Rightarrow> (Inl Closed, sched', purge_closed t3)
                               | Some is \<Rightarrow> (Inr (length is), sched', foldl commit t3 (map (\<lambda>i. (i, [r])) is)))))))"

definition try_publish_topic :: "bool \<Rightarrow> bool \<Rightarrow> stream_record \<Rightarrow> schedule \<Rightarrow> topic \<Rightarrow> (publish_error + nat) \<times> schedule \<times> topic" where
  "try_publish_topic batch_active gate_free r sched t =
     (case if batch_active then None else try_single r sched t of
        Some res \<Rightarrow> res
      | None \<Rightarrow> (case meanwhile sched t of (sched1, t1) \<Rightarrow> try_general gate_free r sched1 t1))"

subsection \<open>The bus\<close>

record stream_bus =
  sb_topics :: "(string, topic) fmap"
  sb_undelivered :: u64

definition bus_new :: stream_bus where
  "bus_new = \<lparr>sb_topics = fmempty, sb_undelivered = 0\<rparr>"

definition get_or_create_topic :: "string \<Rightarrow> stream_bus \<Rightarrow> topic \<times> stream_bus" where
  "get_or_create_topic name b =
     (case fmlookup (sb_topics b) name of
        Some t \<Rightarrow> (t, b)
      | None \<Rightarrow> (topic_default, b\<lparr>sb_topics := fmupd name topic_default (sb_topics b)\<rparr>))"

definition subscribe_with_capacity :: "string \<Rightarrow> nat \<Rightarrow> stream_bus \<Rightarrow> stream_bus" where
  "subscribe_with_capacity name capacity b =
     (case get_or_create_topic name b of
        (t, b') \<Rightarrow> b'\<lparr>sb_topics := fmupd name (subscribe None counters_init capacity t) (sb_topics b')\<rparr>)"

definition subscribe_filtered_with_capacity :: "string \<Rightarrow> bus_predicate \<Rightarrow> counters \<Rightarrow> nat \<Rightarrow> stream_bus \<Rightarrow> stream_bus" where
  "subscribe_filtered_with_capacity name pred c capacity b =
     (case get_or_create_topic name b of
        (t, b') \<Rightarrow> b'\<lparr>sb_topics := fmupd name (subscribe (Some pred) c capacity t) (sb_topics b')\<rparr>)"

definition publish_async :: "string \<Rightarrow> bool \<Rightarrow> stream_record \<Rightarrow> schedule \<Rightarrow> stream_bus
    \<Rightarrow> ((publish_error + nat) \<times> schedule \<times> stream_bus) option" where
  "publish_async name batch_active r sched b =
     (case fmlookup (sb_topics b) name of
        None \<Rightarrow> Some (Inr 0, sched, b)
      | Some t \<Rightarrow>
          map_option (\<lambda>(res, sched', t'). (res, sched', b\<lparr>sb_topics := fmupd name t' (sb_topics b)\<rparr>))
            (publish_async_topic batch_active r sched t))"

definition publish_batch :: "string \<Rightarrow> stream_record list \<Rightarrow> schedule \<Rightarrow> stream_bus
    \<Rightarrow> ((publish_error + nat) \<times> schedule \<times> stream_bus) option" where
  "publish_batch name records sched b =
     (case fmlookup (sb_topics b) name of
        None \<Rightarrow> Some (Inr 0, sched, b)
      | Some t \<Rightarrow>
          map_option (\<lambda>(res, u, sched', t'). (res, sched', b\<lparr>sb_topics := fmupd name t' (sb_topics b), sb_undelivered := u\<rparr>))
            (publish_batch_topic records (sb_undelivered b) sched t))"

definition try_publish :: "string \<Rightarrow> bool \<Rightarrow> bool \<Rightarrow> stream_record \<Rightarrow> schedule \<Rightarrow> stream_bus
    \<Rightarrow> (publish_error + nat) \<times> schedule \<times> stream_bus" where
  "try_publish name batch_active gate_free r sched b =
     (case fmlookup (sb_topics b) name of
        None \<Rightarrow> (Inl NoSubscribers, sched, b)
      | Some t \<Rightarrow>
          (case try_publish_topic batch_active gate_free r sched t of
             (res, sched', t') \<Rightarrow> (res, sched', b\<lparr>sb_topics := fmupd name t' (sb_topics b)\<rparr>)))"

definition publish_sync :: "string \<Rightarrow> bool \<Rightarrow> bool \<Rightarrow> stream_record \<Rightarrow> schedule \<Rightarrow> stream_bus
    \<Rightarrow> (publish_error + nat) \<times> schedule \<times> stream_bus" where
  "publish_sync name batch_active gate_free r sched b =
     (case try_publish name batch_active gate_free r sched b of
        (res, st) \<Rightarrow> (if res = Inl NoSubscribers then Inr 0 else res, st))"

definition backlog_hint :: "topic \<Rightarrow> nat" where
  "backlog_hint t =
     Max (set (0 # map (\<lambda>(i, _). STREAM_QUEUE_CAPACITY - (ch_capacity (tp_chans t i) - length (ch_queue (tp_chans t i)))) (tp_senders t)))"

end
