(* ===== verification/Bus_Batch.thy ===== *)
theory Bus_Batch
  imports StreamBus
begin

text \<open>
  Topics, one round of a batch, the loop over the chunks, and waiting for room. \<open>quiet\<close> relates the
  topics before and after anything but the delivery of a record: every subscriber has received the
  same records.
\<close>

subsection \<open>Topics\<close>

text \<open>The records a subscriber has been given, taken or not.\<close>

definition received :: "topic \<Rightarrow> nat \<Rightarrow> stream_record list" where
  "received t i = ch_taken (tp_chans t i) @ ch_queue (tp_chans t i)"

definition capacity_of :: "topic \<Rightarrow> nat \<Rightarrow> nat" where
  "capacity_of t i = ch_capacity (tp_chans t i)"

definition backlog :: "topic \<Rightarrow> nat \<Rightarrow> nat" where
  "backlog t i = length (ch_queue (tp_chans t i))"

definition topic_wf :: "topic \<Rightarrow> bool" where
  "topic_wf t \<longleftrightarrow> distinct (map fst (tp_senders t)) \<and> (\<forall>i\<in>fst ` set (tp_senders t). i < tp_next t) \<and>
     (\<forall>i<tp_next t. 0 < capacity_of t i \<and> backlog t i \<le> capacity_of t i)"

definition wanted :: "bus_predicate option \<Rightarrow> stream_record list \<Rightarrow> stream_record list" where
  "wanted f rs = filter (\<lambda>r. admits f (sr_data r)) rs"

definition quiet :: "topic \<Rightarrow> topic \<Rightarrow> bool" where
  "quiet t t' \<longleftrightarrow> tp_next t \<le> tp_next t' \<and> (topic_wf t \<longrightarrow> topic_wf t') \<and>
     (\<forall>i<tp_next t. received t' i = received t i \<and> capacity_of t' i = capacity_of t i \<and>
        backlog t' i \<le> backlog t i \<and> (is_open t' i \<longrightarrow> is_open t i))"

lemma quiet_refl [simp]: "quiet t t"
  by (simp add: quiet_def)

lemma quiet_trans: "quiet t t' \<Longrightarrow> quiet t' t'' \<Longrightarrow> quiet t t''"
  unfolding quiet_def by (metis order.strict_trans2 order_trans)

lemma quietD:
  assumes "quiet t t'"
  shows "tp_next t \<le> tp_next t'" "topic_wf t \<Longrightarrow> topic_wf t'" "i < tp_next t \<Longrightarrow> received t' i = received t i"
    "i < tp_next t \<Longrightarrow> capacity_of t' i = capacity_of t i" "i < tp_next t \<Longrightarrow> backlog t' i \<le> backlog t i"
    "i < tp_next t \<Longrightarrow> is_open t' i \<Longrightarrow> is_open t i"
  using assms by (auto simp: quiet_def)

lemmas chan_simps = received_def capacity_of_def backlog_def is_open_def on_chan_def

lemma quiet_on_chan:
  assumes "\<And>c. ch_taken (f c) @ ch_queue (f c) = ch_taken c @ ch_queue c" "\<And>c. ch_capacity (f c) = ch_capacity c"
    "\<And>c. length (ch_queue (f c)) \<le> length (ch_queue c)" "\<And>c. ch_open (f c) \<longrightarrow> ch_open c"
  shows "quiet t (on_chan i f t)"
  using assms order_trans by (fastforce simp: quiet_def topic_wf_def chan_simps)

lemma quiet_subscribe: "quiet t (subscribe f c n t)"
  by (auto simp: quiet_def topic_wf_def chan_simps subscribe_def)

lemma quiet_move: "quiet t (apply_move t m)"
proof (cases m)
  case (Take i)
  then show ?thesis by (auto intro!: quiet_on_chan split: list.splits)
next
  case (Hang_up i)
  then show ?thesis by (auto intro!: quiet_on_chan)
qed (simp add: quiet_subscribe)

lemma quiet_moves: "quiet t (foldl apply_move t ms)"
  by (induction ms arbitrary: t) (auto intro: quiet_trans quiet_move)

lemma quiet_meanwhile: "meanwhile sched t = (sched', t') \<Longrightarrow> quiet t t'"
  by (auto simp: meanwhile_def quiet_moves split: list.splits)

lemma quiet_purge [simp]: "quiet t (purge_closed t)"
  by (auto simp: quiet_def topic_wf_def chan_simps purge_closed_def intro: distinct_map_filter)

lemma quiet_account:
  "check_and_account s data t = (keep, t') \<Longrightarrow> quiet t t' \<and> keep = admits (snd s) data"
  by (auto simp: check_and_account_def intro!: quiet_on_chan split: prod.splits if_splits)

lemma quiet_await: "await_room i n sched t = Some (granted, sched', t') \<Longrightarrow> quiet t t' \<and>
    (granted \<longrightarrow> has_room i n t') \<and> (\<not> granted \<longrightarrow> \<not> is_open t' i \<or> capacity_of t' i < n)"
proof (induction sched arbitrary: t)
  case Nil
  then show ?case by (auto simp: await_room.simps capacity_of_def split: if_splits)
next
  case (Cons ms sched)
  then show ?case
    by (subst (asm) (2) await_room.simps) (auto simp: capacity_of_def split: if_splits intro: quiet_trans quiet_moves)
qed

lemma quiet_reserve:
  assumes "reserve_many i n sched t = Some (granted, sched', t')"
  shows "quiet t t'" "granted \<Longrightarrow> has_room i n t'" "\<not> granted \<Longrightarrow> \<not> is_open t' i \<or> capacity_of t' i < n"
  using assms quiet_await quiet_meanwhile quiet_trans
  by (auto simp: reserve_many_def split: prod.splits) blast+

subsection \<open>One chunk\<close>

lemma matching_spec: "matching s rs t = (ms, t') \<Longrightarrow> quiet t t' \<and> ms = wanted (snd s) rs"
proof (induction rs arbitrary: t ms t')
  case (Cons r rs)
  obtain keep t1 where a: "check_and_account s (sr_data r) t = (keep, t1)" by fastforce
  obtain ms1 t2 where m: "matching s rs t1 = (ms1, t2)" by fastforce
  have "t' = t2" "ms = (if keep then r # ms1 else ms1)" using Cons.prems a m by auto
  moreover have "quiet t t2" using Cons.IH[OF m] quiet_account[OF a] quiet_trans by blast
  ultimately show ?case using Cons.IH[OF m] quiet_account[OF a] by (simp add: wanted_def)
qed (simp add: wanted_def)

lemma sub_matches_spec:
  "sub_matches ss rs t = (hits, t') \<Longrightarrow>
     quiet t t' \<and> hits = filter (\<lambda>(i, ms). ms \<noteq> []) (map (\<lambda>(i, f). (i, wanted f rs)) ss)"
proof (induction ss arbitrary: t hits t')
  case (Cons s ss)
  obtain ms t1 where m: "matching s rs t = (ms, t1)" by fastforce
  obtain rest t2 where r: "sub_matches ss rs t1 = (rest, t2)" by fastforce
  have "t' = t2" "hits = (if ms = [] then rest else (fst s, ms) # rest)" using Cons.prems m r by auto
  moreover have "quiet t t2" using Cons.IH[OF r] matching_spec[OF m] quiet_trans by blast
  ultimately show ?case using Cons.IH[OF r] matching_spec[OF m] by (cases s) auto
qed simp

lemma reserve_all_spec:
  "reserve_all hits sched t = Some (permits, gone, sched', t') \<Longrightarrow> distinct (map fst hits) \<Longrightarrow>
   \<forall>i\<in>fst ` set hits. i < tp_next t \<Longrightarrow>
     quiet t t' \<and> permits = filter (\<lambda>(i, ms). i \<notin> set gone) hits \<and> set gone \<subseteq> fst ` set hits \<and>
     (\<forall>(i, ms)\<in>set hits. if i \<in> set gone then \<not> is_open t' i \<or> capacity_of t i < length ms
        else backlog t' i + length ms \<le> capacity_of t i)"
proof (induction hits arbitrary: sched t permits gone)
  case (Cons h hits)
  obtain i ms where h: "h = (i, ms)" by fastforce
  obtain granted sched1 t1 where r: "reserve_many i (length ms) sched t = Some (granted, sched1, t1)"
    using Cons.prems(1) h by (auto split: option.splits)
  obtain permits1 gone1 where rest: "reserve_all hits sched1 t1 = Some (permits1, gone1, sched', t')"
    and now: "permits = (if granted then (i, ms) # permits1 else permits1)" "gone = (if granted then gone1 else i # gone1)"
    using Cons.prems(1) h r by (auto split: option.splits)
  have q1: "quiet t t1" using quiet_reserve(1)[OF r] .
  have below: "\<forall>i\<in>fst ` set hits. i < tp_next t1" using Cons.prems(3) q1 by (auto simp: quiet_def)
  have IH: "quiet t1 t'" "permits1 = filter (\<lambda>(i, ms). i \<notin> set gone1) hits" "set gone1 \<subseteq> fst ` set hits"
    "\<forall>(i, ms)\<in>set hits. if i \<in> set gone1 then \<not> is_open t' i \<or> capacity_of t1 i < length ms
        else backlog t' i + length ms \<le> capacity_of t1 i"
    using Cons.IH[OF rest] Cons.prems(2) below by simp_all
  have i: "i < tp_next t" "i \<notin> fst ` set hits" using Cons.prems h by auto
  have q: "quiet t t'" using q1 IH(1) by (rule quiet_trans)
  have cap: "capacity_of t1 j = capacity_of t j" if "j < tp_next t" for j using q1 that by (simp add: quiet_def)
  have hit: "if granted then backlog t' i + length ms \<le> capacity_of t i else \<not> is_open t' i \<or> capacity_of t i < length ms"
  proof (cases granted)
    case True
    then have "backlog t1 i + length ms \<le> capacity_of t1 i"
      using quiet_reserve(2)[OF r] by (simp add: has_room_def chan_simps)
    moreover have "backlog t' i \<le> backlog t1 i" using IH(1) i(1) q1 by (auto simp: quiet_def)
    ultimately show ?thesis using True cap[OF i(1)] by simp
  next
    case False
    then have "\<not> is_open t1 i \<or> capacity_of t1 i < length ms" using quiet_reserve(3)[OF r] by simp
    then show ?thesis using False cap[OF i(1)] IH(1) i(1) q1 by (auto simp: quiet_def)
  qed
  have fresh: "i \<notin> set gone1" using IH(3) i(2) by auto
  have others: "j \<noteq> i" if "(j, ns) \<in> set hits" for j ns using that i(2) by force
  have "permits = filter (\<lambda>(i, ms). i \<notin> set gone) (h # hits)"
    using now fresh IH(2) others h by (auto intro!: filter_cong)
  moreover have "\<forall>(j, ns)\<in>set (h # hits). if j \<in> set gone then \<not> is_open t' j \<or> capacity_of t j < length ns
        else backlog t' j + length ns \<le> capacity_of t j"
    using hit now fresh IH(4) others h cap Cons.prems(3) by (fastforce split: if_splits)
  ultimately show ?case using q now IH(3) h by auto
qed simp

lemma is_open_commits: "is_open (foldl commit t ps) i = is_open t i"
proof (induction ps arbitrary: t)
  case (Cons p ps)
  have "is_open (commit t p) i = is_open t i" by (cases p) (simp add: commit_def chan_simps)
  then show ?case using Cons.IH[of "commit t p"] by simp
qed simp

lemma commit_spec:
  "distinct (map fst ps) \<Longrightarrow>
     received (foldl commit t ps) i = received t i @ (case map_of ps i of Some rs \<Rightarrow> rs | None \<Rightarrow> []) \<and>
     backlog (foldl commit t ps) i = backlog t i + (case map_of ps i of Some rs \<Rightarrow> length rs | None \<Rightarrow> 0) \<and>
     capacity_of (foldl commit t ps) i = capacity_of t i \<and> is_open (foldl commit t ps) i = is_open t i \<and>
     tp_senders (foldl commit t ps) = tp_senders t \<and> tp_next (foldl commit t ps) = tp_next t"
proof (induction ps arbitrary: t)
  case (Cons p ps)
  have "map_of ps (fst p) = None" using Cons.prems by (simp add: map_of_eq_None_iff)
  then show ?case using Cons.IH[of "commit t p"] Cons.prems
    by (cases p) (auto simp: commit_def chan_simps split: option.split)
qed simp

text \<open>What one round of the loop leaves: every sender that was not dropped has received what it wants
  of the chunk, nobody else anything.\<close>

definition round_ok :: "sender list \<Rightarrow> stream_record list \<Rightarrow> nat list \<Rightarrow> topic \<Rightarrow> topic \<Rightarrow> bool" where
  "round_ok selected chunk gone t t' \<longleftrightarrow>
     tp_next t \<le> tp_next t' \<and> (topic_wf t \<longrightarrow> topic_wf t') \<and>
     (\<forall>(i, f)\<in>set selected. received t' i = received t i @ (if i \<in> set gone then [] else wanted f chunk)) \<and>
     (\<forall>i<tp_next t. (i \<notin> fst ` set selected \<longrightarrow> received t' i = received t i) \<and>
        capacity_of t' i = capacity_of t i \<and> (is_open t' i \<longrightarrow> is_open t i))"

lemma distinct_hits:
  "distinct (map fst ss) \<Longrightarrow> distinct (map fst (filter P (map (\<lambda>(i, f). (i, wanted f rs)) ss)))"
  by (rule distinct_map_filter) (simp add: comp_def split_def)

lemma map_of_hits:
  fixes gone :: "nat list" and rs :: "stream_record list"
  assumes d: "distinct (map fst ss)" and i: "(i, f) \<in> set ss"
  defines "hits \<equiv> filter (\<lambda>(i, ms). i \<notin> set gone) (filter (\<lambda>(i, ms). ms \<noteq> []) (map (\<lambda>(i, f). (i, wanted f rs)) ss))"
  shows "map_of hits i = (if i \<in> set gone \<or> wanted f rs = [] then None else Some (wanted f rs))"
proof (cases "i \<in> set gone \<or> wanted f rs = []")
  case True
  have "g = f" if "(i, g) \<in> set ss" for g using eq_key_imp_eq_value[OF d that i] .
  then have "i \<notin> fst ` set hits" using True unfolding hits_def by auto
  then show ?thesis using True by (simp add: map_of_eq_None_iff)
next
  case False
  have "distinct (map fst hits)" unfolding hits_def by (intro distinct_map_filter distinct_hits d)
  moreover have "(i, wanted f rs) \<in> set hits" unfolding hits_def using False i by force
  ultimately show ?thesis using False by simp
qed

lemma length_wanted_le: "length (wanted f rs) \<le> length rs"
  by (simp add: wanted_def)

lemma round_spec:
  assumes "sub_matches ss chunk t = (hits, t1)" "reserve_all hits sched t1 = Some (permits, gone, sched', t2)"
    and "distinct (map fst ss)" "\<forall>i\<in>fst ` set ss. i < tp_next t"
  shows "round_ok ss chunk gone t (foldl commit t2 permits)" "permits = [] \<Longrightarrow> quiet t t2"
    "i \<in> set gone \<Longrightarrow> i \<in> fst ` set ss \<and> (\<not> is_open t2 i \<or> capacity_of t i < length chunk)"
    "permits = [] \<Longrightarrow> hits \<noteq> [] \<Longrightarrow> gone \<noteq> []"
proof -
  have hits: "hits = filter (\<lambda>(i, ms). ms \<noteq> []) (map (\<lambda>(i, f). (i, wanted f chunk)) ss)" and q1: "quiet t t1"
    using sub_matches_spec[OF assms(1)] by auto
  have d: "distinct (map fst hits)" unfolding hits using assms(3) by (rule distinct_hits)
  have in_ss: "fst ` set hits \<subseteq> fst ` set ss" unfolding hits by force
  have below: "\<forall>i\<in>fst ` set hits. i < tp_next t1" using in_ss assms(4) q1 unfolding quiet_def by (meson order.strict_trans2 subsetD)
  note r = reserve_all_spec[OF assms(2) d below]
  have permits: "permits = filter (\<lambda>(i, ms). i \<notin> set gone) hits" and gone: "set gone \<subseteq> fst ` set hits"
    and q2: "quiet t1 t2" using r by simp_all
  have each: "if i \<in> set gone then \<not> is_open t2 i \<or> capacity_of t1 i < length ms else backlog t2 i + length ms \<le> capacity_of t1 i"
    if "(i, ms) \<in> set hits" for i ms using r that by auto
  have q: "quiet t t2" using q1 q2 by (rule quiet_trans)
  then show "permits = [] \<Longrightarrow> quiet t t2" by simp
  show "permits = [] \<Longrightarrow> hits \<noteq> [] \<Longrightarrow> gone \<noteq> []" using permits by (cases hits) auto
  have dp: "distinct (map fst permits)" unfolding permits using d by (rule distinct_map_filter)
  note c = commit_spec[OF dp, of t2]
  have lookup: "map_of permits i = (if i \<in> set gone \<or> wanted f chunk = [] then None else Some (wanted f chunk))"
    if "(i, f) \<in> set ss" for i f unfolding permits hits using map_of_hits[OF assms(3) that] .
  have outside: "map_of permits i = None" if "i \<notin> fst ` set ss" for i
    using that in_ss unfolding permits by (auto simp: map_of_eq_None_iff)
  have fits: "backlog t2 i + length ms \<le> capacity_of t2 i" if "map_of permits i = Some ms" for i ms
  proof -
    have m: "(i, ms) \<in> set hits" "i \<notin> set gone" using map_of_SomeD[OF that] unfolding permits by auto
    then have "backlog t2 i + length ms \<le> capacity_of t1 i" using each by force
    moreover have "capacity_of t2 i = capacity_of t1 i" using below m(1) by (intro quietD(4)[OF q2]) force
    ultimately show ?thesis by simp
  qed
  have wf: "topic_wf (foldl commit t2 permits)" if "topic_wf t2"
    using that c fits unfolding topic_wf_def by (force split: option.split)
  have own: "received (foldl commit t2 permits) i = received t i @ (if i \<in> set gone then [] else wanted f chunk)"
    if "(i, f) \<in> set ss" for i f
  proof -
    have "i < tp_next t" using assms(4) that by force
    then show ?thesis using conjunct1[OF c[of i]] lookup[OF that] quietD(3)[OF q] by simp
  qed
  have other: "received (foldl commit t2 permits) i = received t i" if "i < tp_next t" "i \<notin> fst ` set ss" for i
    using conjunct1[OF c[of i]] outside[OF that(2)] quietD(3)[OF q that(1)] by simp
  show "round_ok ss chunk gone t (foldl commit t2 permits)"
    unfolding round_ok_def
  proof (intro conjI)
    show "tp_next t \<le> tp_next (foldl commit t2 permits)" using c quietD(1)[OF q] by simp
    show "topic_wf t \<longrightarrow> topic_wf (foldl commit t2 permits)" using quietD(2)[OF q] wf by blast
  qed (use own other c quietD(4,6)[OF q] in auto)
  show "i \<in> fst ` set ss \<and> (\<not> is_open t2 i \<or> capacity_of t i < length chunk)" if g: "i \<in> set gone"
  proof -
    obtain ms where ms: "(i, ms) \<in> set hits" using gone g by force
    have "\<not> is_open t2 i \<or> capacity_of t1 i < length ms" using each[OF ms] g by simp
    moreover have "length ms \<le> length chunk" using ms length_wanted_le unfolding hits by auto
    moreover have i: "i \<in> fst ` set ss" using ms in_ss by force
    moreover have "capacity_of t1 i = capacity_of t i" using i assms(4) by (intro quietD(4)[OF q1]) blast
    ultimately show ?thesis by auto
  qed
qed

subsection \<open>The whole batch\<close>

definition batch_ok :: "bool \<Rightarrow> sender list \<Rightarrow> stream_record list \<Rightarrow> topic \<Rightarrow> publish_error + nat \<Rightarrow> topic \<Rightarrow> bool" where
  "batch_ok committed ss rs t res t' \<longleftrightarrow>
     tp_next t \<le> tp_next t' \<and> (topic_wf t \<longrightarrow> topic_wf t') \<and>
     (\<forall>i<tp_next t. (i \<notin> fst ` set ss \<longrightarrow> received t' i = received t i) \<and>
        capacity_of t' i = capacity_of t i \<and> (is_open t' i \<longrightarrow> is_open t i)) \<and>
     (\<forall>(i, f)\<in>set ss. \<exists>k. received t' i = received t i @ wanted f (take (k * ADMISSION_CHUNK_RECORDS) rs)) \<and>
     (\<forall>e. res = Inl e \<longrightarrow> \<not> committed \<and> e = Closed \<and> (\<forall>i<tp_next t. received t' i = received t i)) \<and>
     ((\<forall>(i, f)\<in>set ss. is_open t' i \<and> min ADMISSION_CHUNK_RECORDS (length rs) \<le> capacity_of t i) \<longrightarrow>
        res = Inr (length ss) \<and> (\<forall>(i, f)\<in>set ss. received t' i = received t i @ wanted f rs))"

lemma batch_okD:
  assumes "batch_ok committed ss rs t res t'"
  shows "tp_next t \<le> tp_next t'" "topic_wf t \<Longrightarrow> topic_wf t'"
    "i < tp_next t \<Longrightarrow> i \<notin> fst ` set ss \<Longrightarrow> received t' i = received t i"
    "i < tp_next t \<Longrightarrow> capacity_of t' i = capacity_of t i" "i < tp_next t \<Longrightarrow> is_open t' i \<Longrightarrow> is_open t i"
    "(i, f) \<in> set ss \<Longrightarrow> \<exists>k. received t' i = received t i @ wanted f (take (k * ADMISSION_CHUNK_RECORDS) rs)"
    "res = Inl e \<Longrightarrow> \<not> committed \<and> e = Closed"
    "res = Inl e \<Longrightarrow> i < tp_next t \<Longrightarrow> received t' i = received t i"
    "(\<And>i f. (i, f) \<in> set ss \<Longrightarrow> is_open t' i \<and> min ADMISSION_CHUNK_RECORDS (length rs) \<le> capacity_of t i) \<Longrightarrow>
       res = Inr (length ss) \<and> (\<forall>(i, f)\<in>set ss. received t' i = received t i @ wanted f rs)"
  using assms unfolding batch_ok_def by blast+

lemma round_okD:
  assumes "round_ok ss chunk gone t t'"
  shows "tp_next t \<le> tp_next t'" "topic_wf t \<Longrightarrow> topic_wf t'"
    "(i, f) \<in> set ss \<Longrightarrow> received t' i = received t i @ (if i \<in> set gone then [] else wanted f chunk)"
    "i < tp_next t \<Longrightarrow> i \<notin> fst ` set ss \<Longrightarrow> received t' i = received t i"
    "i < tp_next t \<Longrightarrow> capacity_of t' i = capacity_of t i" "i < tp_next t \<Longrightarrow> is_open t' i \<Longrightarrow> is_open t i"
  using assms unfolding round_ok_def by blast+

lemma wanted_chunks: "wanted f (take n rs) @ wanted f (take (k * n) (drop n rs)) = wanted f (take (Suc k * n) rs)"
  by (simp add: wanted_def take_add flip: filter_append)

lemma wanted_split: "wanted f (take n rs) @ wanted f (drop n rs) = wanted f rs"
  by (simp add: wanted_def flip: filter_append)

lemma batch_ok_step:
  assumes r: "round_ok ss (take ADMISSION_CHUNK_RECORDS rs) gone t t1"
    and b: "batch_ok True (filter (\<lambda>(i, _). i \<notin> set gone) ss) (drop ADMISSION_CHUNK_RECORDS rs) t1 res t'"
    and below: "\<forall>i\<in>fst ` set ss. i < tp_next t"
    and gone: "\<And>i. i \<in> set gone \<Longrightarrow> i \<in> fst ` set ss \<and> (\<not> is_open t1 i \<or> capacity_of t i < min ADMISSION_CHUNK_RECORDS (length rs))"
  shows "batch_ok committed ss rs t res t'"
proof -
  let ?n = ADMISSION_CHUNK_RECORDS
  note rD = round_okD[OF r] and bD = batch_okD[OF b]
  have up: "i < tp_next t1" if "i < tp_next t" for i using that rD(1) by simp
  have keep1: "received t1 i = received t i @ (if i \<in> set gone then [] else wanted f (take ?n rs))" if "(i, f) \<in> set ss" for i f
    using rD(3)[OF that] .
  have same: "capacity_of t1 i = capacity_of t i" "capacity_of t' i = capacity_of t i" "is_open t' i \<Longrightarrow> is_open t1 i" "is_open t' i \<Longrightarrow> is_open t i"
    if "i < tp_next t" for i using rD(5,6)[OF that] bD(4,5)[OF up[OF that]] by simp_all
  have rest: "\<exists>k. received t' i = received t1 i @ wanted f (take (k * ?n) (drop ?n rs))" if "(i, f) \<in> set ss" "i \<notin> set gone" for i f
    using bD(6)[of i f] that by simp
  have out: "received t' i = received t1 i" if "i < tp_next t" "i \<notin> fst ` set ss \<or> i \<in> set gone" for i
    using that(2) by (intro bD(3)[OF up[OF that(1)]]) auto
  have "\<exists>k. received t' i = received t i @ wanted f (take (k * ?n) rs)" if m: "(i, f) \<in> set ss" for i f
  proof (cases "i \<in> set gone")
    case True
    then have "received t' i = received t i" using out keep1[OF m] below m by force
    then have "received t' i = received t i @ wanted f (take (0 * ?n) rs)" by (simp add: wanted_def)
    then show ?thesis by blast
  next
    case False
    then obtain k where "received t' i = received t1 i @ wanted f (take (k * ?n) (drop ?n rs))" using rest[OF m] by blast
    then have "received t' i = received t i @ wanted f (take (Suc k * ?n) rs)" using keep1[OF m] False wanted_chunks by simp
    then show ?thesis by blast
  qed
  moreover have "res = Inr (length ss) \<and> (\<forall>(i, f)\<in>set ss. received t' i = received t i @ wanted f rs)"
    if all: "\<forall>(i, f)\<in>set ss. is_open t' i \<and> min ?n (length rs) \<le> capacity_of t i"
  proof -
    have none: "set gone = {}"
    proof (rule equals0I)
      fix i assume g: "i \<in> set gone"
      then obtain f where f: "(i, f) \<in> set ss" using gone by force
      then have "is_open t1 i" "min ?n (length rs) \<le> capacity_of t i" using all same(3)[of i] below by force+
      then show False using gone[OF g] by linarith
    qed
    then have "filter (\<lambda>(i, _). i \<notin> set gone) ss = ss" by simp
    moreover have "is_open t' i \<and> min ?n (length (drop ?n rs)) \<le> capacity_of t1 i" if "(i, f) \<in> set ss" for i f
      using all same(1)[of i] below that by force
    ultimately have "res = Inr (length ss)" "\<forall>(i, f)\<in>set ss. received t' i = received t1 i @ wanted f (drop ?n rs)"
      using bD(9) by simp_all
    then show ?thesis using keep1 none wanted_split by fastforce
  qed
  moreover have "res \<noteq> Inl e" for e using bD(7) by blast
  moreover have "received t' i = received t i" if "i < tp_next t" "i \<notin> fst ` set ss" for i
    using out that rD(4) by simp
  moreover have "tp_next t \<le> tp_next t'" "topic_wf t \<longrightarrow> topic_wf t'" using rD(1,2) bD(1,2) by auto
  ultimately show ?thesis unfolding batch_ok_def using same(2,4) by blast
qed

lemma round_ok_purge: "round_ok ss chunk gone t t' \<Longrightarrow> round_ok ss chunk gone t (if P then t' else purge_closed t')"
  by (simp add: round_ok_def purge_closed_def topic_wf_def chan_simps) (auto intro: distinct_map_filter)

lemma round_ok_quiet:
  assumes "quiet t t'" "\<forall>i\<in>fst ` set ss. i < tp_next t" "\<And>i f. (i, f) \<in> set ss \<Longrightarrow> wanted f chunk = []"
  shows "round_ok ss chunk [] t t'"
  using quietD[OF assms(1)] assms(2,3) unfolding round_ok_def by fastforce

lemma batch_ok_quiet:
  assumes "quiet t t'" "\<forall>i\<in>fst ` set ss. i < tp_next t" "committed \<longrightarrow> res = Inr 0" "\<not> committed \<longrightarrow> res = Inl Closed"
    and "\<exists>(i, f)\<in>set ss. \<not> is_open t' i \<or> capacity_of t i < min ADMISSION_CHUNK_RECORDS (length rs)"
  shows "batch_ok committed ss rs t res t'"
proof -
  have "received t' i = received t i @ wanted f (take (0 * ADMISSION_CHUNK_RECORDS) rs)" if "(i, f) \<in> set ss" for i f
    using quietD(3)[OF assms(1)] assms(2) that by (force simp: wanted_def)
  then have "\<forall>(i, f)\<in>set ss. \<exists>k. received t' i = received t i @ wanted f (take (k * ADMISSION_CHUNK_RECORDS) rs)" by blast
  moreover have "\<not> (\<forall>(i, f)\<in>set ss. is_open t' i \<and> min ADMISSION_CHUNK_RECORDS (length rs) \<le> capacity_of t i)"
    using assms(5) by fastforce
  moreover have "res = Inl e \<Longrightarrow> \<not> committed \<and> e = Closed" for e using assms(3,4) by auto
  ultimately show ?thesis unfolding batch_ok_def using quietD[OF assms(1)] by blast
qed

lemma batch_loop_spec:
  "batch_loop committed ss rs u sched t = Some (res, u', sched', t') \<Longrightarrow> distinct (map fst ss) \<Longrightarrow>
     \<forall>i\<in>fst ` set ss. i < tp_next t \<Longrightarrow> batch_ok committed ss rs t res t'"
proof (induction committed ss rs u sched t rule: batch_loop.induct)
  case (1 committed ss rs u sched t)
  let ?chunk = "take ADMISSION_CHUNK_RECORDS rs" and ?rest = "drop ADMISSION_CHUNK_RECORDS rs"
  note run = "1.prems"(1) and d = "1.prems"(2) and below = "1.prems"(3)
  show ?case
  proof (cases "rs = []")
    case True
    then have "res = Inr (length ss)" "t' = t" using run by (simp_all add: batch_loop.simps[of committed])
    then show ?thesis using True by (simp add: batch_ok_def wanted_def)
  next
    case False
    obtain hits t1 where m: "sub_matches ss ?chunk t = (hits, t1)" by fastforce
    have hits: "hits = filter (\<lambda>(i, ms). ms \<noteq> []) (map (\<lambda>(i, f). (i, wanted f ?chunk)) ss)" and q1: "quiet t t1"
      using sub_matches_spec[OF m] by auto
    have below1: "\<forall>i\<in>fst ` set ss. i < tp_next t1" using below quietD(1)[OF q1] by (meson order.strict_trans2)
    show ?thesis
    proof (cases "hits = []")
      case True
      then have run1: "batch_loop True ss ?rest u sched t1 = Some (res, u', sched', t')"
        using run False m by (simp add: batch_loop.simps[of committed])
      have b: "batch_ok True ss ?rest t1 res t'" using "1.IH"(1)[OF False m[symmetric] True run1 d below1] .
      have "wanted f ?chunk = []" if "(i, f) \<in> set ss" for i f
        using True that unfolding hits by (auto simp: filter_empty_conv)
      then have "round_ok ss ?chunk [] t t1" using round_ok_quiet[OF q1 below] by blast
      then show ?thesis using b below by (intro batch_ok_step[of ss rs "[]" t t1]) auto
    next
      case nonempty: False
      obtain permits gone sched1 t2 where ra: "reserve_all hits sched t1 = Some (permits, gone, sched1, t2)"
        using run False nonempty m by (auto simp: batch_loop.simps[of committed] split: option.splits)
      note rd = round_spec[OF m ra d below]
      have gone: "i \<in> fst ` set ss \<and> (\<not> is_open t2 i \<or> capacity_of t i < min ADMISSION_CHUNK_RECORDS (length rs))" if "i \<in> set gone" for i
        using rd(3)[OF that] by simp
      show ?thesis
      proof (cases "permits = []")
        case True
        have res: "res = (if committed then Inr 0 else Inl Closed)" "t' = purge_closed t2"
          using run False nonempty m ra True by (auto simp: batch_loop.simps[of committed] Let_def)
        have "quiet t t'" using rd(2)[OF True] res(2) quiet_trans quiet_purge by blast
        moreover obtain i where "i \<in> set gone" using rd(4)[OF True nonempty] by (cases gone) auto
        then have "\<exists>(i, f)\<in>set ss. \<not> is_open t' i \<or> capacity_of t i < min ADMISSION_CHUNK_RECORDS (length rs)"
          using gone res(2) by (fastforce simp: purge_closed_def is_open_def)
        ultimately show ?thesis using batch_ok_quiet[OF _ below] res(1) by simp
      next
        case granted: False
        let ?t3 = "foldl commit t2 permits" and ?ss = "filter (\<lambda>(i, _). i \<notin> set gone) ss"
        let ?t4 = "if gone = [] then ?t3 else purge_closed ?t3"
        have r: "round_ok ss ?chunk gone t ?t4" using round_ok_purge[OF rd(1), of "gone = []"] by simp
        let ?u = "if committed \<and> gone \<noteq> [] then u + of_nat (length gone * length rs) else u"
        have run1: "batch_loop True ?ss ?rest ?u sched1 ?t4 = Some (res, u', sched', t')"
          using run False nonempty m ra granted by (simp add: batch_loop.simps[of committed] Let_def)
        have "distinct (map fst ?ss)" using d by (rule distinct_map_filter)
        moreover have "\<forall>i\<in>fst ` set ?ss. i < tp_next ?t4" using below round_okD(1)[OF r] by force
        ultimately have b: "batch_ok True ?ss ?rest ?t4 res t'" 
          using "1.IH"(2)[OF False m[symmetric] nonempty ra refl refl refl refl granted refl run1] by simp
        have "is_open ?t4 i = is_open t2 i" for i
          using is_open_commits by (simp add: purge_closed_def is_open_def)
        then show ?thesis using batch_ok_step[OF r b below] gone by simp
      qed
    qed
  qed
qed

subsection \<open>Waiting\<close>

lemma moves_backlog: "i < tp_next t \<Longrightarrow> backlog (foldl apply_move t ms) i \<le> backlog t i - count_list ms (Take i)"
proof (induction ms arbitrary: t)
  case (Cons m ms)
  have "i < tp_next (apply_move t m)" using Cons.prems quietD(1)[OF quiet_move] by (rule order.strict_trans2)
  then have "backlog (foldl apply_move t (m # ms)) i \<le> backlog (apply_move t m) i - count_list ms (Take i)"
    using Cons.IH by simp
  moreover have "backlog (apply_move t m) i \<le> backlog t i - (if m = Take i then 1 else 0)"
    using quietD(5)[OF quiet_move Cons.prems, of m] by (auto simp: chan_simps split: list.split)
  ultimately show ?case by auto
qed simp

definition drains :: "(nat \<Rightarrow> nat) \<Rightarrow> nat set \<Rightarrow> move list \<Rightarrow> bool" where
  "drains cap is ms \<longleftrightarrow> (\<forall>i\<in>is. cap i \<le> count_list ms (Take i))"

lemma reserve_many_returns:
  assumes "topic_wf t" "i < tp_next t" "sched = ms # rest" "capacity_of t i \<le> count_list ms (Take i)"
  shows "\<exists>granted t'. reserve_many i n sched t = Some (granted, rest, t')"
proof -
  let ?t = "foldl apply_move t ms"
  have "backlog t i \<le> capacity_of t i" using assms(1,2) by (simp add: topic_wf_def)
  then have "backlog ?t i = 0" using moves_backlog[OF assms(2), of ms] assms(4) by simp
  then show ?thesis using assms(3)
    by (auto simp: reserve_many_def meanwhile_def await_room.simps has_room_def backlog_def)
qed

lemma reserve_all_returns:
  "topic_wf t \<Longrightarrow> \<forall>i\<in>fst ` set hits. i < tp_next t \<Longrightarrow> length hits \<le> length sched \<Longrightarrow>
   \<forall>ms\<in>set sched. drains (capacity_of t) (fst ` set hits) ms \<Longrightarrow>
     \<exists>permits gone t'. reserve_all hits sched t = Some (permits, gone, drop (length hits) sched, t')"
proof (induction hits arbitrary: sched t)
  case (Cons h hits)
  obtain i ns where h: "h = (i, ns)" by fastforce
  obtain ms rest where sched: "sched = ms # rest" using Cons.prems(3) by (cases sched) auto
  have i: "i < tp_next t" "capacity_of t i \<le> count_list ms (Take i)" using Cons.prems(2,4) h sched by (auto simp: drains_def)
  obtain granted t1 where r: "reserve_many i (length ns) sched t = Some (granted, rest, t1)"
    using reserve_many_returns[OF Cons.prems(1) i(1) sched i(2)] by blast
  have q: "quiet t t1" using quiet_reserve(1)[OF r] .
  have "\<forall>i\<in>fst ` set hits. i < tp_next t1" using Cons.prems(2) quietD(1)[OF q] by (auto intro: order.strict_trans2)
  moreover have "\<forall>ms\<in>set rest. drains (capacity_of t1) (fst ` set hits) ms"
    using Cons.prems(2,4) quietD(4)[OF q] sched by (auto simp: drains_def)
  ultimately have "\<exists>permits gone t'. reserve_all hits rest t1 = Some (permits, gone, drop (length hits) rest, t')"
    using Cons.IH[of t1 rest] quietD(2)[OF q Cons.prems(1)] Cons.prems(3) sched by simp
  then show ?case using r h sched by auto
qed simp

definition chunk_count :: "'a list \<Rightarrow> nat" where
  "chunk_count rs = (length rs + (ADMISSION_CHUNK_RECORDS - 1)) div ADMISSION_CHUNK_RECORDS"

lemma chunk_count_drop:
  assumes "rs \<noteq> []"
  shows "chunk_count rs = Suc (chunk_count (drop ADMISSION_CHUNK_RECORDS rs))"
proof (cases "length rs \<le> 512")
  case True
  have "length rs + 511 = length rs - 1 + 1 * 512" "length rs - 1 < 512" using assms True by (cases rs; simp)+
  then have "(length rs + 511) div 512 = 1" by simp
  then show ?thesis using True by (simp add: chunk_count_def ADMISSION_CHUNK_RECORDS_def)
next
  case False
  then have "length rs + 511 = length rs - 512 + 511 + 1 * 512" by simp
  then show ?thesis by (simp add: chunk_count_def ADMISSION_CHUNK_RECORDS_def)
qed

lemma batch_loop_returns:
  "topic_wf t \<Longrightarrow> distinct (map fst ss) \<Longrightarrow> \<forall>i\<in>fst ` set ss. i < tp_next t \<Longrightarrow> length ss * chunk_count rs \<le> length sched \<Longrightarrow>
   \<forall>ms\<in>set sched. drains (capacity_of t) (fst ` set ss) ms \<Longrightarrow> \<exists>r. batch_loop committed ss rs u sched t = Some r"
proof (induction committed ss rs u sched t rule: batch_loop.induct)
  case (1 committed ss rs u sched t)
  let ?chunk = "take ADMISSION_CHUNK_RECORDS rs" and ?rest = "drop ADMISSION_CHUNK_RECORDS rs"
  note wf = "1.prems"(1) and d = "1.prems"(2) and below = "1.prems"(3) and long = "1.prems"(4) and fair = "1.prems"(5)
  show ?case
  proof (cases "rs = []")
    case False
    obtain hits t1 where m: "sub_matches ss ?chunk t = (hits, t1)" by fastforce
    have hits: "hits = filter (\<lambda>(i, ms). ms \<noteq> []) (map (\<lambda>(i, f). (i, wanted f ?chunk)) ss)" and q1: "quiet t t1"
      using sub_matches_spec[OF m] by auto
    have below1: "\<forall>i\<in>fst ` set ss. i < tp_next t1" using below quietD(1)[OF q1] by (meson order.strict_trans2)
    have fair1: "\<forall>ms\<in>set sched. drains (capacity_of t1) (fst ` set ss) ms"
      using fair below quietD(4)[OF q1] by (auto simp: drains_def)
    have in_ss: "fst ` set hits \<subseteq> fst ` set ss" "length hits \<le> length ss"
      unfolding hits by (force, metis length_filter_le length_map)
    have step: "length ss + length ss * chunk_count ?rest \<le> length sched" using long chunk_count_drop[OF False] by simp
    show ?thesis
    proof (cases "hits = []")
      case True
      then have "\<exists>r. batch_loop True ss ?rest u sched t1 = Some r"
        using "1.IH"(1)[OF False m[symmetric] True quietD(2)[OF q1 wf] d below1 _ fair1] step by simp
      then show ?thesis using False m True by (simp add: batch_loop.simps[of committed])
    next
      case nonempty: False
      have "\<forall>ms\<in>set sched. drains (capacity_of t1) (fst ` set hits) ms" using fair1 in_ss(1) unfolding drains_def by blast
      then obtain permits gone t2 where ra: "reserve_all hits sched t1 = Some (permits, gone, drop (length hits) sched, t2)"
        using reserve_all_returns[OF quietD(2)[OF q1 wf], of hits sched] below1 in_ss step by force
      note rd = round_spec[OF m ra d below]
      show ?thesis
      proof (cases "permits = []")
        case True
        then show ?thesis using False nonempty m ra by (simp add: batch_loop.simps[of committed] Let_def)
      next
        case granted: False
        let ?t3 = "foldl commit t2 permits" and ?ss = "filter (\<lambda>(i, _). i \<notin> set gone) ss" and ?sched = "drop (length hits) sched"
        let ?t4 = "if gone = [] then ?t3 else purge_closed ?t3"
        have r: "round_ok ss ?chunk gone t ?t4" using round_ok_purge[OF rd(1), of "gone = []"] by simp
        have "length ?ss * chunk_count ?rest \<le> length ss * chunk_count ?rest" by (simp add: length_filter_le mult_le_mono1)
        then have "length ?ss * chunk_count ?rest \<le> length ?sched"
          using step in_ss(2) unfolding length_drop by linarith
        moreover have "\<forall>i\<in>fst ` set ?ss. i < tp_next ?t4" using below round_okD(1)[OF r] by force
        moreover have "\<forall>ms\<in>set ?sched. drains (capacity_of ?t4) (fst ` set ?ss) ms"
        proof
          fix ms assume "ms \<in> set ?sched"
          then have "drains (capacity_of t) (fst ` set ss) ms" using fair in_set_dropD by fast
          moreover have "capacity_of ?t4 i = capacity_of t i" if "i \<in> fst ` set ss" for i using round_okD(5)[OF r] below that by blast
          ultimately show "drains (capacity_of ?t4) (fst ` set ?ss) ms" unfolding drains_def by force
        qed
        moreover have "distinct (map fst ?ss)" using d by (rule distinct_map_filter)
        ultimately show ?thesis
          using "1.IH"(2)[OF False m[symmetric] nonempty ra refl refl refl refl granted refl round_okD(2)[OF r wf]]
            False nonempty m ra granted by (simp add: batch_loop.simps[of committed] Let_def)
      qed
    qed
  qed (simp add: batch_loop.simps[of committed])
qed

subsection \<open>Subscribers that stay\<close>

text \<open>A subscriber that is there and does not hang up within the schedule.\<close>

definition stays :: "nat \<Rightarrow> schedule \<Rightarrow> topic \<Rightarrow> bool" where
  "stays i sched t \<longleftrightarrow> i < tp_next t \<and> is_open t i \<and> (\<forall>ms\<in>set sched. Hang_up i \<notin> set ms)"

lemma move_stays: "Hang_up i \<noteq> m \<Longrightarrow> i < tp_next t \<and> is_open t i \<Longrightarrow> i < tp_next (apply_move t m) \<and> is_open (apply_move t m) i"
  by (cases m) (auto simp: chan_simps subscribe_def split: list.splits)

lemma moves_stay:
  "Hang_up i \<notin> set ms \<Longrightarrow> i < tp_next t \<and> is_open t i \<Longrightarrow>
   i < tp_next (foldl apply_move t ms) \<and> is_open (foldl apply_move t ms) i"
proof (induction ms arbitrary: t)
  case (Cons m ms)
  then show ?case using move_stays[of i m t] by simp
qed simp

lemma stays_pause: "stays i (ms # rest) t \<Longrightarrow> stays i rest (foldl apply_move t ms)"
  by (simp add: stays_def moves_stay)

lemma stays_await: "await_room j n sched t = Some (g, sched', t') \<Longrightarrow> stays i sched t \<Longrightarrow> stays i sched' t'"
proof (induction sched arbitrary: t)
  case (Cons ms rest)
  then show ?case
    by (subst (asm) (2) await_room.simps) (auto split: if_splits dest: stays_pause)
qed (auto simp: await_room.simps split: if_splits)

lemma stays_reserve: "reserve_many j n sched t = Some (g, sched', t') \<Longrightarrow> stays i sched t \<Longrightarrow> stays i sched' t'"
  by (auto simp: reserve_many_def meanwhile_def dest: stays_await stays_pause split: list.splits)

lemma stays_reserve_all:
  "reserve_all hits sched t = Some (permits, gone, sched', t') \<Longrightarrow> stays i sched t \<Longrightarrow> stays i sched' t'"
proof (induction hits arbitrary: sched t permits gone)
  case (Cons h hits)
  obtain j ns where h: "h = (j, ns)" by fastforce
  then show ?case using Cons by (auto split: option.splits dest!: stays_reserve)
qed simp

lemma stays_chan: "stays i sched (on_chan j f t) = stays i sched t" if "\<And>c. ch_open (f c) = ch_open c"
  using that by (simp add: stays_def chan_simps)

lemma stays_matching: "matching s rs t = (ms, t') \<Longrightarrow> stays i sched t' = stays i sched t"
proof (induction rs arbitrary: t ms)
  case (Cons r rs)
  have "stays i sched t1 = stays i sched t" if "check_and_account s (sr_data r) t = (keep, t1)" for keep t1
    using that by (auto simp: check_and_account_def stays_chan split: prod.splits if_splits)
  with Cons show ?case by (auto split: prod.splits)
qed simp

lemma stays_matches: "sub_matches ss chunk t = (hits, t') \<Longrightarrow> stays i sched t' = stays i sched t"
proof (induction ss arbitrary: t hits)
  case (Cons s ss)
  obtain ms t1 where m: "matching s chunk t = (ms, t1)" by fastforce
  obtain rest t2 where r: "sub_matches ss chunk t1 = (rest, t2)" by fastforce
  have "t' = t2" using Cons.prems m r by simp
  then show ?case using Cons.IH[of t1 rest] r stays_matching[OF m, of i sched] by simp
qed simp

lemma stays_commits: "stays i sched (foldl commit t ps) = stays i sched t"
proof -
  have "tp_next (foldl commit t ps) = tp_next t"
    by (induction ps arbitrary: t) (simp_all add: commit_def on_chan_def split_beta)
  then show ?thesis by (simp add: stays_def is_open_commits)
qed

lemma stays_purge [simp]: "stays i sched (purge_closed t) = stays i sched t"
  by (simp add: stays_def purge_closed_def is_open_def)

lemma stays_batch:
  "batch_loop committed ss rs u sched t = Some (res, u', sched', t') \<Longrightarrow> stays i sched t \<Longrightarrow> stays i sched' t'"
proof (induction committed ss rs u sched t rule: batch_loop.induct)
  case (1 committed ss rs u sched t)
  show ?case
  proof (cases "rs = []")
    case True
    then show ?thesis using "1.prems" by (simp add: batch_loop.simps[of committed])
  next
    case False
    obtain hits t1 where m: "sub_matches ss (take ADMISSION_CHUNK_RECORDS rs) t = (hits, t1)" by fastforce
    have s1: "stays i sched t1" using stays_matches[OF m] "1.prems"(2) by simp
    show ?thesis
    proof (cases "hits = []")
      case True
      then show ?thesis
        using "1.IH"(1)[OF False m[symmetric] True _ s1] "1.prems"(1) False m by (simp add: batch_loop.simps[of committed])
    next
      case nonempty: False
      obtain permits gone sched1 t2 where ra: "reserve_all hits sched t1 = Some (permits, gone, sched1, t2)"
        using "1.prems"(1) False nonempty m by (auto simp: batch_loop.simps[of committed] split: option.splits)
      have s2: "stays i sched1 t2" using stays_reserve_all[OF ra s1] .
      show ?thesis
      proof (cases "permits = []")
        case True
        then show ?thesis
          using "1.prems"(1) False nonempty m ra s2 by (auto simp: batch_loop.simps[of committed] Let_def)
      next
        case granted: False
        have "stays i sched1 (if gone = [] then foldl commit t2 permits else purge_closed (foldl commit t2 permits))"
          using s2 by (simp add: stays_commits)
        then show ?thesis
          using "1.IH"(2)[OF False m[symmetric] nonempty ra refl refl refl refl granted refl] "1.prems"(1)
            False nonempty m ra granted by (simp add: batch_loop.simps[of committed] Let_def)
      qed
    qed
  qed
qed

end
