(* ===== verification/Bus_Single.thy ===== *)
theory Bus_Single
  imports Bus_Batch
begin

text \<open>Publishing one record: the paths of \<open>publish_async_topic\<close> and \<open>try_publish_topic\<close>.\<close>

definition sent_to :: "topic \<Rightarrow> stream_record \<Rightarrow> nat list \<Rightarrow> topic \<Rightarrow> bool" where
  "sent_to t r is t' \<longleftrightarrow> (topic_wf t \<longrightarrow> topic_wf t') \<and> tp_next t \<le> tp_next t' \<and>
     (\<forall>i<tp_next t. received t' i = received t i @ (if i \<in> set is then [r] else []) \<and> (is_open t' i \<longrightarrow> is_open t i))"

lemma sent_to_none: "quiet t t' \<Longrightarrow> sent_to t r [] t'"
  by (auto simp: sent_to_def dest: quietD)

lemma map_of_one: "map_of (map (\<lambda>i. (i, [r])) is) i = (if i \<in> set is then Some [r] else None)"
  by (induction "is") auto

lemma sent_to_commit:
  assumes "quiet t t2" "distinct is" "\<And>i. i \<in> set is \<Longrightarrow> Suc (backlog t2 i) \<le> capacity_of t2 i"
  shows "sent_to t r is (foldl commit t2 (map (\<lambda>i. (i, [r])) is))"
proof -
  have d: "distinct (map fst (map (\<lambda>i. (i, [r])) is))" using assms(2) by (simp add: comp_def)
  note c = commit_spec[OF d, of t2, unfolded map_of_one]
  have "topic_wf (foldl commit t2 (map (\<lambda>i. (i, [r])) is))" if "topic_wf t2"
    using that c assms(3) unfolding topic_wf_def by (force split: if_splits)
  then show ?thesis using c quietD[OF assms(1)] unfolding sent_to_def by auto
qed

text \<open>What is true of the permits of a publish: senders that pass, each once, and all of them but the
  closed ones.\<close>

definition permitted :: "sender list \<Rightarrow> row \<Rightarrow> topic \<Rightarrow> nat list \<Rightarrow> bool" where
  "permitted ss data t is \<longleftrightarrow> distinct is \<and> (\<forall>i\<in>set is. \<exists>f. (i, f) \<in> set ss \<and> admits f data) \<and>
     (\<forall>(i, f)\<in>set ss. admits f data \<and> is_open t i \<longrightarrow> i \<in> set is)"

lemma permittedD:
  assumes "permitted ss data t is"
  shows "distinct is" "i \<in> set is \<Longrightarrow> \<exists>f. (i, f) \<in> set ss \<and> admits f data"
    "(i, f) \<in> set ss \<Longrightarrow> admits f data \<Longrightarrow> is_open t i \<Longrightarrow> i \<in> set is"
  using assms by (auto simp: permitted_def)

lemma active_senders_spec:
  "active_senders ss data t = (is, t') \<Longrightarrow> quiet t t' \<and> is = map fst (filter (\<lambda>(i, f). admits f data) ss)"
proof (induction ss arbitrary: t "is" t')
  case (Cons s ss)
  obtain keep t1 where a: "check_and_account s data t = (keep, t1)" by fastforce
  obtain is1 t2 where m: "active_senders ss data t1 = (is1, t2)" by fastforce
  have "t' = t2" "is = (if keep then fst s # is1 else is1)" using Cons.prems a m by auto
  moreover have "quiet t t2" using Cons.IH[OF m] quiet_account[OF a] quiet_trans by blast
  ultimately show ?case using Cons.IH[OF m] quiet_account[OF a] by (cases s) simp
qed simp

lemma try_reserve_spec:
  assumes "try_reserve i sched t = (answer, sched', t')"
  shows "quiet t t'" "answer = Gone \<longleftrightarrow> \<not> is_open t' i" "answer = Slot \<Longrightarrow> Suc (backlog t' i) \<le> capacity_of t' i"
  using assms quiet_meanwhile
  by (auto simp: try_reserve_def has_room_def backlog_def capacity_of_def split: prod.splits if_splits)

lemma try_reserve_all_spec:
  "try_reserve_all is sched t = (permits, sched', t') \<Longrightarrow> distinct is \<Longrightarrow> \<forall>i\<in>set is. i < tp_next t \<Longrightarrow>
     quiet t t' \<and> (\<forall>js. permits = Some js \<longrightarrow> distinct js \<and> set js \<subseteq> set is \<and>
       (\<forall>i\<in>set is. if i \<in> set js then Suc (backlog t' i) \<le> capacity_of t' i else \<not> is_open t' i))"
proof (induction "is" arbitrary: sched t permits)
  case (Cons i "is")
  obtain answer sched1 t1 where r: "try_reserve i sched t = (answer, sched1, t1)" by (metis prod_cases3)
  note tr = try_reserve_spec[OF r]
  have i: "i < tp_next t1" "\<forall>j\<in>set is. j < tp_next t1" using Cons.prems(3) quietD(1)[OF tr(1)] by auto
  show ?case
  proof (cases "answer = NoSlot")
    case True
    then show ?thesis using Cons.prems(1) r tr(1) by simp
  next
    case False
    obtain permits1 st where m: "try_reserve_all is sched1 t1 = (permits1, st)" by (meson surj_pair)
    have st: "st = (sched', t')" "permits = (if answer = Slot then map_option ((#) i) permits1 else permits1)"
      using Cons.prems(1) r m False by (cases answer; simp)+
    have IH: "quiet t1 t'" "\<forall>js. permits1 = Some js \<longrightarrow> distinct js \<and> set js \<subseteq> set is \<and>
       (\<forall>i\<in>set is. if i \<in> set js then Suc (backlog t' i) \<le> capacity_of t' i else \<not> is_open t' i)"
      using Cons.IH[of sched1 t1 permits1] m st(1) Cons.prems(2) i(2) by simp_all
    have "if answer = Slot then Suc (backlog t' i) \<le> capacity_of t' i else \<not> is_open t' i"
      using tr(2,3) False quietD(4,5,6)[OF IH(1) i(1)] by (cases answer) auto
    then show ?thesis using IH st(2) quiet_trans[OF tr(1) IH(1)] Cons.prems(2) by (cases permits1) auto
  qed
qed simp

lemma reserve_each_spec:
  "reserve_each ss data sched t = Some (passed, permits, gone, sched', t') \<Longrightarrow> distinct (map fst ss) \<Longrightarrow>
   \<forall>i\<in>fst ` set ss. i < tp_next t \<Longrightarrow> topic_wf t \<Longrightarrow>
     quiet t t' \<and> permitted ss data t' permits \<and> (\<forall>i\<in>set permits. Suc (backlog t' i) \<le> capacity_of t' i)"
proof (induction ss arbitrary: sched t passed permits gone)
  case (Cons s ss)
  obtain i f where s: "s = (i, f)" by fastforce
  obtain keep t1 where a: "check_and_account s data t = (keep, t1)" by fastforce
  have q1: "quiet t t1" "keep = admits f data" using quiet_account[OF a] s by auto
  have d: "distinct (map fst ss)" "i \<notin> fst ` set ss" using Cons.prems(2) s by auto
  show ?case
  proof (cases keep)
    case False
    have "\<forall>i\<in>fst ` set ss. i < tp_next t1" using Cons.prems(3) quietD(1)[OF q1(1)] by auto
    then have "quiet t1 t' \<and> permitted ss data t' permits \<and> (\<forall>i\<in>set permits. Suc (backlog t' i) \<le> capacity_of t' i)"
      using Cons.IH[of sched t1 passed permits gone] Cons.prems(1) a False d(1) quietD(2)[OF q1(1) Cons.prems(4)] by simp
    then show ?thesis using q1 False s quiet_trans[OF q1(1)] unfolding permitted_def by fastforce
  next
    case True
    obtain granted sched1 t2 where r: "reserve_many i 1 sched t1 = Some (granted, sched1, t2)"
      using Cons.prems(1) a True s by (auto split: option.splits)
    note rs = quiet_reserve[OF r]
    obtain passed1 permits1 gone1 where rest: "reserve_each ss data sched1 t2 = Some (passed1, permits1, gone1, sched', t')"
      and now: "permits = (if granted then i # permits1 else permits1)"
      using Cons.prems(1) a True s r by (auto split: option.splits)
    have q2: "quiet t t2" using q1(1) rs(1) by (rule quiet_trans)
    have below: "i < tp_next t2" "\<forall>i\<in>fst ` set ss. i < tp_next t2" using Cons.prems(3) s quietD(1)[OF q2] by auto
    have IH: "quiet t2 t'" "permitted ss data t' permits1" "\<forall>i\<in>set permits1. Suc (backlog t' i) \<le> capacity_of t' i"
      using Cons.IH[OF rest d(1) below(2) quietD(2)[OF q2 Cons.prems(4)]] by auto
    have own: "if granted then Suc (backlog t' i) \<le> capacity_of t' i else \<not> is_open t' i \<or> capacity_of t' i = 0"
      using rs(2,3) quietD(4,5,6)[OF IH(1) below(1)] by (auto simp: has_room_def chan_simps)
    have fresh: "i \<notin> set permits1" using IH(2) d(2) unfolding permitted_def by force
    have "permitted (s # ss) data t' permits" if "0 < capacity_of t' i"
      using IH(2) own that now fresh True q1(2) s unfolding permitted_def by (auto split: if_splits)
    moreover have "0 < capacity_of t' i"
      using quietD(2)[OF quiet_trans[OF q2 IH(1)] Cons.prems(4)] below(1) quietD(1)[OF IH(1)] by (auto simp: topic_wf_def)
    ultimately show ?thesis using quiet_trans[OF q2 IH(1)] own now IH(3) by auto
  qed
qed (simp add: permitted_def)

text \<open>The outcome of publishing one record.\<close>

definition outcome_ok :: "topic \<Rightarrow> stream_record \<Rightarrow> publish_error + nat \<Rightarrow> topic \<Rightarrow> bool" where
  "outcome_ok t r res t' \<longleftrightarrow> topic_wf t' \<and>
     (case res of
        Inl e \<Rightarrow> \<forall>i<tp_next t. received t' i = received t i
      | Inr n \<Rightarrow>
          \<exists>is. distinct is \<and> length is = n \<and>
            (\<forall>i<tp_next t. received t' i = received t i @ (if i \<in> set is then [r] else [])) \<and>
            (\<forall>(i, f)\<in>set (tp_senders t). (i \<in> set is \<longrightarrow> admits f (sr_data r)) \<and>
               (admits f (sr_data r) \<and> is_open t' i \<longrightarrow> i \<in> set is)))"

lemma outcome_error: "topic_wf t \<Longrightarrow> quiet t t' \<Longrightarrow> outcome_ok t r (Inl e) t'"
  by (auto simp: outcome_ok_def dest: quietD)

lemma outcome_sent:
  assumes wf: "topic_wf t" and sent: "sent_to t r is t'" and opened: "\<And>i. is_open t' i \<Longrightarrow> is_open t2 i"
    and perm: "permitted (filter (\<lambda>(i, _). is_open t i) (tp_senders t)) (sr_data r) t2 is"
  shows "outcome_ok t r (Inr (length is)) t'"
proof -
  have "(i \<in> set is \<longrightarrow> admits f (sr_data r)) \<and> (admits f (sr_data r) \<and> is_open t' i \<longrightarrow> i \<in> set is)"
    if m: "(i, f) \<in> set (tp_senders t)" for i f
  proof -
    have d: "distinct (map fst (tp_senders t))" "i < tp_next t" using wf m by (force simp: topic_wf_def)+
    have same: "g = f" if "(i, g) \<in> set (tp_senders t)" for g using eq_key_imp_eq_value[OF d(1) that m] .
    have op: "is_open t i" if "is_open t' i" using sent d(2) that by (simp add: sent_to_def)
    have "admits f (sr_data r)" if "i \<in> set is" using permittedD(2)[OF perm that] same by auto
    moreover have "i \<in> set is" if "admits f (sr_data r)" "is_open t' i"
      using op[OF that(2)] m that by (intro permittedD(3)[OF perm _ that(1) opened[OF that(2)]]) simp
    ultimately show ?thesis by blast
  qed
  moreover have "distinct is" using perm by (simp add: permitted_def)
  moreover have "topic_wf t'" "\<forall>i<tp_next t. received t' i = received t i @ (if i \<in> set is then [r] else [])"
    using sent wf by (simp_all add: sent_to_def)
  ultimately show ?thesis unfolding outcome_ok_def sum.case by blast
qed

lemma outcome_later:
  assumes "outcome_ok t1 r res t'" "quiet t t1" "set (tp_senders t) \<subseteq> set (tp_senders t1)"
  shows "outcome_ok t r res t'"
proof -
  have "i < tp_next t1" "received t1 i = received t i" if "i < tp_next t" for i
    using that quietD(1,3)[OF assms(2)] by auto
  then show ?thesis using assms(1,3) unfolding outcome_ok_def by (fastforce split: sum.splits)
qed

lemma moves_senders: "set (tp_senders t) \<subseteq> set (tp_senders (foldl apply_move t ms))"
proof (induction ms arbitrary: t)
  case (Cons m ms)
  have "set (tp_senders t) \<subseteq> set (tp_senders (apply_move t m))" by (cases m) (auto simp: on_chan_def subscribe_def)
  then show ?case using Cons.IH[of "apply_move t m"] by auto
qed simp

lemma meanwhile_senders: "meanwhile sched t = (sched', t') \<Longrightarrow> set (tp_senders t) \<subseteq> set (tp_senders t')"
  using moves_senders by (auto simp: meanwhile_def split: list.splits)

lemma account_senders: "check_and_account s data t = (keep, t') \<Longrightarrow> tp_senders t' = tp_senders t \<and> is_open t' = is_open t"
  by (auto simp: check_and_account_def chan_simps fun_eq_iff split: prod.splits if_splits)

lemma is_open_purge [simp]: "is_open (purge_closed t) i = is_open t i"
  by (simp add: purge_closed_def is_open_def)

lemma multi_path_ok:
  assumes "topic_wf t" "multi_path r sched t = Some (res, sched', t')"
  shows "outcome_ok t r res t'"
proof -
  let ?ss = "filter (\<lambda>(i, _). is_open t i) (tp_senders t)"
  let ?t1 = "if length ?ss < length (tp_senders t) then purge_closed t else t"
  have q1: "quiet t ?t1" by simp
  have d: "distinct (map fst ?ss)" "\<forall>i\<in>fst ` set ?ss. i < tp_next ?t1"
    using assms(1) quietD(1)[OF q1] by (force simp: topic_wf_def intro: distinct_map_filter)+
  have nobody: "outcome_ok t r (Inr 0) t" if "tp_senders t = []" using that assms(1) by (auto simp: outcome_ok_def)
  show ?thesis
  proof (cases "?ss = []")
    case True
    then show ?thesis using assms nobody outcome_error[OF assms(1) q1] by (auto simp: multi_path_def snapshot_def Let_def split: if_splits)
  next
    case False
    then obtain passed permits gone sched2 t2 where e: "reserve_each ?ss (sr_data r) sched ?t1 = Some (passed, permits, gone, sched2, t2)"
      using assms(2) by (auto simp: multi_path_def snapshot_def Let_def split: option.splits if_splits)
    note ok = reserve_each_spec[OF e d quietD(2)[OF q1 assms(1)]]
    let ?t3 = "if gone then purge_closed t2 else t2"
    have q2: "quiet t t2" using quiet_trans[OF q1 conjunct1[OF ok]] .
    then have q3: "quiet t ?t3" using quiet_trans[OF q2 quiet_purge] by simp
    have res: "res = (if permits = [] then if passed then Inl Closed else Inr 0 else Inr (length permits))"
      "t' = (if permits = [] then ?t3 else foldl commit ?t3 (map (\<lambda>i. (i, [r])) permits))"
      using assms(2) e False by (simp_all add: multi_path_def snapshot_def Let_def split: if_splits)
    have "\<forall>i\<in>set permits. Suc (backlog ?t3 i) \<le> capacity_of ?t3 i" using ok by (auto simp: purge_closed_def chan_simps)
    then have "sent_to t r permits (foldl commit ?t3 (map (\<lambda>i. (i, [r])) permits))"
      using ok q3 by (intro sent_to_commit) (auto simp: permitted_def)
    then have "outcome_ok t r (Inr (length permits)) (foldl commit ?t3 (map (\<lambda>i. (i, [r])) permits))"
      using ok is_open_commits by (intro outcome_sent[OF assms(1), of _ _ _ t2]) (auto split: if_splits)
    then show ?thesis using res outcome_error[OF assms(1) q3] by (cases "permits = []") auto
  qed
qed

lemma outcome_one:
  assumes wf: "topic_wf t" and s: "tp_senders t = [s]" and acc: "check_and_account s (sr_data r) t = (keep, t1)"
    and q: "quiet t1 t2"
  shows "\<not> keep \<Longrightarrow> outcome_ok t r (Inr 0) t1"
    "keep \<Longrightarrow> Suc (backlog t2 (fst s)) \<le> capacity_of t2 (fst s) \<Longrightarrow> outcome_ok t r (Inr 1) (commit t2 (fst s, [r]))"
    "outcome_ok t r (Inl e) t2" "outcome_ok t r (Inl e) (purge_closed t2)"
proof -
  have q1: "quiet t t1" and keep: "keep = admits (snd s) (sr_data r)" using quiet_account[OF acc] by auto
  have q2: "quiet t t2" using q1 q by (rule quiet_trans)
  then show "outcome_ok t r (Inl e) t2" "outcome_ok t r (Inl e) (purge_closed t2)"
    using outcome_error[OF wf] quiet_trans[OF q2 quiet_purge] by auto
  have i: "fst s < tp_next t" using wf s by (simp add: topic_wf_def)
  show "outcome_ok t r (Inr 0) t1" if "\<not> keep"
  proof -
    have "permitted (filter (\<lambda>(i, _). is_open t i) (tp_senders t)) (sr_data r) t1 []"
      using that keep s by (auto simp: permitted_def)
    from outcome_sent[OF wf sent_to_none[OF q1] _ this] show ?thesis by simp
  qed
  show "outcome_ok t r (Inr 1) (commit t2 (fst s, [r]))" if k: keep and room: "Suc (backlog t2 (fst s)) \<le> capacity_of t2 (fst s)"
  proof -
    have sent: "sent_to t r [fst s] (commit t2 (fst s, [r]))" using sent_to_commit[OF q2, of "[fst s]" r] room by simp
    have "(i \<in> set [fst s] \<longrightarrow> admits f (sr_data r)) \<and> (admits f (sr_data r) \<and> is_open t' i \<longrightarrow> i \<in> set [fst s])"
      if "(i, f) \<in> set (tp_senders t)" for i f t' using that s k keep by auto
    then show ?thesis using sent wf unfolding outcome_ok_def sent_to_def sum.case
      by (intro conjI exI[of _ "[fst s]"]) auto
  qed
qed

lemma single_path_ok:
  assumes "topic_wf t" "single_path r sched t = Some (Some (res, sched', t'))"
  shows "outcome_ok t r res t'"
proof (cases "tp_senders t")
  case Nil
  then show ?thesis using assms by (auto simp: single_path_def outcome_ok_def)
next
  case (Cons s ss)
  then have s: "tp_senders t = [s]" using assms(2) by (simp add: single_path_def split: list.splits)
  obtain keep t1 where acc: "check_and_account s (sr_data r) t = (keep, t1)" by fastforce
  show ?thesis
  proof (cases keep)
    case False
    then show ?thesis using assms(2) s acc outcome_one(1)[OF assms(1) s acc quiet_refl] by (simp add: single_path_def)
  next
    case True
    then obtain granted sched2 t2 where r: "reserve_many (fst s) 1 sched t1 = Some (granted, sched2, t2)"
      using assms(2) s acc by (auto simp: single_path_def split: option.splits)
    have "granted \<Longrightarrow> Suc (backlog t2 (fst s)) \<le> capacity_of t2 (fst s)"
      using quiet_reserve(2)[OF r] by (simp add: has_room_def chan_simps)
    then show ?thesis using assms(2) s acc True r outcome_one(2,4)[OF assms(1) s acc quiet_reserve(1)[OF r]]
      by (cases granted) (auto simp: single_path_def)
  qed
qed

lemma try_single_ok:
  assumes "topic_wf t" "try_single r sched t = Some (res, sched', t')"
  shows "outcome_ok t r res t'"
proof (cases "tp_senders t")
  case Nil
  then show ?thesis using assms by (auto simp: try_single_def outcome_ok_def)
next
  case (Cons s ss)
  then have s: "tp_senders t = [s]" using assms(2) by (simp add: try_single_def split: list.splits)
  obtain keep t1 where acc: "check_and_account s (sr_data r) t = (keep, t1)" by fastforce
  obtain answer sched2 t2 where r: "try_reserve (fst s) sched t1 = (answer, sched2, t2)" by (metis prod_cases3)
  note one = outcome_one[OF assms(1) s acc try_reserve_spec(1)[OF r]]
  show ?thesis
    using assms(2) s acc r one try_reserve_spec(3)[OF r]
    by (cases keep; cases answer) (auto simp: try_single_def)
qed

lemma try_general_ok:
  assumes "topic_wf t" "try_general gate_free r sched t = (res, sched', t')"
  shows "outcome_ok t r res t'"
proof -
  let ?ss = "filter (\<lambda>(i, _). is_open t i) (tp_senders t)"
  let ?t1 = "if length ?ss < length (tp_senders t) then purge_closed t else t"
  have q1: "quiet t ?t1" by simp
  have d: "distinct (map fst ?ss)" "\<forall>i\<in>fst ` set ?ss. i < tp_next ?t1"
    using assms(1) quietD(1)[OF q1] by (force simp: topic_wf_def intro: distinct_map_filter)+
  obtain active t2 where a: "active_senders ?ss (sr_data r) ?t1 = (active, t2)" by fastforce
  have active: "active = map fst (filter (\<lambda>(i, f). admits f (sr_data r)) ?ss)" and q2: "quiet t t2"
    using active_senders_spec[OF a] quiet_trans[OF q1] by auto
  obtain permits sched3 t3 where p: "try_reserve_all active sched t2 = (permits, sched3, t3)" by (metis prod_cases3)
  have act: "distinct active" "\<forall>i\<in>set active. i < tp_next t2"
    using d(1) assms(1) quietD(1)[OF q2] unfolding active by (auto intro: distinct_map_filter simp: topic_wf_def)
  note pr = try_reserve_all_spec[OF p act]
  have q3: "quiet t t3" using quiet_trans[OF q2 conjunct1[OF pr]] .
  have perm: "permitted ?ss (sr_data r) t3 js" if "permits = Some js" for js
    unfolding permitted_def
  proof (intro conjI)
    have js: "distinct js" "set js \<subseteq> set active" "\<And>i. i \<in> set active \<Longrightarrow> i \<notin> set js \<Longrightarrow> \<not> is_open t3 i"
      using pr that by auto
    show "distinct js" by (rule js)
    show "\<forall>i\<in>set js. \<exists>f. (i, f) \<in> set ?ss \<and> admits f (sr_data r)" using js(2) unfolding active by fastforce
    have "i \<in> set active" if "(i, f) \<in> set ?ss" "admits f (sr_data r)" for i f using that unfolding active by force
    then show "\<forall>(i, f)\<in>set ?ss. admits f (sr_data r) \<and> is_open t3 i \<longrightarrow> i \<in> set js" using js(3) by blast
  qed
  have empty: "permitted ?ss (sr_data r) t2 []" if "active = []"
    using that unfolding permitted_def active by (auto simp: filter_empty_conv)
  have "outcome_ok t r (Inr 0) t2" if "active = []"
    using outcome_sent[OF assms(1) sent_to_none[OF q2] _ empty[OF that]] by simp
  moreover have "outcome_ok t r (Inr (length js)) (foldl commit t3 (map (\<lambda>i. (i, [r])) js))" if "permits = Some js" for js
  proof (rule outcome_sent[OF assms(1) sent_to_commit[OF q3] _ perm[OF that]])
    show "distinct js" using permittedD(1)[OF perm[OF that]] .
    show "Suc (backlog t3 i) \<le> capacity_of t3 i" if "i \<in> set js" for i using pr \<open>permits = Some js\<close> that by fastforce
  qed (simp add: is_open_commits)
  ultimately show ?thesis
    using assms a p outcome_error[OF assms(1) q3] outcome_error[OF assms(1) q1] outcome_error[OF assms(1) quiet_refl]
      outcome_error[OF assms(1) quiet_trans[OF q3 quiet_purge]]
    by (auto simp: try_general_def snapshot_def Let_def split: if_splits option.splits list.splits)
qed

end
