(* ===== verification/Bus_Props.thy ===== *)
theory Bus_Props
  imports Bus_Single
begin

text \<open>What a publish promises: the contracts of a batch and of one record, that a batch is published
  in the end, and where a batch stops short.\<close>

subsection \<open>The contract\<close>

text \<open>C3: if publishing a batch fails, no subscriber has received a record of it, so that the batch can be
  sent again. If it succeeds, each subscriber has received, in order and once, the records that pass
  its filter of some number of whole chunks, from the first on. It has received those of the whole
  batch, and the result is the number of subscribers, under two conditions: no subscriber leaves
  meanwhile, and every queue has room for a whole chunk, that is for 512 records or for the batch if
  it is shorter. A subscriber with a shorter queue is taken for one that has left, as
  \<open>short_queue_refuses_batch\<close> shows, and misses the rest. Queues stay within their capacity.\<close>

theorem batch_publish_contract:
  assumes "topic_wf t" "publish_batch_topic rs u sched t = Some (res, u', sched', t')"
  shows "topic_wf t' \<and>
    (case res of
       Inl e \<Rightarrow> e = Closed \<and> (\<forall>i<tp_next t. received t' i = received t i)
     | Inr n \<Rightarrow>
         (\<forall>(i, f)\<in>set (tp_senders t). \<exists>k. received t' i = received t i @ wanted f (take (k * ADMISSION_CHUNK_RECORDS) rs)) \<and>
         (rs \<noteq> [] \<and> (\<forall>(i, f)\<in>set (tp_senders t). is_open t' i \<and> min ADMISSION_CHUNK_RECORDS (length rs) \<le> capacity_of t i) \<longrightarrow>
            n = length (tp_senders t) \<and> (\<forall>(i, f)\<in>set (tp_senders t). received t' i = received t i @ wanted f rs)))"
proof -
  let ?ss = "filter (\<lambda>(i, _). is_open t i) (tp_senders t)"
  let ?t1 = "if length ?ss < length (tp_senders t) then purge_closed t else t"
  have none: "received t i = received t i @ wanted f (take (0 * ADMISSION_CHUNK_RECORDS) rs)" for i f by (simp add: wanted_def)
  have same: "received ?t1 i = received t i" "capacity_of ?t1 i = capacity_of t i" "is_open ?t1 i = is_open t i" "tp_next ?t1 = tp_next t" for i
    by (simp_all add: purge_closed_def chan_simps)
  have wf1: "topic_wf ?t1" using assms(1) quietD(2)[OF quiet_purge] by simp
  show ?thesis
  proof (cases "rs = [] \<or> tp_senders t = [] \<or> ?ss = []")
    case True
    then show ?thesis
      using assms wf1 none same by (auto simp: publish_batch_topic_def snapshot_def Let_def split: if_splits)
  next
    case False
    have run: "batch_loop False ?ss rs u sched ?t1 = Some (res, u', sched', t')"
      using assms(2) False by (simp add: publish_batch_topic_def snapshot_def Let_def)
    have d: "distinct (map fst ?ss)" "\<forall>i\<in>fst ` set ?ss. i < tp_next ?t1"
      using assms(1) same(4) by (auto simp: topic_wf_def intro: distinct_map_filter)
    note ok = batch_okD[OF batch_loop_spec[OF run d], unfolded same]
    have "\<exists>k. received t' i = received t i @ wanted f (take (k * ADMISSION_CHUNK_RECORDS) rs)" if "(i, f) \<in> set (tp_senders t)" for i f
    proof (cases "is_open t i")
      case True
      then show ?thesis using ok(6)[of i f] that by simp
    next
      case False
      have "i < tp_next t" "i \<notin> fst ` set ?ss" using False that assms(1) by (force simp: topic_wf_def)+
      then show ?thesis using ok(3) none by metis
    qed
    moreover have "n = length (tp_senders t) \<and> (\<forall>(i, f)\<in>set (tp_senders t). received t' i = received t i @ wanted f rs)"
      if "res = Inr n" and all: "\<forall>(i, f)\<in>set (tp_senders t). is_open t' i \<and> min ADMISSION_CHUNK_RECORDS (length rs) \<le> capacity_of t i" for n
    proof -
      have "is_open t i" if "(i, f) \<in> set (tp_senders t)" for i f
        using ok(5)[of i] all that assms(1) by (force simp: topic_wf_def)
      then have "?ss = tp_senders t" by (auto intro!: filter_True)
      then show ?thesis using ok(9) all that(1) by auto
    qed
    ultimately show ?thesis using ok(2)[OF wf1] ok(7,8) by (auto split: sum.split)
  qed
qed

text \<open>A topic with a subscriber of everything and one of the records from one city.\<close>

definition demo_topic :: topic where
  "demo_topic = subscribe (Some (FieldEq ''city'' (Str ''Paris''))) counters_init 4 (subscribe None counters_init 4 topic_default)"

definition demo_city :: "string \<Rightarrow> stream_record" where
  "demo_city name = \<lparr>sr_timestamp = 0, sr_data = fmupd ''city'' (Str name) fmempty\<rparr>"

definition demo_batch :: "stream_record list" where
  "demo_batch = [demo_city ''London'', demo_city ''Paris'', demo_city ''Berlin'']"

lemma demo_topic_wf: "topic_wf demo_topic"
  by (auto simp: topic_wf_def demo_topic_def subscribe_def topic_default_def chan_simps)

theorem batch_publish_contract_witness:
  "\<exists>t'. publish_batch_topic demo_batch 0 [[Take 0]] demo_topic = Some (Inr 2, 0, [], t') \<and>
     received t' 0 = demo_batch \<and> received t' 1 = [demo_city ''Paris'']"
proof -
  let ?r = "publish_batch_topic demo_batch 0 [[Take 0]] demo_topic"
  let ?t = "snd (snd (snd (the ?r)))"
  have "?r \<noteq> None" "fst (the ?r) = Inr 2" "fst (snd (the ?r)) = 0" "fst (snd (snd (the ?r))) = []" by code_simp+
  then have r: "?r = Some (Inr 2, 0, [], ?t)" by (metis option.collapse prod.collapse)
  have opened: "is_open ?t 0" "is_open ?t 1" by code_simp+
  have "received ?t i = received demo_topic i @ wanted f demo_batch" if "(i, f) \<in> set (tp_senders demo_topic)" for i f
    using batch_publish_contract[OF demo_topic_wf r] opened that
    by (auto simp: demo_topic_def subscribe_def topic_default_def demo_batch_def capacity_of_def ADMISSION_CHUNK_RECORDS_def)
  then have "received ?t 0 = received demo_topic 0 @ wanted None demo_batch"
    "received ?t 1 = received demo_topic 1 @ wanted (Some (FieldEq ''city'' (Str ''Paris''))) demo_batch"
    by (auto simp: demo_topic_def subscribe_def topic_default_def)
  moreover have "received demo_topic 0 = []" "received demo_topic 1 = []"
    by (simp_all add: received_def demo_topic_def subscribe_def topic_default_def)
  moreover have "wanted (Some (FieldEq ''city'' (Str ''Paris''))) demo_batch = [demo_city ''Paris'']"
    by (simp add: wanted_def admits_def demo_batch_def demo_city_def holds_some_def is_error_record_def)
  moreover have "wanted None demo_batch = demo_batch" by (simp add: wanted_def admits_def)
  ultimately show ?thesis using r by auto
qed

text \<open>C31: a batch is published in the end. If between two reservations every receiver takes what its
  queue can hold, then the publisher needs at most one such pause for each subscriber and chunk and
  never waits for ever. If also every subscriber is there and does not leave meanwhile, and every
  queue can hold a chunk of the batch, then the publish succeeds for all of them and each has
  received, in order, exactly the records of the batch that pass its filter.\<close>

theorem batch_publish_returns:
  assumes "topic_wf t" "length (tp_senders t) * chunk_count rs \<le> length sched"
    "\<forall>ms\<in>set sched. drains (capacity_of t) (fst ` set (tp_senders t)) ms"
  shows "\<exists>res u' sched' t'. publish_batch_topic rs u sched t = Some (res, u', sched', t') \<and>
    (rs \<noteq> [] \<and> (\<forall>(i, f)\<in>set (tp_senders t). is_open t i \<and> (\<forall>ms\<in>set sched. Hang_up i \<notin> set ms)
        \<and> min ADMISSION_CHUNK_RECORDS (length rs) \<le> capacity_of t i) \<longrightarrow>
     res = Inr (length (tp_senders t)) \<and> (\<forall>(i, f)\<in>set (tp_senders t). received t' i = received t i @ wanted f rs))"
proof -
  let ?ss = "filter (\<lambda>(i, _). is_open t i) (tp_senders t)"
  let ?t1 = "if length ?ss < length (tp_senders t) then purge_closed t else t"
  have same: "capacity_of ?t1 = capacity_of t" "tp_next ?t1 = tp_next t" by (simp_all add: purge_closed_def chan_simps fun_eq_iff)
  have "topic_wf ?t1" using assms(1) quietD(2)[OF quiet_purge] by simp
  moreover have d: "distinct (map fst ?ss)" "\<forall>i\<in>fst ` set ?ss. i < tp_next ?t1"
    using assms(1) same(2) by (auto simp: topic_wf_def intro: distinct_map_filter)
  moreover have "length ?ss * chunk_count rs \<le> length sched"
    using assms(2) by (meson length_filter_le mult_le_mono1 order_trans)
  moreover have "\<forall>ms\<in>set sched. drains (capacity_of ?t1) (fst ` set ?ss) ms"
    using assms(3) unfolding same(1) drains_def by auto
  ultimately have "\<exists>r. batch_loop False ?ss rs u sched ?t1 = Some r" by (rule batch_loop_returns)
  then obtain res u' sched' t' where run: "batch_loop False ?ss rs u sched ?t1 = Some (res, u', sched', t')"
    by (metis prod_cases4)
  have full: "res = Inr (length (tp_senders t)) \<and> (\<forall>(i, f)\<in>set (tp_senders t). received t' i = received t i @ wanted f rs)"
    if ne: "rs \<noteq> []" and all: "\<forall>(i, f)\<in>set (tp_senders t). is_open t i \<and> (\<forall>ms\<in>set sched. Hang_up i \<notin> set ms)
        \<and> min ADMISSION_CHUNK_RECORDS (length rs) \<le> capacity_of t i"
  proof -
    have ss: "?ss = tp_senders t" using all by (auto intro!: filter_True)
    have "is_open t' i" if "(i, f) \<in> set (tp_senders t)" for i f
    proof -
      have "stays i sched t" using that all assms(1) by (force simp: stays_def topic_wf_def)
      then show ?thesis using stays_batch[OF run] ss by (simp add: stays_def)
    qed
    moreover have "min ADMISSION_CHUNK_RECORDS (length rs) \<le> capacity_of t i" if "(i, f) \<in> set (tp_senders t)" for i f
      using that all by blast
    ultimately show ?thesis using batch_okD(9)[OF batch_loop_spec[OF run d]] ss by simp
  qed
  show ?thesis
  proof (cases "rs = [] \<or> tp_senders t = [] \<or> ?ss = []")
    case True
    then show ?thesis by (cases "tp_senders t") (auto simp: publish_batch_topic_def snapshot_def Let_def split: if_splits)
  next
    case False
    then have "publish_batch_topic rs u sched t = Some (res, u', sched', t')"
      using run by (simp add: publish_batch_topic_def snapshot_def Let_def)
    then show ?thesis using full by blast
  qed
qed

theorem batch_publish_returns_witness:
  "\<exists>u' sched' t'. publish_batch_topic demo_batch 0 (replicate 2 (concat (replicate 4 [Take 0, Take 1]))) demo_topic
       = Some (Inr 2, u', sched', t') \<and> received t' 0 = demo_batch"
proof -
  have "count_list (concat (replicate n [Take 0, Take 1])) (Take i) = n" if "i = 0 \<or> i = 1" for i n
    using that by (induction n) auto
  then have dr: "\<forall>ms\<in>set (replicate 2 (concat (replicate 4 [Take 0, Take 1]))).
      drains (capacity_of demo_topic) (fst ` set (tp_senders demo_topic)) ms"
    by (auto simp: demo_topic_def subscribe_def topic_default_def drains_def capacity_of_def)
  have len: "length (tp_senders demo_topic) * chunk_count demo_batch \<le> length (replicate 2 (concat (replicate 4 [Take 0, Take 1])))"
    by (simp add: demo_topic_def subscribe_def topic_default_def chunk_count_def demo_batch_def ADMISSION_CHUNK_RECORDS_def)
  have "received demo_topic 0 @ wanted None demo_batch = demo_batch"
    by (simp add: received_def demo_topic_def subscribe_def topic_default_def wanted_def admits_def)
  then show ?thesis
    using batch_publish_returns[OF demo_topic_wf len dr, of 0]
    by (auto simp: demo_topic_def subscribe_def topic_default_def demo_batch_def ADMISSION_CHUNK_RECORDS_def chan_simps)
qed

text \<open>C24: publishing one record, waiting or not, fails without delivering it to anyone, or delivers it
  exactly once to the subscribers it counts: those whose filter it passes, and every such subscriber
  that does not leave meanwhile. Queues stay within their capacity.\<close>

theorem single_publish_contract:
  assumes "topic_wf t"
    "publish_async_topic active r sched t = Some (res, sched', t') \<or> try_publish_topic active free r sched t = (res, sched', t')"
  shows "topic_wf t' \<and>
    (case res of
       Inl e \<Rightarrow> \<forall>i<tp_next t. received t' i = received t i
     | Inr n \<Rightarrow>
         \<exists>is. distinct is \<and> length is = n \<and>
           (\<forall>i<tp_next t. received t' i = received t i @ (if i \<in> set is then [r] else [])) \<and>
           (\<forall>(i, f)\<in>set (tp_senders t). (i \<in> set is \<longrightarrow> admits f (sr_data r)) \<and>
              (admits f (sr_data r) \<and> is_open t' i \<longrightarrow> i \<in> set is)))"
proof -
  obtain sched1 t1 where m: "meanwhile sched t = (sched1, t1)" by fastforce
  have wf1: "topic_wf t1" using quietD(2)[OF quiet_meanwhile[OF m] assms(1)] .
  note later = outcome_later[OF _ quiet_meanwhile[OF m] meanwhile_senders[OF m]]
  have "outcome_ok t r res t'"
    using assms(2)
  proof
    assume a: "publish_async_topic active r sched t = Some (res, sched', t')"
    then consider "single_path r sched t = Some (Some (res, sched', t'))"
      | "single_path r sched1 t1 = Some (Some (res, sched', t'))" | "multi_path r sched1 t1 = Some (res, sched', t')"
      using m by (auto simp: publish_async_topic_def split: option.splits if_splits)
    then show ?thesis
      using single_path_ok[OF assms(1)] later[OF single_path_ok[OF wf1]] later[OF multi_path_ok[OF wf1]] by cases blast+
  next
    assume a: "try_publish_topic active free r sched t = (res, sched', t')"
    then consider "try_single r sched t = Some (res, sched', t')" | "try_general free r sched1 t1 = (res, sched', t')"
      using m by (auto simp: try_publish_topic_def split: option.splits if_splits)
    then show ?thesis using try_single_ok[OF assms(1)] later[OF try_general_ok[OF wf1]] by cases blast+
  qed
  then show ?thesis unfolding outcome_ok_def .
qed

theorem single_publish_contract_witness:
  "\<exists>sched' t'. try_publish_topic False True (demo_city ''Paris'') [] demo_topic = (Inr 2, sched', t') \<and>
     received t' 0 = [demo_city ''Paris''] \<and> received t' 1 = [demo_city ''Paris'']"
proof -
  let ?r = "try_publish_topic False True (demo_city ''Paris'') [] demo_topic"
  let ?t = "snd (snd ?r)"
  have two: "fst ?r = Inr 2" by code_simp
  have opened: "is_open ?t 0" "is_open ?t 1" by code_simp+
  have r: "?r = (Inr 2, fst (snd ?r), ?t)" using two by (metis prod.collapse)
  have none: "received demo_topic 0 = []" "received demo_topic 1 = []" "tp_next demo_topic = 2"
    by (simp_all add: received_def demo_topic_def subscribe_def topic_default_def)
  have senders: "(0, None) \<in> set (tp_senders demo_topic)" "(1, Some (FieldEq ''city'' (Str ''Paris''))) \<in> set (tp_senders demo_topic)"
    by (simp_all add: demo_topic_def subscribe_def topic_default_def)
  have pass: "admits None (sr_data (demo_city ''Paris''))" "admits (Some (FieldEq ''city'' (Str ''Paris''))) (sr_data (demo_city ''Paris''))"
    by (simp_all add: admits_def demo_city_def holds_some_def)
  obtain js where js: "\<forall>i<tp_next demo_topic. received ?t i = received demo_topic i @ (if i \<in> set js then [demo_city ''Paris''] else [])"
    "\<forall>(i, f)\<in>set (tp_senders demo_topic). admits f (sr_data (demo_city ''Paris'')) \<and> is_open ?t i \<longrightarrow> i \<in> set js"
    using conjunct2[OF single_publish_contract[OF demo_topic_wf disjI2[OF r]]] unfolding sum.case by blast
  have "0 \<in> set js" "1 \<in> set js" using js(2) senders pass opened by blast+
  then have "received ?t 0 = [demo_city ''Paris'']" "received ?t 1 = [demo_city ''Paris'']"
    using js(1)[rule_format, of 0] js(1)[rule_format, of 1] none by simp_all
  then show ?thesis using r by metis
qed

subsection \<open>Where a batch stops short\<close>

text \<open>If the senders that want something of a chunk have all gone, the rest of an accepted batch is
  dropped, also for the senders that wanted nothing of this chunk and are still there.\<close>

lemma closed_senders_end_batch:
  assumes "rs \<noteq> []" "sub_matches ss (take ADMISSION_CHUNK_RECORDS rs) t = (hits, t1)" "hits \<noteq> []"
    "reserve_all hits sched t1 = Some ([], gone, sched', t2)"
  shows "\<exists>u'. batch_loop True ss rs u sched t = Some (Inr 0, u', sched', purge_closed t2)"
  using assms by (simp add: batch_loop.simps[of True] Let_def)

text \<open>A live subscriber whose queue is shorter than what it wants of a chunk is taken for a closed one.\<close>

lemma short_queue_refuses_batch:
  "let t = subscribe None counters_init 2 topic_default; r = publish_batch_topic demo_batch 0 [] t
   in map_option fst r = Some (Inl Closed) \<and> map_option (\<lambda>(_, _, _, t'). is_open t' 0) r = Some True"
  by code_simp

end
