(* ===== verification/Prefilter_Props.thy ===== *)
theory Prefilter_Props
  imports StreamBus Eval_Props
begin

text \<open>
  The predicate that a rule hands to the bus never holds back a record its \<open>WHERE\<close> clause accepts, as
  long as the two ways of comparing agree: numbers compared for equality are integers of at most 52
  bits, and the topic is where the bus looks for it.
\<close>

definition small_int :: "json \<Rightarrow> bool" where
  "small_int v = (case as_i64 v of Some i \<Rightarrow> \<bar>i\<bar> < 2 ^ 52 | None \<Rightarrow> False)"

definition plain_topic :: "expr list \<Rightarrow> row \<Rightarrow> bool" where
  "plain_topic args row \<longleftrightarrow> args = [Identifier ''topic''] \<and>
     fmlookup row ''__mqtt__'' = None \<and> fmlookup row ''mqtt'' = None \<and>
     (case fmlookup row ''__meta__'' of Some (Obj m) \<Rightarrow> fmlookup m ''topic'' \<noteq> None | _ \<Rightarrow> False)"

definition plain_column :: "string \<Rightarrow> binary_operator \<Rightarrow> json \<Rightarrow> row \<Rightarrow> bool" where
  "plain_column fld bop lit row =
     (case fmlookup row fld of
        None \<Rightarrow> fld \<noteq> ''window_start'' \<and> fld \<noteq> ''window_end''
      | Some v \<Rightarrow> (bop = Eq \<or> bop = Neq) \<and> is_number v \<and> is_number lit \<longrightarrow> small_int v \<and> small_int lit)"

fun plain_cond :: "expr \<Rightarrow> row \<Rightarrow> bool" where
  "plain_cond (BinaryOp l bop r) row =
     (if bop = And then plain_cond l row \<and> plain_cond r row
      else (case (l, r) of
              (Identifier fld, Literal lit) \<Rightarrow> plain_column fld bop lit row
            | (Call name args, Literal lit) \<Rightarrow> plain_topic args row
            | _ \<Rightarrow> True))"
| "plain_cond e row = True"

lemma small_int_of: "small_int v \<Longrightarrow> json_wf v \<Longrightarrow> \<exists>i. \<bar>i\<bar> < 2 ^ 52 \<and> v = of_i64 i"
proof -
  assume "small_int v" "json_wf v"
  then obtain n where "v = Number n" by (cases v) (auto simp: small_int_def)
  moreover obtain i where "as_i64 v = Some i" "\<bar>i\<bar> < 2 ^ 52" using \<open>small_int v\<close> by (auto simp: small_int_def split: option.splits)
  ultimately have "v = of_i64 i" using \<open>json_wf v\<close> by (cases n) (auto simp: of_i64_def split: if_splits)
  then show ?thesis using \<open>\<bar>i\<bar> < 2 ^ 52\<close> by blast
qed

lemma small_ints_equal:
  assumes "\<bar>i\<bar> < 2 ^ 52" "\<bar>j\<bar> < 2 ^ 52"
  shows "json_eq (of_i64 i) (of_i64 j) \<longleftrightarrow> i = j" "values_equal (of_i64 i) (of_i64 j) \<longleftrightarrow> i = j"
proof -
  have "in_i64 i" "in_i64 j" using assms by (auto simp: i64_simps)
  then show "values_equal (of_i64 i) (of_i64 j) \<longleftrightarrow> i = j" by (rule values_equal_i64)
qed (auto simp: json_eq_def of_i64_def)

lemma ord_matches_f64:
  "ord_matches Lt (f64_partial_cmp x y) = f64_lt x y" "ord_matches Lte (f64_partial_cmp x y) = f64_le x y"
  "ord_matches Gt (f64_partial_cmp x y) = f64_lt y x" "ord_matches Gte (f64_partial_cmp x y) = f64_le y x"
  using f64_lt_flip[of y x] f64_le_flip[of y x] by (auto simp: f64_lt_def f64_le_def)

text \<open>A comparison with a literal that is true in the evaluator holds on the bus.\<close>

lemma column_sound:
  assumes p: "column_predicate fld bop lit = Some p" and v: "fmlookup row fld = Some v" and wf: "json_wf v" "json_wf lit"
    and plain: "plain_column fld bop lit row"
    and true: "eval_binary_op_fallible v bop lit = Ok (Bool True) \<or> fast_cond v bop lit = Ok True"
  shows "bus_matches p row"
proof (cases "bop = Eq \<or> bop = Neq")
  case False
  have "eval_binary_op_fallible v bop lit = Ok (Bool True)"
    using true False fast_cond_order[of bop v lit] by (cases "eval_binary_op_fallible v bop lit") (auto split: json.splits)
  then show ?thesis using p v False
    by (cases bop; cases v; cases lit)
      (auto simp: column_predicate_def eval_binary_op_fallible_def cmp_op_def holds_some_def ord_matches_f64 simp del: ord_matches.simps split: if_splits)
next
  case eq: True
  show ?thesis
  proof (cases "is_number v \<and> is_number lit")
    case True
    then have "small_int v" "small_int lit" using plain v eq by (auto simp: plain_column_def)
    from this[THEN small_int_of] obtain i j where ij: "\<bar>i\<bar> < 2 ^ 52" "v = of_i64 i" "\<bar>j\<bar> < 2 ^ 52" "lit = of_i64 j"
      using wf by blast
    have "as_f64 (of_i64 k) = Some (f64_of_int k)" for k by (simp add: of_i64_def)
    then have "if bop = Eq then i = j else i \<noteq> j"
      using true eq ij True near_ints[OF ij(1,3)] small_ints_equal[OF ij(1,3)]
      by (auto simp: fast_cond_def eval_binary_op_fallible_def eq_op_def split: if_splits)
    then show ?thesis using p v eq ij small_ints_equal[OF ij(1,3)]
      by (auto simp: column_predicate_def holds_some_def)
  next
    case False
    then have "eval_binary_op_fallible v bop lit = Ok (Bool True)"
      using true eq by (cases "eval_binary_op_fallible v bop lit") (auto simp: fast_cond_def is_number_as_f64 split: json.splits option.splits)
    then show ?thesis using p v eq False
      by (auto simp: column_predicate_def holds_some_def eval_binary_op_fallible_def eq_op_def split: if_splits)
  qed
qed

lemma column_absent:
  assumes "column_predicate fld bop lit = Some p" "eval_binary_op_fallible Null bop lit = Ok (Bool True)"
  shows False
  using assms by (cases bop) (auto simp: column_predicate_def eval_binary_op_fallible_def)

text \<open>The value of \<open>meta(topic)\<close> and \<open>mqtt(topic)\<close> where the topic is plain.\<close>

lemma eval_topic:
  assumes "topic_call (Call name args)" "plain_topic args row"
  shows "\<exists>m v. fmlookup row ''__meta__'' = Some (Obj m) \<and> fmlookup m ''topic'' = Some v \<and>
    eval_expr E (Call name args) row rv st = (Ok v, st)"
proof -
  obtain m v where m: "fmlookup row ''__meta__'' = Some (Obj m)" "fmlookup m ''topic'' = Some v"
    using assms(2) by (auto simp: plain_topic_def split: option.splits json.splits)
  have args: "args = [Identifier ''topic'']" and none: "fmlookup row ''__mqtt__'' = None" "fmlookup row ''mqtt'' = None"
    using assms(2) by (auto simp: plain_topic_def)
  have name: "to_ascii_lowercase name = ''meta'' \<or> to_ascii_lowercase name = ''mqtt''" using assms(1) by (simp add: topic_call_def)
  then have "\<not> is_analytic_expr (Call name args)" by (auto simp: Let_def is_acc_call_def)
  then show ?thesis using m name none unfolding args
    by (auto simp: eval_expr_def cached_plain eval_stateful_call_def Let_def is_acc_call_def eval_context_call_def
        resolve_meta_def meta_lookup_def lookup_ignore_case_def ev_res_def first_present_def map_filter_def)
qed

lemma true_eq_string: "eval_binary_op_fallible v Eq (Str s) = Ok (Bool True) \<Longrightarrow> v = Str s"
  by (cases v) (auto simp: eval_binary_op_fallible_def eq_op_def eq_operands_def split: if_splits)

lemma leaf_sound:
  assumes p: "leaf_predicate l bop r = Some p" and plain: "plain_cond (BinaryOp l bop r) row" "bop \<noteq> And"
    and wf: "\<And>v. v \<in> fmran' row \<Longrightarrow> json_wf v" "\<And>lit. r = Literal lit \<Longrightarrow> json_wf lit"
    and true: "fst (eval_expr E (BinaryOp l bop r) row rv st) = Ok (Bool True) \<or> where_fast (BinaryOp l bop r) row = Some (Ok True)"
  shows "bus_matches p row"
proof -
  obtain lit where r: "r = Literal lit" using p by (auto simp: leaf_predicate_def split: expr.splits)
  show ?thesis
  proof (cases "bop = Eq \<and> topic_call l \<and> is_string lit")
    case True
    then obtain name args where l: "l = Call name args" by (auto simp: topic_call_def split: expr.splits)
    obtain s where s: "lit = Str s" using True by (cases lit) auto
    have pp: "p = TopicEq s" using p True r s by (simp add: leaf_predicate_def)
    obtain m v where m: "fmlookup row ''__meta__'' = Some (Obj m)" "fmlookup m ''topic'' = Some v"
      "eval_expr E l row rv st = (Ok v, st)"
      using eval_topic[of name args row E rv st] True plain r l by auto
    have "eval_binary_op_fallible v Eq (Str s) = Ok (Bool True)"
      using true True r s l m(3) by (auto simp: eval_binary ev_bind_def ev_res_def split: res.splits prod.splits)
    then have "v = Str s" by (rule true_eq_string)
    then show ?thesis using pp m by (simp add: topic_of_def or_else_def holds_some_def)
  next
    case False
    then obtain fld where l: "l = Identifier fld" and c: "column_predicate fld bop lit = Some p"
      using p r by (auto simp: leaf_predicate_def split: if_splits expr.splits)
    have pc: "plain_column fld bop lit row" using plain r l by simp
    show ?thesis
    proof (cases "fmlookup row fld")
      case None
      then have "eval_expr E (BinaryOp l bop r) row rv st = (eval_binary_op_fallible Null bop lit, st)"
        using pc l r by (simp add: eval_binary ev_bind_def ev_res_def eval_identifier_def plain_column_def)
      then show ?thesis using column_absent[OF c] true None l r by auto
    next
      case (Some v)
      then have "eval_binary_op_fallible v bop lit = Ok (Bool True) \<or> fast_cond v bop lit = Ok True"
        using true l r by (auto simp: eval_binary_leaves)
      then show ?thesis using column_sound[OF c Some _ wf(2) pc] wf(1) r Some by (auto intro: fmran'I)
    qed
  qed
qed

lemma true_and:
  assumes "fst (eval_expr E (BinaryOp l And r) row rv st) = Ok (Bool True)"
  shows "fst (eval_expr E l row rv st) = Ok (Bool True)" "\<exists>st'. fst (eval_expr E r row rv st') = Ok (Bool True)"
proof -
  obtain a st1 where l: "eval_expr E l row rv st = (Ok a, st1)"
    using assms by (auto simp: eval_binary ev_bind_def split: res.splits prod.splits)
  obtain b st2 where r: "eval_expr E r row rv st1 = (Ok b, st2)"
    using assms l by (auto simp: eval_binary ev_bind_def split: res.splits prod.splits)
  have "eval_binary_op_fallible a And b = Ok (Bool True)" using assms l r by (simp add: eval_binary ev_bind_def ev_res_def)
  then have "a = Bool True" "b = Bool True"
    by (cases a; cases b; simp add: eval_binary_op_fallible_def bool_op_def)+
  then show "fst (eval_expr E l row rv st) = Ok (Bool True)" "\<exists>st'. fst (eval_expr E r row rv st') = Ok (Bool True)"
    using l r by (auto intro: exI[of _ st1])
qed

fun literals_wf :: "expr \<Rightarrow> bool" where
  "literals_wf (BinaryOp l bop r) = (literals_wf l \<and> literals_wf r)"
| "literals_wf (Literal v) = json_wf v"
| "literals_wf e = True"

lemma extract_sound:
  assumes "\<And>v. v \<in> fmran' row \<Longrightarrow> json_wf v"
  shows "extract_bus_predicate w = Some p \<Longrightarrow> plain_cond w row \<Longrightarrow> literals_wf w \<Longrightarrow>
    fst (eval_expr E w row rv st) = Ok (Bool True) \<Longrightarrow> bus_matches p row"
proof (induction w arbitrary: p st rule: extract_bus_predicate.induct)
  case (1 l bop r)
  show ?case
  proof (cases "bop = And")
    case True
    have left: "bus_matches q row" if "extract_bus_predicate l = Some q" for q
      using "1.IH"(1)[OF True that] "1.prems" true_and(1) True by fastforce
    have right: "bus_matches q row" if "extract_bus_predicate r = Some q" for q
      using "1.IH"(2)[OF True that] "1.prems" true_and(2) True by fastforce
    show ?thesis using "1.prems"(1) True left right by (auto split: option.splits)
  next
    case False
    have lits: "json_wf lit" if "r = Literal lit" for lit using "1.prems"(3) that by simp
    have "leaf_predicate l bop r = Some p" using "1.prems"(1) False by simp
    from leaf_sound[OF this "1.prems"(2) False assms lits disjI1[OF "1.prems"(4)]] show ?thesis .
  qed
qed simp_all

text \<open>C7: a record that the \<open>WHERE\<close> clause accepts is not held back by the predicate with which the rule
  subscribes, provided the two ways of comparing agree on it: where a column is compared for
  equality with a number and holds a number, both are integers below \<open>2 ^ 52\<close>; a column the record
  lacks is not a window bound; and where the clause asks for the topic, it stands in the metadata
  object and nowhere else. Without this the claim fails: \<open>prefilter_drops_accepted\<close> has a record
  with 1.0 that is accepted by \<open>a = 1\<close> and held back.\<close>

theorem bus_prefilter_sound:
  assumes "fmpred (\<lambda>_. json_wf) row" "literals_wf w" "plain_cond w row"
    "fst (eval_bool_stateful_fallible E w row rv st) = Ok True"
  shows "admits (bus_pred has_analytic is_event_time send_error (Some w)) row"
proof (cases "bus_pred has_analytic is_event_time send_error (Some w)")
  case (Some p)
  have wf: "json_wf v" if "v \<in> fmran' row" for v using assms(1) that by (auto simp: fmpred_iff elim: fmran'E)
  have e: "extract_bus_predicate w = Some p" using Some by (simp add: bus_pred_def split: if_splits)
  then obtain l bop r where w: "w = BinaryOp l bop r" by (cases w) auto
  have "bus_matches p row"
  proof (cases "where_fast w row")
    case None
    then have "fst (eval_expr E w row rv st) = Ok (Bool True)"
      using assms(4) by (auto simp: eval_bool_stateful_fallible_def where_slow_def split: prod.splits elim!: cond_result.elims split: json.splits)
    then show ?thesis using extract_sound[OF wf e assms(3,2)] by blast
  next
    case (Some b)
    then have b: "where_fast (BinaryOp l bop r) row = Some (Ok True)" using assms(4) w by (simp add: eval_bool_stateful_fallible_def ev_res_def)
    have lits: "json_wf lit" if "r = Literal lit" for lit using assms(2) w that by simp
    show ?thesis
    proof (cases "bop = And")
      case True
      then show ?thesis using b e w by (cases l; cases r) auto
    next
      case False
      then have "leaf_predicate l bop r = Some p" using e w by simp
      from leaf_sound[OF this assms(3)[unfolded w] False wf lits disjI2[OF b]] show ?thesis .
    qed
  qed
  then show ?thesis using Some by (simp add: admits_def)
qed (simp add: admits_def)

theorem bus_prefilter_sound_witness:
  "admits (bus_pred False False False (Some (BinaryOp (BinaryOp (Identifier ''t'') Gt (Literal (of_i64 20))) And
       (BinaryOp (Identifier ''city'') Eq (Literal (Str ''Paris''))))))
     (fmupd ''t'' (of_i64 21) (fmupd ''city'' (Str ''Paris'') fmempty))"
  by (rule bus_prefilter_sound[of _ _ demo_env fmempty fmempty]) code_simp+

text \<open>Without the provision it does: the value \<open>1.0\<close> satisfies \<open>a = 1\<close> and is held back.\<close>

lemma prefilter_drops_accepted:
  "let w = BinaryOp (Identifier ''a'') Eq (Literal (of_i64 1)); row = fmupd ''a'' (of_f64 (f64_of_int 1)) fmempty
   in fst (eval_bool_stateful_fallible demo_env w row fmempty fmempty) = Ok True \<and>
      \<not> admits (bus_pred False False False (Some w)) row"
  by code_simp

end
