(* ===== verification/Parser.thy ===== *)
theory Parser
  imports Ast Text
begin

text \<open>
  The recursive-descent parser of SQL expressions (\<open>crates/rekuiper-sql/src/parser.rs\<close>). A parser
  takes the rest of the input, a sequence of UTF-8 bytes, and returns a result with what remains, an
  error, or a panic: slicing a string inside a character panics. The recursion of an expression
  inside an expression, and every loop, counts down from the length of the input; running out is the
  value \<open>POut\<close>, which never occurs (theory \<open>Parser_Total\<close>). Which characters beyond ASCII are
  alphanumeric and the value of a decimal with a fraction or an exponent are parameters.
\<close>

subsection \<open>Results\<close>

datatype 'a pres = POk 'a string | PErr string | PPanic | POut

fun pbind :: "'a pres \<Rightarrow> ('a \<Rightarrow> string \<Rightarrow> 'b pres) \<Rightarrow> 'b pres" where
  "pbind (POk a r) f = f a r"
| "pbind (PErr e) f = PErr e"
| "pbind PPanic f = PPanic"
| "pbind POut f = POut"

record lexer =
  lx_alnum :: "string \<Rightarrow> bool"
  lx_f64 :: "string \<Rightarrow> f64 option"
  lx_show :: "f64 \<Rightarrow> string"
  lx_upper :: "string \<Rightarrow> string"

subsection \<open>Words and characters\<close>

definition char_width :: "string \<Rightarrow> nat" where
  "char_width s =
     (case s of
        [] \<Rightarrow> 1
      | c # _ \<Rightarrow>
          let b = (of_char c :: nat) in if b < 128 then 1 else if b < 224 then 2 else if b < 240 then 3 else 4)"

definition is_ascii_alnum :: "char \<Rightarrow> bool" where
  "is_ascii_alnum c =
     (let b = (of_char c :: nat) in 48 \<le> b \<and> b \<le> 57 \<or> 65 \<le> b \<and> b \<le> 90 \<or> 97 \<le> b \<and> b \<le> 122)"

definition is_word_char :: "lexer \<Rightarrow> string \<Rightarrow> bool" where
  "is_word_char L cs =
     (case cs of
        [] \<Rightarrow> False
      | c # _ \<Rightarrow> if (of_char c :: nat) < 128 then is_ascii_alnum c \<or> c = CHR ''_'' else lx_alnum L cs)"

lemma char_width_pos [simp]: "0 < char_width s"
  by (auto simp: char_width_def Let_def split: list.split)

function word_len :: "lexer \<Rightarrow> string \<Rightarrow> nat" where
  "word_len L s =
     (if s \<noteq> [] \<and> is_word_char L (take (char_width s) s)
      then char_width s + word_len L (drop (char_width s) s) else 0)"
  by pat_completeness auto

termination
  by (relation "measure (\<lambda>(L, s). length s)") auto

declare word_len.simps [simp del]

definition eq_ignore_case :: "string \<Rightarrow> string \<Rightarrow> bool" where
  "eq_ignore_case a b \<longleftrightarrow> to_ascii_lowercase a = to_ascii_lowercase b"

definition peek_word :: "lexer \<Rightarrow> string \<Rightarrow> string option" where
  "peek_word L s =
     (let t = skip_ws s; n = word_len L t in if n = 0 then None else Some (take n t))"

definition peek_word_is :: "lexer \<Rightarrow> string \<Rightarrow> string \<Rightarrow> bool" where
  "peek_word_is L kw s = (case peek_word L s of Some w \<Rightarrow> eq_ignore_case w kw | None \<Rightarrow> False)"

definition quote_text :: "string \<Rightarrow> string" where
  "quote_text w = [CHR 0x27] @ w @ [CHR 0x27]"

definition expect_keyword :: "lexer \<Rightarrow> string \<Rightarrow> string \<Rightarrow> unit pres" where
  "expect_keyword L kw s =
     (let t = skip_ws s
      in case peek_word L t of
           None \<Rightarrow> PErr (''Expected keyword '' @ kw @ '', found EOF'')
         | Some w \<Rightarrow>
             if eq_ignore_case w kw then POk () (drop (length w) t)
             else PErr (''Expected keyword '' @ kw @ '', found '' @ quote_text w))"

definition match_keyword :: "lexer \<Rightarrow> string \<Rightarrow> string \<Rightarrow> bool \<times> string" where
  "match_keyword L kw s =
     (let t = skip_ws s
      in case peek_word L t of
           Some w \<Rightarrow> if eq_ignore_case w kw then (True, drop (length w) t) else (False, t)
         | None \<Rightarrow> (False, t))"

definition starts_char :: "char \<Rightarrow> string \<Rightarrow> bool" where
  "starts_char c s = (case s of [] \<Rightarrow> False | x # _ \<Rightarrow> x = c)"

definition expect_char :: "char \<Rightarrow> string \<Rightarrow> unit pres" where
  "expect_char c s =
     (let t = skip_ws s in if starts_char c t then POk () (tl t) else PErr (''Expected '' @ quote_text [c]))"

text \<open>A word that must be there, consumed.\<close>

definition take_word :: "lexer \<Rightarrow> string \<Rightarrow> string \<Rightarrow> string pres" where
  "take_word L msg s =
     (let t = skip_ws s in case peek_word L t of None \<Rightarrow> PErr msg | Some w \<Rightarrow> POk w (drop (length w) t))"

text \<open>Text up to the quote with which it starts.\<close>

definition quoted :: "string \<Rightarrow> string \<Rightarrow> string pres" where
  "quoted msg s =
     (let q = hd s; rest = tl s
      in if q \<in> set rest then POk (takeWhile (\<lambda>c. c \<noteq> q) rest) (tl (dropWhile (\<lambda>c. c \<noteq> q) rest)) else PErr msg)"

definition is_quote :: "char \<Rightarrow> bool" where
  "is_quote c \<longleftrightarrow> c = CHR 0x27 \<or> c = CHR 0x22"

definition starts_quote :: "string \<Rightarrow> bool" where
  "starts_quote s = (case s of [] \<Rightarrow> False | c # _ \<Rightarrow> is_quote c)"

text \<open>The scan for the closing backtick advances by one byte and looks again: the next byte of a
  character of several bytes is no place to slice.\<close>

fun backtick_scan :: "string \<Rightarrow> string \<Rightarrow> string pres" where
  "backtick_scan acc [] = PErr ''Unclosed backtick identifier''"
| "backtick_scan acc (c # cs) =
     (if c = CHR 0x60 then POk acc cs
      else if 128 \<le> (of_char c :: nat) then PPanic else backtick_scan (acc @ [c]) cs)"

definition parse_backtick_identifier :: "string \<Rightarrow> string pres" where
  "parse_backtick_identifier s =
     (let t = skip_ws s
      in if starts_char CHR 0x60 t then backtick_scan [] (tl t) else PErr ''Expected backtick identifier'')"

definition parse_column_identifier :: "lexer \<Rightarrow> string \<Rightarrow> string pres" where
  "parse_column_identifier L s =
     (let t = skip_ws s
      in if starts_char CHR 0x60 t then parse_backtick_identifier t else take_word L ''Expected column identifier'' t)"

definition parse_object_key :: "lexer \<Rightarrow> string \<Rightarrow> string pres" where
  "parse_object_key L s =
     (let t = skip_ws s
      in if t = [] then PErr ''Unexpected end of object literal''
         else if starts_quote t then quoted ''Unterminated object key'' t
         else take_word L ''Expected object key'' t)"

subsection \<open>Numbers\<close>

definition is_number_start :: "string \<Rightarrow> bool" where
  "is_number_start s =
     (case s of
        [] \<Rightarrow> False
      | c # cs \<Rightarrow> is_digit c \<or> c = CHR ''.'' \<and> (case cs of d # _ \<Rightarrow> is_digit d | [] \<Rightarrow> False))"

definition digits_len :: "string \<Rightarrow> nat" where
  "digits_len s = length (takeWhile is_digit s)"

definition fraction_len :: "bool \<Rightarrow> string \<Rightarrow> nat" where
  "fraction_len has_int s =
     (if starts_char CHR ''.'' s \<and> (has_int \<or> 0 < digits_len (tl s)) then 1 + digits_len (tl s) else 0)"

definition exponent_len :: "string \<Rightarrow> nat" where
  "exponent_len s =
     (if starts_char CHR ''e'' s \<or> starts_char CHR ''E'' s then
        (let sign = (if starts_char CHR ''+'' (tl s) \<or> starts_char CHR ''-'' (tl s) then 1 else 0 :: nat);
             n = digits_len (drop (1 + sign) s)
         in if 0 < n then 1 + sign + n else 0)
      else 0)"

definition number_len :: "string \<Rightarrow> nat" where
  "number_len s =
     (let i = digits_len s; j = i + fraction_len (0 < i) (drop i s) in j + exponent_len (drop j s))"

definition number_value :: "lexer \<Rightarrow> string \<Rightarrow> json option" where
  "number_value L txt =
     (let plain = CHR ''.'' \<notin> set txt \<and> CHR ''e'' \<notin> set txt \<and> CHR ''E'' \<notin> set txt
      in case if plain then parse_i64 txt else None of
           Some n \<Rightarrow> Some (of_i64 n)
         | None \<Rightarrow>
             (case if plain then parse_u64 txt else None of
                Some n \<Rightarrow> Some (of_u64 n)
              | None \<Rightarrow> map_option of_f64 (lx_f64 L txt)))"

definition parse_number :: "lexer \<Rightarrow> string \<Rightarrow> expr pres" where
  "parse_number L s =
     (let t = skip_ws s; n = number_len t; txt = take n t
      in if txt = [] \<or> txt = ''.'' then PErr ''Invalid number literal''
         else (case number_value L txt of
                 Some v \<Rightarrow> POk (Literal v) (drop n t)
               | None \<Rightarrow> PErr (''Invalid number literal '' @ quote_text txt)))"

subsection \<open>Lists\<close>

text \<open>Items separated by commas, up to a closing character, which is left: a comma before it is
  allowed.\<close>

fun comma_items :: "nat \<Rightarrow> char \<Rightarrow> (string \<Rightarrow> 'a pres) \<Rightarrow> 'a list \<Rightarrow> string \<Rightarrow> 'a list pres" where
  "comma_items 0 close item acc s = POut"
| "comma_items (Suc n) close item acc s =
     (let t = skip_ws s
      in if starts_char close t then POk acc t
         else pbind (item t) (\<lambda>a r.
           let u = skip_ws r
           in if starts_char CHR '','' u then comma_items n close item (acc @ [a]) (tl u) else POk (acc @ [a]) u))"

text \<open>Items separated by commas, at least one.\<close>

fun items :: "nat \<Rightarrow> (string \<Rightarrow> 'a pres) \<Rightarrow> 'a list \<Rightarrow> string \<Rightarrow> 'a list pres" where
  "items 0 item acc s = POut"
| "items (Suc n) item acc s =
     pbind (item (skip_ws s)) (\<lambda>a r.
       let u = skip_ws r
       in if starts_char CHR '','' u then items n item (acc @ [a]) (tl u) else POk (acc @ [a]) u)"

definition closed_by :: "char \<Rightarrow> 'a pres \<Rightarrow> 'a pres" where
  "closed_by c p = pbind p (\<lambda>a r. pbind (expect_char c (skip_ws r)) (\<lambda>_ r'. POk a r'))"

type_synonym eparser = "string \<Rightarrow> expr pres"

definition parse_in_list :: "eparser \<Rightarrow> string \<Rightarrow> expr list pres" where
  "parse_in_list pe s =
     pbind (expect_char CHR ''('' s) (\<lambda>_ r. closed_by CHR '')'' (comma_items (Suc (length r)) CHR '')'' pe [] r))"

text \<open>An argument of a call: a lone star, or an expression.\<close>

definition call_arg_item :: "eparser \<Rightarrow> eparser" where
  "call_arg_item pe s =
     (if starts_char CHR ''*'' s \<and> (let u = skip_ws (tl s) in starts_char CHR '','' u \<or> starts_char CHR '')'' u)
      then POk Wildcard (tl s) else pe s)"

definition call_args :: "eparser \<Rightarrow> string \<Rightarrow> expr list pres" where
  "call_args pe s =
     closed_by CHR '')''
       (let t = skip_ws s
        in if starts_char CHR '')'' t then POk [] t else items (Suc (length t)) (call_arg_item pe) [] t)"

definition object_pair :: "lexer \<Rightarrow> eparser \<Rightarrow> string \<Rightarrow> expr list pres" where
  "object_pair L pe s =
     pbind (parse_object_key L s) (\<lambda>key r.
     pbind (expect_char CHR '':'' r) (\<lambda>_ r.
     pbind (pe r) (\<lambda>v r. POk [Literal (Str key), v] r)))"

subsection \<open>Postfix operators\<close>

definition field_name :: "lexer \<Rightarrow> string \<Rightarrow> string pres" where
  "field_name L s =
     (let t = skip_ws s
      in if starts_char CHR ''*'' t then POk ''*'' (tl t)
         else if starts_char CHR 0x60 t then parse_backtick_identifier t
         else take_word L (''Expected field name after '' @ quote_text ''.'') t)"

definition arrow_name :: "lexer \<Rightarrow> string \<Rightarrow> string pres" where
  "arrow_name L s =
     (let t = skip_ws s
      in if starts_quote t then quoted (''Unterminated field name after '' @ quote_text ''->'') t
         else if starts_char CHR 0x60 t then parse_backtick_identifier t
         else take_word L (''Expected field name after '' @ quote_text ''->'') t)"

definition slice_end :: "eparser \<Rightarrow> string \<Rightarrow> expr option pres" where
  "slice_end pe s =
     closed_by CHR '']'' (let t = skip_ws s in if starts_char CHR '']'' t then POk None t else pbind (pe t) (\<lambda>e r. POk (Some e) r))"

definition subscript :: "eparser \<Rightarrow> expr \<Rightarrow> string \<Rightarrow> expr pres" where
  "subscript pe b s =
     (let t = skip_ws s
      in if starts_char CHR '':'' t then pbind (slice_end pe (tl t)) (\<lambda>hi r. POk (Slice b None hi) r)
         else pbind (pe t) (\<lambda>first r.
           let u = skip_ws r
           in if starts_char CHR '':'' u then pbind (slice_end pe (tl u)) (\<lambda>hi r. POk (Slice b (Some first) hi) r)
              else pbind (expect_char CHR '']'' u) (\<lambda>_ r. POk (Index b first) r)))"

fun postfix_loop :: "nat \<Rightarrow> lexer \<Rightarrow> eparser \<Rightarrow> expr \<Rightarrow> string \<Rightarrow> expr pres" where
  "postfix_loop 0 L pe e s = POut"
| "postfix_loop (Suc n) L pe e s =
     (let t = skip_ws s
      in if starts_char CHR ''.'' t then pbind (field_name L (tl t)) (\<lambda>f r. postfix_loop n L pe (FieldAccess e f) r)
         else if starts_with ''->'' t then pbind (arrow_name L (drop 2 t)) (\<lambda>f r. postfix_loop n L pe (FieldAccess e f) r)
         else if starts_char CHR ''['' t then pbind (subscript pe e (tl t)) (\<lambda>e' r. postfix_loop n L pe e' r)
         else POk e t)"

definition parse_postfix :: "lexer \<Rightarrow> eparser \<Rightarrow> expr \<Rightarrow> string \<Rightarrow> expr pres" where
  "parse_postfix L pe e s = postfix_loop (Suc (length s)) L pe e s"

subsection \<open>Primary expressions\<close>

fun when_clauses :: "nat \<Rightarrow> lexer \<Rightarrow> eparser \<Rightarrow> (expr \<times> expr) list \<Rightarrow> string \<Rightarrow> (expr \<times> expr) list pres" where
  "when_clauses 0 L pe acc s = POut"
| "when_clauses (Suc n) L pe acc s =
     (case match_keyword L ''WHEN'' s of
        (False, r) \<Rightarrow> POk acc r
      | (True, r) \<Rightarrow>
          pbind (pe r) (\<lambda>c r. pbind (expect_keyword L ''THEN'' r) (\<lambda>_ r. pbind (pe r) (\<lambda>v r.
            when_clauses n L pe (acc @ [(c, v)]) r))))"

definition parse_case :: "lexer \<Rightarrow> eparser \<Rightarrow> string \<Rightarrow> expr pres" where
  "parse_case L pe s =
     pbind (if peek_word_is L ''WHEN'' s then POk None s else pbind (pe s) (\<lambda>e r. POk (Some e) r)) (\<lambda>opnd r.
     pbind (when_clauses (Suc (length r)) L pe [] r) (\<lambda>whens r.
       if whens = [] then PErr ''CASE expression requires at least one WHEN clause''
       else
         pbind (case match_keyword L ''ELSE'' r of
                  (True, r) \<Rightarrow> pbind (pe r) (\<lambda>e r. POk (Some e) r)
                | (False, r) \<Rightarrow> POk None r) (\<lambda>els r.
         pbind (expect_keyword L ''END'' r) (\<lambda>_ r. POk (Case opnd whens els) r))))"

fun over_loop :: "nat \<Rightarrow> lexer \<Rightarrow> eparser \<Rightarrow> expr option \<Rightarrow> expr option \<Rightarrow> string \<Rightarrow> (expr option \<times> expr option) pres" where
  "over_loop 0 L pe part cond s = POut"
| "over_loop (Suc n) L pe part cond s =
     (let t = skip_ws s
      in if peek_word_is L ''PARTITION'' t then
           pbind (expect_keyword L ''BY'' (snd (match_keyword L ''PARTITION'' t))) (\<lambda>_ r.
           pbind (pe r) (\<lambda>e r. over_loop n L pe (Some e) cond r))
         else if peek_word_is L ''WHEN'' t then
           pbind (pe (snd (match_keyword L ''WHEN'' t))) (\<lambda>e r. over_loop n L pe part (Some e) r)
         else POk (part, cond) t)"

definition parse_over :: "lexer \<Rightarrow> eparser \<Rightarrow> expr \<Rightarrow> string \<Rightarrow> expr pres" where
  "parse_over L pe call s =
     (case match_keyword L ''OVER'' (skip_ws s) of
        (False, r) \<Rightarrow> parse_postfix L pe call r
      | (True, r) \<Rightarrow>
          pbind (expect_char CHR ''('' (skip_ws r)) (\<lambda>_ r.
          pbind (closed_by CHR '')'' (over_loop (Suc (length r)) L pe None None r)) (\<lambda>pw r.
            parse_postfix L pe (Over call (fst pw) (snd pw)) r)))"

definition parse_word :: "lexer \<Rightarrow> eparser \<Rightarrow> string \<Rightarrow> string \<Rightarrow> expr pres" where
  "parse_word L pe word s =
     (if eq_ignore_case word ''true'' then parse_postfix L pe (Literal (Bool True)) s
      else if eq_ignore_case word ''false'' then parse_postfix L pe (Literal (Bool False)) s
      else if eq_ignore_case word ''null'' then parse_postfix L pe (Literal Null) s
      else if eq_ignore_case word ''CASE'' then pbind (parse_case L pe s) (parse_postfix L pe)
      else
        (let t = skip_ws s
         in if starts_char CHR ''('' t then pbind (call_args pe (tl t)) (\<lambda>args r. parse_over L pe (Call word args) r)
            else parse_postfix L pe (Identifier word) t))"

definition parse_primary :: "lexer \<Rightarrow> eparser \<Rightarrow> eparser" where
  "parse_primary L pe s =
     (let t = skip_ws s
      in if t = [] then PErr ''Unexpected end of expression''
         else if starts_char CHR 0x60 t then pbind (parse_backtick_identifier t) (\<lambda>i r. parse_postfix L pe (Identifier i) r)
         else if starts_char CHR ''('' t then pbind (closed_by CHR '')'' (pe (tl t))) (parse_postfix L pe)
         else if starts_quote t then pbind (quoted ''Unterminated string literal'' t) (\<lambda>x r. parse_postfix L pe (Literal (Str x)) r)
         else if starts_char CHR ''['' t then
           pbind (closed_by CHR '']'' (comma_items (Suc (length (tl t))) CHR '']'' pe [] (tl t))) (\<lambda>args r.
             parse_postfix L pe (Call ''array_create'' args) r)
         else if starts_char CHR ''{'' t then
           pbind (closed_by CHR ''}'' (comma_items (Suc (length (tl t))) CHR ''}'' (object_pair L pe) [] (tl t))) (\<lambda>args r.
             parse_postfix L pe (Call ''json_map'' (concat args)) r)
         else if is_number_start t then pbind (parse_number L t) (parse_postfix L pe)
         else pbind (take_word L ''Expected expression token'' t) (parse_word L pe))"

fun unary_loop :: "nat \<Rightarrow> lexer \<Rightarrow> eparser \<Rightarrow> eparser" where
  "unary_loop 0 L pe s = POut"
| "unary_loop (Suc n) L pe s =
     (let t = skip_ws s
      in if peek_word_is L ''NOT'' t then
           pbind (unary_loop n L pe (snd (match_keyword L ''NOT'' t))) (\<lambda>e r. POk (UnaryOp Not e) r)
         else if starts_char CHR ''-'' t then pbind (unary_loop n L pe (tl t)) (\<lambda>e r. POk (UnaryOp Neg e) r)
         else if starts_char CHR ''+'' t then unary_loop n L pe (tl t)
         else parse_primary L pe t)"

definition parse_unary :: "lexer \<Rightarrow> eparser \<Rightarrow> eparser" where
  "parse_unary L pe s = unary_loop (Suc (length s)) L pe s"

subsection \<open>Binary operators\<close>

text \<open>The levels of left-associative operators share a loop; \<open>next_op\<close> recognises the operators of
  the level, and says where the input stands when there is none.\<close>

fun left_loop :: "nat \<Rightarrow> (string \<Rightarrow> binary_operator option \<times> string) \<Rightarrow> eparser \<Rightarrow> expr \<Rightarrow> string \<Rightarrow> expr pres" where
  "left_loop 0 next_op sub l s = POut"
| "left_loop (Suc n) next_op sub l s =
     (case next_op s of
        (None, r) \<Rightarrow> POk l r
      | (Some bop, r) \<Rightarrow> pbind (sub r) (\<lambda>e r'. left_loop n next_op sub (BinaryOp l bop e) r'))"

definition left_level :: "(string \<Rightarrow> binary_operator option \<times> string) \<Rightarrow> eparser \<Rightarrow> eparser" where
  "left_level next_op sub s = pbind (sub s) (\<lambda>l r. left_loop (Suc (length r)) next_op sub l r)"

definition mul_op :: "string \<Rightarrow> binary_operator option \<times> string" where
  "mul_op s =
     (let t = skip_ws s
      in if starts_char CHR ''*'' t then (Some Mul, tl t)
         else if starts_char CHR ''/'' t then (Some Div, tl t)
         else if starts_char CHR ''%'' t then (Some Mod, tl t) else (None, t))"

definition add_op :: "string \<Rightarrow> binary_operator option \<times> string" where
  "add_op s =
     (let t = skip_ws s
      in if starts_char CHR ''+'' t then (Some Add, tl t)
         else if starts_char CHR ''-'' t then (Some Sub, tl t) else (None, t))"

definition bitand_op :: "string \<Rightarrow> binary_operator option \<times> string" where
  "bitand_op s =
     (let t = skip_ws s
      in if starts_char CHR ''&'' t \<and> \<not> starts_with ''&&'' t then (Some BitAnd, tl t) else (None, t))"

definition bitxor_op :: "string \<Rightarrow> binary_operator option \<times> string" where
  "bitxor_op s = (let t = skip_ws s in if starts_char CHR ''^'' t then (Some BitXor, tl t) else (None, t))"

definition bitor_op :: "string \<Rightarrow> binary_operator option \<times> string" where
  "bitor_op s =
     (let t = skip_ws s
      in if starts_char CHR ''|'' t \<and> \<not> starts_with ''||'' t then (Some BitOr, tl t) else (None, t))"

definition parse_multiplicative :: "lexer \<Rightarrow> eparser \<Rightarrow> eparser" where
  "parse_multiplicative L pe s = left_level mul_op (parse_unary L pe) s"

definition parse_additive :: "lexer \<Rightarrow> eparser \<Rightarrow> eparser" where
  "parse_additive L pe s = left_level add_op (parse_multiplicative L pe) s"

definition parse_bitand :: "lexer \<Rightarrow> eparser \<Rightarrow> eparser" where
  "parse_bitand L pe s = left_level bitand_op (parse_additive L pe) s"

definition parse_bitxor :: "lexer \<Rightarrow> eparser \<Rightarrow> eparser" where
  "parse_bitxor L pe s = left_level bitxor_op (parse_bitand L pe) s"

definition parse_bitor :: "lexer \<Rightarrow> eparser \<Rightarrow> eparser" where
  "parse_bitor L pe s = left_level bitor_op (parse_bitxor L pe) s"

definition comparison_op :: "string \<Rightarrow> (binary_operator \<times> nat) option" where
  "comparison_op t =
     (if starts_with ''>='' t then Some (Gte, 2)
      else if starts_with ''<='' t then Some (Lte, 2)
      else if starts_with ''!='' t \<or> starts_with ''<>'' t then Some (Neq, 2)
      else if starts_with ''=='' t then Some (Eq, 2)
      else if starts_char CHR ''>'' t then Some (Gt, 1)
      else if starts_char CHR ''<'' t then Some (Lt, 1)
      else if starts_char CHR ''='' t then Some (Eq, 1)
      else None)"

definition parse_comparison :: "lexer \<Rightarrow> eparser \<Rightarrow> eparser" where
  "parse_comparison L pe s =
     pbind (parse_bitor L pe s) (\<lambda>l r.
       let t = skip_ws r
       in if peek_word_is L ''NOT'' t then
            (let u = snd (match_keyword L ''NOT'' t)
             in if peek_word_is L ''LIKE'' u then
                  pbind (parse_bitor L pe (snd (match_keyword L ''LIKE'' u))) (\<lambda>e r. POk (UnaryOp Not (BinaryOp l Like e)) r)
                else POk l t)
          else if peek_word_is L ''LIKE'' t then
            pbind (parse_bitor L pe (snd (match_keyword L ''LIKE'' t))) (\<lambda>e r. POk (BinaryOp l Like e) r)
          else
            (case comparison_op t of
               None \<Rightarrow> POk l t
             | Some (bop, n) \<Rightarrow> pbind (parse_bitor L pe (drop n t)) (\<lambda>e r. POk (BinaryOp l bop e) r)))"

definition parse_between :: "lexer \<Rightarrow> eparser \<Rightarrow> expr \<Rightarrow> bool \<Rightarrow> string \<Rightarrow> expr pres" where
  "parse_between L pe l negated s =
     pbind (parse_comparison L pe s) (\<lambda>low r.
     pbind (expect_keyword L ''AND'' r) (\<lambda>_ r.
     pbind (parse_comparison L pe r) (\<lambda>high r. POk (Between l low high negated) r)))"

definition parse_range :: "lexer \<Rightarrow> eparser \<Rightarrow> eparser" where
  "parse_range L pe s =
     pbind (parse_comparison L pe s) (\<lambda>l r.
       let t = skip_ws r
       in case peek_word L t of
            None \<Rightarrow> POk l t
          | Some w \<Rightarrow>
              if eq_ignore_case w ''BETWEEN'' then parse_between L pe l False (snd (match_keyword L ''BETWEEN'' t))
              else if eq_ignore_case w ''NOT'' then
                (let u = snd (match_keyword L ''NOT'' t)
                 in case peek_word L u of
                      None \<Rightarrow> POk l t
                    | Some w2 \<Rightarrow>
                        if eq_ignore_case w2 ''BETWEEN'' then parse_between L pe l True (snd (match_keyword L ''BETWEEN'' u))
                        else if eq_ignore_case w2 ''IN'' then
                          pbind (parse_in_list pe (snd (match_keyword L ''IN'' u))) (\<lambda>es r. POk (InList l es True) r)
                        else if eq_ignore_case w2 ''LIKE'' then
                          pbind (parse_comparison L pe (snd (match_keyword L ''LIKE'' u))) (\<lambda>e r. POk (UnaryOp Not (BinaryOp l Like e)) r)
                        else POk l t)
              else if eq_ignore_case w ''IN'' then
                pbind (parse_in_list pe (snd (match_keyword L ''IN'' t))) (\<lambda>es r. POk (InList l es False) r)
              else if eq_ignore_case w ''IS'' then
                (let u = snd (match_keyword L ''IS'' t); negated = peek_word_is L ''NOT'' u;
                     v = (if negated then snd (match_keyword L ''NOT'' u) else u)
                 in pbind (expect_keyword L ''NULL'' v) (\<lambda>_ r. POk (IsNull l negated) r))
              else if eq_ignore_case w ''LIKE'' then
                pbind (parse_comparison L pe (snd (match_keyword L ''LIKE'' t))) (\<lambda>e r. POk (BinaryOp l Like e) r)
              else POk l t)"

definition and_op :: "lexer \<Rightarrow> string \<Rightarrow> binary_operator option \<times> string" where
  "and_op L s = (if peek_word_is L ''AND'' s then (Some And, snd (match_keyword L ''AND'' s)) else (None, s))"

definition or_op :: "lexer \<Rightarrow> string \<Rightarrow> binary_operator option \<times> string" where
  "or_op L s = (case match_keyword L ''OR'' s of (found, r) \<Rightarrow> (if found then Some Or else None, r))"

definition parse_and :: "lexer \<Rightarrow> eparser \<Rightarrow> eparser" where
  "parse_and L pe s = left_level (and_op L) (parse_range L pe) s"

definition parse_or :: "lexer \<Rightarrow> eparser \<Rightarrow> eparser" where
  "parse_or L pe s = left_level (or_op L) (parse_and L pe) s"

fun expr_at :: "nat \<Rightarrow> lexer \<Rightarrow> eparser" where
  "expr_at 0 L s = POut"
| "expr_at (Suc n) L s = parse_or L (expr_at n L) s"

definition parse_expr :: "lexer \<Rightarrow> eparser" where
  "parse_expr L s = expr_at (Suc (length s)) L s"

end
