(* ===== verification/Parser_Total.thy ===== *)
theory Parser_Total
  imports Parser
begin

text \<open>
  Every parser returns: it never runs out of its counter, consumes input where it must, and panics
  only on text that is not ASCII.
\<close>

definition runs :: "bool \<Rightarrow> string \<Rightarrow> 'a pres \<Rightarrow> bool" where
  "runs b s p =
     (case p of
        POk a r \<Rightarrow> suffix r s \<and> (b \<longrightarrow> length r < length s)
      | PErr e \<Rightarrow> True
      | PPanic \<Rightarrow> \<not> is_ascii s
      | POut \<Rightarrow> False)"

named_theorems runs_intro \<open>introduction rules for runs\<close>

lemma runs_simps [simp]:
  "runs b s (POk a r) \<longleftrightarrow> suffix r s \<and> (b \<longrightarrow> length r < length s)" "runs b s (PErr e)" "\<not> runs b s POut"
  "runs b s PPanic \<longleftrightarrow> \<not> is_ascii s"
  by (simp_all add: runs_def)

lemma ascii_suffix: "suffix r s \<Longrightarrow> is_ascii s \<Longrightarrow> is_ascii r"
  by (auto simp: is_ascii_def suffix_def)

lemma runs_mono: "runs b r p \<Longrightarrow> suffix r s \<Longrightarrow> (b' \<Longrightarrow> b \<or> length r < length s) \<Longrightarrow> runs b' s p"
proof (cases p)
  case (POk a q)
  assume "runs b r p" "suffix r s" "b' \<Longrightarrow> b \<or> length r < length s"
  then show ?thesis using POk suffix_length_le[of r s] suffix_length_le[of q r] suffix_order.trans[of q r s] by auto
qed (auto dest: ascii_suffix)

lemma runs_bind:
  assumes "runs b s p" "\<And>a r. p = POk a r \<Longrightarrow> suffix r s \<Longrightarrow> (b \<Longrightarrow> length r < length s) \<Longrightarrow> runs (b' \<and> \<not> b) r (f a r)"
  shows "runs b' s (pbind p f)"
proof (cases p)
  case (POk a r)
  then have r: "suffix r s" "b \<Longrightarrow> length r < length s" using assms(1) by auto
  have "runs (b' \<and> \<not> b) r (f a r)" using assms(2)[OF POk r] .
  then show ?thesis using POk r by (auto intro: runs_mono)
qed (use assms(1) in auto)

subsection \<open>Words\<close>

lemma strip_left_suffix: "suffix (strip_left ps s) s"
proof (induction ps s rule: strip_left.induct)
  case (1 ps s)
  show ?case
  proof (cases "find (\<lambda>p. p \<noteq> [] \<and> starts_with p s) ps")
    case (Some p)
    then have "strip_left ps s = strip_left ps (drop (length p) s)" by (subst strip_left.simps) simp
    then show ?thesis using "1.IH"[OF Some] suffix_drop suffix_order.trans by metis
  qed (simp add: strip_left.simps)
qed

lemma skip_ws_suffix [simp, intro]: "suffix (skip_ws s) s"
  by (rule strip_left_suffix)

lemma skip_ws_length: "length (skip_ws s) \<le> length s"
  by (simp add: suffix_length_le)

lemma suffix_tl [simp]: "suffix (tl s) s"
  by (cases s) (auto simp: suffix_def)

lemma runs_skip: "runs b (skip_ws s) p \<Longrightarrow> runs b s p"
  by (erule runs_mono) auto

lemma word_len_pos: "word_len L s \<noteq> 0 \<Longrightarrow> s \<noteq> []"
  by (auto simp: word_len.simps)

lemma peek_word_Some:
  assumes "peek_word L s = Some w"
  shows "w \<noteq> []" "suffix (drop (length w) (skip_ws s)) s" "length (drop (length w) (skip_ws s)) < length s"
proof -
  let ?t = "skip_ws s" let ?n = "word_len L ?t"
  have n: "?n \<noteq> 0" "w = take ?n ?t" using assms by (auto simp: peek_word_def Let_def split: if_splits)
  then have t: "?t \<noteq> []" using word_len_pos by blast
  then show "w \<noteq> []" using n by auto
  have "0 < length w" using \<open>w \<noteq> []\<close> by simp
  moreover have "0 < length ?t" using t by simp
  ultimately show "length (drop (length w) ?t) < length s" using skip_ws_length[of s] unfolding length_drop by linarith
  show "suffix (drop (length w) ?t) s" using suffix_drop skip_ws_suffix suffix_order.trans by blast
qed

lemma skip_ws_idem [simp]: "skip_ws (skip_ws s) = skip_ws s"
proof (induction WHITE s rule: strip_left.induct)
  case (1 s)
  show ?case
  proof (cases "find (\<lambda>p. p \<noteq> [] \<and> starts_with p s) WHITE")
    case (Some p)
    then have "skip_ws s = skip_ws (drop (length p) s)" by (subst strip_left.simps) simp
    then show ?thesis using "1"[OF Some] by simp
  next
    case None
    then have "skip_ws s = s" by (subst strip_left.simps) simp
    then show ?thesis by simp
  qed
qed

lemma peek_skip [simp]: "peek_word L (skip_ws s) = peek_word L s" "peek_word_is L kw (skip_ws s) = peek_word_is L kw s"
  by (simp_all add: peek_word_def peek_word_is_def)

lemma runs_keyword [runs_intro]: "runs True s (expect_keyword L kw s)"
  using peek_word_Some by (auto simp: expect_keyword_def Let_def split: option.splits)

lemma match_True: "match_keyword L kw s = (True, r) \<Longrightarrow> suffix r s \<and> length r < length s"
  using peek_word_Some by (auto simp: match_keyword_def Let_def split: option.splits if_splits)

lemma match_False: "match_keyword L kw s = (False, r) \<Longrightarrow> suffix r s"
  by (auto simp: match_keyword_def Let_def split: option.splits if_splits)

lemma match_found: "fst (match_keyword L kw s) = peek_word_is L kw s"
  by (auto simp: match_keyword_def peek_word_is_def Let_def split: option.splits)

lemma match_snd:
  "suffix (snd (match_keyword L kw s)) s" "peek_word_is L kw s \<Longrightarrow> length (snd (match_keyword L kw s)) < length s"
  using match_True[of L kw s] match_False[of L kw s] match_found[of L kw s]
  by (cases "match_keyword L kw s"; cases "fst (match_keyword L kw s)"; auto)+

lemma starts_char_Cons: "starts_char c s \<longleftrightarrow> (\<exists>r. s = c # r)"
  by (auto simp: starts_char_def split: list.splits)

lemma starts_char_tl: "starts_char c s \<Longrightarrow> length (tl s) < length s"
  by (auto simp: starts_char_Cons)

lemma runs_char [runs_intro]: "runs True s (expect_char c s)"
proof -
  have "suffix (tl (skip_ws s)) s" using suffix_tl skip_ws_suffix suffix_order.trans by blast
  then show ?thesis using starts_char_tl[of c "skip_ws s"] skip_ws_length[of s]
    by (auto simp: expect_char_def Let_def)
qed

lemma runs_take_word [runs_intro]: "runs True s (take_word L msg s)"
  using peek_word_Some by (auto simp: take_word_def Let_def split: option.splits)

lemma runs_quoted: "s \<noteq> [] \<Longrightarrow> runs True s (quoted msg s)"
proof -
  assume "s \<noteq> []"
  then obtain q rest where s: "s = q # rest" by (cases s) auto
  have "suffix (tl (dropWhile (\<lambda>c. c \<noteq> q) rest)) s"
    unfolding s using suffix_tl suffix_dropWhile suffix_order.trans suffix_ConsI by metis
  moreover have "length (tl (dropWhile (\<lambda>c. c \<noteq> q) rest)) < length s"
    unfolding s using length_dropWhile_le[of "\<lambda>c. c \<noteq> q" rest] by simp
  ultimately show ?thesis using s by (simp add: quoted_def Let_def)
qed

lemma runs_backtick_scan: "runs True s (backtick_scan acc s)"
proof (induction acc s rule: backtick_scan.induct)
  case (2 acc c cs)
  show ?case
  proof (cases "c = CHR 0x60 \<or> 128 \<le> (of_char c :: nat)")
    case False
    then show ?thesis using "2.IH" by (auto intro: runs_mono simp: suffix_ConsI)
  qed (auto simp: is_ascii_def suffix_ConsI)
qed simp

lemma runs_backtick [runs_intro]: "runs True s (parse_backtick_identifier s)"
proof -
  have "runs True s (backtick_scan [] (tl (skip_ws s)))" if "starts_char CHR 0x60 (skip_ws s)"
  proof (rule runs_mono[OF runs_backtick_scan])
    show "suffix (tl (skip_ws s)) s" using suffix_tl skip_ws_suffix suffix_order.trans by blast
  qed auto
  then show ?thesis by (simp add: parse_backtick_identifier_def Let_def)
qed

lemma runs_column [runs_intro]: "runs True s (parse_column_identifier L s)"
  by (auto simp: parse_column_identifier_def Let_def intro!: runs_intro runs_skip[of _ s])

lemma runs_object_key [runs_intro]: "runs True s (parse_object_key L s)"
  by (auto simp: parse_object_key_def Let_def intro!: runs_intro runs_quoted runs_skip[of _ s])

subsection \<open>Expressions inside expressions\<close>

definition eats :: "nat \<Rightarrow> (string \<Rightarrow> 'a pres) \<Rightarrow> bool" where
  "eats m p \<longleftrightarrow> (\<forall>t. length t < m \<longrightarrow> runs True t (p t))"

lemma eatsD: "eats m p \<Longrightarrow> length t < m \<Longrightarrow> runs True t (p t)"
  by (simp add: eats_def)

text \<open>A parser at a later place of the input.\<close>

lemma runs_later: "runs True r p \<Longrightarrow> suffix r s \<Longrightarrow> runs b s p"
  by (erule runs_mono) auto

lemma runs_weaken: "runs True s p \<Longrightarrow> runs b s p"
  by (erule runs_mono) auto

lemma number_len_pos: "is_number_start s \<Longrightarrow> 0 < number_len s \<and> s \<noteq> []"
  by (auto simp: is_number_start_def number_len_def Let_def digits_len_def fraction_len_def starts_char_def split: list.splits)

lemma runs_number: "is_number_start (skip_ws s) \<Longrightarrow> runs True s (parse_number L s)"
proof -
  assume n: "is_number_start (skip_ws s)"
  let ?t = "skip_ws s"
  have "suffix (drop (number_len ?t) ?t) s" using suffix_drop skip_ws_suffix suffix_order.trans by blast
  moreover have "length (drop (number_len ?t) ?t) < length s"
  proof -
    have "0 < number_len ?t" "0 < length ?t" using number_len_pos[OF n] by auto
    then show ?thesis using skip_ws_length[of s] unfolding length_drop by linarith
  qed
  ultimately show ?thesis by (auto simp: parse_number_def Let_def split: option.splits)
qed

lemma runs_closed_by [runs_intro]:
  assumes "runs False s p"
  shows "runs True s (closed_by c p)"
  unfolding closed_by_def
proof (rule runs_bind[OF assms])
  fix a r assume "suffix r s"
  show "runs (True \<and> \<not> False) r (pbind (expect_char c (skip_ws r)) (\<lambda>_ r'. POk a r'))"
    by (rule runs_bind[where b = True]) (auto intro: runs_skip runs_char)
qed

lemma tl_skip: "suffix (tl (skip_ws s)) s" "starts_char c (skip_ws s) \<Longrightarrow> length (tl (skip_ws s)) < length s"
  using suffix_tl skip_ws_suffix suffix_order.trans starts_char_tl[of c "skip_ws s"] skip_ws_length[of s]
  by (blast, linarith)

lemma runs_items:
  assumes "\<And>t. length t \<le> k \<Longrightarrow> runs True t (item t)"
  shows "length s \<le> k \<Longrightarrow> length s < n \<Longrightarrow> runs True s (items n item acc s)"
proof (induction n arbitrary: acc s)
  case (Suc n)
  have item: "runs True s (item (skip_ws s))" using assms[of "skip_ws s"] Suc.prems skip_ws_length[of s] by (auto intro: runs_skip)
  show ?case unfolding items.simps
  proof (rule runs_bind[OF item])
    fix a r assume r: "suffix r s" "True \<Longrightarrow> length r < length s"
    have "runs True r (items n item (acc @ [a]) (tl (skip_ws r)))" if "starts_char CHR '','' (skip_ws r)"
      by (rule runs_later[OF Suc.IH tl_skip(1)]) (use tl_skip(2)[OF that] r(2)[OF TrueI] Suc.prems in linarith)+
    then show "runs (True \<and> \<not> True) r (let u = skip_ws r in if starts_char CHR '','' u
       then items n item (acc @ [a]) (tl u) else POk (acc @ [a]) u)"
      by (auto simp: Let_def intro: runs_weaken)
  qed
qed simp

lemma runs_comma_items:
  assumes "\<And>t. length t \<le> k \<Longrightarrow> runs True t (item t)"
  shows "length s \<le> k \<Longrightarrow> length s < n \<Longrightarrow> runs False s (comma_items n close item acc s)"
proof (induction n arbitrary: acc s)
  case (Suc n)
  have item: "runs True s (item (skip_ws s))" using assms[of "skip_ws s"] Suc.prems skip_ws_length[of s] by (auto intro: runs_skip)
  have "runs False s (pbind (item (skip_ws s)) (\<lambda>a r. let u = skip_ws r
      in if starts_char CHR '','' u then comma_items n close item (acc @ [a]) (tl u) else POk (acc @ [a]) u))"
  proof (rule runs_bind[OF item])
    fix a r assume r: "suffix r s" "True \<Longrightarrow> length r < length s"
    have "runs False r (comma_items n close item (acc @ [a]) (tl (skip_ws r)))" if "starts_char CHR '','' (skip_ws r)"
      by (rule runs_mono[OF Suc.IH tl_skip(1)]) (use tl_skip(2)[OF that] r(2)[OF TrueI] Suc.prems in \<open>linarith | simp\<close>)+
    then show "runs (False \<and> \<not> True) r (let u = skip_ws r in if starts_char CHR '','' u
       then comma_items n close item (acc @ [a]) (tl u) else POk (acc @ [a]) u)"
      by (auto simp: Let_def)
  qed
  then show ?case by (auto simp: Let_def)
qed simp

lemma runs_in_list:
  assumes "eats m pe" "length s \<le> m"
  shows "runs True s (parse_in_list pe s)"
  unfolding parse_in_list_def
proof (rule runs_bind[OF runs_char])
  fix a r assume r: "suffix r s" "True \<Longrightarrow> length r < length s"
  have "runs False r (comma_items (Suc (length r)) CHR '')'' pe [] r)"
    by (rule runs_comma_items[of "length r"]) (use assms r(2) in \<open>auto intro: eatsD\<close>)
  then show "runs (True \<and> \<not> True) r (closed_by CHR '')'' (comma_items (Suc (length r)) CHR '')'' pe [] r))"
    by (auto intro: runs_weaken runs_closed_by)
qed

lemma runs_call_arg: "eats m pe \<Longrightarrow> length s < m \<Longrightarrow> runs True s (call_arg_item pe s)"
  by (auto simp: call_arg_item_def starts_char_Cons suffix_ConsI intro: eatsD)

lemma runs_call_args:
  assumes "eats m pe" "length s < m"
  shows "runs True s (call_args pe s)"
proof -
  let ?t = "skip_ws s"
  have "runs True ?t (items (Suc (length ?t)) (call_arg_item pe) [] ?t)"
    by (rule runs_items[of "length ?t"]) (use assms skip_ws_length[of s] in \<open>auto intro: runs_call_arg\<close>)
  then show ?thesis unfolding call_args_def
    by (intro runs_closed_by) (auto simp: Let_def intro: runs_skip runs_weaken)
qed

lemma runs_object_pair:
  assumes "eats m pe" "length s \<le> m"
  shows "runs True s (object_pair L pe s)"
  unfolding object_pair_def
proof (rule runs_bind[OF runs_object_key])
  fix key r assume r: "suffix r s" "True \<Longrightarrow> length r < length s"
  have "runs True r (pbind (expect_char CHR '':'' r) (\<lambda>_ r. pbind (pe r) (\<lambda>v r. POk [Literal (Str key), v] r)))"
  proof (rule runs_bind[OF runs_char])
    fix a u assume u: "suffix u r" "True \<Longrightarrow> length u < length r"
    show "runs (True \<and> \<not> True) u (pbind (pe u) (\<lambda>v r. POk [Literal (Str key), v] r))"
      by (rule runs_bind[OF eatsD[OF assms(1)]]) (use u(2) r(2) assms(2) in auto)
  qed
  then show "runs (True \<and> \<not> True) r (pbind (expect_char CHR '':'' r) (\<lambda>_ r. pbind (pe r) (\<lambda>v r. POk [Literal (Str key), v] r)))"
    by (rule runs_weaken)
qed

text \<open>The two forms of sequencing: a consuming parser first, or any parser first.\<close>

lemma runs_first:
  assumes "runs True s p" "\<And>a r. length r < length s \<Longrightarrow> runs False r (f a r)"
  shows "runs b s (pbind p f)"
  by (rule runs_bind[OF assms(1)]) (use assms(2) in \<open>auto intro: runs_mono\<close>)

lemma runs_then:
  assumes "runs False s p" "\<And>a r. length r \<le> length s \<Longrightarrow> runs b r (f a r)"
  shows "runs b s (pbind p f)"
  by (rule runs_bind[OF assms(1)]) (use assms(2) suffix_length_le in auto)

text \<open>The same at a later place of the input.\<close>

lemma runs_at:
  assumes "runs True u p" "suffix u s" "\<And>a r. length r < length u \<Longrightarrow> runs False r (f a r)"
  shows "runs b s (pbind p f)"
  using runs_later[OF runs_first[OF assms(1,3)] assms(2)] .

lemma runs_False: "runs b s p \<Longrightarrow> runs False s p"
  by (cases p) auto

lemma runs_pexpr: "eats m pe \<Longrightarrow> length t < m \<Longrightarrow> runs b t (pbind (pe t) (\<lambda>e r. POk (f e) r))"
  by (rule runs_first[OF eatsD]) auto

lemma runs_field_name: "runs True s (field_name L s)"
proof (cases "starts_char CHR ''*'' (skip_ws s)")
  case True
  then show ?thesis using tl_skip(1) tl_skip(2)[OF True] by (simp add: field_name_def Let_def)
qed (auto simp: field_name_def Let_def intro!: runs_intro runs_skip[of _ s])

lemma runs_arrow_name: "runs True s (arrow_name L s)"
proof -
  have "starts_quote (skip_ws s) \<Longrightarrow> skip_ws s \<noteq> []" by (auto simp: starts_quote_def)
  then show ?thesis by (auto simp: arrow_name_def Let_def intro!: runs_intro runs_quoted runs_skip[of _ s])
qed

lemma runs_slice_end:
  assumes "eats m pe" "length s < m"
  shows "runs True s (slice_end pe s)"
  unfolding slice_end_def
proof (rule runs_closed_by)
  have "length (skip_ws s) < m" using assms(2) skip_ws_length[of s] by linarith
  then show "runs False s (let t = skip_ws s in if starts_char CHR '']'' t then POk None t else pbind (pe t) (\<lambda>e r. POk (Some e) r))"
    using runs_pexpr[OF assms(1)] by (auto simp: Let_def intro: runs_skip)
qed

lemma runs_tail: "runs b (tl t) p \<Longrightarrow> runs b t p"
  by (erule runs_mono) auto

lemma runs_subscript:
  assumes "eats m pe" "length s < m"
  shows "runs True s (subscript pe b s)"
proof -
  let ?t = "skip_ws s"
  have t: "length ?t < m" using assms(2) skip_ws_length[of s] by linarith
  have slice: "runs True u (pbind (slice_end pe (tl u)) (\<lambda>hi r. POk (f hi) r))" if "length u < m" for u f
    by (rule runs_tail, rule runs_first[OF runs_slice_end[OF assms(1)]]) (use that in auto)
  have "runs True ?t (pbind (pe ?t) (\<lambda>first r. let u = skip_ws r
         in if starts_char CHR '':'' u then pbind (slice_end pe (tl u)) (\<lambda>hi r. POk (Slice b (Some first) hi) r)
            else pbind (expect_char CHR '']'' u) (\<lambda>_ r. POk (Index b first) r)))"
  proof (rule runs_first[OF eatsD[OF assms(1) t]])
    fix first and r :: string
    assume r: "length r < length ?t"
    have "length (skip_ws r) < m" using r t skip_ws_length[of r] by linarith
    then have "runs True r (pbind (slice_end pe (tl (skip_ws r))) (\<lambda>hi r. POk (Slice b (Some first) hi) r))"
      using slice runs_skip by blast
    moreover have "runs True r (pbind (expect_char CHR '']'' (skip_ws r)) (\<lambda>_ r. POk (Index b first) r))"
      by (rule runs_skip, rule runs_first[OF runs_char]) simp
    ultimately show "runs False r (let u = skip_ws r
         in if starts_char CHR '':'' u then pbind (slice_end pe (tl u)) (\<lambda>hi r. POk (Slice b (Some first) hi) r)
            else pbind (expect_char CHR '']'' u) (\<lambda>_ r. POk (Index b first) r))"
      by (auto simp: Let_def intro: runs_False)
  qed
  then show ?thesis using slice[OF t] unfolding subscript_def Let_def by (auto intro: runs_skip)
qed

lemma runs_postfix_loop: "eats m pe \<Longrightarrow> length s \<le> m \<Longrightarrow> length s < n \<Longrightarrow> runs False s (postfix_loop n L pe e s)"
proof (induction n arbitrary: e s)
  case (Suc n)
  let ?t = "skip_ws s"
  have IH: "runs False r (postfix_loop n L pe e r)" if "length r < length s" for e r
    using Suc.IH[OF Suc.prems(1)] Suc.prems that by simp
  have dot: "suffix (tl ?t) s" "starts_char c ?t \<Longrightarrow> length (tl ?t) < length s" for c using tl_skip by auto
  have drop2: "suffix (drop 2 ?t) s" using suffix_drop skip_ws_suffix suffix_order.trans by blast
  have arrow: "length (drop 2 ?t) < length s" if "starts_with ''->'' ?t"
  proof -
    have "0 < length ?t" using that by (cases ?t) (auto simp: starts_with_def)
    then show ?thesis using skip_ws_length[of s] unfolding length_drop by linarith
  qed
  have field: "runs False s (pbind (field_name L (tl ?t)) (\<lambda>f r. postfix_loop n L pe (FieldAccess e f) r))"
    if "starts_char CHR ''.'' ?t" by (rule runs_at[OF runs_field_name dot(1)], rule IH) (use dot(2)[OF that] in linarith)
  have arr: "runs False s (pbind (arrow_name L (drop 2 ?t)) (\<lambda>f r. postfix_loop n L pe (FieldAccess e f) r))"
    if "starts_with ''->'' ?t" by (rule runs_at[OF runs_arrow_name drop2], rule IH) (use arrow[OF that] in linarith)
  have sub: "runs False s (pbind (subscript pe e (tl ?t)) (\<lambda>e' r. postfix_loop n L pe e' r))" if "starts_char CHR ''['' ?t"
    by (rule runs_at[OF runs_subscript[OF Suc.prems(1)] dot(1)], use dot(2)[OF that] Suc.prems in linarith, rule IH)
      (use dot(2)[OF that] in linarith)
  show ?case using field arr sub by (simp add: Let_def)
qed simp

lemma runs_postfix: "eats m pe \<Longrightarrow> length s \<le> m \<Longrightarrow> runs False s (parse_postfix L pe e s)"
  unfolding parse_postfix_def by (rule runs_postfix_loop) auto

lemma match_case:
  assumes "\<And>r. length r < length s \<Longrightarrow> runs False r (f r)" "\<And>r. length r \<le> length s \<Longrightarrow> runs False r (g r)"
  shows "runs False s (case match_keyword L kw s of (found, r) \<Rightarrow> if found then f r else g r)"
proof -
  obtain found r where m: "match_keyword L kw s = (found, r)" by fastforce
  show ?thesis
  proof (cases found)
    case True
    then have "suffix r s" "length r < length s" using match_True[of L kw s r] m by auto
    then show ?thesis using runs_mono[OF assms(1), of r s False] m True by auto
  next
    case False
    then have "suffix r s" using match_False[of L kw s r] m by auto
    then show ?thesis using runs_mono[OF assms(2), of r s False] suffix_length_le[of r s] m False by auto
  qed
qed

lemma case_bool_if: "(case x of (True, r) \<Rightarrow> f r | (False, r) \<Rightarrow> g r) = (case x of (found, r) \<Rightarrow> if found then f r else g r)"
  "(case x of (False, r) \<Rightarrow> g r | (True, r) \<Rightarrow> f r) = (case x of (found, r) \<Rightarrow> if found then f r else g r)"
  by (auto split: prod.splits bool.splits)

lemma runs_when_clauses: "eats m pe \<Longrightarrow> length s \<le> m \<Longrightarrow> length s < n \<Longrightarrow> runs False s (when_clauses n L pe acc s)"
proof (induction n arbitrary: acc s)
  case (Suc n)
  have "runs False r (pbind (pe r) (\<lambda>c r. pbind (expect_keyword L ''THEN'' r) (\<lambda>_ r. pbind (pe r) (\<lambda>v r.
          when_clauses n L pe (acc @ [(c, v)]) r))))" if "length r < length s" for r
  proof (rule runs_first[OF eatsD[OF Suc.prems(1)]])
    show "length r < m" using that Suc.prems by linarith
    fix c and u :: string assume u: "length u < length r"
    show "runs False u (pbind (expect_keyword L ''THEN'' u) (\<lambda>_ r. pbind (pe r) (\<lambda>v r. when_clauses n L pe (acc @ [(c, v)]) r)))"
      by (rule runs_first[OF runs_keyword], rule runs_first[OF eatsD[OF Suc.prems(1)]], use that u Suc.prems in linarith,
          rule Suc.IH[OF Suc.prems(1)]; use that u Suc.prems in linarith)
  qed
  then show ?case unfolding when_clauses.simps case_bool_if by (intro match_case) auto
qed simp

lemma runs_case:
  assumes "eats m pe" "length s < m"
  shows "runs False s (parse_case L pe s)"
proof -
  have opnd: "runs False s (if peek_word_is L ''WHEN'' s then POk None s else pbind (pe s) (\<lambda>e r. POk (Some e) r))"
    using runs_pexpr[OF assms, of False Some] by simp
  have els: "runs False r (case match_keyword L ''ELSE'' r of (True, r) \<Rightarrow> pbind (pe r) (\<lambda>e r. POk (Some e) r) | (False, r) \<Rightarrow> POk None r)"
    if "length r < m" for r unfolding case_bool_if by (rule match_case) (use runs_pexpr[OF assms(1), of _ False Some] that in auto)
  show ?thesis unfolding parse_case_def
  proof (rule runs_then[OF opnd])
    fix opnd and r :: string assume r: "length r \<le> length s"
    show "runs False r (pbind (when_clauses (Suc (length r)) L pe [] r) (\<lambda>whens r.
       if whens = [] then PErr ''CASE expression requires at least one WHEN clause''
       else pbind (case match_keyword L ''ELSE'' r of (True, r) \<Rightarrow> pbind (pe r) (\<lambda>e r. POk (Some e) r) | (False, r) \<Rightarrow> POk None r)
         (\<lambda>els r. pbind (expect_keyword L ''END'' r) (\<lambda>_ r. POk (Case opnd whens els) r))))"
    proof (rule runs_then[OF runs_when_clauses[OF assms(1)]])
      fix whens and u :: string assume u: "length u \<le> length r"
      have "runs False u (pbind (case match_keyword L ''ELSE'' u of (True, r) \<Rightarrow> pbind (pe r) (\<lambda>e r. POk (Some e) r) | (False, r) \<Rightarrow> POk None r)
         (\<lambda>els r. pbind (expect_keyword L ''END'' r) (\<lambda>_ r. POk (Case opnd whens els) r)))"
        by (rule runs_then[OF els]) (use u r assms(2) in \<open>auto intro: runs_first[OF runs_keyword]\<close>)
      then show "runs False u (if whens = [] then PErr ''CASE expression requires at least one WHEN clause''
       else pbind (case match_keyword L ''ELSE'' u of (True, r) \<Rightarrow> pbind (pe r) (\<lambda>e r. POk (Some e) r) | (False, r) \<Rightarrow> POk None r)
         (\<lambda>els r. pbind (expect_keyword L ''END'' r) (\<lambda>_ r. POk (Case opnd whens els) r)))" by simp
    qed (use r assms(2) in auto)
  qed
qed

lemma runs_over_loop: "eats m pe \<Longrightarrow> length s \<le> m \<Longrightarrow> length s < n \<Longrightarrow> runs False s (over_loop n L pe part cond s)"
proof (induction n arbitrary: part cond s)
  case (Suc n)
  let ?t = "skip_ws s" and ?p = "snd (match_keyword L ''PARTITION'' (skip_ws s))" and ?w = "snd (match_keyword L ''WHEN'' (skip_ws s))"
  have IH: "runs False r (over_loop n L pe part cond r)" if "length r < length s" for r part cond
    using Suc.IH[OF Suc.prems(1)] Suc.prems that by simp
  have p: "runs False ?t (pbind (expect_keyword L ''BY'' ?p) (\<lambda>_ r. pbind (pe r) (\<lambda>e r. over_loop n L pe (Some e) cond r)))"
    if "peek_word_is L ''PARTITION'' ?t"
  proof (rule runs_mono[OF _ match_snd(1)])
    have len: "length ?p < length s" using match_snd(2)[OF that] skip_ws_length[of s] by linarith
    show "runs False ?p (pbind (expect_keyword L ''BY'' ?p) (\<lambda>_ r. pbind (pe r) (\<lambda>e r. over_loop n L pe (Some e) cond r)))"
      by (rule runs_first[OF runs_keyword], rule runs_first[OF eatsD[OF Suc.prems(1)]], use len Suc.prems in linarith, rule IH)
        (use len in linarith)
  qed simp
  have w: "runs False ?t (pbind (pe ?w) (\<lambda>e r. over_loop n L pe part (Some e) r))" if "peek_word_is L ''WHEN'' ?t"
  proof (rule runs_mono[OF _ match_snd(1)])
    have len: "length ?w < length s" using match_snd(2)[OF that] skip_ws_length[of s] by linarith
    show "runs False ?w (pbind (pe ?w) (\<lambda>e r. over_loop n L pe part (Some e) r))"
      by (rule runs_first[OF eatsD[OF Suc.prems(1)]], use len Suc.prems in linarith, rule IH) (use len in linarith)
  qed simp
  show ?case using runs_skip[OF p] runs_skip[OF w] by (simp add: Let_def)
qed simp

lemma runs_over:
  assumes "eats m pe" "length s \<le> m"
  shows "runs False s (parse_over L pe call s)"
proof -
  have post: "runs False r (parse_postfix L pe e r)" if "length r \<le> length s" for r e using runs_postfix[OF assms(1)] assms(2) that by simp
  have "runs False r (pbind (expect_char CHR ''('' (skip_ws r)) (\<lambda>_ r.
          pbind (closed_by CHR '')'' (over_loop (Suc (length r)) L pe None None r)) (\<lambda>pw r.
            parse_postfix L pe (Over call (fst pw) (snd pw)) r)))" if "length r < length s" for r
  proof (rule runs_skip, rule runs_first[OF runs_char])
    fix a and u :: string assume "length u < length (skip_ws r)"
    then have u: "length u < length s" using that skip_ws_length[of r] by linarith
    show "runs False u (pbind (closed_by CHR '')'' (over_loop (Suc (length u)) L pe None None u)) (\<lambda>pw r.
            parse_postfix L pe (Over call (fst pw) (snd pw)) r))"
      by (rule runs_first[OF runs_closed_by[OF runs_over_loop[OF assms(1)]]]) (use u assms(2) post in auto)
  qed
  then have "runs False (skip_ws s) (parse_over L pe call s)"
    unfolding parse_over_def case_bool_if using post skip_ws_length[of s] by (intro match_case) (auto intro: order.strict_trans2)
  then show ?thesis by (rule runs_skip)
qed

lemma runs_word:
  assumes "eats m pe" "length s < m"
  shows "runs False s (parse_word L pe word s)"
proof -
  let ?t = "skip_ws s"
  have post: "runs False r (parse_postfix L pe e r)" if "length r \<le> length s" for r e using runs_postfix[OF assms(1)] assms(2) that by simp
  have "runs False s (pbind (parse_case L pe s) (parse_postfix L pe))"
    by (rule runs_then[OF runs_case[OF assms]]) (use post in auto)
  moreover have "runs False s (pbind (call_args pe (tl ?t)) (\<lambda>args r. parse_over L pe (Call word args) r))" if "starts_char CHR ''('' ?t"
    by (rule runs_at[OF runs_call_args[OF assms(1)] tl_skip(1)], use tl_skip(2)[OF that] assms(2) in linarith, rule runs_over[OF assms(1)])
      (use tl_skip(2)[OF that] assms(2) in linarith)
  moreover have "runs False s (parse_postfix L pe (Identifier word) ?t)"
    by (rule runs_skip, rule post) (rule skip_ws_length)
  ultimately show ?thesis using post[of s] unfolding parse_word_def Let_def by simp
qed

lemma runs_primary:
  assumes "eats m pe" "length s \<le> m"
  shows "runs True s (parse_primary L pe s)"
proof (rule runs_skip)
  let ?t = "skip_ws s"
  have t: "length ?t \<le> m" using assms(2) skip_ws_length[of s] by linarith
  have post: "runs False r (parse_postfix L pe e r)" if "length r < length ?t" for r e
    using runs_postfix[OF assms(1)] t that by simp
  have tail: "suffix (tl ?t) ?t" by simp
  have inner: "length (tl ?t) < m" if "starts_char c ?t" for c using starts_char_tl[OF that] t by linarith
  have bt: "runs True ?t (pbind (parse_backtick_identifier ?t) (\<lambda>i r. parse_postfix L pe (Identifier i) r))"
    by (rule runs_first[OF runs_backtick]) (rule post)
  have par: "runs True ?t (pbind (closed_by CHR '')'' (pe (tl ?t))) (parse_postfix L pe))" if "starts_char CHR ''('' ?t"
    by (rule runs_at[OF runs_closed_by[OF runs_False[OF eatsD[OF assms(1) inner[OF that]]]] tail], rule post) simp
  have str: "runs True ?t (pbind (quoted ''Unterminated string literal'' ?t) (\<lambda>x r. parse_postfix L pe (Literal (Str x)) r))" if "?t \<noteq> []"
    by (rule runs_first[OF runs_quoted[OF that]]) (rule post)
  have arr: "runs True ?t (pbind (closed_by CHR '']'' (comma_items (Suc (length (tl ?t))) CHR '']'' pe [] (tl ?t))) (\<lambda>args r.
             parse_postfix L pe (Call ''array_create'' args) r))" if "starts_char CHR ''['' ?t"
  proof (rule runs_at[OF runs_closed_by tail])
    show "runs False (tl ?t) (comma_items (Suc (length (tl ?t))) CHR '']'' pe [] (tl ?t))"
      by (rule runs_comma_items[of "length (tl ?t)"]) (use inner[OF that] in \<open>auto intro: eatsD[OF assms(1)]\<close>)
  qed (use post in simp)
  have obj: "runs True ?t (pbind (closed_by CHR ''}'' (comma_items (Suc (length (tl ?t))) CHR ''}'' (object_pair L pe) [] (tl ?t))) (\<lambda>args r.
             parse_postfix L pe (Call ''json_map'' (concat args)) r))" if "starts_char CHR ''{'' ?t"
  proof (rule runs_at[OF runs_closed_by tail])
    show "runs False (tl ?t) (comma_items (Suc (length (tl ?t))) CHR ''}'' (object_pair L pe) [] (tl ?t))"
      by (rule runs_comma_items[of "length (tl ?t)"]) (use inner[OF that] in \<open>auto intro: runs_object_pair[OF assms(1)]\<close>)
  qed (use post in simp)
  have num: "runs True ?t (pbind (parse_number L ?t) (parse_postfix L pe))" if "is_number_start ?t"
    by (rule runs_first[OF runs_number]) (use that post in auto)
  have wd: "runs True ?t (pbind (take_word L ''Expected expression token'' ?t) (parse_word L pe))"
    by (rule runs_first[OF runs_take_word], rule runs_word[OF assms(1)]) (use t in linarith)
  show "runs True ?t (parse_primary L pe s)"
    unfolding parse_primary_def Let_def using bt par str arr obj num wd by (simp del: comma_items.simps length_tl)
qed

lemma runs_unary_loop: "eats m pe \<Longrightarrow> length s \<le> m \<Longrightarrow> length s < n \<Longrightarrow> runs True s (unary_loop n L pe s)"
proof (induction n arbitrary: s)
  case (Suc n)
  let ?t = "skip_ws s" and ?u = "snd (match_keyword L ''NOT'' (skip_ws s))"
  have t: "length ?t \<le> length s" by (rule skip_ws_length)
  have IH: "runs True r (unary_loop n L pe r)" if "length r < length s" for r using Suc.IH[OF Suc.prems(1)] Suc.prems that by simp
  have "runs True ?t (pbind (unary_loop n L pe ?u) (\<lambda>e r. POk (UnaryOp Not e) r))" if "peek_word_is L ''NOT'' ?t"
    by (rule runs_at[OF IH match_snd(1)]) (use match_snd(2)[OF that] t in \<open>linarith | simp\<close>)+
  moreover have "runs True ?t (pbind (unary_loop n L pe (tl ?t)) (\<lambda>e r. POk (UnaryOp Neg e) r))" if "starts_char CHR ''-'' ?t"
    by (rule runs_at[OF IH suffix_tl]) (use starts_char_tl[OF that] t in \<open>linarith | simp\<close>)+
  moreover have "runs True ?t (unary_loop n L pe (tl ?t))" if "starts_char CHR ''+'' ?t"
    by (rule runs_later[OF IH suffix_tl]) (use starts_char_tl[OF that] t in linarith)
  moreover have "runs True ?t (parse_primary L pe ?t)" by (rule runs_primary[OF Suc.prems(1)]) (use t Suc.prems in linarith)
  ultimately show ?case by (auto simp: Let_def intro!: runs_skip[of True s])
qed simp

subsection \<open>Levels\<close>

text \<open>What the recogniser of operators owes to the loop.\<close>

definition op_ok :: "(string \<Rightarrow> binary_operator option \<times> string) \<Rightarrow> bool" where
  "op_ok next_op \<longleftrightarrow> (\<forall>s. case next_op s of
      (None, r) \<Rightarrow> suffix r s | (Some _, r) \<Rightarrow> suffix r s \<and> length r < length s)"

lemma runs_left_loop:
  assumes "op_ok next_op" "\<And>t. length t \<le> m \<Longrightarrow> runs True t (sub t)"
  shows "length s \<le> m \<Longrightarrow> length s < n \<Longrightarrow> runs False s (left_loop n next_op sub l s)"
proof (induction n arbitrary: l s)
  case (Suc n)
  obtain o' r where o: "next_op s = (o', r)" by fastforce
  show ?case
  proof (cases o')
    case None
    then show ?thesis using o assms(1) by (auto simp: op_ok_def dest!: spec[of _ s])
  next
    case (Some bop)
    then have r: "suffix r s" "length r < length s" using o assms(1) by (auto simp: op_ok_def dest!: spec[of _ s])
    have "runs False s (pbind (sub r) (\<lambda>e r'. left_loop n next_op sub (BinaryOp l bop e) r'))"
      by (rule runs_at[OF assms(2) r(1)], use r(2) Suc.prems in linarith, rule Suc.IH) (use r(2) Suc.prems in linarith)+
    then show ?thesis using o Some by simp
  qed
qed simp

lemma eats_level:
  assumes "op_ok next_op" "eats m sub"
  shows "eats m (left_level next_op sub)"
  unfolding eats_def
proof (intro allI impI)
  fix t :: string assume t: "length t < m"
  show "runs True t (left_level next_op sub t)"
    unfolding left_level_def
  proof (rule runs_first[OF eatsD[OF assms(2) t]])
    fix l and r :: string assume "length r < length t"
    then show "runs False r (left_loop (Suc (length r)) next_op sub l r)"
      by (intro runs_left_loop[OF assms(1), of "length r"]) (use t in \<open>auto intro: eatsD[OF assms(2)]\<close>)
  qed
qed

lemma op_ok_simps [simp]:
  "op_ok mul_op" "op_ok add_op" "op_ok bitand_op" "op_ok bitxor_op" "op_ok bitor_op" "op_ok (and_op L)" "op_ok (or_op L)"
proof -
  show "op_ok (and_op L)" using match_snd by (auto simp: op_ok_def and_op_def)
  show "op_ok (or_op L)"
    using match_True[of L "''OR''"] match_False[of L "''OR''"] by (auto simp: op_ok_def or_op_def split: prod.splits if_splits)
qed (use tl_skip in \<open>auto simp: op_ok_def mul_op_def add_op_def bitand_op_def bitxor_op_def bitor_op_def Let_def\<close>)

text \<open>A parser for sub-expressions of length at most \<open>m\<close> makes every level work on one more.\<close>

lemma eats_levels:
  assumes "eats m pe"
  shows "eats (Suc m) (parse_unary L pe)" "eats (Suc m) (parse_multiplicative L pe)" "eats (Suc m) (parse_additive L pe)"
    "eats (Suc m) (parse_bitand L pe)" "eats (Suc m) (parse_bitxor L pe)" "eats (Suc m) (parse_bitor L pe)"
proof -
  show u: "eats (Suc m) (parse_unary L pe)"
    unfolding eats_def parse_unary_def by (intro allI impI runs_unary_loop[OF assms]) simp_all
  show m: "eats (Suc m) (parse_multiplicative L pe)" unfolding parse_multiplicative_def[abs_def] using u by (simp add: eats_level)
  show a: "eats (Suc m) (parse_additive L pe)" unfolding parse_additive_def[abs_def] using m by (simp add: eats_level)
  show b: "eats (Suc m) (parse_bitand L pe)" unfolding parse_bitand_def[abs_def] using a by (simp add: eats_level)
  show x: "eats (Suc m) (parse_bitxor L pe)" unfolding parse_bitxor_def[abs_def] using b by (simp add: eats_level)
  show "eats (Suc m) (parse_bitor L pe)" unfolding parse_bitor_def[abs_def] using x by (simp add: eats_level)
qed

lemma comparison_op_pos: "comparison_op t = Some (bop, n) \<Longrightarrow> 0 < n \<and> t \<noteq> []"
  by (auto simp: comparison_op_def starts_with_def starts_char_def split: if_splits)

lemma eats_comparison:
  assumes "eats m pe"
  shows "eats (Suc m) (parse_comparison L pe)"
  unfolding eats_def
proof (intro allI impI)
  fix s :: string assume s: "length s < Suc m"
  note bitor = eatsD[OF eats_levels(6)[OF assms], of _ L]
  show "runs True s (parse_comparison L pe s)"
    unfolding parse_comparison_def
  proof (rule runs_first[OF bitor[OF s]])
    fix l and r :: string assume r: "length r < length s"
    let ?t = "skip_ws r" and ?u = "snd (match_keyword L ''NOT'' (skip_ws r))"
    have t: "length ?t < Suc m" using skip_ws_length[of r] r s by linarith
    have u: "suffix ?u ?t" "length ?u \<le> length ?t" using match_snd(1) suffix_length_le by blast+
    have like: "runs False w (pbind (parse_bitor L pe (snd (match_keyword L ''LIKE'' w))) (\<lambda>e r. POk (f e) r))"
      if "length w < Suc m" for w and f :: "expr \<Rightarrow> expr"
      by (rule runs_at[OF bitor match_snd(1)]) (use that match_snd(1)[THEN suffix_length_le, of L "''LIKE''" w] in \<open>linarith | simp\<close>)+
    have notlike: "runs False ?t (pbind (parse_bitor L pe (snd (match_keyword L ''LIKE'' ?u))) (\<lambda>e r. POk (UnaryOp Not (BinaryOp l Like e)) r))"
      by (rule runs_mono[OF like u(1)]) (use u(2) t in \<open>linarith | simp\<close>)+
    have op: "runs False ?t (pbind (parse_bitor L pe (drop n ?t)) (\<lambda>e r. POk (BinaryOp l bop e) r))" for bop n
      by (rule runs_at[OF bitor suffix_drop]) (use t in auto)
    show "runs False r (let t = skip_ws r
       in if peek_word_is L ''NOT'' t then
            (let u = snd (match_keyword L ''NOT'' t)
             in if peek_word_is L ''LIKE'' u then
                  pbind (parse_bitor L pe (snd (match_keyword L ''LIKE'' u))) (\<lambda>e r. POk (UnaryOp Not (BinaryOp l Like e)) r)
                else POk l t)
          else if peek_word_is L ''LIKE'' t then
            pbind (parse_bitor L pe (snd (match_keyword L ''LIKE'' t))) (\<lambda>e r. POk (BinaryOp l Like e) r)
          else
            (case comparison_op t of
               None \<Rightarrow> POk l t
             | Some (bop, n) \<Rightarrow> pbind (parse_bitor L pe (drop n t)) (\<lambda>e r. POk (BinaryOp l bop e) r)))"
      unfolding Let_def using like[OF t] notlike op
      by (intro runs_skip[of _ r]) (auto simp del: peek_skip split: option.split)
  qed
qed

lemma runs_between:
  assumes "eats m pe" "length s < Suc m"
  shows "runs True s (parse_between L pe l negated s)"
proof -
  note cmp = eatsD[OF eats_comparison[OF assms(1)], of _ L]
  show ?thesis unfolding parse_between_def
  proof (rule runs_first[OF cmp[OF assms(2)]])
    fix low and r :: string assume r: "length r < length s"
    show "runs False r (pbind (expect_keyword L ''AND'' r) (\<lambda>_ r. pbind (parse_comparison L pe r) (\<lambda>high r. POk (Between l low high negated) r)))"
      by (rule runs_first[OF runs_keyword], rule runs_first[OF cmp]) (use r assms(2) in auto)
  qed
qed

lemma eats_range:
  assumes "eats m pe"
  shows "eats (Suc m) (parse_range L pe)"
  unfolding eats_def
proof (intro allI impI)
  fix s :: string assume s: "length s < Suc m"
  note cmp = eatsD[OF eats_comparison[OF assms], of _ L]
  let ?k = "\<lambda>kw w. snd (match_keyword L kw w)"
  have kw: "length (?k kw w) \<le> length w" for kw w using match_snd(1) suffix_length_le by blast
  have btw: "runs False w (parse_between L pe l neg (?k ''BETWEEN'' w))" if "length w < Suc m" for w l neg
    by (rule runs_later[OF runs_between[OF assms] match_snd(1)]) (use that kw[of "''BETWEEN''" w] in linarith)
  have inl: "runs False w (pbind (parse_in_list pe (?k ''IN'' w)) (\<lambda>es r. POk (InList l es neg) r))" if "length w < Suc m" for w l neg
    by (rule runs_at[OF runs_in_list[OF assms] match_snd(1)]) (use that kw[of "''IN''" w] in \<open>linarith | simp\<close>)+
  have like: "runs False w (pbind (parse_comparison L pe (?k ''LIKE'' w)) (\<lambda>e r. POk (f e) r))" if "length w < Suc m" for w and f :: "expr \<Rightarrow> expr"
    by (rule runs_at[OF cmp match_snd(1)]) (use that kw[of "''LIKE''" w] in \<open>linarith | simp\<close>)+
  have isn: "runs False w (pbind (expect_keyword L ''NULL'' w) (\<lambda>_ r. POk e r))" for w and e :: expr
    by (rule runs_first[OF runs_keyword]) simp
  show "runs True s (parse_range L pe s)"
    unfolding parse_range_def
  proof (rule runs_first[OF cmp[OF s]])
    fix l and r :: string assume r: "length r < length s"
    let ?t = "skip_ws r" let ?u = "?k ''NOT'' ?t" and ?i = "?k ''IS'' ?t"
    have t: "length ?t < Suc m" using skip_ws_length[of r] r s by linarith
    have u: "suffix ?u ?t" "length ?u < Suc m" using match_snd(1) kw[of "''NOT''" ?t] t by (blast, linarith)
    have later: "runs False ?t p" if "runs False ?u p" for p :: "expr pres" by (rule runs_mono[OF that u(1)]) simp
    have "suffix (?k ''NOT'' ?i) ?t" "suffix ?i ?t" using match_snd(1) suffix_order.trans by blast+
    then have isnull: "runs False ?t (pbind (expect_keyword L ''NULL'' (if neg then ?k ''NOT'' ?i else ?i)) (\<lambda>_ r. POk e r))" for neg and e :: expr
      by (cases neg) (auto intro: runs_mono[OF isn])
    have "runs False ?t (case peek_word L ?t of
            None \<Rightarrow> POk l ?t
          | Some w \<Rightarrow>
              if eq_ignore_case w ''BETWEEN'' then parse_between L pe l False (?k ''BETWEEN'' ?t)
              else if eq_ignore_case w ''NOT'' then
                (case peek_word L ?u of
                      None \<Rightarrow> POk l ?t
                    | Some w2 \<Rightarrow>
                        if eq_ignore_case w2 ''BETWEEN'' then parse_between L pe l True (?k ''BETWEEN'' ?u)
                        else if eq_ignore_case w2 ''IN'' then pbind (parse_in_list pe (?k ''IN'' ?u)) (\<lambda>es r. POk (InList l es True) r)
                        else if eq_ignore_case w2 ''LIKE'' then
                          pbind (parse_comparison L pe (?k ''LIKE'' ?u)) (\<lambda>e r. POk (UnaryOp Not (BinaryOp l Like e)) r)
                        else POk l ?t)
              else if eq_ignore_case w ''IN'' then pbind (parse_in_list pe (?k ''IN'' ?t)) (\<lambda>es r. POk (InList l es False) r)
              else if eq_ignore_case w ''IS'' then
                pbind (expect_keyword L ''NULL'' (if peek_word_is L ''NOT'' ?i then ?k ''NOT'' ?i else ?i)) (\<lambda>_ r. POk (IsNull l (peek_word_is L ''NOT'' ?i)) r)
              else if eq_ignore_case w ''LIKE'' then
                pbind (parse_comparison L pe (?k ''LIKE'' ?t)) (\<lambda>e r. POk (BinaryOp l Like e) r)
              else POk l ?t)"
      using btw[OF t] later[OF btw[OF u(2)]] inl[OF t] later[OF inl[OF u(2)]] like[OF t] later[OF like[OF u(2)]] isnull[of True, simplified] isnull[of False, simplified]
      by (simp del: peek_skip split: option.split)
    from runs_skip[OF this] show "runs False r (let t = skip_ws r
       in case peek_word L t of
            None \<Rightarrow> POk l t
          | Some w \<Rightarrow>
              if eq_ignore_case w ''BETWEEN'' then parse_between L pe l False (snd (match_keyword L ''BETWEEN'' t))
              else if eq_ignore_case w ''NOT'' then
                (let u = snd (match_keyword L ''NOT'' t)
                 in case peek_word L u of
                      None \<Rightarrow> POk l t
                    | Some w2 \<Rightarrow>
                        if eq_ignore_case w2 ''BETWEEN'' then parse_between L pe l True (snd (match_keyword L ''BETWEEN'' u))
                        else if eq_ignore_case w2 ''IN'' then
                          pbind (parse_in_list pe (snd (match_keyword L ''IN'' u))) (\<lambda>es r. POk (InList l es True) r)
                        else if eq_ignore_case w2 ''LIKE'' then
                          pbind (parse_comparison L pe (snd (match_keyword L ''LIKE'' u))) (\<lambda>e r. POk (UnaryOp Not (BinaryOp l Like e)) r)
                        else POk l t)
              else if eq_ignore_case w ''IN'' then
                pbind (parse_in_list pe (snd (match_keyword L ''IN'' t))) (\<lambda>es r. POk (InList l es False) r)
              else if eq_ignore_case w ''IS'' then
                (let u = snd (match_keyword L ''IS'' t); negated = peek_word_is L ''NOT'' u;
                     v = (if negated then snd (match_keyword L ''NOT'' u) else u)
                 in pbind (expect_keyword L ''NULL'' v) (\<lambda>_ r. POk (IsNull l negated) r))
              else if eq_ignore_case w ''LIKE'' then
                pbind (parse_comparison L pe (snd (match_keyword L ''LIKE'' t))) (\<lambda>e r. POk (BinaryOp l Like e) r)
              else POk l t)"
      unfolding Let_def .
  qed
qed

lemma eats_expr_at: "eats n (expr_at n L)"
proof (induction n)
  case (Suc n)
  have "eats (Suc n) (parse_and L (expr_at n L))"
    unfolding parse_and_def[abs_def] using eats_range[OF Suc] by (simp add: eats_level)
  then have "eats (Suc n) (parse_or L (expr_at n L))" unfolding parse_or_def[abs_def] by (simp add: eats_level)
  then show ?case by (simp add: eats_def)
qed (simp add: eats_def)

lemma runs_expr: "runs True s (parse_expr L s)"
  unfolding parse_expr_def by (rule eatsD[OF eats_expr_at]) simp

end
