(* ===== verification/Parser_Print.thy ===== *)
theory Parser_Print
  imports Parser_Total
begin

text \<open>
  A printer for expressions, with every operator in parentheses, and the lemmas on words and
  white space that let the parser read what it prints.
\<close>

subsection \<open>White space and words before a known character\<close>

lemma space_char: "char_of (32 :: nat) = CHR '' ''"
  by (simp add: char_of_eq_iff)

lemma WHITE_space: "p \<in> set WHITE \<Longrightarrow> (of_char (hd p) :: nat) = 32 \<Longrightarrow> p = '' ''"
  by (auto simp: WHITE_def space_char)

lemma skip_space [simp]: "skip_ws (CHR '' '' # s) = skip_ws s"
proof -
  have "'' '' \<in> set WHITE" by (simp add: WHITE_def space_char)
  then have "find (\<lambda>p. p \<noteq> [] \<and> starts_with p (CHR '' '' # s)) WHITE \<noteq> None"
    by (auto simp: find_None_iff starts_with_def intro!: bexI[of _ "'' ''"])
  then obtain p where p: "find (\<lambda>p. p \<noteq> [] \<and> starts_with p (CHR '' '' # s)) WHITE = Some p" by blast
  then have w: "p \<in> set WHITE" "p \<noteq> []" "starts_with p (CHR '' '' # s)" by (auto simp: find_Some_iff)
  obtain q qs where "p = q # qs" using w(2) by (cases p) auto
  then have "hd p = CHR '' ''" using w(3) by (simp add: starts_with_def)
  then have "p = '' ''" using WHITE_space[OF w(1)] by simp
  then show ?thesis using p by (subst strip_left.simps) simp
qed

lemma skip_Nil [simp]: "skip_ws [] = []"
  using skip_ws_length[of "[]"] by simp

definition wordy :: "char \<Rightarrow> bool" where
  "wordy c \<longleftrightarrow> is_ascii_alnum c \<or> c = CHR ''_''"

lemma wordy_ascii: "wordy c \<Longrightarrow> (of_char c :: nat) < 128"
  by (auto simp: wordy_def is_ascii_alnum_def Let_def)

lemma wordy_dark: "wordy c \<Longrightarrow> dark c"
  by (auto simp: wordy_def is_ascii_alnum_def Let_def dark_def)

lemma word_len_Nil [simp]: "word_len L [] = 0"
  by (simp add: word_len.simps)

lemma word_len_Cons: "(of_char c :: nat) < 128 \<Longrightarrow> word_len L (c # s) = (if wordy c then Suc (word_len L s) else 0)"
  by (subst word_len.simps) (simp add: char_width_def is_word_char_def wordy_def Let_def)

text \<open>A continuation that ends a word.\<close>

definition breaks :: "string \<Rightarrow> bool" where
  "breaks s = (case s of [] \<Rightarrow> True | c # _ \<Rightarrow> (of_char c :: nat) < 128 \<and> \<not> wordy c)"

lemma word_len_append: "list_all wordy w \<Longrightarrow> breaks r \<Longrightarrow> word_len L (w @ r) = length w"
proof (induction w)
  case Nil
  then show ?case by (cases r) (auto simp: breaks_def word_len_Cons)
next
  case (Cons c w)
  then show ?case by (simp add: word_len_Cons wordy_ascii)
qed

definition word :: "string \<Rightarrow> bool" where
  "word w \<longleftrightarrow> w \<noteq> [] \<and> list_all wordy w"

lemma skip_word: "word w \<Longrightarrow> skip_ws (w @ r) = w @ r"
  by (cases w) (auto simp: word_def wordy_dark skip_dark)

lemma peek_word_word: "word w \<Longrightarrow> breaks r \<Longrightarrow> peek_word L (w @ r) = Some w"
  using skip_word[of w r] by (auto simp: peek_word_def Let_def word_def word_len_append)

lemma peek_word_None: "dark c \<Longrightarrow> \<not> wordy c \<Longrightarrow> peek_word L (c # s) = None"
  by (simp add: peek_word_def Let_def skip_dark word_len_Cons dark_def)

lemma match_word: "word w \<Longrightarrow> breaks r \<Longrightarrow> match_keyword L kw (w @ r) = (if eq_ignore_case w kw then (True, r) else (False, w @ r))"
  by (simp add: match_keyword_def Let_def skip_word peek_word_word)

lemma expect_word: "word kw \<Longrightarrow> breaks r \<Longrightarrow> expect_keyword L kw (kw @ r) = POk () r"
  by (simp add: expect_keyword_def Let_def skip_word peek_word_word eq_ignore_case_def)

lemma char_num: "c = char_of (numeral k :: nat) \<longleftrightarrow> (of_char c :: nat) = take_bit 8 (numeral k)"
  by (metis char_of_eq_iff)

text \<open>The comparison of concrete words.\<close>

lemmas word_eq = eq_ignore_case_def to_ascii_lowercase_def ascii_lower_char_def char_num char_of_eq_iff

lemma take_word_word: "word w \<Longrightarrow> breaks r \<Longrightarrow> take_word L m (w @ r) = POk w r"
  by (simp add: take_word_def Let_def skip_word peek_word_word)

subsection \<open>Digits\<close>

lemma digits_all: "list_all is_digit (digits n)" "digits n \<noteq> []"
proof -
  show "digits n \<noteq> []" by (subst digits.simps) simp
qed (rule digits_are_digits)

lemma parse_digits_digits: "parse_digits (digits n) = Some (int n)"
  by (simp add: parse_digits_def digits_all digits_val_digits)

lemma digit_not_sign: "is_digit c \<Longrightarrow> c \<noteq> CHR ''-'' \<and> c \<noteq> CHR ''+'' \<and> c \<noteq> CHR ''.'' \<and> c \<noteq> CHR ''e'' \<and> c \<noteq> CHR ''E''"
  by (auto simp: is_digit_def)

lemma parse_ints_digits:
  "parse_i64 (digits n) = checked_i64 (int n)" "parse_u64 (digits n) = (if int n \<le> u64_max then Some (int n) else None)"
proof -
  obtain c cs where d: "digits n = c # cs" using digits_all(2)[of n] by (cases "digits n") auto
  have "is_digit c" using digits_all(1)[of n] d by simp
  then have "c \<noteq> CHR ''-''" "c \<noteq> CHR ''+''" using digit_not_sign by blast+
  then show "parse_i64 (digits n) = checked_i64 (int n)" "parse_u64 (digits n) = (if int n \<le> u64_max then Some (int n) else None)"
    using parse_digits_digits[of n] unfolding d by (simp_all add: parse_i64_def parse_u64_def)
qed

text \<open>A continuation that ends a number.\<close>

lemma number_len_digits:
  assumes "breaks r" "\<not> starts_char CHR ''.'' r"
  shows "number_len (digits n @ r) = length (digits n)"
proof -
  have r: "\<not> starts_char CHR ''e'' r" "\<not> starts_char CHR ''E'' r" "takeWhile is_digit r = []"
    using assms(1) by (cases r; auto simp: breaks_def starts_char_def wordy_def is_ascii_alnum_def is_digit_def Let_def)+
  have "takeWhile is_digit (digits n @ r) = digits n"
    using digits_all(1)[of n] r(3) by (simp add: list_all_iff takeWhile_append2)
  then have "digits_len (digits n @ r) = length (digits n)" by (simp add: digits_len_def)
  then show ?thesis using assms(2) r(1,2) by (simp add: number_len_def fraction_len_def exponent_len_def Let_def)
qed

lemma parse_number_digits:
  assumes "breaks r" "\<not> starts_char CHR ''.'' r" "int n \<le> u64_max"
  shows "parse_number L (digits n @ r) = POk (Literal (Number (PosInt (int n)))) r"
proof -
  obtain c cs where d: "digits n = c # cs" using digits_all(2)[of n] by (cases "digits n") auto
  have "is_digit c" using digits_all(1)[of n] d by simp
  then have "dark c" "digits n \<noteq> ''.''" using d by (auto simp: is_digit_def dark_def)
  then have sk: "skip_ws (digits n @ r) = digits n @ r" using d by (simp add: skip_dark)
  have "\<forall>c \<in> set (digits n). c \<noteq> CHR ''.'' \<and> c \<noteq> CHR ''e'' \<and> c \<noteq> CHR ''E''"
    using digits_all(1)[of n] digit_not_sign by (auto simp: list_all_iff)
  then have "number_value L (digits n) = Some (Number (PosInt (int n)))"
    using assms(3) by (auto simp: number_value_def Let_def parse_ints_digits checked_i64_def of_i64_def of_u64_def split: option.splits)
  then show ?thesis using \<open>digits n \<noteq> ''.''\<close> digits_all(2)[of n] number_len_digits[OF assms(1,2), of n]
    by (simp add: parse_number_def Let_def sk)
qed

subsection \<open>The printer\<close>

definition parens :: "string \<Rightarrow> string" where
  "parens s = CHR ''('' # s @ '')''"

definition tick :: "string \<Rightarrow> string" where
  "tick s = CHR 0x60 # s @ [CHR 0x60]"

fun show_lit :: "json \<Rightarrow> string" where
  "show_lit (Number (PosInt n)) = digits (nat n)"
| "show_lit (Str s) = quote_text s"
| "show_lit (Bool b) = (if b then ''true'' else ''false'')"
| "show_lit _ = ''null''"

fun show_expr :: "expr \<Rightarrow> string" where
  "show_expr (Identifier x) = tick x"
| "show_expr (Literal v) = show_lit v"
| "show_expr (BinaryOp a bop b) = parens (show_expr a @ '' '' @ op_token bop @ '' '' @ show_expr b)"
| "show_expr (UnaryOp u e) = parens ((case u of Not \<Rightarrow> ''NOT '' | Neg \<Rightarrow> ''-'') @ show_expr e)"
| "show_expr (Between e lo hi neg) =
     parens (show_expr e @ (if neg then '' NOT BETWEEN '' else '' BETWEEN '') @ show_expr lo @ '' AND '' @ show_expr hi)"
| "show_expr (InList e es neg) =
     parens (show_expr e @ (if neg then '' NOT IN '' else '' IN '') @ parens (join_with '', '' (map show_expr es)))"
| "show_expr (IsNull e neg) = parens (show_expr e @ (if neg then '' IS NOT NULL'' else '' IS NULL''))"
| "show_expr (FieldAccess e f) = parens (parens (show_expr e) @ ''.'' @ tick f)"
| "show_expr (Index e i) = parens (parens (show_expr e) @ ''['' @ show_expr i @ '']'')"
| "show_expr (Slice e lo hi) =
     parens (parens (show_expr e) @ ''['' @ (case lo of None \<Rightarrow> [] | Some x \<Rightarrow> show_expr x) @ '':''
       @ (case hi of None \<Rightarrow> [] | Some x \<Rightarrow> show_expr x) @ '']'')"
| "show_expr (Call name args) = name @ parens (join_with '', '' (map show_expr args))"
| "show_expr (Case opnd whens els) =
     parens (''CASE'' @ (case opnd of None \<Rightarrow> [] | Some x \<Rightarrow> '' '' @ show_expr x)
       @ concat (map (\<lambda>(c, v). '' WHEN '' @ show_expr c @ '' THEN '' @ show_expr v) whens)
       @ (case els of None \<Rightarrow> [] | Some x \<Rightarrow> '' ELSE '' @ show_expr x) @ '' END'')"
| "show_expr (Over c part cond) =
     show_expr c @ '' OVER '' @ parens ((case part of None \<Rightarrow> [] | Some x \<Rightarrow> ''PARTITION BY '' @ show_expr x)
       @ (case cond of None \<Rightarrow> [] | Some x \<Rightarrow> '' WHEN '' @ show_expr x))"
| "show_expr _ = ''*''"

text \<open>What can be printed and read: names of ASCII characters without a backtick, strings without
  a single quote, unsigned numbers, calls of words that are no keywords.\<close>

definition name_ok :: "string \<Rightarrow> bool" where
  "name_ok x \<longleftrightarrow> is_ascii x \<and> CHR 0x60 \<notin> set x"

definition call_ok :: "string \<Rightarrow> bool" where
  "call_ok w \<longleftrightarrow> word w \<and> \<not> is_digit (hd w) \<and> \<not> list_ex (eq_ignore_case w) [''true'', ''false'', ''null'', ''CASE'', ''NOT'', ''WHEN'']"

fun lit_ok :: "json \<Rightarrow> bool" where
  "lit_ok (Number (PosInt n)) \<longleftrightarrow> 0 \<le> n \<and> n \<le> u64_max"
| "lit_ok (Str s) \<longleftrightarrow> CHR 0x27 \<notin> set s"
| "lit_ok (Bool b) \<longleftrightarrow> True"
| "lit_ok Null \<longleftrightarrow> True"
| "lit_ok _ \<longleftrightarrow> False"

fun plain_call :: "expr \<Rightarrow> bool" where
  "plain_call (Call _ _) \<longleftrightarrow> True"
| "plain_call _ \<longleftrightarrow> False"

fun printable :: "expr \<Rightarrow> bool" where
  "printable (Identifier x) \<longleftrightarrow> name_ok x"
| "printable (Literal v) \<longleftrightarrow> lit_ok v"
| "printable (BinaryOp a bop b) \<longleftrightarrow> printable a \<and> printable b"
| "printable (UnaryOp u e) \<longleftrightarrow> printable e"
| "printable (Between e lo hi neg) \<longleftrightarrow> printable e \<and> printable lo \<and> printable hi"
| "printable (InList e es neg) \<longleftrightarrow> printable e \<and> list_all printable es"
| "printable (IsNull e neg) \<longleftrightarrow> printable e"
| "printable (FieldAccess e f) \<longleftrightarrow> printable e \<and> name_ok f"
| "printable (Index e i) \<longleftrightarrow> printable e \<and> printable i"
| "printable (Slice e lo hi) \<longleftrightarrow> printable e \<and> pred_option printable lo \<and> pred_option printable hi"
| "printable (Call name args) \<longleftrightarrow> call_ok name \<and> list_all (\<lambda>a. a = Wildcard \<or> printable a) args"
| "printable (Case opnd whens els) \<longleftrightarrow>
     pred_option printable opnd \<and> whens \<noteq> [] \<and> list_all (\<lambda>(c, v). printable c \<and> printable v) whens \<and> pred_option printable els"
| "printable (Over c part cond) \<longleftrightarrow> plain_call c \<and> printable c \<and> pred_option printable part \<and> pred_option printable cond"
| "printable _ \<longleftrightarrow> False"

end
