(* ===== verification/Parser_Levels.thy ===== *)
theory Parser_Levels
  imports Parser_Print
begin

text \<open>
  How the levels of the parser treat an operand that is followed by text they do not recognise, and
  one that is followed by their operator.
\<close>

subsection \<open>What may follow an operand\<close>

definition stops :: "lexer \<Rightarrow> string \<Rightarrow> bool" where
  "stops L r \<longleftrightarrow>
     breaks r \<and> (let t = skip_ws r in \<not> starts_char CHR ''.'' t \<and> \<not> starts_with ''->'' t \<and> \<not> starts_char CHR ''['' t \<and> \<not> peek_word_is L ''OVER'' t)"

definition aquiet :: "string \<Rightarrow> bool" where
  "aquiet t \<longleftrightarrow> skip_ws t = t \<and> (case t of [] \<Rightarrow> True | c # _ \<Rightarrow> c \<notin> set ''*/%+-&^|'')"

definition cquiet :: "lexer \<Rightarrow> string \<Rightarrow> bool" where
  "cquiet L t \<longleftrightarrow> aquiet t \<and> comparison_op t = None \<and> \<not> peek_word_is L ''LIKE'' t
     \<and> (peek_word_is L ''NOT'' t \<longrightarrow> \<not> peek_word_is L ''LIKE'' (snd (match_keyword L ''NOT'' t)))"

definition silent :: "lexer \<Rightarrow> string \<Rightarrow> bool" where
  "silent L t \<longleftrightarrow> cquiet L t
     \<and> list_all (\<lambda>kw. \<not> peek_word_is L kw t) [''BETWEEN'', ''NOT'', ''IN'', ''IS'', ''LIKE'', ''AND'', ''OR'']"

definition begins :: "lexer \<Rightarrow> string \<Rightarrow> bool" where
  "begins L s \<longleftrightarrow>
     (case s of [] \<Rightarrow> False | c # _ \<Rightarrow> dark c \<and> c \<notin> set ''-+)*:]'') \<and> \<not> peek_word_is L ''NOT'' s \<and> \<not> peek_word_is L ''WHEN'' s"

lemma begins_skip: "begins L s \<Longrightarrow> skip_ws s = s"
  by (cases s) (auto simp: begins_def skip_dark)

lemma begins_starts: "begins L s \<Longrightarrow> c \<in> set ''-+)*:]'' \<Longrightarrow> \<not> starts_char c s"
  by (cases s) (auto simp: begins_def starts_char_def)

text \<open>The closing characters, and a keyword behind a space.\<close>

lemma peek_word_is_word: "word w \<Longrightarrow> breaks u \<Longrightarrow> peek_word_is L kw (w @ u) = eq_ignore_case w kw"
  by (simp add: peek_word_is_def peek_word_word)

lemma peek_word_is_dark: "dark c \<Longrightarrow> \<not> wordy c \<Longrightarrow> \<not> peek_word_is L kw (c # s)"
  by (simp add: peek_word_is_def peek_word_None)

lemmas char_simps = dark_def wordy_def is_ascii_alnum_def Let_def starts_char_def starts_with_def

lemma closers:
  assumes "c \<in> set '')],:''"
  shows "stops L (c # r)" "silent L (c # r)" "skip_ws (c # r) = c # r"
proof -
  have c: "dark c" "\<not> wordy c" "c \<notin> set ''*/%+-&^|.[-><=!''" using assms by (auto simp: char_simps)
  then show "skip_ws (c # r) = c # r" by (simp add: skip_dark)
  then show "stops L (c # r)" "silent L (c # r)"
    using c peek_word_is_dark[OF c(1,2)]
    by (auto simp: stops_def silent_def cquiet_def aquiet_def breaks_def dark_def comparison_op_def starts_char_def starts_with_def Let_def)
qed

lemma ends_quiet: "stops L []" "silent L []"
  by (auto simp: stops_def silent_def cquiet_def aquiet_def breaks_def comparison_op_def starts_char_def starts_with_def Let_def
      peek_word_is_def peek_word_def)

lemma word_head: "word w \<Longrightarrow> \<exists>c cs. w = c # cs \<and> wordy c"
  by (cases w) (auto simp: word_def)

lemma wordy_chars: "wordy c \<Longrightarrow> c \<notin> set ''*/%+-&^|.[-><=!()]{},:'' \<and> c \<noteq> CHR 0x60 \<and> c \<noteq> CHR 0x27 \<and> c \<noteq> CHR 0x22"
  by (auto simp: char_simps)

lemma stops_word: "word w \<Longrightarrow> breaks u \<Longrightarrow> \<not> eq_ignore_case w ''OVER'' \<Longrightarrow> stops L (CHR '' '' # w @ u)"
proof -
  assume w: "word w" "breaks u" "\<not> eq_ignore_case w ''OVER''"
  obtain c cs where c: "w = c # cs" "wordy c" using word_head[OF w(1)] by auto
  have "skip_ws (CHR '' '' # w @ u) = w @ u" using skip_word[OF w(1)] by simp
  moreover have "\<not> starts_char CHR ''.'' (w @ u)" "\<not> starts_with ''->'' (w @ u)" "\<not> starts_char CHR ''['' (w @ u)"
    using c wordy_chars[of c] by (auto simp: starts_char_def starts_with_def)
  moreover have "breaks (CHR '' '' # w @ u)" by (simp add: breaks_def wordy_def is_ascii_alnum_def)
  ultimately show ?thesis using w(3) peek_word_is_word[OF w(1,2)] by (simp only: stops_def Let_def) simp
qed

lemma aquiet_word: "word w \<Longrightarrow> aquiet (w @ u)"
  using word_head[of w] wordy_chars skip_word[of w u] by (fastforce simp: aquiet_def)

lemma comparison_word: "word w \<Longrightarrow> comparison_op (w @ u) = None"
  using word_head[of w] wordy_chars by (fastforce simp: comparison_op_def starts_char_def starts_with_def)

lemma cquiet_word: "word w \<Longrightarrow> breaks u \<Longrightarrow> \<not> eq_ignore_case w ''LIKE'' \<Longrightarrow> \<not> eq_ignore_case w ''NOT'' \<Longrightarrow> cquiet L (w @ u)"
  by (simp add: cquiet_def aquiet_word comparison_word peek_word_is_word)

lemma quiet_word:
  "word w \<Longrightarrow> breaks u \<Longrightarrow> list_all (\<lambda>kw. \<not> eq_ignore_case w kw) [''BETWEEN'', ''NOT'', ''IN'', ''IS'', ''LIKE'', ''AND'', ''OR'']
    \<Longrightarrow> silent L (w @ u)"
  by (simp add: silent_def cquiet_word peek_word_is_word)

subsection \<open>Primaries\<close>

lemma postfix_stop: "stops L r \<Longrightarrow> parse_postfix L pe e r = POk e (skip_ws r)"
  by (simp add: parse_postfix_def stops_def Let_def)

lemma primary_paren: "parse_primary L pe (CHR ''('' # s) = pbind (closed_by CHR '')'' (pe s)) (parse_postfix L pe)"
  by (simp add: parse_primary_def skip_dark char_simps)

lemma closed_by_ok: "p = POk e (c # r) \<Longrightarrow> dark c \<Longrightarrow> closed_by c p = POk e r"
  by (simp add: closed_by_def skip_dark expect_char_def starts_char_def)

lemma primary_parens:
  "pe (body @ CHR '')'' # r) = POk e (CHR '')'' # r) \<Longrightarrow> parse_primary L pe (parens body @ r) = parse_postfix L pe e r"
  by (simp add: parens_def primary_paren closed_by_ok dark_def)

lemma primary_word:
  assumes "word w" "\<not> is_digit (hd w)" "breaks r"
  shows "parse_primary L pe (w @ r) = parse_word L pe w r"
proof -
  obtain c cs where w: "w = c # cs" "wordy c" using word_head[OF assms(1)] by auto
  have "\<not> is_number_start (w @ r)" using assms(2) w wordy_chars[of c] by (auto simp: is_number_start_def)
  then show ?thesis
    using w wordy_chars[of c] take_word_word[OF assms(1,3)] skip_word[OF assms(1), of r]
    by (simp add: parse_primary_def starts_char_def starts_quote_def is_quote_def)
qed

subsection \<open>Levels\<close>

lemma unary_primary:
  assumes "begins L s"
  shows "parse_unary L pe s = parse_primary L pe s" "parse_unary L pe (CHR '' '' # s) = parse_primary L pe s"
proof -
  have "\<not> peek_word_is L ''NOT'' s" "\<not> starts_char CHR ''-'' s" "\<not> starts_char CHR ''+'' s"
    using assms begins_starts[OF assms] by (simp_all add: begins_def)
  then show "parse_unary L pe s = parse_primary L pe s" "parse_unary L pe (CHR '' '' # s) = parse_primary L pe s"
    using begins_skip[OF assms] by (simp_all add: parse_unary_def Let_def)
qed

lemma level_pass: "sub s = POk e t \<Longrightarrow> next_op t = (None, t) \<Longrightarrow> left_level next_op sub s = POk e t"
  by (simp add: left_level_def)

lemma level_op:
  assumes "sub s = POk a t" "next_op t = (Some bop, u)" "sub u = POk b v" "next_op v = (None, v)" "t \<noteq> []"
  shows "left_level next_op sub s = POk (BinaryOp a bop b) v"
  using assms by (cases t) (simp_all add: left_level_def)

lemma aquiet_ops: "aquiet t \<Longrightarrow> mul_op t = (None, t)" "aquiet t \<Longrightarrow> add_op t = (None, t)" "aquiet t \<Longrightarrow> bitand_op t = (None, t)"
  "aquiet t \<Longrightarrow> bitxor_op t = (None, t)" "aquiet t \<Longrightarrow> bitor_op t = (None, t)"
  by (auto simp: aquiet_def mul_op_def add_op_def bitand_op_def bitxor_op_def bitor_op_def Let_def starts_char_def split: list.splits)

lemma pass_bitor:
  assumes "parse_unary L pe s = POk e t" "aquiet t"
  shows "parse_multiplicative L pe s = POk e t" "parse_additive L pe s = POk e t" "parse_bitand L pe s = POk e t"
    "parse_bitxor L pe s = POk e t" "parse_bitor L pe s = POk e t"
proof -
  show m: "parse_multiplicative L pe s = POk e t" unfolding parse_multiplicative_def by (rule level_pass) (use assms aquiet_ops in auto)
  show a: "parse_additive L pe s = POk e t" unfolding parse_additive_def by (rule level_pass) (use m assms aquiet_ops in auto)
  show b: "parse_bitand L pe s = POk e t" unfolding parse_bitand_def by (rule level_pass) (use a assms aquiet_ops in auto)
  show x: "parse_bitxor L pe s = POk e t" unfolding parse_bitxor_def by (rule level_pass) (use b assms aquiet_ops in auto)
  show "parse_bitor L pe s = POk e t" unfolding parse_bitor_def by (rule level_pass) (use x assms aquiet_ops in auto)
qed

lemma pass_comparison: "parse_bitor L pe s = POk e t \<Longrightarrow> cquiet L t \<Longrightarrow> parse_comparison L pe s = POk e t"
  by (auto simp: parse_comparison_def cquiet_def aquiet_def Let_def)

lemma quiet_range: "parse_comparison L pe s = POk e t \<Longrightarrow> silent L t \<Longrightarrow> parse_range L pe s = POk e t"
proof -
  assume a: "parse_comparison L pe s = POk e t" "silent L t"
  then have t: "skip_ws t = t" by (simp add: silent_def cquiet_def aquiet_def)
  show ?thesis
  proof (cases "peek_word L t")
    case None
    then show ?thesis using a(1) t by (simp add: parse_range_def)
  next
    case (Some w)
    have "\<not> eq_ignore_case w ''BETWEEN''" "\<not> eq_ignore_case w ''NOT''" "\<not> eq_ignore_case w ''IN''" "\<not> eq_ignore_case w ''IS''"
      "\<not> eq_ignore_case w ''LIKE''"
      using a(2) Some by (simp_all add: silent_def peek_word_is_def)
    then show ?thesis using a(1) t Some by (simp add: parse_range_def)
  qed
qed

lemma quiet_ops: "silent L t \<Longrightarrow> and_op L t = (None, t)" "silent L t \<Longrightarrow> or_op L t = (None, t)"
proof -
  assume q: "silent L t"
  then show "and_op L t = (None, t)" by (simp add: and_op_def silent_def)
  have "match_keyword L ''OR'' t = (False, t)"
    using q by (auto simp: silent_def cquiet_def aquiet_def match_keyword_def peek_word_is_def Let_def split: option.splits)
  then show "or_op L t = (None, t)" by (simp add: or_op_def)
qed

lemma pass_range: "parse_range L pe s = POk e t \<Longrightarrow> silent L t \<Longrightarrow> parse_or L pe s = POk e t"
  unfolding parse_or_def parse_and_def by (intro level_pass) (auto simp: quiet_ops)

lemma pass_or: "parse_bitor L pe s = POk e t \<Longrightarrow> silent L t \<Longrightarrow> parse_or L pe s = POk e t"
  by (rule pass_range[OF quiet_range[OF pass_comparison]]) (auto simp: silent_def)

lemma pass_primary:
  assumes "parse_unary L pe s = POk e t" "silent L t"
  shows "parse_or L pe s = POk e t"
  by (rule pass_or[OF pass_bitor(5)[OF assms(1)]]) (use assms(2) in \<open>auto simp: silent_def cquiet_def\<close>)

end
