(* ===== verification/Parser_Roundtrip.thy ===== *)
theory Parser_Roundtrip
  imports Parser_Levels
begin

text \<open>
  The parser reads what the printer writes. \<open>reads L n e\<close>: the printed \<open>e\<close>, followed by text that
  ends an operand, is parsed as \<open>e\<close> with \<open>n\<close> levels of nesting allowed.
\<close>

definition reads :: "lexer \<Rightarrow> nat \<Rightarrow> expr \<Rightarrow> bool" where
  "reads L n e \<longleftrightarrow> (\<forall>r. stops L r \<longrightarrow> parse_primary L (expr_at n L) (show_expr e @ r) = POk e (skip_ws r))"

lemma begins_char: "dark c \<Longrightarrow> \<not> wordy c \<Longrightarrow> c \<notin> set ''-+)*:]'' \<Longrightarrow> begins L (c # s)"
  by (simp add: begins_def peek_word_is_dark)

lemma begins_word:
  assumes "word w" "breaks r" "\<not> eq_ignore_case w ''NOT''" "\<not> eq_ignore_case w ''WHEN''"
  shows "begins L (w @ r)"
proof -
  obtain c cs where c: "w = c # cs" "wordy c" using word_head[OF assms(1)] by auto
  then have "dark c" "c \<notin> set ''-+)*:]''" using wordy_chars[of c] by (auto simp: wordy_dark)
  then show ?thesis using peek_word_is_word[OF assms(1,2)] assms(3,4) c(1) by (simp add: begins_def)
qed

lemma begins_parens: "begins L (parens s @ r)"
  unfolding parens_def by (simp add: begins_char char_simps)

lemma begins_tick: "begins L (tick s @ r)"
  unfolding tick_def by (simp add: begins_char char_simps)

lemma breaks_char: "dark c \<Longrightarrow> \<not> wordy c \<Longrightarrow> breaks (c # r)" "breaks (CHR '' '' # r)"
  by (simp_all add: breaks_def dark_def wordy_def is_ascii_alnum_def)

lemma begins_call: "call_ok w \<Longrightarrow> begins L (w @ parens s @ r)"
  by (rule begins_word) (auto simp: call_ok_def parens_def breaks_def wordy_def is_ascii_alnum_def)

lemma digits_word: "word (digits n)"
  using digits_all[of n] by (auto simp: word_def list_all_iff is_digit_def wordy_def is_ascii_alnum_def Let_def)

lemma words: "word ''true''" "word ''false''" "word ''null''" "word ''CASE''" "word ''WHEN''" "word ''THEN''" "word ''ELSE''" "word ''END''"
  "word ''AND''" "word ''OR''" "word ''NOT''" "word ''BETWEEN''" "word ''IN''" "word ''IS''" "word ''NULL''" "word ''LIKE''" "word ''OVER''"
  "word ''PARTITION''" "word ''BY''"
  by (simp_all add: word_def wordy_def is_ascii_alnum_def Let_def)

lemma lower_digit: "is_digit c \<Longrightarrow> ascii_lower_char c = c"
  by (simp add: is_digit_def ascii_lower_char_def)

lemma begins_lit: "lit_ok v \<Longrightarrow> breaks r \<Longrightarrow> begins L (show_lit v @ r)"
proof (induction v rule: lit_ok.induct)
  case (1 n)
  obtain c cs where d: "digits (nat n) = c # cs" using digits_all(2)[of "nat n"] by (cases "digits (nat n)") auto
  have c: "is_digit c" using digits_all(1)[of "nat n"] d by simp
  then have "\<not> eq_ignore_case (digits (nat n)) ''NOT''" "\<not> eq_ignore_case (digits (nat n)) ''WHEN''"
    unfolding d by (auto simp: eq_ignore_case_def to_ascii_lowercase_def lower_digit ascii_lower_char_def is_digit_def)
  then show ?case using begins_word[OF digits_word "1.prems"(2)] by simp
next
  case (2 s)
  have "dark (CHR 0x27)" "\<not> wordy (CHR 0x27)" "CHR 0x27 \<notin> set ''-+)*:]''" by (auto simp: char_simps)
  then show ?case by (simp add: quote_text_def begins_char)
next
  case (3 b)
  then show ?case using begins_word[OF words(1)] begins_word[OF words(2)]
    by (auto simp: word_eq)
next
  case 4
  then show ?case using begins_word[OF words(3)] by (auto simp: word_eq)
qed simp_all

lemma show_begins: "printable e \<Longrightarrow> breaks r \<Longrightarrow> begins L (show_expr e @ r)"
proof (cases e)
  case (Over c part cond)
  assume "printable e"
  then obtain name args where c: "c = Call name args" "call_ok name" using Over by (cases c) auto
  then show ?thesis using begins_call[OF c(2)] Over by simp
next
  case (Call name args)
  assume "printable e"
  then show ?thesis using begins_call[of name] Call by simp
qed (auto simp: begins_parens begins_tick begins_lit)

text \<open>An operand at the level of the operators, and as a whole expression.\<close>

lemma stops_breaks: "stops L r \<Longrightarrow> breaks r"
  by (simp add: stops_def)

lemma reads_unary:
  assumes "reads L n e" "printable e" "stops L r"
  shows "parse_unary L (expr_at n L) (show_expr e @ r) = POk e (skip_ws r)"
    "parse_unary L (expr_at n L) (CHR '' '' # show_expr e @ r) = POk e (skip_ws r)"
  using assms unary_primary[OF show_begins[OF assms(2) stops_breaks[OF assms(3)]]] by (simp_all add: reads_def)

lemma reads_expr:
  assumes "reads L n e" "printable e" "stops L r" "silent L (skip_ws r)"
  shows "expr_at (Suc n) L (show_expr e @ r) = POk e (skip_ws r)" "expr_at (Suc n) L (CHR '' '' # show_expr e @ r) = POk e (skip_ws r)"
  using pass_primary[OF reads_unary(1)[OF assms(1-3)] assms(4)] pass_primary[OF reads_unary(2)[OF assms(1-3)] assms(4)] by simp_all

lemma reads_before:
  assumes "reads L n e" "printable e" "c \<in> set '')],:''"
  shows "expr_at (Suc n) L (show_expr e @ c # r) = POk e (c # r)" "expr_at (Suc n) L (CHR '' '' # show_expr e @ c # r) = POk e (c # r)"
  using reads_expr[OF assms(1,2), of "c # r"] closers[OF assms(3)] by simp_all

lemma reads_word:
  assumes "reads L n e" "printable e" "word w" "breaks u"
    "list_all (\<lambda>kw. \<not> eq_ignore_case w kw) [''OVER'', ''BETWEEN'', ''NOT'', ''IN'', ''IS'', ''LIKE'', ''AND'', ''OR'']"
  shows "expr_at (Suc n) L (show_expr e @ CHR '' '' # w @ u) = POk e (w @ u)"
    "expr_at (Suc n) L (CHR '' '' # show_expr e @ CHR '' '' # w @ u) = POk e (w @ u)"
  using reads_expr[OF assms(1,2) stops_word[OF assms(3,4)]] quiet_word[OF assms(3,4)] skip_word[OF assms(3)] assms(5) by simp_all

text \<open>A composite in parentheses is read when its body is.\<close>

lemma reads_parens:
  assumes "\<And>r. parse_or L (expr_at m L) (body @ CHR '')'' # r) = POk e (CHR '')'' # r)" "show_expr e = parens body"
  shows "reads L (Suc m) e"
  unfolding reads_def assms(2) using primary_parens[of "expr_at (Suc m) L" body _ e L] assms(1) by (simp add: postfix_stop)

subsection \<open>Binary operators\<close>

abbreviation (input) lit_op :: "string \<Rightarrow> string \<Rightarrow> string" where
  "lit_op w u \<equiv> w @ CHR '' '' # u"

lemma op_token_dark: "\<exists>c cs. op_token bop = c # cs \<and> dark c \<and> c \<notin> set ''.[''"
  by (cases bop) (auto simp: dark_def)

lemma op_skip: "skip_ws (op_token bop @ u) = op_token bop @ u"
  using op_token_dark[of bop] by (auto simp: skip_dark)

lemma stops_op: "stops L (CHR '' '' # op_token bop @ CHR '' '' # u)"
proof (cases "word (op_token bop)")
  case True
  have "\<not> eq_ignore_case (op_token bop) ''OVER''"
    by (cases bop) (auto simp: word_eq)
  then show ?thesis by (rule stops_word[OF True breaks_char(2)])
next
  case False
  obtain c cs where c: "op_token bop = c # cs" "dark c" "c \<notin> set ''.[''" using op_token_dark by blast
  have "\<not> wordy c" using False c(1) by (cases bop) (auto simp: word_def wordy_def is_ascii_alnum_def Let_def)
  moreover have "\<not> starts_with ''->'' (op_token bop @ CHR '' '' # u)" by (cases bop) (auto simp: starts_with_def)
  ultimately show ?thesis using c op_skip[of bop] peek_word_is_dark[OF c(2)]
    by (auto simp: stops_def breaks_char Let_def starts_char_def)
qed

text \<open>The two operands of an operator, read at the level of unary operators.\<close>

lemma operands:
  assumes "reads L n a" "reads L n b" "printable a" "printable b"
  shows "parse_unary L (expr_at n L) (show_expr a @ CHR '' '' # op_token bop @ CHR '' '' # u) = POk a (op_token bop @ CHR '' '' # u)"
    "parse_unary L (expr_at n L) (CHR '' '' # show_expr b @ CHR '')'' # r) = POk b (CHR '')'' # r)"
  using reads_unary(1)[OF assms(1,3) stops_op] reads_unary(2)[OF assms(2,4) closers(1)[of "CHR '')''"]] closers(3)[of "CHR '')''"]
  by (simp_all add: op_skip)

lemma close_quiet: "silent L (CHR '')'' # r)" "cquiet L (CHR '')'' # r)" "aquiet (CHR '')'' # r)"
  using closers(2)[of "CHR '')''" L r] by (auto simp: silent_def cquiet_def)

definition arith :: "binary_operator \<Rightarrow> bool" where
  "arith bop \<longleftrightarrow> bop \<in> {Mul, Div, Mod, Add, Sub, BitAnd, BitXor, BitOr}"

text \<open>The recognisers on a token.\<close>

lemma ops_on_token:
  "arith bop \<Longrightarrow> mul_op (op_token bop @ CHR '' '' # u) =
     (if bop \<in> {Mul, Div, Mod} then (Some bop, CHR '' '' # u) else (None, op_token bop @ CHR '' '' # u))"
  "arith bop \<Longrightarrow> add_op (op_token bop @ CHR '' '' # u) =
     (if bop \<in> {Add, Sub} then (Some bop, CHR '' '' # u) else (None, op_token bop @ CHR '' '' # u))"
  "arith bop \<Longrightarrow> bitand_op (op_token bop @ CHR '' '' # u) =
     (if bop = BitAnd then (Some bop, CHR '' '' # u) else (None, op_token bop @ CHR '' '' # u))"
  "arith bop \<Longrightarrow> bitxor_op (op_token bop @ CHR '' '' # u) =
     (if bop = BitXor then (Some bop, CHR '' '' # u) else (None, op_token bop @ CHR '' '' # u))"
  "arith bop \<Longrightarrow> bitor_op (op_token bop @ CHR '' '' # u) =
     (if bop = BitOr then (Some bop, CHR '' '' # u) else (None, op_token bop @ CHR '' '' # u))"
  by (cases bop; simp add: arith_def mul_op_def add_op_def bitand_op_def bitxor_op_def bitor_op_def skip_dark char_simps)+

text \<open>One level over two operands: \<open>d\<close> says that the operator was taken below, \<open>h\<close> that this level
  takes it.\<close>

lemma level_either:
  assumes "sub s = (if d then POk (BinaryOp a bop b) v else POk a t)" "sub u = POk b v" "next_op v = (None, v)" "t \<noteq> []"
    "\<not> d \<Longrightarrow> next_op t = (if h then (Some bop, u) else (None, t))"
  shows "left_level next_op sub s = (if d \<or> h then POk (BinaryOp a bop b) v else POk a t)"
proof (cases d)
  case True
  then show ?thesis using assms(1,3) by (simp add: level_pass)
next
  case False
  then show ?thesis using assms level_op[of sub s a t next_op bop u b v] level_pass[of sub s a t next_op] by simp
qed

lemma bitor_operands:
  assumes s: "parse_unary L pe s = POk a t" and u: "parse_unary L pe u = POk b v" and v: "aquiet v" and t: "t = op_token bop @ u"
    and sp: "u = CHR '' '' # w" and ar: "arith bop"
  shows "parse_bitor L pe s = POk (BinaryOp a bop b) v"
proof -
  have t0: "t \<noteq> []" using t by (cases bop) auto
  note ops = ops_on_token[OF ar, of w, folded sp, folded t] and qt = aquiet_ops[OF v]
  note pu = pass_bitor[OF u v]
  have 1: "parse_multiplicative L pe s = (if False \<or> bop \<in> {Mul, Div, Mod} then POk (BinaryOp a bop b) v else POk a t)"
    unfolding parse_multiplicative_def
    by (rule level_either[where h = "bop \<in> {Mul, Div, Mod}" and d = False and u = u]) (use s u t0 ops(1) qt(1) in simp_all)
  have 2: "parse_additive L pe s = (if (False \<or> bop \<in> {Mul, Div, Mod}) \<or> bop \<in> {Add, Sub} then POk (BinaryOp a bop b) v else POk a t)"
    unfolding parse_additive_def
    by (rule level_either[where sub = "parse_multiplicative L pe" and next_op = add_op and u = u], rule 1, rule pu(1), rule qt(2), rule t0) (simp add: ops(2))
  have 3: "parse_bitand L pe s = (if ((False \<or> bop \<in> {Mul, Div, Mod}) \<or> bop \<in> {Add, Sub}) \<or> bop = BitAnd then POk (BinaryOp a bop b) v else POk a t)"
    unfolding parse_bitand_def
    by (rule level_either[where sub = "parse_additive L pe" and next_op = bitand_op and u = u], rule 2, rule pu(2), rule qt(3), rule t0) (simp add: ops(3))
  have 4: "parse_bitxor L pe s = (if (((False \<or> bop \<in> {Mul, Div, Mod}) \<or> bop \<in> {Add, Sub}) \<or> bop = BitAnd) \<or> bop = BitXor then POk (BinaryOp a bop b) v else POk a t)"
    unfolding parse_bitxor_def
    by (rule level_either[where sub = "parse_bitand L pe" and next_op = bitxor_op and u = u], rule 3, rule pu(3), rule qt(4), rule t0) (simp add: ops(4))
  have "parse_bitor L pe s = (if ((((False \<or> bop \<in> {Mul, Div, Mod}) \<or> bop \<in> {Add, Sub}) \<or> bop = BitAnd) \<or> bop = BitXor) \<or> bop = BitOr then POk (BinaryOp a bop b) v else POk a t)"
    unfolding parse_bitor_def
    by (rule level_either[where sub = "parse_bitxor L pe" and next_op = bitor_op and u = u], rule 4, rule pu(4), rule qt(5), rule t0) (simp add: ops(5))
  then show ?thesis using ar by (auto simp: arith_def)
qed

definition compares :: "binary_operator \<Rightarrow> bool" where
  "compares bop \<longleftrightarrow> bop \<in> {Eq, Neq, Lt, Lte, Gt, Gte}"

lemma token_aquiet: "compares bop \<Longrightarrow> aquiet (op_token bop @ u)"
  using op_skip[of bop u] by (cases bop) (auto simp: compares_def aquiet_def)

lemma comparison_token: "compares bop \<Longrightarrow> comparison_op (op_token bop @ CHR '' '' # u) = Some (bop, length (op_token bop))"
  by (cases bop) (auto simp: compares_def comparison_op_def starts_with_def starts_char_def)

lemma token_no_word: "compares bop \<Longrightarrow> \<not> peek_word_is L kw (op_token bop @ u)"
proof -
  assume "compares bop"
  then have "\<exists>c cs. op_token bop = c # cs \<and> dark c \<and> \<not> wordy c" by (cases bop) (auto simp: compares_def char_simps)
  then show ?thesis by (auto simp: peek_word_is_dark)
qed

lemma comparison_operands:
  assumes s: "parse_unary L pe s = POk a t" and u: "parse_unary L pe (CHR '' '' # w) = POk b v" and v: "cquiet L v"
    and t: "t = op_token bop @ CHR '' '' # w" and c: "compares bop \<or> bop = Like"
  shows "parse_comparison L pe s = POk (BinaryOp a bop b) v"
proof -
  have av: "aquiet v" using v by (simp add: cquiet_def)
  have at: "aquiet t" using c token_aquiet[of bop] aquiet_word[OF words(16)] t by auto
  note b = pass_bitor(5)[OF s at] pass_bitor(5)[OF u av]
  have tw: "skip_ws t = t" using at by (simp add: aquiet_def)
  show ?thesis
  proof (cases "bop = Like")
    case True
    then have t': "t = ''LIKE'' @ CHR '' '' # w" using t by simp
    then have "\<not> peek_word_is L ''NOT'' t" "peek_word_is L ''LIKE'' t" "snd (match_keyword L ''LIKE'' t) = CHR '' '' # w"
      using peek_word_is_word[OF words(16) breaks_char(2)] match_word[OF words(16) breaks_char(2)] by (auto simp: word_eq simp del: append.simps)
    then show ?thesis using b True by (simp add: parse_comparison_def Let_def tw)
  next
    case False
    then have "compares bop" using c by simp
    then have "comparison_op t = Some (bop, length (op_token bop))" "\<not> peek_word_is L kw t" for kw
      using t comparison_token token_no_word by auto
    moreover have "drop (length (op_token bop)) t = CHR '' '' # w" by (simp add: t)
    ultimately show ?thesis using b by (simp add: parse_comparison_def Let_def tw)
  qed
qed

lemma cquiet_range: "parse_range L pe s = POk e t \<Longrightarrow> silent L t \<Longrightarrow> parse_and L pe s = POk e t"
  unfolding parse_and_def by (rule level_pass) (auto simp: quiet_ops)

lemma logic_operands:
  assumes s: "parse_unary L pe s = POk a t" and u: "parse_unary L pe (CHR '' '' # w) = POk b v" and v: "silent L v"
    and t: "t = op_token bop @ CHR '' '' # w" and c: "bop = And \<or> bop = Or"
  shows "parse_or L pe s = POk (BinaryOp a bop b) v"
proof -
  have w: "word (op_token bop)" using c words by auto
  have cq: "cquiet L t" unfolding t by (rule cquiet_word[OF w breaks_char(2)]; use c in \<open>auto simp: word_eq\<close>)
  have kws: "peek_word_is L kw t = eq_ignore_case (op_token bop) kw" for kw
    unfolding t by (rule peek_word_is_word[OF w breaks_char(2)])
  have m: "snd (match_keyword L kw t) = CHR '' '' # w" "fst (match_keyword L kw t)" if "eq_ignore_case (op_token bop) kw" for kw
    unfolding t using that match_word[OF w breaks_char(2)] by auto
  have aq: "aquiet t" "aquiet v" using cq v by (auto simp: cquiet_def silent_def)
  have tw: "skip_ws t = t" using aq(1) by (simp add: aquiet_def)
  have cmp: "parse_comparison L pe s = POk a t" "parse_comparison L pe (CHR '' '' # w) = POk b v"
    using pass_comparison[OF pass_bitor(5)[OF s aq(1)] cq] pass_comparison[OF pass_bitor(5)[OF u aq(2)]] v by (auto simp: silent_def)
  have ru: "parse_range L pe (CHR '' '' # w) = POk b v" by (rule quiet_range[OF cmp(2) v])
  have pk: "peek_word L t = Some (op_token bop)" unfolding t by (rule peek_word_word[OF w breaks_char(2)])
  have "list_all (\<lambda>kw. \<not> eq_ignore_case (op_token bop) kw) [''BETWEEN'', ''NOT'', ''IN'', ''IS'', ''LIKE'']"
    using c by (auto simp: word_eq)
  then have rs: "parse_range L pe s = POk a t" using cmp(1) pk tw by (simp add: parse_range_def Let_def)
  have t0: "t \<noteq> []" using pk by (auto simp: peek_word_def)
  show ?thesis
  proof (cases "bop = And")
    case True
    have e: "eq_ignore_case (op_token bop) ''AND''" using True by (simp add: eq_ignore_case_def)
    then have ao: "and_op L t = (Some bop, CHR '' '' # w)" using True kws[of "''AND''"] m(1)[OF e] by (simp add: and_op_def)
    have "parse_and L pe s = POk (BinaryOp a bop b) v"
      unfolding parse_and_def by (rule level_op[of "parse_range L pe", OF rs ao ru quiet_ops(1)[OF v] t0])
    then show ?thesis unfolding parse_or_def by (rule level_pass) (use v in \<open>simp add: quiet_ops\<close>)
  next
    case False
    then have o: "bop = Or" using c by simp
    have e: "eq_ignore_case (op_token bop) ''OR''" using o by (simp add: eq_ignore_case_def)
    have oo: "or_op L t = (Some bop, CHR '' '' # w)" using o m[OF e] by (simp add: or_op_def case_prod_beta)
    have "\<not> eq_ignore_case (op_token bop) ''AND''" using o by (simp add: word_eq)
    then have "and_op L t = (None, t)" using kws[of "''AND''"] by (simp add: and_op_def)
    then have "parse_and L pe s = POk a t" unfolding parse_and_def by (rule level_pass[of "parse_range L pe", OF rs])
    from level_op[of "parse_and L pe", OF this oo cquiet_range[OF ru v] quiet_ops(2)[OF v] t0] show ?thesis unfolding parse_or_def .
  qed
qed

lemma binary_body:
  assumes "reads L n a" "reads L n b" "printable a" "printable b"
  shows "parse_or L (expr_at n L) (show_expr a @ CHR '' '' # op_token bop @ CHR '' '' # show_expr b @ CHR '')'' # r) = POk (BinaryOp a bop b) (CHR '')'' # r)"
proof -
  note u = operands[OF assms] and q = close_quiet(1,2)[of L r] close_quiet(3)[of r]
  consider "arith bop" | "compares bop \<or> bop = Like" | "bop = And \<or> bop = Or" by (cases bop) (auto simp: arith_def compares_def)
  then show ?thesis
  proof cases
    case 1
    show ?thesis by (rule pass_or[OF bitor_operands[OF u(1) u(2) q(3) _ refl 1] q(1)]) simp
  next
    case 2
    show ?thesis by (rule pass_range[OF quiet_range[OF comparison_operands[OF u(1) u(2) q(2) refl 2] q(1)] q(1)])
  next
    case 3
    show ?thesis by (rule logic_operands[OF u(1) u(2) q(1) refl 3])
  qed
qed

end
