(* ===== verification/Parser_Composite.thy ===== *)
theory Parser_Composite
  imports Parser_Roundtrip
begin

text \<open>
  The other forms of an expression: literals and names, the unary and the range operators, lists,
  postfix operators, calls and \<open>CASE\<close>.
\<close>

subsection \<open>Atoms\<close>

lemma backtick_scan_ok: "name_ok x \<Longrightarrow> backtick_scan acc (x @ CHR 0x60 # r) = POk (acc @ x) r"
  by (induction x arbitrary: acc) (auto simp: name_ok_def is_ascii_def)

lemma backtick_ok: "name_ok x \<Longrightarrow> parse_backtick_identifier (tick x @ r) = POk x r"
proof -
  assume "name_ok x"
  then show ?thesis using backtick_scan_ok[of x "[]" r]
    by (simp add: parse_backtick_identifier_def tick_def skip_dark dark_def starts_char_def)
qed

lemma tick_starts: "starts_char c (tick x @ r) \<longleftrightarrow> c = CHR 0x60" "skip_ws (tick x @ r) = tick x @ r" "tick x \<noteq> []"
  by (auto simp: tick_def starts_char_def skip_dark dark_def)

lemma reads_ident: "name_ok x \<Longrightarrow> reads L n (Identifier x)"
  using backtick_ok by (simp add: reads_def parse_primary_def Let_def tick_starts postfix_stop)

lemma quoted_ok: "CHR 0x27 \<notin> set s \<Longrightarrow> quoted m (quote_text s @ r) = POk s r"
proof -
  assume q: "CHR 0x27 \<notin> set s"
  then have "\<forall>c \<in> set s. c \<noteq> CHR 0x27" by auto
  then have "takeWhile (\<lambda>c. c \<noteq> CHR 0x27) (s @ CHR 0x27 # r) = s" "dropWhile (\<lambda>c. c \<noteq> CHR 0x27) (s @ CHR 0x27 # r) = CHR 0x27 # r"
    by (simp_all add: takeWhile_append2 dropWhile_append2)
  then show ?thesis by (simp add: quoted_def quote_text_def)
qed

lemma reads_string: "CHR 0x27 \<notin> set s \<Longrightarrow> reads L n (Literal (Str s))"
proof -
  assume s: "CHR 0x27 \<notin> set s"
  have "skip_ws (quote_text s @ r) = quote_text s @ r" "starts_char c (quote_text s @ r) \<longleftrightarrow> c = CHR 0x27" "starts_quote (quote_text s @ r)"
    "quote_text s \<noteq> []" for r c
    by (auto simp: quote_text_def skip_dark dark_def starts_char_def starts_quote_def is_quote_def)
  then show ?thesis using quoted_ok[OF s] by (simp add: reads_def parse_primary_def Let_def postfix_stop)
qed

lemma stops_no_dot: "stops L r \<Longrightarrow> \<not> starts_char CHR ''.'' r"
  by (cases r) (auto simp: stops_def Let_def starts_char_def skip_dark dark_def)

lemma reads_number: "0 \<le> k \<Longrightarrow> k \<le> u64_max \<Longrightarrow> reads L n (Literal (Number (PosInt k)))"
proof -
  assume k: "0 \<le> k" "k \<le> u64_max"
  obtain c cs where d: "digits (nat k) = c # cs" using digits_all(2)[of "nat k"] by (cases "digits (nat k)") auto
  have c: "is_digit c" using digits_all(1)[of "nat k"] d by simp
  then have dk: "dark c" "c \<notin> set ''([{''" "c \<noteq> CHR 0x60" "\<not> is_quote c" by (auto simp: is_digit_def dark_def is_quote_def)
  have prim: "parse_primary L pe (digits (nat k) @ r) = pbind (parse_number L (digits (nat k) @ r)) (parse_postfix L pe)" for r pe
    unfolding parse_primary_def using d dk c by (simp add: skip_dark starts_char_def starts_quote_def is_number_start_def)
  show ?thesis unfolding reads_def
    using parse_number_digits[of _ "nat k" L] k by (auto simp: prim postfix_stop stops_no_dot stops_breaks)
qed

lemma reads_const: "reads L n (Literal (Bool b))" "reads L n (Literal Null)"
proof -
  have d: "\<not> is_digit (hd ''true'')" "\<not> is_digit (hd ''false'')" "\<not> is_digit (hd ''null'')" by (auto simp: is_digit_def)
  have e: "\<not> eq_ignore_case ''false'' ''true''" "\<not> eq_ignore_case ''null'' ''true''" "\<not> eq_ignore_case ''null'' ''false''"
    "eq_ignore_case w w" for w
    by (simp_all add: word_eq)
  show "reads L n (Literal (Bool b))"
    using primary_word[OF words(1) d(1)] primary_word[OF words(2) d(2)] e
    by (auto simp: reads_def parse_word_def postfix_stop stops_breaks simp del: append.simps)
  show "reads L n (Literal Null)"
    using primary_word[OF words(3) d(3)] e by (auto simp: reads_def parse_word_def postfix_stop stops_breaks simp del: append.simps)
qed

lemma reads_lit: "lit_ok v \<Longrightarrow> reads L n (Literal v)"
  by (cases v rule: lit_ok.cases) (auto simp: reads_number reads_string reads_const)

subsection \<open>Unary operators\<close>

lemma unary_loop_begins: "begins L s \<Longrightarrow> unary_loop (Suc k) L pe s = parse_primary L pe s"
  "begins L s \<Longrightarrow> unary_loop (Suc k) L pe (CHR '' '' # s) = parse_primary L pe s"
proof -
  assume b: "begins L s"
  have "\<not> peek_word_is L ''NOT'' s" "\<not> starts_char CHR ''-'' s" "\<not> starts_char CHR ''+'' s"
    using b begins_starts[OF b] by (simp_all add: begins_def)
  then show "unary_loop (Suc k) L pe s = parse_primary L pe s" "unary_loop (Suc k) L pe (CHR '' '' # s) = parse_primary L pe s"
    using begins_skip[OF b] by (simp_all add: Let_def)
qed

lemma unary_loop_not:
  assumes "skip_ws s = s" "peek_word_is L ''NOT'' s" "match_keyword L ''NOT'' s = (True, q)" "0 < k" "\<And>j. unary_loop (Suc j) L pe q = p"
  shows "unary_loop (Suc k) L pe s = pbind p (\<lambda>e r. POk (UnaryOp Not e) r)"
proof -
  obtain j where "k = Suc j" using assms(4) by (cases k) auto
  then show ?thesis using assms(1-3) assms(5)[of j] unfolding unary_loop.simps(2)[of k] by (simp add: Let_def del: unary_loop.simps)
qed

lemma unary_body:
  assumes "reads L n e" "printable e"
  shows "parse_or L (expr_at n L) ((case u of Not \<Rightarrow> ''NOT '' | Neg \<Rightarrow> ''-'') @ show_expr e @ CHR '')'' # r) = POk (UnaryOp u e) (CHR '')'' # r)"
proof -
  let ?s = "show_expr e @ CHR '')'' # r" and ?pe = "expr_at n L"
  have b: "begins L ?s" by (rule show_begins[OF assms(2)]) (simp add: breaks_def wordy_def is_ascii_alnum_def)
  have p: "parse_primary L ?pe ?s = POk e (CHR '')'' # r)"
    using assms(1) closers(1)[of "CHR '')''" L r] closers(3)[of "CHR '')''" r] by (simp add: reads_def)
  have "parse_unary L ?pe ((case u of Not \<Rightarrow> ''NOT '' | Neg \<Rightarrow> ''-'') @ ?s) = POk (UnaryOp u e) (CHR '')'' # r)"
  proof (cases u)
    case Not
    have w: "peek_word_is L ''NOT'' (''NOT'' @ CHR '' '' # ?s)" "match_keyword L ''NOT'' (''NOT'' @ CHR '' '' # ?s) = (True, CHR '' '' # ?s)"
      using peek_word_is_word[OF words(11) breaks_char(2)] match_word[OF words(11) breaks_char(2)] by (simp_all add: eq_ignore_case_def del: append.simps)
    have "parse_unary L ?pe (''NOT'' @ CHR '' '' # ?s) = POk (UnaryOp Not e) (CHR '')'' # r)"
      unfolding parse_unary_def
      using unary_loop_not[OF skip_word[OF words(11)] w _ unary_loop_begins(2)[OF b], of "length (''NOT'' @ CHR '' '' # ?s)"] p by simp
    then show ?thesis using Not by simp
  next
    case Neg
    have "parse_unary L ?pe (CHR ''-'' # ?s) = pbind (unary_loop (length (CHR ''-'' # ?s)) L ?pe ?s) (\<lambda>e r. POk (UnaryOp Neg e) r)"
      unfolding parse_unary_def unary_loop.simps(2)[of "length (CHR ''-'' # ?s)"] Let_def
      by (simp add: skip_dark dark_def starts_char_def peek_word_is_dark wordy_def is_ascii_alnum_def del: unary_loop.simps)
    also have "\<dots> = POk (UnaryOp Neg e) (CHR '')'' # r)" using p unary_loop_begins(1)[OF b] by simp
    finally show ?thesis using Neg by simp
  qed
  then show ?thesis using pass_primary closers(2)[of "CHR '')''" L r] by simp
qed

subsection \<open>Ranges\<close>

lemma reads_cmp:
  assumes "reads L n e" "printable e" "stops L r" "cquiet L (skip_ws r)"
  shows "parse_comparison L (expr_at n L) (show_expr e @ r) = POk e (skip_ws r)"
    "parse_comparison L (expr_at n L) (CHR '' '' # show_expr e @ r) = POk e (skip_ws r)"
proof -
  have a: "aquiet (skip_ws r)" using assms(4) by (simp add: cquiet_def)
  show "parse_comparison L (expr_at n L) (show_expr e @ r) = POk e (skip_ws r)"
    "parse_comparison L (expr_at n L) (CHR '' '' # show_expr e @ r) = POk e (skip_ws r)"
    by (rule pass_comparison[OF pass_bitor(5)[OF reads_unary(1)[OF assms(1-3)] a] assms(4)])
      (rule pass_comparison[OF pass_bitor(5)[OF reads_unary(2)[OF assms(1-3)] a] assms(4)])
qed

lemma cmp_word:
  assumes "reads L n e" "printable e" "word w" "breaks u" "list_all (\<lambda>kw. \<not> eq_ignore_case w kw) [''OVER'', ''LIKE'', ''NOT'']"
  shows "parse_comparison L (expr_at n L) (show_expr e @ CHR '' '' # w @ u) = POk e (w @ u)"
    "parse_comparison L (expr_at n L) (CHR '' '' # show_expr e @ CHR '' '' # w @ u) = POk e (w @ u)"
  using reads_cmp[OF assms(1,2) stops_word[OF assms(3,4)]] cquiet_word[OF assms(3,4)] skip_word[OF assms(3)] assms(5) by simp_all

lemma cquiet_not:
  assumes "word w" "breaks u" "\<not> eq_ignore_case w ''LIKE''"
  shows "cquiet L (''NOT'' @ CHR '' '' # w @ u)"
proof -
  have "match_keyword L ''NOT'' (''NOT'' @ CHR '' '' # w @ u) = (True, CHR '' '' # w @ u)"
    using match_word[OF words(11) breaks_char(2)] by (simp add: eq_ignore_case_def del: append.simps)
  moreover have "peek_word_is L ''LIKE'' (CHR '' '' # w @ u) = peek_word_is L ''LIKE'' (w @ u)"
    by (simp add: peek_word_is_def peek_word_def)
  moreover have "\<not> peek_word_is L ''LIKE'' (''NOT'' @ CHR '' '' # w @ u)"
    using peek_word_is_word[OF words(11) breaks_char(2)] by (simp add: word_eq del: append.simps)
  ultimately show ?thesis
    using assms aquiet_word[OF words(11)] comparison_word[OF words(11)] peek_word_is_word[OF assms(1,2)]
    by (simp add: cquiet_def del: append.simps)
qed

lemma cmp_not:
  assumes "reads L n e" "printable e" "word w" "breaks u" "\<not> eq_ignore_case w ''LIKE''"
  shows "parse_comparison L (expr_at n L) (show_expr e @ CHR '' '' # ''NOT'' @ CHR '' '' # w @ u) = POk e (''NOT'' @ CHR '' '' # w @ u)"
proof -
  have "\<not> eq_ignore_case ''NOT'' ''OVER''" by (simp add: word_eq)
  then have "stops L (CHR '' '' # ''NOT'' @ CHR '' '' # w @ u)" by (rule stops_word[OF words(11) breaks_char(2)])
  from reads_cmp(1)[OF assms(1,2) this] cquiet_not[OF assms(3-5)] skip_word[OF words(11)] show ?thesis by (simp del: append.simps)
qed

lemma space_before [simp]:
  "peek_word L (CHR '' '' # s) = peek_word L s" "peek_word_is L kw (CHR '' '' # s) = peek_word_is L kw s"
  "match_keyword L kw (CHR '' '' # s) = match_keyword L kw s" "expect_keyword L kw (CHR '' '' # s) = expect_keyword L kw s"
  "expect_char c (CHR '' '' # s) = expect_char c s"
  by (simp_all add: peek_word_def peek_word_is_def match_keyword_def expect_keyword_def expect_char_def)

lemma kw_refl [simp]: "eq_ignore_case w w"
  by (simp add: eq_ignore_case_def)

lemma kw_neq [simp]:
  "\<not> eq_ignore_case ''IS'' ''BETWEEN''" "\<not> eq_ignore_case ''IS'' ''NOT''" "\<not> eq_ignore_case ''IS'' ''IN''"
  "\<not> eq_ignore_case ''IN'' ''BETWEEN''" "\<not> eq_ignore_case ''IN'' ''NOT''" "\<not> eq_ignore_case ''NOT'' ''BETWEEN''"
  "\<not> eq_ignore_case ''NULL'' ''NOT''" "\<not> eq_ignore_case ''IS'' ''OVER''" "\<not> eq_ignore_case ''IS'' ''LIKE''"
  "\<not> eq_ignore_case ''IN'' ''OVER''" "\<not> eq_ignore_case ''IN'' ''LIKE''" "\<not> eq_ignore_case ''BETWEEN'' ''OVER''"
  "\<not> eq_ignore_case ''BETWEEN'' ''LIKE''" "\<not> eq_ignore_case ''BETWEEN'' ''NOT''" "\<not> eq_ignore_case ''AND'' ''OVER''"
  "\<not> eq_ignore_case ''AND'' ''LIKE''" "\<not> eq_ignore_case ''AND'' ''NOT''"
  by (simp_all add: word_eq)

lemma range_on_word:
  assumes "parse_comparison L pe s = POk l (w @ u)" "word w" "breaks u"
  shows "eq_ignore_case w ''BETWEEN'' \<Longrightarrow> parse_range L pe s = parse_between L pe l False u"
    "eq_ignore_case w ''IN'' \<Longrightarrow> \<not> eq_ignore_case w ''BETWEEN'' \<Longrightarrow> \<not> eq_ignore_case w ''NOT''
      \<Longrightarrow> parse_range L pe s = pbind (parse_in_list pe u) (\<lambda>es r. POk (InList l es False) r)"
    "eq_ignore_case w ''IS'' \<Longrightarrow> \<not> eq_ignore_case w ''BETWEEN'' \<Longrightarrow> \<not> eq_ignore_case w ''NOT'' \<Longrightarrow> \<not> eq_ignore_case w ''IN''
      \<Longrightarrow> parse_range L pe s = (let negated = peek_word_is L ''NOT'' u; v = (if negated then snd (match_keyword L ''NOT'' u) else u)
           in pbind (expect_keyword L ''NULL'' v) (\<lambda>_ r. POk (IsNull l negated) r))"
    "eq_ignore_case w ''NOT'' \<Longrightarrow> \<not> eq_ignore_case w ''BETWEEN'' \<Longrightarrow> peek_word L u = Some ''BETWEEN''
      \<Longrightarrow> parse_range L pe s = parse_between L pe l True (snd (match_keyword L ''BETWEEN'' u))"
    "eq_ignore_case w ''NOT'' \<Longrightarrow> \<not> eq_ignore_case w ''BETWEEN'' \<Longrightarrow> peek_word L u = Some ''IN''
      \<Longrightarrow> parse_range L pe s = pbind (parse_in_list pe (snd (match_keyword L ''IN'' u))) (\<lambda>es r. POk (InList l es True) r)"
  using assms by (simp_all add: parse_range_def Let_def skip_word peek_word_word match_word)

abbreviation (input) sp :: "string \<Rightarrow> string" where
  "sp s \<equiv> CHR '' '' # s"

lemma close_breaks: "breaks (CHR '')'' # r)"
  by (simp add: breaks_def wordy_def is_ascii_alnum_def)

lemma isnull_body:
  assumes "reads L n e" "printable e"
  shows "parse_or L (expr_at n L) (show_expr e @ (if neg then '' IS NOT NULL'' else '' IS NULL'') @ CHR '')'' # r) = POk (IsNull e neg) (CHR '')'' # r)"
proof (rule pass_range[OF _ close_quiet(1)])
  let ?u = "if neg then sp (''NOT'' @ sp (''NULL'' @ CHR '')'' # r)) else sp (''NULL'' @ CHR '')'' # r)"
  have br: "breaks ?u" using breaks_char(2) by simp
  have s: "show_expr e @ (if neg then '' IS NOT NULL'' else '' IS NULL'') @ CHR '')'' # r = show_expr e @ sp (''IS'' @ ?u)" by simp
  have c: "parse_comparison L (expr_at n L) (show_expr e @ sp (''IS'' @ ?u)) = POk e (''IS'' @ ?u)"
    by (rule cmp_word(1)[OF assms words(14) br]) simp
  have "peek_word_is L ''NOT'' ?u = neg"
    using peek_word_is_word[OF words(11) breaks_char(2), of L "''NOT''"] peek_word_is_word[OF words(15) close_breaks, of L "''NOT''"]
    by (simp del: append.simps)
  moreover have "match_keyword L ''NOT'' ?u = (True, sp (''NULL'' @ CHR '')'' # r))" if neg
    using that match_word[OF words(11) breaks_char(2), of L "''NOT''"] by (simp del: append.simps)
  moreover have "expect_keyword L ''NULL'' (sp (''NULL'' @ CHR '')'' # r)) = POk () (CHR '')'' # r)"
    using expect_word[OF words(15) close_breaks] by (simp del: append.simps)
  ultimately show "parse_range L (expr_at n L) (show_expr e @ (if neg then '' IS NOT NULL'' else '' IS NULL'') @ CHR '')'' # r) = POk (IsNull e neg) (CHR '')'' # r)"
    unfolding s using range_on_word(3)[OF c words(14) br] by (cases neg) (simp_all add: Let_def del: append.simps)
qed

lemma between_ok:
  assumes "reads L n lo" "reads L n hi" "printable lo" "printable hi"
  shows "parse_between L (expr_at n L) l neg (sp (show_expr lo @ sp (''AND'' @ sp (show_expr hi @ CHR '')'' # r)))) = POk (Between l lo hi neg) (CHR '')'' # r)"
proof -
  have "parse_comparison L (expr_at n L) (sp (show_expr lo @ sp (''AND'' @ sp (show_expr hi @ CHR '')'' # r)))) = POk lo (''AND'' @ sp (show_expr hi @ CHR '')'' # r))"
    by (rule cmp_word(2)[OF assms(1,3) words(9) breaks_char(2)]) simp
  moreover have "parse_comparison L (expr_at n L) (sp (show_expr hi @ CHR '')'' # r)) = POk hi (CHR '')'' # r)"
    using reads_cmp(2)[OF assms(2,4) closers(1)[of "CHR '')''"]] closers(3)[of "CHR '')''" r] close_quiet(2) by simp
  ultimately show ?thesis using expect_word[OF words(9) breaks_char(2)] by (simp add: parse_between_def del: append.simps)
qed

lemma between_body:
  assumes "reads L n e" "reads L n lo" "reads L n hi" "printable e" "printable lo" "printable hi"
  shows "parse_or L (expr_at n L) (show_expr e @ (if neg then '' NOT BETWEEN '' else '' BETWEEN '') @ show_expr lo @ '' AND '' @ show_expr hi @ CHR '')'' # r)
    = POk (Between e lo hi neg) (CHR '')'' # r)"
proof (rule pass_range[OF _ close_quiet(1)])
  let ?u = "sp (show_expr lo @ sp (''AND'' @ sp (show_expr hi @ CHR '')'' # r)))"
  have s: "show_expr e @ (if neg then '' NOT BETWEEN '' else '' BETWEEN '') @ show_expr lo @ '' AND '' @ show_expr hi @ CHR '')'' # r
    = (if neg then show_expr e @ sp (''NOT'' @ sp (''BETWEEN'' @ ?u)) else show_expr e @ sp (''BETWEEN'' @ ?u))" by simp
  have c: "parse_comparison L (expr_at n L) (show_expr e @ sp (''BETWEEN'' @ ?u)) = POk e (''BETWEEN'' @ ?u)"
    by (rule cmp_word(1)[OF assms(1,4) words(12) breaks_char(2)]) simp
  have c': "parse_comparison L (expr_at n L) (show_expr e @ sp (''NOT'' @ sp (''BETWEEN'' @ ?u))) = POk e (''NOT'' @ sp (''BETWEEN'' @ ?u))"
    by (rule cmp_not[OF assms(1,4) words(12) breaks_char(2)]) simp
  have "peek_word L (sp (''BETWEEN'' @ ?u)) = Some ''BETWEEN''" "match_keyword L ''BETWEEN'' (sp (''BETWEEN'' @ ?u)) = (True, ?u)"
    using peek_word_word[OF words(12) breaks_char(2), of L] match_word[OF words(12) breaks_char(2), of L "''BETWEEN''"]
    by (simp_all del: append.simps)
  then show "parse_range L (expr_at n L) (show_expr e @ (if neg then '' NOT BETWEEN '' else '' BETWEEN '') @ show_expr lo @ '' AND '' @ show_expr hi @ CHR '')'' # r)
    = POk (Between e lo hi neg) (CHR '')'' # r)"
    unfolding s using range_on_word(1)[OF c words(12) breaks_char(2)] range_on_word(4)[OF c' words(11) breaks_char(2)] between_ok[OF assms(2,3,5,6)]
    by (cases neg) (simp_all del: append.simps)
qed

subsection \<open>Lists\<close>

lemma join_length: "x \<in> set es \<Longrightarrow> length (f x) \<le> length (join_with '', '' (map f es))"
  by (induction es rule: induct_list012) auto

lemma join_count: "(\<And>x. x \<in> set es \<Longrightarrow> f x \<noteq> []) \<Longrightarrow> length es \<le> length (join_with '', '' (map f es))"
proof (induction es rule: induct_list012)
  case (2 x)
  then show ?case by (cases "f x") auto
qed auto

text \<open>A list of items, each read before a comma or the closing character.\<close>

lemma join_Cons: "join_with '', '' (map f (x # es)) = f x @ (if es = [] then [] else '', '' @ join_with '', '' (map f es))"
  by (cases es) auto

lemma comma_items_ok:
  assumes "close \<in> set '')]''"
  shows "(\<And>x r c. x \<in> set es \<Longrightarrow> c = CHR '','' \<or> c = close \<Longrightarrow> item (f x @ c # r) = POk x (c # r) \<and> skip_ws (f x @ c # r) = f x @ c # r \<and> \<not> starts_char close (f x @ c # r))
    \<Longrightarrow> length es < n \<Longrightarrow> comma_items n close item acc (join_with '', '' (map f es) @ close # r) = POk (acc @ es) (close # r)"
proof (induction es arbitrary: n acc)
  case Nil
  then obtain k where "n = Suc k" by (cases n) auto
  then show ?case using closers(3)[of close r] assms by (auto simp: starts_char_def)
next
  case (Cons x es)
  then obtain k where k: "n = Suc k" "length es < k" by (cases n) auto
  have close: "skip_ws (close # q) = close # q" "close \<noteq> CHR '',''" for q using closers(3)[of close q] assms by auto
  have comma: "skip_ws (CHR '','' # q) = CHR '','' # q" for q using closers(3)[of "CHR '',''" q] by simp
  show ?case
  proof (cases es)
    case Nil
    then show ?thesis using Cons.prems(1)[of x close r] k(1) close by (simp add: starts_char_def)
  next
    case (Cons y ys)
    let ?rest = "join_with '', '' (map f es) @ close # r"
    have "join_with '', '' (map f (x # es)) @ close # r = f x @ CHR '','' # sp ?rest" unfolding join_Cons using Cons by simp
    moreover have "comma_items k close item (acc @ [x]) ?rest = POk (acc @ x # es) (close # r)"
      using Cons.IH[OF Cons.prems(1) k(2), of "acc @ [x]"] by simp
    moreover have "comma_items k close item (acc @ [x]) (sp ?rest) = comma_items k close item (acc @ [x]) ?rest" by (cases k) auto
    ultimately show ?thesis using Cons.prems(1)[of x "CHR '',''" "sp ?rest"] k(1) comma by (simp add: starts_char_def)
  qed
qed

end
