(* ===== verification/Parser_Calls.thy ===== *)
theory Parser_Calls
  imports Parser_Composite
begin

text \<open>
  Lists, postfix operators, calls and \<open>CASE\<close>; then every printable expression, by induction on the
  length of its text.
\<close>

subsection \<open>Membership\<close>

lemma item_ok:
  assumes "reads L m x" "printable x" "c \<in> set '')],:''" "d \<in> set '')]:*''"
  shows "expr_at (Suc m) L (show_expr x @ c # r) = POk x (c # r)" "skip_ws (show_expr x @ c # r) = show_expr x @ c # r"
    "\<not> starts_char d (show_expr x @ c # r)"
proof -
  have "breaks (c # r)" using assms(3) by (auto simp: breaks_def wordy_def is_ascii_alnum_def)
  from show_begins[OF assms(2) this] have b: "begins L (show_expr x @ c # r)" .
  show "skip_ws (show_expr x @ c # r) = show_expr x @ c # r" by (rule begins_skip[OF b])
  show "\<not> starts_char d (show_expr x @ c # r)" using begins_starts[OF b] assms(4) by auto
qed (rule reads_before(1)[OF assms(1-3)])

lemma item_paren:
  assumes "reads L m x \<and> printable x" "c = CHR '','' \<or> c = CHR '')''"
  shows "expr_at (Suc m) L (show_expr x @ c # r) = POk x (c # r) \<and> skip_ws (show_expr x @ c # r) = show_expr x @ c # r
    \<and> \<not> starts_char CHR '')'' (show_expr x @ c # r)"
proof -
  have "c \<in> set '')],:''" "CHR '')'' \<in> set '')]:*''" using assms(2) by auto
  from item_ok[OF _ _ this] assms(1) show ?thesis by blast
qed

lemma show_nonempty: "printable x \<Longrightarrow> show_expr x \<noteq> []"
  using show_begins[of x "[]"] by (auto simp: begins_def breaks_def)

lemma in_list_ok:
  assumes "\<And>x. x \<in> set es \<Longrightarrow> reads L m x \<and> printable x"
  shows "parse_in_list (expr_at (Suc m) L) (parens (join_with '', '' (map show_expr es)) @ r) = POk es r"
proof -
  let ?j = "join_with '', '' (map show_expr es)"
  have n: "length es < Suc (length (?j @ CHR '')'' # r))" using join_count[of es show_expr] assms show_nonempty by fastforce
  have "comma_items (Suc (length (?j @ CHR '')'' # r))) CHR '')'' (expr_at (Suc m) L) [] (?j @ CHR '')'' # r) = POk ([] @ es) (CHR '')'' # r)"
    by (rule comma_items_ok[OF _ item_paren[OF assms] n]) simp_all
  then show ?thesis by (simp add: parse_in_list_def parens_def expect_char_def skip_dark dark_def starts_char_def closed_by_ok del: comma_items.simps)
qed

lemma in_body:
  assumes "reads L (Suc m) e" "printable e" "\<And>x. x \<in> set es \<Longrightarrow> reads L m x \<and> printable x"
  shows "parse_or L (expr_at (Suc m) L) (show_expr e @ (if neg then '' NOT IN '' else '' IN '') @ parens (join_with '', '' (map show_expr es)) @ CHR '')'' # r)
    = POk (InList e es neg) (CHR '')'' # r)"
proof (rule pass_range[OF _ close_quiet(1)])
  let ?u = "parens (join_with '', '' (map show_expr es)) @ CHR '')'' # r"
  have s: "show_expr e @ (if neg then '' NOT IN '' else '' IN '') @ ?u
    = (if neg then show_expr e @ sp (''NOT'' @ sp (''IN'' @ sp ?u)) else show_expr e @ sp (''IN'' @ sp ?u))" by simp
  have c: "parse_comparison L (expr_at (Suc m) L) (show_expr e @ sp (''IN'' @ sp ?u)) = POk e (''IN'' @ sp ?u)"
    by (rule cmp_word(1)[OF assms(1,2) words(13) breaks_char(2)]) simp
  have c': "parse_comparison L (expr_at (Suc m) L) (show_expr e @ sp (''NOT'' @ sp (''IN'' @ sp ?u))) = POk e (''NOT'' @ sp (''IN'' @ sp ?u))"
    by (rule cmp_not[OF assms(1,2) words(13) breaks_char(2)]) simp
  have pk: "peek_word L (sp (''IN'' @ sp ?u)) = Some ''IN''" "match_keyword L ''IN'' (sp (''IN'' @ sp ?u)) = (True, sp ?u)"
    using peek_word_word[OF words(13) breaks_char(2), of L] match_word[OF words(13) breaks_char(2), of L "''IN''"]
    by (simp_all del: append.simps)
  have i: "parse_in_list (expr_at (Suc m) L) (sp ?u) = POk es (CHR '')'' # r)"
    using in_list_ok[OF assms(3), of es] by (simp add: parse_in_list_def)
  show "parse_range L (expr_at (Suc m) L) (show_expr e @ (if neg then '' NOT IN '' else '' IN '') @ ?u) = POk (InList e es neg) (CHR '')'' # r)"
    unfolding s using range_on_word(2)[OF c words(13) breaks_char(2)] range_on_word(5)[OF c' words(11) breaks_char(2) _ _ pk(1)] pk(2) i
    by (cases neg) (simp_all del: append.simps expr_at.simps)
qed

subsection \<open>Postfix operators\<close>

text \<open>An operand in parentheses, and what its postfix operator makes of it.\<close>

lemma postfix_body:
  assumes "reads L m e" "printable e" "parse_postfix L (expr_at (Suc m) L) e q = POk e' (CHR '')'' # r)"
  shows "parse_or L (expr_at (Suc m) L) (parens (show_expr e) @ q) = POk e' (CHR '')'' # r)"
proof -
  have "expr_at (Suc m) L (show_expr e @ CHR '')'' # q) = POk e (CHR '')'' # q)" by (rule reads_before(1)[OF assms(1,2)]) simp
  then have "parse_primary L (expr_at (Suc m) L) (parens (show_expr e) @ q) = POk e' (CHR '')'' # r)"
    using primary_parens[of "expr_at (Suc m) L" "show_expr e" q e L] assms(3) by simp
  then show ?thesis using pass_primary[OF _ close_quiet(1)] unary_primary(1)[OF begins_parens] by simp
qed

lemma postfix_end: "postfix_loop (Suc k) L pe e (CHR '')'' # r) = POk e (CHR '')'' # r)"
  by (simp add: skip_dark dark_def starts_char_def starts_with_def)

lemma field_postfix:
  assumes "name_ok f"
  shows "parse_postfix L pe e (''.'' @ tick f @ CHR '')'' # r) = POk (FieldAccess e f) (CHR '')'' # r)"
proof -
  have "field_name L (tick f @ CHR '')'' # r) = POk f (CHR '')'' # r)"
    using backtick_ok[OF assms] by (simp add: field_name_def tick_starts)
  then show ?thesis by (simp add: parse_postfix_def skip_dark dark_def starts_char_def postfix_end del: postfix_loop.simps add: postfix_loop.simps(2)[of "Suc _"])
qed

lemma expect_close: "c \<in> set '')]'' \<Longrightarrow> expect_char c (c # r) = POk () r"
  using closers(3)[of c r] by (auto simp: expect_char_def starts_char_def)

lemma bracket_postfix:
  assumes "subscript pe e (s @ CHR '']'' # CHR '')'' # r) = POk e' (CHR '')'' # r)"
  shows "parse_postfix L pe e (CHR ''['' # s @ CHR '']'' # CHR '')'' # r) = POk e' (CHR '')'' # r)"
  using assms by (simp add: parse_postfix_def skip_dark dark_def starts_char_def starts_with_def postfix_end del: postfix_loop.simps add: postfix_loop.simps(2)[of "Suc _"])

lemma index_subscript:
  assumes "reads L m i" "printable i"
  shows "subscript (expr_at (Suc m) L) e (show_expr i @ CHR '']'' # r) = POk (Index e i) r"
proof -
  have "\<not> starts_char CHR '':'' (show_expr i @ CHR '']'' # r)" "skip_ws (show_expr i @ CHR '']'' # r) = show_expr i @ CHR '']'' # r"
    "expr_at (Suc m) L (show_expr i @ CHR '']'' # r) = POk i (CHR '']'' # r)" using item_ok[OF assms, of "CHR '']''" "CHR '':''"] by simp_all
  then show ?thesis using closers(3)[of "CHR '']''" r] expect_close[of "CHR '']''" r]
    by (simp add: subscript_def Let_def starts_char_def[of _ "_ # _"] del: expr_at.simps)
qed

definition opt_text :: "expr option \<Rightarrow> string" where
  "opt_text x = (case x of None \<Rightarrow> [] | Some e \<Rightarrow> show_expr e)"

lemma slice_end_ok:
  assumes "pred_option printable hi" "pred_option (reads L m) hi"
  shows "slice_end (expr_at (Suc m) L) (opt_text hi @ CHR '']'' # r) = POk hi r"
proof (cases hi)
  case None
  then show ?thesis using closers(3)[of "CHR '']''" r] by (simp add: slice_end_def opt_text_def closed_by_ok dark_def starts_char_def)
next
  case (Some x)
  then have x: "reads L m x" "printable x" using assms by auto
  have "\<not> starts_char CHR '']'' (show_expr x @ CHR '']'' # r)" "skip_ws (show_expr x @ CHR '']'' # r) = show_expr x @ CHR '']'' # r"
    "expr_at (Suc m) L (show_expr x @ CHR '']'' # r) = POk x (CHR '']'' # r)" using item_ok[OF x, of "CHR '']''" "CHR '']''"] by simp_all
  then show ?thesis using Some by (simp add: slice_end_def opt_text_def closed_by_ok dark_def Let_def del: expr_at.simps)
qed

lemma slice_subscript:
  assumes "pred_option printable lo" "pred_option (reads L m) lo" "pred_option printable hi" "pred_option (reads L m) hi"
  shows "subscript (expr_at (Suc m) L) e (opt_text lo @ CHR '':'' # opt_text hi @ CHR '']'' # r) = POk (Slice e lo hi) r"
proof (cases lo)
  case None
  then show ?thesis using slice_end_ok[OF assms(3,4)] closers(3)[of "CHR '':''"] by (simp add: subscript_def opt_text_def[of None] starts_char_def del: expr_at.simps)
next
  case (Some x)
  then have x: "reads L m x" "printable x" using assms by auto
  let ?q = "CHR '':'' # opt_text hi @ CHR '']'' # r"
  have "\<not> starts_char CHR '':'' (show_expr x @ ?q)" "skip_ws (show_expr x @ ?q) = show_expr x @ ?q"
    "expr_at (Suc m) L (show_expr x @ ?q) = POk x ?q" using item_ok[OF x, of "CHR '':''" "CHR '':''"] by simp_all
  then show ?thesis using Some slice_end_ok[OF assms(3,4)] closers(3)[of "CHR '':''"]
    by (simp add: subscript_def Let_def opt_text_def[of "Some x"] starts_char_def[of _ "_ # _"] del: expr_at.simps)
qed

subsection \<open>Calls\<close>

lemma items_ok:
  "es \<noteq> [] \<Longrightarrow> (\<And>x r c. x \<in> set es \<Longrightarrow> c = CHR '','' \<or> c = CHR '')'' \<Longrightarrow> item (f x @ c # r) = POk x (c # r) \<and> skip_ws (f x @ c # r) = f x @ c # r)
    \<Longrightarrow> length es \<le> n \<Longrightarrow> items n item acc (join_with '', '' (map f es) @ CHR '')'' # r) = POk (acc @ es) (CHR '')'' # r)"
proof (induction es arbitrary: n acc)
  case (Cons x es)
  then obtain k where k: "n = Suc k" "length es \<le> k" by (cases n) auto
  have close: "skip_ws (c # q) = c # q" if "c \<in> set '')],:''" for c q using closers(3)[OF that] .
  show ?case
  proof (cases es)
    case Nil
    then show ?thesis using Cons.prems(2)[of x "CHR '')''" r] k(1) close by (simp add: starts_char_def)
  next
    case (Cons y ys)
    let ?rest = "join_with '', '' (map f es) @ CHR '')'' # r"
    have "join_with '', '' (map f (x # es)) @ CHR '')'' # r = f x @ CHR '','' # sp ?rest" unfolding join_Cons using Cons by simp
    moreover have "items k item (acc @ [x]) ?rest = POk (acc @ x # es) (CHR '')'' # r)"
      using Cons.IH[OF _ Cons.prems(2) k(2), of "acc @ [x]"] Cons by simp
    moreover have "items k item (acc @ [x]) (sp ?rest) = items k item (acc @ [x]) ?rest" by (cases k) auto
    ultimately show ?thesis using Cons.prems(2)[of x "CHR '',''" "sp ?rest"] k(1) close by (simp add: starts_char_def)
  qed
qed simp

definition arg_ok :: "lexer \<Rightarrow> nat \<Rightarrow> expr \<Rightarrow> bool" where
  "arg_ok L m a \<longleftrightarrow> a = Wildcard \<or> reads L m a \<and> printable a"

lemma call_arg_ok:
  assumes "arg_ok L m a" "c = CHR '','' \<or> c = CHR '')''"
  shows "call_arg_item (expr_at (Suc m) L) (show_expr a @ c # r) = POk a (c # r) \<and> skip_ws (show_expr a @ c # r) = show_expr a @ c # r"
    "\<not> starts_char CHR '')'' (show_expr a @ c # r)"
proof -
  have c: "c \<in> set '')],:''" using assms(2) by auto
  have "(call_arg_item (expr_at (Suc m) L) (show_expr a @ c # r) = POk a (c # r) \<and> skip_ws (show_expr a @ c # r) = show_expr a @ c # r)
    \<and> \<not> starts_char CHR '')'' (show_expr a @ c # r)"
  proof (cases "a = Wildcard")
    case True
    then show ?thesis using closers(3)[OF c, of r] assms(2) by (auto simp: call_arg_item_def starts_char_def skip_dark dark_def)
  next
    case False
    then have a: "reads L m a" "printable a" using assms(1) by (auto simp: arg_ok_def)
    note i = item_ok(1,2)[OF a c, of "CHR ''*''" r] item_ok(3)[OF a c, of "CHR ''*''" r] item_ok(3)[OF a c, of "CHR '')''" r]
    show ?thesis using i by (simp add: call_arg_item_def del: expr_at.simps)
  qed
  then show "call_arg_item (expr_at (Suc m) L) (show_expr a @ c # r) = POk a (c # r) \<and> skip_ws (show_expr a @ c # r) = show_expr a @ c # r"
    "\<not> starts_char CHR '')'' (show_expr a @ c # r)" by auto
qed

lemma arg_nonempty: "arg_ok L m a \<Longrightarrow> show_expr a \<noteq> []"
  by (auto simp: arg_ok_def show_nonempty)

lemma call_args_ok:
  assumes "\<And>a. a \<in> set args \<Longrightarrow> arg_ok L m a"
  shows "call_args (expr_at (Suc m) L) (join_with '', '' (map show_expr args) @ CHR '')'' # r) = POk args r"
proof (cases args)
  case Nil
  then show ?thesis using closers(3)[of "CHR '')''" r] by (simp add: call_args_def starts_char_def closed_by_ok dark_def)
next
  case (Cons a as)
  let ?t = "join_with '', '' (map show_expr args) @ CHR '')'' # r"
  have n: "length args \<le> Suc (length ?t)" using join_count[of args show_expr] assms arg_nonempty by fastforce
  have it: "items (Suc (length ?t)) (call_arg_item (expr_at (Suc m) L)) [] ?t = POk ([] @ args) (CHR '')'' # r)"
    by (rule items_ok[OF _ call_arg_ok(1)[OF assms] n]) (use Cons in simp_all)
  have a: "arg_ok L m a" using assms Cons by simp
  have "skip_ws ?t = ?t \<and> \<not> starts_char CHR '')'' ?t"
  proof (cases "as = []")
    case True
    then show ?thesis using call_arg_ok[OF a, of "CHR '')''" r] Cons by simp
  next
    case False
    then have "?t = show_expr a @ CHR '','' # sp (join_with '', '' (map show_expr as) @ CHR '')'' # r)" unfolding Cons join_Cons by simp
    then show ?thesis using call_arg_ok[OF a, of "CHR '',''"] by simp
  qed
  then show ?thesis using it by (simp add: call_args_def closed_by_ok dark_def del: items.simps expr_at.simps)
qed

lemma call_word:
  assumes "call_ok name" "\<And>a. a \<in> set args \<Longrightarrow> arg_ok L m a"
  shows "parse_primary L (expr_at (Suc m) L) (name @ parens (join_with '', '' (map show_expr args)) @ r) = parse_over L (expr_at (Suc m) L) (Call name args) r"
proof -
  have w: "word name" "\<not> is_digit (hd name)" "\<not> eq_ignore_case name ''true''" "\<not> eq_ignore_case name ''false''" "\<not> eq_ignore_case name ''null''"
    "\<not> eq_ignore_case name ''CASE''" using assms(1) by (auto simp: call_ok_def)
  have "breaks (parens (join_with '', '' (map show_expr args)) @ r)" by (simp add: parens_def breaks_def wordy_def is_ascii_alnum_def)
  from primary_word[OF w(1,2) this] show ?thesis
    using w(3-6) call_args_ok[OF assms(2), of args r]
    by (simp add: parse_word_def parens_def skip_dark dark_def starts_char_def del: expr_at.simps)
qed

lemma match_no: "\<not> peek_word_is L kw r \<Longrightarrow> match_keyword L kw r = (False, skip_ws r)"
  by (auto simp: match_keyword_def peek_word_is_def Let_def split: option.splits)

lemma reads_call:
  assumes "call_ok name" "\<And>a. a \<in> set args \<Longrightarrow> arg_ok L m a"
  shows "reads L (Suc m) (Call name args)"
proof -
  have "parse_over L pe c r = POk c (skip_ws r)" if "stops L r" for r pe c
  proof -
    have "\<not> peek_word_is L ''OVER'' (skip_ws r)" "parse_postfix L pe c (skip_ws r) = POk c (skip_ws r)"
      using that by (simp_all add: stops_def Let_def parse_postfix_def del: peek_skip)
    then show ?thesis using match_no[of L "''OVER''" "skip_ws r"] by (simp add: parse_over_def)
  qed
  then show ?thesis using call_word[OF assms, of args] by (simp add: reads_def del: expr_at.simps)
qed

subsection \<open>Windows over a call\<close>

lemma over_partition: "over_loop (Suc k) L pe part cond (''PARTITION'' @ sp (''BY'' @ sp s)) = pbind (pe (sp s)) (\<lambda>e r. over_loop k L pe (Some e) cond r)"
proof -
  have "peek_word_is L ''PARTITION'' (''PARTITION'' @ sp (''BY'' @ sp s))" "match_keyword L ''PARTITION'' (''PARTITION'' @ sp (''BY'' @ sp s)) = (True, sp (''BY'' @ sp s))"
    using peek_word_is_word[OF words(18) breaks_char(2)] match_word[OF words(18) breaks_char(2)] by (simp_all del: append.simps)
  then show ?thesis using skip_word[OF words(18)] expect_word[OF words(19) breaks_char(2)] by (simp add: Let_def del: append.simps)
qed

lemma over_when: "over_loop (Suc k) L pe part cond (''WHEN'' @ sp s) = pbind (pe (sp s)) (\<lambda>e r. over_loop k L pe part (Some e) r)"
proof -
  have "peek_word_is L ''WHEN'' (''WHEN'' @ sp s)" "match_keyword L ''WHEN'' (''WHEN'' @ sp s) = (True, sp s)" "\<not> peek_word_is L ''PARTITION'' (''WHEN'' @ sp s)"
    using peek_word_is_word[OF words(5) breaks_char(2)] match_word[OF words(5) breaks_char(2)] by (simp_all add: word_eq del: append.simps)
  then show ?thesis using skip_word[OF words(5)] by (simp add: Let_def del: append.simps)
qed

lemma over_space: "over_loop k L pe part cond (sp s) = over_loop k L pe part cond s"
  by (cases k) simp_all

lemma over_end: "over_loop (Suc k) L pe part cond (CHR '')'' # r) = POk (part, cond) (CHR '')'' # r)"
  by (simp add: skip_dark dark_def peek_word_is_dark wordy_def is_ascii_alnum_def)

definition over_text :: "expr option \<Rightarrow> expr option \<Rightarrow> string" where
  "over_text part cond = (case part of None \<Rightarrow> [] | Some x \<Rightarrow> ''PARTITION BY '' @ show_expr x) @ (case cond of None \<Rightarrow> [] | Some x \<Rightarrow> '' WHEN '' @ show_expr x)"

lemma when_neq: "list_all (\<lambda>kw. \<not> eq_ignore_case ''WHEN'' kw) [''OVER'', ''BETWEEN'', ''NOT'', ''IN'', ''IS'', ''LIKE'', ''AND'', ''OR'']"
  by (simp add: word_eq)

lemma over_loop_ok:
  assumes "pred_option printable part" "pred_option (reads L m) part" "pred_option printable cond" "pred_option (reads L m) cond" "3 \<le> k"
  shows "over_loop k L (expr_at (Suc m) L) None None (over_text part cond @ CHR '')'' # r) = POk (part, cond) (CHR '')'' # r)"
proof -
  obtain j where k: "k = Suc (Suc (Suc j))" using assms(5) by (auto simp: le_iff_add)
  let ?pe = "expr_at (Suc m) L"
  have wh: "over_loop (Suc (Suc i)) L ?pe p None (''WHEN'' @ sp (show_expr w @ CHR '')'' # r)) = POk (p, Some w) (CHR '')'' # r)"
    if "cond = Some w" for w p i
    using that assms(3,4) reads_before(2)[of L m w "CHR '')''" r] over_end[of i] by (simp add: over_when del: append.simps expr_at.simps over_loop.simps)
  have part: "?pe (sp (show_expr x @ CHR '')'' # r)) = POk x (CHR '')'' # r)"
    "?pe (sp (show_expr x @ sp (''WHEN'' @ sp s))) = POk x (''WHEN'' @ sp s)" if "part = Some x" for x s
    using that assms(1,2) reads_before(2)[of L m x "CHR '')''" r] reads_word(2)[OF _ _ words(5) breaks_char(2) when_neq, of L m x] by auto
  show ?thesis
  proof (cases part)
    case None
    then show ?thesis using wh k by (cases cond) (simp_all add: over_text_def over_end over_space del: over_loop.simps expr_at.simps)
  next
    case (Some x)
    have s: "over_text part cond @ CHR '')'' # r = ''PARTITION'' @ sp (''BY'' @ sp (show_expr x @
      (case cond of None \<Rightarrow> CHR '')'' # r | Some w \<Rightarrow> sp (''WHEN'' @ sp (show_expr w @ CHR '')'' # r)))))"
      using Some by (simp add: over_text_def split: option.split)
    show ?thesis unfolding s k over_partition using part[OF Some] wh Some
      by (cases cond) (simp_all add: over_end del: over_loop.simps expr_at.simps append.simps)
  qed
qed

lemma reads_over:
  assumes "call_ok name" "\<And>a. a \<in> set args \<Longrightarrow> arg_ok L m a"
    "pred_option printable part" "pred_option (reads L m) part" "pred_option printable cond" "pred_option (reads L m) cond"
  shows "reads L (Suc m) (Over (Call name args) part cond)"
  unfolding reads_def
proof (intro allI impI)
  fix r assume r: "stops L r"
  let ?pe = "expr_at (Suc m) L" and ?b = "over_text part cond @ CHR '')'' # r"
  have "over_loop (Suc (length ?b)) L ?pe None None ?b = POk (part, cond) (CHR '')'' # r)"
  proof (cases "part = None \<and> cond = None")
    case True
    then show ?thesis using over_end[of "length (CHR '')'' # r)"] by (simp add: over_text_def del: over_loop.simps)
  next
    case False
    then have "3 \<le> Suc (length ?b)" by (auto simp: over_text_def split: option.split)
    then show ?thesis by (rule over_loop_ok[OF assms(3-6)])
  qed
  then have c: "closed_by CHR '')'' (over_loop (Suc (length ?b)) L ?pe None None ?b) = POk (part, cond) r"
    by (rule closed_by_ok) (simp add: dark_def)
  have m: "match_keyword L ''OVER'' (''OVER'' @ sp (CHR ''('' # ?b)) = (True, sp (CHR ''('' # ?b))"
    using match_word[OF words(17) breaks_char(2)] by (simp del: append.simps)
  have o: "skip_ws (CHR ''('' # ?b) = CHR ''('' # ?b" "expect_char CHR ''('' (CHR ''('' # ?b) = POk () ?b"
    by (simp_all add: skip_dark dark_def expect_char_def starts_char_def)
  have pb: "parens (over_text part cond) @ r = CHR ''('' # ?b" by (simp add: parens_def)
  have "parse_over L ?pe (Call name args) (sp (''OVER'' @ sp (parens (over_text part cond) @ r))) = POk (Over (Call name args) part cond) (skip_ws r)"
    unfolding parse_over_def pb using skip_word[OF words(17)] postfix_stop[OF r] m o c by (simp del: append.simps over_loop.simps expr_at.simps)
  moreover have t: "show_expr (Over (Call name args) part cond) @ r
    = name @ parens (join_with '', '' (map show_expr args)) @ sp (''OVER'' @ sp (parens (over_text part cond) @ r))"
    by (simp add: over_text_def)
  ultimately show "parse_primary L ?pe (show_expr (Over (Call name args) part cond) @ r) = POk (Over (Call name args) part cond) (skip_ws r)"
    unfolding t using call_word[OF assms(1,2)] by simp
qed

subsection \<open>Case\<close>

text \<open>Text that starts with a keyword which is no operator.\<close>

definition kwtext :: "string \<Rightarrow> bool" where
  "kwtext t \<longleftrightarrow> (\<exists>w u. t = w @ u \<and> word w \<and> breaks u
     \<and> list_all (\<lambda>kw. \<not> eq_ignore_case w kw) [''OVER'', ''BETWEEN'', ''NOT'', ''IN'', ''IS'', ''LIKE'', ''AND'', ''OR''])"

lemma reads_kw: "reads L m e \<Longrightarrow> printable e \<Longrightarrow> kwtext t \<Longrightarrow> expr_at (Suc m) L (sp (show_expr e @ sp t)) = POk e t"
  unfolding kwtext_def using reads_word(2) by blast

lemma kwtexts: "kwtext (''WHEN'' @ sp s)" "kwtext (''THEN'' @ sp s)" "kwtext (''ELSE'' @ sp s)" "kwtext (''END'' @ CHR '')'' # s)"
proof -
  have kw: "kwtext (w @ u)" if "word w" "breaks u" "list_all (\<lambda>kw. \<not> eq_ignore_case w kw) [''OVER'', ''BETWEEN'', ''NOT'', ''IN'', ''IS'', ''LIKE'', ''AND'', ''OR'']"
    for w u using that unfolding kwtext_def by blast
  show "kwtext (''WHEN'' @ sp s)" by (rule kw[OF words(5) breaks_char(2)]) (simp add: word_eq)
  show "kwtext (''THEN'' @ sp s)" by (rule kw[OF words(6) breaks_char(2)]) (simp add: word_eq)
  show "kwtext (''ELSE'' @ sp s)" by (rule kw[OF words(7) breaks_char(2)]) (simp add: word_eq)
  show "kwtext (''END'' @ CHR '')'' # s)" by (rule kw[OF words(8) close_breaks]) (simp add: word_eq)
qed

fun whens_text :: "(expr \<times> expr) list \<Rightarrow> string \<Rightarrow> string" where
  "whens_text [] t = t"
| "whens_text ((c, v) # ws) t = ''WHEN'' @ sp (show_expr c @ sp (''THEN'' @ sp (show_expr v @ sp (whens_text ws t))))"

lemma whens_concat: "concat (map (\<lambda>(c, v). '' WHEN '' @ show_expr c @ '' THEN '' @ show_expr v) ws) @ sp t = sp (whens_text ws t)"
  by (induction ws t rule: whens_text.induct) auto

lemma whens_kwtext: "kwtext t \<Longrightarrow> kwtext (whens_text ws t)"
proof (cases ws)
  case (Cons w ws')
  then show ?thesis using kwtexts(1) by (cases w) (simp del: append.simps)
qed simp

definition pair_ok :: "lexer \<Rightarrow> nat \<Rightarrow> expr \<times> expr \<Rightarrow> bool" where
  "pair_ok L m p \<longleftrightarrow> reads L m (fst p) \<and> reads L m (snd p) \<and> printable (fst p) \<and> printable (snd p)"

lemma whens_ok:
  assumes "kwtext t" "\<not> peek_word_is L ''WHEN'' t" "skip_ws t = t"
  shows "list_all (pair_ok L m) ws \<Longrightarrow> length ws < n \<Longrightarrow> when_clauses n L (expr_at (Suc m) L) acc (whens_text ws t) = POk (acc @ ws) t"
proof (induction ws arbitrary: n acc)
  case Nil
  then show ?case using assms(3) match_no[OF assms(2)] by (cases n) auto
next
  case (Cons p ws)
  then obtain k where k: "n = Suc k" "length ws < k" by (cases n) auto
  obtain c v where p: "p = (c, v)" by (cases p) auto
  let ?T = "''THEN'' @ sp (show_expr v @ sp (whens_text ws t))"
  have ok: "reads L m c" "reads L m v" "printable c" "printable v" using Cons.prems(1) p by (auto simp: pair_ok_def)
  have "match_keyword L ''WHEN'' (''WHEN'' @ sp (show_expr c @ sp ?T)) = (True, sp (show_expr c @ sp ?T))"
    using match_word[OF words(5) breaks_char(2)] by (simp del: append.simps)
  moreover have "expr_at (Suc m) L (sp (show_expr c @ sp ?T)) = POk c ?T" by (rule reads_kw[OF ok(1,3) kwtexts(2)])
  moreover have "expect_keyword L ''THEN'' ?T = POk () (sp (show_expr v @ sp (whens_text ws t)))" by (rule expect_word[OF words(6) breaks_char(2)])
  moreover have "expr_at (Suc m) L (sp (show_expr v @ sp (whens_text ws t))) = POk v (whens_text ws t)"
    by (rule reads_kw[OF ok(2,4) whens_kwtext[OF assms(1)]])
  moreover have "when_clauses k L (expr_at (Suc m) L) (acc @ [(c, v)]) (whens_text ws t) = POk (acc @ p # ws) t"
    using Cons.IH[OF _ k(2), of "acc @ [(c, v)]"] Cons.prems(1) p by (simp del: expr_at.simps)
  ultimately show ?case unfolding k(1) p whens_text.simps by (simp del: append.simps expr_at.simps)
qed

definition case_tail :: "expr option \<Rightarrow> string \<Rightarrow> string" where
  "case_tail els r = (case els of None \<Rightarrow> ''END'' @ CHR '')'' # r | Some x \<Rightarrow> ''ELSE'' @ sp (show_expr x @ sp (''END'' @ CHR '')'' # r)))"

lemma case_tail_kw: "kwtext (case_tail els r)" "\<not> peek_word_is L ''WHEN'' (case_tail els r)" "skip_ws (case_tail els r) = case_tail els r"
  using kwtexts(3,4) peek_word_is_word[OF words(7) breaks_char(2), of L "''WHEN''"] peek_word_is_word[OF words(8) close_breaks, of L "''WHEN''"]
    skip_word[OF words(7)] skip_word[OF words(8)]
  by (simp_all add: case_tail_def word_eq split: option.split del: append.simps)

lemma whens_count: "length ws \<le> length (whens_text ws t)"
  by (induction ws t rule: whens_text.induct) auto

lemma else_ok:
  assumes "pred_option printable els" "pred_option (reads L m) els"
  shows "pbind (case match_keyword L ''ELSE'' (case_tail els r) of
                  (True, r) \<Rightarrow> pbind (expr_at (Suc m) L r) (\<lambda>e r. POk (Some e) r)
                | (False, r) \<Rightarrow> POk None r) (\<lambda>els r. pbind (expect_keyword L ''END'' r) (\<lambda>_ r. POk (f els) r))
    = POk (f els) (CHR '')'' # r)"
proof -
  have e: "expect_keyword L ''END'' (''END'' @ CHR '')'' # r) = POk () (CHR '')'' # r)" by (rule expect_word[OF words(8) close_breaks])
  show ?thesis
  proof (cases els)
    case None
    have "match_keyword L ''ELSE'' (''END'' @ CHR '')'' # r) = (False, ''END'' @ CHR '')'' # r)"
      using match_word[OF words(8) close_breaks] by (simp add: word_eq del: append.simps)
    then show ?thesis using None e by (simp add: case_tail_def del: append.simps)
  next
    case (Some x)
    have "match_keyword L ''ELSE'' (''ELSE'' @ sp (show_expr x @ sp (''END'' @ CHR '')'' # r))) = (True, sp (show_expr x @ sp (''END'' @ CHR '')'' # r)))"
      using match_word[OF words(7) breaks_char(2)] by (simp del: append.simps)
    moreover have "expr_at (Suc m) L (sp (show_expr x @ sp (''END'' @ CHR '')'' # r))) = POk x (''END'' @ CHR '')'' # r)"
      using Some assms by (intro reads_kw[OF _ _ kwtexts(4)]) auto
    ultimately show ?thesis using Some e by (simp add: case_tail_def del: append.simps expr_at.simps)
  qed
qed

lemma case_ok:
  assumes "pred_option printable opnd" "pred_option (reads L m) opnd" "ws \<noteq> []" "list_all (pair_ok L m) ws"
    "pred_option printable els" "pred_option (reads L m) els"
  shows "parse_case L (expr_at (Suc m) L) ((case opnd of None \<Rightarrow> [] | Some x \<Rightarrow> '' '' @ show_expr x) @ sp (whens_text ws (case_tail els r)))
    = POk (Case opnd ws els) (CHR '')'' # r)"
proof -
  let ?pe = "expr_at (Suc m) L" and ?w = "whens_text ws (case_tail els r)"
  obtain c v ws' where ws: "ws = (c, v) # ws'" using assms(3) by (cases ws) auto
  have pk: "peek_word_is L ''WHEN'' ?w" using peek_word_is_word[OF words(5) breaks_char(2)] ws by (simp del: append.simps)
  have wh: "when_clauses (Suc (length q)) L ?pe [] q = POk ws (case_tail els r)" if "q = ?w \<or> q = sp ?w" for q
  proof -
    have "length ws < Suc (length q)" using that whens_count[of ws "case_tail els r"] by auto
    from whens_ok[OF case_tail_kw assms(4) this] have "when_clauses (Suc (length q)) L ?pe [] ?w = POk ws (case_tail els r)" by simp
    moreover have "when_clauses k L ?pe acc (sp ?w) = when_clauses k L ?pe acc ?w" for k acc by (cases k) simp_all
    ultimately show ?thesis using that by metis
  qed
  show ?thesis
  proof (cases opnd)
    case None
    then show ?thesis using pk wh[of "sp ?w"] else_ok[OF assms(5,6)] assms(3)
      by (simp add: parse_case_def del: when_clauses.simps expr_at.simps)
  next
    case (Some x)
    have x: "reads L m x" "printable x" using Some assms(1,2) by auto
    have "begins L (show_expr x @ sp ?w)" by (rule show_begins[OF x(2) breaks_char(2)])
    then have "\<not> peek_word_is L ''WHEN'' (show_expr x @ sp ?w)" by (simp add: begins_def)
    moreover have "?pe (sp (show_expr x @ sp ?w)) = POk x ?w" by (rule reads_kw[OF x whens_kwtext[OF case_tail_kw(1)]])
    ultimately show ?thesis using Some wh[of ?w] else_ok[OF assms(5,6)] assms(3)
      by (simp add: parse_case_def del: when_clauses.simps expr_at.simps)
  qed
qed

lemma reads_case:
  assumes "\<And>r. parse_case L (expr_at (Suc k) L) ((case opnd of None \<Rightarrow> [] | Some x \<Rightarrow> '' '' @ show_expr x) @ sp (whens_text ws (case_tail els r)))
      = POk e (CHR '')'' # r)" "show_expr e = show_expr (Case opnd ws els)"
  shows "reads L (Suc (Suc k)) e"
proof -
  let ?o = "case opnd of None \<Rightarrow> [] | Some x \<Rightarrow> '' '' @ show_expr x" and ?pe = "expr_at (Suc k) L"
  let ?body = "''CASE'' @ ?o @ concat (map (\<lambda>(c, v). '' WHEN '' @ show_expr c @ '' THEN '' @ show_expr v) ws)
       @ (case els of None \<Rightarrow> [] | Some x \<Rightarrow> '' ELSE '' @ show_expr x) @ '' END''"
  have body: "?body @ CHR '')'' # r = ''CASE'' @ ?o @ sp (whens_text ws (case_tail els r))" for r
    unfolding whens_concat[symmetric] by (simp add: case_tail_def split: option.split)
  have br: "breaks (?o @ sp (whens_text ws (case_tail els r)))" for r
    using breaks_char(2) by (simp split: option.split)
  have neq: "\<not> eq_ignore_case ''CASE'' ''true''" "\<not> eq_ignore_case ''CASE'' ''false''" "\<not> eq_ignore_case ''CASE'' ''null''"
    "\<not> eq_ignore_case ''CASE'' ''NOT''" "\<not> eq_ignore_case ''CASE'' ''WHEN''" "\<not> is_digit (hd ''CASE'')"
    by (simp_all add: word_eq is_digit_def)
  have prim: "parse_primary L ?pe (?body @ CHR '')'' # r) = POk e (CHR '')'' # r)" for r
    unfolding body primary_word[OF words(4) neq(6) br] parse_word_def using neq(1-3) assms(1)[of r] postfix_stop[OF closers(1)[of "CHR '')''"]] closers(3)[of "CHR '')''"]
    by (simp del: append.simps)
  have bg: "begins L (?body @ CHR '')'' # r)" for r
    unfolding body by (rule begins_word[OF words(4) br neq(4,5)])
  have "parse_or L ?pe (?body @ CHR '')'' # r) = POk e (CHR '')'' # r)" for r
    by (rule pass_primary[OF trans[OF unary_primary(1)[OF bg] prim] close_quiet(1)])
  then show ?thesis by (rule reads_parens) (simp add: assms(2))
qed

end
