(* ===== verification/ParserStmt.thy ===== *)
theory ParserStmt
  imports Parser
begin

text \<open>
  The statements of \<open>parser.rs\<close>: \<open>SELECT\<close> with its clauses, the windows of \<open>GROUP BY\<close> and the set
  operations, which nest to the right. Loops and the recursion after \<open>UNION\<close> count down from the
  length of the input, as for expressions.
\<close>

definition pmap :: "('a \<Rightarrow> 'b) \<Rightarrow> 'a pres \<Rightarrow> 'b pres" where
  "pmap f p = pbind p (\<lambda>a r. POk (f a) r)"

definition lift_result :: "(string + 'a) \<Rightarrow> string \<Rightarrow> 'a pres" where
  "lift_result x r = (case x of Inl e \<Rightarrow> PErr e | Inr a \<Rightarrow> POk a r)"

subsection \<open>Windows\<close>

definition time_unit_from_str :: "string \<Rightarrow> string + time_unit" where
  "time_unit_from_str s =
     (let u = to_ascii_lowercase s
      in if u = ''dd'' then Inr Dd else if u = ''hh'' then Inr Hh else if u = ''mi'' then Inr Mi
         else if u = ''ss'' then Inr Ss else if u = ''ms'' then Inr Ms
         else Inl (''Unknown time unit '' @ quote_text s @ '', expected one of dd, hh, mi, ss, ms''))"

definition parse_window_unit :: "expr \<Rightarrow> string + time_unit" where
  "parse_window_unit e =
     (case e of
        Identifier name \<Rightarrow> time_unit_from_str name
      | Literal (Str s) \<Rightarrow> time_unit_from_str s
      | _ \<Rightarrow> Inl ''Window time unit must be one of dd, hh, mi, ss, ms'')"

definition parse_window_u64 :: "lexer \<Rightarrow> expr \<Rightarrow> string + nat" where
  "parse_window_u64 L e =
     (case e of
        Literal v \<Rightarrow>
          (case as_u64 v of
             Some u \<Rightarrow> Inr (nat u)
           | None \<Rightarrow>
               (case as_i64 v of
                  Some i \<Rightarrow>
                    if 0 \<le> i then Inr (nat i)
                    else Inl (''Window length/interval must be non-negative, got '' @ show_int i)
                | None \<Rightarrow>
                    (case as_f64 v of
                       Some f \<Rightarrow>
                         if is_finite f \<and> f64_le (f64_of_int 0) f \<and> f64_eq (f64_trunc f) f then Inr (nat (f64_as_u64 f))
                         else Inl (''Window length/interval must be a non-negative integer, got '' @ lx_show L f)
                     | None \<Rightarrow> Inl ''Window length/interval must be an integer'')))
      | _ \<Rightarrow> Inl ''Window length/interval must be an integer literal'')"

definition parse_window_usize :: "lexer \<Rightarrow> expr \<Rightarrow> string + nat" where
  "parse_window_usize L e = parse_window_u64 L e"

text \<open>A result handed on, and the optional argument at a position.\<close>

definition rbind :: "(string + 'a) \<Rightarrow> ('a \<Rightarrow> string + 'b) \<Rightarrow> string + 'b" where
  "rbind x f = (case x of Inl e \<Rightarrow> Inl e | Inr a \<Rightarrow> f a)"

definition opt_arg :: "(expr \<Rightarrow> string + 'a) \<Rightarrow> nat \<Rightarrow> expr list \<Rightarrow> string + 'a option" where
  "opt_arg f i args = (if i < length args then rbind (f (args ! i)) (\<lambda>a. Inr (Some a)) else Inr None)"

definition wrong_count :: "string \<Rightarrow> expr list \<Rightarrow> string + 'a" where
  "wrong_count what args = Inl (what @ '', got '' @ show_int (int (length args)))"

definition call_of :: "expr \<Rightarrow> (string \<times> expr list) option" where
  "call_of e =
     (case e of
        Call name args \<Rightarrow> Some (name, args)
      | Over c _ _ \<Rightarrow> (case c of Call name args \<Rightarrow> Some (name, args) | _ \<Rightarrow> None)
      | _ \<Rightarrow> None)"

definition window_call :: "lexer \<Rightarrow> string \<Rightarrow> expr list \<Rightarrow> string + window_def option" where
  "window_call L name args =
     (let n = to_ascii_lowercase name; k = length args;
          unit = parse_window_unit (args ! 0); u64 = (\<lambda>i. parse_window_u64 L (args ! i))
      in if n = ''statewindow'' then
           (if k = 0 \<or> 2 < k then wrong_count ''STATEWINDOW expects 1 or 2 arguments'' args
            else Inr (Some (State (args ! 0) (if k = 2 then Some (args ! 1) else None))))
         else if n = ''tumblingwindow'' then
           (if k \<noteq> 2 then wrong_count ''TUMBLINGWINDOW expects 2 arguments (unit, length)'' args
            else rbind unit (\<lambda>u. rbind (u64 1) (\<lambda>len. Inr (Some (TumblingTime u len)))))
         else if n = ''hoppingwindow'' then
           (if k \<noteq> 3 then wrong_count ''HOPPINGWINDOW expects 3 arguments (unit, length, interval)'' args
            else rbind unit (\<lambda>u. rbind (u64 1) (\<lambda>len. rbind (u64 2) (\<lambda>iv. Inr (Some (HoppingTime u len iv))))))
         else if n = ''slidingwindow'' then
           (if k \<noteq> 2 \<and> k \<noteq> 3 then wrong_count ''SLIDINGWINDOW expects 2 or 3 arguments (unit, length[, delay])'' args
            else rbind unit (\<lambda>u. rbind (u64 1) (\<lambda>len.
                   rbind (opt_arg (parse_window_u64 L) 2 args) (\<lambda>delay. Inr (Some (SlidingTime u len delay))))))
         else if n = ''countwindow'' then
           (if k \<noteq> 1 \<and> k \<noteq> 2 then wrong_count ''COUNTWINDOW expects 1 or 2 arguments (size[, interval])'' args
            else rbind (parse_window_usize L (args ! 0)) (\<lambda>sz.
                   rbind (opt_arg (parse_window_usize L) 1 args) (\<lambda>iv. Inr (Some (Count sz iv)))))
         else if n = ''sessionwindow'' then
           (if k \<noteq> 3 then wrong_count ''SESSIONWINDOW expects 3 arguments (unit, maxDuration, timeout)'' args
            else rbind unit (\<lambda>u. rbind (u64 1) (\<lambda>dur. rbind (u64 2) (\<lambda>tmo.
                   if dur = 0 \<or> tmo = 0 then Inl ''SESSIONWINDOW maxDuration and timeout must be positive''
                   else Inr (Some (Session u dur tmo))))))
         else Inr None)"

definition try_parse_window_def :: "lexer \<Rightarrow> expr \<Rightarrow> string + window_def option" where
  "try_parse_window_def L e = (case call_of e of None \<Rightarrow> Inr None | Some (name, args) \<Rightarrow> window_call L name args)"

subsection \<open>Fields of a selection\<close>

definition replace_item :: "lexer \<Rightarrow> string \<Rightarrow> (expr \<times> string) pres" where
  "replace_item L s =
     pbind (parse_expr L s) (\<lambda>e r.
     pbind (expect_keyword L ''AS'' (skip_ws r)) (\<lambda>_ r.
     pmap (Pair e) (parse_column_identifier L (skip_ws r))))"

text \<open>A list in parentheses, at least one item.\<close>

definition paren_items :: "(string \<Rightarrow> 'a pres) \<Rightarrow> string \<Rightarrow> 'a list pres" where
  "paren_items item s =
     pbind (expect_char CHR ''('' (skip_ws s)) (\<lambda>_ r. closed_by CHR '')'' (items (Suc (length r)) item [] r))"

fun star_loop :: "nat \<Rightarrow> lexer \<Rightarrow> string list \<Rightarrow> (expr \<times> string) list \<Rightarrow> bool \<Rightarrow> string \<Rightarrow> expr pres" where
  "star_loop 0 L except replace modified s = POut"
| "star_loop (Suc n) L except replace modified s =
     (let t = skip_ws s
      in if peek_word_is L ''EXCEPT'' t then
           pbind (paren_items (parse_column_identifier L) (snd (match_keyword L ''EXCEPT'' t))) (\<lambda>cols r.
             star_loop n L (except @ cols) replace True r)
         else if peek_word_is L ''REPLACE'' t then
           pbind (paren_items (replace_item L) (snd (match_keyword L ''REPLACE'' t))) (\<lambda>reps r.
             star_loop n L except (replace @ reps) True r)
         else POk (if modified then WildcardModified except replace else Wildcard) t)"

definition NOT_ALIAS :: "string list" where
  "NOT_ALIAS = [''FROM'', ''WHERE'', ''AND'', ''OR'']"

definition field_alias :: "lexer \<Rightarrow> string \<Rightarrow> string option pres" where
  "field_alias L s =
     (let t = skip_ws s
      in if peek_word_is L ''AS'' t then
           (let u = skip_ws (snd (match_keyword L ''AS'' t))
            in if starts_char CHR 0x60 u then pmap Some (parse_backtick_identifier u)
               else (case peek_word L u of
                       Some name \<Rightarrow> if list_ex (eq_ignore_case name) NOT_ALIAS then POk None u else POk (Some name) (drop (length name) u)
                     | None \<Rightarrow> POk None u))
         else if starts_char CHR 0x60 t then pmap Some (parse_backtick_identifier t)
         else POk None t)"

definition select_item :: "lexer \<Rightarrow> string \<Rightarrow> (expr \<times> string option) pres" where
  "select_item L s =
     (if starts_char CHR ''*'' s then pmap (\<lambda>e. (e, None)) (star_loop (Suc (length (tl s))) L [] [] False (tl s))
      else if peek_word_is L ''FROM'' s then PErr ''Unexpected FROM in select field list''
      else pbind (parse_expr L s) (\<lambda>e r. pmap (Pair e) (field_alias L r)))"

subsection \<open>Sources\<close>

definition RESERVED :: "string list" where
  "RESERVED =
     [''WHERE'', ''GROUP'', ''ORDER'', ''LIMIT'', ''HAVING'', ''JOIN'', ''INNER'', ''LEFT'', ''RIGHT'', ''FULL'', ''CROSS'',
      ''OUTER'', ''ASOF'', ''ON'', ''UNION'', ''ALL'', ''SELECT'', ''FROM'', ''AS'', ''DESC'', ''ASC'', ''OVER'', ''PARTITION'',
      ''BY'', ''BETWEEN'', ''IN'', ''LIKE'', ''IS'', ''NOT'', ''NULL'', ''AND'', ''OR'', ''CASE'', ''WHEN'', ''THEN'', ''ELSE'', ''END'']"

definition parse_optional_alias :: "lexer \<Rightarrow> string \<Rightarrow> string option pres" where
  "parse_optional_alias L s =
     (case match_keyword L ''AS'' (skip_ws s) of
        (True, r) \<Rightarrow>
          (let u = skip_ws r
           in if starts_char CHR 0x60 u then pmap Some (parse_backtick_identifier u)
              else pmap Some (take_word L ''Expected alias after AS'' u))
      | (False, t) \<Rightarrow>
          if starts_char CHR 0x60 t then pmap Some (parse_backtick_identifier t)
          else (case peek_word L t of
                  Some w \<Rightarrow> if list_ex (eq_ignore_case w) RESERVED then POk None t else POk (Some w) (drop (length w) (skip_ws t))
                | None \<Rightarrow> POk None t))"

text \<open>The word before \<open>JOIN\<close>, and what it makes of the join.\<close>

definition join_prefix :: "lexer \<Rightarrow> string \<Rightarrow> string option \<times> string" where
  "join_prefix L s =
     (case peek_word L s of
        Some w \<Rightarrow>
          (case find (eq_ignore_case w) [''LEFT'', ''RIGHT'', ''FULL'', ''CROSS'', ''INNER'', ''ASOF''] of
             Some p \<Rightarrow> (Some p, drop (length w) (skip_ws s))
           | None \<Rightarrow> (None, s))
      | None \<Rightarrow> (None, s))"

definition join_type_of :: "string option \<Rightarrow> bool \<Rightarrow> join_type" where
  "join_type_of pfx is_asof =
     (if pfx = Some ''LEFT'' then (if is_asof then LeftAsof else Left)
      else if pfx = Some ''RIGHT'' then Right
      else if pfx = Some ''FULL'' then Full
      else if pfx = Some ''CROSS'' then Cross
      else if pfx = Some ''ASOF'' then Asof else Inner)"

definition skip_keyword :: "lexer \<Rightarrow> string \<Rightarrow> string \<Rightarrow> string" where
  "skip_keyword L kw s = (if peek_word_is L kw s then snd (match_keyword L kw s) else s)"

text \<open>The header of a join, when one follows; otherwise the input stays where it is.\<close>

definition join_header :: "lexer \<Rightarrow> string \<Rightarrow> (join_type \<times> string) option" where
  "join_header L s =
     (case join_prefix L s of
        (pfx, r) \<Rightarrow>
          let left_asof = (pfx = Some ''LEFT'' \<and> peek_word_is L ''ASOF'' r);
              r1 = (if left_asof then snd (match_keyword L ''ASOF'' r) else r);
              r2 = skip_keyword L ''OUTER'' r1
          in (case match_keyword L ''JOIN'' r2 of
                (True, r3) \<Rightarrow> Some (join_type_of pfx (left_asof \<or> pfx = Some ''ASOF''), r3)
              | (False, _) \<Rightarrow> None))"

definition NOT_TARGET :: "string list" where
  "NOT_TARGET = [''WHERE'', ''GROUP'', ''ORDER'', ''LIMIT'', ''HAVING'', ''JOIN'', ''ON'', ''ASOF'']"

definition join_target :: "lexer \<Rightarrow> string \<Rightarrow> string pres" where
  "join_target L s =
     (case peek_word L s of
        Some t \<Rightarrow>
          if list_ex (eq_ignore_case t) NOT_TARGET then PErr (''Expected join target after JOIN, found '' @ quote_text t)
          else POk t (drop (length t) (skip_ws s))
      | None \<Rightarrow> PErr ''Expected join target after JOIN'')"

text \<open>A clause of one expression behind its keyword.\<close>

definition opt_clause :: "lexer \<Rightarrow> string \<Rightarrow> string \<Rightarrow> expr option pres" where
  "opt_clause L kw s =
     (case match_keyword L kw s of (True, r) \<Rightarrow> pmap Some (parse_expr L r) | (False, r) \<Rightarrow> POk None r)"

fun join_loop :: "nat \<Rightarrow> lexer \<Rightarrow> join_clause list \<Rightarrow> string \<Rightarrow> join_clause list pres" where
  "join_loop 0 L acc s = POut"
| "join_loop (Suc n) L acc s =
     (case join_header L s of
        None \<Rightarrow> POk acc s
      | Some (jt, r) \<Rightarrow>
          pbind (join_target L r) (\<lambda>target r.
          pbind (parse_optional_alias L r) (\<lambda>alias r.
          pbind (opt_clause L ''ON'' r) (\<lambda>on r.
            join_loop n L (acc @ [\<lparr>jc_type = jt, jc_target = target, jc_alias = alias, jc_on = on\<rparr>]) r))))"

subsection \<open>Grouping and windows\<close>

record group_acc =
  ga_group :: "expr list"
  ga_window :: "window_def option"
  ga_filter :: "expr option"
  ga_trigger :: "expr option"
  ga_partition :: "expr option"

definition no_groups :: group_acc where
  "no_groups = \<lparr>ga_group = [], ga_window = None, ga_filter = None, ga_trigger = None, ga_partition = None\<rparr>"

definition keep_first :: "'a option \<Rightarrow> 'a option \<Rightarrow> 'a option" where
  "keep_first x y = (case x of None \<Rightarrow> y | Some a \<Rightarrow> Some a)"

definition note_over :: "expr \<Rightarrow> group_acc \<Rightarrow> group_acc" where
  "note_over e g =
     (case e of
        Over _ part cond \<Rightarrow> g\<lparr>ga_partition := keep_first (ga_partition g) part, ga_trigger := keep_first (ga_trigger g) cond\<rparr>
      | _ \<Rightarrow> g)"

fun window_over_loop :: "nat \<Rightarrow> lexer \<Rightarrow> group_acc \<Rightarrow> string \<Rightarrow> group_acc pres" where
  "window_over_loop 0 L g s = POut"
| "window_over_loop (Suc n) L g s =
     (let t = skip_ws s
      in if peek_word_is L ''WHEN'' t then
           pbind (parse_expr L (snd (match_keyword L ''WHEN'' t))) (\<lambda>e r. window_over_loop n L (g\<lparr>ga_trigger := Some e\<rparr>) r)
         else if peek_word_is L ''PARTITION'' t then
           pbind (expect_keyword L ''BY'' (snd (match_keyword L ''PARTITION'' t))) (\<lambda>_ r.
           pbind (parse_expr L r) (\<lambda>e r. window_over_loop n L (g\<lparr>ga_partition := Some e\<rparr>) r))
         else POk g t)"

definition window_filter_clause :: "lexer \<Rightarrow> string \<Rightarrow> expr pres" where
  "window_filter_clause L s =
     pbind (expect_char CHR ''('' s) (\<lambda>_ r.
     pbind (expect_keyword L ''WHERE'' r) (\<lambda>_ r. closed_by CHR '')'' (parse_expr L r)))"

definition window_over_clause :: "lexer \<Rightarrow> group_acc \<Rightarrow> string \<Rightarrow> group_acc pres" where
  "window_over_clause L g s =
     pbind (expect_char CHR ''('' s) (\<lambda>_ r. closed_by CHR '')'' (window_over_loop (Suc (length r)) L g r))"

fun window_tail :: "nat \<Rightarrow> lexer \<Rightarrow> group_acc \<Rightarrow> string \<Rightarrow> group_acc pres" where
  "window_tail 0 L g s = POut"
| "window_tail (Suc n) L g s =
     (let t = skip_ws s
      in if peek_word_is L ''FILTER'' t then
           pbind (window_filter_clause L (snd (match_keyword L ''FILTER'' t))) (\<lambda>e r. window_tail n L (g\<lparr>ga_filter := Some e\<rparr>) r)
         else if peek_word_is L ''OVER'' t then
           pbind (window_over_clause L g (snd (match_keyword L ''OVER'' t))) (\<lambda>g' r. window_tail n L g' r)
         else POk g t)"

definition group_item :: "lexer \<Rightarrow> group_acc \<Rightarrow> string \<Rightarrow> group_acc pres" where
  "group_item L g s =
     pbind (parse_expr L (skip_ws s)) (\<lambda>e r.
       let g1 = note_over e g
       in pbind (lift_result (try_parse_window_def L e) r) (\<lambda>w r.
            case w of
              Some d \<Rightarrow> window_tail (Suc (length r)) L (g1\<lparr>ga_window := Some d\<rparr>) r
            | None \<Rightarrow> POk (g1\<lparr>ga_group := ga_group g1 @ [e]\<rparr>) r))"

fun group_loop :: "nat \<Rightarrow> lexer \<Rightarrow> group_acc \<Rightarrow> string \<Rightarrow> group_acc pres" where
  "group_loop 0 L g s = POut"
| "group_loop (Suc n) L g s =
     pbind (group_item L g s) (\<lambda>g' r.
       let u = skip_ws r in if starts_char CHR '','' u then group_loop n L g' (tl u) else POk g' u)"

definition group_clause :: "lexer \<Rightarrow> string \<Rightarrow> group_acc pres" where
  "group_clause L s =
     (if peek_word_is L ''GROUP'' s then
        pbind (expect_keyword L ''GROUP'' s) (\<lambda>_ r.
        pbind (expect_keyword L ''BY'' r) (\<lambda>_ r. group_loop (Suc (length r)) L no_groups r))
      else POk no_groups s)"

subsection \<open>The statement\<close>

definition order_item :: "lexer \<Rightarrow> string \<Rightarrow> order_by_item pres" where
  "order_item L s =
     pbind (parse_expr L s) (\<lambda>e r.
       if peek_word_is L ''DESC'' r then POk \<lparr>ob_expr = e, ob_order = Desc\<rparr> (snd (match_keyword L ''DESC'' r))
       else POk \<lparr>ob_expr = e, ob_order = Asc\<rparr> (skip_keyword L ''ASC'' r))"

definition order_clause :: "lexer \<Rightarrow> string \<Rightarrow> order_by_item list pres" where
  "order_clause L s =
     (case match_keyword L ''ORDER'' s of
        (True, r) \<Rightarrow> pbind (expect_keyword L ''BY'' r) (\<lambda>_ r. items (Suc (length r)) (order_item L) [] r)
      | (False, r) \<Rightarrow> POk [] r)"

definition limit_clause :: "lexer \<Rightarrow> string \<Rightarrow> nat option pres" where
  "limit_clause L s =
     (case match_keyword L ''LIMIT'' s of
        (True, r) \<Rightarrow>
          pbind (take_word L ''Expected integer after LIMIT'' r) (\<lambda>token r.
            case parse_u64 token of
              Some n \<Rightarrow> POk (Some (nat n)) r
            | None \<Rightarrow> PErr (''Expected integer after LIMIT, found '' @ quote_text token))
      | (False, r) \<Rightarrow> POk None r)"

definition set_tail :: "lexer \<Rightarrow> (string \<Rightarrow> select_stmt pres) \<Rightarrow> string \<Rightarrow> (set_op \<times> select_stmt) option pres" where
  "set_tail L sub s =
     (let t = skip_ws s; u = (if starts_char CHR '';'' t then tl t else t)
      in case match_keyword L ''UNION'' u of
           (True, r) \<Rightarrow> (case match_keyword L ''ALL'' r of
                          (all, r) \<Rightarrow> pmap (\<lambda>st. Some (if all then UnionAll else Union, st)) (sub r))
         | (False, r) \<Rightarrow> POk None r)"

definition select_with :: "lexer \<Rightarrow> (string \<Rightarrow> select_stmt pres) \<Rightarrow> string \<Rightarrow> select_stmt pres" where
  "select_with L sub s =
     pbind (expect_keyword L ''SELECT'' s) (\<lambda>_ r.
     pbind (items (Suc (length r)) (select_item L) [] r) (\<lambda>fs r.
     pbind (expect_keyword L ''FROM'' r) (\<lambda>_ r.
     pbind (take_word L ''Expected stream name after FROM'' r) (\<lambda>src r.
     pbind (parse_optional_alias L r) (\<lambda>src_alias r.
     pbind (join_loop (Suc (length r)) L [] r) (\<lambda>js r.
     pbind (opt_clause L ''WHERE'' r) (\<lambda>cond r.
     pbind (group_clause L r) (\<lambda>g r.
     pbind (opt_clause L ''HAVING'' r) (\<lambda>hav r.
     pbind (order_clause L r) (\<lambda>ord r.
     pbind (limit_clause L r) (\<lambda>lim r.
     pbind (set_tail L sub r) (\<lambda>so r.
       POk (SelectStmt (map fst fs) (map snd fs) src src_alias js cond (ga_group g) (ga_window g) (ga_filter g)
              (ga_trigger g) (ga_partition g) hav ord lim so) r))))))))))))"

fun select_at :: "nat \<Rightarrow> lexer \<Rightarrow> string \<Rightarrow> select_stmt pres" where
  "select_at 0 L s = POut"
| "select_at (Suc n) L s = select_with L (select_at n L) s"

definition parse_select :: "lexer \<Rightarrow> string \<Rightarrow> select_stmt pres" where
  "parse_select L s = select_at (Suc (length s)) L s"

end
