(* ===== verification/ParserStmt_Total.thy ===== *)
theory ParserStmt_Total
  imports Parser_Total ParserStmt
begin

text \<open>
  The statement parser returns: a result, an error, or a panic on text that is not ASCII.
\<close>

lemma runs_pmap: "runs b s p \<Longrightarrow> runs b s (pmap f p)"
  unfolding pmap_def by (cases p) auto

lemma runs_lift: "runs False s (lift_result x s)"
  by (cases x) (auto simp: lift_result_def)

subsection \<open>Fields\<close>

lemma runs_replace_item: "runs True s (replace_item L s)"
  unfolding replace_item_def
  by (rule runs_first[OF runs_expr], rule runs_skip, rule runs_first[OF runs_keyword], rule runs_skip)
    (intro runs_pmap runs_False[OF runs_column])

lemma runs_all_items: "(\<And>t. runs True t (item t)) \<Longrightarrow> runs True r (items (Suc (length r)) item acc r)"
  by (rule runs_items[of "length r"]) auto

lemma runs_paren_items:
  assumes "\<And>t. runs True t (item t)"
  shows "runs True s (paren_items item s)"
  unfolding paren_items_def
  by (rule runs_skip, rule runs_first[OF runs_char], rule runs_False[OF runs_closed_by], rule runs_False[OF runs_all_items[OF assms]])

lemma runs_past_keyword: "runs b (snd (match_keyword L kw t)) p \<Longrightarrow> runs b t p"
  by (erule runs_mono) (auto intro: match_snd)

lemma runs_star_loop: "length s < n \<Longrightarrow> runs False s (star_loop n L ex rp modified s)"
proof (induction n arbitrary: s ex rp modified)
  case (Suc n)
  let ?t = "skip_ws s"
  have t: "length ?t \<le> length s" by (rule skip_ws_length)
  have step: "runs False ?t (pbind (paren_items item (snd (match_keyword L kw ?t))) f)"
    if "peek_word_is L kw ?t" "\<And>t. runs True t (item t)" "\<And>a r. length r < length s \<Longrightarrow> runs False r (f a r)"
    for kw f and item :: "string \<Rightarrow> 'b pres"
    by (rule runs_past_keyword, rule runs_first[OF runs_paren_items[OF that(2)]], rule that(3))
      (use match_snd(2)[OF that(1)] t in linarith)
  show ?case
    unfolding star_loop.simps Let_def
    using step[of "''EXCEPT''"] step[of "''REPLACE''"] Suc
    by (intro runs_skip[of _ s]) (auto simp del: peek_skip intro!: step intro: runs_column runs_replace_item)
qed simp

lemma runs_field_alias: "runs False s (field_alias L s)"
proof -
  have word: "runs False u (case peek_word L u of
       Some name \<Rightarrow> if list_ex (eq_ignore_case name) NOT_ALIAS then POk None u else POk (Some name) (drop (length name) u)
     | None \<Rightarrow> POk None u)" for u
    by (auto simp: suffix_drop split: option.splits)
  have bt: "runs False u (pmap Some (parse_backtick_identifier u))" for u by (rule runs_pmap[OF runs_False[OF runs_backtick]])
  let ?t = "skip_ws s" let ?u = "skip_ws (snd (match_keyword L ''AS'' ?t))"
  have after: "runs False ?t p" if "runs False ?u p" for p :: "string option pres"
    by (rule runs_past_keyword[of _ L "''AS''"], rule runs_skip, rule that)
  show ?thesis
    unfolding field_alias_def Let_def
    by (rule runs_skip) (use after[OF word] after[OF bt] bt[of ?t] in \<open>simp del: peek_skip\<close>)
qed

lemma runs_select_item: "runs True s (select_item L s)"
proof -
  have "runs True s (pmap f (star_loop (Suc (length (tl s))) L [] [] False (tl s)))" if "starts_char CHR ''*'' s"
    for f :: "expr \<Rightarrow> expr \<times> string option"
    using starts_char_tl[OF that] by (intro runs_pmap runs_mono[OF runs_star_loop suffix_tl]) auto
  moreover have "runs True s (pbind (parse_expr L s) (\<lambda>e r. pmap (Pair e) (field_alias L r)))"
    by (rule runs_first[OF runs_expr], rule runs_pmap[OF runs_field_alias])
  ultimately show ?thesis by (auto simp: select_item_def simp del: star_loop.simps)
qed

subsection \<open>Sources\<close>

lemma runs_match:
  assumes "\<And>r. runs False r (f True r)" "\<And>r. runs False r (f False r)"
  shows "runs False s (case match_keyword L kw s of (b, r) \<Rightarrow> f b r)"
proof (cases "match_keyword L kw s")
  case (Pair b r)
  then have "suffix r s" using match_True[of L kw s r] match_False[of L kw s r] by (cases b) auto
  then show ?thesis using Pair assms by (cases b) (auto intro: runs_mono)
qed

lemma peeked: "peek_word L t = Some w \<Longrightarrow> suffix (drop (length w) (skip_ws t)) t"
  by (rule peek_word_Some)

lemma runs_optional_alias: "runs False s (parse_optional_alias L s)"
proof -
  have "runs False r (let u = skip_ws r in if starts_char CHR 0x60 u then pmap Some (parse_backtick_identifier u)
      else pmap Some (take_word L ''Expected alias after AS'' u))" for r
    unfolding Let_def by (rule runs_skip) (auto intro: runs_pmap runs_False runs_intro)
  moreover have "runs False t (if starts_char CHR 0x60 t then pmap Some (parse_backtick_identifier t)
      else (case peek_word L t of
              Some w \<Rightarrow> if list_ex (eq_ignore_case w) RESERVED then POk None t else POk (Some w) (drop (length w) (skip_ws t))
            | None \<Rightarrow> POk None t))" for t
    using peeked[of L t] by (auto intro!: runs_pmap runs_False[OF runs_backtick] split: option.split)
  ultimately show ?thesis unfolding parse_optional_alias_def
    by (intro runs_skip[of False s] runs_match) (auto simp: case_prod_beta split: bool.split)
qed

lemma runs_opt_clause: "runs False s (opt_clause L kw s)"
  unfolding opt_clause_def by (rule runs_match) (auto intro: runs_pmap runs_False[OF runs_expr])

lemma skip_keyword_suffix: "suffix (skip_keyword L kw s) s"
  by (simp add: skip_keyword_def match_snd)

lemma join_prefix_suffix: "join_prefix L s = (p, r) \<Longrightarrow> suffix r s"
  using peek_word_Some(2) by (auto simp: join_prefix_def split: option.splits)

lemma join_header_Some: "join_header L s = Some (jt, r) \<Longrightarrow> suffix r s \<and> length r < length s"
proof -
  assume j: "join_header L s = Some (jt, r)"
  obtain p q where p: "join_prefix L s = (p, q)" by fastforce
  let ?r1 = "if p = Some ''LEFT'' \<and> peek_word_is L ''ASOF'' q then snd (match_keyword L ''ASOF'' q) else q"
  have "match_keyword L ''JOIN'' (skip_keyword L ''OUTER'' ?r1) = (True, r)"
    using j p by (auto simp: join_header_def Let_def split: prod.splits bool.splits if_splits)
  from match_True[OF this] have "suffix r (skip_keyword L ''OUTER'' ?r1)" "length r < length (skip_keyword L ''OUTER'' ?r1)" by auto
  moreover have "suffix ?r1 q" using match_snd(1)[of L "''ASOF''" q] by simp
  then have "suffix (skip_keyword L ''OUTER'' ?r1) s"
    by (rule suffix_order.trans[OF skip_keyword_suffix suffix_order.trans[OF _ join_prefix_suffix[OF p]]])
  ultimately show ?thesis
    using suffix_order.trans[of r "skip_keyword L ''OUTER'' ?r1" s] suffix_length_le[of "skip_keyword L ''OUTER'' ?r1" s] by linarith
qed

lemma runs_join_target: "runs True s (join_target L s)"
  using peek_word_Some by (auto simp: join_target_def split: option.splits)

lemma runs_join_loop: "length s < n \<Longrightarrow> runs False s (join_loop n L acc s)"
proof (induction n arbitrary: s acc)
  case (Suc n)
  show ?case
  proof (cases "join_header L s")
    case (Some h)
    then obtain jt r where h: "join_header L s = Some (jt, r)" by (cases h) auto
    have r: "suffix r s" "length r < length s" using join_header_Some[OF h] by auto
    have "runs False r (pbind (join_target L r) (\<lambda>target r. pbind (parse_optional_alias L r) (\<lambda>alias r.
          pbind (opt_clause L ''ON'' r) (\<lambda>on r. join_loop n L (acc @ [\<lparr>jc_type = jt, jc_target = target, jc_alias = alias, jc_on = on\<rparr>]) r))))"
      by (rule runs_first[OF runs_join_target], rule runs_then[OF runs_optional_alias], rule runs_then[OF runs_opt_clause], rule Suc.IH)
        (use r(2) Suc.prems in linarith)
    then show ?thesis using h r(1) by (auto intro: runs_mono)
  qed simp
qed simp

subsection \<open>Grouping\<close>

text \<open>The step of a loop behind a keyword.\<close>

lemma runs_keyword_step:
  assumes "peek_word_is L kw (skip_ws s)" "\<And>t. runs True t (p t)" "\<And>a r. length r < length s \<Longrightarrow> runs False r (f a r)"
  shows "runs False (skip_ws s) (pbind (p (snd (match_keyword L kw (skip_ws s)))) f)"
  by (rule runs_past_keyword, rule runs_first[OF assms(2)], rule assms(3))
    (use match_snd(2)[OF assms(1)] skip_ws_length[of s] in linarith)

lemma runs_window_over_loop: "length s < n \<Longrightarrow> runs False s (window_over_loop n L g s)"
proof (induction n arbitrary: s g)
  case (Suc n)
  have IH: "runs False r (window_over_loop n L g r)" if "length r < length s" for r g using Suc that by simp
  have part: "runs False r (pbind (parse_expr L r) (\<lambda>e r. window_over_loop n L (g\<lparr>ga_partition := Some e\<rparr>) r))" if "length r < length s" for r
    by (rule runs_first[OF runs_expr], rule IH) (use that in linarith)
  have "runs False (skip_ws s) (pbind (parse_expr L (snd (match_keyword L ''WHEN'' (skip_ws s)))) (\<lambda>e r. window_over_loop n L (g\<lparr>ga_trigger := Some e\<rparr>) r))"
    if "peek_word_is L ''WHEN'' (skip_ws s)" by (rule runs_keyword_step[OF that runs_expr IH])
  moreover have "runs False (skip_ws s) (pbind (expect_keyword L ''BY'' (snd (match_keyword L ''PARTITION'' (skip_ws s)))) (\<lambda>_ r.
      pbind (parse_expr L r) (\<lambda>e r. window_over_loop n L (g\<lparr>ga_partition := Some e\<rparr>) r)))"
    if "peek_word_is L ''PARTITION'' (skip_ws s)" by (rule runs_keyword_step[OF that runs_keyword part])
  ultimately show ?case unfolding window_over_loop.simps Let_def by (intro runs_skip[of _ s]) (auto simp del: peek_skip)
qed simp

lemma runs_window_clauses:
  "runs True s (window_filter_clause L s)" "runs True s (window_over_clause L g s)"
proof -
  show "runs True s (window_filter_clause L s)"
    unfolding window_filter_clause_def
    by (rule runs_first[OF runs_char], rule runs_first[OF runs_keyword], rule runs_False[OF runs_closed_by], rule runs_False[OF runs_expr])
  show "runs True s (window_over_clause L g s)"
    unfolding window_over_clause_def
    by (rule runs_first[OF runs_char], rule runs_False[OF runs_closed_by], rule runs_window_over_loop) simp
qed

lemma runs_window_tail: "length s < n \<Longrightarrow> runs False s (window_tail n L g s)"
proof (induction n arbitrary: s g)
  case (Suc n)
  have IH: "runs False r (window_tail n L g r)" if "length r < length s" for r g using Suc that by simp
  have "runs False (skip_ws s) (pbind (window_filter_clause L (snd (match_keyword L ''FILTER'' (skip_ws s)))) (\<lambda>e r. window_tail n L (g\<lparr>ga_filter := Some e\<rparr>) r))"
    if "peek_word_is L ''FILTER'' (skip_ws s)" by (rule runs_keyword_step[OF that runs_window_clauses(1) IH])
  moreover have "runs False (skip_ws s) (pbind (window_over_clause L g (snd (match_keyword L ''OVER'' (skip_ws s)))) (\<lambda>g' r. window_tail n L g' r))"
    if "peek_word_is L ''OVER'' (skip_ws s)" by (rule runs_keyword_step[OF that runs_window_clauses(2) IH])
  ultimately show ?case unfolding window_tail.simps Let_def by (intro runs_skip[of _ s]) (auto simp del: peek_skip)
qed simp

lemma runs_group_item: "runs True s (group_item L g s)"
  unfolding group_item_def Let_def
proof (rule runs_skip, rule runs_first[OF runs_expr], rule runs_then[OF runs_lift])
  fix e w and r :: string
  show "runs False r (case w of Some d \<Rightarrow> window_tail (Suc (length r)) L ((note_over e g)\<lparr>ga_window := Some d\<rparr>) r
      | None \<Rightarrow> POk ((note_over e g)\<lparr>ga_group := ga_group (note_over e g) @ [e]\<rparr>) r)"
    using runs_window_tail[of r "Suc (length r)" L] by (auto simp del: window_tail.simps split: option.split)
qed

lemma runs_group_loop: "length s < n \<Longrightarrow> runs False s (group_loop n L g s)"
proof (induction n arbitrary: s g)
  case (Suc n)
  show ?case unfolding group_loop.simps
  proof (rule runs_first[OF runs_group_item])
    fix g' and r :: string assume r: "length r < length s"
    have "runs False r (group_loop n L g' (tl (skip_ws r)))" if "starts_char CHR '','' (skip_ws r)"
      by (rule runs_mono[OF Suc.IH tl_skip(1)]) (use tl_skip(2)[OF that] r Suc.prems in \<open>linarith | simp\<close>)+
    then show "runs False r (let u = skip_ws r in if starts_char CHR '','' u then group_loop n L g' (tl u) else POk g' u)"
      by (auto simp: Let_def)
  qed
qed simp

lemma runs_group_clause: "runs False s (group_clause L s)"
proof -
  have "runs False s (pbind (expect_keyword L ''GROUP'' s) (\<lambda>_ r.
        pbind (expect_keyword L ''BY'' r) (\<lambda>_ r. group_loop (Suc (length r)) L no_groups r)))"
    by (rule runs_first[OF runs_keyword], rule runs_first[OF runs_keyword], rule runs_group_loop) simp
  then show ?thesis by (auto simp: group_clause_def simp del: group_loop.simps)
qed

subsection \<open>The statement\<close>

lemma runs_order_item: "runs True s (order_item L s)"
  unfolding order_item_def
  by (rule runs_first[OF runs_expr]) (auto simp: match_snd skip_keyword_suffix)

lemma runs_order_clause: "runs False s (order_clause L s)"
proof -
  have "runs False r (pbind (expect_keyword L ''BY'' r) (\<lambda>_ r. items (Suc (length r)) (order_item L) [] r))" for r
    by (rule runs_first[OF runs_keyword], rule runs_False[OF runs_all_items[OF runs_order_item]])
  then show ?thesis unfolding order_clause_def by (intro runs_match) (auto simp del: items.simps)
qed

lemma runs_limit_clause: "runs False s (limit_clause L s)"
proof -
  have "runs False r (pbind (take_word L ''Expected integer after LIMIT'' r) (\<lambda>token r. case parse_u64 token of
      Some n \<Rightarrow> POk (Some (nat n)) r | None \<Rightarrow> PErr (''Expected integer after LIMIT, found '' @ quote_text token)))" for r
    by (rule runs_first[OF runs_take_word]) (auto split: option.split)
  then show ?thesis unfolding limit_clause_def by (intro runs_match) auto
qed

lemma runs_set_tail:
  assumes "\<And>t. length t \<le> length s \<Longrightarrow> runs False t (sub t)"
  shows "runs False s (set_tail L sub s)"
proof -
  let ?t = "skip_ws s" let ?u = "if starts_char CHR '';'' ?t then tl ?t else ?t"
  have u: "suffix ?u s" "length ?u \<le> length s" using tl_skip(1)[of s] suffix_length_le[of ?u s] by auto
  obtain b r where m: "match_keyword L ''UNION'' ?u = (b, r)" by fastforce
  have r: "suffix r ?u" using match_True[of L _ ?u r] match_False[of L _ ?u r] m by (cases b) auto
  obtain b' q where m': "match_keyword L ''ALL'' r = (b', q)" by fastforce
  have q: "suffix q r" using match_True[of L _ r q] match_False[of L _ r q] m' by (cases b') auto
  have "length q \<le> length s" using u(2) suffix_length_le[OF r] suffix_length_le[OF q] by linarith
  then have sub: "runs False q (pmap f (sub q))" for f :: "select_stmt \<Rightarrow> (set_op \<times> select_stmt) option" by (intro runs_pmap assms)
  have rs: "suffix r s" "suffix q s" using suffix_order.trans[OF r u(1)] suffix_order.trans[OF q] by auto
  have "runs False s (pmap f (sub q))" for f :: "select_stmt \<Rightarrow> (set_op \<times> select_stmt) option"
    by (rule runs_mono[OF sub rs(2)]) simp
  then show ?thesis unfolding set_tail_def Let_def m using m' rs(1) by (cases b) auto
qed

lemma eats_select:
  assumes "eats m sub"
  shows "eats (Suc m) (select_with L sub)"
  unfolding eats_def
proof (intro allI impI)
  fix s :: string assume s: "length s < Suc m"
  have sub: "runs False t (sub t)" if "length t < length s" for t by (rule runs_False[OF eatsD[OF assms]]) (use s that in linarith)
  have fs: "runs True r (items (Suc (length r)) (select_item L) [] r)" for r
    by (rule runs_all_items[OF runs_select_item])
  have js: "runs False r (join_loop (Suc (length r)) L [] r)" for r by (rule runs_join_loop) simp
  have tail: "runs False r (pbind (set_tail L sub r) (\<lambda>so r. POk (f so) r))"
    if "length r < length s" for r and f :: "(set_op \<times> select_stmt) option \<Rightarrow> select_stmt"
    by (rule runs_then[OF runs_set_tail[OF sub]]) (use that in auto)
  show "runs True s (select_with L sub s)"
    unfolding select_with_def
    by (rule runs_first[OF runs_keyword], rule runs_first[OF fs], rule runs_first[OF runs_keyword], rule runs_first[OF runs_take_word],
        rule runs_then[OF runs_optional_alias], rule runs_then[OF js], rule runs_then[OF runs_opt_clause],
        rule runs_then[OF runs_group_clause], rule runs_then[OF runs_opt_clause], rule runs_then[OF runs_order_clause],
        rule runs_then[OF runs_limit_clause], rule tail, linarith)
qed

lemma eats_select_at: "eats n (select_at n L)"
  by (induction n) (simp_all add: eats_def eats_select[unfolded eats_def])

lemma runs_select: "runs True s (parse_select L s)"
  unfolding parse_select_def by (rule eatsD[OF eats_select_at]) simp

end
