(* ===== verification/ParserDdl.thy ===== *)
theory ParserDdl
  imports ParserStmt
begin

text \<open>
  The definitions of streams and tables (\<open>parse_create_stream\<close>, \<open>parse_create_table\<close>): the list of
  columns with their types and defaults, the types that are supported, and the options of \<open>WITH\<close>.
  The scans go over bytes: the characters they look for are ASCII, and a byte of a longer character
  is none of them.
\<close>

record stream_column =
  sc_name :: string
  sc_type :: string
  sc_default :: "string option"

record create_stmt =
  cr_name :: string
  cr_fields :: "stream_column list"
  cr_options :: "(string, string) fmap"

datatype quoting = Plain | InSingle | InDouble

definition quote_step :: "quoting \<Rightarrow> char \<Rightarrow> quoting" where
  "quote_step q c =
     (case q of
        InSingle \<Rightarrow> if c = CHR 0x27 then Plain else InSingle
      | InDouble \<Rightarrow> if c = CHR 0x22 then Plain else InDouble
      | Plain \<Rightarrow> if c = CHR 0x27 then InSingle else if c = CHR 0x22 then InDouble else Plain)"

text \<open>The text up to the parenthesis that closes the one already open, and what follows it.\<close>

fun until_close :: "nat \<Rightarrow> quoting \<Rightarrow> string \<Rightarrow> (string \<times> string) option" where
  "until_close d q [] = None"
| "until_close d q (c # cs) =
     (if q = Plain \<and> c = CHR '')'' \<and> d = 1 then Some ([], cs)
      else
        (let d' = (if q = Plain \<and> c = CHR ''('' then d + 1 else if q = Plain \<and> c = CHR '')'' then d - 1 else d)
         in map_option (apfst (Cons c)) (until_close d' (quote_step q c) cs)))"

subsection \<open>Options\<close>

fun split_pairs :: "quoting \<Rightarrow> string \<Rightarrow> string \<Rightarrow> string list" where
  "split_pairs q cur [] = (if str_trim cur = [] then [] else [cur])"
| "split_pairs q cur (c # cs) =
     (if q = Plain \<and> c = CHR '','' then cur # split_pairs q [] cs
      else split_pairs (quote_step q c) (cur @ [c]) cs)"

definition trim_matches :: "char set \<Rightarrow> string \<Rightarrow> string" where
  "trim_matches cs s = rev (dropWhile (\<lambda>c. c \<in> cs) (rev (dropWhile (\<lambda>c. c \<in> cs) s)))"

definition ends_with :: "string \<Rightarrow> string \<Rightarrow> bool" where
  "ends_with suf s \<longleftrightarrow> starts_with (rev suf) (rev s)"

definition split_once :: "char \<Rightarrow> string \<Rightarrow> (string \<times> string) option" where
  "split_once c s =
     (if c \<in> set s then Some (takeWhile (\<lambda>x. x \<noteq> c) s, tl (dropWhile (\<lambda>x. x \<noteq> c) s)) else None)"

definition unquote :: "string \<Rightarrow> string" where
  "unquote v =
     (if (starts_with [CHR 0x27] v \<and> ends_with [CHR 0x27] v \<or> starts_with [CHR 0x22] v \<and> ends_with [CHR 0x22] v)
         \<and> 2 \<le> length v
      then butlast (tl v) else v)"

definition add_option :: "lexer \<Rightarrow> (string, string) fmap \<Rightarrow> string \<Rightarrow> (string, string) fmap" where
  "add_option L opts part =
     (case split_once CHR ''='' (str_trim part) of
        None \<Rightarrow> opts
      | Some (k, v) \<Rightarrow>
          fmupd (lx_upper L (trim_matches {CHR 0x22, CHR 0x27, CHR 0x60} (str_trim k))) (unquote (str_trim v)) opts)"

definition parse_with_options :: "lexer \<Rightarrow> string \<Rightarrow> (string, string) fmap pres" where
  "parse_with_options L s =
     (case match_keyword L ''WITH'' s of
        (False, r) \<Rightarrow> POk fmempty r
      | (True, r) \<Rightarrow>
          (let t = skip_ws r
           in if \<not> starts_char CHR ''('' t then POk fmempty t
              else (case until_close 1 Plain (tl t) of
                      None \<Rightarrow> PErr ''Unclosed WITH parenthesis''
                    | Some (content, rest) \<Rightarrow> POk (foldl (add_option L) fmempty (split_pairs Plain [] content)) rest)))"

subsection \<open>Types\<close>

fun split_commas :: "nat \<Rightarrow> quoting \<Rightarrow> string \<Rightarrow> string \<Rightarrow> string list" where
  "split_commas d q cur [] = [cur]"
| "split_commas d q cur (c # cs) =
     (if q = Plain \<and> c = CHR '','' \<and> d = 0 then cur # split_commas d q [] cs
      else
        (let d' = (if q = Plain \<and> c = CHR ''('' then d + 1 else if q = Plain \<and> c = CHR '')'' then d - 1 else d)
         in split_commas d' (quote_step q c) (cur @ [c]) cs))"

definition split_top_level_commas :: "string \<Rightarrow> string list" where
  "split_top_level_commas s = split_commas 0 Plain [] s"

text \<open>The text before the first white-space character, and what follows that character.\<close>

definition white_at :: "string \<Rightarrow> string option" where
  "white_at s = find (\<lambda>p. p \<noteq> [] \<and> starts_with p s) WHITE"

fun before_white :: "string \<Rightarrow> string" where
  "before_white [] = []"
| "before_white (c # cs) = (if white_at (c # cs) = None then c # before_white cs else [])"

fun after_white :: "string \<Rightarrow> string option" where
  "after_white [] = None"
| "after_white (c # cs) =
     (case white_at (c # cs) of Some p \<Rightarrow> Some (drop (length p) (c # cs)) | None \<Rightarrow> after_white cs)"

definition PLAIN_TYPES :: "string list" where
  "PLAIN_TYPES =
     [''bigint'', ''int'', ''integer'', ''smallint'', ''tinyint'', ''float'', ''double'', ''real'', ''numeric'', ''decimal'',
      ''string'', ''text'', ''varchar'', ''char'', ''datetime'', ''timestamp'', ''date'', ''time'', ''boolean'', ''bool'',
      ''bytea'', ''binary'', ''blob'', ''array'', ''struct'', ''json'', ''object'', ''map'']"

definition all_digits :: "string \<Rightarrow> bool" where
  "all_digits s \<longleftrightarrow> s \<noteq> [] \<and> list_all is_digit s"

fun split_on :: "char \<Rightarrow> string \<Rightarrow> string \<Rightarrow> string list" where
  "split_on c cur [] = [cur]"
| "split_on c cur (x # xs) = (if x = c then cur # split_on c [] xs else split_on c (cur @ [x]) xs)"

definition parens_of :: "string \<Rightarrow> string" where
  "parens_of t = str_trim (butlast (tl (dropWhile (\<lambda>c. c \<noteq> CHR ''('') t)))"

definition wrapped :: "string \<Rightarrow> string \<Rightarrow> string \<Rightarrow> bool" where
  "wrapped pre suf t \<longleftrightarrow> starts_with pre t \<and> ends_with suf t"

lemma split_commas_length: "p \<in> set (split_commas d q cur s) \<Longrightarrow> length p \<le> length cur + length s"
  by (induction d q cur s rule: split_commas.induct) (fastforce simp: Let_def split: if_splits)+

lemma strip_left_length: "length (strip_left ps s) \<le> length s"
proof (induction ps s rule: strip_left.induct)
  case (1 ps s)
  show ?case
  proof (cases "find (\<lambda>p. p \<noteq> [] \<and> starts_with p s) ps")
    case (Some p)
    then show ?thesis using "1.IH"[OF Some] by (subst strip_left.simps) simp
  qed (simp add: strip_left.simps)
qed

lemma str_trim_length: "length (str_trim s) \<le> length s"
  unfolding str_trim_def using strip_left_length[of "map rev WHITE" "rev (strip_left WHITE s)"] strip_left_length[of WHITE s]
  by simp

lemma after_white_length: "after_white s = Some r \<Longrightarrow> length r \<le> length s"
  by (induction s rule: after_white.induct) (auto split: option.splits)

lemma shorter:
  assumes "t = to_ascii_lowercase (str_trim ty)" "t \<noteq> []"
  shows "length (str_trim (butlast (drop (Suc k) t))) < length ty" "length (str_trim (take (length t - 2) t)) < length ty"
proof -
  have t: "length t \<le> length ty" using str_trim_length[of ty] assms(1) by (simp add: to_ascii_lowercase_def)
  have pos: "0 < length t" using assms(2) by simp
  have "length (str_trim (butlast (drop (Suc k) t))) \<le> length t - Suc (Suc k)"
    using str_trim_length[of "butlast (drop (Suc k) t)"] by simp
  then show "length (str_trim (butlast (drop (Suc k) t))) < length ty" using t pos by linarith
  have "length (str_trim (take (length t - 2) t)) \<le> length t - 2"
    using str_trim_length[of "take (length t - 2) t"] by simp
  then show "length (str_trim (take (length t - 2) t)) < length ty" using t pos by linarith
qed

lemma field_shorter:
  assumes "p \<in> set (split_top_level_commas inner)" "length inner < n"
  shows "length (str_trim p) < n" "after_white (str_trim p) = Some ft \<Longrightarrow> length (str_trim ft) < n"
  using split_commas_length[OF assms(1)[unfolded split_top_level_commas_def]] assms(2) str_trim_length[of p]
    after_white_length[of "str_trim p" ft] str_trim_length[of ft] by auto

text \<open>A part of a \<open>struct\<close> is trimmed and not empty, so that it has one token exactly when it has
  no white space.\<close>

function is_valid_stream_type :: "string \<Rightarrow> bool" where
  "is_valid_stream_type ty =
     (let t = to_ascii_lowercase (str_trim ty)
      in if t = [] then False
         else if t \<in> set PLAIN_TYPES then True
         else if wrapped ''decimal('' '')'' t \<or> wrapped ''numeric('' '')'' t then
           (let parts = map str_trim (split_on CHR '','' [] (parens_of t))
            in (length parts = 1 \<or> length parts = 2) \<and> list_all all_digits parts)
         else if wrapped ''varchar('' '')'' t \<or> wrapped ''char('' '')'' t then all_digits (parens_of t)
         else if wrapped ''array('' '')'' t \<or> wrapped ''array['' '']'' t then
           (let inner = str_trim (butlast (drop 6 t)) in if inner = [] then True else is_valid_stream_type inner)
         else if ends_with ''[]'' t then is_valid_stream_type (str_trim (take (length t - 2) t))
         else if wrapped ''struct('' '')'' t then
           (let inner = str_trim (butlast (drop 7 t))
            in if inner = [] then True
               else (\<forall>p \<in> set (split_top_level_commas inner).
                       let fp = str_trim p
                       in if fp = [] then True
                          else (case after_white fp of
                                  None \<Rightarrow> is_valid_stream_type fp
                                | Some ft \<Rightarrow> is_valid_stream_type (str_trim ft))))
         else False)"
  by pat_completeness auto

termination
proof (relation "measure length")
  fix ty t inner p x y z
  assume t: "t = to_ascii_lowercase (str_trim ty)" "\<not> t = []"
  show "inner = str_trim (butlast (drop 6 t)) \<Longrightarrow> (inner, ty) \<in> measure length"
    using shorter(1)[OF t, of 5] by simp
  show "(str_trim (take (length t - 2) t), ty) \<in> measure length" using shorter(2)[OF t] by simp
next
  fix ty t inner p fp
  assume t: "t = to_ascii_lowercase (str_trim ty)" "\<not> t = []"
    and f: "inner = str_trim (butlast (drop 7 t))" "p \<in> set (split_top_level_commas inner)" "fp = str_trim p"
  have inner: "length inner < length ty" using shorter(1)[OF t, of 6] f(1) by simp
  show "(fp, ty) \<in> measure length" using field_shorter(1)[OF f(2) inner] f(3) by simp
  show "after_white fp = Some ft \<Longrightarrow> (str_trim ft, ty) \<in> measure length" for ft
    using field_shorter(2)[OF f(2) inner] f(3) by simp
qed simp

declare is_valid_stream_type.simps [simp del]

subsection \<open>Columns\<close>

definition is_ascii_whitespace :: "char \<Rightarrow> bool" where
  "is_ascii_whitespace c \<longleftrightarrow> (of_char c :: nat) \<in> {9, 10, 12, 13, 32}"

text \<open>The scan for \<open>DEFAULT\<close> looks at every byte outside quotes and parentheses as the start of a
  slice; the result is missing where that panics, inside a character of several bytes.\<close>

definition default_here :: "string \<Rightarrow> string \<Rightarrow> bool" where
  "default_here pre s \<longleftrightarrow>
     starts_with ''default'' (to_ascii_lowercase s) \<and> (pre = [] \<or> is_ascii_whitespace (List.last pre))
     \<and> (length s \<le> 7 \<or> is_ascii_whitespace (s ! 7))"

fun split_default :: "nat \<Rightarrow> quoting \<Rightarrow> string \<Rightarrow> string \<Rightarrow> (string \<times> string option) option" where
  "split_default d q pre [] = Some (str_trim pre, None)"
| "split_default d q pre (c # cs) =
     (let special = (q \<noteq> Plain \<or> c \<in> {CHR ''('', CHR ''['', CHR '')'', CHR '']'', CHR 0x27, CHR 0x22})
      in if \<not> special \<and> d = 0 \<and> 128 \<le> (of_char c :: nat) \<and> (of_char c :: nat) < 192 then None
         else if \<not> special \<and> d = 0 \<and> default_here pre (c # cs) then Some (str_trim pre, Some (str_trim (drop 7 (c # cs))))
         else
           (let d' = (if q = Plain \<and> c \<in> {CHR ''('', CHR ''[''} then d + 1
                      else if q = Plain \<and> c \<in> {CHR '')'', CHR '']''} then d - 1 else d)
            in split_default d' (quote_step q c) (pre @ [c]) cs))"

definition split_at_default :: "string \<Rightarrow> (string \<times> string option) option" where
  "split_at_default s = split_default 0 Plain [] s"

definition strip_suffix :: "string list \<Rightarrow> string \<Rightarrow> string option" where
  "strip_suffix sufs s = map_option (\<lambda>x. take (length s - length x) s) (find (\<lambda>x. ends_with x s) sufs)"

definition raw_type_of :: "string \<Rightarrow> string" where
  "raw_type_of s =
     (let t = str_trim s
      in case strip_suffix [''not null'', ''NOT NULL''] t of
           Some r \<Rightarrow> str_trim r
         | None \<Rightarrow> (case strip_suffix [''null'', ''NULL''] t of Some r \<Rightarrow> str_trim r | None \<Rightarrow> t))"

definition data_type_of :: "string \<Rightarrow> string" where
  "data_type_of raw =
     (if raw = [] then ''string''
      else to_ascii_lowercase (trim_matches {CHR 0x22, CHR 0x27, CHR 0x60, CHR '','', CHR '';''} raw))"

definition default_text :: "string \<Rightarrow> string" where
  "default_text s = str_trim (rev (dropWhile (\<lambda>c. c \<in> {CHR '';'', CHR '',''}) (rev (str_trim s))))"

definition column_name_of :: "string \<Rightarrow> (string \<times> string) option" where
  "column_name_of part =
     (if starts_quote part \<or> starts_char CHR 0x60 part then
        map_option (apsnd str_trim) (split_once (hd part) (tl part))
      else Some (before_white part, str_trim (drop (length (before_white part)) part)))"

definition column_def :: "string \<Rightarrow> string \<Rightarrow> stream_column list pres" where
  "column_def part r =
     (if part = [] then POk [] r
      else (case column_name_of part of
              None \<Rightarrow> PErr (''Unclosed quote in column definition: '' @ part)
            | Some (name, remainder) \<Rightarrow>
                if name = [] then POk [] r
                else (case split_at_default remainder of
                        None \<Rightarrow> PPanic
                      | Some (raw, dflt) \<Rightarrow>
                          (let ty = data_type_of (raw_type_of raw)
                           in if \<not> is_valid_stream_type ty
                              then PErr (''Unsupported or invalid data type '' @ quote_text ty @ '' for column '' @ quote_text name)
                              else POk [\<lparr>sc_name = name, sc_type = ty, sc_default = map_option default_text dflt\<rparr>] r))))"

fun column_defs :: "string list \<Rightarrow> stream_column list \<Rightarrow> string \<Rightarrow> stream_column list pres" where
  "column_defs [] acc r = POk acc r"
| "column_defs (p # ps) acc r = pbind (column_def (str_trim p) r) (\<lambda>cs r. column_defs ps (acc @ cs) r)"

definition parse_column_defs :: "string \<Rightarrow> stream_column list pres" where
  "parse_column_defs s =
     (if \<not> starts_char CHR ''('' s then POk [] s
      else (case until_close 1 Plain (tl s) of
              None \<Rightarrow> PErr ''Unclosed parenthesis''
            | Some (inner, rest) \<Rightarrow> column_defs (split_top_level_commas inner) [] rest))"

subsection \<open>The statements\<close>

definition double_quote :: "string \<Rightarrow> string" where
  "double_quote w = [CHR 0x22] @ w @ [CHR 0x22]"

definition found_token :: "lexer \<Rightarrow> string \<Rightarrow> string" where
  "found_token L s =
     double_quote (case peek_word L s of
                     Some w \<Rightarrow> w
                   | None \<Rightarrow> (let t = skip_ws s in take (char_width t) t))"

definition found_start :: "lexer \<Rightarrow> string \<Rightarrow> string" where
  "found_start L s =
     (let t = skip_ws s
      in if peek_word L s = None \<and> starts_quote t then double_quote (take (word_len L (tl t)) (tl t)) else found_token L s)"

text \<open>The two statements share their body; \<open>what\<close> is the word for it.\<close>

definition create_body :: "lexer \<Rightarrow> string \<Rightarrow> string \<Rightarrow> string \<Rightarrow> create_stmt pres" where
  "create_body L keyword what s =
     pbind (expect_keyword L ''CREATE'' s) (\<lambda>_ r.
     pbind (expect_keyword L keyword r) (\<lambda>_ r.
     pbind (take_word L (''Expected '' @ what @ '' name'') r) (\<lambda>name r.
       let t = skip_ws r
       in pbind (if starts_char CHR ''('' t then parse_column_defs t
                 else if peek_word_is L ''WITH'' t \<or> t = [] \<or> starts_char CHR '';'' t then POk [] t
                 else PErr (''found '' @ found_start L t @ '', expected lparen after '' @ what @ '' name.'')) (\<lambda>cols r.
          pbind (parse_with_options L r) (\<lambda>opts r.
            let u = skip_ws r; v = (if starts_char CHR '';'' u then skip_ws (tl u) else u)
            in if v \<noteq> [] then PErr (''found '' @ found_token L v @ '', expected semicolon or EOF after '' @ what @ '' options.'')
               else POk \<lparr>cr_name = name, cr_fields = cols, cr_options = opts\<rparr> v)))))"

definition parse_create_stream :: "lexer \<Rightarrow> string \<Rightarrow> create_stmt pres" where
  "parse_create_stream L s = create_body L ''STREAM'' ''stream'' s"

definition parse_create_table :: "lexer \<Rightarrow> string \<Rightarrow> create_stmt pres" where
  "parse_create_table L s = create_body L ''TABLE'' ''table'' s"

end
