(* ===== verification/ParserDdl_Total.thy ===== *)
theory ParserDdl_Total
  imports ParserStmt_Total ParserDdl
begin

text \<open>
  The statements that create streams and tables return as well; what they accept is the whole input,
  with a name and columns of supported types.
\<close>

lemma ascii_set: "is_ascii s \<longleftrightarrow> (\<forall>c \<in> set s. (of_char c :: nat) < 128)"
  by (simp add: is_ascii_def list_all_iff)

lemma ascii_mono: "is_ascii s \<Longrightarrow> set t \<subseteq> set s \<Longrightarrow> is_ascii t"
  by (auto simp: ascii_set)

lemma str_trim_set: "set (str_trim s) \<subseteq> set s"
proof -
  have "set (strip_left ps t) \<subseteq> set t" for ps t by (rule set_mono_suffix[OF strip_left_suffix])
  from this[of WHITE s] this[of "map rev WHITE" "rev (strip_left WHITE s)"] show ?thesis by (auto simp: str_trim_def)
qed

lemma until_close_Some: "until_close d q s = Some (a, r) \<Longrightarrow> suffix r s \<and> length r < length s \<and> set a \<subseteq> set s"
proof (induction d q s arbitrary: a rule: until_close.induct)
  case (2 d q c cs)
  show ?case
  proof (cases "q = Plain \<and> c = CHR '')'' \<and> d = 1")
    case True
    then show ?thesis using "2.prems" by (auto simp: suffix_ConsI)
  next
    case False
    then obtain a' where a: "a = c # a'"
      "until_close (if q = Plain \<and> c = CHR ''('' then d + 1 else if q = Plain \<and> c = CHR '')'' then d - 1 else d) (quote_step q c) cs = Some (a', r)"
      using "2.prems" by (auto simp: Let_def simp del: One_nat_def)
    from "2.IH"[OF False refl a(2)] have "suffix r cs" "length r < length cs" "set a' \<subseteq> set cs" by auto
    then show ?thesis using a(1) by (auto simp: suffix_ConsI)
  qed
qed simp

lemma split_commas_set: "p \<in> set (split_commas d q cur s) \<Longrightarrow> set p \<subseteq> set cur \<union> set s"
  by (induction d q cur s rule: split_commas.induct) (fastforce simp: Let_def split: if_splits)+

lemma split_default_None: "split_default d q pre s = None \<Longrightarrow> \<not> is_ascii s"
  by (induction d q pre s rule: split_default.induct) (auto simp: Let_def ascii_set split: if_splits)

lemma column_name_set: "column_name_of part = Some (name, rest) \<Longrightarrow> set rest \<subseteq> set part"
proof -
  assume "column_name_of part = Some (name, rest)"
  then consider y where "split_once (hd part) (tl part) = Some (name, y)" "rest = str_trim y"
    | "rest = str_trim (drop (length (before_white part)) part)"
    by (auto simp: column_name_of_def split: if_splits)
  then show ?thesis
  proof cases
    case 1
    have "suffix y (tl part)"
      using 1(1) suffix_order.trans[OF suffix_tl suffix_dropWhile] by (auto simp: split_once_def split: if_splits)
    then have "set y \<subseteq> set part" using set_mono_suffix[of y "tl part"] set_mono_suffix[OF suffix_tl, of part] by auto
    then show ?thesis using 1(2) str_trim_set[of y] by simp
  next
    case 2
    then show ?thesis using str_trim_set set_drop_subset by (metis order_trans)
  qed
qed

lemma runs_column_def:
  assumes "suffix r s" "is_ascii s \<Longrightarrow> is_ascii part"
  shows "runs False s (column_def part r)"
proof -
  have "\<not> is_ascii s" if "column_name_of part = Some (name, rest)" "split_at_default rest = None" for name rest
    using column_name_set[OF that(1)] split_default_None that(2) assms(2) ascii_mono by (metis split_at_default_def)
  then show ?thesis using assms(1) by (auto simp: column_def_def Let_def split: option.split)
qed

lemma column_def_POk: "column_def part r = POk cs r' \<Longrightarrow> r' = r"
  by (auto simp: column_def_def Let_def split: if_splits option.splits prod.splits)

lemma runs_column_defs:
  assumes "suffix r s" "is_ascii s \<Longrightarrow> \<forall>p \<in> set ps. is_ascii p"
  shows "runs False s (column_defs ps acc r)"
  using assms(2)
proof (induction ps arbitrary: acc)
  case (Cons p ps)
  have "runs False s (column_def (str_trim p) r)"
    using runs_column_def[OF assms(1)] Cons.prems ascii_mono[OF _ str_trim_set] by auto
  then show ?case using Cons.IH Cons.prems column_def_POk by (cases "column_def (str_trim p) r") force+
qed (simp add: assms(1))

lemma runs_parse_column_defs: "runs False s (parse_column_defs s)"
proof -
  have "runs False s (column_defs (split_top_level_commas inner) [] rest)" if "until_close 1 Plain (tl s) = Some (inner, rest)" for inner rest
  proof (rule runs_column_defs)
    note u = until_close_Some[OF that]
    show "suffix rest s" using u suffix_order.trans[OF _ suffix_tl] by blast
    assume "is_ascii s"
    moreover have "set p \<subseteq> set s" if "p \<in> set (split_top_level_commas inner)" for p
      using split_commas_set[OF that[unfolded split_top_level_commas_def]] u set_mono_suffix[OF suffix_tl, of s] by auto
    ultimately show "\<forall>p \<in> set (split_top_level_commas inner). is_ascii p" using ascii_mono by blast
  qed
  then show ?thesis by (auto simp: parse_column_defs_def split: option.split)
qed

lemma runs_with_options: "runs False s (parse_with_options L s)"
proof -
  have "runs False r (let t = skip_ws r in if \<not> starts_char CHR ''('' t then POk fmempty t
      else (case until_close 1 Plain (tl t) of None \<Rightarrow> PErr ''Unclosed WITH parenthesis''
            | Some (content, rest) \<Rightarrow> POk (foldl (add_option L) fmempty (split_pairs Plain [] content)) rest))" for r
    using until_close_Some[of 1 Plain "tl (skip_ws r)"] tl_skip(1)[of r] suffix_order.trans
    by (auto simp: Let_def split: option.split)
  then show ?thesis unfolding parse_with_options_def by (intro runs_match) auto
qed

lemma runs_create_body: "runs True s (create_body L kw what s)"
proof -
  have tail: "runs False r (let u = skip_ws r; v = (if starts_char CHR '';'' u then skip_ws (tl u) else u)
      in if v \<noteq> [] then PErr (m v) else POk (f v) v)" for r m and f :: "string \<Rightarrow> create_stmt"
  proof -
    have "suffix (skip_ws (tl (skip_ws r))) r" using suffix_order.trans[OF skip_ws_suffix tl_skip(1)] .
    then show ?thesis by (auto simp: Let_def)
  qed
  have cols: "runs False r (let t = skip_ws r
       in pbind (if starts_char CHR ''('' t then parse_column_defs t
                 else if peek_word_is L ''WITH'' t \<or> t = [] \<or> starts_char CHR '';'' t then POk [] t
                 else PErr (m t)) (\<lambda>cols r.
          pbind (parse_with_options L r) (\<lambda>opts r.
            let u = skip_ws r; v = (if starts_char CHR '';'' u then skip_ws (tl u) else u)
            in if v \<noteq> [] then PErr (m' v)
               else POk \<lparr>cr_name = name, cr_fields = cols, cr_options = opts\<rparr> v)))" for r m m' name
    unfolding Let_def[of "skip_ws r"]
    by (rule runs_skip, rule runs_then) (auto simp: runs_parse_column_defs intro!: runs_then[OF runs_with_options] tail)
  show ?thesis unfolding create_body_def
    by (rule runs_first[OF runs_keyword], rule runs_first[OF runs_keyword], rule runs_first[OF runs_take_word], rule cols)
qed

subsection \<open>What is accepted\<close>

definition column_ok :: "stream_column \<Rightarrow> bool" where
  "column_ok c \<longleftrightarrow> sc_name c \<noteq> [] \<and> is_valid_stream_type (sc_type c)"

lemma pbind_POk: "pbind p f = POk b r \<longleftrightarrow> (\<exists>a q. p = POk a q \<and> f a q = POk b r)"
  by (cases p) auto

lemma column_def_ok: "column_def part r = POk cs q \<Longrightarrow> list_all column_ok cs"
  by (auto simp: column_def_def column_ok_def Let_def split: if_splits option.splits prod.splits)

lemma column_defs_ok: "column_defs ps acc r = POk cs q \<Longrightarrow> list_all column_ok acc \<Longrightarrow> list_all column_ok cs"
proof (induction ps arbitrary: acc r)
  case (Cons p ps)
  then obtain a q' where a: "column_def (str_trim p) r = POk a q'" "column_defs ps (acc @ a) q' = POk cs q" by (auto simp: pbind_POk)
  from Cons.IH[OF a(2)] column_def_ok[OF a(1)] Cons.prems(2) show ?case by simp
qed simp

lemma parse_column_defs_ok: "parse_column_defs s = POk cs q \<Longrightarrow> list_all column_ok cs"
  by (auto simp: parse_column_defs_def split: if_splits option.splits dest: column_defs_ok)

lemma create_body_accepts:
  assumes "create_body L kw what s = POk st r"
  shows "r = []" "cr_name st \<noteq> []" "list_all column_ok (cr_fields st)"
proof -
  have "r = [] \<and> cr_name st \<noteq> [] \<and> list_all column_ok (cr_fields st)"
    using assms peek_word_Some(1)
    by (auto simp: create_body_def pbind_POk Let_def take_word_def split: if_splits option.splits dest: parse_column_defs_ok)
  then show "r = []" "cr_name st \<noteq> []" "list_all column_ok (cr_fields st)" by auto
qed

end
