(* ===== verification/Parser_Props.thy ===== *)
theory Parser_Props
  imports Parser_Calls ParserDdl_Total
begin

text \<open>
  The properties of the SQL parser: every input is answered, what is accepted of a definition is the
  whole text, and what the printer writes is read back.
\<close>

subsection \<open>Every printable expression is read\<close>

lemma opt_ok: "pred_option P x \<Longrightarrow> (\<And>y. x = Some y \<Longrightarrow> P y \<Longrightarrow> Q y) \<Longrightarrow> pred_option Q x"
  by (cases x) auto

lemma whens_length: "(c, v) \<in> set ws \<Longrightarrow> length (show_expr c) + length (show_expr v) \<le> length (concat (map (\<lambda>(c, v). '' WHEN '' @ show_expr c @ '' THEN '' @ show_expr v) ws))"
  by (induction ws) auto

lemma parens_length: "length (parens s) = length s + 2"
  by (simp add: parens_def)

lemma reads_printable: "printable e \<Longrightarrow> length (show_expr e) \<le> n \<Longrightarrow> reads L n e"
proof (induction "length (show_expr e)" arbitrary: e n rule: less_induct)
  case less
  have IH: "reads L k y" if "printable y" "length (show_expr y) < length (show_expr e)" "length (show_expr y) \<le> k" for y k
    using less.hyps[OF that(2,1,3)] .
  have "0 < n" using less.prems show_nonempty[of e] by (cases "show_expr e") auto
  then obtain m where n: "n = Suc m" by (cases n) auto
  have sub: "reads L m y" "reads L (Suc m) y" if "printable y" "length (show_expr y) + 1 < length (show_expr e)" for y
    using IH[OF that(1), of m] IH[OF that(1), of "Suc m"] that less.prems(2) n by auto
  show ?case
  proof (cases e)
    case (BinaryOp a bop b)
    have "printable a" "printable b" "reads L m a" "reads L m b"
      using less.prems(1) BinaryOp sub(1)[of a] sub(1)[of b] by (auto simp: parens_length)
    then show ?thesis unfolding n by (intro reads_parens[where body = "show_expr a @ sp (op_token bop @ sp (show_expr b))"])
      (use binary_body[of L m a b bop] BinaryOp in simp_all)
  next
    case (UnaryOp u x)
    have "printable x" "reads L m x" using less.prems(1) UnaryOp sub(1)[of x] by (auto simp: parens_length split: unary_operator.split)
    then show ?thesis unfolding n by (intro reads_parens[where body = "(case u of Not \<Rightarrow> ''NOT '' | Neg \<Rightarrow> ''-'') @ show_expr x"])
      (use unary_body[of L m x u] UnaryOp in simp_all)
  next
    case (IsNull x neg)
    have "printable x" "reads L m x" using less.prems(1) IsNull sub(1)[of x] by (auto simp: parens_length)
    then show ?thesis unfolding n by (intro reads_parens[where body = "show_expr x @ (if neg then '' IS NOT NULL'' else '' IS NULL'')"])
      (use isnull_body[of L m x neg] IsNull in simp_all)
  next
    case (Between x lo hi neg)
    have "printable x" "printable lo" "printable hi" "reads L m x" "reads L m lo" "reads L m hi"
      using less.prems(1) Between sub(1)[of x] sub(1)[of lo] sub(1)[of hi] by (auto simp: parens_length)
    then show ?thesis unfolding n
      by (intro reads_parens[where body = "show_expr x @ (if neg then '' NOT BETWEEN '' else '' BETWEEN '') @ show_expr lo @ '' AND '' @ show_expr hi"])
        (use between_body[of L m x lo hi neg] Between in simp_all)
  next
    case (InList x es neg)
    obtain k where m: "m = Suc k" using less.prems(2) InList n by (cases m) (auto simp: parens_length)
    have x: "printable x" "reads L m x" using less.prems(1) InList sub(1)[of x] by (auto simp: parens_length)
    have "reads L k y \<and> printable y" if "y \<in> set es" for y
      using IH[of y k] join_length[OF that, of show_expr] that less.prems InList n m by (auto simp: parens_length list_all_iff)
    then show ?thesis unfolding n
      by (intro reads_parens[where body = "show_expr x @ (if neg then '' NOT IN '' else '' IN '') @ parens (join_with '', '' (map show_expr es))"])
        (use in_body[OF x(2)[unfolded m] x(1), of es neg] InList m in simp_all)
  next
    case (FieldAccess x f)
    obtain k where m: "m = Suc k" using less.prems(2) FieldAccess n by (cases m) (auto simp: parens_length)
    have x: "printable x" "name_ok f" "reads L k x" using less.prems FieldAccess IH[of x k] n m by (auto simp: parens_length)
    show ?thesis unfolding n
      by (intro reads_parens[where body = "parens (show_expr x) @ ''.'' @ tick f"])
        (use postfix_body[OF x(3,1) field_postfix[OF x(2)]] FieldAccess m in simp_all)
  next
    case (Index x i)
    obtain k where m: "m = Suc k" using less.prems(2) Index n by (cases m) (auto simp: parens_length)
    have x: "printable x" "reads L k x" "printable i" "reads L k i" using less.prems Index IH[of x k] IH[of i k] n m by (auto simp: parens_length)
    show ?thesis unfolding n
      by (intro reads_parens[where body = "parens (show_expr x) @ ''['' @ show_expr i @ '']''"])
        (use postfix_body[OF x(2,1) bracket_postfix[OF index_subscript[OF x(4,3)]]] Index m in simp_all)
  next
    case (Slice x lo hi)
    obtain k where m: "m = Suc k" using less.prems(2) Slice n by (cases m) (auto simp: parens_length)
    have x: "printable x" "pred_option printable lo" "pred_option printable hi" "reads L k x" using less.prems Slice IH[of x k] n m by (auto simp: parens_length)
    have lh: "pred_option (reads L k) lo" "pred_option (reads L k) hi"
      by (rule opt_ok[OF x(2)], use less.prems(2) Slice IH[of _ k] n m in \<open>simp add: parens_length\<close>)
        (rule opt_ok[OF x(3)], use less.prems(2) Slice IH[of _ k] n m in \<open>simp add: parens_length\<close>)
    have sl: "subscript (expr_at (Suc k) L) x ((opt_text lo @ CHR '':'' # opt_text hi) @ CHR '']'' # r) = POk (Slice x lo hi) r" for r
      using slice_subscript[OF x(2) lh(1) x(3) lh(2)] by simp
    show ?thesis unfolding n
      by (intro reads_parens[where body = "parens (show_expr x) @ ''['' @ (opt_text lo @ CHR '':'' # opt_text hi) @ '']''"])
        (use postfix_body[OF x(4,1) bracket_postfix[OF sl]] Slice m in \<open>simp_all add: opt_text_def\<close>)
  next
    case (Call name args)
    have "arg_ok L m a" if "a \<in> set args" for a
      using IH[of a m] join_length[OF that, of show_expr] that less.prems Call n by (auto simp: parens_length arg_ok_def list_all_iff)
    then show ?thesis unfolding n using less.prems(1) Call reads_call[of name args L m] by simp
  next
    case (Over c part cond)
    then obtain name args where c: "c = Call name args" using less.prems(1) by (cases c) auto
    have "arg_ok L m a" if "a \<in> set args" for a
      using IH[of a m] join_length[OF that, of show_expr] that less.prems Over c n by (auto simp: parens_length arg_ok_def list_all_iff)
    moreover have p: "pred_option printable part" "pred_option printable cond" "call_ok name" using less.prems(1) Over c by auto
    moreover have "pred_option (reads L m) part" "pred_option (reads L m) cond"
      by (rule opt_ok[OF p(1)], use less.prems(2) Over IH[of _ m] n in \<open>simp add: parens_length\<close>)
        (rule opt_ok[OF p(2)], use less.prems(2) Over IH[of _ m] n in \<open>simp add: parens_length\<close>)
    ultimately show ?thesis unfolding n Over c by (intro reads_over) auto
  next
    case (Case opnd ws els)
    obtain k where m: "m = Suc k" using less.prems(2) Case n by (cases m) (auto simp: parens_length)
    have p: "pred_option printable opnd" "pred_option printable els" "ws \<noteq> []" "list_all (\<lambda>(c, v). printable c \<and> printable v) ws"
      using less.prems(1) Case by auto
    have o: "pred_option (reads L k) opnd" "pred_option (reads L k) els"
      by (rule opt_ok[OF p(1)], use less.prems(2) Case IH[of _ k] n m in \<open>simp add: parens_length\<close>)
        (rule opt_ok[OF p(2)], use less.prems(2) Case IH[of _ k] n m in \<open>simp add: parens_length\<close>)
    have "pair_ok L k (c, v)" if "(c, v) \<in> set ws" for c v
      using IH[of c k] IH[of v k] whens_length[OF that] p(4) that less.prems(2) Case n m by (auto simp: parens_length pair_ok_def list_all_iff)
    then have "list_all (pair_ok L k) ws" by (auto simp: list_all_iff)
    note cs = case_ok[OF p(1) o(1) p(3) this p(2) o(2)]
    show ?thesis unfolding n m Case by (rule reads_case[OF cs refl])
  qed (use less.prems reads_ident reads_lit in auto)
qed

subsection \<open>Evaluation of the parser on a text\<close>

lemma pbind_cong_weak: "p = p' \<Longrightarrow> pbind p f = pbind p' f"
  by simp

lemmas lex_eval = skip_dark dark_def word_len_Cons wordy_def is_ascii_alnum_def starts_char_def starts_with_def starts_quote_def is_quote_def
  peek_word_def peek_word_is_def word_eq match_keyword_def expect_keyword_def expect_char_def take_word_def

lemmas expr_eval = parse_expr_def parse_or_def parse_and_def parse_range_def parse_comparison_def parse_bitor_def parse_bitxor_def parse_bitand_def
  parse_additive_def parse_multiplicative_def left_level_def parse_unary_def parse_primary_def parse_word_def parse_postfix_def
  mul_op_def add_op_def bitand_op_def bitxor_op_def bitor_op_def comparison_op_def and_op_def or_op_def is_number_start_def is_digit_def

lemmas stmt_eval = parse_select_def select_with_def select_item_def field_alias_def parse_optional_alias_def join_header_def join_prefix_def
  skip_keyword_def opt_clause_def group_clause_def order_clause_def limit_clause_def set_tail_def pmap_def RESERVED_def no_groups_def

lemma trim_space: "str_trim (CHR '' '' # s) = str_trim s"
  by (simp add: str_trim_def)

text \<open>The definition of a stream of one column, piece by piece.\<close>

lemma demo_column:
  "until_close 1 Plain ''a bigint)'' = Some (''a bigint'', [])" "is_valid_stream_type ''bigint''"
  "column_name_of ''a bigint'' = Some (''a'', ''bigint'')" "split_at_default ''bigint'' = Some (''bigint'', None)"
  "data_type_of (raw_type_of ''bigint'') = ''bigint''" "str_trim ''a bigint'' = ''a bigint''"
  "split_top_level_commas ''a bigint'' = [''a bigint'']"
proof -
  have "before_white ''a bigint'' = ''a''" by code_simp
  then show "column_name_of ''a bigint'' = Some (''a'', ''bigint'')" by (simp add: column_name_of_def lex_eval trim_space trim_dark)
  show "is_valid_stream_type ''bigint''"
    by (subst is_valid_stream_type.simps) (simp add: trim_dark dark_def word_eq PLAIN_TYPES_def)
  show "split_at_default ''bigint'' = Some (''bigint'', None)"
    by (simp add: split_at_default_def quote_step_def default_here_def starts_with_def word_eq trim_dark dark_def)
  show "data_type_of (raw_type_of ''bigint'') = ''bigint''"
    by (simp add: data_type_of_def raw_type_of_def strip_suffix_def ends_with_def starts_with_def trim_dark dark_def trim_matches_def
        to_ascii_lowercase_def ascii_lower_char_def)
qed (simp_all add: trim_dark dark_def split_top_level_commas_def quote_step_def)

definition demo_ddl :: string where
  "demo_ddl = ''CREATE STREAM s (a bigint)''"

lemma demo_ddl_parses:
  "parse_create_stream L demo_ddl
   = POk \<lparr>cr_name = ''s'', cr_fields = [\<lparr>sc_name = ''a'', sc_type = ''bigint'', sc_default = None\<rparr>], cr_options = fmempty\<rparr> []"
  using demo_column
  by (simp add: demo_ddl_def column_def_def parse_create_stream_def create_body_def parse_column_defs_def parse_with_options_def lex_eval Let_def
      cong: pbind_cong_weak let_weak_cong)

subsection \<open>Properties\<close>

text \<open>C6: The parser of expressions reads back what is printed: for every expression made of names
  (ASCII, no backtick), strings (no single quote), unsigned integers, constants, operators, ranges,
  lists, subscripts, calls, \<open>CASE\<close> and \<open>OVER\<close>, with each composite in parentheses, \<open>parse_expr\<close>
  consumes the whole text and returns that expression.\<close>

theorem expression_round_trip:
  assumes "printable e"
  shows "parse_expr L (show_expr e) = POk e []"
proof -
  have "reads L (length (show_expr e)) e" by (rule reads_printable[OF assms]) simp
  from reads_expr(1)[OF this assms ends_quiet(1)] show ?thesis
    using ends_quiet(2) by (simp add: parse_expr_def del: expr_at.simps)
qed

definition demo_lexer :: lexer where
  "demo_lexer = \<lparr>lx_alnum = (\<lambda>_. False), lx_f64 = (\<lambda>_. None), lx_show = (\<lambda>_. []), lx_upper = id\<rparr>"

definition demo_expr :: expr where
  "demo_expr =
     BinaryOp (Between (FieldAccess (Identifier ''s'') ''t'') (UnaryOp Neg (Literal (of_i64 4))) (Literal (of_i64 40)) True) And
       (Case None [(InList (Identifier ''k'') [Literal (Str ''a''), Literal (Str ''b'')] False, Literal (Bool True))]
         (Some (Over (Call ''changed'' [Wildcard]) (Some (Identifier ''k'')) None)))"

theorem expression_round_trip_witness: "printable demo_expr \<and> parse_expr demo_lexer (show_expr demo_expr) = POk demo_expr []"
proof -
  have "printable demo_expr"
    by (simp add: demo_expr_def of_i64_def name_ok_def call_ok_def is_ascii_def word_def wordy_def is_ascii_alnum_def is_digit_def word_eq i64_simps)
  from this expression_round_trip[OF this, of demo_lexer] show ?thesis by simp
qed

text \<open>C23: Parsing a statement always returns: \<open>parse_select\<close> never loops, every result it accepts
  has consumed input and left a suffix of it, and it panics only on text that is not ASCII; the same
  holds of the definitions of streams and tables.\<close>

theorem statement_parser_returns:
  assumes "is_ascii s"
  shows "((\<exists>st r. parse_select L s = POk st r \<and> suffix r s \<and> length r < length s) \<or> (\<exists>e. parse_select L s = PErr e)) \<and>
    ((\<exists>st. parse_create_stream L s = POk st []) \<or> (\<exists>e. parse_create_stream L s = PErr e)) \<and>
    ((\<exists>st. parse_create_table L s = POk st []) \<or> (\<exists>e. parse_create_table L s = PErr e))"
proof -
  have "(\<exists>st r. parse_select L s = POk st r \<and> suffix r s \<and> length r < length s) \<or> (\<exists>e. parse_select L s = PErr e)"
    using runs_select[of s L] assms by (cases "parse_select L s") auto
  moreover have "(\<exists>st. create_body L kw what s = POk st []) \<or> (\<exists>e. create_body L kw what s = PErr e)" for kw what
    using runs_create_body[of s L kw what] create_body_accepts(1)[of L kw what s] assms by (cases "create_body L kw what s") auto
  ultimately show ?thesis unfolding parse_create_stream_def parse_create_table_def by blast
qed

theorem statement_parser_returns_witness:
  "is_ascii ''SELECT a FROM s'' \<and>
   ((\<exists>st r. parse_select demo_lexer ''SELECT a FROM s'' = POk st r \<and> suffix r ''SELECT a FROM s'' \<and> length r < length ''SELECT a FROM s'')
    \<or> (\<exists>e. parse_select demo_lexer ''SELECT a FROM s'' = PErr e))"
proof -
  have "is_ascii ''SELECT a FROM s''" by code_simp
  from this statement_parser_returns[OF this, of demo_lexer] show ?thesis by blast
qed

text \<open>C26: A definition of a stream is accepted only as a whole, with a name and columns that have a
  name and a supported type.\<close>

theorem created_columns_are_typed:
  assumes "parse_create_stream L s = POk st r"
  shows "r = [] \<and> cr_name st \<noteq> [] \<and> list_all (\<lambda>c. sc_name c \<noteq> [] \<and> is_valid_stream_type (sc_type c)) (cr_fields st)"
  using create_body_accepts[OF assms[unfolded parse_create_stream_def]] by (simp add: column_ok_def[abs_def])

theorem created_columns_are_typed_witness:
  "\<exists>st. parse_create_stream demo_lexer demo_ddl = POk st [] \<and> length (cr_fields st) = 1 \<and>
     list_all (\<lambda>c. sc_name c \<noteq> [] \<and> is_valid_stream_type (sc_type c)) (cr_fields st)"
  using created_columns_are_typed[OF demo_ddl_parses[of demo_lexer]] demo_ddl_parses[of demo_lexer] by simp

text \<open>A selection is accepted with text left over: a mistyped keyword becomes the alias of the
  source, and the rest of the statement is dropped.\<close>

lemma select_drops_the_rest:
  "case parse_select demo_lexer ''SELECT a FROM s WHER a > 3'' of
     POk st r \<Rightarrow> from_alias st = Some ''WHER'' \<and> where_clause st = None \<and> r = ''a > 3''
   | _ \<Rightarrow> False"
  by (simp add: stmt_eval expr_eval lex_eval Let_def cong: pbind_cong_weak let_weak_cong)

text \<open>A name in backticks with a character outside ASCII makes the parser panic, and so does such a
  character in the type of a column.\<close>

lemma non_ascii_name_panics:
  "parse_expr L (tick [char_of (195 :: nat), char_of (169 :: nat)]) = PPanic"
  "split_at_default [char_of (195 :: nat), char_of (169 :: nat)] = None"
proof -
  show "split_at_default [char_of (195 :: nat), char_of (169 :: nat)] = None"
    by (simp add: split_at_default_def quote_step_def default_here_def starts_with_def word_eq)
  have "parse_backtick_identifier (tick [char_of (195 :: nat), char_of (169 :: nat)]) = PPanic"
    by (simp add: parse_backtick_identifier_def tick_def skip_dark dark_def starts_char_def char_of_eq_iff)
  then have "parse_primary L pe (tick [char_of (195 :: nat), char_of (169 :: nat)]) = PPanic" for pe
    using tick_starts(1)[where r = "[]"] tick_starts(2)[where r = "[]"] tick_starts(3) by (simp add: parse_primary_def Let_def)
  then have u: "parse_unary L pe (tick [char_of (195 :: nat), char_of (169 :: nat)]) = PPanic" for pe
    using unary_primary(1)[OF begins_tick[of L _ "[]"]] by simp
  show "parse_expr L (tick [char_of (195 :: nat), char_of (169 :: nat)]) = PPanic"
    by (simp add: parse_expr_def parse_or_def parse_and_def left_level_def parse_range_def parse_comparison_def parse_bitor_def
        parse_bitxor_def parse_bitand_def parse_additive_def parse_multiplicative_def u)
qed

text \<open>\<open>NOT\<close> binds tighter than a comparison.\<close>

lemma not_binds_to_the_operand:
  "parse_expr L ''NOT a = b'' = POk (BinaryOp (UnaryOp Not (Identifier ''a'')) Eq (Identifier ''b'')) []"
  by (simp add: expr_eval lex_eval Let_def cong: pbind_cong_weak let_weak_cong)

end
