(* ===== verification/Coerce.thy ===== *)
theory Coerce
  imports ParserDdl Managers DeadLetter
begin

text \<open>
  The declared types of a stream at work (\<open>coerce_value_to_type\<close>, \<open>parse_default_value\<close>,
  \<open>enforce_stream_schema\<close> and its checked variant in \<open>crates/rekuiper-core/src/model.rs\<close>) and the task
  in front of a rule that applies them to each record (\<open>engine/mod.rs\<close>). The parsing of floats, of
  JSON and of the six date formats, and the rendering of values, are parameters.
\<close>

record coercer =
  co_f64 :: "string \<Rightarrow> f64 option"
  co_show :: "json \<Rightarrow> string"
  co_dates :: "(string \<Rightarrow> int option) list"
  co_json :: "string \<Rightarrow> json option"

subsection \<open>Values\<close>

definition coerce_int :: "coercer \<Rightarrow> json \<Rightarrow> json" where
  "coerce_int C v =
     (case v of
        Number n \<Rightarrow>
          (case num_as_i64 n of
             Some i \<Rightarrow> of_i64 i
           | None \<Rightarrow>
               (case num_as_u64 n of
                  Some u \<Rightarrow> of_i64 (wrap64 u)
                | None \<Rightarrow> of_i64 (f64_as_i64 (num_as_f64 n))))
      | Str s \<Rightarrow>
          (let t = str_trim s
           in case parse_i64 t of
                Some i \<Rightarrow> of_i64 i
              | None \<Rightarrow> (case co_f64 C t of Some f \<Rightarrow> of_i64 (f64_as_i64 f) | None \<Rightarrow> Null))
      | Bool b \<Rightarrow> of_i64 (if b then 1 else 0)
      | _ \<Rightarrow> Null)"

definition coerce_float :: "coercer \<Rightarrow> json \<Rightarrow> json" where
  "coerce_float C v =
     (case v of
        Number n \<Rightarrow> of_f64 (num_as_f64 n)
      | Str s \<Rightarrow> (case co_f64 C (str_trim s) of Some f \<Rightarrow> of_f64 f | None \<Rightarrow> Null)
      | Bool b \<Rightarrow> of_f64 (f64_of_int (if b then 1 else 0))
      | _ \<Rightarrow> Null)"

definition coerce_string :: "coercer \<Rightarrow> json \<Rightarrow> json" where
  "coerce_string C v =
     (case v of
        Str s \<Rightarrow> v
      | Bool b \<Rightarrow> Str (if b then ''true'' else ''false'')
      | Null \<Rightarrow> Null
      | _ \<Rightarrow> Str (co_show C v))"

definition coerce_bool :: "json \<Rightarrow> json" where
  "coerce_bool v =
     (case v of
        Bool b \<Rightarrow> v
      | Str s \<Rightarrow>
          (let t = to_ascii_lowercase (str_trim s)
           in if t = ''true'' \<or> t = ''1'' \<or> t = ''t'' then Bool True
              else if t = ''false'' \<or> t = ''0'' \<or> t = ''f'' then Bool False else Null)
      | Number n \<Rightarrow> (if num_as_i64 n = Some 1 then Bool True else if num_as_i64 n = Some 0 then Bool False else Null)
      | _ \<Rightarrow> Null)"

text \<open>The first format that reads the text.\<close>

fun first_date :: "(string \<Rightarrow> int option) list \<Rightarrow> string \<Rightarrow> int option" where
  "first_date [] t = None"
| "first_date (p # ps) t = (case p t of Some i \<Rightarrow> Some i | None \<Rightarrow> first_date ps t)"

definition coerce_date :: "coercer \<Rightarrow> json \<Rightarrow> json" where
  "coerce_date C v =
     (case v of
        Number n \<Rightarrow> v
      | Str s \<Rightarrow>
          (let t = str_trim s
           in case first_date (co_dates C) t of
                Some i \<Rightarrow> of_i64 i
              | None \<Rightarrow> (case parse_i64 t of Some i \<Rightarrow> of_i64 i | None \<Rightarrow> Null))
      | _ \<Rightarrow> Null)"

definition coerce_blob :: "json \<Rightarrow> json" where
  "coerce_blob v = (case v of Str _ \<Rightarrow> v | Arr _ \<Rightarrow> v | _ \<Rightarrow> Null)"

definition coerce_decimal :: "coercer \<Rightarrow> json \<Rightarrow> json" where
  "coerce_decimal C v =
     (case v of
        Number n \<Rightarrow> v
      | Str s \<Rightarrow> (case co_f64 C (str_trim s) of Some f \<Rightarrow> of_f64 f | None \<Rightarrow> Null)
      | _ \<Rightarrow> Null)"

definition coerce_struct :: "json \<Rightarrow> json" where
  "coerce_struct v = (case v of Obj _ \<Rightarrow> v | _ \<Rightarrow> Null)"

text \<open>A type is told by its name, without regard to case.\<close>

definition INT_TYPES :: "string list" where
  "INT_TYPES = [''bigint'', ''int'', ''integer'', ''smallint'', ''tinyint'']"

definition FLOAT_TYPES :: "string list" where
  "FLOAT_TYPES = [''float'', ''double'', ''real'']"

definition STRING_TYPES :: "string list" where
  "STRING_TYPES = [''string'', ''text'', ''varchar'', ''char'']"

definition BOOL_TYPES :: "string list" where
  "BOOL_TYPES = [''boolean'', ''bool'']"

definition DATE_TYPES :: "string list" where
  "DATE_TYPES = [''datetime'', ''timestamp'', ''date'', ''time'']"

definition BLOB_TYPES :: "string list" where
  "BLOB_TYPES = [''bytea'', ''binary'', ''blob'']"

definition type_name :: "string \<Rightarrow> string" where
  "type_name ty = to_ascii_lowercase (str_trim ty)"

definition array_inner :: "string \<Rightarrow> string" where
  "array_inner t = (if wrapped ''array('' '')'' t \<or> wrapped ''array['' '']'' t then str_trim (butlast (drop 6 t)) else [])"

lemma type_name_shorter:
  "type_name ty \<noteq> [] \<Longrightarrow> length (array_inner (type_name ty)) < length ty"
  "type_name ty \<noteq> [] \<Longrightarrow> length (str_trim (take (length (type_name ty) - 2) (type_name ty))) < length ty"
  using shorter(1)[OF type_name_def, of ty 5] shorter(2)[OF type_name_def, of ty]
  by (auto simp: array_inner_def)

lemma named_nonempty: "starts_with ''array'' t \<Longrightarrow> t \<noteq> []" "ends_with ''[]'' t \<Longrightarrow> t \<noteq> []"
  by (auto simp: starts_with_def ends_with_def)

function coerce_value_to_type :: "coercer \<Rightarrow> json \<Rightarrow> string \<Rightarrow> json" where
  "coerce_value_to_type C v target =
     (let ty = type_name target
      in if ty \<in> set INT_TYPES then coerce_int C v
         else if ty \<in> set FLOAT_TYPES then coerce_float C v
         else if ty \<in> set STRING_TYPES then coerce_string C v
         else if ty \<in> set BOOL_TYPES then coerce_bool v
         else if ty \<in> set DATE_TYPES then coerce_date C v
         else if ty \<in> set BLOB_TYPES then coerce_blob v
         else if starts_with ''decimal'' ty \<or> starts_with ''numeric'' ty then coerce_decimal C v
         else if starts_with ''array'' ty then
           (case v of
              Arr xs \<Rightarrow>
                (let inner = array_inner ty
                 in if inner = [] then Arr xs else Arr (map (\<lambda>x. coerce_value_to_type C x inner) xs))
            | _ \<Rightarrow> Null)
         else if ends_with ''[]'' ty then
           (case v of
              Arr xs \<Rightarrow> Arr (map (\<lambda>x. coerce_value_to_type C x (str_trim (take (length ty - 2) ty))) xs)
            | _ \<Rightarrow> Null)
         else if starts_with ''struct'' ty then coerce_struct v
         else v)"
  by pat_completeness auto

termination
  by (relation "measure (\<lambda>(C, v, target). length target)")
    (auto simp: type_name_shorter named_nonempty)

declare coerce_value_to_type.simps [simp del]

definition parse_default_value :: "coercer \<Rightarrow> string \<Rightarrow> string \<Rightarrow> json" where
  "parse_default_value C raw field_type =
     (let s = str_trim raw
      in if s = [] \<or> eq_ignore_case s ''null'' then Null
         else if 2 \<le> length s \<and> (wrapped [CHR 0x27] [CHR 0x27] s \<or> wrapped [CHR 0x22] [CHR 0x22] s)
           then coerce_value_to_type C (Str (butlast (tl s))) field_type
         else (case co_json C s of
                 Some v \<Rightarrow> coerce_value_to_type C v field_type
               | None \<Rightarrow> coerce_value_to_type C (Str s) field_type))"

subsection \<open>Records\<close>

text \<open>\<open>ks\<close> lists the keys of a record in the order of the hash map.\<close>

type_synonym key_list = "row \<Rightarrow> string list"

definition existing_key :: "key_list \<Rightarrow> row \<Rightarrow> string \<Rightarrow> string option" where
  "existing_key ks data name =
     (if fmlookup data name \<noteq> None then Some name else find (\<lambda>k. eq_ignore_case k name) (ks data))"

definition default_of :: "coercer \<Rightarrow> stream_field \<Rightarrow> json option" where
  "default_of C f = map_option (\<lambda>d. parse_default_value C d (sf_type f)) (sf_default f)"

definition is_self_type :: "stream_field \<Rightarrow> bool" where
  "is_self_type f \<longleftrightarrow> eq_ignore_case (sf_type f) ''bytea'' \<or> eq_ignore_case (sf_type f) ''binary''"

definition missing_field :: "coercer \<Rightarrow> stream_field \<Rightarrow> row \<Rightarrow> row" where
  "missing_field C f data =
     (case default_of C f of
        Some v \<Rightarrow> fmupd (sf_name f) v data
      | None \<Rightarrow>
          (case if is_self_type f then fmlookup data ''self'' else None of
             Some v \<Rightarrow> fmupd (sf_name f) v data
           | None \<Rightarrow> data))"

definition null_field :: "coercer \<Rightarrow> stream_field \<Rightarrow> json" where
  "null_field C f = (case default_of C f of Some v \<Rightarrow> v | None \<Rightarrow> Null)"

definition value_at :: "row \<Rightarrow> string \<Rightarrow> json" where
  "value_at data k = (case fmlookup data k of Some v \<Rightarrow> v | None \<Rightarrow> Null)"

definition enforce_field :: "coercer \<Rightarrow> key_list \<Rightarrow> row \<Rightarrow> stream_field \<Rightarrow> row" where
  "enforce_field C ks data f =
     (case existing_key ks data (sf_name f) of
        Some k \<Rightarrow>
          (let v = value_at data k
           in fmupd (sf_name f) (if is_null v then null_field C f else coerce_value_to_type C v (sf_type f)) (fmdrop k data))
      | None \<Rightarrow> missing_field C f data)"

definition enforce_stream_schema :: "coercer \<Rightarrow> key_list \<Rightarrow> stream_field list \<Rightarrow> row \<Rightarrow> row" where
  "enforce_stream_schema C ks fs data = foldl (enforce_field C ks) data fs"

record schema_mismatch =
  sm_field :: string
  sm_expected :: string
  sm_actual :: string

definition mismatch_text :: "schema_mismatch \<Rightarrow> string" where
  "mismatch_text e = ''Field '' @ quote_text (sm_field e) @ '' expected type '' @ quote_text (sm_expected e) @ '', got: '' @ sm_actual e"

text \<open>The checked variant gives up at the first value that has no counterpart in its type; the
  record is left as it then is.\<close>

fun enforce_stream_schema_checked :: "coercer \<Rightarrow> key_list \<Rightarrow> stream_field list \<Rightarrow> row \<Rightarrow> schema_mismatch option \<times> row" where
  "enforce_stream_schema_checked C ks [] data = (None, data)"
| "enforce_stream_schema_checked C ks (f # fs) data =
     (case existing_key ks data (sf_name f) of
        Some k \<Rightarrow>
          (let v = value_at data k; d = fmdrop k data; c = coerce_value_to_type C v (sf_type f)
           in if is_null v then enforce_stream_schema_checked C ks fs (fmupd (sf_name f) (null_field C f) d)
              else if is_null c
                then (Some \<lparr>sm_field = sf_name f, sm_expected = sf_type f, sm_actual = co_show C v\<rparr>, d)
              else enforce_stream_schema_checked C ks fs (fmupd (sf_name f) c d))
      | None \<Rightarrow> enforce_stream_schema_checked C ks fs (missing_field C f data))"

subsection \<open>The task in front of a rule\<close>

text \<open>What the task hands on, what it reports and whether it goes on; \<open>now\<close> is the clock.\<close>

record schema_out =
  so_sent :: "row list"
  so_dlq :: "counters \<times> dlq_envelope list"
  so_effects :: "dlq_effect list"
  so_open :: bool

definition schema_step :: "coercer \<Rightarrow> key_list \<Rightarrow> stream_field list \<Rightarrow> dlq_router \<Rightarrow> int \<Rightarrow> row \<Rightarrow> schema_out \<Rightarrow> schema_out" where
  "schema_step C ks fs D now data o' =
     (if \<not> so_open o' then o'
      else if dr_on_error D = Drop then o'\<lparr>so_sent := so_sent o' @ [enforce_stream_schema C ks fs data]\<rparr>
      else (case enforce_stream_schema_checked C ks fs data of
              (None, d) \<Rightarrow> o'\<lparr>so_sent := so_sent o' @ [d]\<rparr>
            | (Some e, d) \<Rightarrow>
                (case route_error D now SchemaValidation (mismatch_text e) (Some (co_show C (Obj d))) (Some (Obj d)) None (so_dlq o') of
                   (st, effs) \<Rightarrow>
                     o'\<lparr>so_dlq := st, so_effects := so_effects o' @ effs, so_open := dr_on_error D \<noteq> Halt\<rparr>)))"

definition schema_task :: "coercer \<Rightarrow> key_list \<Rightarrow> stream_field list \<Rightarrow> dlq_router \<Rightarrow> (int \<times> row) list \<Rightarrow> schema_out \<Rightarrow> schema_out" where
  "schema_task C ks fs D rs o' = foldl (\<lambda>o' (now, data). schema_step C ks fs D now data o') o' rs"

end
