(* ===== verification/Coerce_Props.thy ===== *)
theory Coerce_Props
  imports Coerce
begin

text \<open>
  What the declared types promise: coercion leaves the values of a type alone and turns every other
  value into one of the type or into null; the record that the task in front of a rule hands on is
  given column by column; and which records it hands on, refuses or never reaches is given by the
  policy of the rule.
\<close>

subsection \<open>Declared types and their values\<close>

definition is_int_value :: "json \<Rightarrow> bool" where
  "is_int_value v \<longleftrightarrow> (case as_i64 v of Some i \<Rightarrow> in_i64 i \<and> v = of_i64 i | None \<Rightarrow> False)"

definition is_float_value :: "json \<Rightarrow> bool" where
  "is_float_value v \<longleftrightarrow> (case v of Number (Float x) \<Rightarrow> is_finite x | _ \<Rightarrow> False)"

definition is_array :: "json \<Rightarrow> bool" where
  "is_array v \<longleftrightarrow> (case v of Arr xs \<Rightarrow> True | _ \<Rightarrow> False)"

definition is_object :: "json \<Rightarrow> bool" where
  "is_object v \<longleftrightarrow> (case v of Obj m \<Rightarrow> True | _ \<Rightarrow> False)"

text \<open>The types whose values are known: the plain ones under each of their names, and arrays of such
  types. Character types with a length and decimals with a precision are not among them.\<close>

datatype kind = IntK | FloatK | StringK | BoolK | DateK | BlobK | DecimalK | StructK

datatype declared = Plain kind string | ArrayOf declared

fun names_of :: "kind \<Rightarrow> string list" where
  "names_of IntK = [''bigint'', ''int'', ''integer'', ''smallint'', ''tinyint'']"
| "names_of FloatK = [''float'', ''double'', ''real'']"
| "names_of StringK = [''string'', ''text'', ''varchar'', ''char'']"
| "names_of BoolK = [''boolean'', ''bool'']"
| "names_of DateK = [''datetime'', ''timestamp'', ''date'', ''time'']"
| "names_of BlobK = [''bytea'', ''binary'', ''blob'']"
| "names_of DecimalK = [''decimal'', ''numeric'']"
| "names_of StructK = [''struct'']"

fun known :: "declared \<Rightarrow> bool" where
  "known (Plain k n) = (n \<in> set (names_of k))"
| "known (ArrayOf d) = known d"

fun declared_text :: "declared \<Rightarrow> string" where
  "declared_text (Plain k n) = n"
| "declared_text (ArrayOf d) = ''array('' @ declared_text d @ '')''"

fun of_kind :: "kind \<Rightarrow> json \<Rightarrow> bool" where
  "of_kind IntK v = is_int_value v"
| "of_kind FloatK v = is_float_value v"
| "of_kind StringK v = is_string v"
| "of_kind BoolK v = is_boolean v"
| "of_kind DateK v = is_number v"
| "of_kind BlobK v = (is_string v \<or> is_array v)"
| "of_kind DecimalK v = is_number v"
| "of_kind StructK v = is_object v"

fun holds :: "declared \<Rightarrow> json \<Rightarrow> bool" where
  "holds (Plain k n) v = of_kind k v"
| "holds (ArrayOf d) v = (case v of Arr xs \<Rightarrow> (\<forall>x\<in>set xs. x = Null \<or> holds d x) | _ \<Rightarrow> False)"

text \<open>Values of another kind that stand for a value of the type.\<close>

inductive stands_for :: "kind \<Rightarrow> json \<Rightarrow> json \<Rightarrow> bool" where
  int_text: "parse_i64 (str_trim s) = Some i \<Longrightarrow> stands_for IntK (Str s) (of_i64 i)"
| int_bool: "stands_for IntK (Bool b) (of_i64 (if b then 1 else 0))"
| float_int: "as_i64 v = Some i \<Longrightarrow> stands_for FloatK v (of_f64 (f64_of_int i))"
| string_bool: "stands_for StringK (Bool b) (Str (if b then ''true'' else ''false''))"
| bool_text: "to_ascii_lowercase (str_trim s) = (if b then ''true'' else ''false'') \<Longrightarrow> stands_for BoolK (Str s) (Bool b)"
| bool_int: "stands_for BoolK (of_i64 (if b then 1 else 0)) (Bool b)"

lemmas value_kinds = is_int_value_def is_float_value_def is_array_def is_object_def

lemma of_i64_is [simp]: "in_i64 i \<Longrightarrow> is_int_value (of_i64 i)" "is_number (of_i64 i)"
  by (simp_all add: is_int_value_def of_i64_def in_i64_def)

lemma of_f64_is: "of_f64 x = Null \<or> is_float_value (of_f64 x)" "of_f64 x = Null \<or> is_number (of_f64 x)"
  by (simp_all add: of_f64_def is_float_value_def)

lemma parse_i64_range: "parse_i64 s = Some i \<Longrightarrow> in_i64 i"
  by (auto simp: parse_i64_def Let_def checked_i64_def split: option.splits if_splits)

lemma f64_as_i64_range [simp]: "in_i64 (f64_as_i64 x)"
proof (cases x)
  case (Fin s m e)
  then show ?thesis by (simp del: trunc_int.simps)
qed (simp_all add: in_i64_def i64_min_def i64_max_def)

subsection \<open>Each kind of value is reached, and once reached is kept\<close>

lemma bit_range [simp]: "in_i64 0" "in_i64 1"
  by (simp_all add: in_i64_def i64_min_def i64_max_def)

lemma coerce_int_fits: "json_wf v \<Longrightarrow> coerce_int C v = Null \<or> is_int_value (coerce_int C v)"
  using as_i64_in_i64[of v]
  by (auto simp: coerce_int_def Let_def parse_i64_range split: json.splits option.splits)

lemma coerce_float_fits: "coerce_float C v = Null \<or> is_float_value (coerce_float C v)"
  using of_f64_is(1) by (auto simp: coerce_float_def split: json.splits option.splits)

lemma coerce_string_fits: "coerce_string C v = Null \<or> is_string (coerce_string C v)"
  by (auto simp: coerce_string_def split: json.splits)

lemma coerce_bool_fits: "coerce_bool v = Null \<or> is_boolean (coerce_bool v)"
  by (auto simp: coerce_bool_def Let_def split: json.splits)

lemma coerce_date_fits: "coerce_date C v = Null \<or> is_number (coerce_date C v)"
  by (auto simp: coerce_date_def Let_def split: json.splits option.splits)

lemma coerce_decimal_fits: "coerce_decimal C v = Null \<or> is_number (coerce_decimal C v)"
  using of_f64_is(2) by (auto simp: coerce_decimal_def split: json.splits option.splits)

lemma coerce_blob_fits: "coerce_blob v = Null \<or> is_string (coerce_blob v) \<or> is_array (coerce_blob v)"
  by (auto simp: coerce_blob_def is_array_def split: json.splits)

lemma coerce_struct_fits: "coerce_struct v = Null \<or> is_object (coerce_struct v)"
  by (auto simp: coerce_struct_def is_object_def split: json.splits)

lemmas coerce_fits = coerce_int_fits coerce_float_fits coerce_string_fits coerce_bool_fits coerce_date_fits
  coerce_decimal_fits coerce_blob_fits coerce_struct_fits

lemma coerce_null [simp]: "coerce_value_to_type C Null ty = Null"
  by (simp add: coerce_value_to_type.simps Let_def coerce_int_def coerce_float_def coerce_string_def coerce_bool_def
      coerce_date_def coerce_decimal_def coerce_blob_def coerce_struct_def)

lemma coerce_int_id: "is_int_value v \<Longrightarrow> coerce_int C v = v"
  by (cases v) (auto simp: is_int_value_def coerce_int_def split: option.splits)

lemma coerce_float_id: "is_float_value v \<Longrightarrow> coerce_float C v = v"
  by (auto simp: is_float_value_def coerce_float_def of_f64_def split: json.splits number.splits)

lemma coerce_plain_id:
  "is_string v \<Longrightarrow> coerce_string C v = v" "is_boolean v \<Longrightarrow> coerce_bool v = v"
  "is_number v \<Longrightarrow> coerce_date C v = v" "is_number v \<Longrightarrow> coerce_decimal C v = v"
  "is_string v \<or> is_array v \<Longrightarrow> coerce_blob v = v" "is_object v \<Longrightarrow> coerce_struct v = v"
  by (cases v; simp add: value_kinds coerce_string_def coerce_bool_def coerce_date_def coerce_decimal_def coerce_blob_def
      coerce_struct_def)+

lemmas coerce_id = coerce_int_id coerce_float_id coerce_plain_id

lemma as_i64_f64: "as_i64 v = Some i \<Longrightarrow> v = Number n \<Longrightarrow> num_as_f64 n = f64_of_int i"
  by (cases n) (auto split: if_splits)

text \<open>The coercion to each kind, and to a type of known values.\<close>

fun coerce_kind :: "coercer \<Rightarrow> kind \<Rightarrow> json \<Rightarrow> json" where
  "coerce_kind C IntK v = coerce_int C v"
| "coerce_kind C FloatK v = coerce_float C v"
| "coerce_kind C StringK v = coerce_string C v"
| "coerce_kind C BoolK v = coerce_bool v"
| "coerce_kind C DateK v = coerce_date C v"
| "coerce_kind C BlobK v = coerce_blob v"
| "coerce_kind C DecimalK v = coerce_decimal C v"
| "coerce_kind C StructK v = coerce_struct v"

lemma kind_reached: "json_wf v \<Longrightarrow> coerce_kind C k v = Null \<or> of_kind k (coerce_kind C k v)"
  using coerce_fits by (cases k) auto

lemma kind_kept: "of_kind k v \<Longrightarrow> coerce_kind C k v = v"
  using coerce_id by (cases k) auto

lemma kind_converts: "stands_for k v w \<Longrightarrow> coerce_kind C k v = w"
proof (induction rule: stands_for.induct)
  case (float_int v i)
  then show ?case using as_i64_f64[OF float_int] by (cases v) (auto simp: coerce_float_def)
qed (auto simp: coerce_int_def coerce_string_def coerce_bool_def of_i64_def i64_max_def)

subsection \<open>The names of the types\<close>

definition plain_name :: "string \<Rightarrow> bool" where
  "plain_name t \<longleftrightarrow> t \<noteq> [] \<and> list_all dark t \<and> to_ascii_lowercase t = t"

lemma plain_name_trim: "plain_name t \<Longrightarrow> str_trim t = t \<and> type_name t = t"
  using trim_dark[of "hd t" "tl t"] by (cases t) (auto simp: plain_name_def type_name_def list_all_iff)

lemma known_plain: "n \<in> set (names_of k) \<Longrightarrow> plain_name n"
proof -
  have "list_all plain_name (names_of k)" by (cases k; simp only:; code_simp)
  then show "n \<in> set (names_of k) \<Longrightarrow> plain_name n" by (simp add: list_all_iff)
qed

lemma known_text: "known d \<Longrightarrow> plain_name (declared_text d)"
proof (induction d)
  case (ArrayOf d)
  have "plain_name ''array(''" "plain_name '')''" by code_simp+
  then show ?case using ArrayOf by (auto simp: plain_name_def to_ascii_lowercase_def)
qed (simp add: known_plain)

lemma array_of_inner: "plain_name t \<Longrightarrow> array_inner (''array('' @ t @ '')'') = t"
  using plain_name_trim[of t] by (simp add: array_inner_def wrapped_def starts_with_def ends_with_def butlast_append)

lemmas type_lists = INT_TYPES_def FLOAT_TYPES_def STRING_TYPES_def BOOL_TYPES_def DATE_TYPES_def BLOB_TYPES_def

text \<open>The kind that the coercion takes a name for.\<close>

definition kind_at :: "string \<Rightarrow> kind option" where
  "kind_at n =
     (if n \<in> set INT_TYPES then Some IntK else if n \<in> set FLOAT_TYPES then Some FloatK
      else if n \<in> set STRING_TYPES then Some StringK else if n \<in> set BOOL_TYPES then Some BoolK
      else if n \<in> set DATE_TYPES then Some DateK else if n \<in> set BLOB_TYPES then Some BlobK
      else if starts_with ''decimal'' n \<or> starts_with ''numeric'' n then Some DecimalK
      else if starts_with ''array'' n \<or> ends_with ''[]'' n then None
      else if starts_with ''struct'' n then Some StructK else None)"

lemma coerce_at: "kind_at (type_name ty) = Some k \<Longrightarrow> coerce_value_to_type C v ty = coerce_kind C k v"
  by (auto simp: kind_at_def coerce_value_to_type.simps[of C v ty] Let_def split: if_splits)

lemma coerce_plain:
  assumes "type_name ty = n" "n \<in> set (names_of k)"
  shows "coerce_value_to_type C v ty = coerce_kind C k v"
proof -
  have "list_all (\<lambda>n. kind_at n = Some k) (names_of k)" by (cases k; simp only:; code_simp)
  then show ?thesis using assms coerce_at by (simp add: list_all_iff)
qed

lemma coerce_array:
  assumes "type_name ty = ''array('' @ t @ '')''" "plain_name t"
  shows "coerce_value_to_type C v ty = (case v of Arr xs \<Rightarrow> Arr (map (\<lambda>x. coerce_value_to_type C x t) xs) | _ \<Rightarrow> Null)"
proof -
  have "t \<noteq> []" using assms(2) by (simp add: plain_name_def)
  moreover have "starts_with ''array'' (''array('' @ t @ '')'')" "\<not> starts_with ''decimal'' (''array('' @ t @ '')'')"
    "\<not> starts_with ''numeric'' (''array('' @ t @ '')'')" by (simp_all add: starts_with_def)
  ultimately show ?thesis
    using array_of_inner[OF assms(2)]
    by (simp add: coerce_value_to_type.simps[of C v ty] assms(1) Let_def type_lists split: json.split del: append.simps(2))
qed

lemma coerced_holds:
  "known d \<Longrightarrow> type_name ty = declared_text d \<Longrightarrow> json_wf v \<Longrightarrow>
   coerce_value_to_type C v ty = Null \<or> holds d (coerce_value_to_type C v ty)"
proof (induction d arbitrary: ty v)
  case (Plain k n)
  then show ?case using kind_reached by (simp add: coerce_plain)
next
  case (ArrayOf d)
  note p = known_text[of d]
  have "\<forall>x. json_wf x \<longrightarrow> coerce_value_to_type C x (declared_text d) = Null \<or> holds d (coerce_value_to_type C x (declared_text d))"
    using ArrayOf.IH[of "declared_text d"] ArrayOf.prems(1) plain_name_trim[OF p] by simp
  then have "\<forall>x\<in>set xs. coerce_value_to_type C x (declared_text d) = Null \<or> holds d (coerce_value_to_type C x (declared_text d))"
    if "v = Arr xs" for xs using that ArrayOf.prems(3) by (simp add: list_all_iff)
  then show ?case using ArrayOf.prems(1,2) p by (cases v) (simp_all add: coerce_array)
qed

lemma holding_kept:
  "known d \<Longrightarrow> type_name ty = declared_text d \<Longrightarrow> holds d v \<Longrightarrow> coerce_value_to_type C v ty = v"
proof (induction d arbitrary: ty v)
  case (Plain k n)
  then show ?case using kind_kept by (simp add: coerce_plain)
next
  case (ArrayOf d)
  note p = known_text[of d]
  have "coerce_value_to_type C x (declared_text d) = x" if "x = Null \<or> holds d x" for x
    using that ArrayOf.IH[of "declared_text d" x] ArrayOf.prems(1) plain_name_trim[OF p] by auto
  then show ?case using ArrayOf.prems p by (auto simp: coerce_array map_idI split: json.splits)
qed

subsection \<open>Records\<close>

text \<open>What is relied on: the JSON reader returns well-formed values, and the keys of a record are
  listed, in some order.\<close>

definition coercer_ok :: "coercer \<Rightarrow> bool" where
  "coercer_ok C \<longleftrightarrow> (\<forall>s v. co_json C s = Some v \<longrightarrow> json_wf v)"

definition lists_keys :: "key_list \<Rightarrow> bool" where
  "lists_keys ks \<longleftrightarrow> (\<forall>data. set (ks data) = fset (fmdom data))"

text \<open>No two columns, and no two keys of a record, differ only in case.\<close>

definition names_apart :: "stream_field list \<Rightarrow> bool" where
  "names_apart fs \<longleftrightarrow> distinct (map (\<lambda>f. to_ascii_lowercase (sf_name f)) fs)"

definition keys_apart :: "row \<Rightarrow> bool" where
  "keys_apart data \<longleftrightarrow> (\<forall>k \<in> fset (fmdom data). \<forall>l \<in> fset (fmdom data). eq_ignore_case k l \<longrightarrow> k = l)"

definition row_wf :: "row \<Rightarrow> bool" where
  "row_wf data \<longleftrightarrow> fmpred (\<lambda>_ v. json_wf v) data"

text \<open>What a record holds under a name in whatever case, and what a column gets from it: the value
  coerced; for a missing value or null the default; else null for null, the whole message for a
  missing binary column, and nothing for any other.\<close>

definition value_in :: "row \<Rightarrow> string \<Rightarrow> json option" where
  "value_in data n =
     Option.bind (find (\<lambda>k. eq_ignore_case k n) (sorted_list_of_fset (fmdom data))) (fmlookup data)"

definition column_value :: "coercer \<Rightarrow> row \<Rightarrow> stream_field \<Rightarrow> json option" where
  "column_value C data f =
     (case value_in data (sf_name f) of
        Some v \<Rightarrow>
          Some (if v \<noteq> Null then coerce_value_to_type C v (sf_type f)
                else (case sf_default f of Some d \<Rightarrow> parse_default_value C d (sf_type f) | None \<Rightarrow> Null))
      | None \<Rightarrow>
          (case sf_default f of
             Some d \<Rightarrow> Some (parse_default_value C d (sf_type f))
           | None \<Rightarrow> if is_self_type f then fmlookup data ''self'' else None))"

definition schema_lookup :: "coercer \<Rightarrow> stream_field list \<Rightarrow> row \<Rightarrow> string \<Rightarrow> json option" where
  "schema_lookup C fs data n =
     (case find (\<lambda>f. eq_ignore_case n (sf_name f)) fs of
        Some f \<Rightarrow> if n = sf_name f then column_value C data f else None
      | None \<Rightarrow> fmlookup data n)"

definition refused :: "coercer \<Rightarrow> stream_field list \<Rightarrow> row \<Rightarrow> bool" where
  "refused C fs data \<longleftrightarrow>
     list_ex (\<lambda>f. case value_in data (sf_name f) of
         Some v \<Rightarrow> v \<noteq> Null \<and> coerce_value_to_type C v (sf_type f) = Null | None \<Rightarrow> False) fs"

lemma same_sym: "eq_ignore_case a b \<longleftrightarrow> eq_ignore_case b a" "eq_ignore_case a a"
  "eq_ignore_case a b \<Longrightarrow> eq_ignore_case b c \<Longrightarrow> eq_ignore_case a c"
  by (auto simp: eq_ignore_case_def)

lemma in_dom: "k \<in> fset (fmdom data) \<longleftrightarrow> fmlookup data k \<noteq> None"
  by (simp add: fmlookup_dom_iff)

lemma find_found: "find P xs = Some x \<Longrightarrow> x \<in> set xs \<and> P x"
  by (auto simp: find_Some_iff)

lemma keys_apartD:
  "keys_apart data \<Longrightarrow> fmlookup data k \<noteq> None \<Longrightarrow> fmlookup data l \<noteq> None \<Longrightarrow> eq_ignore_case k l \<Longrightarrow> k = l"
  by (simp add: keys_apart_def in_dom)

lemma value_in_iff:
  assumes "keys_apart data"
  shows "value_in data n = Some v \<longleftrightarrow> (\<exists>k. eq_ignore_case k n \<and> fmlookup data k = Some v)"
proof
  assume "\<exists>k. eq_ignore_case k n \<and> fmlookup data k = Some v"
  then obtain k where k: "eq_ignore_case k n" "fmlookup data k = Some v" by blast
  then have "k \<in> fset (fmdom data)" by (simp add: in_dom)
  then have "find (\<lambda>k. eq_ignore_case k n) (sorted_list_of_fset (fmdom data)) \<noteq> None"
    using k(1) by (auto simp: find_None_iff)
  then obtain l where l: "find (\<lambda>k. eq_ignore_case k n) (sorted_list_of_fset (fmdom data)) = Some l" by blast
  then have "l \<in> fset (fmdom data)" "eq_ignore_case l n" using find_found[OF l] by simp_all
  then have "l = k" using keys_apartD[OF assms, of l k] k same_sym(1)[of k n] same_sym(3)[of l n k] by (simp add: in_dom)
  then show "value_in data n = Some v" using l k by (simp add: value_in_def)
qed (auto simp: value_in_def bind_eq_Some_conv dest: find_found)

lemma value_in_None: "keys_apart data \<Longrightarrow> value_in data n = None \<longleftrightarrow> (\<forall>k. eq_ignore_case k n \<longrightarrow> fmlookup data k = None)"
  using value_in_iff[of data n] by (metis not_None_eq)

lemma existing_key_value:
  assumes "lists_keys ks" "keys_apart data"
  shows "existing_key ks data n = None \<longleftrightarrow> value_in data n = None"
    "existing_key ks data n = Some k \<Longrightarrow> eq_ignore_case k n \<and> value_in data n = fmlookup data k \<and> fmlookup data k \<noteq> None"
proof -
  have keys: "x \<in> set (ks data) \<longleftrightarrow> fmlookup data x \<noteq> None" for x using assms(1) by (simp add: lists_keys_def in_dom)
  have found: "eq_ignore_case k n \<and> fmlookup data k \<noteq> None" if "existing_key ks data n = Some k" for k
  proof (cases "fmlookup data n = None")
    case True
    then show ?thesis using that find_found[of "\<lambda>k. eq_ignore_case k n" "ks data" k] keys[of k] by (simp add: existing_key_def)
  qed (use that same_sym(2) in \<open>simp add: existing_key_def\<close>)
  show "existing_key ks data n = None \<longleftrightarrow> value_in data n = None"
  proof
    assume "existing_key ks data n = None"
    then have "\<not> eq_ignore_case k n \<or> fmlookup data k = None" for k
      using keys[of k] by (auto simp: existing_key_def find_None_iff split: if_splits)
    then show "value_in data n = None" using value_in_None[OF assms(2)] by blast
  next
    assume "value_in data n = None"
    then show "existing_key ks data n = None" using found value_in_None[OF assms(2)] by (metis not_None_eq)
  qed
  show "eq_ignore_case k n \<and> value_in data n = fmlookup data k \<and> fmlookup data k \<noteq> None" if "existing_key ks data n = Some k"
    using found[OF that] value_in_iff[OF assms(2), of n] by (metis not_None_eq)
qed

lemma missing_field_lookup:
  "fmlookup (missing_field C f data) n =
     (if n = sf_name f \<and> (sf_default f \<noteq> None \<or> is_self_type f \<and> fmlookup data ''self'' \<noteq> None)
      then (case default_of C f of Some v \<Rightarrow> Some v | None \<Rightarrow> fmlookup data ''self'')
      else fmlookup data n)"
  by (auto simp: missing_field_def default_of_def split: option.splits)

text \<open>One column: its value under its name, no other spelling of it, and the rest as before.\<close>

lemma enforce_field_lookup:
  assumes "lists_keys ks" "keys_apart data"
  shows "fmlookup (enforce_field C ks data f) n =
    (if n = sf_name f then column_value C data f else if eq_ignore_case n (sf_name f) then None else fmlookup data n)"
proof (cases "existing_key ks data (sf_name f)")
  case None
  then have "value_in data (sf_name f) = None" using existing_key_value(1)[OF assms] by blast
  moreover from this have "eq_ignore_case n (sf_name f) \<Longrightarrow> fmlookup data n = None" for n
    using value_in_None[OF assms(2)] by blast
  ultimately show ?thesis
    using None same_sym(2)
    by (auto simp: enforce_field_def missing_field_lookup default_of_def column_value_def split: option.splits)
next
  case (Some k)
  then obtain v where k: "eq_ignore_case k (sf_name f)" "value_in data (sf_name f) = Some v" "fmlookup data k = Some v"
    using existing_key_value(2)[OF assms Some] by auto
  have e: "enforce_field C ks data f = fmupd (sf_name f) (the (column_value C data f)) (fmdrop k data)"
    "column_value C data f \<noteq> None"
    using Some k(2,3)
    by (cases v; simp add: enforce_field_def Let_def value_at_def null_field_def default_of_def column_value_def split: option.split)+
  have "fmlookup data n = None" if "eq_ignore_case n (sf_name f)" "n \<noteq> k"
    using that k keys_apartD[OF assms(2), of n k] same_sym(1)[of k "sf_name f"] same_sym(3)[of n "sf_name f" k]
    by (cases "fmlookup data n") auto
  moreover have "\<not> eq_ignore_case n (sf_name f) \<Longrightarrow> n \<noteq> k" using k(1) by blast
  ultimately show ?thesis using e by (cases "n = k") auto
qed

lemma enforce_field_apart:
  assumes "lists_keys ks" "keys_apart data"
  shows "keys_apart (enforce_field C ks data f)"
proof -
  have cases: "k = sf_name f \<or> \<not> eq_ignore_case k (sf_name f) \<and> fmlookup data k \<noteq> None"
    if "fmlookup (enforce_field C ks data f) k \<noteq> None" for k
    using that by (simp add: enforce_field_lookup[OF assms] split: if_splits)
  have "k = l" if "fmlookup (enforce_field C ks data f) k \<noteq> None" "fmlookup (enforce_field C ks data f) l \<noteq> None"
      "eq_ignore_case k l" for k l
    using cases[OF that(1)] cases[OF that(2)] that(3) keys_apartD[OF assms(2), of k l] same_sym(1) by metis
  then show ?thesis by (simp add: keys_apart_def in_dom)
qed

lemma other_columns:
  assumes "lists_keys ks" "keys_apart data" "\<not> eq_ignore_case (sf_name f) m"
  shows "value_in (enforce_field C ks data f) m = value_in data m"
proof -
  have "fmlookup (enforce_field C ks data f) k = fmlookup data k" if "eq_ignore_case k m" for k
    using that assms(3) same_sym unfolding enforce_field_lookup[OF assms(1,2)] by metis
  then show ?thesis
    using value_in_iff[OF enforce_field_apart[OF assms(1,2)], of C f m] value_in_iff[OF assms(2), of m]
    by (metis not_None_eq)
qed

lemma other_column_value:
  assumes "lists_keys ks" "keys_apart data" "\<not> eq_ignore_case (sf_name f) (sf_name g)" "\<not> eq_ignore_case ''self'' (sf_name f)"
  shows "column_value C (enforce_field C ks data f) g = column_value C data g"
proof -
  have "fmlookup (enforce_field C ks data f) ''self'' = fmlookup data ''self''"
    using assms(4) same_sym(2) unfolding enforce_field_lookup[OF assms(1,2)] by metis
  then show ?thesis by (simp add: column_value_def other_columns[OF assms(1-3)] split: option.split)
qed

definition no_self :: "stream_field list \<Rightarrow> bool" where
  "no_self fs \<longleftrightarrow> list_all (\<lambda>f. \<not> eq_ignore_case ''self'' (sf_name f)) fs"

lemma enforced_lookup:
  assumes "lists_keys ks"
  shows "names_apart fs \<Longrightarrow> no_self fs \<Longrightarrow> keys_apart data \<Longrightarrow>
    fmlookup (enforce_stream_schema C ks fs data) n = schema_lookup C fs data n"
proof (induction fs arbitrary: data)
  case (Cons f fs)
  let ?d = "enforce_field C ks data f"
  have apart: "\<not> eq_ignore_case (sf_name f) (sf_name g)" if "g \<in> set fs" for g
    using that Cons.prems(1) by (auto simp: names_apart_def eq_ignore_case_def image_iff)
  have "fmlookup (enforce_stream_schema C ks fs ?d) n = schema_lookup C fs ?d n"
    using Cons.IH[OF _ _ enforce_field_apart[OF assms Cons.prems(3)]] Cons.prems(1,2) by (simp add: names_apart_def no_self_def)
  also have "\<dots> = schema_lookup C (f # fs) data n"
  proof (cases "find (\<lambda>g. eq_ignore_case n (sf_name g)) fs")
    case None
    then show ?thesis
      using same_sym(2) by (auto simp: schema_lookup_def enforce_field_lookup[OF assms Cons.prems(3)])
  next
    case (Some g)
    then have g: "g \<in> set fs" "eq_ignore_case n (sf_name g)" by (auto simp: find_Some_iff)
    then have "\<not> eq_ignore_case n (sf_name f)" using apart[OF g(1)] same_sym by metis
    then show ?thesis
      using Some other_column_value[OF assms Cons.prems(3) apart[OF g(1)]] Cons.prems(2)
      by (simp add: schema_lookup_def no_self_def)
  qed
  finally show ?case by (simp add: enforce_stream_schema_def)
qed (simp add: enforce_stream_schema_def schema_lookup_def)

text \<open>The checked variant gives up exactly on the refused records, and else does what the plain one
  does.\<close>

lemma checked_agrees: "enforce_stream_schema_checked C ks fs data = (None, d) \<Longrightarrow> d = enforce_stream_schema C ks fs data"
proof (induction fs arbitrary: data)
  case (Cons f fs)
  then show ?case
    by (auto simp: enforce_stream_schema_def enforce_field_def Let_def split: option.splits if_splits)
qed (simp add: enforce_stream_schema_def)

lemma checked_refuses:
  assumes "lists_keys ks"
  shows "names_apart fs \<Longrightarrow> keys_apart data \<Longrightarrow> fst (enforce_stream_schema_checked C ks fs data) = None \<longleftrightarrow> \<not> refused C fs data"
proof (induction fs arbitrary: data)
  case (Cons f fs)
  let ?d = "enforce_field C ks data f"
  have apart: "\<not> eq_ignore_case (sf_name f) (sf_name g)" if "g \<in> set fs" for g
    using that Cons.prems(1) by (auto simp: names_apart_def eq_ignore_case_def image_iff)
  have "refused C fs ?d = refused C fs data"
    using other_columns[OF assms Cons.prems(2) apart] by (auto simp: refused_def list_ex_iff)
  then have IH: "fst (enforce_stream_schema_checked C ks fs ?d) = None \<longleftrightarrow> \<not> refused C fs data"
    using Cons.IH[OF _ enforce_field_apart[OF assms Cons.prems(2)]] Cons.prems(1) by (simp add: names_apart_def)
  show ?case
  proof (cases "existing_key ks data (sf_name f)")
    case None
    then show ?thesis
      using IH existing_key_value(1)[OF assms Cons.prems(2), of "sf_name f"] by (simp add: enforce_field_def refused_def)
  next
    case (Some k)
    then obtain v where v: "value_in data (sf_name f) = Some v" "fmlookup data k = Some v"
      using existing_key_value(2)[OF assms Cons.prems(2)] by fastforce
    then show ?thesis
      using IH Some by (cases v; cases "coerce_value_to_type C v (sf_type f)") (simp_all add: enforce_field_def refused_def Let_def value_at_def)
  qed
qed (simp add: refused_def)

subsection \<open>The task\<close>

text \<open>The records handed on and those reported, by the policy of the rule.\<close>

fun handed_on :: "on_error_policy \<Rightarrow> (row \<Rightarrow> bool) \<Rightarrow> row list \<Rightarrow> row list" where
  "handed_on Drop bad rs = rs"
| "handed_on Dlq bad rs = filter (\<lambda>r. \<not> bad r) rs"
| "handed_on Halt bad rs = takeWhile (\<lambda>r. \<not> bad r) rs"

fun refused_count :: "on_error_policy \<Rightarrow> (row \<Rightarrow> bool) \<Rightarrow> row list \<Rightarrow> nat" where
  "refused_count Drop bad rs = 0"
| "refused_count Dlq bad rs = length (filter bad rs)"
| "refused_count Halt bad rs = (if list_ex bad rs then 1 else 0)"

lemma route_error_counts:
  "dr_on_error D \<noteq> Drop \<Longrightarrow> ct_dlq_records (fst (fst (route_error D now stage err raw tup sink st))) = ct_dlq_records (fst st) + 1"
  by (cases st) (simp add: route_error_def Let_def inc_dlq_def record_exception_def)

lemma schema_step_handed:
  fixes C :: coercer and D :: dlq_router and now :: int
  assumes "lists_keys ks" "names_apart fs" "keys_apart data" "so_open st"
  defines "bad \<equiv> refused C fs data" and "st' \<equiv> schema_step C ks fs D now data st"
  shows "so_sent st' = so_sent st @ (if bad \<and> dr_on_error D \<noteq> Drop then [] else [enforce_stream_schema C ks fs data])"
    "ct_dlq_records (fst (so_dlq st')) = ct_dlq_records (fst (so_dlq st)) + (if bad \<and> dr_on_error D \<noteq> Drop then 1 else 0)"
    "so_open st' \<longleftrightarrow> \<not> (bad \<and> dr_on_error D = Halt)"
proof -
  obtain me d where c: "enforce_stream_schema_checked C ks fs data = (me, d)" by fastforce
  have me: "me = None \<longleftrightarrow> \<not> bad" using checked_refuses[OF assms(1-3), of C] c by (simp add: bad_def)
  have d: "me = None \<Longrightarrow> d = enforce_stream_schema C ks fs data" using checked_agrees c by blast
  have n: "\<exists>c1 q effs. route_error D now SchemaValidation err raw tup None (so_dlq st) = ((c1, q), effs)
      \<and> ct_dlq_records c1 = ct_dlq_records (fst (so_dlq st)) + 1" if "dr_on_error D \<noteq> Drop" for err raw tup
    using route_error_counts[OF that] by (metis fst_conv surj_pair)
  show "so_sent st' = so_sent st @ (if bad \<and> dr_on_error D \<noteq> Drop then [] else [enforce_stream_schema C ks fs data])"
    using me d assms(4) by (auto simp: st'_def schema_step_def c split: prod.split option.split)
  show "ct_dlq_records (fst (so_dlq st')) = ct_dlq_records (fst (so_dlq st)) + (if bad \<and> dr_on_error D \<noteq> Drop then 1 else 0)"
    "so_open st' \<longleftrightarrow> \<not> (bad \<and> dr_on_error D = Halt)"
  proof -
    have "(ct_dlq_records (fst (so_dlq st')) = ct_dlq_records (fst (so_dlq st)) + (if bad \<and> dr_on_error D \<noteq> Drop then 1 else 0))
      \<and> (so_open st' \<longleftrightarrow> \<not> (bad \<and> dr_on_error D = Halt))"
    proof (cases "me = None \<or> dr_on_error D = Drop")
      case True
      then show ?thesis using me assms(4) by (auto simp: st'_def schema_step_def c split: option.split)
    next
      case False
      then obtain e where e: "me = Some e" "dr_on_error D \<noteq> Drop" by auto
      from n[OF e(2)] obtain c1 q effs where
        "route_error D now SchemaValidation (mismatch_text e) (Some (co_show C (Obj d))) (Some (Obj d)) None (so_dlq st) = ((c1, q), effs)"
        "ct_dlq_records c1 = ct_dlq_records (fst (so_dlq st)) + 1" by blast
      then show ?thesis using e me assms(4) by (simp add: st'_def schema_step_def c)
    qed
    then show "ct_dlq_records (fst (so_dlq st')) = ct_dlq_records (fst (so_dlq st)) + (if bad \<and> dr_on_error D \<noteq> Drop then 1 else 0)"
      "so_open st' \<longleftrightarrow> \<not> (bad \<and> dr_on_error D = Halt)" by blast+
  qed
qed

lemma closed_task: "\<not> so_open st \<Longrightarrow> schema_task C ks fs D rs st = st"
  by (induction rs) (auto simp: schema_task_def schema_step_def)

lemma schema_task_handed:
  assumes "lists_keys ks" "names_apart fs"
  shows "\<forall>(now, r) \<in> set rs. keys_apart r \<Longrightarrow> so_open st \<Longrightarrow>
    so_sent (schema_task C ks fs D rs st)
      = so_sent st @ map (enforce_stream_schema C ks fs) (handed_on (dr_on_error D) (refused C fs) (map snd rs))
    \<and> ct_dlq_records (fst (so_dlq (schema_task C ks fs D rs st)))
      = ct_dlq_records (fst (so_dlq st)) + of_nat (refused_count (dr_on_error D) (refused C fs) (map snd rs))"
proof (induction rs arbitrary: st)
  case Nil
  then show ?case by (cases "dr_on_error D") (simp_all add: schema_task_def)
next
  case (Cons r rs)
  obtain now data where r: "r = (now, data)" by (cases r)
  have k: "keys_apart data" using Cons.prems r by simp
  let ?st = "schema_step C ks fs D now data st"
  note s = schema_step_handed[OF assms k Cons.prems(2), of C D now]
  have "schema_task C ks fs D (r # rs) st = schema_task C ks fs D rs ?st" by (simp add: schema_task_def r)
  moreover have "so_open ?st \<Longrightarrow> so_sent (schema_task C ks fs D rs ?st)
      = so_sent ?st @ map (enforce_stream_schema C ks fs) (handed_on (dr_on_error D) (refused C fs) (map snd rs))
    \<and> ct_dlq_records (fst (so_dlq (schema_task C ks fs D rs ?st)))
      = ct_dlq_records (fst (so_dlq ?st)) + of_nat (refused_count (dr_on_error D) (refused C fs) (map snd rs))"
    using Cons.IH[of ?st] Cons.prems(1) by simp
  ultimately show ?case
    using s closed_task[of ?st] r by (cases "dr_on_error D"; cases "refused C fs data") (simp_all add: add.assoc add.commute)
qed

text \<open>The columns of a record that was handed on.\<close>

lemma column_typed:
  assumes "coercer_ok C" "row_wf data" "keys_apart data" "known d" "type_name (sf_type f) = declared_text d" "\<not> is_self_type f"
    "column_value C data f = Some w"
  shows "w = Null \<or> holds d w"
proof -
  have def: "parse_default_value C raw (sf_type f) = Null \<or> holds d (parse_default_value C raw (sf_type f))" for raw
    using coerced_holds[OF assms(4,5), of _ C] assms(1)
    by (auto simp: parse_default_value_def Let_def coercer_ok_def split: option.split)
  have "coerce_value_to_type C v (sf_type f) = Null \<or> holds d (coerce_value_to_type C v (sf_type f))"
    if "value_in data (sf_name f) = Some v" for v
    using that assms(2,3) value_in_iff[OF assms(3)] by (intro coerced_holds[OF assms(4,5)]) (auto simp: row_wf_def fmpred_iff)
  with def assms(6,7) show ?thesis by (auto simp: column_value_def split: option.splits if_splits)
qed

subsection \<open>Properties\<close>

definition demo_coercer :: coercer where
  "demo_coercer = \<lparr>co_f64 = (\<lambda>_. None), co_show = (\<lambda>_. ''value''), co_dates = [], co_json = (\<lambda>_. None)\<rparr>"

definition demo_columns :: "stream_field list" where
  "demo_columns =
     [\<lparr>sf_name = ''t'', sf_type = ''bigint'', sf_default = None\<rparr>,
      \<lparr>sf_name = ''on'', sf_type = ''boolean'', sf_default = Some ''true''\<rparr>]"

definition demo_keys :: key_list where
  "demo_keys data = sorted_list_of_fset (fmdom data)"



text \<open>C28: The task in front of a rule hands on, in order, the records it was given: all of them when
  errors are dropped, all but the refused ones when errors go to the dead-letter queue, those
  before the first refused one when the rule halts; the dead-letter queue counts the others, one for
  each refused record, or one for the record that halts the rule. A record is refused when some
  column holds a value that has no counterpart in its type. A record handed on holds under the name
  of each column the value of the record, coerced, or the default for a missing value or null; no
  other spelling of that name; and everything else as it was. Where the type of the column is one
  of the types of known values, other than \<open>bytea\<close> and \<open>binary\<close>, which may take the whole message
  as it is, the value is null or of that type; character types with a length enforce nothing.
  This needs that no two columns and no two keys of a record differ only in case and that no
  column is called \<open>self\<close>.\<close>

theorem schema_task_is_typed_and_complete:
  assumes "coercer_ok C" "lists_keys ks" "names_apart fs" "no_self fs" "\<forall>(now, r) \<in> set rs. row_wf r \<and> keys_apart r" "so_open st"
  shows "\<exists>out. so_sent (schema_task C ks fs D rs st) = so_sent st @ out
    \<and> list_all2 (\<lambda>r d. \<forall>n. fmlookup d n = schema_lookup C fs r n) (handed_on (dr_on_error D) (refused C fs) (map snd rs)) out
    \<and> ct_dlq_records (fst (so_dlq (schema_task C ks fs D rs st)))
        = ct_dlq_records (fst (so_dlq st)) + of_nat (refused_count (dr_on_error D) (refused C fs) (map snd rs))
    \<and> (\<forall>row \<in> set out. \<forall>f \<in> set fs. \<forall>d w. known d \<and> type_name (sf_type f) = declared_text d \<and> \<not> is_self_type f
        \<and> fmlookup row (sf_name f) = Some w \<longrightarrow> w = Null \<or> holds d w)"
proof -
  let ?in = "handed_on (dr_on_error D) (refused C fs) (map snd rs)"
  have sub: "r \<in> set ?in \<Longrightarrow> row_wf r \<and> keys_apart r" for r
    using assms(5) by (cases "dr_on_error D") (force dest: set_takeWhileD)+
  have look: "fmlookup (enforce_stream_schema C ks fs r) n = schema_lookup C fs r n" if "r \<in> set ?in" for r n
    using enforced_lookup[OF assms(2-4)] sub[OF that] by blast
  have typed: "w = Null \<or> holds d w"
    if r: "r \<in> set ?in" and f: "f \<in> set fs" and d: "known d" "type_name (sf_type f) = declared_text d" "\<not> is_self_type f"
      and w: "fmlookup (enforce_stream_schema C ks fs r) (sf_name f) = Some w" for r f d w
  proof -
    obtain g where g: "find (\<lambda>g. eq_ignore_case (sf_name f) (sf_name g)) fs = Some g"
      using f same_sym(2) by (metis find_None_iff not_None_eq)
    then have "g \<in> set fs" "eq_ignore_case (sf_name f) (sf_name g)" by (auto simp: find_Some_iff)
    then have "g = f" using f assms(3) by (auto simp: names_apart_def eq_ignore_case_def distinct_map inj_on_def)
    then have "column_value C r f = Some w" using w g by (simp add: look[OF r] schema_lookup_def)
    then show ?thesis using column_typed[OF assms(1)] sub[OF r] d by blast
  qed
  have "list_all2 (\<lambda>r d. \<forall>n. fmlookup d n = schema_lookup C fs r n) ?in (map (enforce_stream_schema C ks fs) ?in)"
    using look by (simp add: list_all2_conv_all_nth)
  then show ?thesis
    using schema_task_handed[OF assms(2,3), of rs st C D] assms(5,6) typed
    by (intro exI[of _ "map (enforce_stream_schema C ks fs) ?in"]) (auto simp: split_beta)
qed

definition strict_router :: dlq_router where
  "strict_router = \<lparr>dr_rule_id = ''r1'', dr_on_error = Dlq, dr_include_raw = True, dr_capacity = 10, dr_external = False, dr_manager = False\<rparr>"

definition demo_first :: row where "demo_first = fmap_of_list [(''T'', Str ''7''), (''note'', Null)]"
definition demo_second :: row where "demo_second = fmap_of_list [(''t'', Arr [])]"

definition demo_records :: "(int \<times> row) list" where
  "demo_records = [(1, demo_first), (2, demo_second)]"

definition schema_start :: schema_out where
  "schema_start = \<lparr>so_sent = [], so_dlq = (counters_init, []), so_effects = [], so_open = True\<rparr>"

lemma demo_coercer_ok: "coercer_ok demo_coercer"
  by (simp add: coercer_ok_def demo_coercer_def)

lemma demo_keys_listed: "lists_keys demo_keys"
  by (simp add: lists_keys_def demo_keys_def)

lemma demo_columns_apart: "names_apart demo_columns" "no_self demo_columns"
  by code_simp+

lemma demo_records_wf: "\<forall>(now, r) \<in> set demo_records. row_wf r \<and> keys_apart r"
  by code_simp

text \<open>The first record is handed on under the name of the column; the second, an array for an integer,
  is refused.\<close>

lemma demo_coerced:
  "coerce_value_to_type demo_coercer (Str ''7'') ''bigint'' = of_i64 7" "coerce_value_to_type demo_coercer (Arr []) ''bigint'' = Null"
proof -
  have n: "''bigint'' \<in> set (names_of IntK)" by simp
  have b: "type_name ''bigint'' = ''bigint''" using plain_name_trim[OF known_plain[OF n]] by simp
  have "str_trim ''7'' = ''7''" by (rule trim_dark; simp add: dark_def)
  moreover have "parse_i64 ''7'' = Some 7" by code_simp
  ultimately show "coerce_value_to_type demo_coercer (Str ''7'') ''bigint'' = of_i64 7"
    "coerce_value_to_type demo_coercer (Arr []) ''bigint'' = Null"
    by (simp_all add: coerce_plain[OF b n] coerce_int_def)
qed

lemma demo_values:
  "value_in demo_first ''t'' = Some (Str ''7'')"
  "value_in demo_first ''on'' = None"
  "value_in demo_second ''t'' = Some (Arr [])"
  by code_simp+

lemma demo_note: "fmlookup demo_first ''note'' = Some Null"
  by code_simp

lemma demo_same: "eq_ignore_case ''t'' ''t''" "eq_ignore_case ''T'' ''t''" "\<not> eq_ignore_case ''note'' ''t''" "\<not> eq_ignore_case ''note'' ''on''"
  by code_simp+

theorem schema_task_is_typed_and_complete_witness:
  "\<exists>d. so_sent (schema_task demo_coercer demo_keys demo_columns strict_router demo_records schema_start) = [d]
     \<and> fmlookup d ''t'' = Some (of_i64 7) \<and> fmlookup d ''T'' = None \<and> fmlookup d ''note'' = Some Null
     \<and> ct_dlq_records (fst (so_dlq (schema_task demo_coercer demo_keys demo_columns strict_router demo_records schema_start))) = 1"
proof -
  have bad: "\<not> refused demo_coercer demo_columns demo_first" "refused demo_coercer demo_columns demo_second"
    by (simp_all add: refused_def demo_columns_def demo_values demo_coerced of_i64_def)
  have h: "handed_on (dr_on_error strict_router) (refused demo_coercer demo_columns) (map snd demo_records) = [demo_first]"
    "refused_count (dr_on_error strict_router) (refused demo_coercer demo_columns) (map snd demo_records) = 1"
    using bad by (simp_all add: strict_router_def demo_records_def)
  have l: "schema_lookup demo_coercer demo_columns demo_first ''t'' = Some (of_i64 7)" "schema_lookup demo_coercer demo_columns demo_first ''T'' = None"
    "schema_lookup demo_coercer demo_columns demo_first ''note'' = Some Null"
    by (simp_all add: schema_lookup_def demo_columns_def demo_same column_value_def demo_values demo_coerced demo_note)
  have "so_open schema_start" "so_sent schema_start = []" "ct_dlq_records (fst (so_dlq schema_start)) = 0"
    by (simp_all add: schema_start_def counters_init_def)
  with schema_task_is_typed_and_complete[OF demo_coercer_ok demo_keys_listed demo_columns_apart demo_records_wf, of schema_start strict_router] h l
  show ?thesis by (auto simp: list_all2_Cons1)
qed

subsection \<open>Values the declared type does not reach\<close>

text \<open>The tests on the names of the types are evaluated one by one.\<close>

lemma trimmed_names: "str_trim ''bigint'' = ''bigint''" "str_trim ''decimal'' = ''decimal''" "str_trim ''decimal[]'' = ''decimal[]''"
  "str_trim ''varchar(8)'' = ''varchar(8)''"
  by (rule trim_dark; simp add: dark_def)+

lemma lower_names: "to_ascii_lowercase ''bigint'' = ''bigint''" "to_ascii_lowercase ''decimal'' = ''decimal''"
  "to_ascii_lowercase ''decimal[]'' = ''decimal[]''" "to_ascii_lowercase ''varchar(8)'' = ''varchar(8)''"
  by code_simp+

lemma type_names: "type_name ''bigint'' = ''bigint''" "type_name ''decimal[]'' = ''decimal[]''" "type_name ''varchar(8)'' = ''varchar(8)''"
  by (simp_all add: type_name_def trimmed_names lower_names)

lemma plain_names:
  "''bigint'' \<in> set INT_TYPES" "''decimal[]'' \<notin> set INT_TYPES" "''decimal[]'' \<notin> set FLOAT_TYPES"
  "''decimal[]'' \<notin> set STRING_TYPES" "''decimal[]'' \<notin> set BOOL_TYPES" "''decimal[]'' \<notin> set DATE_TYPES"
  "''decimal[]'' \<notin> set BLOB_TYPES" "''varchar(8)'' \<notin> set INT_TYPES" "''varchar(8)'' \<notin> set FLOAT_TYPES"
  "''varchar(8)'' \<notin> set STRING_TYPES" "''varchar(8)'' \<notin> set BOOL_TYPES" "''varchar(8)'' \<notin> set DATE_TYPES"
  "''varchar(8)'' \<notin> set BLOB_TYPES"
  by (simp_all add: INT_TYPES_def FLOAT_TYPES_def STRING_TYPES_def BOOL_TYPES_def DATE_TYPES_def BLOB_TYPES_def)

lemma name_shapes:
  "starts_with ''decimal'' ''decimal[]''" "\<not> starts_with ''decimal'' ''varchar(8)''"
  "\<not> starts_with ''numeric'' ''varchar(8)''" "\<not> starts_with ''array'' ''varchar(8)''"
  "\<not> ends_with ''[]'' ''varchar(8)''" "\<not> starts_with ''struct'' ''varchar(8)''"
  by (simp_all add: starts_with_def ends_with_def)

text \<open>An integer above the largest \<open>i64\<close> becomes a negative one.\<close>

lemma large_integer_turns_negative: "coerce_value_to_type C (Number (PosInt (2 ^ 63))) ''bigint'' = of_i64 (- (2 ^ 63))"
proof -
  have "wrap64 (2 ^ 63) = - (2 ^ 63)" by code_simp
  then show ?thesis
    by (simp add: coerce_value_to_type.simps[of C _ "''bigint''"] Let_def type_names plain_names coerce_int_def i64_max_def)
qed

text \<open>Arrays of decimals are accepted as a type of a column, but every array is then refused.\<close>

lemma decimal_array_valid: "is_valid_stream_type ''decimal[]''"
proof -
  have v: "is_valid_stream_type ''decimal''"
    by (simp add: is_valid_stream_type.simps[of "''decimal''"] Let_def trimmed_names lower_names PLAIN_TYPES_def)
  have c: "''decimal[]'' \<notin> set PLAIN_TYPES" "ends_with ''[]'' ''decimal[]''" by (simp_all add: PLAIN_TYPES_def ends_with_def starts_with_def)
  have w: "\<not> ends_with '')'' ''decimal[]''" "\<not> starts_with ''array['' ''decimal[]''" by (simp_all add: starts_with_def ends_with_def)
  show ?thesis
    by (simp add: is_valid_stream_type.simps[of "''decimal[]''"] trimmed_names lower_names c w wrapped_def v cong: let_weak_cong if_weak_cong)
qed

lemma decimal_arrays_are_lost:
  "is_valid_stream_type ''decimal[]'' \<and> coerce_value_to_type C (Arr xs) ''decimal[]'' = Null"
  by (simp add: decimal_array_valid coerce_value_to_type.simps[of C _ "''decimal[]''"] Let_def type_names plain_names name_shapes coerce_decimal_def)

text \<open>A length makes a character type opaque: nothing is coerced to it.\<close>

lemma sized_varchar_valid: "is_valid_stream_type ''varchar(8)''"
proof -
  have c: "''varchar(8)'' \<notin> set PLAIN_TYPES" "starts_with ''varchar('' ''varchar(8)''" "ends_with '')'' ''varchar(8)''"
    "\<not> starts_with ''decimal('' ''varchar(8)''" "\<not> starts_with ''numeric('' ''varchar(8)''"
    by (simp_all add: PLAIN_TYPES_def starts_with_def ends_with_def)
  have d: "all_digits (parens_of ''varchar(8)'')" by code_simp
  show ?thesis
    by (simp add: is_valid_stream_type.simps[of "''varchar(8)''"] trimmed_names lower_names c wrapped_def d cong: let_weak_cong if_weak_cong)
qed

lemma sized_varchar_is_not_enforced:
  "is_valid_stream_type ''varchar(8)'' \<and> coerce_value_to_type C v ''varchar(8)'' = v"
  by (simp add: sized_varchar_valid coerce_value_to_type.simps[of C _ "''varchar(8)''"] Let_def type_names plain_names name_shapes)

text \<open>The value that a record is refused for is gone from the record that is reported.\<close>

lemma refused_value_is_lost:
  assumes "coerce_value_to_type C v (sf_type f) = Null" "v \<noteq> Null"
  shows "\<exists>e. enforce_stream_schema_checked C ks (f # fs) (fmupd (sf_name f) v data) = (Some e, fmdrop (sf_name f) data)"
proof -
  have "fmdrop (sf_name f) (fmupd (sf_name f) v data) = fmdrop (sf_name f) data" by (rule fmap_ext) simp
  then show ?thesis using assms by (cases v) (simp_all add: existing_key_def value_at_def Let_def)
qed

text \<open>A binary column takes \<open>self\<close> as it is, of whatever type.\<close>

lemma self_is_not_coerced:
  assumes "is_self_type f" "sf_default f = None" "existing_key ks data (sf_name f) = None" "fmlookup data ''self'' = Some v"
  shows "fmlookup (enforce_stream_schema C ks [f] data) (sf_name f) = Some v"
  using assms by (simp add: enforce_stream_schema_def enforce_field_def missing_field_def default_of_def)

end
