(* ===== verification/SinkFormat.thy ===== *)
theory SinkFormat
  imports ParserDdl StreamBus SinkCache
begin

text \<open>
  What a sink makes of a record before it is sent (\<open>crates/rekuiper-server/src/engine/sinks.rs\<close>): the
  options shared by the sinks, the choice and cleaning of the fields, rows of delimited text and the
  buffer in front of a file, and the options of the offline cache (\<open>sink_cache.rs\<close>). The rendering of
  values as JSON text is a parameter.
\<close>

subsection \<open>Options\<close>

text \<open>\<open>Value::get\<close> with a name: only an object has fields.\<close>

definition json_get :: "json \<Rightarrow> string \<Rightarrow> json option" where
  "json_get v k = (case v of Obj m \<Rightarrow> fmlookup m k | _ \<Rightarrow> None)"

definition parse_bool_text :: "string \<Rightarrow> bool option" where
  "parse_bool_text s = (if s = ''true'' then Some True else if s = ''false'' then Some False else None)"

definition lenient_bool :: "json \<Rightarrow> bool option" where
  "lenient_bool v = (case v of Bool b \<Rightarrow> Some b | Str s \<Rightarrow> parse_bool_text s | _ \<Rightarrow> None)"

definition lenient_u64 :: "json \<Rightarrow> int option" where
  "lenient_u64 v = (case as_u64 v of Some n \<Rightarrow> Some n | None \<Rightarrow> (case v of Str s \<Rightarrow> parse_u64 s | _ \<Rightarrow> None))"

definition text_items :: "json \<Rightarrow> string list option" where
  "text_items v = (case v of Arr xs \<Rightarrow> Some (List.map_filter as_str xs) | _ \<Rightarrow> None)"

definition disabled_flag :: "(string \<Rightarrow> json option) \<Rightarrow> bool" where
  "disabled_flag get =
     (case Option.bind (or_else (get ''disabled'') (get ''disable'')) lenient_bool of Some b \<Rightarrow> b | None \<Rightarrow> False)"

definition is_action_disabled :: "row \<Rightarrow> json \<Rightarrow> bool" where
  "is_action_disabled action opts \<longleftrightarrow> disabled_flag (fmlookup action) \<or> disabled_flag (json_get opts)"

record common_opts =
  co_send_single :: bool
  co_send_nil_field :: bool
  co_fields :: "string list option"
  co_exclude_fields :: "string list option"
  co_data_field :: "string option"
  co_format :: "string option"
  co_batch_size :: nat
  co_linger :: nat

definition or_default :: "'a option \<Rightarrow> 'a \<Rightarrow> 'a" where
  "or_default x d = (case x of Some y \<Rightarrow> y | None \<Rightarrow> d)"

definition parse_common_opts :: "json \<Rightarrow> bool \<Rightarrow> bool \<Rightarrow> common_opts" where
  "parse_common_opts opts rule_nil default_single =
     \<lparr>co_send_single = or_default (Option.bind (json_get opts ''sendSingle'') lenient_bool) default_single,
      co_send_nil_field = or_default (Option.bind (json_get opts ''sendNilField'') lenient_bool) rule_nil,
      co_fields = Option.bind (json_get opts ''fields'') text_items,
      co_exclude_fields = Option.bind (json_get opts ''excludeFields'') text_items,
      co_data_field = Option.bind (Option.bind (json_get opts ''dataField'') as_str) (\<lambda>s. if s = [] then None else Some s),
      co_format = map_option to_ascii_lowercase (Option.bind (json_get opts ''format'') as_str),
      co_batch_size = nat (or_default (Option.bind (json_get opts ''batchSize'') lenient_u64) 0),
      co_linger = nat (or_default (Option.bind (json_get opts ''lingerInterval'') lenient_u64) 0)\<rparr>"

subsection \<open>Fields\<close>

primrec clean_sink_value :: "bool \<Rightarrow> json \<Rightarrow> json" where
  "clean_sink_value nil Null = Null"
| "clean_sink_value nil (Bool b) = Bool b"
| "clean_sink_value nil (Number n) = Number n"
| "clean_sink_value nil (Str s) = Str s"
| "clean_sink_value nil (Arr xs) = Arr (map (clean_sink_value nil) xs)"
| "clean_sink_value nil (Obj m) =
     Obj (fmfilter (\<lambda>k. visible_key k \<and> (nil \<or> fmlookup m k \<noteq> Some Null)) (fmmap (clean_sink_value nil) m))"

definition excluded :: "common_opts \<Rightarrow> string \<Rightarrow> bool" where
  "excluded opts k \<longleftrightarrow> (case co_exclude_fields opts of Some ex \<Rightarrow> k \<in> set ex | None \<Rightarrow> False)"

definition field_value :: "row \<Rightarrow> string \<Rightarrow> json" where
  "field_value data k = or_default (fmlookup data k) Null"

definition pick_fields :: "common_opts \<Rightarrow> string list \<Rightarrow> row \<Rightarrow> row" where
  "pick_fields opts ks data = fmap_of_list (map (\<lambda>k. (k, clean_sink_value (co_send_nil_field opts) (field_value data k))) ks)"

definition kept_fields :: "common_opts \<Rightarrow> (string \<Rightarrow> bool) \<Rightarrow> row \<Rightarrow> row" where
  "kept_fields opts shown data =
     fmmap (clean_sink_value (co_send_nil_field opts))
       (fmfilter (\<lambda>k. shown k \<and> \<not> excluded opts k \<and> (co_send_nil_field opts \<or> fmlookup data k \<noteq> Some Null)) data)"

definition raw_error_record :: "row \<Rightarrow> row" where
  "raw_error_record data = fmfilter (\<lambda>k. k = ''error'' \<or> k = ''rule_id'') data"

definition format_record_for_sink :: "common_opts \<Rightarrow> row \<Rightarrow> json" where
  "format_record_for_sink opts data =
     (if fmlookup data ''__raw_error__'' \<noteq> None then Obj (raw_error_record data)
      else (case co_data_field opts of
              Some df \<Rightarrow>
                (case fmlookup data df of
                   Some (Obj m) \<Rightarrow>
                     Obj (case co_fields opts of
                            Some fs \<Rightarrow> pick_fields opts fs m
                          | None \<Rightarrow> kept_fields opts (\<lambda>_. True) m)
                 | Some v \<Rightarrow> clean_sink_value (co_send_nil_field opts) v
                 | None \<Rightarrow> Null)
            | None \<Rightarrow>
                Obj (case co_fields opts of
                       Some fs \<Rightarrow> pick_fields opts (filter (\<lambda>k. \<not> excluded opts k) fs) data
                     | None \<Rightarrow> kept_fields opts visible_key data)))"

definition format_record_for_sink_val :: "common_opts \<Rightarrow> json \<Rightarrow> json" where
  "format_record_for_sink_val opts v = (case v of Obj m \<Rightarrow> format_record_for_sink opts m | _ \<Rightarrow> v)"

definition to_sink_payload :: "bool \<Rightarrow> json \<Rightarrow> json" where
  "to_sink_payload single v = (if single then v else Arr [v])"

subsection \<open>Delimited text\<close>

fun contains_text :: "string \<Rightarrow> string \<Rightarrow> bool" where
  "contains_text p [] = (p = [])"
| "contains_text p (c # cs) = (starts_with p (c # cs) \<or> contains_text p cs)"

definition QUOTE :: char where
  "QUOTE = CHR 0x22"

definition double_quotes :: "string \<Rightarrow> string" where
  "double_quotes s = concat (map (\<lambda>c. if c = QUOTE then [QUOTE, QUOTE] else [c]) s)"

definition needs_quotes :: "string \<Rightarrow> string \<Rightarrow> bool" where
  "needs_quotes delim s \<longleftrightarrow> contains_text delim s \<or> QUOTE \<in> set s \<or> LF \<in> set s \<or> CR \<in> set s"

definition csv_cell :: "(json \<Rightarrow> string) \<Rightarrow> json option \<Rightarrow> string \<Rightarrow> string" where
  "csv_cell show_json v delim =
     (case v of
        None \<Rightarrow> []
      | Some Null \<Rightarrow> []
      | Some (Str s) \<Rightarrow> (if needs_quotes delim s then QUOTE # double_quotes s @ [QUOTE] else s)
      | Some (Bool b) \<Rightarrow> (if b then ''true'' else ''false'')
      | Some w \<Rightarrow> show_json w)"

definition sorted_keys :: "row \<Rightarrow> string list" where
  "sorted_keys m = sorted_list_of_fset (fmdom m)"

definition delimited_row :: "(json \<Rightarrow> string) \<Rightarrow> string \<Rightarrow> string list \<Rightarrow> row \<Rightarrow> string" where
  "delimited_row show_json delim ks m = join_with delim (map (\<lambda>k. csv_cell show_json (fmlookup m k) delim) ks)"

primrec format_record_delimited :: "(json \<Rightarrow> string) \<Rightarrow> string \<Rightarrow> string list option \<Rightarrow> json \<Rightarrow> string" where
  "format_record_delimited sj d fs Null = csv_cell sj (Some Null) d"
| "format_record_delimited sj d fs (Bool b) = csv_cell sj (Some (Bool b)) d"
| "format_record_delimited sj d fs (Number n) = csv_cell sj (Some (Number n)) d"
| "format_record_delimited sj d fs (Str s) = csv_cell sj (Some (Str s)) d"
| "format_record_delimited sj d fs (Arr xs) = join_with [LF] (map (format_record_delimited sj d fs) xs)"
| "format_record_delimited sj d fs (Obj m) = delimited_row sj d (or_default fs (sorted_keys m)) m"

subsection \<open>The buffer in front of a file\<close>

text \<open>\<open>fw_file\<close> is what the file holds; the outcome of opening and writing is an argument.\<close>

record file_writer =
  fw_buf :: string
  fw_parquet :: "stream_record list"
  fw_pending :: nat
  fw_header :: bool
  fw_file :: string
  fw_written :: "stream_record list"

definition push_parquet_record :: "row \<Rightarrow> int \<Rightarrow> file_writer \<Rightarrow> file_writer" where
  "push_parquet_record data ts w =
     w\<lparr>fw_parquet := fw_parquet w @ [\<lparr>sr_timestamp = ts, sr_data = data\<rparr>], fw_pending := fw_pending w + 1\<rparr>"

definition push_text :: "string \<Rightarrow> file_writer \<Rightarrow> file_writer" where
  "push_text t w =
     w\<lparr>fw_buf := fw_buf w @ t @ (if ends_with [LF] t then [] else [LF]), fw_pending := fw_pending w + 1\<rparr>"

definition push_delimited ::
  "(json \<Rightarrow> string) \<Rightarrow> row \<Rightarrow> string \<Rightarrow> bool \<Rightarrow> common_opts \<Rightarrow> file_writer \<Rightarrow> file_writer" where
  "push_delimited show_json data delim header opts w =
     (let ks = or_default (co_fields opts) (filter visible_key (sorted_keys data));
          w = (if header \<and> \<not> fw_header w
               then w\<lparr>fw_buf := fw_buf w @ join_with delim ks @ [LF], fw_header := True\<rparr> else w)
      in w\<lparr>fw_buf := fw_buf w @ delimited_row show_json delim ks data @ [LF], fw_pending := fw_pending w + 1\<rparr>)"

definition should_flush :: "file_writer \<Rightarrow> bool" where
  "should_flush w \<longleftrightarrow>
     (if fw_parquet w \<noteq> [] then 1024 \<le> length (fw_parquet w)
      else 100 \<le> fw_pending w \<or> 64 * 1024 \<le> length (fw_buf w))"

definition writer_flush :: "bool \<Rightarrow> file_writer \<Rightarrow> bool \<times> file_writer" where
  "writer_flush io_ok w =
     (if fw_parquet w \<noteq> [] then
        (io_ok, w\<lparr>fw_parquet := [], fw_pending := 0,
                  fw_written := (if io_ok then fw_written w @ fw_parquet w else fw_written w)\<rparr>)
      else if fw_buf w = [] then (True, w)
      else if io_ok then (True, w\<lparr>fw_file := fw_file w @ fw_buf w, fw_buf := [], fw_pending := 0\<rparr>)
      else (False, w))"

subsection \<open>Options of the offline cache\<close>

definition opt_u64 :: "row \<Rightarrow> string \<Rightarrow> int option" where
  "opt_u64 opts key =
     (case fmlookup opts key of
        Some (Number n) \<Rightarrow>
          (case num_as_u64 n of Some u \<Rightarrow> Some u | None \<Rightarrow> Some (f64_as_u64 (num_as_f64 n)))
      | Some (Str s) \<Rightarrow> parse_u64 (str_trim s)
      | _ \<Rightarrow> None)"

definition opt_i64 :: "row \<Rightarrow> string \<Rightarrow> int option" where
  "opt_i64 opts key =
     (case fmlookup opts key of
        Some (Number n) \<Rightarrow> num_as_i64 n
      | Some (Str s) \<Rightarrow> parse_i64 (str_trim s)
      | _ \<Rightarrow> None)"

definition opt_bool :: "row \<Rightarrow> string \<Rightarrow> bool option" where
  "opt_bool opts key =
     (case fmlookup opts key of
        Some (Bool b) \<Rightarrow> Some b
      | Some (Str s) \<Rightarrow>
          (let t = to_ascii_lowercase (str_trim s)
           in if t \<in> {''true'', ''1'', ''yes''} then Some True
              else if t \<in> {''false'', ''0'', ''no''} then Some False else None)
      | _ \<Rightarrow> None)"

definition opt_str :: "row \<Rightarrow> string \<Rightarrow> string option" where
  "opt_str opts key =
     (case map_option str_trim (Option.bind (fmlookup opts key) as_str) of
        Some s \<Rightarrow> (if s = [] then None else Some s)
      | None \<Rightarrow> None)"

definition cache_from_action :: "row \<Rightarrow> cache_config option" where
  "cache_from_action opts =
     (if \<not> or_default (opt_bool opts ''enableCache'') False then None
      else Some
        \<lparr>memory_threshold = max 1 (or_default (map_option nat (opt_u64 opts ''memoryCacheThreshold'')) (memory_threshold default_config)),
         max_disk = or_default (map_option nat (opt_u64 opts ''maxDiskCache'')) (max_disk default_config),
         page_size = max 1 (or_default (map_option nat (opt_u64 opts ''bufferPageSize'')) (page_size default_config)),
         resend_interval = or_default (map_option nat (opt_u64 opts ''resendInterval'')) (resend_interval default_config),
         clean_at_stop = or_default (opt_bool opts ''cleanCacheAtStop'') (clean_at_stop default_config),
         priority = (let p = or_default (opt_i64 opts ''resendPriority'') 0
                     in if p < 0 then LiveFirst else if p = 0 then Equal else CacheFirst),
         indicator_field = opt_str opts ''resendIndicatorField'',
         destination = opt_str opts ''resendDestination''\<rparr>)"

text \<open>\<open>action_cache_configs\<close>: an action is the list of its entries in the order of the hash map.\<close>

type_synonym action_entries = "(string \<times> json) list"

definition prepared_entries :: "action_entries \<Rightarrow> action_entries" where
  "prepared_entries es =
     filter (\<lambda>(kind, opts). \<not> (kind = ''disabled'' \<or> kind = ''disable'' \<or> is_action_disabled (fmap_of_list es) opts)) es"

definition action_cache_configs :: "action_entries list \<Rightarrow> cache_config option list" where
  "action_cache_configs actions =
     concat (map (\<lambda>es. map (\<lambda>(kind, opts). case opts of Obj m \<Rightarrow> cache_from_action m | _ \<Rightarrow> None) (prepared_entries es)) actions)"

text \<open>\<open>cache_dir\<close>: the directory of an action is named after its rule, with every character that is
  not alphanumeric, \<open>-\<close> or \<open>_\<close> replaced; the characters are code points.\<close>

definition safe_char :: "nat \<Rightarrow> nat" where
  "safe_char c = (if c < 128 \<and> (is_ascii_alnum (char_of c) \<or> c = 45 \<or> c = 95) then c else 95)"

definition cache_dir :: "string \<Rightarrow> string \<Rightarrow> nat \<Rightarrow> string list" where
  "cache_dir base rule_id i = [base, map (\<lambda>c. char_of (safe_char c)) (str_chars rule_id), digits i]"

definition resend_copy :: "cache_config \<Rightarrow> stream_record \<Rightarrow> stream_record" where
  "resend_copy cfg r =
     (case indicator_field cfg of
        Some f \<Rightarrow> r\<lparr>sr_data := fmupd f (Bool True) (sr_data r)\<rparr>
      | None \<Rightarrow> r)"

end
