(* ===== verification/Delivery.thy ===== *)
theory Delivery
  imports SinkFormat Runners SinkCache_Fifo
begin

text \<open>
  The worker that delivers the output of a rule (\<open>engine/sinks.rs\<close>: \<open>deliver_record\<close>,
  \<open>resend_cached\<close>; \<open>engine/mod.rs\<close>: the loop of the sink worker). Sending a record through an action
  (\<open>send_action\<close>, the connectors and the network), the clocks, the files and the disk under the caches
  are the environment: a world that every send moves on, so that the outcome of each attempt, and the
  time it takes, are arbitrary. The worker keeps a log of its attempts.
\<close>

subsection \<open>State\<close>

datatype send_error = Retry string | Permanent string | Dropped

datatype delivery = Delivered | Cached | Failed

definition delivery_max :: "delivery \<Rightarrow> delivery \<Rightarrow> delivery" where
  "delivery_max a b = (if a = Failed \<or> b = Failed then Failed else if a = Cached \<or> b = Cached then Cached else Delivered)"

text \<open>Of a prepared action the worker looks at the name of its type, at its common options and
  whether it is a file or does nothing.\<close>

record prepared_action =
  pa_type :: string
  pa_opts :: "common_opts option"
  pa_file :: bool
  pa_nop :: bool

record action_rt =
  rt_action :: prepared_action
  rt_cache :: "stream_record sink_cache option"
  rt_retry_at :: nat
  rt_last_warn :: "nat option"
  rt_reported :: nat
  rt_batch :: "json list"
  rt_last_batch :: nat

record attempt =
  at_action :: nat
  at_record :: stream_record
  at_dest :: "string option"
  at_error :: "send_error option"

record 'w sink_io =
  io_world :: 'w
  io_dlq :: "counters \<times> dlq_envelope list"
  io_effects :: "dlq_effect list"
  io_log :: "attempt list"

text \<open>Instants are nanoseconds. \<open>en_flush\<close> flushes the file writers and tells how many failed;
  \<open>en_pass\<close> is what happens while the worker waits.\<close>

record 'w sink_env =
  en_send :: "nat \<Rightarrow> stream_record \<Rightarrow> string option \<Rightarrow> 'w \<Rightarrow> send_error option \<times> 'w"
  en_clock :: "'w \<Rightarrow> nat"
  en_utc :: "'w \<Rightarrow> int"
  en_disk :: "'w \<Rightarrow> disk"
  en_codec :: "stream_record codec"
  en_show :: "json \<Rightarrow> string"
  en_needs_flush :: "'w \<Rightarrow> bool"
  en_flush :: "'w \<Rightarrow> nat \<times> 'w"
  en_pass :: "'w \<Rightarrow> 'w"

definition MILLI :: nat where "MILLI = 1000000"

definition RESEND_BATCH_MAX :: nat where "RESEND_BATCH_MAX = 4096"

definition RESEND_RETRY_BACKOFF :: nat where "RESEND_RETRY_BACKOFF = 1000 * MILLI"

definition SINK_TICK :: nat where "SINK_TICK = 100 * MILLI"

definition io_now :: "'w sink_env \<Rightarrow> 'w sink_io \<Rightarrow> nat" where
  "io_now E st = en_clock E (io_world st)"

definition on_counters :: "(counters \<Rightarrow> counters) \<Rightarrow> 'w sink_io \<Rightarrow> 'w sink_io" where
  "on_counters f st = st\<lparr>io_dlq := (f (fst (io_dlq st)), snd (io_dlq st))\<rparr>"

definition inc_dropped :: "u64 \<Rightarrow> counters \<Rightarrow> counters" where
  "inc_dropped n c = c\<lparr>ct_dropped := ct_dropped c + n\<rparr>"

definition inc_sink_failed :: "u64 \<Rightarrow> counters \<Rightarrow> counters" where
  "inc_sink_failed n c = c\<lparr>ct_sink_failed := ct_sink_failed c + n\<rparr>"

definition inc_sink_out :: "u64 \<Rightarrow> counters \<Rightarrow> counters" where
  "inc_sink_out n c = c\<lparr>ct_sink_out := ct_sink_out c + n\<rparr>"

definition inc_exceptions :: "u64 \<Rightarrow> counters \<Rightarrow> counters" where
  "inc_exceptions n c = c\<lparr>ct_exceptions := ct_exceptions c + n\<rparr>"

definition rt_new :: "prepared_action \<Rightarrow> stream_record sink_cache option \<Rightarrow> nat \<Rightarrow> action_rt" where
  "rt_new a c now =
     \<lparr>rt_action = a, rt_cache = c, rt_retry_at = now, rt_last_warn = None, rt_reported = 0, rt_batch = [],
      rt_last_batch = now\<rparr>"

subsection \<open>One attempt\<close>

definition send_action :: "'w sink_env \<Rightarrow> nat \<Rightarrow> stream_record \<Rightarrow> string option \<Rightarrow> 'w sink_io \<Rightarrow> send_error option \<times> 'w sink_io" where
  "send_action E i r dest st =
     (case en_send E i r dest (io_world st) of
        (res, w) \<Rightarrow>
          (res, st\<lparr>io_world := w,
                   io_log := io_log st @ [\<lparr>at_action = i, at_record = r, at_dest = dest, at_error = res\<rparr>]\<rparr>))"

fun error_text :: "send_error \<Rightarrow> string" where
  "error_text (Retry m) = m"
| "error_text (Permanent m) = m"
| "error_text Dropped = ''dropped''"

text \<open>The warnings themselves are not part of the state; their pace is.\<close>

definition report_send_error :: "'w sink_env \<Rightarrow> send_error \<Rightarrow> action_rt \<times> 'w sink_io \<Rightarrow> action_rt \<times> 'w sink_io" where
  "report_send_error E err s =
     (case s of
        (rt, st) \<Rightarrow>
          if err = Dropped then (rt, st)
          else
            (let st = on_counters (record_exception (error_text err)) st; now = io_now E st
             in (case rt_last_warn rt of
                   Some t \<Rightarrow> if 1000 * MILLI \<le> now - t then rt\<lparr>rt_last_warn := Some now\<rparr> else rt
                 | None \<Rightarrow> rt\<lparr>rt_last_warn := Some now\<rparr>, st)))"

definition sync_cache_drops :: "action_rt \<times> 'w sink_io \<Rightarrow> action_rt \<times> 'w sink_io" where
  "sync_cache_drops s =
     (case s of
        (rt, st) \<Rightarrow>
          (case rt_cache rt of
             None \<Rightarrow> (rt, st)
           | Some c \<Rightarrow>
               (let new = sc_dropped c - rt_reported rt
                in if 0 < new then (rt\<lparr>rt_reported := sc_dropped c\<rparr>, on_counters (inc_dropped (of_nat new)) st) else (rt, st))))"

definition route_send_error :: "'w sink_env \<Rightarrow> dlq_router option \<Rightarrow> send_error \<Rightarrow> row \<Rightarrow> action_rt \<Rightarrow> 'w sink_io \<Rightarrow> 'w sink_io" where
  "route_send_error E D err data rt st =
     (case D of
        None \<Rightarrow> st
      | Some D \<Rightarrow>
          (let m = error_text err;
               stage = (if contains_text ''template'' m then DataTemplate else SinkDelivery)
           in case route_error D (en_utc E (io_world st)) stage m (Some (en_show E (Obj data))) (Some (Obj data))
                     (Some (pa_type (rt_action rt))) (io_dlq st) of
                (q, effs) \<Rightarrow> st\<lparr>io_dlq := q, io_effects := io_effects st @ effs\<rparr>))"

definition cache_push :: "'w sink_env \<Rightarrow> stream_record \<Rightarrow> action_rt \<Rightarrow> 'w sink_io \<Rightarrow> action_rt" where
  "cache_push E r rt st = rt\<lparr>rt_cache := map_option (push (en_disk E (io_world st)) (en_codec E) r) (rt_cache rt)\<rparr>"

text \<open>Sending with the cache and the dead-letter queue behind it, as the unbatched and the batched
  branch of \<open>deliver_record\<close> do.\<close>

definition attempt_or_cache ::
  "'w sink_env \<Rightarrow> dlq_router option \<Rightarrow> nat \<Rightarrow> stream_record \<Rightarrow> action_rt \<times> 'w sink_io \<Rightarrow> delivery \<times> action_rt \<times> 'w sink_io" where
  "attempt_or_cache E D i r s =
     (case s of
        (rt, st) \<Rightarrow>
          (case send_action E i r None st of
             (None, st) \<Rightarrow> (Delivered, rt, st)
           | (Some err, st) \<Rightarrow>
               (case err of
                  Retry m \<Rightarrow>
                    if rt_cache rt \<noteq> None then (Cached, sync_cache_drops (report_send_error E err (cache_push E r rt st, st)))
                    else (case report_send_error E err (rt, st) of
                            (rt, st) \<Rightarrow> (Failed, rt, route_send_error E D err (sr_data r) rt st))
                | _ \<Rightarrow> (case report_send_error E err (rt, st) of
                          (rt, st) \<Rightarrow> (Failed, rt, route_send_error E D err (sr_data r) rt st)))))"

subsection \<open>Delivery of a record\<close>

definition batch_rows :: "common_opts \<Rightarrow> stream_record \<Rightarrow> json list" where
  "batch_rows opts r =
     (case fmlookup (sr_data r) BATCH_ROWS_KEY of
        Some (Arr xs) \<Rightarrow> map (format_record_for_sink_val opts) xs
      | _ \<Rightarrow> [format_record_for_sink opts (sr_data r)])"

definition batch_record :: "'w sink_env \<Rightarrow> 'w sink_io \<Rightarrow> json list \<Rightarrow> stream_record" where
  "batch_record E st rows = \<lparr>sr_timestamp = en_utc E (io_world st), sr_data = fmupd BATCH_ROWS_KEY (Arr rows) fmempty\<rparr>"

definition batching :: "action_rt \<Rightarrow> common_opts option" where
  "batching rt =
     (case pa_opts (rt_action rt) of
        Some opts \<Rightarrow> if 0 < co_batch_size opts \<or> 0 < co_linger opts then Some opts else None
      | None \<Rightarrow> None)"

text \<open>Full batches leave the buffer one after the other. \<open>k\<close> is the number of batches, counted from
  the length of the buffer, which only this loop changes meanwhile.\<close>

fun send_batches ::
  "'w sink_env \<Rightarrow> dlq_router option \<Rightarrow> nat \<Rightarrow> nat \<Rightarrow> nat \<Rightarrow> delivery \<Rightarrow> action_rt \<times> 'w sink_io \<Rightarrow> delivery \<times> action_rt \<times> 'w sink_io" where
  "send_batches E D i n 0 dv s = (dv, s)"
| "send_batches E D i n (Suc k) dv (rt, st) =
     (let b = take n (rt_batch rt);
          rt = rt\<lparr>rt_batch := drop n (rt_batch rt), rt_last_batch := io_now E st\<rparr>
      in case attempt_or_cache E D i (batch_record E st b) (rt, st) of
           (d, s) \<Rightarrow> send_batches E D i n k (delivery_max dv d) s)"

definition deliver_one ::
  "'w sink_env \<Rightarrow> dlq_router option \<Rightarrow> nat \<Rightarrow> stream_record \<Rightarrow> action_rt \<times> 'w sink_io \<Rightarrow> delivery \<times> action_rt \<times> 'w sink_io" where
  "deliver_one E D i r s =
     (case s of
        (rt, st) \<Rightarrow>
          if (case rt_cache rt of Some c \<Rightarrow> priority (sc_cfg c) = CacheFirst \<and> \<not> cache_is_empty c | None \<Rightarrow> False)
          then (Cached, sync_cache_drops (cache_push E r rt st, st))
          else (case batching rt of
                  Some opts \<Rightarrow>
                    (let rt = rt\<lparr>rt_batch := rt_batch rt @ batch_rows opts r\<rparr>
                     in if 0 < co_batch_size opts
                        then send_batches E D i (co_batch_size opts) (length (rt_batch rt) div co_batch_size opts) Delivered (rt, st)
                        else (Delivered, rt, st))
                | None \<Rightarrow> attempt_or_cache E D i r (rt, st)))"

text \<open>The loops over the actions of a rule.\<close>

fun for_actions ::
  "(nat \<Rightarrow> action_rt \<times> 's \<Rightarrow> 'a \<times> action_rt \<times> 's) \<Rightarrow> nat \<Rightarrow> action_rt list \<Rightarrow> 's \<Rightarrow> 'a list \<times> action_rt list \<times> 's" where
  "for_actions f i [] st = ([], [], st)"
| "for_actions f i (rt # rts) st =
     (case f i (rt, st) of
        (x, rt, st) \<Rightarrow> (case for_actions f (i + 1) rts st of (xs, rts, st) \<Rightarrow> (x # xs, rt # rts, st)))"

definition deliver_record ::
  "'w sink_env \<Rightarrow> dlq_router option \<Rightarrow> stream_record \<Rightarrow> action_rt list \<Rightarrow> 'w sink_io \<Rightarrow> delivery \<times> action_rt list \<times> 'w sink_io" where
  "deliver_record E D r rts st =
     (case for_actions (\<lambda>i. deliver_one E D i r) 0 rts st of (dvs, rts, st) \<Rightarrow> (foldl delivery_max Delivered dvs, rts, st))"

subsection \<open>Resending\<close>

text \<open>Whatever the disk does, looking at the front of the cache adds no record and popping removes
  one: the loop below ends.\<close>

lemma page_records_removed: "length (page_records cdc (remove_page d s dir) p) \<le> length (page_records cdc dir p)"
  by (auto simp: page_records_def remove_page_def)

lemma pages_records_removed:
  "length (concat (map (page_records cdc (remove_page d s dir)) ps)) \<le> length (concat (map (page_records cdc dir) ps))"
proof (induction ps)
  case (Cons p ps)
  then show ?case using page_records_removed[of cdc d s dir p] by simp
qed simp

lemma refill_shrinks: "length (contents cdc (refill d cdc c)) \<le> length (contents cdc c)"
proof (cases "sc_head c = []")
  case True
  show ?thesis
  proof (cases "sc_pages c")
    case (Cons p ps)
    have "length (case open_page d (pg_seq p) (sc_dir c) of None \<Rightarrow> [] | Some txt \<Rightarrow> decode_page cdc txt)
        \<le> length (page_records cdc (sc_dir c) p)"
      by (auto simp: open_page_def page_records_def split: option.split)
    then show ?thesis
      using True Cons pages_records_removed[of cdc d "pg_seq p" "sc_dir c" ps]
      by (simp add: refill_def load_oldest_page_def contents_def Let_def)
  qed (use True in \<open>simp add: refill_def load_oldest_page_def contents_def\<close>)
qed (simp add: refill_def)

lemma front_shrinks: "front d cdc c = (o', c1) \<Longrightarrow> length (contents cdc c1) \<le> length (contents cdc c)"
  using refill_shrinks[of cdc d c] by (auto simp: front_def Let_def)

lemma front_head: "front d cdc c = (Some r, c1) \<Longrightarrow> \<exists>rs. sc_head c1 = r # rs"
  by (auto simp: front_def Let_def split: list.splits)

lemma pop_after_front: "sc_head c = r # rs \<Longrightarrow> pop_front d cdc c = (Some r, c\<lparr>sc_head := rs\<rparr>)"
  by (simp add: pop_front_def front_def refill_def Let_def)

lemma popped_shrinks:
  assumes "front d cdc c = (Some r, c1)"
  shows "length (contents cdc (snd (pop_front d' cdc c1))) < length (contents cdc c)"
proof -
  obtain rs where "sc_head c1 = r # rs" using front_head[OF assms] by blast
  then show ?thesis using front_shrinks[OF assms] pop_after_front[of c1 r rs d' cdc] by (simp add: contents_def)
qed

definition rt_weight :: "stream_record codec \<Rightarrow> action_rt \<Rightarrow> nat" where
  "rt_weight cdc rt = (case rt_cache rt of None \<Rightarrow> 0 | Some c \<Rightarrow> length (contents cdc c))"

text \<open>The next resend may follow after the interval, counted from the previous slot but from no
  earlier than one tick ago.\<close>

definition next_slot :: "cache_config \<Rightarrow> nat \<Rightarrow> nat \<Rightarrow> nat" where
  "next_slot cfg now at_least =
     (if resend_interval cfg = 0 then at_least
      else max at_least (if SINK_TICK \<le> now then now - SINK_TICK else now) + resend_interval cfg * MILLI)"

definition drop_front :: "'w sink_env \<Rightarrow> 'w sink_io \<Rightarrow> stream_record sink_cache \<Rightarrow> stream_record sink_cache" where
  "drop_front E st c = snd (pop_front (en_disk E (io_world st)) (en_codec E) c)"

definition resend_failed ::
  "'w sink_env \<Rightarrow> dlq_router option \<Rightarrow> send_error \<Rightarrow> stream_record \<Rightarrow> action_rt \<Rightarrow> 'w sink_io \<Rightarrow> action_rt \<times> 'w sink_io" where
  "resend_failed E D err r rt st =
     (case report_send_error E err (rt, st) of
        (rt, st) \<Rightarrow>
          (let rt = rt\<lparr>rt_cache := map_option (drop_front E st) (rt_cache rt)\<rparr>
           in (rt, route_send_error E D err (sr_data r) rt (on_counters (inc_sink_failed 1) st))))"

lemma report_cache: "report_send_error E err (rt, st) = (rt', st') \<Longrightarrow> rt_cache rt' = rt_cache rt"
  by (auto simp: report_send_error_def Let_def split: if_splits option.splits)

lemma resend_failed_cache:
  "rt_cache (fst (resend_failed E D err r rt st)) = map_option (drop_front E (snd (report_send_error E err (rt, st)))) (rt_cache rt)"
  using report_cache[of E err rt st] by (cases "report_send_error E err (rt, st)") (simp add: resend_failed_def Let_def)

lemma resend_failed_weight:
  assumes "front d (en_codec E) c = (Some r, c1)" "rt_cache rt = Some c1"
  shows "rt_weight (en_codec E) (fst (resend_failed E D err r' rt st)) < length (contents (en_codec E) c)"
  using assms popped_shrinks[OF assms(1)] by (simp add: rt_weight_def resend_failed_cache drop_front_def)

lemma resend_weight:
  assumes "front d (en_codec E) c = (Some r, c1)" "rt_cache rt = Some c"
  shows "rt_weight (en_codec E) (rt'\<lparr>rt_cache := Some (drop_front E st c1), rt_retry_at := t\<rparr>) < rt_weight (en_codec E) rt"
    and "rt_weight (en_codec E) (fst (resend_failed E D err r' (rt\<lparr>rt_cache := Some c1\<rparr>) st)) < rt_weight (en_codec E) rt"
  using assms popped_shrinks[OF assms(1)] resend_failed_weight[OF assms(1), of "rt\<lparr>rt_cache := Some c1\<rparr>"]
  by (simp_all add: rt_weight_def drop_front_def)

function resend_loop ::
  "'w sink_env \<Rightarrow> dlq_router option \<Rightarrow> nat \<Rightarrow> cache_config \<Rightarrow> nat \<Rightarrow> action_rt \<times> 'w sink_io \<Rightarrow> nat \<times> action_rt \<times> 'w sink_io" where
  "resend_loop E D i cfg sent (rt, st) =
     (let now = io_now E st
      in if RESEND_BATCH_MAX \<le> sent \<or> now < rt_retry_at rt then (sent, rt, st)
         else (case rt_cache rt of
                 None \<Rightarrow> (sent, rt, st)
               | Some c \<Rightarrow>
                   (case front (en_disk E (io_world st)) (en_codec E) c of
                      (None, c1) \<Rightarrow> (sent, rt\<lparr>rt_cache := Some c1\<rparr>, st)
                    | (Some r, c1) \<Rightarrow>
                        (let rt = rt\<lparr>rt_cache := Some c1\<rparr>; copy = resend_copy cfg r
                         in case send_action E i copy (destination cfg) st of
                              (None, st) \<Rightarrow>
                                resend_loop E D i cfg (sent + 1)
                                  (rt\<lparr>rt_cache := Some (drop_front E st c1), rt_retry_at := next_slot cfg now (rt_retry_at rt)\<rparr>, st)
                            | (Some (Retry m), st) \<Rightarrow>
                                (case report_send_error E (Retry m) (rt, st) of
                                   (rt, st) \<Rightarrow>
                                     (sent, rt\<lparr>rt_retry_at := now + max (resend_interval cfg * MILLI) RESEND_RETRY_BACKOFF\<rparr>, st))
                            | (Some err, st) \<Rightarrow> resend_loop E D i cfg sent (resend_failed E D err copy rt st)))))"
  by pat_completeness auto

termination
  by (relation "measure (\<lambda>(E, D, i, cfg, sent, s). rt_weight (en_codec E) (fst s))")
    (auto simp: resend_weight dest!: sym[of "(_, _)"])

declare resend_loop.simps [simp del]

definition resend_cached ::
  "'w sink_env \<Rightarrow> dlq_router option \<Rightarrow> nat \<Rightarrow> bool \<Rightarrow> action_rt \<times> 'w sink_io \<Rightarrow> nat \<times> action_rt \<times> 'w sink_io" where
  "resend_cached E D i live_recent s =
     (case rt_cache (fst s) of
        None \<Rightarrow> (0, s)
      | Some c \<Rightarrow>
          if cache_is_empty c \<or> priority (sc_cfg c) = LiveFirst \<and> live_recent then (0, s)
          else resend_loop E D i (sc_cfg c) 0 s)"

subsection \<open>The worker\<close>

record 'w sink_worker =
  sw_rts :: "action_rt list"
  sw_io :: "'w sink_io"
  sw_pending :: u64
  sw_last_live :: nat
  sw_open :: bool
  sw_dirs :: "page_dir list"

definition all_nop :: "action_rt list \<Rightarrow> bool" where
  "all_nop rts \<longleftrightarrow> list_all (\<lambda>rt. pa_nop (rt_action rt) \<and> rt_cache rt = None) rts"

definition file_actions :: "action_rt list \<Rightarrow> bool" where
  "file_actions rts \<longleftrightarrow> list_ex (\<lambda>rt. pa_file (rt_action rt)) rts"

definition num_records :: "stream_record \<Rightarrow> u64" where
  "num_records r = (case fmlookup (sr_data r) BATCH_ROWS_KEY of Some (Arr xs) \<Rightarrow> of_nat (length xs) | _ \<Rightarrow> 1)"

definition on_io :: "('w sink_io \<Rightarrow> 'w sink_io) \<Rightarrow> 'w sink_worker \<Rightarrow> 'w sink_worker" where
  "on_io f W = W\<lparr>sw_io := f (sw_io W)\<rparr>"

text \<open>Records that went into a file count once the file is flushed.\<close>

definition count_out :: "u64 \<Rightarrow> 'w sink_worker \<Rightarrow> 'w sink_worker" where
  "count_out n W =
     (if file_actions (sw_rts W) then W\<lparr>sw_pending := sw_pending W + n\<rparr> else on_io (on_counters (inc_sink_out n)) W)"

definition live_one :: "'w sink_env \<Rightarrow> dlq_router option \<Rightarrow> 'w sink_worker \<Rightarrow> stream_record \<Rightarrow> 'w sink_worker" where
  "live_one E D W r =
     (if all_nop (sw_rts W) then on_io (on_counters (inc_sink_out (num_records r))) W
      else (case deliver_record E D r (sw_rts W) (sw_io W) of
              (dv, rts, st) \<Rightarrow>
                (let W = W\<lparr>sw_rts := rts, sw_io := st\<rparr>
                 in case dv of
                      Delivered \<Rightarrow> count_out (num_records r) W
                    | Cached \<Rightarrow> W
                    | Failed \<Rightarrow> on_io (on_counters (inc_sink_failed (num_records r))) W)))"

definition flush_files :: "'w sink_env \<Rightarrow> 'w sink_worker \<Rightarrow> nat \<times> 'w sink_worker" where
  "flush_files E W = (case en_flush E (io_world (sw_io W)) of (n, w) \<Rightarrow> (n, on_io (\<lambda>st. st\<lparr>io_world := w\<rparr>) W))"

definition pending_out :: "'w sink_worker \<Rightarrow> 'w sink_worker" where
  "pending_out W = (on_io (on_counters (inc_sink_out (sw_pending W))) W)\<lparr>sw_pending := 0\<rparr>"

definition live_step :: "'w sink_env \<Rightarrow> dlq_router option \<Rightarrow> stream_record list \<Rightarrow> 'w sink_worker \<Rightarrow> 'w sink_worker" where
  "live_step E D rs W =
     (let W = foldl (live_one E D) (W\<lparr>sw_last_live := io_now E (sw_io W)\<rparr>) rs
      in if en_needs_flush E (io_world (sw_io W)) then
           (case flush_files E W of
              (n, W) \<Rightarrow> if n = 0 then pending_out W else on_io (on_counters (inc_exceptions (of_nat n))) W)
         else W)"

text \<open>A batch that has waited long enough is sent on a tick.\<close>

definition linger_one :: "'w sink_env \<Rightarrow> nat \<Rightarrow> nat \<Rightarrow> action_rt \<times> 'w sink_io \<Rightarrow> action_rt \<times> 'w sink_io" where
  "linger_one E now i s =
     (case s of
        (rt, st) \<Rightarrow>
          (let linger = (case pa_opts (rt_action rt) of Some opts \<Rightarrow> co_linger opts | None \<Rightarrow> 0)
           in if 0 < linger \<and> rt_batch rt \<noteq> [] \<and> linger \<le> (now - rt_last_batch rt) div MILLI then
                (case send_action E i (batch_record E st (rt_batch rt)) None st of
                   (res, st) \<Rightarrow>
                     (let rt = rt\<lparr>rt_batch := [], rt_last_batch := now\<rparr>
                      in case res of None \<Rightarrow> (rt, st) | Some err \<Rightarrow> report_send_error E err (rt, st)))
              else (rt, st)))"

definition tick_step :: "'w sink_env \<Rightarrow> dlq_router option \<Rightarrow> 'w sink_worker \<Rightarrow> 'w sink_worker" where
  "tick_step E D W =
     (case flush_files E W of
        (n, W) \<Rightarrow>
          (let W = (if 0 < n then on_io (on_counters (inc_exceptions 1)) W else pending_out W)
           in case for_actions (\<lambda>i s. ((), linger_one E (io_now E (sw_io W)) i s)) 0 (sw_rts W) (sw_io W) of
                (_, rts, st) \<Rightarrow>
                  (case for_actions (\<lambda>i. resend_cached E D i (io_now E st - sw_last_live W < 2 * SINK_TICK)) 0 rts st of
                     (ks, rts, st) \<Rightarrow> count_out (of_nat (sum_list ks)) (W\<lparr>sw_rts := rts, sw_io := st\<rparr>))))"

text \<open>The end of a rule: what is left in the buffers is sent, whatever comes of it, the files are
  flushed and the caches written to disk.\<close>

definition close_one :: "'w sink_env \<Rightarrow> nat \<Rightarrow> action_rt \<times> 'w sink_io \<Rightarrow> action_rt \<times> 'w sink_io" where
  "close_one E i s =
     (case s of
        (rt, st) \<Rightarrow>
          if rt_batch rt = [] then (rt, st)
          else (rt\<lparr>rt_batch := []\<rparr>, snd (send_action E i (batch_record E st (rt_batch rt)) None st)))"

definition close_step :: "'w sink_env \<Rightarrow> 'w sink_worker \<Rightarrow> 'w sink_worker" where
  "close_step E W =
     (case for_actions (\<lambda>i s. ((), close_one E i s)) 0 (sw_rts W) (sw_io W) of
        (_, rts, st) \<Rightarrow>
          (case flush_files E (W\<lparr>sw_rts := rts, sw_io := st\<rparr>) of
             (n, W) \<Rightarrow>
               (let W = (if n = 0 then on_io (on_counters (inc_sink_out (sw_pending W))) W
                         else on_io (on_counters (inc_sink_failed (sw_pending W) \<circ> inc_exceptions (of_nat n))) W)
                in W\<lparr>sw_open := False,
                     sw_dirs := List.map_filter (\<lambda>rt. map_option (close_cache (en_disk E (io_world (sw_io W))) (en_codec E)) (rt_cache rt)) (sw_rts W)\<rparr>)))"

text \<open>A burst of records, a tick of the timer, or the end of the queue.\<close>

datatype sink_event = Live "stream_record list" | Tick | Close

fun sink_event_step :: "'w sink_env \<Rightarrow> dlq_router option \<Rightarrow> sink_event \<Rightarrow> 'w sink_worker \<Rightarrow> 'w sink_worker" where
  "sink_event_step E D (Live rs) W = live_step E D rs W"
| "sink_event_step E D Tick W = tick_step E D W"
| "sink_event_step E D Close W = close_step E W"

definition sink_step :: "'w sink_env \<Rightarrow> dlq_router option \<Rightarrow> 'w sink_worker \<Rightarrow> sink_event \<Rightarrow> 'w sink_worker" where
  "sink_step E D W ev =
     (if sw_open W then sink_event_step E D ev (on_io (\<lambda>st. st\<lparr>io_world := en_pass E (io_world st)\<rparr>) W) else W)"

definition sink_run :: "'w sink_env \<Rightarrow> dlq_router option \<Rightarrow> sink_event list \<Rightarrow> 'w sink_worker \<Rightarrow> 'w sink_worker" where
  "sink_run E D evs W = foldl (sink_step E D) W evs"

text \<open>The start: an action has a cache when its options say so, with the pages a previous run left.\<close>

definition sink_start :: "disk \<Rightarrow> nat \<Rightarrow> (prepared_action \<times> cache_config option \<times> page_dir) list \<Rightarrow> 'w sink_io \<Rightarrow> 'w sink_worker" where
  "sink_start d now acts st =
     \<lparr>sw_rts = map (\<lambda>(a, cfg, dir). rt_new a (map_option (\<lambda>cfg. open_cache d cfg dir) cfg) now) acts,
      sw_io = st, sw_pending = 0, sw_last_live = now, sw_open = True, sw_dirs = []\<rparr>"

end
