(* ===== verification/Delivery_Order.thy ===== *)
theory Delivery_Order
  imports Delivery "HOL-Library.Multiset"
begin

text \<open>
  One action of a rule among the others: what reaches its destination, what waits in its cache and
  what is given up. The other actions only add attempts of their own to the log, so the facts about
  one action survive the loops over all of them.
\<close>

subsection \<open>The log seen from one action\<close>

definition of_action :: "nat \<Rightarrow> attempt list \<Rightarrow> attempt list" where
  "of_action i l = filter (\<lambda>a. at_action a = i) l"

definition arrived_at :: "nat \<Rightarrow> attempt list \<Rightarrow> stream_record list" where
  "arrived_at i l = map at_record (filter (\<lambda>a. at_error a = None) (of_action i l))"

definition given_up :: "nat \<Rightarrow> attempt list \<Rightarrow> nat" where
  "given_up i l =
     length (filter (\<lambda>a. case at_error a of Some (Permanent m) \<Rightarrow> True | Some Dropped \<Rightarrow> True | _ \<Rightarrow> False) (of_action i l))"

text \<open>The records that failed for good, as they were sent.\<close>

definition refused_at :: "nat \<Rightarrow> attempt list \<Rightarrow> stream_record list" where
  "refused_at i l =
     map at_record (filter (\<lambda>a. case at_error a of Some (Permanent m) \<Rightarrow> True | Some Dropped \<Rightarrow> True | _ \<Rightarrow> False) (of_action i l))"

lemma given_up_refused: "given_up i l = length (refused_at i l)"
  by (simp add: given_up_def refused_at_def)

lemma log_append [simp]:
  "of_action i (l @ l') = of_action i l @ of_action i l'"
  "arrived_at i (l @ l') = arrived_at i l @ arrived_at i l'"
  "given_up i (l @ l') = given_up i l + given_up i l'" "refused_at i (l @ l') = refused_at i l @ refused_at i l'"
  by (simp_all add: of_action_def arrived_at_def given_up_def refused_at_def)

lemma log_one [simp]:
  "of_action i [a] = (if at_action a = i then [a] else [])"
  "arrived_at i [a] = (if at_action a = i \<and> at_error a = None then [at_record a] else [])"
  "given_up i [\<lparr>at_action = j, at_record = r, at_dest = d, at_error = e\<rparr>] =
     (if j = i then (case e of Some (Permanent m) \<Rightarrow> 1 | Some Dropped \<Rightarrow> 1 | _ \<Rightarrow> 0) else 0)"
  "refused_at i [\<lparr>at_action = j, at_record = r, at_dest = d, at_error = e\<rparr>] =
     (if j = i then (case e of Some (Permanent m) \<Rightarrow> [r] | Some Dropped \<Rightarrow> [r] | _ \<Rightarrow> []) else [])"
  by (auto simp: of_action_def arrived_at_def given_up_def refused_at_def split: option.split send_error.split)

lemma view_depends:
  "of_action i l = of_action i l' \<Longrightarrow> arrived_at i l = arrived_at i l' \<and> given_up i l = given_up i l' \<and> refused_at i l = refused_at i l'"
  by (simp add: arrived_at_def given_up_def refused_at_def)

subsection \<open>What the steps leave alone\<close>

lemma io_log_simps [simp]:
  "io_log (on_counters f st) = io_log st" "io_world (on_counters f st) = io_world st"
  "io_log (route_send_error E D err data rt st) = io_log st" "io_world (route_send_error E D err data rt st) = io_world st"
  by (simp_all add: on_counters_def route_send_error_def Let_def split: option.split prod.split)

definition same_rt :: "action_rt \<Rightarrow> action_rt \<Rightarrow> bool" where
  "same_rt rt rt' \<longleftrightarrow> rt_cache rt' = rt_cache rt \<and> rt_action rt' = rt_action rt \<and> rt_batch rt' = rt_batch rt"

lemma report_same:
  assumes "report_send_error E err (rt, st) = (rt', st')"
  shows "same_rt rt rt'" "io_log st' = io_log st" "io_world st' = io_world st"
  using assms by (auto simp: report_send_error_def same_rt_def Let_def split: if_splits option.splits)

lemma sync_same:
  assumes "sync_cache_drops (rt, st) = (rt', st')"
  shows "same_rt rt rt'" "io_log st' = io_log st" "io_world st' = io_world st"
  using assms by (auto simp: sync_cache_drops_def same_rt_def Let_def split: if_splits option.splits)

lemma send_log:
  assumes "send_action E i r dest st = (res, st')"
  shows "io_log st' = io_log st @ [\<lparr>at_action = i, at_record = r, at_dest = dest, at_error = res\<rparr>]"
  using assms by (auto simp: send_action_def split: prod.splits)

subsection \<open>An action and its books\<close>

definition env_ok :: "'w sink_env \<Rightarrow> bool" where
  "env_ok E \<longleftrightarrow> codec_ok (en_codec E) \<and> (\<forall>w. disk_reliable (en_disk E w))"

text \<open>Records that arrived, are cached or were refused, each one of those handed over and each counted
  once.\<close>

definition kept :: "stream_record list \<Rightarrow> stream_record list \<Rightarrow> stream_record list \<Rightarrow> stream_record list \<Rightarrow> bool" where
  "kept a c g h \<longleftrightarrow> mset a + mset c + mset g \<subseteq># mset h"

lemma mset_drop: "mset (drop k xs) \<subseteq># mset xs"
  by (metis append_take_drop_id mset_append mset_subset_eq_add_right)

lemma kept_start: "kept [] h [] h"
  by (simp add: kept_def)

lemma kept_live:
  assumes "kept a c g h"
  shows "kept a (drop k (c @ [r])) g (h @ [r])" "kept (a @ [r]) c g (h @ [r])" "kept a c (g @ [r]) (h @ [r])"
proof -
  have "mset a + mset (drop k (c @ [r])) + mset g \<subseteq># mset a + mset (c @ [r]) + mset g"
    by (intro subset_mset.add_mono mset_drop) simp_all
  moreover have "mset a + mset (c @ [r]) + mset g \<subseteq># mset (h @ [r])" using assms by (simp add: kept_def add.assoc)
  ultimately show "kept a (drop k (c @ [r])) g (h @ [r])" unfolding kept_def by (rule subset_mset.order_trans)
qed (use assms in \<open>simp_all add: kept_def add.assoc\<close>)

lemma kept_popped: "kept a (r # c) g h \<Longrightarrow> kept (a @ [r]) c g h" "kept a (r # c) g h \<Longrightarrow> kept a c (g @ [r]) h"
  by (simp_all add: kept_def)

text \<open>\<open>h\<close> is everything the action was to deliver, oldest first: each record has arrived, is cached,
  was dropped by the full cache or was given up; and if cached records go first, what arrived and what
  is cached keeps the order of \<open>h\<close>.\<close>

definition books :: "'w sink_env \<Rightarrow> nat \<Rightarrow> cache_config \<Rightarrow> nat \<Rightarrow> stream_record list \<Rightarrow> action_rt \<Rightarrow> attempt list \<Rightarrow> bool" where
  "books E i cfg n h rt l \<longleftrightarrow>
     (case rt_cache rt of
        None \<Rightarrow> False
      | Some c \<Rightarrow>
          cache_inv (en_codec E) c \<and> sc_cfg c = cfg \<and> batching rt = None \<and> rt_batch rt = [] \<and>
          length (arrived_at i l) + length (contents (en_codec E) c) + sc_dropped c + given_up i l = length h + n \<and>
          kept (arrived_at i l) (contents (en_codec E) c) (refused_at i l) h \<and>
          (priority cfg = CacheFirst \<longrightarrow> subseq (arrived_at i l @ contents (en_codec E) c) h))"

lemma books_view: "of_action i l = of_action i l' \<Longrightarrow> books E i cfg n h rt l \<Longrightarrow> books E i cfg n h rt l'"
  using view_depends[of i l l'] by (auto simp: books_def split: option.splits)

lemma books_same: "same_rt rt rt' \<Longrightarrow> books E i cfg n h rt l \<Longrightarrow> books E i cfg n h rt' l"
proof -
  assume "same_rt rt rt'" "books E i cfg n h rt l"
  moreover from this have "batching rt' = batching rt" by (simp add: batching_def same_rt_def)
  ultimately show ?thesis by (cases "rt_cache rt") (simp_all add: books_def same_rt_def)
qed

lemma cache_empty_contents:
  assumes "cache_inv cdc c"
  shows "cache_is_empty c \<longleftrightarrow> contents cdc c = []"
proof -
  have "length (concat (map (page_records cdc (sc_dir c)) (sc_pages c))) = sum_list (map pg_count (sc_pages c))"
    using assms by (auto simp: length_concat cache_inv_def cache_wf_def list_all_iff page_wf_length intro!: arg_cong[where f = sum_list])
  then have "cache_len c = length (contents cdc c)"
    using assms by (simp add: cache_len_def contents_def cache_inv_def cache_wf_def)
  then show ?thesis by (simp add: cache_is_empty_def)
qed

text \<open>A record is cached.\<close>

lemma subseq_drop_snoc: "subseq (a @ xs) h \<Longrightarrow> subseq (a @ drop k (xs @ [r])) (h @ [r])"
proof -
  assume "subseq (a @ xs) h"
  then have "subseq ((a @ xs) @ [r]) (h @ [r])" by (intro list_emb_append_mono) simp_all
  moreover have "subseq (a @ drop k (xs @ [r])) ((a @ xs) @ [r])"
    unfolding append_assoc by (intro list_emb_append_mono subseq_drop) simp_all
  ultimately show ?thesis by (rule subseq_order.order_trans[rotated])
qed

lemma books_push:
  assumes "env_ok E" "books E i cfg n h rt l"
  shows "books E i cfg n (h @ [r]) (cache_push E r rt st) l"
proof -
  obtain c where c: "rt_cache rt = Some c" "cache_inv (en_codec E) c" using assms(2) by (auto simp: books_def split: option.splits)
  let ?d = "en_disk E (io_world st)"
  have ok: "codec_ok (en_codec E)" "disk_reliable ?d" using assms(1) by (auto simp: env_ok_def)
  obtain k where k: "sheds (en_codec E) (contents (en_codec E) c @ [r]) c (push ?d (en_codec E) r c) k"
      "cache_inv (en_codec E) (push ?d (en_codec E) r c)" "sc_cfg (push ?d (en_codec E) r c) = sc_cfg c"
    using push_spec[OF ok c(2)] by blast
  then show ?thesis
    using assms(2) c(1) subseq_drop_snoc kept_live(1) by (auto simp: books_def cache_push_def batching_def sheds_def)
qed

lemma books_sent: 
  assumes "books E i cfg n h rt l" "priority cfg = CacheFirst \<Longrightarrow> \<forall>c. rt_cache rt = Some c \<longrightarrow> cache_is_empty c"
  shows "books E i cfg n (h @ [r]) rt (l @ [\<lparr>at_action = i, at_record = r, at_dest = d, at_error = None\<rparr>])"
proof -
  obtain c where c: "rt_cache rt = Some c" "cache_inv (en_codec E) c" using assms(1) by (auto simp: books_def split: option.splits)
  have "contents (en_codec E) c = []" if "priority cfg = CacheFirst" using assms(2)[OF that] c cache_empty_contents[OF c(2)] by simp
  moreover have "subseq (arrived_at i l @ [r]) (h @ [r])" if "subseq (arrived_at i l) h"
    using that by (intro list_emb_append_mono) simp_all
  ultimately show ?thesis using assms(1) c kept_live(2)[of "arrived_at i l" _ _ h r] by (auto simp: books_def)
qed

lemma books_gave_up:
  assumes "books E i cfg n h rt l" "err \<noteq> None" "\<forall>m. err \<noteq> Some (Retry m)"
  shows "books E i cfg n (h @ [r]) rt (l @ [\<lparr>at_action = i, at_record = r, at_dest = d, at_error = err\<rparr>])"
  using assms by (auto simp: books_def intro: kept_live split: option.splits send_error.splits)

lemma books_retry: "books E i cfg n h rt l \<Longrightarrow> books E i cfg n h rt (l @ [\<lparr>at_action = i, at_record = r, at_dest = d, at_error = Some (Retry m)\<rparr>])"
  by (auto simp: books_def split: option.splits)

subsection \<open>Delivery keeps the books\<close>

lemma books_cached: "books E i cfg n h rt l \<Longrightarrow> rt_cache rt \<noteq> None"
  by (auto simp: books_def split: option.splits)

lemma attempt_books:
  assumes E: "env_ok E" and b: "books E i cfg n h rt (io_log st)"
    and empty: "priority cfg = CacheFirst \<Longrightarrow> \<forall>c. rt_cache rt = Some c \<longrightarrow> cache_is_empty c"
    and a: "attempt_or_cache E D i r (rt, st) = (dv, rt', st')"
  shows "books E i cfg n (h @ [r]) rt' (io_log st')"
proof -
  obtain res st1 where s: "send_action E i r None st = (res, st1)" by fastforce
  note l = send_log[OF s]
  show ?thesis
  proof (cases res)
    case None
    then show ?thesis using a s l books_sent[OF b empty, of r None] by (simp add: attempt_or_cache_def)
  next
    case (Some err)
    show ?thesis
    proof (cases "\<exists>m. err = Retry m")
      case True
      then obtain m where m: "err = Retry m" by blast
      have "books E i cfg n h rt (io_log st1)" using books_retry[OF b] l Some m by simp
      then have p: "books E i cfg n (h @ [r]) (cache_push E r rt st1) (io_log st1)" by (rule books_push[OF E])
      obtain rt2 st2 where r2: "report_send_error E err (cache_push E r rt st1, st1) = (rt2, st2)" by fastforce
      then have "sync_cache_drops (rt2, st2) = (rt', st')"
        using a s Some m books_cached[OF b] by (simp add: attempt_or_cache_def)
      with sync_same report_same[OF r2] books_same p show ?thesis by metis
    next
      case False
      then have g: "books E i cfg n (h @ [r]) rt (io_log st1)"
        using books_gave_up[OF b, of "Some err" r None] l Some by simp
      obtain rt2 st2 where r2: "report_send_error E err (rt, st1) = (rt2, st2)" by fastforce
      have "rt' = rt2" "io_log st' = io_log st2" using a s Some False r2 by (auto simp: attempt_or_cache_def split: send_error.splits)
      then show ?thesis using report_same[OF r2] books_same g by metis
    qed
  qed
qed

lemma deliver_books:
  assumes E: "env_ok E" and b: "books E i cfg n h rt (io_log st)" and a: "deliver_one E D i r (rt, st) = (dv, rt', st')"
  shows "books E i cfg n (h @ [r]) rt' (io_log st')"
proof -
  obtain c where c: "rt_cache rt = Some c" "sc_cfg c = cfg" "batching rt = None" using b by (auto simp: books_def split: option.splits)
  show ?thesis
  proof (cases "priority cfg = CacheFirst \<and> \<not> cache_is_empty c")
    case True
    then have "sync_cache_drops (cache_push E r rt st, st) = (rt', st')" using a c by (simp add: deliver_one_def)
    with sync_same books_same books_push[OF E b] show ?thesis by metis
  next
    case False
    then have "attempt_or_cache E D i r (rt, st) = (dv, rt', st')" using a c by (auto simp: deliver_one_def)
    from attempt_books[OF E b _ this] show ?thesis using False c by simp
  qed
qed

subsection \<open>Resending keeps the books\<close>

lemma books_front:
  assumes "env_ok E" "books E i cfg n h rt l" "rt_cache rt = Some c" "front (en_disk E w) (en_codec E) c = (o', c1)"
  shows "books E i cfg n h (rt\<lparr>rt_cache := Some c1\<rparr>) l"
proof -
  have "disk_reliable (en_disk E w)" "cache_inv (en_codec E) c" using assms(1-3) by (auto simp: env_ok_def books_def)
  from refill_spec[OF this] front_spec[OF this] assms show ?thesis by (auto simp: books_def batching_def)
qed

lemma front_contents:
  assumes "env_ok E" "cache_inv (en_codec E) c" "front (en_disk E w) (en_codec E) c = (Some r, c1)"
  shows "\<exists>rs. contents (en_codec E) c1 = r # rs \<and> contents (en_codec E) (drop_front E st c1) = rs \<and>
    cache_inv (en_codec E) (drop_front E st c1) \<and> sc_dropped (drop_front E st c1) = sc_dropped c1 \<and> sc_cfg (drop_front E st c1) = sc_cfg c1"
proof -
  have d: "disk_reliable (en_disk E w)" "disk_reliable (en_disk E (io_world st))" using assms(1) by (auto simp: env_ok_def)
  have c1: "c1 = refill (en_disk E w) (en_codec E) c" using front_spec(2)[OF d(1) assms(2)] assms(3) by simp
  obtain rs where rs: "contents (en_codec E) c = r # rs"
    using front_spec(1)[OF d(1) assms(2)] assms(3) by (auto split: list.splits)
  have i: "cache_inv (en_codec E) c1" "contents (en_codec E) c1 = r # rs" using refill_spec[OF d(1) assms(2)] rs c1 by simp_all
  show ?thesis using pop_front_Cons[OF d(2) i] i(2) by (metis drop_front_def snd_conv)
qed

lemma subseq_skip: "subseq (a @ x # xs) h \<Longrightarrow> subseq (a @ xs) h"
  by (rule subseq_order.order_trans[rotated]) (auto intro: list_emb_append_mono)

lemma books_popped:
  assumes E: "env_ok E" and b: "books E i cfg n h rt l" and c: "rt_cache rt = Some c"
    and f: "front (en_disk E w) (en_codec E) c = (Some r, c1)" and e: "\<forall>m. err \<noteq> Some (Retry m)"
  shows "books E i cfg n h (rt'\<lparr>rt_cache := Some (drop_front E st c1), rt_action := rt_action rt, rt_batch := rt_batch rt\<rparr>)
    (l @ [\<lparr>at_action = i, at_record = r, at_dest = d, at_error = err\<rparr>])"
proof -
  have "cache_inv (en_codec E) c" using b c by (simp add: books_def)
  from front_contents[OF E this f, of st] obtain rs where rs: "contents (en_codec E) c1 = r # rs" "contents (en_codec E) (drop_front E st c1) = rs"
      "cache_inv (en_codec E) (drop_front E st c1)" "sc_dropped (drop_front E st c1) = sc_dropped c1" "sc_cfg (drop_front E st c1) = sc_cfg c1"
    by blast
  have "books E i cfg n h (rt\<lparr>rt_cache := Some c1\<rparr>) l" using books_front[OF E b c f] .
  then show ?thesis
    using rs e by (cases err rule: option.exhaust) (auto simp: books_def batching_def dest: subseq_skip kept_popped split: send_error.splits)
qed

lemma resend_failed_books:
  assumes E: "env_ok E" and b: "books E i cfg n h rt l" and c: "rt_cache rt = Some c"
    and f: "front (en_disk E w) (en_codec E) c = (Some r, c1)" and e: "\<forall>m. err \<noteq> Retry m"
    and l: "io_log st = l @ [\<lparr>at_action = i, at_record = r, at_dest = d, at_error = Some err\<rparr>]"
    and a: "resend_failed E D err r' (rt\<lparr>rt_cache := Some c1\<rparr>) st = (rt', st')"
  shows "books E i cfg n h rt' (io_log st')"
proof -
  obtain rt2 st2 where r2: "report_send_error E err (rt\<lparr>rt_cache := Some c1\<rparr>, st) = (rt2, st2)" by fastforce
  note s = report_same[OF r2]
  have "books E i cfg n h (rt2\<lparr>rt_cache := Some (drop_front E st2 c1), rt_action := rt_action rt, rt_batch := rt_batch rt\<rparr>) (io_log st)"
    unfolding l by (rule books_popped[OF E b c f]) (use e in simp)
  moreover have "rt' = rt2\<lparr>rt_cache := Some (drop_front E st2 c1), rt_action := rt_action rt, rt_batch := rt_batch rt\<rparr>"
    using a r2 s(1) by (auto simp: resend_failed_def Let_def same_rt_def)
  moreover have "io_log st' = io_log st" using a r2 s(2) by (auto simp: resend_failed_def Let_def)
  ultimately show ?thesis by simp
qed

lemma resend_loop_books:
  assumes "env_ok E" "books E i cfg n h (fst s) (io_log (snd s))" "indicator_field cfg = None"
  shows "books E i cfg n h (fst (snd (resend_loop E D i cfg k s))) (io_log (snd (snd (resend_loop E D i cfg k s))))"
  using assms
proof (induction E D i cfg k s rule: resend_loop.induct)
  case (1 E D i cfg sent rt st)
  note E = 1(4) and b = 1(5)[simplified] and none = 1(6)
  obtain c where c: "rt_cache rt = Some c" using books_cached[OF b] by blast
  obtain f c1 where f: "front (en_disk E (io_world st)) (en_codec E) c = (f, c1)" by fastforce
  let ?stop = "RESEND_BATCH_MAX \<le> sent \<or> io_now E st < rt_retry_at rt"
  have copy: "resend_copy cfg r = r" for r using none by (simp add: resend_copy_def)
  show ?case
  proof (cases "?stop")
    case True
    then show ?thesis using b by (subst (1 2) resend_loop.simps) (simp add: Let_def)
  next
    case go: False
    show ?thesis
    proof (cases f)
      case None
      then show ?thesis using go c f books_front[OF E b c f] by (subst (1 2) resend_loop.simps) (simp add: Let_def)
    next
      case (Some r)
      obtain res st1 where s: "send_action E i r (destination cfg) st = (res, st1)" by fastforce
      note l = send_log[OF s]
      show ?thesis
      proof (cases res)
        case None
        let ?rt = "rt\<lparr>rt_cache := Some (drop_front E st1 c1), rt_retry_at := next_slot cfg (io_now E st) (rt_retry_at rt)\<rparr>"
        have "books E i cfg n h (rt\<lparr>rt_cache := Some (drop_front E st1 c1)\<rparr>) (io_log st1)"
          using books_popped[OF E b c f[unfolded Some], where err = None and rt' = rt and st = st1 and d = "destination cfg"] l None by simp
        then have "books E i cfg n h ?rt (io_log st1)" by (rule books_same[rotated]) (simp add: same_rt_def)
        from 1(1)[OF refl go c f[symmetric] Some refl refl, unfolded copy, OF s[symmetric] None E _ none] this
        show ?thesis using go c f Some s None copy by (subst (1 2) resend_loop.simps) (simp add: Let_def)
      next
        case err: (Some err)
        show ?thesis
        proof (cases "\<exists>m. err = Retry m")
          case True
          then obtain m where m: "err = Retry m" by blast
          obtain rt2 st2 where r2: "report_send_error E (Retry m) (rt\<lparr>rt_cache := Some c1\<rparr>, st1) = (rt2, st2)" by fastforce
          have "books E i cfg n h (rt\<lparr>rt_cache := Some c1\<rparr>) (io_log st1)"
            using books_retry[OF books_front[OF E b c f]] l err m by simp
          then have "books E i cfg n h rt2 (io_log st2)" using report_same[OF r2] books_same by metis
          then have "books E i cfg n h (rt2\<lparr>rt_retry_at := t\<rparr>) (io_log st2)" for t
            by (rule books_same[rotated]) (simp add: same_rt_def)
          then show ?thesis using go c f Some s err m r2 copy by (subst (1 2) resend_loop.simps) (simp add: Let_def)
        next
          case False
          obtain rt2 st2 where r2: "resend_failed E D err r (rt\<lparr>rt_cache := Some c1\<rparr>) st1 = (rt2, st2)" by fastforce
          have b2: "books E i cfg n h rt2 (io_log st2)"
            using resend_failed_books[OF E b c f[unfolded Some] _ _ r2] False l err by blast
          have "books E i cfg n h (fst (snd (resend_loop E D i cfg sent (rt2, st2)))) (io_log (snd (snd (resend_loop E D i cfg sent (rt2, st2)))))"
          proof (cases err)
            case (Permanent m)
            with 1(2)[OF refl go c f[symmetric] Some refl refl, unfolded copy, OF s[symmetric] err _ E _ none] b2 r2 show ?thesis by simp
          next
            case Dropped
            with 1(3)[OF refl go c f[symmetric] Some refl refl, unfolded copy, OF s[symmetric] err _ E _ none] b2 r2 show ?thesis by simp
          qed (use False in simp)
          then show ?thesis using go c f Some s err False r2 copy
            by (subst (1 2) resend_loop.simps) (auto simp: Let_def split: send_error.splits)
        qed
      qed
    qed
  qed
qed

end
