(* ===== verification/Delivery_Props.thy ===== *)
theory Delivery_Props
  imports Delivery_Order "HOL-Library.Countable"
begin

text \<open>
  The promises of the sink worker: order and accounting of one action over any run, and recovery
  once its destination answers again; and the cases in which batches break them.
\<close>

subsection \<open>One action among the others\<close>

definition extends :: "nat \<Rightarrow> 'w sink_io \<Rightarrow> 'w sink_io \<Rightarrow> bool" where
  "extends k st st' \<longleftrightarrow> (\<exists>as. io_log st' = io_log st @ as \<and> list_all (\<lambda>a. at_action a = k) as)"

lemma extends_refl [intro, simp]: "io_log st' = io_log st \<Longrightarrow> extends k st st'"
  by (simp add: extends_def)

lemma extends_trans: "extends k a b \<Longrightarrow> extends k b c \<Longrightarrow> extends k a c"
  unfolding extends_def by (metis append_assoc list_all_append)

lemma extends_view: "extends k st st' \<Longrightarrow> k \<noteq> i \<Longrightarrow> of_action i (io_log st') = of_action i (io_log st)"
  unfolding extends_def by (auto simp: of_action_def list_all_iff)

locale action_loop =
  fixes f :: "nat \<Rightarrow> action_rt \<times> 'w sink_io \<Rightarrow> 'a \<times> action_rt \<times> 'w sink_io"
    and i :: nat
    and P Q :: "action_rt \<Rightarrow> attempt list \<Rightarrow> bool"
  assumes own: "P rt (io_log st) \<Longrightarrow> f i (rt, st) = (x, rt', st') \<Longrightarrow> Q rt' (io_log st')"
    and frame: "extends k (snd s) (snd (snd (f k s)))"
    and P_view: "of_action i l = of_action i l' \<Longrightarrow> P rt l \<Longrightarrow> P rt l'"
    and Q_view: "of_action i l = of_action i l' \<Longrightarrow> Q rt l \<Longrightarrow> Q rt l'"
begin

lemma loop_above: "for_actions f k rts st = (xs, rts', st') \<Longrightarrow> i < k \<Longrightarrow> of_action i (io_log st') = of_action i (io_log st)"
proof (induction rts arbitrary: k st xs rts' st')
  case (Cons rt rts)
  obtain x rt1 st1 where f: "f k (rt, st) = (x, rt1, st1)" by (cases "f k (rt, st)")
  obtain ys rts2 st2 where r: "for_actions f (k + 1) rts st1 = (ys, rts2, st2)" by (cases "for_actions f (k + 1) rts st1")
  show ?case
    using Cons.IH[OF r] extends_view[OF frame[of k "(rt, st)"], of i] Cons.prems f r by simp
qed simp

lemma loop_length: "for_actions f k rts st = (xs, rts', st') \<Longrightarrow> length rts' = length rts"
  by (induction rts arbitrary: k st xs rts') (auto split: prod.splits)

lemma loop_at:
  assumes "for_actions f k rts st = (xs, rts', st')" "k \<le> i" "i - k < length rts" "P (rts ! (i - k)) (io_log st)"
  shows "Q (rts' ! (i - k)) (io_log st')"
  using assms
proof (induction rts arbitrary: k st xs rts' st')
  case (Cons rt rts)
  obtain x rt1 st1 where f: "f k (rt, st) = (x, rt1, st1)" by (cases "f k (rt, st)")
  obtain ys rts2 st2 where r: "for_actions f (k + 1) rts st1 = (ys, rts2, st2)" by (cases "for_actions f (k + 1) rts st1")
  have res: "rts' = rt1 # rts2" "st' = st2" using Cons.prems(1) f r by simp_all
  show ?case
  proof (cases "k = i")
    case True
    have "Q rt1 (io_log st1)" using own[of rt st x rt1 st1] Cons.prems(4) f True by simp
    moreover have "of_action i (io_log st1) = of_action i (io_log st2)" using loop_above[OF r] True by simp
    ultimately have "Q rt1 (io_log st2)" by (rule Q_view[rotated])
    then show ?thesis using res True by simp
  next
    case False
    then have k: "i - k = Suc (i - (k + 1))" using Cons.prems(2) by simp
    have "of_action i (io_log st) = of_action i (io_log st1)" using extends_view[OF frame[of k "(rt, st)"] False] f by simp
    then have "P (rts ! (i - (k + 1))) (io_log st1)" using Cons.prems(4) k by (auto intro: P_view)
    then show ?thesis using Cons.IH[OF r] Cons.prems(2,3) k res False by simp
  qed
qed simp

end

subsection \<open>Each loop only adds attempts of its action\<close>

lemma send_extends [simp]: "extends k st (snd (send_action E k r d st))"
  using send_log[of E k r d st] by (cases "send_action E k r d st") (simp add: extends_def)

lemma report_log [simp]: "io_log (snd (report_send_error E err s)) = io_log (snd s)"
  using report_same(2) by (metis prod.collapse)

lemma sync_log [simp]: "io_log (snd (sync_cache_drops s)) = io_log (snd s)"
  using sync_same(2) by (metis prod.collapse)

lemma attempt_log: "io_log (snd (snd (attempt_or_cache E D k r s))) = io_log (snd (send_action E k r None (snd s)))"
  by (cases "send_action E k r None (snd s)")
    (auto simp: attempt_or_cache_def split_beta split: option.split send_error.split)

lemma attempt_extends: "extends k (snd s) (snd (snd (attempt_or_cache E D k r s)))"
  by (rule extends_trans[OF send_extends[of k "snd s" E r None]]) (simp add: attempt_log)

lemma batches_extends: "extends k (snd s) (snd (snd (send_batches E D k n m dv s)))"
proof (induction m arbitrary: dv s)
  case (Suc m)
  obtain rt st where s: "s = (rt, st)" by fastforce
  let ?s = "(rt\<lparr>rt_batch := drop n (rt_batch rt), rt_last_batch := io_now E st\<rparr>, st)"
  let ?a = "attempt_or_cache E D k (batch_record E st (take n (rt_batch rt))) ?s"
  have "extends k st (snd (snd ?a))" using attempt_extends[of k ?s E D] by simp
  from extends_trans[OF this Suc.IH[of "snd ?a" "delivery_max dv (fst ?a)"]] show ?case
    by (simp add: s Let_def split_beta)
qed simp

lemma deliver_extends: "extends k (snd s) (snd (snd (deliver_one E D k r s)))"
proof -
  obtain rt st where s: "s = (rt, st)" by fastforce
  show ?thesis
    using attempt_extends[of k "(rt, st)" E D r] batches_extends[of k "(rt\<lparr>rt_batch := rt_batch rt @ b\<rparr>, st)" for b]
    by (auto simp: s deliver_one_def Let_def split: option.split)
qed

lemma linger_extends: "extends k (snd s) (snd (linger_one E now k s))"
proof -
  obtain rt st where s: "s = (rt, st)" by fastforce
  have "extends k st (snd (send_action E k r None st))" for r by simp
  then show ?thesis
    by (auto simp: s linger_one_def Let_def split_beta extends_def split: option.split)
qed

lemma close_extends: "extends k (snd s) (snd (close_one E k s))"
  by (cases s) (simp add: close_one_def)

lemma resend_failed_log: "io_log (snd (resend_failed E D err r rt st)) = io_log st"
  by (simp add: resend_failed_def Let_def split_beta)

lemma resend_loop_extends: "extends k (snd s) (snd (snd (resend_loop E D k cfg m s)))"
proof (induction E D k cfg m s rule: resend_loop.induct)
  case (1 E D i cfg sent rt st)
  show ?case
  proof (cases "RESEND_BATCH_MAX \<le> sent \<or> io_now E st < rt_retry_at rt \<or> rt_cache rt = None")
    case True
    then show ?thesis by (subst resend_loop.simps) (auto simp: Let_def)
  next
    case False
    then obtain c where c: "rt_cache rt = Some c" and go: "\<not> (RESEND_BATCH_MAX \<le> sent \<or> io_now E st < rt_retry_at rt)" by auto
    obtain f c1 where f: "front (en_disk E (io_world st)) (en_codec E) c = (f, c1)" by fastforce
    show ?thesis
    proof (cases f)
      case None
      then show ?thesis using go c f by (subst resend_loop.simps) (simp add: Let_def)
    next
      case (Some r)
      obtain res st1 where s: "send_action E i (resend_copy cfg r) (destination cfg) st = (res, st1)" by fastforce
      then have e: "extends i st st1" using send_extends[of i st E "resend_copy cfg r" "destination cfg"] by simp
      note IH = 1[OF refl go c f[symmetric] Some refl refl s[symmetric]]
      show ?thesis
      proof (cases res)
        case None
        from extends_trans[OF e] IH(1)[OF this] show ?thesis using go c f Some s None by (subst resend_loop.simps) (simp add: Let_def)
      next
        case err: (Some err)
        have rf: "extends i st (snd (resend_failed E D err (resend_copy cfg r) (rt\<lparr>rt_cache := Some c1\<rparr>) st1))"
          using e by (simp add: extends_def resend_failed_log)
        show ?thesis
        proof (cases err)
          case (Retry m)
          then show ?thesis using go c f Some s err e by (subst resend_loop.simps) (simp add: Let_def split_beta extends_def)
        next
          case (Permanent m)
          from extends_trans[OF rf] IH(2)[OF err this] show ?thesis using go c f Some s err Permanent by (subst resend_loop.simps) (simp add: Let_def)
        next
          case Dropped
          from extends_trans[OF rf] IH(3)[OF err this] show ?thesis using go c f Some s err Dropped by (subst resend_loop.simps) (simp add: Let_def)
        qed
      qed
    qed
  qed
qed

lemma resend_extends: "extends k (snd s) (snd (snd (resend_cached E D k live s)))"
  using resend_loop_extends[of k s E D] by (auto simp: resend_cached_def split: option.split)

subsection \<open>The loops of the worker\<close>

text \<open>What holds of an action whose cache keeps records as they are.\<close>

definition in_order :: "'w sink_env \<Rightarrow> nat \<Rightarrow> cache_config \<Rightarrow> nat \<Rightarrow> stream_record list \<Rightarrow> action_rt \<Rightarrow> attempt list \<Rightarrow> bool" where
  "in_order E i cfg n h rt l \<longleftrightarrow> env_ok E \<and> indicator_field cfg = None \<and> books E i cfg n h rt l"

lemma in_order_view: "of_action i l = of_action i l' \<Longrightarrow> in_order E i cfg n h rt l \<Longrightarrow> in_order E i cfg n h rt l'"
  using books_view by (fastforce simp: in_order_def)

interpretation deliver: action_loop "\<lambda>k. deliver_one E D k r" i "in_order E i cfg n h" "in_order E i cfg n (h @ [r])"
  for E :: "'w sink_env" and D r i cfg n h
  by unfold_locales (auto simp: in_order_def deliver_extends intro: deliver_books books_view)

lemma resend_keeps:
  assumes "in_order E i cfg n h rt (io_log st)" "resend_cached E D i live (rt, st) = (k, rt', st')"
  shows "in_order E i cfg n h rt' (io_log st')"
proof -
  obtain c where c: "rt_cache rt = Some c" "sc_cfg c = cfg" using assms(1) by (auto simp: in_order_def books_def split: option.splits)
  show ?thesis
    using assms resend_loop_books[of E i cfg n h "(rt, st)" D 0] c
    by (auto simp: resend_cached_def in_order_def split: if_splits)
qed

interpretation resend: action_loop "\<lambda>k. resend_cached E D k live" i "in_order E i cfg n h" "in_order E i cfg n h"
  for E :: "'w sink_env" and D live i cfg n h
  by unfold_locales (auto simp: resend_extends intro: in_order_view resend_keeps)

lemma no_batch: "in_order E i cfg n h rt l \<Longrightarrow> rt_batch rt = []"
  by (auto simp: in_order_def books_def split: option.splits)

lemma idle: "in_order E i cfg n h rt l \<Longrightarrow> linger_one E now k (rt, st) = (rt, st)" "in_order E i cfg n h rt l \<Longrightarrow> close_one E k (rt, st) = (rt, st)"
  by (simp_all add: linger_one_def close_one_def no_batch)

interpretation linger: action_loop "\<lambda>k s. ((), linger_one E now k s)" i "in_order E i cfg n h" "in_order E i cfg n h"
  for E :: "'w sink_env" and now i cfg n h
  by unfold_locales (auto simp: linger_extends idle intro: in_order_view)

interpretation closing: action_loop "\<lambda>k s. ((), close_one E k s)" i "in_order E i cfg n h" "in_order E i cfg n h"
  for E :: "'w sink_env" and i cfg n h
  by unfold_locales (auto simp: close_extends idle intro: in_order_view)

subsection \<open>A run of the worker\<close>

definition ready :: "'w sink_env \<Rightarrow> nat \<Rightarrow> cache_config \<Rightarrow> nat \<Rightarrow> stream_record list \<Rightarrow> 'w sink_worker \<Rightarrow> bool" where
  "ready E i cfg n h W \<longleftrightarrow> i < length (sw_rts W) \<and> in_order E i cfg n h (sw_rts W ! i) (io_log (sw_io W))"

lemma worker_simps [simp]:
  "sw_rts (on_io f W) = sw_rts W" "sw_io (on_io f W) = f (sw_io W)" "sw_open (on_io f W) = sw_open W"
  "sw_rts (count_out k W) = sw_rts W" "io_log (sw_io (count_out k W)) = io_log (sw_io W)" "sw_open (count_out k W) = sw_open W"
  "sw_rts (pending_out W) = sw_rts W" "io_log (sw_io (pending_out W)) = io_log (sw_io W)" "sw_open (pending_out W) = sw_open W"
  "sw_rts (snd (flush_files E W)) = sw_rts W" "io_log (sw_io (snd (flush_files E W))) = io_log (sw_io W)"
  "sw_open (snd (flush_files E W)) = sw_open W"
  by (simp_all add: on_io_def count_out_def pending_out_def flush_files_def split_beta)

lemma live_one_ready:
  assumes "ready E i cfg n h W"
  shows "ready E i cfg n (h @ [r]) (live_one E D W r)" "sw_open (live_one E D W r) = sw_open W"
proof -
  obtain dvs rts st where f: "for_actions (\<lambda>k. deliver_one E D k r) 0 (sw_rts W) (sw_io W) = (dvs, rts, st)"
    by (cases "for_actions (\<lambda>k. deliver_one E D k r) 0 (sw_rts W) (sw_io W)")
  have i: "i < length (sw_rts W)" "in_order E i cfg n h (sw_rts W ! i) (io_log (sw_io W))" using assms by (simp_all add: ready_def)
  have "rt_cache (sw_rts W ! i) \<noteq> None" using i(2) books_cached by (auto simp: in_order_def)
  with i(1) have nop: "\<not> all_nop (sw_rts W)" by (auto simp: all_nop_def list_all_length)
  have "in_order E i cfg n (h @ [r]) (rts ! i) (io_log st)" using deliver.loop_at[OF f] i by simp
  moreover have "length rts = length (sw_rts W)" by (rule deliver.loop_length[OF f])
  ultimately show "ready E i cfg n (h @ [r]) (live_one E D W r)" "sw_open (live_one E D W r) = sw_open W"
    using nop f i by (auto simp: live_one_def deliver_record_def ready_def Let_def split: delivery.split)
qed

lemma live_all_ready:
  "ready E i cfg n h W \<Longrightarrow> ready E i cfg n (h @ rs) (foldl (live_one E D) W rs) \<and> sw_open (foldl (live_one E D) W rs) = sw_open W"
proof (induction rs arbitrary: h W)
  case (Cons r rs)
  from Cons.IH[OF live_one_ready(1)[OF Cons.prems]] live_one_ready(2)[OF Cons.prems] show ?case by simp
qed simp

lemma ready_cong: "sw_rts W' = sw_rts W \<Longrightarrow> io_log (sw_io W') = io_log (sw_io W) \<Longrightarrow> ready E i cfg n h W' = ready E i cfg n h W"
  by (simp add: ready_def)

lemma live_step_ready:
  assumes "ready E i cfg n h W"
  shows "ready E i cfg n (h @ rs) (live_step E D rs W) \<and> sw_open (live_step E D rs W) = sw_open W"
proof -
  let ?W = "foldl (live_one E D) (W\<lparr>sw_last_live := io_now E (sw_io W)\<rparr>) rs"
  have "ready E i cfg n h (W\<lparr>sw_last_live := io_now E (sw_io W)\<rparr>)" using assms by (simp add: ready_def)
  from live_all_ready[OF this, of rs D] show ?thesis
    by (auto simp: live_step_def Let_def split_beta ready_def)
qed

lemma tick_step_ready:
  assumes "ready E i cfg n h W"
  shows "ready E i cfg n h (tick_step E D W) \<and> sw_open (tick_step E D W) = sw_open W"
proof -
  define V where "V = (if 0 < fst (flush_files E W) then on_io (on_counters (inc_exceptions 1)) (snd (flush_files E W)) else pending_out (snd (flush_files E W)))"
  have V: "sw_rts V = sw_rts W" "io_log (sw_io V) = io_log (sw_io W)" "sw_open V = sw_open W" by (simp_all add: V_def)
  obtain u rts st where f: "for_actions (\<lambda>k s. ((), linger_one E (io_now E (sw_io V)) k s)) 0 (sw_rts V) (sw_io V) = (u, rts, st)"
    by (cases "for_actions (\<lambda>k s. ((), linger_one E (io_now E (sw_io V)) k s)) 0 (sw_rts V) (sw_io V)")
  let ?live = "io_now E st - sw_last_live V < 2 * SINK_TICK"
  obtain ks rts2 st2 where g: "for_actions (\<lambda>k. resend_cached E D k ?live) 0 rts st = (ks, rts2, st2)"
    by (cases "for_actions (\<lambda>k. resend_cached E D k ?live) 0 rts st")
  have i: "i < length (sw_rts V)" "in_order E i cfg n h (sw_rts V ! i) (io_log (sw_io V))" using assms V by (simp_all add: ready_def)
  have "in_order E i cfg n h (rts ! i) (io_log st)" using linger.loop_at[OF f] i by simp
  moreover have l: "length rts = length (sw_rts V)" by (rule linger.loop_length[OF f])
  ultimately have "in_order E i cfg n h (rts2 ! i) (io_log st2)" using resend.loop_at[OF g] i by simp
  moreover have "length rts2 = length rts" by (rule resend.loop_length[OF g])
  ultimately show ?thesis
    using f g i l V by (simp add: tick_step_def split_beta V_def[symmetric] ready_def)
qed

lemma close_step_ready:
  assumes "ready E i cfg n h W"
  shows "ready E i cfg n h (close_step E W)"
proof -
  obtain u rts st where f: "for_actions (\<lambda>k s. ((), close_one E k s)) 0 (sw_rts W) (sw_io W) = (u, rts, st)"
    by (cases "for_actions (\<lambda>k s. ((), close_one E k s)) 0 (sw_rts W) (sw_io W)")
  have "in_order E i cfg n h (rts ! i) (io_log st)" using closing.loop_at[OF f] assms by (simp add: ready_def)
  moreover have "length rts = length (sw_rts W)" by (rule closing.loop_length[OF f])
  ultimately show ?thesis using f assms by (simp add: close_step_def split_beta Let_def ready_def)
qed

text \<open>The records handed to the worker before its queue ends.\<close>

fun handed :: "sink_event list \<Rightarrow> stream_record list" where
  "handed [] = []"
| "handed (Live rs # evs) = rs @ handed evs"
| "handed (Tick # evs) = handed evs"
| "handed (Close # evs) = []"

lemma closed_run: "\<not> sw_open W \<Longrightarrow> sink_run E D evs W = W"
  by (induction evs) (simp_all add: sink_run_def sink_step_def)

lemma close_closes: "\<not> sw_open (close_step E W)"
  by (simp add: close_step_def split_beta Let_def)

lemma run_ready:
  assumes "ready E i cfg n h W" "sw_open W"
  shows "ready E i cfg n (h @ handed evs) (sink_run E D evs W)"
  using assms
proof (induction evs arbitrary: h W)
  case (Cons ev evs)
  let ?V = "on_io (\<lambda>st. st\<lparr>io_world := en_pass E (io_world st)\<rparr>) W"
  have V: "ready E i cfg n h ?V" "sw_open ?V" using Cons.prems by (simp_all add: ready_def)
  have s: "sink_run E D (ev # evs) W = sink_run E D evs (sink_event_step E D ev ?V)"
    using Cons.prems(2) by (simp add: sink_run_def sink_step_def)
  show ?case
  proof (cases ev)
    case (Live rs)
    then show ?thesis using s V live_step_ready[OF V(1), of rs D] Cons.IH[of "h @ rs" "live_step E D rs ?V"] by simp
  next
    case Tick
    then show ?thesis using s V tick_step_ready[OF V(1), of D] Cons.IH[of h "tick_step E D ?V"] by simp
  next
    case Close
    have "sink_run E D evs (close_step E ?V) = close_step E ?V" by (rule closed_run) (rule close_closes)
    then show ?thesis using Close s close_step_ready[OF V(1)] by simp
  qed
qed (simp add: sink_run_def)

subsection \<open>Recovery\<close>

text \<open>The destination answers again and the clock does not run backwards.\<close>

definition reachable :: "'w sink_env \<Rightarrow> nat \<Rightarrow> bool" where
  "reachable E i \<longleftrightarrow> (\<forall>r d w. fst (en_send E i r d w) = None \<and> en_clock E w \<le> en_clock E (snd (en_send E i r d w)))"

lemma resend_drains:
  assumes E: "env_ok E" "reachable E i" and cfg: "resend_interval cfg = 0"
    and c: "rt_cache rt = Some c" "cache_inv (en_codec E) c" "rt_retry_at rt \<le> io_now E st" "k \<le> RESEND_BATCH_MAX"
  shows "\<exists>rt' st' c'. resend_loop E D i cfg k (rt, st) = (k + min (RESEND_BATCH_MAX - k) (length (contents (en_codec E) c)), rt', st') \<and>
    rt_cache rt' = Some c' \<and> contents (en_codec E) c' = drop (RESEND_BATCH_MAX - k) (contents (en_codec E) c) \<and>
    cache_inv (en_codec E) c' \<and> sc_cfg c' = sc_cfg c \<and> rt_retry_at rt' = rt_retry_at rt \<and> rt_batch rt' = rt_batch rt \<and>
    io_now E st \<le> io_now E st' \<and>
    arrived_at i (io_log st') = arrived_at i (io_log st) @ map (resend_copy cfg) (take (RESEND_BATCH_MAX - k) (contents (en_codec E) c))"
  using c
proof (induction "length (contents (en_codec E) c)" arbitrary: k rt st c)
  case 0
  have d: "disk_reliable (en_disk E (io_world st))" using E(1) by (simp add: env_ok_def)
  have "front (en_disk E (io_world st)) (en_codec E) c = (None, refill (en_disk E (io_world st)) (en_codec E) c)"
    using front_spec[OF d 0(3)] 0(1) by (cases "front (en_disk E (io_world st)) (en_codec E) c") simp
  then show ?case using 0 refill_spec[OF d 0(3)] by (subst resend_loop.simps) (simp add: Let_def)
next
  case (Suc m)
  have d: "disk_reliable (en_disk E (io_world st))" using E(1) by (simp add: env_ok_def)
  obtain r rs where rs: "contents (en_codec E) c = r # rs" using Suc.hyps(2) by (cases "contents (en_codec E) c") auto
  show ?case
  proof (cases "k = RESEND_BATCH_MAX")
    case True
    then show ?thesis using Suc.prems by (subst resend_loop.simps) (simp add: Let_def)
  next
    case False
    obtain c1 where f: "front (en_disk E (io_world st)) (en_codec E) c = (Some r, c1)"
      using front_spec[OF d Suc.prems(2)] rs by (cases "front (en_disk E (io_world st)) (en_codec E) c") simp
    let ?copy = "resend_copy cfg r"
    obtain st1 where s: "send_action E i ?copy (destination cfg) st = (None, st1)" "io_now E st \<le> io_now E st1"
      using E(2) by (auto simp: send_action_def reachable_def io_now_def split_beta)
    have c1: "contents (en_codec E) c1 = r # rs"
      using front_spec[OF d Suc.prems(2)] refill_spec(2)[OF d Suc.prems(2)] f rs by simp
    let ?c = "drop_front E st1 c1"
    have c2: "contents (en_codec E) ?c = rs" "cache_inv (en_codec E) ?c" "sc_cfg ?c = sc_cfg c"
      using front_contents[OF E(1) Suc.prems(2) f, of st1] c1 refill_spec[OF d Suc.prems(2)] front_spec(2)[OF d Suc.prems(2)] f by auto
    let ?rt = "rt\<lparr>rt_cache := Some ?c, rt_retry_at := next_slot cfg (io_now E st) (rt_retry_at rt)\<rparr>"
    have "resend_loop E D i cfg k (rt, st) = resend_loop E D i cfg (k + 1) (?rt, st1)"
      using Suc.prems False f s(1) by (subst resend_loop.simps) (simp add: Let_def)
    moreover have slot: "rt_retry_at ?rt = rt_retry_at rt" using cfg by (simp add: next_slot_def)
    moreover have "rt_retry_at ?rt \<le> io_now E st1" using Suc.prems(3) s(2) slot by simp
    moreover have "m = length (contents (en_codec E) ?c)" using Suc.hyps(2) rs c2 by simp
    moreover have "arrived_at i (io_log st1) = arrived_at i (io_log st) @ [?copy]" using send_log[OF s(1)] by simp
    moreover have "RESEND_BATCH_MAX - k = Suc (RESEND_BATCH_MAX - (k + 1))" using Suc.prems(4) False by simp
    ultimately show ?thesis using Suc.hyps(1)[of ?c ?rt st1 "k + 1"] Suc.prems(4) False c2 rs s(2) by fastforce
  qed
qed

text \<open>The clock of the worker, which nothing it does turns back.\<close>

definition clock_steady :: "'w sink_env \<Rightarrow> bool" where
  "clock_steady E \<longleftrightarrow> (\<forall>k r d w. en_clock E w \<le> en_clock E (snd (en_send E k r d w)) \<and> en_clock E w \<le> en_clock E (snd (en_flush E w))
     \<and> en_clock E w \<le> en_clock E (en_pass E w))"

text \<open>What the loops over the other actions may do meanwhile: let time pass, and add attempts of their
  own.\<close>

definition elsewhere :: "'w sink_env \<Rightarrow> nat \<Rightarrow> 'w sink_io \<Rightarrow> 'w sink_io \<Rightarrow> bool" where
  "elsewhere E i st st' \<longleftrightarrow> of_action i (io_log st') = of_action i (io_log st) \<and> io_now E st \<le> io_now E st'"

lemma elsewhere_refl [simp]: "elsewhere E i st st"
  by (simp add: elsewhere_def)

lemma elsewhere_trans: "elsewhere E i a b \<Longrightarrow> elsewhere E i b c \<Longrightarrow> elsewhere E i a c"
  by (auto simp: elsewhere_def)

lemma elsewhereI: "extends k st st' \<Longrightarrow> k \<noteq> i \<Longrightarrow> io_now E st \<le> io_now E st' \<Longrightarrow> elsewhere E i st st'"
  by (simp add: elsewhere_def extends_view)

lemma loop_position:
  assumes "\<And>k s. k \<noteq> i \<Longrightarrow> elsewhere E i (snd s) (snd (snd (f k s)))"
  shows "for_actions f k rts st = (xs, rts', st') \<Longrightarrow> k \<le> i \<Longrightarrow> i - k < length rts \<Longrightarrow>
    length rts' = length rts \<and>
    (\<exists>st0 x st1. elsewhere E i st st0 \<and> f i (rts ! (i - k), st0) = (x, rts' ! (i - k), st1) \<and> elsewhere E i st1 st')"
proof (induction rts arbitrary: k st xs rts')
  case (Cons rt rts)
  obtain x rt1 st1 where f: "f k (rt, st) = (x, rt1, st1)" by (cases "f k (rt, st)")
  obtain ys rts2 st2 where r: "for_actions f (k + 1) rts st1 = (ys, rts2, st2)" by (cases "for_actions f (k + 1) rts st1")
  have res: "rts' = rt1 # rts2" "st' = st2" using Cons.prems(1) f r by simp_all
  have after: "for_actions f j ts s = (zs, ts', s') \<Longrightarrow> i < j \<Longrightarrow> elsewhere E i s s' \<and> length ts' = length ts" for j ts s zs ts' s'
  proof (induction ts arbitrary: j s zs ts')
    case (Cons t ts)
    then show ?case using assms[of j "(t, s)"] elsewhere_trans by (fastforce split: prod.splits)
  qed simp
  show ?case
  proof (cases "k = i")
    case True
    then show ?thesis using f after[OF r] res by (auto intro!: exI[of _ st])
  next
    case False
    then have k: "i - k = Suc (i - (k + 1))" "k + 1 \<le> i" "i - (k + 1) < length rts" using Cons.prems by auto
    have "elsewhere E i st st1" using assms[OF False, of "(rt, st)"] f by simp
    then show ?thesis using Cons.IH[of "k + 1" st1 ys rts2] r k res elsewhere_trans by fastforce
  qed
qed simp

lemma send_clock: "clock_steady E \<Longrightarrow> send_action E k r d st = (res, st') \<Longrightarrow> io_now E st \<le> io_now E st'"
  by (auto simp: send_action_def clock_steady_def io_now_def split: prod.splits) (metis snd_conv)

lemma report_clock [simp]: "io_now E (snd (report_send_error E err s)) = io_now E (snd s)"
  using report_same(3) by (metis io_now_def prod.collapse)

lemma linger_clock:
  assumes "clock_steady E"
  shows "io_now E (snd s) \<le> io_now E (snd (linger_one E now k s))"
proof -
  obtain rt st where s: "s = (rt, st)" by fastforce
  obtain res st1 where "send_action E k (batch_record E st (rt_batch rt)) None st = (res, st1)" by fastforce
  with send_clock[OF assms this] show ?thesis by (auto simp: s linger_one_def Let_def split: option.split)
qed

lemma failed_clock: "io_now E (snd (resend_failed E D err r rt st)) = io_now E st"
  using report_same(3)[of E err rt st] by (cases "report_send_error E err (rt, st)") (simp add: resend_failed_def Let_def io_now_def)

lemma resend_loop_clock:
  "clock_steady E \<Longrightarrow> io_now E (snd s) \<le> io_now E (snd (snd (resend_loop E D k cfg m s)))"
proof (induction E D k cfg m s rule: resend_loop.induct)
  case (1 E D i cfg sent rt st)
  show ?case
  proof (cases "RESEND_BATCH_MAX \<le> sent \<or> io_now E st < rt_retry_at rt \<or> rt_cache rt = None")
    case True
    then show ?thesis by (subst resend_loop.simps) (auto simp: Let_def)
  next
    case False
    then obtain c where c: "rt_cache rt = Some c" and go: "\<not> (RESEND_BATCH_MAX \<le> sent \<or> io_now E st < rt_retry_at rt)" by auto
    obtain f c1 where f: "front (en_disk E (io_world st)) (en_codec E) c = (f, c1)" by fastforce
    show ?thesis
    proof (cases f)
      case None
      then show ?thesis using go c f by (subst resend_loop.simps) (simp add: Let_def)
    next
      case (Some r)
      obtain res st1 where s: "send_action E i (resend_copy cfg r) (destination cfg) st = (res, st1)" by fastforce
      note e = send_clock[OF 1(4) s]
      note IH = 1(1-3)[OF refl go c f[symmetric] Some refl refl s[symmetric]]
      show ?thesis
      proof (cases res)
        case None
        then show ?thesis using IH(1)[OF None 1(4)] e go c f Some s by (subst resend_loop.simps) (simp add: Let_def)
      next
        case err: (Some err)
        show ?thesis
        proof (cases err)
          case (Retry m)
          obtain rt2 st2 where r2: "report_send_error E (Retry m) (rt\<lparr>rt_cache := Some c1\<rparr>, st1) = (rt2, st2)" by fastforce
          then have "io_now E st2 = io_now E st1" using report_clock[of E "Retry m" "(rt\<lparr>rt_cache := Some c1\<rparr>, st1)"] by simp
          then show ?thesis using Retry go c f Some s err e r2 by (subst resend_loop.simps) (simp add: Let_def)
        next
          case (Permanent m)
          then show ?thesis
            using IH(2)[OF err Permanent 1(4)] e failed_clock[of E D err "resend_copy cfg r" "rt\<lparr>rt_cache := Some c1\<rparr>" st1] go c f Some s err
            by (subst resend_loop.simps) (simp add: Let_def)
        next
          case Dropped
          then show ?thesis
            using IH(3)[OF err Dropped 1(4)] e failed_clock[of E D err "resend_copy cfg r" "rt\<lparr>rt_cache := Some c1\<rparr>" st1] go c f Some s err
            by (subst resend_loop.simps) (simp add: Let_def)
        qed
      qed
    qed
  qed
qed

lemma resend_clock: "clock_steady E \<Longrightarrow> io_now E (snd s) \<le> io_now E (snd (snd (resend_cached E D k live s)))"
  using resend_loop_clock[of E s D] by (auto simp: resend_cached_def split: option.split)

text \<open>An action that can be drained: its cached records, no batch, no pause between resends, the next
  resend due, and no recent traffic where live records go first.\<close>

definition drainable :: "'w sink_env \<Rightarrow> nat \<Rightarrow> cache_config \<Rightarrow> stream_record list \<Rightarrow> 'w sink_worker \<Rightarrow> bool" where
  "drainable E i cfg rs W \<longleftrightarrow>
     sw_open W \<and> i < length (sw_rts W) \<and> rt_batch (sw_rts W ! i) = [] \<and> rt_retry_at (sw_rts W ! i) \<le> io_now E (sw_io W) \<and>
     (\<exists>c. rt_cache (sw_rts W ! i) = Some c \<and> cache_inv (en_codec E) c \<and> sc_cfg c = cfg \<and> contents (en_codec E) c = rs) \<and>
     resend_interval cfg = 0 \<and> (priority cfg = LiveFirst \<longrightarrow> sw_last_live W + 2 * SINK_TICK \<le> io_now E (sw_io W))"

lemma resend_cached_drains:
  assumes "env_ok E" "reachable E i" "rt_cache rt = Some c" "cache_inv (en_codec E) c" "resend_interval (sc_cfg c) = 0"
    and "rt_retry_at rt \<le> io_now E st" "\<not> (priority (sc_cfg c) = LiveFirst \<and> live_recent)"
  shows "\<exists>n rt' st' c'. resend_cached E D i live_recent (rt, st) = (n, rt', st') \<and>
    rt_cache rt' = Some c' \<and> contents (en_codec E) c' = drop RESEND_BATCH_MAX (contents (en_codec E) c) \<and>
    cache_inv (en_codec E) c' \<and> sc_cfg c' = sc_cfg c \<and> rt_retry_at rt' = rt_retry_at rt \<and> rt_batch rt' = rt_batch rt \<and>
    io_now E st \<le> io_now E st' \<and>
    arrived_at i (io_log st') = arrived_at i (io_log st) @ map (resend_copy (sc_cfg c)) (take RESEND_BATCH_MAX (contents (en_codec E) c))"
proof (cases "cache_is_empty c")
  case True
  then show ?thesis using assms cache_empty_contents[OF assms(4)] by (simp add: resend_cached_def)
next
  case False
  then show ?thesis using resend_drains[OF assms(1,2,5,3,4,6), of 0 D] assms(3,7) by (auto simp: resend_cached_def)
qed

lemma tick_drains:
  assumes E: "env_ok E" "reachable E i" "clock_steady E" and W: "drainable E i cfg rs W"
  shows "drainable E i cfg (drop RESEND_BATCH_MAX rs) (tick_step E D W) \<and>
    arrived_at i (io_log (sw_io (tick_step E D W))) = arrived_at i (io_log (sw_io W)) @ map (resend_copy cfg) (take RESEND_BATCH_MAX rs)"
proof -
  define V where "V = (if 0 < fst (flush_files E W) then on_io (on_counters (inc_exceptions 1)) (snd (flush_files E W)) else pending_out (snd (flush_files E W)))"
  have V: "sw_rts V = sw_rts W" "io_log (sw_io V) = io_log (sw_io W)" "sw_open V = sw_open W" "sw_last_live V = sw_last_live W"
    by (simp_all add: V_def flush_files_def on_io_def pending_out_def split_beta)
  have now: "io_now E (sw_io W) \<le> io_now E (sw_io V)"
    using E(3) by (simp add: V_def flush_files_def on_io_def pending_out_def split_beta io_now_def clock_steady_def)
  let ?linger = "\<lambda>k s. ((), linger_one E (io_now E (sw_io V)) k s)"
  obtain u rts st where f: "for_actions ?linger 0 (sw_rts V) (sw_io V) = (u, rts, st)" by (cases "for_actions ?linger 0 (sw_rts V) (sw_io V)")
  let ?resend = "\<lambda>k. resend_cached E D k (io_now E st - sw_last_live V < 2 * SINK_TICK)"
  obtain ks rts2 st2 where g: "for_actions ?resend 0 rts st = (ks, rts2, st2)" by (cases "for_actions ?resend 0 rts st")
  have W': "i < length (sw_rts V)" "rt_batch (sw_rts V ! i) = []" using W V by (simp_all add: drainable_def)
  from loop_position[OF _ f, of i E] W'(1) obtain st0 st1 x where l: "length rts = length (sw_rts V)" "elsewhere E i (sw_io V) st0"
      "?linger i (sw_rts V ! i, st0) = (x, rts ! i, st1)" "elsewhere E i st1 st"
    using elsewhereI[OF linger_extends _ linger_clock[OF E(3)]] by auto
  have same: "rts ! i = sw_rts W ! i" "elsewhere E i (sw_io V) st"
    using l W'(2) V(1) elsewhere_trans by (auto simp: linger_one_def)
  obtain c where c: "rt_cache (rts ! i) = Some c" "cache_inv (en_codec E) c" "sc_cfg c = cfg" "contents (en_codec E) c = rs"
    using W same(1) by (auto simp: drainable_def)
  from loop_position[OF _ g, of i E] l(1) W'(1) obtain st3 n st4 where r: "length rts2 = length rts" "elsewhere E i st st3"
      "?resend i (rts ! i, st3) = (n, rts2 ! i, st4)" "elsewhere E i st4 st2"
    using elsewhereI[OF resend_extends _ resend_clock[OF E(3)]] by auto
  have t: "io_now E (sw_io W) \<le> io_now E st" "io_now E st \<le> io_now E st3" using now same(2) r(2) by (auto simp: elsewhere_def)
  have due: "rt_retry_at (rts ! i) \<le> io_now E st3" "\<not> (priority (sc_cfg c) = LiveFirst \<and> io_now E st - sw_last_live V < 2 * SINK_TICK)"
    "resend_interval (sc_cfg c) = 0"
    using W same(1) t c(3) V(4) by (auto simp: drainable_def)
  from resend_cached_drains[OF E(1,2) c(1,2) due(3,1,2), of D] r(3) obtain c' where c': "rt_cache (rts2 ! i) = Some c'"
      "contents (en_codec E) c' = drop RESEND_BATCH_MAX rs" "cache_inv (en_codec E) c'" "sc_cfg c' = cfg"
      "rt_retry_at (rts2 ! i) = rt_retry_at (rts ! i)" "rt_batch (rts2 ! i) = rt_batch (rts ! i)" "io_now E st3 \<le> io_now E st4"
      "arrived_at i (io_log st4) = arrived_at i (io_log st3) @ map (resend_copy cfg) (take RESEND_BATCH_MAX rs)"
    using c by auto
  have out: "sw_rts (tick_step E D W) = rts2" "io_log (sw_io (tick_step E D W)) = io_log st2" "sw_open (tick_step E D W) = sw_open W"
    "sw_last_live (tick_step E D W) = sw_last_live W" "io_now E (sw_io (tick_step E D W)) = io_now E st2"
    using f g V by (simp_all add: tick_step_def split_beta V_def[symmetric] count_out_def on_io_def io_now_def)
  have logs: "arrived_at i (io_log st2) = arrived_at i (io_log st4)" "arrived_at i (io_log st3) = arrived_at i (io_log (sw_io W))"
    using r(2,4) same(2) V(2) view_depends by (metis elsewhere_def)+
  have "io_now E (sw_io W) \<le> io_now E st2" using t c'(7) r(4) by (auto simp: elsewhere_def)
  then show ?thesis
    using W out logs c' same(1) r(1) l(1) V(1) unfolding drainable_def by auto
qed

lemma ticks_drain:
  assumes E: "env_ok E" "reachable E i" "clock_steady E"
  shows "drainable E i cfg rs W \<Longrightarrow> drainable E i cfg (drop (n * RESEND_BATCH_MAX) rs) (sink_run E D (replicate n Tick) W) \<and>
    arrived_at i (io_log (sw_io (sink_run E D (replicate n Tick) W)))
      = arrived_at i (io_log (sw_io W)) @ map (resend_copy cfg) (take (n * RESEND_BATCH_MAX) rs)"
proof (induction n arbitrary: rs W)
  case (Suc n)
  let ?V = "on_io (\<lambda>st. st\<lparr>io_world := en_pass E (io_world st)\<rparr>) W"
  have "io_now E (sw_io W) \<le> io_now E (sw_io ?V)" using E(3) by (simp add: io_now_def clock_steady_def on_io_def)
  then have "drainable E i cfg rs ?V" using Suc.prems by (auto simp: drainable_def on_io_def)
  note t = tick_drains[OF E this, of D]
  have "sink_run E D (replicate (Suc n) Tick) W = sink_run E D (replicate n Tick) (tick_step E D ?V)"
    using Suc.prems by (simp add: sink_run_def sink_step_def drainable_def)
  moreover have "io_log (sw_io ?V) = io_log (sw_io W)" by simp
  ultimately show ?case
    using Suc.IH[of "drop RESEND_BATCH_MAX rs" "tick_step E D ?V"] t by (simp add: take_add add.commute)
qed (simp add: sink_run_def)

subsection \<open>Properties\<close>

lemma ready_start:
  assumes "env_ok E" "i < length (sw_rts W)" "io_log (sw_io W) = []" "rt_cache (sw_rts W ! i) = Some c" "cache_inv (en_codec E) c"
    "batching (sw_rts W ! i) = None" "rt_batch (sw_rts W ! i) = []" "indicator_field (sc_cfg c) = None"
  shows "ready E i (sc_cfg c) (sc_dropped c) (contents (en_codec E) c) W"
  using assms kept_start
  by (simp add: ready_def in_order_def books_def arrived_at_def given_up_def refused_at_def of_action_def)

text \<open>C2: Take an action that has an offline cache, sends its records one by one (no \<open>batchSize\<close> and no
  \<open>lingerInterval\<close>) and marks no resent record (no indicator field), over a disk whose operations
  succeed. Whatever happens to the other actions, to the destination and to the clock, the records
  that reached its destination, those still cached and those that failed for good are, together
  and each counted once, among the records handed over, and exactly as many are missing as the
  full cache counts as dropped. If the action sends cached records first, what reached the
  destination, followed by what is cached, is moreover in the order in which the records were
  handed over. With batches neither need hold, as the last section shows.\<close>

theorem sink_keeps_order:
  assumes "env_ok E" "i < length (sw_rts W)" "sw_open W" "io_log (sw_io W) = []"
    and "rt_cache (sw_rts W ! i) = Some c" "cache_inv (en_codec E) c" "indicator_field (sc_cfg c) = None"
    and "batching (sw_rts W ! i) = None" "rt_batch (sw_rts W ! i) = []"
  shows "\<exists>c'. rt_cache (sw_rts (sink_run E D evs W) ! i) = Some c' \<and>
    length (arrived_at i (io_log (sw_io (sink_run E D evs W)))) + length (contents (en_codec E) c') + sc_dropped c'
      + given_up i (io_log (sw_io (sink_run E D evs W)))
      = length (contents (en_codec E) c @ handed evs) + sc_dropped c \<and>
    mset (arrived_at i (io_log (sw_io (sink_run E D evs W)))) + mset (contents (en_codec E) c')
      + mset (refused_at i (io_log (sw_io (sink_run E D evs W)))) \<subseteq># mset (contents (en_codec E) c @ handed evs) \<and>
    given_up i (io_log (sw_io (sink_run E D evs W))) = length (refused_at i (io_log (sw_io (sink_run E D evs W)))) \<and>
    (priority (sc_cfg c) = CacheFirst \<longrightarrow>
       subseq (arrived_at i (io_log (sw_io (sink_run E D evs W))) @ contents (en_codec E) c') (contents (en_codec E) c @ handed evs))"
  using run_ready[OF ready_start[OF assms(1,2,4-6,8,9,7)] assms(3), of evs D]
  by (auto simp: ready_def in_order_def books_def kept_def given_up_refused split: option.splits)

text \<open>C30: Once the destination of an action answers again, the ticks of the worker resend its cached
  records, oldest first and up to 4096 at each tick, and take exactly those out of the cache: after
  enough ticks, all of them. This is for an action with no pause between resends
  (\<open>resendInterval\<close> 0), whose wait after the last failure is over and which holds no batch, over a
  disk whose operations succeed and a clock that is not turned back; and if the action sends live
  records first, for the time when no live record has come for two ticks. The other actions may
  fail or succeed meanwhile.\<close>

theorem recovered_sink_drains:
  assumes "env_ok E" "reachable E i" "clock_steady E" "sw_open W" "i < length (sw_rts W)"
    and "rt_cache (sw_rts W ! i) = Some c" "cache_inv (en_codec E) c" "resend_interval (sc_cfg c) = 0"
    and "rt_batch (sw_rts W ! i) = []" "rt_retry_at (sw_rts W ! i) \<le> io_now E (sw_io W)"
    and "priority (sc_cfg c) = LiveFirst \<longrightarrow> sw_last_live W + 2 * SINK_TICK \<le> io_now E (sw_io W)"
  shows "\<exists>c'. rt_cache (sw_rts (sink_run E D (replicate n Tick) W) ! i) = Some c' \<and>
    contents (en_codec E) c' = drop (n * RESEND_BATCH_MAX) (contents (en_codec E) c) \<and>
    arrived_at i (io_log (sw_io (sink_run E D (replicate n Tick) W)))
      = arrived_at i (io_log (sw_io W)) @ map (resend_copy (sc_cfg c)) (take (n * RESEND_BATCH_MAX) (contents (en_codec E) c))"
proof -
  have "drainable E i (sc_cfg c) (contents (en_codec E) c) W" using assms by (simp add: drainable_def)
  from ticks_drain[OF assms(1-3) this, of n D] show ?thesis by (auto simp: drainable_def)
qed

subsection \<open>A concrete worker\<close>

text \<open>The world is the list of the answers to come.\<close>

instance f64 :: countable
  by countable_datatype

instance number :: countable
  by countable_datatype

instance json :: countable
  by countable_datatype

definition counting_codec :: "stream_record codec" where
  "counting_codec =
     \<lparr>to_line = (\<lambda>r. Some (replicate (to_nat (sr_timestamp r, sr_data r)) (CHR ''x''))),
      from_line = (\<lambda>l. Some (case from_nat (length l) of (t, d) \<Rightarrow> \<lparr>sr_timestamp = t, sr_data = d\<rparr>))\<rparr>"

lemma counting_codec_ok: "codec_ok counting_codec"
  by (auto simp: codec_ok_def counting_codec_def LF_def CR_def)

definition steady_disk :: disk where
  "steady_disk = \<lparr>list_ok = True, rmdir_ok = True, read_ok = (\<lambda>_. True), write_ok = (\<lambda>_. True), remove_ok = (\<lambda>_. True)\<rparr>"

definition scripted :: "bool list sink_env" where
  "scripted =
     \<lparr>en_send = (\<lambda>i r d w. case w of True # w \<Rightarrow> (None, w) | False # w \<Rightarrow> (Some (Retry ''down''), w) | [] \<Rightarrow> (None, [])),
      en_clock = (\<lambda>w. 0), en_utc = (\<lambda>w. 0), en_disk = (\<lambda>w. steady_disk), en_codec = counting_codec, en_show = (\<lambda>v. []),
      en_needs_flush = (\<lambda>w. False), en_flush = (\<lambda>w. (0, w)), en_pass = id\<rparr>"

lemma scripted_ok: "env_ok scripted"
  by (simp add: env_ok_def scripted_def counting_codec_ok disk_reliable_def steady_disk_def)

definition memory_config :: cache_config where
  "memory_config = default_config\<lparr>max_disk := 0, priority := CacheFirst\<rparr>"

definition memory_cache :: "stream_record sink_cache" where
  "memory_cache =
     \<lparr>sc_cfg = memory_config, sc_dir = fmempty, sc_head = [], sc_pages = [], sc_tail = [], sc_disk_records = 0,
      sc_next_seq = SEQ_BASE, sc_dropped = 0\<rparr>"

lemma memory_cache_inv: "cache_inv counting_codec memory_cache"
  by (simp add: memory_cache_def memory_config_def default_config_def cache_inv_def cache_wf_def disk_enabled_def)

definition rec_of :: "int \<Rightarrow> stream_record" where
  "rec_of n = \<lparr>sr_timestamp = n, sr_data = fmupd ''v'' (of_i64 n) fmempty\<rparr>"

definition plain_rt :: action_rt where
  "plain_rt = rt_new \<lparr>pa_type = ''mqtt'', pa_opts = None, pa_file = False, pa_nop = False\<rparr> (Some memory_cache) 0"

definition io_of :: "bool list \<Rightarrow> bool list sink_io" where
  "io_of w = \<lparr>io_world = w, io_dlq = (counters_init, []), io_effects = [], io_log = []\<rparr>"

definition demo_worker :: "bool list sink_worker" where
  "demo_worker = \<lparr>sw_rts = [plain_rt], sw_io = io_of [False, True, True], sw_pending = 0, sw_last_live = 0, sw_open = True, sw_dirs = []\<rparr>"

lemmas demo_worker_simps = demo_worker_def plain_rt_def rt_new_def io_of_def batching_def

lemma scripted_codec [simp]: "en_codec scripted = counting_codec"
  by (simp add: scripted_def)

lemma memory_cache_fields [simp]: "contents counting_codec memory_cache = []" "indicator_field (sc_cfg memory_cache) = None"
  "priority (sc_cfg memory_cache) = CacheFirst" "resend_interval (sc_cfg memory_cache) = 0" "sc_dropped memory_cache = 0"
  by (simp_all add: memory_cache_def memory_config_def default_config_def contents_def)

theorem sink_keeps_order_witness:
  "\<exists>c'. rt_cache (sw_rts (sink_run scripted None [Live [rec_of 1], Live [rec_of 2], Tick] demo_worker) ! 0) = Some c' \<and>
    subseq (arrived_at 0 (io_log (sw_io (sink_run scripted None [Live [rec_of 1], Live [rec_of 2], Tick] demo_worker))) @ contents counting_codec c')
      [rec_of 1, rec_of 2]"
  using sink_keeps_order[OF scripted_ok, of 0 demo_worker memory_cache None "[Live [rec_of 1], Live [rec_of 2], Tick]"]
  by (auto simp: demo_worker_simps memory_cache_inv)

definition waiting_rt :: action_rt where
  "waiting_rt = plain_rt\<lparr>rt_cache := Some (memory_cache\<lparr>sc_head := [rec_of 1, rec_of 2]\<rparr>)\<rparr>"

definition answering :: "bool list sink_env" where
  "answering = scripted\<lparr>en_send := (\<lambda>i r d w. (None, w))\<rparr>"

definition waiting_worker :: "bool list sink_worker" where
  "waiting_worker = demo_worker\<lparr>sw_rts := [waiting_rt]\<rparr>"

theorem recovered_sink_drains_witness:
  "\<exists>c'. rt_cache (sw_rts (sink_run answering None [Tick] waiting_worker) ! 0) = Some c' \<and> contents counting_codec c' = [] \<and>
     arrived_at 0 (io_log (sw_io (sink_run answering None [Tick] waiting_worker))) = [rec_of 1, rec_of 2]"
proof -
  let ?c = "memory_cache\<lparr>sc_head := [rec_of 1, rec_of 2]\<rparr>"
  have e: "env_ok answering" "reachable answering 0" "en_codec answering = counting_codec" "clock_steady answering"
    using scripted_ok by (auto simp: answering_def scripted_def env_ok_def reachable_def clock_steady_def)
  have c: "cache_inv counting_codec ?c" "contents counting_codec ?c = [rec_of 1, rec_of 2]" "resend_interval (sc_cfg ?c) = 0"
      "priority (sc_cfg ?c) = CacheFirst" "resend_copy (sc_cfg ?c) = id"
    using memory_cache_inv
    by (auto simp: cache_inv_def cache_wf_def disk_enabled_def memory_cache_def memory_config_def default_config_def contents_def resend_copy_def)
  have w: "sw_open waiting_worker" "sw_rts waiting_worker = [waiting_rt]" "rt_cache waiting_rt = Some ?c" "rt_batch waiting_rt = []"
      "rt_retry_at waiting_rt = 0" "io_log (sw_io waiting_worker) = []"
    by (simp_all add: waiting_worker_def waiting_rt_def demo_worker_simps)
  from recovered_sink_drains[of answering 0 waiting_worker ?c None 1] e c w show ?thesis
    by (auto simp: RESEND_BATCH_MAX_def arrived_at_def of_action_def)
qed

subsection \<open>Where batches break the promises\<close>

definition batch_opts :: common_opts where
  "batch_opts = (parse_common_opts Null False True)\<lparr>co_batch_size := 1\<rparr>"

definition batching_rt :: action_rt where
  "batching_rt = plain_rt\<lparr>rt_action := (rt_action plain_rt)\<lparr>pa_opts := Some batch_opts\<rparr>, rt_batch := [of_i64 1, of_i64 2]\<rparr>"

text \<open>Of two full batches the second is tried although the first has just gone into the cache, and
  overtakes it.\<close>

lemma later_batch_overtakes:
  "case send_batches scripted None 0 1 2 Delivered (batching_rt, io_of [False, True]) of
     (dv, rt, st) \<Rightarrow>
       map at_record (filter (\<lambda>a. at_error a = None) (io_log st)) = [batch_record scripted st [of_i64 2]] \<and>
       map_option sc_head (rt_cache rt) = Some [batch_record scripted st [of_i64 1]]"
  by (simp add: numeral_2_eq_2 Let_def attempt_or_cache_def send_action_def scripted_def io_of_def batching_rt_def plain_rt_def rt_new_def
      report_send_error_def sync_cache_drops_def cache_push_def push_def disk_enabled_def memory_cache_def memory_config_def default_config_def
      on_counters_def batch_record_def)

text \<open>A batch sent because it has waited too long is lost when the destination is down, cache or not;
  all that remains is an exception.\<close>

lemma lingering_batch_is_lost:
  assumes "pa_opts (rt_action rt) = Some opts" "0 < co_linger opts" "rt_batch rt \<noteq> []" "co_linger opts \<le> (now - rt_last_batch rt) div MILLI"
    and "send_action E i (batch_record E st (rt_batch rt)) None st = (Some (Retry m), st1)"
  shows "rt_batch (fst (linger_one E now i (rt, st))) = []" "rt_cache (fst (linger_one E now i (rt, st))) = rt_cache rt"
    "snd (linger_one E now i (rt, st)) = on_counters (record_exception m) st1"
  using assms by (simp_all add: linger_one_def Let_def report_send_error_def split: option.split)

text \<open>The last batch of a rule is sent without a look at the answer: a failure leaves no trace.\<close>

lemma last_batch_failure_ignored:
  assumes "rt_batch rt \<noteq> []"
  shows "rt_cache (fst (close_one E i (rt, st))) = rt_cache rt" "io_dlq (snd (close_one E i (rt, st))) = io_dlq st"
    "io_effects (snd (close_one E i (rt, st))) = io_effects st"
  using assms by (simp_all add: close_one_def send_action_def split_beta)

text \<open>A record that was only put into the buffer counts as delivered.\<close>

lemma buffered_counts_as_delivered:
  assumes "batching rt = Some opts" "co_batch_size opts = 0" "rt_cache rt = None"
  shows "deliver_one E D i r (rt, st) = (Delivered, rt\<lparr>rt_batch := rt_batch rt @ batch_rows opts r\<rparr>, st)"
  using assms by (simp add: deliver_one_def Let_def)

text \<open>A Parquet file that cannot be written takes its records with it.\<close>

lemma failed_parquet_flush_loses:
  assumes "fw_parquet w \<noteq> []"
  shows "fst (writer_flush False w) = False" "fw_parquet (snd (writer_flush False w)) = []" "fw_pending (snd (writer_flush False w)) = 0"
    "fw_written (snd (writer_flush False w)) = fw_written w"
  using assms by (simp_all add: writer_flush_def)

text \<open>Two rules whose names differ in the characters that are replaced share a cache directory.\<close>

lemma cache_dirs_collide: "cache_dir base ''a b'' i = cache_dir base ''a_b'' i"
  by (simp add: cache_dir_def) code_simp

end
