(* ===== verification/Delimited.thy ===== *)
theory Delimited
  imports SinkFormat
begin

text \<open>
  Rows of delimited text and opaque bytes (\<open>crates/rekuiper-connectors/src/codec.rs\<close>). Text is its UTF-8
  bytes and the delimiter the bytes of its character; as no character's bytes begin inside another's,
  a delimiter is found exactly where the source finds the character. The parsing of floats, the
  rendering of values and base64 are parameters.
\<close>

record text_env =
  tx_f64 :: "string \<Rightarrow> f64 option"
  tx_show :: "json \<Rightarrow> string"
  tx_b64 :: "string \<Rightarrow> string"
  tx_unb64 :: "string \<Rightarrow> string option"

subsection \<open>Opaque bytes\<close>

definition binary_decode :: "text_env \<Rightarrow> string \<Rightarrow> json" where
  "binary_decode T bytes = Obj (fmupd ''_binary'' (Str (tx_b64 T bytes)) fmempty)"

definition binary_field :: "json \<Rightarrow> string option" where
  "binary_field v =
     (case json_get v ''_binary'' of
        Some (Str s) \<Rightarrow> Some s
      | _ \<Rightarrow> (case json_get v ''_raw'' of Some (Str s) \<Rightarrow> Some s | _ \<Rightarrow> None))"

definition binary_encode :: "text_env \<Rightarrow> json \<Rightarrow> string" where
  "binary_encode T v =
     (case binary_field v of
        Some s \<Rightarrow> or_default (tx_unb64 T s) []
      | None \<Rightarrow> (case v of Str s \<Rightarrow> s | _ \<Rightarrow> tx_show T v))"

subsection \<open>Rows\<close>

definition parse_token :: "text_env \<Rightarrow> string \<Rightarrow> json" where
  "parse_token T tok =
     (let t = str_trim tok
      in case parse_i64 t of
           Some i \<Rightarrow> of_i64 i
         | None \<Rightarrow>
             (case tx_f64 T t of
                Some x \<Rightarrow> if is_finite x then Number (Float x) else Str t
              | None \<Rightarrow> Str t))"

definition finish_field :: "bool \<Rightarrow> string \<Rightarrow> string \<times> bool" where
  "finish_field qd cur = (if qd then (cur, True) else (str_trim cur, False))"

function split_loop :: "string \<Rightarrow> string \<Rightarrow> bool \<Rightarrow> bool \<Rightarrow> string \<Rightarrow> (string \<times> bool) list" where
  "split_loop delim cur qd inq [] = [finish_field qd cur]"
| "split_loop delim cur qd inq (c # cs) =
     (if inq then
        (if c = QUOTE then
           (case cs of
              d # ds \<Rightarrow>
                if d = QUOTE then split_loop delim (cur @ [QUOTE]) qd True ds
                else split_loop delim cur qd False cs
            | [] \<Rightarrow> split_loop delim cur qd False cs)
         else split_loop delim (cur @ [c]) qd True cs)
      else if c = QUOTE \<and> str_trim cur = [] then split_loop delim [] True True cs
      else if starts_with delim (c # cs) then
        finish_field qd cur # split_loop delim [] False False (drop (length delim - 1) cs)
      else split_loop delim (cur @ [c]) qd False cs)"
  by pat_completeness auto

termination
  by (relation "measure (\<lambda>(delim, cur, qd, inq, s). length s)") auto

declare split_loop.simps [simp del]

definition split_quoted :: "string \<Rightarrow> string \<Rightarrow> (string \<times> bool) list" where
  "split_quoted line delim = split_loop delim [] False False line"

definition quote_cell :: "string \<Rightarrow> string \<Rightarrow> string" where
  "quote_cell cell delim = (if needs_quotes delim cell then QUOTE # double_quotes cell @ [QUOTE] else cell)"

record delimited_codec =
  dc_delimiter :: string
  dc_headers :: "string list"

definition delimiter_from_name :: "string \<Rightarrow> string" where
  "delimiter_from_name name =
     (let t = to_ascii_lowercase (str_trim name)
      in if t = ''tab'' \<or> t = [CHR 0x5C, CHR ''t''] then [CHR 0x09]
         else if t = ''pipe'' then ''|''
         else if t = ''comma'' then '',''
         else if t = ''semicolon'' then '';''
         else if t = [] then '','' else take (char_width t) t)"

definition field_at :: "(string \<times> bool) list \<Rightarrow> nat \<Rightarrow> string" where
  "field_at fs i = (if i < length fs then fst (fs ! i) else [])"

definition delimited_decode :: "text_env \<Rightarrow> delimited_codec \<Rightarrow> string \<Rightarrow> row" where
  "delimited_decode T dc line =
     (let fs = split_quoted line (dc_delimiter dc)
      in foldl (\<lambda>m (i, h). fmupd h (parse_token T (field_at fs i)) m) fmempty (enumerate 0 (dc_headers dc)))"

definition decode_row :: "text_env \<Rightarrow> delimited_codec \<Rightarrow> string \<Rightarrow> row" where
  "decode_row T dc line =
     (if dc_headers dc \<noteq> [] then delimited_decode T dc line
      else foldl (\<lambda>m (i, f). fmupd (''col'' @ digits i) (parse_token T (fst f)) m) fmempty
             (enumerate 0 (split_quoted line (dc_delimiter dc))))"

definition delimited_cell :: "text_env \<Rightarrow> string \<Rightarrow> json option \<Rightarrow> string" where
  "delimited_cell T delim v =
     (case v of
        None \<Rightarrow> []
      | Some Null \<Rightarrow> []
      | Some (Str s) \<Rightarrow> quote_cell s delim
      | Some (Number n) \<Rightarrow> tx_show T (Number n)
      | Some (Bool b) \<Rightarrow> (if b then ''true'' else ''false'')
      | Some w \<Rightarrow> quote_cell (tx_show T w) delim)"

definition delimited_encode :: "text_env \<Rightarrow> delimited_codec \<Rightarrow> row \<Rightarrow> string" where
  "delimited_encode T dc record' =
     join_with (dc_delimiter dc) (map (\<lambda>h. delimited_cell T (dc_delimiter dc) (fmlookup record' h)) (dc_headers dc))"

end
