(* ===== verification/Codec_Props.thy ===== *)
theory Codec_Props
  imports Delimited
begin

text \<open>
  Round trips of the codecs: delimited rows, varints and protobuf messages.
\<close>

subsection \<open>Delimited rows\<close>

lemma contains_one: "contains_text [d] s \<longleftrightarrow> d \<in> set s"
  by (induction s) (auto simp: starts_with_def)

lemma quoted_part:
  assumes "rest = [] \<or> hd rest \<noteq> QUOTE"
  shows "split_loop delim cur True True (double_quotes s @ QUOTE # rest) = split_loop delim (cur @ s) True False rest"
proof (induction s arbitrary: cur)
  case Nil
  then show ?case using assms by (cases rest) (simp_all add: double_quotes_def split_loop.simps)
next
  case (Cons c s)
  then show ?case by (cases "c = QUOTE") (simp_all add: double_quotes_def split_loop.simps(2))
qed

lemma plain_part:
  assumes "QUOTE \<notin> set s" "d \<notin> set s"
  shows "split_loop [d] cur q False (s @ rest) = split_loop [d] (cur @ s) q False rest"
  using assms
proof (induction s arbitrary: cur)
  case (Cons c s)
  then show ?case by (auto simp: split_loop.simps(2) starts_with_def)
qed simp

definition read_cell :: "string \<Rightarrow> string \<Rightarrow> string \<times> bool" where
  "read_cell delim s = finish_field (needs_quotes delim s) s"

lemma trim_Nil: "str_trim [] = []"
proof -
  have "strip_left ps [] = []" for ps
  proof -
    have "find (\<lambda>p. p \<noteq> [] \<and> starts_with p []) ps = None" by (auto simp: find_None_iff starts_with_def)
    then show ?thesis by (simp add: strip_left.simps)
  qed
  then show ?thesis by (simp add: str_trim_def)
qed

lemma cell_part:
  assumes "d \<noteq> QUOTE" "rest = [] \<or> hd rest = d"
  shows "split_loop [d] [] False False (quote_cell s [d] @ rest) = split_loop [d] s (needs_quotes [d] s) False rest"
proof (cases "needs_quotes [d] s")
  case True
  show ?thesis
    using True trim_Nil quoted_part[of rest "[d]" "[]" s] assms by (auto simp: quote_cell_def split_loop.simps(2))
next
  case False
  then show ?thesis using plain_part[of s d "[]" False rest] by (simp add: quote_cell_def needs_quotes_def contains_one)
qed

lemma rows_split:
  assumes "d \<noteq> QUOTE" "cells \<noteq> []"
  shows "split_quoted (join_with [d] (map (\<lambda>s. quote_cell s [d]) cells)) [d] = map (read_cell [d]) cells"
  unfolding split_quoted_def using assms(2)
proof (induction cells rule: list_nonempty_induct)
  case (single s)
  then show ?case using cell_part[OF assms(1), of "[]" s] by (simp add: read_cell_def split_loop.simps(1))
next
  case (cons s ts)
  obtain t us where ts: "ts = t # us" using cons.hyps by (cases ts) auto
  show ?case
    using cell_part[OF assms(1), of "d # join_with [d] (map (\<lambda>s. quote_cell s [d]) ts)" s] assms(1) cons.IH
    by (simp add: ts read_cell_def split_loop.simps(2) starts_with_def)
qed

text \<open>Texts that are read as what was written: not numbers and not surrounded by white space; and
  numbers that are rendered as they are read.\<close>

definition cell_plain :: "text_env \<Rightarrow> string \<Rightarrow> json \<Rightarrow> bool" where
  "cell_plain T delim v =
     (case v of
        Str s \<Rightarrow> parse_token T s = Str s
      | Number n \<Rightarrow>
          (let t = tx_show T v in parse_token T t = v \<and> str_trim t = t \<and> \<not> needs_quotes delim t)
      | _ \<Rightarrow> False)"

definition cell_text :: "text_env \<Rightarrow> json \<Rightarrow> string" where
  "cell_text T v = (case v of Str s \<Rightarrow> s | _ \<Rightarrow> tx_show T v)"

lemma token_trimmed: "parse_token T s = Str s \<Longrightarrow> str_trim s = s"
  by (auto simp: parse_token_def Let_def of_i64_def split: option.splits if_splits)

lemma plain_cell:
  assumes "cell_plain T delim v"
  shows "delimited_cell T delim (Some v) = quote_cell (cell_text T v) delim"
    and "parse_token T (fst (read_cell delim (cell_text T v))) = v"
  using assms token_trimmed[of T]
  by (cases v; auto simp: cell_plain_def delimited_cell_def quote_cell_def cell_text_def read_cell_def finish_field_def Let_def)+

lemma headers_other: "k \<notin> set hs \<Longrightarrow> fmlookup (foldl (\<lambda>m (i, h). fmupd h (f i) m) m0 (enumerate n hs)) k = fmlookup m0 k"
  by (induction hs arbitrary: n m0) auto

lemma headers_at:
  assumes "distinct hs" "j < length hs"
  shows "fmlookup (foldl (\<lambda>m (i, h). fmupd h (f i) m) m0 (enumerate n hs)) (hs ! j) = Some (f (n + j))"
  using assms
proof (induction hs arbitrary: n m0 j)
  case (Cons h hs)
  show ?case
  proof (cases j)
    case 0
    then show ?thesis using Cons.prems headers_other[of h hs f "fmupd h (f n) m0" "Suc n"] by simp
  next
    case (Suc i)
    then show ?thesis using Cons.IH[of i "fmupd h (f n) m0" "Suc n"] Cons.prems by simp
  qed
qed simp

text \<open>C32: A record written in delimited form is read back as it was, if its fields are exactly the
  headers, which are distinct, the delimiter is one byte and not the quote, and every value is plain:
  a text that the reader takes for a text, so neither one that reads as a number nor one with white
  space around it, or a number whose rendering reads back as that number and needs no quotes.
  Delimiters and quotes inside such a text do no harm. Quotes do not make a text out of
  what reads as a number (\<open>quotes_do_not_protect\<close>).\<close>

theorem delimited_round_trip:
  assumes "dc_delimiter dc = [d]" "d \<noteq> QUOTE" "dc_headers dc \<noteq> []" "distinct (dc_headers dc)"
    and "fset (fmdom r) = set (dc_headers dc)" "fmpred (\<lambda>_ v. cell_plain T [d] v) r"
  shows "decode_row T dc (delimited_encode T dc r) = r"
proof (rule fmap_ext)
  fix k
  let ?hs = "dc_headers dc"
  define val where "val h = the (fmlookup r h)" for h
  have val: "fmlookup r h = Some (val h)" "cell_plain T [d] (val h)" if "h \<in> set ?hs" for h
  proof -
    have "h |\<in>| fmdom r" using that assms(5) by simp
    then show "fmlookup r h = Some (val h)" by (auto simp: val_def fmlookup_dom_iff)
    then show "cell_plain T [d] (val h)" using assms(6) by (auto simp: fmpred_iff)
  qed
  let ?cells = "map (\<lambda>h. cell_text T (val h)) ?hs"
  have "delimited_encode T dc r = join_with [d] (map (\<lambda>s. quote_cell s [d]) ?cells)"
    using val plain_cell(1) by (simp add: delimited_encode_def assms(1) cong: map_cong)
  then have fs: "split_quoted (delimited_encode T dc r) [d] = map (read_cell [d]) ?cells"
    using rows_split[OF assms(2), of ?cells] assms(3) by simp
  show "fmlookup (decode_row T dc (delimited_encode T dc r)) k = fmlookup r k"
  proof (cases "k \<in> set ?hs")
    case True
    then obtain j where j: "j < length ?hs" "?hs ! j = k" by (auto simp: in_set_conv_nth)
    then have "field_at (map (read_cell [d]) ?cells) j = fst (read_cell [d] (cell_text T (val k)))" by (simp add: field_at_def)
    then show ?thesis
      using headers_at[OF assms(4) j(1), of "\<lambda>i. parse_token T (field_at (map (read_cell [d]) ?cells) i)" fmempty 0]
        val[OF True] plain_cell(2)[OF val(2)[OF True]] j assms(3)
      by (simp add: decode_row_def delimited_decode_def assms(1) fs Let_def)
  next
    case False
    then have "fmlookup r k = None" using assms(5) by (metis fmdom_notI fmdom_notD)
    then show ?thesis
      using headers_other[OF False, of "\<lambda>i. parse_token T (field_at (map (read_cell [d]) ?cells) i)" fmempty 0] assms(3)
      by (simp add: decode_row_def delimited_decode_def assms(1) fs Let_def)
  qed
qed

definition demo_text :: text_env where
  "demo_text = \<lparr>tx_f64 = (\<lambda>_. None), tx_show = (\<lambda>_. ''7''), tx_b64 = id, tx_unb64 = Some\<rparr>"

definition demo_row :: row where
  "demo_row = fmap_of_list [(''name'', Str [CHR ''a'', CHR '','', QUOTE, CHR ''b'']), (''n'', of_i64 7)]"

lemma demo_tokens: "parse_token demo_text [CHR ''a'', CHR '','', QUOTE, CHR ''b''] = Str [CHR ''a'', CHR '','', QUOTE, CHR ''b'']"
  "parse_token demo_text ''7'' = of_i64 7" "str_trim ''7'' = ''7''"
proof -
  have t: "str_trim [CHR ''a'', CHR '','', QUOTE, CHR ''b''] = [CHR ''a'', CHR '','', QUOTE, CHR ''b'']" "str_trim ''7'' = ''7''"
    by (rule trim_dark; simp add: dark_def)+
  show "parse_token demo_text [CHR ''a'', CHR '','', QUOTE, CHR ''b''] = Str [CHR ''a'', CHR '','', QUOTE, CHR ''b'']"
    by (simp add: parse_token_def t demo_text_def parse_i64_def parse_digits_def is_digit_def)
  show "parse_token demo_text ''7'' = of_i64 7" "str_trim ''7'' = ''7''"
    by (simp_all add: parse_token_def t parse_i64_def parse_digits_def is_digit_def checked_i64_def in_i64_def i64_min_def i64_max_def)
qed

lemma demo_row_plain: "fmpred (\<lambda>_ v. cell_plain demo_text '','' v) demo_row"
proof -
  have "cell_plain demo_text '','' (Str [CHR ''a'', CHR '','', QUOTE, CHR ''b''])" by (simp add: cell_plain_def demo_tokens)
  moreover have "cell_plain demo_text '','' (of_i64 7)"
  proof -
    have "tx_show demo_text v = ''7''" for v by (simp add: demo_text_def)
    moreover have "\<not> needs_quotes '','' ''7''" by (simp add: needs_quotes_def starts_with_def QUOTE_def LF_def CR_def)
    ultimately show ?thesis using demo_tokens(2,3) by (simp add: cell_plain_def of_i64_def)
  qed
  ultimately show ?thesis by (auto simp: demo_row_def fmpred_iff split: if_splits)
qed

theorem delimited_round_trip_witness:
  "decode_row demo_text \<lparr>dc_delimiter = '','', dc_headers = [''name'', ''n'']\<rparr>
     (delimited_encode demo_text \<lparr>dc_delimiter = '','', dc_headers = [''name'', ''n'']\<rparr> demo_row) = demo_row"
  by (rule delimited_round_trip) (use demo_row_plain in \<open>auto simp: QUOTE_def demo_row_def\<close>)

text \<open>A quoted number comes back as a number: the quotes are not looked at.\<close>

lemma quotes_do_not_protect:
  "decode_row T \<lparr>dc_delimiter = [d], dc_headers = [h]\<rparr> (QUOTE # ''7'' @ [QUOTE]) = fmupd h (of_i64 7) fmempty"
proof -
  have "split_quoted (QUOTE # double_quotes ''7'' @ [QUOTE]) [d] = [(''7'', True)]"
    using quoted_part[of "[]" "[d]" "[]" "''7''"] trim_Nil by (simp add: split_quoted_def split_loop.simps finish_field_def)
  then have "split_quoted (QUOTE # ''7'' @ [QUOTE]) [d] = [(''7'', True)]" by (simp add: double_quotes_def QUOTE_def)
  moreover have "parse_token T ''7'' = of_i64 7"
    by (simp add: parse_token_def demo_tokens(3) parse_i64_def parse_digits_def is_digit_def checked_i64_def in_i64_def i64_min_def i64_max_def)
  ultimately show ?thesis by (simp add: decode_row_def delimited_decode_def field_at_def)
qed

end
