(* ===== verification/Bytes.thy ===== *)
theory Bytes
  imports F64
begin

text \<open>
  Bytes of integers and floats, as \<open>to_le_bytes\<close>, \<open>to_be_bytes\<close> and their inverses know them, and the
  binary32 values. A binary32 value \<open>Fin s m e\<close> has \<open>m < 2^24\<close> and \<open>e >= -149\<close>; \<open>as f32\<close> rounds to one and
  \<open>as f64\<close> is exact.
\<close>

unbundle bit_operations_syntax

type_synonym u8 = "8 word"
type_synonym u16 = "16 word"

subsection \<open>Integers\<close>

text \<open>Little-endian integers.\<close>

fun le_bytes :: "nat \<Rightarrow> u64 \<Rightarrow> u8 list" where
  "le_bytes 0 v = []"
| "le_bytes (Suc n) v = ucast v # le_bytes n (drop_bit 8 v)"

fun le_value :: "u8 list \<Rightarrow> u64" where
  "le_value [] = 0"
| "le_value (b # bs) = ucast b OR push_bit 8 (le_value bs)"

lemma le_round: "le_value (le_bytes n v) = take_bit (8 * n) v"
proof (induction n arbitrary: v)
  case (Suc n)
  show ?case
  proof (rule bit_word_eqI)
    fix k assume "k < LENGTH(64)"
    then show "bit (le_value (le_bytes (Suc n) v)) k \<longleftrightarrow> bit (take_bit (8 * Suc n) v) k"
      unfolding le_bytes.simps le_value.simps Suc
        bit_or_iff bit_ucast_iff bit_push_bit_iff bit_take_bit_iff bit_drop_bit_eq comp_def
      by (cases "k < 8") auto
  qed
qed simp

lemma le_length [simp]: "length (le_bytes n v) = n"
  by (induction n arbitrary: v) simp_all

lemma ucast_le_word: "le_value (le_bytes 8 v) = v"
  by (simp add: le_round take_bit_word_eq_self)

lemma ucast_le_half: "ucast (le_value (le_bytes 4 (word_of_int i))) = (word_of_int i :: 32 word)"
  by (rule bit_word_eqI) (auto simp: le_round bit_simps)

lemma le_half_value:
  assumes "0 \<le> i" "i < 2 ^ 32"
  shows "le_value (le_bytes 4 (word_of_int i)) = word_of_int i"
proof -
  have "take_bit 32 i = i" using assms by (simp add: take_bit_int_eq_self)
  then have "bit i k \<Longrightarrow> k < 32" for k by (metis bit_take_bit_iff)
  then show ?thesis by (intro bit_word_eqI) (auto simp: le_round bit_simps)
qed

subsection \<open>Floats\<close>

definition f32_of_ratio :: "bool \<Rightarrow> int \<Rightarrow> int \<Rightarrow> f64" where
  "f32_of_ratio s n d =
     (if n = 0 then Fin s 0 (- 149)
      else (let e1 = max (- 149) (bitlen n - bitlen d - 24);
                e = (if units_floor n d e1 < 2 ^ 24 then e1 else e1 + 1);
                m = round_units n d e;
                (m', e') = (if m = 2 ^ 24 then (2 ^ 23, e + 1) else (m, e))
            in if e' > 104 then Infty s else Fin s m' e'))"

fun as_f32 :: "f64 \<Rightarrow> f64" where
  "as_f32 (Fin s m e) = (if e < 0 then f32_of_ratio s m (2 ^ nat (- e)) else f32_of_ratio s (m * 2 ^ nat e) 1)"
| "as_f32 x = x"

fun f32_as_f64 :: "f64 \<Rightarrow> f64" where
  "f32_as_f64 (Fin s m e) = f64_of_dyadic s m e"
| "f32_as_f64 x = x"

text \<open>The bits of a value with \<open>p\<close> bits of fraction and \<open>q\<close> bits of exponent; \<open>low\<close> is the exponent of
  the smallest unit.\<close>

fun float_bits :: "nat \<Rightarrow> nat \<Rightarrow> int \<Rightarrow> f64 \<Rightarrow> int" where
  "float_bits p q low NaN = (2 ^ q - 1) * 2 ^ p + 2 ^ (p - 1)"
| "float_bits p q low (Infty s) = (if s then 2 ^ (p + q) else 0) + (2 ^ q - 1) * 2 ^ p"
| "float_bits p q low (Fin s m e) =
     (if s then 2 ^ (p + q) else 0) + (if m < 2 ^ p then m else (e - low + 1) * 2 ^ p + (m - 2 ^ p))"

definition float_of_bits :: "nat \<Rightarrow> nat \<Rightarrow> int \<Rightarrow> int \<Rightarrow> f64" where
  "float_of_bits p q low b =
     (let s = 2 ^ (p + q) \<le> b; x = (b div 2 ^ p) mod 2 ^ q; f = b mod 2 ^ p
      in if x = 2 ^ q - 1 then (if f = 0 then Infty s else NaN)
         else if x = 0 then Fin s f low else Fin s (f + 2 ^ p) (x - 1 + low))"

definition f64_bytes :: "f64 \<Rightarrow> u8 list" where
  "f64_bytes x = le_bytes 8 (word_of_int (float_bits 52 11 (- 1074) x))"

definition f64_of_bytes :: "u8 list \<Rightarrow> f64" where
  "f64_of_bytes bs = float_of_bits 52 11 (- 1074) (uint (le_value bs))"

definition f32_bytes :: "f64 \<Rightarrow> u8 list" where
  "f32_bytes x = le_bytes 4 (word_of_int (float_bits 23 8 (- 149) x))"

definition f32_of_bytes :: "u8 list \<Rightarrow> f64" where
  "f32_of_bytes bs = float_of_bits 23 8 (- 149) (uint (le_value bs))"

text \<open>The values of a format, each in its one representation.\<close>

definition float_value :: "nat \<Rightarrow> nat \<Rightarrow> int \<Rightarrow> f64 \<Rightarrow> bool" where
  "float_value p q low x =
     (case x of
        NaN \<Rightarrow> False
      | Infty s \<Rightarrow> True
      | Fin s m e \<Rightarrow> 0 \<le> m \<and> m < 2 ^ (p + 1) \<and> low \<le> e \<and> e < low + 2 ^ q - 2 \<and> (m < 2 ^ p \<longrightarrow> e = low))"

lemma bits_split:
  assumes "0 \<le> f" "f < 2 ^ p" "0 \<le> x" "x < 2 ^ q"
  shows "(if s then 2 ^ (p + q) else 0) + (x * 2 ^ p + f) < (2 :: int) ^ (p + q + 1)" "2 ^ (p + q) \<le> (if s then 2 ^ (p + q) else 0) + (x * 2 ^ p + f) \<longleftrightarrow> s"
    "((if s then 2 ^ (p + q) else 0) + (x * 2 ^ p + f)) div 2 ^ p mod 2 ^ q = x"
    "((if s then 2 ^ (p + q) else 0) + (x * 2 ^ p + f)) mod 2 ^ p = (f :: int)"
proof -
  have "x * 2 ^ p + f < (x + 1) * 2 ^ p" using assms by (simp add: algebra_simps)
  also have "\<dots> \<le> 2 ^ q * 2 ^ p" using assms by (intro mult_right_mono) simp_all
  finally have low: "x * 2 ^ p + f < 2 ^ (p + q)" by (simp add: power_add mult.commute)
  show "(if s then 2 ^ (p + q) else 0) + (x * 2 ^ p + f) < (2 :: int) ^ (p + q + 1)"
  proof -
    have "(2 :: int) ^ (p + q + 1) = 2 ^ (p + q) + 2 ^ (p + q)" "(0 :: int) < 2 ^ (p + q)" by simp_all
    then show ?thesis using low by (simp only: split: if_split) linarith
  qed
  show "2 ^ (p + q) \<le> (if s then 2 ^ (p + q) else 0) + (x * 2 ^ p + f) \<longleftrightarrow> s" using low assms by auto
  have e: "(if s then 2 ^ (p + q) else 0) + (x * 2 ^ p + f) = f + ((if s then 2 ^ q else 0) + x) * 2 ^ p"
    by (simp add: power_add algebra_simps)
  show "((if s then 2 ^ (p + q) else 0) + (x * 2 ^ p + f)) mod 2 ^ p = f" unfolding e using assms by simp
  have "((if s then 2 ^ (p + q) else 0) + (x * 2 ^ p + f)) div 2 ^ p = (if s then 2 ^ q else 0) + x"
    unfolding e using assms by simp
  then show "((if s then 2 ^ (p + q) else 0) + (x * 2 ^ p + f)) div 2 ^ p mod 2 ^ q = x" using assms by simp
qed

lemma float_bits_back:
  assumes "float_value p q low x" "1 < q"
  shows "float_of_bits p q low (float_bits p q low x) = x"
    "0 \<le> float_bits p q low x" "float_bits p q low x < 2 ^ (p + q + 1)"
proof -
  have q: "(4 :: int) \<le> 2 ^ q" using assms(2) power_increasing[of 2 q "2 :: int"] by simp
  have "float_of_bits p q low (float_bits p q low x) = x \<and> 0 \<le> float_bits p q low x \<and> float_bits p q low x < 2 ^ (p + q + 1)"
  proof (cases x)
    case (Infty s)
    then show ?thesis using bits_split[of 0 p "2 ^ q - 1" q s] q by (simp add: float_of_bits_def Let_def)
  next
    case (Fin s m e)
    show ?thesis
    proof (cases "m < 2 ^ p")
      case True
      then show ?thesis using bits_split[of m p 0 q s] assms(1) Fin q by (simp add: float_of_bits_def float_value_def Let_def)
    next
      case False
      then show ?thesis using bits_split[of "m - 2 ^ p" p "e - low + 1" q s] assms(1) Fin q
        by (simp add: float_of_bits_def float_value_def Let_def)
    qed
  qed (use assms in \<open>simp add: float_value_def\<close>)
  then show "float_of_bits p q low (float_bits p q low x) = x"
    "0 \<le> float_bits p q low x" "float_bits p q low x < 2 ^ (p + q + 1)" by simp_all
qed

lemma f64_bytes_back: "float_value 52 11 (- 1074) x \<Longrightarrow> f64_of_bytes (f64_bytes x) = x"
  using float_bits_back[of 52 11 "- 1074" x]
  by (simp add: f64_of_bytes_def f64_bytes_def ucast_le_word unsigned_of_int take_bit_int_eq_self)

lemma f32_bytes_back: "float_value 23 8 (- 149) x \<Longrightarrow> f32_of_bytes (f32_bytes x) = x"
  using float_bits_back[of 23 8 "- 149" x]
  by (simp add: f32_of_bytes_def f32_bytes_def le_half_value unsigned_of_int take_bit_int_eq_self)

lemma float_bytes_length [simp]: "length (f64_bytes x) = 8" "length (f32_bytes x) = 4"
  by (simp_all add: f64_bytes_def f32_bytes_def)

end
