(* ===== verification/Protobuf.thy ===== *)
theory Protobuf
  imports Delimited Bytes
begin

text \<open>
  Protobuf messages on the wire (\<open>crates/rekuiper-connectors/src/codec.rs\<close>). A position in the input is
  the list of the bytes from there on, so that a length that does not fit is one that exceeds what is
  left. Base64, the repair of malformed UTF-8, the reading of decimals and the rendering of values are
  parameters.
\<close>

unbundle bit_operations_syntax

record wire_env =
  we_text :: text_env
  we_parse_f32 :: "string \<Rightarrow> f64 option"
  we_lossy :: "string \<Rightarrow> string"

definition bytes_of :: "string \<Rightarrow> u8 list" where
  "bytes_of s = map of_char s"

definition text_of :: "u8 list \<Rightarrow> string" where
  "text_of bs = map (\<lambda>b. char_of (unat b)) bs"

subsection \<open>Definitions of messages\<close>

record proto_field =
  pf_name :: string
  pf_type :: string
  pf_number :: "32 word"
  pf_repeated :: bool

text \<open>The nested messages by name; the hash map is an association list.\<close>

datatype proto_message = ProtoMessage (pm_name: string) (pm_fields: "proto_field list") (pm_nested: "(string \<times> proto_message) list")

subsection \<open>Varints and tags\<close>

text \<open>\<open>n\<close> is the number of groups of seven bits that may still come.\<close>

fun read_groups :: "nat \<Rightarrow> nat \<Rightarrow> u64 \<Rightarrow> u8 list \<Rightarrow> (u64 \<times> u8 list) option" where
  "read_groups 0 shift acc bs = None"
| "read_groups (Suc n) shift acc [] = None"
| "read_groups (Suc n) shift acc (b # bs) =
     (let acc = acc OR push_bit shift (ucast (b AND 0x7F))
      in if b AND 0x80 = 0 then Some (acc, bs) else read_groups n (shift + 7) acc bs)"

definition read_varint :: "u8 list \<Rightarrow> (u64 \<times> u8 list) option" where
  "read_varint bs = read_groups 10 0 0 bs"

lemma unat_drop7: "unat (drop_bit 7 v) = unat v div 128" for v :: u64
  by (subst unat_drop_bit_eq) (simp only: drop_bit_nat_def, simp)

lemma drop_bit_less: "drop_bit 7 v \<noteq> 0 \<Longrightarrow> unat (drop_bit 7 v) < unat v" for v :: u64
proof -
  assume "drop_bit 7 v \<noteq> 0"
  then have "unat v \<noteq> 0" by (auto simp: unat_eq_zero)
  then show ?thesis unfolding unat_drop7 by (intro div_less_dividend) simp_all
qed

function write_varint :: "u64 \<Rightarrow> u8 list" where
  "write_varint v =
     (if drop_bit 7 v = 0 then [ucast (v AND 0x7F)] else (ucast (v AND 0x7F) OR 0x80) # write_varint (drop_bit 7 v))"
  by pat_completeness auto

termination
  by (relation "measure unat") (simp_all add: drop_bit_less)

declare write_varint.simps [simp del]

definition write_tag :: "32 word \<Rightarrow> u64 \<Rightarrow> u8 list" where
  "write_tag number wt = write_varint (push_bit 3 (ucast number) OR wt)"

definition read_len_bytes :: "u8 list \<Rightarrow> (u8 list \<times> u8 list) option" where
  "read_len_bytes bs =
     (case read_varint bs of
        None \<Rightarrow> None
      | Some (n, r) \<Rightarrow> if length r < unat n then None else Some (take (unat n) r, drop (unat n) r))"

definition read_fixed :: "nat \<Rightarrow> u8 list \<Rightarrow> (u8 list \<times> u8 list) option" where
  "read_fixed n bs = (if length bs < n then None else Some (take n bs, drop n bs))"

definition skip_field :: "u64 \<Rightarrow> u8 list \<Rightarrow> u8 list option" where
  "skip_field wt bs =
     (if wt = 0 then map_option snd (read_varint bs)
      else if wt = 1 then map_option snd (read_fixed 8 bs)
      else if wt = 2 then map_option snd (read_len_bytes bs)
      else if wt = 5 then map_option snd (read_fixed 4 bs)
      else None)"

subsection \<open>Conversions\<close>

definition num_to_i64 :: "json \<Rightarrow> int option" where
  "num_to_i64 v =
     (case as_i64 v of
        Some i \<Rightarrow> Some i
      | None \<Rightarrow>
          (case as_u64 v of
             Some u \<Rightarrow> checked_i64 u
           | None \<Rightarrow>
               (case v of
                  Number n \<Rightarrow> (if is_finite (num_as_f64 n) then Some (f64_as_i64 (f64_trunc (num_as_f64 n))) else None)
                | Str s \<Rightarrow> parse_i64 (str_trim s)
                | Bool b \<Rightarrow> Some (if b then 1 else 0)
                | _ \<Rightarrow> None)))"

definition num_to_u64 :: "json \<Rightarrow> int option" where
  "num_to_u64 v =
     (case as_u64 v of
        Some u \<Rightarrow> Some u
      | None \<Rightarrow>
          (case as_i64 v of
             Some i \<Rightarrow> (if 0 \<le> i then Some i else None)
           | None \<Rightarrow>
               (case v of
                  Number n \<Rightarrow>
                    (let x = num_as_f64 n
                     in if is_finite x \<and> f64_le fzero x then Some (f64_as_u64 (f64_trunc x)) else None)
                | Str s \<Rightarrow> parse_u64 (str_trim s)
                | Bool b \<Rightarrow> Some (if b then 1 else 0)
                | _ \<Rightarrow> None)))"

definition value_to_bool :: "json \<Rightarrow> bool option" where
  "value_to_bool v =
     (case v of
        Bool b \<Rightarrow> Some b
      | Number n \<Rightarrow> Some (\<not> f64_eq (num_as_f64 n) fzero)
      | Str s \<Rightarrow>
          (let t = to_ascii_lowercase (str_trim s)
           in if t = ''true'' \<or> t = ''1'' then Some True else if t = ''false'' \<or> t = ''0'' then Some False else None)
      | _ \<Rightarrow> None)"

definition zigzag :: "u64 \<Rightarrow> u64" where
  "zigzag w = push_bit 1 w XOR signed_drop_bit 63 w"

definition unzigzag :: "u64 \<Rightarrow> u64" where
  "unzigzag v = drop_bit 1 v XOR - (v AND 1)"

definition zigzag32 :: "32 word \<Rightarrow> 32 word" where
  "zigzag32 w = push_bit 1 w XOR signed_drop_bit 31 w"

definition of_word :: "u64 \<Rightarrow> json" where
  "of_word w = of_u64 (uint w)"

definition of_signed :: "u64 \<Rightarrow> json" where
  "of_signed w = of_i64 (sint w)"

definition of_signed32 :: "32 word \<Rightarrow> json" where
  "of_signed32 w = of_i64 (sint w)"

subsection \<open>Decoding\<close>

text \<open>The value of a field of a varint type.\<close>

definition varint_value :: "string \<Rightarrow> u64 \<Rightarrow> json option" where
  "varint_value ty v =
     (if ty = ''int32'' then Some (of_signed32 (ucast v))
      else if ty = ''int64'' then Some (of_signed v)
      else if ty = ''uint32'' then Some (of_word (ucast (ucast v :: 32 word)))
      else if ty = ''uint64'' then Some (of_word v)
      else if ty = ''sint32'' then Some (of_signed32 (ucast (unzigzag v)))
      else if ty = ''sint64'' then Some (of_signed (unzigzag v))
      else if ty = ''bool'' then Some (Bool (v \<noteq> 0))
      else None)"

text \<open>What one field of the input holds: malformed bytes, nothing of interest, a value or the bytes of
  a nested message, each with what follows.\<close>

datatype piece = Malformed | Skipped "u8 list" | Value json "u8 list" | Inner "u8 list" proto_message "u8 list"

definition number_piece :: "f64 \<Rightarrow> u8 list \<Rightarrow> piece" where
  "number_piece x r = (if is_finite x then Value (Number (Float x)) r else Skipped r)"

definition taken :: "(u8 list \<times> u8 list) option \<Rightarrow> (u8 list \<Rightarrow> u8 list \<Rightarrow> piece) \<Rightarrow> piece" where
  "taken o' f = (case o' of None \<Rightarrow> Malformed | Some (raw, r) \<Rightarrow> f raw r)"

definition decode_field_sized :: "wire_env \<Rightarrow> proto_message \<Rightarrow> string \<Rightarrow> u64 \<Rightarrow> u8 list \<Rightarrow> piece" where
  "decode_field_sized X msg ty wt bs =
     (if ty = ''string'' \<and> wt = 2 then taken (read_len_bytes bs) (\<lambda>raw. Value (Str (we_lossy X (text_of raw))))
      else if ty = ''bytes'' \<and> wt = 2 then taken (read_len_bytes bs) (\<lambda>raw. Value (Str (tx_b64 (we_text X) (text_of raw))))
      else if ty = ''float'' \<and> wt = 5 then taken (read_fixed 4 bs) (\<lambda>raw. number_piece (f32_as_f64 (f32_of_bytes raw)))
      else if ty = ''double'' \<and> wt = 1 then taken (read_fixed 8 bs) (\<lambda>raw. number_piece (f64_of_bytes raw))
      else if ty = ''fixed64'' \<and> wt = 1 then taken (read_fixed 8 bs) (\<lambda>raw. Value (of_word (le_value raw)))
      else if ty = ''sfixed64'' \<and> wt = 1 then taken (read_fixed 8 bs) (\<lambda>raw. Value (of_signed (le_value raw)))
      else if ty = ''fixed32'' \<and> wt = 5 then taken (read_fixed 4 bs) (\<lambda>raw. Value (of_word (le_value raw)))
      else if ty = ''sfixed32'' \<and> wt = 5 then taken (read_fixed 4 bs) (\<lambda>raw. Value (of_signed32 (ucast (le_value raw))))
      else
        (case if wt = 2 then map_of (pm_nested msg) ty else None of
           Some n \<Rightarrow> taken (read_len_bytes bs) (\<lambda>raw. Inner raw n)
         | None \<Rightarrow> (case skip_field wt bs of Some r \<Rightarrow> Skipped r | None \<Rightarrow> Malformed)))"

definition decode_field :: "wire_env \<Rightarrow> proto_message \<Rightarrow> string \<Rightarrow> u64 \<Rightarrow> u8 list \<Rightarrow> piece" where
  "decode_field X msg ty wt bs =
     (if wt = 0 \<and> varint_value ty 0 \<noteq> None
      then (case read_varint bs of Some (v, r) \<Rightarrow> Value (the (varint_value ty v)) r | None \<Rightarrow> Malformed)
      else decode_field_sized X msg ty wt bs)"

definition add_value :: "proto_field \<Rightarrow> json \<Rightarrow> row \<Rightarrow> row" where
  "add_value f v m =
     (if pf_repeated f then
        fmupd (pf_name f)
          (case fmlookup m (pf_name f) of
             Some (Arr xs) \<Rightarrow> Arr (xs @ [v])
           | Some prev \<Rightarrow> Arr [prev, v]
           | None \<Rightarrow> Arr [v]) m
      else fmupd (pf_name f) v m)"

definition find_field :: "proto_message \<Rightarrow> 32 word \<Rightarrow> proto_field option" where
  "find_field msg n = find (\<lambda>f. pf_number f = n) (pm_fields msg)"

text \<open>One field of the input, with the field of the message it belongs to.\<close>

definition next_piece :: "wire_env \<Rightarrow> proto_message \<Rightarrow> u8 list \<Rightarrow> proto_field option \<times> piece" where
  "next_piece X msg bs =
     (case read_varint bs of
        None \<Rightarrow> (None, Malformed)
      | Some (tag, r) \<Rightarrow>
          (let wt = tag AND 7
           in case find_field msg (ucast (drop_bit 3 tag)) of
                None \<Rightarrow> (None, case skip_field wt r of Some r \<Rightarrow> Skipped r | None \<Rightarrow> Malformed)
              | Some f \<Rightarrow> (Some f, decode_field X msg (pf_type f) wt r)))"

lemma read_groups_shorter: "read_groups n k acc bs = Some (v, r) \<Longrightarrow> length r < length bs"
  by (induction n k acc bs rule: read_groups.induct) (auto simp: Let_def split: if_splits)

lemma read_varint_shorter: "read_varint bs = Some (v, r) \<Longrightarrow> length r < length bs"
  by (auto simp: read_varint_def dest: read_groups_shorter)

lemma read_len_shorter:
  assumes "read_len_bytes bs = Some (raw, r)"
  shows "length raw + length r < length bs"
proof -
  obtain n q where q: "read_varint bs = Some (n, q)" using assms by (cases "read_varint bs") (auto simp: read_len_bytes_def)
  then have "unat n \<le> length q" "raw = take (unat n) q" "r = drop (unat n) q"
    using assms by (auto simp: read_len_bytes_def split: if_splits)
  with read_varint_shorter[OF q] show ?thesis by simp
qed

lemma read_fixed_length: "read_fixed n bs = Some (raw, r) \<Longrightarrow> length raw + length r = length bs"
  by (auto simp: read_fixed_def split: if_splits)

fun piece_size :: "piece \<Rightarrow> nat" where
  "piece_size (Inner raw n r) = length raw + length r"
| "piece_size (Value v r) = length r"
| "piece_size (Skipped r) = length r"
| "piece_size Malformed = 0"

lemma skip_shorter:
  assumes "skip_field wt bs = Some r"
  shows "length r \<le> length bs"
proof -
  have "read_varint bs = Some (v, r) \<Longrightarrow> ?thesis" for v using read_varint_shorter by fastforce
  moreover have "read_len_bytes bs = Some (raw, r) \<Longrightarrow> ?thesis" for raw using read_len_shorter by fastforce
  moreover have "read_fixed n bs = Some (raw, r) \<Longrightarrow> ?thesis" for n raw using read_fixed_length by fastforce
  ultimately show ?thesis using assms by (auto simp: skip_field_def split: if_splits)
qed

lemma taken_size:
  assumes "\<And>raw r. o' = Some (raw, r) \<Longrightarrow> piece_size (f raw r) \<le> length bs"
  shows "piece_size (taken o' f) \<le> length bs"
  using assms by (auto simp: taken_def split: option.split)

lemma number_piece_size [simp]: "piece_size (number_piece x r) = length r"
  by (simp add: number_piece_def)

lemma taken_len_size:
  assumes "\<And>raw r. piece_size (f raw r) \<le> length raw + length r"
  shows "piece_size (taken (read_len_bytes bs) f) \<le> length bs"
  by (rule taken_size) (meson assms read_len_shorter le_less_trans less_imp_le)

lemma taken_fixed_size:
  assumes "\<And>raw r. piece_size (f raw r) \<le> length raw + length r"
  shows "piece_size (taken (read_fixed n bs) f) \<le> length bs"
  by (rule taken_size) (metis assms read_fixed_length)

lemma if_size: "piece_size a \<le> n \<Longrightarrow> piece_size b \<le> n \<Longrightarrow> piece_size (if c then a else b) \<le> n"
  by simp

lemma known_or_skipped_size:
  "piece_size
     (case o' of
        Some k \<Rightarrow> taken (read_len_bytes bs) (\<lambda>raw. Inner raw k)
      | None \<Rightarrow> (case skip_field wt bs of Some r \<Rightarrow> Skipped r | None \<Rightarrow> Malformed)) \<le> length bs"
  by (auto simp: taken_len_size skip_shorter split: option.split)

lemma sized_piece_size: "piece_size (decode_field_sized X msg ty wt bs) \<le> length bs"
  unfolding decode_field_sized_def
  by (intro if_size taken_len_size taken_fixed_size known_or_skipped_size) simp_all

lemma field_piece_size: "piece_size (decode_field X msg ty wt bs) \<le> length bs"
  using sized_piece_size[of X msg ty wt bs] read_varint_shorter[of bs]
  by (auto simp: decode_field_def less_imp_le split: option.split)

lemma next_piece_size:
  assumes "next_piece X msg bs = (fo, p)" "p \<noteq> Malformed"
  shows "piece_size p < length bs"
proof -
  obtain tag r where r: "read_varint bs = Some (tag, r)" using assms by (cases "read_varint bs") (auto simp: next_piece_def)
  have "piece_size p \<le> length r"
    using assms r field_piece_size skip_shorter by (fastforce simp: next_piece_def Let_def split: option.splits)
  with read_varint_shorter[OF r] show ?thesis by simp
qed

function decode_loop :: "wire_env \<Rightarrow> proto_message \<Rightarrow> row \<Rightarrow> u8 list \<Rightarrow> json option" where
  "decode_loop X msg m bs =
     (if bs = [] then Some (Obj m)
      else (case next_piece X msg bs of
              (fo, Malformed) \<Rightarrow> None
            | (fo, Skipped r) \<Rightarrow> decode_loop X msg m r
            | (fo, Value v r) \<Rightarrow> decode_loop X msg (case fo of Some f \<Rightarrow> add_value f v m | None \<Rightarrow> m) r
            | (fo, Inner raw n r) \<Rightarrow>
                decode_loop X msg
                  (case (fo, decode_loop X n fmempty raw) of (Some f, Some v) \<Rightarrow> add_value f v m | _ \<Rightarrow> m) r))"
  by pat_completeness auto

termination
  by (relation "measure (\<lambda>(X, msg, m, bs). length bs)") (auto dest!: next_piece_size[OF sym])

declare decode_loop.simps [simp del]

definition decode_inner :: "wire_env \<Rightarrow> u8 list \<Rightarrow> proto_message \<Rightarrow> json option" where
  "decode_inner X bs msg = decode_loop X msg fmempty bs"

definition protobuf_decode :: "wire_env \<Rightarrow> u8 list \<Rightarrow> proto_message \<Rightarrow> json" where
  "protobuf_decode X bs msg = or_default (decode_inner X bs msg) Null"

subsection \<open>Encoding\<close>

definition len_prefixed :: "u8 list \<Rightarrow> u8 list" where
  "len_prefixed raw = write_varint (of_nat (length raw)) @ raw"

definition sign_extended :: "int \<Rightarrow> u64" where
  "sign_extended i = scast (word_of_int i :: 32 word)"

definition double_bytes :: "wire_env \<Rightarrow> json \<Rightarrow> u8 list option" where
  "double_bytes X v =
     (case as_f64 v of
        Some x \<Rightarrow> Some (f64_bytes x)
      | None \<Rightarrow>
          (case num_to_i64 v of
             Some i \<Rightarrow> Some (f64_bytes (f64_of_int i))
           | None \<Rightarrow>
               (case v of
                  Str s \<Rightarrow> map_option (f64_bytes) (tx_f64 (we_text X) (str_trim s))
                | _ \<Rightarrow> None)))"

definition float_bytes :: "wire_env \<Rightarrow> json \<Rightarrow> u8 list option" where
  "float_bytes X v =
     (case as_f64 v of
        Some x \<Rightarrow> Some (f32_bytes (as_f32 x))
      | None \<Rightarrow>
          (case num_to_i64 v of
             Some i \<Rightarrow> Some (f32_bytes (as_f32 (f64_of_int i)))
           | None \<Rightarrow>
               (case v of
                  Str s \<Rightarrow> map_option f32_bytes (we_parse_f32 X (str_trim s))
                | _ \<Rightarrow> None)))"

definition string_bytes :: "wire_env \<Rightarrow> json \<Rightarrow> u8 list option" where
  "string_bytes X v =
     (case v of
        Str s \<Rightarrow> Some (bytes_of s)
      | Null \<Rightarrow> None
      | _ \<Rightarrow> Some (bytes_of (tx_show (we_text X) v)))"

definition raw_bytes :: "wire_env \<Rightarrow> json \<Rightarrow> u8 list option" where
  "raw_bytes X v =
     (case v of
        Str s \<Rightarrow> Some (bytes_of (or_default (tx_unb64 (we_text X) (str_trim s)) s))
      | Null \<Rightarrow> None
      | _ \<Rightarrow> Some (bytes_of (tx_show (we_text X) v)))"

definition varint_types :: "string list" where
  "varint_types = [''int32'', ''int64'', ''uint32'', ''uint64'', ''sint32'', ''sint64'', ''bool'']"

definition sized_types :: "string list" where
  "sized_types = [''float'', ''double'', ''fixed64'', ''sfixed64'', ''fixed32'', ''sfixed32'', ''string'', ''bytes'']"

definition scalar_type :: "string \<Rightarrow> bool" where
  "scalar_type ty = (ty \<in> set varint_types \<or> ty \<in> set sized_types)"

definition varint_bits :: "string \<Rightarrow> json \<Rightarrow> u64 option" where
  "varint_bits ty v =
     (if ty = ''int32'' then map_option sign_extended (num_to_i64 v)
      else if ty = ''int64'' then map_option word_of_int (num_to_i64 v)
      else if ty = ''uint32'' then map_option word_of_int (num_to_u64 v)
      else if ty = ''uint64'' then map_option word_of_int (num_to_u64 v)
      else if ty = ''sint32'' then map_option (\<lambda>i. ucast (zigzag32 (word_of_int i))) (num_to_i64 v)
      else if ty = ''sint64'' then map_option (\<lambda>i. zigzag (word_of_int i)) (num_to_i64 v)
      else if ty = ''bool'' then map_option of_bool (value_to_bool v)
      else None)"

definition sized_bytes :: "wire_env \<Rightarrow> string \<Rightarrow> json \<Rightarrow> (u64 \<times> u8 list) option" where
  "sized_bytes X ty v =
     (if ty = ''float'' then map_option (Pair 5) (float_bytes X v)
      else if ty = ''double'' then map_option (Pair 1) (double_bytes X v)
      else if ty = ''fixed64'' then map_option (\<lambda>u. (1, le_bytes 8 (word_of_int u))) (num_to_u64 v)
      else if ty = ''sfixed64'' then map_option (\<lambda>i. (1, le_bytes 8 (word_of_int i))) (num_to_i64 v)
      else if ty = ''fixed32'' then map_option (\<lambda>u. (5, le_bytes 4 (word_of_int u))) (num_to_u64 v)
      else if ty = ''sfixed32'' then map_option (\<lambda>i. (5, le_bytes 4 (word_of_int i))) (num_to_i64 v)
      else if ty = ''string'' then map_option (\<lambda>raw. (2, len_prefixed raw)) (string_bytes X v)
      else if ty = ''bytes'' then map_option (\<lambda>raw. (2, len_prefixed raw)) (raw_bytes X v)
      else None)"

definition scalar_bytes :: "wire_env \<Rightarrow> string \<Rightarrow> json \<Rightarrow> (u64 \<times> u8 list) option" where
  "scalar_bytes X ty v =
     (if ty \<in> set varint_types then map_option (\<lambda>w. (0, write_varint w)) (varint_bits ty v) else sized_bytes X ty v)"

definition tagged_field :: "32 word \<Rightarrow> (u64 \<times> u8 list) option \<Rightarrow> u8 list" where
  "tagged_field number o' = (case o' of Some (wt, bs) \<Rightarrow> write_tag number wt @ bs | None \<Rightarrow> [])"

definition field_values :: "proto_field \<Rightarrow> row \<Rightarrow> json list" where
  "field_values f m =
     (case fmlookup m (pf_name f) of
        Some (Arr xs) \<Rightarrow> if pf_repeated f then xs else [Arr xs]
      | Some v \<Rightarrow> [v]
      | None \<Rightarrow> [])"

lemma nested_smaller: "map_of (pm_nested msg) ty = Some n \<Longrightarrow> size n < size msg"
proof (cases msg)
  case (ProtoMessage nm fs ns)
  have "(ty, n) \<in> set ns \<Longrightarrow> size n < size (ProtoMessage nm fs ns)" by (induction ns) auto
  then show "map_of (pm_nested msg) ty = Some n \<Longrightarrow> size n < size msg" using ProtoMessage by (simp add: map_of_SomeD)
qed

function protobuf_encode :: "wire_env \<Rightarrow> proto_message \<Rightarrow> json \<Rightarrow> u8 list"
  and encode_field :: "wire_env \<Rightarrow> proto_message \<Rightarrow> proto_field \<Rightarrow> json \<Rightarrow> u8 list" where
  "protobuf_encode X msg v =
     (case v of
        Obj m \<Rightarrow> concat (map (\<lambda>f. concat (map (encode_field X msg f) (field_values f m))) (pm_fields msg))
      | _ \<Rightarrow> [])"
| "encode_field X msg f v =
     (if scalar_type (pf_type f) then tagged_field (pf_number f) (scalar_bytes X (pf_type f) v)
      else (case (v, map_of (pm_nested msg) (pf_type f)) of
              (Obj _, Some n) \<Rightarrow> tagged_field (pf_number f) (Some (2, len_prefixed (protobuf_encode X n v)))
            | _ \<Rightarrow> []))"
  by pat_completeness auto

termination
proof (relation "measure (\<lambda>q. case q of Inl (X, msg, v) \<Rightarrow> 2 * size msg + 1 | Inr (X, msg, f, v) \<Rightarrow> 2 * size msg)", goal_cases)
  case (3 X msg f v w m k n)
  then show ?case using nested_smaller[of msg "pf_type f" n] by simp
qed simp_all

declare protobuf_encode.simps [simp del] encode_field.simps [simp del]

end
