(* ===== verification/Protobuf_Props.thy ===== *)
theory Protobuf_Props
  imports Protobuf
begin

text \<open>
  What the protobuf codec promises: a varint, an integer of every width and a whole message are read back
  as they were written.
\<close>

subsection \<open>Varints\<close>

lemma low_masks: "(0x7F :: 64 word) = mask 7" "(0x7F :: 8 word) = mask 7"
  by (simp_all add: mask_eq_exp_minus_1)

lemma bit_high: "bit (0x80 :: u8) n \<longleftrightarrow> n = 7"
proof -
  have "(0x80 :: u8) = 2 ^ 7" by simp
  then show ?thesis by (simp only: bit_exp_iff) auto
qed

lemma group_low: "ucast (v AND 0x7F) AND (0x80 :: u8) = 0" for v :: u64
proof (rule bit_word_eqI)
  show "bit (ucast (v AND 0x7F) AND (0x80 :: u8)) n \<longleftrightarrow> bit (0 :: u8) n" for n
    unfolding low_masks bit_and_iff bit_high by (auto simp: bit_simps)
qed

lemma group_high: "(b OR 0x80) AND (0x80 :: u8) \<noteq> 0"
proof
  assume "(b OR 0x80) AND (0x80 :: u8) = 0"
  then have "\<not> bit ((b OR 0x80) AND (0x80 :: u8)) 7" by simp
  then show False by (simp only: bit_and_iff bit_or_iff bit_high) simp
qed

lemma low_of_group: "ucast ((ucast (v AND 0x7F) :: u8) AND 0x7F) = v AND 0x7F" for v :: u64
  unfolding low_masks by (rule bit_word_eqI) (auto simp: bit_simps)

lemma low_of_high_group: "ucast (((ucast (v AND 0x7F) :: u8) OR 0x80) AND 0x7F) = v AND 0x7F" for v :: u64
proof (rule bit_word_eqI)
  show "bit (ucast (((ucast (v AND 0x7F) :: u8) OR 0x80) AND 0x7F) :: u64) n \<longleftrightarrow> bit (v AND 0x7F) n" for n
    unfolding low_masks unsigned_ucast_eq bit_ucast_iff bit_and_iff bit_or_iff bit_high bit_mask_iff by auto
qed

lemma low_is_all: "drop_bit 7 v = 0 \<Longrightarrow> v AND 0x7F = v" for v :: u64
  unfolding low_masks using bits_ident[of 7 v] by (simp add: take_bit_eq_mask)

lemma rejoin: "push_bit k (v AND 0x7F) OR push_bit (k + 7) (drop_bit 7 v) = push_bit k v" for v :: u64
  unfolding low_masks
proof (rule bit_word_eqI)
  fix n
  have "k + 7 \<le> n \<Longrightarrow> 7 + (n - (k + 7)) = n - k" by simp
  then show "bit (push_bit k (v AND mask 7) OR push_bit (k + 7) (drop_bit 7 v)) n \<longleftrightarrow> bit (push_bit k v) n"
    by (cases "k + 7 \<le> n") (auto simp: bit_simps)
qed

lemma read_written_groups:
  assumes "0 < n" "unat v < 2 ^ (7 * n)"
  shows "read_groups n k acc (write_varint v @ rest) = Some (acc OR push_bit k v, rest)"
  using assms
proof (induction v arbitrary: n k acc rule: write_varint.induct)
  case (1 v)
  obtain m where n: "n = Suc m" using 1(2) by (cases n) auto
  show ?case
  proof (cases "drop_bit 7 v = 0")
    case True
    then show ?thesis
      using group_low[of v] low_of_group[of v]
      by (subst write_varint.simps) (simp add: n Let_def low_is_all)
  next
    case False
    have small: "unat (drop_bit 7 v) < 2 ^ (7 * m)"
      unfolding unat_drop7 using 1(3) n by (simp add: power_add less_mult_imp_div_less mult.commute)
    moreover have "0 < m" using small False by (cases m) (auto simp: unat_eq_zero)
    ultimately have "read_groups m (k + 7) (acc OR push_bit k (v AND 0x7F)) (write_varint (drop_bit 7 v) @ rest)
      = Some (acc OR push_bit k v, rest)"
      using 1(1)[OF False, of m "k + 7" "acc OR push_bit k (v AND 0x7F)"] unfolding or.assoc rejoin by blast
    then show ?thesis
      using False by (subst write_varint.simps) (simp add: n Let_def group_high low_of_high_group)
  qed
qed

lemma read_written_varint [simp]: "read_varint (write_varint v @ rest) = Some (v, rest)"
proof -
  have "unat v < 2 ^ 64" using unsigned_less[of v, where 'a = nat] by simp
  then show ?thesis by (simp add: read_varint_def read_written_groups)
qed

subsection \<open>Tags and integers\<close>

lemma tag_wire_type: "wt < 8 \<Longrightarrow> (push_bit 3 (ucast number) OR wt) AND 7 = wt" for number :: "32 word" and wt :: u64
proof -
  assume "wt < 8"
  have "(7 :: u64) = mask 3" by (simp add: mask_eq_exp_minus_1)
  moreover have "take_bit 3 wt = wt" using \<open>wt < 8\<close> by (simp add: take_bit_eq_mod mod_word_less)
  moreover have "push_bit 3 (ucast number) AND mask 3 = (0 :: u64)" by (rule bit_word_eqI) (auto simp: bit_simps)
  ultimately show ?thesis by (simp only: bit.conj_disj_distrib2 flip: take_bit_eq_mask) simp
qed

lemma tag_number: "wt < 8 \<Longrightarrow> ucast (drop_bit 3 (push_bit 3 (ucast number) OR wt)) = number"
  for number :: "32 word" and wt :: u64
proof -
  assume "wt < 8"
  then have "take_bit 3 wt = wt" by (simp add: take_bit_eq_mod mod_word_less)
  then have "drop_bit 3 wt = 0" by (metis drop_bit_take_bit diff_self_eq_0 take_bit_0)
  then show ?thesis by (intro bit_word_eqI) (auto simp: bit_simps drop_bit_or)
qed

lemma sign_bits: "bit (- (of_bool b) :: 'a :: len word) n \<longleftrightarrow> n < LENGTH('a) \<and> b"
  by (cases b) simp_all

lemma zigzag_bit: "n < 64 \<Longrightarrow> bit (zigzag w) n \<longleftrightarrow> (0 < n \<and> bit w (n - 1)) \<noteq> bit w 63"
  unfolding zigzag_def bit_xor_iff bit_push_bit_iff bit_signed_drop_bit_iff by (cases n) (auto simp: min_def bit_simps)

lemma unzigzag_zigzag: "unzigzag (zigzag w) = w"
proof -
  have low: "zigzag w AND 1 = of_bool (bit w 63)"
    using zigzag_bit[of 0 w] by (simp add: and_one_eq mod_2_eq_odd bit_0)
  show ?thesis
  proof (rule bit_word_eqI)
    fix n assume "n < LENGTH(64)"
    then show "bit (unzigzag (zigzag w)) n \<longleftrightarrow> bit w n"
      unfolding unzigzag_def low bit_xor_iff sign_bits bit_drop_bit_eq comp_def
      using zigzag_bit[of "1 + n" w] bit_imp_le_length[of "zigzag w" "1 + n"] by (cases "n = 63") auto
  qed
qed

lemma zigzag32_bit: "n < 32 \<Longrightarrow> bit (zigzag32 w) n \<longleftrightarrow> (0 < n \<and> bit w (n - 1)) \<noteq> bit w 31"
  unfolding zigzag32_def bit_xor_iff bit_push_bit_iff bit_signed_drop_bit_iff by (cases n) (auto simp: min_def bit_simps)

lemma unzigzag_zigzag32: "ucast (unzigzag (ucast (zigzag32 w))) = w"
proof -
  have low: "ucast (zigzag32 w) AND (1 :: u64) = of_bool (bit w 31)"
    using zigzag32_bit[of 0 w] by (simp add: and_one_eq mod_2_eq_odd flip: bit_0) (simp add: bit_simps)
  show ?thesis
  proof (rule bit_word_eqI)
    fix n assume "n < LENGTH(32)"
    then show "bit (ucast (unzigzag (ucast (zigzag32 w))) :: 32 word) n \<longleftrightarrow> bit w n"
      unfolding bit_ucast_iff unzigzag_def low bit_xor_iff sign_bits bit_drop_bit_eq comp_def
      using zigzag32_bit[of "1 + n" w] bit_imp_le_length[of "zigzag32 w" "1 + n"] by (cases "n = 31") auto
  qed
qed

lemma signed_back: "- (2 ^ 63) \<le> i \<Longrightarrow> i < 2 ^ 63 \<Longrightarrow> of_signed (word_of_int i) = of_i64 i"
  by (simp add: of_signed_def signed_of_int signed_take_bit_int_eq_self)

lemma signed32_back: "- (2 ^ 31) \<le> i \<Longrightarrow> i < 2 ^ 31 \<Longrightarrow> of_signed32 (word_of_int i) = of_i64 i"
  by (simp add: of_signed32_def signed_of_int signed_take_bit_int_eq_self)

lemma unsigned_back: "0 \<le> u \<Longrightarrow> u < 2 ^ 64 \<Longrightarrow> of_word (word_of_int u) = of_u64 u"
  by (simp add: of_word_def unsigned_of_int take_bit_int_eq_self)

lemma sign_extended_back: "ucast (sign_extended i) = (word_of_int i :: 32 word)"
  unfolding sign_extended_def by (rule bit_word_eqI) (auto simp: bit_simps)

subsection \<open>Fields of a scalar type\<close>

definition whole_within :: "int \<Rightarrow> int \<Rightarrow> json \<Rightarrow> bool" where
  "whole_within lo hi v =
     (case v of
        Number (PosInt i) \<Rightarrow> 0 \<le> i \<and> lo \<le> i \<and> i < hi
      | Number (NegInt i) \<Rightarrow> i < 0 \<and> lo \<le> i \<and> i < hi
      | _ \<Rightarrow> False)"

definition double_kept :: "json \<Rightarrow> bool" where
  "double_kept v = (case v of Number (Float x) \<Rightarrow> is_finite x \<and> float_value 52 11 (- 1074) x | _ \<Rightarrow> False)"

definition float_kept :: "json \<Rightarrow> bool" where
  "float_kept v =
     (case v of
        Number (Float x) \<Rightarrow> is_finite x \<and> f32_as_f64 (f32_of_bytes (f32_bytes (as_f32 x))) = x
      | _ \<Rightarrow> False)"

definition string_kept :: "wire_env \<Rightarrow> json \<Rightarrow> bool" where
  "string_kept X v = (case v of Str s \<Rightarrow> we_lossy X s = s \<and> length s < 2 ^ 64 | _ \<Rightarrow> False)"

definition bytes_kept :: "wire_env \<Rightarrow> json \<Rightarrow> bool" where
  "bytes_kept X v =
     (case v of
        Str s \<Rightarrow>
          (case tx_unb64 (we_text X) (str_trim s) of
             Some raw \<Rightarrow> tx_b64 (we_text X) raw = s \<and> length raw < 2 ^ 64
           | None \<Rightarrow> False)
      | _ \<Rightarrow> False)"

text \<open>The values of a scalar type that the wire can hold.\<close>

definition scalar_ok :: "wire_env \<Rightarrow> string \<Rightarrow> json \<Rightarrow> bool" where
  "scalar_ok X ty v =
     (if ty \<in> {''int32'', ''sint32'', ''sfixed32''} then whole_within (- (2 ^ 31)) (2 ^ 31) v
      else if ty \<in> {''int64'', ''sint64'', ''sfixed64''} then whole_within (- (2 ^ 63)) (2 ^ 63) v
      else if ty \<in> {''uint32'', ''fixed32''} then whole_within 0 (2 ^ 32) v
      else if ty \<in> {''uint64'', ''fixed64''} then whole_within 0 (2 ^ 64) v
      else if ty = ''bool'' then is_boolean v
      else if ty = ''float'' then float_kept v
      else if ty = ''double'' then double_kept v
      else if ty = ''string'' then string_kept X v
      else if ty = ''bytes'' then bytes_kept X v
      else False)"

lemma whole_withinE:
  assumes "whole_within lo hi v"
  obtains i where "v = of_i64 i" "lo \<le> i" "i < hi"
  using assms that[of "case v of Number (PosInt i) \<Rightarrow> i | Number (NegInt i) \<Rightarrow> i | _ \<Rightarrow> 0"]
  by (auto simp: whole_within_def of_i64_def split: json.splits number.splits)

lemma num_to_i64_whole: "i \<le> i64_max \<Longrightarrow> num_to_i64 (of_i64 i) = Some i"
  by (simp add: num_to_i64_def of_i64_def)

lemma num_to_u64_whole: "0 \<le> u \<Longrightarrow> num_to_u64 (of_i64 u) = Some u"
  by (simp add: num_to_u64_def of_i64_def)

lemma of_u64_whole: "0 \<le> u \<Longrightarrow> of_u64 u = of_i64 u"
  by (simp add: of_u64_def of_i64_def)

lemma read_fixed_back: "length raw = n \<Longrightarrow> read_fixed n (raw @ rest) = Some (raw, rest)"
  by (simp add: read_fixed_def)

lemma read_len_back: "length raw < 2 ^ 64 \<Longrightarrow> read_len_bytes (len_prefixed raw @ rest) = Some (raw, rest)"
  by (simp add: read_len_bytes_def len_prefixed_def unsigned_of_nat take_bit_nat_eq_self)

lemma text_of_bytes_of [simp]: "text_of (bytes_of s) = s"
proof -
  have "unat (of_char c :: u8) = of_char c" for c
  proof -
    have "unat (of_nat (of_char c) :: u8) = of_char c mod 256" by (simp add: unsigned_of_nat take_bit_eq_mod)
    then show ?thesis by (simp only: of_nat_of_char of_char_mod_256)
  qed
  then show ?thesis by (simp add: text_of_def bytes_of_def comp_def)
qed

definition field_back :: "wire_env \<Rightarrow> proto_message \<Rightarrow> string \<Rightarrow> json \<Rightarrow> bool" where
  "field_back X msg ty v \<longleftrightarrow>
     (\<exists>wt bs. scalar_bytes X ty v = Some (wt, bs) \<and> wt < 8 \<and> (\<forall>rest. decode_field X msg ty wt (bs @ rest) = Value v rest))"

lemma varint_types_known: "ty \<in> set varint_types \<longleftrightarrow> varint_value ty 0 \<noteq> None"
  by (auto simp: varint_types_def varint_value_def)

lemma varint_back:
  assumes "varint_bits ty v = Some w" "varint_value ty w = Some v" "varint_value ty 0 \<noteq> None"
  shows "field_back X msg ty v"
  unfolding field_back_def
  using assms by (intro exI[of _ 0] exI[of _ "write_varint w"]) (simp add: scalar_bytes_def varint_types_known decode_field_def)

lemma sized_back:
  assumes "sized_bytes X ty v = Some (wt, bs)" "wt < 8" "varint_value ty 0 = None"
    "\<And>rest. decode_field_sized X msg ty wt (bs @ rest) = Value v rest"
  shows "field_back X msg ty v"
  unfolding field_back_def
  using assms by (intro exI[of _ wt] exI[of _ bs]) (simp add: scalar_bytes_def varint_types_known decode_field_def)

lemma signed32_field_back:
  assumes "ty \<in> {''int32'', ''sint32'', ''sfixed32''}" "whole_within (- (2 ^ 31)) (2 ^ 31) v"
  shows "field_back X msg ty v"
proof -
  obtain i where i: "v = of_i64 i" "- (2 ^ 31) \<le> i" "i < 2 ^ 31" using assms(2) by (rule whole_withinE)
  then have n: "num_to_i64 v = Some i" by (simp add: num_to_i64_whole i64_max_def)
  have kept: "of_signed32 (word_of_int i) = v" using i signed32_back by simp
  consider "ty = ''int32''" | "ty = ''sint32''" | "ty = ''sfixed32''" using assms(1) by blast
  then show ?thesis
  proof cases
    case 1
    show ?thesis
      by (rule varint_back[of _ _ "sign_extended i"]) (simp_all add: 1 n varint_bits_def varint_value_def sign_extended_back kept)
  next
    case 2
    show ?thesis
      by (rule varint_back[of _ _ "ucast (zigzag32 (word_of_int i))"])
        (simp_all add: 2 n varint_bits_def varint_value_def unzigzag_zigzag32 kept)
  next
    case 3
    show ?thesis
      by (rule sized_back[of _ _ _ 5 "le_bytes 4 (word_of_int i)"])
        (simp_all add: 3 n sized_bytes_def varint_value_def decode_field_sized_def taken_def read_fixed_back ucast_le_half kept)
  qed
qed

lemma signed64_field_back:
  assumes "ty \<in> {''int64'', ''sint64'', ''sfixed64''}" "whole_within (- (2 ^ 63)) (2 ^ 63) v"
  shows "field_back X msg ty v"
proof -
  obtain i where i: "v = of_i64 i" "- (2 ^ 63) \<le> i" "i < 2 ^ 63" using assms(2) by (rule whole_withinE)
  then have n: "num_to_i64 v = Some i" by (simp add: num_to_i64_whole i64_max_def)
  have kept: "of_signed (word_of_int i) = v" using i signed_back by simp
  consider "ty = ''int64''" | "ty = ''sint64''" | "ty = ''sfixed64''" using assms(1) by blast
  then show ?thesis
  proof cases
    case 1
    show ?thesis
      by (rule varint_back[of _ _ "word_of_int i"]) (simp_all add: 1 n varint_bits_def varint_value_def kept)
  next
    case 2
    show ?thesis
      by (rule varint_back[of _ _ "zigzag (word_of_int i)"])
        (simp_all add: 2 n varint_bits_def varint_value_def unzigzag_zigzag kept)
  next
    case 3
    show ?thesis
      by (rule sized_back[of _ _ _ 1 "le_bytes 8 (word_of_int i)"])
        (simp_all add: 3 n sized_bytes_def varint_value_def decode_field_sized_def taken_def read_fixed_back ucast_le_word kept)
  qed
qed

lemma unsigned_field_back:
  assumes "whole_within 0 (2 ^ 64) v" "ty \<in> {''uint64'', ''fixed64''} \<or> ty \<in> {''uint32'', ''fixed32''} \<and> whole_within 0 (2 ^ 32) v"
  shows "field_back X msg ty v"
proof -
  obtain u where u: "v = of_i64 u" "0 \<le> u" "u < 2 ^ 64" using assms(1) by (rule whole_withinE)
  have n: "num_to_u64 v = Some u" and kept: "of_word (word_of_int u) = v"
    using u by (simp_all add: num_to_u64_whole unsigned_back of_u64_whole)
  have half: "u < 2 ^ 32" if "whole_within 0 (2 ^ 32) v"
    using that u by (auto simp: whole_within_def of_i64_def split: if_splits)
  have narrow: "ucast (ucast (word_of_int u :: u64) :: 32 word) = (word_of_int u :: u64)" if "u < 2 ^ 32"
    using that u by (simp add: unsigned_of_int take_bit_int_eq_self unsigned_ucast_eq)
  consider "ty = ''uint64''" | "ty = ''fixed64''" | "ty = ''uint32''" "u < 2 ^ 32" | "ty = ''fixed32''" "u < 2 ^ 32"
    using assms(2) half by blast
  then show ?thesis
  proof cases
    case 1
    show ?thesis
      by (rule varint_back[of _ _ "word_of_int u"]) (simp_all add: 1 n varint_bits_def varint_value_def kept)
  next
    case 2
    show ?thesis
      by (rule sized_back[of _ _ _ 1 "le_bytes 8 (word_of_int u)"])
        (simp_all add: 2 n sized_bytes_def varint_value_def decode_field_sized_def taken_def read_fixed_back ucast_le_word kept)
  next
    case 3
    show ?thesis
      by (rule varint_back[of _ _ "word_of_int u"])
        (simp_all add: 3 n varint_bits_def varint_value_def narrow[OF 3(2)] kept)
  next
    case 4
    show ?thesis
      by (rule sized_back[of _ _ _ 5 "le_bytes 4 (word_of_int u)"])
        (simp_all add: 4(1) n sized_bytes_def varint_value_def decode_field_sized_def taken_def read_fixed_back
          le_half_value[OF u(2) 4(2)] kept)
  qed
qed

lemma float_field_back:
  assumes "ty = ''float'' \<and> float_kept v
    \<or> ty = ''double'' \<and> double_kept v"
  shows "field_back X msg ty v"
  using assms
proof (elim disjE conjE)
  assume a: "ty = ''float''" "float_kept v"
  obtain x where x: "v = Number (Float x)" using a(2) by (auto simp: float_kept_def split: json.splits number.splits)
  show ?thesis
    by (rule sized_back[of _ _ _ 5 "f32_bytes (as_f32 x)"])
      (use a x in \<open>simp_all add: float_kept_def sized_bytes_def float_bytes_def varint_value_def decode_field_sized_def
        taken_def read_fixed_back number_piece_def\<close>)
next
  assume a: "ty = ''double''" "double_kept v"
  obtain x where x: "v = Number (Float x)" using a(2) by (auto simp: double_kept_def split: json.splits number.splits)
  show ?thesis
    by (rule sized_back[of _ _ _ 1 "f64_bytes x"])
      (use a x in \<open>simp_all add: double_kept_def sized_bytes_def double_bytes_def varint_value_def decode_field_sized_def
        taken_def read_fixed_back number_piece_def f64_bytes_back\<close>)
qed

lemma text_field_back:
  assumes "ty = ''string'' \<and> string_kept X v \<or> ty = ''bytes'' \<and> bytes_kept X v"
  shows "field_back X msg ty v"
  using assms
proof (elim disjE conjE)
  assume a: "ty = ''string''" "string_kept X v"
  obtain s where s: "v = Str s" using a(2) by (auto simp: string_kept_def split: json.splits)
  have "length (bytes_of s) < 2 ^ 64" using a(2) s by (simp add: string_kept_def bytes_of_def)
  from read_len_back[OF this] show ?thesis
    by (intro sized_back[of _ _ _ 2 "len_prefixed (bytes_of s)"])
      (use a s in \<open>simp_all add: string_kept_def sized_bytes_def string_bytes_def varint_value_def decode_field_sized_def taken_def\<close>)
next
  assume a: "ty = ''bytes''" "bytes_kept X v"
  obtain s raw where s: "v = Str s" "tx_unb64 (we_text X) (str_trim s) = Some raw" "tx_b64 (we_text X) raw = s" "length raw < 2 ^ 64"
    using a(2) by (auto simp: bytes_kept_def split: json.splits option.splits)
  have "length (bytes_of raw) < 2 ^ 64" using s by (simp add: bytes_of_def)
  from read_len_back[OF this] show ?thesis
    by (intro sized_back[of _ _ _ 2 "len_prefixed (bytes_of raw)"])
      (use a s in \<open>simp_all add: sized_bytes_def raw_bytes_def or_default_def varint_value_def decode_field_sized_def taken_def\<close>)
qed

lemma bool_field_back: "is_boolean v \<Longrightarrow> field_back X msg ''bool'' v"
  by (cases v; rule varint_back[of _ _ "of_bool (v = Bool True)"])
    (simp_all add: varint_bits_def varint_value_def value_to_bool_def)

lemma scalar_back:
  assumes "scalar_ok X ty v"
  shows "field_back X msg ty v"
proof -
  have w: "whole_within 0 (2 ^ 64) v" if "whole_within 0 (2 ^ 32) v"
    using that by (auto simp: whole_within_def split: json.splits number.splits)
  show ?thesis
    using assms w signed32_field_back signed64_field_back unsigned_field_back float_field_back text_field_back bool_field_back
    unfolding scalar_ok_def by (auto split: if_splits)
qed

subsection \<open>Messages\<close>

text \<open>The values a message can hold: objects of its fields only, with a value of the field's type for each
  and at least one value for a repeated field.\<close>

definition repeated_shape :: "proto_field \<Rightarrow> row \<Rightarrow> bool" where
  "repeated_shape f m =
     (case fmlookup m (pf_name f) of
        None \<Rightarrow> True
      | Some (Arr xs) \<Rightarrow> pf_repeated f \<and> xs \<noteq> []
      | Some w \<Rightarrow> \<not> pf_repeated f)"

function message_ok :: "wire_env \<Rightarrow> proto_message \<Rightarrow> json \<Rightarrow> bool"
  and value_ok :: "wire_env \<Rightarrow> proto_message \<Rightarrow> proto_field \<Rightarrow> json \<Rightarrow> bool" where
  "message_ok X msg v =
     (case v of
        Obj m \<Rightarrow>
          distinct (map pf_number (pm_fields msg)) \<and> distinct (map pf_name (pm_fields msg)) \<and>
          fset (fmdom m) \<subseteq> pf_name ` set (pm_fields msg) \<and>
          (\<forall>f \<in> set (pm_fields msg).
             repeated_shape f m \<and> (\<forall>w \<in> set (field_values f m). value_ok X msg f w))
      | _ \<Rightarrow> False)"
| "value_ok X msg f v =
     (if scalar_type (pf_type f) then scalar_ok X (pf_type f) v
      else (case map_of (pm_nested msg) (pf_type f) of
              Some n \<Rightarrow> message_ok X n v \<and> length (protobuf_encode X n v) < 2 ^ 64
            | None \<Rightarrow> False))"
  by pat_completeness auto

termination
  by (relation "measure (\<lambda>q. case q of Inl (X, msg, v) \<Rightarrow> 2 * size msg + 1 | Inr (X, msg, f, v) \<Rightarrow> 2 * size msg)")
    (auto dest: nested_smaller)

declare message_ok.simps [simp del] value_ok.simps [simp del]

lemma find_own: "distinct (map pf_number (pm_fields msg)) \<Longrightarrow> f \<in> set (pm_fields msg) \<Longrightarrow> find_field msg (pf_number f) = Some f"
proof -
  have "distinct (map pf_number fs) \<Longrightarrow> f \<in> set fs \<Longrightarrow> find (\<lambda>g. pf_number g = pf_number f) fs = Some f" for fs
    by (induction fs) (auto simp: rev_image_eqI)
  then show "distinct (map pf_number (pm_fields msg)) \<Longrightarrow> f \<in> set (pm_fields msg) \<Longrightarrow> find_field msg (pf_number f) = Some f"
    by (simp add: find_field_def)
qed

lemma next_tagged:
  assumes "find_field msg number = Some f" "wt < 8"
  shows "next_piece X msg (tagged_field number (Some (wt, bs)) @ rest) = (Some f, decode_field X msg (pf_type f) wt (bs @ rest))"
  using assms(1) tag_wire_type[OF assms(2), of number] tag_number[OF assms(2), of number]
  unfolding next_piece_def Let_def write_tag_def tagged_field_def by (simp del: drop_bit_or)

lemma tagged_nonempty: "tagged_field number (Some (wt, bs)) \<noteq> []"
  by (simp add: tagged_field_def write_tag_def write_varint.simps)

lemma scalar_step:
  assumes "find_field msg (pf_number f) = Some f" "scalar_type (pf_type f)" "scalar_ok X (pf_type f) v"
  shows "decode_loop X msg m (encode_field X msg f v @ rest) = decode_loop X msg (add_value f v m) rest"
proof -
  obtain wt bs where b: "scalar_bytes X (pf_type f) v = Some (wt, bs)" "wt < 8"
    "\<And>rest. decode_field X msg (pf_type f) wt (bs @ rest) = Value v rest"
    using scalar_back[OF assms(3), of msg] by (auto simp: field_back_def)
  then have e: "encode_field X msg f v = tagged_field (pf_number f) (Some (wt, bs))" using assms(2) by (simp add: encode_field.simps)
  show ?thesis
    unfolding e using b by (subst decode_loop.simps) (simp add: tagged_nonempty next_tagged[OF assms(1)])
qed

lemma decode_inner_type:
  assumes "\<not> scalar_type ty" "map_of (pm_nested msg) ty = Some n" "length raw < 2 ^ 64"
  shows "decode_field X msg ty 2 (len_prefixed raw @ rest) = Inner raw n rest"
  using assms read_len_back[OF assms(3), of rest]
  by (simp add: scalar_type_def varint_types_def sized_types_def decode_field_def decode_field_sized_def taken_def)

lemma nested_step:
  assumes "find_field msg (pf_number f) = Some f" "\<not> scalar_type (pf_type f)" "map_of (pm_nested msg) (pf_type f) = Some n"
    "length (protobuf_encode X n v) < 2 ^ 64" "decode_loop X n fmempty (protobuf_encode X n v) = Some v" "v = Obj k"
  shows "decode_loop X msg m (encode_field X msg f v @ rest) = decode_loop X msg (add_value f v m) rest"
proof -
  have e: "encode_field X msg f v = tagged_field (pf_number f) (Some (2, len_prefixed (protobuf_encode X n v)))"
    using assms(2,3,6) by (simp add: encode_field.simps)
  show ?thesis
    unfolding e using assms(5)
    by (subst decode_loop.simps) (simp add: tagged_nonempty next_tagged[OF assms(1)] decode_inner_type[OF assms(2-4)])
qed

lemma value_step:
  assumes own: "find_field msg (pf_number f) = Some f" and ok: "value_ok X msg f v"
    and IH: "\<And>n. size n < size msg \<Longrightarrow> message_ok X n v \<Longrightarrow> decode_loop X n fmempty (protobuf_encode X n v) = Some v"
  shows "decode_loop X msg m (encode_field X msg f v @ rest) = decode_loop X msg (add_value f v m) rest"
proof (cases "scalar_type (pf_type f)")
  case True
  then show ?thesis using scalar_step[OF own True] ok by (simp add: value_ok.simps)
next
  case False
  then obtain n where n: "map_of (pm_nested msg) (pf_type f) = Some n" "message_ok X n v" "length (protobuf_encode X n v) < 2 ^ 64"
    using ok by (auto simp: value_ok.simps split: option.splits)
  obtain k where "v = Obj k" using n(2) by (auto simp: message_ok.simps split: json.splits)
  then show ?thesis using nested_step[OF own False n(1,3) IH[OF nested_smaller[OF n(1)] n(2)]] by blast
qed

lemma values_step:
  assumes "\<And>w m rest. w \<in> set ws \<Longrightarrow>
    decode_loop X msg m (encode_field X msg f w @ rest) = decode_loop X msg (add_value f w m) rest"
  shows "decode_loop X msg m (concat (map (encode_field X msg f) ws) @ rest) = decode_loop X msg (fold (add_value f) ws m) rest"
  using assms by (induction ws arbitrary: m) simp_all

text \<open>The field's value of \<open>src\<close>, if it has one, is put into \<open>m\<close>.\<close>

definition copy_field :: "row \<Rightarrow> proto_field \<Rightarrow> row \<Rightarrow> row" where
  "copy_field src f m = (case fmlookup src (pf_name f) of Some v \<Rightarrow> fmupd (pf_name f) v m | None \<Rightarrow> m)"

lemma gather_more:
  assumes "pf_repeated f" "fmlookup m (pf_name f) = Some (Arr ys)"
  shows "fold (add_value f) xs m = fmupd (pf_name f) (Arr (ys @ xs)) m"
  using assms
proof (induction xs arbitrary: ys m)
  case Nil
  then show ?case by (intro fmap_ext) auto
next
  case (Cons x xs)
  have "add_value f x m = fmupd (pf_name f) (Arr (ys @ [x])) m" using Cons.prems by (simp add: add_value_def)
  moreover have "fold (add_value f) xs (fmupd (pf_name f) (Arr (ys @ [x])) m) = fmupd (pf_name f) (Arr ((ys @ [x]) @ xs)) (fmupd (pf_name f) (Arr (ys @ [x])) m)"
    by (rule Cons.IH) (simp_all add: Cons.prems)
  ultimately show ?case by simp
qed

lemma gather:
  assumes "fmlookup m (pf_name f) = None" "repeated_shape f src"
  shows "fold (add_value f) (field_values f src) m = copy_field src f m"
proof (cases "\<exists>xs. fmlookup src (pf_name f) = Some (Arr xs)")
  case True
  then obtain x xs where x: "fmlookup src (pf_name f) = Some (Arr (x # xs))" "pf_repeated f"
    using assms(2) by (auto simp: repeated_shape_def neq_Nil_conv)
  then show ?thesis
    using assms(1) gather_more[of f "fmupd (pf_name f) (Arr [x]) m" "[x]" xs] by (simp add: field_values_def copy_field_def add_value_def)
next
  case False
  then show ?thesis using assms(2)
    by (auto simp: repeated_shape_def field_values_def copy_field_def add_value_def split: option.splits json.splits)
qed

lemma copied_lookup:
  "fmlookup (fold (copy_field src) fs m) k =
     (if k \<in> pf_name ` set fs \<and> fmlookup src k \<noteq> None then fmlookup src k else fmlookup m k)"
  by (induction fs arbitrary: m) (auto simp: copy_field_def split: option.split)

lemma copied_all: "fset (fmdom src) \<subseteq> pf_name ` set fs \<Longrightarrow> fold (copy_field src) fs fmempty = src"
proof (rule fmap_ext)
  fix k assume "fset (fmdom src) \<subseteq> pf_name ` set fs"
  then have "k \<notin> pf_name ` set fs \<Longrightarrow> fmlookup src k = None" by (metis fmdom_notD subsetD)
  then show "fmlookup (fold (copy_field src) fs fmempty) k = fmlookup src k" by (auto simp: copied_lookup)
qed

lemma fields_step:
  assumes "distinct (map pf_name fs)" "\<And>f. f \<in> set fs \<Longrightarrow> fmlookup m (pf_name f) = None"
    "\<And>f. f \<in> set fs \<Longrightarrow> repeated_shape f src"
    "\<And>f w m rest. f \<in> set fs \<Longrightarrow> w \<in> set (field_values f src) \<Longrightarrow>
      decode_loop X msg m (encode_field X msg f w @ rest) = decode_loop X msg (add_value f w m) rest"
  shows "decode_loop X msg m (concat (map (\<lambda>f. concat (map (encode_field X msg f) (field_values f src))) fs))
    = decode_loop X msg (fold (copy_field src) fs m) []"
  using assms
proof (induction fs arbitrary: m)
  case (Cons f fs)
  let ?later = "concat (map (\<lambda>f. concat (map (encode_field X msg f) (field_values f src))) fs)"
  have "decode_loop X msg m (concat (map (encode_field X msg f) (field_values f src)) @ ?later)
    = decode_loop X msg (copy_field src f m) ?later"
    using values_step[of "field_values f src" X msg f m ?later] gather[of m f src] Cons.prems(2-4) by simp
  moreover have "fmlookup (copy_field src f m) (pf_name g) = None" if "g \<in> set fs" for g
    using Cons.prems(1) Cons.prems(2)[of g] that by (auto simp: copy_field_def split: option.split)
  ultimately show ?case using Cons.IH[of "copy_field src f m"] Cons.prems by simp
qed simp

lemma message_back: "message_ok X msg v \<Longrightarrow> decode_loop X msg fmempty (protobuf_encode X msg v) = Some v"
proof (induction "size msg" arbitrary: msg v rule: less_induct)
  case less
  then obtain src where v: "v = Obj src" by (auto simp: message_ok.simps split: json.splits)
  note ok = less.prems[unfolded v message_ok.simps, simplified]
  have step: "decode_loop X msg m (encode_field X msg f w @ rest) = decode_loop X msg (add_value f w m) rest"
    if f: "f \<in> set (pm_fields msg)" and w: "w \<in> set (field_values f src)" for f w m rest
  proof (rule value_step)
    show "find_field msg (pf_number f) = Some f" using ok f find_own by blast
    show "value_ok X msg f w" using ok f w by blast
  qed (rule less.hyps)
  have "decode_loop X msg fmempty (protobuf_encode X msg v) = decode_loop X msg (fold (copy_field src) (pm_fields msg) fmempty) []"
    unfolding v protobuf_encode.simps json.case
    using ok step by (intro fields_step) auto
  then show ?case using ok copied_all[of src "pm_fields msg"] by (simp add: decode_loop.simps v)
qed

text \<open>C12: A message that the wire can hold - an object of the message's own fields, with values within the
  range of their types, text that is UTF-8, base64 in its canonical form, floats that the bytes represent,
  and nested messages of the same sort - is decoded from its encoding as it was.\<close>

theorem protobuf_round_trip:
  assumes "message_ok X msg v"
  shows "protobuf_decode X (protobuf_encode X msg v) msg = v"
  using message_back[OF assms] by (simp add: protobuf_decode_def decode_inner_def or_default_def)

definition demo_inner :: proto_message where
  "demo_inner = ProtoMessage ''Pos'' [\<lparr>pf_name = ''on'', pf_type = ''bool'', pf_number = 1, pf_repeated = False\<rparr>] []"

definition demo_message :: proto_message where
  "demo_message =
     ProtoMessage ''Reading''
       [\<lparr>pf_name = ''id'', pf_type = ''sint32'', pf_number = 1, pf_repeated = False\<rparr>,
        \<lparr>pf_name = ''name'', pf_type = ''string'', pf_number = 2, pf_repeated = False\<rparr>,
        \<lparr>pf_name = ''vs'', pf_type = ''int64'', pf_number = 3, pf_repeated = True\<rparr>,
        \<lparr>pf_name = ''pos'', pf_type = ''Pos'', pf_number = 4, pf_repeated = False\<rparr>]
       [(''Pos'', demo_inner)]"

definition demo_value :: json where
  "demo_value =
     Obj (fmupd ''pos'' (Obj (fmupd ''on'' (Bool True) fmempty))
       (fmupd ''vs'' (Arr [Number (PosInt 300), Number (NegInt (- 1))])
         (fmupd ''name'' (Str ''ab'') (fmupd ''id'' (Number (NegInt (- 5))) fmempty))))"

definition plain_text :: text_env where
  "plain_text = \<lparr>tx_f64 = (\<lambda>_. None), tx_show = (\<lambda>_. []), tx_b64 = id, tx_unb64 = Some\<rparr>"

definition plain_wire :: wire_env where
  "plain_wire =
     \<lparr>we_text = plain_text, we_parse_f32 = (\<lambda>_. None), we_lossy = id\<rparr>"

lemma demo_inner_encoded: "protobuf_encode plain_wire demo_inner (Obj (fmupd ''on'' (Bool True) fmempty)) = [8, 1]"
  by code_simp

lemma demo_inner_ok: "value_ok plain_wire demo_inner (hd (pm_fields demo_inner)) (Bool True)"
  by (simp add: value_ok.simps demo_inner_def scalar_type_def scalar_ok_def varint_types_def)

lemma demo_inner_message_ok: "message_ok plain_wire demo_inner (Obj (fmupd ''on'' (Bool True) fmempty))"
  using demo_inner_ok by (simp add: message_ok.simps demo_inner_def repeated_shape_def field_values_def)

lemma scalar_value_ok: "scalar_type (pf_type f) \<Longrightarrow> value_ok X msg f v = scalar_ok X (pf_type f) v"
  by (simp add: value_ok.simps)

lemma demo_pos_ok:
  "value_ok plain_wire demo_message \<lparr>pf_name = ''pos'', pf_type = ''Pos'', pf_number = 4, pf_repeated = False\<rparr>
     (Obj (fmupd ''on'' (Bool True) fmempty))"
proof -
  have "\<not> scalar_type ''Pos''" "map_of (pm_nested demo_message) ''Pos'' = Some demo_inner"
    by (simp_all add: scalar_type_def varint_types_def sized_types_def demo_message_def)
  then show ?thesis using demo_inner_encoded demo_inner_message_ok by (simp add: value_ok.simps)
qed

lemma demo_message_ok: "message_ok plain_wire demo_message demo_value"
  using demo_pos_ok
  by (simp add: message_ok.simps scalar_value_ok demo_message_def demo_value_def repeated_shape_def field_values_def
      scalar_type_def scalar_ok_def varint_types_def sized_types_def whole_within_def string_kept_def plain_wire_def)

theorem protobuf_round_trip_witness:
  "message_ok plain_wire demo_message demo_value \<and>
   protobuf_decode plain_wire (protobuf_encode plain_wire demo_message demo_value) demo_message = demo_value"
  using protobuf_round_trip[OF demo_message_ok] demo_message_ok by blast

subsection \<open>What is lost without an error\<close>

text \<open>A repeated number in the packed form is skipped, and a nested message that is malformed is left out of
  an otherwise good message, while the same bytes at the top fail.\<close>

lemma packed_numbers_lost: "protobuf_decode plain_wire [0x1A, 2, 1, 2] demo_message = Obj fmempty"
  by code_simp

lemma malformed_inner_lost:
  "protobuf_decode plain_wire [8, 9, 0x22, 1, 8] demo_message = Obj (fmupd ''id'' (Number (NegInt (- 5))) fmempty)"
  "protobuf_decode plain_wire [8] demo_inner = Null"
  by code_simp+

end
