(* ===== verification/Modbus.thy ===== *)
theory Modbus
  imports SinkFormat Bytes
begin

text \<open>
  Modbus (\<open>crates/rekuiper-connectors/src/modbus.rs\<close>): registers and their addresses, the coalescing of
  reads, the decoding of words, frames over TCP and RTU, one poll of the source and one write of the
  sink. What the network does is a function on a world; the order in which the hash map of function
  codes lists its keys and the texts of errors are arguments.
\<close>

subsection \<open>Checksum\<close>

definition crc_bit :: "u16 \<Rightarrow> u16" where
  "crc_bit crc = (if crc AND 1 \<noteq> 0 then drop_bit 1 crc XOR 0xA001 else drop_bit 1 crc)"

definition crc_byte :: "u16 \<Rightarrow> u8 \<Rightarrow> u16" where
  "crc_byte crc b = (crc_bit ^^ 8) (crc XOR ucast b)"

definition modbus_crc16 :: "u8 list \<Rightarrow> u16" where
  "modbus_crc16 data = foldl crc_byte 0xFFFF data"

subsection \<open>Registers\<close>

datatype byte_order = Abcd | Cdab | Badc | Dcba

definition order_parse :: "string \<Rightarrow> byte_order" where
  "order_parse s =
     (let t = to_ascii_lowercase s
      in if t = ''cdab'' then Cdab else if t = ''badc'' then Badc else if t = ''dcba'' then Dcba else Abcd)"

datatype mb_function = Coil | DiscreteInput | Holding | InputRegister

datatype mb_type = MBool | MInt16 | MUint16 | MInt32 | MUint32 | MFloat32 | MInt64 | MUint64 | MFloat64 | MString

datatype mb_error =
    UnknownFunction string | UnknownType string
  | NotFinite string u16 f64 "u16 list" | ScaledNotFinite string u16 f64 | TooFewWords string u16 nat nat
  | ConnectFailed | IoFailed
  | BadProtocol u16 | TidMismatch u16 u16 | UnitMismatch u8 u8 | BadLength u16 | ShortFrame nat | CrcMismatch u16 u16
  | EmptyPdu | ModbusException u8 | FunctionMismatch u8 u8 | NoByteCount | TruncatedData nat nat

definition function_parse :: "string \<Rightarrow> mb_error + mb_function" where
  "function_parse s =
     (let t = to_ascii_lowercase s
      in if t \<in> {''coil'', ''coils'', ''fc01'', ''1''} then Inr Coil
         else if t \<in> {''discrete'', ''discrete_input'', ''discreteinput'', ''fc02'', ''2''} then Inr DiscreteInput
         else if t \<in> {''holding'', ''holding_register'', ''holdingregister'', ''fc03'', ''3''} then Inr Holding
         else if t \<in> {''input'', ''input_register'', ''inputregister'', ''fc04'', ''4''} then Inr InputRegister
         else Inl (UnknownFunction s))"

fun function_code :: "mb_function \<Rightarrow> u8" where
  "function_code Coil = 1"
| "function_code DiscreteInput = 2"
| "function_code Holding = 3"
| "function_code InputRegister = 4"

definition is_bit_access :: "mb_function \<Rightarrow> bool" where
  "is_bit_access f \<longleftrightarrow> f = Coil \<or> f = DiscreteInput"

definition type_parse :: "string \<Rightarrow> mb_error + mb_type" where
  "type_parse s =
     (let t = to_ascii_lowercase s
      in if t \<in> {''bool'', ''boolean''} then Inr MBool
         else if t \<in> {''int16'', ''short''} then Inr MInt16
         else if t \<in> {''uint16'', ''ushort'', ''word''} then Inr MUint16
         else if t \<in> {''int32'', ''int''} then Inr MInt32
         else if t \<in> {''uint32'', ''uint'', ''dword''} then Inr MUint32
         else if t \<in> {''float32'', ''float'', ''single''} then Inr MFloat32
         else if t \<in> {''int64'', ''bigint'', ''long''} then Inr MInt64
         else if t \<in> {''uint64'', ''ubigint'', ''ulong'', ''qword''} then Inr MUint64
         else if t \<in> {''float64'', ''double''} then Inr MFloat64
         else if t \<in> {''string'', ''str''} then Inr MString
         else Inl (UnknownType s))"

fun word_count :: "mb_type \<Rightarrow> u16 option \<Rightarrow> u16" where
  "word_count MBool len = 1"
| "word_count MInt16 len = 1"
| "word_count MUint16 len = 1"
| "word_count MInt32 len = 2"
| "word_count MUint32 len = 2"
| "word_count MFloat32 len = 2"
| "word_count MInt64 len = 4"
| "word_count MUint64 len = 4"
| "word_count MFloat64 len = 4"
| "word_count MString len = max 1 (or_default len 1)"

record modbus_register =
  mr_name :: string
  mr_function :: string
  mr_address :: u16
  mr_data_type :: string
  mr_byte_order :: "string option"
  mr_scale :: "f64 option"
  mr_offset :: "f64 option"
  mr_length :: "u16 option"

record modbus_config =
  mc_transport :: string
  mc_endpoint :: string
  mc_server :: "string option"
  mc_address :: "string option"
  mc_url :: "string option"
  mc_unit_id :: u8
  mc_slave_id :: "u8 option"
  mc_timeout_ms :: u64
  mc_max_gap :: u16
  mc_byte_order :: string
  mc_address_base :: "u16 option"
  mc_plc :: bool
  mc_registers :: "modbus_register list"

definition nonblank :: "string option \<Rightarrow> string option" where
  "nonblank o' = (case o' of Some s \<Rightarrow> if str_trim s = [] then None else Some (str_trim s) | None \<Rightarrow> None)"

definition endpoint_of :: "string option \<Rightarrow> string option \<Rightarrow> string option \<Rightarrow> string \<Rightarrow> string" where
  "endpoint_of server address url endpoint =
     (case nonblank server of
        Some s \<Rightarrow> s
      | None \<Rightarrow>
          (case nonblank address of
             Some a \<Rightarrow> a
           | None \<Rightarrow> (case nonblank url of Some u \<Rightarrow> u | None \<Rightarrow> or_default (nonblank (Some endpoint)) ''127.0.0.1:502'')))"

definition config_endpoint :: "modbus_config \<Rightarrow> string" where
  "config_endpoint c = endpoint_of (mc_server c) (mc_address c) (mc_url c) (mc_endpoint c)"

definition rtu_transport :: "string \<Rightarrow> bool" where
  "rtu_transport t \<longleftrightarrow> to_ascii_lowercase t = ''rtu'' \<or> to_ascii_lowercase t = ''rtu_over_tcp''"

record prepared_register =
  pr_name :: string
  pr_function :: mb_function
  pr_address :: u16
  pr_type :: mb_type
  pr_words :: u16
  pr_order :: byte_order
  pr_scale :: "f64 option"
  pr_offset :: "f64 option"
  pr_length :: "u16 option"

definition sat_add16 :: "u16 \<Rightarrow> u16 \<Rightarrow> u16" where
  "sat_add16 a b = (if uint a + uint b < 65536 then a + b else - 1)"

definition sat_sub16 :: "u16 \<Rightarrow> u16 \<Rightarrow> u16" where
  "sat_sub16 a b = (if a < b then 0 else a - b)"

definition plc_address :: "mb_function \<Rightarrow> u16 \<Rightarrow> u16" where
  "plc_address f a =
     (if f = Holding \<and> 40001 \<le> a then a - 40001
      else if f = Holding \<and> 4001 \<le> a then a - 4001
      else if f = InputRegister \<and> 30001 \<le> a then a - 30001
      else if f = InputRegister \<and> 3001 \<le> a then a - 3001
      else if f = DiscreteInput \<and> 10001 \<le> a then a - 10001
      else if f = DiscreteInput \<and> 1001 \<le> a then a - 1001
      else if f = Coil \<and> 1 \<le> a then a - 1
      else a)"

definition based_address :: "u16 option \<Rightarrow> u16 \<Rightarrow> u16" where
  "based_address base a = (if base = Some 1 then sat_sub16 a 1 else a)"

definition from_config :: "modbus_register \<Rightarrow> byte_order \<Rightarrow> u16 option \<Rightarrow> bool \<Rightarrow> mb_error + prepared_register" where
  "from_config r order base plc =
     (case function_parse (mr_function r) of
        Inl e \<Rightarrow> Inl e
      | Inr f \<Rightarrow>
          (case type_parse (mr_data_type r) of
             Inl e \<Rightarrow> Inl e
           | Inr ty \<Rightarrow>
               Inr \<lparr>pr_name = mr_name r, pr_function = f,
                    pr_address = (if plc then plc_address f (mr_address r) else based_address base (mr_address r)),
                    pr_type = ty, pr_words = (if is_bit_access f then 1 else word_count ty (mr_length r)),
                    pr_order = (case mr_byte_order r of Some s \<Rightarrow> order_parse s | None \<Rightarrow> order),
                    pr_scale = mr_scale r, pr_offset = mr_offset r, pr_length = mr_length r\<rparr>))"

subsection \<open>Coalescing\<close>

record coalesced_range =
  cr_function :: mb_function
  cr_unit :: u8
  cr_start :: u16
  cr_quantity :: u16
  cr_registers :: "prepared_register list"

definition MAX_MODBUS_REGISTER_SPAN :: u16 where
  "MAX_MODBUS_REGISTER_SPAN = 125"

definition MAX_MODBUS_COIL_SPAN :: u16 where
  "MAX_MODBUS_COIL_SPAN = 2000"

definition max_span :: "mb_function \<Rightarrow> u16" where
  "max_span f = (if is_bit_access f then MAX_MODBUS_COIL_SPAN else MAX_MODBUS_REGISTER_SPAN)"

definition new_range :: "u8 \<Rightarrow> prepared_register \<Rightarrow> coalesced_range" where
  "new_range unit r =
     \<lparr>cr_function = pr_function r, cr_unit = unit, cr_start = pr_address r, cr_quantity = pr_words r, cr_registers = [r]\<rparr>"

definition merge_range :: "u16 \<Rightarrow> coalesced_range \<Rightarrow> prepared_register \<Rightarrow> coalesced_range option" where
  "merge_range max_gap cur r =
     (let curr_end = sat_add16 (cr_start cur) (cr_quantity cur);
          proposed_end = max curr_end (sat_add16 (pr_address r) (pr_words r));
          proposed_span = sat_sub16 proposed_end (cr_start cur)
      in if pr_address r \<le> sat_add16 curr_end max_gap \<and> proposed_span \<le> max_span (pr_function r)
         then Some (cur\<lparr>cr_quantity := proposed_span, cr_registers := cr_registers cur @ [r]\<rparr>) else None)"

fun coalesce_loop :: "u8 \<Rightarrow> u16 \<Rightarrow> coalesced_range option \<Rightarrow> prepared_register list \<Rightarrow> coalesced_range list" where
  "coalesce_loop unit gap None [] = []"
| "coalesce_loop unit gap (Some c) [] = [c]"
| "coalesce_loop unit gap None (r # rs) = coalesce_loop unit gap (Some (new_range unit r)) rs"
| "coalesce_loop unit gap (Some c) (r # rs) =
     (case merge_range gap c r of
        Some c' \<Rightarrow> coalesce_loop unit gap (Some c') rs
      | None \<Rightarrow> c # coalesce_loop unit gap (Some (new_range unit r)) rs)"

definition coalesce_registers :: "u8 list \<Rightarrow> prepared_register list \<Rightarrow> u8 \<Rightarrow> u16 \<Rightarrow> coalesced_range list" where
  "coalesce_registers codes registers unit gap =
     sort_key (\<lambda>c. uint (function_code (cr_function c)) * 65536 + uint (cr_start c))
       (concat (map (\<lambda>k. coalesce_loop unit gap None
          (sort_key pr_address (filter (\<lambda>r. function_code (pr_function r) = k) registers))) codes))"

subsection \<open>Decoding\<close>

definition high_byte :: "u16 \<Rightarrow> u8" where
  "high_byte w = ucast (drop_bit 8 w)"

definition low_byte :: "u16 \<Rightarrow> u8" where
  "low_byte w = ucast w"

definition word_bytes :: "u16 list \<Rightarrow> u8 list" where
  "word_bytes ws = concat (map (\<lambda>w. [high_byte w, low_byte w]) ws)"

definition be_value :: "u8 list \<Rightarrow> u64" where
  "be_value bs = le_value (rev bs)"

fun order_bytes :: "byte_order \<Rightarrow> u8 list \<Rightarrow> u8 list" where
  "order_bytes Abcd bs = bs"
| "order_bytes Cdab (a # b # c # d # bs) = c # d # a # b # order_bytes Cdab bs"
| "order_bytes Badc (a # b # bs) = b # a # order_bytes Badc bs"
| "order_bytes Dcba bs = rev bs"
| "order_bytes ord' bs = bs"

text \<open>A single word is swapped by the two orders that swap the bytes of a word.\<close>

definition single_bytes :: "byte_order \<Rightarrow> u16 \<Rightarrow> u8 list" where
  "single_bytes ord' w = (if ord' = Badc \<or> ord' = Dcba then [low_byte w, high_byte w] else [high_byte w, low_byte w])"

definition apply_math :: "prepared_register \<Rightarrow> u16 list \<Rightarrow> f64 \<Rightarrow> mb_error + f64" where
  "apply_math r ws v =
     (if \<not> is_finite v then Inl (NotFinite (pr_name r) (pr_address r) v ws)
      else (let scaled = (case pr_scale r of Some s \<Rightarrow> f64_mul v s | None \<Rightarrow> v);
                shifted = (case pr_offset r of Some off \<Rightarrow> f64_add scaled off | None \<Rightarrow> scaled)
            in if \<not> is_finite shifted then Inl (ScaledNotFinite (pr_name r) (pr_address r) shifted) else Inr shifted))"

definition whole_value :: "prepared_register \<Rightarrow> u16 list \<Rightarrow> int \<Rightarrow> mb_error + json" where
  "whole_value r ws i =
     (case apply_math r ws (f64_of_int i) of
        Inl e \<Rightarrow> Inl e
      | Inr v \<Rightarrow> Inr (if pr_scale r = None \<and> pr_offset r = None then of_i64 i else of_f64 v))"

definition float_result :: "prepared_register \<Rightarrow> u16 list \<Rightarrow> f64 \<Rightarrow> mb_error + json" where
  "float_result r ws x = (case apply_math r ws x of Inl e \<Rightarrow> Inl e | Inr v \<Rightarrow> Inr (of_f64 v))"

text \<open>\<open>c as char\<close> of a byte, as UTF-8.\<close>

definition byte_char :: "u8 \<Rightarrow> string" where
  "byte_char b =
     (if b < 128 then [char_of (unat b)]
      else [char_of (192 + unat (drop_bit 6 b)), char_of (128 + unat (b AND 63))])"

definition word_text :: "byte_order \<Rightarrow> u16 \<Rightarrow> string" where
  "word_text ord' w = concat (map (\<lambda>b. if b = 0 then [] else byte_char b) (single_bytes ord' w))"

definition first_word :: "u16 list \<Rightarrow> u16" where
  "first_word ws = (case ws of w # _ \<Rightarrow> w | [] \<Rightarrow> 0)"

definition two_words :: "prepared_register \<Rightarrow> u16 list \<Rightarrow> (u64 \<Rightarrow> mb_error + json) \<Rightarrow> mb_error + json" where
  "two_words r ws f =
     (if length ws < 2 then Inl (TooFewWords (pr_name r) (pr_address r) 2 (length ws))
      else f (be_value (order_bytes (pr_order r) (word_bytes (take 2 ws)))))"

definition four_words :: "prepared_register \<Rightarrow> u16 list \<Rightarrow> (u64 \<Rightarrow> mb_error + json) \<Rightarrow> mb_error + json" where
  "four_words r ws f =
     (if length ws < 4 then Inl (TooFewWords (pr_name r) (pr_address r) 4 (length ws))
      else f (be_value (order_bytes (pr_order r) (word_bytes (take 4 ws)))))"

definition decode_register_value :: "prepared_register \<Rightarrow> u16 list \<Rightarrow> mb_error + json" where
  "decode_register_value r ws =
     (case pr_type r of
        MBool \<Rightarrow> Inr (Bool (first_word ws \<noteq> 0))
      | MInt16 \<Rightarrow> whole_value r ws (sint (ucast (be_value (single_bytes (pr_order r) (first_word ws))) :: 16 word))
      | MUint16 \<Rightarrow> whole_value r ws (uint (be_value (single_bytes (pr_order r) (first_word ws))))
      | MInt32 \<Rightarrow> two_words r ws (\<lambda>v. whole_value r ws (sint (ucast v :: 32 word)))
      | MUint32 \<Rightarrow> two_words r ws (\<lambda>v. whole_value r ws (uint v))
      | MFloat32 \<Rightarrow> two_words r ws (\<lambda>v. float_result r ws (f32_as_f64 (float_of_bits 23 8 (- 149) (uint v))))
      | MInt64 \<Rightarrow> four_words r ws (\<lambda>v. whole_value r ws (sint v))
      | MUint64 \<Rightarrow> four_words r ws (\<lambda>v. whole_value r ws (uint v))
      | MFloat64 \<Rightarrow> four_words r ws (\<lambda>v. float_result r ws (float_of_bits 52 11 (- 1074) (uint v)))
      | MString \<Rightarrow> Inr (Str (concat (map (word_text (pr_order r)) ws))))"

subsection \<open>Frames\<close>

definition be16 :: "u16 \<Rightarrow> u8 list" where
  "be16 w = [high_byte w, low_byte w]"

definition of_be16 :: "u8 \<Rightarrow> u8 \<Rightarrow> u16" where
  "of_be16 hi lo = push_bit 8 (ucast hi) OR ucast lo"

definition mbap_frame :: "u16 \<Rightarrow> u8 \<Rightarrow> u8 list \<Rightarrow> u8 list" where
  "mbap_frame tid unit pdu = be16 tid @ [0, 0] @ be16 (of_nat (length pdu + 1)) @ [unit] @ pdu"

text \<open>The header and the body are read exactly; what is left stays in the stream.\<close>

definition mbap_response :: "u16 \<Rightarrow> u8 \<Rightarrow> u8 list \<Rightarrow> mb_error + (u8 list \<times> u8 list)" where
  "mbap_response tid unit bs =
     (if length bs < 7 then Inl IoFailed
      else (let resp_tid = of_be16 (bs ! 0) (bs ! 1); proto = of_be16 (bs ! 2) (bs ! 3);
                resp_len = of_be16 (bs ! 4) (bs ! 5); resp_unit = bs ! 6; body = drop 7 bs; n = unat (resp_len - 1)
            in if proto \<noteq> 0 then Inl (BadProtocol proto)
               else if resp_tid \<noteq> tid then Inl (TidMismatch tid resp_tid)
               else if resp_unit \<noteq> unit then Inl (UnitMismatch unit resp_unit)
               else if resp_len < 2 then Inl (BadLength resp_len)
               else if length body < n then Inl IoFailed
               else Inr (take n body, drop n body)))"

definition rtu_frame :: "u8 \<Rightarrow> u8 list \<Rightarrow> u8 list" where
  "rtu_frame unit pdu = (let crc = modbus_crc16 (unit # pdu) in (unit # pdu) @ [low_byte crc, high_byte crc])"

text \<open>What one read returned.\<close>

definition rtu_response :: "u8 \<Rightarrow> u8 list \<Rightarrow> mb_error + u8 list" where
  "rtu_response unit bs =
     (let n = length bs in
      if n < 4 then Inl (ShortFrame n)
      else (let payload = take (n - 2) bs; resp_crc = of_be16 (bs ! (n - 1)) (bs ! (n - 2)); calc_crc = modbus_crc16 payload
            in if resp_crc \<noteq> calc_crc then Inl (CrcMismatch resp_crc calc_crc)
               else if payload ! 0 \<noteq> unit then Inl (UnitMismatch unit (payload ! 0))
               else Inr (drop 1 payload)))"

text \<open>The network: connecting, and the pieces of bytes that arrive after a frame is sent and before the
  timeout, or nothing if the send fails.\<close>

record 'w modbus_net =
  ne_connect :: "'w \<Rightarrow> bool \<times> 'w"
  ne_send :: "'w \<Rightarrow> u8 list \<Rightarrow> u8 list list option \<times> 'w"

text \<open>The client holds the arrived that have arrived and were not read, if it is connected.\<close>

record modbus_client =
  cl_stream :: "u8 list list option"
  cl_endpoint :: string
  cl_rtu :: bool
  cl_timeout :: int
  cl_tid :: u16

definition client_new :: "string \<Rightarrow> bool \<Rightarrow> u64 \<Rightarrow> modbus_client" where
  "client_new endpoint rtu timeout_ms =
     \<lparr>cl_stream = None, cl_endpoint = endpoint, cl_rtu = rtu, cl_timeout = max (uint timeout_ms) 100, cl_tid = 1\<rparr>"

definition disconnect :: "modbus_client \<Rightarrow> modbus_client" where
  "disconnect c = c\<lparr>cl_stream := None\<rparr>"

definition ensure_connected :: "'w modbus_net \<Rightarrow> modbus_client \<Rightarrow> 'w \<Rightarrow> bool \<times> modbus_client \<times> 'w" where
  "ensure_connected N c w =
     (case cl_stream c of
        Some _ \<Rightarrow> (True, c, w)
      | None \<Rightarrow> (case ne_connect N w of (True, w) \<Rightarrow> (True, c\<lparr>cl_stream := Some []\<rparr>, w) | (False, w) \<Rightarrow> (False, c, w)))"

text \<open>The stream after the read, or the error.\<close>

definition read_tcp :: "u16 \<Rightarrow> u8 \<Rightarrow> u8 list list \<Rightarrow> mb_error + (u8 list \<times> u8 list list)" where
  "read_tcp tid unit arrived =
     (case mbap_response tid unit (concat arrived) of Inl e \<Rightarrow> Inl e | Inr (pdu, rest) \<Rightarrow> Inr (pdu, [rest]))"

definition read_rtu :: "u8 \<Rightarrow> u8 list list \<Rightarrow> mb_error + (u8 list \<times> u8 list list)" where
  "read_rtu unit arrived =
     (case filter (\<lambda>ch. ch \<noteq> []) arrived of
        [] \<Rightarrow> Inl IoFailed
      | ch # chs \<Rightarrow>
          (case rtu_response unit (take 256 ch) of Inl e \<Rightarrow> Inl e | Inr pdu \<Rightarrow> Inr (pdu, drop 256 ch # chs)))"

definition send_and_recv ::
  "'w modbus_net \<Rightarrow> u8 list \<Rightarrow> (u8 list list \<Rightarrow> mb_error + (u8 list \<times> u8 list list)) \<Rightarrow> modbus_client \<Rightarrow> 'w
    \<Rightarrow> (mb_error + u8 list) \<times> modbus_client \<times> 'w" where
  "send_and_recv N frame receive c w =
     (case ensure_connected N c w of
        (False, c, w) \<Rightarrow> (Inl ConnectFailed, disconnect c, w)
      | (True, c, w) \<Rightarrow>
          (case ne_send N w frame of
             (None, w) \<Rightarrow> (Inl IoFailed, disconnect c, w)
           | (Some arrived, w) \<Rightarrow>
               (case receive (or_default (cl_stream c) [] @ arrived) of
                  Inl e \<Rightarrow> (Inl e, disconnect c, w)
                | Inr (pdu, rest) \<Rightarrow> (Inr pdu, c\<lparr>cl_stream := Some rest\<rparr>, w))))"

definition write_pdu :: "'w modbus_net \<Rightarrow> u8 \<Rightarrow> u8 list \<Rightarrow> modbus_client \<Rightarrow> 'w \<Rightarrow> (mb_error + u8 list) \<times> modbus_client \<times> 'w" where
  "write_pdu N unit pdu c w =
     (let tid = cl_tid c; c = c\<lparr>cl_tid := tid + 1\<rparr>
      in if cl_rtu c then send_and_recv N (rtu_frame unit pdu) (read_rtu unit) c w
         else send_and_recv N (mbap_frame tid unit pdu) (read_tcp tid unit) c w)"

definition read_pdu :: "coalesced_range \<Rightarrow> u8 list" where
  "read_pdu cr = function_code (cr_function cr) # be16 (cr_start cr) @ be16 (cr_quantity cr)"

definition bit_word :: "u8 list \<Rightarrow> nat \<Rightarrow> u16" where
  "bit_word bs i = (if i div 8 < length bs then of_bool (bit (bs ! (i div 8)) (i mod 8)) else 0)"

fun be_words :: "u8 list \<Rightarrow> u16 list" where
  "be_words (hi # lo # bs) = of_be16 hi lo # be_words bs"
| "be_words bs = []"

definition read_response :: "coalesced_range \<Rightarrow> u8 list \<Rightarrow> mb_error + u16 list" where
  "read_response cr pdu =
     (case pdu of
        [] \<Rightarrow> Inl EmptyPdu
      | fc # args \<Rightarrow>
          if fc AND 0x80 \<noteq> 0 then Inl (ModbusException (case args of exc # _ \<Rightarrow> exc | [] \<Rightarrow> 0))
          else if fc \<noteq> function_code (cr_function cr) then Inl (FunctionMismatch (function_code (cr_function cr)) fc)
          else (case args of
                  [] \<Rightarrow> Inl NoByteCount
                | n # bytes \<Rightarrow>
                    if length bytes < unat n then Inl (TruncatedData (unat n) (length bytes))
                    else if is_bit_access (cr_function cr) then Inr (map (bit_word bytes) [0..<unat (cr_quantity cr)])
                    else Inr (be_words (take (unat n) bytes))))"

definition read_range :: "'w modbus_net \<Rightarrow> coalesced_range \<Rightarrow> modbus_client \<Rightarrow> 'w \<Rightarrow> (mb_error + u16 list) \<times> modbus_client \<times> 'w" where
  "read_range N cr c w =
     (case write_pdu N (cr_unit cr) (read_pdu cr) c w of
        (Inl e, c, w) \<Rightarrow> (Inl e, c, w)
      | (Inr pdu, c, w) \<Rightarrow> (read_response cr pdu, c, w))"

subsection \<open>Reading the registers\<close>

definition register_words :: "coalesced_range \<Rightarrow> prepared_register \<Rightarrow> u16 list \<Rightarrow> u16 list option" where
  "register_words cr r ws =
     (let off = unat (sat_sub16 (pr_address r) (cr_start cr)); end' = off + unat (pr_words r)
      in if end' \<le> length ws then Some (take (unat (pr_words r)) (drop off ws)) else None)"

fun snapshot_range :: "coalesced_range \<Rightarrow> u16 list \<Rightarrow> prepared_register list \<Rightarrow> row \<Rightarrow> mb_error + row" where
  "snapshot_range cr ws [] m = Inr m"
| "snapshot_range cr ws (r # rs) m =
     (case register_words cr r ws of
        None \<Rightarrow> snapshot_range cr ws rs m
      | Some own \<Rightarrow>
          (case decode_register_value r own of
             Inl e \<Rightarrow> Inl e
           | Inr v \<Rightarrow> snapshot_range cr ws rs (fmupd (pr_name r) v m)))"

fun snapshot_loop :: "'w modbus_net \<Rightarrow> coalesced_range list \<Rightarrow> modbus_client \<Rightarrow> 'w \<Rightarrow> row \<Rightarrow> (mb_error + row) \<times> 'w" where
  "snapshot_loop N [] c w m = (Inr m, w)"
| "snapshot_loop N (cr # crs) c w m =
     (case read_range N cr c w of
        (Inl e, c, w) \<Rightarrow> (Inl e, w)
      | (Inr ws, c, w) \<Rightarrow>
          (case snapshot_range cr ws (cr_registers cr) m of
             Inl e \<Rightarrow> (Inl e, w)
           | Inr m \<Rightarrow> snapshot_loop N crs c w m))"

fun collect :: "(mb_error + 'a) list \<Rightarrow> mb_error + 'a list" where
  "collect [] = Inr []"
| "collect (Inl e # xs) = Inl e"
| "collect (Inr x # xs) = (case collect xs of Inl e \<Rightarrow> Inl e | Inr ys \<Rightarrow> Inr (x # ys))"

definition prepare :: "modbus_config \<Rightarrow> mb_error + prepared_register list" where
  "prepare cfg =
     collect (map (\<lambda>r. from_config r (order_parse (mc_byte_order cfg)) (mc_address_base cfg) (mc_plc cfg)) (mc_registers cfg))"

definition poll_plan :: "u8 list \<Rightarrow> modbus_config \<Rightarrow> prepared_register list \<Rightarrow> coalesced_range list" where
  "poll_plan codes cfg rs = coalesce_registers codes rs (or_default (mc_slave_id cfg) (mc_unit_id cfg)) (mc_max_gap cfg)"

definition config_client :: "modbus_config \<Rightarrow> modbus_client" where
  "config_client cfg = client_new (config_endpoint cfg) (rtu_transport (mc_transport cfg)) (mc_timeout_ms cfg)"

definition modbus_read_snapshot :: "'w modbus_net \<Rightarrow> u8 list \<Rightarrow> modbus_config \<Rightarrow> 'w \<Rightarrow> (mb_error + row) \<times> 'w" where
  "modbus_read_snapshot N codes cfg w =
     (case prepare cfg of
        Inl e \<Rightarrow> (Inl e, w)
      | Inr rs \<Rightarrow> snapshot_loop N (poll_plan codes cfg rs) (config_client cfg) w fmempty)"

datatype poll_error = PollFailure u16 mb_error | DecodeFailure mb_error

record polled =
  po_record :: row
  po_errors :: "poll_error list"
  po_raw :: "u8 list"

fun poll_registers :: "coalesced_range \<Rightarrow> u16 list \<Rightarrow> prepared_register list \<Rightarrow> polled \<Rightarrow> polled" where
  "poll_registers cr ws [] p = p"
| "poll_registers cr ws (r # rs) p =
     poll_registers cr ws rs
       (case register_words cr r ws of
          None \<Rightarrow> p
        | Some own \<Rightarrow>
            (case decode_register_value r own of
               Inl e \<Rightarrow> p\<lparr>po_errors := po_errors p @ [DecodeFailure e]\<rparr>
             | Inr v \<Rightarrow> p\<lparr>po_record := fmupd (pr_name r) v (po_record p)\<rparr>))"

fun poll_loop :: "'w modbus_net \<Rightarrow> coalesced_range list \<Rightarrow> modbus_client \<Rightarrow> 'w \<Rightarrow> polled \<Rightarrow> polled \<times> modbus_client \<times> 'w" where
  "poll_loop N [] c w p = (p, c, w)"
| "poll_loop N (cr # crs) c w p =
     (case read_range N cr c w of
        (Inl e, c, w) \<Rightarrow> poll_loop N crs c w (p\<lparr>po_errors := po_errors p @ [PollFailure (cr_start cr) e]\<rparr>)
      | (Inr ws, c, w) \<Rightarrow>
          poll_loop N crs c w (poll_registers cr ws (cr_registers cr) (p\<lparr>po_raw := po_raw p @ word_bytes ws\<rparr>)))"

definition hex_digit :: "nat \<Rightarrow> char" where
  "hex_digit n = (if n < 10 then char_of (48 + n) else char_of (55 + n))"

definition hex_byte :: "u8 \<Rightarrow> string" where
  "hex_byte b = [hex_digit (unat b div 16), hex_digit (unat b mod 16)]"

fun show_poll_error :: "(mb_error \<Rightarrow> string) \<Rightarrow> poll_error \<Rightarrow> string" where
  "show_poll_error show_error (PollFailure a e) = ''Modbus poll failure at address '' @ digits (unat a) @ '': '' @ show_error e"
| "show_poll_error show_error (DecodeFailure e) = show_error e"

text \<open>The record a poll sends, if any.\<close>

definition poll_output :: "(mb_error \<Rightarrow> string) \<Rightarrow> polled \<Rightarrow> row option" where
  "poll_output show_error p =
     (if po_errors p \<noteq> [] then
        Some (fmupd ''__raw_payload__'' (Str (''raw Modbus bytes: ['' @ join_with '' '' (map hex_byte (po_raw p)) @ '']''))
          (fmupd ''__raw_error__'' (Str (join_with ''; '' (map (show_poll_error show_error) (po_errors p)))) fmempty))
      else if po_record p = fmempty then None else Some (po_record p))"

definition modbus_poll ::
  "'w modbus_net \<Rightarrow> (mb_error \<Rightarrow> string) \<Rightarrow> coalesced_range list \<Rightarrow> modbus_client \<Rightarrow> 'w \<Rightarrow> row option \<times> modbus_client \<times> 'w" where
  "modbus_poll N show_error crs c w =
     (case poll_loop N crs c w \<lparr>po_record = fmempty, po_errors = [], po_raw = []\<rparr> of
        (p, c, w) \<Rightarrow> (poll_output show_error p, c, w))"

subsection \<open>Writing\<close>

record modbus_sink_config =
  ms_transport :: string
  ms_endpoint :: string
  ms_server :: "string option"
  ms_address :: "string option"
  ms_url :: "string option"
  ms_unit_id :: u8
  ms_slave_id :: "u8 option"
  ms_timeout_ms :: u64
  ms_byte_order :: string
  ms_address_base :: "u16 option"
  ms_plc :: bool
  ms_function :: string
  ms_register_address :: u16
  ms_data_type :: string
  ms_field :: "string option"

definition sink_client :: "modbus_sink_config \<Rightarrow> modbus_client" where
  "sink_client g =
     client_new (endpoint_of (ms_server g) (ms_address g) (ms_url g) (ms_endpoint g)) (rtu_transport (ms_transport g)) (ms_timeout_ms g)"

definition sink_address :: "modbus_sink_config \<Rightarrow> u16" where
  "sink_address g =
     (let a = ms_register_address g
      in if ms_plc g then (if 40001 \<le> a then a - 40001 else if 1 \<le> a then a - 1 else a)
         else based_address (ms_address_base g) a)"

datatype mb_sink_error = BadConfig mb_error | NonFiniteWrite f64 | EmptyWriteResponse | WriteException u8 u16 | WriteFailed mb_error

definition word_of_value :: "json \<Rightarrow> u16" where
  "word_of_value v =
     word_of_int (case as_i64 v of Some i \<Rightarrow> i | None \<Rightarrow> f64_as_i64 (or_default (as_f64 v) fzero))"

definition coil_value :: "json \<Rightarrow> bool" where
  "coil_value v = (case as_bool v of Some b \<Rightarrow> b | None \<Rightarrow> or_default (as_i64 v) 0 \<noteq> 0)"

definition sink_pdu :: "modbus_sink_config \<Rightarrow> json \<Rightarrow> mb_sink_error + u8 list" where
  "sink_pdu g v =
     (let addr = be16 (sink_address g); ord' = order_parse (ms_byte_order g)
      in if to_ascii_lowercase (ms_function g) = ''coil'' then Inr (5 # addr @ be16 (if coil_value v then 0xFF00 else 0))
         else (case type_parse (ms_data_type g) of
                 Inl e \<Rightarrow> Inl (BadConfig e)
               | Inr ty \<Rightarrow>
                   if ty = MInt16 \<or> ty = MUint16 then Inr (6 # addr @ single_bytes ord' (word_of_value v))
                   else if ty = MFloat32 then
                     (let x = as_f32 (or_default (as_f64 v) fzero)
                      in if \<not> is_finite x then Inl (NonFiniteWrite x)
                         else Inr (0x10 # addr @ [0, 2, 4] @ order_bytes ord' (rev (f32_bytes x))))
                   else Inr (6 # addr @ be16 (word_of_value v))))"

definition write_response :: "u16 \<Rightarrow> u8 list \<Rightarrow> (bool \<times> mb_sink_error) + unit" where
  "write_response addr pdu =
     (case pdu of
        [] \<Rightarrow> Inl (False, EmptyWriteResponse)
      | fc # args \<Rightarrow>
          if fc AND 0x80 \<noteq> 0 then
            (let exc = (case args of x # _ \<Rightarrow> x | [] \<Rightarrow> 0) in Inl (1 \<le> exc \<and> exc \<le> 3, WriteException exc addr))
          else Inr ())"

definition sink_value :: "modbus_sink_config \<Rightarrow> row \<Rightarrow> json option" where
  "sink_value g m =
     (case fmlookup m (or_default (ms_field g) ''value'') of Some v \<Rightarrow> Some v | None \<Rightarrow> fmlookup m ''val'')"

definition write_record ::
  "'w modbus_net \<Rightarrow> modbus_sink_config \<Rightarrow> row \<Rightarrow> modbus_client \<Rightarrow> 'w
    \<Rightarrow> ((bool \<times> mb_sink_error) + unit) \<times> modbus_client \<times> 'w" where
  "write_record N g m c w =
     (case sink_value g m of
        None \<Rightarrow> (Inr (), c, w)
      | Some v \<Rightarrow>
          (case sink_pdu g v of
             Inl e \<Rightarrow> (Inl (True, e), c, w)
           | Inr pdu \<Rightarrow>
               (case write_pdu N (or_default (ms_slave_id g) (ms_unit_id g)) pdu c w of
                  (Inl e, c, w) \<Rightarrow> (Inl (False, WriteFailed e), c, w)
                | (Inr resp, c, w) \<Rightarrow> (write_response (sink_address g) resp, c, w))))"

end
