(* ===== verification/Modbus_Props.thy ===== *)
theory Modbus_Props
  imports Modbus "HOL-Library.Multiset"
begin

text \<open>
  What the parts of the Modbus connector promise: coalesced ranges cover their registers within the limits
  of a request, and damaged frames are refused.
\<close>

subsection \<open>Coalescing\<close>

text \<open>The ranges hold each register once, cover it, and keep within the limits of a request.\<close>

lemma unat_sat_add16: "unat (sat_add16 a b) = min 65535 (unat a + unat b)"
proof -
  have "uint a + uint b = int (unat a + unat b)" by (simp only: uint_nat of_nat_add)
  then have e: "uint a + uint b < 65536 \<longleftrightarrow> unat a + unat b < 65536" by (simp only: of_nat_less_numeral_iff)
  show ?thesis
  proof (cases "unat a + unat b < 65536")
    case True
    then have "sat_add16 a b = a + b" unfolding sat_add16_def e by simp
    with True show ?thesis by (simp add: unat_word_ariths)
  next
    case False
    then have "sat_add16 a b = - 1" unfolding sat_add16_def e by simp
    with False show ?thesis by (simp add: unsigned_minus_1_eq_mask mask_eq_exp_minus_1)
  qed
qed

lemma unat_sat_sub16: "unat (sat_sub16 a b) = unat a - unat b"
  by (simp add: sat_sub16_def unat_sub word_less_nat_alt word_le_nat_alt)

lemma unat_max_word: "unat (max a b) = max (unat a) (unat b)" for a b :: u16
  by (simp add: max_def word_le_nat_alt)

text \<open>A register whose words lie within the address space, less its last address, and within one request.\<close>

definition register_fits :: "prepared_register \<Rightarrow> bool" where
  "register_fits r \<longleftrightarrow> 0 < unat (pr_words r) \<and> pr_words r \<le> max_span (pr_function r) \<and> unat (pr_address r) + unat (pr_words r) < 65536"

definition covers :: "coalesced_range \<Rightarrow> prepared_register \<Rightarrow> bool" where
  "covers c r \<longleftrightarrow>
     pr_function r = cr_function c \<and> cr_start c \<le> pr_address r \<and>
     unat (pr_address r) + unat (pr_words r) \<le> unat (cr_start c) + unat (cr_quantity c)"

definition range_ok :: "u8 \<Rightarrow> coalesced_range \<Rightarrow> bool" where
  "range_ok unit c \<longleftrightarrow>
     cr_unit c = unit \<and> 0 < unat (cr_quantity c) \<and> cr_quantity c \<le> max_span (cr_function c) \<and>
     unat (cr_start c) + unat (cr_quantity c) < 65536 \<and> cr_registers c \<noteq> [] \<and> list_all (covers c) (cr_registers c)"

lemma new_range_ok: "register_fits r \<Longrightarrow> range_ok unit (new_range unit r)"
  by (simp add: register_fits_def range_ok_def new_range_def covers_def)

lemma merge_range_ok:
  assumes "range_ok unit c" "register_fits r" "pr_function r = cr_function c" "cr_start c \<le> pr_address r" "merge_range gap c r = Some c'"
  shows "range_ok unit c'" "cr_registers c' = cr_registers c @ [r]" "cr_start c' = cr_start c" "cr_function c' = cr_function c"
proof -
  define span where "span = sat_sub16 (max (sat_add16 (cr_start c) (cr_quantity c)) (sat_add16 (pr_address r) (pr_words r))) (cr_start c)"
  have c': "c' = c\<lparr>cr_quantity := span, cr_registers := cr_registers c @ [r]\<rparr>" and le: "span \<le> max_span (pr_function r)"
    using assms(5) by (auto simp: merge_range_def Let_def span_def split: if_splits)
  have "unat (sat_add16 (cr_start c) (cr_quantity c)) = unat (cr_start c) + unat (cr_quantity c)"
    "unat (sat_add16 (pr_address r) (pr_words r)) = unat (pr_address r) + unat (pr_words r)"
    using assms(1,2) by (simp_all add: unat_sat_add16 range_ok_def register_fits_def)
  then have "unat span = max (unat (cr_start c) + unat (cr_quantity c)) (unat (pr_address r) + unat (pr_words r)) - unat (cr_start c)"
    by (simp add: span_def unat_sat_sub16 unat_max_word)
  then have n: "unat (cr_start c) + unat span = max (unat (cr_start c) + unat (cr_quantity c)) (unat (pr_address r) + unat (pr_words r))"
    by simp
  have "0 < unat span" using n assms(1) by (simp add: range_ok_def max_def split: if_splits)
  then show "range_ok unit c'"
    using assms(1-4) le n unfolding c' by (auto simp: range_ok_def covers_def register_fits_def list_all_iff)
  show "cr_registers c' = cr_registers c @ [r]" "cr_start c' = cr_start c" "cr_function c' = cr_function c" by (simp_all add: c')
qed

lemma coalesce_loop_ok:
  assumes "list_all (\<lambda>r. register_fits r \<and> pr_function r = f) rs" "sorted (map pr_address rs)"
    "\<And>c'. c = Some c' \<Longrightarrow> range_ok unit c' \<and> cr_function c' = f \<and> list_all (\<lambda>r. cr_start c' \<le> pr_address r) rs"
  shows "list_all (\<lambda>c'. range_ok unit c' \<and> cr_function c' = f) (coalesce_loop unit gap c rs) \<and>
    concat (map cr_registers (coalesce_loop unit gap c rs)) = (case c of Some c' \<Rightarrow> cr_registers c' | None \<Rightarrow> []) @ rs"
  using assms
proof (induction unit gap c rs rule: coalesce_loop.induct)
  case (3 unit gap r rs)
  then have "list_all (\<lambda>q. cr_start (new_range unit r) \<le> pr_address q) rs" by (auto simp: new_range_def list_all_iff)
  moreover have "range_ok unit (new_range unit r)" "cr_function (new_range unit r) = f" "cr_registers (new_range unit r) = [r]"
    using 3 by (auto simp: new_range_ok) (simp_all add: new_range_def)
  ultimately show ?case using 3 by simp
next
  case (4 unit gap c r rs)
  then have c: "range_ok unit c" "cr_function c = f" "cr_start c \<le> pr_address r" "list_all (\<lambda>q. cr_start c \<le> pr_address q) rs"
    and r: "register_fits r" "pr_function r = f" by auto
  show ?case
  proof (cases "merge_range gap c r")
    case None
    have "list_all (\<lambda>q. cr_start (new_range unit r) \<le> pr_address q) rs" using 4 by (auto simp: new_range_def list_all_iff)
    moreover have "range_ok unit (new_range unit r)" "cr_function (new_range unit r) = f" "cr_registers (new_range unit r) = [r]"
      using r by (auto simp: new_range_ok) (simp_all add: new_range_def)
    ultimately show ?thesis using 4 None c by simp
  next
    case (Some c')
    note m = merge_range_ok[OF c(1) r(1) _ c(3) Some, unfolded r(2) c(2), OF refl]
    then show ?thesis using 4 Some c(4) by simp
  qed
qed auto

lemma distinct_filters:
  assumes "distinct ks" "g ` set xs \<subseteq> set ks"
  shows "mset (concat (map (\<lambda>k. filter (\<lambda>x. g x = k) xs) ks)) = mset xs"
  using assms(2)
proof (induction xs)
  case Nil
  then show ?case by auto
next
  case (Cons x xs)
  have "mset (concat (map (\<lambda>k. filter (\<lambda>y. g y = k) (x # xs)) ks))
    = mset (concat (map (\<lambda>k. filter (\<lambda>y. g y = k) [x]) ks)) + mset (concat (map (\<lambda>k. filter (\<lambda>y. g y = k) xs) ks))"
    by (induction ks) auto
  moreover have "mset (concat (map (\<lambda>k. filter (\<lambda>y. g y = k) [x]) ks)) = {#x#}"
  proof -
    have "g x \<in> set ks" using Cons.prems by simp
    with assms(1) show ?thesis by (induction ks) (auto simp: filter_empty_conv)
  qed
  ultimately show ?case using Cons by simp
qed

definition lists_codes :: "u8 list \<Rightarrow> prepared_register list \<Rightarrow> bool" where
  "lists_codes codes rs \<longleftrightarrow> distinct codes \<and> set codes = (\<lambda>r. function_code (pr_function r)) ` set rs"

lemma function_code_inj: "function_code f = function_code g \<longleftrightarrow> f = g"
  by (cases f; cases g) simp_all

lemma coalesced_group:
  assumes "list_all register_fits rs"
  shows "list_all (range_ok unit) (coalesce_loop unit gap None (sort_key pr_address (filter (\<lambda>r. function_code (pr_function r) = k) rs))) \<and>
    concat (map cr_registers (coalesce_loop unit gap None (sort_key pr_address (filter (\<lambda>r. function_code (pr_function r) = k) rs))))
      = sort_key pr_address (filter (\<lambda>r. function_code (pr_function r) = k) rs)"
proof (cases "filter (\<lambda>r. function_code (pr_function r) = k) rs")
  case (Cons q qs)
  let ?g = "filter (\<lambda>r. function_code (pr_function r) = k) rs"
  have "q \<in> set ?g" using Cons by simp
  then have "list_all (\<lambda>r. register_fits r \<and> pr_function r = pr_function q) (sort_key pr_address ?g)"
    using assms by (auto simp: list_all_iff function_code_inj)
  from coalesce_loop_ok[OF this, of None unit gap] show ?thesis by (simp add: list_all_iff)
qed simp

lemma coalesced_ok:
  assumes "list_all register_fits rs" "lists_codes codes rs"
  shows "list_all (range_ok unit) (coalesce_registers codes rs unit gap)"
    "mset (concat (map cr_registers (coalesce_registers codes rs unit gap))) = mset rs"
proof -
  let ?parts = "map (\<lambda>k. coalesce_loop unit gap None (sort_key pr_address (filter (\<lambda>r. function_code (pr_function r) = k) rs))) codes"
  show "list_all (range_ok unit) (coalesce_registers codes rs unit gap)"
    using coalesced_group[OF assms(1), of unit gap] by (auto simp: coalesce_registers_def list_all_iff)
  have "mset (concat (map cr_registers (coalesce_registers codes rs unit gap))) = mset (concat (map cr_registers (concat ?parts)))"
    by (simp add: coalesce_registers_def mset_concat flip: sum_mset_sum_list)
  also have "concat (map cr_registers (concat ?parts))
    = concat (map (\<lambda>k. sort_key pr_address (filter (\<lambda>r. function_code (pr_function r) = k) rs)) codes)"
    using coalesced_group[OF assms(1), of unit gap] by (induction codes) simp_all
  also have "mset \<dots> = mset (concat (map (\<lambda>k. filter (\<lambda>r. function_code (pr_function r) = k) rs) codes))"
    by (induction codes) simp_all
  also have "\<dots> = mset rs" using assms(2) by (intro distinct_filters) (auto simp: lists_codes_def)
  finally show "mset (concat (map cr_registers (coalesce_registers codes rs unit gap))) = mset rs" .
qed

subsection \<open>Frames\<close>

lemma be16_back: "of_be16 (high_byte w) (low_byte w) = w"
  unfolding of_be16_def high_byte_def low_byte_def by (rule bit_word_eqI) (auto simp: bit_simps)

lemma of_be16_inj: "of_be16 a b = of_be16 c d \<longleftrightarrow> a = c \<and> b = d"
proof
  assume e: "of_be16 a b = of_be16 c d"
  have bits: "bit (of_be16 a b) k \<longleftrightarrow> (if k < 8 then bit b k else k < 16 \<and> bit a (k - 8))" for a b k
    unfolding of_be16_def bit_or_iff bit_push_bit_iff bit_ucast_iff using bit_imp_le_length[of b k] by auto
  have "bit a k \<longleftrightarrow> bit c k" "bit b k \<longleftrightarrow> bit d k" if "k < 8" for k
    using bits[of a b "k + 8"] bits[of c d "k + 8"] bits[of a b k] bits[of c d k] e that by simp_all
  then show "a = c \<and> b = d" by (auto intro!: bit_word_eqI)
qed simp

lemma poly_top: "bit (0xA001 :: u16) 15"
proof -
  have "(0xA001 :: u16) = push_bit 15 1 OR 0x2001" by simp
  then show ?thesis by (simp only: bit_or_iff bit_push_bit_iff) simp
qed

lemma crc_bit_top: "bit (crc_bit x) 15 \<longleftrightarrow> odd x"
  using poly_top by (auto simp: crc_bit_def bit_xor_iff bit_drop_bit_eq and_one_eq mod_2_eq_odd dest: bit_imp_le_length)

lemma crc_bit_inj: "crc_bit x = crc_bit y \<Longrightarrow> x = y"
proof -
  assume e: "crc_bit x = crc_bit y"
  have p: "odd x \<longleftrightarrow> odd y" using arg_cong[OF e, of "\<lambda>v. bit v 15"] by (simp add: crc_bit_top)
  have "drop_bit 1 x = drop_bit 1 y"
  proof (cases "odd x")
    case True
    with p e have "(drop_bit 1 x XOR 0xA001) XOR 0xA001 = (drop_bit 1 y XOR 0xA001) XOR 0xA001"
      by (simp add: crc_bit_def and_one_eq mod_2_eq_odd)
    then show ?thesis by (simp add: xor.assoc)
  next
    case False
    with p e show ?thesis by (simp add: crc_bit_def and_one_eq mod_2_eq_odd)
  qed
  then have "bit x (Suc k) \<longleftrightarrow> bit y (Suc k)" for k
    using arg_cong[of "drop_bit 1 x" "drop_bit 1 y" "\<lambda>v. bit v k"] unfolding bit_drop_bit_eq comp_def by simp
  then show "x = y" using p by (intro bit_word_eqI) (metis bit_0 not0_implies_Suc)
qed

lemma crc_bits_inj: "(crc_bit ^^ n) x = (crc_bit ^^ n) y \<Longrightarrow> x = y"
  by (induction n) (auto dest: crc_bit_inj)

lemma crc_byte_inj: "crc_byte c b = crc_byte d b \<Longrightarrow> c = d"
  unfolding crc_byte_def by (drule crc_bits_inj) (metis xor.assoc xor_self_eq xor.right_neutral)

lemma crc_byte_inj_byte: "crc_byte c a = crc_byte c b \<Longrightarrow> a = b"
proof -
  assume "crc_byte c a = crc_byte c b"
  then have "c XOR ucast a = c XOR (ucast b :: u16)" unfolding crc_byte_def by (rule crc_bits_inj)
  then have "c XOR (c XOR ucast a) = c XOR (c XOR (ucast b :: u16))" by (rule arg_cong)
  then have e: "(ucast a :: u16) = ucast b" by (simp only: xor.assoc[symmetric] xor_self_eq xor.left_neutral)
  have "bit a k \<longleftrightarrow> bit b k" if "k < LENGTH(8)" for k
    using arg_cong[OF e, of "\<lambda>v. bit v k"] that by (simp add: bit_ucast_iff)
  then show "a = b" by (rule bit_word_eqI)
qed

lemma crc_fold_inj: "foldl crc_byte c bs = foldl crc_byte d bs \<Longrightarrow> c = d"
  by (induction bs arbitrary: c d) (auto dest: crc_byte_inj)

lemma crc_one_byte: "a \<noteq> b \<Longrightarrow> modbus_crc16 (xs @ a # ys) \<noteq> modbus_crc16 (xs @ b # ys)"
  unfolding modbus_crc16_def by (auto dest!: crc_fold_inj crc_byte_inj_byte)

lemma crc_changed: "i < length bs \<Longrightarrow> b \<noteq> bs ! i \<Longrightarrow> modbus_crc16 (bs[i := b]) \<noteq> modbus_crc16 bs"
  using crc_one_byte[of b "bs ! i" "take i bs" "drop (Suc i) bs"] by (simp add: upd_conv_take_nth_drop id_take_nth_drop[symmetric])

lemma rtu_intact: "pdu \<noteq> [] \<Longrightarrow> rtu_response unit (rtu_frame unit pdu) = Inr pdu"
  by (cases pdu) (simp_all add: rtu_response_def rtu_frame_def Let_def nth_append be16_back)

lemma damaged_tail:
  assumes "2 \<le> length body" "i < length body + 2" "b \<noteq> (body @ [low_byte (modbus_crc16 body), high_byte (modbus_crc16 body)]) ! i"
  shows "\<exists>x y. rtu_response u ((body @ [low_byte (modbus_crc16 body), high_byte (modbus_crc16 body)])[i := b]) = Inl (CrcMismatch x y)"
proof -
  let ?c = "modbus_crc16 body"
  let ?bs = "(body @ [low_byte ?c, high_byte ?c])[i := b]"
  have "of_be16 (?bs ! (length body + 1)) (?bs ! length body) \<noteq> modbus_crc16 (take (length body) ?bs)"
  proof (cases "i < length body")
    case True
    then have "?bs = body[i := b] @ [low_byte ?c, high_byte ?c]" by (simp add: list_update_append)
    then show ?thesis using crc_changed[of i body b] True assms(3) by (simp add: nth_append be16_back)
  next
    case False
    then have "?bs = body @ [low_byte ?c, high_byte ?c][i - length body := b]" by (simp add: list_update_append)
    moreover have "i - length body = 0 \<or> i - length body = 1" using assms(2) False by linarith
    ultimately show ?thesis using assms(3) False of_be16_inj[of _ _ "high_byte ?c" "low_byte ?c"]
      by (auto simp: nth_append be16_back)
  qed
  then show ?thesis using assms(1) by (simp add: rtu_response_def Let_def)
qed

lemma rtu_damaged:
  assumes "pdu \<noteq> []" "i < length (rtu_frame unit pdu)" "b \<noteq> rtu_frame unit pdu ! i"
  shows "\<exists>x y. rtu_response u ((rtu_frame unit pdu)[i := b]) = Inl (CrcMismatch x y)"
  using assms damaged_tail[of "unit # pdu" i b u] unfolding rtu_frame_def Let_def by (cases pdu) simp_all

text \<open>C33: A frame of the serial protocol that arrives as it was sent gives its payload, and one in which any
  single byte was changed - of the unit, the payload or the checksum - is refused.\<close>

theorem rtu_detects_damage:
  assumes "pdu \<noteq> []"
  shows "rtu_response unit (rtu_frame unit pdu) = Inr pdu \<and>
    (\<forall>i b. i < length (rtu_frame unit pdu) \<and> b \<noteq> rtu_frame unit pdu ! i
       \<longrightarrow> (\<exists>x y. rtu_response u ((rtu_frame unit pdu)[i := b]) = Inl (CrcMismatch x y)))"
  using rtu_intact[OF assms] rtu_damaged[OF assms] by blast

theorem rtu_detects_damage_witness:
  "rtu_response 1 (rtu_frame 1 [3, 0]) = Inr [3, 0] \<and>
   (\<exists>x y. rtu_response 1 ((rtu_frame 1 [3, 0])[2 := 9]) = Inl (CrcMismatch x y))"
proof -
  have "(9 :: u8) \<noteq> rtu_frame 1 [3, 0] ! 2" "2 < length (rtu_frame 1 [3, 0])" by (simp_all add: rtu_frame_def Let_def)
  then show ?thesis using rtu_detects_damage[of "[3, 0]" 1 1] by blast
qed

end
