(* ===== verification/Modbus_Device.thy ===== *)
theory Modbus_Device
  imports Modbus_Props
begin

text \<open>
  A device that follows the protocol, and what reading its registers gives.
\<close>

type_synonym memory = "mb_function \<Rightarrow> u16 \<Rightarrow> u16"

text \<open>What a client sees at an address: a bit or a word.\<close>

definition seen :: "memory \<Rightarrow> mb_function \<Rightarrow> u16 \<Rightarrow> u16" where
  "seen D f a = (if is_bit_access f then of_bool (D f a \<noteq> 0) else D f a)"

definition seen_words :: "memory \<Rightarrow> mb_function \<Rightarrow> u16 \<Rightarrow> nat \<Rightarrow> u16 list" where
  "seen_words D f a n = map (\<lambda>i. seen D f (a + of_nat i)) [0..<n]"

definition pack_bits :: "bool list \<Rightarrow> u8 list" where
  "pack_bits bs = map (\<lambda>k. horner_sum of_bool 2 (take 8 (drop (8 * k) bs))) [0..<(length bs + 7) div 8]"

definition reply_pdu :: "memory \<Rightarrow> coalesced_range \<Rightarrow> u8 list" where
  "reply_pdu D cr =
     (let f = cr_function cr; ws = seen_words D f (cr_start cr) (unat (cr_quantity cr));
          bytes = (if is_bit_access f then pack_bits (map (\<lambda>w. w \<noteq> 0) ws) else word_bytes ws)
      in function_code f # of_nat (length bytes) # bytes)"

lemma seen_length [simp]: "length (seen_words D f a n) = n"
  by (simp add: seen_words_def)

lemma word_bytes_length: "length (word_bytes ws) = 2 * length ws"
  by (induction ws) (simp_all add: word_bytes_def)

lemma word_bytes_back: "be_words (word_bytes ws) = ws"
  by (induction ws) (simp_all add: word_bytes_def be16_back)

lemma pack_length: "length (pack_bits bs) = (length bs + 7) div 8"
  by (simp add: pack_bits_def)

lemma pack_bit: "i < length bs \<Longrightarrow> bit_word (pack_bits bs) i = of_bool (bs ! i)"
proof -
  assume i: "i < length bs"
  then have k: "i div 8 < (length bs + 7) div 8" by linarith
  have m: "i mod 8 < 8" "8 * (i div 8) + i mod 8 = i" by simp_all
  then have "i mod 8 < length bs - 8 * (i div 8)" using i by linarith
  have "bit (horner_sum of_bool 2 (take 8 (drop (8 * (i div 8)) bs)) :: u8) (i mod 8) \<longleftrightarrow> bs ! i"
    using \<open>i mod 8 < length bs - 8 * (i div 8)\<close> m by (auto simp: bit_horner_sum_bit_iff)
  then show ?thesis using k by (simp add: bit_word_def pack_length) (simp add: pack_bits_def)
qed

lemma reply_size:
  assumes "cr_quantity cr \<le> max_span (cr_function cr)"
  shows "length (reply_pdu D cr) \<le> 252" "unat (of_nat (length (reply_pdu D cr) - 2) :: u8) = length (reply_pdu D cr) - 2"
    "2 \<le> length (reply_pdu D cr)"
proof -
  have q: "unat (cr_quantity cr) \<le> unat (max_span (cr_function cr))" using assms by (simp add: word_le_nat_alt)
  show n: "length (reply_pdu D cr) \<le> 252"
    using q by (auto simp: reply_pdu_def Let_def word_bytes_length pack_length max_span_def MAX_MODBUS_COIL_SPAN_def MAX_MODBUS_REGISTER_SPAN_def
        split: if_splits)
  then show "unat (of_nat (length (reply_pdu D cr) - 2) :: u8) = length (reply_pdu D cr) - 2"
    by (simp add: unsigned_of_nat take_bit_nat_eq_self)
  show "2 \<le> length (reply_pdu D cr)" by (simp add: reply_pdu_def Let_def)
qed

lemma code_plain: "function_code f AND 0x80 = 0"
  by (cases f) simp_all

lemma reply_read:
  assumes "cr_quantity cr \<le> max_span (cr_function cr)"
  shows "read_response cr (reply_pdu D cr) = Inr (seen_words D (cr_function cr) (cr_start cr) (unat (cr_quantity cr)))"
proof -
  let ?ws = "seen_words D (cr_function cr) (cr_start cr) (unat (cr_quantity cr))"
  let ?bytes = "if is_bit_access (cr_function cr) then pack_bits (map (\<lambda>w. w \<noteq> 0) ?ws) else word_bytes ?ws"
  have r: "reply_pdu D cr = function_code (cr_function cr) # of_nat (length ?bytes) # ?bytes" by (simp add: reply_pdu_def Let_def)
  have n: "unat (of_nat (length ?bytes) :: u8) = length ?bytes" using reply_size(2)[OF assms, of D] unfolding r by simp
  have bits: "map (bit_word (pack_bits (map (\<lambda>w. w \<noteq> 0) ?ws))) [0..<unat (cr_quantity cr)] = ?ws" if "is_bit_access (cr_function cr)"
    by (rule nth_equalityI) (simp_all add: pack_bit, simp add: seen_words_def seen_def that)
  show ?thesis
    unfolding r read_response_def using n bits by (cases "is_bit_access (cr_function cr)") (simp_all add: code_plain word_bytes_back)
qed

subsection \<open>Requests and answers\<close>

definition request_ok :: "coalesced_range \<Rightarrow> bool" where
  "request_ok cr \<longleftrightarrow>
     0 < unat (cr_quantity cr) \<and> cr_quantity cr \<le> max_span (cr_function cr) \<and> unat (cr_start cr) + unat (cr_quantity cr) \<le> 65536"

text \<open>The device accepts connections and answers every proper read request with what it holds. Over TCP the
  answer may come in pieces. Over RTU it comes in one: the client does a single read of up to 256
  bytes and takes what it returns for the frame.\<close>

definition answers :: "'w modbus_net \<Rightarrow> bool \<Rightarrow> memory \<Rightarrow> bool" where
  "answers N rtu D \<longleftrightarrow>
     (\<forall>w. fst (ne_connect N w)) \<and>
     (\<forall>w tid unit cr. request_ok cr \<longrightarrow>
        (\<exists>pieces w'.
           if rtu then ne_send N w (rtu_frame unit (read_pdu cr)) = (Some [rtu_frame unit (reply_pdu D cr)], w')
           else ne_send N w (mbap_frame tid unit (read_pdu cr)) = (Some pieces, w') \<and> concat pieces = mbap_frame tid unit (reply_pdu D cr)))"

definition stream_idle :: "modbus_client \<Rightarrow> bool" where
  "stream_idle c \<longleftrightarrow> concat (or_default (cl_stream c) []) = []"

lemma mbap_back:
  assumes "1 \<le> length pdu" "length pdu \<le> 1000"
  shows "mbap_response tid unit (mbap_frame tid unit pdu) = Inr (pdu, [])"
proof -
  have n: "unat (of_nat (length pdu + 1) :: u16) = length pdu + 1"
    using assms(2) by (simp only: unsigned_of_nat) (simp add: take_bit_nat_eq_self)
  have "\<not> (of_nat (length pdu + 1) :: u16) < 2" using n assms by (auto simp: word_less_nat_alt)
  moreover have "unat ((of_nat (length pdu + 1) :: u16) - 1) = length pdu"
  proof -
    have "(of_nat (length pdu + 1) :: u16) - 1 = of_nat (length pdu)" by simp
    then show ?thesis using assms(2) by (simp only: unsigned_of_nat) (simp add: take_bit_nat_eq_self)
  qed
  moreover have "of_be16 0 0 = 0" by (simp add: of_be16_def)
  ultimately show ?thesis
    unfolding mbap_response_def mbap_frame_def be16_def Let_def by (simp del: of_nat_add of_nat_Suc add: be16_back)
qed

lemma connected:
  assumes "\<And>w. fst (ne_connect N w)"
  obtains c' w' where "ensure_connected N c w = (True, c', w')" "or_default (cl_stream c') [] = or_default (cl_stream c) []"
    "cl_rtu c' = cl_rtu c"
proof (cases "cl_stream c")
  case None
  obtain w' where "ne_connect N w = (True, w')" using assms[of w] by (cases "ne_connect N w") auto
  then show ?thesis using that[of "c\<lparr>cl_stream := Some []\<rparr>" w'] None by (simp add: ensure_connected_def or_default_def)
next
  case (Some b)
  then show ?thesis using that[of c w] by (simp add: ensure_connected_def)
qed

lemma read_range_honest:
  assumes "answers N (cl_rtu c) D" "stream_idle c" "request_ok cr"
  shows "\<exists>c' w'. read_range N cr c w = (Inr (seen_words D (cr_function cr) (cr_start cr) (unat (cr_quantity cr))), c', w')
    \<and> stream_idle c' \<and> cl_rtu c' = cl_rtu c"
proof -
  let ?c = "c\<lparr>cl_tid := cl_tid c + 1\<rparr>"
  have q: "cr_quantity cr \<le> max_span (cr_function cr)" using assms(3) by (simp add: request_ok_def)
  note size = reply_size[OF q, of D]
  obtain c1 w1 where c1: "ensure_connected N ?c w = (True, c1, w1)" "or_default (cl_stream c1) [] = or_default (cl_stream ?c) []" "cl_rtu c1 = cl_rtu ?c"
    using connected[of N ?c w] assms(1) by (auto simp: answers_def)
  have b: "concat (or_default (cl_stream c1) []) = []" using assms(2) c1(2) by (simp add: stream_idle_def)
  have nil: "filter (\<lambda>ch. ch \<noteq> []) (or_default (cl_stream c1) []) = []" using b by (auto simp: filter_empty_conv)
  have "\<exists>c' w'. write_pdu N (cr_unit cr) (read_pdu cr) c w = (Inr (reply_pdu D cr), c', w') \<and> stream_idle c' \<and> cl_rtu c' = cl_rtu c"
  proof (cases "cl_rtu c")
    case True
    obtain w2 where s: "ne_send N w1 (rtu_frame (cr_unit cr) (read_pdu cr)) = (Some [rtu_frame (cr_unit cr) (reply_pdu D cr)], w2)"
      using assms(1,3) True unfolding answers_def by (simp only: if_True) blast
    have "length (rtu_frame (cr_unit cr) (reply_pdu D cr)) \<le> 256" "rtu_frame (cr_unit cr) (reply_pdu D cr) \<noteq> []" "reply_pdu D cr \<noteq> []"
      using size by (auto simp: rtu_frame_def Let_def)
    then have "read_rtu (cr_unit cr) (or_default (cl_stream c1) [] @ [rtu_frame (cr_unit cr) (reply_pdu D cr)]) = Inr (reply_pdu D cr, [[]])"
      using nil by (simp add: read_rtu_def rtu_intact)
    then show ?thesis using s True c1 by (simp add: write_pdu_def Let_def send_and_recv_def stream_idle_def or_default_def)
  next
    case False
    then obtain pieces w2 where s: "ne_send N w1 (mbap_frame (cl_tid c) (cr_unit cr) (read_pdu cr)) = (Some pieces, w2)"
      "concat pieces = mbap_frame (cl_tid c) (cr_unit cr) (reply_pdu D cr)"
      using assms(1,3) unfolding answers_def by (smt (verit))
    have "mbap_response (cl_tid c) (cr_unit cr) (concat pieces) = Inr (reply_pdu D cr, [])"
      unfolding s(2) using size by (intro mbap_back) linarith+
    then have "read_tcp (cl_tid c) (cr_unit cr) (or_default (cl_stream c1) [] @ pieces) = Inr (reply_pdu D cr, [[]])"
      unfolding read_tcp_def concat_append b by simp
    then show ?thesis using s(1) False c1 by (simp add: write_pdu_def Let_def send_and_recv_def stream_idle_def or_default_def)
  qed
  then show ?thesis using reply_read[OF q, of D] by (auto simp: read_range_def)
qed

subsection \<open>Reading every register\<close>

definition register_reading :: "memory \<Rightarrow> prepared_register \<Rightarrow> mb_error + json" where
  "register_reading D r = decode_register_value r (seen_words D (pr_function r) (pr_address r) (unat (pr_words r)))"

lemma covered_words:
  assumes "covers cr r"
  shows "register_words cr r (seen_words D (cr_function cr) (cr_start cr) (unat (cr_quantity cr)))
    = Some (seen_words D (pr_function r) (pr_address r) (unat (pr_words r)))"
proof -
  let ?off = "unat (pr_address r) - unat (cr_start cr)"
  have le: "unat (cr_start cr) \<le> unat (pr_address r)" and n: "?off + unat (pr_words r) \<le> unat (cr_quantity cr)"
    and f: "pr_function r = cr_function cr"
    using assms by (auto simp: covers_def word_le_nat_alt)
  have "cr_start cr + of_nat ?off = pr_address r" using le by (simp add: of_nat_diff)
  then have a: "cr_start cr + (of_nat ?off + of_nat i) = pr_address r + of_nat i" for i by (simp only: add.assoc[symmetric])
  have "take (unat (pr_words r)) (drop ?off (seen_words D (cr_function cr) (cr_start cr) (unat (cr_quantity cr))))
    = seen_words D (pr_function r) (pr_address r) (unat (pr_words r))"
    using n by (intro nth_equalityI) (simp_all add: seen_words_def f a)
  then show ?thesis using n by (simp add: register_words_def Let_def unat_sat_sub16)
qed

definition put_readings :: "memory \<Rightarrow> prepared_register list \<Rightarrow> row \<Rightarrow> row" where
  "put_readings D rs m = foldl (\<lambda>m r. fmupd (pr_name r) (projr (register_reading D r)) m) m rs"

definition reads_as :: "memory \<Rightarrow> prepared_register list \<Rightarrow> row \<Rightarrow> mb_error + row \<Rightarrow> bool" where
  "reads_as D rs m res =
     (case res of
        Inl e \<Rightarrow> \<exists>r \<in> set rs. register_reading D r = Inl e
      | Inr m' \<Rightarrow> (\<forall>r \<in> set rs. \<exists>v. register_reading D r = Inr v) \<and> m' = put_readings D rs m)"

lemma snapshot_range_reads:
  "list_all (covers cr) rs \<Longrightarrow>
   reads_as D rs m (snapshot_range cr (seen_words D (cr_function cr) (cr_start cr) (unat (cr_quantity cr))) rs m)"
proof (induction rs arbitrary: m)
  case (Cons r rs)
  let ?ws = "seen_words D (cr_function cr) (cr_start cr) (unat (cr_quantity cr))"
  have own: "register_words cr r ?ws = Some (seen_words D (pr_function r) (pr_address r) (unat (pr_words r)))"
    using Cons.prems by (intro covered_words) simp
  show ?case
  proof (cases "register_reading D r")
    case (Inl e)
    then show ?thesis using own by (simp add: reads_as_def register_reading_def)
  next
    case (Inr v)
    then have "snapshot_range cr ?ws (r # rs) m = snapshot_range cr ?ws rs (fmupd (pr_name r) v m)"
      using own by (simp add: register_reading_def)
    moreover have "reads_as D rs (fmupd (pr_name r) v m) (snapshot_range cr ?ws rs (fmupd (pr_name r) v m))"
      using Cons by simp
    ultimately show ?thesis
      using Inr by (cases "snapshot_range cr ?ws rs (fmupd (pr_name r) v m)") (simp_all add: reads_as_def put_readings_def)
  qed
qed (simp add: reads_as_def put_readings_def)

lemma snapshot_loop_reads:
  assumes "list_all (range_ok unit) crs" "answers N (cl_rtu c) D" "stream_idle c"
  shows "reads_as D (concat (map cr_registers crs)) m (fst (snapshot_loop N crs c w m))"
  using assms
proof (induction crs arbitrary: c w m)
  case (Cons cr crs)
  have "request_ok cr" "list_all (covers cr) (cr_registers cr)" using Cons.prems(1) by (auto simp: range_ok_def request_ok_def)
  then obtain c' w' where rr: "read_range N cr c w = (Inr (seen_words D (cr_function cr) (cr_start cr) (unat (cr_quantity cr))), c', w')"
    "stream_idle c'" "cl_rtu c' = cl_rtu c"
    using read_range_honest[OF Cons.prems(2,3)] by blast
  note one = snapshot_range_reads[OF \<open>list_all (covers cr) (cr_registers cr)\<close>, of D m]
  show ?case
  proof (cases "snapshot_range cr (seen_words D (cr_function cr) (cr_start cr) (unat (cr_quantity cr))) (cr_registers cr) m")
    case (Inl e)
    then show ?thesis using one rr by (auto simp: reads_as_def)
  next
    case (Inr m')
    have "reads_as D (concat (map cr_registers crs)) m' (fst (snapshot_loop N crs c' w' m'))"
      using Cons rr by (intro Cons.IH) simp_all
    then show ?thesis using one rr Inr by (auto simp: reads_as_def put_readings_def split: sum.splits)
  qed
qed (simp add: reads_as_def put_readings_def)

lemma put_readings_lookup:
  "distinct (map pr_name rs) \<Longrightarrow> r \<in> set rs \<Longrightarrow> fmlookup (put_readings D rs m) (pr_name r) = Some (projr (register_reading D r))"
  "fset (fmdom (put_readings D rs m)) = fset (fmdom m) \<union> pr_name ` set rs"
proof -
  show dom: "fset (fmdom (put_readings D rs m)) = fset (fmdom m) \<union> pr_name ` set rs" for rs m
    by (induction rs arbitrary: m) (auto simp: put_readings_def)
  show "distinct (map pr_name rs) \<Longrightarrow> r \<in> set rs \<Longrightarrow> fmlookup (put_readings D rs m) (pr_name r) = Some (projr (register_reading D r))"
  proof (induction rs arbitrary: m rule: rev_induct)
    case (snoc q qs)
    then show ?case by (cases "r = q") (auto simp: put_readings_def rev_image_eqI)
  qed simp
qed

text \<open>C13: Reading all registers of a device that follows the protocol gives for each register the value
  decoded from the words the device holds at its own address, as if it had been read alone, however
  the reads were coalesced; otherwise the error is that of a register whose words cannot be decoded.
  The device accepts every connection and answers every proper request with what it holds. Over TCP
  the answer may come in any pieces; over RTU it must come whole in one read, since the client reads
  once (\<open>rtu_reply_in_pieces_fails\<close>). The registers have distinct names, take up at most one request
  each (125 words or 2000 bits) and do not reach the last address, 65535: such a register may be lost
  (\<open>last_register_lost\<close>).\<close>

theorem snapshot_reads_device:
  assumes "answers N (rtu_transport (mc_transport cfg)) D" "prepare cfg = Inr rs" "list_all register_fits rs"
    "distinct (map pr_name rs)" "lists_codes codes rs"
  shows "case fst (modbus_read_snapshot N codes cfg w) of
      Inl e \<Rightarrow> \<exists>r \<in> set rs. register_reading D r = Inl e
    | Inr m \<Rightarrow> fset (fmdom m) = pr_name ` set rs \<and> (\<forall>r \<in> set rs. register_reading D r = Inr (the (fmlookup m (pr_name r))))"
proof -
  let ?crs = "poll_plan codes cfg rs"
  note ok = coalesced_ok[OF assms(3,5)]
  have regs: "mset (concat (map cr_registers ?crs)) = mset rs" by (simp add: poll_plan_def ok(2))
  then have s: "set (concat (map cr_registers ?crs)) = set rs" by (metis set_mset_mset)
  have "mset (map pr_name (concat (map cr_registers ?crs))) = mset (map pr_name rs)" using regs by simp
  then have d: "distinct (map pr_name (concat (map cr_registers ?crs)))" using assms(4) by (metis mset_eq_imp_distinct_iff)
  have "reads_as D (concat (map cr_registers ?crs)) fmempty (fst (snapshot_loop N ?crs (config_client cfg) w fmempty))"
    using assms(1) ok(1) unfolding poll_plan_def
    by (intro snapshot_loop_reads) (auto simp: config_client_def client_new_def stream_idle_def or_default_def)
  then show ?thesis
    using s put_readings_lookup(1)[OF d, of _ D fmempty] put_readings_lookup(2)[of D "concat (map cr_registers ?crs)" fmempty]
    by (auto simp: modbus_read_snapshot_def assms(2) reads_as_def split: sum.splits)
qed

text \<open>The source polls with the same plan: when every register can be decoded it sends what a snapshot gives.\<close>

lemma poll_registers_ok:
  "list_all (covers cr) rs \<Longrightarrow> \<forall>r \<in> set rs. \<exists>v. register_reading D r = Inr v \<Longrightarrow>
   poll_registers cr (seen_words D (cr_function cr) (cr_start cr) (unat (cr_quantity cr))) rs p
     = p\<lparr>po_record := put_readings D rs (po_record p)\<rparr>"
proof (induction rs arbitrary: p)
  case (Cons r rs)
  then obtain v where v: "register_reading D r = Inr v" by auto
  have "register_words cr r (seen_words D (cr_function cr) (cr_start cr) (unat (cr_quantity cr)))
    = Some (seen_words D (pr_function r) (pr_address r) (unat (pr_words r)))"
    using Cons.prems by (intro covered_words) simp
  then show ?case using Cons v by (simp add: put_readings_def register_reading_def)
qed (simp add: put_readings_def)

lemma poll_loop_ok:
  assumes "list_all (range_ok unit) crs" "answers N (cl_rtu c) D" "stream_idle c" "\<forall>r \<in> set (concat (map cr_registers crs)). \<exists>v. register_reading D r = Inr v"
  shows "\<exists>raw c' w'. poll_loop N crs c w p = (p\<lparr>po_record := put_readings D (concat (map cr_registers crs)) (po_record p), po_raw := raw\<rparr>, c', w')"
  using assms
proof (induction crs arbitrary: c w p)
  case Nil
  have "\<exists>raw. p = p\<lparr>po_raw := raw\<rparr>" by (rule exI[of _ "po_raw p"]) simp
  then show ?case by (simp add: put_readings_def)
next
  case (Cons cr crs)
  have ok: "request_ok cr" "list_all (covers cr) (cr_registers cr)" using Cons.prems(1) by (auto simp: range_ok_def request_ok_def)
  then obtain c' w' where rr: "read_range N cr c w = (Inr (seen_words D (cr_function cr) (cr_start cr) (unat (cr_quantity cr))), c', w')"
    "stream_idle c'" "cl_rtu c' = cl_rtu c"
    using read_range_honest[OF Cons.prems(2,3)] by blast
  let ?ws = "seen_words D (cr_function cr) (cr_start cr) (unat (cr_quantity cr))"
  define p2 where "p2 = p\<lparr>po_record := put_readings D (cr_registers cr) (po_record p), po_raw := po_raw p @ word_bytes ?ws\<rparr>"
  have "poll_registers cr ?ws (cr_registers cr) (p\<lparr>po_raw := po_raw p @ word_bytes ?ws\<rparr>) = p2"
    using poll_registers_ok[OF ok(2), of D] Cons.prems(4) by (simp add: p2_def)
  then have "poll_loop N (cr # crs) c w p = poll_loop N crs c' w' p2" using rr by simp
  moreover obtain raw c3 w3 where "poll_loop N crs c' w' p2
    = (p2\<lparr>po_record := put_readings D (concat (map cr_registers crs)) (po_record p2), po_raw := raw\<rparr>, c3, w3)"
    using Cons.IH[of c' w' p2] Cons.prems rr by auto
  ultimately show ?case by (auto simp: p2_def put_readings_def)
qed

lemma poll_sends_snapshot:
  assumes "answers N (cl_rtu c) D" "stream_idle c" "list_all register_fits rs" "lists_codes codes rs" "\<forall>r \<in> set rs. \<exists>v. register_reading D r = Inr v" "rs \<noteq> []"
  shows "fst (modbus_poll N show_error (poll_plan codes cfg rs) c w) = Some (put_readings D (concat (map cr_registers (poll_plan codes cfg rs))) fmempty)"
proof -
  let ?crs = "poll_plan codes cfg rs"
  have ok: "list_all (range_ok (or_default (mc_slave_id cfg) (mc_unit_id cfg))) ?crs" and m: "mset (concat (map cr_registers ?crs)) = mset rs"
    using coalesced_ok[OF assms(3,4)] by (simp_all add: poll_plan_def)
  then have s: "set (concat (map cr_registers ?crs)) = set rs" by (metis set_mset_mset)
  obtain raw c' w' where l: "poll_loop N ?crs c w \<lparr>po_record = fmempty, po_errors = [], po_raw = []\<rparr>
    = (\<lparr>po_record = put_readings D (concat (map cr_registers ?crs)) fmempty, po_errors = [], po_raw = raw\<rparr>, c', w')"
    using poll_loop_ok[OF ok assms(1,2), of w "\<lparr>po_record = fmempty, po_errors = [], po_raw = []\<rparr>"] assms(5)
    unfolding s by auto
  have "fset (fmdom (put_readings D (concat (map cr_registers ?crs)) fmempty)) = pr_name ` set rs"
    unfolding put_readings_lookup(2) s by simp
  then have "put_readings D (concat (map cr_registers ?crs)) fmempty \<noteq> fmempty" using assms(6) by auto
  then show ?thesis by (simp add: modbus_poll_def l poll_output_def)
qed

text \<open>A device in a few lines: it reads the request from the frame and answers with what it holds.\<close>

definition code_function :: "u8 \<Rightarrow> mb_function" where
  "code_function k = (if k = 1 then Coil else if k = 2 then DiscreteInput else if k = 3 then Holding else InputRegister)"

definition request_of :: "u8 list \<Rightarrow> coalesced_range" where
  "request_of pdu =
     \<lparr>cr_function = code_function (pdu ! 0), cr_unit = 0, cr_start = of_be16 (pdu ! 1) (pdu ! 2),
      cr_quantity = of_be16 (pdu ! 3) (pdu ! 4), cr_registers = []\<rparr>"

definition answer_frame :: "bool \<Rightarrow> memory \<Rightarrow> u8 list \<Rightarrow> u8 list" where
  "answer_frame rtu D bs =
     (if rtu then rtu_frame (bs ! 0) (reply_pdu D (request_of (drop 1 bs)))
      else mbap_frame (of_be16 (bs ! 0) (bs ! 1)) (bs ! 6) (reply_pdu D (request_of (drop 7 bs))))"

definition device_net :: "bool \<Rightarrow> memory \<Rightarrow> unit modbus_net" where
  "device_net rtu D = \<lparr>ne_connect = (\<lambda>w. (True, w)), ne_send = (\<lambda>w bs. (Some [answer_frame rtu D bs], w))\<rparr>"

lemma code_function_back: "code_function (function_code f) = f"
  by (cases f) (simp_all add: code_function_def)

lemma request_back: "reply_pdu D (request_of (read_pdu cr @ rest)) = reply_pdu D cr"
  by (simp add: request_of_def read_pdu_def be16_def be16_back code_function_back reply_pdu_def)

lemma device_answers: "answers (device_net rtu D) rtu D"
  using request_back[of D _ "[]"]
  by (auto simp: answers_def device_net_def answer_frame_def rtu_frame_def mbap_frame_def be16_def Let_def be16_back request_back)

definition demo_registers :: "modbus_register list" where
  "demo_registers =
     [\<lparr>mr_name = ''temp'', mr_function = ''holding'', mr_address = 10, mr_data_type = ''int16'', mr_byte_order = None,
       mr_scale = None, mr_offset = None, mr_length = None\<rparr>,
      \<lparr>mr_name = ''level'', mr_function = ''holding'', mr_address = 14, mr_data_type = ''uint32'', mr_byte_order = Some ''CDAB'',
       mr_scale = None, mr_offset = None, mr_length = None\<rparr>,
      \<lparr>mr_name = ''pump'', mr_function = ''coil'', mr_address = 3, mr_data_type = ''bool'', mr_byte_order = None,
       mr_scale = None, mr_offset = None, mr_length = None\<rparr>]"

definition demo_modbus :: modbus_config where
  "demo_modbus =
     \<lparr>mc_transport = ''tcp'', mc_endpoint = ''plc:502'', mc_server = None, mc_address = None, mc_url = None, mc_unit_id = 1,
      mc_slave_id = None, mc_timeout_ms = 2000, mc_max_gap = 10, mc_byte_order = ''ABCD'', mc_address_base = None, mc_plc = False,
      mc_registers = demo_registers\<rparr>"

definition demo_prepared :: "prepared_register list" where
  "demo_prepared =
     [\<lparr>pr_name = ''temp'', pr_function = Holding, pr_address = 10, pr_type = MInt16, pr_words = 1, pr_order = Abcd,
       pr_scale = None, pr_offset = None, pr_length = None\<rparr>,
      \<lparr>pr_name = ''level'', pr_function = Holding, pr_address = 14, pr_type = MUint32, pr_words = 2, pr_order = Cdab,
       pr_scale = None, pr_offset = None, pr_length = None\<rparr>,
      \<lparr>pr_name = ''pump'', pr_function = Coil, pr_address = 3, pr_type = MBool, pr_words = 1, pr_order = Abcd,
       pr_scale = None, pr_offset = None, pr_length = None\<rparr>]"

lemma demo_prepare: "prepare demo_modbus = Inr demo_prepared"
  by code_simp

lemma demo_transport: "rtu_transport (mc_transport demo_modbus) = False"
  by code_simp

lemma demo_fits: "list_all register_fits demo_prepared"
  by (simp add: demo_prepared_def register_fits_def max_span_def is_bit_access_def MAX_MODBUS_COIL_SPAN_def MAX_MODBUS_REGISTER_SPAN_def)

lemma demo_codes: "distinct (map pr_name demo_prepared)" "lists_codes [1, 3] demo_prepared"
  by code_simp+

theorem snapshot_reads_device_witness:
  "case fst (modbus_read_snapshot (device_net False (\<lambda>f a. 2 * a)) [1, 3] demo_modbus ()) of
      Inl e \<Rightarrow> \<exists>r \<in> set demo_prepared. register_reading (\<lambda>f a. 2 * a) r = Inl e
    | Inr m \<Rightarrow> fset (fmdom m) = pr_name ` set demo_prepared
        \<and> (\<forall>r \<in> set demo_prepared. register_reading (\<lambda>f a. 2 * a) r = Inr (the (fmlookup m (pr_name r))))"
  by (rule snapshot_reads_device) (simp_all add: demo_transport device_answers demo_prepare demo_fits demo_codes)

subsection \<open>Where the connector goes wrong\<close>

text \<open>A correct RTU reply whose first bytes arrive alone is refused as too short.\<close>

lemma rtu_reply_in_pieces_fails:
  assumes "0 < n" "n < 4"
  shows "read_rtu unit [take n (rtu_frame unit (reply_pdu D cr)), drop n (rtu_frame unit (reply_pdu D cr))] = Inl (ShortFrame n)"
proof -
  have "n \<le> length (rtu_frame unit (reply_pdu D cr))" using assms by (simp add: rtu_frame_def Let_def reply_pdu_def)
  then have "length (take n (rtu_frame unit (reply_pdu D cr))) = n" by simp
  moreover from this have "take n (rtu_frame unit (reply_pdu D cr)) \<noteq> []" using assms by auto
  ultimately show ?thesis using assms by (simp add: read_rtu_def rtu_response_def Let_def)
qed

text \<open>The end of a range is kept in 16 bits and saturates: of two registers at the last two addresses the
  second is not asked for, and its value is missing without an error.\<close>

definition edge_register :: "string \<Rightarrow> u16 \<Rightarrow> prepared_register" where
  "edge_register nm a =
     \<lparr>pr_name = nm, pr_function = Holding, pr_address = a, pr_type = MUint16, pr_words = 1, pr_order = Abcd,
      pr_scale = None, pr_offset = None, pr_length = None\<rparr>"

lemma last_register_lost:
  "map (\<lambda>c. (cr_start c, cr_quantity c)) (coalesce_registers [3] [edge_register ''a'' 65534, edge_register ''b'' 65535] 1 10) = [(65534, 1)]"
  "register_words (new_range 1 (edge_register ''a'' 65534)) (edge_register ''b'' 65535) [7] = None"
  by code_simp+

text \<open>A long text is asked for in one request, beyond what the protocol allows.\<close>

lemma long_text_one_request:
  "map cr_quantity (coalesce_registers [3] [(edge_register ''t'' 0)\<lparr>pr_type := MString, pr_words := 200\<rparr>] 1 10) = [200]"
  by code_simp

definition demo_sink :: modbus_sink_config where
  "demo_sink =
     \<lparr>ms_transport = ''tcp'', ms_endpoint = ''plc:502'', ms_server = None, ms_address = None, ms_url = None, ms_unit_id = 1,
      ms_slave_id = None, ms_timeout_ms = 2000, ms_byte_order = ''ABCD'', ms_address_base = None, ms_plc = False,
      ms_function = ''holding'', ms_register_address = 4001, ms_data_type = ''int32'', ms_field = None\<rparr>"

lemma wide_value_cut: "sink_pdu demo_sink (Number (PosInt 70000)) = Inr [6, 0x0F, 0xA1, 0x11, 0x70]"
  by code_simp

lemma coils_write_register: "sink_pdu (demo_sink\<lparr>ms_function := ''coils''\<rparr>) (Bool True) = Inr [6, 0x0F, 0xA1, 0, 0]"
  "function_parse ''coils'' = Inr Coil"
  by code_simp+

lemma float_never_sets_coil: "coil_value (Number (Float x)) = False"
  by (simp add: coil_value_def or_default_def)

lemma plc_addresses_differ: "plc_address Holding 4001 = 0" "sink_address (demo_sink\<lparr>ms_plc := True\<rparr>) = 4000"
  by code_simp+

end
