(* ===== verification/Spec2Isabelle.thy ===== *)
theory Spec2Isabelle
  imports SinkCache_Props Eval_Cache Analytic_Props Window_Props Sliding_Props DeadLetter_Props Tumbling_Props Hopping_Props
    Count_Props Session_Props Join_Props Stateless_Props Manager_Props Catalog_Props Graph_Props Bus_Props Prefilter_Props Parser_Props
    Coerce_Props Delivery_Props Codec_Props Protobuf_Props Modbus_Device
begin

text \<open>
  Verification of the reKuiper stream-processing engine.

  \<^bold>\<open>The program.\<close> reKuiper runs rules over streams of JSON records. A rule is a \<open>SELECT\<close> statement
  with actions. Sources publish records on a bus; the task of a rule takes them one at a time,
  evaluates the statement, either record by record or over windows, and puts the rows it produces
  into a bounded queue in front of its sinks. Records that fail go to a dead-letter queue. Sinks
  that are offline are buffered by a cache that spills to disk. Managers keep the definitions of
  streams, tables, schemas and rules in memory and in a key/value store, and resume the rules that
  were running when the daemon starts again.

  \<^bold>\<open>The theories\<close>, in the order in which they build on each other, with the code they model
  (under \<open>src/crates\<close>):

  \<^item> \<open>Prelude\<close>: collections of simplification rules, lists, options, 64-bit arithmetic with
    saturation and wrap-around. \<open>F64\<close>: the binary64 operations the evaluator uses. \<open>Json\<close>: values
    and their conversions. \<open>Like\<close>: the \<open>LIKE\<close> matcher.
  \<^item> \<open>Ast\<close> (\<open>rekuiper-sql/src/ast.rs\<close>), \<open>EvalOps\<close>, \<open>Eval\<close>, \<open>Select\<close> (\<open>eval.rs\<close>): the syntax tree, the
    operators, expression evaluation with and without rule state, conditions and projections with
    their fast paths. \<open>Analytic\<close> (\<open>eval/analytic.rs\<close>): lag, the accumulating functions and sequence
    matching over the bounded rule state. \<open>Aggregate\<close>, \<open>WindowEval\<close> (\<open>eval/aggregate.rs\<close>,
    \<open>eval/window.rs\<close>): the evaluation of the rows of a trigger. \<open>WindowAcc\<close>, \<open>Sliding\<close>: the incremental
    windows. \<open>Accumulators\<close> and \<open>Grouping\<close> hold the lemmas on them.
  \<^item> \<open>Text\<close>: white space and digits. \<open>Parser\<close>, \<open>ParserStmt\<close>, \<open>ParserDdl\<close> (\<open>rekuiper-sql/src/parser.rs\<close>): the
    parser of expressions, of \<open>SELECT\<close> and of the definitions of streams and tables, on the bytes of
    the text. Each function takes the rest of the input and returns a result with what is left, an
    error or a panic.
  \<^item> \<open>DeadLetter\<close> (\<open>rekuiper-server/src/engine/dlq.rs\<close>, \<open>rekuiper-core/src/manager.rs\<close>, \<open>model.rs\<close>):
    counters, latency trackers, envelopes, the router and the error handlers.
  \<^item> \<open>Runners\<close>, \<open>HoppingRunners\<close> (\<open>engine/windows.rs\<close>, \<open>engine/runtime.rs\<close>): event timestamps,
    watermarks, the six kinds of windows, and the \<open>select!\<close> loop they share. The state of each
    runner is a record, each arm of its loop a function, and a run is the function \<open>run_loop\<close> on a
    sequence of moments: a record, a record of a joined stream, the closing of a channel or a
    timer, with the status of the rule and the clocks at that moment.
  \<^item> \<open>Joins\<close> (\<open>engine/joins.rs\<close>): lookup joins, streaming \<open>ASOF\<close> joins, joins of window contents.
    \<open>StatelessRule\<close> (\<open>engine/runtime.rs\<close>): the loop of rules without windows.
  \<^item> \<open>KvStore\<close> (\<open>rekuiper-core/src/kv.rs\<close>), \<open>Managers\<close>, \<open>RuleManager\<close> (\<open>manager.rs\<close>, \<open>model.rs\<close>): the
    store, the catalogues, the rows of lookup tables, and the lifecycle of rules. \<open>RuleGraph\<close>
    (\<open>model.rs\<close>): the compilation of visual rule graphs.
  \<^item> \<open>StreamBus\<close> (\<open>rekuiper-core/src/runtime.rs\<close>, \<open>engine/mod.rs\<close>): topics, filters and the ways of
    publishing, with the moves of the receivers as a schedule; the predicates extracted from \<open>WHERE\<close>.
  \<^item> \<open>Coerce\<close> (\<open>model.rs\<close>, \<open>engine/mod.rs\<close>): the coercion of values to declared types and the task in
    front of a rule that enforces them.
  \<^item> \<open>SinkCache\<close> (\<open>rekuiper-server/src/sink_cache.rs\<close>): the offline cache. \<open>SinkFormat\<close>, \<open>Delivery\<close>
    (\<open>engine/sinks.rs\<close>, \<open>engine/mod.rs\<close>): what sinks make of a record, and the worker that sends, caches,
    batches and resends. Each send moves an arbitrary world on and is logged.
  \<^item> \<open>Bytes\<close>: the bytes of integers and floats. \<open>Delimited\<close>, \<open>Protobuf\<close> (\<open>rekuiper-connectors/src/codec.rs\<close>): rows
    of delimited text, opaque bytes, and protobuf messages on the wire. \<open>Modbus\<close> (\<open>modbus.rs\<close>): registers,
    coalesced reads, decoding, the TCP and RTU frames, the source's poll and the sink's write, over a
    network that is a function on an arbitrary world.

  \<^bold>\<open>What is shown.\<close>

  \<^item> Windows (\<open>Tumbling_Props\<close>, \<open>Hopping_Props\<close>, \<open>Count_Props\<close>, \<open>Session_Props\<close>): a run fires exactly
    the windows of a specification over the accepted records, on every interleaving. The locale
    \<open>runner\<close> of \<open>Runner_Loop\<close> says what a runner owes to the loop (an invariant kept by every arm);
    it is interpreted for each of them. For sessions the specification is a partition with limits
    that hold inside a session and a reason for every cut; for count windows with an interval larger
    than the size it leaves out joined streams. \<open>Event_Time\<close> states the specification: which records are
    on time, the watermark, the windows passed. \<open>tumbling_ingest_returns_iff\<close> says exactly when the
    closing loop ends.
  \<^item> Triggers (\<open>Window_Props\<close>, \<open>Sliding_Props\<close>): the incremental windows and the grouping against the
    evaluation of the whole batch, on the fields that \<open>exact_field\<close> describes; the monotonic deques and
    running sums.
  \<^item> Evaluation (\<open>Eval_Props\<close>, \<open>Eval_Cache\<close>, \<open>Analytic_Props\<close>): types are kept, the only aborting
    operations, the fast paths against the general ones, \<open>LIKE\<close> against its declarative meaning,
    analytic calls advance once per row, bounds of the rule state, sequence matching.
  \<^item> Parser (\<open>Parser_Props\<close>): a printed expression is read back (over \<open>Parser_Print\<close>, the printer and
    the words, \<open>Parser_Levels\<close>, \<open>Parser_Roundtrip\<close>, \<open>Parser_Composite\<close> and \<open>Parser_Calls\<close>, one form of
    expression after the other); parsing returns on every text (\<open>Parser_Total\<close>, \<open>ParserStmt_Total\<close>,
    \<open>ParserDdl_Total\<close>) and a definition is accepted only as a whole with supported types. The fuel of
    its loops is one more than the length of the input, and each turn consumes some of it.
  \<^item> Joins and rules without windows (\<open>Join_Props\<close>, \<open>Stateless_Props\<close>): relational meaning below the
    cap, bounds, \<open>ASOF\<close> answers, and the accounting for every record, with the row that a closed
    queue loses and the exception that a halt counts again.
  \<^item> Errors (\<open>DeadLetter_Props\<close>): the buffer keeps the newest errors; payloads are cut at character
    boundaries.
  \<^item> Managers (\<open>Manager_Props\<close>, \<open>Catalog_Props\<close>, over \<open>Persistence\<close>): memory and store agree whichever
    writes fail, so a restart gives back the catalogues and resumes the running rules; one live
    task per rule as long as no source is refused; rows of lookup tables. The locales \<open>kv_store\<close>, \<open>codec_store\<close>, \<open>rule_store\<close> and
    \<open>stream_store\<close> state what is asked of the store and of the codec; the in-memory store provides it.
  \<^item> Graphs (\<open>Graph_Props\<close>): compilation always returns, and refuses exactly the cyclic graphs and
    those without a source.
  \<^item> Bus (\<open>Bus_Props\<close>, over \<open>Bus_Batch\<close> and \<open>Bus_Single\<close>; \<open>Prefilter_Props\<close>): a failed publish reaches
    nobody, an accepted one reaches each subscriber in order and once, and completely where the queues
    can hold a chunk and nobody leaves; publishers do not wait for ever when receivers keep taking;
    a filter does not hold back what \<open>WHERE\<close> accepts where the two compare alike (\<open>plain_cond\<close>).
  \<^item> Schemas (\<open>Coerce_Props\<close>): for the types of known values, coercion keeps the values of the type and
    turns all others into null or such a value; the task in front of a rule hands on, column by
    column, exactly the records its policy lets through.
  \<^item> Delivery (\<open>Delivery_Props\<close>, over \<open>Delivery_Order\<close>): accounting and order for each unbatched action over any run,
    by the locale \<open>action_loop\<close>, which says what a step owes to the loops over the actions of a rule and
    is interpreted for delivering, resending, lingering batches and closing; the ticks that empty the
    cache once a destination answers.
  \<^item> Cache (\<open>SinkCache_Props\<close>, over \<open>SinkCache_Fifo\<close> and \<open>SinkCache_Restart\<close>): first in, first out with
    counted drops, bounds, and the round trip through the disk, all on a disk whose operations succeed.
  \<^item> Codecs (\<open>Codec_Props\<close>, \<open>Protobuf_Props\<close>): delimited rows of plain cells and protobuf messages are read
    back as they were written.
  \<^item> Modbus (\<open>Modbus_Props\<close>, \<open>Modbus_Device\<close>): damaged serial frames are refused, and
    coalesced reads of a device that follows the protocol give what reading each register alone would.

  \<^bold>\<open>Conventions.\<close> Evaluation returns a value, an error or a panic (\<open>res\<close>); state is passed
  explicitly (\<open>ev\<close> for the rule state). A loop that may not end is a partial function into options
  and \<open>None\<close> means that it does not return; the theorems on runs state that the result exists. The
  sizes and bounds are those of the source. Integers are \<open>int\<close> with the saturation or wrap-around
  written out, and \<open>64 word\<close> for the counters of a rule; the drop counter, the page numbers and the
  record count of the cache are \<open>nat\<close>, without the wrap-around that 64 bits have. Timestamps in the theorems on event time keep the
  distance from the ends of the \<open>i64\<close> range that \<open>roomy\<close> says.

  \<^bold>\<open>Parameters.\<close> What the standard library leaves open or what lies in other crates is an argument:
  the scalar function library and the rendering of expressions and numbers (\<open>env\<close>, \<open>wenv\<close>), the
  alphanumeric characters beyond ASCII and the reading of decimals (\<open>lexer\<close>), logarithm
  and exponential (\<open>libm\<close>), RFC 3339 parsing (\<open>rcfg\<close>), the order in which a hash map lists its keys,
  the choice among equally old \<open>ASOF\<close> entries, point lookups in external systems (\<open>lookups\<close>), the
  outcomes of a bounded channel (\<open>channel_outcome\<close>), the disk (\<open>SinkCache\<close>), the store and the codec
  of definitions, the reading of floats, dates and JSON (\<open>coercer\<close>), base64 and the rendering of values
  (\<open>text_env\<close>), the repair of malformed UTF-8 (\<open>wire_env\<close>), the network (\<open>modbus_net\<close>), and what connectors, clocks and
  files do while a sink delivers (\<open>sink_env\<close>).

  \<^bold>\<open>Not modelled.\<close> The other connectors, REST handlers, command line, configuration and MCP server are input,
  output and glue. Of the server's engine, the start-up of sources and the sending of a record by each
  kind of sink are left out; of the runners, the wall-clock latency samples, the \<open>delay\<close> accounting and the checkpoint
  ticker; of the parser, the depth of the machine stack. SQLite is a library.

  \<^bold>\<open>Plan.\<close> Next come the reading of \<open>.proto\<close> files, the validator and the scalar function library.
\<close>

end
